(* ===== verification/Prelude.thy ===== *)
theory Prelude
  imports Main "HOL-Library.Word" "HOL-Library.Char_ord" "HOL-Library.List_Lexorder" "HOL-Library.Sublist"
begin

text \<open>
  What every component shares: Rust's machine integers (\<open>u64\<close> with its checked, saturating
  and wrapping operations), Rust's \<open>Result\<close> as a sum with early return, loops that stop at the
  first error, and the operations of Rust's standard library on UTF-8 strings that the
  components call (\<open>trim\<close>, \<open>to_ascii_lowercase\<close>, \<open>replace\<close>, \<open>starts_with\<close>, \<open>parse::<u64>\<close>,
  decimal formatting).  A Rust \<open>str\<close> is the list of its UTF-8 bytes, written as a HOL
  \<open>string\<close>; Rust compares strings bytewise, which is the lexicographic order of
  \<open>List_Lexorder\<close> over the byte order of \<open>Char_ord\<close>.
\<close>

named_theorems u64_simps \<open>the natural number read by \<open>unat\<close> of an operation on \<open>u64\<close>\<close>
named_theorems res_simps \<open>elimination of \<open>Result\<close> values: binds, loops, error splits\<close>
named_theorems tbl_simps \<open>lookups, updates and counts of ordered tables\<close>

section \<open>Machine integers\<close>

type_synonym u64 = "64 word"

abbreviation u64_max :: u64 where
  "u64_max \<equiv> - 1"

definition checked_add :: "u64 \<Rightarrow> u64 \<Rightarrow> u64 option" where
  "checked_add a b = (if unat a + unat b < 2 ^ 64 then Some (a + b) else None)"

definition saturating_add :: "u64 \<Rightarrow> u64 \<Rightarrow> u64" where
  "saturating_add a b = (if unat a + unat b < 2 ^ 64 then a + b else u64_max)"

definition saturating_sub :: "u64 \<Rightarrow> u64 \<Rightarrow> u64" where
  "saturating_sub a b = (if a < b then 0 else a - b)"

definition saturating_mul :: "u64 \<Rightarrow> u64 \<Rightarrow> u64" where
  "saturating_mul a b = (if unat a * unat b < 2 ^ 64 then a * b else u64_max)"

lemma unat_u64_max [simp, u64_simps]: "unat u64_max = 2 ^ 64 - 1"
  by (simp add: unsigned_minus_1_eq_mask mask_eq_exp_minus_1)

lemma unat_u64_bound: "unat (a :: u64) < 2 ^ 64"
  using unsigned_less [of a] by simp

lemma unat_u64_add: "unat a + unat b < 2 ^ 64 \<Longrightarrow> unat (a + b :: u64) = unat a + unat b"
  by (simp add: unat_word_ariths)

lemma unat_of_nat_u64 [u64_simps]: "n < 2 ^ 64 \<Longrightarrow> unat (of_nat n :: u64) = n"
  by (simp add: unat_of_nat)

lemma checked_add_eq_Some:
  "checked_add a b = Some c \<longleftrightarrow> unat a + unat b < 2 ^ 64 \<and> unat c = unat a + unat b"
  by (auto simp: checked_add_def unat_u64_add intro!: word_unat_eq_iff [THEN iffD2])

lemma checked_add_eq_None: "checked_add a b = None \<longleftrightarrow> 2 ^ 64 \<le> unat a + unat b"
  by (auto simp: checked_add_def)

lemma unat_saturating_add [u64_simps]:
  "unat (saturating_add a b) = min (unat a + unat b) (2 ^ 64 - 1)"
  by (auto simp: saturating_add_def unat_u64_add min_def)

lemma unat_saturating_sub [u64_simps]: "unat (saturating_sub a b) = unat a - unat b"
  by (auto simp: saturating_sub_def word_less_nat_alt unat_sub word_le_nat_alt)

lemma saturating_sub_1: "0 < unat a \<Longrightarrow> saturating_sub a 1 = a - 1"
  by (auto simp: saturating_sub_def word_less_nat_alt)

lemma saturating_add_mono: "a \<le> saturating_add a b"
  using unat_u64_bound [of a] by (simp add: word_le_nat_alt u64_simps)

lemma saturating_add_0 [simp]: "saturating_add a 0 = a"
  using unat_u64_bound [of a] by (simp add: saturating_add_def)

lemma unat_saturating_mul [u64_simps]:
  "unat (saturating_mul a b) = min (unat a * unat b) (2 ^ 64 - 1)"
  by (auto simp: saturating_mul_def unat_word_ariths min_def)

lemma u64_le_iff: "(a :: u64) \<le> b \<longleftrightarrow> unat a \<le> unat b"
  by (rule word_le_nat_alt)

lemma u64_less_iff: "(a :: u64) < b \<longleftrightarrow> unat a < unat b"
  by (rule word_less_nat_alt)

lemma u64_eqI: "unat a = unat b \<Longrightarrow> (a :: u64) = b"
  by (simp add: word_unat_eq_iff)


section \<open>Results and loops\<close>

text \<open>
  A fallible function returns \<open>Inl e\<close> for \<open>Err(e)\<close> and \<open>Inr v\<close> for \<open>Ok(v)\<close>; \<open>?\<close> is
  \<open>rbind\<close>.  \<open>try_fold\<close> is a \<open>for\<close> loop over mutable state that returns at its first error.
\<close>

definition rbind :: "'e + 'a \<Rightarrow> ('a \<Rightarrow> 'e + 'b) \<Rightarrow> 'e + 'b" where
  "rbind r f = (case r of Inl e \<Rightarrow> Inl e | Inr v \<Rightarrow> f v)"

definition ok_or :: "'e \<Rightarrow> 'a option \<Rightarrow> 'e + 'a" where
  "ok_or e x = (case x of None \<Rightarrow> Inl e | Some v \<Rightarrow> Inr v)"

fun try_fold :: "('a \<Rightarrow> 's \<Rightarrow> 'e + 's) \<Rightarrow> 'a list \<Rightarrow> 's \<Rightarrow> 'e + 's" where
  "try_fold f [] s = Inr s"
| "try_fold f (x # xs) s = rbind (f x s) (try_fold f xs)"

lemma rbind_simps [simp]: "rbind (Inl e) f = Inl e" "rbind (Inr v) f = f v"
  by (simp_all add: rbind_def)

lemma rbind_eq_Inr [res_simps]: "rbind r f = Inr b \<longleftrightarrow> (\<exists>a. r = Inr a \<and> f a = Inr b)"
  by (cases r) auto

lemma rbind_eq_Inl [res_simps]:
  "rbind r f = Inl e \<longleftrightarrow> r = Inl e \<or> (\<exists>a. r = Inr a \<and> f a = Inl e)"
  by (cases r) auto

lemma ok_or_eq_Inr [res_simps]: "ok_or e x = Inr v \<longleftrightarrow> x = Some v"
  by (cases x) (auto simp: ok_or_def)

lemma ok_or_eq_Inl [res_simps]: "ok_or e x = Inl e' \<longleftrightarrow> x = None \<and> e' = e"
  by (cases x) (auto simp: ok_or_def)

lemma ok_or_simps [simp]: "ok_or e None = Inl e" "ok_or e (Some v) = Inr v"
  by (simp_all add: ok_or_def)

lemma try_fold_append:
  "try_fold f (xs @ ys) s = rbind (try_fold f xs s) (try_fold f ys)"
  by (induction xs arbitrary: s) (auto simp: rbind_def split: sum.splits)

text \<open>The loop rule: what the body keeps, the loop keeps.\<close>

lemma try_fold_invariant:
  assumes "try_fold f xs s = Inr t" and "I s"
    and "\<And>x s t. x \<in> set xs \<Longrightarrow> I s \<Longrightarrow> f x s = Inr t \<Longrightarrow> I t"
  shows "I t"
  using assms
proof (induction xs arbitrary: s)
  case Nil
  then show ?case by simp
next
  case (Cons x xs)
  from Cons.prems(1) obtain u where u: "f x s = Inr u" "try_fold f xs u = Inr t"
    by (auto simp: res_simps)
  from Cons.prems(2,3) u(1) have "I u" by auto
  from Cons.IH [OF u(2) this] Cons.prems(3) show ?case by auto
qed

text \<open>The same rule with a bound that the remaining work consumes.\<close>

lemma try_fold_invariant_measure:
  assumes "try_fold f xs s = Inr t" and "I (length xs) s"
    and "\<And>x n s t. x \<in> set xs \<Longrightarrow> I (Suc n) s \<Longrightarrow> f x s = Inr t \<Longrightarrow> I n t"
  shows "I 0 t"
  using assms
proof (induction xs arbitrary: s)
  case Nil
  then show ?case by simp
next
  case (Cons x xs)
  from Cons.prems(1) obtain u where u: "f x s = Inr u" "try_fold f xs u = Inr t"
    by (auto simp: res_simps)
  from Cons.prems(2) have "I (Suc (length xs)) s" by simp
  with Cons.prems(3) u(1) have "I (length xs) u" by (meson list.set_intros(1))
  from Cons.IH [OF u(2) this] Cons.prems(3) show ?case by (meson list.set_intros(2))
qed

lemma try_fold_idle: "(\<And>x. x \<in> set xs \<Longrightarrow> f x s = Inr s) \<Longrightarrow> try_fold f xs s = Inr s"
  by (induction xs) auto

text \<open>A loop in which one element acts and every other one passes.\<close>

lemma try_fold_one:
  assumes "distinct xs" "a \<in> set xs" "f a s = Inr t"
    and "\<And>x. x \<in> set xs \<Longrightarrow> x \<noteq> a \<Longrightarrow> f x s = Inr s \<and> f x t = Inr t"
  shows "try_fold f xs s = Inr t"
proof -
  from assms(2) obtain ys zs where xs: "xs = ys @ a # zs" by (auto simp: in_set_conv_decomp)
  with assms(1) have "a \<notin> set ys" "a \<notin> set zs" by auto
  with assms(4) xs have "try_fold f ys s = Inr s" "try_fold f zs t = Inr t"
    by (auto intro!: try_fold_idle)
  with assms(3) show ?thesis by (simp add: xs try_fold_append)
qed

lemma fold_invariant_set:
  assumes "I s" and "\<And>x s. x \<in> set xs \<Longrightarrow> I s \<Longrightarrow> I (f x s)"
  shows "I (fold f xs s)"
  using assms by (induction xs arbitrary: s) auto


section \<open>Strings\<close>

text \<open>
  \<open>char::is_whitespace\<close> of Rust, as the UTF-8 encodings of the characters with the Unicode
  property White_Space.  No encoding is a proper part of another character's encoding, so
  stripping byte sequences is stripping characters.
\<close>

definition ws_seqs :: "string list" where
  "ws_seqs =
     [[CHR 0x09], [CHR 0x0A], [CHR 0x0B], [CHR 0x0C], [CHR 0x0D], [CHR 0x20],
      [CHR 0xC2, CHR 0x85], [CHR 0xC2, CHR 0xA0], [CHR 0xE1, CHR 0x9A, CHR 0x80]]
     @ map (\<lambda>c. [CHR 0xE2, CHR 0x80, c])
        [CHR 0x80, CHR 0x81, CHR 0x82, CHR 0x83, CHR 0x84, CHR 0x85, CHR 0x86, CHR 0x87,
         CHR 0x88, CHR 0x89, CHR 0x8A, CHR 0xA8, CHR 0xA9, CHR 0xAF]
     @ [[CHR 0xE2, CHR 0x81, CHR 0x9F], [CHR 0xE3, CHR 0x80, CHR 0x80]]"

function strip_seqs :: "string list \<Rightarrow> string \<Rightarrow> string" where
  "strip_seqs ws s =
     (case List.find (\<lambda>w. w \<noteq> [] \<and> prefix w s) ws of
        None \<Rightarrow> s
      | Some w \<Rightarrow> strip_seqs ws (drop (length w) s))"
  by pat_completeness auto
termination
  by (relation "measure (\<lambda>(ws, s). length s)")
    (auto simp: find_Some_iff dest!: prefix_length_le intro!: diff_less dest: length_greater_0_conv [THEN iffD2])

declare strip_seqs.simps [simp del]

definition trim_start :: "string \<Rightarrow> string" where
  "trim_start s = strip_seqs ws_seqs s"

definition trim_end :: "string \<Rightarrow> string" where
  "trim_end s = rev (strip_seqs (map rev ws_seqs) (rev s))"

definition trim :: "string \<Rightarrow> string" where
  "trim s = trim_end (trim_start s)"

definition blank :: "string \<Rightarrow> bool" where
  "blank s \<longleftrightarrow> trim s = []"

definition to_ascii_lowercase :: "string \<Rightarrow> string" where
  "to_ascii_lowercase s =
     map (\<lambda>c. if CHR ''A'' \<le> c \<and> c \<le> CHR ''Z'' then char_of (of_char c + 32 :: nat) else c) s"

text \<open>\<open>s.replace([c, ...], "d")\<close> for one-byte characters.\<close>

definition replace_chars :: "char list \<Rightarrow> char \<Rightarrow> string \<Rightarrow> string" where
  "replace_chars cs d s = map (\<lambda>c. if c \<in> set cs then d else c) s"

text \<open>\<open>s.chars().take(n).collect()\<close>: a character is a byte and its continuation bytes.\<close>

definition utf8_cont :: "char \<Rightarrow> bool" where
  "utf8_cont c \<longleftrightarrow> 128 \<le> (of_char c :: nat) \<and> (of_char c :: nat) < 192"

fun take_chars :: "nat \<Rightarrow> string \<Rightarrow> string" where
  "take_chars 0 s = []"
| "take_chars (Suc n) [] = []"
| "take_chars (Suc n) (c # s) =
     c # takeWhile utf8_cont s @ take_chars n (dropWhile utf8_cont s)"

text \<open>Decimal formatting (\<open>{n}\<close> and \<open>{n:0w}\<close>) and \<open>str::parse::<u64>\<close>.\<close>

definition digit :: "nat \<Rightarrow> char" where
  "digit d = char_of (48 + d)"

definition digit_val :: "char \<Rightarrow> nat" where
  "digit_val c = of_char c - 48"

definition is_digit :: "char \<Rightarrow> bool" where
  "is_digit c \<longleftrightarrow> CHR ''0'' \<le> c \<and> c \<le> CHR ''9''"

fun nat_dec :: "nat \<Rightarrow> string" where
  "nat_dec n = (if n < 10 then [digit n] else nat_dec (n div 10) @ [digit (n mod 10)])"

declare nat_dec.simps [simp del]

definition fmt0 :: "nat \<Rightarrow> nat \<Rightarrow> string" where
  "fmt0 w n = replicate (w - length (nat_dec n)) (CHR ''0'') @ nat_dec n"

definition digits_val :: "string \<Rightarrow> nat" where
  "digits_val s = foldl (\<lambda>n c. 10 * n + digit_val c) 0 s"

definition parse_u64 :: "string \<Rightarrow> u64 option" where
  "parse_u64 s =
     (let ds = (case s of [] \<Rightarrow> s | c # r \<Rightarrow> if c = CHR ''+'' then r else s)
      in if ds \<noteq> [] \<and> list_all is_digit ds \<and> digits_val ds < 2 ^ 64
         then Some (of_nat (digits_val ds)) else None)"

lemma strip_seqs_no_prefix:
  "w \<in> set ws \<Longrightarrow> w \<noteq> [] \<Longrightarrow> \<not> prefix w (strip_seqs ws s)"
proof (induction ws s rule: strip_seqs.induct)
  case (1 ws s)
  show ?case
  proof (cases "List.find (\<lambda>w. w \<noteq> [] \<and> prefix w s) ws")
    case None
    with "1.prems" show ?thesis
      by (simp add: strip_seqs.simps [of ws s]) (auto simp: find_None_iff)
  next
    case (Some v)
    with 1 show ?thesis by (simp add: strip_seqs.simps [of ws s])
  qed
qed

lemma strip_seqs_idle:
  "(\<And>w. w \<in> set ws \<Longrightarrow> w \<noteq> [] \<Longrightarrow> \<not> prefix w s) \<Longrightarrow> strip_seqs ws s = s"
  by (subst strip_seqs.simps)
    (fastforce simp: find_None_iff find_Some_iff split: option.splits)

lemma strip_seqs_idem [simp]: "strip_seqs ws (strip_seqs ws s) = strip_seqs ws s"
  by (rule strip_seqs_idle) (rule strip_seqs_no_prefix)

lemma strip_seqs_suffix: "suffix (strip_seqs ws s) s"
proof (induction ws s rule: strip_seqs.induct)
  case (1 ws s)
  show ?case
  proof (cases "List.find (\<lambda>w. w \<noteq> [] \<and> prefix w s) ws")
    case None
    then show ?thesis by (simp add: strip_seqs.simps [of ws s])
  next
    case (Some v)
    with 1 have "suffix (strip_seqs ws (drop (length v) s)) (drop (length v) s)" by simp
    with Some show ?thesis
      by (simp add: strip_seqs.simps [of ws s]) (meson suffix_drop suffix_order.trans)
  qed
qed

lemma trim_end_prefix: "prefix (trim_end s) s"
  using strip_seqs_suffix [of "map rev ws_seqs" "rev s"]
  by (simp add: trim_end_def suffix_to_prefix)

lemma trim_start_idle: "prefix t (trim_start s) \<Longrightarrow> trim_start t = t"
  unfolding trim_start_def
  by (rule strip_seqs_idle) (meson prefix_order.trans strip_seqs_no_prefix)

lemma trim_idem [simp]: "trim (trim s) = trim s"
proof -
  have "trim_start (trim s) = trim s"
    unfolding trim_def by (rule trim_start_idle) (rule trim_end_prefix)
  then show ?thesis by (simp add: trim_def trim_end_def)
qed

lemma trim_Nil [simp]: "trim [] = []"
proof -
  have "strip_seqs ws [] = []" for ws
    using strip_seqs_suffix [of ws "[]"] by simp
  then show ?thesis by (simp add: trim_def trim_end_def trim_start_def)
qed

lemma blank_Nil [simp]: "blank []"
  by (simp add: blank_def)

lemma not_blank_trim: "\<not> blank (trim s) \<longleftrightarrow> \<not> blank s"
  by (simp add: blank_def)

subsection \<open>Decimal numbers\<close>

lemma digit_val_digit [simp]: "d < 10 \<Longrightarrow> digit_val (digit d) = d"
  by (simp add: digit_val_def digit_def)

lemma is_digit_digit [simp]: "d < 10 \<Longrightarrow> is_digit (digit d)"
  by (simp add: is_digit_def digit_def less_eq_char_def)

lemma digit_less: "d < 10 \<Longrightarrow> e < 10 \<Longrightarrow> digit d < digit e \<longleftrightarrow> d < e"
  by (simp add: digit_def less_char_def)

lemma digit_inject: "d < 10 \<Longrightarrow> e < 10 \<Longrightarrow> digit d = digit e \<longleftrightarrow> d = e"
  by (metis digit_val_digit)

lemma digit_0: "digit 0 = CHR ''0''"
  by (simp add: digit_def char_of_eq_iff)

fun dec_fixed :: "nat \<Rightarrow> nat \<Rightarrow> string" where
  "dec_fixed 0 n = []"
| "dec_fixed (Suc w) n = dec_fixed w (n div 10) @ [digit (n mod 10)]"

lemma length_dec_fixed [simp]: "length (dec_fixed w n) = w"
  by (induction w arbitrary: n) auto

lemma dec_fixed_0: "dec_fixed w 0 = replicate w (CHR ''0'')"
proof (induction w)
  case (Suc w)
  have "replicate (Suc w) (CHR ''0'') = replicate w (CHR ''0'') @ [CHR ''0'']"
    by (simp flip: replicate_append_same)
  with Suc show ?case by (simp add: digit_0)
qed simp

lemma fmt0_fixed: "0 < w \<Longrightarrow> n < 10 ^ w \<Longrightarrow> fmt0 w n = dec_fixed w n"
proof (induction w arbitrary: n)
  case (Suc w)
  show ?case
  proof (cases "n < 10")
    case True
    then show ?thesis by (simp add: fmt0_def nat_dec.simps dec_fixed_0)
  next
    case False
    with Suc.prems have "0 < w" "n div 10 < 10 ^ w" by (cases w, auto)
    from Suc.IH [OF this] False show ?thesis
      by (simp add: fmt0_def nat_dec.simps [of n])
  qed
qed simp

lemma list_all_dec_fixed: "list_all is_digit (dec_fixed w n)"
  by (induction w arbitrary: n) auto

lemma digits_val_snoc: "digits_val (s @ [c]) = 10 * digits_val s + digit_val c"
  by (simp add: digits_val_def)

lemma digits_val_fixed: "n < 10 ^ w \<Longrightarrow> digits_val (dec_fixed w n) = n"
proof (induction w arbitrary: n)
  case 0
  then show ?case by (simp add: digits_val_def)
next
  case (Suc w)
  then have "n div 10 < 10 ^ w" by auto
  with Suc.IH show ?case by (simp add: digits_val_snoc)
qed

lemma append_less_append:
  fixes xs ys us vs :: "'a::linorder list"
  shows "length xs = length ys \<Longrightarrow> xs @ us < ys @ vs \<longleftrightarrow> xs < ys \<or> xs = ys \<and> us < vs"
  by (induction xs ys rule: list_induct2) auto

lemma div_mod_10_less:
  fixes a b c d :: nat
  shows "b < 10 \<Longrightarrow> d < 10 \<Longrightarrow> 10 * a + b < 10 * c + d \<longleftrightarrow> a < c \<or> a = c \<and> b < d"
  by auto

lemma dec_fixed_less: "n < 10 ^ w \<Longrightarrow> m < 10 ^ w \<Longrightarrow> dec_fixed w n < dec_fixed w m \<longleftrightarrow> n < m"
  and dec_fixed_inject: "n < 10 ^ w \<Longrightarrow> m < 10 ^ w \<Longrightarrow> dec_fixed w n = dec_fixed w m \<longleftrightarrow> n = m"
proof (induction w arbitrary: n m)
  case (Suc w)
  { case 1
    then have b: "n div 10 < 10 ^ w" "m div 10 < 10 ^ w" by auto
    have "n < m \<longleftrightarrow> n div 10 < m div 10 \<or> n div 10 = m div 10 \<and> n mod 10 < m mod 10"
      using div_mod_10_less [of "n mod 10" "m mod 10" "n div 10" "m div 10"] by simp
    with Suc.IH [OF b] show ?case
      by (simp add: append_less_append digit_less)
  next
    case 2
    then have b: "n div 10 < 10 ^ w" "m div 10 < 10 ^ w" by auto
    have "n = m \<longleftrightarrow> n div 10 = m div 10 \<and> n mod 10 = m mod 10"
      by (metis mult_div_mod_eq)
    with Suc.IH [OF b] show ?case by (simp add: digit_inject)
  }
qed auto

lemma parse_u64_digits:
  assumes "list_all is_digit s" "s \<noteq> []" "digits_val s < 2 ^ 64"
  shows "parse_u64 s = Some (of_nat (digits_val s))"
proof -
  have "\<not> is_digit (CHR ''+'')" by (simp add: is_digit_def less_eq_char_def)
  with assms show ?thesis by (cases s) (auto simp: parse_u64_def)
qed

lemma parse_u64_fmt0:
  assumes "0 < w" "unat n < 10 ^ w"
  shows "parse_u64 (fmt0 w (unat n)) = Some n"
proof -
  from assms have "dec_fixed w (unat n) \<noteq> []" by (cases w) auto
  moreover from assms have "digits_val (dec_fixed w (unat n)) < 2 ^ 64"
    using unat_u64_bound [of n] by (simp add: digits_val_fixed)
  ultimately show ?thesis
    using assms by (simp add: fmt0_fixed parse_u64_digits list_all_dec_fixed digits_val_fixed)
qed

lemma list_all_nat_dec: "list_all is_digit (nat_dec n)"
  by (induction n rule: nat_dec.induct) (subst nat_dec.simps, auto)

lemma digits_val_nat_dec: "digits_val (nat_dec n) = n"
proof (induction n rule: nat_dec.induct)
  case (1 n)
  show ?case
  proof (cases "n < 10")
    case True
    then show ?thesis by (simp add: nat_dec.simps digits_val_def)
  next
    case False
    with 1 show ?thesis by (simp add: nat_dec.simps [of n] digits_val_snoc)
  qed
qed

lemma digits_val_zeros: "digits_val (replicate k (CHR ''0'') @ s) = digits_val s"
  by (induction k) (simp_all add: digits_val_def digit_val_def)

lemma digits_val_fmt0 [simp]: "digits_val (fmt0 w n) = n"
  by (simp add: fmt0_def digits_val_zeros digits_val_nat_dec)

lemma fmt0_inject: "fmt0 w n = fmt0 w m \<longleftrightarrow> n = m"
  by (metis digits_val_fmt0)

lemma list_all_fmt0: "list_all is_digit (fmt0 w n)"
proof -
  have "is_digit (CHR ''0'')" by (simp add: is_digit_def less_eq_char_def)
  then show ?thesis using list_all_nat_dec [of n] by (auto simp: fmt0_def list_all_iff)
qed

lemma nat_dec_not_Nil [simp]: "nat_dec n \<noteq> []"
  by (subst nat_dec.simps) auto

lemma fmt0_not_Nil [simp]: "fmt0 w n \<noteq> []"
  by (simp add: fmt0_def)

end
