(* ===== verification/Tables.thy ===== *)
theory Tables
  imports Prelude "HOL-Library.Multiset"
begin

text \<open>
  Ordered tables.  The stores of the program keep their rows in redb tables and \<open>BTreeMap\<close>s:
  finite maps iterated in key order.  The interface is the locale \<open>kv_table\<close> (lookup, insert,
  remove, the rows in order); its clients count rows by a predicate on the value, which is how
  the ledgers' counters are specified.  The implementation the components use is the strictly
  sorted association list, and it is interpreted here once.
\<close>

section \<open>The interface\<close>

locale kv_table =
  fixes get :: "'t \<Rightarrow> 'k \<Rightarrow> 'v option"
    and put :: "'k \<Rightarrow> 'v \<Rightarrow> 't \<Rightarrow> 't"
    and del :: "'k \<Rightarrow> 't \<Rightarrow> 't"
    and rows :: "'t \<Rightarrow> ('k \<times> 'v) list"
    and wf :: "'t \<Rightarrow> bool"
  assumes wf_put: "wf t \<Longrightarrow> wf (put k v t)"
    and wf_del: "wf t \<Longrightarrow> wf (del k t)"
    and get_put: "wf t \<Longrightarrow> get (put k v t) = (get t)(k \<mapsto> v)"
    and get_del: "wf t \<Longrightarrow> get (del k t) = (get t)(k := None)"
    and get_rows: "wf t \<Longrightarrow> get t k = Some v \<longleftrightarrow> (k, v) \<in> set (rows t)"
    and distinct_rows: "wf t \<Longrightarrow> distinct (map fst (rows t))"
begin

lemma finite_get: "wf t \<Longrightarrow> finite {k. \<exists>v. get t k = Some v \<and> P v}"
  by (rule finite_subset [of _ "fst ` set (rows t)"]) (force simp: get_rows)+

lemma count_card:
  assumes "wf t"
  shows "length (filter (\<lambda>r. P (snd r)) (rows t)) = card {k. \<exists>v. get t k = Some v \<and> P v}"
proof -
  let ?fs = "filter (\<lambda>r. P (snd r)) (rows t)"
  from distinct_rows [OF assms] have "distinct (map fst ?fs)"
    by (simp add: distinct_map_filter)
  then have "length ?fs = card (fst ` set ?fs)"
    by (metis distinct_card length_map set_map)
  also have "fst ` set ?fs = {k. \<exists>v. get t k = Some v \<and> P v}"
    by (force simp: get_rows [OF assms])
  finally show ?thesis .
qed

lemma count_put:
  assumes "wf t"
  shows "length (filter (\<lambda>r. P (snd r)) (rows (put k v t)))
           + (case get t k of Some w \<Rightarrow> if P w then 1 else 0 | None \<Rightarrow> 0)
         = length (filter (\<lambda>r. P (snd r)) (rows t)) + (if P v then 1 else 0)"
proof -
  let ?S = "{k. \<exists>v. get t k = Some v \<and> P v}"
  have fin: "finite ?S" by (rule finite_get [OF assms])
  have "{k'. \<exists>w. get (put k v t) k' = Some w \<and> P w} = (if P v then insert k ?S else ?S - {k})"
    by (auto simp: get_put [OF assms])
  moreover have "k \<in> ?S \<longleftrightarrow> (\<exists>w. get t k = Some w \<and> P w)" by simp
  ultimately show ?thesis
    using fin card_Suc_Diff1 [OF fin, of k]
    by (auto simp: count_card wf_put assms card_insert_if split: option.splits)
qed

lemma count_del:
  assumes "wf t"
  shows "length (filter (\<lambda>r. P (snd r)) (rows (del k t)))
           + (case get t k of Some w \<Rightarrow> if P w then 1 else 0 | None \<Rightarrow> 0)
         = length (filter (\<lambda>r. P (snd r)) (rows t))"
proof -
  let ?S = "{k. \<exists>v. get t k = Some v \<and> P v}"
  have fin: "finite ?S" by (rule finite_get [OF assms])
  have "{k'. \<exists>w. get (del k t) k' = Some w \<and> P w} = ?S - {k}"
    by (auto simp: get_del [OF assms])
  then show ?thesis
    using fin card_Suc_Diff1 [OF fin, of k]
    by (auto simp: count_card wf_del assms split: option.splits)
qed

lemma rows_put_length:
  "wf t \<Longrightarrow> length (rows (put k v t)) = length (rows t) + (if get t k = None then 1 else 0)"
  using count_put [of t "\<lambda>_. True" k v] by (auto split: option.splits)

end

section \<open>Sorted association lists\<close>

type_synonym ('k, 'v) table = "('k \<times> 'v) list"

abbreviation tget :: "('k, 'v) table \<Rightarrow> 'k \<Rightarrow> 'v option" where
  "tget \<equiv> map_of"

fun tput :: "'k::linorder \<Rightarrow> 'v \<Rightarrow> ('k, 'v) table \<Rightarrow> ('k, 'v) table" where
  "tput k v [] = [(k, v)]"
| "tput k v (r # t) =
     (if k < fst r then (k, v) # r # t
      else if k = fst r then (k, v) # t
      else r # tput k v t)"

fun tdel :: "'k::linorder \<Rightarrow> ('k, 'v) table \<Rightarrow> ('k, 'v) table" where
  "tdel k [] = []"
| "tdel k (r # t) = (if k = fst r then t else r # tdel k t)"

definition tsorted :: "('k::linorder, 'v) table \<Rightarrow> bool" where
  "tsorted t \<longleftrightarrow> sorted_wrt (<) (map fst t)"

definition tcount :: "('v \<Rightarrow> bool) \<Rightarrow> ('k, 'v) table \<Rightarrow> nat" where
  "tcount P t = length (filter (\<lambda>r. P (snd r)) t)"

lemma tsorted_Nil [simp]: "tsorted []"
  by (simp add: tsorted_def)

lemma tsorted_Cons: "tsorted (r # t) \<longleftrightarrow> (\<forall>k \<in> fst ` set t. fst r < k) \<and> tsorted t"
  by (auto simp: tsorted_def)

lemma tsorted_distinct: "tsorted t \<Longrightarrow> distinct (map fst t)"
  by (simp add: tsorted_def strict_sorted_iff)

lemma fst_set_tput: "fst ` set (tput k v t) = insert k (fst ` set t)"
  by (induction t) auto

lemma tsorted_tput [simp, tbl_simps]: "tsorted t \<Longrightarrow> tsorted (tput k v t)"
  by (induction t) (auto simp: tsorted_Cons fst_set_tput)

lemma tget_tput [simp, tbl_simps]: "tget (tput k v t) = (tget t)(k \<mapsto> v)"
  by (induction t) auto

lemma tput_tput [simp]: "tput k v (tput k w t) = tput k v t"
  by (induction t) auto

lemma set_tdel_subset: "set (tdel k t) \<subseteq> set t"
  by (induction t) auto

lemma tsorted_tdel [simp, tbl_simps]: "tsorted t \<Longrightarrow> tsorted (tdel k t)"
  using set_tdel_subset by (induction t) (fastforce simp: tsorted_Cons)+

lemma tget_tdel [simp, tbl_simps]: "tsorted t \<Longrightarrow> tget (tdel k t) = (tget t)(k := None)"
proof (induction t)
  case (Cons r t)
  then have "fst r = k \<Longrightarrow> tget t k = None"
    by (auto simp: tsorted_Cons map_of_eq_None_iff)
  with Cons show ?case by (cases r) (auto simp: tsorted_Cons)
qed simp

interpretation tbl: kv_table tget tput tdel "\<lambda>t. t" "tsorted :: ('k::linorder, 'v) table \<Rightarrow> bool"
proof unfold_locales
  show "tget t k = Some v \<longleftrightarrow> (k, v) \<in> set t" if "tsorted t" for t :: "('k, 'v) table" and k v
    using tsorted_distinct [OF that] by simp
qed (auto simp: tsorted_distinct)

lemma tcount_card: "tsorted t \<Longrightarrow> tcount P t = card {k. \<exists>v. tget t k = Some v \<and> P v}"
  unfolding tcount_def by (rule tbl.count_card)

lemma tcount_tput:
  "tsorted t \<Longrightarrow> tcount P (tput k v t) + (case tget t k of Some w \<Rightarrow> if P w then 1 else 0 | None \<Rightarrow> 0)
     = tcount P t + (if P v then 1 else 0)"
  unfolding tcount_def by (rule tbl.count_put)

lemma tcount_fresh [tbl_simps]:
  "tsorted t \<Longrightarrow> tget t k = None \<Longrightarrow> tcount P (tput k v t) = tcount P t + (if P v then 1 else 0)"
  using tcount_tput [of t P k v] by simp

lemma tcount_update:
  "tsorted t \<Longrightarrow> tget t k = Some w \<Longrightarrow>
     tcount P (tput k v t) + (if P w then 1 else 0) = tcount P t + (if P v then 1 else 0)"
  using tcount_tput [of t P k v] by simp

lemma tcount_pos: "tsorted t \<Longrightarrow> tget t k = Some w \<Longrightarrow> P w \<Longrightarrow> 0 < tcount P t"
  by (force simp: tcount_def filter_empty_conv dest!: map_of_SomeD)

lemma length_tput [tbl_simps]:
  "tsorted t \<Longrightarrow> length (tput k v t) = length t + (if tget t k = None then 1 else 0)"
  by (rule tbl.rows_put_length)

lemma tcount_le_length: "tcount P t \<le> length t"
  by (simp add: tcount_def)

lemma rows_by_key:
  "distinct (map fst t) \<Longrightarrow> map (\<lambda>k. (k, the (tget t k))) (map fst t) = t"
  by (auto simp: comp_def intro!: map_idI)

text \<open>Two sorted tables with the same lookups are the same table.\<close>

lemma tsorted_unique: "tsorted s \<Longrightarrow> tsorted t \<Longrightarrow> tget s = tget t \<Longrightarrow> s = t"
proof -
  assume a: "tsorted s" "tsorted t" "tget s = tget t"
  from a(3) have "fst ` set s = fst ` set t"
    by (metis dom_map_of_conv_image_fst)
  with a(1,2) have "map fst s = map fst t"
    unfolding tsorted_def by (intro strict_sorted_equal) auto
  moreover from a(1,2) have "distinct (map fst s)" "distinct (map fst t)"
    by (simp_all add: tsorted_distinct)
  ultimately show "s = t" using a(3) by (metis rows_by_key)
qed


lemma mset_tput_fresh: "tget t k = None \<Longrightarrow> mset (tput k v t) = add_mset (k, v) (mset t)"
  by (induction t) (auto split: if_splits)

lemma mset_tput_update:
  "tsorted t \<Longrightarrow> tget t k = Some w \<Longrightarrow> add_mset (k, w) (mset (tput k v t)) = add_mset (k, v) (mset t)"
proof (induction t)
  case (Cons r t)
  show ?case
  proof (cases "k = fst r")
    case False
    with Cons.prems have "tget t k = Some w" by (cases r) auto
    moreover from this Cons.prems have "\<not> k < fst r" by (force simp: tsorted_Cons dest: map_of_SomeD)
    ultimately show ?thesis using Cons False by (simp add: tsorted_Cons add_mset_commute)
  qed (use Cons.prems in \<open>cases r; auto\<close>)
qed simp

text \<open>The last key is the greatest one.\<close>

lemma tsorted_last: "tsorted t \<Longrightarrow> tget t k = Some v \<Longrightarrow> k \<le> fst (last t)"
proof (cases "t = []")
  case False
  assume a: "tsorted t" "tget t k = Some v"
  from a(2) have "(k, v) \<in> set t" by (rule map_of_SomeD)
  moreover from False have "sorted (map fst (butlast t) @ [fst (last t)])"
    using a(1) by (metis append_butlast_last_id list.simps(8,9) map_append strict_sorted_iff tsorted_def)
  moreover from False have "set t = set (butlast t @ [last t])" by simp
  ultimately show ?thesis by (cases "last t") (auto simp: sorted_append)
qed auto

end
