(* ===== verification/Json.thy ===== *)
theory Json
  imports Tables
begin

text \<open>
  JSON values as the program holds them (\<open>serde_json::Value\<close>): a number keeps the variant it
  was parsed to, an object is a key-ordered map without duplicate keys.  The accessors are the
  ones the program calls; each returns \<open>None\<close> where the Rust accessor does.
\<close>

datatype number = PosInt u64 | NegInt u64 | Float u64

text \<open>
  \<open>NegInt\<close> holds the two's complement of a negative \<open>i64\<close> and \<open>Float\<close> the bits of an \<open>f64\<close>.
\<close>

datatype json =
    Null
  | Bool bool
  | Number number
  | String string
  | Array "json list"
  | Object "(string \<times> json) list"

fun as_str :: "json \<Rightarrow> string option" where
  "as_str (String s) = Some s"
| "as_str _ = None"

fun as_bool :: "json \<Rightarrow> bool option" where
  "as_bool (Bool b) = Some b"
| "as_bool _ = None"

fun as_u64 :: "json \<Rightarrow> u64 option" where
  "as_u64 (Number (PosInt n)) = Some n"
| "as_u64 _ = None"

fun as_i64 :: "json \<Rightarrow> int option" where
  "as_i64 (Number (PosInt n)) = (if uint n < 2 ^ 63 then Some (uint n) else None)"
| "as_i64 (Number (NegInt n)) = Some (sint n)"
| "as_i64 _ = None"

fun as_array :: "json \<Rightarrow> json list option" where
  "as_array (Array xs) = Some xs"
| "as_array _ = None"

fun as_object :: "json \<Rightarrow> (string \<times> json) list option" where
  "as_object (Object m) = Some m"
| "as_object _ = None"

fun jget :: "json \<Rightarrow> string \<Rightarrow> json option" where
  "jget (Object m) k = tget m k"
| "jget _ k = None"

text \<open>
  \<open>Value::pointer\<close> on a path of member names.  The paths of the program have no numeric
  segment, so a segment never indexes an array.
\<close>

fun pointer :: "json \<Rightarrow> string list \<Rightarrow> json option" where
  "pointer v [] = Some v"
| "pointer v (k # ks) = (case jget v k of None \<Rightarrow> None | Some w \<Rightarrow> pointer w ks)"

definition get_str :: "json \<Rightarrow> string \<Rightarrow> string option" where
  "get_str v k = Option.bind (jget v k) as_str"

definition get_bool :: "json \<Rightarrow> string \<Rightarrow> bool option" where
  "get_bool v k = Option.bind (jget v k) as_bool"

definition get_u64 :: "json \<Rightarrow> string \<Rightarrow> u64 option" where
  "get_u64 v k = Option.bind (jget v k) as_u64"

definition get_array :: "json \<Rightarrow> string \<Rightarrow> json list" where
  "get_array v k = (case Option.bind (jget v k) as_array of None \<Rightarrow> [] | Some xs \<Rightarrow> xs)"

definition ptr_str :: "json \<Rightarrow> string list \<Rightarrow> string option" where
  "ptr_str v p = Option.bind (pointer v p) as_str"

text \<open>\<open>.filter(|value| !value.trim().is_empty())\<close>\<close>

definition non_blank :: "string option \<Rightarrow> string option" where
  "non_blank x = (case x of Some s \<Rightarrow> if blank s then None else Some s | None \<Rightarrow> None)"

definition or_else :: "'a option \<Rightarrow> 'a option \<Rightarrow> 'a option" where
  "or_else x y = (case x of None \<Rightarrow> y | Some v \<Rightarrow> Some v)"

text \<open>\<open>value.get("function").unwrap_or(value)\<close>, the tool wrapper of Chat Completions.\<close>

definition unwrap_function :: "json \<Rightarrow> json" where
  "unwrap_function v = (case jget v ''function'' of Some f \<Rightarrow> f | None \<Rightarrow> v)"

text \<open>\<open>json!({...})\<close>: an object from its members, and an \<open>Option\<close> member.\<close>

definition json_object :: "(string \<times> json) list \<Rightarrow> json" where
  "json_object kvs = Object (fold (\<lambda>kv. tput (fst kv) (snd kv)) kvs [])"

definition json_opt :: "json option \<Rightarrow> json" where
  "json_opt x = (case x of None \<Rightarrow> Null | Some v \<Rightarrow> v)"

lemma non_blank_eq_Some: "non_blank x = Some s \<longleftrightarrow> x = Some s \<and> \<not> blank s"
  by (auto simp: non_blank_def split: option.splits)

lemma non_blank_idem [simp]: "non_blank (non_blank x) = non_blank x"
  by (auto simp: non_blank_def split: option.splits)

lemma or_else_simps [simp]: "or_else None y = y" "or_else (Some v) y = Some v" "or_else x None = x"
  by (simp_all add: or_else_def split: option.splits)

lemma pointer_append: "pointer v (p @ q) = Option.bind (pointer v p) (\<lambda>w. pointer w q)"
  by (induction p arbitrary: v) (auto split: option.splits)

lemma jget_size: "jget v k = Some w \<Longrightarrow> size w < size v"
proof (cases v)
  case (Object m)
  assume "jget v k = Some w"
  with Object have "(k, w) \<in> set m" by (auto dest: map_of_SomeD)
  then have "size w < size_list (\<lambda>p. size (snd p)) m"
    by (induction m) auto
  also have "size_list (\<lambda>p. size (snd p)) m \<le> size_list (size_prod (\<lambda>_. 0) size) m"
    by (induction m) (auto simp: size_prod_simp)
  finally show ?thesis using Object by simp
qed auto

lemma get_array_size: "w \<in> set (get_array v k) \<Longrightarrow> size w < size v"
proof -
  assume w: "w \<in> set (get_array v k)"
  then obtain xs where xs: "jget v k = Some (Array xs)" "w \<in> set xs"
    by (cases "jget v k")
      (auto simp: get_array_def split: option.splits elim!: as_array.elims [OF sym])
  then have "size w < size (Array xs)"
    using size_list_estimation' [of w xs "size w" size] by simp
  with jget_size [OF xs(1)] show ?thesis by simp
qed

end
