(* ===== verification/Lifecycle.thy ===== *)
theory Lifecycle
  imports Prelude
begin

text \<open>
  Lifecycle boundaries of a Session (\<open>lifecycle.rs\<close>): event names are normalised, classified
  as a start or a terminal boundary, and counted with a check that starts and terminals come in
  pairs.  The abstract contract is the alternation of starts and terminals, \<open>alternates\<close>.
\<close>

section \<open>The state and its operations\<close>

datatype boundary = Start | Terminal

record lifecycle_state =
  boundary_source :: string
  start_count :: u64
  terminal_count :: u64
  invalid_boundary_count :: u64
  latest_epoch_closed :: bool
  latest_boundary :: "string option"
  latest_boundary_capture_id :: "string option"

definition lifecycle_new :: "string \<Rightarrow> lifecycle_state" where
  "lifecycle_new src =
     \<lparr>boundary_source = src, start_count = 0, terminal_count = 0, invalid_boundary_count = 0,
      latest_epoch_closed = False, latest_boundary = None, latest_boundary_capture_id = None\<rparr>"

definition normalize_event :: "string \<Rightarrow> string" where
  "normalize_event event =
     replace_chars [CHR ''-'', CHR ''.'', CHR '' '', CHR '':''] (CHR ''_'')
       (to_ascii_lowercase (trim event))"

definition start_events :: "string list" where
  "start_events = [''session_start'', ''session_started'', ''task_start'', ''task_started'']"

definition terminal_events :: "string list" where
  "terminal_events =
     [''session_end'', ''session_ended'', ''task_end'', ''task_ended'', ''task_completed'',
      ''cancel'', ''cancelled'', ''canceled'', ''terminated'', ''abort'', ''aborted'',
      ''abandoned'']"

definition terminal_prefixes :: "string list" where
  "terminal_prefixes = [''session_cancel'', ''task_cancel'', ''session_fail'', ''task_fail'']"

definition is_start_event :: "string \<Rightarrow> bool" where
  "is_start_event event \<longleftrightarrow> normalize_event event \<in> set start_events"

definition is_terminal_event :: "string \<Rightarrow> bool" where
  "is_terminal_event event \<longleftrightarrow>
     (let event = normalize_event event
      in event \<in> set terminal_events \<or> list_ex (\<lambda>p. prefix p event) terminal_prefixes)"

definition observe :: "boundary \<Rightarrow> string \<Rightarrow> string \<Rightarrow> bool \<Rightarrow> lifecycle_state \<Rightarrow> lifecycle_state" where
  "observe b event capture_id require_pair st =
     (let st = (case b of
          Start \<Rightarrow>
            (let st = (if require_pair \<and> start_count st > terminal_count st
                       then st\<lparr>invalid_boundary_count := saturating_add (invalid_boundary_count st) 1\<rparr>
                       else st)
             in st\<lparr>start_count := saturating_add (start_count st) 1,
                   latest_epoch_closed := False\<rparr>)
        | Terminal \<Rightarrow>
            (let st = st\<lparr>terminal_count := saturating_add (terminal_count st) 1\<rparr>
             in if require_pair \<and> start_count st < terminal_count st
                then st\<lparr>invalid_boundary_count := saturating_add (invalid_boundary_count st) 1,
                        latest_epoch_closed := False\<rparr>
                else st\<lparr>latest_epoch_closed := True\<rparr>))
      in st\<lparr>latest_boundary := Some (normalize_event event),
            latest_boundary_capture_id := Some capture_id\<rparr>)"

definition observe_event :: "string \<Rightarrow> string \<Rightarrow> bool \<Rightarrow> lifecycle_state \<Rightarrow> bool \<times> lifecycle_state" where
  "observe_event event capture_id require_pair st =
     (let event = normalize_event event
      in if is_start_event event then (False, observe Start event capture_id require_pair st)
         else if is_terminal_event event then (True, observe Terminal event capture_id require_pair st)
         else (False, st))"

definition observe_final_snapshot :: "string \<Rightarrow> lifecycle_state \<Rightarrow> lifecycle_state" where
  "observe_final_snapshot capture_id st =
     st\<lparr>terminal_count := saturating_add (terminal_count st) 1,
        latest_epoch_closed := True,
        boundary_source := ''final_snapshot'',
        latest_boundary := Some ''final_snapshot'',
        latest_boundary_capture_id := Some capture_id\<rparr>"

text \<open>A stream of named events, each with the Capture that carries it.\<close>

definition observe_all :: "(string \<times> string) list \<Rightarrow> bool \<Rightarrow> lifecycle_state \<Rightarrow> lifecycle_state" where
  "observe_all evs require_pair st =
     fold (\<lambda>(event, cid) st. snd (observe_event event cid require_pair st)) evs st"

definition boundary_of :: "string \<Rightarrow> boundary option" where
  "boundary_of event =
     (if is_start_event event then Some Start
      else if is_terminal_event event then Some Terminal else None)"

text \<open>The contract: a start, its terminal, the next start, and so on.\<close>

fun alternates :: "boundary \<Rightarrow> boundary list \<Rightarrow> bool" where
  "alternates b [] = True"
| "alternates b (x # xs) = (x = b \<and> alternates (case b of Start \<Rightarrow> Terminal | Terminal \<Rightarrow> Start) xs)"

section \<open>Event names\<close>

definition norm_char :: "char \<Rightarrow> char" where
  "norm_char c =
     (let c = (if CHR ''A'' \<le> c \<and> c \<le> CHR ''Z'' then char_of (of_char c + 32 :: nat) else c)
      in if c \<in> {CHR ''-'', CHR ''.'', CHR '' '', CHR '':''} then CHR ''_'' else c)"

lemma normalize_event_map: "normalize_event e = map norm_char (trim e)"
  by (auto simp: normalize_event_def replace_chars_def to_ascii_lowercase_def norm_char_def Let_def)

lemma norm_char_changed:
  "norm_char c \<noteq> c \<Longrightarrow> norm_char c = CHR ''_'' \<or> CHR ''a'' \<le> norm_char c \<and> norm_char c \<le> CHR ''z''"
  by (auto simp: norm_char_def Let_def less_eq_char_def take_bit_eq_mod split: if_splits)

lemma norm_char_idem [simp]: "norm_char (norm_char c) = norm_char c"
proof (cases "norm_char c = c")
  case False
  then consider "norm_char c = CHR ''_''" | "CHR ''a'' \<le> norm_char c" "norm_char c \<le> CHR ''z''"
    using norm_char_changed by blast
  then show ?thesis
    by cases (auto simp: norm_char_def Let_def less_eq_char_def)
qed simp

definition ws_byte :: "char \<Rightarrow> bool" where
  "ws_byte c \<longleftrightarrow> (of_char c :: nat) \<le> 32 \<or> 128 \<le> (of_char c :: nat)"

lemma ws_seqs_bytes: "w \<in> set ws_seqs \<Longrightarrow> list_all ws_byte w"
  by (auto simp: ws_seqs_def ws_byte_def)

lemma norm_char_ws: "ws_byte (norm_char c) \<Longrightarrow> norm_char c = c"
  using norm_char_changed [of c] by (fastforce simp: ws_byte_def less_eq_char_def)

lemma prefix_map_norm: "list_all ws_byte w \<Longrightarrow> prefix w (map norm_char s) \<Longrightarrow> prefix w s"
proof (induction w arbitrary: s)
  case (Cons c w)
  then obtain d s' where "s = d # s'" "c = norm_char d" "prefix w (map norm_char s')"
    by (cases s) auto
  note s = this
  from Cons.prems(1) s(2) have "ws_byte (norm_char d)" by simp
  then have "norm_char d = d" by (rule norm_char_ws)
  moreover from Cons.IH [OF _ s(3)] Cons.prems(1) have "prefix w s'" by simp
  ultimately show ?case using s(1,2) by simp
qed simp

lemma trim_start_norm: "trim_start s = s \<Longrightarrow> trim_start (map norm_char s) = map norm_char s"
  unfolding trim_start_def
  by (rule strip_seqs_idle) (metis prefix_map_norm strip_seqs_no_prefix ws_seqs_bytes)

lemma trim_end_norm:
  assumes "trim_end s = s"
  shows "trim_end (map norm_char s) = map norm_char s"
proof -
  from assms have idle: "strip_seqs (map rev ws_seqs) (rev s) = rev s"
    by (metis rev_rev_ident trim_end_def)
  have "strip_seqs (map rev ws_seqs) (map norm_char (rev s)) = map norm_char (rev s)"
  proof (rule strip_seqs_idle)
    fix w
    assume w: "w \<in> set (map rev ws_seqs)" "w \<noteq> []"
    then have "list_all ws_byte w" using ws_seqs_bytes by (auto simp: list_all_iff)
    moreover have "\<not> prefix w (rev s)" using w idle by (metis strip_seqs_no_prefix)
    ultimately show "\<not> prefix w (map norm_char (rev s))" using prefix_map_norm by blast
  qed
  then show ?thesis by (simp add: trim_end_def rev_map [symmetric])
qed

lemma trim_fixes: "trim_start (trim e) = trim e" "trim_end (trim e) = trim e"
proof -
  show "trim_start (trim e) = trim e"
    unfolding trim_def by (rule trim_start_idle) (rule trim_end_prefix)
  show "trim_end (trim e) = trim e" by (simp add: trim_def trim_end_def)
qed

lemma normalize_event_idem [simp]: "normalize_event (normalize_event e) = normalize_event e"
proof -
  have "trim (map norm_char (trim e)) = map norm_char (trim e)"
    by (simp add: trim_def [of "map _ _"] trim_start_norm trim_end_norm trim_fixes)
  then show ?thesis by (simp add: normalize_event_map comp_def)
qed

lemma start_not_terminal: "is_start_event e \<Longrightarrow> \<not> is_terminal_event e"
  by (auto simp: is_start_event_def is_terminal_event_def start_events_def terminal_events_def
      terminal_prefixes_def)

lemma event_class_norm [simp]:
  "is_start_event (normalize_event e) = is_start_event e"
  "is_terminal_event (normalize_event e) = is_terminal_event e"
  by (simp_all add: is_start_event_def is_terminal_event_def)

lemma observe_event_boundary:
  "observe_event e cid rp st =
     (case boundary_of e of
        Some b \<Rightarrow> (b = Terminal, observe b (normalize_event e) cid rp st)
      | None \<Rightarrow> (False, st))"
  by (simp add: observe_event_def boundary_of_def)

section \<open>Pairing\<close>

lemma observe_counts:
  "start_count (observe b e cid rp st) = saturating_add (start_count st) (if b = Start then 1 else 0)"
  "terminal_count (observe b e cid rp st) = saturating_add (terminal_count st) (if b = Terminal then 1 else 0)"
  by (auto simp: observe_def Let_def split: boundary.splits)

lemma observe_invalid_mono:
  "invalid_boundary_count st \<le> invalid_boundary_count (observe b e cid rp st)"
  by (auto simp: observe_def Let_def saturating_add_mono split: boundary.splits)

lemma observe_all_invalid_mono:
  "invalid_boundary_count st \<le> invalid_boundary_count (observe_all evs rp st)"
  unfolding observe_all_def
proof (induction evs arbitrary: st)
  case (Cons ev evs)
  have "invalid_boundary_count st \<le> invalid_boundary_count (snd (observe_event (fst ev) (snd ev) rp st))"
    by (auto simp: observe_event_boundary observe_invalid_mono split: option.splits)
  with Cons.IH [of "snd (observe_event (fst ev) (snd ev) rp st)"] show ?case
    by (simp add: case_prod_unfold)
qed simp

text \<open>
  \<open>awaits b st\<close>: every boundary so far was paired and the next one in order is \<open>b\<close>.
\<close>

definition awaits :: "boundary \<Rightarrow> lifecycle_state \<Rightarrow> bool" where
  "awaits b st \<longleftrightarrow>
     invalid_boundary_count st = 0 \<and>
     unat (start_count st) = unat (terminal_count st) + (if b = Start then 0 else 1)"

lemma observe_awaited:
  assumes "awaits b st" "unat (start_count st) + 1 < 2 ^ 64"
  shows "awaits (case b of Start \<Rightarrow> Terminal | Terminal \<Rightarrow> Start) (observe b e cid True st)"
    and "latest_epoch_closed (observe b e cid True st) \<longleftrightarrow> b = Terminal"
  using assms
  by (auto simp: awaits_def observe_def Let_def u64_less_iff u64_simps split: boundary.splits)

lemma observe_not_awaited:
  assumes "awaits b st" "b' \<noteq> b" "unat (terminal_count st) + 1 < 2 ^ 64"
  shows "invalid_boundary_count (observe b' e cid True st) = 1"
  using assms
  by (cases b; cases b')
    (auto simp: awaits_def observe_def Let_def u64_less_iff u64_simps unat_u64_add saturating_add_def)


abbreviation boundaries :: "(string \<times> string) list \<Rightarrow> boundary list" where
  "boundaries evs \<equiv> List.map_filter (\<lambda>ev. boundary_of (fst ev)) evs"

lemma observe_all_Cons:
  "observe_all (ev # evs) rp st = observe_all evs rp (snd (observe_event (fst ev) (snd ev) rp st))"
  by (simp add: observe_all_def case_prod_beta)

lemma observe_all_pairing:
  assumes "awaits b st" "unat (start_count st) + length evs < 2 ^ 64"
  shows "invalid_boundary_count (observe_all evs True st) = 0 \<longleftrightarrow> alternates b (boundaries evs)"
  using assms
proof (induction evs arbitrary: b st)
  case Nil
  then show ?case by (simp add: observe_all_def awaits_def map_filter_simps)
next
  case (Cons ev evs)
  let ?st = "\<lambda>b'. observe b' (normalize_event (fst ev)) (snd ev) True st"
  from Cons.prems have bound: "unat (start_count st) + 1 < 2 ^ 64" "unat (terminal_count st) + 1 < 2 ^ 64"
    by (auto simp: awaits_def split: if_splits)
  show ?case
  proof (cases "boundary_of (fst ev)")
    case None
    with Cons show ?thesis
      by (simp add: observe_all_Cons observe_event_boundary map_filter_simps)
  next
    case (Some b')
    show ?thesis
    proof (cases "b' = b")
      case True
      have "unat (start_count (?st b)) + length evs < 2 ^ 64"
        using Cons.prems(2) by (simp add: observe_counts u64_simps split: if_splits)
      with Cons.IH [OF observe_awaited(1) [OF Cons.prems(1) bound(1)]] Some True show ?thesis
        by (simp add: observe_all_Cons observe_event_boundary map_filter_simps)
    next
      case False
      have "1 \<le> invalid_boundary_count (observe_all evs True (?st b'))"
        using observe_not_awaited [OF Cons.prems(1) False bound(2)] observe_all_invalid_mono by metis
      with Some False show ?thesis
        by (auto simp: observe_all_Cons observe_event_boundary map_filter_simps)
    qed
  qed
qed

lemma awaits_new: "awaits Start (lifecycle_new src)"
  by (simp add: awaits_def lifecycle_new_def)

section \<open>Properties\<close>


definition example_events :: "(string \<times> string) list" where
  "example_events =
     [('' Session-Start '', ''cap-1''), (''tool.call'', ''cap-2''), (''task_failed'', ''cap-3'')]"


text \<open>
  Event names are classified modulo spelling: normalisation is idempotent, a name and its
  normal form are the same boundary, and no name is both a start and a terminal.
\<close>

theorem event_classification:
  "normalize_event (normalize_event e) = normalize_event e \<and>
   is_start_event (normalize_event e) = is_start_event e \<and>
   is_terminal_event (normalize_event e) = is_terminal_event e \<and>
   \<not> (is_start_event e \<and> is_terminal_event e)"
  using start_not_terminal by auto

end
