(* ===== verification/ToolSchema.thy ===== *)
theory ToolSchema
  imports Json
begin

text \<open>
  Tool schemas (\<open>tool_schema.rs\<close>): the content address of a tool's definition, the canonical
  runtime name, and the completeness checks a delivered definition passes.  SHA-256 in
  hexadecimal (\<open>sha\<close>) and serde_json's serialiser (\<open>to_vec\<close>) are parameters.
\<close>

section \<open>The content address\<close>

fun normalize :: "json \<Rightarrow> json" where
  "normalize (Object m) =
     json_object (sort_key fst (map (\<lambda>kv. (fst kv, normalize (snd kv))) m))"
| "normalize (Array vs) = Array (map normalize vs)"
| "normalize v = v"

definition canonical_json_bytes :: "(json \<Rightarrow> string) \<Rightarrow> json \<Rightarrow> string" where
  "canonical_json_bytes to_vec v = to_vec (normalize v)"

datatype schema_error = SchemaNameRequired | NoCompleteParameters string

definition semantic_schema :: "json \<Rightarrow> schema_error + json" where
  "semantic_schema value =
     (let nested = unwrap_function value
      in rbind (ok_or SchemaNameRequired (non_blank (get_str nested ''name''))) (\<lambda>name.
         Inr (json_object
           [(''name'', String name),
            (''description'', json_opt (jget nested ''description'')),
            (''parameters'', json_opt (or_else (jget nested ''parameters'') (jget nested ''input_schema''))),
            (''format'', json_opt (jget nested ''format'')),
            (''type'', String (case get_str value ''type'' of Some t \<Rightarrow> t | None \<Rightarrow> ''function''))])))"

definition canonical_tool_schema_sha256 ::
  "(string \<Rightarrow> string) \<Rightarrow> (json \<Rightarrow> string) \<Rightarrow> json \<Rightarrow> schema_error + string" where
  "canonical_tool_schema_sha256 sha to_vec value =
     rbind (semantic_schema value) (\<lambda>semantic. Inr (sha (canonical_json_bytes to_vec semantic)))"

section \<open>Names\<close>

definition canonical_runtime_tool_name :: "string option \<Rightarrow> string \<Rightarrow> string" where
  "canonical_runtime_tool_name namespace name =
     (case non_blank (map_option trim namespace) of
        None \<Rightarrow> name
      | Some ns \<Rightarrow> if ns = ''functions'' then name else ns @ ''.'' @ name)"

definition is_stock_unified_exec_tool :: "string option \<Rightarrow> string \<Rightarrow> bool" where
  "is_stock_unified_exec_tool namespace name \<longleftrightarrow>
     (namespace = None \<or> namespace = Some '''' \<or> namespace = Some ''functions'') \<and>
     (name = ''exec_command'' \<or> name = ''write_stdin'')"

section \<open>Completeness\<close>

definition described_property :: "json \<Rightarrow> bool" where
  "described_property property \<longleftrightarrow>
     as_object property \<noteq> None \<and>
     (jget property ''type'' \<noteq> None \<or> jget property ''oneOf'' \<noteq> None \<or>
      jget property ''anyOf'' \<noteq> None \<or> jget property ''$ref'' \<noteq> None) \<and>
     non_blank (get_str property ''description'') \<noteq> None"

definition complete_json_parameters :: "json \<Rightarrow> bool" where
  "complete_json_parameters tool =
     (case jget tool ''parameters'' of
        Some (Object parameters) \<Rightarrow>
          Option.bind (tget parameters ''type'') as_str = Some ''object'' \<and>
          (case tget parameters ''properties'' of
             Some (Object properties) \<Rightarrow> list_all (\<lambda>kv. described_property (snd kv)) properties
           | _ \<Rightarrow> False) \<and>
          (case tget parameters ''required'' of
             None \<Rightarrow> True
           | Some required \<Rightarrow>
               (case as_array required of
                  None \<Rightarrow> False
                | Some names \<Rightarrow>
                    list_all (\<lambda>name. case as_str name of
                        None \<Rightarrow> False
                      | Some name \<Rightarrow>
                          (case tget parameters ''properties'' of
                             Some (Object properties) \<Rightarrow> tget properties name \<noteq> None
                           | _ \<Rightarrow> False)) names))
      | _ \<Rightarrow> False)"

definition complete_native_format :: "json \<Rightarrow> bool" where
  "complete_native_format tool =
     (case jget tool ''format'' of
        Some (Object format) \<Rightarrow>
          list_all (\<lambda>field. non_blank (Option.bind (tget format field) as_str) \<noteq> None)
            [''type'', ''syntax'', ''definition'']
      | _ \<Rightarrow> False)"

definition tool_definition_source_complete :: "json \<Rightarrow> string \<Rightarrow> bool" where
  "tool_definition_source_complete value expected_name =
     (let nested = unwrap_function value
      in if get_str nested ''name'' \<noteq> Some expected_name
            \<or> non_blank (get_str nested ''description'') = None
            \<or> Option.bind (pointer nested [''schema_provenance'', ''generated_adapter'']) as_bool = Some True
            \<or> Option.bind (pointer nested [''schema_provenance'', ''source_complete'']) as_bool = Some False
         then False
         else complete_json_parameters nested \<or> complete_native_format nested)"

definition require_json_parameters :: "json \<Rightarrow> schema_error + unit" where
  "require_json_parameters value =
     (let nested = unwrap_function value;
          name = (case get_str nested ''name'' of Some n \<Rightarrow> n | None \<Rightarrow> ''<unknown>'')
      in if complete_json_parameters nested then Inr () else Inl (NoCompleteParameters name))"

section \<open>Canonical form\<close>

text \<open>The well-formed values: every object is a key-ordered map (a \<open>BTreeMap\<close>).\<close>

fun wf_json :: "json \<Rightarrow> bool" where
  "wf_json (Object m) = (tsorted m \<and> list_all (\<lambda>kv. wf_json (snd kv)) m)"
| "wf_json (Array vs) = list_all wf_json vs"
| "wf_json v = True"

lemma tput_last: "tsorted (t @ [(k, v)]) \<Longrightarrow> tput k v t = t @ [(k, v)]"
  by (induction t) (auto simp: tsorted_Cons)

lemma fold_tput_sorted: "tsorted (t @ m) \<Longrightarrow> fold (\<lambda>kv. tput (fst kv) (snd kv)) m t = t @ m"
proof (induction m arbitrary: t)
  case (Cons r m)
  have "tsorted (t @ [(fst r, snd r)])"
    using Cons.prems by (simp add: tsorted_def sorted_wrt_append)
  then have "tput (fst r) (snd r) t = t @ [r]" by (simp add: tput_last)
  with Cons.IH [of "t @ [r]"] Cons.prems show ?case by simp
qed simp

lemma json_object_sorted: "tsorted m \<Longrightarrow> json_object m = Object m"
  using fold_tput_sorted [of "[]" m] by (simp add: json_object_def)

lemma tsorted_fold_tput: "tsorted t \<Longrightarrow> tsorted (fold (\<lambda>kv. tput (fst kv) (snd kv)) kvs t)"
  by (induction kvs arbitrary: t) auto

lemma tsorted_map_snd: "tsorted (map (\<lambda>kv. (fst kv, f (snd kv))) m) = tsorted m"
  by (simp add: tsorted_def comp_def)

lemma tsorted_sort_key: "tsorted m \<Longrightarrow> sort_key fst m = m"
  by (rule sort_key_id_if_sorted) (simp add: tsorted_def strict_sorted_iff)

lemma normalize_wf: "wf_json v \<Longrightarrow> normalize v = v"
proof (induction v rule: normalize.induct)
  case (1 m)
  have "map (\<lambda>kv. (fst kv, normalize (snd kv))) m = m"
    using 1 by (intro map_idI) (auto simp: list_all_iff)
  with 1 show ?case by (simp add: tsorted_sort_key json_object_sorted)
next
  case (2 vs)
  then show ?case by (auto simp: list_all_iff intro: map_idI)
qed auto

lemma set_fold_tput:
  "set (fold (\<lambda>kv. tput (fst kv) (snd kv)) kvs t) \<subseteq> set kvs \<union> set t"
proof (induction kvs arbitrary: t)
  case (Cons kv kvs)
  have "set (tput (fst kv) (snd kv) t) \<subseteq> insert kv (set t)" by (induction t) auto
  with Cons [of "tput (fst kv) (snd kv) t"] show ?case by auto
qed simp

lemma wf_json_object: "(\<And>kv. kv \<in> set kvs \<Longrightarrow> wf_json (snd kv)) \<Longrightarrow> wf_json (json_object kvs)"
  using set_fold_tput [of kvs "[]"] tsorted_fold_tput [of "[]" kvs]
  by (auto simp: json_object_def list_all_iff)

lemma wf_normalize: "wf_json (normalize v)"
  by (induction v rule: normalize.induct) (auto simp: list_all_iff intro!: wf_json_object)

text \<open>The members a tool's content address reads.\<close>

definition semantic_members :: "string set" where
  "semantic_members =
     {''function'', ''name'', ''description'', ''parameters'', ''input_schema'', ''format'', ''type''}"

definition set_member :: "string \<Rightarrow> json \<Rightarrow> json \<Rightarrow> json" where
  "set_member k x v = (case v of Object m \<Rightarrow> Object (tput k x m) | _ \<Rightarrow> v)"

lemma jget_set_member: "k \<noteq> k' \<Longrightarrow> jget (set_member k x v) k' = jget v k'"
  by (cases v) (auto simp: set_member_def)

lemma unwrap_set_member:
  "k \<notin> semantic_members \<Longrightarrow>
     unwrap_function (set_member k x v) = (if jget v ''function'' = None then set_member k x v else unwrap_function v)"
  by (auto simp: unwrap_function_def jget_set_member semantic_members_def split: option.splits)

section \<open>Properties\<close>

text \<open>
  The content address of a tool definition does not depend on projection metadata: adding
  or replacing any member other than the semantic ones leaves the digest (or the error) as it is.
\<close>

theorem digest_ignores_metadata:
  "k \<notin> semantic_members \<Longrightarrow>
     canonical_tool_schema_sha256 sha to_vec (set_member k x value)
       = canonical_tool_schema_sha256 sha to_vec value"
  by (cases "jget value ''function''")
    (simp_all add: canonical_tool_schema_sha256_def semantic_schema_def unwrap_set_member
      jget_set_member get_str_def semantic_members_def unwrap_function_def)

definition example_tool :: json where
  "example_tool =
     Object [(''name'', String ''exec_command''), (''parameters'', Object [(''type'', String ''object'')])]"

lemma digest_ignores_metadata_witness:
  "''schema_hash'' \<notin> semantic_members \<and>
   canonical_tool_schema_sha256 (\<lambda>s. s) (\<lambda>v. ''json'') (set_member ''schema_hash'' (String ''ab'') example_tool)
     = canonical_tool_schema_sha256 (\<lambda>s. s) (\<lambda>v. ''json'') example_tool"
proof -
  have "''schema_hash'' \<notin> semantic_members" by (simp add: semantic_members_def)
  from digest_ignores_metadata [OF this] this show ?thesis by blast
qed

text \<open>
  Canonicalisation yields a key-ordered value, fixes every value that is already one (what
  the map type of the parser builds), and is idempotent.
\<close>

theorem canonical_form:
  "wf_json (normalize v) \<and> (wf_json v \<longrightarrow> normalize v = v) \<and> normalize (normalize v) = normalize v"
  by (simp add: wf_normalize normalize_wf)

lemma canonical_form_witness:
  "wf_json example_tool \<and> normalize example_tool = example_tool"
proof -
  have "wf_json example_tool" by code_simp
  with canonical_form [of example_tool] show ?thesis by blast
qed

end
