(* ===== verification/WireTools.thy ===== *)
theory WireTools
  imports ToolSchema
begin

text \<open>
  Tool definitions on the wire (\<open>wire_tools.rs\<close>): the recursive enumeration of every tool
  definition in one request with the namespace path it inherits, and the identity key of a
  definition.  serde_json's serialiser of a string array (\<open>to_string\<close>) is a parameter.
\<close>

section \<open>Captured definitions\<close>

record captured_tool =
  ct_raw :: json
  ct_namespace_path :: "string list"

definition ct_nested :: "captured_tool \<Rightarrow> json" where
  "ct_nested c = unwrap_function (ct_raw c)"

definition source_name :: "captured_tool \<Rightarrow> string option" where
  "source_name c = get_str (ct_nested c) ''name''"

fun join :: "string \<Rightarrow> string list \<Rightarrow> string" where
  "join sep [] = []"
| "join sep [s] = s"
| "join sep (s # ss) = s @ sep @ join sep ss"

definition namespace_path_string :: "captured_tool \<Rightarrow> string option" where
  "namespace_path_string c =
     (if ct_namespace_path c \<noteq> [] then Some (join ''.'' (ct_namespace_path c)) else None)"

definition canonical_name :: "captured_tool \<Rightarrow> string option" where
  "canonical_name c =
     map_option (canonical_runtime_tool_name (namespace_path_string c)) (source_name c)"

definition identity_path :: "string list \<Rightarrow> string list" where
  "identity_path namespace_path =
     (if namespace_path = [''functions''] then [] else namespace_path)"

definition tool_definition_key :: "(string list \<Rightarrow> string) \<Rightarrow> string list \<Rightarrow> string \<Rightarrow> string" where
  "tool_definition_key to_string namespace_path source = to_string (identity_path namespace_path @ [source])"

definition definition_key :: "(string list \<Rightarrow> string) \<Rightarrow> captured_tool \<Rightarrow> string option" where
  "definition_key to_string c =
     map_option (tool_definition_key to_string (ct_namespace_path c)) (source_name c)"

definition projected_tool_definition_key :: "(string list \<Rightarrow> string) \<Rightarrow> json \<Rightarrow> string option" where
  "projected_tool_definition_key to_string value =
     (case non_blank (get_str value ''definition_key'') of
        Some key \<Rightarrow> Some key
      | None \<Rightarrow>
         (let nested = unwrap_function value
          in case non_blank (Option.bind
                 (or_else (jget nested ''runtime_tool'')
                   (or_else (jget value ''runtime_tool'') (jget nested ''name''))) as_str) of
               None \<Rightarrow> None
             | Some source \<Rightarrow>
                (let from_path =
                   (case Option.bind
                      (or_else (jget value ''runtime_namespace_path'')
                        (jget nested ''runtime_namespace_path'')) as_array of
                      None \<Rightarrow> None
                    | Some path \<Rightarrow>
                        (let ss = List.map_filter as_str path in if ss = [] then None else Some ss));
                   from_name =
                     map_option (\<lambda>ns. [ns]) (non_blank (Option.bind
                       (or_else (jget nested ''runtime_namespace'')
                         (or_else (jget nested ''namespace'')
                           (or_else (jget value ''runtime_namespace'') (jget value ''namespace'')))) as_str))
                 in Some (tool_definition_key to_string
                      (case or_else from_path from_name of Some p \<Rightarrow> p | None \<Rightarrow> []) source))))"

section \<open>Enumeration\<close>

definition append_namespace :: "string list \<Rightarrow> string option \<Rightarrow> bool \<Rightarrow> string list" where
  "append_namespace path namespace preserve_repetition =
     (case non_blank (map_option trim namespace) of
        None \<Rightarrow> path
      | Some ns \<Rightarrow>
          if preserve_repetition \<or> path = [] \<or> last path \<noteq> ns then path @ [ns] else path)"

definition is_namespace_container :: "json \<Rightarrow> bool" where
  "is_namespace_container value \<longleftrightarrow> get_str value ''type'' = Some ''namespace''"

definition declared_namespace :: "json \<Rightarrow> string option" where
  "declared_namespace value =
     (if is_namespace_container value then get_str value ''name''
      else Option.bind (or_else (jget value ''runtime_namespace'') (jget value ''namespace'')) as_str)"

definition tool_children :: "json \<Rightarrow> json list" where
  "tool_children value =
     concat (map (get_array value) [''tools'', ''additional_tools'', ''definitions''])"

text \<open>What one value contributes itself, after its children.\<close>

definition own_definition :: "json \<Rightarrow> string list \<Rightarrow> captured_tool list" where
  "own_definition value namespace_path =
     (if is_namespace_container value
         \<or> tool_children value \<noteq> []
           \<and> jget value ''parameters'' = None \<and> jget value ''input_schema'' = None
           \<and> jget value ''format'' = None
      then []
      else let nested = unwrap_function value
        in if non_blank (get_str nested ''name'') = None then []
           else [\<lparr>ct_raw = value,
                  ct_namespace_path =
                    (if jget value ''function'' = None then namespace_path
                     else append_namespace namespace_path
                       (Option.bind (or_else (jget nested ''runtime_namespace'') (jget nested ''namespace'')) as_str)
                       False)\<rparr>])"

lemma tool_children_size [termination_simp]: "w \<in> set (tool_children v) \<Longrightarrow> size w < size v"
  by (auto simp: tool_children_def dest: get_array_size)

function collect_tool_definitions :: "json \<Rightarrow> string list \<Rightarrow> captured_tool list" where
  "collect_tool_definitions value inherited =
     (let namespace_path = append_namespace inherited (declared_namespace value) (is_namespace_container value)
      in concat (map (\<lambda>child. collect_tool_definitions child namespace_path) (tool_children value))
         @ own_definition value namespace_path)"
  by pat_completeness auto
termination
  by (relation "measure (\<lambda>(v, p). size v)") (auto simp: tool_children_size)

declare collect_tool_definitions.simps [simp del]

definition request_tool_definitions :: "json \<Rightarrow> captured_tool list" where
  "request_tool_definitions request =
     concat (map (\<lambda>v. collect_tool_definitions v [])
       (get_array request ''tools'' @ get_array request ''additional_tools''
        @ filter (\<lambda>item. get_str item ''type'' = Some ''additional_tools'') (get_array request ''input'')))"


section \<open>What a captured definition is\<close>

definition clean_segment :: "string \<Rightarrow> bool" where
  "clean_segment s \<longleftrightarrow> s \<noteq> [] \<and> trim s = s"

definition captured_ok :: "captured_tool \<Rightarrow> bool" where
  "captured_ok c \<longleftrightarrow>
     (\<exists>name. source_name c = Some name \<and> \<not> blank name) \<and> list_all clean_segment (ct_namespace_path c)"

inductive occurs_in :: "json \<Rightarrow> json \<Rightarrow> bool" where
  here: "occurs_in v v"
| member: "jget w k = Some u \<Longrightarrow> occurs_in v u \<Longrightarrow> occurs_in v w"
| element: "w = Array us \<Longrightarrow> u \<in> set us \<Longrightarrow> occurs_in v u \<Longrightarrow> occurs_in v w"

inductive_simps occurs_in_leaf [simp]: "occurs_in v Null" "occurs_in v (String s)"

lemma append_namespace_clean:
  "list_all clean_segment path \<Longrightarrow> list_all clean_segment (append_namespace path ns keep)"
  by (auto simp: append_namespace_def clean_segment_def non_blank_eq_Some blank_def split: option.splits)

lemma append_namespace_keep:
  "clean_segment s \<Longrightarrow> append_namespace path (Some s) True = path @ [s]"
  by (simp add: append_namespace_def non_blank_def clean_segment_def blank_def)

lemma append_namespace_None [simp]: "append_namespace path None keep = path"
  by (simp add: append_namespace_def non_blank_def)

lemma own_definition_ok:
  "list_all clean_segment path \<Longrightarrow> c \<in> set (own_definition v path) \<Longrightarrow> captured_ok c \<and> ct_raw c = v"
  by (auto simp: own_definition_def Let_def captured_ok_def source_name_def ct_nested_def non_blank_eq_Some
      append_namespace_clean split: if_splits)

lemma collect_ok:
  "list_all clean_segment path \<Longrightarrow> c \<in> set (collect_tool_definitions v path) \<Longrightarrow> captured_ok c"
proof (induction v path arbitrary: c rule: collect_tool_definitions.induct)
  case (1 v path)
  let ?p = "append_namespace path (declared_namespace v) (is_namespace_container v)"
  have p: "list_all clean_segment ?p" using "1.prems"(1) by (rule append_namespace_clean)
  from "1.prems"(2) consider (child) w where "w \<in> set (tool_children v)" "c \<in> set (collect_tool_definitions w ?p)"
    | (own) "c \<in> set (own_definition v ?p)"
    by (auto simp: collect_tool_definitions.simps [of v path] Let_def)
  then show ?case
  proof cases
    case child
    with "1.IH" [OF refl child(1) p] show ?thesis by simp
  next
    case own
    with own_definition_ok [OF p] show ?thesis by simp
  qed
qed

lemma get_array_occurs: "w \<in> set (get_array v k) \<Longrightarrow> occurs_in u w \<Longrightarrow> occurs_in u v"
proof -
  assume "w \<in> set (get_array v k)" "occurs_in u w"
  then obtain xs where "jget v k = Some (Array xs)" "w \<in> set xs"
    by (cases "jget v k") (auto simp: get_array_def split: option.splits elim!: as_array.elims [OF sym])
  with \<open>occurs_in u w\<close> show ?thesis by (blast intro: occurs_in.intros)
qed

lemma tool_children_occurs: "w \<in> set (tool_children v) \<Longrightarrow> occurs_in u w \<Longrightarrow> occurs_in u v"
  by (auto simp: tool_children_def intro: get_array_occurs)

lemma collect_occurs: "c \<in> set (collect_tool_definitions v path) \<Longrightarrow> occurs_in (ct_raw c) v"
proof (induction v path arbitrary: c rule: collect_tool_definitions.induct)
  case (1 v path)
  let ?p = "append_namespace path (declared_namespace v) (is_namespace_container v)"
  from "1.prems" consider (child) w where "w \<in> set (tool_children v)" "c \<in> set (collect_tool_definitions w ?p)"
    | (own) "c \<in> set (own_definition v ?p)"
    by (auto simp: collect_tool_definitions.simps [of v path] Let_def)
  then show ?case
  proof cases
    case child
    with "1.IH" [OF refl child(1)] show ?thesis by (blast intro: tool_children_occurs)
  next
    case own
    then have "ct_raw c = v" by (auto simp: own_definition_def Let_def split: if_splits)
    then show ?thesis by (simp add: occurs_in.here)
  qed
qed

section \<open>Namespace paths\<close>

text \<open>A plain function tool, and the tool wrapped in a chain of namespace containers.\<close>

definition plain_tool :: "json \<Rightarrow> bool" where
  "plain_tool t \<longleftrightarrow>
     tool_children t = [] \<and> \<not> is_namespace_container t \<and> declared_namespace t = None \<and>
     jget t ''function'' = None \<and> non_blank (get_str t ''name'') \<noteq> None"

fun wrap_namespaces :: "string list \<Rightarrow> json \<Rightarrow> json" where
  "wrap_namespaces [] t = t"
| "wrap_namespaces (s # ss) t =
     json_object [(''type'', String ''namespace''), (''name'', String s),
       (''tools'', Array [wrap_namespaces ss t])]"

lemma collect_wrapped:
  "plain_tool t \<Longrightarrow> list_all clean_segment path \<Longrightarrow>
     collect_tool_definitions (wrap_namespaces path t) inherited
       = [\<lparr>ct_raw = t, ct_namespace_path = inherited @ path\<rparr>]"
proof (induction path arbitrary: inherited)
  case Nil
  then show ?case
    by (simp add: collect_tool_definitions.simps [of t] plain_tool_def own_definition_def unwrap_function_def)
next
  case (Cons s path)
  let ?v = "wrap_namespaces (s # path) t"
  have "tool_children ?v = [wrap_namespaces path t]" "is_namespace_container ?v"
    "declared_namespace ?v = Some s"
    by (simp_all add: json_object_def tool_children_def get_array_def is_namespace_container_def
        declared_namespace_def get_str_def)
  moreover from this have "own_definition ?v p = []" for p by (simp add: own_definition_def)
  moreover from Cons.prems have "clean_segment s" by simp
  ultimately show ?case
    using Cons by (simp add: collect_tool_definitions.simps [of ?v] append_namespace_keep del: wrap_namespaces.simps)
qed

section \<open>Properties\<close>

text \<open>
  Every definition enumerated from a request is a value that occurs in the request, has a
  non-blank source name, and carries a namespace path of non-empty trimmed segments.
\<close>

theorem captured_definitions_sound:
  "\<forall>c \<in> set (request_tool_definitions request). captured_ok c \<and> occurs_in (ct_raw c) request"
proof
  fix c
  assume "c \<in> set (request_tool_definitions request)"
  then obtain v k where v: "v \<in> set (get_array request k)" "c \<in> set (collect_tool_definitions v [])"
    by (auto simp: request_tool_definitions_def)
  then have "captured_ok c" using collect_ok [of "[]"] by simp
  moreover from v have "occurs_in (ct_raw c) request"
    by (blast intro: get_array_occurs collect_occurs)
  ultimately show "captured_ok c \<and> occurs_in (ct_raw c) request" ..
qed

definition example_plain :: json where
  "example_plain = Object [(''name'', String ''lookup''), (''type'', String ''function'')]"

lemma plain_example: "plain_tool example_plain"
  by code_simp

lemma clean_example: "list_all clean_segment [''same'', ''same'', ''segment.with.dot'']"
  by code_simp

definition example_request :: json where
  "example_request =
     Object [(''additional_tools'', Array [wrap_namespaces [''same'', ''same'', ''segment.with.dot''] example_plain])]"

lemma captured_definitions_sound_witness:
  "\<exists>c \<in> set (request_tool_definitions example_request).
     captured_ok c \<and> occurs_in (ct_raw c) example_request \<and> ct_raw c = example_plain"
proof -
  have "request_tool_definitions example_request
      = [\<lparr>ct_raw = example_plain, ct_namespace_path = [''same'', ''same'', ''segment.with.dot'']\<rparr>]"
    using collect_wrapped [OF plain_example clean_example, of "[]"]
    by (simp add: request_tool_definitions_def get_array_def example_request_def del: wrap_namespaces.simps)
  with captured_definitions_sound [of example_request] show ?thesis by simp
qed

text \<open>
  Namespace containers are reversible: a tool wrapped in containers named by a path, repeated
  and dotted segments included, is enumerated once, unchanged, with exactly that path.
\<close>

theorem namespace_path_roundtrip:
  assumes "plain_tool t" and "list_all clean_segment path"
  shows "request_tool_definitions (Object [(''tools'', Array [wrap_namespaces path t])])
           = [\<lparr>ct_raw = t, ct_namespace_path = path\<rparr>]"
  using collect_wrapped [OF assms, of "[]"]
  by (simp add: request_tool_definitions_def get_array_def)

lemma namespace_path_roundtrip_witness:
  "request_tool_definitions (Object [(''tools'', Array
       [wrap_namespaces [''same'', ''same'', ''segment.with.dot''] example_plain])])
     = [\<lparr>ct_raw = example_plain, ct_namespace_path = [''same'', ''same'', ''segment.with.dot'']\<rparr>]"
  by (rule namespace_path_roundtrip [OF plain_example clean_example])

text \<open>
  With an injective serialiser, two definitions share a key only if they have the same source
  name and the same namespace path, where the conventional wrapper \<open>functions\<close> is no namespace.
\<close>

theorem definition_key_collision_free:
  assumes "inj to_string"
  shows "tool_definition_key to_string p m = tool_definition_key to_string q n
           \<longleftrightarrow> m = n \<and> (p = q \<or> {p, q} = {[], [''functions'']})"
proof -
  have "tool_definition_key to_string p m = tool_definition_key to_string q n
          \<longleftrightarrow> identity_path p = identity_path q \<and> m = n"
    using assms by (auto simp: tool_definition_key_def inj_eq)
  then show ?thesis by (auto simp: identity_path_def doubleton_eq_iff split: if_splits)
qed

text \<open>A serialiser that quotes every character: an injective instance.\<close>

definition quote_all :: "string list \<Rightarrow> string" where
  "quote_all ss = concat (map (\<lambda>s. concat (map (\<lambda>c. [CHR ''q'', c]) s) @ [CHR '','']) ss)"

lemma quote_one:
  "concat (map (\<lambda>c. [CHR ''q'', c]) s) @ CHR '','' # u = concat (map (\<lambda>c. [CHR ''q'', c]) t) @ CHR '','' # v
     \<Longrightarrow> s = t \<and> u = v"
proof (induction s arbitrary: t)
  case Nil
  then show ?case by (cases t) auto
next
  case (Cons c s)
  then show ?case by (cases t) auto
qed

lemma inj_quote_all: "inj quote_all"
proof (rule injI)
  fix ss ts
  show "quote_all ss = quote_all ts \<Longrightarrow> ss = ts"
  proof (induction ss arbitrary: ts)
    case Nil
    then show ?case by (cases ts) (auto simp: quote_all_def)
  next
    case (Cons s ss)
    then obtain t ts' where ts: "ts = t # ts'" by (cases ts) (auto simp: quote_all_def)
    with Cons.prems quote_one [of s "quote_all ss" t "quote_all ts'"] have "s = t" "quote_all ss = quote_all ts'"
      by (simp_all add: quote_all_def)
    with Cons.IH ts show ?case by simp
  qed
qed

lemma definition_key_collision_free_witness:
  "inj quote_all \<and>
   tool_definition_key quote_all [''a.b''] ''c.lookup'' \<noteq> tool_definition_key quote_all [''a'', ''b.c''] ''lookup''"
  using definition_key_collision_free [OF inj_quote_all, of "[''a.b'']" "''c.lookup''" "[''a'', ''b.c'']" "''lookup''"]
    inj_quote_all by simp

end
