(* ===== verification/SessionLineage.thy ===== *)
theory SessionLineage
  imports Json
begin

text \<open>
  Parent and child Sessions (\<open>session_lineage.rs\<close>): the lineage learns one parent per child
  Session from subagent lifecycle events, selects the descendants of a root Session by a
  breadth-first search, and rewrites a child's Capture so that it belongs to the root.  The
  abstract contract of the selection is reachability along the parent relation.
\<close>

section \<open>State\<close>

record child_session =
  parent_session_id :: string
  root_turn_id :: "string option"

type_synonym lineage = "(string, child_session) table"

record selection =
  sel_root :: string
  sel_members :: "(string, child_session) table"

datatype lineage_error =
    ConflictingIdentities string
  | NoChildIdentity
  | NoParentIdentity
  | SelfLink
  | MultipleParents string
  | MultipleRootTurns string
  | LineageCycle string
  | NoTraceContext
  | TraceConflict string

section \<open>Observation\<close>

text \<open>A member of an optional object, as a non-blank string.\<close>

definition obj_string :: "json option \<Rightarrow> string \<Rightarrow> string option" where
  "obj_string v key =
     (case v of
        Some (Object m) \<Rightarrow> non_blank (Option.bind (tget m key) as_str)
      | _ \<Rightarrow> None)"

definition unique_identity :: "string \<Rightarrow> string option list \<Rightarrow> lineage_error + string option" where
  "unique_identity label values =
     (case remdups (List.map_filter (\<lambda>x. x) values) of
        [] \<Rightarrow> Inr None
      | [v] \<Rightarrow> Inr (Some v)
      | _ \<Rightarrow> Inl (ConflictingIdentities label))"

definition record_child ::
  "string \<Rightarrow> string \<Rightarrow> string option \<Rightarrow> lineage \<Rightarrow> lineage_error + lineage" where
  "record_child child parent turn children =
     (case tget children child of
        None \<Rightarrow> Inr (tput child \<lparr>parent_session_id = parent, root_turn_id = turn\<rparr> children)
      | Some existing \<Rightarrow>
          if parent_session_id existing \<noteq> parent then Inl (MultipleParents child)
          else if root_turn_id existing \<noteq> None \<and> turn \<noteq> None \<and> root_turn_id existing \<noteq> turn
          then Inl (MultipleRootTurns child)
          else Inr (tput child
            (if root_turn_id existing = None then existing\<lparr>root_turn_id := turn\<rparr> else existing) children))"

definition observe_capture :: "json \<Rightarrow> lineage \<Rightarrow> lineage_error + lineage" where
  "observe_capture capture children =
     (let event = (case jget capture ''lifecycleEvent'' of Some (Object m) \<Rightarrow> Some (Object m) | _ \<Rightarrow> None);
          event_type = Option.bind event (\<lambda>e. get_str e ''type'')
      in if event_type \<noteq> Some ''subagent_spawn'' \<and> event_type \<noteq> Some ''subagent_join'' then Inr children
      else
        let source = Option.bind event (\<lambda>e. jget e ''source_event'');
            trace = jget capture ''traceContext''
        in rbind (rbind (unique_identity ''subagent child Session''
                [obj_string source ''agent_id'', obj_string source ''agent_thread_id'',
                 obj_string trace ''agent_id'']) (ok_or NoChildIdentity)) (\<lambda>child.
           rbind (rbind (unique_identity ''subagent parent Session''
                [obj_string trace ''session_id'', obj_string source ''session_id''])
                (ok_or NoParentIdentity)) (\<lambda>parent.
           if child = parent then Inl SelfLink
           else rbind (unique_identity ''subagent root turn''
                [obj_string trace ''root_turn_id'', obj_string trace ''turn_id'',
                 obj_string source ''turn_id'']) (\<lambda>turn.
             record_child child parent turn children))))"

section \<open>Selection\<close>

record bfs =
  bfs_queue :: "string list"
  bfs_visited :: "string list"
  bfs_members :: "(string, child_session) table"

definition visit_child :: "string \<times> child_session \<Rightarrow> bfs \<Rightarrow> lineage_error + bfs" where
  "visit_child r st =
     (if fst r \<in> set (bfs_visited st) then Inl (LineageCycle (fst r))
      else Inr (st\<lparr>bfs_visited := fst r # bfs_visited st,
                   bfs_members := tput (fst r) (snd r) (bfs_members st),
                   bfs_queue := bfs_queue st @ [fst r]\<rparr>))"

definition children_of :: "lineage \<Rightarrow> string \<Rightarrow> (string \<times> child_session) list" where
  "children_of children parent = filter (\<lambda>r. parent_session_id (snd r) = parent) children"

definition unvisited :: "lineage \<Rightarrow> string list \<Rightarrow> string set" where
  "unvisited children vs = fst ` set children - set vs"

lemma visit_children_measure:
  assumes "try_fold visit_child rs st = Inr st'" "set rs \<subseteq> set children"
  shows "2 * card (unvisited children (bfs_visited st')) + length (bfs_queue st')
           \<le> 2 * card (unvisited children (bfs_visited st)) + length (bfs_queue st)"
  using assms
proof (induction rs arbitrary: st)
  case (Cons r rs)
  then obtain u where u: "visit_child r st = Inr u" "try_fold visit_child rs u = Inr st'"
    by (auto simp: res_simps)
  from u(1) have new: "fst r \<notin> set (bfs_visited st)" and
    uf: "bfs_visited u = fst r # bfs_visited st" "bfs_queue u = bfs_queue st @ [fst r]"
    by (auto simp: visit_child_def split: if_splits)
  let ?U = "unvisited children (bfs_visited st)"
  have "finite ?U" by (simp add: unvisited_def)
  moreover from Cons.prems(2) new have "fst r \<in> ?U" by (auto simp: unvisited_def)
  moreover have "unvisited children (bfs_visited u) = ?U - {fst r}"
    by (auto simp: unvisited_def uf)
  ultimately have "Suc (card (unvisited children (bfs_visited u))) = card ?U"
    by (metis card_Suc_Diff1)
  with Cons.IH [OF u(2)] Cons.prems(2) uf show ?case by simp
qed simp

function selection_loop :: "lineage \<Rightarrow> bfs \<Rightarrow> lineage_error + bfs" where
  "selection_loop children st =
     (case bfs_queue st of
        [] \<Rightarrow> Inr st
      | parent # queue \<Rightarrow>
          (case try_fold visit_child (children_of children parent) (st\<lparr>bfs_queue := queue\<rparr>) of
             Inl e \<Rightarrow> Inl e
           | Inr st' \<Rightarrow> selection_loop children st'))"
  by pat_completeness auto
termination
proof (relation "measure (\<lambda>(ch, st). 2 * card (unvisited ch (bfs_visited st)) + length (bfs_queue st))")
  fix children st parent queue st'
  assume q: "bfs_queue st = parent # queue"
    and f: "try_fold visit_child (children_of children parent) (st\<lparr>bfs_queue := queue\<rparr>) = Inr st'"
  have "set (children_of children parent) \<subseteq> set children" by (auto simp: children_of_def)
  from visit_children_measure [OF f this] q
  show "((children, st'), (children, st))
      \<in> measure (\<lambda>(ch, st). 2 * card (unvisited ch (bfs_visited st)) + length (bfs_queue st))"
    by simp
qed simp

declare selection_loop.simps [simp del]

definition selection_of :: "lineage \<Rightarrow> string \<Rightarrow> lineage_error + selection" where
  "selection_of children root =
     rbind (selection_loop children \<lparr>bfs_queue = [root], bfs_visited = [root], bfs_members = []\<rparr>) (\<lambda>st.
       Inr \<lparr>sel_root = root, sel_members = bfs_members st\<rparr>)"

definition top_level_sessions :: "lineage \<Rightarrow> string list \<Rightarrow> string list" where
  "top_level_sessions children available = filter (\<lambda>s. tget children s = None) available"

definition session_ids :: "selection \<Rightarrow> string set" where
  "session_ids sel = insert (sel_root sel) (fst ` set (sel_members sel))"

definition allows_session_id :: "selection \<Rightarrow> string \<Rightarrow> bool" where
  "allows_session_id sel sid \<longleftrightarrow> sid = sel_root sel \<or> tget (sel_members sel) sid \<noteq> None"

definition selection_contains :: "selection \<Rightarrow> json \<Rightarrow> bool" where
  "selection_contains sel capture \<longleftrightarrow>
     (case ptr_str capture [''traceContext'', ''session_id''] of
        None \<Rightarrow> False
      | Some sid \<Rightarrow> allows_session_id sel sid)"

section \<open>Canonical Captures\<close>

definition insert_consistent ::
  "string \<Rightarrow> string \<Rightarrow> (string, json) table \<Rightarrow> lineage_error + (string, json) table" where
  "insert_consistent key expected trace =
     (case non_blank (Option.bind (tget trace key) as_str) of
        Some existing \<Rightarrow> if existing \<noteq> expected then Inl (TraceConflict key) else Inr trace
      | None \<Rightarrow> Inr (tput key (String expected) trace))"

definition canonical_trace ::
  "string \<Rightarrow> child_session \<Rightarrow> string \<Rightarrow> (string, json) table \<Rightarrow> lineage_error + (string, json) table" where
  "canonical_trace root child src trace =
     rbind (insert_consistent ''source_session_id'' src trace) (\<lambda>trace.
     rbind (case non_blank (Option.bind (tget trace ''conversation_id'') as_str) of
              Some conv \<Rightarrow> insert_consistent ''source_conversation_id'' conv trace
            | None \<Rightarrow> Inr trace) (\<lambda>trace.
     rbind (insert_consistent ''root_session_id'' root trace) (\<lambda>trace.
     rbind (insert_consistent ''parent_session_id'' (parent_session_id child) trace) (\<lambda>trace.
     rbind (insert_consistent ''agent_id'' src trace) (\<lambda>trace.
     let trace = (if tget trace ''thread_id'' = None then tput ''thread_id'' (String src) trace else trace);
         trace = tput ''conversation_id'' (String root) trace
     in rbind (case root_turn_id child of
                 Some turn \<Rightarrow> insert_consistent ''root_turn_id'' turn trace
               | None \<Rightarrow> Inr trace) (\<lambda>trace.
        Inr (tput ''session_lineage_evidence'' (String ''subagent_lifecycle'')
              (tput ''session_id'' (String root) trace))))))))"

text \<open>
  The Rust code mutates the Capture through a reference.  On an error its caller discards the
  Capture, so the model returns the new Capture only with \<open>Ok\<close>.
\<close>

definition canonicalize :: "selection \<Rightarrow> json \<Rightarrow> lineage_error + (bool \<times> json)" where
  "canonicalize sel capture =
     (case ptr_str capture [''traceContext'', ''session_id''] of
        None \<Rightarrow> Inr (False, capture)
      | Some src \<Rightarrow>
          if src = sel_root sel then Inr (False, capture)
          else case tget (sel_members sel) src of
            None \<Rightarrow> Inr (False, capture)
          | Some child \<Rightarrow>
             (case capture of
                Object m \<Rightarrow>
                  (case tget m ''traceContext'' of
                     Some (Object trace) \<Rightarrow>
                       rbind (canonical_trace (sel_root sel) child src trace) (\<lambda>trace.
                         Inr (True, Object (tput ''traceContext'' (Object trace) m)))
                   | _ \<Rightarrow> Inl NoTraceContext)
              | _ \<Rightarrow> Inl NoTraceContext))"


section \<open>The search computes the descendants\<close>

definition parent_rel :: "lineage \<Rightarrow> (string \<times> string) set" where
  "parent_rel children = {(p, c). \<exists>l. tget children c = Some l \<and> parent_session_id l = p}"

lemma children_of_rel:
  "tsorted children \<Longrightarrow> fst ` set (children_of children p) = {c. (p, c) \<in> parent_rel children}"
  by (force simp: children_of_def parent_rel_def dest: tsorted_distinct)

lemma parent_unique: "(p, c) \<in> parent_rel ch \<Longrightarrow> (q, c) \<in> parent_rel ch \<Longrightarrow> p = q"
  by (auto simp: parent_rel_def)

text \<open>
  What holds between two rounds of the search.  \<open>done\<close> are the Sessions already taken from the
  queue: visited are the root, and exactly the children of what is done.
\<close>

definition bfs_inv :: "lineage \<Rightarrow> string \<Rightarrow> string set \<Rightarrow> bfs \<Rightarrow> bool" where
  "bfs_inv children root fin st \<longleftrightarrow>
     tsorted (bfs_members st) \<and>
     set (bfs_visited st) = insert root (parent_rel children `` fin) \<and>
     root \<notin> parent_rel children `` fin \<and>
     set (bfs_visited st) = fin \<union> set (bfs_queue st) \<and>
     fin \<inter> set (bfs_queue st) = {} \<and> distinct (bfs_queue st) \<and>
     (\<forall>c l. tget (bfs_members st) c = Some l \<longleftrightarrow> c \<in> parent_rel children `` fin \<and> tget children c = Some l) \<and>
     fin \<subseteq> (parent_rel children)\<^sup>* `` {root}"

text \<open>Visiting fresh children succeeds and adds exactly them; a visited child is an error.\<close>

lemma visit_children:
  assumes "distinct (map fst rs)" "tsorted (bfs_members st)"
  shows "(fst ` set rs \<inter> set (bfs_visited st) = {} \<longrightarrow>
            (\<exists>st'. try_fold visit_child rs st = Inr st' \<and>
               set (bfs_visited st') = set (bfs_visited st) \<union> fst ` set rs \<and>
               bfs_queue st' = bfs_queue st @ map fst rs \<and>
               tsorted (bfs_members st') \<and>
               (\<forall>c. tget (bfs_members st') c
                  = (case map_of rs c of None \<Rightarrow> tget (bfs_members st) c | Some l \<Rightarrow> Some l)))) \<and>
         (fst ` set rs \<inter> set (bfs_visited st) \<noteq> {} \<longrightarrow>
            (\<exists>c \<in> fst ` set rs \<inter> set (bfs_visited st). try_fold visit_child rs st = Inl (LineageCycle c)))"
  using assms
proof (induction rs arbitrary: st)
  case (Cons r rs)
  show ?case
  proof (cases "fst r \<in> set (bfs_visited st)")
    case True
    then show ?thesis by (simp add: visit_child_def)
  next
    case False
    let ?u = "st\<lparr>bfs_visited := fst r # bfs_visited st, bfs_members := tput (fst r) (snd r) (bfs_members st),
                bfs_queue := bfs_queue st @ [fst r]\<rparr>"
    have step: "try_fold visit_child (r # rs) st = try_fold visit_child rs ?u"
      using False by (simp add: visit_child_def)
    have disj: "fst ` set rs \<inter> set (bfs_visited ?u) = fst ` set rs \<inter> set (bfs_visited st)"
      using Cons.prems(1) by auto
    have "map_of rs (fst r) = None"
      using Cons.prems(1) by (simp add: map_of_eq_None_iff)
    then have mem: "(case map_of rs c of None \<Rightarrow> tget (bfs_members ?u) c | Some l \<Rightarrow> Some l)
        = (case map_of (r # rs) c of None \<Rightarrow> tget (bfs_members st) c | Some l \<Rightarrow> Some l)" for c
      by (cases r) (auto split: option.splits)
    have IH: "(fst ` set rs \<inter> set (bfs_visited ?u) = {} \<longrightarrow>
            (\<exists>st'. try_fold visit_child rs ?u = Inr st' \<and>
               set (bfs_visited st') = set (bfs_visited ?u) \<union> fst ` set rs \<and>
               bfs_queue st' = bfs_queue ?u @ map fst rs \<and>
               tsorted (bfs_members st') \<and>
               (\<forall>c. tget (bfs_members st') c
                  = (case map_of rs c of None \<Rightarrow> tget (bfs_members ?u) c | Some l \<Rightarrow> Some l)))) \<and>
         (fst ` set rs \<inter> set (bfs_visited ?u) \<noteq> {} \<longrightarrow>
            (\<exists>c \<in> fst ` set rs \<inter> set (bfs_visited ?u). try_fold visit_child rs ?u = Inl (LineageCycle c)))"
      using Cons.prems by (intro Cons.IH) auto
    have disj2: "fst ` set (r # rs) \<inter> set (bfs_visited st) = fst ` set rs \<inter> set (bfs_visited st)"
      using False by auto
    show ?thesis
      using IH unfolding step disj disj2 mem by (simp del: map_of.simps tget_tput)
  qed
qed auto

lemma fin_children:
  "tsorted children \<Longrightarrow> map_of (children_of children p) c = Some l
     \<longleftrightarrow> (p, c) \<in> parent_rel children \<and> tget children c = Some l"
proof -
  assume s: "tsorted children"
  then have "distinct (map fst (children_of children p))"
    by (simp add: children_of_def distinct_map_filter tsorted_distinct)
  then have "map_of (children_of children p) c = Some l \<longleftrightarrow> (c, l) \<in> set (children_of children p)"
    by simp
  also have "\<dots> \<longleftrightarrow> tget children c = Some l \<and> parent_session_id l = p"
    using s by (auto simp: children_of_def tsorted_distinct)
  finally show ?thesis by (auto simp: parent_rel_def)
qed

lemma bfs_round:
  assumes s: "tsorted children" and I: "bfs_inv children root fin st" and q: "bfs_queue st = p # queue"
    and fresh: "root \<notin> parent_rel children `` {p}"
  shows "\<exists>st'. try_fold visit_child (children_of children p) (st\<lparr>bfs_queue := queue\<rparr>) = Inr st' \<and>
               bfs_inv children root (insert p fin) st'"
proof -
  let ?R = "parent_rel children" and ?rs = "children_of children p" and ?st = "st\<lparr>bfs_queue := queue\<rparr>"
  have rs: "fst ` set ?rs = ?R `` {p}" using children_of_rel [OF s] by auto
  have dist: "distinct (map fst ?rs)"
    using s by (simp add: children_of_def distinct_map_filter tsorted_distinct)
  from I q have pnew: "p \<notin> fin" and pvis: "p \<in> set (bfs_visited st)" by (auto simp: bfs_inv_def)
  have none: "?R `` {p} \<inter> ?R `` fin = {}"
    using pnew by (auto simp: parent_rel_def)
  have "set (bfs_visited ?st) = insert root (?R `` fin)" using I by (simp add: bfs_inv_def)
  with fresh none have disj: "fst ` set ?rs \<inter> set (bfs_visited ?st) = {}"
    unfolding rs by simp
  have so: "tsorted (bfs_members ?st)" using I by (simp add: bfs_inv_def)
  from visit_children [OF dist so] disj obtain st' where st':
    "try_fold visit_child ?rs ?st = Inr st'"
    "set (bfs_visited st') = set (bfs_visited st) \<union> ?R `` {p}"
    "bfs_queue st' = queue @ map fst ?rs" "tsorted (bfs_members st')"
    "\<forall>c. tget (bfs_members st') c
       = (case map_of ?rs c of None \<Rightarrow> tget (bfs_members ?st) c | Some l \<Rightarrow> Some l)"
    unfolding rs by auto
  have st5: "tget (bfs_members st') c
      = (case map_of ?rs c of None \<Rightarrow> tget (bfs_members st) c | Some l \<Rightarrow> Some l)" for c
    using st'(5) by (simp split: option.splits)
  have "p \<in> ?R\<^sup>* `` {root}"
  proof (cases "p = root")
    case False
    with I pvis obtain f where "f \<in> fin" "(f, p) \<in> ?R" by (auto simp: bfs_inv_def)
    with I show ?thesis by (auto simp: bfs_inv_def intro: rtrancl_into_rtrancl)
  qed simp
  moreover have "tget (bfs_members st') c = Some l
      \<longleftrightarrow> c \<in> ?R `` insert p fin \<and> tget children c = Some l" for c l
  proof (cases "map_of ?rs c")
    case None
    then have "c \<notin> ?R `` {p}" using rs by (auto simp: map_of_eq_None_iff)
    with None I show ?thesis unfolding st5 bfs_inv_def by auto
  next
    case (Some l')
    then have "(p, c) \<in> ?R" "tget children c = Some l'" by (auto simp: fin_children [OF s])
    with Some show ?thesis unfolding st5 by auto
  qed
  moreover have "set (map fst ?rs) \<inter> (insert p fin \<union> set queue) = {}"
  proof -
    from I have "set (bfs_visited st) = fin \<union> set (bfs_queue st)" unfolding bfs_inv_def by blast
    with q disj show ?thesis by simp
  qed
  ultimately have "bfs_inv children root (insert p fin) st'"
    using I q st' fresh dist rs unfolding bfs_inv_def by auto
  with st'(1) show ?thesis by blast
qed

lemma queue_reachable:
  assumes "bfs_inv children root fin st" "p \<in> set (bfs_queue st)"
  shows "(root, p) \<in> (parent_rel children)\<^sup>*"
proof (cases "p = root")
  case False
  with assms obtain f where "f \<in> fin" "(f, p) \<in> parent_rel children" by (auto simp: bfs_inv_def)
  with assms(1) show ?thesis by (auto simp: bfs_inv_def intro: rtrancl_into_rtrancl)
qed simp

lemma bfs_round_cycle:
  assumes s: "tsorted children" and I: "bfs_inv children root fin st" and q: "bfs_queue st = p # queue"
    and hit: "root \<in> parent_rel children `` {p}"
  shows "try_fold visit_child (children_of children p) (st\<lparr>bfs_queue := queue\<rparr>) = Inl (LineageCycle root)"
proof -
  let ?R = "parent_rel children" and ?rs = "children_of children p" and ?st = "st\<lparr>bfs_queue := queue\<rparr>"
  have rs: "fst ` set ?rs = ?R `` {p}" using children_of_rel [OF s] by auto
  have dist: "distinct (map fst ?rs)"
    using s by (simp add: children_of_def distinct_map_filter tsorted_distinct)
  from I q have "p \<notin> fin" by (auto simp: bfs_inv_def)
  then have "?R `` {p} \<inter> ?R `` fin = {}" by (auto simp: parent_rel_def)
  moreover have vis: "set (bfs_visited ?st) = insert root (?R `` fin)" using I by (simp add: bfs_inv_def)
  ultimately have "fst ` set ?rs \<inter> set (bfs_visited ?st) = {root}"
    unfolding rs using hit by auto
  with visit_children [OF dist, of ?st] I show ?thesis by (simp add: bfs_inv_def)
qed

lemma selection_loop_result:
  "tsorted children \<Longrightarrow> bfs_inv children root fin st \<Longrightarrow>
     (case selection_loop children st of
        Inr st' \<Rightarrow> \<exists>fin'. bfs_inv children root fin' st' \<and> bfs_queue st' = []
      | Inl e \<Rightarrow> e = LineageCycle root \<and> (root, root) \<in> (parent_rel children)\<^sup>+)"
proof (induction children st arbitrary: fin rule: selection_loop.induct)
  case (1 children st)
  show ?case
  proof (cases "bfs_queue st")
    case Nil
    with "1.prems" show ?thesis by (auto simp: selection_loop.simps [of children st])
  next
    case (Cons p queue)
    show ?thesis
    proof (cases "root \<in> parent_rel children `` {p}")
      case True
      have "(root, p) \<in> (parent_rel children)\<^sup>*"
        using queue_reachable [OF "1.prems"(2)] Cons by simp
      with True have "(root, root) \<in> (parent_rel children)\<^sup>+" by (auto intro: rtrancl_into_trancl1)
      with bfs_round_cycle [OF "1.prems" Cons True] Cons show ?thesis
        by (simp add: selection_loop.simps [of children st])
    next
      case False
      from bfs_round [OF "1.prems" Cons False] obtain st' where st':
        "try_fold visit_child (children_of children p) (st\<lparr>bfs_queue := queue\<rparr>) = Inr st'"
        "bfs_inv children root (insert p fin) st'" by blast
      from "1.IH" [OF Cons st'(1) "1.prems"(1) st'(2)] st'(1) Cons show ?thesis
        by (simp add: selection_loop.simps [of children st])
    qed
  qed
qed

lemma bfs_inv_init:
  "bfs_inv children root {} \<lparr>bfs_queue = [root], bfs_visited = [root], bfs_members = []\<rparr>"
  by (simp add: bfs_inv_def)

lemma closed_image:
  assumes "fin \<subseteq> R\<^sup>* `` {r}" "insert r (R `` fin) = fin"
  shows "R `` fin = R\<^sup>+ `` {r}"
proof
  show "R `` fin \<subseteq> R\<^sup>+ `` {r}" using assms(1) by (auto intro: rtrancl_into_trancl1)
  have "c \<in> R `` fin" if "(r, c) \<in> R\<^sup>+" for c
    using that
  proof (induction rule: trancl_induct)
    case (base y)
    then show ?case using assms(2) by auto
  next
    case (step y z)
    then show ?case using assms(2) by auto
  qed
  then show "R\<^sup>+ `` {r} \<subseteq> R `` fin" by auto
qed

lemma bfs_final:
  assumes "bfs_inv children root fin st" "bfs_queue st = []"
  shows "(root, root) \<notin> (parent_rel children)\<^sup>+"
    and "tget (bfs_members st) c = Some l \<longleftrightarrow> (root, c) \<in> (parent_rel children)\<^sup>+ \<and> tget children c = Some l"
    and "tsorted (bfs_members st)"
proof -
  from assms have "insert root (parent_rel children `` fin) = fin"
    "fin \<subseteq> (parent_rel children)\<^sup>* `` {root}"
    by (auto simp: bfs_inv_def)
  note closed = closed_image [OF this(2,1)]
  show "(root, root) \<notin> (parent_rel children)\<^sup>+"
    using assms(1) closed by (auto simp: bfs_inv_def)
  show "tget (bfs_members st) c = Some l
      \<longleftrightarrow> (root, c) \<in> (parent_rel children)\<^sup>+ \<and> tget children c = Some l"
    using assms(1) closed by (auto simp: bfs_inv_def)
  show "tsorted (bfs_members st)" using assms(1) by (simp add: bfs_inv_def)
qed

lemma selection_result:
  assumes "tsorted children"
  shows "case selection_of children root of
      Inr sel \<Rightarrow> (root, root) \<notin> (parent_rel children)\<^sup>+ \<and> sel_root sel = root \<and>
        (\<forall>c l. tget (sel_members sel) c = Some l
           \<longleftrightarrow> (root, c) \<in> (parent_rel children)\<^sup>+ \<and> tget children c = Some l)
    | Inl e \<Rightarrow> e = LineageCycle root \<and> (root, root) \<in> (parent_rel children)\<^sup>+"
  using selection_loop_result [OF assms bfs_inv_init, of root] bfs_final
  by (force simp: selection_of_def rbind_def split: sum.splits)

section \<open>Observation keeps one parent per child\<close>

lemma observe_capture_cases:
  assumes "observe_capture cap ch = Inr ch'"
  obtains "ch' = ch"
  | child parent turn where "child \<noteq> parent" "record_child child parent turn ch = Inr ch'"
  using assms by (auto simp: observe_capture_def Let_def res_simps split: if_splits)

lemma observe_capture_sorted: "observe_capture cap ch = Inr ch' \<Longrightarrow> tsorted ch \<Longrightarrow> tsorted ch'"
  by (erule observe_capture_cases) (auto simp: record_child_def split: option.splits if_splits)

lemma observe_capture_keeps:
  assumes "observe_capture cap ch = Inr ch'" "tget ch c = Some l"
  shows "\<exists>l'. tget ch' c = Some l' \<and> parent_session_id l' = parent_session_id l \<and>
           (root_turn_id l \<noteq> None \<longrightarrow> root_turn_id l' = root_turn_id l)"
  using assms(1)
  by (rule observe_capture_cases)
    (use assms(2) in \<open>auto simp: record_child_def split: option.splits if_splits\<close>)

lemma observe_capture_no_self:
  assumes "observe_capture cap ch = Inr ch'"
    "\<forall>c l. tget ch c = Some l \<longrightarrow> parent_session_id l \<noteq> c"
  shows "\<forall>c l. tget ch' c = Some l \<longrightarrow> parent_session_id l \<noteq> c"
  using assms(1)
  by (rule observe_capture_cases)
    (use assms(2) in \<open>fastforce simp: record_child_def split: option.splits if_splits\<close>)+

definition observe_captures :: "json list \<Rightarrow> lineage_error + lineage" where
  "observe_captures captures = try_fold observe_capture captures []"

lemma observe_captures_ok:
  "observe_captures captures = Inr ch \<Longrightarrow> tsorted ch \<and> (\<forall>c l. tget ch c = Some l \<longrightarrow> parent_session_id l \<noteq> c)"
  unfolding observe_captures_def
  by (rule try_fold_invariant [where I = "\<lambda>ch. tsorted ch \<and> (\<forall>c l. tget ch c = Some l \<longrightarrow> parent_session_id l \<noteq> c)"])
    (auto simp: observe_capture_sorted dest: observe_capture_no_self)

section \<open>Canonicalisation\<close>

lemma insert_consistent_frame:
  "insert_consistent k x t = Inr t' \<Longrightarrow> k' \<noteq> k \<Longrightarrow> tget t' k' = tget t k'"
  by (auto simp: insert_consistent_def split: option.splits if_splits)

lemma insert_consistent_sets:
  "insert_consistent k x t = Inr t' \<Longrightarrow> tget t' k = Some (String x) \<or>
     non_blank (Option.bind (tget t' k) as_str) = Some x"
  by (auto simp: insert_consistent_def split: option.splits if_splits)

lemma canonical_trace_session:
  "canonical_trace root child src t = Inr t' \<Longrightarrow> tget t' ''session_id'' = Some (String root)"
  by (auto simp: canonical_trace_def Let_def res_simps)

lemma canonical_trace_source:
  assumes "canonical_trace root child src t = Inr t'" "\<not> blank src"
  shows "non_blank (Option.bind (tget t' ''source_session_id'') as_str) = Some src"
proof -
  let ?k = "''source_session_id''"
  from assms(1) obtain t1 t2 t3 t4 t5 t6 where
    t1: "insert_consistent ?k src t = Inr t1" and
    t2: "(case non_blank (Option.bind (tget t1 ''conversation_id'') as_str) of
           Some conv \<Rightarrow> insert_consistent ''source_conversation_id'' conv t1 | None \<Rightarrow> Inr t1) = Inr t2" and
    t3: "insert_consistent ''root_session_id'' root t2 = Inr t3" and
    t4: "insert_consistent ''parent_session_id'' (parent_session_id child) t3 = Inr t4" and
    t5: "insert_consistent ''agent_id'' src t4 = Inr t5" and
    t6: "(case root_turn_id child of
           Some turn \<Rightarrow> insert_consistent ''root_turn_id'' turn (tput ''conversation_id'' (String root)
             (if tget t5 ''thread_id'' = None then tput ''thread_id'' (String src) t5 else t5))
         | None \<Rightarrow> Inr (tput ''conversation_id'' (String root)
             (if tget t5 ''thread_id'' = None then tput ''thread_id'' (String src) t5 else t5))) = Inr t6" and
    t': "t' = tput ''session_lineage_evidence'' (String ''subagent_lifecycle'')
           (tput ''session_id'' (String root) t6)"
    unfolding canonical_trace_def Let_def by (simp only: res_simps) blast
  have "tget t2 ?k = tget t1 ?k"
    using t2 by (auto split: option.splits dest!: insert_consistent_frame [where k' = ?k])
  moreover have "tget t5 ?k = tget t2 ?k"
    using t3 t4 t5 by (auto dest!: insert_consistent_frame [where k' = ?k])
  moreover have "tget t6 ?k = tget t5 ?k"
    using t6 by (auto split: option.splits dest!: insert_consistent_frame [where k' = ?k])
  ultimately have "tget t' ?k = tget t1 ?k" by (simp add: t')
  with insert_consistent_sets [OF t1] assms(2) show ?thesis
    by (auto simp: non_blank_def)
qed

lemma canonicalize_changes:
  assumes "canonicalize sel cap = Inr (True, cap')"
  obtains m trace trace' src child where "cap = Object m" "tget m ''traceContext'' = Some (Object trace)"
    "ptr_str cap [''traceContext'', ''session_id''] = Some src"
    "canonical_trace (sel_root sel) child src trace = Inr trace'"
    "cap' = Object (tput ''traceContext'' (Object trace') m)"
proof -
  from assms obtain src where src: "ptr_str cap [''traceContext'', ''session_id''] = Some src"
    by (cases "ptr_str cap [''traceContext'', ''session_id'']") (simp_all add: canonicalize_def)
  with assms have "src \<noteq> sel_root sel" by (auto simp: canonicalize_def)
  with assms src obtain child where child: "tget (sel_members sel) src = Some child"
    by (cases "tget (sel_members sel) src") (simp_all add: canonicalize_def)
  note f = assms src child \<open>src \<noteq> sel_root sel\<close>
  from f obtain m where m: "cap = Object m" by (cases cap) (simp_all add: canonicalize_def)
  with f obtain v where v: "tget m ''traceContext'' = Some v"
    by (cases "tget m ''traceContext''") (simp_all add: canonicalize_def)
  with f m obtain trace where t: "v = Object trace" by (cases v) (simp_all add: canonicalize_def)
  with f m v obtain trace' where "canonical_trace (sel_root sel) child src trace = Inr trace'"
    "cap' = Object (tput ''traceContext'' (Object trace') m)"
    by (auto simp: canonicalize_def res_simps)
  with that m v t src show ?thesis by blast
qed

section \<open>Properties\<close>

text \<open>
  C6: Selecting a root Session returns exactly its transitive subagent descendants with their
  recorded lineage, and fails exactly when the root is its own ancestor, naming the root; the
  search always terminates.
\<close>

theorem selection_is_reachability:
  assumes "observe_captures captures = Inr children"
  shows "case selection_of children root of
      Inr sel \<Rightarrow> (root, root) \<notin> (parent_rel children)\<^sup>+ \<and> sel_root sel = root \<and>
        (\<forall>c l. tget (sel_members sel) c = Some l
           \<longleftrightarrow> (root, c) \<in> (parent_rel children)\<^sup>+ \<and> tget children c = Some l)
    | Inl e \<Rightarrow> e = LineageCycle root \<and> (root, root) \<in> (parent_rel children)\<^sup>+"
  using observe_captures_ok [OF assms] by (blast intro: selection_result)

definition spawn_event :: "string \<Rightarrow> string \<Rightarrow> json" where
  "spawn_event parent child =
     json_object
       [(''traceContext'', json_object [(''session_id'', String parent), (''agent_id'', String child)]),
        (''lifecycleEvent'', json_object [(''type'', String ''subagent_spawn'')])]"

lemma selection_is_reachability_witness:
  "\<exists>children sel.
     observe_captures [spawn_event ''a'' ''b'', spawn_event ''b'' ''c''] = Inr children \<and>
     selection_of children ''a'' = Inr sel \<and> session_ids sel = {''a'', ''b'', ''c''} \<and>
     (''a'', ''a'') \<notin> (parent_rel children)\<^sup>+"
proof -
  let ?ch = "[(''b'', \<lparr>parent_session_id = ''a'', root_turn_id = None\<rparr>),
              (''c'', \<lparr>parent_session_id = ''b'', root_turn_id = None\<rparr>)]"
  have obs: "observe_captures [spawn_event ''a'' ''b'', spawn_event ''b'' ''c''] = Inr ?ch"
    by code_simp
  have sel: "selection_of ?ch ''a'' = Inr \<lparr>sel_root = ''a'', sel_members = ?ch\<rparr>"
    by code_simp
  from selection_is_reachability [OF obs, of "''a''"] sel
  have "(''a'', ''a'') \<notin> (parent_rel ?ch)\<^sup>+" by simp
  with obs sel show ?thesis by (auto simp: session_ids_def)
qed

text \<open>
  Lineage only grows: once a child Session has an explicit parent and root turn, no later
  event changes them; an event that names another parent, another root turn or the child itself
  is an error.
\<close>

theorem lineage_monotone:
  assumes "observe_captures captures = Inr ch" "observe_capture cap ch = Inr ch'" "tget ch c = Some l"
  shows "\<exists>l'. tget ch' c = Some l' \<and> parent_session_id l' = parent_session_id l \<and> parent_session_id l' \<noteq> c \<and>
           (root_turn_id l \<noteq> None \<longrightarrow> root_turn_id l' = root_turn_id l)"
  using observe_captures_ok [OF assms(1)] observe_capture_keeps [OF assms(2,3)]
    observe_capture_no_self [OF assms(2)] assms(3)
  by metis

lemma lineage_monotone_witness:
  "\<exists>ch ch' l'. observe_captures [spawn_event ''a'' ''b''] = Inr ch \<and>
     observe_capture (spawn_event ''a'' ''c'') ch = Inr ch' \<and>
     tget ch' ''b'' = Some l' \<and> parent_session_id l' = ''a'' \<and>
     observe_capture (spawn_event ''x'' ''b'') ch = Inl (MultipleParents ''b'')"
proof -
  let ?ch = "[(''b'', \<lparr>parent_session_id = ''a'', root_turn_id = None\<rparr>)]"
  have obs: "observe_captures [spawn_event ''a'' ''b''] = Inr ?ch" by code_simp
  have step: "observe_capture (spawn_event ''a'' ''c'') ?ch
      = Inr (?ch @ [(''c'', \<lparr>parent_session_id = ''a'', root_turn_id = None\<rparr>)])" by code_simp
  have bad: "observe_capture (spawn_event ''x'' ''b'') ?ch = Inl (MultipleParents ''b'')" by code_simp
  from lineage_monotone [OF obs step, of "''b''" "\<lparr>parent_session_id = ''a'', root_turn_id = None\<rparr>"]
  obtain l' where "tget (?ch @ [(''c'', \<lparr>parent_session_id = ''a'', root_turn_id = None\<rparr>)]) ''b'' = Some l'"
    "parent_session_id l' = ''a''" by auto
  with obs step bad show ?thesis by blast
qed

text \<open>
  A canonicalised Capture belongs to the root Session and keeps its native Session as
  evidence; a second canonicalisation leaves it unchanged and reports no change.
\<close>

theorem canonicalize_idempotent:
  assumes "canonicalize sel cap = Inr (changed, cap')"
  shows "canonicalize sel cap' = Inr (False, cap') \<and> (\<not> changed \<longrightarrow> cap' = cap) \<and>
         (changed \<longrightarrow> ptr_str cap' [''traceContext'', ''session_id''] = Some (sel_root sel) \<and>
            (\<forall>src. ptr_str cap [''traceContext'', ''session_id''] = Some src \<and> \<not> blank src \<longrightarrow>
               ptr_str cap' [''traceContext'', ''source_session_id''] = Some src))"
proof (cases changed)
  case True
  with assms have c: "canonicalize sel cap = Inr (True, cap')" by simp
  from c obtain m trace trace' src child where w: "ptr_str cap [''traceContext'', ''session_id''] = Some src"
    "canonical_trace (sel_root sel) child src trace = Inr trace'"
    "cap' = Object (tput ''traceContext'' (Object trace') m)"
    by (rule canonicalize_changes)
  from canonical_trace_session [OF w(2)] w(3)
  have "ptr_str cap' [''traceContext'', ''session_id''] = Some (sel_root sel)" by (simp add: ptr_str_def)
  moreover from this have "canonicalize sel cap' = Inr (False, cap')" by (simp add: canonicalize_def)
  moreover have "ptr_str cap' [''traceContext'', ''source_session_id''] = Some src" if "\<not> blank src"
    using canonical_trace_source [OF w(2) that] w(3)
    by (cases "tget trace' ''source_session_id''") (auto simp: ptr_str_def non_blank_eq_Some)
  ultimately show ?thesis using True w(1) by simp
next
  case False
  with assms have "cap' = cap"
    by (auto simp: canonicalize_def res_simps split: option.splits json.splits if_splits)
  with False assms show ?thesis by simp
qed

definition example_selection :: selection where
  "example_selection =
     \<lparr>sel_root = ''a'', sel_members = [(''b'', \<lparr>parent_session_id = ''a'', root_turn_id = None\<rparr>)]\<rparr>"

lemma canonicalize_idempotent_witness:
  "\<exists>cap'. canonicalize example_selection (spawn_event ''b'' ''b'') = Inr (True, cap') \<and>
     canonicalize example_selection cap' = Inr (False, cap')"
proof -
  obtain cap' where c: "canonicalize example_selection (spawn_event ''b'' ''b'') = Inr (True, cap')"
  proof -
    have "\<not> isl (canonicalize example_selection (spawn_event ''b'' ''b'')) \<and>
        fst (projr (canonicalize example_selection (spawn_event ''b'' ''b'')))" by code_simp
    then show ?thesis
      using that by (cases "canonicalize example_selection (spawn_event ''b'' ''b'')") (auto simp: prod_eq_iff)
  qed
  with canonicalize_idempotent [OF c] show ?thesis by blast
qed

end
