(* ===== verification/WalStore.thy ===== *)
theory WalStore
  imports Tables
begin

text \<open>
  The Capture store of the Collector and the Relay (\<open>store.rs\<close>): an append-only WAL of NDJSON
  segments and a ledger that locates every Capture in it.  This theory holds the state and the
  operations; \<open>WalInvariant\<close> and \<open>WalRecovery\<close> hold the proofs.

  The state is what survives a crash (the files and the ledger's tables) and the writer's active
  segment and attempt counter.  SHA-256 in hexadecimal is the parameter \<open>sha\<close>; the running
  digest of the active segment is the bytes it was fed, finalised by \<open>sha\<close>.  Each operation
  takes the time it reads (\<open>now\<close>).  File sizes, offsets, identifiers and counts are natural
  numbers; where the code saturates at \<open>u64::MAX\<close>, so does the model (\<open>sat\<close>).  File
  operations succeed except where the code relies on their failing (\<open>create_new\<close>, \<open>read_exact\<close>).
\<close>

section \<open>State\<close>

definition sat :: "nat \<Rightarrow> nat" where
  "sat n = min n (2 ^ 64 - 1)"

record store_config =
  segment_max_bytes :: nat
  queue_items :: nat
  batch_records :: nat
  batch_bytes :: nat

record wire_evidence =
  we_turn_scoped :: bool
  we_http_success :: bool
  we_identity_conflict :: bool

record capture_record =
  cr_capture_id :: string
  cr_canonical :: string
  cr_sha256 :: string
  cr_legacy_raw_sha256 :: "string option"
  cr_received_at :: "string option"
  cr_model :: "string option"
  cr_wire_evidence :: wire_evidence

record locator =
  lo_capture_id :: string
  lo_raw_sha256 :: string
  lo_segment_id :: nat
  lo_offset :: nat
  lo_length :: nat
  lo_received_at :: "string option"
  lo_model :: "string option"

record segment_metadata =
  sm_segment_id :: nat
  sm_path :: string
  sm_state :: string
  sm_bytes :: nat
  sm_records :: nat
  sm_created_at :: string
  sm_sealed_at :: "string option"
  sm_sha256 :: "string option"

record attempt =
  at_attempt_id :: nat
  at_capture_id :: "string option"
  at_raw_sha256 :: "string option"
  at_state :: string
  at_reason :: "string option"
  at_received_at :: string
  at_committed_at :: "string option"
  at_segment_id :: "nat option"

record submit_ack =
  ack_capture_id :: string
  ack_state :: string
  ack_durable :: bool
  ack_duplicate :: bool
  ack_raw_sha256 :: string
  ack_segment_id :: nat
  ack_offset :: nat
  ack_length :: nat

record ledger_counters =
  lc_captures :: nat
  lc_attempts :: nat
  lc_accepted :: nat
  lc_duplicate :: nat
  lc_conflict :: nat
  lc_rejected :: nat
  lc_sealed_segments :: nat
  lc_sealed_bytes :: nat
  lc_last_commit_at :: "string option"

record active_segment =
  ac_metadata :: segment_metadata
  ac_path :: string
  ac_digest :: string

record wal =
  w_files :: "(string, string) table"
  w_captures :: "(string, locator) table"
  w_attempts :: "(nat, attempt) table"
  w_segments :: "(nat, segment_metadata) table"
  w_counters :: "ledger_counters option"
  w_active :: active_segment
  w_next_attempt_id :: nat

datatype submit_error = Conflict | Unavailable

datatype wal_error =
    EmptySeal
  | FileExists string
  | FileMissing string
  | CountersMissing
  | CaptureNotFound string
  | SegmentNotFound nat
  | ShortRead string
  | NewlineMismatch string
  | ChecksumMismatch string
  | InvalidFilename string
  | SealedTail string
  | InvalidStored string
  | LocatorCoverage string
  | RecoveryConflict string
  | MultipleOpen
  | UnsupportedSchema string

definition matches_persisted_sha256 :: "capture_record \<Rightarrow> string \<Rightarrow> bool" where
  "matches_persisted_sha256 r persisted \<longleftrightarrow>
     cr_sha256 r = persisted \<or> cr_legacy_raw_sha256 r = Some persisted"

definition ack :: "locator \<Rightarrow> bool \<Rightarrow> string \<Rightarrow> submit_ack" where
  "ack l duplicate st =
     \<lparr>ack_capture_id = lo_capture_id l, ack_state = st, ack_durable = True,
      ack_duplicate = duplicate, ack_raw_sha256 = lo_raw_sha256 l,
      ack_segment_id = lo_segment_id l, ack_offset = lo_offset l, ack_length = lo_length l\<rparr>"

section \<open>Counters\<close>

definition zero_counters :: ledger_counters where
  "zero_counters =
     \<lparr>lc_captures = 0, lc_attempts = 0, lc_accepted = 0, lc_duplicate = 0, lc_conflict = 0,
      lc_rejected = 0, lc_sealed_segments = 0, lc_sealed_bytes = 0, lc_last_commit_at = None\<rparr>"

definition count_attempt :: "attempt \<Rightarrow> ledger_counters \<Rightarrow> ledger_counters" where
  "count_attempt a c =
     (if at_state a = ''accepted'' \<or> at_state a = ''recovered'' then c\<lparr>lc_accepted := lc_accepted c + 1\<rparr>
      else if at_state a = ''duplicate'' then c\<lparr>lc_duplicate := lc_duplicate c + 1\<rparr>
      else if at_state a = ''conflict'' then c\<lparr>lc_conflict := lc_conflict c + 1\<rparr>
      else c\<lparr>lc_rejected := lc_rejected c + 1\<rparr>)\<lparr>lc_last_commit_at := at_committed_at a\<rparr>"

definition count_segment :: "segment_metadata \<Rightarrow> ledger_counters \<Rightarrow> ledger_counters" where
  "count_segment m c =
     (if sm_state m = ''sealed''
      then c\<lparr>lc_sealed_segments := lc_sealed_segments c + 1,
             lc_sealed_bytes := sat (lc_sealed_bytes c + sm_bytes m)\<rparr>
      else c)"

definition counters_from_tables ::
  "(string, locator) table \<Rightarrow> (nat, attempt) table \<Rightarrow> (nat, segment_metadata) table \<Rightarrow> ledger_counters" where
  "counters_from_tables captures attempts segments =
     fold (\<lambda>r. count_segment (snd r)) segments
       (fold (\<lambda>r. count_attempt (snd r)) attempts
         (zero_counters\<lparr>lc_captures := length captures, lc_attempts := length attempts\<rparr>))"

definition read_counters :: "wal \<Rightarrow> wal_error + ledger_counters" where
  "read_counters w = ok_or CountersMissing (w_counters w)"

definition rebuild_counters :: "wal \<Rightarrow> wal" where
  "rebuild_counters w =
     w\<lparr>w_counters := Some (counters_from_tables (w_captures w) (w_attempts w) (w_segments w))\<rparr>"

section \<open>Segments\<close>

text \<open>The key after the last one of an ordered table, or 1.\<close>

definition next_key :: "(nat, 'v) table \<Rightarrow> nat" where
  "next_key t = (if t = [] then 1 else fst (last t) + 1)"

definition open_suffix :: string where "open_suffix = ''.open.ndjson''"

definition sealed_suffix :: string where "sealed_suffix = ''.sealed.ndjson''"

definition segment_path :: "nat \<Rightarrow> string \<Rightarrow> string" where
  "segment_path sid suf = ''segments/segment-'' @ fmt0 20 sid @ suf"

text \<open>\<open>str::replace\<close> of a non-empty pattern.\<close>

function str_replace :: "string \<Rightarrow> string \<Rightarrow> string \<Rightarrow> string" where
  "str_replace p r s =
     (if p \<noteq> [] \<and> prefix p s then r @ str_replace p r (drop (length p) s)
      else case s of [] \<Rightarrow> [] | c # cs \<Rightarrow> c # str_replace p r cs)"
  by pat_completeness auto
termination
proof (relation "measure (\<lambda>(p, r, s). length s)")
  fix p r s :: string
  assume "p \<noteq> [] \<and> prefix p s"
  then show "((p, r, drop (length p) s), p, r, s) \<in> measure (\<lambda>(p, r, s). length s)"
    by (auto dest!: prefix_length_le intro: diff_less)
qed auto

declare str_replace.simps [simp del]

definition file_name :: "string \<Rightarrow> string" where
  "file_name p = rev (takeWhile (\<lambda>c. c \<noteq> CHR ''/'') (rev p))"

definition dir_name :: "string \<Rightarrow> string" where
  "dir_name p = rev (dropWhile (\<lambda>c. c \<noteq> CHR ''/'') (rev p))"

definition create_active_segment :: "string \<Rightarrow> wal \<Rightarrow> wal_error + wal" where
  "create_active_segment now w =
     (let sid = next_key (w_segments w);
          path = segment_path sid open_suffix;
          metadata = \<lparr>sm_segment_id = sid, sm_path = path, sm_state = ''open'', sm_bytes = 0,
                      sm_records = 0, sm_created_at = now, sm_sealed_at = None, sm_sha256 = None\<rparr>
      in if tget (w_files w) path \<noteq> None then Inl (FileExists path)
         else Inr (w\<lparr>w_files := tput path [] (w_files w),
                     w_segments := tput sid metadata (w_segments w),
                     w_active := \<lparr>ac_metadata = metadata, ac_path = path, ac_digest = []\<rparr>\<rparr>))"

definition rename_file :: "string \<Rightarrow> string \<Rightarrow> (string, string) table \<Rightarrow> wal_error + (string, string) table" where
  "rename_file src dst files =
     (case tget files src of
        None \<Rightarrow> Inl (FileMissing src)
      | Some bytes \<Rightarrow> Inr (tput dst bytes (tdel src files)))"

definition seal_active :: "(string \<Rightarrow> string) \<Rightarrow> string \<Rightarrow> wal \<Rightarrow> wal_error + (wal \<times> segment_metadata)" where
  "seal_active sha now w =
     (let active = w_active w; metadata = ac_metadata active
      in if sm_records metadata = 0 then Inl EmptySeal
      else
        let open_path = ac_path active;
            sealed_path = dir_name open_path @ str_replace open_suffix sealed_suffix (file_name open_path)
        in rbind (rename_file open_path sealed_path (w_files w)) (\<lambda>files.
             let metadata = metadata\<lparr>sm_path := sealed_path, sm_state := ''sealed'',
                                     sm_sealed_at := Some now, sm_sha256 := Some (sha (ac_digest active))\<rparr>
             in rbind (read_counters w) (\<lambda>counters.
                  Inr (w\<lparr>w_files := files,
                         w_active := active\<lparr>ac_path := sealed_path, ac_metadata := metadata\<rparr>,
                         w_segments := tput (sm_segment_id metadata) metadata (w_segments w),
                         w_counters := Some (counters
                           \<lparr>lc_sealed_segments := sat (lc_sealed_segments counters + 1),
                            lc_sealed_bytes := sat (lc_sealed_bytes counters + sm_bytes metadata)\<rparr>)\<rparr>,
                       metadata))))"

definition rotate_active :: "(string \<Rightarrow> string) \<Rightarrow> string \<Rightarrow> wal \<Rightarrow> wal_error + wal" where
  "rotate_active sha now w = rbind (seal_active sha now w) (\<lambda>r. create_active_segment now (fst r))"

definition seal_and_rotate :: "(string \<Rightarrow> string) \<Rightarrow> string \<Rightarrow> wal \<Rightarrow> wal_error + (wal \<times> segment_metadata)" where
  "seal_and_rotate sha now w =
     (if sm_records (ac_metadata (w_active w)) = 0 then Inr (w, ac_metadata (w_active w))
      else rbind (seal_active sha now w) (\<lambda>r.
        rbind (create_active_segment now (fst r)) (\<lambda>w. Inr (w, snd r))))"

definition shutdown_active :: "(string \<Rightarrow> string) \<Rightarrow> string \<Rightarrow> wal \<Rightarrow> wal_error + wal" where
  "shutdown_active sha now w =
     (if sm_records (ac_metadata (w_active w)) = 0 then Inr w
      else rbind (seal_active sha now w) (\<lambda>r. Inr (fst r)))"

section \<open>Committing a batch\<close>

subsection \<open>Classification against the ledger and within the batch\<close>

datatype duplicate_source = Existing locator | InBatch nat

record classified =
  cl_primary :: "(string, nat) table"
  cl_pending :: "nat list"
  cl_duplicates :: "(nat \<times> duplicate_source) list"
  cl_conflicts :: "nat list"

definition classify_one ::
  "(string, locator) table \<Rightarrow> capture_record list \<Rightarrow> nat \<times> capture_record \<Rightarrow> classified \<Rightarrow> classified" where
  "classify_one captures batch ir cl =
     (let index = fst ir; record = snd ir
      in case tget captures (cr_capture_id record) of
           Some l \<Rightarrow>
             if matches_persisted_sha256 record (lo_raw_sha256 l)
             then cl\<lparr>cl_duplicates := cl_duplicates cl @ [(index, Existing l)]\<rparr>
             else cl\<lparr>cl_conflicts := cl_conflicts cl @ [index]\<rparr>
         | None \<Rightarrow>
             (case tget (cl_primary cl) (cr_capture_id record) of
                Some primary_index \<Rightarrow>
                  if cr_sha256 (batch ! primary_index) = cr_sha256 record
                  then cl\<lparr>cl_duplicates := cl_duplicates cl @ [(index, InBatch primary_index)]\<rparr>
                  else cl\<lparr>cl_conflicts := cl_conflicts cl @ [index]\<rparr>
              | None \<Rightarrow>
                  cl\<lparr>cl_primary := tput (cr_capture_id record) index (cl_primary cl),
                     cl_pending := cl_pending cl @ [index]\<rparr>))"

definition classify :: "(string, locator) table \<Rightarrow> capture_record list \<Rightarrow> classified" where
  "classify captures batch =
     fold (classify_one captures batch) (enumerate 0 batch)
       \<lparr>cl_primary = [], cl_pending = [], cl_duplicates = [], cl_conflicts = []\<rparr>"

subsection \<open>Appending to the active segment\<close>

definition needs_rotation :: "store_config \<Rightarrow> wal \<Rightarrow> capture_record \<Rightarrow> bool" where
  "needs_rotation cfg w r \<longleftrightarrow>
     0 < sm_records (ac_metadata (w_active w)) \<and>
     segment_max_bytes cfg < sat (sm_bytes (ac_metadata (w_active w)) + (length (cr_canonical r) + 1))"

definition append_record :: "capture_record \<Rightarrow> wal \<Rightarrow> wal \<times> locator" where
  "append_record r w =
     (let active = w_active w; metadata = ac_metadata active;
          line = cr_canonical r @ [CHR 0x0A];
          bytes = (case tget (w_files w) (ac_path active) of None \<Rightarrow> [] | Some b \<Rightarrow> b);
          l = \<lparr>lo_capture_id = cr_capture_id r, lo_raw_sha256 = cr_sha256 r,
               lo_segment_id = sm_segment_id metadata, lo_offset = sm_bytes metadata,
               lo_length = length (cr_canonical r) + 1,
               lo_received_at = cr_received_at r, lo_model = cr_model r\<rparr>
      in (w\<lparr>w_files := tput (ac_path active) (bytes @ line) (w_files w),
            w_active := active\<lparr>ac_digest := ac_digest active @ line,
                               ac_metadata := metadata\<lparr>sm_bytes := sm_bytes metadata + lo_length l,
                                                       sm_records := sm_records metadata + 1\<rparr>\<rparr>\<rparr>, l))"

definition append_one ::
  "(string \<Rightarrow> string) \<Rightarrow> store_config \<Rightarrow> string \<Rightarrow> capture_record list \<Rightarrow> nat
     \<Rightarrow> wal \<times> (nat \<times> locator) list \<Rightarrow> wal_error + (wal \<times> (nat \<times> locator) list)" where
  "append_one sha cfg now batch index st =
     rbind (if needs_rotation cfg (fst st) (batch ! index) then rotate_active sha now (fst st) else Inr (fst st)) (\<lambda>w.
       let r = append_record (batch ! index) w in Inr (fst r, snd st @ [(index, snd r)]))"

definition append_pending ::
  "(string \<Rightarrow> string) \<Rightarrow> store_config \<Rightarrow> string \<Rightarrow> capture_record list \<Rightarrow> nat list \<Rightarrow> wal
     \<Rightarrow> wal_error + (wal \<times> (nat \<times> locator) list)" where
  "append_pending sha cfg now batch pending w = try_fold (append_one sha cfg now batch) pending (w, [])"

subsection \<open>The ledger transaction\<close>

definition resolve_duplicate :: "(nat \<times> locator) list \<Rightarrow> nat \<times> duplicate_source \<Rightarrow> nat \<times> locator" where
  "resolve_duplicate primary_locators d =
     (fst d, case snd d of Existing l \<Rightarrow> l | InBatch p \<Rightarrow> the (map_of primary_locators p))"

definition record_attempt ::
  "string option \<Rightarrow> string option \<Rightarrow> string \<Rightarrow> string option \<Rightarrow> nat option \<Rightarrow> string \<Rightarrow> wal \<Rightarrow> wal" where
  "record_attempt capture_id raw_sha256 st reason segment_id now w =
     w\<lparr>w_attempts := tput (w_next_attempt_id w)
         \<lparr>at_attempt_id = w_next_attempt_id w, at_capture_id = capture_id, at_raw_sha256 = raw_sha256,
          at_state = st, at_reason = reason, at_received_at = now, at_committed_at = Some now,
          at_segment_id = segment_id\<rparr> (w_attempts w),
       w_next_attempt_id := w_next_attempt_id w + 1\<rparr>"

definition commit_accepted :: "string \<Rightarrow> capture_record list \<Rightarrow> nat \<times> locator \<Rightarrow> wal \<Rightarrow> wal" where
  "commit_accepted now batch p w =
     (let r = batch ! fst p; l = snd p
      in record_attempt (Some (cr_capture_id r)) (Some (cr_sha256 r)) ''accepted'' None
           (Some (lo_segment_id l)) now
           (w\<lparr>w_captures := tput (cr_capture_id r) l (w_captures w)\<rparr>))"

definition commit_duplicate :: "string \<Rightarrow> capture_record list \<Rightarrow> nat \<times> locator \<Rightarrow> wal \<Rightarrow> wal" where
  "commit_duplicate now batch p w =
     record_attempt (Some (cr_capture_id (batch ! fst p))) (Some (lo_raw_sha256 (snd p))) ''duplicate''
       (Some ''already_committed'') (Some (lo_segment_id (snd p))) now w"

definition commit_conflict :: "string \<Rightarrow> capture_record list \<Rightarrow> nat \<Rightarrow> wal \<Rightarrow> wal" where
  "commit_conflict now batch index w =
     record_attempt (Some (cr_capture_id (batch ! index))) (Some (cr_sha256 (batch ! index))) ''conflict''
       (Some ''same_capture_id_different_payload'') None now w"

definition commit_ledger ::
  "string \<Rightarrow> capture_record list \<Rightarrow> (nat \<times> locator) list \<Rightarrow> (nat \<times> locator) list \<Rightarrow> nat list
     \<Rightarrow> wal \<Rightarrow> wal_error + wal" where
  "commit_ledger now batch pending duplicates conflicts w =
     rbind (read_counters w) (\<lambda>counters.
       let w = fold (commit_accepted now batch) pending w;
           w = fold (commit_duplicate now batch) duplicates w;
           w = fold (commit_conflict now batch) conflicts w;
           metadata = ac_metadata (w_active w)
       in Inr (w\<lparr>w_segments := tput (sm_segment_id metadata) metadata (w_segments w),
                 w_counters := Some (counters
                   \<lparr>lc_captures := sat (lc_captures counters + length pending),
                    lc_attempts := sat (lc_attempts counters + length batch),
                    lc_accepted := sat (lc_accepted counters + length pending),
                    lc_duplicate := sat (lc_duplicate counters + length duplicates),
                    lc_conflict := sat (lc_conflict counters + length conflicts),
                    lc_last_commit_at := Some now\<rparr>)\<rparr>))"

definition batch_result ::
  "(nat \<times> locator) list \<Rightarrow> (nat \<times> locator) list \<Rightarrow> nat \<Rightarrow> submit_error + submit_ack" where
  "batch_result pending duplicates index =
     (case map_of pending index of
        Some l \<Rightarrow> Inr (ack l False ''accepted'')
      | None \<Rightarrow>
          (case map_of duplicates index of
             Some l \<Rightarrow> Inr (ack l True ''duplicate'')
           | None \<Rightarrow> Inl Conflict))"

definition rotate_full :: "(string \<Rightarrow> string) \<Rightarrow> store_config \<Rightarrow> string \<Rightarrow> bool \<Rightarrow> wal \<Rightarrow> wal_error + wal" where
  "rotate_full sha cfg now aged w =
     (if 0 < sm_records (ac_metadata (w_active w))
         \<and> (segment_max_bytes cfg \<le> sm_bytes (ac_metadata (w_active w)) \<or> aged)
      then rotate_active sha now w else Inr w)"

text \<open>
  One batch: \<open>aged\<close> says whether the active segment has reached its maximal age when the batch
  is done.  The first component of the result is the durable state.
\<close>

definition commit_batch_inner ::
  "(string \<Rightarrow> string) \<Rightarrow> store_config \<Rightarrow> string \<Rightarrow> bool \<Rightarrow> capture_record list \<Rightarrow> wal
     \<Rightarrow> wal_error + (wal \<times> (submit_error + submit_ack) list)" where
  "commit_batch_inner sha cfg now aged batch w =
     (let cl = classify (w_captures w) batch
      in rbind (append_pending sha cfg now batch (cl_pending cl) w) (\<lambda>ap.
           let pending = snd ap;
               duplicates = map (resolve_duplicate pending) (cl_duplicates cl)
           in rbind (commit_ledger now batch pending duplicates (cl_conflicts cl) (fst ap)) (\<lambda>w.
                let results = map (batch_result pending duplicates) [0..<length batch]
                in rbind (rotate_full sha cfg now aged w) (\<lambda>w. Inr (w, results)))))"

section \<open>Reading\<close>

definition list_captures :: "wal \<Rightarrow> locator list" where
  "list_captures w = map snd (w_captures w)"

definition read_exact :: "string \<Rightarrow> nat \<Rightarrow> nat \<Rightarrow> string option" where
  "read_exact bytes offset len =
     (if offset + len \<le> length bytes then Some (take len (drop offset bytes)) else None)"

definition read_capture :: "(string \<Rightarrow> string) \<Rightarrow> string \<Rightarrow> wal \<Rightarrow> wal_error + string" where
  "read_capture sha capture_id w =
     rbind (ok_or (CaptureNotFound capture_id) (tget (w_captures w) capture_id)) (\<lambda>l.
     rbind (ok_or (SegmentNotFound (lo_segment_id l)) (tget (w_segments w) (lo_segment_id l))) (\<lambda>segment.
     rbind (ok_or (FileMissing (sm_path segment)) (tget (w_files w) (sm_path segment))) (\<lambda>file.
     rbind (ok_or (ShortRead capture_id) (read_exact file (lo_offset l) (lo_length l))) (\<lambda>bytes.
       if bytes = [] \<or> last bytes \<noteq> CHR 0x0A then Inl (NewlineMismatch capture_id)
       else if sha (butlast bytes) \<noteq> lo_raw_sha256 l then Inl (ChecksumMismatch capture_id)
       else Inr (butlast bytes)))))"

end
