(* ===== verification/WalInvariant.thy ===== *)
theory WalInvariant
  imports WalStore
begin

text \<open>
  The log invariant of the Capture store and what every step of the writer does to it: the files
  of the segments only grow (\<open>log_le\<close>), the locators of a segment tile its file without a gap,
  every locator reads back bytes with its hash, the active segment is the only open one, and
  paths determine segments.
\<close>

section \<open>Paths\<close>

lemma str_replace_skip:
  "p = c # p' \<Longrightarrow> c \<notin> set s \<Longrightarrow> str_replace p r (s @ t) = s @ str_replace p r t"
proof (induction s)
  case (Cons x xs)
  then have "\<not> prefix p ((x # xs) @ t)" by auto
  then have "str_replace p r (x # xs @ t) = x # str_replace p r (xs @ t)"
    by (subst str_replace.simps) simp
  with Cons show ?case by simp
qed simp

lemma str_replace_here: "p \<noteq> [] \<Longrightarrow> str_replace p r (p @ t) = r @ str_replace p r t"
  by (subst str_replace.simps) simp

lemma str_replace_Nil: "p \<noteq> [] \<Longrightarrow> str_replace p r [] = []"
  by (subst str_replace.simps) auto

lemma fmt0_no_char: "\<not> is_digit c \<Longrightarrow> c \<notin> set (fmt0 w n)"
  using list_all_fmt0 [of w n] by (auto simp: list_all_iff)

lemma dot_slash_not_digit [simp]: "\<not> is_digit (CHR ''.'')" "\<not> is_digit (CHR ''/'')"
  by (simp_all add: is_digit_def less_eq_char_def)

lemma file_name_append: "CHR ''/'' \<notin> set s \<Longrightarrow> file_name (d @ CHR ''/'' # s) = s"
  and dir_name_append: "CHR ''/'' \<notin> set s \<Longrightarrow> dir_name (d @ CHR ''/'' # s) = d @ ''/''"
proof -
  assume a: "CHR ''/'' \<notin> set s"
  have r: "rev (d @ CHR ''/'' # s) = rev s @ CHR ''/'' # rev d" by simp
  from a show "file_name (d @ CHR ''/'' # s) = s"
    unfolding file_name_def r by (subst takeWhile_append2) auto
  from a show "dir_name (d @ CHR ''/'' # s) = d @ ''/''"
    unfolding dir_name_def r by (subst dropWhile_append2) auto
qed

definition segment_file_name :: "nat \<Rightarrow> string \<Rightarrow> string" where
  "segment_file_name sid suf = ''segment-'' @ fmt0 20 sid @ suf"

lemma segment_path_split: "segment_path sid suf = ''segments'' @ CHR ''/'' # segment_file_name sid suf"
  by (simp add: segment_path_def segment_file_name_def)

lemma segment_file_name_no_slash:
  "CHR ''/'' \<notin> set suf \<Longrightarrow> CHR ''/'' \<notin> set (segment_file_name sid suf)"
  by (auto simp: segment_file_name_def fmt0_no_char)

lemma suffixes_no_slash [simp]: "CHR ''/'' \<notin> set open_suffix" "CHR ''/'' \<notin> set sealed_suffix"
  by (simp_all add: open_suffix_def sealed_suffix_def)

lemma file_name_segment_path [simp]:
  "CHR ''/'' \<notin> set suf \<Longrightarrow> file_name (segment_path sid suf) = segment_file_name sid suf"
  unfolding segment_path_split by (rule file_name_append) (rule segment_file_name_no_slash)

lemma dir_name_segment_path [simp]:
  "CHR ''/'' \<notin> set suf \<Longrightarrow> dir_name (segment_path sid suf) = ''segments/''"
  unfolding segment_path_split by (subst dir_name_append) (simp_all add: segment_file_name_no_slash)

lemma sealed_name:
  "str_replace open_suffix sealed_suffix (segment_file_name sid open_suffix)
     = segment_file_name sid sealed_suffix"
proof -
  have "CHR ''.'' \<notin> set (''segment-'' @ fmt0 20 sid)" by (auto simp: fmt0_no_char)
  then have "str_replace open_suffix sealed_suffix ((''segment-'' @ fmt0 20 sid) @ open_suffix @ [])
      = (''segment-'' @ fmt0 20 sid) @ str_replace open_suffix sealed_suffix (open_suffix @ [])"
    by (intro str_replace_skip [where c = "CHR ''.''" and p' = "''open.ndjson''"])
      (simp_all add: open_suffix_def)
  also have "str_replace open_suffix sealed_suffix (open_suffix @ []) = sealed_suffix"
    unfolding open_suffix_def by (subst str_replace_here) (simp_all add: str_replace_Nil)
  finally show ?thesis by (simp add: segment_file_name_def)
qed

lemma sealed_path:
  "dir_name (segment_path sid open_suffix)
     @ str_replace open_suffix sealed_suffix (file_name (segment_path sid open_suffix))
   = segment_path sid sealed_suffix"
  by (simp add: sealed_name) (simp add: segment_path_split)

lemma segment_path_inject:
  assumes "segment_path a s = segment_path b t"
    and "s \<in> {open_suffix, sealed_suffix}" "t \<in> {open_suffix, sealed_suffix}"
  shows "a = b \<and> s = t"
proof -
  from assms(1) have e: "fmt0 20 a @ s = fmt0 20 b @ t" by (simp add: segment_path_def)
  have "takeWhile (\<lambda>c. c \<noteq> CHR ''.'') (fmt0 20 n @ u) = fmt0 20 n"
    if "u \<in> {open_suffix, sealed_suffix}" for n u
  proof -
    from that obtain v where "u = CHR ''.'' # v" by (auto simp: open_suffix_def sealed_suffix_def)
    moreover have "\<forall>c \<in> set (fmt0 20 n). c \<noteq> CHR ''.''" using fmt0_no_char by force
    ultimately show ?thesis by (simp add: takeWhile_append2)
  qed
  with e assms(2,3) have "fmt0 20 a = fmt0 20 b" by metis
  with e show ?thesis by (auto simp: fmt0_inject)
qed

section \<open>The invariant of the log\<close>

abbreviation active_id :: "wal \<Rightarrow> nat" where
  "active_id w \<equiv> sm_segment_id (ac_metadata (w_active w))"

text \<open>The segments as the next ledger transaction will record them.\<close>

definition cur :: "wal \<Rightarrow> (nat, segment_metadata) table" where
  "cur w = tput (active_id w) (ac_metadata (w_active w)) (w_segments w)"

text \<open>The bytes of a segment's file, and the bytes a locator names.\<close>

definition seg_file :: "wal \<Rightarrow> nat \<Rightarrow> string option" where
  "seg_file w g = Option.bind (tget (w_segments w) g) (\<lambda>m. tget (w_files w) (sm_path m))"

definition wal_slice :: "wal \<Rightarrow> locator \<Rightarrow> string option" where
  "wal_slice w l = Option.bind (seg_file w (lo_segment_id l)) (\<lambda>b. read_exact b (lo_offset l) (lo_length l))"

definition located :: "(string \<Rightarrow> string) \<Rightarrow> wal \<Rightarrow> locator \<Rightarrow> bool" where
  "located sha w l \<longleftrightarrow> (\<exists>c. wal_slice w l = Some (c @ [CHR 0x0A]) \<and> sha c = lo_raw_sha256 l)"

fun contiguous :: "nat \<Rightarrow> locator list \<Rightarrow> nat \<Rightarrow> bool" where
  "contiguous s [] e \<longleftrightarrow> s = e"
| "contiguous s (l # ls) e \<longleftrightarrow> lo_offset l = s \<and> 0 < lo_length l \<and> contiguous (s + lo_length l) ls e"

definition of_segment :: "locator multiset \<Rightarrow> nat \<Rightarrow> locator multiset" where
  "of_segment M g = filter_mset (\<lambda>l. lo_segment_id l = g) M"

definition tiled :: "locator multiset \<Rightarrow> nat \<Rightarrow> nat \<Rightarrow> bool" where
  "tiled M g n \<longleftrightarrow> (\<exists>ls. mset ls = of_segment M g \<and> contiguous 0 ls n)"

definition seg_ok :: "(string \<Rightarrow> string) \<Rightarrow> wal \<Rightarrow> locator multiset \<Rightarrow> nat \<Rightarrow> segment_metadata \<Rightarrow> bool" where
  "seg_ok sha w M g m \<longleftrightarrow>
     sm_segment_id m = g \<and>
     sm_path m = segment_path g (if sm_state m = ''open'' then open_suffix else sealed_suffix) \<and>
     (sm_state m = ''open'' \<and> g = active_id w \<or>
      sm_state m = ''sealed'' \<and> sm_sha256 m = Some (sha (the (tget (w_files w) (sm_path m))))) \<and>
     map_option length (tget (w_files w) (sm_path m)) = Some (sm_bytes m) \<and>
     tiled M g (sm_bytes m) \<and> sm_records m = size (of_segment M g)"

definition active_ok :: "wal \<Rightarrow> bool" where
  "active_ok w \<longleftrightarrow>
     (\<exists>m. tget (w_segments w) (active_id w) = Some m \<and> sm_path m = ac_path (w_active w)) \<and>
     sm_path (ac_metadata (w_active w)) = ac_path (w_active w) \<and>
     tget (w_files w) (ac_path (w_active w)) = Some (ac_digest (w_active w))"

definition running :: "wal \<Rightarrow> bool" where
  "running w \<longleftrightarrow> sm_state (ac_metadata (w_active w)) = ''open''"

definition log_ok :: "(string \<Rightarrow> string) \<Rightarrow> wal \<Rightarrow> locator multiset \<Rightarrow> bool" where
  "log_ok sha w M \<longleftrightarrow>
     tsorted (w_files w) \<and> tsorted (w_segments w) \<and> active_ok w \<and>
     (\<forall>g m. tget (cur w) g = Some m \<longrightarrow> seg_ok sha w M g m) \<and>
     (\<forall>p b. tget (w_files w) p = Some b \<longrightarrow> (\<exists>g m. tget (cur w) g = Some m \<and> sm_path m = p)) \<and>
     (\<forall>l. l \<in># M \<longrightarrow> located sha w l)"

text \<open>Every file of a segment grows, so what a locator names stays.\<close>

definition log_le :: "wal \<Rightarrow> wal \<Rightarrow> bool" where
  "log_le v w \<longleftrightarrow> (\<forall>g b. seg_file v g = Some b \<longrightarrow> (\<exists>c. seg_file w g = Some (b @ c)))"

lemma log_le_refl [simp]: "log_le w w"
  by (auto simp: log_le_def)

lemma log_le_trans [trans]: "log_le u v \<Longrightarrow> log_le v w \<Longrightarrow> log_le u w"
  unfolding log_le_def by (metis append_assoc)

lemma read_exact_append: "read_exact b i n = Some s \<Longrightarrow> read_exact (b @ c) i n = Some s"
  by (auto simp: read_exact_def split: if_splits)

lemma slice_mono: "log_le v w \<Longrightarrow> wal_slice v l = Some s \<Longrightarrow> wal_slice w l = Some s"
proof -
  assume le: "log_le v w" and "wal_slice v l = Some s"
  then obtain b where b: "seg_file v (lo_segment_id l) = Some b"
      "read_exact b (lo_offset l) (lo_length l) = Some s"
    by (auto simp: wal_slice_def bind_eq_Some_conv)
  from le b(1) obtain c where "seg_file w (lo_segment_id l) = Some (b @ c)" by (auto simp: log_le_def)
  with read_exact_append [OF b(2)] show ?thesis by (simp add: wal_slice_def)
qed

lemma located_mono: "log_le v w \<Longrightarrow> located sha v l \<Longrightarrow> located sha w l"
  unfolding located_def by (meson slice_mono)

subsection \<open>Tiling\<close>

lemma contiguous_snoc:
  "contiguous s ls e \<Longrightarrow> lo_offset l = e \<Longrightarrow> 0 < lo_length l \<Longrightarrow> contiguous s (ls @ [l]) (e + lo_length l)"
  by (induction ls arbitrary: s) auto

lemma contiguous_bounds: "contiguous s ls e \<Longrightarrow> l \<in> set ls \<Longrightarrow> s \<le> lo_offset l \<and> lo_offset l < e"
proof (induction ls arbitrary: s)
  case (Cons a ls)
  have "t \<le> e" if "contiguous t ls e" for t
    using that by (induction ls arbitrary: t) (auto, fastforce)
  with Cons show ?case by fastforce
qed simp

lemma contiguous_strict: "contiguous s ls e \<Longrightarrow> sorted_wrt (<) (map lo_offset ls)"
proof (induction ls arbitrary: s)
  case (Cons a ls)
  then show ?case using contiguous_bounds [of "s + lo_length a" ls e] by fastforce
qed simp

lemma tiled_sort:
  assumes "tiled (mset xs) g n"
  shows "contiguous 0 (sort_key lo_offset (filter (\<lambda>l. lo_segment_id l = g) xs)) n"
proof -
  from assms obtain ls where ls: "mset ls = mset (filter (\<lambda>l. lo_segment_id l = g) xs)" "contiguous 0 ls n"
    by (auto simp: tiled_def of_segment_def mset_filter)
  from contiguous_strict [OF ls(2)] have o: "inj_on lo_offset (set ls)" "sorted (map lo_offset ls)"
    by (simp_all add: strict_sorted_iff distinct_map)
  from mset_eq_setD [OF ls(1)] o(1)
  have "inj_on lo_offset (set (filter (\<lambda>l. lo_segment_id l = g) xs))" by simp
  from sort_key_inj_key_eq [OF ls(1) [symmetric] this o(2)] ls(2) show ?thesis by simp
qed

lemma of_segment_add [simp]:
  "of_segment (add_mset l M) g = (if lo_segment_id l = g then add_mset l (of_segment M g) else of_segment M g)"
  by (simp add: of_segment_def)

lemma tiled_other [simp]: "lo_segment_id l \<noteq> g \<Longrightarrow> tiled (add_mset l M) g n = tiled M g n"
  by (simp add: tiled_def)

lemma tiled_add:
  assumes "tiled M g n" "lo_segment_id l = g" "lo_offset l = n" "0 < lo_length l"
  shows "tiled (add_mset l M) g (n + lo_length l)"
proof -
  from assms obtain ls where "mset ls = of_segment M g" "contiguous 0 ls n" by (auto simp: tiled_def)
  then show ?thesis using assms contiguous_snoc [of 0 ls n l]
    unfolding tiled_def by (intro exI [of _ "ls @ [l]"]) simp
qed

section \<open>Steps of the log\<close>

lemma tget_cur [simp]: "tget (cur w) g = (if g = active_id w then Some (ac_metadata (w_active w)) else tget (w_segments w) g)"
  by (simp add: cur_def)

lemma log_ok_active:
  assumes "log_ok sha w M"
  shows "seg_ok sha w M (active_id w) (ac_metadata (w_active w))"
    and "tget (w_files w) (ac_path (w_active w)) = Some (ac_digest (w_active w))"
    and "sm_path (ac_metadata (w_active w)) = ac_path (w_active w)"
    and "length (ac_digest (w_active w)) = sm_bytes (ac_metadata (w_active w))"
    and "running w \<Longrightarrow> ac_path (w_active w) = segment_path (active_id w) open_suffix"
    and "seg_file w (active_id w) = Some (ac_digest (w_active w))"
proof -
  show s: "seg_ok sha w M (active_id w) (ac_metadata (w_active w))"
    using assms by (auto simp: log_ok_def)
  show a: "tget (w_files w) (ac_path (w_active w)) = Some (ac_digest (w_active w))"
    and p: "sm_path (ac_metadata (w_active w)) = ac_path (w_active w)"
    using assms by (auto simp: log_ok_def active_ok_def)
  show "length (ac_digest (w_active w)) = sm_bytes (ac_metadata (w_active w))"
    using s a p by (auto simp: seg_ok_def)
  show "running w \<Longrightarrow> ac_path (w_active w) = segment_path (active_id w) open_suffix"
    using s p by (auto simp: seg_ok_def running_def)
  show "seg_file w (active_id w) = Some (ac_digest (w_active w))"
    using assms a by (auto simp: log_ok_def active_ok_def seg_file_def)
qed

lemma seg_ok_path:
  "seg_ok sha w M g m \<Longrightarrow> \<exists>s \<in> {open_suffix, sealed_suffix}. sm_path m = segment_path g s"
  by (auto simp: seg_ok_def)

lemma log_ok_path_inject:
  assumes "log_ok sha w M" "tget (cur w) g = Some m" "tget (cur w) h = Some n" "sm_path m = sm_path n"
  shows "g = h"
proof -
  from assms have "seg_ok sha w M g m" "seg_ok sha w M h n" by (auto simp: log_ok_def)
  with assms(4) show ?thesis by (metis seg_ok_path segment_path_inject)
qed

lemma log_ok_seg_file:
  assumes "log_ok sha w M" "tget (w_segments w) g = Some m"
  shows "\<exists>b. seg_file w g = Some b"
proof (cases "g = active_id w")
  case True
  then show ?thesis using log_ok_active(6) [OF assms(1)] by auto
next
  case False
  with assms have "seg_ok sha w M g m" by (auto simp: log_ok_def)
  with assms(2) show ?thesis by (auto simp: seg_ok_def seg_file_def)
qed

subsection \<open>Appending a record\<close>

lemma append_record_fields:
  assumes "append_record r w = (w', l)"
  shows "w_captures w' = w_captures w" "w_attempts w' = w_attempts w" "w_segments w' = w_segments w"
    "w_counters w' = w_counters w" "w_next_attempt_id w' = w_next_attempt_id w"
    "active_id w' = active_id w" "ac_path (w_active w') = ac_path (w_active w)"
    "running w' = running w"
    "sm_path (ac_metadata (w_active w')) = sm_path (ac_metadata (w_active w))"
    "lo_capture_id l = cr_capture_id r" "lo_raw_sha256 l = cr_sha256 r"
    "lo_segment_id l = active_id w" "lo_offset l = sm_bytes (ac_metadata (w_active w))"
    "lo_length l = length (cr_canonical r) + 1"
    "sm_bytes (ac_metadata (w_active w')) = sm_bytes (ac_metadata (w_active w)) + lo_length l"
    "sm_records (ac_metadata (w_active w')) = sm_records (ac_metadata (w_active w)) + 1"
    "sm_state (ac_metadata (w_active w')) = sm_state (ac_metadata (w_active w))"
    "ac_digest (w_active w') = ac_digest (w_active w) @ cr_canonical r @ [CHR 0x0A]"
  using assms by (auto simp: append_record_def Let_def running_def)

lemma append_record_meta:
  "append_record r w = (w', l) \<Longrightarrow> lo_received_at l = cr_received_at r"
  "append_record r w = (w', l) \<Longrightarrow> lo_model l = cr_model r"
  by (auto simp: append_record_def Let_def)

lemma append_record_files:
  assumes "append_record r w = (w', l)" "log_ok sha w M"
  shows "w_files w' = tput (ac_path (w_active w))
           (ac_digest (w_active w) @ cr_canonical r @ [CHR 0x0A]) (w_files w)"
  using assms(1) log_ok_active(2) [OF assms(2)] by (auto simp: append_record_def Let_def)

lemma append_record_ok:
  assumes ok: "log_ok sha w M" and run: "running w"
    and sha: "cr_sha256 r = sha (cr_canonical r)" and ap: "append_record r w = (w', l)"
  shows "log_ok sha w' (add_mset l M)" "log_le w w'"
    and "wal_slice w' l = Some (cr_canonical r @ [CHR 0x0A])"
proof -
  note f = append_record_fields [OF ap]
  note files = append_record_files [OF ap ok]
  note act = log_ok_active [OF ok]
  let ?p = "ac_path (w_active w)" and ?b = "ac_digest (w_active w)" and ?g = "active_id w"
  from ok have ts: "tsorted (w_files w)" "tsorted (w_segments w)" by (auto simp: log_ok_def)
  have own: "h = ?g" if "tget (w_segments w) h = Some n" "sm_path n = ?p" for h n
  proof (rule ccontr)
    assume "h \<noteq> ?g"
    with that(1) have "tget (cur w) h = Some n" by simp
    from log_ok_path_inject [OF ok this, of ?g "ac_metadata (w_active w)"] that(2) act(3) \<open>h \<noteq> ?g\<close>
    show False by simp
  qed
  have fil: "tget (w_files w') q = (if q = ?p then Some (?b @ cr_canonical r @ [CHR 0x0A]) else tget (w_files w) q)" for q
    by (simp add: files)
  have segf: "seg_file w' h = (if h = ?g then Some (?b @ cr_canonical r @ [CHR 0x0A]) else seg_file w h)" for h
  proof (cases "h = ?g")
    case True
    from ok obtain m where "tget (w_segments w) ?g = Some m" "sm_path m = ?p"
      by (auto simp: log_ok_def active_ok_def)
    with True show ?thesis by (simp add: seg_file_def f fil)
  next
    case False
    then show ?thesis
      by (cases "tget (w_segments w) h") (auto simp: seg_file_def f fil dest: own)
  qed
  show le: "log_le w w'"
    unfolding log_le_def by (auto simp: segf act(6))
  show sl: "wal_slice w' l = Some (cr_canonical r @ [CHR 0x0A])"
    using act(4) by (simp add: wal_slice_def segf f read_exact_def)
  have loc: "located sha w' l'" if "l' \<in># add_mset l M" for l'
    using that ok sl sha located_mono [OF le] by (auto simp: log_ok_def located_def f)
  have segs: "seg_ok sha w' (add_mset l M) h m" if "tget (cur w') h = Some m" for h m
  proof (cases "h = ?g")
    case True
    with that have m: "m = ac_metadata (w_active w')" by (simp add: f)
    from act(1) have "tiled M ?g (sm_bytes (ac_metadata (w_active w)))" by (simp add: seg_ok_def)
    then have "tiled (add_mset l M) ?g (sm_bytes (ac_metadata (w_active w)) + lo_length l)"
      by (rule tiled_add) (simp_all add: f)
    with act True m run show ?thesis
      by (auto simp: seg_ok_def f fil running_def)
  next
    case False
    with that have "tget (cur w) h = Some m" by (auto simp: f)
    with ok have h: "seg_ok sha w M h m" by (auto simp: log_ok_def)
    from False that have "sm_path m \<noteq> ?p" by (auto simp: f dest: own)
    with h False show ?thesis by (auto simp: seg_ok_def f fil)
  qed
  show "log_ok sha w' (add_mset l M)"
    unfolding log_ok_def
  proof (intro conjI allI impI)
    show "active_ok w'" using ok by (auto simp: log_ok_def active_ok_def f fil)
    fix q b assume "tget (w_files w') q = Some b"
    then consider "q = ?p" | b' where "q \<noteq> ?p" "tget (w_files w) q = Some b'" by (auto simp: fil split: if_splits)
    then show "\<exists>g m. tget (cur w') g = Some m \<and> sm_path m = q"
    proof cases
      case 1
      then show ?thesis using act(3) by (intro exI [of _ ?g] exI [of _ "ac_metadata (w_active w')"]) (simp add: f)
    next
      case 2
      with ok obtain g m where "tget (cur w) g = Some m" "sm_path m = q" unfolding log_ok_def by blast
      with 2 act(3) show ?thesis by (intro exI [of _ g] exI [of _ m]) (auto simp: f split: if_splits)
    qed
  qed (use segs loc ts in \<open>auto simp: files f\<close>)
qed

subsection \<open>Sealing\<close>

definition sealed_metadata :: "(string \<Rightarrow> string) \<Rightarrow> string \<Rightarrow> wal \<Rightarrow> segment_metadata" where
  "sealed_metadata sha now w =
     (ac_metadata (w_active w))
       \<lparr>sm_path := segment_path (active_id w) sealed_suffix, sm_state := ''sealed'',
        sm_sealed_at := Some now, sm_sha256 := Some (sha (ac_digest (w_active w)))\<rparr>"

definition sealed_counters :: "wal \<Rightarrow> ledger_counters \<Rightarrow> ledger_counters" where
  "sealed_counters w c =
     c\<lparr>lc_sealed_segments := sat (lc_sealed_segments c + 1),
       lc_sealed_bytes := sat (lc_sealed_bytes c + sm_bytes (ac_metadata (w_active w)))\<rparr>"

definition sealed_wal :: "(string \<Rightarrow> string) \<Rightarrow> string \<Rightarrow> ledger_counters \<Rightarrow> wal \<Rightarrow> wal" where
  "sealed_wal sha now c w =
     (let m = sealed_metadata sha now w
      in w\<lparr>w_files := tput (sm_path m) (ac_digest (w_active w)) (tdel (ac_path (w_active w)) (w_files w)),
           w_active := (w_active w)\<lparr>ac_path := sm_path m, ac_metadata := m\<rparr>,
           w_segments := tput (active_id w) m (w_segments w),
           w_counters := Some (sealed_counters w c)\<rparr>)"

lemma sealed_metadata_fields [simp]:
  "sm_path (sealed_metadata sha now w) = segment_path (active_id w) sealed_suffix"
  "sm_state (sealed_metadata sha now w) = ''sealed''"
  "sm_segment_id (sealed_metadata sha now w) = active_id w"
  "sm_bytes (sealed_metadata sha now w) = sm_bytes (ac_metadata (w_active w))"
  "sm_records (sealed_metadata sha now w) = sm_records (ac_metadata (w_active w))"
  "sm_sha256 (sealed_metadata sha now w) = Some (sha (ac_digest (w_active w)))"
  by (simp_all add: sealed_metadata_def)

lemma sealed_wal_fields [simp]:
  "w_captures (sealed_wal sha now c w) = w_captures w"
  "w_attempts (sealed_wal sha now c w) = w_attempts w"
  "w_next_attempt_id (sealed_wal sha now c w) = w_next_attempt_id w"
  "w_counters (sealed_wal sha now c w) = Some (sealed_counters w c)"
  "w_segments (sealed_wal sha now c w) = tput (active_id w) (sealed_metadata sha now w) (w_segments w)"
  "w_files (sealed_wal sha now c w) = tput (segment_path (active_id w) sealed_suffix)
     (ac_digest (w_active w)) (tdel (ac_path (w_active w)) (w_files w))"
  "ac_metadata (w_active (sealed_wal sha now c w)) = sealed_metadata sha now w"
  "ac_path (w_active (sealed_wal sha now c w)) = segment_path (active_id w) sealed_suffix"
  "ac_digest (w_active (sealed_wal sha now c w)) = ac_digest (w_active w)"
  by (simp_all add: sealed_wal_def Let_def)

lemma seal_active_eq:
  assumes "log_ok sha w M" "running w" "0 < sm_records (ac_metadata (w_active w))" "w_counters w = Some c"
  shows "seal_active sha now w = Inr (sealed_wal sha now c w, sealed_metadata sha now w)"
proof -
  note a = log_ok_active [OF assms(1)]
  from a(5) [OF assms(2)] sealed_path have sp:
    "dir_name (ac_path (w_active w)) @ str_replace open_suffix sealed_suffix (file_name (ac_path (w_active w)))
      = segment_path (active_id w) sealed_suffix" by simp
  show ?thesis
    using assms(3,4) a(2)
    by (simp add: seal_active_def Let_def sp rename_file_def read_counters_def
        sealed_wal_def sealed_metadata_def sealed_counters_def)
qed

lemma sealed_wal_ok:
  assumes ok: "log_ok sha w M" and run: "running w"
  shows "log_ok sha (sealed_wal sha now c w) M" "log_le w (sealed_wal sha now c w)"
proof -
  let ?w = "sealed_wal sha now c w" and ?g = "active_id w" and ?b = "ac_digest (w_active w)"
  let ?p = "ac_path (w_active w)" and ?q = "segment_path (active_id w) sealed_suffix"
  note act = log_ok_active [OF ok]
  from ok have ts: "tsorted (w_files w)" "tsorted (w_segments w)" by (auto simp: log_ok_def)
  have pq: "?p \<noteq> ?q"
    using segment_path_inject [of ?g open_suffix ?g sealed_suffix] act(5) [OF run]
    by (auto simp: open_suffix_def sealed_suffix_def)
  have fil: "tget (w_files ?w) x = (if x = ?q then Some ?b else if x = ?p then None else tget (w_files w) x)" for x
    by (simp add: ts)
  have other: "sm_path m \<noteq> ?p \<and> sm_path m \<noteq> ?q" if h: "h \<noteq> ?g" "tget (w_segments w) h = Some m" for h m
  proof -
    from h ok have "seg_ok sha w M h m" by (auto simp: log_ok_def)
    then obtain s where "s \<in> {open_suffix, sealed_suffix}" "sm_path m = segment_path h s"
      using seg_ok_path by metis
    with h(1) act(5) [OF run] segment_path_inject [of h s ?g] show ?thesis by auto
  qed
  have segf: "seg_file ?w h = seg_file w h" for h
  proof (cases "h = ?g")
    case True
    then show ?thesis using act(6) by (simp add: seg_file_def ts)
  next
    case False
    then show ?thesis
      by (cases "tget (w_segments w) h") (auto simp: seg_file_def ts dest: other)
  qed
  show le: "log_le w ?w" by (auto simp: log_le_def segf)
  have segs: "seg_ok sha ?w M h m" if "tget (cur ?w) h = Some m" for h m
  proof (cases "h = ?g")
    case True
    with that act(1,4) show ?thesis by (auto simp: seg_ok_def fil)
  next
    case False
    with that have h: "tget (w_segments w) h = Some m" by simp
    with False ok have "seg_ok sha w M h m" by (auto simp: log_ok_def)
    with other [OF False h] False show ?thesis by (auto simp: seg_ok_def fil ts)
  qed
  show "log_ok sha ?w M"
    unfolding log_ok_def
  proof (intro conjI allI impI)
    fix x b assume x: "tget (w_files ?w) x = Some b"
    show "\<exists>g m. tget (cur ?w) g = Some m \<and> sm_path m = x"
    proof (cases "x = ?q")
      case True
      then show ?thesis by (intro exI [of _ ?g]) simp
    next
      case False
      with x have "tget (w_files w) x = Some b" "x \<noteq> ?p" by (auto simp: ts split: if_splits)
      with ok act(3) obtain g m where "tget (cur w) g = Some m" "sm_path m = x" "g \<noteq> ?g"
        unfolding log_ok_def by (metis option.inject tget_cur)
      then show ?thesis by (intro exI [of _ g]) simp
    qed
  qed (use segs ts ok located_mono [OF le] in \<open>auto simp: active_ok_def log_ok_def\<close>)
qed

subsection \<open>Opening the next segment\<close>

definition fresh_metadata :: "string \<Rightarrow> wal \<Rightarrow> segment_metadata" where
  "fresh_metadata now w =
     (let sid = next_key (w_segments w)
      in \<lparr>sm_segment_id = sid, sm_path = segment_path sid open_suffix, sm_state = ''open'', sm_bytes = 0,
          sm_records = 0, sm_created_at = now, sm_sealed_at = None, sm_sha256 = None\<rparr>)"

definition created_wal :: "string \<Rightarrow> wal \<Rightarrow> wal" where
  "created_wal now w =
     (let m = fresh_metadata now w
      in w\<lparr>w_files := tput (sm_path m) [] (w_files w),
           w_segments := tput (next_key (w_segments w)) m (w_segments w),
           w_active := \<lparr>ac_metadata = m, ac_path = sm_path m, ac_digest = []\<rparr>\<rparr>)"

lemma fresh_metadata_fields [simp]:
  "sm_path (fresh_metadata now w) = segment_path (next_key (w_segments w)) open_suffix"
  "sm_state (fresh_metadata now w) = ''open''"
  "sm_segment_id (fresh_metadata now w) = next_key (w_segments w)"
  "sm_bytes (fresh_metadata now w) = 0" "sm_records (fresh_metadata now w) = 0"
  by (simp_all add: fresh_metadata_def Let_def)

lemma created_wal_fields [simp]:
  "w_captures (created_wal now w) = w_captures w"
  "w_attempts (created_wal now w) = w_attempts w"
  "w_next_attempt_id (created_wal now w) = w_next_attempt_id w"
  "w_counters (created_wal now w) = w_counters w"
  "w_segments (created_wal now w) = tput (next_key (w_segments w)) (fresh_metadata now w) (w_segments w)"
  "w_files (created_wal now w) = tput (segment_path (next_key (w_segments w)) open_suffix) [] (w_files w)"
  "w_active (created_wal now w) = \<lparr>ac_metadata = fresh_metadata now w,
     ac_path = segment_path (next_key (w_segments w)) open_suffix, ac_digest = []\<rparr>"
  "running (created_wal now w)"
  by (simp_all add: created_wal_def running_def Let_def)

lemma next_key_fresh: "tsorted t \<Longrightarrow> tget t k = Some v \<Longrightarrow> k < next_key t"
  using tsorted_last [of t k v] by (auto simp: next_key_def)

lemma next_key_not_in: "tsorted t \<Longrightarrow> tget t (next_key t) = None"
  using next_key_fresh [of t "next_key t"] by (cases "tget t (next_key t)") auto

text \<open>A segment can be opened when none is open: nothing is located in it, and its path is free.\<close>

definition closed_log :: "(string \<Rightarrow> string) \<Rightarrow> wal \<Rightarrow> locator multiset \<Rightarrow> bool" where
  "closed_log sha w M \<longleftrightarrow>
     tsorted (w_files w) \<and> tsorted (w_segments w) \<and>
     (\<forall>g m. tget (w_segments w) g = Some m \<longrightarrow> seg_ok sha w M g m \<and> sm_state m = ''sealed'') \<and>
     (\<forall>p b. tget (w_files w) p = Some b \<longrightarrow> (\<exists>g m. tget (w_segments w) g = Some m \<and> sm_path m = p)) \<and>
     (\<forall>l. l \<in># M \<longrightarrow> located sha w l)"

lemma created_wal_ok:
  assumes cl: "closed_log sha w M"
  shows "create_active_segment now w = Inr (created_wal now w)"
    and "log_ok sha (created_wal now w) M" "log_le w (created_wal now w)"
proof -
  let ?w = "created_wal now w" and ?n = "next_key (w_segments w)"
  let ?p = "segment_path (next_key (w_segments w)) open_suffix"
  from cl have ts: "tsorted (w_files w)" "tsorted (w_segments w)" by (auto simp: closed_log_def)
  note fresh = next_key_not_in [OF ts(2)]
  have path: "sm_path m \<noteq> ?p \<and> h \<noteq> ?n" if h: "tget (w_segments w) h = Some m" for h m
  proof -
    from h cl have "seg_ok sha w M h m" by (auto simp: closed_log_def)
    then obtain s where "s \<in> {open_suffix, sealed_suffix}" "sm_path m = segment_path h s"
      using seg_ok_path by metis
    with segment_path_inject [of h s ?n] next_key_fresh [OF ts(2) h] show ?thesis by auto
  qed
  have free: "tget (w_files w) ?p = None"
  proof (rule ccontr)
    assume "tget (w_files w) ?p \<noteq> None"
    with cl obtain g m where "tget (w_segments w) g = Some m" "sm_path m = ?p"
      unfolding closed_log_def by blast
    with path show False by blast
  qed
  then show "create_active_segment now w = Inr ?w"
    by (simp add: create_active_segment_def created_wal_def fresh_metadata_def Let_def)
  have segf: "seg_file w h = Some b \<Longrightarrow> seg_file ?w h = Some b" for h b
    by (auto simp: seg_file_def bind_eq_Some_conv dest: path)
  then show le: "log_le w ?w" by (auto simp: log_le_def)
  have none: "of_segment M ?n = {#}"
  proof -
    have False if l: "l \<in># M" "lo_segment_id l = ?n" for l
    proof -
      from l(1) cl have "located sha w l" by (auto simp: closed_log_def)
      with l(2) obtain m where "tget (w_segments w) ?n = Some m"
        by (auto simp: located_def wal_slice_def seg_file_def bind_eq_Some_conv)
      with path show False by blast
    qed
    then have "set_mset (of_segment M ?n) = {}" by (auto simp: of_segment_def)
    then show ?thesis by (simp only: set_mset_eq_empty_iff)
  qed
  have segs: "seg_ok sha ?w M h m" if "tget (cur ?w) h = Some m" for h m
  proof (cases "h = ?n")
    case True
    with that have "m = fresh_metadata now w" by simp
    with True none show ?thesis by (auto simp: seg_ok_def tiled_def)
  next
    case False
    with that have h: "tget (w_segments w) h = Some m" by (simp split: if_splits)
    with cl have "seg_ok sha w M h m" "sm_state m = ''sealed''" by (auto simp: closed_log_def)
    with path [OF h] show ?thesis by (auto simp: seg_ok_def)
  qed
  show "log_ok sha ?w M"
    unfolding log_ok_def
  proof (intro conjI allI impI)
    fix x b assume x: "tget (w_files ?w) x = Some b"
    show "\<exists>g m. tget (cur ?w) g = Some m \<and> sm_path m = x"
    proof (cases "x = ?p")
      case True
      then show ?thesis by (intro exI [of _ ?n]) simp
    next
      case False
      with x have "tget (w_files w) x = Some b" by simp
      with cl obtain g m where gm: "tget (w_segments w) g = Some m" "sm_path m = x"
        unfolding closed_log_def by blast
      with path have "g \<noteq> ?n" by blast
      with gm show ?thesis by (intro exI [of _ g]) simp
    qed
  qed (use segs ts cl located_mono [OF le] in \<open>auto simp: active_ok_def closed_log_def\<close>)
qed

lemma sealed_wal_closed:
  assumes "log_ok sha w M" "running w"
  shows "closed_log sha (sealed_wal sha now c w) M"
proof -
  let ?w = "sealed_wal sha now c w"
  have cur: "tget (cur ?w) = tget (w_segments ?w)" by (auto simp: fun_eq_iff)
  have seal: "sm_state m = ''sealed''" if m: "tget (cur ?w) g = Some m" for g m
  proof (cases "g = active_id w")
    case True
    with m show ?thesis by auto
  next
    case False
    from m sealed_wal_ok(1) [OF assms] have "seg_ok sha ?w M g m" by (simp only: log_ok_def)
    with False show ?thesis by (auto simp: seg_ok_def)
  qed
  show ?thesis
    unfolding closed_log_def
    using sealed_wal_ok(1) [OF assms, of now c, unfolded log_ok_def cur] seal [unfolded cur] by blast
qed

subsection \<open>Rotation\<close>

definition rotated_wal :: "(string \<Rightarrow> string) \<Rightarrow> string \<Rightarrow> ledger_counters \<Rightarrow> wal \<Rightarrow> wal" where
  "rotated_wal sha now c w = created_wal now (sealed_wal sha now c w)"

lemma rotate_ok:
  assumes "log_ok sha w M" "running w" "0 < sm_records (ac_metadata (w_active w))" "w_counters w = Some c"
  shows "rotate_active sha now w = Inr (rotated_wal sha now c w)"
    and "log_ok sha (rotated_wal sha now c w) M" "log_le w (rotated_wal sha now c w)"
    and "running (rotated_wal sha now c w)"
proof -
  note cl = sealed_wal_closed [OF assms(1,2), of now c]
  show "rotate_active sha now w = Inr (rotated_wal sha now c w)"
    by (simp add: rotate_active_def seal_active_eq [OF assms] created_wal_ok(1) [OF cl] rotated_wal_def)
  show "log_ok sha (rotated_wal sha now c w) M"
    unfolding rotated_wal_def by (rule created_wal_ok(2) [OF cl])
  show "log_le w (rotated_wal sha now c w)"
    unfolding rotated_wal_def
    by (rule log_le_trans [OF sealed_wal_ok(2) [OF assms(1,2)] created_wal_ok(3) [OF cl]])
  show "running (rotated_wal sha now c w)" by (simp add: rotated_wal_def)
qed

lemma rotated_wal_fields [simp]:
  "w_captures (rotated_wal sha now c w) = w_captures w"
  "w_attempts (rotated_wal sha now c w) = w_attempts w"
  "w_next_attempt_id (rotated_wal sha now c w) = w_next_attempt_id w"
  "w_counters (rotated_wal sha now c w) = Some (sealed_counters w c)"
  by (simp_all add: rotated_wal_def)

end
