(* ===== verification/WalCommit.thy ===== *)
theory WalCommit
  imports WalInvariant
begin

text \<open>
  Committing a batch of Captures: the ledger's invariant, the abstract store (which payload hash
  each Capture id is bound to), and the refinement of one group commit to submitting its records
  one at a time.
\<close>

section \<open>The abstract store\<close>

datatype outcome = Accepted | Duplicate | Conflicted

definition spec_submit :: "capture_record \<Rightarrow> (string \<rightharpoonup> string) \<Rightarrow> (string \<rightharpoonup> string) \<times> outcome" where
  "spec_submit r m =
     (case m (cr_capture_id r) of
        None \<Rightarrow> (m(cr_capture_id r \<mapsto> cr_sha256 r), Accepted)
      | Some s \<Rightarrow> (m, if matches_persisted_sha256 r s then Duplicate else Conflicted))"

fun spec_run :: "capture_record list \<Rightarrow> (string \<rightharpoonup> string) \<Rightarrow> (string \<rightharpoonup> string) \<times> outcome list" where
  "spec_run [] m = (m, [])"
| "spec_run (r # rs) m =
     (case spec_submit r m of (m', o1) \<Rightarrow> case spec_run rs m' of (m'', os) \<Rightarrow> (m'', o1 # os))"

lemma spec_run_append:
  "spec_run (rs @ ss) m =
     (case spec_run rs m of (m', os) \<Rightarrow> case spec_run ss m' of (m'', ps) \<Rightarrow> (m'', os @ ps))"
  by (induction rs arbitrary: m) (auto split: prod.splits)

definition abs_store :: "wal \<Rightarrow> string \<rightharpoonup> string" where
  "abs_store w = (\<lambda>k. map_option lo_raw_sha256 (tget (w_captures w) k))"

definition response :: "submit_error + submit_ack \<Rightarrow> outcome" where
  "response r =
     (case r of Inl e \<Rightarrow> Conflicted | Inr a \<Rightarrow> if ack_duplicate a then Duplicate else Accepted)"

text \<open>
  Within one batch only the hashes of the canonical forms are compared; across batches a retry
  may also match by the hash of its bytes before migration.  The two agree when no record of the
  batch names another one's canonical hash as its own legacy hash.
\<close>

definition no_alias :: "capture_record list \<Rightarrow> bool" where
  "no_alias batch \<longleftrightarrow>
     list_all (\<lambda>r. list_all (\<lambda>s. cr_capture_id r = cr_capture_id s \<and> cr_legacy_raw_sha256 s = Some (cr_sha256 r)
                                 \<longrightarrow> cr_sha256 s = cr_sha256 r) batch) batch"

definition hashed :: "(string \<Rightarrow> string) \<Rightarrow> capture_record list \<Rightarrow> bool" where
  "hashed sha batch \<longleftrightarrow> list_all (\<lambda>r. cr_sha256 r = sha (cr_canonical r)) batch"

lemma no_aliasD:
  assumes "no_alias batch" "i < length batch" "j < length batch"
    "cr_capture_id (batch ! i) = cr_capture_id (batch ! j)"
    "cr_legacy_raw_sha256 (batch ! j) = Some (cr_sha256 (batch ! i))"
  shows "cr_sha256 (batch ! j) = cr_sha256 (batch ! i)"
proof -
  have "batch ! i \<in> set batch" "batch ! j \<in> set batch" using assms(2,3) by simp_all
  with assms(1,4,5) show ?thesis unfolding no_alias_def list_all_iff by blast
qed

section \<open>Classification\<close>

definition classify_upto :: "(string, locator) table \<Rightarrow> capture_record list \<Rightarrow> nat \<Rightarrow> classified" where
  "classify_upto captures batch n =
     fold (classify_one captures batch) (enumerate 0 (take n batch))
       \<lparr>cl_primary = [], cl_pending = [], cl_duplicates = [], cl_conflicts = []\<rparr>"

lemma classify_upto_length: "classify_upto captures batch (length batch) = classify captures batch"
  by (simp add: classify_upto_def classify_def)

lemma classify_upto_0:
  "classify_upto captures batch 0 = \<lparr>cl_primary = [], cl_pending = [], cl_duplicates = [], cl_conflicts = []\<rparr>"
  by (simp add: classify_upto_def)

lemma classify_upto_Suc:
  "n < length batch \<Longrightarrow>
     classify_upto captures batch (Suc n) = classify_one captures batch (n, batch ! n) (classify_upto captures batch n)"
  by (simp add: classify_upto_def take_Suc_conv_app_nth enumerate_append_eq)

definition dup_ok :: "(string, locator) table \<Rightarrow> capture_record list \<Rightarrow> nat list \<Rightarrow> nat \<times> duplicate_source \<Rightarrow> bool" where
  "dup_ok captures batch pending d \<longleftrightarrow>
     (case snd d of
        Existing l \<Rightarrow> tget captures (cr_capture_id (batch ! fst d)) = Some l
                      \<and> matches_persisted_sha256 (batch ! fst d) (lo_raw_sha256 l)
      | InBatch p \<Rightarrow> p \<in> set pending \<and> cr_capture_id (batch ! p) = cr_capture_id (batch ! fst d)
                      \<and> cr_sha256 (batch ! p) = cr_sha256 (batch ! fst d))"

definition class_ok :: "(string, locator) table \<Rightarrow> capture_record list \<Rightarrow> nat \<Rightarrow> classified \<Rightarrow> bool" where
  "class_ok captures batch n cl \<longleftrightarrow>
     (\<forall>k i. tget (cl_primary cl) k = Some i \<longrightarrow>
        i \<in> set (cl_pending cl) \<and> cr_capture_id (batch ! i) = k \<and> tget captures k = None) \<and>
     (\<forall>i \<in> set (cl_pending cl). tget (cl_primary cl) (cr_capture_id (batch ! i)) = Some i) \<and>
     (\<forall>d \<in> set (cl_duplicates cl). dup_ok captures batch (cl_pending cl) d) \<and>
     mset (cl_pending cl) + mset (map fst (cl_duplicates cl)) + mset (cl_conflicts cl) = mset [0..<n]"

lemma dup_ok_simps [simp]:
  "dup_ok captures batch pending (i, Existing l) \<longleftrightarrow>
     tget captures (cr_capture_id (batch ! i)) = Some l \<and> matches_persisted_sha256 (batch ! i) (lo_raw_sha256 l)"
  "dup_ok captures batch pending (i, InBatch p) \<longleftrightarrow>
     p \<in> set pending \<and> cr_capture_id (batch ! p) = cr_capture_id (batch ! i) \<and> cr_sha256 (batch ! p) = cr_sha256 (batch ! i)"
  by (simp_all add: dup_ok_def)

lemma dup_ok_more: "dup_ok captures batch p d \<Longrightarrow> dup_ok captures batch (p @ q) d"
  by (auto simp: dup_ok_def split: duplicate_source.splits)

lemma class_ok_members:
  assumes "class_ok captures batch n cl"
  shows "i \<in> set (cl_pending cl) \<Longrightarrow> i < n" "d \<in> set (cl_duplicates cl) \<Longrightarrow> fst d < n"
    "i \<in> set (cl_conflicts cl) \<Longrightarrow> i < n"
proof -
  from assms have m: "mset (cl_pending cl) + mset (map fst (cl_duplicates cl)) + mset (cl_conflicts cl)
      = mset [0..<n]" by (simp add: class_ok_def)
  then have "set (cl_pending cl) \<union> fst ` set (cl_duplicates cl) \<union> set (cl_conflicts cl) = {0..<n}"
    by (metis atLeastLessThan_upt list.set_map set_mset_mset set_mset_union)
  then show "i \<in> set (cl_pending cl) \<Longrightarrow> i < n" "d \<in> set (cl_duplicates cl) \<Longrightarrow> fst d < n"
    "i \<in> set (cl_conflicts cl) \<Longrightarrow> i < n" by (auto simp: set_eq_iff)
qed

lemma class_ok_step:
  assumes "class_ok captures batch n cl"
  shows "class_ok captures batch (Suc n) (classify_one captures batch (n, batch ! n) cl)"
proof -
  obtain pr pe du co where cl: "cl = \<lparr>cl_primary = pr, cl_pending = pe, cl_duplicates = du, cl_conflicts = co\<rparr>"
    by (cases cl)
  let ?k = "cr_capture_id (batch ! n)"
  have new: "n \<notin> set pe" using class_ok_members(1) [OF assms] cl by auto
  from assms have ok:
    "\<forall>k i. tget pr k = Some i \<longrightarrow> i \<in> set pe \<and> cr_capture_id (batch ! i) = k \<and> tget captures k = None"
    "\<forall>i \<in> set pe. tget pr (cr_capture_id (batch ! i)) = Some i"
    "\<forall>d \<in> set du. dup_ok captures batch pe d"
    "mset pe + mset (map fst du) + mset co = mset [0..<n]"
    by (simp_all add: class_ok_def cl)
  consider
      (existing) l where "tget captures ?k = Some l"
    | (batch) p where "tget captures ?k = None" "tget pr ?k = Some p"
    | (fresh) "tget captures ?k = None" "tget pr ?k = None" by (meson option.exhaust)
  then show ?thesis
  proof cases
    case existing
    with ok show ?thesis by (simp add: cl classify_one_def class_ok_def)
  next
    case batch
    with ok show ?thesis by (simp add: cl classify_one_def class_ok_def)
  next
    case fresh
    from ok(2) fresh(2) have "\<forall>i \<in> set pe. cr_capture_id (batch ! i) \<noteq> ?k" by force
    with fresh ok new show ?thesis by (simp add: cl classify_one_def class_ok_def dup_ok_more)
  qed
qed

lemma class_ok_upto: "n \<le> length batch \<Longrightarrow> class_ok captures batch n (classify_upto captures batch n)"
proof (induction n)
  case 0
  then show ?case by (simp add: classify_upto_0 class_ok_def)
next
  case (Suc n)
  then show ?case by (simp add: classify_upto_Suc class_ok_step)
qed

lemma class_ok_classify: "class_ok captures batch (length batch) (classify captures batch)"
  using class_ok_upto [of "length batch" batch captures] by (simp add: classify_upto_length)

definition class_outcome :: "classified \<Rightarrow> nat \<Rightarrow> outcome" where
  "class_outcome cl i =
     (if i \<in> set (cl_pending cl) then Accepted
      else if i \<in> fst ` set (cl_duplicates cl) then Duplicate else Conflicted)"

definition class_store ::
  "(string, locator) table \<Rightarrow> capture_record list \<Rightarrow> classified \<Rightarrow> string \<rightharpoonup> string" where
  "class_store captures batch cl =
     (\<lambda>k. case tget captures k of
        Some l \<Rightarrow> Some (lo_raw_sha256 l)
      | None \<Rightarrow> map_option (\<lambda>p. cr_sha256 (batch ! p)) (tget (cl_primary cl) k))"

lemma class_ok_disjoint:
  assumes "class_ok captures batch n cl"
  shows "distinct (cl_pending cl @ map fst (cl_duplicates cl) @ cl_conflicts cl)"
proof -
  from assms have "mset (cl_pending cl @ map fst (cl_duplicates cl) @ cl_conflicts cl) = mset [0..<n]"
    by (simp add: class_ok_def add.assoc)
  then show ?thesis by (metis distinct_upt mset_eq_imp_distinct_iff)
qed

lemma classify_step:
  assumes "class_ok captures batch n cl"
    and legacy: "\<And>p. tget (cl_primary cl) (cr_capture_id (batch ! n)) = Some p \<Longrightarrow>
      cr_legacy_raw_sha256 (batch ! n) = Some (cr_sha256 (batch ! p)) \<Longrightarrow> cr_sha256 (batch ! n) = cr_sha256 (batch ! p)"
  defines "cl' \<equiv> classify_one captures batch (n, batch ! n) cl"
  shows "spec_submit (batch ! n) (class_store captures batch cl) = (class_store captures batch cl', class_outcome cl' n)"
    and "\<forall>i < n. class_outcome cl' i = class_outcome cl i"
proof -
  obtain pr pe du co where cl: "cl = \<lparr>cl_primary = pr, cl_pending = pe, cl_duplicates = du, cl_conflicts = co\<rparr>"
    by (cases cl)
  let ?k = "cr_capture_id (batch ! n)"
  from class_ok_members(1) [OF assms(1), of n] class_ok_members(2) [OF assms(1)] cl
  have new: "n \<notin> set pe" "n \<notin> fst ` set du" by force+
  consider
      (existing) l where "tget captures ?k = Some l"
    | (batch) p where "tget captures ?k = None" "tget pr ?k = Some p"
    | (fresh) "tget captures ?k = None" "tget pr ?k = None" by (meson option.exhaust)
  then have "spec_submit (batch ! n) (class_store captures batch cl) = (class_store captures batch cl', class_outcome cl' n)
    \<and> (\<forall>i < n. class_outcome cl' i = class_outcome cl i)"
  proof cases
    case existing
    with new show ?thesis
      by (simp add: cl cl'_def classify_one_def spec_submit_def class_store_def class_outcome_def
          cong: option.case_cong)
  next
    case batch
    with new legacy [of p] show ?thesis
      by (auto simp add: cl cl'_def classify_one_def spec_submit_def class_store_def class_outcome_def
          matches_persisted_sha256_def cong: option.case_cong)
  next
    case fresh
    then have "class_store captures batch cl' = (class_store captures batch cl)(?k \<mapsto> cr_sha256 (batch ! n))"
      by (simp add: cl cl'_def classify_one_def class_store_def fun_eq_iff split: option.splits)
    with fresh new show ?thesis
      by (simp add: cl cl'_def classify_one_def spec_submit_def class_store_def class_outcome_def)
  qed
  then show "spec_submit (batch ! n) (class_store captures batch cl) = (class_store captures batch cl', class_outcome cl' n)"
    "\<forall>i < n. class_outcome cl' i = class_outcome cl i" by auto
qed

lemma classify_spec:
  assumes na: "no_alias batch"
  shows "n \<le> length batch \<Longrightarrow>
    spec_run (take n batch) (\<lambda>k. map_option lo_raw_sha256 (tget captures k))
      = (class_store captures batch (classify_upto captures batch n),
         map (class_outcome (classify_upto captures batch n)) [0..<n])"
proof (induction n)
  case 0
  then show ?case by (auto simp: classify_upto_0 class_store_def fun_eq_iff split: option.splits)
next
  case (Suc n)
  let ?cl = "classify_upto captures batch n" and ?cl' = "classify_upto captures batch (Suc n)"
  let ?r = "batch ! n"
  let ?k = "cr_capture_id ?r" and ?m = "class_store captures batch (classify_upto captures batch n)"
  from Suc.prems have n: "n < length batch" by simp
  note ok = class_ok_upto [of n batch captures]
  from n have ok: "class_ok captures batch n ?cl" by (simp add: class_ok_upto)
  from class_ok_members [OF ok]
  have new: "n \<notin> set (cl_pending ?cl)" "n \<notin> fst ` set (cl_duplicates ?cl)" by (blast, force)
  have legacy: "cr_sha256 ?r = cr_sha256 (batch ! p)"
    if "tget (cl_primary ?cl) ?k = Some p" "cr_legacy_raw_sha256 ?r = Some (cr_sha256 (batch ! p))" for p
  proof -
    from that(1) ok have "p \<in> set (cl_pending ?cl)" "cr_capture_id (batch ! p) = ?k"
      unfolding class_ok_def by blast+
    with class_ok_members(1) [OF ok, of p] n that(2) no_aliasD [OF na, of p n] show ?thesis by simp
  qed
  note step = classify_step [OF ok legacy, folded classify_upto_Suc [OF n]]
  from Suc n show ?case
    by (simp add: take_Suc_conv_app_nth spec_run_append step)
qed

section \<open>Counters\<close>

text \<open>The counters a rebuild computes, as counts over the tables.\<close>

definition accepted_state :: "attempt \<Rightarrow> bool" where
  "accepted_state a \<longleftrightarrow> at_state a = ''accepted'' \<or> at_state a = ''recovered''"

definition rejected_state :: "attempt \<Rightarrow> bool" where
  "rejected_state a \<longleftrightarrow> \<not> accepted_state a \<and> at_state a \<noteq> ''duplicate'' \<and> at_state a \<noteq> ''conflict''"

definition sealed_size :: "(nat, segment_metadata) table \<Rightarrow> nat" where
  "sealed_size t = sum_list (map (\<lambda>r. if sm_state (snd r) = ''sealed'' then sm_bytes (snd r) else 0) t)"

lemma sat_sat_add [simp]: "sat (sat a + b) = sat (a + b)"
  by (auto simp: sat_def)

lemma sat_Suc_sat [simp]: "sat (Suc (sat a)) = sat (Suc a)"
  by (auto simp: sat_def)

lemma sat_sat [simp]: "sat (sat a) = sat a"
  by (simp add: sat_def)

lemma count_attempts_fold:
  "fold (\<lambda>r. count_attempt (snd r)) as c =
     c\<lparr>lc_accepted := lc_accepted c + tcount accepted_state as,
       lc_duplicate := lc_duplicate c + tcount (\<lambda>a. at_state a = ''duplicate'') as,
       lc_conflict := lc_conflict c + tcount (\<lambda>a. at_state a = ''conflict'') as,
       lc_rejected := lc_rejected c + tcount rejected_state as,
       lc_last_commit_at := (if as = [] then lc_last_commit_at c else at_committed_at (snd (last as)))\<rparr>"
proof (induction as arbitrary: c)
  case (Cons r as)
  show ?case
    by (simp add: Cons.IH) (auto simp: tcount_def count_attempt_def accepted_state_def rejected_state_def)
qed (simp add: tcount_def)

lemma count_segments_fold:
  "lc_sealed_bytes c = sat n \<Longrightarrow>
   fold (\<lambda>r. count_segment (snd r)) ss c =
     c\<lparr>lc_sealed_segments := lc_sealed_segments c + tcount (\<lambda>m. sm_state m = ''sealed'') ss,
       lc_sealed_bytes := sat (n + sealed_size ss)\<rparr>"
proof (induction ss arbitrary: c n)
  case Nil
  then show ?case by (simp add: tcount_def sealed_size_def)
next
  case (Cons r ss)
  have "lc_sealed_bytes (count_segment (snd r) c)
      = sat (n + (if sm_state (snd r) = ''sealed'' then sm_bytes (snd r) else 0))"
    using Cons.prems by (simp add: count_segment_def)
  from Cons.IH [OF this] show ?case
    by (simp add: tcount_def count_segment_def sealed_size_def add.assoc)
qed

lemma counters_from_tables_eq:
  "counters_from_tables captures attempts segments =
     \<lparr>lc_captures = length captures, lc_attempts = length attempts,
      lc_accepted = tcount accepted_state attempts,
      lc_duplicate = tcount (\<lambda>a. at_state a = ''duplicate'') attempts,
      lc_conflict = tcount (\<lambda>a. at_state a = ''conflict'') attempts,
      lc_rejected = tcount rejected_state attempts,
      lc_sealed_segments = tcount (\<lambda>m. sm_state m = ''sealed'') segments,
      lc_sealed_bytes = sat (sealed_size segments),
      lc_last_commit_at = (if attempts = [] then None else at_committed_at (snd (last attempts)))\<rparr>"
proof -
  have z: "lc_sealed_bytes (fold (\<lambda>r. count_attempt (snd r)) attempts
      (zero_counters\<lparr>lc_captures := length captures, lc_attempts := length attempts\<rparr>)) = sat 0"
    by (simp add: count_attempts_fold zero_counters_def sat_def)
  show ?thesis
    unfolding counters_from_tables_def count_segments_fold [OF z]
    by (simp add: count_attempts_fold zero_counters_def)
qed

text \<open>The counters are kept saturating.\<close>

definition sat_counters :: "ledger_counters \<Rightarrow> ledger_counters" where
  "sat_counters c =
     c\<lparr>lc_captures := sat (lc_captures c), lc_attempts := sat (lc_attempts c),
       lc_accepted := sat (lc_accepted c), lc_duplicate := sat (lc_duplicate c),
       lc_conflict := sat (lc_conflict c), lc_rejected := sat (lc_rejected c),
       lc_sealed_segments := sat (lc_sealed_segments c), lc_sealed_bytes := sat (lc_sealed_bytes c)\<rparr>"

abbreviation rebuilt :: "wal \<Rightarrow> ledger_counters" where
  "rebuilt w \<equiv> counters_from_tables (w_captures w) (w_attempts w) (w_segments w)"

definition counted :: "wal \<Rightarrow> bool" where
  "counted w \<longleftrightarrow>
     w_counters w = Some (sat_counters (rebuilt w)) \<and>
     (\<exists>m. tget (w_segments w) (active_id w) = Some m \<and> sm_state m = ''open'')"

lemma sealed_size_mset:
  "sealed_size t = sum_mset (image_mset (\<lambda>r. if sm_state (snd r) = ''sealed'' then sm_bytes (snd r) else 0) (mset t))"
  by (induction t) (simp_all add: sealed_size_def)

lemma sealed_size_tput_fresh:
  "tget t k = None \<Longrightarrow> sealed_size (tput k v t)
     = sealed_size t + (if sm_state v = ''sealed'' then sm_bytes v else 0)"
  by (simp add: sealed_size_mset mset_tput_fresh)

lemma sealed_size_tput_open:
  assumes "tsorted t" "tget t k = Some w" "sm_state w = ''open''"
  shows "sealed_size (tput k v t) = sealed_size t + (if sm_state v = ''sealed'' then sm_bytes v else 0)"
proof -
  let ?f = "\<lambda>r :: nat \<times> segment_metadata. if sm_state (snd r) = ''sealed'' then sm_bytes (snd r) else 0"
  from mset_tput_update [OF assms(1,2)]
  have "sum_mset (image_mset ?f (add_mset (k, w) (mset (tput k v t))))
      = sum_mset (image_mset ?f (add_mset (k, v) (mset t)))" by simp
  with assms(3) show ?thesis by (simp add: sealed_size_mset)
qed

lemma tcount_tput_open:
  assumes "tsorted t" "tget t k = Some w" "sm_state w = ''open''"
  shows "tcount (\<lambda>m. sm_state m = ''sealed'') (tput k v t)
     = tcount (\<lambda>m. sm_state m = ''sealed'') t + (if sm_state v = ''sealed'' then 1 else 0)"
  using tcount_update [OF assms(1,2), of "\<lambda>m. sm_state m = ''sealed''" v] assms(3) by simp

lemma rotated_counted:
  assumes "log_ok sha w M" "counted w" "w_counters w = Some c"
  shows "counted (rotated_wal sha now c w)"
proof -
  from assms(1) have ts: "tsorted (w_segments w)" by (simp add: log_ok_def)
  from assms(2,3) obtain m where m: "tget (w_segments w) (active_id w) = Some m" "sm_state m = ''open''"
    and c: "c = sat_counters (rebuilt w)" by (auto simp: counted_def)
  let ?ss = "tput (active_id w) (sealed_metadata sha now w) (w_segments w)"
  have fresh: "tget ?ss (next_key ?ss) = None" using ts by (intro next_key_not_in) simp
  have "w_segments (rotated_wal sha now c w)
      = tput (next_key ?ss) (fresh_metadata now (sealed_wal sha now c w)) ?ss"
    by (simp add: rotated_wal_def)
  then have "sealed_size (w_segments (rotated_wal sha now c w))
        = sealed_size (w_segments w) + sm_bytes (ac_metadata (w_active w))"
      "tcount (\<lambda>m. sm_state m = ''sealed'') (w_segments (rotated_wal sha now c w))
        = tcount (\<lambda>m. sm_state m = ''sealed'') (w_segments w) + 1"
    using fresh ts m
    by (simp_all add: sealed_size_tput_fresh sealed_size_tput_open tcount_fresh tcount_tput_open)
  then show ?thesis
    by (simp add: counted_def counters_from_tables_eq sealed_counters_def sat_counters_def c)
      (simp add: rotated_wal_def fresh_metadata_def Let_def)
qed

section \<open>Appending the batch\<close>

definition written :: "capture_record list \<Rightarrow> wal \<Rightarrow> nat \<times> locator \<Rightarrow> bool" where
  "written batch w p \<longleftrightarrow>
     lo_capture_id (snd p) = cr_capture_id (batch ! fst p) \<and>
     lo_raw_sha256 (snd p) = cr_sha256 (batch ! fst p) \<and>
     lo_received_at (snd p) = cr_received_at (batch ! fst p) \<and>
     lo_model (snd p) = cr_model (batch ! fst p) \<and>
     wal_slice w (snd p) = Some (cr_canonical (batch ! fst p) @ [CHR 0x0A])"

definition appended ::
  "(string \<Rightarrow> string) \<Rightarrow> capture_record list \<Rightarrow> wal \<Rightarrow> (nat \<times> locator) list \<Rightarrow> wal \<Rightarrow> bool" where
  "appended sha batch w0 ps w \<longleftrightarrow>
     log_ok sha w (mset (map snd (w_captures w0)) + mset (map snd ps)) \<and> running w \<and> counted w \<and>
     log_le w0 w \<and> w_captures w = w_captures w0 \<and> w_attempts w = w_attempts w0 \<and>
     w_next_attempt_id w = w_next_attempt_id w0 \<and> list_all (written batch w) ps"

lemma written_mono: "log_le v w \<Longrightarrow> written batch v p \<Longrightarrow> written batch w p"
  by (auto simp: written_def dest: slice_mono)

lemma appended_rotate:
  assumes "appended sha batch w0 ps w" "0 < sm_records (ac_metadata (w_active w))"
  shows "\<exists>w'. rotate_active sha now w = Inr w' \<and> appended sha batch w0 ps w'"
proof -
  from assms(1) obtain c where c: "w_counters w = Some c" by (auto simp: appended_def counted_def)
  from assms(1) have l: "log_ok sha w (mset (map snd (w_captures w0)) + mset (map snd ps))"
    "running w" "counted w" "log_le w0 w" by (auto simp: appended_def)
  note r = rotate_ok [OF l(1,2) assms(2) c, of now]
  from assms(1) have "list_all (written batch (rotated_wal sha now c w)) ps"
    using written_mono [OF r(3)] by (auto simp: appended_def list_all_iff)
  with assms(1) r rotated_counted [OF l(1,3) c] log_le_trans [OF l(4) r(3)]
  have "appended sha batch w0 ps (rotated_wal sha now c w)"
    by (simp add: appended_def)
  with r(1) show ?thesis by blast
qed

lemma append_one_ok:
  assumes ap: "appended sha batch w0 ps w" and sha: "cr_sha256 (batch ! i) = sha (cr_canonical (batch ! i))"
  shows "\<exists>w' l. append_one sha cfg now batch i (w, ps) = Inr (w', ps @ [(i, l)])
      \<and> appended sha batch w0 (ps @ [(i, l)]) w'"
proof -
  have "\<exists>v. (if needs_rotation cfg w (batch ! i) then rotate_active sha now w else Inr w) = Inr v
      \<and> appended sha batch w0 ps v"
    using ap appended_rotate [OF ap] by (simp add: needs_rotation_def)
  then obtain v where v: "(if needs_rotation cfg w (batch ! i) then rotate_active sha now w else Inr w) = Inr v"
    "appended sha batch w0 ps v" by blast
  obtain w' l where r: "append_record (batch ! i) v = (w', l)" by fastforce
  from v(2) have av: "log_ok sha v (mset (map snd (w_captures w0)) + mset (map snd ps))" "running v"
    by (simp_all add: appended_def)
  note ok = append_record_ok [OF av sha r] and f = append_record_fields [OF r]
  have "counted w'" using v(2) by (auto simp: appended_def counted_def f)
  moreover have "list_all (written batch w') (ps @ [(i, l)])"
    using v(2) ok(3) written_mono [OF ok(2)] by (auto simp: appended_def list_all_iff written_def f append_record_meta [OF r])
  moreover have "log_le w0 w'" using v(2) ok(2) log_le_trans by (auto simp: appended_def)
  ultimately have "appended sha batch w0 (ps @ [(i, l)]) w'"
    using v(2) ok(1) by (simp add: appended_def f)
  moreover have "append_one sha cfg now batch i (w, ps) = Inr (w', ps @ [(i, l)])"
    unfolding append_one_def fst_conv v(1) by (simp add: r)
  ultimately show ?thesis by blast
qed

lemma append_pending_ok:
  assumes "appended sha batch w0 ps w"
    and "\<forall>i \<in> set idx. cr_sha256 (batch ! i) = sha (cr_canonical (batch ! i))"
  shows "\<exists>w' qs. try_fold (append_one sha cfg now batch) idx (w, ps) = Inr (w', ps @ qs)
      \<and> map fst qs = idx \<and> appended sha batch w0 (ps @ qs) w'"
  using assms
proof (induction idx arbitrary: w ps)
  case Nil
  then show ?case by auto
next
  case (Cons i idx)
  then obtain v l where v: "append_one sha cfg now batch i (w, ps) = Inr (v, ps @ [(i, l)])"
    "appended sha batch w0 (ps @ [(i, l)]) v"
    using append_one_ok [of sha batch w0 ps w i cfg now] by auto
  from Cons.IH [OF v(2)] Cons.prems(2) obtain w' qs where
    "try_fold (append_one sha cfg now batch) idx (v, ps @ [(i, l)]) = Inr (w', (ps @ [(i, l)]) @ qs)"
    "map fst qs = idx" "appended sha batch w0 ((ps @ [(i, l)]) @ qs) w'" by auto
  with v(1) show ?case by (intro exI [of _ w'] exI [of _ "(i, l) # qs"]) simp
qed

section \<open>The ledger transaction\<close>

definition rec1 :: "attempt \<Rightarrow> wal \<Rightarrow> wal" where
  "rec1 a w = w\<lparr>w_attempts := tput (w_next_attempt_id w) (a\<lparr>at_attempt_id := w_next_attempt_id w\<rparr>) (w_attempts w),
                w_next_attempt_id := w_next_attempt_id w + 1\<rparr>"

fun numbered :: "nat \<Rightarrow> attempt list \<Rightarrow> (nat \<times> attempt) list" where
  "numbered n [] = []"
| "numbered n (a # as) = (n, a\<lparr>at_attempt_id := n\<rparr>) # numbered (Suc n) as"

definition attempt_for ::
  "string \<Rightarrow> capture_record \<Rightarrow> string \<Rightarrow> string \<Rightarrow> string option \<Rightarrow> nat option \<Rightarrow> attempt" where
  "attempt_for now r raw st reason seg =
     \<lparr>at_attempt_id = 0, at_capture_id = Some (cr_capture_id r), at_raw_sha256 = Some raw, at_state = st,
      at_reason = reason, at_received_at = now, at_committed_at = Some now, at_segment_id = seg\<rparr>"

definition accepted_row :: "string \<Rightarrow> capture_record list \<Rightarrow> nat \<times> locator \<Rightarrow> attempt" where
  "accepted_row now batch p =
     attempt_for now (batch ! fst p) (cr_sha256 (batch ! fst p)) ''accepted'' None (Some (lo_segment_id (snd p)))"

definition duplicate_row :: "string \<Rightarrow> capture_record list \<Rightarrow> nat \<times> locator \<Rightarrow> attempt" where
  "duplicate_row now batch p =
     attempt_for now (batch ! fst p) (lo_raw_sha256 (snd p)) ''duplicate'' (Some ''already_committed'')
       (Some (lo_segment_id (snd p)))"

definition conflict_row :: "string \<Rightarrow> capture_record list \<Rightarrow> nat \<Rightarrow> attempt" where
  "conflict_row now batch i =
     attempt_for now (batch ! i) (cr_sha256 (batch ! i)) ''conflict'' (Some ''same_capture_id_different_payload'') None"

definition bounded_attempts :: "wal \<Rightarrow> bool" where
  "bounded_attempts w \<longleftrightarrow> tsorted (w_attempts w) \<and> (\<forall>k \<in> fst ` set (w_attempts w). k < w_next_attempt_id w)"

lemma tput_append_last: "\<forall>k \<in> fst ` set t. k < n \<Longrightarrow> tput n v t = t @ [(n, v)]"
  by (induction t) fastforce+

lemma tsorted_snoc: "tsorted (t @ [r]) \<longleftrightarrow> tsorted t \<and> (\<forall>k \<in> fst ` set t. k < fst r)"
  by (auto simp: tsorted_def sorted_wrt_append)

lemma rec1_eq:
  "bounded_attempts w \<Longrightarrow> rec1 a w = w\<lparr>w_attempts := w_attempts w @ [(w_next_attempt_id w, a\<lparr>at_attempt_id := w_next_attempt_id w\<rparr>)],
     w_next_attempt_id := Suc (w_next_attempt_id w)\<rparr>"
  by (simp add: rec1_def bounded_attempts_def tput_append_last)

lemma bounded_rec1: "bounded_attempts w \<Longrightarrow> bounded_attempts (rec1 a w)"
  by (simp add: rec1_eq) (auto simp: bounded_attempts_def tsorted_snoc less_SucI)

lemma fold_rec1:
  "bounded_attempts w \<Longrightarrow> fold rec1 as w =
     w\<lparr>w_attempts := w_attempts w @ numbered (w_next_attempt_id w) as,
       w_next_attempt_id := w_next_attempt_id w + length as\<rparr>"
proof (induction as arbitrary: w)
  case (Cons a as)
  from Cons.IH [OF bounded_rec1 [OF Cons.prems]] show ?case by (simp add: rec1_eq [OF Cons.prems])
qed simp

lemma bounded_fold_rec1: "bounded_attempts w \<Longrightarrow> bounded_attempts (fold rec1 as w)"
  by (induction as arbitrary: w) (auto simp: bounded_rec1)

definition index_captures :: "locator list \<Rightarrow> (string, locator) table \<Rightarrow> (string, locator) table" where
  "index_captures ls t = fold (\<lambda>l. tput (lo_capture_id l) l) ls t"

lemma commit_accepted_fold:
  assumes "list_all (\<lambda>p. lo_capture_id (snd p) = cr_capture_id (batch ! fst p)) ps"
  shows "fold (commit_accepted now batch) ps w =
     fold rec1 (map (accepted_row now batch) ps)
       (w\<lparr>w_captures := index_captures (map snd ps) (w_captures w)\<rparr>)"
  using assms
proof (induction ps arbitrary: w)
  case (Cons p ps)
  have comm: "rec1 a (w\<lparr>w_captures := t\<rparr>) = (rec1 a w)\<lparr>w_captures := t\<rparr>" for a t and w :: wal
    by (simp add: rec1_def)
  have "commit_accepted now batch p w
      = rec1 (accepted_row now batch p) (w\<lparr>w_captures := tput (lo_capture_id (snd p)) (snd p) (w_captures w)\<rparr>)"
    using Cons.prems
    by (simp add: commit_accepted_def record_attempt_def rec1_def accepted_row_def attempt_for_def Let_def)
  then have "fold (commit_accepted now batch) (p # ps) w
      = fold rec1 (map (accepted_row now batch) ps)
         ((rec1 (accepted_row now batch p) w)\<lparr>w_captures := index_captures (map snd (p # ps)) (w_captures w)\<rparr>)"
    using Cons by (simp add: comm index_captures_def)
  then show ?case by (simp add: comm)
qed (simp add: index_captures_def)

lemma commit_duplicate_fold:
  "fold (commit_duplicate now batch) ps w = fold rec1 (map (duplicate_row now batch) ps) w"
  by (induction ps arbitrary: w)
    (simp_all add: commit_duplicate_def record_attempt_def rec1_def duplicate_row_def attempt_for_def)

lemma commit_conflict_fold:
  "fold (commit_conflict now batch) is w = fold rec1 (map (conflict_row now batch) is) w"
  by (induction "is" arbitrary: w)
    (simp_all add: commit_conflict_def record_attempt_def rec1_def conflict_row_def attempt_for_def)

section \<open>The invariant of the store\<close>

definition ledger_ok :: "wal \<Rightarrow> bool" where
  "ledger_ok w \<longleftrightarrow>
     tsorted (w_captures w) \<and> bounded_attempts w \<and>
     (\<forall>k l. tget (w_captures w) k = Some l \<longrightarrow> lo_capture_id l = k) \<and>
     (\<forall>r \<in> set (w_attempts w). at_attempt_id (snd r) = fst r) \<and>
     tcount accepted_state (w_attempts w) = length (w_captures w) \<and>
     (\<forall>k l. tget (w_captures w) k = Some l \<longrightarrow>
        (\<exists>r \<in> set (w_attempts w). at_capture_id (snd r) = Some k \<and> accepted_state (snd r)))"

definition wal_ok :: "(string \<Rightarrow> string) \<Rightarrow> wal \<Rightarrow> bool" where
  "wal_ok sha w \<longleftrightarrow>
     log_ok sha w (mset (map snd (w_captures w))) \<and> running w \<and> ledger_ok w \<and> counted w \<and>
     tget (w_segments w) (active_id w) = Some (ac_metadata (w_active w))"

lemma tcount_numbered:
  "(\<And>a n. P (a\<lparr>at_attempt_id := n\<rparr>) = P a) \<Longrightarrow> tcount P (numbered n as) = length (filter P as)"
  by (induction as arbitrary: n) (simp_all add: tcount_def)

lemma tcount_append: "tcount P (s @ t) = tcount P s + tcount P t"
  by (simp add: tcount_def)

lemma numbered_ids: "r \<in> set (numbered n as) \<Longrightarrow> at_attempt_id (snd r) = fst r"
  by (induction as arbitrary: n) auto

lemma length_numbered [simp]: "length (numbered n as) = length as"
  by (induction as arbitrary: n) auto

lemma numbered_member: "a \<in> set as \<Longrightarrow> \<exists>r \<in> set (numbered n as). \<exists>i. snd r = a\<lparr>at_attempt_id := i\<rparr>"
  by (induction as arbitrary: n) fastforce+

lemma last_numbered: "as \<noteq> [] \<Longrightarrow> at_committed_at (snd (last (numbered n as))) = at_committed_at (last as)"
proof (induction as arbitrary: n)
  case (Cons a as)
  then show ?case by (cases as) auto
qed simp

lemma index_captures_ok:
  assumes "tsorted t" "distinct (map lo_capture_id ls)" "\<forall>l \<in> set ls. tget t (lo_capture_id l) = None"
  shows "tsorted (index_captures ls t)"
    and "mset (map snd (index_captures ls t)) = mset (map snd t) + mset ls"
    and "tget (index_captures ls t) k = (case map_of (map (\<lambda>l. (lo_capture_id l, l)) ls) k of
           Some l \<Rightarrow> Some l | None \<Rightarrow> tget t k)"
proof -
  have "tsorted (index_captures ls t) \<and> mset (map snd (index_captures ls t)) = mset (map snd t) + mset ls
    \<and> (\<forall>k. tget (index_captures ls t) k = (case map_of (map (\<lambda>l. (lo_capture_id l, l)) ls) k of
           Some l \<Rightarrow> Some l | None \<Rightarrow> tget t k))"
    using assms
  proof (induction ls arbitrary: t)
    case (Cons l ls)
    let ?t = "tput (lo_capture_id l) l t"
    from Cons.prems have "tget t (lo_capture_id l) = None" by simp
    then have m: "mset (map snd ?t) = add_mset l (mset (map snd t))"
      by (simp add: mset_tput_fresh mset_map)
    have n: "map_of (map (\<lambda>l. (lo_capture_id l, l)) ls) (lo_capture_id l) = None"
      using Cons.prems(2) by (auto simp: map_of_eq_None_iff)
    have e: "index_captures (l # ls) t = index_captures ls ?t" by (simp add: index_captures_def)
    from Cons.prems have "\<forall>l' \<in> set ls. lo_capture_id l' \<noteq> lo_capture_id l"
      by (metis distinct.simps(2) image_eqI list.simps(9) list.set_map)
    with Cons.prems have "\<forall>l' \<in> set ls. tget ?t (lo_capture_id l') = None" by simp
    note ih = Cons.IH [OF _ _ this]
    have ih: "tsorted (index_captures ls ?t)"
      "mset (map snd (index_captures ls ?t)) = mset (map snd ?t) + mset ls"
      "\<And>k. tget (index_captures ls ?t) k = (case map_of (map (\<lambda>l. (lo_capture_id l, l)) ls) k of
           Some l \<Rightarrow> Some l | None \<Rightarrow> tget ?t k)"
      using ih Cons.prems by auto
    show ?case
      unfolding e using ih m n by (simp split: option.splits)
  qed (simp add: index_captures_def)
  then show "tsorted (index_captures ls t)"
    "mset (map snd (index_captures ls t)) = mset (map snd t) + mset ls"
    "tget (index_captures ls t) k = (case map_of (map (\<lambda>l. (lo_capture_id l, l)) ls) k of
           Some l \<Rightarrow> Some l | None \<Rightarrow> tget t k)" by auto
qed

lemma log_ok_record_active:
  assumes ok: "log_ok sha w M" and v: "w_files v = w_files w" "w_active v = w_active w" "w_segments v = cur w"
  shows "log_ok sha v M" "log_le w v"
proof -
  from ok obtain m where m: "tget (w_segments w) (active_id w) = Some m" "sm_path m = ac_path (w_active w)"
    by (auto simp: log_ok_def active_ok_def)
  have segf: "seg_file v = seg_file w"
    using m log_ok_active(3) [OF ok] by (auto simp: seg_file_def v fun_eq_iff)
  then show le: "log_le w v" by (simp add: log_le_def)
  have ids: "tget (cur v) = tget (cur w)" by (simp add: fun_eq_iff v)
  have so: "seg_ok sha v M = seg_ok sha w M" by (simp add: seg_ok_def v fun_eq_iff)
  have lo: "located sha v = located sha w" by (simp add: located_def wal_slice_def segf fun_eq_iff)
  have "active_ok v" using ok log_ok_active(3) [OF ok] by (simp add: log_ok_def active_ok_def v)
  moreover have "tsorted (w_segments v)" using ok by (simp add: v log_ok_def cur_def)
  ultimately show "log_ok sha v M"
    using ok unfolding log_ok_def ids so lo by (simp add: v)
qed

definition ledger_rows ::
  "string \<Rightarrow> capture_record list \<Rightarrow> (nat \<times> locator) list \<Rightarrow> (nat \<times> locator) list \<Rightarrow> nat list \<Rightarrow> attempt list" where
  "ledger_rows now batch ps ds cs =
     map (accepted_row now batch) ps @ map (duplicate_row now batch) ds @ map (conflict_row now batch) cs"

definition ledger_wal ::
  "string \<Rightarrow> capture_record list \<Rightarrow> (nat \<times> locator) list \<Rightarrow> (nat \<times> locator) list \<Rightarrow> nat list
     \<Rightarrow> ledger_counters \<Rightarrow> wal \<Rightarrow> wal" where
  "ledger_wal now batch ps ds cs c w =
     w\<lparr>w_captures := index_captures (map snd ps) (w_captures w),
       w_attempts := w_attempts w @ numbered (w_next_attempt_id w) (ledger_rows now batch ps ds cs),
       w_next_attempt_id := w_next_attempt_id w + length (ledger_rows now batch ps ds cs),
       w_segments := cur w,
       w_counters := Some (c
         \<lparr>lc_captures := sat (lc_captures c + length ps), lc_attempts := sat (lc_attempts c + length batch),
          lc_accepted := sat (lc_accepted c + length ps), lc_duplicate := sat (lc_duplicate c + length ds),
          lc_conflict := sat (lc_conflict c + length cs), lc_last_commit_at := Some now\<rparr>)\<rparr>"

lemma commit_ledger_eq:
  assumes "bounded_attempts w" "w_counters w = Some c"
    and "list_all (\<lambda>p. lo_capture_id (snd p) = cr_capture_id (batch ! fst p)) ps"
  shows "commit_ledger now batch ps ds cs w = Inr (ledger_wal now batch ps ds cs c w)"
proof -
  let ?u = "w\<lparr>w_captures := index_captures (map snd ps) (w_captures w)\<rparr>"
  have b: "bounded_attempts ?u" using assms(1) by (simp add: bounded_attempts_def)
  have "fold (commit_conflict now batch) cs (fold (commit_duplicate now batch) ds (fold (commit_accepted now batch) ps w))
      = fold rec1 (ledger_rows now batch ps ds cs) ?u"
    by (simp add: commit_accepted_fold [OF assms(3)] commit_duplicate_fold commit_conflict_fold ledger_rows_def)
  also note fold_rec1 [OF b]
  finally show ?thesis
    using assms(2) by (simp add: commit_ledger_def read_counters_def Let_def ledger_wal_def cur_def)
qed

lemma pending_distinct_part:
  assumes "class_ok captures batch n cl" "distinct (map fst ps)" "set (map fst ps) \<subseteq> set (cl_pending cl)" "list_all (written batch w) ps"
  shows "distinct (map lo_capture_id (map snd ps))"
    and "\<forall>l \<in> set (map snd ps). tget captures (lo_capture_id l) = None"
proof -
  from assms(4) have e: "map lo_capture_id (map snd ps) = map (\<lambda>i. cr_capture_id (batch ! i)) (map fst ps)"
    by (auto simp: list_all_iff written_def)
  have p: "tget (cl_primary cl) (cr_capture_id (batch ! i)) = Some i" if "i \<in> set (cl_pending cl)" for i
    using assms(1) that by (simp add: class_ok_def)
  have "inj_on (\<lambda>i. cr_capture_id (batch ! i)) (set (cl_pending cl))"
    by (rule inj_onI) (metis p option.inject)
  with assms(2,3) show "distinct (map lo_capture_id (map snd ps))"
    unfolding e distinct_map by (blast intro: inj_on_subset)
  have n: "tget captures (cr_capture_id (batch ! i)) = None" if "i \<in> set (cl_pending cl)" for i
    using assms(1) p [OF that] unfolding class_ok_def by blast
  show "\<forall>l \<in> set (map snd ps). tget captures (lo_capture_id l) = None"
  proof
    fix l assume "l \<in> set (map snd ps)"
    then obtain i where i: "(i, l) \<in> set ps" by auto
    with assms(4) have "lo_capture_id l = cr_capture_id (batch ! i)" by (auto simp: list_all_iff written_def)
    moreover from i assms(3) have "i \<in> set (cl_pending cl)" by force
    ultimately show "tget captures (lo_capture_id l) = None" by (simp add: n)
  qed
qed

lemma pending_distinct:
  assumes "class_ok captures batch n cl" "map fst ps = cl_pending cl" "list_all (written batch w) ps"
  shows "distinct (map lo_capture_id (map snd ps))"
    and "\<forall>l \<in> set (map snd ps). tget captures (lo_capture_id l) = None"
proof -
  have "distinct (map fst ps)" using class_ok_disjoint [OF assms(1)] by (simp add: assms(2))
  from pending_distinct_part [OF assms(1) this _ assms(3)] assms(2)
  show "distinct (map lo_capture_id (map snd ps))"
    "\<forall>l \<in> set (map snd ps). tget captures (lo_capture_id l) = None" by simp_all
qed

lemma length_ledger_rows:
  assumes "class_ok captures batch (length batch) cl" "map fst ps = cl_pending cl"
  shows "length (ledger_rows now batch ps (map (resolve_duplicate qs) (cl_duplicates cl)) (cl_conflicts cl)) = length batch"
proof -
  from assms(1) have "size (mset (cl_pending cl) + mset (map fst (cl_duplicates cl)) + mset (cl_conflicts cl)) = length batch"
    by (simp add: class_ok_def)
  with arg_cong [OF assms(2), of length] show ?thesis by (simp add: ledger_rows_def)
qed

lemma rows_states [simp]:
  "accepted_state (accepted_row now batch p)" "\<not> accepted_state (duplicate_row now batch p)"
  "\<not> accepted_state (conflict_row now batch i)" "at_state (accepted_row now batch p) \<noteq> ''duplicate''"
  "at_state (accepted_row now batch p) \<noteq> ''conflict''" "at_state (duplicate_row now batch p) = ''duplicate''"
  "at_state (conflict_row now batch i) = ''conflict''" "\<not> rejected_state (accepted_row now batch p)"
  "\<not> rejected_state (duplicate_row now batch p)" "\<not> rejected_state (conflict_row now batch i)"
  by (simp_all add: accepted_state_def rejected_state_def accepted_row_def duplicate_row_def conflict_row_def attempt_for_def)

lemma rows_committed: "a \<in> set (ledger_rows now batch ps ds cs) \<Longrightarrow> at_committed_at a = Some now"
  by (auto simp: ledger_rows_def accepted_row_def duplicate_row_def conflict_row_def attempt_for_def)

lemma ledger_rows_counts:
  "length (filter accepted_state (ledger_rows now batch ps ds cs)) = length ps"
  "length (filter (\<lambda>a. at_state a = ''duplicate'') (ledger_rows now batch ps ds cs)) = length ds"
  "length (filter (\<lambda>a. at_state a = ''conflict'') (ledger_rows now batch ps ds cs)) = length cs"
  "length (filter rejected_state (ledger_rows now batch ps ds cs)) = 0"
  by (simp_all add: ledger_rows_def filter_map comp_def)

lemma state_numbered:
  "accepted_state (a\<lparr>at_attempt_id := n\<rparr>) = accepted_state a" "rejected_state (a\<lparr>at_attempt_id := n\<rparr>) = rejected_state a"
  by (simp_all add: accepted_state_def rejected_state_def)

lemma ledger_ok_extend:
  assumes lo: "ledger_ok w" and "distinct (map lo_capture_id ls)"
    and fresh: "\<forall>l \<in> set ls. tget (w_captures w) (lo_capture_id l) = None"
    and u: "w_captures u = index_captures ls (w_captures w)" "w_attempts u = w_attempts w @ numbered n rows"
    and bnd: "bounded_attempts u"
    and rows: "length (filter accepted_state rows) = length ls"
      "\<And>l. l \<in> set ls \<Longrightarrow> \<exists>a \<in> set rows. at_capture_id a = Some (lo_capture_id l) \<and> accepted_state a"
  shows "ledger_ok u"
proof -
  from lo have tc: "tsorted (w_captures w)" by (simp add: ledger_ok_def)
  note ix = index_captures_ok [OF tc assms(2) fresh]
  have len: "length (w_captures u) = length (w_captures w) + length ls"
    using arg_cong [OF ix(2), of size] by (simp add: u)
  have acc: "tcount accepted_state (w_attempts u) = tcount accepted_state (w_attempts w) + length ls"
    by (simp add: u tcount_append tcount_numbered state_numbered rows)
  have key: "lo_capture_id l = k" if "tget (w_captures u) k = Some l" for k l
    using that lo unfolding u ix(3)
    by (auto simp: ledger_ok_def split: option.splits dest!: map_of_SomeD)
  have durable: "\<exists>r \<in> set (w_attempts u). at_capture_id (snd r) = Some k \<and> accepted_state (snd r)"
    if k: "tget (w_captures u) k = Some l" for k l
  proof (cases "map_of (map (\<lambda>l. (lo_capture_id l, l)) ls) k")
    case None
    with k lo show ?thesis unfolding u ix(3) by (fastforce simp: ledger_ok_def)
  next
    case (Some l')
    then have "l' \<in> set ls" "lo_capture_id l' = k" by (auto dest!: map_of_SomeD)
    with rows(2) obtain a where a: "a \<in> set rows" "at_capture_id a = Some k" "accepted_state a" by blast
    then obtain r i where "r \<in> set (numbered n rows)" "snd r = a\<lparr>at_attempt_id := i\<rparr>"
      using numbered_member by blast
    with a show ?thesis by (intro bexI [of _ r]) (simp_all add: u state_numbered)
  qed
  show ?thesis
    unfolding ledger_ok_def
  proof (intro conjI allI impI ballI)
    fix r assume "r \<in> set (w_attempts u)"
    with lo show "at_attempt_id (snd r) = fst r" by (auto simp: u ledger_ok_def numbered_ids)
  qed (use ix(1) bnd lo len acc key durable in \<open>auto simp: u ledger_ok_def\<close>)
qed

lemma ledger_wal_ok:
  fixes now :: string
  assumes inv: "wal_ok sha w" and cls: "class_ok (w_captures w) batch (length batch) cl"
    and ap: "appended sha batch w ps v" and fst_ps: "map fst ps = cl_pending cl"
    and c: "w_counters v = Some c" and batch: "batch \<noteq> []"
    and ds: "ds = map (resolve_duplicate qs) (cl_duplicates cl)"
  shows "wal_ok sha (ledger_wal now batch ps ds (cl_conflicts cl) c v)"
    and "log_le w (ledger_wal now batch ps ds (cl_conflicts cl) c v)"
proof -
  let ?u = "ledger_wal now batch ps ds (cl_conflicts cl) c v"
  let ?rows = "ledger_rows now batch ps ds (cl_conflicts cl)"
  from ap have v: "w_captures v = w_captures w" "w_attempts v = w_attempts w"
    "w_next_attempt_id v = w_next_attempt_id w" "log_le w v" "running v" "counted v"
    "list_all (written batch v) ps"
    and lv: "log_ok sha v (mset (map snd (w_captures w)) + mset (map snd ps))"
    by (simp_all add: appended_def)
  from inv have lo: "ledger_ok w" by (simp add: wal_ok_def)
  then have tc: "tsorted (w_captures w)" by (simp add: ledger_ok_def)
  note pd = pending_distinct [OF cls fst_ps v(7)]
  note ix = index_captures_ok [OF tc pd]
  have u: "w_captures ?u = index_captures (map snd ps) (w_captures w)"
    "w_attempts ?u = w_attempts w @ numbered (w_next_attempt_id w) ?rows"
    "w_next_attempt_id ?u = w_next_attempt_id w + length ?rows"
    "w_segments ?u = cur v" "w_active ?u = w_active v" "w_files ?u = w_files v"
    by (simp_all add: ledger_wal_def v)
  have nrows: "length ?rows = length batch"
    unfolding ds by (rule length_ledger_rows [OF cls fst_ps])
  note cong = log_ok_record_active [OF lv u(6,5,4)]
  show "log_le w ?u" using v(4) cong(2) by (rule log_le_trans)
  have log: "log_ok sha ?u (mset (map snd (w_captures ?u)))" using cong(1) ix(2) by (simp add: u)
  have run: "running ?u" using v(5) by (simp add: running_def u)
  have bnd: "bounded_attempts ?u"
  proof -
    have "bounded_attempts w" using lo by (simp add: ledger_ok_def)
    from bounded_fold_rec1 [OF this, of ?rows] fold_rec1 [OF this, of ?rows]
    show ?thesis by (simp add: bounded_attempts_def u)
  qed
  have len: "length (w_captures ?u) = length (w_captures w) + length ps"
    using arg_cong [OF ix(2), of size] by (simp add: u)
  have tcounts: "tcount accepted_state (w_attempts ?u) = tcount accepted_state (w_attempts w) + length ps"
    "tcount (\<lambda>a. at_state a = ''duplicate'') (w_attempts ?u)
       = tcount (\<lambda>a. at_state a = ''duplicate'') (w_attempts w) + length ds"
    "tcount (\<lambda>a. at_state a = ''conflict'') (w_attempts ?u)
       = tcount (\<lambda>a. at_state a = ''conflict'') (w_attempts w) + length (cl_conflicts cl)"
    "tcount rejected_state (w_attempts ?u) = tcount rejected_state (w_attempts w)"
    by (simp_all add: u tcount_append tcount_numbered state_numbered ledger_rows_counts)
  have led: "ledger_ok ?u"
  proof (rule ledger_ok_extend [OF lo pd u(1,2) bnd])
    show "length (filter accepted_state ?rows) = length (map snd ps)" by (simp add: ledger_rows_counts)
    fix l assume "l \<in> set (map snd ps)"
    then obtain p where p: "p \<in> set ps" "l = snd p" by auto
    with v(7) have "at_capture_id (accepted_row now batch p) = Some (lo_capture_id l)"
      by (auto simp: list_all_iff written_def accepted_row_def attempt_for_def)
    moreover from p(1) have "accepted_row now batch p \<in> set ?rows" by (simp add: ledger_rows_def)
    ultimately show "\<exists>a \<in> set ?rows. at_capture_id a = Some (lo_capture_id l) \<and> accepted_state a"
      by (intro bexI [of _ "accepted_row now batch p"]) simp_all
  qed
  from v(6) obtain m where m: "tget (w_segments v) (active_id v) = Some m" "sm_state m = ''open''"
    and cv: "c = sat_counters (counters_from_tables (w_captures w) (w_attempts w) (w_segments v))"
    using c v by (auto simp: counted_def)
  have tv: "tsorted (w_segments v)" using lv by (simp add: log_ok_def)
  have open_meta: "sm_state (ac_metadata (w_active v)) = ''open''" using v(5) by (simp add: running_def)
  have "sealed_size (w_segments ?u) = sealed_size (w_segments v)"
    "tcount (\<lambda>m. sm_state m = ''sealed'') (w_segments ?u) = tcount (\<lambda>m. sm_state m = ''sealed'') (w_segments v)"
    using sealed_size_tput_open [OF tv m] tcount_tput_open [OF tv m] open_meta by (simp_all add: u cur_def)
  moreover have "at_committed_at (snd (last (w_attempts ?u))) = Some now" "w_attempts ?u \<noteq> []"
  proof -
    from nrows batch have r: "?rows \<noteq> []" by auto
    then have "last ?rows \<in> set ?rows" by (rule last_in_set)
    moreover have "numbered (w_next_attempt_id w) ?rows \<noteq> []" using r by (cases ?rows) auto
    ultimately show "at_committed_at (snd (last (w_attempts ?u))) = Some now" "w_attempts ?u \<noteq> []"
      using r rows_committed [of "last ?rows" now batch ps ds "cl_conflicts cl"]
      by (simp_all add: u last_append last_numbered)
  qed
  ultimately have cnt: "counted ?u"
    using tcounts len nrows lo open_meta
    by (simp add: counted_def counters_from_tables_eq ledger_ok_def)
      (simp add: ledger_wal_def sat_counters_def cv counters_from_tables_eq cur_def u v)
  show "wal_ok sha ?u"
    using log run led cnt by (simp add: wal_ok_def u)
qed

lemma wal_ok_rotate:
  assumes "wal_ok sha w" "0 < sm_records (ac_metadata (w_active w))"
  shows "\<exists>c. rotate_active sha now w = Inr (rotated_wal sha now c w) \<and> wal_ok sha (rotated_wal sha now c w)
      \<and> log_le w (rotated_wal sha now c w)"
proof -
  from assms(1) obtain c where w: "log_ok sha w (mset (map snd (w_captures w)))" "running w" "counted w"
    "ledger_ok w" "w_counters w = Some c" by (auto simp: wal_ok_def counted_def)
  note r = rotate_ok [OF w(1,2) assms(2) w(5), of now]
  have "ledger_ok (rotated_wal sha now c w)"
    using w(4) by (simp add: ledger_ok_def bounded_attempts_def)
  moreover have "tget (w_segments (rotated_wal sha now c w)) (active_id (rotated_wal sha now c w))
      = Some (ac_metadata (w_active (rotated_wal sha now c w)))"
    by (simp add: rotated_wal_def)
  ultimately have "wal_ok sha (rotated_wal sha now c w)"
    using r(2,4) rotated_counted [OF w(1,3,5)] by (simp add: wal_ok_def)
  with r(1,3) show ?thesis by blast
qed

lemma wal_ok_rotate_full:
  assumes "wal_ok sha w"
  shows "\<exists>w'. rotate_full sha cfg now aged w = Inr w' \<and> wal_ok sha w' \<and> log_le w w'
      \<and> w_captures w' = w_captures w \<and> w_attempts w' = w_attempts w"
  using assms wal_ok_rotate [OF assms, of now] by (auto simp: rotate_full_def)

lemma wal_ok_appended: "wal_ok sha w \<Longrightarrow> appended sha batch w [] w"
  by (simp add: wal_ok_def appended_def)

lemma resolve_fst: "map fst (map (resolve_duplicate ps) ds) = map fst ds"
  by (simp add: resolve_duplicate_def comp_def)

text \<open>One group commit, opened up: what was appended, and the ledger's new rows.\<close>

definition batch_run ::
  "(string \<Rightarrow> string) \<Rightarrow> store_config \<Rightarrow> string \<Rightarrow> bool \<Rightarrow> capture_record list \<Rightarrow> wal
     \<Rightarrow> (nat \<times> locator) list \<Rightarrow> (nat \<times> locator) list \<Rightarrow> wal \<Rightarrow> bool" where
  "batch_run sha cfg now aged batch w ps ds w' \<longleftrightarrow>
     (let cl = classify (w_captures w) batch
      in wal_ok sha w' \<and> log_le w w' \<and> map fst ps = cl_pending cl
         \<and> ds = map (resolve_duplicate ps) (cl_duplicates cl)
         \<and> list_all (written batch w') ps
         \<and> w_captures w' = index_captures (map snd ps) (w_captures w)
         \<and> w_attempts w' = w_attempts w
             @ numbered (w_next_attempt_id w) (ledger_rows now batch ps ds (cl_conflicts cl))
         \<and> commit_batch_inner sha cfg now aged batch w
             = Inr (w', map (batch_result ps ds) [0..<length batch]))"

lemma batch_runs:
  assumes inv: "wal_ok sha w" and h: "hashed sha batch" and batch: "batch \<noteq> []"
  shows "\<exists>ps ds w'. batch_run sha cfg now aged batch w ps ds w'"
proof -
  let ?cl = "classify (w_captures w) batch"
  note cls = class_ok_classify [of "w_captures w" batch]
  have "\<forall>i \<in> set (cl_pending ?cl). cr_sha256 (batch ! i) = sha (cr_canonical (batch ! i))"
    using class_ok_members(1) [OF cls] h by (simp add: hashed_def list_all_iff)
  from append_pending_ok [OF wal_ok_appended [OF inv] this, of cfg now]
  obtain v ps where v: "append_pending sha cfg now batch (cl_pending ?cl) w = Inr (v, ps)"
    "map fst ps = cl_pending ?cl" "appended sha batch w ps v"
    by (auto simp: append_pending_def)
  from v(3) obtain c where c: "w_counters v = Some c" by (auto simp: appended_def counted_def)
  let ?ds = "map (resolve_duplicate ps) (cl_duplicates ?cl)"
  let ?u = "ledger_wal now batch ps ?ds (cl_conflicts ?cl) c v"
  note lw = ledger_wal_ok [OF inv cls v(3,2) c batch refl, of now]
  have "bounded_attempts v" using inv v(3) by (auto simp: wal_ok_def ledger_ok_def appended_def bounded_attempts_def)
  moreover have wr: "list_all (written batch v) ps" using v(3) by (simp add: appended_def)
  ultimately have cm: "commit_ledger now batch ps ?ds (cl_conflicts ?cl) v = Inr ?u"
    using c by (intro commit_ledger_eq) (auto simp: list_all_iff written_def)
  from wal_ok_rotate_full [OF lw(1), of cfg now aged] obtain w' where
    w': "rotate_full sha cfg now aged ?u = Inr w'" "wal_ok sha w'" "log_le ?u w'"
      "w_captures w' = w_captures ?u" "w_attempts w' = w_attempts ?u" by blast
  have "log_le v ?u"
    using v(3) by (intro log_ok_record_active(2)) (auto simp: ledger_wal_def appended_def)
  with wr written_mono [OF log_le_trans [OF this w'(3)]] have "list_all (written batch w') ps"
    by (auto simp: list_all_iff)
  moreover have "commit_batch_inner sha cfg now aged batch w = Inr (w', map (batch_result ps ?ds) [0..<length batch])"
    by (simp add: commit_batch_inner_def Let_def v(1) cm w'(1))
  ultimately have "batch_run sha cfg now aged batch w ps ?ds w'"
    using w' v log_le_trans [OF lw(2) w'(3)]
    by (simp add: batch_run_def Let_def) (simp add: ledger_wal_def appended_def)
  then show ?thesis by blast
qed

lemma commit_batch_run:
  assumes "wal_ok sha w" "hashed sha batch" "batch \<noteq> []"
    and "commit_batch_inner sha cfg now aged batch w = Inr (w', rs)"
  shows "\<exists>ps ds. batch_run sha cfg now aged batch w ps ds w' \<and> rs = map (batch_result ps ds) [0..<length batch]"
proof -
  from batch_runs [OF assms(1-3), of cfg now aged] obtain ps ds v where
    b: "batch_run sha cfg now aged batch w ps ds v" by blast
  with assms(4) have "v = w'" "rs = map (batch_result ps ds) [0..<length batch]"
    by (auto simp: batch_run_def Let_def)
  with b show ?thesis by blast
qed

subsection \<open>Responses\<close>

lemma map_of_resolved:
  "distinct (map fst ds) \<Longrightarrow> d \<in> set ds \<Longrightarrow>
     map_of (map (resolve_duplicate ps) ds) (fst d) = Some (snd (resolve_duplicate ps d))"
  by (rule map_of_is_SomeI) (auto simp: resolve_fst resolve_duplicate_def image_iff comp_def)

lemma batch_result_outcome:
  assumes "map fst ps = cl_pending cl"
  shows "response (batch_result ps (map (resolve_duplicate ps) (cl_duplicates cl)) i) = class_outcome cl i"
proof -
  have p: "map_of ps i = None \<longleftrightarrow> i \<notin> set (cl_pending cl)"
    by (simp add: map_of_eq_None_iff flip: assms)
  have "map_of (map (resolve_duplicate ps) (cl_duplicates cl)) i = None \<longleftrightarrow> i \<notin> fst ` set (cl_duplicates cl)"
    unfolding map_of_eq_None_iff set_map [symmetric] resolve_fst by simp
  with p show ?thesis
    by (auto simp: batch_result_def response_def class_outcome_def ack_def split: option.splits)
qed

lemma abs_store_batch:
  assumes "class_ok (w_captures w) batch (length batch) cl" "map fst ps = cl_pending cl"
    "list_all (written batch v) ps" "tsorted (w_captures w)"
    "w_captures w' = index_captures (map snd ps) (w_captures w)"
  shows "abs_store w' = class_store (w_captures w) batch cl"
proof
  fix k
  note pd = pending_distinct [OF assms(1,2,3)]
  note ix = index_captures_ok(3) [OF assms(4) pd]
  show "abs_store w' k = class_store (w_captures w) batch cl k"
  proof (cases "tget (cl_primary cl) k")
    case None
    have "map_of (map (\<lambda>l. (lo_capture_id l, l)) (map snd ps)) k = None"
    proof (rule ccontr)
      assume "map_of (map (\<lambda>l. (lo_capture_id l, l)) (map snd ps)) k \<noteq> None"
      then obtain i l where i: "(i, l) \<in> set ps" "lo_capture_id l = k" by (auto dest!: map_of_SomeD)
      from i(1) assms(2) have "i \<in> set (cl_pending cl)" by (metis fst_conv image_eqI list.set_map)
      with assms(1) have "tget (cl_primary cl) (cr_capture_id (batch ! i)) = Some i"
        by (simp add: class_ok_def)
      moreover from i assms(3) have "cr_capture_id (batch ! i) = k" by (auto simp: list_all_iff written_def)
      ultimately show False using None by simp
    qed
    with None show ?thesis
      by (simp add: abs_store_def class_store_def assms(5) ix split: option.splits)
  next
    case (Some i)
    with assms(1) have i: "i \<in> set (cl_pending cl)" "cr_capture_id (batch ! i) = k" "tget (w_captures w) k = None"
      unfolding class_ok_def by blast+
    from i(1) assms(2) obtain l where l: "(i, l) \<in> set ps" by (metis image_iff list.set_map prod.collapse)
    with assms(3) i(2) have "lo_capture_id l = k" "lo_raw_sha256 l = cr_sha256 (batch ! i)"
      by (auto simp: list_all_iff written_def)
    moreover from l this(1) have "map_of (map (\<lambda>l. (lo_capture_id l, l)) (map snd ps)) k = Some l"
      using pd(1) by (intro map_of_is_SomeI) (auto simp: comp_def image_iff intro!: bexI [of _ "(i, l)"])
    ultimately show ?thesis
      by (simp add: abs_store_def class_store_def assms(5) ix Some i(3))
  qed
qed

end
