(* ===== verification/WalTheorems.thy ===== *)
theory WalTheorems
  imports WalCommit
begin

text \<open>
  What the Capture store promises: a group commit always succeeds and keeps the store's invariant,
  it refines submitting its records one at a time, an acknowledged Capture is readable now and
  after every later operation, and the ledger conserves every attempt.
\<close>

section \<open>The empty store\<close>

definition blank_wal :: wal where
  "blank_wal =
     \<lparr>w_files = [], w_captures = [], w_attempts = [], w_segments = [], w_counters = Some zero_counters,
      w_active = \<lparr>ac_metadata = \<lparr>sm_segment_id = 0, sm_path = [], sm_state = [], sm_bytes = 0,
        sm_records = 0, sm_created_at = [], sm_sealed_at = None, sm_sha256 = None\<rparr>,
        ac_path = [], ac_digest = []\<rparr>, w_next_attempt_id = 1\<rparr>"

definition empty_wal :: "string \<Rightarrow> wal" where
  "empty_wal now = created_wal now blank_wal"

lemma wal_ok_empty: "wal_ok sha (empty_wal now)"
proof -
  have "closed_log sha blank_wal {#}" by (simp add: closed_log_def blank_wal_def)
  note c = created_wal_ok [OF this, of now]
  have f: "w_captures blank_wal = []" "w_attempts blank_wal = []" "w_segments blank_wal = []"
    "w_counters blank_wal = Some zero_counters" by (simp_all add: blank_wal_def)
  have "counted (empty_wal now)"
    by (simp add: counted_def empty_wal_def f counters_from_tables_eq tcount_def sealed_size_def
        zero_counters_def sat_counters_def sat_def)
  moreover have "ledger_ok (empty_wal now)"
    by (simp add: ledger_ok_def empty_wal_def f bounded_attempts_def tcount_def)
  ultimately show ?thesis using c(2) by (simp add: wal_ok_def empty_wal_def f)
qed

section \<open>Reading\<close>

lemma read_capture_slice:
  assumes "tget (w_captures w) k = Some l" "wal_slice w l = Some (c @ [CHR 0x0A])" "sha c = lo_raw_sha256 l"
  shows "read_capture sha k w = Inr c"
proof -
  from assms(2) obtain m b where "tget (w_segments w) (lo_segment_id l) = Some m"
    "tget (w_files w) (sm_path m) = Some b" "read_exact b (lo_offset l) (lo_length l) = Some (c @ [CHR 0x0A])"
    by (auto simp: wal_slice_def seg_file_def bind_eq_Some_conv)
  with assms(1,3) show ?thesis by (simp add: read_capture_def)
qed

lemma wal_ok_located:
  assumes "wal_ok sha w" "tget (w_captures w) k = Some l"
  shows "located sha w l"
proof -
  from assms(2) have "l \<in># mset (map snd (w_captures w))" by (force dest: map_of_SomeD)
  with assms(1) show ?thesis unfolding wal_ok_def log_ok_def by blast
qed

text \<open>Under the invariant reading fails only for a Capture that was never committed.\<close>

lemma read_capture_ok:
  assumes "wal_ok sha w"
  shows "read_capture sha k w = Inr c \<longleftrightarrow>
      (\<exists>l. tget (w_captures w) k = Some l \<and> wal_slice w l = Some (c @ [CHR 0x0A]) \<and> sha c = lo_raw_sha256 l)"
proof (cases "tget (w_captures w) k")
  case None
  then show ?thesis by (simp add: read_capture_def)
next
  case (Some l)
  from wal_ok_located [OF assms Some] obtain d where
    d: "wal_slice w l = Some (d @ [CHR 0x0A])" "sha d = lo_raw_sha256 l" by (auto simp: located_def)
  from read_capture_slice [of w k l d sha] Some d show ?thesis by auto
qed

section \<open>What one batch does\<close>

lemma index_captures_extends:
  assumes "batch_run sha cfg now aged batch w ps ds w'" "wal_ok sha w" "tget (w_captures w) k = Some l"
  shows "tget (w_captures w') k = Some l"
proof -
  let ?cl = "classify (w_captures w) batch"
  from assms(1) have b: "map fst ps = cl_pending ?cl" "list_all (written batch w') ps"
    "w_captures w' = index_captures (map snd ps) (w_captures w)" by (simp_all add: batch_run_def Let_def)
  note pd = pending_distinct [OF class_ok_classify b(1,2)]
  from assms(2) have "tsorted (w_captures w)" by (simp add: wal_ok_def ledger_ok_def)
  note ix = index_captures_ok(3) [OF this pd]
  have "map_of (map (\<lambda>l. (lo_capture_id l, l)) (map snd ps)) k = None"
  proof (rule ccontr)
    assume "map_of (map (\<lambda>l. (lo_capture_id l, l)) (map snd ps)) k \<noteq> None"
    then obtain l' where "l' \<in> set (map snd ps)" "lo_capture_id l' = k"
      by (force dest!: map_of_SomeD)
    with pd(2) assms(3) show False by auto
  qed
  with assms(3) show ?thesis by (simp add: b(3) ix)
qed

lemma batch_reads_stable:
  assumes "batch_run sha cfg now aged batch w ps ds w'" "wal_ok sha w" "read_capture sha k w = Inr c"
  shows "read_capture sha k w' = Inr c"
proof -
  from assms(3) read_capture_ok [OF assms(2)] obtain l where
    l: "tget (w_captures w) k = Some l" "wal_slice w l = Some (c @ [CHR 0x0A])" "sha c = lo_raw_sha256 l" by blast
  from assms(1) have "log_le w w'" by (simp add: batch_run_def Let_def)
  from slice_mono [OF this l(2)] index_captures_extends [OF assms(1,2) l(1)] l(3)
  show ?thesis by (blast intro: read_capture_slice)
qed

lemma batch_indexed:
  assumes "batch_run sha cfg now aged batch w ps ds w'" "wal_ok sha w" "(i, l) \<in> set ps"
  shows "tget (w_captures w') (cr_capture_id (batch ! i)) = Some l"
proof -
  let ?cl = "classify (w_captures w) batch"
  from assms(1) have b: "map fst ps = cl_pending ?cl" "list_all (written batch w') ps"
    "w_captures w' = index_captures (map snd ps) (w_captures w)" by (simp_all add: batch_run_def Let_def)
  note pd = pending_distinct [OF class_ok_classify b(1,2)]
  from assms(2) have "tsorted (w_captures w)" by (simp add: wal_ok_def ledger_ok_def)
  note ix = index_captures_ok(3) [OF this pd]
  from b(2) assms(3) have "lo_capture_id l = cr_capture_id (batch ! i)" by (auto simp: list_all_iff written_def)
  moreover have "map_of (map (\<lambda>l. (lo_capture_id l, l)) (map snd ps)) (lo_capture_id l) = Some l"
    using pd(1) assms(3) by (intro map_of_is_SomeI) (force simp: comp_def)+
  ultimately show ?thesis by (simp add: b(3) ix)
qed

lemma pending_locator:
  assumes "map fst ps = is" "i \<in> set is"
  shows "\<exists>l. (i, l) \<in> set ps"
  using assms by (metis image_iff list.set_map prod.collapse)

lemma batch_ack_readable:
  assumes run: "batch_run sha cfg now aged batch w ps ds w'" and inv: "wal_ok sha w" and h: "hashed sha batch"
    and i: "i < length batch" and a: "batch_result ps ds i = Inr a"
  shows "\<exists>c. read_capture sha (cr_capture_id (batch ! i)) w' = Inr c \<and> sha c = ack_raw_sha256 a
      \<and> (\<not> ack_duplicate a \<longrightarrow> c = cr_canonical (batch ! i))"
proof -
  let ?cl = "classify (w_captures w) batch"
  from run have b: "map fst ps = cl_pending ?cl" "list_all (written batch w') ps" "wal_ok sha w'"
    "ds = map (resolve_duplicate ps) (cl_duplicates ?cl)" by (simp_all add: batch_run_def Let_def)
  note cls = class_ok_classify [of "w_captures w" batch]
  have sha: "cr_sha256 (batch ! j) = sha (cr_canonical (batch ! j))" if "j < length batch" for j
    using h that by (simp add: hashed_def list_all_iff)
  have readable: "read_capture sha (cr_capture_id (batch ! j)) w' = Inr (cr_canonical (batch ! j))"
    if "(j, l) \<in> set ps" for j l
  proof (rule read_capture_slice)
    show "tget (w_captures w') (cr_capture_id (batch ! j)) = Some l" by (rule batch_indexed [OF run inv that])
    show "wal_slice w' l = Some (cr_canonical (batch ! j) @ [CHR 0x0A])"
      using b(2) that by (auto simp: list_all_iff written_def)
    from that b(1) have "j \<in> set (cl_pending ?cl)" by (metis fst_conv image_eqI list.set_map)
    with class_ok_members(1) [OF cls] sha b(2) that
    show "sha (cr_canonical (batch ! j)) = lo_raw_sha256 l" by (force simp: list_all_iff written_def)
  qed
  show ?thesis
  proof (cases "map_of ps i")
    case (Some l)
    then have m: "(i, l) \<in> set ps" by (rule map_of_SomeD)
    with b(2) have "lo_raw_sha256 l = cr_sha256 (batch ! i)" by (auto simp: list_all_iff written_def)
    with Some a readable [OF m] sha [OF i] show ?thesis
      by (auto simp: batch_result_def ack_def)
  next
    case None
    with a obtain l where l: "map_of ds i = Some l" "a = ack l True ''duplicate''"
      by (auto simp: batch_result_def split: option.splits)
    then obtain s where s: "(i, s) \<in> set (cl_duplicates ?cl)" "l = snd (resolve_duplicate ps (i, s))"
      by (auto simp: b(4) resolve_duplicate_def dest!: map_of_SomeD)
    from cls s(1) have d: "dup_ok (w_captures w) batch (cl_pending ?cl) (i, s)" by (auto simp: class_ok_def)
    show ?thesis
    proof (cases s)
      case (Existing l')
      with d have "tget (w_captures w') (cr_capture_id (batch ! i)) = Some l'"
        using index_captures_extends [OF run inv] by auto
      moreover from wal_ok_located [OF b(3) this] obtain c where
        "wal_slice w' l' = Some (c @ [CHR 0x0A])" "sha c = lo_raw_sha256 l'" by (auto simp: located_def)
      ultimately show ?thesis
        using s(2) l(2) Existing read_capture_slice [of w' _ l' c sha]
        by (auto simp: resolve_duplicate_def ack_def)
    next
      case (InBatch p)
      with d have p: "p \<in> set (cl_pending ?cl)" "cr_capture_id (batch ! p) = cr_capture_id (batch ! i)" by auto
      from pending_locator [OF b(1) p(1)] obtain lp where lp: "(p, lp) \<in> set ps" by blast
      from class_ok_disjoint [OF cls] b(1) lp have "map_of ps p = Some lp" by simp
      moreover from b(2) lp have "lo_raw_sha256 lp = cr_sha256 (batch ! p)" by (auto simp: list_all_iff written_def)
      ultimately show ?thesis
        using s(2) l(2) InBatch readable [OF lp] p sha class_ok_members(1) [OF cls p(1)]
        by (auto simp: resolve_duplicate_def ack_def)
    qed
  qed
qed

section \<open>The writer's commands\<close>

text \<open>
  The store as its clients see it: commands run one after the other by the single writer.  Any
  provider that keeps an invariant under every command and never changes a readable value keeps
  both along every run.
\<close>

locale durable_store =
  fixes inv :: "'s \<Rightarrow> bool" and valid :: "'c \<Rightarrow> bool"
    and exec :: "'c \<Rightarrow> 's \<Rightarrow> 'e + 's"
    and lookup :: "'k \<Rightarrow> 's \<Rightarrow> 'r + 'v"
  assumes progress: "valid c \<Longrightarrow> inv s \<Longrightarrow> \<exists>t. exec c s = Inr t \<and> inv t"
    and stable: "valid c \<Longrightarrow> inv s \<Longrightarrow> exec c s = Inr t \<Longrightarrow> lookup k s = Inr v \<Longrightarrow> lookup k t = Inr v"
begin

lemma run_progress: "list_all valid cs \<Longrightarrow> inv s \<Longrightarrow> \<exists>t. try_fold exec cs s = Inr t \<and> inv t"
proof (induction cs arbitrary: s)
  case (Cons c cs)
  with progress [of c s] show ?case by fastforce
qed simp

lemma run_stable:
  "list_all valid cs \<Longrightarrow> inv s \<Longrightarrow> try_fold exec cs s = Inr t \<Longrightarrow> lookup k s = Inr v \<Longrightarrow> lookup k t = Inr v"
proof (induction cs arbitrary: s)
  case (Cons c cs)
  then obtain u where u: "exec c s = Inr u" "try_fold exec cs u = Inr t" by (auto simp: res_simps)
  from Cons.prems progress [of c s] u(1) have "inv u" by auto
  with Cons u stable [of c s u] show ?case by auto
qed simp

end

datatype wal_command =
    CommitBatch string bool "capture_record list"
  | FlushSegment string

definition exec_command ::
  "(string \<Rightarrow> string) \<Rightarrow> store_config \<Rightarrow> wal_command \<Rightarrow> wal \<Rightarrow> wal_error + wal" where
  "exec_command sha cfg c w =
     (case c of
        CommitBatch now aged batch \<Rightarrow> rbind (commit_batch_inner sha cfg now aged batch w) (\<lambda>r. Inr (fst r))
      | FlushSegment now \<Rightarrow> rbind (seal_and_rotate sha now w) (\<lambda>r. Inr (fst r)))"

definition valid_command :: "(string \<Rightarrow> string) \<Rightarrow> wal_command \<Rightarrow> bool" where
  "valid_command sha c = (case c of CommitBatch now aged batch \<Rightarrow> batch \<noteq> [] \<and> hashed sha batch | FlushSegment now \<Rightarrow> True)"

lemma seal_and_rotate_ok:
  assumes inv: "wal_ok sha w"
  shows "\<exists>r. seal_and_rotate sha now w = Inr r \<and> wal_ok sha (fst r) \<and> log_le w (fst r)
      \<and> w_captures (fst r) = w_captures w"
proof (cases "sm_records (ac_metadata (w_active w)) = 0")
  case True
  with inv show ?thesis by (simp add: seal_and_rotate_def)
next
  case False
  with wal_ok_rotate [OF inv, of now] obtain c where
    r: "rotate_active sha now w = Inr (rotated_wal sha now c w)" "wal_ok sha (rotated_wal sha now c w)"
      "log_le w (rotated_wal sha now c w)" by blast
  from r(1) obtain q where "seal_active sha now w = Inr q"
    "create_active_segment now (fst q) = Inr (rotated_wal sha now c w)"
    by (auto simp: rotate_active_def res_simps)
  with r False show ?thesis by (simp add: seal_and_rotate_def)
qed

interpretation wal: durable_store "wal_ok sha" "valid_command sha" "exec_command sha cfg" "read_capture sha"
proof unfold_locales
  fix c w assume v: "valid_command sha c" and inv: "wal_ok sha w"
  show "\<exists>t. exec_command sha cfg c w = Inr t \<and> wal_ok sha t"
  proof (cases c)
    case (CommitBatch now aged batch)
    with v inv batch_runs [of sha w batch cfg now aged] show ?thesis
      by (auto simp: valid_command_def exec_command_def batch_run_def Let_def)
  next
    case (FlushSegment now)
    with seal_and_rotate_ok [OF inv, of now] show ?thesis by (auto simp: exec_command_def)
  qed
next
  fix c w t k x
  assume v: "valid_command sha c" and inv: "wal_ok sha w" and e: "exec_command sha cfg c w = Inr t"
    and r: "read_capture sha k w = Inr x"
  show "read_capture sha k t = Inr x"
  proof (cases c)
    case (CommitBatch now aged batch)
    with v e obtain rs where "commit_batch_inner sha cfg now aged batch w = Inr (t, rs)"
      "hashed sha batch" "batch \<noteq> []"
      by (auto simp: valid_command_def exec_command_def res_simps)
    with commit_batch_run [OF inv, of batch cfg now aged t rs] batch_reads_stable [OF _ inv r]
    show ?thesis by blast
  next
    case (FlushSegment now)
    with seal_and_rotate_ok [OF inv, of now] e have t: "log_le w t" "w_captures t = w_captures w"
      by (auto simp: exec_command_def)
    from r read_capture_ok [OF inv] obtain l where l: "tget (w_captures w) k = Some l"
      "wal_slice w l = Some (x @ [CHR 0x0A])" "sha x = lo_raw_sha256 l" by blast
    with t slice_mono [OF t(1) l(2)] show ?thesis by (intro read_capture_slice [of t k l]) auto
  qed
qed

section \<open>Properties\<close>

definition example_record :: "string \<Rightarrow> string \<Rightarrow> capture_record" where
  "example_record cid body =
     \<lparr>cr_capture_id = cid, cr_canonical = body, cr_sha256 = body, cr_legacy_raw_sha256 = None,
      cr_received_at = None, cr_model = None,
      cr_wire_evidence = \<lparr>we_turn_scoped = False, we_http_success = False, we_identity_conflict = False\<rparr>\<rparr>"

definition example_sha :: "string \<Rightarrow> string" where
  "example_sha s = s"

definition example_config :: store_config where
  "example_config = \<lparr>segment_max_bytes = 8, queue_items = 4, batch_records = 4, batch_bytes = 1024\<rparr>"

definition example_batch :: "capture_record list" where
  "example_batch =
     [example_record ''cap-a'' ''one'', example_record ''cap-b'' ''two'',
      example_record ''cap-a'' ''one'', example_record ''cap-b'' ''other'']"

lemma example_batch_ok: "hashed example_sha example_batch" "example_batch \<noteq> []" "no_alias example_batch"
  by (simp_all add: example_batch_def example_record_def hashed_def no_alias_def example_sha_def)

lemma commit_refines:
  assumes "wal_ok sha w" "hashed sha batch" "batch \<noteq> []" "no_alias batch"
    and "commit_batch_inner sha cfg now aged batch w = Inr (w', rs)"
  shows "spec_run batch (abs_store w) = (abs_store w', map response rs)"
proof -
  let ?cl = "classify (w_captures w) batch"
  from commit_batch_run [OF assms(1-3,5)] obtain ps ds where
    b: "batch_run sha cfg now aged batch w ps ds w'" "rs = map (batch_result ps ds) [0..<length batch]" by blast
  then have ps: "map fst ps = cl_pending ?cl" "list_all (written batch w') ps"
    "w_captures w' = index_captures (map snd ps) (w_captures w)" "ds = map (resolve_duplicate ps) (cl_duplicates ?cl)"
    by (simp_all add: batch_run_def Let_def)
  from assms(1) have "tsorted (w_captures w)" by (simp add: wal_ok_def ledger_ok_def)
  note store = abs_store_batch [OF class_ok_classify ps(1,2) this ps(3)]
  from classify_spec [OF assms(4), of "length batch" "w_captures w"] store ps(1,4)
  show ?thesis
    by (simp add: classify_upto_length abs_store_def b(2) batch_result_outcome comp_def)
qed

lemma example_commit:
  "\<exists>w' rs. commit_batch_inner example_sha example_config ''t1'' False example_batch (empty_wal ''t0'') = Inr (w', rs)
      \<and> map response rs = [Accepted, Accepted, Duplicate, Conflicted]"
proof -
  from batch_runs [OF wal_ok_empty example_batch_ok(1,2)] obtain w' rs where
    r: "commit_batch_inner example_sha example_config ''t1'' False example_batch (empty_wal ''t0'') = Inr (w', rs)"
    unfolding batch_run_def Let_def by blast
  note s = commit_refines [OF wal_ok_empty example_batch_ok r]
  have "snd (spec_run example_batch (abs_store (empty_wal ''t0''))) = [Accepted, Accepted, Duplicate, Conflicted]"
    by (simp add: example_batch_def example_record_def abs_store_def empty_wal_def blank_wal_def
        spec_submit_def matches_persisted_sha256_def)
  with r s show ?thesis by auto
qed

text \<open>
  C2: A group commit of hashed records never fails: it answers every record, and the store it
  leaves satisfies the invariant again (every located Capture reads back bytes with its hash, the
  locators tile every segment, one segment is open, the counters are those of the tables).
\<close>

theorem commit_preserves_wal:
  assumes "wal_ok sha w" "hashed sha batch" "batch \<noteq> []"
  shows "\<exists>w' rs. commit_batch_inner sha cfg now aged batch w = Inr (w', rs) \<and> wal_ok sha w'
      \<and> length rs = length batch"
  using batch_runs [OF assms, of cfg now aged] by (auto simp: batch_run_def Let_def)

lemma commit_preserves_wal_witness:
  "\<exists>w' rs. commit_batch_inner example_sha example_config ''t1'' False example_batch (empty_wal ''t0'') = Inr (w', rs)
      \<and> wal_ok example_sha w' \<and> length rs = length example_batch"
  by (rule commit_preserves_wal [OF wal_ok_empty example_batch_ok(1,2)])

text \<open>
  C1: A group commit refines submitting its records one at a time to the abstract store (a map
  from Capture ids to payload hashes): the first record of an id is accepted, a record whose
  hash (or legacy hash) is the stored one is a duplicate, every other one conflicts and changes
  nothing; so answers do not depend on how the writer groups records into batches.
\<close>

theorem commit_refines_submissions:
  assumes "wal_ok sha w" "hashed sha batch" "batch \<noteq> []" "no_alias batch"
    and "commit_batch_inner sha cfg now aged batch w = Inr (w', rs)"
  shows "spec_run batch (abs_store w) = (abs_store w', map response rs)"
  using assms by (rule commit_refines)

lemma commit_refines_submissions_witness:
  "\<exists>w' rs. commit_batch_inner example_sha example_config ''t1'' False example_batch (empty_wal ''t0'') = Inr (w', rs)
      \<and> spec_run example_batch (abs_store (empty_wal ''t0'')) = (abs_store w', map response rs)
      \<and> map response rs = [Accepted, Accepted, Duplicate, Conflicted]"
proof -
  obtain w' rs where r: "commit_batch_inner example_sha example_config ''t1'' False example_batch (empty_wal ''t0'') = Inr (w', rs)"
      "map response rs = [Accepted, Accepted, Duplicate, Conflicted]"
    using example_commit by (elim exE conjE)
  from commit_refines_submissions [OF wal_ok_empty example_batch_ok r(1)] r show ?thesis by (intro exI conjI)
qed

text \<open>
  C4: An acknowledged Capture is readable: after the commit that answered it the store returns
  bytes with the acknowledged hash, and for a newly accepted record exactly its canonical bytes.
\<close>

theorem acknowledged_readable:
  assumes "wal_ok sha w" "hashed sha batch" "batch \<noteq> []"
    and "commit_batch_inner sha cfg now aged batch w = Inr (w', rs)"
    and "i < length batch" "rs ! i = Inr a"
  shows "\<exists>c. read_capture sha (cr_capture_id (batch ! i)) w' = Inr c \<and> sha c = ack_raw_sha256 a
      \<and> (\<not> ack_duplicate a \<longrightarrow> c = cr_canonical (batch ! i))"
proof -
  from commit_batch_run [OF assms(1-4)] obtain ps ds where
    b: "batch_run sha cfg now aged batch w ps ds w'" "rs = map (batch_result ps ds) [0..<length batch]" by blast
  with assms(5,6) have "batch_result ps ds i = Inr a" by simp
  from batch_ack_readable [OF b(1) assms(1,2,5) this] show ?thesis .
qed

lemma acknowledged_readable_witness:
  "\<exists>w' rs a c. commit_batch_inner example_sha example_config ''t1'' False example_batch (empty_wal ''t0'') = Inr (w', rs)
      \<and> rs ! 1 = Inr a \<and> read_capture example_sha ''cap-b'' w' = Inr c"
proof -
  obtain w' rs where
    r: "commit_batch_inner example_sha example_config ''t1'' False example_batch (empty_wal ''t0'') = Inr (w', rs)"
      "map response rs = [Accepted, Accepted, Duplicate, Conflicted]"
    using example_commit by (elim exE conjE)
  from r(2) have "response (rs ! 1) = Accepted" by auto
  then obtain a where a: "rs ! 1 = Inr a" by (auto simp: response_def split: sum.splits)
  have i: "1 < length example_batch" "cr_capture_id (example_batch ! 1) = ''cap-b''"
    by (simp_all add: example_batch_def example_record_def)
  from acknowledged_readable [OF wal_ok_empty example_batch_ok(1,2) r(1) i(1) a] r(1) a i(2)
  show ?thesis by metis
qed

text \<open>
  From the empty store, every sequence of commits and flushes runs to its end, and what was
  readable after a prefix of it reads the same at the end: later batches, rotations and seals
  never lose or change a committed Capture.
\<close>

theorem runs_keep_captures:
  assumes "list_all (valid_command sha) (cs @ ds)"
  shows "\<exists>s t. try_fold (exec_command sha cfg) cs (empty_wal now) = Inr s
      \<and> try_fold (exec_command sha cfg) (cs @ ds) (empty_wal now) = Inr t
      \<and> (\<forall>k c. read_capture sha k s = Inr c \<longrightarrow> read_capture sha k t = Inr c)"
proof -
  from assms have v: "list_all (valid_command sha) cs" "list_all (valid_command sha) ds" by simp_all
  from wal.run_progress [OF v(1) wal_ok_empty, of cfg now] obtain s where
    s: "try_fold (exec_command sha cfg) cs (empty_wal now) = Inr s" "wal_ok sha s" by blast
  from wal.run_progress [OF v(2) s(2), of cfg] obtain t where
    t: "try_fold (exec_command sha cfg) ds s = Inr t" by blast
  from wal.run_stable [OF v(2) s(2) t] s(1) t show ?thesis by (auto simp: try_fold_append)
qed

lemma runs_keep_captures_witness:
  "\<exists>s t. try_fold (exec_command example_sha example_config) [CommitBatch ''t1'' False example_batch] (empty_wal ''t0'') = Inr s
      \<and> try_fold (exec_command example_sha example_config)
          ([CommitBatch ''t1'' False example_batch] @ [FlushSegment ''t2'', CommitBatch ''t3'' True example_batch])
          (empty_wal ''t0'') = Inr t
      \<and> (\<forall>k c. read_capture example_sha k s = Inr c \<longrightarrow> read_capture example_sha k t = Inr c)"
  by (rule runs_keep_captures) (simp add: valid_command_def example_batch_ok)

text \<open>
  The ledger conserves attempts: a commit records exactly one attempt per submitted record,
  the counters it leaves are those a rebuild from the tables computes (up to saturation), every
  attempt has exactly one of the four states, and there is exactly one accepting attempt per
  indexed Capture.
\<close>

theorem attempts_conserved:
  assumes "wal_ok sha w" "hashed sha batch" "batch \<noteq> []"
    and "commit_batch_inner sha cfg now aged batch w = Inr (w', rs)"
  shows "length (w_attempts w') = length (w_attempts w) + length batch
    \<and> read_counters w' = Inr (sat_counters (counters_from_tables (w_captures w') (w_attempts w') (w_segments w')))
    \<and> tcount accepted_state (w_attempts w') = length (w_captures w')
    \<and> tcount accepted_state (w_attempts w') + tcount (\<lambda>a. at_state a = ''duplicate'') (w_attempts w')
        + tcount (\<lambda>a. at_state a = ''conflict'') (w_attempts w') + tcount rejected_state (w_attempts w')
      = length (w_attempts w')"
proof -
  from commit_batch_run [OF assms] obtain ps ds where b: "batch_run sha cfg now aged batch w ps ds w'" by blast
  then have w': "wal_ok sha w'" "map fst ps = cl_pending (classify (w_captures w) batch)"
    "length (w_attempts w') = length (w_attempts w)
      + length (ledger_rows now batch ps (map (resolve_duplicate ps) (cl_duplicates (classify (w_captures w) batch)))
          (cl_conflicts (classify (w_captures w) batch)))"
    by (simp_all add: batch_run_def Let_def)
  have four: "tcount accepted_state t + tcount (\<lambda>a. at_state a = ''duplicate'') t
      + tcount (\<lambda>a. at_state a = ''conflict'') t + tcount rejected_state t = length t" for t :: "(nat, attempt) table"
    by (induction t) (auto simp: tcount_def accepted_state_def rejected_state_def)
  from w' length_ledger_rows [OF class_ok_classify w'(2)] four [of "w_attempts w'"] show ?thesis
    unfolding wal_ok_def ledger_ok_def counted_def read_counters_def by (intro conjI) simp_all
qed

lemma attempts_conserved_witness:
  "\<exists>w' rs. commit_batch_inner example_sha example_config ''t1'' False example_batch (empty_wal ''t0'') = Inr (w', rs)
      \<and> length (w_attempts w') = 4 \<and> tcount accepted_state (w_attempts w') = length (w_captures w')"
proof -
  from example_commit obtain w' rs where
    r: "commit_batch_inner example_sha example_config ''t1'' False example_batch (empty_wal ''t0'') = Inr (w', rs)" by blast
  have "length (w_attempts (empty_wal ''t0'')) = 0" "length example_batch = 4"
    by (simp_all add: empty_wal_def blank_wal_def example_batch_def)
  with attempts_conserved [OF wal_ok_empty example_batch_ok(1,2) r] r show ?thesis by auto
qed

end
