(* ===== verification/WalRecovery.thy ===== *)
theory WalRecovery
  imports WalTheorems Json
begin

text \<open>
  Opening a Capture store after a crash (\<open>store.rs\<close>: \<open>initialize_database\<close>,
  \<open>recover_segments\<close>, \<open>open_active_segment\<close>) and auditing it (\<open>audit_database\<close>).  The
  disk is what survives: the segment files and the ledger's tables.  Parameters: \<open>validate\<close>, the
  reader of a stored line (\<open>validate_stored_capture\<close> below, over the JSON parser and the
  structural validator), and \<open>integrity\<close>, the answer of the database's own check.
\<close>

section \<open>Stored lines\<close>

definition extract_body :: "json option \<Rightarrow> json option" where
  "extract_body v =
     (case v of
        None \<Rightarrow> None
      | Some v \<Rightarrow>
          if get_str v ''kind'' \<in> {Some ''json'', Some ''text'', Some ''binary'', Some ''sse''}
          then jget v ''value'' else Some v)"

definition first_timestamp :: "json \<Rightarrow> string option" where
  "first_timestamp v =
     or_else (non_blank (get_str v ''receivedAt''))
       (or_else (non_blank (get_str v ''finishedAt'')) (non_blank (get_str v ''startedAt'')))"

definition body_model :: "json \<Rightarrow> string option" where
  "body_model v =
     Option.bind (Option.bind (Option.bind (extract_body (jget v ''requestBody'')) as_object)
       (\<lambda>body. tget body ''model'')) as_str"

definition validate_stored_capture ::
  "(string \<Rightarrow> string) \<Rightarrow> (string \<Rightarrow> json option) \<Rightarrow> (string \<Rightarrow> nat \<Rightarrow> wire_evidence option) \<Rightarrow> string
     \<Rightarrow> wal_error + capture_record" where
  "validate_stored_capture sha parse structural raw =
     rbind (ok_or (InvalidStored raw) (parse raw)) (\<lambda>v.
       case structural raw (sat (length raw + 1024 * 1024)) of
         None \<Rightarrow> Inl (InvalidStored raw)
       | Some evidence \<Rightarrow> rbind (ok_or (InvalidStored raw) (get_str v ''captureId'')) (\<lambda>cid.
         Inr \<lparr>cr_capture_id = cid, cr_canonical = raw, cr_sha256 = sha raw, cr_legacy_raw_sha256 = None,
              cr_received_at = first_timestamp v, cr_model = body_model v,
              cr_wire_evidence = evidence\<rparr>))"

section \<open>The disk\<close>

record disk =
  d_files :: "(string, string) table"
  d_captures :: "(string, locator) table"
  d_attempts :: "(nat, attempt) table"
  d_segments :: "(nat, segment_metadata) table"
  d_counters :: "ledger_counters option"
  d_schema :: "string option"

definition ledger_schema_version :: string where
  "ledger_schema_version = ''chiptrace.ledger.v1''"

text \<open>What a crash of the writer leaves behind.\<close>

definition disk_of :: "wal \<Rightarrow> disk" where
  "disk_of w =
     \<lparr>d_files = w_files w, d_captures = w_captures w, d_attempts = w_attempts w,
      d_segments = w_segments w, d_counters = w_counters w, d_schema = Some ledger_schema_version\<rparr>"

definition initialize_database :: "disk \<Rightarrow> wal_error + disk" where
  "initialize_database d =
     rbind (case d_schema d of
              Some v \<Rightarrow> if v \<noteq> ledger_schema_version then Inl (UnsupportedSchema v) else Inr d
            | None \<Rightarrow> Inr (d\<lparr>d_schema := Some ledger_schema_version\<rparr>)) (\<lambda>d.
       Inr (if d_counters d = None
            then d\<lparr>d_counters := Some (counters_from_tables (d_captures d) (d_attempts d) (d_segments d))\<rparr>
            else d))"

section \<open>Recovery\<close>

definition segment_id_from_path :: "string \<Rightarrow> wal_error + nat" where
  "segment_id_from_path path =
     (let name = file_name path
      in if prefix ''segment-'' name
         then map_sum id unat (ok_or (InvalidFilename name)
                (parse_u64 (takeWhile (\<lambda>c. c \<noteq> CHR ''.'') (drop (length ''segment-'') name))))
         else Inl (InvalidFilename name))"

definition is_segment_file :: "string \<Rightarrow> bool" where
  "is_segment_file path \<longleftrightarrow>
     dir_name path = ''segments/'' \<and>
     (suffix open_suffix (file_name path) \<or> suffix sealed_suffix (file_name path))"

definition strip_cr :: "string \<Rightarrow> string" where
  "strip_cr s = (if s \<noteq> [] \<and> last s = CHR 0x0D then butlast s else s)"

text \<open>
  One pass over a segment's bytes: the locator of every complete line and the offset after the
  last one.  An incomplete last line ends the pass; it is an error in a sealed segment.
\<close>

function scan_lines ::
  "(string \<Rightarrow> wal_error + capture_record) \<Rightarrow> bool \<Rightarrow> string \<Rightarrow> nat \<Rightarrow> nat \<Rightarrow> string
     \<Rightarrow> wal_error + (locator list \<times> nat)" where
  "scan_lines validate is_open path sid offset bytes =
     (if bytes = [] then Inr ([], offset)
      else let line = takeWhile (\<lambda>c. c \<noteq> CHR 0x0A) bytes
           in if length line = length bytes
              then (if is_open then Inr ([], offset) else Inl (SealedTail path))
              else rbind (validate (strip_cr line)) (\<lambda>r.
                let l = \<lparr>lo_capture_id = cr_capture_id r, lo_raw_sha256 = cr_sha256 r,
                         lo_segment_id = sid, lo_offset = offset, lo_length = length line + 1,
                         lo_received_at = cr_received_at r, lo_model = cr_model r\<rparr>
                in rbind (scan_lines validate is_open path sid (offset + lo_length l) (drop (lo_length l) bytes))
                     (\<lambda>rest. Inr (l # fst rest, snd rest))))"
  by pat_completeness auto
termination
  by (relation "measure (\<lambda>(_, _, _, _, _, bytes). length bytes)") auto

declare scan_lines.simps [simp del]

record recovery =
  rc_disk :: disk
  rc_next_attempt_id :: nat
  rc_records :: nat
  rc_changed :: bool

definition recover_row :: "string \<Rightarrow> locator \<Rightarrow> recovery \<Rightarrow> wal_error + recovery" where
  "recover_row now l rc =
     (let d = rc_disk rc
      in case tget (d_captures d) (lo_capture_id l) of
           Some existing \<Rightarrow>
             if lo_raw_sha256 existing \<noteq> lo_raw_sha256 l then Inl (RecoveryConflict (lo_capture_id l)) else Inr rc
         | None \<Rightarrow>
             let n = rc_next_attempt_id rc;
                 a = \<lparr>at_attempt_id = n, at_capture_id = Some (lo_capture_id l),
                      at_raw_sha256 = Some (lo_raw_sha256 l), at_state = ''recovered'',
                      at_reason = Some ''wal_without_ledger_commit'',
                      at_received_at = (case lo_received_at l of Some t \<Rightarrow> t | None \<Rightarrow> now),
                      at_committed_at = Some now, at_segment_id = Some (lo_segment_id l)\<rparr>
             in Inr (rc\<lparr>rc_disk := d\<lparr>d_captures := tput (lo_capture_id l) l (d_captures d),
                                     d_attempts := tput n a (d_attempts d)\<rparr>,
                        rc_next_attempt_id := n + 1, rc_records := rc_records rc + 1, rc_changed := True\<rparr>))"

definition recover_path ::
  "(string \<Rightarrow> string) \<Rightarrow> (string \<Rightarrow> wal_error + capture_record) \<Rightarrow> string \<Rightarrow> string
     \<Rightarrow> recovery \<Rightarrow> wal_error + recovery" where
  "recover_path sha validate now path rc =
     rbind (segment_id_from_path path) (\<lambda>sid.
     rbind (ok_or (FileMissing path) (tget (d_files (rc_disk rc)) path)) (\<lambda>bytes.
       let is_open = suffix open_suffix (file_name path);
           existing = tget (d_segments (rc_disk rc)) sid
       in if \<not> is_open \<and> (case existing of None \<Rightarrow> False
                | Some m \<Rightarrow> sm_state m = ''sealed'' \<and> sm_path m = path \<and> sm_bytes m = length bytes
                           \<and> sm_sha256 m \<noteq> None)
          then Inr rc
          else rbind (scan_lines validate is_open path sid 0 bytes) (\<lambda>scan.
            let rows = fst scan; offset = snd scan;
                file = (if is_open then take offset bytes else bytes)
            in if \<not> is_open \<and> offset \<noteq> length bytes then Inl (LocatorCoverage path)
            else
              let m = \<lparr>sm_segment_id = sid, sm_path = path,
                       sm_state = (if is_open then ''open'' else ''sealed''),
                       sm_bytes = offset, sm_records = length rows,
                       sm_created_at = (case existing of None \<Rightarrow> now | Some e \<Rightarrow> sm_created_at e),
                       sm_sealed_at = (if is_open then None
                         else or_else (Option.bind existing sm_sealed_at) (Some now)),
                       sm_sha256 = (if is_open then None else Some (sha file))\<rparr>
              in rbind (try_fold (recover_row now) rows
                   (rc\<lparr>rc_disk := (rc_disk rc)\<lparr>d_files := tput path file (d_files (rc_disk rc))\<rparr>\<rparr>)) (\<lambda>rc.
                   Inr (rc\<lparr>rc_disk := (rc_disk rc)\<lparr>d_segments := tput sid m (d_segments (rc_disk rc))\<rparr>,
                           rc_changed := (rc_changed rc \<or> existing \<noteq> Some m)\<rparr>)))))"

definition recover_segments ::
  "(string \<Rightarrow> string) \<Rightarrow> (string \<Rightarrow> wal_error + capture_record) \<Rightarrow> string \<Rightarrow> disk
     \<Rightarrow> wal_error + (disk \<times> nat)" where
  "recover_segments sha validate now d =
     rbind (try_fold (recover_path sha validate now) (filter is_segment_file (map fst (d_files d)))
       \<lparr>rc_disk = d, rc_next_attempt_id = next_key (d_attempts d), rc_records = 0, rc_changed = False\<rparr>) (\<lambda>rc.
       let d = rc_disk rc
       in Inr (if rc_changed rc
               then d\<lparr>d_counters := Some (counters_from_tables (d_captures d) (d_attempts d) (d_segments d))\<rparr>
               else d, rc_records rc))"

definition wal_of :: "disk \<Rightarrow> active_segment \<Rightarrow> wal" where
  "wal_of d active =
     \<lparr>w_files = d_files d, w_captures = d_captures d, w_attempts = d_attempts d, w_segments = d_segments d,
      w_counters = d_counters d, w_active = active, w_next_attempt_id = next_key (d_attempts d)\<rparr>"

definition find_open :: "(nat, segment_metadata) table \<Rightarrow> wal_error + segment_metadata option" where
  "find_open segments =
     try_fold (\<lambda>r found. if sm_state (snd r) = ''open''
                         then (if found \<noteq> None then Inl MultipleOpen else Inr (Some (snd r)))
                         else Inr found) segments None"

definition open_active_segment :: "string \<Rightarrow> disk \<Rightarrow> wal_error + wal" where
  "open_active_segment now d =
     rbind (find_open (d_segments d)) (\<lambda>found.
       case found of
         Some m \<Rightarrow>
           rbind (ok_or (FileMissing (sm_path m)) (tget (d_files d) (sm_path m))) (\<lambda>bytes.
             Inr (wal_of d \<lparr>ac_metadata = m, ac_path = sm_path m, ac_digest = bytes\<rparr>))
       | None \<Rightarrow> create_active_segment now
           (wal_of d (w_active blank_wal)))"

definition open_writer ::
  "(string \<Rightarrow> string) \<Rightarrow> (string \<Rightarrow> wal_error + capture_record) \<Rightarrow> string \<Rightarrow> disk
     \<Rightarrow> wal_error + (wal \<times> nat)" where
  "open_writer sha validate now d =
     rbind (initialize_database d) (\<lambda>d.
     rbind (recover_segments sha validate now d) (\<lambda>r.
     rbind (open_active_segment now (fst r)) (\<lambda>w. Inr (w, snd r))))"

section \<open>Audit\<close>

datatype audit_failure =
    MissingSegment nat
  | SegmentSha nat
  | LocatorGap nat
  | LocatorNewline string
  | PayloadSha string
  | LocatorsShort nat
  | ReferenceMissingSegments
  | WithoutDurableAttempt nat

record audit_report =
  ar_ok :: bool
  ar_captures :: nat
  ar_attempts :: nat
  ar_sealed :: nat
  ar_failures :: "audit_failure list"
  ar_without_attempt :: nat
  ar_conservation :: bool

definition audit_locator ::
  "(string \<Rightarrow> string) \<Rightarrow> bool \<Rightarrow> nat \<Rightarrow> string \<Rightarrow> locator \<Rightarrow> nat \<times> audit_failure list
     \<Rightarrow> wal_error + (nat \<times> audit_failure list)" where
  "audit_locator sha verify g file l st =
     (let gap = (if lo_offset l \<noteq> fst st then [LocatorGap g] else [])
      in rbind (if \<not> verify then Inr []
                else rbind (ok_or (ShortRead (lo_capture_id l)) (read_exact file (lo_offset l) (lo_length l))) (\<lambda>bytes.
                  if bytes = [] \<or> last bytes \<noteq> CHR 0x0A then Inr [LocatorNewline (lo_capture_id l)]
                  else if sha (butlast bytes) \<noteq> lo_raw_sha256 l then Inr [PayloadSha (lo_capture_id l)]
                  else Inr [])) (\<lambda>payload.
           Inr (sat (fst st + lo_length l), snd st @ gap @ payload)))"

text \<open>The state of the audit: failures so far, sealed segments, locators of segments not yet seen.\<close>

definition audit_segment ::
  "(string \<Rightarrow> string) \<Rightarrow> bool \<Rightarrow> disk \<Rightarrow> nat \<times> segment_metadata
     \<Rightarrow> audit_failure list \<times> nat \<times> locator list \<Rightarrow> wal_error + (audit_failure list \<times> nat \<times> locator list)" where
  "audit_segment sha verify d r st =
     (let m = snd r; g = sm_segment_id m
      in case st of (failures, sealed, rest) \<Rightarrow>
        (case tget (d_files d) (sm_path m) of
           None \<Rightarrow> Inr (failures @ [MissingSegment g], sealed, rest)
         | Some file \<Rightarrow>
             let digest = (if sm_state m = ''sealed'' \<and> sm_sha256 m \<noteq> Some (sha file) then [SegmentSha g] else []);
                 locators = sort_key lo_offset (filter (\<lambda>l. lo_segment_id l = g) rest)
             in rbind (try_fold (audit_locator sha verify g file) locators (0, [])) (\<lambda>e.
                  Inr (failures @ digest @ snd e @ (if fst e \<noteq> sm_bytes m then [LocatorsShort g] else []),
                       sealed + (if sm_state m = ''sealed'' then 1 else 0),
                       filter (\<lambda>l. lo_segment_id l \<noteq> g) rest))))"

definition without_durable_attempt :: "disk \<Rightarrow> nat" where
  "without_durable_attempt d =
     length (filter (\<lambda>cid. \<not> list_ex (\<lambda>r. accepted_state (snd r) \<and> at_capture_id (snd r) = Some cid) (d_attempts d))
       (remdups (map (\<lambda>r. lo_capture_id (snd r)) (d_captures d))))"

definition audit_database ::
  "(string \<Rightarrow> string) \<Rightarrow> bool \<Rightarrow> bool \<Rightarrow> disk \<Rightarrow> wal_error + audit_report" where
  "audit_database sha integrity verify d =
     rbind (try_fold (audit_segment sha verify d) (d_segments d) ([], 0, map snd (d_captures d))) (\<lambda>st.
       case st of (failures, sealed, rest) \<Rightarrow>
         let without = without_durable_attempt d;
             conservation = (length (d_captures d) \<le> length (d_attempts d) \<and> without = 0);
             failures = failures @ (if rest \<noteq> [] then [ReferenceMissingSegments] else [])
                                 @ (if \<not> conservation then [WithoutDurableAttempt without] else [])
         in Inr \<lparr>ar_ok = (integrity \<and> failures = []), ar_captures = length (d_captures d),
                 ar_attempts = length (d_attempts d), ar_sealed = sealed, ar_failures = failures,
                 ar_without_attempt = without, ar_conservation = conservation\<rparr>)"

section \<open>A consistent store passes its audit\<close>

definition small_segments :: "wal \<Rightarrow> bool" where
  "small_segments w \<longleftrightarrow> list_all (\<lambda>r. sm_bytes (snd r) < 2 ^ 64) (w_segments w)"

lemma contiguous_le: "contiguous s ls e \<Longrightarrow> s \<le> e"
  by (induction ls arbitrary: s) (auto, fastforce)

lemma audit_locators:
  assumes "contiguous s ls e" "e < 2 ^ 64"
    and "\<forall>l \<in> set ls. \<exists>c. read_exact file (lo_offset l) (lo_length l) = Some (c @ [CHR 0x0A]) \<and> sha c = lo_raw_sha256 l"
  shows "try_fold (audit_locator sha verify g file) ls (s, fs) = Inr (e, fs)"
  using assms
proof (induction ls arbitrary: s)
  case (Cons l ls)
  from Cons.prems(1) have l: "lo_offset l = s" "contiguous (s + lo_length l) ls e" by auto
  with contiguous_le Cons.prems(2) have "s + lo_length l < 2 ^ 64" by fastforce
  then have "sat (s + lo_length l) = s + lo_length l" by (simp add: sat_def)
  with Cons.prems(3) l(1) have "audit_locator sha verify g file l (s, fs) = Inr (s + lo_length l, fs)"
    by (auto simp: audit_locator_def Let_def)
  with Cons l(2) show ?case by simp
qed simp

lemma audit_segment_ok:
  assumes ok: "wal_ok sha w" and sm: "small_segments w" and r: "(g, m) \<in> set (w_segments w)"
    and rest: "filter (\<lambda>l. lo_segment_id l = g) rest = filter (\<lambda>l. lo_segment_id l = g) (map snd (w_captures w))"
  shows "audit_segment sha verify (disk_of w) (g, m) ([], n, rest)
    = Inr ([], n + (if sm_state m = ''sealed'' then 1 else 0), filter (\<lambda>l. lo_segment_id l \<noteq> g) rest)"
proof -
  let ?M = "mset (map snd (w_captures w))"
  let ?ls = "sort_key lo_offset (filter (\<lambda>l. lo_segment_id l = g) (map snd (w_captures w)))"
  from ok have lg: "log_ok sha w ?M" by (simp add: wal_ok_def)
  then have "tsorted (w_segments w)" by (simp add: log_ok_def)
  with r have gm: "tget (w_segments w) g = Some m" by (simp add: tsorted_distinct)
  with ok have "tget (cur w) g = Some m" by (auto simp: wal_ok_def)
  with lg have so: "seg_ok sha w ?M g m" by (auto simp: log_ok_def)
  then obtain b where f: "tget (w_files w) (sm_path m) = Some b" "length b = sm_bytes m"
    by (auto simp: seg_ok_def)
  from so have ct: "contiguous 0 ?ls (sm_bytes m)" by (intro tiled_sort) (simp add: seg_ok_def)
  have read: "\<exists>c. read_exact b (lo_offset l) (lo_length l) = Some (c @ [CHR 0x0A]) \<and> sha c = lo_raw_sha256 l"
    if "l \<in> set ?ls" for l
  proof -
    from that have l: "lo_segment_id l = g" "l \<in># ?M" by auto
    with lg have "located sha w l" unfolding log_ok_def by blast
    with l(1) gm f(1) show ?thesis by (auto simp: located_def wal_slice_def seg_file_def)
  qed
  from sm r have "sm_bytes m < 2 ^ 64" by (auto simp: small_segments_def list_all_iff)
  from audit_locators [OF ct this, of b sha verify g "[]"] read
  have "try_fold (audit_locator sha verify g b) ?ls (0, []) = Inr (sm_bytes m, [])" by blast
  moreover from so have "sm_segment_id m = g" "sm_state m = ''sealed'' \<Longrightarrow> sm_sha256 m = Some (sha b)"
    using f(1) by (auto simp: seg_ok_def)
  ultimately show ?thesis
    using f(1) by (simp add: audit_segment_def Let_def disk_of_def rest)
qed

lemma audit_segments_ok:
  assumes ok: "wal_ok sha w" and sm: "small_segments w"
  shows "w_segments w = done @ todo \<Longrightarrow>
    try_fold (audit_segment sha verify (disk_of w)) todo
      ([], tcount (\<lambda>m. sm_state m = ''sealed'') done,
       filter (\<lambda>l. lo_segment_id l \<notin> fst ` set done) (map snd (w_captures w)))
    = Inr ([], tcount (\<lambda>m. sm_state m = ''sealed'') (w_segments w),
           filter (\<lambda>l. lo_segment_id l \<notin> fst ` set (w_segments w)) (map snd (w_captures w)))"
proof (induction todo arbitrary: "done")
  case (Cons r todo)
  obtain g m where r: "r = (g, m)" by fastforce
  from ok have "tsorted (w_segments w)" by (simp add: wal_ok_def log_ok_def)
  then have "distinct (map fst (w_segments w))" by (rule tsorted_distinct)
  with Cons.prems r have g: "g \<notin> fst ` set done" "(g, m) \<in> set (w_segments w)" by auto
  let ?rest = "filter (\<lambda>l. lo_segment_id l \<notin> fst ` set done) (map snd (w_captures w))"
  from g(1) have "filter (\<lambda>l. lo_segment_id l = g) ?rest = filter (\<lambda>l. lo_segment_id l = g) (map snd (w_captures w))"
    unfolding filter_filter by (intro filter_cong) auto
  note a = audit_segment_ok [OF ok sm g(2) this, of verify]
  have f: "filter (\<lambda>l. lo_segment_id l \<noteq> g) ?rest
      = filter (\<lambda>l. lo_segment_id l \<notin> fst ` set (done @ [r])) (map snd (w_captures w))"
    unfolding filter_filter by (intro filter_cong) (auto simp: r)
  have t: "tcount (\<lambda>m. sm_state m = ''sealed'') done + (if sm_state m = ''sealed'' then 1 else 0)
      = tcount (\<lambda>m. sm_state m = ''sealed'') (done @ [r])" by (simp add: r tcount_def)
  from Cons.IH [of "done @ [r]"] Cons.prems show ?case
    unfolding try_fold.simps r a rbind_simps f [unfolded r] t [unfolded r] by simp
qed simp

text \<open>
  The audit of a store that satisfies the invariant reports no failure: every Capture has a
  durable attempt, the locators of each segment cover it exactly, every sealed segment has its
  recorded hash and every payload its own; and the report counts what the ledger holds.
\<close>

theorem audit_complete:
  assumes ok: "wal_ok sha w" and sm: "small_segments w"
  shows "audit_database sha True verify (disk_of w) = Inr
    \<lparr>ar_ok = True, ar_captures = length (w_captures w), ar_attempts = length (w_attempts w),
     ar_sealed = tcount (\<lambda>m. sm_state m = ''sealed'') (w_segments w), ar_failures = [],
     ar_without_attempt = 0, ar_conservation = True\<rparr>"
proof -
  from ok have lg: "log_ok sha w (mset (map snd (w_captures w)))" and lo: "ledger_ok w"
    by (simp_all add: wal_ok_def)
  have "lo_segment_id l \<in> fst ` set (w_segments w)" if l: "l \<in> set (map snd (w_captures w))" for l
  proof -
    from l lg have "located sha w l" unfolding log_ok_def by simp
    then obtain m where "tget (w_segments w) (lo_segment_id l) = Some m"
      by (auto simp: located_def wal_slice_def seg_file_def bind_eq_Some_conv)
    then show ?thesis by (force dest: map_of_SomeD)
  qed
  then have "filter (\<lambda>l. lo_segment_id l \<notin> fst ` set (w_segments w)) (map snd (w_captures w)) = []"
    by (auto simp: filter_empty_conv)
  with audit_segments_ok [OF ok sm, of "[]" "w_segments w" verify]
  have segs: "try_fold (audit_segment sha verify (disk_of w)) (w_segments w) ([], 0, map snd (w_captures w))
      = Inr ([], tcount (\<lambda>m. sm_state m = ''sealed'') (w_segments w), [])"
    by (simp add: tcount_def)
  have "without_durable_attempt (disk_of w) = 0"
  proof -
    have "list_ex (\<lambda>r. accepted_state (snd r) \<and> at_capture_id (snd r) = Some (lo_capture_id l)) (w_attempts w)"
      if "(k, l) \<in> set (w_captures w)" for k l
    proof -
      from that lo have "tget (w_captures w) k = Some l" by (simp add: ledger_ok_def tsorted_distinct)
      with lo show ?thesis unfolding ledger_ok_def list_ex_iff by metis
    qed
    then show ?thesis by (auto simp: without_durable_attempt_def disk_of_def filter_empty_conv)
  qed
  moreover have "length (w_captures w) \<le> length (w_attempts w)"
    using lo tcount_le_length [of accepted_state "w_attempts w"] by (simp add: ledger_ok_def)
  ultimately show ?thesis
    using segs by (simp add: audit_database_def) (simp add: disk_of_def)
qed

lemma audit_complete_witness:
  "audit_database example_sha True True (disk_of (empty_wal ''t0'')) = Inr
    \<lparr>ar_ok = True, ar_captures = 0, ar_attempts = 0, ar_sealed = 0, ar_failures = [],
     ar_without_attempt = 0, ar_conservation = True\<rparr>"
proof -
  have "small_segments (empty_wal ''t0'')"
    by (simp add: small_segments_def empty_wal_def blank_wal_def)
  from audit_complete [OF wal_ok_empty this, of example_sha True] show ?thesis
    by (simp add: empty_wal_def blank_wal_def tcount_def)
qed

end
