(* ===== verification/WalCrash.thy ===== *)
theory WalCrash
  imports WalRecovery
begin

text \<open>
  Crash recovery: a crash while a group is being appended, at any byte of the active segment,
  loses nothing that was complete.  Reopening indexes exactly the complete lines the ledger does
  not know, cuts the torn tail, and yields a store that satisfies the invariant.
\<close>

section \<open>Scanning a segment\<close>

text \<open>A stored line reads back as the record its locator describes.\<close>

definition stored_line :: "(string \<Rightarrow> wal_error + capture_record) \<Rightarrow> string \<Rightarrow> locator \<Rightarrow> bool" where
  "stored_line validate c l \<longleftrightarrow>
     CHR 0x0A \<notin> set c \<and> strip_cr c = c \<and>
     (\<exists>r. validate c = Inr r \<and> cr_capture_id r = lo_capture_id l \<and> cr_sha256 r = lo_raw_sha256 l
        \<and> cr_received_at r = lo_received_at l \<and> cr_model r = lo_model l)"

lemma takeWhile_line: "CHR 0x0A \<notin> set c \<Longrightarrow> takeWhile (\<lambda>x. x \<noteq> CHR 0x0A) (c @ CHR 0x0A # t) = c"
  by (subst takeWhile_append2) auto

lemma takeWhile_torn: "CHR 0x0A \<notin> set t \<Longrightarrow> takeWhile (\<lambda>x. x \<noteq> CHR 0x0A) t = t"
  by (simp add: takeWhile_eq_all_conv) blast

lemma read_exact_drop:
  "read_exact b i n = Some s \<Longrightarrow> drop i (b @ t) = s @ drop (i + n) (b @ t)"
proof -
  assume "read_exact b i n = Some s"
  then have b: "i + n \<le> length b" "s = take n (drop i b)" by (auto simp: read_exact_def split: if_splits)
  then have "s = take n (drop i (b @ t))" by simp
  then show ?thesis by (metis add.commute append_take_drop_id drop_drop)
qed

lemma scan_line:
  assumes "CHR 0x0A \<notin> set c" "strip_cr c = c" "validate c = Inr r"
  shows "scan_lines validate is_open path g off (c @ CHR 0x0A # t)
    = rbind (scan_lines validate is_open path g (off + (length c + 1)) t)
        (\<lambda>rest. Inr (\<lparr>lo_capture_id = cr_capture_id r, lo_raw_sha256 = cr_sha256 r, lo_segment_id = g,
           lo_offset = off, lo_length = length c + 1, lo_received_at = cr_received_at r,
           lo_model = cr_model r\<rparr> # fst rest, snd rest))"
  by (subst scan_lines.simps) (simp add: takeWhile_line assms Let_def)

lemma scan_contiguous:
  assumes "contiguous off ls e" "e = length b" "CHR 0x0A \<notin> set torn" "torn = [] \<or> is_open"
    and "\<forall>l \<in> set ls. lo_segment_id l = g
      \<and> (\<exists>c. read_exact b (lo_offset l) (lo_length l) = Some (c @ [CHR 0x0A]) \<and> stored_line validate c l)"
  shows "scan_lines validate is_open path g off (drop off (b @ torn)) = Inr (ls, e)"
  using assms
proof (induction ls arbitrary: off)
  case Nil
  then show ?case
    by (cases "torn = []") (simp_all add: scan_lines.simps [of _ _ _ _ _ torn] scan_lines.simps [of _ _ _ _ _ "[]"] takeWhile_torn)
next
  case (Cons l ls)
  from Cons.prems(5) obtain c where c: "read_exact b (lo_offset l) (lo_length l) = Some (c @ [CHR 0x0A])"
    "stored_line validate c l" and g: "lo_segment_id l = g" by auto
  from c(2) obtain r where r: "CHR 0x0A \<notin> set c" "strip_cr c = c" "validate c = Inr r"
    "cr_capture_id r = lo_capture_id l" "cr_sha256 r = lo_raw_sha256 l"
    "cr_received_at r = lo_received_at l" "cr_model r = lo_model l" by (auto simp: stored_line_def)
  from Cons.prems(1) have off: "lo_offset l = off" "contiguous (off + lo_length l) ls e" by auto
  from c(1) have "lo_offset l + lo_length l \<le> length b"
      "take (lo_length l) (drop (lo_offset l) b) = c @ [CHR 0x0A]"
    by (auto simp: read_exact_def split: if_splits)
  then have len: "lo_length l = length c + 1"
    by (metis add_diff_cancel_left' diff_le_mono length_append_singleton length_drop length_take min_absorb2 Suc_eq_plus1)
  from read_exact_drop [OF c(1), of torn] off(1)
  have "drop off (b @ torn) = c @ CHR 0x0A # drop (off + lo_length l) (b @ torn)" by simp
  moreover note scan_line [where validate = validate, OF r(1-3)]
  moreover from Cons.IH [OF off(2) Cons.prems(2-4)] Cons.prems(5)
  have "scan_lines validate is_open path g (off + lo_length l) (drop (off + lo_length l) (b @ torn)) = Inr (ls, e)"
    by auto
  ultimately show ?case using r(4-7) g off(1) len by simp
qed

section \<open>Indexing what was found\<close>

definition recovered_row :: "string \<Rightarrow> locator \<Rightarrow> attempt" where
  "recovered_row now l =
     \<lparr>at_attempt_id = 0, at_capture_id = Some (lo_capture_id l), at_raw_sha256 = Some (lo_raw_sha256 l),
      at_state = ''recovered'', at_reason = Some ''wal_without_ledger_commit'',
      at_received_at = (case lo_received_at l of Some t \<Rightarrow> t | None \<Rightarrow> now), at_committed_at = Some now,
      at_segment_id = Some (lo_segment_id l)\<rparr>"

definition unknown :: "(string, locator) table \<Rightarrow> locator list \<Rightarrow> locator list" where
  "unknown t ls = filter (\<lambda>l. tget t (lo_capture_id l) = None) ls"

lemma recover_rows:
  assumes "distinct (map lo_capture_id ls)"
    and "\<forall>l \<in> set ls. \<forall>l'. tget (d_captures (rc_disk rc)) (lo_capture_id l) = Some l' \<longrightarrow> lo_raw_sha256 l' = lo_raw_sha256 l"
    and "\<forall>k \<in> fst ` set (d_attempts (rc_disk rc)). k < rc_next_attempt_id rc"
  defines "new \<equiv> unknown (d_captures (rc_disk rc)) ls"
  shows "try_fold (recover_row now) ls rc = Inr (rc
    \<lparr>rc_disk := (rc_disk rc)
       \<lparr>d_captures := index_captures new (d_captures (rc_disk rc)),
        d_attempts := d_attempts (rc_disk rc) @ numbered (rc_next_attempt_id rc) (map (recovered_row now) new)\<rparr>,
     rc_next_attempt_id := rc_next_attempt_id rc + length new, rc_records := rc_records rc + length new,
     rc_changed := (rc_changed rc \<or> new \<noteq> [])\<rparr>)"
  using assms(1-3) unfolding new_def
proof (induction ls arbitrary: rc)
  case Nil
  then show ?case by (simp add: unknown_def index_captures_def)
next
  case (Cons l ls)
  let ?t = "d_captures (rc_disk rc)" and ?n = "rc_next_attempt_id rc"
  show ?case
  proof (cases "tget ?t (lo_capture_id l)")
    case (Some l')
    with Cons.prems(2) have "recover_row now l rc = Inr rc" by (simp add: recover_row_def)
    moreover have "unknown ?t (l # ls) = unknown ?t ls" using Some by (simp add: unknown_def)
    moreover note Cons.IH [of rc]
    moreover from Cons.prems have "distinct (map lo_capture_id ls)"
      "\<forall>l \<in> set ls. \<forall>l'. tget ?t (lo_capture_id l) = Some l' \<longrightarrow> lo_raw_sha256 l' = lo_raw_sha256 l"
      "\<forall>k \<in> fst ` set (d_attempts (rc_disk rc)). k < ?n"
      by (simp, meson list.set_intros(2), blast)
    ultimately show ?thesis by simp
  next
    case None
    let ?rc = "rc\<lparr>rc_disk := (rc_disk rc)\<lparr>d_captures := tput (lo_capture_id l) l ?t,
        d_attempts := d_attempts (rc_disk rc) @ [(?n, (recovered_row now l)\<lparr>at_attempt_id := ?n\<rparr>)]\<rparr>,
      rc_next_attempt_id := Suc ?n, rc_records := Suc (rc_records rc), rc_changed := True\<rparr>"
    from Cons.prems(3) None have step: "recover_row now l rc = Inr ?rc"
      by (simp add: recover_row_def Let_def tput_append_last recovered_row_def)
    have ids: "\<forall>l' \<in> set ls. lo_capture_id l' \<noteq> lo_capture_id l"
      using Cons.prems(1) by (auto simp: image_iff)
    then have "unknown (tput (lo_capture_id l) l ?t) ls = unknown ?t ls"
      unfolding unknown_def by (intro filter_cong) auto
    moreover have "try_fold (recover_row now) ls ?rc = Inr (?rc
      \<lparr>rc_disk := (rc_disk ?rc)
         \<lparr>d_captures := index_captures (unknown (d_captures (rc_disk ?rc)) ls) (d_captures (rc_disk ?rc)),
          d_attempts := d_attempts (rc_disk ?rc) @ numbered (rc_next_attempt_id ?rc)
            (map (recovered_row now) (unknown (d_captures (rc_disk ?rc)) ls))\<rparr>,
       rc_next_attempt_id := rc_next_attempt_id ?rc + length (unknown (d_captures (rc_disk ?rc)) ls),
       rc_records := rc_records ?rc + length (unknown (d_captures (rc_disk ?rc)) ls),
       rc_changed := (rc_changed ?rc \<or> unknown (d_captures (rc_disk ?rc)) ls \<noteq> [])\<rparr>)"
    proof (rule Cons.IH)
      show "distinct (map lo_capture_id ls)" using Cons.prems(1) by simp
      show "\<forall>l' \<in> set ls. \<forall>m. tget (d_captures (rc_disk ?rc)) (lo_capture_id l') = Some m
          \<longrightarrow> lo_raw_sha256 m = lo_raw_sha256 l'"
        using Cons.prems(2) ids by simp
      show "\<forall>k \<in> fst ` set (d_attempts (rc_disk ?rc)). k < rc_next_attempt_id ?rc"
        using Cons.prems(3) by (simp add: less_SucI)
    qed
    moreover have "unknown ?t (l # ls) = l # unknown ?t ls" using None by (simp add: unknown_def)
    ultimately show ?thesis by (simp add: step index_captures_def)
  qed
qed

section \<open>The disk after the crash\<close>

text \<open>
  The ledger is that of \<open>w\<close>, the store before the group; the files are those of \<open>v\<close>, the store
  after part of the group was appended, with the beginning of one more line behind it.
\<close>

definition crash_disk :: "wal \<Rightarrow> wal \<Rightarrow> string \<Rightarrow> disk" where
  "crash_disk w v torn =
     (disk_of w)\<lparr>d_files := tput (ac_path (w_active v)) (ac_digest (w_active v) @ torn) (w_files v)\<rparr>"

definition storable :: "(string \<Rightarrow> wal_error + capture_record) \<Rightarrow> capture_record \<Rightarrow> bool" where
  "storable validate r \<longleftrightarrow>
     CHR 0x0A \<notin> set (cr_canonical r) \<and> strip_cr (cr_canonical r) = cr_canonical r \<and>
     (\<exists>q. validate (cr_canonical r) = Inr q \<and> cr_capture_id q = cr_capture_id r \<and> cr_sha256 q = cr_sha256 r
        \<and> cr_received_at q = cr_received_at r \<and> cr_model q = cr_model r)"

definition stored :: "(string \<Rightarrow> wal_error + capture_record) \<Rightarrow> wal \<Rightarrow> locator \<Rightarrow> bool" where
  "stored validate w l \<longleftrightarrow> (\<exists>c. wal_slice w l = Some (c @ [CHR 0x0A]) \<and> stored_line validate c l)"

definition captures_stored :: "(string \<Rightarrow> wal_error + capture_record) \<Rightarrow> wal \<Rightarrow> bool" where
  "captures_stored validate w \<longleftrightarrow> list_all (\<lambda>r. stored validate w (snd r)) (w_captures w)"

lemma stored_mono: "log_le v w \<Longrightarrow> stored validate v l \<Longrightarrow> stored validate w l"
  unfolding stored_def by (meson slice_mono)

lemma written_stored: "written batch w p \<Longrightarrow> storable validate (batch ! fst p) \<Longrightarrow> stored validate w (snd p)"
  unfolding written_def storable_def stored_def stored_line_def by metis

text \<open>What the crash needs to know of the store before the group and of what was appended.\<close>

definition crash_ok ::
  "(string \<Rightarrow> string) \<Rightarrow> (string \<Rightarrow> wal_error + capture_record) \<Rightarrow> capture_record list
     \<Rightarrow> wal \<Rightarrow> (nat \<times> locator) list \<Rightarrow> wal \<Rightarrow> string \<Rightarrow> bool" where
  "crash_ok sha validate batch w ps v torn \<longleftrightarrow>
     wal_ok sha w \<and> captures_stored validate w \<and> appended sha batch w ps v \<and> w_segments v = w_segments w \<and>
     distinct (map lo_capture_id (map snd ps)) \<and>
     (\<forall>l \<in> set (map snd ps). tget (w_captures w) (lo_capture_id l) = None) \<and>
     (\<forall>p \<in> set ps. storable validate (batch ! fst p)) \<and> CHR 0x0A \<notin> set torn \<and>
     (\<forall>g \<in> fst ` set (w_segments w). g < 2 ^ 64) \<and> length (w_segments w) < 2 ^ 64 \<and>
     length (w_attempts w) + length ps < 2 ^ 64"

lemma crash_ok_parts:
  assumes "crash_ok sha validate batch w ps v torn"
  shows "wal_ok sha w" "log_ok sha w (mset (map snd (w_captures w)))" "ledger_ok w"
    "log_ok sha v (mset (map snd (w_captures w)) + mset (map snd ps))" "running v" "log_le w v"
    "w_segments v = w_segments w" "tsorted (w_segments w)" "tsorted (w_files v)" "active_id v = active_id w"
    "tget (w_segments w) (active_id w) = Some (ac_metadata (w_active w))"
    "ac_path (w_active v) = segment_path (active_id w) open_suffix"
proof -
  show w: "wal_ok sha w" "log_ok sha w (mset (map snd (w_captures w)))" "ledger_ok w"
    and v: "log_ok sha v (mset (map snd (w_captures w)) + mset (map snd ps))" "running v" "log_le w v"
    and s: "w_segments v = w_segments w"
    and a: "tget (w_segments w) (active_id w) = Some (ac_metadata (w_active w))"
    using assms by (simp_all add: crash_ok_def appended_def wal_ok_def)
  show "tsorted (w_segments w)" "tsorted (w_files v)" using w(2) v(1) by (simp_all add: log_ok_def)
  show id: "active_id v = active_id w"
  proof (rule ccontr)
    assume n: "active_id v \<noteq> active_id w"
    with a s have "tget (cur v) (active_id w) = Some (ac_metadata (w_active w))" by simp
    with v(1) have "seg_ok sha v (mset (map snd (w_captures w)) + mset (map snd ps)) (active_id w) (ac_metadata (w_active w))"
      by (auto simp: log_ok_def)
    moreover have "sm_state (ac_metadata (w_active w)) = ''open''" using w(1) by (simp add: wal_ok_def running_def)
    ultimately show False using n by (simp add: seg_ok_def)
  qed
  show "ac_path (w_active v) = segment_path (active_id w) open_suffix"
    using log_ok_active(5) [OF v(1,2)] id by simp
qed

text \<open>All of the group went into the active segment.\<close>

lemma crash_ok_active:
  assumes ok: "crash_ok sha validate batch w ps v torn" and l: "l \<in> set (map snd ps)"
  shows "lo_segment_id l = active_id w"
proof (rule ccontr)
  note c = crash_ok_parts [OF ok]
  let ?C = "mset (map snd (w_captures w))" and ?P = "mset (map snd ps)" and ?g = "lo_segment_id l"
  assume n: "?g \<noteq> active_id w"
  from l c(4) have "located sha v l" by (auto simp: log_ok_def)
  then obtain m where m: "tget (w_segments w) ?g = Some m"
    by (auto simp: located_def wal_slice_def seg_file_def bind_eq_Some_conv c(7))
  with n c have "seg_ok sha w ?C ?g m" "seg_ok sha v (?C + ?P) ?g m" by (auto simp: log_ok_def)
  then have "size (of_segment ?C ?g) = size (of_segment (?C + ?P) ?g)" by (auto simp: seg_ok_def)
  then have "of_segment ?P ?g = {#}" by (simp add: of_segment_def)
  moreover from l have "l \<in># of_segment ?P ?g" by (simp add: of_segment_def)
  ultimately show False by simp
qed

lemma known_capture:
  assumes "ledger_ok w" "l \<in> set (map snd (w_captures w))"
  shows "tget (w_captures w) (lo_capture_id l) = Some l"
proof -
  from assms(2) obtain k where "(k, l) \<in> set (w_captures w)" by auto
  with assms(1) have k: "tget (w_captures w) k = Some l" by (simp add: ledger_ok_def tsorted_distinct)
  with assms(1) have "lo_capture_id l = k" unfolding ledger_ok_def by blast
  with k show ?thesis by simp
qed

lemma captures_distinct:
  assumes "ledger_ok w"
  shows "distinct (map lo_capture_id (map snd (w_captures w)))"
proof -
  from assms have ts: "tsorted (w_captures w)" by (simp add: ledger_ok_def)
  have "lo_capture_id (snd r) = fst r" if "r \<in> set (w_captures w)" for r
  proof -
    from that ts have "tget (w_captures w) (fst r) = Some (snd r)" by (simp add: tsorted_distinct)
    with assms show ?thesis unfolding ledger_ok_def by blast
  qed
  then have "map lo_capture_id (map snd (w_captures w)) = map fst (w_captures w)" by simp
  then show ?thesis by (simp only: tsorted_distinct [OF ts])
qed

text \<open>The scan of the active segment finds the ledger's lines and the group's.\<close>

lemma crash_lines:
  assumes ok: "crash_ok sha validate batch w ps v torn"
    and ls: "mset ls = of_segment (mset (map snd (w_captures w)) + mset (map snd ps)) (active_id w)"
  shows "mset ls = of_segment (mset (map snd (w_captures w))) (active_id w) + mset (map snd ps)"
    and "l \<in> set ls \<Longrightarrow> lo_segment_id l = active_id w \<and> stored validate v l"
    and "l \<in> set ls \<Longrightarrow> tget (w_captures w) (lo_capture_id l) = Some l' \<Longrightarrow> l' = l"
    and "distinct (map lo_capture_id ls)"
proof -
  note c = crash_ok_parts [OF ok]
  let ?C = "mset (map snd (w_captures w))" and ?P = "mset (map snd ps)" and ?g = "active_id w"
  have "filter_mset (\<lambda>l. lo_segment_id l = ?g) ?P = ?P"
    using crash_ok_active [OF ok] by (simp add: filter_mset_eq_conv)
  with ls show m: "mset ls = of_segment ?C ?g + ?P" by (simp add: of_segment_def)
  have mem: "l \<in> set ls \<longleftrightarrow> l \<in> set (map snd (w_captures w)) \<and> lo_segment_id l = ?g \<or> l \<in> set (map snd ps)" for l
    by (simp only: set_mset_mset [symmetric] m) (simp add: of_segment_def)
  have old: "tget (w_captures w) (lo_capture_id l) = Some l" if "l \<in> set (map snd (w_captures w))" for l
    using that c(3) by (rule known_capture [rotated])
  have new: "tget (w_captures w) (lo_capture_id l) = None" if "l \<in> set (map snd ps)" for l
    using ok that unfolding crash_ok_def by blast
  show "lo_segment_id l = ?g \<and> stored validate v l" if l: "l \<in> set ls"
  proof
    from l have "l \<in># of_segment (?C + ?P) ?g" unfolding ls [symmetric] by simp
    then show "lo_segment_id l = ?g" by (auto simp: of_segment_def)
    from l mem consider "l \<in> set (map snd (w_captures w))" | p where "p \<in> set ps" "l = snd p" by auto
    then show "stored validate v l"
    proof cases
      case 1
      with ok have "stored validate w l" by (auto simp: crash_ok_def captures_stored_def list_all_iff)
      then show ?thesis by (rule stored_mono [OF c(6)])
    next
      case 2
      with ok show ?thesis by (auto simp: crash_ok_def appended_def list_all_iff intro: written_stored)
    qed
  qed
  show "l \<in> set ls \<Longrightarrow> tget (w_captures w) (lo_capture_id l) = Some l' \<Longrightarrow> l' = l"
    using mem old new by (metis option.distinct(1) option.inject)
  have "distinct (map lo_capture_id (map snd ps))" using ok unfolding crash_ok_def by blast
  note dp = this [unfolded distinct_map [of lo_capture_id]]
  note dc = captures_distinct [OF c(3), unfolded distinct_map [of lo_capture_id]]
  from dp dc have "inj_on lo_capture_id (set ls)"
    by (intro inj_onI) (metis inj_onD mem new old option.distinct(1))
  moreover have "distinct (map snd (w_captures w) @ map snd ps)"
    unfolding distinct_append using dp dc new old by fastforce
  then have "distinct ls"
    by (metis ls mset_append mset_filter of_segment_def distinct_filter mset_eq_imp_distinct_iff)
  ultimately show "distinct (map lo_capture_id ls)" by (simp add: distinct_map)
qed

lemma crash_unknown:
  assumes ok: "crash_ok sha validate batch w ps v torn"
    and m: "mset ls = of_segment (mset (map snd (w_captures w))) (active_id w) + mset (map snd ps)"
  shows "mset (unknown (w_captures w) ls) = mset (map snd ps)"
proof -
  let ?fresh = "filter_mset (\<lambda>l. tget (w_captures w) (lo_capture_id l) = None)"
  have "\<not> (l \<in># ?fresh (of_segment (mset (map snd (w_captures w))) (active_id w)))" for l
    using known_capture [OF crash_ok_parts(3) [OF ok], of l] by (auto simp: of_segment_def)
  then have "?fresh (of_segment (mset (map snd (w_captures w))) (active_id w)) = {#}" by (meson multiset_nonemptyE)
  moreover have "?fresh (mset (map snd ps)) = mset (map snd ps)"
    using ok by (auto simp: filter_mset_eq_conv crash_ok_def)
  ultimately show ?thesis by (simp add: unknown_def mset_filter m)
qed

lemma crash_scan:
  assumes ok: "crash_ok sha validate batch w ps v torn"
  shows "\<exists>ls. scan_lines validate True path (active_id w) 0 (ac_digest (w_active v) @ torn)
        = Inr (ls, sm_bytes (ac_metadata (w_active v)))
    \<and> length ls = sm_records (ac_metadata (w_active v))
    \<and> distinct (map lo_capture_id ls)
    \<and> (\<forall>l \<in> set ls. \<forall>l'. tget (w_captures w) (lo_capture_id l) = Some l' \<longrightarrow> l' = l)
    \<and> mset (unknown (w_captures w) ls) = mset (map snd ps)"
proof -
  note c = crash_ok_parts [OF ok]
  note act = log_ok_active [OF c(4), unfolded c(10)]
  from act(1) obtain ls where
    ls: "mset ls = of_segment (mset (map snd (w_captures w)) + mset (map snd ps)) (active_id w)"
      "contiguous 0 ls (sm_bytes (ac_metadata (w_active v)))" by (auto simp: seg_ok_def tiled_def)
  note lines = crash_lines [OF ok ls(1)]
  have read: "lo_segment_id l = active_id w
      \<and> (\<exists>s. read_exact (ac_digest (w_active v)) (lo_offset l) (lo_length l) = Some (s @ [CHR 0x0A]) \<and> stored_line validate s l)"
    if "l \<in> set ls" for l
    using lines(2) [OF that] act(6) by (auto simp: stored_def wal_slice_def)
  have "CHR 0x0A \<notin> set torn" using ok by (simp add: crash_ok_def)
  from scan_contiguous [OF ls(2) act(4) [symmetric] this, of True "active_id w" validate path] read
  have "scan_lines validate True path (active_id w) 0 (ac_digest (w_active v) @ torn)
      = Inr (ls, sm_bytes (ac_metadata (w_active v)))" by simp
  moreover have "length ls = sm_records (ac_metadata (w_active v))"
    using act(1) ls(1) by (simp add: seg_ok_def flip: size_mset)
  ultimately show ?thesis using lines(3,4) crash_unknown [OF ok lines(1)] by blast
qed

section \<open>One pass over the segment files\<close>

lemma segment_id_from_path_ok:
  assumes "s \<in> {open_suffix, sealed_suffix}" "g < 2 ^ 64"
  shows "segment_id_from_path (segment_path g s) = Inr g"
proof -
  have slash: "CHR ''/'' \<notin> set s" using assms(1) by auto
  from assms(1) obtain v where s: "s = CHR ''.'' # v" by (auto simp: open_suffix_def sealed_suffix_def)
  have "\<forall>c \<in> set (fmt0 20 g). c \<noteq> CHR ''.''" using fmt0_no_char by force
  then have "takeWhile (\<lambda>c. c \<noteq> CHR ''.'') (fmt0 20 g @ s) = fmt0 20 g"
    by (simp add: s takeWhile_append2)
  moreover have "parse_u64 (fmt0 20 g) = Some (of_nat g)"
    using assms(2) by (simp add: parse_u64_digits list_all_fmt0)
  ultimately show ?thesis
    using assms(2) slash by (simp add: segment_id_from_path_def segment_file_name_def unat_of_nat_u64)
qed

lemma suffix_of_append: "length a \<le> length b \<Longrightarrow> suffix a (x @ b) \<longleftrightarrow> suffix a b"
  by (auto simp: suffix_append dest: suffix_length_le)

lemma open_suffix_of [simp]:
  "suffix open_suffix (segment_file_name g open_suffix)"
  "\<not> suffix open_suffix (segment_file_name g sealed_suffix)"
proof -
  have n: "segment_file_name g s = (''segment-'' @ fmt0 20 g) @ s" for s by (simp add: segment_file_name_def)
  show "suffix open_suffix (segment_file_name g open_suffix)" unfolding n by (rule suffix_appendI) simp
  show "\<not> suffix open_suffix (segment_file_name g sealed_suffix)"
    unfolding n by (subst suffix_of_append) (simp_all add: open_suffix_def sealed_suffix_def suffix_Cons)
qed

lemma is_segment_file_path:
  "s \<in> {open_suffix, sealed_suffix} \<Longrightarrow> is_segment_file (segment_path g s)"
proof -
  have "suffix t (segment_file_name g t)" for t
    unfolding segment_file_name_def append_assoc [symmetric] by (rule suffix_appendI) simp
  then show "s \<in> {open_suffix, sealed_suffix} \<Longrightarrow> ?thesis" by (auto simp: is_segment_file_def)
qed

lemma recover_path_skip:
  assumes "sm_path m = segment_path g sealed_suffix" "g < 2 ^ 64" "sm_state m = ''sealed''" "sm_sha256 m \<noteq> None"
    and "tget (d_files (rc_disk rc)) (sm_path m) = Some b" "sm_bytes m = length b"
    and "tget (d_segments (rc_disk rc)) g = Some m"
  shows "recover_path sha validate now (sm_path m) rc = Inr rc"
  using assms by (simp add: recover_path_def segment_id_from_path_ok)

definition reopened_metadata :: "wal \<Rightarrow> wal \<Rightarrow> segment_metadata" where
  "reopened_metadata w v =
     \<lparr>sm_segment_id = active_id w, sm_path = ac_path (w_active v), sm_state = ''open'',
      sm_bytes = sm_bytes (ac_metadata (w_active v)), sm_records = sm_records (ac_metadata (w_active v)),
      sm_created_at = sm_created_at (ac_metadata (w_active w)), sm_sealed_at = None, sm_sha256 = None\<rparr>"

definition reopened_disk :: "string \<Rightarrow> wal \<Rightarrow> wal \<Rightarrow> locator list \<Rightarrow> disk" where
  "reopened_disk now w v new =
     (disk_of w)
       \<lparr>d_files := w_files v, d_captures := index_captures new (w_captures w),
        d_attempts := w_attempts w @ numbered (next_key (w_attempts w)) (map (recovered_row now) new),
        d_segments := tput (active_id w) (reopened_metadata w v) (w_segments w)\<rparr>"

definition reopened_recovery :: "string \<Rightarrow> wal \<Rightarrow> wal \<Rightarrow> locator list \<Rightarrow> recovery" where
  "reopened_recovery now w v new =
     \<lparr>rc_disk = reopened_disk now w v new, rc_next_attempt_id = next_key (w_attempts w) + length new,
      rc_records = length new,
      rc_changed = (new \<noteq> [] \<or> ac_metadata (w_active w) \<noteq> reopened_metadata w v)\<rparr>"

lemma crash_recover_active:
  assumes ok: "crash_ok sha validate batch w ps v torn"
  shows "\<exists>new. mset new = mset (map snd ps) \<and>
    recover_path sha validate now (ac_path (w_active v))
      \<lparr>rc_disk = crash_disk w v torn, rc_next_attempt_id = next_key (w_attempts w), rc_records = 0, rc_changed = False\<rparr>
    = Inr (reopened_recovery now w v new)"
proof -
  note c = crash_ok_parts [OF ok]
  let ?p = "ac_path (w_active v)" and ?b = "ac_digest (w_active v)" and ?g = "active_id w"
  let ?rc = "\<lparr>rc_disk = crash_disk w v torn, rc_next_attempt_id = next_key (w_attempts w), rc_records = 0, rc_changed = False\<rparr>"
  from crash_scan [OF ok, of ?p] obtain ls where
    ls: "scan_lines validate True ?p ?g 0 (?b @ torn) = Inr (ls, sm_bytes (ac_metadata (w_active v)))"
      "length ls = sm_records (ac_metadata (w_active v))" "distinct (map lo_capture_id ls)"
      "\<forall>l \<in> set ls. \<forall>l'. tget (w_captures w) (lo_capture_id l) = Some l' \<longrightarrow> l' = l"
      "mset (unknown (w_captures w) ls) = mset (map snd ps)" by blast
  have g: "?g < 2 ^ 64"
  proof -
    have "?g \<in> fst ` set (w_segments w)" using c(11) by (force dest: map_of_SomeD)
    with ok show ?thesis unfolding crash_ok_def by blast
  qed
  have len: "length ?b = sm_bytes (ac_metadata (w_active v))" by (rule log_ok_active(4) [OF c(4)])
  have "tput ?p ?b (tput ?p (?b @ torn) (w_files v)) = w_files v"
    using c(9) log_ok_active(2) [OF c(4)] by (intro tsorted_unique) auto
  moreover have ts: "tsorted (w_attempts w)" using c(3) by (simp add: ledger_ok_def bounded_attempts_def)
  have "\<forall>k \<in> fst ` set (w_attempts w). k < next_key (w_attempts w)"
    using next_key_fresh [OF ts] tsorted_distinct [OF ts] by auto
  note rows = recover_rows [OF ls(3), of "?rc\<lparr>rc_disk := (crash_disk w v torn)\<lparr>d_files := w_files v\<rparr>\<rparr>" now]
  have "try_fold (recover_row now) ls (?rc\<lparr>rc_disk := (crash_disk w v torn)\<lparr>d_files := w_files v\<rparr>\<rparr>)
      = Inr (\<lparr>rc_disk = (disk_of w)\<lparr>d_files := w_files v, d_captures := index_captures (unknown (w_captures w) ls) (w_captures w),
          d_attempts := w_attempts w @ numbered (next_key (w_attempts w)) (map (recovered_row now) (unknown (w_captures w) ls))\<rparr>,
        rc_next_attempt_id = next_key (w_attempts w) + length (unknown (w_captures w) ls),
        rc_records = length (unknown (w_captures w) ls), rc_changed = (unknown (w_captures w) ls \<noteq> [])\<rparr>)"
    using ls(4) \<open>\<forall>k \<in> fst ` set (w_attempts w). k < next_key (w_attempts w)\<close>
    by (subst rows) (auto simp: crash_disk_def disk_of_def)
  ultimately have "recover_path sha validate now ?p ?rc = Inr (reopened_recovery now w v (unknown (w_captures w) ls))"
    using ls(1,2) len g c(11,12)
    by (simp add: recover_path_def segment_id_from_path_ok crash_disk_def disk_of_def Let_def
        reopened_recovery_def reopened_disk_def reopened_metadata_def)
  with ls(5) show ?thesis by blast
qed

lemma crash_sealed:
  assumes ok: "crash_ok sha validate batch w ps v torn" and p: "tget (w_files v) p = Some b" "p \<noteq> ac_path (w_active v)"
  shows "\<exists>g m. g \<noteq> active_id w \<and> g < 2 ^ 64 \<and> sm_path m = p \<and> p = segment_path g sealed_suffix
    \<and> sm_state m = ''sealed'' \<and> sm_sha256 m \<noteq> None \<and> sm_bytes m = length b \<and> tget (w_segments w) g = Some m"
proof -
  note c = crash_ok_parts [OF ok]
  from p(1) c(4) obtain g m where gm: "tget (cur v) g = Some m" "sm_path m = p" unfolding log_ok_def by blast
  have g: "g \<noteq> active_id w"
  proof
    assume "g = active_id w"
    with gm c(10) log_ok_active(3) [OF c(4)] p(2) show False by simp
  qed
  with gm c(7,10) have m: "tget (w_segments w) g = Some m" by simp
  from gm(1) c(4) have "seg_ok sha v (mset (map snd (w_captures w)) + mset (map snd ps)) g m"
    unfolding log_ok_def by blast
  moreover have "g < 2 ^ 64"
  proof -
    from m have "g \<in> fst ` set (w_segments w)" by (force dest: map_of_SomeD)
    with ok show ?thesis unfolding crash_ok_def by blast
  qed
  ultimately show ?thesis
    using g gm(2) m p(1) c(10) by (intro exI [of _ g] exI [of _ m]) (auto simp: seg_ok_def)
qed

lemma crash_recover_segments:
  assumes ok: "crash_ok sha validate batch w ps v torn"
  shows "\<exists>new d. mset new = mset (map snd ps)
    \<and> recover_segments sha validate now (crash_disk w v torn) = Inr (d, length ps)
    \<and> (d = reopened_disk now w v new \<and> new = [] \<and> reopened_metadata w v = ac_metadata (w_active w)
       \<or> d = (reopened_disk now w v new)\<lparr>d_counters := Some (counters_from_tables (d_captures (reopened_disk now w v new))
             (d_attempts (reopened_disk now w v new)) (d_segments (reopened_disk now w v new)))\<rparr>)"
proof -
  note c = crash_ok_parts [OF ok]
  let ?p = "ac_path (w_active v)"
  let ?rc = "\<lparr>rc_disk = crash_disk w v torn, rc_next_attempt_id = next_key (w_attempts w), rc_records = 0, rc_changed = False\<rparr>"
  let ?paths = "filter is_segment_file (map fst (d_files (crash_disk w v torn)))"
  from crash_recover_active [OF ok, of now] obtain new where
    new: "mset new = mset (map snd ps)" "recover_path sha validate now ?p ?rc = Inr (reopened_recovery now w v new)" by blast
  have files: "d_files (crash_disk w v torn) = tput ?p (ac_digest (w_active v) @ torn) (w_files v)"
    by (simp add: crash_disk_def)
  have "tsorted (d_files (crash_disk w v torn))" using c(9) by (simp add: files)
  then have "distinct ?paths" by (simp add: tsorted_distinct)
  moreover have "?p \<in> set ?paths"
    using c(12) is_segment_file_path by (simp add: files fst_set_tput)
  moreover note new(2)
  moreover have "recover_path sha validate now q ?rc = Inr ?rc
      \<and> recover_path sha validate now q (reopened_recovery now w v new) = Inr (reopened_recovery now w v new)"
    if q: "q \<in> set ?paths" "q \<noteq> ?p" for q
  proof -
    from q have "q \<in> fst ` set (w_files v)" by (auto simp: files fst_set_tput)
    with c(9) obtain b where b: "tget (w_files v) q = Some b" by (auto simp: tsorted_distinct)
    from crash_sealed [OF ok b q(2)] obtain g m where
      g: "g \<noteq> active_id w" "g < 2 ^ 64" "sm_path m = q" "q = segment_path g sealed_suffix"
        "sm_state m = ''sealed''" "sm_sha256 m \<noteq> None" "sm_bytes m = length b" "tget (w_segments w) g = Some m"
      by blast
    have "recover_path sha validate now (sm_path m) rc = Inr rc"
      if "tget (d_files (rc_disk rc)) q = Some b" "tget (d_segments (rc_disk rc)) g = Some m" for rc
      using recover_path_skip [of m g rc b] g that by simp
    with b g(1,3,8) q(2) show ?thesis
      by (simp add: reopened_recovery_def reopened_disk_def crash_disk_def disk_of_def)
  qed
  ultimately have "try_fold (recover_path sha validate now) ?paths ?rc = Inr (reopened_recovery now w v new)"
    by (rule try_fold_one)
  then have loop: "try_fold (recover_path sha validate now) ?paths
      \<lparr>rc_disk = crash_disk w v torn, rc_next_attempt_id = next_key (d_attempts (crash_disk w v torn)),
       rc_records = 0, rc_changed = False\<rparr> = Inr (reopened_recovery now w v new)"
    by (simp add: crash_disk_def disk_of_def)
  have "length new = length ps" using arg_cong [OF new(1), of size] by simp
  with loop new(1) show ?thesis
    by (intro exI [of _ new], cases "rc_changed (reopened_recovery now w v new)")
      (auto simp: recover_segments_def Let_def reopened_recovery_def)
qed

lemma find_open_one:
  assumes "distinct (map fst t)" "tget t a = Some m" "sm_state m = ''open''"
    and "\<And>g n. tget t g = Some n \<Longrightarrow> g \<noteq> a \<Longrightarrow> sm_state n \<noteq> ''open''"
  shows "find_open t = Inr (Some m)"
proof -
  from assms(2) have "(a, m) \<in> set t" by (rule map_of_SomeD)
  with assms(1) have "\<And>r. r \<in> set t \<Longrightarrow> r \<noteq> (a, m) \<Longrightarrow> sm_state (snd r) \<noteq> ''open''"
    using assms(2,4) by (metis map_of_is_SomeI option.inject prod.collapse)
  with \<open>(a, m) \<in> set t\<close> assms(1,3) show ?thesis
    unfolding find_open_def by (intro try_fold_one [where a = "(a, m)"]) (auto simp: distinct_map)
qed

lemma sat_counters_small:
  assumes "length c < 2 ^ 64" "length a < 2 ^ 64" "length s < 2 ^ 64"
  shows "sat_counters (counters_from_tables c a s) = counters_from_tables c a s"
proof -
  have s: "n < 2 ^ 64 \<Longrightarrow> sat n = n" for n by (simp add: sat_def)
  have "tcount P a < 2 ^ 64" "tcount Q s < 2 ^ 64" for P Q
    using tcount_le_length assms(2,3) le_less_trans by blast+
  with assms s show ?thesis by (simp add: sat_counters_def counters_from_tables_eq)
qed

lemma log_ok_same_active:
  assumes ok: "log_ok sha v M" and run: "running v"
    and u: "w_files u = w_files v" "w_segments u = tput (active_id v) (ac_metadata (w_active u)) (w_segments v)"
      "active_id u = active_id v" "ac_path (w_active u) = ac_path (w_active v)"
      "ac_digest (w_active u) = ac_digest (w_active v)"
    and m: "sm_path (ac_metadata (w_active u)) = ac_path (w_active v)" "sm_state (ac_metadata (w_active u)) = ''open''"
      "sm_bytes (ac_metadata (w_active u)) = sm_bytes (ac_metadata (w_active v))"
      "sm_records (ac_metadata (w_active u)) = sm_records (ac_metadata (w_active v))"
  shows "log_ok sha u M" "log_le v u"
proof -
  note act = log_ok_active [OF ok]
  from ok obtain m0 where m0: "tget (w_segments v) (active_id v) = Some m0" "sm_path m0 = ac_path (w_active v)"
    by (auto simp: log_ok_def active_ok_def)
  have segf: "seg_file u = seg_file v"
    using m0 m(1) by (auto simp: seg_file_def u fun_eq_iff)
  then show le: "log_le v u" by (simp add: log_le_def)
  have lo: "located sha u = located sha v" by (simp add: located_def wal_slice_def segf fun_eq_iff)
  have segs: "seg_ok sha u M g n" if n: "tget (cur u) g = Some n" for g n
  proof (cases "g = active_id v")
    case True
    with n have "n = ac_metadata (w_active u)" by (simp add: u)
    with True act(1,3,5) run m u(1,3) show ?thesis by (auto simp: seg_ok_def running_def)
  next
    case False
    with n have "tget (cur v) g = Some n" by (simp add: u split: if_splits)
    with ok have "seg_ok sha v M g n" unfolding log_ok_def by blast
    with False u(1,3) show ?thesis by (auto simp: seg_ok_def)
  qed
  have files: "\<exists>g n. tget (cur u) g = Some n \<and> sm_path n = p" if p: "tget (w_files u) p = Some b" for p b
  proof -
    from p u(1) ok obtain g n where g: "tget (cur v) g = Some n" "sm_path n = p" unfolding log_ok_def by metis
    show ?thesis
    proof (cases "g = active_id v")
      case True
      with g act(3) m(1) have "sm_path (ac_metadata (w_active u)) = p" by simp
      then show ?thesis by (intro exI [of _ "active_id u"]) simp
    next
      case False
      with g show ?thesis by (intro exI [of _ g]) (simp add: u)
    qed
  qed
  have "tsorted (w_files u)" "tsorted (w_segments u)" using ok by (simp_all add: log_ok_def u)
  moreover have "active_ok u" using ok m(1) by (simp add: log_ok_def active_ok_def u)
  ultimately show "log_ok sha u M"
    using ok segs files unfolding log_ok_def lo by blast
qed

lemma crash_find_open:
  assumes ok: "crash_ok sha validate batch w ps v torn"
  shows "find_open (tput (active_id w) (reopened_metadata w v) (w_segments w)) = Inr (Some (reopened_metadata w v))"
proof (rule find_open_one)
  note c = crash_ok_parts [OF ok]
  show "distinct (map fst (tput (active_id w) (reopened_metadata w v) (w_segments w)))"
    using c(8) by (simp add: tsorted_distinct)
  show "tget (tput (active_id w) (reopened_metadata w v) (w_segments w)) (active_id w) = Some (reopened_metadata w v)"
    by simp
  show "sm_state (reopened_metadata w v) = ''open''" by (simp add: reopened_metadata_def)
  fix g n assume g: "tget (tput (active_id w) (reopened_metadata w v) (w_segments w)) g = Some n" "g \<noteq> active_id w"
  then have "tget (cur w) g = Some n" by simp
  with c(2) have "seg_ok sha w (mset (map snd (w_captures w))) g n" unfolding log_ok_def by blast
  with g(2) show "sm_state n \<noteq> ''open''" by (auto simp: seg_ok_def)
qed

abbreviation reopened_active :: "wal \<Rightarrow> wal \<Rightarrow> active_segment" where
  "reopened_active w v \<equiv> \<lparr>ac_metadata = reopened_metadata w v, ac_path = ac_path (w_active v),
     ac_digest = ac_digest (w_active v)\<rparr>"

abbreviation reopens_to :: "string \<Rightarrow> wal \<Rightarrow> wal \<Rightarrow> locator list \<Rightarrow> disk \<Rightarrow> bool" where
  "reopens_to now w v new d \<equiv>
     d = reopened_disk now w v new \<and> new = [] \<and> reopened_metadata w v = ac_metadata (w_active w)
     \<or> d = (reopened_disk now w v new)\<lparr>d_counters := Some (counters_from_tables (d_captures (reopened_disk now w v new))
             (d_attempts (reopened_disk now w v new)) (d_segments (reopened_disk now w v new)))\<rparr>"

lemma reopened_fields:
  assumes "reopens_to now w v new d"
  shows "w_files (wal_of d (reopened_active w v)) = w_files v"
    "w_captures (wal_of d (reopened_active w v)) = index_captures new (w_captures w)"
    "w_attempts (wal_of d (reopened_active w v))
       = w_attempts w @ numbered (next_key (w_attempts w)) (map (recovered_row now) new)"
    "w_segments (wal_of d (reopened_active w v)) = tput (active_id w) (reopened_metadata w v) (w_segments w)"
    "w_active (wal_of d (reopened_active w v)) = reopened_active w v"
    "w_next_attempt_id (wal_of d (reopened_active w v)) = next_key (w_attempts (wal_of d (reopened_active w v)))"
  using assms by (auto simp: wal_of_def reopened_disk_def)

lemma bounded_attempts_numbered:
  assumes "bounded_attempts w" "w_attempts u = w_attempts w @ numbered (next_key (w_attempts w)) rows"
    and "w_next_attempt_id u = next_key (w_attempts u)"
  shows "bounded_attempts u"
proof -
  let ?w = "w\<lparr>w_next_attempt_id := next_key (w_attempts w)\<rparr>"
  have ta: "tsorted (w_attempts w)" using assms(1) by (simp add: bounded_attempts_def)
  have b: "bounded_attempts ?w"
    using ta next_key_fresh [OF ta] tsorted_distinct [OF ta] by (auto simp: bounded_attempts_def)
  from bounded_fold_rec1 [OF b, of rows] fold_rec1 [OF b, of rows]
  have t: "tsorted (w_attempts u)" by (simp add: bounded_attempts_def assms(2))
  with next_key_fresh [OF t] tsorted_distinct [OF t] assms(3) show ?thesis by (auto simp: bounded_attempts_def)
qed

lemma reopened_ledger:
  assumes ok: "crash_ok sha validate batch w ps v torn" and new: "mset new = mset (map snd ps)"
    and d: "reopens_to now w v new d"
  shows "ledger_ok (wal_of d (reopened_active w v))"
    and "mset (map snd (index_captures new (w_captures w))) = mset (map snd (w_captures w)) + mset new"
proof -
  note led = crash_ok_parts(3) [OF ok] and u = reopened_fields [OF d]
  have tc: "tsorted (w_captures w)" and ba: "bounded_attempts w" using led by (simp_all add: ledger_ok_def)
  have "mset (map lo_capture_id new) = mset (map lo_capture_id (map snd ps))" using new by (metis mset_map)
  with ok have dist: "distinct (map lo_capture_id new)" unfolding crash_ok_def by (metis mset_eq_imp_distinct_iff)
  from new have "set new = set (map snd ps)" by (metis set_mset_mset)
  with ok have fresh: "\<forall>l \<in> set new. tget (w_captures w) (lo_capture_id l) = None" unfolding crash_ok_def by simp
  show "mset (map snd (index_captures new (w_captures w))) = mset (map snd (w_captures w)) + mset new"
    by (rule index_captures_ok(2) [OF tc dist fresh])
  show "ledger_ok (wal_of d (reopened_active w v))"
  proof (rule ledger_ok_extend [OF led dist fresh u(2,3) bounded_attempts_numbered [OF ba u(3,6)]])
    have "accepted_state (recovered_row now l)" for l by (simp add: accepted_state_def recovered_row_def)
    then show "length (filter accepted_state (map (recovered_row now) new)) = length new"
      "\<And>l. l \<in> set new \<Longrightarrow> \<exists>a \<in> set (map (recovered_row now) new). at_capture_id a = Some (lo_capture_id l) \<and> accepted_state a"
      by (auto simp: filter_map comp_def recovered_row_def)
  qed
qed

lemma reopened_counters:
  assumes ok: "crash_ok sha validate batch w ps v torn" and new: "mset new = mset (map snd ps)"
    and d: "reopens_to now w v new d"
  shows "w_counters (wal_of d (reopened_active w v)) = Some (sat_counters (rebuilt (wal_of d (reopened_active w v))))"
proof -
  let ?u = "wal_of d (reopened_active w v)"
  note c = crash_ok_parts [OF ok] and u = reopened_fields [OF d] and led = reopened_ledger(1) [OF assms]
  have "length (w_attempts ?u) < 2 ^ 64" "length (w_segments ?u) < 2 ^ 64"
    using ok arg_cong [OF new, of size] c(8,11) by (simp_all add: u crash_ok_def length_tput)
  moreover have "length (w_captures ?u) \<le> length (w_attempts ?u)"
    using led tcount_le_length [of accepted_state "w_attempts ?u"] by (simp add: ledger_ok_def)
  ultimately have s: "sat_counters (rebuilt ?u) = rebuilt ?u" by (intro sat_counters_small) auto
  from d show ?thesis
  proof
    assume e: "d = reopened_disk now w v new \<and> new = [] \<and> reopened_metadata w v = ac_metadata (w_active w)"
    have "tput (active_id w) (ac_metadata (w_active w)) (w_segments w) = w_segments w"
      using c(8,11) by (intro tsorted_unique) auto
    with e have "w_segments ?u = w_segments w" "w_captures ?u = w_captures w" "w_attempts ?u = w_attempts w"
      "w_counters ?u = w_counters w"
      by (simp_all add: wal_of_def reopened_disk_def disk_of_def index_captures_def)
    with c(1) show ?thesis by (simp add: wal_ok_def counted_def)
  next
    assume "d = (reopened_disk now w v new)\<lparr>d_counters := Some (counters_from_tables (d_captures (reopened_disk now w v new))
           (d_attempts (reopened_disk now w v new)) (d_segments (reopened_disk now w v new)))\<rparr>"
    then have "w_counters ?u = Some (rebuilt ?u)" by (simp add: wal_of_def)
    then show ?thesis by (simp only: s)
  qed
qed

lemma reopened_opens:
  assumes ok: "crash_ok sha validate batch w ps v torn" and d: "reopens_to now w v new d"
    and rec: "recover_segments sha validate now (crash_disk w v torn) = Inr (d, n)"
  shows "open_writer sha validate now (crash_disk w v torn) = Inr (wal_of d (reopened_active w v), n)"
proof -
  note c = crash_ok_parts [OF ok]
  from c(1) obtain k where "d_counters (crash_disk w v torn) = Some k"
    by (auto simp: crash_disk_def disk_of_def wal_ok_def counted_def)
  then have "initialize_database (crash_disk w v torn) = Inr (crash_disk w v torn)"
    by (simp add: initialize_database_def) (simp add: crash_disk_def disk_of_def)
  moreover have path: "sm_path (reopened_metadata w v) = ac_path (w_active v)" by (simp add: reopened_metadata_def)
  have "open_active_segment now d = Inr (wal_of d (reopened_active w v))"
    using crash_find_open [OF ok] log_ok_active(2) [OF c(4)] d path
    by (auto simp: open_active_segment_def reopened_disk_def)
  ultimately show ?thesis by (simp add: open_writer_def rec)
qed

lemma crash_reopen:
  assumes ok: "crash_ok sha validate batch w ps v torn"
  shows "\<exists>u new. open_writer sha validate now (crash_disk w v torn) = Inr (u, length ps) \<and> wal_ok sha u
    \<and> w_files u = w_files v \<and> log_le v u \<and> mset new = mset (map snd ps)
    \<and> w_captures u = index_captures new (w_captures w)"
proof -
  note c = crash_ok_parts [OF ok]
  from crash_recover_segments [OF ok, of now] obtain new d where
    new: "mset new = mset (map snd ps)"
    and rec: "recover_segments sha validate now (crash_disk w v torn) = Inr (d, length ps)"
    and d: "reopens_to now w v new d" by blast
  let ?u = "wal_of d (reopened_active w v)"
  note u = reopened_fields [OF d]
  have meta: "sm_path (reopened_metadata w v) = ac_path (w_active v)" "sm_state (reopened_metadata w v) = ''open''"
    "sm_segment_id (reopened_metadata w v) = active_id w"
    "sm_bytes (reopened_metadata w v) = sm_bytes (ac_metadata (w_active v))"
    "sm_records (reopened_metadata w v) = sm_records (ac_metadata (w_active v))"
    by (simp_all add: reopened_metadata_def)
  note same = log_ok_same_active [OF c(4,5), of ?u]
  have log: "log_ok sha ?u (mset (map snd (w_captures w)) + mset (map snd ps))" "log_le v ?u"
    by (rule same; simp add: u meta c(7,10))+
  have "wal_ok sha ?u"
    using log(1) new reopened_ledger [OF ok new d] reopened_counters [OF ok new d] meta
    by (simp add: wal_ok_def running_def counted_def u mset_map)
  with reopened_opens [OF ok d rec] u(1,2) log(2) new show ?thesis by blast
qed

section \<open>Properties\<close>

text \<open>Every commit keeps the stored lines readable by the recovery's validator.\<close>

lemma captures_stored_empty: "captures_stored validate (empty_wal now)"
  by (simp add: captures_stored_def empty_wal_def blank_wal_def)

text \<open>The part of a group whose appending the crash interrupts.\<close>

definition group_prefix :: "nat \<Rightarrow> wal \<Rightarrow> capture_record list \<Rightarrow> nat list" where
  "group_prefix j w batch = take j (cl_pending (classify (w_captures w) batch))"

lemma crash_okI:
  assumes "wal_ok sha w" "captures_stored validate w" "hashed sha batch" "list_all (storable validate) batch"
    and ap: "append_pending sha cfg now batch (group_prefix j w batch) w = Inr (v, ps)"
    and "w_segments v = w_segments w" "CHR 0x0A \<notin> set torn"
    and "\<forall>g \<in> fst ` set (w_segments w). g < 2 ^ 64" "length (w_segments w) < 2 ^ 64"
      "length (w_attempts w) + length batch < 2 ^ 64"
  shows "crash_ok sha validate batch w ps v torn"
    and "map fst ps = group_prefix j w batch"
proof -
  let ?cl = "classify (w_captures w) batch"
  note cls = class_ok_classify [of "w_captures w" batch]
  have sub: "set (group_prefix j w batch) \<subseteq> set (cl_pending ?cl)"
    unfolding group_prefix_def by (rule set_take_subset)
  then have "\<forall>i \<in> set (group_prefix j w batch). i < length batch"
    using class_ok_members(1) [OF cls] by blast
  then have idx: "\<forall>i \<in> set (group_prefix j w batch). cr_sha256 (batch ! i) = sha (cr_canonical (batch ! i))"
    "\<forall>i \<in> set (group_prefix j w batch). storable validate (batch ! i)"
    using assms(3,4) by (simp_all add: hashed_def list_all_iff)
  from append_pending_ok [OF wal_ok_appended [OF assms(1)] idx(1), of cfg now] ap
  have fst: "map fst ps = group_prefix j w batch" and a: "appended sha batch w ps v"
    by (auto simp: append_pending_def)
  have d: "distinct (map fst ps)"
    using class_ok_disjoint [OF cls] by (simp add: fst group_prefix_def)
  from a have wr: "list_all (written batch v) ps" by (simp add: appended_def)
  note pd = pending_distinct_part [OF cls d sub [folded fst, unfolded set_map [symmetric]] wr]
  have "length ps \<le> length batch"
    using fst class_ok_members(1) [OF cls] sub d
    by (metis card_mono distinct_card finite_atLeastLessThan length_map lessThan_iff subsetI subset_iff card_lessThan finite_lessThan)
  moreover have "\<forall>p \<in> set ps. storable validate (batch ! fst p)"
    using idx(2) by (simp flip: fst)
  ultimately show "crash_ok sha validate batch w ps v torn"
    using assms a pd unfolding crash_ok_def by (intro conjI) simp_all
  show "map fst ps = group_prefix j w batch" by (rule fst)
qed

lemma index_captures_lookup:
  assumes "tsorted t" "distinct (map lo_capture_id ls)" "\<forall>l \<in> set ls. tget t (lo_capture_id l) = None"
  shows "l \<in> set ls \<Longrightarrow> tget (index_captures ls t) (lo_capture_id l) = Some l"
    and "tget t k = Some l \<Longrightarrow> tget (index_captures ls t) k = Some l"
proof -
  note ix = index_captures_ok(3) [OF assms]
  show "tget (index_captures ls t) (lo_capture_id l) = Some l" if l: "l \<in> set ls"
  proof -
    from l assms(2) have "map_of (map (\<lambda>l. (lo_capture_id l, l)) ls) (lo_capture_id l) = Some l"
      by (intro map_of_is_SomeI) (auto simp: comp_def)
    then show ?thesis by (simp add: ix)
  qed
  show "tget (index_captures ls t) k = Some l" if k: "tget t k = Some l"
  proof -
    from k assms(3) have "k \<notin> lo_capture_id ` set ls" by auto
    then have "map_of (map (\<lambda>l. (lo_capture_id l, l)) ls) k = None" by (simp add: map_of_eq_None_iff image_image)
    with k show ?thesis by (simp add: ix)
  qed
qed

lemma written_reads:
  assumes "written batch v (i, l)" "log_le v u" "tget (w_captures u) (lo_capture_id l) = Some l"
    and "hashed sha batch" "i < length batch"
  shows "read_capture sha (cr_capture_id (batch ! i)) u = Inr (cr_canonical (batch ! i))"
proof (rule read_capture_slice)
  from assms(1,3) show "tget (w_captures u) (cr_capture_id (batch ! i)) = Some l" by (simp add: written_def)
  from assms(1) slice_mono [OF assms(2)]
  show "wal_slice u l = Some (cr_canonical (batch ! i) @ [CHR 0x0A])" by (simp add: written_def)
  from assms(1,4,5) show "sha (cr_canonical (batch ! i)) = lo_raw_sha256 l"
    by (simp add: written_def hashed_def list_all_iff)
qed

lemma crash_index:
  assumes "crash_ok sha validate batch w ps v torn" "mset new = mset (map snd ps)"
  shows "l \<in> set new \<Longrightarrow> tget (index_captures new (w_captures w)) (lo_capture_id l) = Some l"
    and "tget (w_captures w) k = Some l \<Longrightarrow> tget (index_captures new (w_captures w)) k = Some l"
proof -
  from assms have "distinct (map lo_capture_id new)" "\<forall>l \<in> set new. tget (w_captures w) (lo_capture_id l) = None"
    unfolding crash_ok_def by (metis mset_eq_imp_distinct_iff mset_map, metis mset_eq_setD)
  moreover have "tsorted (w_captures w)" using crash_ok_parts(3) [OF assms(1)] by (simp add: ledger_ok_def)
  ultimately show "l \<in> set new \<Longrightarrow> tget (index_captures new (w_captures w)) (lo_capture_id l) = Some l"
    "tget (w_captures w) k = Some l \<Longrightarrow> tget (index_captures new (w_captures w)) k = Some l"
    by (blast intro: index_captures_lookup)+
qed


definition example_parse :: "string \<Rightarrow> json option" where
  "example_parse s =
     Some (Object [(''captureId'', String (if s = ''one'' then ''cap-a'' else ''cap-b''))])"

definition example_validate :: "string \<Rightarrow> wal_error + capture_record" where
  "example_validate = validate_stored_capture example_sha example_parse 
    (\<lambda>_ _. Some \<lparr>we_turn_scoped = False, we_http_success = False, we_identity_conflict = False\<rparr>)"

lemma example_validate_eq:
  "example_validate s = Inr (example_record (if s = ''one'' then ''cap-a'' else ''cap-b'') s)"
  by (simp add: example_validate_def validate_stored_capture_def example_parse_def example_record_def example_sha_def
    get_str_def first_timestamp_def body_model_def extract_body_def or_else_def non_blank_def)

lemma example_storable: "list_all (storable example_validate) example_batch"
  by (simp add: example_batch_def example_record_def storable_def example_validate_eq strip_cr_def)

text \<open>A crash after the first record of the group, in the middle of the second line.\<close>

definition example_torn :: wal where
  "example_torn = fst (append_record (example_batch ! 0) (empty_wal ''t0''))"

lemma example_group: "group_prefix 1 (empty_wal ''t0'') example_batch = [0]"
  by (simp add: empty_wal_def blank_wal_def group_prefix_def classify_def example_batch_def example_record_def
      classify_one_def matches_persisted_sha256_def)

lemma example_append:
  "append_pending example_sha example_config ''t1'' example_batch (group_prefix 1 (empty_wal ''t0'') example_batch)
     (empty_wal ''t0'') = Inr (example_torn, [(0, snd (append_record (example_batch ! 0) (empty_wal ''t0'')))])"
  unfolding example_group example_torn_def
  by (simp add: append_pending_def append_one_def needs_rotation_def empty_wal_def Let_def)

lemma example_small:
  "w_segments example_torn = w_segments (empty_wal ''t0'')" "CHR 0x0A \<notin> set ''tw''"
  "\<forall>g \<in> fst ` set (w_segments (empty_wal ''t0'')). g < 2 ^ 64" "length (w_segments (empty_wal ''t0'')) < 2 ^ 64"
  "length (w_attempts (empty_wal ''t0'')) + length example_batch < 2 ^ 64"
  unfolding example_torn_def
  by (simp_all add: append_record_fields(3) [OF prod.collapse [symmetric]])
    (simp_all add: empty_wal_def blank_wal_def next_key_def example_batch_def)


text \<open>The store that reopens after it holds the one Capture that was complete.\<close>

lemma example_reopened:
  "\<exists>u l. open_writer example_sha example_validate ''t2'' (crash_disk (empty_wal ''t0'') example_torn ''tw'') = Inr (u, 1)
    \<and> wal_ok example_sha u \<and> w_captures u = [(''cap-a'', l)] \<and> lo_raw_sha256 l = ''one''"
proof -
  let ?l = "snd (append_record (example_batch ! 0) (empty_wal ''t0''))"
  note ok = crash_okI(1) [OF wal_ok_empty captures_stored_empty example_batch_ok(1) example_storable example_append
      example_small]
  from crash_reopen [OF ok, of "''t2''"] obtain u new where
    u: "open_writer example_sha example_validate ''t2'' (crash_disk (empty_wal ''t0'') example_torn ''tw'') = Inr (u, 1)"
      "wal_ok example_sha u" "mset new = mset [?l]" "w_captures u = index_captures new (w_captures (empty_wal ''t0''))"
    by auto
  from u(3) have "new = [?l]" by simp
  moreover have l: "lo_capture_id ?l = ''cap-a''" "lo_raw_sha256 ?l = ''one''"
    by (simp_all add: append_record_def example_batch_def example_record_def Let_def split: prod.splits)
  ultimately have "w_captures u = [(''cap-a'', ?l)]"
    using u(4) by (simp add: index_captures_def empty_wal_def blank_wal_def)
  with u(1,2) l(2) show ?thesis by blast
qed

end
