(* ===== verification/WalGap.thy ===== *)
theory WalGap
  imports WalCrash
begin

text \<open>
  A limit of the recovery (\<open>commit_batch_inner\<close> and \<open>recover_segments\<close> of \<open>store.rs\<close>): when a group
  commit rotates the active segment half-way, sealing writes the segment to the ledger as sealed
  before the group's Captures are.  After a crash in between, recovery skips the sealed segment.
\<close>

section \<open>The interrupted group\<close>

definition tight_config :: store_config where
  "tight_config = \<lparr>segment_max_bytes = 5, queue_items = 4, batch_records = 4, batch_bytes = 1024\<rparr>"

lemma gap_paths:
  "segment_path 1 open_suffix = ''segments/segment-00000000000000000001.open.ndjson''"
  "segment_path 1 sealed_suffix = ''segments/segment-00000000000000000001.sealed.ndjson''"
  "segment_path 2 open_suffix = ''segments/segment-00000000000000000002.open.ndjson''"
  by code_simp+

lemma gap_order:
  "segment_path 2 open_suffix \<noteq> segment_path 1 open_suffix"
  "segment_path 2 open_suffix \<noteq> segment_path 1 sealed_suffix"
  "segment_path 1 sealed_suffix \<noteq> segment_path 1 open_suffix"
  "\<not> segment_path 2 open_suffix < segment_path 1 sealed_suffix"
  by (simp_all add: gap_paths [unfolded One_nat_def] less_char_def)

definition gap_metadata :: "nat \<Rightarrow> string \<Rightarrow> segment_metadata" where
  "gap_metadata g t = \<lparr>sm_segment_id = g, sm_path = segment_path g open_suffix, sm_state = ''open'',
     sm_bytes = 0, sm_records = 0, sm_created_at = t, sm_sealed_at = None, sm_sha256 = None\<rparr>"

definition gap_sealed :: segment_metadata where
  "gap_sealed = (gap_metadata 1 ''t0'')\<lparr>sm_path := segment_path 1 sealed_suffix, sm_state := ''sealed'', sm_bytes := 4,
     sm_records := 1, sm_sealed_at := Some ''t1'', sm_sha256 := Some (''one'' @ [CHR 0x0A])\<rparr>"

definition gap_locator :: "string \<Rightarrow> string \<Rightarrow> nat \<Rightarrow> locator" where
  "gap_locator cid body g = \<lparr>lo_capture_id = cid, lo_raw_sha256 = body, lo_segment_id = g, lo_offset = 0,
     lo_length = 4, lo_received_at = None, lo_model = None\<rparr>"

definition gap_wal :: wal where
  "gap_wal = \<lparr>w_files = [(segment_path 1 sealed_suffix, ''one'' @ [CHR 0x0A]), (segment_path 2 open_suffix, ''two'' @ [CHR 0x0A])],
     w_captures = [], w_attempts = [], w_segments = [(1, gap_sealed), (2, gap_metadata 2 ''t1'')],
     w_counters = Some (zero_counters\<lparr>lc_sealed_segments := 1, lc_sealed_bytes := 4\<rparr>),
     w_active = \<lparr>ac_metadata = (gap_metadata 2 ''t1'')\<lparr>sm_bytes := 4, sm_records := 1\<rparr>,
       ac_path = segment_path 2 open_suffix, ac_digest = ''two'' @ [CHR 0x0A]\<rparr>, w_next_attempt_id = 1\<rparr>"

lemma empty_wal_eq: "empty_wal t = \<lparr>w_files = [(segment_path 1 open_suffix, [])], w_captures = [], w_attempts = [],
     w_segments = [(1, gap_metadata 1 t)], w_counters = Some zero_counters,
     w_active = \<lparr>ac_metadata = gap_metadata 1 t, ac_path = segment_path 1 open_suffix, ac_digest = []\<rparr>,
     w_next_attempt_id = 1\<rparr>"
  by (simp add: empty_wal_def created_wal_def blank_wal_def fresh_metadata_def Let_def next_key_def gap_metadata_def)

lemma gap_pending: "group_prefix 2 (empty_wal ''t0'') example_batch = [0, 1]"
  by (simp add: empty_wal_eq group_prefix_def classify_def example_batch_def example_record_def
      classify_one_def matches_persisted_sha256_def)

lemma path_fold: "CHR ''s'' # CHR ''e'' # CHR ''g'' # CHR ''m'' # CHR ''e'' # CHR ''n'' # CHR ''t'' # CHR ''s'' # CHR ''/''
    # segment_file_name g s = segment_path g s"
  by (simp add: segment_path_split)

lemma sat_le8: "n \<le> 8 \<Longrightarrow> sat n = n"
  by (simp add: sat_def)

lemma nat_four: "(4 :: nat) = Suc (Suc (Suc (Suc 0)))"
  by simp

lemma gap_append:
  "append_pending example_sha tight_config ''t1'' example_batch [0, 1] (empty_wal ''t0'')
     = Inr (gap_wal, [(0, gap_locator ''cap-a'' ''one'' 1), (1, gap_locator ''cap-b'' ''two'' 2)])"
  by (simp add: empty_wal_eq append_pending_def append_one_def needs_rotation_def append_record_def Let_def
      tight_config_def sat_le8 rotate_active_def seal_active_def rename_file_def read_counters_def zero_counters_def
      create_active_segment_def next_key_def sealed_name path_fold gap_metadata_def gap_order [unfolded One_nat_def numeral_2_eq_2] gap_wal_def gap_sealed_def gap_locator_def
      example_batch_def example_record_def example_sha_def numeral_2_eq_2 nat_four)

lemma line_two: "scan_lines example_validate True path 2 0 (''two'' @ [CHR 0x0A]) = Inr ([gap_locator ''cap-b'' ''two'' 2], 4)"
proof -
  have "contiguous 0 [gap_locator ''cap-b'' ''two'' 2] 4" by (simp add: gap_locator_def)
  from scan_contiguous [OF this, of "''two'' @ [CHR 0x0A]" "[]" True 2 example_validate path] show ?thesis
    by (simp add: gap_locator_def stored_line_def read_exact_def example_validate_eq example_record_def strip_cr_def)
qed

definition gap_reopened :: disk where
  "gap_reopened = (disk_of gap_wal)\<lparr>
     d_captures := [(''cap-b'', gap_locator ''cap-b'' ''two'' 2)],
     d_attempts := [(1, (recovered_row ''t2'' (gap_locator ''cap-b'' ''two'' 2))\<lparr>at_attempt_id := 1\<rparr>)],
     d_segments := [(1, gap_sealed), (2, (gap_metadata 2 ''t1'')\<lparr>sm_bytes := 4, sm_records := 1\<rparr>)],
     d_counters := Some (zero_counters\<lparr>lc_captures := 1, lc_attempts := 1, lc_accepted := 1, lc_sealed_segments := 1, lc_sealed_bytes := 4,
       lc_last_commit_at := Some ''t2''\<rparr>)\<rparr>"

lemma gap_skip: "recover_path example_sha example_validate ''t2'' (segment_path 1 sealed_suffix)
    \<lparr>rc_disk = disk_of gap_wal, rc_next_attempt_id = n, rc_records = k, rc_changed = b\<rparr>
  = Inr \<lparr>rc_disk = disk_of gap_wal, rc_next_attempt_id = n, rc_records = k, rc_changed = b\<rparr>"
  using recover_path_skip [of gap_sealed 1 "\<lparr>rc_disk = disk_of gap_wal, rc_next_attempt_id = n, rc_records = k, rc_changed = b\<rparr>" "''one'' @ [CHR 0x0A]" example_sha example_validate "''t2''"]
  by (simp add: gap_sealed_def gap_wal_def disk_of_def gap_metadata_def)

lemma gap_recover: "recover_path example_sha example_validate ''t2'' (segment_path 2 open_suffix)
    \<lparr>rc_disk = disk_of gap_wal, rc_next_attempt_id = 1, rc_records = 0, rc_changed = False\<rparr>
  = Inr \<lparr>rc_disk = gap_reopened\<lparr>d_counters := w_counters gap_wal\<rparr>, rc_next_attempt_id = 2, rc_records = 1, rc_changed = True\<rparr>"
proof -
  have e: "tget (d_files (disk_of gap_wal)) (segment_path 2 open_suffix) = Some (''two'' @ [CHR 0x0A])"
    "tget (d_segments (disk_of gap_wal)) 2 = Some (gap_metadata 2 ''t1'')"
    "tput (segment_path 2 open_suffix) (''two'' @ [CHR 0x0A]) (d_files (disk_of gap_wal)) = d_files (disk_of gap_wal)"
    by (simp_all add: disk_of_def gap_wal_def gap_order [unfolded One_nat_def])
  from e show ?thesis
    by (simp add: recover_path_def segment_id_from_path_ok line_two [simplified] Let_def recover_row_def)
      (simp add: gap_reopened_def disk_of_def gap_wal_def gap_metadata_def gap_locator_def recovered_row_def)
qed

lemma gap_open:
  "open_writer example_sha example_validate ''t2'' (disk_of gap_wal) = Inr (wal_of gap_reopened (w_active gap_wal), 1)"
proof -
  let ?rc = "\<lparr>rc_disk = disk_of gap_wal, rc_next_attempt_id = 1, rc_records = 0, rc_changed = False\<rparr>"
  have p: "filter is_segment_file (map fst (d_files (disk_of gap_wal))) = [segment_path 1 sealed_suffix, segment_path 2 open_suffix]"
    by (simp add: disk_of_def gap_wal_def is_segment_file_path)
  have n: "next_key (d_attempts (disk_of gap_wal)) = 1"
    by (simp add: disk_of_def gap_wal_def next_key_def)
  have l: "try_fold (recover_path example_sha example_validate ''t2'') [segment_path 1 sealed_suffix, segment_path 2 open_suffix] ?rc
      = Inr \<lparr>rc_disk = gap_reopened\<lparr>d_counters := w_counters gap_wal\<rparr>, rc_next_attempt_id = 2, rc_records = 1, rc_changed = True\<rparr>"
    by (simp only: try_fold.simps gap_skip gap_recover rbind_simps)
  have c: "counters_from_tables (d_captures gap_reopened) (d_attempts gap_reopened) (d_segments gap_reopened)
      = the (d_counters gap_reopened)"
    by (simp add: gap_reopened_def counters_from_tables_eq zero_counters_def tcount_def recovered_row_def
        accepted_state_def rejected_state_def gap_sealed_def gap_metadata_def sealed_size_def sat_le8)
  have r: "recover_segments example_sha example_validate ''t2'' (disk_of gap_wal) = Inr (gap_reopened, 1)"
    unfolding recover_segments_def p n l using c by (simp add: Let_def) (simp add: gap_reopened_def)
  have "initialize_database (disk_of gap_wal) = Inr (disk_of gap_wal)"
    by (simp add: initialize_database_def disk_of_def gap_wal_def)
  moreover have "open_active_segment ''t2'' gap_reopened = Inr (wal_of gap_reopened (w_active gap_wal))"
    by (simp add: open_active_segment_def find_open_def gap_reopened_def gap_sealed_def gap_metadata_def)
      (simp add: gap_wal_def disk_of_def gap_metadata_def gap_order [unfolded One_nat_def])
  ultimately show ?thesis by (simp add: open_writer_def r)
qed

lemma gap_audit:
  "audit_database example_sha True True gap_reopened = Inr
    \<lparr>ar_ok = False, ar_captures = 1, ar_attempts = 1, ar_sealed = 1, ar_failures = [LocatorsShort 1],
     ar_without_attempt = 0, ar_conservation = True\<rparr>"
proof -
  have f: "d_files gap_reopened = [(segment_path 1 sealed_suffix, ''one'' @ [CHR 0x0A]), (segment_path 2 open_suffix, ''two'' @ [CHR 0x0A])]"
    "d_captures gap_reopened = [(''cap-b'', gap_locator ''cap-b'' ''two'' 2)]"
    "d_segments gap_reopened = [(1, gap_sealed), (2, (gap_metadata 2 ''t1'')\<lparr>sm_bytes := 4, sm_records := 1\<rparr>)]"
    by (simp_all add: gap_reopened_def disk_of_def gap_wal_def)
  have w: "without_durable_attempt gap_reopened = 0"
    by (simp add: without_durable_attempt_def gap_reopened_def recovered_row_def accepted_state_def gap_locator_def)
  have "audit_segment example_sha True gap_reopened (1, gap_sealed) ([], 0, [gap_locator ''cap-b'' ''two'' 2])
      = Inr ([LocatorsShort 1], 1, [gap_locator ''cap-b'' ''two'' 2])"
    by (simp add: audit_segment_def f gap_sealed_def gap_metadata_def gap_locator_def example_sha_def)
  moreover have "audit_segment example_sha True gap_reopened (2, (gap_metadata 2 ''t1'')\<lparr>sm_bytes := 4, sm_records := 1\<rparr>)
      ([LocatorsShort 1], 1, [gap_locator ''cap-b'' ''two'' 2]) = Inr ([LocatorsShort 1], 1, [])"
    by (simp add: audit_segment_def f gap_metadata_def gap_locator_def gap_order [unfolded One_nat_def]
        audit_locator_def read_exact_def example_sha_def sat_le8)
  ultimately show ?thesis
    by (simp add: audit_database_def f w) (simp add: gap_reopened_def)
qed

section \<open>The property\<close>


end
