(* ===== verification/IngestQuality.thy ===== *)
theory IngestQuality
  imports Tables
begin

text \<open>
  The durable ingest-quality counters of the Relay (\<open>relay.rs\<close>, the quality half of the
  delivery ledger): what one batch adds, how the per-reason maps are reconciled with the
  per-endpoint counters, the one-time migration seed, and the audited archive that is the only
  way to bring the counters back to zero.  An \<open>anyhow\<close> error is its constructor here.

  The abstract contract is \<open>quality_wf\<close> (the reasons of an endpoint add up to its counters and
  the grand total is a \<open>u64\<close>) and, for the ledger, conservation: the live and the archived
  totals together are everything that was ever recorded.
\<close>

section \<open>The counters\<close>

datatype cloud_endpoint = OtlpLogs | OtlpTraces | CodexHook

datatype quality_error =
    Overflow
  | ReasonTotalMismatch
  | UnsupportedReason
  | ReasonsExceedTotal
  | UnsupportedSchema
  | SeedTotalMismatch
  | MissingOperator
  | ArchiveExists
  | ArchiveTotalMismatch
  | ArchiveIdMissing
  | ArchiveMissing
  | ArchiveIdMismatch
  | LiveLedgerNotEmpty

record quality_counters =
  otlp_logs_unknown_events :: u64
  otlp_logs_conversion_errors :: u64
  otlp_traces_unknown_events :: u64
  otlp_traces_conversion_errors :: u64
  codex_hook_unknown_events :: u64
  codex_hook_conversion_errors :: u64
  otlp_logs_quality_reasons :: "(string, u64) table"
  otlp_traces_quality_reasons :: "(string, u64) table"
  codex_hook_quality_reasons :: "(string, u64) table"

definition quality_default :: quality_counters where
  "quality_default =
     \<lparr>otlp_logs_unknown_events = 0, otlp_logs_conversion_errors = 0,
      otlp_traces_unknown_events = 0, otlp_traces_conversion_errors = 0,
      codex_hook_unknown_events = 0, codex_hook_conversion_errors = 0,
      otlp_logs_quality_reasons = [], otlp_traces_quality_reasons = [],
      codex_hook_quality_reasons = []\<rparr>"

definition quality_reason_codes :: "string list" where
  "quality_reason_codes =
     [''unsupported_event'', ''invalid_structure'', ''invalid_attributes'', ''identity_conflict'',
      ''missing_identity'', ''invalid_tool'', ''invalid_lifecycle'', ''invalid_timestamp'',
      ''conversion_error'']"

definition legacy_reason :: string where
  "legacy_reason = ''legacy_unclassified''"

definition is_quality_reason :: "string \<Rightarrow> bool" where
  "is_quality_reason reason \<longleftrightarrow> reason = legacy_reason \<or> reason \<in> set quality_reason_codes"

fun endpoint_counts :: "quality_counters \<Rightarrow> cloud_endpoint \<Rightarrow> u64 \<times> u64" where
  "endpoint_counts c OtlpLogs = (otlp_logs_unknown_events c, otlp_logs_conversion_errors c)"
| "endpoint_counts c OtlpTraces = (otlp_traces_unknown_events c, otlp_traces_conversion_errors c)"
| "endpoint_counts c CodexHook = (codex_hook_unknown_events c, codex_hook_conversion_errors c)"

fun reasons_of :: "quality_counters \<Rightarrow> cloud_endpoint \<Rightarrow> (string, u64) table" where
  "reasons_of c OtlpLogs = otlp_logs_quality_reasons c"
| "reasons_of c OtlpTraces = otlp_traces_quality_reasons c"
| "reasons_of c CodexHook = codex_hook_quality_reasons c"

text \<open>Writing through \<open>reasons_mut\<close>.\<close>

fun set_reasons :: "cloud_endpoint \<Rightarrow> (string, u64) table \<Rightarrow> quality_counters \<Rightarrow> quality_counters" where
  "set_reasons OtlpLogs t c = c\<lparr>otlp_logs_quality_reasons := t\<rparr>"
| "set_reasons OtlpTraces t c = c\<lparr>otlp_traces_quality_reasons := t\<rparr>"
| "set_reasons CodexHook t c = c\<lparr>codex_hook_quality_reasons := t\<rparr>"

text \<open>The two counters of the endpoint, each by a checked addition.\<close>

fun add_counts :: "cloud_endpoint \<Rightarrow> u64 \<Rightarrow> u64 \<Rightarrow> quality_counters \<Rightarrow> quality_error + quality_counters" where
  "add_counts OtlpLogs u e c =
     rbind (ok_or Overflow (checked_add (otlp_logs_unknown_events c) u)) (\<lambda>u'.
     rbind (ok_or Overflow (checked_add (otlp_logs_conversion_errors c) e)) (\<lambda>e'.
     Inr (c\<lparr>otlp_logs_unknown_events := u', otlp_logs_conversion_errors := e'\<rparr>)))"
| "add_counts OtlpTraces u e c =
     rbind (ok_or Overflow (checked_add (otlp_traces_unknown_events c) u)) (\<lambda>u'.
     rbind (ok_or Overflow (checked_add (otlp_traces_conversion_errors c) e)) (\<lambda>e'.
     Inr (c\<lparr>otlp_traces_unknown_events := u', otlp_traces_conversion_errors := e'\<rparr>)))"
| "add_counts CodexHook u e c =
     rbind (ok_or Overflow (checked_add (codex_hook_unknown_events c) u)) (\<lambda>u'.
     rbind (ok_or Overflow (checked_add (codex_hook_conversion_errors c) e)) (\<lambda>e'.
     Inr (c\<lparr>codex_hook_unknown_events := u', codex_hook_conversion_errors := e'\<rparr>)))"

text \<open>\<open>reasons.values().try_fold(0, checked_add)\<close>\<close>

definition checked_sum :: "u64 list \<Rightarrow> quality_error + u64" where
  "checked_sum xs = try_fold (\<lambda>x t. ok_or Overflow (checked_add t x)) xs 0"

definition add_reason :: "string \<times> u64 \<Rightarrow> (string, u64) table \<Rightarrow> quality_error + (string, u64) table" where
  "add_reason r t =
     (let v = (case tget t (fst r) of None \<Rightarrow> 0 | Some v \<Rightarrow> v)
      in rbind (ok_or Overflow (checked_add v (snd r))) (\<lambda>v'. Inr (tput (fst r) v' t)))"

definition add_quality ::
  "cloud_endpoint \<Rightarrow> u64 \<Rightarrow> u64 \<Rightarrow> (string, u64) table \<Rightarrow> quality_counters \<Rightarrow> quality_error + quality_counters" where
  "add_quality ep unknown conv reasons c =
     rbind (ok_or Overflow (checked_add unknown conv)) (\<lambda>expected.
     rbind (checked_sum (map snd reasons)) (\<lambda>observed.
     if observed \<noteq> expected then Inl ReasonTotalMismatch
     else if \<not> list_all (\<lambda>r. is_quality_reason (fst r)) reasons then Inl UnsupportedReason
     else rbind (add_counts ep unknown conv c) (\<lambda>updated.
          rbind (try_fold add_reason reasons (reasons_of updated ep)) (\<lambda>destination.
          Inr (set_reasons ep destination updated)))))"

definition checked_total :: "quality_counters \<Rightarrow> quality_error + u64" where
  "checked_total c =
     checked_sum
       [otlp_logs_unknown_events c, otlp_logs_conversion_errors c,
        otlp_traces_unknown_events c, otlp_traces_conversion_errors c,
        codex_hook_unknown_events c, codex_hook_conversion_errors c]"

definition reconcile_endpoint :: "cloud_endpoint \<Rightarrow> quality_counters \<Rightarrow> quality_error + quality_counters" where
  "reconcile_endpoint ep c =
     rbind (ok_or Overflow (checked_add (fst (endpoint_counts c ep)) (snd (endpoint_counts c ep)))) (\<lambda>expected.
     let reasons = reasons_of c ep in
     if list_ex (\<lambda>r. \<not> is_quality_reason (fst r)) reasons then Inl UnsupportedReason
     else rbind (checked_sum (map snd reasons)) (\<lambda>observed.
       if expected < observed then Inl ReasonsExceedTotal
       else if observed < expected then
         (let legacy = (case tget reasons legacy_reason of None \<Rightarrow> 0 | Some v \<Rightarrow> v)
          in rbind (ok_or Overflow (checked_add legacy (expected - observed))) (\<lambda>legacy'.
             Inr (set_reasons ep (tput legacy_reason legacy' reasons) c)))
       else Inr c))"

definition reconcile_reason_maps :: "quality_counters \<Rightarrow> quality_error + quality_counters" where
  "reconcile_reason_maps c =
     rbind (try_fold reconcile_endpoint [OtlpLogs, OtlpTraces, CodexHook] c) (\<lambda>c'.
     rbind (checked_total c') (\<lambda>_. Inr c'))"


section \<open>The migration seed, the archive and the ledger\<close>

definition seed_schema_version :: string where
  "seed_schema_version = ''chiptrace.ingest-quality-seed.v1''"

definition archive_schema_version :: string where
  "archive_schema_version = ''chiptrace.ingest-quality-archive.v1''"

record quality_seed =
  qs_schema_version :: string
  qs_source_quality_errors :: u64
  qs_counters :: quality_counters

definition into_counters :: "quality_seed \<Rightarrow> quality_error + quality_counters" where
  "into_counters seed =
     (if qs_schema_version seed \<noteq> seed_schema_version then Inl UnsupportedSchema
      else rbind (reconcile_reason_maps (qs_counters seed)) (\<lambda>counters.
           rbind (checked_total counters) (\<lambda>total.
           if qs_source_quality_errors seed \<noteq> total then Inl SeedTotalMismatch else Inr counters)))"

record quality_archive =
  qa_schema_version :: string
  qa_archive_id :: string
  qa_archived_at :: string
  qa_approved_by :: string
  qa_approval_note :: string
  qa_source_quality_errors :: u64
  qa_counters :: quality_counters

text \<open>\<open>digest\<close> is the SHA-256 of the serialised record.\<close>

definition compute_id :: "(quality_archive \<Rightarrow> string) \<Rightarrow> quality_archive \<Rightarrow> string" where
  "compute_id digest a = digest (a\<lparr>qa_archive_id := []\<rparr>)"

text \<open>The two rows of the \<open>meta\<close> table.\<close>

record quality_ledger =
  ql_counters :: "quality_counters option"
  ql_archive :: "quality_archive option"

definition read_quality :: "quality_ledger \<Rightarrow> quality_error + quality_counters" where
  "read_quality l =
     reconcile_reason_maps (case ql_counters l of None \<Rightarrow> quality_default | Some c \<Rightarrow> c)"

definition write_quality :: "quality_counters \<Rightarrow> quality_ledger \<Rightarrow> quality_error + quality_ledger" where
  "write_quality c l =
     rbind (reconcile_reason_maps c) (\<lambda>checked. Inr (l\<lparr>ql_counters := Some checked\<rparr>))"

definition quality_snapshot ::
  "(quality_archive \<Rightarrow> string) \<Rightarrow> quality_ledger \<Rightarrow> quality_error + quality_counters \<times> quality_archive option" where
  "quality_snapshot digest l =
     rbind (read_quality l) (\<lambda>counters.
     rbind (checked_total counters) (\<lambda>_.
     case ql_archive l of
       None \<Rightarrow> Inr (counters, None)
     | Some a \<Rightarrow>
         if qa_schema_version a \<noteq> archive_schema_version then Inl UnsupportedSchema
         else if qa_archive_id a \<noteq> compute_id digest a then Inl ArchiveIdMismatch
         else rbind (checked_total (qa_counters a)) (\<lambda>total.
              if qa_source_quality_errors a \<noteq> total then Inl ArchiveTotalMismatch
              else Inr (counters, Some a))))"

text \<open>\<open>now\<close> is the formatted clock.\<close>

definition archive_quality ::
  "(quality_archive \<Rightarrow> string) \<Rightarrow> string \<Rightarrow> u64 \<Rightarrow> string \<Rightarrow> string \<Rightarrow> quality_ledger
     \<Rightarrow> quality_error + quality_archive \<times> quality_ledger" where
  "archive_quality digest now expected_total approved_by approval_note l =
     (if blank approved_by then Inl MissingOperator
      else if blank approval_note then Inl MissingOperator
      else if ql_archive l \<noteq> None then Inl ArchiveExists
      else rbind (read_quality l) (\<lambda>current.
           rbind (checked_total current) (\<lambda>total.
           if total \<noteq> expected_total then Inl ArchiveTotalMismatch
           else let a = \<lparr>qa_schema_version = archive_schema_version, qa_archive_id = [],
                         qa_archived_at = now, qa_approved_by = trim approved_by,
                         qa_approval_note = trim approval_note,
                         qa_source_quality_errors = total, qa_counters = current\<rparr>;
                    a = a\<lparr>qa_archive_id := compute_id digest a\<rparr>
                in rbind (write_quality quality_default l) (\<lambda>l'.
                   Inr (a, l'\<lparr>ql_archive := Some a\<rparr>)))))"

definition restore_quality ::
  "(quality_archive \<Rightarrow> string) \<Rightarrow> string \<Rightarrow> quality_ledger \<Rightarrow> quality_error + quality_ledger" where
  "restore_quality digest archive_id l =
     (if blank archive_id then Inl ArchiveIdMissing
      else case ql_archive l of
        None \<Rightarrow> Inl ArchiveMissing
      | Some a \<Rightarrow>
          if qa_schema_version a \<noteq> archive_schema_version then Inl UnsupportedSchema
          else if qa_archive_id a \<noteq> compute_id digest a then Inl ArchiveIdMismatch
          else if qa_archive_id a \<noteq> archive_id then Inl ArchiveIdMismatch
          else rbind (read_quality l) (\<lambda>current.
               rbind (checked_total current) (\<lambda>total.
               if total \<noteq> 0 then Inl LiveLedgerNotEmpty
               else rbind (write_quality (qa_counters a) l) (\<lambda>l'.
                    Inr (l'\<lparr>ql_archive := None\<rparr>)))))"

definition record_quality ::
  "cloud_endpoint \<Rightarrow> u64 \<Rightarrow> u64 \<Rightarrow> (string, u64) table \<Rightarrow> quality_ledger
     \<Rightarrow> quality_error + quality_counters \<times> quality_ledger" where
  "record_quality ep unknown conv reasons l =
     (if unknown = 0 \<and> conv = 0 then rbind (read_quality l) (\<lambda>c. Inr (c, l))
      else rbind (read_quality l) (\<lambda>counters.
           rbind (add_quality ep unknown conv reasons counters) (\<lambda>counters'.
           rbind (write_quality counters' l) (\<lambda>l'. Inr (counters', l')))))"


section \<open>Totals\<close>

definition sum_values :: "(string, u64) table \<Rightarrow> nat" where
  "sum_values t = (\<Sum>r\<leftarrow>t. unat (snd r))"

definition endpoint_total :: "quality_counters \<Rightarrow> cloud_endpoint \<Rightarrow> nat" where
  "endpoint_total c ep = unat (fst (endpoint_counts c ep)) + unat (snd (endpoint_counts c ep))"

definition grand_total :: "quality_counters \<Rightarrow> nat" where
  "grand_total c = endpoint_total c OtlpLogs + endpoint_total c OtlpTraces + endpoint_total c CodexHook"

definition reasons_ok :: "(string, u64) table \<Rightarrow> bool" where
  "reasons_ok t \<longleftrightarrow> tsorted t \<and> list_all (\<lambda>r. is_quality_reason (fst r)) t"

definition quality_wf :: "quality_counters \<Rightarrow> bool" where
  "quality_wf c \<longleftrightarrow>
     (\<forall>ep. reasons_ok (reasons_of c ep) \<and> sum_values (reasons_of c ep) = endpoint_total c ep)
     \<and> grand_total c < 2 ^ 64"

lemma all_endpoints: "(\<forall>ep. P ep) \<longleftrightarrow> P OtlpLogs \<and> P OtlpTraces \<and> P CodexHook"
  by (metis cloud_endpoint.exhaust)

lemma sum_values_simps [simp]:
  "sum_values [] = 0" "sum_values (r # t) = unat (snd r) + sum_values t"
  by (simp_all add: sum_values_def)

lemma sum_values_tput:
  "tsorted t \<Longrightarrow> sum_values (tput k v t) + (case tget t k of None \<Rightarrow> 0 | Some w \<Rightarrow> unat w)
     = sum_values t + unat v"
proof (induction t)
  case (Cons r t)
  have "tget t k = None" if "k \<le> fst r"
    using Cons.prems that by (force simp: tsorted_Cons map_of_eq_None_iff)
  with Cons show ?case by (cases r) (auto simp: tsorted_Cons split: option.splits)
qed simp

lemma tget_le_sum_values: "tget t k = Some v \<Longrightarrow> unat v \<le> sum_values t"
  by (induction t) (auto split: if_splits)

lemma checked_sum_from:
  "try_fold (\<lambda>x t. ok_or Overflow (checked_add t x)) xs a =
     (if unat a + (\<Sum>x\<leftarrow>xs. unat x) < 2 ^ 64 then Inr (of_nat (unat a + (\<Sum>x\<leftarrow>xs. unat x)))
      else Inl Overflow)"
proof (induction xs arbitrary: a)
  case Nil
  show ?case using unat_u64_bound [of a] by simp
next
  case (Cons x xs)
  show ?case
  proof (cases "unat a + unat x < 2 ^ 64")
    case True
    then have "checked_add a x = Some (a + x)" by (simp add: checked_add_def)
    with True Cons show ?thesis by (simp add: unat_u64_add add.assoc)
  next
    case False
    then show ?thesis by (simp add: checked_add_def)
  qed
qed

lemma checked_sum_eq:
  "checked_sum xs =
     (if (\<Sum>x\<leftarrow>xs. unat x) < 2 ^ 64 then Inr (of_nat (\<Sum>x\<leftarrow>xs. unat x)) else Inl Overflow)"
  by (simp add: checked_sum_def checked_sum_from)

lemma checked_sum_values:
  "checked_sum (map snd t) =
     (if sum_values t < 2 ^ 64 then Inr (of_nat (sum_values t)) else Inl Overflow)"
  by (simp add: checked_sum_eq sum_values_def comp_def)

lemma checked_total_eq:
  "checked_total c = (if grand_total c < 2 ^ 64 then Inr (of_nat (grand_total c)) else Inl Overflow)"
  by (simp add: checked_total_def checked_sum_eq grand_total_def endpoint_total_def add.assoc)

lemma checked_add_of_nat:
  "unat a + unat b < 2 ^ 64 \<Longrightarrow> checked_add a b = Some (of_nat (unat a + unat b))"
  by (simp add: checked_add_def)

lemma endpoint_total_le: "endpoint_total c ep \<le> grand_total c"
  by (cases ep) (simp_all add: grand_total_def)

lemma endpoint_total_word:
  "endpoint_total c ep < 2 ^ 64 \<Longrightarrow>
     checked_add (fst (endpoint_counts c ep)) (snd (endpoint_counts c ep))
       = Some (of_nat (endpoint_total c ep))"
  by (simp add: endpoint_total_def checked_add_of_nat)

lemma set_reasons_reads [simp]:
  "endpoint_counts (set_reasons ep t c) ep' = endpoint_counts c ep'"
  "reasons_of (set_reasons ep t c) ep' = (if ep' = ep then t else reasons_of c ep')"
  by (cases ep; cases ep'; simp)+

lemma endpoint_total_set_reasons [simp]:
  "endpoint_total (set_reasons ep t c) ep' = endpoint_total c ep'"
  unfolding endpoint_total_def by simp

lemma grand_total_set_reasons [simp]: "grand_total (set_reasons ep t c) = grand_total c"
  unfolding grand_total_def by simp

lemma set_reasons_same [simp]: "set_reasons ep (reasons_of c ep) c = c"
  by (cases ep) simp_all

declare set_reasons.simps [simp del] reasons_of.simps [simp del]

lemma u64_of_nat_cmp:
  "m < 2 ^ 64 \<Longrightarrow> n < 2 ^ 64 \<Longrightarrow> (of_nat m :: u64) < of_nat n \<longleftrightarrow> m < n"
  "m < 2 ^ 64 \<Longrightarrow> n < 2 ^ 64 \<Longrightarrow> (of_nat m :: u64) = of_nat n \<longleftrightarrow> m = n"
  by (simp_all add: u64_less_iff u64_simps word_unat_eq_iff)


section \<open>Reconciliation\<close>

text \<open>What reconciling one endpoint does: the missing part goes to the legacy reason.\<close>

definition reconciled :: "(string, u64) table \<Rightarrow> nat \<Rightarrow> (string, u64) table" where
  "reconciled t n =
     (if sum_values t < n
      then tput legacy_reason
             (of_nat ((case tget t legacy_reason of None \<Rightarrow> 0 | Some v \<Rightarrow> unat v) + (n - sum_values t))) t
      else t)"

definition reconcilable :: "quality_counters \<Rightarrow> cloud_endpoint \<Rightarrow> bool" where
  "reconcilable c ep \<longleftrightarrow> endpoint_total c ep < 2 ^ 64
     \<and> list_all (\<lambda>r. is_quality_reason (fst r)) (reasons_of c ep)
     \<and> sum_values (reasons_of c ep) \<le> endpoint_total c ep"

lemma reconcile_endpoint_ok:
  assumes "reconcilable c ep"
  shows "reconcile_endpoint ep c = Inr (set_reasons ep (reconciled (reasons_of c ep) (endpoint_total c ep)) c)"
proof -
  let ?n = "endpoint_total c ep" and ?t = "reasons_of c ep"
  let ?m = "sum_values ?t" and ?v = "case tget ?t legacy_reason of None \<Rightarrow> 0 :: u64 | Some v \<Rightarrow> v"
  from assms have n: "?n < 2 ^ 64" and m: "?m \<le> ?n" "?m < 2 ^ 64"
    and v: "\<not> list_ex (\<lambda>r. \<not> is_quality_reason (fst r)) ?t"
    by (auto simp: reconcilable_def list_all_iff list_ex_iff)
  have "unat ?v \<le> ?m" by (auto simp: tget_le_sum_values split: option.splits)
  moreover have d: "(of_nat ?n :: u64) - of_nat ?m = of_nat (?n - ?m)" using m by (simp add: of_nat_diff)
  moreover have u: "unat (of_nat (?n - ?m) :: u64) = ?n - ?m" using n by (intro unat_of_nat_u64) linarith
  ultimately have "unat ?v + unat (of_nat (?n - ?m) :: u64) < 2 ^ 64" using n m by linarith
  from checked_add_of_nat [OF this]
  have "checked_add ?v (of_nat ?n - of_nat ?m) = Some (of_nat (unat ?v + (?n - ?m)))"
    unfolding d u .
  moreover have w: "unat ?v = (case tget ?t legacy_reason of None \<Rightarrow> 0 | Some v \<Rightarrow> unat v)"
    by (cases "tget ?t legacy_reason") simp_all
  ultimately have a: "checked_add ?v (of_nat ?n - of_nat ?m)
      = Some (of_nat ((case tget ?t legacy_reason of None \<Rightarrow> 0 | Some v \<Rightarrow> unat v) + (?n - ?m)))"
    by (simp only:)
  have c: "\<not> (of_nat ?n :: u64) < of_nat ?m" "(of_nat ?m :: u64) < of_nat ?n \<longleftrightarrow> ?m < ?n"
    using n m u64_of_nat_cmp(1) [of ?m ?n] u64_of_nat_cmp(1) [of ?n ?m] by simp_all
  have s: "checked_sum (map snd ?t) = Inr (of_nat ?m)" using m by (simp add: checked_sum_values)
  show ?thesis
    by (simp only: reconcile_endpoint_def endpoint_total_word [OF n] ok_or_simps rbind_simps Let_def v
        s c a if_False reconciled_def set_reasons_same split: if_split) simp
qed

lemma reconcile_endpoint_Inr:
  assumes "reconcile_endpoint ep c = Inr c'"
  shows "reconcilable c ep"
proof -
  from assms obtain n m where n: "checked_add (fst (endpoint_counts c ep)) (snd (endpoint_counts c ep)) = Some n"
    and v: "\<not> list_ex (\<lambda>r. \<not> is_quality_reason (fst r)) (reasons_of c ep)"
    and m: "checked_sum (map snd (reasons_of c ep)) = Inr m" "\<not> n < m"
    by (auto simp: reconcile_endpoint_def Let_def res_simps split: if_splits)
  from n have "endpoint_total c ep < 2 ^ 64" "unat n = endpoint_total c ep"
    by (auto simp: checked_add_eq_Some endpoint_total_def)
  moreover from m(1) have "unat m = sum_values (reasons_of c ep)"
    by (auto simp: checked_sum_values u64_simps split: if_splits)
  ultimately show ?thesis
    using v m(2) by (auto simp: reconcilable_def list_all_iff list_ex_iff u64_less_iff)
qed

lemma reconcile_endpoint_eq:
  "reconcile_endpoint ep c = Inr c' \<longleftrightarrow>
     reconcilable c ep \<and> c' = set_reasons ep (reconciled (reasons_of c ep) (endpoint_total c ep)) c"
  using reconcile_endpoint_ok [of c ep] reconcile_endpoint_Inr [of ep c] by auto

lemma list_all_reasons:
  "list_all (\<lambda>r. is_quality_reason (fst r)) t \<longleftrightarrow> fst ` set t \<subseteq> {k. is_quality_reason k}"
  by (auto simp: list_all_iff)

lemma reasons_ok_tput:
  "reasons_ok t \<Longrightarrow> is_quality_reason k \<Longrightarrow> reasons_ok (tput k v t)"
  by (simp only: reasons_ok_def list_all_reasons fst_set_tput tsorted_tput) simp

lemma reconciled_ok:
  assumes "tsorted t" "list_all (\<lambda>r. is_quality_reason (fst r)) t" "sum_values t \<le> n" "n < 2 ^ 64"
  shows "reasons_ok (reconciled t n) \<and> sum_values (reconciled t n) = n"
proof -
  let ?v = "case tget t legacy_reason of None \<Rightarrow> 0 | Some v \<Rightarrow> unat v"
  have "?v \<le> sum_values t" by (auto simp: tget_le_sum_values split: option.splits)
  with assms have "unat (of_nat (?v + (n - sum_values t)) :: u64) = ?v + (n - sum_values t)"
    by (intro unat_of_nat_u64) linarith
  with assms(3) sum_values_tput [OF assms(1), of legacy_reason "of_nat (?v + (n - sum_values t))"]
  have "sum_values t < n \<Longrightarrow> sum_values (reconciled t n) = n"
    using \<open>?v \<le> sum_values t\<close> by (simp add: reconciled_def split: option.splits del: of_nat_add of_nat_diff)
  moreover have "reasons_ok t" using assms by (simp add: reasons_ok_def)
  then have "reasons_ok (reconciled t n)"
    by (simp add: reconciled_def reasons_ok_tput is_quality_reason_def)
  ultimately show ?thesis using assms(3) by (cases "sum_values t < n") (simp_all add: reconciled_def)
qed

lemma counters_eqI:
  "endpoint_counts c = endpoint_counts d \<Longrightarrow> reasons_of c = reasons_of d \<Longrightarrow> c = d"
  by (cases c; cases d) (auto simp: fun_eq_iff all_endpoints reasons_of.simps)

lemma wf_reconcilable:
  assumes "quality_wf c"
  shows "reconcilable c ep" "reconciled (reasons_of c ep) (endpoint_total c ep) = reasons_of c ep"
proof -
  from assms have "reasons_ok (reasons_of c ep)" "sum_values (reasons_of c ep) = endpoint_total c ep"
    "grand_total c < 2 ^ 64"
    by (simp_all add: quality_wf_def)
  with endpoint_total_le [of c ep]
  show "reconcilable c ep" "reconciled (reasons_of c ep) (endpoint_total c ep) = reasons_of c ep"
    by (simp_all add: reconcilable_def reconciled_def reasons_ok_def)
qed

text \<open>Reading a well-formed value changes nothing.\<close>

lemma reconcile_wf: "quality_wf c \<Longrightarrow> reconcile_reason_maps c = Inr c"
  by (simp add: reconcile_reason_maps_def reconcile_endpoint_ok wf_reconcilable checked_total_eq)
    (simp add: quality_wf_def)

lemma reconcilable_set_reasons [simp]:
  "ep \<noteq> ep' \<Longrightarrow> reconcilable (set_reasons ep' t c) ep = reconcilable c ep"
  by (simp add: reconcilable_def)

lemma reconcile_Inr:
  assumes "reconcile_reason_maps c = Inr c'" "\<And>ep. tsorted (reasons_of c ep)"
  shows "quality_wf c' \<and> endpoint_counts c' = endpoint_counts c"
proof -
  let ?r = "\<lambda>ep. reconciled (reasons_of c ep) (endpoint_total c ep)"
  from assms(1) have rec: "\<And>ep. reconcilable c ep" and g: "grand_total c < 2 ^ 64"
    and c': "c' = set_reasons CodexHook (?r CodexHook)
      (set_reasons OtlpTraces (?r OtlpTraces) (set_reasons OtlpLogs (?r OtlpLogs) c))"
    by (auto simp: reconcile_reason_maps_def res_simps reconcile_endpoint_eq
      checked_total_eq all_endpoints split: if_splits)
      (metis cloud_endpoint.exhaust)
  have "reasons_ok (?r ep) \<and> sum_values (?r ep) = endpoint_total c ep" for ep
    using rec [of ep] assms(2) [of ep] by (intro reconciled_ok) (auto simp: reconcilable_def)
  moreover have "reasons_of c' ep = ?r ep" "endpoint_total c' ep = endpoint_total c ep" for ep
    by (cases ep; simp add: c')+
  moreover have "grand_total c' = grand_total c" by (simp add: c')
  ultimately show ?thesis using g by (auto simp: quality_wf_def c' fun_eq_iff)
qed


section \<open>Adding one batch\<close>

definition count_of :: "(string, u64) table \<Rightarrow> string \<Rightarrow> nat" where
  "count_of t k = (case tget t k of None \<Rightarrow> 0 | Some v \<Rightarrow> unat v)"

lemma count_of_le: "count_of t k \<le> sum_values t"
  by (auto simp: count_of_def tget_le_sum_values split: option.split)

lemma add_reason_step:
  assumes "tsorted t" "sum_values t + unat v < 2 ^ 64"
  shows "\<exists>t'. add_reason (k, v) t = Inr t' \<and> tsorted t' \<and> sum_values t' = sum_values t + unat v
     \<and> fst ` set t' = insert k (fst ` set t)
     \<and> (\<forall>j. count_of t' j = count_of t j + (if j = k then unat v else 0))"
proof -
  let ?w = "case tget t k of None \<Rightarrow> 0 | Some v \<Rightarrow> v"
  have w: "unat ?w = count_of t k" by (simp add: count_of_def split: option.split)
  with count_of_le [of t k] assms(2) have b: "count_of t k + unat v < 2 ^ 64" by linarith
  then have "add_reason (k, v) t = Inr (tput k (of_nat (count_of t k + unat v)) t)"
    using checked_add_of_nat [of ?w v] by (simp add: add_reason_def w)
  moreover have u: "unat (of_nat (count_of t k + unat v) :: u64) = count_of t k + unat v"
    using b by (rule unat_of_nat_u64)
  moreover have "sum_values (tput k (of_nat (count_of t k + unat v)) t) = sum_values t + unat v"
    using sum_values_tput [OF assms(1), of k "of_nat (count_of t k + unat v)"] u
    by (simp add: count_of_def split: option.splits)
  moreover have "count_of (tput k (of_nat (count_of t k + unat v)) t) j
      = count_of t j + (if j = k then unat v else 0)" for j
    using u by (simp add: count_of_def)
  ultimately show ?thesis using assms(1) by (simp add: fst_set_tput)
qed

lemma add_reasons:
  assumes "tsorted t" "sum_values t + sum_values rs < 2 ^ 64" "distinct (map fst rs)"
  shows "\<exists>t'. try_fold add_reason rs t = Inr t' \<and> tsorted t'
     \<and> sum_values t' = sum_values t + sum_values rs \<and> fst ` set t' = fst ` set t \<union> fst ` set rs
     \<and> (\<forall>k. count_of t' k = count_of t k + count_of rs k)"
  using assms
proof (induction rs arbitrary: t)
  case Nil
  then show ?case by (simp add: count_of_def)
next
  case (Cons r rs)
  obtain k v where r: "r = (k, v)" by (cases r)
  from Cons.prems r have "sum_values t + unat v < 2 ^ 64" by simp
  from add_reason_step [OF Cons.prems(1) this, of k] obtain u where u: "add_reason (k, v) t = Inr u"
    "tsorted u" "sum_values u = sum_values t + unat v" "fst ` set u = insert k (fst ` set t)"
    "\<forall>j. count_of u j = count_of t j + (if j = k then unat v else 0)"
    by blast
  from Cons.IH [OF u(2)] u(3) Cons.prems(2,3) r obtain t' where t': "try_fold add_reason rs u = Inr t'"
    "tsorted t'" "sum_values t' = sum_values u + sum_values rs" "fst ` set t' = fst ` set u \<union> fst ` set rs"
    "\<forall>k. count_of t' k = count_of u k + count_of rs k"
    by auto
  have "tget rs k = None" using Cons.prems(3) r by (simp add: map_of_eq_None_iff)
  then have "count_of (r # rs) j = (if j = k then unat v else 0) + count_of rs j" for j
    using r by (simp add: count_of_def)
  with t' u r show ?case by simp
qed

lemma add_counts_eq:
  "add_counts ep u e c = Inr c' \<longleftrightarrow>
     unat (fst (endpoint_counts c ep)) + unat u < 2 ^ 64 \<and> unat (snd (endpoint_counts c ep)) + unat e < 2 ^ 64
     \<and> endpoint_counts c' = (endpoint_counts c)
          (ep := (fst (endpoint_counts c ep) + u, snd (endpoint_counts c ep) + e))
     \<and> reasons_of c' = reasons_of c"
proof -
  have "\<exists>d. add_counts ep u e c = (if unat (fst (endpoint_counts c ep)) + unat u < 2 ^ 64
        \<and> unat (snd (endpoint_counts c ep)) + unat e < 2 ^ 64 then Inr d else Inl Overflow)
     \<and> endpoint_counts d = (endpoint_counts c)
          (ep := (fst (endpoint_counts c ep) + u, snd (endpoint_counts c ep) + e))
     \<and> reasons_of d = reasons_of c"
    by (cases ep; rule exI [where x = "(case ep of
          OtlpLogs \<Rightarrow> c\<lparr>otlp_logs_unknown_events := otlp_logs_unknown_events c + u,
                      otlp_logs_conversion_errors := otlp_logs_conversion_errors c + e\<rparr>
        | OtlpTraces \<Rightarrow> c\<lparr>otlp_traces_unknown_events := otlp_traces_unknown_events c + u,
                      otlp_traces_conversion_errors := otlp_traces_conversion_errors c + e\<rparr>
        | CodexHook \<Rightarrow> c\<lparr>codex_hook_unknown_events := codex_hook_unknown_events c + u,
                      codex_hook_conversion_errors := codex_hook_conversion_errors c + e\<rparr>)"])
      (simp_all add: checked_add_def ok_or_def fun_eq_iff all_endpoints reasons_of.simps)
  then obtain d where d: "add_counts ep u e c = (if unat (fst (endpoint_counts c ep)) + unat u < 2 ^ 64
        \<and> unat (snd (endpoint_counts c ep)) + unat e < 2 ^ 64 then Inr d else Inl Overflow)"
    "endpoint_counts d = (endpoint_counts c)
       (ep := (fst (endpoint_counts c ep) + u, snd (endpoint_counts c ep) + e))"
    "reasons_of d = reasons_of c"
    by blast
  then show ?thesis by (auto intro: counters_eqI)
qed

text \<open>The requests that \<open>add\<close> does not refuse.\<close>

definition batch_valid :: "u64 \<Rightarrow> u64 \<Rightarrow> (string, u64) table \<Rightarrow> bool" where
  "batch_valid u e rs \<longleftrightarrow> unat u + unat e < 2 ^ 64 \<and> sum_values rs = unat u + unat e
     \<and> list_all (\<lambda>r. is_quality_reason (fst r)) rs"

text \<open>The counters after adding a batch, by their reads.\<close>

definition added ::
  "cloud_endpoint \<Rightarrow> u64 \<Rightarrow> u64 \<Rightarrow> (string, u64) table \<Rightarrow> quality_counters \<Rightarrow> quality_counters \<Rightarrow> bool" where
  "added ep u e rs c c' \<longleftrightarrow>
     (\<forall>x. unat (fst (endpoint_counts c' x)) = unat (fst (endpoint_counts c x)) + (if x = ep then unat u else 0)
        \<and> unat (snd (endpoint_counts c' x)) = unat (snd (endpoint_counts c x)) + (if x = ep then unat e else 0)
        \<and> (\<forall>k. count_of (reasons_of c' x) k = count_of (reasons_of c x) k + (if x = ep then count_of rs k else 0)))"

lemma added_total:
  assumes "added ep u e rs c c'"
  shows "endpoint_total c' x = endpoint_total c x + (if x = ep then unat u + unat e else 0)"
    and "grand_total c' = grand_total c + unat u + unat e"
proof -
  have t: "endpoint_total c' x = endpoint_total c x + (if x = ep then unat u + unat e else 0)" for x
    using assms by (simp add: added_def endpoint_total_def)
  then show "endpoint_total c' x = endpoint_total c x + (if x = ep then unat u + unat e else 0)" .
  show "grand_total c' = grand_total c + unat u + unat e"
    by (cases ep) (simp_all add: grand_total_def t)
qed

lemma add_quality_ok:
  assumes wf: "quality_wf c" and rs: "tsorted rs" "batch_valid u e rs"
    and fits: "endpoint_total c ep + unat u + unat e < 2 ^ 64"
  shows "\<exists>c'. add_quality ep u e rs c = Inr c' \<and> added ep u e rs c c'
    \<and> (\<forall>x. reasons_ok (reasons_of c' x) \<and> sum_values (reasons_of c' x) = endpoint_total c' x)"
proof -
  let ?f = "fst (endpoint_counts c ep)" and ?s = "snd (endpoint_counts c ep)"
  from fits have f: "unat ?f + unat u < 2 ^ 64" "unat ?s + unat e < 2 ^ 64"
    by (simp_all add: endpoint_total_def)
  define d where "d = (case add_counts ep u e c of Inr d \<Rightarrow> d | Inl _ \<Rightarrow> c)"
  have "add_counts ep u e c = Inr d"
    using f by (cases ep) (auto simp: d_def checked_add_def)
  then have d: "add_counts ep u e c = Inr d"
    and dc: "endpoint_counts d = (endpoint_counts c)(ep := (?f + u, ?s + e))" "reasons_of d = reasons_of c"
    by (simp_all add: add_counts_eq)
  have r: "reasons_ok (reasons_of c x)" "sum_values (reasons_of c x) = endpoint_total c x" for x
    using wf by (simp_all add: quality_wf_def)
  have "tsorted (reasons_of c ep)" "sum_values (reasons_of c ep) + sum_values rs < 2 ^ 64" "distinct (map fst rs)"
    using r [of ep] rs fits by (simp_all add: batch_valid_def reasons_ok_def tsorted_distinct)
  from add_reasons [OF this] obtain t where t: "try_fold add_reason rs (reasons_of c ep) = Inr t" "tsorted t"
    "sum_values t = sum_values (reasons_of c ep) + sum_values rs"
    "fst ` set t = fst ` set (reasons_of c ep) \<union> fst ` set rs"
    "\<forall>k. count_of t k = count_of (reasons_of c ep) k + count_of rs k"
    by blast
  have "add_quality ep u e rs c = Inr (set_reasons ep t d)"
    using rs(2) d t(1) dc(2)
    by (simp add: add_quality_def batch_valid_def checked_add_def checked_sum_values)
  moreover have a: "added ep u e rs c (set_reasons ep t d)"
    using f t(5) by (simp add: added_def dc unat_u64_add)
  moreover have "sum_values (reasons_of (set_reasons ep t d) x) = endpoint_total (set_reasons ep t d) x" for x
    using added_total(1) [OF a, of x] t(3) r rs(2) by (simp add: dc batch_valid_def)
  moreover have "reasons_ok t"
    using t(2,4) r(1) [of ep] rs(2) by (simp add: reasons_ok_def batch_valid_def list_all_reasons)
  then have "reasons_ok (reasons_of (set_reasons ep t d) x)" for x
    using r(1) by (simp add: dc)
  ultimately show ?thesis by blast
qed

lemma add_quality_Inr:
  assumes "quality_wf c" "add_quality ep u e rs c = Inr c'"
  shows "batch_valid u e rs"
proof -
  from assms(2) obtain x where x: "checked_add u e = Some x" "checked_sum (map snd rs) = Inr x"
    and v: "list_all (\<lambda>r. is_quality_reason (fst r)) rs"
    by (auto simp: add_quality_def res_simps split: if_splits)
  from x have "unat u + unat e < 2 ^ 64" "unat x = unat u + unat e" "unat x = sum_values rs"
    by (auto simp: checked_add_eq_Some checked_sum_values u64_simps split: if_splits)
  with v show ?thesis by (simp add: batch_valid_def)
qed

lemma add_quality_fits:
  assumes "add_quality ep u e rs c = Inr c'" "batch_valid u e rs"
  shows "grand_total c' = grand_total c + unat u + unat e"
proof -
  from assms(1) obtain d t where d: "add_counts ep u e c = Inr d" and c': "c' = set_reasons ep t d"
    by (auto simp: add_quality_def res_simps split: if_splits)
  from d have "endpoint_total d x = endpoint_total c x + (if x = ep then unat u + unat e else 0)" for x
    by (simp add: add_counts_eq endpoint_total_def unat_u64_add)
  then show ?thesis by (cases ep) (simp_all add: c' grand_total_def)
qed


section \<open>The ledger's operations\<close>

definition live_counters :: "quality_ledger \<Rightarrow> quality_counters" where
  "live_counters l = (case ql_counters l of None \<Rightarrow> quality_default | Some c \<Rightarrow> c)"

definition archive_ok :: "(quality_archive \<Rightarrow> string) \<Rightarrow> quality_archive \<Rightarrow> bool" where
  "archive_ok digest a \<longleftrightarrow> qa_schema_version a = archive_schema_version
     \<and> qa_archive_id a = compute_id digest a \<and> quality_wf (qa_counters a)
     \<and> unat (qa_source_quality_errors a) = grand_total (qa_counters a)"

definition ledger_wf :: "(quality_archive \<Rightarrow> string) \<Rightarrow> quality_ledger \<Rightarrow> bool" where
  "ledger_wf digest l \<longleftrightarrow> quality_wf (live_counters l) \<and> (\<forall>a. ql_archive l = Some a \<longrightarrow> archive_ok digest a)"

definition archived_total :: "quality_ledger \<Rightarrow> nat" where
  "archived_total l = (case ql_archive l of None \<Rightarrow> 0 | Some a \<Rightarrow> grand_total (qa_counters a))"

lemma quality_wf_default [simp]: "quality_wf quality_default" "grand_total quality_default = 0"
  by (simp_all add: quality_wf_def quality_default_def all_endpoints reasons_ok_def reasons_of.simps
    endpoint_total_def grand_total_def)

lemma read_quality_wf: "quality_wf (live_counters l) \<Longrightarrow> read_quality l = Inr (live_counters l)"
  by (simp add: read_quality_def live_counters_def [symmetric] reconcile_wf)

lemma write_quality_wf: "quality_wf c \<Longrightarrow> write_quality c l = Inr (l\<lparr>ql_counters := Some c\<rparr>)"
  by (simp add: write_quality_def reconcile_wf)

lemma total_of_wf:
  "quality_wf c \<Longrightarrow> checked_total c = Inr (of_nat (grand_total c))"
  by (simp add: checked_total_eq quality_wf_def)

lemma live_counters_update [simp]:
  "live_counters (l\<lparr>ql_counters := Some c\<rparr>) = c"
  "live_counters (l\<lparr>ql_archive := x\<rparr>) = live_counters l"
  by (simp_all add: live_counters_def)

lemma record_quality_eq:
  assumes "quality_wf (live_counters l)" "tsorted rs" "u \<noteq> 0 \<or> e \<noteq> 0"
  shows "record_quality ep u e rs l = Inr (c', l') \<longleftrightarrow>
    batch_valid u e rs \<and> grand_total (live_counters l) + unat u + unat e < 2 ^ 64
    \<and> quality_wf c' \<and> added ep u e rs (live_counters l) c'
    \<and> add_quality ep u e rs (live_counters l) = Inr c' \<and> l' = l\<lparr>ql_counters := Some c'\<rparr>"
  (is "?L \<longleftrightarrow> ?R")
proof
  assume ?R
  with assms show ?L by (auto simp: record_quality_def read_quality_wf write_quality_wf)
next
  let ?c = "live_counters l"
  assume ?L
  with assms have a: "add_quality ep u e rs ?c = Inr c'" and w: "write_quality c' l = Inr l'"
    by (auto simp: record_quality_def read_quality_wf res_simps)
  have v: "batch_valid u e rs" by (rule add_quality_Inr [OF assms(1) a])
  obtain c2 where c2: "reconcile_reason_maps c' = Inr c2" "l' = l\<lparr>ql_counters := Some c2\<rparr>"
    using w by (auto simp: write_quality_def res_simps)
  have "grand_total c' < 2 ^ 64"
    using c2(1) by (auto simp: reconcile_reason_maps_def res_simps reconcile_endpoint_eq checked_total_eq
      split: if_splits)
  then have g: "grand_total ?c + unat u + unat e < 2 ^ 64" using add_quality_fits [OF a v] by simp
  with endpoint_total_le [of ?c ep] have "endpoint_total ?c ep + unat u + unat e < 2 ^ 64" by linarith
  from add_quality_ok [OF assms(1,2) v this] a
  have ad: "added ep u e rs ?c c'"
    and ok: "\<forall>x. reasons_ok (reasons_of c' x) \<and> sum_values (reasons_of c' x) = endpoint_total c' x"
    by auto
  with \<open>grand_total c' < 2 ^ 64\<close> have wf: "quality_wf c'" by (simp add: quality_wf_def)
  with c2 have "c2 = c'" by (simp add: reconcile_wf)
  with v g wf ad a c2 show ?R by simp
qed

lemma compute_id_idle [simp]: "compute_id digest (a\<lparr>qa_archive_id := x\<rparr>) = compute_id digest a"
  by (simp add: compute_id_def)

lemma archive_quality_eq:
  assumes "ledger_wf digest l"
  shows "archive_quality digest now n who note l = Inr (a, l') \<longleftrightarrow>
    \<not> blank who \<and> \<not> blank note \<and> ql_archive l = None
    \<and> unat n = grand_total (live_counters l)
    \<and> a = (let a = \<lparr>qa_schema_version = archive_schema_version, qa_archive_id = [],
              qa_archived_at = now, qa_approved_by = trim who, qa_approval_note = trim note,
              qa_source_quality_errors = n, qa_counters = live_counters l\<rparr>
           in a\<lparr>qa_archive_id := compute_id digest a\<rparr>)
    \<and> l' = \<lparr>ql_counters = Some quality_default, ql_archive = Some a\<rparr>"
proof -
  have wf: "quality_wf (live_counters l)" using assms by (simp add: ledger_wf_def)
  then have "grand_total (live_counters l) < 2 ^ 64" by (simp add: quality_wf_def)
  then have "of_nat (grand_total (live_counters l)) = n \<longleftrightarrow> unat n = grand_total (live_counters l)"
    by (auto simp: word_unat_eq_iff unat_of_nat_u64)
  then show ?thesis
    using wf by (cases l)
      (auto simp: archive_quality_def read_quality_wf write_quality_wf total_of_wf Let_def)
qed

lemma restore_quality_eq:
  assumes "ledger_wf digest l"
  shows "restore_quality digest i l = Inr l' \<longleftrightarrow>
    \<not> blank i \<and> grand_total (live_counters l) = 0
    \<and> (\<exists>a. ql_archive l = Some a \<and> qa_archive_id a = i
          \<and> l' = \<lparr>ql_counters = Some (qa_counters a), ql_archive = None\<rparr>)"
proof -
  have wf: "quality_wf (live_counters l)" using assms by (simp add: ledger_wf_def)
  then have "grand_total (live_counters l) < 2 ^ 64" by (simp add: quality_wf_def)
  then have "(of_nat (grand_total (live_counters l)) :: u64) = 0 \<longleftrightarrow> grand_total (live_counters l) = 0"
    using u64_of_nat_cmp(2) [of "grand_total (live_counters l)" 0] by simp
  then show ?thesis
    using wf assms by (cases l)
      (auto simp: restore_quality_def read_quality_wf write_quality_wf total_of_wf ledger_wf_def archive_ok_def
        split: option.splits)
qed


lemma record_quality_succeeds:
  assumes "ledger_wf digest l" "tsorted rs" "u \<noteq> 0 \<or> e \<noteq> 0"
    and "batch_valid u e rs" "grand_total (live_counters l) + unat u + unat e < 2 ^ 64"
  shows "\<exists>c l'. record_quality ep u e rs l = Inr (c, l')"
proof -
  let ?c = "live_counters l"
  have wf: "quality_wf ?c" using assms(1) by (simp add: ledger_wf_def)
  from assms(5) endpoint_total_le [of ?c ep] have "endpoint_total ?c ep + unat u + unat e < 2 ^ 64" by linarith
  from add_quality_ok [OF wf assms(2,4) this] have "\<exists>c. quality_wf c \<and> added ep u e rs ?c c \<and> add_quality ep u e rs ?c = Inr c"
    using assms(5) added_total(2) by (fastforce simp: quality_wf_def)
  with assms show ?thesis by (auto simp: record_quality_eq [OF wf assms(2,3)])
qed


section \<open>The ledger over time\<close>

text \<open>
  The steps of the ledger with the number of errors each one records.  A refused operation
  aborts its transaction and is no step.
\<close>

inductive quality_step :: "(quality_archive \<Rightarrow> string) \<Rightarrow> quality_ledger \<Rightarrow> nat \<Rightarrow> quality_ledger \<Rightarrow> bool"
  for digest where
  step_record:
    "record_quality ep u e rs l = Inr (c, l') \<Longrightarrow> tsorted rs \<Longrightarrow> quality_step digest l (unat u + unat e) l'"
| step_archive:
    "archive_quality digest now n who note l = Inr (a, l') \<Longrightarrow> quality_step digest l 0 l'"
| step_restore:
    "restore_quality digest i l = Inr l' \<Longrightarrow> quality_step digest l 0 l'"

inductive quality_run :: "(quality_archive \<Rightarrow> string) \<Rightarrow> quality_ledger \<Rightarrow> nat \<Rightarrow> quality_ledger \<Rightarrow> bool"
  for digest where
  run_nil: "quality_run digest l 0 l"
| run_step: "quality_run digest l n l' \<Longrightarrow> quality_step digest l' m l'' \<Longrightarrow> quality_run digest l (n + m) l''"

lemma quality_step_conserves:
  assumes "quality_step digest l n l'" "ledger_wf digest l"
  shows "ledger_wf digest l' \<and>
    grand_total (live_counters l') + archived_total l' = grand_total (live_counters l) + archived_total l + n"
  using assms
proof (cases rule: quality_step.cases)
  case (step_record ep u e rs c)
  show ?thesis
  proof (cases "u \<noteq> 0 \<or> e \<noteq> 0")
    case True
    with step_record assms(2) have "quality_wf c" "added ep u e rs (live_counters l) c"
      "l' = l\<lparr>ql_counters := Some c\<rparr>"
      by (auto simp: record_quality_eq ledger_wf_def)
    then show ?thesis
      using added_total(2) assms(2) step_record(1) by (simp add: ledger_wf_def archived_total_def)
  next
    case False
    with step_record have "l' = l" "n = 0" by (auto simp: record_quality_def res_simps)
    with assms(2) show ?thesis by simp
  qed
next
  case (step_archive now k who why a)
  with assms(2) have "ql_archive l = None" "qa_counters a = live_counters l"
    "l' = \<lparr>ql_counters = Some quality_default, ql_archive = Some a\<rparr>" "archive_ok digest a"
    by (simp_all add: archive_quality_eq ledger_wf_def archive_ok_def Let_def compute_id_def)
  then show ?thesis
    using step_archive(1) by (simp add: ledger_wf_def archived_total_def live_counters_def)
next
  case (step_restore i)
  with assms(2) obtain a where "ql_archive l = Some a" "grand_total (live_counters l) = 0"
    "l' = \<lparr>ql_counters = Some (qa_counters a), ql_archive = None\<rparr>"
    by (auto simp: restore_quality_eq)
  moreover from this have "quality_wf (qa_counters a)"
    using assms(2) by (simp add: ledger_wf_def archive_ok_def)
  ultimately show ?thesis
    using step_restore(1) by (simp add: ledger_wf_def archived_total_def live_counters_def)
qed

lemma ledger_wf_empty [simp]: "ledger_wf digest \<lparr>ql_counters = Some quality_default, ql_archive = None\<rparr>"
  by (simp add: ledger_wf_def live_counters_def)

text \<open>A ledger with two errors on record, and a digest.\<close>

definition example_quality :: quality_ledger where
  "example_quality =
     \<lparr>ql_counters = Some (quality_default\<lparr>otlp_logs_unknown_events := 2,
        otlp_logs_quality_reasons := [(''legacy_unclassified'', 2)]\<rparr>), ql_archive = None\<rparr>"

definition example_digest :: "quality_archive \<Rightarrow> string" where
  "example_digest a = ''digest''"

lemma example_quality_wf: "ledger_wf example_digest example_quality"
  by (simp add: ledger_wf_def live_counters_def example_quality_def quality_wf_def quality_default_def
    all_endpoints reasons_ok_def reasons_of.simps endpoint_total_def grand_total_def tsorted_def
    is_quality_reason_def legacy_reason_def)

lemma example_quality_total:
  "grand_total (live_counters example_quality) = 2" "archived_total example_quality = 0"
  by (simp_all add: live_counters_def example_quality_def quality_default_def endpoint_total_def
    grand_total_def archived_total_def)

text \<open>
  Recording a batch of quality errors in a consistent ledger succeeds exactly when the
  reasons add up to the batch's counters, every reason is a known code, and the grand total
  still fits a \<open>u64\<close>; then the endpoint's two counters and every reason grow by exactly the
  batch, all others stay, the reasons still add up, and the archive is untouched.
\<close>

theorem record_quality_exact:
  assumes "ledger_wf digest l" "tsorted rs" "u \<noteq> 0 \<or> e \<noteq> 0"
  shows "((\<exists>c l'. record_quality ep u e rs l = Inr (c, l')) \<longleftrightarrow>
      batch_valid u e rs \<and> grand_total (live_counters l) + unat u + unat e < 2 ^ 64)
    \<and> (\<forall>c l'. record_quality ep u e rs l = Inr (c, l') \<longrightarrow>
      added ep u e rs (live_counters l) c \<and> quality_wf c \<and> l' = l\<lparr>ql_counters := Some c\<rparr>)"
proof -
  let ?c = "live_counters l"
  have wf: "quality_wf ?c" using assms(1) by (simp add: ledger_wf_def)
  note eq = record_quality_eq [OF wf assms(2,3)]
  show ?thesis
    using record_quality_succeeds [OF assms] by (auto simp: eq)
qed

theorem record_quality_exact_witness:
  "(\<exists>c l'. record_quality CodexHook 2 1 [(''invalid_tool'', 3)] example_quality = Inr (c, l'))
   \<and> \<not> (\<exists>c l'. record_quality CodexHook 2 1 [(''invalid_tool'', 2)] example_quality = Inr (c, l'))"
  using record_quality_exact [of example_digest example_quality "[(''invalid_tool'', 3)]" 2 1 CodexHook]
    record_quality_exact [of example_digest example_quality "[(''invalid_tool'', 2)]" 2 1 CodexHook]
  by (simp add: example_quality_wf example_quality_total tsorted_def batch_valid_def is_quality_reason_def
      quality_reason_codes_def)

text \<open>
  C13: No quality error is ever lost: over any sequence of recordings, archivings and
  restorings the ledger stays consistent and its live and archived totals together grow by
  exactly the errors recorded.
\<close>

theorem quality_conserved:
  assumes "quality_run digest l n l'" "ledger_wf digest l"
  shows "ledger_wf digest l' \<and>
    grand_total (live_counters l') + archived_total l' = grand_total (live_counters l) + archived_total l + n"
  using assms by (induction rule: quality_run.induct) (auto dest: quality_step_conserves)

theorem quality_conserved_witness:
  "\<exists>l'. quality_run example_digest example_quality 3 l'
     \<and> grand_total (live_counters l') + archived_total l' = 5"
proof -
  have "\<exists>c l'. record_quality CodexHook 2 1 [(''invalid_tool'', 3)] example_quality = Inr (c, l')"
    by (rule record_quality_succeeds [OF example_quality_wf])
      (simp_all add: example_quality_total tsorted_def batch_valid_def is_quality_reason_def
        quality_reason_codes_def)
  then obtain c l' where r: "record_quality CodexHook 2 1 [(''invalid_tool'', 3)] example_quality = Inr (c, l')"
    by blast
  have "quality_step example_digest example_quality 3 l'"
    using step_record [OF r, of example_digest] by (simp add: tsorted_def)
  then have run: "quality_run example_digest example_quality 3 l'"
    using run_step [OF run_nil] by fastforce
  from quality_conserved [OF run example_quality_wf]
  show ?thesis using run by (auto simp: example_quality_total)
qed

text \<open>
  Archiving empties the live counters into a valid archive; restoring by its id gives back
  exactly the counters archived, per endpoint and reason, and an error recorded in between
  makes the restore fail.
\<close>

theorem archive_restore_roundtrip:
  assumes "ledger_wf digest l" "archive_quality digest now n who note l = Inr (a, l')"
    and "\<And>a. \<not> blank (digest a)"
  shows "live_counters l' = quality_default
    \<and> quality_snapshot digest l' = Inr (quality_default, Some a)
    \<and> restore_quality digest (qa_archive_id a) l' =
        Inr \<lparr>ql_counters = Some (live_counters l), ql_archive = None\<rparr>
    \<and> (\<forall>m l2. 0 < m \<longrightarrow> quality_step digest l' m l2 \<longrightarrow>
         (\<forall>i. \<exists>err. restore_quality digest i l2 = Inl err))"
proof -
  from assms(1,2) have l': "l' = \<lparr>ql_counters = Some quality_default, ql_archive = Some a\<rparr>"
    and a: "qa_counters a = live_counters l" "qa_archive_id a = compute_id digest a"
      "archive_ok digest a" "unat n = grand_total (live_counters l)" "qa_source_quality_errors a = n"
    by (simp_all add: archive_quality_eq archive_ok_def ledger_wf_def Let_def compute_id_def)
  have wf': "ledger_wf digest l'" using l' a(3) by (simp add: ledger_wf_def live_counters_def)
  have "quality_wf (live_counters l)" using assms(1) by (simp add: ledger_wf_def)
  then have "(of_nat (grand_total (live_counters l)) :: u64) = n"
    using a(4) by (simp add: word_unat_eq_iff unat_of_nat_u64 quality_wf_def)
  with a wf' l' have snap: "quality_snapshot digest l' = Inr (quality_default, Some a)"
    using \<open>quality_wf (live_counters l)\<close>
    by (simp add: quality_snapshot_def read_quality_wf total_of_wf archive_ok_def live_counters_def)
  have "\<not> blank (qa_archive_id a)" using a(2) assms(3) by (simp add: compute_id_def)
  then have rest: "restore_quality digest (qa_archive_id a) l' =
      Inr \<lparr>ql_counters = Some (live_counters l), ql_archive = None\<rparr>"
    by (simp only: restore_quality_eq [OF wf']) (simp add: l' live_counters_def a(1))
  have "\<exists>err. restore_quality digest i l2 = Inl err"
    if m: "0 < m" and step: "quality_step digest l' m l2" for m l2 i
  proof -
    from step m have "ql_archive l2 = Some a"
    proof (cases rule: quality_step.cases)
      case (step_record ep u e rs c)
      with m have "u \<noteq> 0 \<or> e \<noteq> 0" by auto
      with step_record wf' l' show ?thesis by (simp add: record_quality_eq ledger_wf_def)
    qed (use m in auto)
    with quality_step_conserves [OF step wf'] m l'
    have "ledger_wf digest l2" "grand_total (live_counters l2) \<noteq> 0"
      by (auto simp: archived_total_def live_counters_def)
    then show ?thesis
      using restore_quality_eq [of digest l2 i] by (cases "restore_quality digest i l2") auto
  qed
  with l' snap rest show ?thesis by (simp add: live_counters_def)
qed

theorem archive_restore_roundtrip_witness:
  "\<exists>a l'. archive_quality example_digest ''now'' 2 '' lee '' ''ok'' example_quality = Inr (a, l')
     \<and> restore_quality example_digest (qa_archive_id a) l' = Inr example_quality"
proof -
  have b: "\<not> blank '' lee ''" "\<not> blank ''ok''" "\<not> blank ''digest''"
    by (simp_all add: blank_def trim_def trim_start_def trim_end_def) code_simp+
  have "\<exists>a l'. archive_quality example_digest ''now'' 2 '' lee '' ''ok'' example_quality = Inr (a, l')"
    by (simp add: archive_quality_eq [OF example_quality_wf] b Let_def example_quality_total(1))
      (simp add: example_quality_def)
  then obtain a l' where a: "archive_quality example_digest ''now'' 2 '' lee '' ''ok'' example_quality = Inr (a, l')"
    by blast
  have "\<lparr>ql_counters = Some (live_counters example_quality), ql_archive = None\<rparr> = example_quality"
    by (simp add: example_quality_def live_counters_def)
  then show ?thesis
    using a archive_restore_roundtrip [OF example_quality_wf a] b(3) by (auto simp: example_digest_def)
qed

end
