(* ===== verification/DeliveryLedger.thy ===== *)
theory DeliveryLedger
  imports IngestQuality WalStore
begin

text \<open>
  The delivery ledger of the Relay (\<open>relay.rs\<close>, \<open>DeliveryLedger\<close>): one row per Capture to
  forward, an index of the pending rows ordered by due time, an index of the leased rows ordered
  by lease end, and durable counters.  Every operation is one write transaction: it returns the
  new tables, or an error and the tables stay.  Rows are their decoded records; the two clock
  readings of an operation (\<open>now\<close> in milliseconds, \<open>stamp\<close> as text) are arguments.
\<close>

section \<open>Rows, indexes and counters\<close>

record delivery_record =
  dr_capture_id :: string
  dr_raw_sha256 :: string
  dr_bytes :: u64
  dr_state :: string
  dr_attempts :: u64
  dr_next_attempt :: u64
  dr_lease_until :: u64
  dr_last_attempt_at :: "string option"
  dr_delivered_at :: "string option"
  dr_last_error :: "string option"

text \<open>The delay of a retry in milliseconds, as \<open>Duration::as_millis\<close> gives it.\<close>

record delivery_update =
  du_capture_id :: string
  du_state :: string
  du_error :: "string option"
  du_next_attempt :: "nat option"

record delivery_counters =
  dc_total :: u64
  dc_pending :: u64
  dc_inflight :: u64
  dc_delivered :: u64
  dc_conflicts :: u64
  dc_failed :: u64
  dc_attempts :: u64

datatype delivery_error =
    UnsupportedLedgerSchema
  | SeedNotRegular
  | SeedTooLarge
  | SeedInvalid
  | SeedRequired
  | RowDisappeared
  | QualityError quality_error
  | HashConflict string
  | LengthConflict string
  | RecordMissing string
  | CountersMissing
  | InvalidPendingKey

record delivery_db =
  dd_schema :: "string option"
  dd_deliveries :: "(string, delivery_record) table"
  dd_pending :: "(string, string) table"
  dd_inflight :: "(string, string) table"
  dd_counters :: "delivery_counters option"
  dd_quality :: quality_ledger

definition delivery_schema_version :: string where
  "delivery_schema_version = ''chiptrace.delivery-ledger.v1''"

definition delivery_index_key :: "u64 \<Rightarrow> string \<Rightarrow> string" where
  "delivery_index_key due capture_id = fmt0 20 (unat due) @ '':'' @ capture_id"

text \<open>\<open>key.get(..20)\<close>: the first 20 bytes, when they end at a character.\<close>

definition get_20 :: "string \<Rightarrow> string option" where
  "get_20 key =
     (if length key = 20 \<or> 20 < length key \<and> \<not> utf8_cont (key ! 20) then Some (take 20 key) else None)"

definition delivery_index_due :: "string \<Rightarrow> u64 option" where
  "delivery_index_due key = Option.bind (get_20 key) parse_u64"

definition increment_delivery_state :: "string \<Rightarrow> delivery_counters \<Rightarrow> delivery_counters" where
  "increment_delivery_state state c =
     (if state = ''pending'' then c\<lparr>dc_pending := dc_pending c + 1\<rparr>
      else if state = ''inflight'' then c\<lparr>dc_inflight := dc_inflight c + 1\<rparr>
      else if state = ''delivered'' then c\<lparr>dc_delivered := dc_delivered c + 1\<rparr>
      else if state = ''conflict'' then c\<lparr>dc_conflicts := dc_conflicts c + 1\<rparr>
      else if state = ''failed'' then c\<lparr>dc_failed := dc_failed c + 1\<rparr>
      else c)"

definition decrement_delivery_state :: "string \<Rightarrow> delivery_counters \<Rightarrow> delivery_counters" where
  "decrement_delivery_state state c =
     (if state = ''pending'' then c\<lparr>dc_pending := saturating_sub (dc_pending c) 1\<rparr>
      else if state = ''inflight'' then c\<lparr>dc_inflight := saturating_sub (dc_inflight c) 1\<rparr>
      else if state = ''delivered'' then c\<lparr>dc_delivered := saturating_sub (dc_delivered c) 1\<rparr>
      else if state = ''conflict'' then c\<lparr>dc_conflicts := saturating_sub (dc_conflicts c) 1\<rparr>
      else if state = ''failed'' then c\<lparr>dc_failed := saturating_sub (dc_failed c) 1\<rparr>
      else c)"

definition delivery_counters_from_table :: "(string, delivery_record) table \<Rightarrow> delivery_counters" where
  "delivery_counters_from_table t =
     fold (\<lambda>r c. let c = increment_delivery_state (dr_state (snd r)) c
                 in c\<lparr>dc_attempts := saturating_add (dc_attempts c) (dr_attempts (snd r))\<rparr>) t
       \<lparr>dc_total = of_nat (length t), dc_pending = 0, dc_inflight = 0, dc_delivered = 0,
        dc_conflicts = 0, dc_failed = 0, dc_attempts = 0\<rparr>"

definition read_delivery_counters :: "delivery_db \<Rightarrow> delivery_error + delivery_counters" where
  "read_delivery_counters db = ok_or CountersMissing (dd_counters db)"

definition write_delivery_counters :: "delivery_counters \<Rightarrow> delivery_db \<Rightarrow> delivery_db" where
  "write_delivery_counters c db = db\<lparr>dd_counters := Some c\<rparr>"


section \<open>Opening\<close>

text \<open>
  The seed beside the ledger: absent, not a regular file, or a file of some length with what it
  parses to.
\<close>

datatype seed_file = NoSeed | NotRegular | SeedFile nat "quality_seed option"

definition max_seed_bytes :: nat where
  "max_seed_bytes = 64 * 1024"

fun read_ingest_quality_seed :: "seed_file \<Rightarrow> delivery_error + quality_counters option" where
  "read_ingest_quality_seed NoSeed = Inr None"
| "read_ingest_quality_seed NotRegular = Inl SeedNotRegular"
| "read_ingest_quality_seed (SeedFile n parsed) =
     (if max_seed_bytes < n then Inl SeedTooLarge
      else case parsed of
        None \<Rightarrow> Inl SeedInvalid
      | Some seed \<Rightarrow> (case into_counters seed of Inl e \<Rightarrow> Inl (QualityError e) | Inr c \<Rightarrow> Inr (Some c)))"

definition open_schema :: "delivery_db \<Rightarrow> delivery_error + delivery_db" where
  "open_schema db =
     (case dd_schema db of
        Some v \<Rightarrow> if v \<noteq> delivery_schema_version then Inl UnsupportedLedgerSchema else Inr db
      | None \<Rightarrow> Inr (db\<lparr>dd_schema := Some delivery_schema_version\<rparr>))"

definition open_quality :: "seed_file \<Rightarrow> delivery_db \<Rightarrow> delivery_error + delivery_db" where
  "open_quality seed_at db =
     (if ql_counters (dd_quality db) \<noteq> None then Inr db
      else rbind (read_ingest_quality_seed seed_at) (\<lambda>seed.
        if dd_deliveries db \<noteq> [] \<and> seed = None then Inl SeedRequired
        else case write_quality (case seed of None \<Rightarrow> quality_default | Some c \<Rightarrow> c) (dd_quality db) of
            Inl e \<Rightarrow> Inl (QualityError e)
          | Inr q \<Rightarrow> Inr (db\<lparr>dd_quality := q\<rparr>)))"

text \<open>The index rows that the fast path trusts.\<close>

definition inflight_row_valid :: "(string, delivery_record) table \<Rightarrow> string \<times> string \<Rightarrow> bool" where
  "inflight_row_valid ds row =
     (case tget ds (snd row) of
        None \<Rightarrow> False
      | Some r \<Rightarrow> dr_state r = ''inflight'' \<and> dr_capture_id r = snd row
           \<and> delivery_index_due (fst row) = Some (dr_lease_until r))"

definition recover_inflight_row ::
  "string \<times> string \<Rightarrow> delivery_db \<times> delivery_counters \<Rightarrow> delivery_error + delivery_db \<times> delivery_counters" where
  "recover_inflight_row row s =
     (let db = fst s; c = snd s; db = db\<lparr>dd_inflight := tdel (fst row) (dd_inflight db)\<rparr>
      in rbind (ok_or RowDisappeared (tget (dd_deliveries db) (snd row))) (\<lambda>r.
         let c = c\<lparr>dc_inflight := saturating_sub (dc_inflight c) 1,
                   dc_pending := saturating_add (dc_pending c) 1\<rparr>;
             r = r\<lparr>dr_state := ''pending'', dr_next_attempt := 0, dr_lease_until := 0,
                   dr_last_error := Some ''delivery lease recovered during startup''\<rparr>
         in Inr (db\<lparr>dd_pending := tput (delivery_index_key 0 (dr_capture_id r)) (dr_capture_id r) (dd_pending db),
                    dd_deliveries := tput (dr_capture_id r) r (dd_deliveries db)\<rparr>, c)))"

text \<open>\<open>None\<close> is the fall-through to the full rebuild.\<close>

definition fast_startup :: "delivery_db \<Rightarrow> delivery_error + delivery_db option" where
  "fast_startup db =
     (case dd_counters db of
        None \<Rightarrow> Inr None
      | Some c \<Rightarrow>
          if dc_total c \<noteq> of_nat (length (dd_deliveries db))
             \<or> dc_pending c \<noteq> of_nat (length (dd_pending db))
             \<or> dc_inflight c \<noteq> of_nat (length (dd_inflight db)) then Inr None
          else if dc_inflight c = 0 then Inr (Some db)
          else if \<not> list_all (inflight_row_valid (dd_deliveries db)) (dd_inflight db) then Inr None
          else rbind (try_fold recover_inflight_row (dd_inflight db) (db, c)) (\<lambda>s.
               Inr (Some (write_delivery_counters (snd s) (fst s)))))"

definition return_inflight :: "string \<Rightarrow> (string, delivery_record) table \<Rightarrow> (string, delivery_record) table" where
  "return_inflight key ds =
     (case tget ds key of
        None \<Rightarrow> ds
      | Some r \<Rightarrow>
          if dr_state r = ''inflight''
          then tput key (r\<lparr>dr_state := ''pending'', dr_next_attempt := 0, dr_lease_until := 0\<rparr>) ds
          else ds)"

definition rebuild_ledger :: "delivery_db \<Rightarrow> delivery_db" where
  "rebuild_ledger db =
     (let ds = fold return_inflight (map fst (dd_deliveries db)) (dd_deliveries db);
          pending_rows = map (\<lambda>r. (delivery_index_key (dr_next_attempt (snd r)) (dr_capture_id (snd r)),
                                   dr_capture_id (snd r)))
                           (filter (\<lambda>r. dr_state (snd r) = ''pending'') ds);
          cleared = fold (\<lambda>r. tdel (fst r)) (dd_pending db) (dd_pending db)
      in write_delivery_counters (delivery_counters_from_table ds)
           (db\<lparr>dd_deliveries := ds,
               dd_pending := fold (\<lambda>r. tput (fst r) (snd r)) pending_rows cleared,
               dd_inflight := fold (\<lambda>r. tdel (fst r)) (dd_inflight db) (dd_inflight db)\<rparr>))"

definition open_ledger :: "seed_file \<Rightarrow> delivery_db \<Rightarrow> delivery_error + delivery_db" where
  "open_ledger seed_at db =
     rbind (open_schema db) (\<lambda>db.
     rbind (open_quality seed_at db) (\<lambda>db.
     rbind (fast_startup db) (\<lambda>fast.
     Inr (case fast of Some db' \<Rightarrow> db' | None \<Rightarrow> rebuild_ledger db))))"


section \<open>Operations\<close>

definition new_delivery :: "locator \<Rightarrow> delivery_record" where
  "new_delivery l =
     \<lparr>dr_capture_id = lo_capture_id l, dr_raw_sha256 = lo_raw_sha256 l, dr_bytes = of_nat (lo_length l),
      dr_state = ''pending'', dr_attempts = 0, dr_next_attempt = 0, dr_lease_until = 0,
      dr_last_attempt_at = None, dr_delivered_at = None, dr_last_error = None\<rparr>"

definition ensure_one ::
  "locator \<Rightarrow> delivery_db \<times> delivery_counters \<times> nat \<Rightarrow> delivery_error + delivery_db \<times> delivery_counters \<times> nat" where
  "ensure_one l s =
     (case s of (db, c, inserted) \<Rightarrow>
       (case tget (dd_deliveries db) (lo_capture_id l) of
          Some r \<Rightarrow>
            if dr_raw_sha256 r \<noteq> lo_raw_sha256 l then Inl (HashConflict (lo_capture_id l))
            else if dr_bytes r = 0 then
              Inr (db\<lparr>dd_deliveries :=
                     tput (lo_capture_id l) (r\<lparr>dr_bytes := of_nat (lo_length l)\<rparr>) (dd_deliveries db)\<rparr>, c, inserted)
            else if dr_bytes r \<noteq> of_nat (lo_length l) then Inl (LengthConflict (lo_capture_id l))
            else Inr s
        | None \<Rightarrow>
            Inr (db\<lparr>dd_deliveries := tput (lo_capture_id l) (new_delivery l) (dd_deliveries db),
                    dd_pending := tput (delivery_index_key 0 (lo_capture_id l)) (lo_capture_id l) (dd_pending db)\<rparr>,
                 c\<lparr>dc_total := dc_total c + 1, dc_pending := dc_pending c + 1\<rparr>, inserted + 1)))"

definition ensure_many :: "locator list \<Rightarrow> delivery_db \<Rightarrow> delivery_error + nat \<times> delivery_db" where
  "ensure_many ls db =
     rbind (read_delivery_counters db) (\<lambda>c.
     rbind (try_fold ensure_one ls (db, c, 0)) (\<lambda>s.
     case s of (db, c, inserted) \<Rightarrow> Inr (inserted, write_delivery_counters c db)))"

text \<open>\<open>Duration\<close> values in milliseconds; \<open>lease_end\<close> saturates, \<open>retry_at\<close> truncates first.\<close>

definition lease_end :: "u64 \<Rightarrow> nat \<Rightarrow> u64" where
  "lease_end now lease = saturating_add now (if lease < 2 ^ 64 then of_nat lease else u64_max)"

definition retry_at :: "u64 \<Rightarrow> nat option \<Rightarrow> u64" where
  "retry_at now delay = (case delay of None \<Rightarrow> 0 | Some d \<Rightarrow> saturating_add now (of_nat d))"

definition claimed_record :: "u64 \<Rightarrow> string \<Rightarrow> nat \<Rightarrow> delivery_record \<Rightarrow> delivery_record" where
  "claimed_record now stamp lease r =
     r\<lparr>dr_state := ''inflight'', dr_attempts := dr_attempts r + 1,
       dr_last_attempt_at := Some stamp, dr_lease_until := lease_end now lease\<rparr>"

definition claim_one ::
  "u64 \<Rightarrow> string \<Rightarrow> nat \<Rightarrow> string \<Rightarrow> delivery_db \<times> delivery_counters \<times> delivery_record list
     \<Rightarrow> delivery_db \<times> delivery_counters \<times> delivery_record list" where
  "claim_one now stamp lease capture_id s =
     (case s of (db, c, claimed) \<Rightarrow>
       (case tget (dd_deliveries db) capture_id of
          None \<Rightarrow> s
        | Some r \<Rightarrow>
            if dr_state r \<noteq> ''pending'' \<or> now < dr_next_attempt r then s
            else let pending_key = delivery_index_key (dr_next_attempt r) (dr_capture_id r);
                     r' = claimed_record now stamp lease r
                 in (db\<lparr>dd_pending := tdel pending_key (dd_pending db),
                        dd_inflight := tput (delivery_index_key (dr_lease_until r') (dr_capture_id r'))
                                         (dr_capture_id r') (dd_inflight db),
                        dd_deliveries := tput capture_id r' (dd_deliveries db)\<rparr>,
                     c\<lparr>dc_pending := saturating_sub (dc_pending c) 1, dc_inflight := dc_inflight c + 1,
                       dc_attempts := dc_attempts c + 1\<rparr>,
                     claimed @ [r'])))"

definition claim_many ::
  "u64 \<Rightarrow> string \<Rightarrow> string list \<Rightarrow> nat \<Rightarrow> delivery_db \<Rightarrow> delivery_error + delivery_record list \<times> delivery_db" where
  "claim_many now stamp ids lease db =
     rbind (read_delivery_counters db) (\<lambda>c.
     case fold (claim_one now stamp lease) ids (db, c, []) of
       (db, c, claimed) \<Rightarrow> Inr (claimed, write_delivery_counters c db))"

text \<open>Removing the row's index entry, by its state.\<close>

definition unindex :: "delivery_record \<Rightarrow> delivery_db \<Rightarrow> delivery_db" where
  "unindex r db =
     (if dr_state r = ''pending''
      then db\<lparr>dd_pending := tdel (delivery_index_key (dr_next_attempt r) (dr_capture_id r)) (dd_pending db)\<rparr>
      else if dr_state r = ''inflight''
      then db\<lparr>dd_inflight := tdel (delivery_index_key (dr_lease_until r) (dr_capture_id r)) (dd_inflight db)\<rparr>
      else db)"

definition finished_record :: "u64 \<Rightarrow> string \<Rightarrow> delivery_update \<Rightarrow> delivery_record \<Rightarrow> delivery_record" where
  "finished_record now stamp u r =
     (let r = r\<lparr>dr_state := du_state u, dr_last_error := map_option (take_chars 500) (du_error u),
                dr_next_attempt := retry_at now (du_next_attempt u), dr_lease_until := 0\<rparr>
      in if du_state u = ''delivered'' then r\<lparr>dr_delivered_at := Some stamp\<rparr> else r)"

definition finish_one ::
  "u64 \<Rightarrow> string \<Rightarrow> delivery_update \<Rightarrow> delivery_db \<times> delivery_counters
     \<Rightarrow> delivery_error + delivery_db \<times> delivery_counters" where
  "finish_one now stamp u s =
     (case s of (db, c) \<Rightarrow>
       rbind (ok_or (RecordMissing (du_capture_id u)) (tget (dd_deliveries db) (du_capture_id u))) (\<lambda>r.
       let db = unindex r db;
           c = decrement_delivery_state (dr_state r) c;
           r = finished_record now stamp u r;
           db = (if du_state u = ''pending''
                 then db\<lparr>dd_pending := tput (delivery_index_key (dr_next_attempt r) (dr_capture_id r))
                                         (dr_capture_id r) (dd_pending db)\<rparr>
                 else db)
       in Inr (db\<lparr>dd_deliveries := tput (du_capture_id u) r (dd_deliveries db)\<rparr>,
               increment_delivery_state (du_state u) c)))"

definition finish_many ::
  "u64 \<Rightarrow> string \<Rightarrow> delivery_update list \<Rightarrow> delivery_db \<Rightarrow> delivery_error + delivery_db" where
  "finish_many now stamp us db =
     rbind (read_delivery_counters db) (\<lambda>c.
     rbind (try_fold (finish_one now stamp) us (db, c)) (\<lambda>s.
     Inr (write_delivery_counters (snd s) (fst s))))"

text \<open>The limit is tested after a row is pushed.\<close>

fun failed_scan :: "nat \<Rightarrow> string list \<Rightarrow> (string, delivery_record) table \<Rightarrow> string list" where
  "failed_scan limit out [] = out"
| "failed_scan limit out (row # rows) =
     (if dr_state (snd row) \<noteq> ''failed'' then failed_scan limit out rows
      else let out = out @ [dr_capture_id (snd row)]
           in if limit \<le> length out then out else failed_scan limit out rows)"

definition failed_ids :: "nat \<Rightarrow> delivery_db \<Rightarrow> string list" where
  "failed_ids limit db = failed_scan limit [] (dd_deliveries db)"

definition requeue_one ::
  "u64 \<Rightarrow> string \<Rightarrow> string \<Rightarrow> delivery_db \<times> delivery_counters \<times> string list
     \<Rightarrow> delivery_db \<times> delivery_counters \<times> string list" where
  "requeue_one now reason capture_id s =
     (case s of (db, c, requeued) \<Rightarrow>
       (case tget (dd_deliveries db) capture_id of
          None \<Rightarrow> s
        | Some r \<Rightarrow>
            if dr_state r \<noteq> ''failed'' then s
            else let c = decrement_delivery_state (dr_state r) c;
                     r = r\<lparr>dr_state := ''pending'', dr_attempts := 0, dr_next_attempt := now,
                           dr_lease_until := 0, dr_last_error := Some (take_chars 500 reason)\<rparr>
                 in (db\<lparr>dd_pending := tput (delivery_index_key (dr_next_attempt r) (dr_capture_id r))
                                        (dr_capture_id r) (dd_pending db),
                        dd_deliveries := tput capture_id r (dd_deliveries db)\<rparr>,
                     increment_delivery_state ''pending'' c, requeued @ [capture_id])))"

definition requeue_failed ::
  "u64 \<Rightarrow> string list \<Rightarrow> string \<Rightarrow> delivery_db \<Rightarrow> delivery_error + string list \<times> delivery_db" where
  "requeue_failed now ids reason db =
     (if ids = [] then Inr ([], db)
      else rbind (read_delivery_counters db) (\<lambda>c.
           case fold (requeue_one now reason) ids (db, c, []) of
             (db, c, requeued) \<Rightarrow> Inr (requeued, write_delivery_counters c db)))"

fun pending_scan :: "u64 \<Rightarrow> nat \<Rightarrow> string list \<Rightarrow> (string, string) table \<Rightarrow> delivery_error + string list" where
  "pending_scan now limit out [] = Inr out"
| "pending_scan now limit out (row # rows) =
     rbind (ok_or InvalidPendingKey (delivery_index_due (fst row))) (\<lambda>due.
     if now < due then Inr out
     else let out = out @ [snd row]
          in if limit \<le> length out then Inr out else pending_scan now limit out rows)"

definition pending_ids :: "u64 \<Rightarrow> nat \<Rightarrow> delivery_db \<Rightarrow> delivery_error + string list" where
  "pending_ids now limit db = pending_scan now limit [] (dd_pending db)"

definition reclaim_one ::
  "u64 \<Rightarrow> string \<times> string \<Rightarrow> delivery_db \<times> delivery_counters \<times> string list
     \<Rightarrow> delivery_db \<times> delivery_counters \<times> string list" where
  "reclaim_one now row s =
     (case s of (db, c, reclaimed) \<Rightarrow>
       let db = db\<lparr>dd_inflight := tdel (fst row) (dd_inflight db)\<rparr>
       in case tget (dd_deliveries db) (snd row) of
            None \<Rightarrow> (db, c, reclaimed)
          | Some r \<Rightarrow>
              if dr_state r \<noteq> ''inflight'' \<or> now < dr_lease_until r
                 \<or> delivery_index_due (fst row) \<noteq> Some (dr_lease_until r)
              then (db, c, reclaimed)
              else let c = decrement_delivery_state (dr_state r) c;
                       r = r\<lparr>dr_state := ''pending'', dr_next_attempt := 0, dr_lease_until := 0,
                             dr_last_error := Some ''delivery lease expired; retry scheduled''\<rparr>
                   in (db\<lparr>dd_pending := tput (delivery_index_key 0 (dr_capture_id r)) (dr_capture_id r) (dd_pending db),
                          dd_deliveries := tput (dr_capture_id r) r (dd_deliveries db)\<rparr>,
                       increment_delivery_state ''pending'' c, reclaimed @ [dr_capture_id r]))"

definition expired_rows :: "u64 \<Rightarrow> nat \<Rightarrow> delivery_db \<Rightarrow> (string, string) table" where
  "expired_rows now limit db =
     takeWhile (\<lambda>row. case delivery_index_due (fst row) of None \<Rightarrow> False | Some due \<Rightarrow> due \<le> now)
       (take limit (dd_inflight db))"

definition reclaim_expired_inflight ::
  "u64 \<Rightarrow> nat \<Rightarrow> delivery_db \<Rightarrow> delivery_error + string list \<times> delivery_db" where
  "reclaim_expired_inflight now limit db =
     (if limit = 0 then Inr ([], db)
      else rbind (read_delivery_counters db) (\<lambda>c.
           case fold (reclaim_one now) (expired_rows now limit db) (db, c, []) of
             (db, c, reclaimed) \<Rightarrow> Inr (reclaimed, write_delivery_counters c db)))"

definition ledger_health :: "delivery_db \<Rightarrow> delivery_error + delivery_counters" where
  "ledger_health db = read_delivery_counters db"

end
