(* ===== verification/DeliveryInvariant.thy ===== *)
theory DeliveryInvariant
  imports DeliveryLedger
begin

text \<open>
  The invariant of the delivery ledger: rows are keyed by their Capture id and in one of five
  states, each index holds exactly the entries its rows call for, and the counters are the
  numbers of rows.  Every operation is a sequence of row changes, so the invariant is proved for
  one row change of each kind and carried by the loops.
\<close>

section \<open>Index keys\<close>

lemma utf8_cont_colon: "\<not> utf8_cont (CHR '':'')"
  by (simp add: utf8_cont_def)

lemma due_digits: "unat (due :: u64) < 10 ^ 20"
  by (rule less_le_trans [OF unat_u64_bound]) simp

lemma fmt0_20: "fmt0 20 (unat (due :: u64)) = dec_fixed 20 (unat due)"
  by (rule fmt0_fixed [OF _ due_digits]) simp

lemma delivery_index_due_key [simp]: "delivery_index_due (delivery_index_key due i) = Some due"
  using parse_u64_fmt0 [of 20 due] due_digits [of due]
  by (simp add: delivery_index_due_def delivery_index_key_def get_20_def fmt0_20 nth_append utf8_cont_colon)

lemma delivery_index_key_inject [simp]:
  "delivery_index_key d i = delivery_index_key e j \<longleftrightarrow> d = e \<and> i = j"
proof
  assume eq: "delivery_index_key d i = delivery_index_key e j"
  then have "d = e" using delivery_index_due_key [of d i] delivery_index_due_key [of e j] by simp
  with eq show "d = e \<and> i = j" by (simp add: delivery_index_key_def)
qed simp

text \<open>The order of the keys is the order of the due times.\<close>

lemma delivery_index_key_less:
  "delivery_index_key d i < delivery_index_key e j \<longleftrightarrow> d < e \<or> d = e \<and> i < j"
  by (simp add: delivery_index_key_def fmt0_20 append_less_append dec_fixed_less [OF due_digits due_digits]
      dec_fixed_inject [OF due_digits due_digits] u64_less_iff word_unat_eq_iff)

section \<open>Exact indexes\<close>

definition index_ok ::
  "(delivery_record \<Rightarrow> u64) \<Rightarrow> string \<Rightarrow> (string, delivery_record) table \<Rightarrow> (string, string) table \<Rightarrow> bool" where
  "index_ok due st ds idx \<longleftrightarrow> tsorted idx
     \<and> (\<forall>key i. tget idx key = Some i \<longleftrightarrow>
          (\<exists>r. tget ds i = Some r \<and> dr_state r = st \<and> key = delivery_index_key (due r) i))"

definition has_state :: "(string, delivery_record) table \<Rightarrow> string \<Rightarrow> string \<Rightarrow> bool" where
  "has_state ds i st \<longleftrightarrow> (\<exists>r. tget ds i = Some r \<and> dr_state r = st)"

lemma index_keep:
  assumes "index_ok due st ds idx" "\<not> has_state ds i st" "dr_state r \<noteq> st"
  shows "index_ok due st (tput i r ds) idx"
proof -
  have "(\<exists>s. tget (tput i r ds) j = Some s \<and> dr_state s = st \<and> key = delivery_index_key (due s) j)
      \<longleftrightarrow> (\<exists>s. tget ds j = Some s \<and> dr_state s = st \<and> key = delivery_index_key (due s) j)" for key j
    using assms(2,3) by (auto simp: has_state_def)
  with assms(1) show ?thesis unfolding index_ok_def by presburger
qed

lemma index_same:
  assumes "index_ok due st ds idx" "tget ds i = Some q" "dr_state r = dr_state q" "due r = due q"
  shows "index_ok due st (tput i r ds) idx"
proof -
  have "(\<exists>s. tget (tput i r ds) j = Some s \<and> dr_state s = st \<and> key = delivery_index_key (due s) j)
      \<longleftrightarrow> (\<exists>s. tget ds j = Some s \<and> dr_state s = st \<and> key = delivery_index_key (due s) j)" for key j
    using assms(2-4) by auto
  with assms(1) show ?thesis unfolding index_ok_def by presburger
qed

lemma index_add:
  assumes "index_ok due st ds idx" "\<not> has_state ds i st" "dr_state r = st"
  shows "index_ok due st (tput i r ds) (tput (delivery_index_key (due r) i) i idx)"
proof -
  have "tget (tput (delivery_index_key (due r) i) i idx) key = Some j \<longleftrightarrow>
      (\<exists>s. tget (tput i r ds) j = Some s \<and> dr_state s = st \<and> key = delivery_index_key (due s) j)" for key j
  proof (cases "j = i")
    case True
    have "tget idx key \<noteq> Some i" using assms(1,2) by (simp add: index_ok_def has_state_def) blast
    with True assms(3) show ?thesis by auto
  next
    case False
    then have "tget idx key = Some j \<Longrightarrow> key \<noteq> delivery_index_key (due r) i"
      using assms(1) by (auto simp: index_ok_def)
    moreover have "tget idx key = Some j \<longleftrightarrow>
        (\<exists>s. tget ds j = Some s \<and> dr_state s = st \<and> key = delivery_index_key (due s) j)"
      using assms(1) unfolding index_ok_def by blast
    ultimately show ?thesis using False by auto
  qed
  with assms(1) show ?thesis by (simp add: index_ok_def)
qed

lemma index_del:
  assumes "index_ok due st ds idx" "tget ds i = Some q" "dr_state q = st" "dr_state r \<noteq> st"
  shows "index_ok due st (tput i r ds) (tdel (delivery_index_key (due q) i) idx)"
proof -
  have s: "tsorted idx" using assms(1) by (simp add: index_ok_def)
  have "tget (tdel (delivery_index_key (due q) i) idx) key = Some j \<longleftrightarrow>
      (\<exists>s. tget (tput i r ds) j = Some s \<and> dr_state s = st \<and> key = delivery_index_key (due s) j)" for key j
  proof -
    have "tget idx key = Some j \<longleftrightarrow>
        (\<exists>s. tget ds j = Some s \<and> dr_state s = st \<and> key = delivery_index_key (due s) j)"
      using assms(1) unfolding index_ok_def by blast
    then show ?thesis using assms(2-4) s by auto
  qed
  with s show ?thesis by (simp add: index_ok_def)
qed

lemma index_move:
  assumes "index_ok due st ds idx" "tget ds i = Some q" "dr_state q = st" "dr_state r = st"
  shows "index_ok due st (tput i r ds)
    (tput (delivery_index_key (due r) i) i (tdel (delivery_index_key (due q) i) idx))"
proof -
  let ?x = "r\<lparr>dr_state := st @ ''x''\<rparr>"
  have d: "index_ok due st (tput i ?x ds) (tdel (delivery_index_key (due q) i) idx)"
    by (rule index_del [OF assms(1-3)]) simp
  have "tput i r (tput i ?x ds) = tput i r ds" by (rule tput_tput)
  with index_add [OF d, of i r] assms(4) show ?thesis by (simp add: has_state_def)
qed


section \<open>Counters\<close>

definition delivery_states :: "string list" where
  "delivery_states = [''pending'', ''inflight'', ''delivered'', ''conflict'', ''failed'']"

definition row_count :: "string \<Rightarrow> (string, delivery_record) table \<Rightarrow> nat" where
  "row_count st ds = tcount (\<lambda>r. dr_state r = st) ds"

definition counters_match :: "(string, delivery_record) table \<Rightarrow> delivery_counters \<Rightarrow> bool" where
  "counters_match ds c \<longleftrightarrow> dc_total c = of_nat (length ds)
     \<and> dc_pending c = of_nat (row_count ''pending'' ds)
     \<and> dc_inflight c = of_nat (row_count ''inflight'' ds)
     \<and> dc_delivered c = of_nat (row_count ''delivered'' ds)
     \<and> dc_conflicts c = of_nat (row_count ''conflict'' ds)
     \<and> dc_failed c = of_nat (row_count ''failed'' ds)"

definition rows_ok :: "(string, delivery_record) table \<Rightarrow> bool" where
  "rows_ok ds \<longleftrightarrow> tsorted ds \<and> length ds < 2 ^ 64
     \<and> (\<forall>i r. tget ds i = Some r \<longrightarrow> dr_capture_id r = i \<and> dr_state r \<in> set delivery_states)"

definition tables_ok :: "delivery_db \<Rightarrow> bool" where
  "tables_ok db \<longleftrightarrow> rows_ok (dd_deliveries db)
     \<and> index_ok dr_next_attempt ''pending'' (dd_deliveries db) (dd_pending db)
     \<and> index_ok dr_lease_until ''inflight'' (dd_deliveries db) (dd_inflight db)"

definition body_ok :: "delivery_db \<Rightarrow> delivery_counters \<Rightarrow> bool" where
  "body_ok db c \<longleftrightarrow> tables_ok db \<and> counters_match (dd_deliveries db) c"

definition delivery_ok :: "delivery_db \<Rightarrow> bool" where
  "delivery_ok db \<longleftrightarrow> (\<exists>c. dd_counters db = Some c \<and> body_ok db c)"

lemma row_count_update:
  assumes "rows_ok ds" "tget ds i = Some q"
  shows "(of_nat (row_count st (tput i r ds)) :: u64) =
    (let w = (if dr_state q = st then saturating_sub (of_nat (row_count st ds)) 1 else of_nat (row_count st ds))
     in if dr_state r = st then w + 1 else w)"
proof -
  have ts: "tsorted ds" and len: "length ds < 2 ^ 64" using assms(1) by (simp_all add: rows_ok_def)
  have eq: "row_count st (tput i r ds) + (if dr_state q = st then 1 else 0)
      = row_count st ds + (if dr_state r = st then 1 else 0)"
    using tcount_update [OF ts assms(2), of "\<lambda>r. dr_state r = st" r] by (simp add: row_count_def)
  have pos: "0 < row_count st ds" if "dr_state q = st"
    using tcount_pos [OF ts assms(2)] that by (simp add: row_count_def)
  have "row_count st ds < 2 ^ 64"
    using tcount_le_length [of "\<lambda>r. dr_state r = st" ds] len by (simp add: row_count_def)
  then have u: "unat (of_nat (row_count st ds) :: u64) = row_count st ds" by (rule unat_of_nat_u64)
  have dec: "saturating_sub (of_nat (row_count st ds) :: u64) 1 = of_nat (row_count st ds - 1)"
    if "dr_state q = st"
    using pos [OF that] u by (subst saturating_sub_1) (simp_all add: of_nat_diff)
  have "row_count st (tput i r ds) =
    (if dr_state q = st then row_count st ds - 1 else row_count st ds) + (if dr_state r = st then 1 else 0)"
    using eq pos by (auto split: if_splits)
  then show ?thesis by (auto simp: dec Let_def)
qed

lemma counters_update:
  assumes "rows_ok ds" "counters_match ds c" "tget ds i = Some q"
  shows "counters_match (tput i r ds) (increment_delivery_state (dr_state r) (decrement_delivery_state (dr_state q) c))"
proof -
  have len: "length (tput i r ds) = length ds"
    using assms(1,3) by (simp add: rows_ok_def length_tput)
  show ?thesis
    using assms(2)
    by (simp add: counters_match_def len row_count_update [OF assms(1,3)] Let_def
      increment_delivery_state_def decrement_delivery_state_def)
qed

lemma counters_attempts [simp]: "counters_match ds (c\<lparr>dc_attempts := n\<rparr>) = counters_match ds c"
  by (simp add: counters_match_def)

lemma counters_insert:
  assumes "rows_ok ds" "counters_match ds c" "tget ds i = None" "dr_state r = ''pending''"
  shows "counters_match (tput i r ds) (c\<lparr>dc_total := dc_total c + 1, dc_pending := dc_pending c + 1\<rparr>)"
proof -
  have ts: "tsorted ds" using assms(1) by (simp add: rows_ok_def)
  show ?thesis
    using assms(2,4) tcount_fresh [OF ts assms(3), of _ r] ts assms(3)
    by (simp add: counters_match_def row_count_def length_tput)
qed

lemma counters_same_state:
  assumes "rows_ok ds" "counters_match ds c" "tget ds i = Some q" "dr_state r = dr_state q"
  shows "counters_match (tput i r ds) c"
proof -
  have ts: "tsorted ds" using assms(1) by (simp add: rows_ok_def)
  have "row_count st (tput i r ds) = row_count st ds" for st
    using tcount_update [OF ts assms(3), of "\<lambda>r. dr_state r = st" r] assms(4)
    by (simp add: row_count_def split: if_splits)
  then show ?thesis using assms(2,3) ts by (simp add: counters_match_def length_tput)
qed

lemma rows_ok_update:
  assumes "rows_ok ds" "tget ds i = Some q" "dr_capture_id r = i" "dr_state r \<in> set delivery_states"
  shows "rows_ok (tput i r ds)"
  using assms by (simp add: rows_ok_def length_tput)

lemma rows_ok_insert:
  assumes "rows_ok ds" "tget ds i = None" "dr_capture_id r = i" "dr_state r \<in> set delivery_states"
    and "length ds + 1 < 2 ^ 64"
  shows "rows_ok (tput i r ds)"
  using assms by (simp add: rows_ok_def length_tput)


section \<open>One row change\<close>

lemma tables_ok_row:
  assumes "tables_ok db" "tget (dd_deliveries db) i = Some r"
  shows "dr_capture_id r = i" "dr_state r \<in> set delivery_states"
  using assms by (auto simp: tables_ok_def rows_ok_def)

lemma ok_has_state: "tget ds i = Some q \<Longrightarrow> has_state ds i st \<longleftrightarrow> dr_state q = st"
  by (simp add: has_state_def)

text \<open>A row leaves its state for another one.\<close>

definition reindex :: "delivery_record \<Rightarrow> delivery_record \<Rightarrow> delivery_db \<Rightarrow> delivery_db" where
  "reindex q r db =
     (let db = unindex q db
      in if dr_state r = ''pending''
         then db\<lparr>dd_pending := tput (delivery_index_key (dr_next_attempt r) (dr_capture_id r))
                                 (dr_capture_id r) (dd_pending db)\<rparr>
         else if dr_state r = ''inflight''
         then db\<lparr>dd_inflight := tput (delivery_index_key (dr_lease_until r) (dr_capture_id r))
                                 (dr_capture_id r) (dd_inflight db)\<rparr>
         else db)"

definition change_row :: "delivery_record \<Rightarrow> delivery_record \<Rightarrow> delivery_db \<Rightarrow> delivery_db" where
  "change_row q r db =
     (let db = reindex q r db in db\<lparr>dd_deliveries := tput (dr_capture_id r) r (dd_deliveries db)\<rparr>)"

lemma change_row_deliveries [simp]:
  "dd_deliveries (change_row q r db) = tput (dr_capture_id r) r (dd_deliveries db)"
  "dd_counters (change_row q r db) = dd_counters db"
  "dd_quality (change_row q r db) = dd_quality db"
  "dd_schema (change_row q r db) = dd_schema db"
  by (simp_all add: change_row_def reindex_def unindex_def Let_def)

lemma change_row_ok:
  assumes ok: "body_ok db c" and q: "tget (dd_deliveries db) i = Some q"
    and r: "dr_capture_id r = i" "dr_state r \<in> set delivery_states"
  shows "body_ok (change_row q r db)
    (increment_delivery_state (dr_state r) (decrement_delivery_state (dr_state q) c))"
proof -
  from ok have t: "tables_ok db" and m: "counters_match (dd_deliveries db) c" by (simp_all add: body_ok_def)
  from t have rows: "rows_ok (dd_deliveries db)"
    and p: "index_ok dr_next_attempt ''pending'' (dd_deliveries db) (dd_pending db)"
    and f: "index_ok dr_lease_until ''inflight'' (dd_deliveries db) (dd_inflight db)"
    by (simp_all add: tables_ok_def)
  have iq: "dr_capture_id q = i" using tables_ok_row [OF t q] by simp
  note hs = ok_has_state [OF q]
  have "index_ok dr_next_attempt ''pending'' (dd_deliveries (change_row q r db)) (dd_pending (change_row q r db))"
    using index_keep [OF p, of i r] index_add [OF p, of i r] index_del [OF p q, of r] index_move [OF p q, of r]
    by (simp add: hs change_row_def reindex_def unindex_def Let_def r(1) iq)
  moreover have "index_ok dr_lease_until ''inflight'' (dd_deliveries (change_row q r db)) (dd_inflight (change_row q r db))"
    using index_keep [OF f, of i r] index_add [OF f, of i r] index_del [OF f q, of r] index_move [OF f q, of r]
    by (simp add: hs change_row_def reindex_def unindex_def Let_def r(1) iq)
  ultimately show ?thesis
    using rows_ok_update [OF rows q r] counters_update [OF rows m q]
    by (simp add: body_ok_def tables_ok_def r(1))
qed


section \<open>The loop bodies as row changes\<close>

lemma claim_one_eq:
  assumes "tables_ok db"
  shows "claim_one now stamp lease i (db, c, out) =
    (case tget (dd_deliveries db) i of
       Some r \<Rightarrow> if dr_state r = ''pending'' \<and> dr_next_attempt r \<le> now
         then let r' = claimed_record now stamp lease r
              in (change_row r r' db,
                  (increment_delivery_state (dr_state r') (decrement_delivery_state (dr_state r) c))
                    \<lparr>dc_attempts := dc_attempts c + 1\<rparr>, out @ [r'])
         else (db, c, out)
     | None \<Rightarrow> (db, c, out))"
  using tables_ok_row [OF assms, of i]
  by (auto simp: claim_one_def claimed_record_def change_row_def reindex_def unindex_def Let_def
    increment_delivery_state_def decrement_delivery_state_def not_less split: option.split)

lemma finish_one_eq:
  assumes "tables_ok db" "du_state u \<noteq> ''inflight''"
  shows "finish_one now stamp u (db, c) =
    (case tget (dd_deliveries db) (du_capture_id u) of
       None \<Rightarrow> Inl (RecordMissing (du_capture_id u))
     | Some r \<Rightarrow> let r' = finished_record now stamp u r
         in Inr (change_row r r' db,
                 increment_delivery_state (dr_state r') (decrement_delivery_state (dr_state r) c)))"
proof (cases "tget (dd_deliveries db) (du_capture_id u)")
  case None
  then show ?thesis by (simp add: finish_one_def)
next
  case (Some r)
  from tables_ok_row [OF assms(1) Some] have "dr_capture_id r = du_capture_id u" by simp
  with Some assms(2) show ?thesis
    by (simp add: finish_one_def finished_record_def change_row_def reindex_def unindex_def Let_def)
qed

definition requeued_record :: "u64 \<Rightarrow> string \<Rightarrow> delivery_record \<Rightarrow> delivery_record" where
  "requeued_record now reason r =
     r\<lparr>dr_state := ''pending'', dr_attempts := 0, dr_next_attempt := now, dr_lease_until := 0,
       dr_last_error := Some (take_chars 500 reason)\<rparr>"

lemma requeue_one_eq:
  assumes "tables_ok db"
  shows "requeue_one now reason i (db, c, out) =
    (case tget (dd_deliveries db) i of
       Some r \<Rightarrow> if dr_state r = ''failed''
         then let r' = requeued_record now reason r
              in (change_row r r' db,
                  increment_delivery_state (dr_state r') (decrement_delivery_state (dr_state r) c), out @ [i])
         else (db, c, out)
     | None \<Rightarrow> (db, c, out))"
  using tables_ok_row [OF assms, of i]
  by (auto simp: requeue_one_def requeued_record_def change_row_def reindex_def unindex_def Let_def split: option.split)

definition released_record :: "string \<Rightarrow> delivery_record \<Rightarrow> delivery_record" where
  "released_record why r =
     r\<lparr>dr_state := ''pending'', dr_next_attempt := 0, dr_lease_until := 0, dr_last_error := Some why\<rparr>"

definition leased :: "delivery_db \<Rightarrow> string \<times> string \<Rightarrow> bool" where
  "leased db row \<longleftrightarrow> tget (dd_inflight db) (fst row) = Some (snd row)"

lemma leased_row:
  assumes "tables_ok db" "leased db (key, i)"
  obtains r where "tget (dd_deliveries db) i = Some r" "dr_state r = ''inflight''"
    "key = delivery_index_key (dr_lease_until r) i" "dr_capture_id r = i"
  using assms tables_ok_row [OF assms(1)] unfolding tables_ok_def leased_def index_ok_def by force

lemma reclaim_one_eq:
  assumes "tables_ok db" "leased db (key, i)" "tget (dd_deliveries db) i = Some r"
  shows "reclaim_one now (key, i) (db, c, out) =
    (if dr_lease_until r \<le> now
     then let r' = released_record ''delivery lease expired; retry scheduled'' r
          in (change_row r r' db,
              increment_delivery_state (dr_state r') (decrement_delivery_state (dr_state r) c), out @ [i])
     else (db\<lparr>dd_inflight := tdel key (dd_inflight db)\<rparr>, c, out))"
proof -
  from leased_row [OF assms(1,2)] assms(3)
  have "dr_state r = ''inflight''" "key = delivery_index_key (dr_lease_until r) i" "dr_capture_id r = i"
    by auto
  with assms(3) show ?thesis
    by (auto simp: reclaim_one_def released_record_def change_row_def reindex_def unindex_def Let_def)
qed

lemma recover_inflight_row_eq:
  assumes "body_ok db c" "leased db (key, i)" "tget (dd_deliveries db) i = Some r"
  shows "recover_inflight_row (key, i) (db, c) =
    (let r' = released_record ''delivery lease recovered during startup'' r
     in Inr (change_row r r' db,
             increment_delivery_state (dr_state r') (decrement_delivery_state (dr_state r) c)))"
proof -
  from assms(1) have t: "tables_ok db" and m: "counters_match (dd_deliveries db) c" by (simp_all add: body_ok_def)
  from leased_row [OF t assms(2)] assms(3)
  have r: "dr_state r = ''inflight''" "key = delivery_index_key (dr_lease_until r) i" "dr_capture_id r = i"
    by auto
  have rows: "tsorted (dd_deliveries db)" "length (dd_deliveries db) < 2 ^ 64"
    using t by (simp_all add: tables_ok_def rows_ok_def)
  let ?p = "\<lambda>r. dr_state r = ''pending''" and ?x = "released_record [] r"
  have "tcount ?p (tput i ?x (dd_deliveries db)) = tcount ?p (dd_deliveries db) + 1"
    using tcount_update [OF rows(1) assms(3), of ?p ?x] r(1) by (simp add: released_record_def)
  moreover have "tcount ?p (tput i ?x (dd_deliveries db)) < 2 ^ 64"
    using tcount_le_length [of ?p "tput i ?x (dd_deliveries db)"] rows assms(3) by (simp add: length_tput)
  ultimately have "row_count ''pending'' (dd_deliveries db) + 1 < 2 ^ 64" by (simp add: row_count_def)
  then have "saturating_add (dc_pending c) 1 = dc_pending c + 1"
    using m by (simp add: counters_match_def saturating_add_def u64_simps)
  with r assms(3) show ?thesis
    by (simp add: recover_inflight_row_def released_record_def change_row_def reindex_def unindex_def Let_def
      increment_delivery_state_def decrement_delivery_state_def)
qed

text \<open>A row keeps its Capture id, and its state stays one of the five.\<close>

lemma changed_ids [simp]:
  "dr_capture_id (claimed_record now stamp lease r) = dr_capture_id r"
  "dr_capture_id (finished_record now stamp u r) = dr_capture_id r"
  "dr_capture_id (requeued_record now reason r) = dr_capture_id r"
  "dr_capture_id (released_record why r) = dr_capture_id r"
  by (simp_all add: claimed_record_def finished_record_def requeued_record_def released_record_def Let_def)

lemma changed_states [simp]:
  "dr_state (claimed_record now stamp lease r) = ''inflight''"
  "dr_state (finished_record now stamp u r) = du_state u"
  "dr_state (requeued_record now reason r) = ''pending''"
  "dr_state (released_record why r) = ''pending''"
  by (simp_all add: claimed_record_def finished_record_def requeued_record_def released_record_def Let_def)

lemma working_states [simp]: "''pending'' \<in> set delivery_states" "''inflight'' \<in> set delivery_states"
  by (simp_all add: delivery_states_def)

lemma body_ok_attempts [simp]: "body_ok db (c\<lparr>dc_attempts := n\<rparr>) = body_ok db c"
  by (simp add: body_ok_def)

lemma body_ok_tables: "body_ok db c \<Longrightarrow> tables_ok db"
  by (simp add: body_ok_def)

text \<open>Leases of other rows survive a release.\<close>

lemma leased_change:
  assumes t: "tables_ok db" and l: "leased db row" "leased db (key, i)" "fst row \<noteq> key"
    and q: "tget (dd_deliveries db) i = Some q" and r: "dr_state r = ''pending''"
  shows "leased (change_row q r db) row"
proof -
  from leased_row [OF t l(2)] q have "dr_state q = ''inflight''" "key = delivery_index_key (dr_lease_until q) i"
    "dr_capture_id q = i"
    by auto
  moreover have "tsorted (dd_inflight db)" using t by (simp add: tables_ok_def index_ok_def)
  ultimately show ?thesis
    using l r by (simp add: leased_def change_row_def reindex_def unindex_def Let_def)
qed


section \<open>Releasing leases\<close>

definition release_one :: "string \<Rightarrow> string \<times> string \<Rightarrow> delivery_db \<Rightarrow> delivery_db" where
  "release_one why row db =
     (let r = the (tget (dd_deliveries db) (snd row)) in change_row r (released_record why r) db)"

definition release_counters :: "delivery_counters \<Rightarrow> delivery_counters" where
  "release_counters c = increment_delivery_state ''pending'' (decrement_delivery_state ''inflight'' c)"

lemma release_one_ok:
  assumes "body_ok db c" "leased db (key, i)"
  shows "body_ok (release_one why (key, i) db) (release_counters c)"
    and "dd_deliveries (release_one why (key, i) db)
      = tput i (released_record why (the (tget (dd_deliveries db) i))) (dd_deliveries db)"
    and "\<And>row. leased db row \<Longrightarrow> fst row \<noteq> key \<Longrightarrow>
      snd row \<noteq> i \<and> leased (release_one why (key, i) db) row"
proof -
  have t: "tables_ok db" using assms(1) by (rule body_ok_tables)
  obtain r where r: "tget (dd_deliveries db) i = Some r" "dr_state r = ''inflight''"
    "key = delivery_index_key (dr_lease_until r) i" "dr_capture_id r = i"
    by (rule leased_row [OF t assms(2)])
  show "body_ok (release_one why (key, i) db) (release_counters c)"
    using change_row_ok [OF assms(1) r(1), of "released_record why r"] r
    by (simp add: release_one_def release_counters_def)
  show "dd_deliveries (release_one why (key, i) db)
      = tput i (released_record why (the (tget (dd_deliveries db) i))) (dd_deliveries db)"
    using r by (simp add: release_one_def)
  show "snd row \<noteq> i \<and> leased (release_one why (key, i) db) row"
    if l: "leased db row" and k: "fst row \<noteq> key" for row
  proof -
    have "snd row \<noteq> i"
    proof
      assume "snd row = i"
      with l have "leased db (fst row, i)" by (cases row) simp
      from leased_row [OF t this] r(1) have "fst row = delivery_index_key (dr_lease_until r) i" by auto
      with k r(3) show False by simp
    qed
    with leased_change [OF t l assms(2) k r(1)] r(1) show ?thesis by (simp add: release_one_def)
  qed
qed

lemma release_all:
  assumes "body_ok db c" "distinct (map fst rows)" "\<forall>row \<in> set rows. leased db row"
  shows "body_ok (fold (release_one why) rows db) ((release_counters ^^ length rows) c)
    \<and> (\<forall>i. tget (dd_deliveries (fold (release_one why) rows db)) i =
        (if i \<in> snd ` set rows then map_option (released_record why) (tget (dd_deliveries db) i)
         else tget (dd_deliveries db) i))"
  using assms
proof (induction rows arbitrary: db c)
  case Nil
  then show ?case by simp
next
  case (Cons row rows)
  obtain key i where row: "row = (key, i)" by (cases row)
  with Cons.prems have l: "leased db (key, i)" by simp
  note step = release_one_ok [OF Cons.prems(1) l, where why = why]
  have rest: "\<forall>x \<in> set rows. leased (release_one why (key, i) db) x" "i \<notin> snd ` set rows"
    using step(3) Cons.prems(2,3) row by (auto simp: image_iff)
  obtain r where r: "tget (dd_deliveries db) i = Some r"
    using leased_row [OF body_ok_tables [OF Cons.prems(1)] l] by metis
  have "distinct (map fst rows)" using Cons.prems(2) by simp
  from Cons.IH [OF step(1) this rest(1)] rest(2) show ?case
    by (simp add: row step(2) r funpow_swap1)
qed

lemma reclaim_fold:
  assumes "body_ok db c" "distinct (map fst rows)" "\<forall>row \<in> set rows. leased db row"
    and "\<forall>row \<in> set rows. \<exists>due. delivery_index_due (fst row) = Some due \<and> due \<le> now"
  shows "fold (reclaim_one now) rows (db, c, out) =
    (fold (release_one ''delivery lease expired; retry scheduled'') rows db,
     (release_counters ^^ length rows) c, out @ map snd rows)"
  using assms
proof (induction rows arbitrary: db c out)
  case Nil
  then show ?case by simp
next
  case (Cons row rows)
  let ?why = "''delivery lease expired; retry scheduled''"
  obtain key i where row: "row = (key, i)" by (cases row)
  with Cons.prems have l: "leased db (key, i)" by simp
  note t = body_ok_tables [OF Cons.prems(1)]
  obtain r where r: "tget (dd_deliveries db) i = Some r" "dr_state r = ''inflight''"
    "key = delivery_index_key (dr_lease_until r) i" "dr_capture_id r = i"
    by (rule leased_row [OF t l])
  have "dr_lease_until r \<le> now" using Cons.prems(4) row r(3) by simp
  then have one: "reclaim_one now row (db, c, out) = (release_one ?why row db, release_counters c, out @ [i])"
    using reclaim_one_eq [OF t l r(1)] r by (simp add: row release_one_def release_counters_def Let_def)
  note step = release_one_ok [OF Cons.prems(1) l, where why = ?why]
  have "\<forall>x \<in> set rows. leased (release_one ?why (key, i) db) x" "distinct (map fst rows)"
    using step(3) Cons.prems(2,3) row by (auto simp: image_iff)
  from Cons.IH [OF step(1) this(2,1)] Cons.prems(4) show ?case
    by (simp add: one row funpow_swap1) (simp add: one [unfolded row])
qed

lemma recover_fold:
  assumes "body_ok db c" "distinct (map fst rows)" "\<forall>row \<in> set rows. leased db row"
  shows "try_fold recover_inflight_row rows (db, c) =
    Inr (fold (release_one ''delivery lease recovered during startup'') rows db,
         (release_counters ^^ length rows) c)"
  using assms
proof (induction rows arbitrary: db c)
  case Nil
  then show ?case by simp
next
  case (Cons row rows)
  let ?why = "''delivery lease recovered during startup''"
  obtain key i where row: "row = (key, i)" by (cases row)
  with Cons.prems have l: "leased db (key, i)" by simp
  obtain r where r: "tget (dd_deliveries db) i = Some r" "dr_state r = ''inflight''"
    using leased_row [OF body_ok_tables [OF Cons.prems(1)] l] by metis
  have one: "recover_inflight_row (key, i) (db, c) = Inr (release_one ?why (key, i) db, release_counters c)"
    using recover_inflight_row_eq [OF Cons.prems(1) l r(1)] r
    by (simp add: release_one_def release_counters_def Let_def)
  note step = release_one_ok [OF Cons.prems(1) l, where why = ?why]
  have "\<forall>x \<in> set rows. leased (release_one ?why (key, i) db) x" "distinct (map fst rows)"
    using step(3) Cons.prems(2,3) row by (auto simp: image_iff)
  from Cons.IH [OF step(1) this(2,1)] show ?case
    by (simp add: one row funpow_swap1)
qed

text \<open>The rows of the lease index itself are leased.\<close>

lemma index_rows_leased:
  assumes "tables_ok db"
  shows "distinct (map fst (dd_inflight db))" "\<forall>row \<in> set (dd_inflight db). leased db row"
proof -
  have ts: "tsorted (dd_inflight db)" using assms by (simp add: tables_ok_def index_ok_def)
  then show "distinct (map fst (dd_inflight db))" by (rule tsorted_distinct)
  then show "\<forall>row \<in> set (dd_inflight db). leased db row" by (simp add: leased_def)
qed


section \<open>The operations keep the invariant\<close>

lemma delivery_ok_write: "delivery_ok (write_delivery_counters c db) \<longleftrightarrow> body_ok db c"
  by (simp add: delivery_ok_def write_delivery_counters_def body_ok_def tables_ok_def)

lemma delivery_ok_read:
  assumes "delivery_ok db"
  obtains c where "read_delivery_counters db = Inr c" "body_ok db c" "dd_counters db = Some c"
  using assms by (auto simp: delivery_ok_def read_delivery_counters_def)

lemma ensure_one_ok:
  assumes "body_ok db c" "length (dd_deliveries db) + 1 < 2 ^ 64" "ensure_one l (db, c, n) = Inr (db', c', n')"
  shows "body_ok db' c'" "length (dd_deliveries db') \<le> length (dd_deliveries db) + 1"
proof -
  let ?i = "lo_capture_id l" and ?ds = "dd_deliveries db"
  from assms(1) have t: "tables_ok db" and m: "counters_match ?ds c" by (simp_all add: body_ok_def)
  from t have rows: "rows_ok ?ds" and ts: "tsorted ?ds"
    and p: "index_ok dr_next_attempt ''pending'' ?ds (dd_pending db)"
    and f: "index_ok dr_lease_until ''inflight'' ?ds (dd_inflight db)"
    by (simp_all add: tables_ok_def rows_ok_def)
  have "body_ok db' c' \<and> length (dd_deliveries db') \<le> length ?ds + 1"
  proof (cases "tget ?ds ?i")
    case None
    have n: "dr_capture_id (new_delivery l) = ?i" "dr_state (new_delivery l) = ''pending''"
      "dr_next_attempt (new_delivery l) = 0"
      by (simp_all add: new_delivery_def)
    have h: "\<not> has_state ?ds ?i st" for st using None by (simp add: has_state_def)
    from assms(3) None show ?thesis
      using rows_ok_insert [OF rows None n(1)] counters_insert [OF rows m None n(2)]
        index_add [OF p h n(2)] index_keep [OF f h, of "new_delivery l"] n assms(2) ts
      by (auto simp: ensure_one_def body_ok_def tables_ok_def length_tput)
  next
    case (Some q)
    let ?r = "q\<lparr>dr_bytes := of_nat (lo_length l)\<rparr>"
    from tables_ok_row [OF t Some] have q: "dr_capture_id ?r = ?i" "dr_state ?r \<in> set delivery_states" by simp_all
    from assms(3) Some show ?thesis
      using rows_ok_update [OF rows Some q] counters_same_state [OF rows m Some, of ?r]
        index_same [OF p Some, of ?r] index_same [OF f Some, of ?r] assms(1) ts
      by (auto simp: ensure_one_def body_ok_def tables_ok_def length_tput split: if_splits)
  qed
  then show "body_ok db' c'" "length (dd_deliveries db') \<le> length ?ds + 1" by simp_all
qed

lemma ensure_many_ok:
  assumes "delivery_ok db" "length (dd_deliveries db) + length ls < 2 ^ 64" "ensure_many ls db = Inr (n, db')"
  shows "delivery_ok db'"
proof -
  obtain c where c: "read_delivery_counters db = Inr c" "body_ok db c" by (rule delivery_ok_read [OF assms(1)])
  with assms(3) obtain d e m where f: "try_fold ensure_one ls (db, c, 0) = Inr (d, e, m)"
    and db': "db' = write_delivery_counters e d"
    by (auto simp: ensure_many_def res_simps)
  let ?I = "\<lambda>k s. body_ok (fst s) (fst (snd s)) \<and> length (dd_deliveries (fst s)) + k < 2 ^ 64"
  have "?I 0 (d, e, m)"
  proof (rule try_fold_invariant_measure [OF f])
    show "?I k t" if "?I (Suc k) s" "ensure_one l s = Inr t" for l k s t
      using ensure_one_ok [of "fst s" "fst (snd s)" l "snd (snd s)" "fst t" "fst (snd t)" "snd (snd t)"] that
      by simp
  qed (use c(2) assms(2) in simp)
  then show ?thesis by (simp add: db' delivery_ok_write)
qed

lemma claim_one_ok:
  assumes "body_ok db c" "claim_one now stamp lease i (db, c, out) = (db', c', out')"
  shows "body_ok db' c'"
proof (cases "tget (dd_deliveries db) i")
  case (Some r)
  note t = body_ok_tables [OF assms(1)]
  from change_row_ok [OF assms(1) Some, of "claimed_record now stamp lease r"] tables_ok_row [OF t Some]
    assms Some show ?thesis
    by (auto simp: claim_one_eq [OF t] Let_def split: if_splits)
qed (use assms in \<open>simp add: claim_one_def\<close>)

lemma requeue_one_ok:
  assumes "body_ok db c" "requeue_one now reason i (db, c, out) = (db', c', out')"
  shows "body_ok db' c'"
proof (cases "tget (dd_deliveries db) i")
  case (Some r)
  note t = body_ok_tables [OF assms(1)]
  from change_row_ok [OF assms(1) Some, of "requeued_record now reason r"] tables_ok_row [OF t Some]
    assms Some show ?thesis
    by (auto simp: requeue_one_eq [OF t] Let_def split: if_splits)
qed (use assms in \<open>simp add: requeue_one_def\<close>)

lemma finish_one_ok:
  assumes "body_ok db c" "du_state u \<in> set delivery_states" "du_state u \<noteq> ''inflight''"
    and "finish_one now stamp u (db, c) = Inr (db', c')"
  shows "body_ok db' c'"
proof (cases "tget (dd_deliveries db) (du_capture_id u)")
  case (Some r)
  note t = body_ok_tables [OF assms(1)]
  from change_row_ok [OF assms(1) Some, of "finished_record now stamp u r"] tables_ok_row [OF t Some]
    assms Some show ?thesis
    by (auto simp: finish_one_eq [OF t assms(3)] Let_def)
qed (use assms in \<open>simp add: finish_one_def\<close>)

lemma claim_many_ok:
  assumes "delivery_ok db" "claim_many now stamp ids lease db = Inr (out, db')"
  shows "delivery_ok db'"
proof -
  obtain c where c: "read_delivery_counters db = Inr c" "body_ok db c" by (rule delivery_ok_read [OF assms(1)])
  let ?s = "fold (claim_one now stamp lease) ids (db, c, [])"
  have "(\<lambda>s. body_ok (fst s) (fst (snd s))) ?s"
    by (rule fold_invariant_set) (use c(2) in \<open>auto dest: claim_one_ok split: prod.splits\<close>, metis claim_one_ok prod.collapse)
  with assms(2) c(1) show ?thesis
    by (auto simp: claim_many_def delivery_ok_write split: prod.splits)
qed

lemma requeue_failed_ok:
  assumes "delivery_ok db" "requeue_failed now ids reason db = Inr (out, db')"
  shows "delivery_ok db'"
proof -
  obtain c where c: "read_delivery_counters db = Inr c" "body_ok db c" by (rule delivery_ok_read [OF assms(1)])
  let ?s = "fold (requeue_one now reason) ids (db, c, [])"
  have "(\<lambda>s. body_ok (fst s) (fst (snd s))) ?s"
    by (rule fold_invariant_set) (use c(2) in \<open>auto dest: requeue_one_ok split: prod.splits\<close>, metis requeue_one_ok prod.collapse)
  with assms c(1) show ?thesis
    by (auto simp: requeue_failed_def delivery_ok_write split: prod.splits if_splits)
qed

text \<open>The states the delivery workers report.\<close>

definition final_states :: "string list" where
  "final_states = [''pending'', ''delivered'', ''conflict'', ''failed'']"

lemma finish_many_ok:
  assumes "delivery_ok db" "\<forall>u \<in> set us. du_state u \<in> set final_states" "finish_many now stamp us db = Inr db'"
  shows "delivery_ok db'"
proof -
  obtain c where c: "read_delivery_counters db = Inr c" "body_ok db c" by (rule delivery_ok_read [OF assms(1)])
  with assms(3) obtain d e where f: "try_fold (finish_one now stamp) us (db, c) = Inr (d, e)"
    and db': "db' = write_delivery_counters e d"
    by (auto simp: finish_many_def res_simps)
  have "(\<lambda>s. body_ok (fst s) (snd s)) (d, e)"
  proof (rule try_fold_invariant [OF f])
    show "body_ok (fst t) (snd t)"
      if "u \<in> set us" "body_ok (fst s) (snd s)" "finish_one now stamp u s = Inr t" for u s t
      using finish_one_ok [of "fst s" "snd s" u now stamp "fst t" "snd t"] that assms(2)
      by (auto simp: final_states_def delivery_states_def)
  qed (use c(2) in simp)
  then show ?thesis by (simp add: db' delivery_ok_write)
qed

text \<open>The rows a reclaim takes are leased and expired.\<close>

lemma expired_rows_leased:
  assumes "tables_ok db"
  shows "distinct (map fst (expired_rows now limit db))"
    and "\<forall>row \<in> set (expired_rows now limit db). leased db row
      \<and> (\<exists>due. delivery_index_due (fst row) = Some due \<and> due \<le> now)"
proof -
  have d: "distinct (map fst (take n (dd_inflight db)))" for n
    using index_rows_leased(1) [OF assms] by (simp add: take_map [symmetric])
  obtain n where "expired_rows now limit db = take n (take limit (dd_inflight db))"
    unfolding expired_rows_def using takeWhile_eq_take by blast
  then show "distinct (map fst (expired_rows now limit db))"
    using d [of "min n limit"] by (simp add: min.commute)
  show "\<forall>row \<in> set (expired_rows now limit db). leased db row
      \<and> (\<exists>due. delivery_index_due (fst row) = Some due \<and> due \<le> now)"
    using index_rows_leased(2) [OF assms]
    by (auto simp: expired_rows_def dest!: set_takeWhileD in_set_takeD split: option.splits)
qed

lemma reclaim_eq:
  assumes "delivery_ok db" "limit \<noteq> 0" "read_delivery_counters db = Inr c"
  shows "reclaim_expired_inflight now limit db =
    (let rows = expired_rows now limit db
     in Inr (map snd rows, write_delivery_counters ((release_counters ^^ length rows) c)
               (fold (release_one ''delivery lease expired; retry scheduled'') rows db)))"
proof -
  have b: "body_ok db c" using assms(1,3) by (auto simp: delivery_ok_def read_delivery_counters_def)
  note e = expired_rows_leased [OF body_ok_tables [OF b], where now = now and limit = limit]
  show ?thesis
    using reclaim_fold [OF b e(1), of now "[]"] e(2) assms(2,3)
    by (simp add: reclaim_expired_inflight_def Let_def)
qed

end
