(* ===== verification/DeliveryTheorems.thy ===== *)
theory DeliveryTheorems
  imports DeliveryInvariant
begin

text \<open>
  What the delivery ledger promises: opening repairs any set of rows, every run of operations
  keeps counters and indexes exact, a claim hands out exactly the due rows and never one that is
  leased, the due queue is served in order, and an expired lease returns its Capture.
\<close>

section \<open>The full rebuild\<close>

definition returned_record :: "delivery_record \<Rightarrow> delivery_record" where
  "returned_record r =
     (if dr_state r = ''inflight''
      then r\<lparr>dr_state := ''pending'', dr_next_attempt := 0, dr_lease_until := 0\<rparr> else r)"

lemma returned_record_fields [simp]:
  "dr_capture_id (returned_record r) = dr_capture_id r"
  "dr_state (returned_record r) = (if dr_state r = ''inflight'' then ''pending'' else dr_state r)"
  "returned_record (returned_record r) = returned_record r"
  by (simp_all add: returned_record_def)

lemma tput_same: "tsorted t \<Longrightarrow> tget t k = Some v \<Longrightarrow> tput k v t = t"
  by (rule tsorted_unique) auto

lemma return_inflight_eq:
  "tsorted ds \<Longrightarrow> return_inflight k ds =
     (case tget ds k of None \<Rightarrow> ds | Some r \<Rightarrow> tput k (returned_record r) ds)"
  by (auto simp: return_inflight_def returned_record_def tput_same split: option.split)

lemma return_inflight_fold:
  assumes "tsorted ds"
  shows "tsorted (fold return_inflight ks ds)
    \<and> tget (fold return_inflight ks ds) i = (if i \<in> set ks then map_option returned_record (tget ds i) else tget ds i)"
  using assms
proof (induction ks arbitrary: ds)
  case (Cons k ks)
  have "tsorted (return_inflight k ds)" using Cons.prems by (auto simp: return_inflight_eq split: option.split)
  from Cons.IH [OF this] show ?case
    using Cons.prems by (auto simp: return_inflight_eq option.map_comp comp_def split: option.splits)
qed simp

lemma return_inflight_all:
  assumes "tsorted ds"
  shows "fold return_inflight (map fst ds) ds = map (\<lambda>r. (fst r, returned_record (snd r))) ds"
proof (rule tsorted_unique)
  show "tsorted (fold return_inflight (map fst ds) ds)" using return_inflight_fold [OF assms] by blast
  show "tsorted (map (\<lambda>r. (fst r, returned_record (snd r))) ds)"
    using assms by (simp add: tsorted_def comp_def)
  have "tget (map (\<lambda>r. (fst r, returned_record (snd r))) ds) i = map_option returned_record (tget ds i)" for i
    by (induction ds) auto
  moreover have "i \<notin> set (map fst ds) \<Longrightarrow> tget ds i = None" for i by (simp add: map_of_eq_None_iff)
  ultimately show "tget (fold return_inflight (map fst ds) ds)
      = tget (map (\<lambda>r. (fst r, returned_record (snd r))) ds)"
    using return_inflight_fold [OF assms] by (auto simp: fun_eq_iff)
qed

lemma clear_table: "fold (\<lambda>r. tdel (fst r)) t t = []"
  by (induction t) auto

lemma fold_tput_index:
  assumes "tsorted t" "\<And>k i j. (k, i) \<in> set rows \<Longrightarrow> (k, j) \<in> set rows \<Longrightarrow> i = j"
  shows "tsorted (fold (\<lambda>r. tput (fst r) (snd r)) rows t)
    \<and> (tget (fold (\<lambda>r. tput (fst r) (snd r)) rows t) k = Some i \<longleftrightarrow>
        (k, i) \<in> set rows \<or> k \<notin> fst ` set rows \<and> tget t k = Some i)"
  using assms
proof (induction rows arbitrary: t)
  case (Cons row rows)
  obtain l j where row: "row = (l, j)" by (cases row)
  have "tsorted (tput l j t)" using Cons.prems(1) by simp
  note IH = Cons.IH [OF this]
  have u: "\<And>k i j. (k, i) \<in> set rows \<Longrightarrow> (k, j) \<in> set rows \<Longrightarrow> i = j"
    using Cons.prems(2) by (meson list.set_intros(2))
  have "(l, m) \<in> set rows \<Longrightarrow> m = j" for m using Cons.prems(2) row by fastforce
  with IH [OF u] show ?case by (force simp: row)
qed simp

definition state_counts :: "(string, delivery_record) table \<Rightarrow> delivery_counters \<Rightarrow> delivery_counters" where
  "state_counts ds c =
     c\<lparr>dc_pending := dc_pending c + of_nat (row_count ''pending'' ds),
       dc_inflight := dc_inflight c + of_nat (row_count ''inflight'' ds),
       dc_delivered := dc_delivered c + of_nat (row_count ''delivered'' ds),
       dc_conflicts := dc_conflicts c + of_nat (row_count ''conflict'' ds),
       dc_failed := dc_failed c + of_nat (row_count ''failed'' ds)\<rparr>"

lemma row_count_simps [simp]:
  "row_count st [] = 0"
  "row_count st (r # ds) = (if dr_state (snd r) = st then 1 else 0) + row_count st ds"
  by (simp_all add: row_count_def tcount_def)

lemma counters_from_table_match: "counters_match ds (delivery_counters_from_table ds)"
proof -
  let ?f = "\<lambda>r c. let c = increment_delivery_state (dr_state (snd r)) c
                  in c\<lparr>dc_attempts := saturating_add (dc_attempts c) (dr_attempts (snd (r :: string \<times> delivery_record)))\<rparr>"
  have "\<exists>n. fold ?f ds c = (state_counts ds c)\<lparr>dc_attempts := n\<rparr>" for c
  proof (induction ds arbitrary: c)
    case Nil
    have "c = (state_counts [] c)\<lparr>dc_attempts := dc_attempts c\<rparr>" by (simp add: state_counts_def)
    then show ?case by (metis fold_simps(1))
  next
    case (Cons r ds)
    have "state_counts ds (?f r c) = (state_counts (r # ds) c)
        \<lparr>dc_attempts := saturating_add (dc_attempts c) (dr_attempts (snd r))\<rparr>"
      by (simp add: state_counts_def increment_delivery_state_def Let_def add_ac)
    with Cons.IH [of "?f r c"] show ?case by auto
  qed
  then obtain n where "delivery_counters_from_table ds
      = (state_counts ds \<lparr>dc_total = of_nat (length ds), dc_pending = 0, dc_inflight = 0, dc_delivered = 0,
        dc_conflicts = 0, dc_failed = 0, dc_attempts = 0\<rparr>)\<lparr>dc_attempts := n\<rparr>"
    unfolding delivery_counters_from_table_def by blast
  then show ?thesis by (simp add: counters_match_def state_counts_def)
qed

lemma keyed_rows:
  assumes "tsorted ds" "\<And>i r. tget ds i = Some r \<Longrightarrow> ident r = i"
  shows "(key, j) \<in> set (map (\<lambda>r. (K (snd r) (ident (snd r)), ident (snd r))) (filter (\<lambda>r. P (snd r)) ds))
     \<longleftrightarrow> (\<exists>r. tget ds j = Some r \<and> P r \<and> key = K r j)"
proof -
  have "(key, j) \<in> set (map (\<lambda>r. (K (snd r) (ident (snd r)), ident (snd r))) (filter (\<lambda>r. P (snd r)) ds))
     \<longleftrightarrow> (\<exists>i r. (i, r) \<in> set ds \<and> P r \<and> key = K r (ident r) \<and> j = ident r)"
    by (auto simp: image_iff Bex_def)
  also have "\<dots> \<longleftrightarrow> (\<exists>i r. tget ds i = Some r \<and> P r \<and> key = K r (ident r) \<and> j = ident r)"
    by (simp only: tbl.get_rows [OF assms(1)])
  also have "\<dots> \<longleftrightarrow> (\<exists>r. tget ds j = Some r \<and> P r \<and> key = K r j)"
    using assms(2) by blast
  finally show ?thesis .
qed

lemma rebuild_ledger_ok:
  assumes "rows_ok (dd_deliveries db)"
  shows "delivery_ok (rebuild_ledger db)"
    and "tget (dd_deliveries (rebuild_ledger db)) i = map_option returned_record (tget (dd_deliveries db) i)"
    and "dd_inflight (rebuild_ledger db) = []"
proof -
  define ds where "ds = fold return_inflight (map fst (dd_deliveries db)) (dd_deliveries db)"
  define rws where "rws = map (\<lambda>r. (delivery_index_key (dr_next_attempt (snd r)) (dr_capture_id (snd r)),
      dr_capture_id (snd r))) (filter (\<lambda>r. dr_state (snd r) = ''pending'') ds)"
  have ts: "tsorted (dd_deliveries db)" using assms by (simp add: rows_ok_def)
  have get: "tget ds i = map_option returned_record (tget (dd_deliveries db) i)" for i
    unfolding ds_def using return_inflight_fold [OF ts, of "map fst (dd_deliveries db)" i]
    by (auto simp: map_of_eq_None_iff [symmetric])
  have tsd: "tsorted ds" unfolding ds_def using return_inflight_fold [OF ts] by blast
  have len: "length ds = length (dd_deliveries db)" unfolding ds_def by (simp only: return_inflight_all [OF ts] length_map)
  have rows: "rows_ok ds"
    using assms tsd len by (auto simp: rows_ok_def get)
  have cap: "dr_capture_id r = i" if "tget ds i = Some r" for i r
    using rows that unfolding rows_ok_def by blast
  have mem: "(key, j) \<in> set rws \<longleftrightarrow>
      (\<exists>r. tget ds j = Some r \<and> dr_state r = ''pending'' \<and> key = delivery_index_key (dr_next_attempt r) j)" for key j
    unfolding rws_def
    by (rule keyed_rows [OF tsd, where ident = dr_capture_id and P = "\<lambda>r. dr_state r = ''pending''"
          and K = "\<lambda>r. delivery_index_key (dr_next_attempt r)"]) (rule cap)
  have uniq: "i = j" if "(k, i) \<in> set rws" "(k, j) \<in> set rws" for k i j
    using that mem [of k i] mem [of k j] by (metis delivery_index_key_inject)
  have "tsorted (fold (\<lambda>r. tput (fst r) (snd r)) rws [])
      \<and> (tget (fold (\<lambda>r. tput (fst r) (snd r)) rws []) k = Some j \<longleftrightarrow> (k, j) \<in> set rws)" for k j
    using fold_tput_index [OF tsorted_Nil, of rws k j] uniq by simp
  then have p: "index_ok dr_next_attempt ''pending'' ds (fold (\<lambda>r. tput (fst r) (snd r)) rws [])"
    unfolding index_ok_def mem [symmetric] by simp
  have "index_ok dr_lease_until ''inflight'' ds []"
    by (auto simp: index_ok_def get split: if_splits)
  with p rows show "delivery_ok (rebuild_ledger db)"
    unfolding rebuild_ledger_def Let_def delivery_ok_write clear_table ds_def [symmetric] rws_def [symmetric]
    by (simp add: body_ok_def tables_ok_def counters_from_table_match)
  show "tget (dd_deliveries (rebuild_ledger db)) i = map_option returned_record (tget (dd_deliveries db) i)"
    by (simp add: rebuild_ledger_def Let_def write_delivery_counters_def get [unfolded ds_def])
  show "dd_inflight (rebuild_ledger db) = []"
    by (simp add: rebuild_ledger_def Let_def write_delivery_counters_def clear_table)
qed


section \<open>The fast path\<close>

lemma inflight_length:
  assumes "body_ok db c"
  shows "dd_inflight db = [] \<longleftrightarrow> dc_inflight c = 0"
proof -
  have t: "tables_ok db" using assms by (rule body_ok_tables)
  then have ts: "tsorted (dd_deliveries db)" "length (dd_deliveries db) < 2 ^ 64"
    and ix: "index_ok dr_lease_until ''inflight'' (dd_deliveries db) (dd_inflight db)"
    by (simp_all add: tables_ok_def rows_ok_def)
  let ?n = "row_count ''inflight'' (dd_deliveries db)"
  have "?n < 2 ^ 64"
    using tcount_le_length [of "\<lambda>r. dr_state r = ''inflight''" "dd_deliveries db"] ts(2) by (simp add: row_count_def)
  then have "dc_inflight c = 0 \<longleftrightarrow> ?n = 0"
    using assms u64_of_nat_cmp(2) [of ?n 0] by (simp add: body_ok_def counters_match_def)
  also have "?n = 0 \<longleftrightarrow> (\<forall>r \<in> snd ` set (dd_deliveries db). dr_state r \<noteq> ''inflight'')"
    by (auto simp: row_count_def tcount_def filter_empty_conv)
  also have "\<dots> \<longleftrightarrow> (\<forall>i r. tget (dd_deliveries db) i = Some r \<longrightarrow> dr_state r \<noteq> ''inflight'')"
    using tsorted_distinct [OF ts(1)] by force
  also have "\<dots> \<longleftrightarrow> (\<forall>key i. tget (dd_inflight db) key \<noteq> Some i)"
    using ix unfolding index_ok_def by metis
  also have "\<dots> \<longleftrightarrow> dd_inflight db = []"
    using map_of_eq_empty_iff [of "dd_inflight db"] by (simp add: fun_eq_iff)
  finally show ?thesis by blast
qed

lemma leased_valid:
  assumes "tables_ok db"
  shows "list_all (inflight_row_valid (dd_deliveries db)) (dd_inflight db)"
proof -
  have "inflight_row_valid (dd_deliveries db) (key, i)" if "(key, i) \<in> set (dd_inflight db)" for key i
  proof -
    from index_rows_leased(2) [OF assms] that have "leased db (key, i)" by blast
    from leased_row [OF assms this] obtain r where "tget (dd_deliveries db) i = Some r"
      "dr_state r = ''inflight''" "key = delivery_index_key (dr_lease_until r) i" "dr_capture_id r = i"
      by metis
    then show ?thesis by (simp add: inflight_row_valid_def)
  qed
  then show ?thesis by (auto simp: list_all_iff)
qed

definition recovered_record :: "delivery_record \<Rightarrow> delivery_record" where
  "recovered_record r =
     (if dr_state r = ''inflight'' then released_record ''delivery lease recovered during startup'' r else r)"

lemma fast_startup_ok:
  assumes "delivery_ok db" "fast_startup db = Inr (Some db')"
  shows "delivery_ok db'"
    and "tget (dd_deliveries db') i = map_option recovered_record (tget (dd_deliveries db) i)"
proof -
  obtain c where c: "dd_counters db = Some c" "body_ok db c" using assms(1) by (auto simp: delivery_ok_def)
  note t = body_ok_tables [OF c(2)]
  have "delivery_ok db' \<and> tget (dd_deliveries db') i = map_option recovered_record (tget (dd_deliveries db) i)"
  proof (cases "dc_inflight c = 0")
    case True
    have ix: "index_ok dr_lease_until ''inflight'' (dd_deliveries db) (dd_inflight db)"
      using t by (simp add: tables_ok_def)
    have "dd_inflight db = []" using True inflight_length [OF c(2)] by simp
    then have "tget (dd_deliveries db) i = Some r \<Longrightarrow> dr_state r \<noteq> ''inflight''" for r
      using ix by (auto simp: index_ok_def)
    then have "map_option recovered_record (tget (dd_deliveries db) i) = tget (dd_deliveries db) i"
      by (cases "tget (dd_deliveries db) i") (auto simp: recovered_record_def)
    moreover have "db' = db" using assms(2) c(1) True by (auto simp: fast_startup_def split: if_splits)
    ultimately show ?thesis using assms(1) by simp
  next
    case False
    let ?why = "''delivery lease recovered during startup''" and ?rows = "dd_inflight db"
    have db': "db' = write_delivery_counters ((release_counters ^^ length ?rows) c) (fold (release_one ?why) ?rows db)"
      using assms(2) c(1) False leased_valid [OF t] recover_fold [OF c(2) index_rows_leased [OF t]]
      by (auto simp: fast_startup_def res_simps split: if_splits)
    note all = release_all [OF c(2) index_rows_leased [OF t], of ?why]
    have "delivery_ok db'" using all by (simp add: db' delivery_ok_write)
    moreover have "i \<in> snd ` set ?rows \<longleftrightarrow> has_state (dd_deliveries db) i ''inflight''"
    proof -
      have ix: "index_ok dr_lease_until ''inflight'' (dd_deliveries db) ?rows" using t by (simp add: tables_ok_def)
      have "i \<in> snd ` set ?rows \<longleftrightarrow> (\<exists>key. tget ?rows key = Some i)"
        using index_rows_leased(1) [OF t] by force
      then show ?thesis using ix by (auto simp: index_ok_def has_state_def)
    qed
    ultimately show ?thesis
      using all by (cases "tget (dd_deliveries db) i")
        (simp_all add: db' write_delivery_counters_def has_state_def recovered_record_def)
  qed
  then show "delivery_ok db'" "tget (dd_deliveries db') i = map_option recovered_record (tget (dd_deliveries db) i)"
    by simp_all
qed


section \<open>Runs of the ledger\<close>

text \<open>
  The steps: every operation that commits, with the states the delivery workers report, and a
  restart.  \<open>ensure_many\<close> has room for its rows in the 64-bit row count of the database.
\<close>

inductive delivery_step :: "delivery_db \<Rightarrow> delivery_db \<Rightarrow> bool" where
  ensure: "ensure_many ls db = Inr (n, db') \<Longrightarrow> length (dd_deliveries db) + length ls < 2 ^ 64
    \<Longrightarrow> delivery_step db db'"
| claim: "claim_many now stamp ids lease db = Inr (rs, db') \<Longrightarrow> delivery_step db db'"
| finish: "finish_many now stamp us db = Inr db' \<Longrightarrow> \<forall>u \<in> set us. du_state u \<in> set final_states
    \<Longrightarrow> delivery_step db db'"
| requeue: "requeue_failed now ids reason db = Inr (out, db') \<Longrightarrow> delivery_step db db'"
| reclaim: "reclaim_expired_inflight now limit db = Inr (out, db') \<Longrightarrow> delivery_step db db'"
| restart: "open_ledger seed_at db = Inr db' \<Longrightarrow> delivery_step db db'"

abbreviation delivery_run :: "delivery_db \<Rightarrow> delivery_db \<Rightarrow> bool" where
  "delivery_run \<equiv> delivery_step\<^sup>*\<^sup>*"

lemma delivery_ok_meta [simp]:
  "delivery_ok (db\<lparr>dd_schema := x\<rparr>) = delivery_ok db"
  "delivery_ok (db\<lparr>dd_quality := q\<rparr>) = delivery_ok db"
  by (simp_all add: delivery_ok_def body_ok_def tables_ok_def)

text \<open>The schema and quality checks of \<open>open\<close> leave the delivery tables alone.\<close>

lemma open_meta:
  assumes "open_schema db = Inr db1" "open_quality seed_at db1 = Inr db2"
  shows "\<exists>x q. db2 = db\<lparr>dd_schema := x, dd_quality := q\<rparr>"
proof -
  from assms(1) obtain x where "db1 = db\<lparr>dd_schema := x\<rparr>"
    by (cases db) (auto simp: open_schema_def split: option.splits if_splits)
  moreover have "\<exists>q. db2 = db1\<lparr>dd_quality := q\<rparr>"
  proof (cases "ql_counters (dd_quality db1) = None")
    case True
    with assms(2) obtain seed where "(if dd_deliveries db1 \<noteq> [] \<and> seed = None then Inl SeedRequired
        else case write_quality (case seed of None \<Rightarrow> quality_default | Some c \<Rightarrow> c) (dd_quality db1) of
            Inl e \<Rightarrow> Inl (QualityError e)
          | Inr q \<Rightarrow> Inr (db1\<lparr>dd_quality := q\<rparr>)) = Inr db2"
      by (auto simp only: open_quality_def res_simps if_False not_True_eq_False simp_thms)
    then show ?thesis by (auto split: if_splits sum.splits)
  next
    case False
    with assms(2) have "db2 = db1" by (simp add: open_quality_def)
    then show ?thesis by (intro exI [of _ "dd_quality db1"]) simp
  qed
  ultimately show ?thesis by auto
qed

lemma open_ledger_cases:
  assumes "open_ledger seed_at db = Inr db'"
  obtains db1 where "dd_deliveries db1 = dd_deliveries db" "delivery_ok db1 = delivery_ok db"
    "fast_startup db1 = Inr (Some db')" "fast_startup db \<noteq> Inr None"
  | db1 where "dd_deliveries db1 = dd_deliveries db" "delivery_ok db1 = delivery_ok db"
    "fast_startup db1 = Inr None" "fast_startup db = Inr None" "db' = rebuild_ledger db1"
proof -
  from assms obtain db1 db2 fast where o: "open_schema db = Inr db1" "open_quality seed_at db1 = Inr db2"
    "fast_startup db2 = Inr fast" "db' = (case fast of Some d \<Rightarrow> d | None \<Rightarrow> rebuild_ledger db2)"
    by (auto simp: open_ledger_def res_simps)
  from open_meta [OF o(1,2)] obtain x q where db2: "db2 = db\<lparr>dd_schema := x, dd_quality := q\<rparr>" by blast
  have "fast_startup db2 = Inr None \<longleftrightarrow> fast_startup db = Inr None"
    by (auto simp: db2 fast_startup_def res_simps split: option.splits if_splits)
  then show ?thesis
    using that(1) [of db2] that(2) [of db2] o(3,4) db2 by (cases fast) auto
qed

lemma open_ledger_ok:
  assumes "open_ledger seed_at db = Inr db'" "delivery_ok db"
  shows "delivery_ok db'"
  using assms(1)
proof (cases rule: open_ledger_cases)
  case (1 db1)
  with fast_startup_ok(1) assms(2) show ?thesis by blast
next
  case (2 db1)
  have "rows_ok (dd_deliveries db)" using assms(2) by (auto simp: delivery_ok_def body_ok_def tables_ok_def)
  with 2 rebuild_ledger_ok(1) [of db1] show ?thesis by simp
qed

lemma reclaim_ok:
  assumes "delivery_ok db" "reclaim_expired_inflight now limit db = Inr (out, db')"
  shows "delivery_ok db'"
proof (cases "limit = 0")
  case True
  with assms show ?thesis by (simp add: reclaim_expired_inflight_def)
next
  case False
  obtain c where c: "read_delivery_counters db = Inr c" "body_ok db c" by (rule delivery_ok_read [OF assms(1)])
  note e = expired_rows_leased [OF body_ok_tables [OF c(2)], where now = now and limit = limit]
  have "\<forall>row \<in> set (expired_rows now limit db). leased db row" using e(2) by blast
  from release_all [OF c(2) e(1) this] assms(2) reclaim_eq [OF assms(1) False c(1)]
  show ?thesis by (auto simp: Let_def delivery_ok_write)
qed

lemma delivery_step_ok: "delivery_step db db' \<Longrightarrow> delivery_ok db \<Longrightarrow> delivery_ok db'"
  by (induction rule: delivery_step.induct)
    (auto intro: ensure_many_ok claim_many_ok finish_many_ok requeue_failed_ok reclaim_ok open_ledger_ok)

text \<open>The counters of a consistent ledger add up.\<close>

lemma row_count_sum:
  assumes "\<forall>r \<in> set ds. dr_state (snd r) \<in> set delivery_states"
  shows "length ds = row_count ''pending'' ds + row_count ''inflight'' ds + row_count ''delivered'' ds
    + row_count ''conflict'' ds + row_count ''failed'' ds"
  using assms by (induction ds) (auto simp: delivery_states_def)

lemma delivery_ok_conserves:
  assumes "delivery_ok db" "dd_counters db = Some c"
  shows "unat (dc_total c) = unat (dc_pending c) + unat (dc_inflight c) + unat (dc_delivered c)
    + unat (dc_conflicts c) + unat (dc_failed c)"
proof -
  let ?ds = "dd_deliveries db"
  from assms have rows: "rows_ok ?ds" and m: "counters_match ?ds c"
    by (auto simp: delivery_ok_def body_ok_def tables_ok_def)
  have b: "row_count st ?ds < 2 ^ 64" for st
    using tcount_le_length [of "\<lambda>r. dr_state r = st" ?ds] rows by (simp add: row_count_def rows_ok_def)
  have len: "length ?ds < 2 ^ 64" "tsorted ?ds" using rows by (simp_all add: rows_ok_def)
  have "\<forall>r \<in> set ?ds. dr_state (snd r) \<in> set delivery_states"
    using rows tbl.get_rows [OF len(2)] by (auto simp: rows_ok_def)
  from row_count_sum [OF this] show ?thesis
    using m unat_of_nat_u64 [OF b] unat_of_nat_u64 [OF len(1)] by (simp add: counters_match_def)
qed


section \<open>Claims\<close>

definition claimable :: "u64 \<Rightarrow> delivery_db \<Rightarrow> string \<Rightarrow> bool" where
  "claimable now db i \<longleftrightarrow>
     (case tget (dd_deliveries db) i of None \<Rightarrow> False | Some r \<Rightarrow> dr_state r = ''pending'' \<and> dr_next_attempt r \<le> now)"

lemma claimable_eq:
  "claimable now db i \<longleftrightarrow> (\<exists>r. tget (dd_deliveries db) i = Some r \<and> dr_state r = ''pending'' \<and> dr_next_attempt r \<le> now)"
  by (auto simp: claimable_def split: option.split)

lemma claim_fold:
  assumes "body_ok db c"
  shows "\<exists>db' c' new. fold (claim_one now stamp lease) ids (db, c, out) = (db', c', out @ new) \<and> body_ok db' c'
    \<and> dr_capture_id ` set new = {i \<in> set ids. claimable now db i} \<and> distinct (map dr_capture_id new)
    \<and> (\<forall>i. tget (dd_deliveries db') i =
          (if i \<in> set ids \<and> claimable now db i
           then map_option (claimed_record now stamp lease) (tget (dd_deliveries db) i)
           else tget (dd_deliveries db) i))
    \<and> (\<forall>r \<in> set new. tget (dd_deliveries db') (dr_capture_id r) = Some r)"
  using assms
proof (induction ids arbitrary: db c out)
  case Nil
  then show ?case by auto
next
  case (Cons i ids)
  note t = body_ok_tables [OF Cons.prems]
  show ?case
  proof (cases "claimable now db i")
    case False
    then have "claim_one now stamp lease i (db, c, out) = (db, c, out)"
      by (auto simp: claim_one_eq [OF t] claimable_def split: option.splits)
    moreover have "{j \<in> set (i # ids). claimable now db j} = {j \<in> set ids. claimable now db j}"
      "\<And>j. j \<in> set (i # ids) \<and> claimable now db j \<longleftrightarrow> j \<in> set ids \<and> claimable now db j"
      using False by auto
    ultimately show ?thesis using Cons.IH [OF Cons.prems, of out] by (simp del: set_simps)
  next
    case True
    then obtain r where r: "tget (dd_deliveries db) i = Some r" "dr_state r = ''pending''" "dr_next_attempt r \<le> now"
      by (auto simp: claimable_eq)
    let ?r = "claimed_record now stamp lease r"
    have id: "dr_capture_id r = i" using tables_ok_row [OF t r(1)] by simp
    obtain c1 where one: "claim_one now stamp lease i (db, c, out) = (change_row r ?r db, c1, out @ [?r])"
      using r by (auto simp: claim_one_eq [OF t] Let_def)
    from claim_one_ok [OF Cons.prems one] have ok: "body_ok (change_row r ?r db) c1" .
    have get: "tget (dd_deliveries (change_row r ?r db)) j = (if j = i then Some ?r else tget (dd_deliveries db) j)" for j
      using id by simp
    have cl: "claimable now (change_row r ?r db) j \<longleftrightarrow> j \<noteq> i \<and> claimable now db j" for j
      using get [of j] by (auto simp: claimable_def)
    from Cons.IH [OF ok, of "out @ [?r]"] obtain db' c' new where IH:
      "fold (claim_one now stamp lease) ids (change_row r ?r db, c1, out @ [?r]) = (db', c', (out @ [?r]) @ new)"
      "body_ok db' c'"
      "dr_capture_id ` set new = {j \<in> set ids. j \<noteq> i \<and> claimable now db j}" "distinct (map dr_capture_id new)"
      "\<forall>j. tget (dd_deliveries db') j =
          (if j \<in> set ids \<and> j \<noteq> i \<and> claimable now db j
           then map_option (claimed_record now stamp lease) (tget (dd_deliveries (change_row r ?r db)) j)
           else tget (dd_deliveries (change_row r ?r db)) j)"
      "\<forall>r \<in> set new. tget (dd_deliveries db') (dr_capture_id r) = Some r"
      unfolding cl by blast
    have "fold (claim_one now stamp lease) (i # ids) (db, c, out) = (db', c', out @ (?r # new))"
      using IH(1) one by simp
    moreover have "dr_capture_id ` set (?r # new) = {j \<in> set (i # ids). claimable now db j}"
      using IH(3) True id by auto
    moreover have "distinct (map dr_capture_id (?r # new))"
      using IH(3,4) id by (auto simp: image_iff)
    moreover have "tget (dd_deliveries db') j =
        (if j \<in> set (i # ids) \<and> claimable now db j
         then map_option (claimed_record now stamp lease) (tget (dd_deliveries db) j)
         else tget (dd_deliveries db) j)" for j
      using IH(5) get [of j] True r(1) by auto
    moreover have "\<forall>r \<in> set (?r # new). tget (dd_deliveries db') (dr_capture_id r) = Some r"
      using IH(5,6) get [of i] id by simp
    ultimately show ?thesis using IH(2) by blast
  qed
qed

lemma claim_many_spec:
  assumes "delivery_ok db" "claim_many now stamp ids lease db = Inr (out, db')"
  shows "dr_capture_id ` set out = {i \<in> set ids. claimable now db i} \<and> distinct (map dr_capture_id out)
    \<and> (\<forall>i. tget (dd_deliveries db') i =
          (if i \<in> set ids \<and> claimable now db i
           then map_option (claimed_record now stamp lease) (tget (dd_deliveries db) i)
           else tget (dd_deliveries db) i))
    \<and> (\<forall>r \<in> set out. tget (dd_deliveries db') (dr_capture_id r) = Some r)"
proof -
  obtain c where c: "read_delivery_counters db = Inr c" "body_ok db c" by (rule delivery_ok_read [OF assms(1)])
  from claim_fold [OF c(2), of now stamp lease ids "[]"] assms(2) c(1)
  show ?thesis by (auto simp: claim_many_def write_delivery_counters_def)
qed

section \<open>The due queue\<close>

lemma index_sorted_due:
  assumes "tables_ok db"
  shows "sorted (map (\<lambda>row. the (delivery_index_due (fst row))) (dd_pending db))"
    and "(key, i) \<in> set (dd_pending db) \<longleftrightarrow>
      (\<exists>r. tget (dd_deliveries db) i = Some r \<and> dr_state r = ''pending''
         \<and> key = delivery_index_key (dr_next_attempt r) i)"
proof -
  have ix: "index_ok dr_next_attempt ''pending'' (dd_deliveries db) (dd_pending db)"
    using assms by (simp add: tables_ok_def)
  then have ts: "tsorted (dd_pending db)" by (simp add: index_ok_def)
  show mem: "(key, i) \<in> set (dd_pending db) \<longleftrightarrow>
      (\<exists>r. tget (dd_deliveries db) i = Some r \<and> dr_state r = ''pending''
         \<and> key = delivery_index_key (dr_next_attempt r) i)" for key i
    using ix unfolding tbl.get_rows [OF ts, symmetric] index_ok_def by blast
  have "sorted_wrt (<) (map fst (dd_pending db))" using ts by (simp add: tsorted_def)
  then have "sorted_wrt (\<lambda>x y. fst x < fst y) (dd_pending db)" by (simp add: sorted_wrt_map)
  then have "sorted_wrt (\<lambda>x y. the (delivery_index_due (fst x)) \<le> the (delivery_index_due (fst y))) (dd_pending db)"
  proof (rule sorted_wrt_mono_rel [rotated])
    fix x y assume xy: "x \<in> set (dd_pending db)" "y \<in> set (dd_pending db)" "fst x < fst y"
    obtain q :: delivery_record where "fst x = delivery_index_key (dr_next_attempt q) (snd x)"
      using mem [of "fst x" "snd x"] xy(1) unfolding prod.collapse by blast
    moreover obtain r :: delivery_record where "fst y = delivery_index_key (dr_next_attempt r) (snd y)"
      using mem [of "fst y" "snd y"] xy(2) unfolding prod.collapse by blast
    ultimately
    show "the (delivery_index_due (fst x)) \<le> the (delivery_index_due (fst y))"
      using xy(3) by (auto simp: delivery_index_key_less)
  qed
  then show "sorted (map (\<lambda>row. the (delivery_index_due (fst row))) (dd_pending db))"
    by (simp add: sorted_map)
qed

text \<open>The lease index likewise.\<close>

lemma lease_index_due:
  assumes "tables_ok db" "x \<in> set (dd_inflight db)"
  shows "\<exists>due. delivery_index_due (fst x) = Some due \<and> fst x = delivery_index_key due (snd x)"
proof -
  obtain key i where x: "x = (key, i)" by (cases x)
  from assms index_rows_leased(2) [OF assms(1)] x have "leased db (key, i)" by blast
  then obtain r where "tget (dd_deliveries db) i = Some r" "dr_state r = ''inflight''"
    "key = delivery_index_key (dr_lease_until r) i" "dr_capture_id r = i"
    by (rule leased_row [OF assms(1)])
  then show ?thesis using x by simp
qed

lemma lease_index_sorted:
  assumes "tables_ok db"
  shows "sorted (map (\<lambda>row. the (delivery_index_due (fst row))) (dd_inflight db))"
proof -
  have "sorted_wrt (\<lambda>x y. fst x < fst y) (dd_inflight db)"
    using assms by (simp add: tables_ok_def index_ok_def tsorted_def sorted_wrt_map)
  then have "sorted_wrt (\<lambda>x y. the (delivery_index_due (fst x)) \<le> the (delivery_index_due (fst y))) (dd_inflight db)"
  proof (rule sorted_wrt_mono_rel [rotated])
    fix x y assume "x \<in> set (dd_inflight db)" "y \<in> set (dd_inflight db)" "fst x < fst y"
    then show "the (delivery_index_due (fst x)) \<le> the (delivery_index_due (fst y))"
      using lease_index_due [OF assms, of x] lease_index_due [OF assms, of y]
      by (auto simp: delivery_index_key_less)
  qed
  then show ?thesis by (simp add: sorted_map)
qed

lemma pending_scan_eq:
  assumes "\<forall>row \<in> set rows. delivery_index_due (fst row) \<noteq> None"
  shows "pending_scan now limit out rows =
    Inr (out @ map snd (take (max 1 (limit - length out))
           (takeWhile (\<lambda>row. the (delivery_index_due (fst row)) \<le> now) rows)))"
  using assms
proof (induction rows arbitrary: out)
  case Nil
  then show ?case by simp
next
  case (Cons row rows)
  obtain due where due: "delivery_index_due (fst row) = Some due" using Cons.prems by auto
  show ?case
  proof (cases "now < due")
    case True
    then show ?thesis using due by (simp add: not_le)
  next
    case False
    then have le: "due \<le> now" by simp
    show ?thesis
    proof (cases "limit \<le> length out + 1")
      case True
      then have "max 1 (limit - length out) = 1" by simp
      then show ?thesis using due False le True by simp
    next
      case f: False
      then have "max 1 (limit - length out) = Suc (max 1 (limit - length (out @ [snd row])))" by simp
      then show ?thesis using Cons due False le f by simp
    qed
  qed
qed


lemma sorted_takeWhile_le:
  "sorted (map f xs) \<Longrightarrow> x \<in> set xs \<Longrightarrow> f x \<le> b \<Longrightarrow> x \<in> set (takeWhile (\<lambda>x. f x \<le> b) xs)"
  by (induction xs) auto

section \<open>The promises\<close>

definition example_locator :: "string \<Rightarrow> locator" where
  "example_locator i =
     \<lparr>lo_capture_id = i, lo_raw_sha256 = ''h'', lo_segment_id = 1, lo_offset = 0, lo_length = 7,
      lo_received_at = None, lo_model = None\<rparr>"

definition empty_ledger :: delivery_db where
  "empty_ledger =
     \<lparr>dd_schema = Some delivery_schema_version, dd_deliveries = [], dd_pending = [], dd_inflight = [],
      dd_counters = Some \<lparr>dc_total = 0, dc_pending = 0, dc_inflight = 0, dc_delivered = 0, dc_conflicts = 0,
        dc_failed = 0, dc_attempts = 0\<rparr>,
      dd_quality = \<lparr>ql_counters = Some quality_default, ql_archive = None\<rparr>\<rparr>"

lemma empty_ledger_ok: "delivery_ok empty_ledger"
  by (simp add: delivery_ok_def empty_ledger_def body_ok_def tables_ok_def rows_ok_def index_ok_def
    counters_match_def)

definition one_pending :: delivery_db where
  "one_pending =
     empty_ledger\<lparr>dd_deliveries := [(''a'', new_delivery (example_locator ''a''))],
       dd_pending := [(delivery_index_key 0 ''a'', ''a'')],
       dd_counters := Some \<lparr>dc_total = 1, dc_pending = 1, dc_inflight = 0, dc_delivered = 0,
         dc_conflicts = 0, dc_failed = 0, dc_attempts = 0\<rparr>\<rparr>"

lemma one_pending_ensure: "ensure_many [example_locator ''a''] empty_ledger = Inr (1, one_pending)"
  by (simp add: ensure_many_def read_delivery_counters_def ensure_one_def empty_ledger_def one_pending_def
    write_delivery_counters_def example_locator_def)

lemma one_pending_ok: "delivery_ok one_pending"
  by (rule ensure_many_ok [OF empty_ledger_ok _ one_pending_ensure]) (simp add: empty_ledger_def)

lemma one_pending_row:
  "tget (dd_deliveries one_pending) ''a'' = Some (new_delivery (example_locator ''a''))"
  "dr_state (new_delivery l) = ''pending''" "dr_next_attempt (new_delivery l) = 0"
  by (simp_all add: one_pending_def new_delivery_def)

text \<open>
  C8: Every run of the delivery ledger (adding, claiming, finishing, requeueing, reclaiming,
  restarting, in any order) keeps its counters and both indexes exact, and the counters it
  reports always satisfy total = pending + inflight + delivered + conflicts + failed.
\<close>

theorem delivery_conservation:
  assumes "delivery_run db db'" "delivery_ok db"
  shows "delivery_ok db' \<and> (\<exists>c. ledger_health db' = Inr c
    \<and> dc_total c = of_nat (length (dd_deliveries db'))
    \<and> unat (dc_total c) = unat (dc_pending c) + unat (dc_inflight c) + unat (dc_delivered c)
        + unat (dc_conflicts c) + unat (dc_failed c))"
proof -
  from assms have ok: "delivery_ok db'" by (induction rule: rtranclp_induct) (auto intro: delivery_step_ok)
  then obtain c where c: "dd_counters db' = Some c" "body_ok db' c" by (auto simp: delivery_ok_def)
  then show ?thesis
    using ok delivery_ok_conserves [OF ok c(1)]
    by (auto simp: ledger_health_def read_delivery_counters_def body_ok_def counters_match_def)
qed

theorem delivery_conservation_witness:
  "delivery_run empty_ledger one_pending \<and> delivery_ok one_pending"
proof -
  have "delivery_step empty_ledger one_pending"
    by (rule ensure [OF one_pending_ensure]) (simp add: empty_ledger_def)
  then have run: "delivery_run empty_ledger one_pending" by blast
  from delivery_conservation [OF run empty_ledger_ok] run show ?thesis by blast
qed

text \<open>
  Opening a ledger whose counters are missing, disagree with its tables, or whose lease
  index is stale repairs it: whatever the indexes and counters held, afterwards they are exact,
  nothing is leased, leased rows are pending and due at once, and every other row is unchanged.
\<close>

theorem open_repairs:
  assumes "rows_ok (dd_deliveries db)" "fast_startup db = Inr None" "open_ledger seed_at db = Inr db'"
  shows "delivery_ok db' \<and> dd_inflight db' = []
    \<and> (\<forall>i. tget (dd_deliveries db') i = map_option returned_record (tget (dd_deliveries db) i))"
  using assms(3)
proof (cases rule: open_ledger_cases)
  case (2 db1)
  with assms(1) rebuild_ledger_ok [of db1] show ?thesis by simp
qed (use assms(2) in simp)

definition stale_ledger :: delivery_db where
  "stale_ledger = one_pending\<lparr>dd_pending := [(''junk'', ''b'')], dd_counters := None\<rparr>"

theorem open_repairs_witness:
  "\<exists>db'. open_ledger NoSeed stale_ledger = Inr db' \<and> delivery_ok db'"
proof -
  have f: "fast_startup stale_ledger = Inr None" by (simp add: fast_startup_def stale_ledger_def)
  have r: "rows_ok (dd_deliveries stale_ledger)"
    using one_pending_ok by (auto simp: stale_ledger_def delivery_ok_def body_ok_def tables_ok_def)
  have o: "open_ledger NoSeed stale_ledger = Inr (rebuild_ledger stale_ledger)"
    using f by (simp add: open_ledger_def open_schema_def open_quality_def stale_ledger_def one_pending_def
      empty_ledger_def)
  from open_repairs [OF r f o] o show ?thesis by blast
qed


text \<open>
  A claim hands out, once each, exactly the requested Captures that are pending and due; each
  is then leased with one more attempt and a lease end, every other row is untouched, and no
  later claim, at any time and for any ids, hands out any of them again.
\<close>

theorem claim_exclusive:
  assumes "delivery_ok db" "claim_many now stamp ids lease db = Inr (out, db')"
  shows "dr_capture_id ` set out = {i \<in> set ids. claimable now db i} \<and> distinct (map dr_capture_id out)
    \<and> (\<forall>r \<in> set out. dr_state r = ''inflight'' \<and> dr_lease_until r = lease_end now lease
         \<and> tget (dd_deliveries db') (dr_capture_id r) = Some r)
    \<and> (\<forall>i. i \<notin> dr_capture_id ` set out \<longrightarrow> tget (dd_deliveries db') i = tget (dd_deliveries db) i)
    \<and> (\<forall>now2 stamp2 ids2 lease2 out2 db2. claim_many now2 stamp2 ids2 lease2 db' = Inr (out2, db2)
         \<longrightarrow> dr_capture_id ` set out2 \<inter> dr_capture_id ` set out = {})"
proof -
  note sp = claim_many_spec [OF assms]
  have held: "dr_state r = ''inflight'' \<and> dr_lease_until r = lease_end now lease
      \<and> tget (dd_deliveries db') (dr_capture_id r) = Some r" if r: "r \<in> set out" for r
  proof -
    have g: "tget (dd_deliveries db') (dr_capture_id r) = Some r" using sp r by blast
    have "dr_capture_id r \<in> {i \<in> set ids. claimable now db i}" using sp r by blast
    then have "map_option (claimed_record now stamp lease) (tget (dd_deliveries db) (dr_capture_id r)) = Some r"
      using sp g by auto
    with g show ?thesis by (auto simp: claimed_record_def)
  qed
  have "dr_capture_id ` set out2 \<inter> dr_capture_id ` set out = {}"
    if c2: "claim_many now2 stamp2 ids2 lease2 db' = Inr (out2, db2)" for now2 stamp2 ids2 lease2 out2 db2
  proof -
    have "\<not> claimable now2 db' (dr_capture_id r)" if "r \<in> set out" for r
      using held [OF that] by (simp add: claimable_def)
    with claim_many_spec [OF claim_many_ok [OF assms] c2] show ?thesis by auto
  qed
  with sp held show ?thesis by auto
qed

theorem claim_exclusive_witness:
  "\<exists>out db'. claim_many 5 ''now'' [''a'', ''a'', ''b''] 30000 one_pending = Inr (out, db')
     \<and> dr_capture_id ` set out = {''a''}"
proof -
  obtain c where c: "read_delivery_counters one_pending = Inr c" by (rule delivery_ok_read [OF one_pending_ok])
  then obtain out db' where cl: "claim_many 5 ''now'' [''a'', ''a'', ''b''] 30000 one_pending = Inr (out, db')"
    by (cases "fold (claim_one 5 ''now'' 30000) [''a'', ''a'', ''b''] (one_pending, c, [])")
      (simp add: claim_many_def)
  have "claimable 5 one_pending ''a''" "\<not> claimable 5 one_pending ''b''"
    by (simp_all add: claimable_def one_pending_def new_delivery_def)
  then have "{i \<in> set [''a'', ''a'', ''b'']. claimable 5 one_pending i} = {''a''}" by auto
  with claim_exclusive [OF one_pending_ok cl] cl show ?thesis by metis
qed

lemma pending_row_matches:
  assumes t: "tables_ok db" and x: "x \<in> set (dd_pending db)"
  shows "\<exists>r. tget (dd_deliveries db) (snd x) = Some r \<and> dr_state r = ''pending''
      \<and> fst x = delivery_index_key (dr_next_attempt r) (snd x)"
    and "delivery_index_due (fst x) = Some (dr_next_attempt (the (tget (dd_deliveries db) (snd x))))"
proof -
  show row: "\<exists>r. tget (dd_deliveries db) (snd x) = Some r \<and> dr_state r = ''pending''
      \<and> fst x = delivery_index_key (dr_next_attempt r) (snd x)"
    using index_sorted_due(2) [OF t, of "fst x" "snd x"] x by simp
  then show "delivery_index_due (fst x) = Some (dr_next_attempt (the (tget (dd_deliveries db) (snd x))))" by auto
qed

lemma pending_distinct_ids:
  assumes "tables_ok db"
  shows "distinct (map snd (dd_pending db))"
proof -
  have "inj_on snd (set (dd_pending db))"
  proof (rule inj_onI)
    fix x y assume "x \<in> set (dd_pending db)" "y \<in> set (dd_pending db)" and s: "snd x = snd y"
    with pending_row_matches(1) [OF assms, of x] pending_row_matches(1) [OF assms, of y] have "fst x = fst y" by auto
    then show "x = y" using s by (rule prod_eqI)
  qed
  moreover have "distinct (dd_pending db)"
    using assms tsorted_distinct [of "dd_pending db"] by (simp add: tables_ok_def index_ok_def distinct_map)
  ultimately show ?thesis by (simp only: distinct_map simp_thms)
qed

lemma claimable_pending_row:
  assumes "tables_ok db" "claimable now db i"
  shows "\<exists>x \<in> set (takeWhile (\<lambda>row. the (delivery_index_due (fst row)) \<le> now) (dd_pending db)). snd x = i"
proof -
  obtain r where r: "tget (dd_deliveries db) i = Some r" "dr_state r = ''pending''" "dr_next_attempt r \<le> now"
    using assms(2) by (auto simp: claimable_eq)
  have x: "(delivery_index_key (dr_next_attempt r) i, i) \<in> set (dd_pending db)"
    using index_sorted_due(2) [OF assms(1)] r by blast
  from sorted_takeWhile_le [OF index_sorted_due(1) [OF assms(1)] x, of now] r(3) show ?thesis by force
qed

lemma pending_ids_spec:
  assumes "delivery_ok db"
  shows "\<exists>out. pending_ids now limit db = Inr out \<and> distinct out \<and> length out \<le> max 1 limit
    \<and> (\<forall>i \<in> set out. claimable now db i)
    \<and> sorted (map (\<lambda>i. dr_next_attempt (the (tget (dd_deliveries db) i))) out)
    \<and> (length out < limit \<longrightarrow> (\<forall>i. claimable now db i \<longrightarrow> i \<in> set out))"
proof -
  obtain c where "body_ok db c" by (rule delivery_ok_read [OF assms])
  then have t: "tables_ok db" by (rule body_ok_tables)
  let ?P = "\<lambda>row. the (delivery_index_due (fst row)) \<le> now" and ?n = "max 1 limit"
  let ?rows = "take ?n (takeWhile ?P (dd_pending db))"
  note row = pending_row_matches [OF t]
  have "\<forall>x \<in> set (dd_pending db). delivery_index_due (fst x) \<noteq> None" using row(2) by auto
  from pending_scan_eq [OF this, of now limit "[]"]
  have eq: "pending_ids now limit db = Inr (map snd ?rows)" by (simp add: pending_ids_def)
  have sub: "x \<in> set (dd_pending db) \<and> ?P x" if "x \<in> set ?rows" for x
    using that by (auto dest!: in_set_takeD set_takeWhileD)
  have 1: "distinct (map snd ?rows)"
    by (subst takeWhile_eq_take, subst take_take, subst take_map [symmetric]) (intro distinct_take pending_distinct_ids t)
  have 2: "claimable now db i" if i: "i \<in> set (map snd ?rows)" for i
  proof -
    from i obtain x where x: "x \<in> set ?rows" "i = snd x" unfolding set_map by (rule imageE)
    from sub [OF x(1)] have s: "x \<in> set (dd_pending db)" "?P x" by blast+
    from row(1) [OF s(1)] obtain r where r: "tget (dd_deliveries db) (snd x) = Some r" "dr_state r = ''pending''"
      "fst x = delivery_index_key (dr_next_attempt r) (snd x)" by (elim exE conjE)
    from s(2) have "dr_next_attempt r \<le> now" by (simp add: r(3))
    with r(1,2) x(2) show ?thesis by (simp add: claimable_def)
  qed
  have "sorted (map (\<lambda>x. the (delivery_index_due (fst x))) ?rows)"
    using index_sorted_due(1) [OF t] unfolding sorted_map
    by (subst takeWhile_eq_take) (intro sorted_wrt_take)
  moreover have "map (\<lambda>x. the (delivery_index_due (fst x))) ?rows
      = map (\<lambda>i. dr_next_attempt (the (tget (dd_deliveries db) i))) (map snd ?rows)"
    unfolding map_map comp_def by (rule map_cong [OF refl], drule sub) (simp add: row(2))
  ultimately have 3: "sorted (map (\<lambda>i. dr_next_attempt (the (tget (dd_deliveries db) i))) (map snd ?rows))"
    by (simp only:)
  have 4: "i \<in> set (map snd ?rows)" if short: "length (map snd ?rows) < limit" and i: "claimable now db i" for i
  proof -
    have "?rows = takeWhile ?P (dd_pending db)" using short by simp
    with claimable_pending_row [OF t i] show ?thesis by force
  qed
  have 5: "length (map snd ?rows) \<le> ?n" by simp
  define out where "out = map snd ?rows"
  from eq 1 2 3 4 5 show ?thesis unfolding out_def [symmetric] by blast
qed

text \<open>
  Reading the due queue of a consistent ledger never fails; it lists claimable Captures
  without repetition in the order of their due times, and when it lists fewer than the limit
  it has listed every claimable Capture.
\<close>

theorem due_queue:
  assumes "delivery_ok db"
  shows "\<exists>out. pending_ids now limit db = Inr out \<and> distinct out
    \<and> (\<forall>i \<in> set out. claimable now db i)
    \<and> sorted (map (\<lambda>i. dr_next_attempt (the (tget (dd_deliveries db) i))) out)
    \<and> (length out < limit \<longrightarrow> (\<forall>i. claimable now db i \<longrightarrow> i \<in> set out))"
  using pending_ids_spec [OF assms] by blast

theorem due_queue_witness:
  "\<exists>out. pending_ids 5 10 one_pending = Inr out \<and> ''a'' \<in> set out"
proof -
  have "claimable 5 one_pending ''a''" by (simp add: claimable_def one_pending_def new_delivery_def)
  moreover obtain out where out: "pending_ids 5 10 one_pending = Inr out" "distinct out"
    "\<forall>i \<in> set out. claimable 5 one_pending i" "length out < 10 \<longrightarrow> (\<forall>i. claimable 5 one_pending i \<longrightarrow> i \<in> set out)"
    using due_queue [OF one_pending_ok, of 5 10] by (elim exE conjE)
  have "claimable 5 one_pending i \<Longrightarrow> i = ''a''" for i
    by (simp add: claimable_def one_pending_def split: if_splits)
  with out(3) have "set out \<subseteq> {''a''}" by blast
  with out(2) have "length out \<le> 1"
    using distinct_card [of out] card_mono [of "{''a''}" "set out"] by simp
  then have "length out < 10" by simp
  ultimately have "''a'' \<in> set out" using out(4) by blast
  with out(1) show ?thesis by blast
qed

text \<open>
  Reclaiming never loses a Capture to a dead worker: every Capture it reports had an expired
  lease and is now pending and due at once, no other row changes, and when the limit covers the
  lease index no expired lease is left.
\<close>

theorem expired_lease_returns:
  assumes "delivery_ok db" "limit \<noteq> 0"
  shows "\<exists>out db'. reclaim_expired_inflight now limit db = Inr (out, db')
    \<and> (\<forall>i \<in> set out. (\<exists>r. tget (dd_deliveries db) i = Some r \<and> dr_state r = ''inflight'' \<and> dr_lease_until r \<le> now)
         \<and> claimable 0 db' i)
    \<and> (\<forall>i. i \<notin> set out \<longrightarrow> tget (dd_deliveries db') i = tget (dd_deliveries db) i)
    \<and> (length (dd_inflight db) \<le> limit \<longrightarrow>
        (\<forall>i r. tget (dd_deliveries db') i = Some r \<longrightarrow> dr_state r = ''inflight'' \<longrightarrow> now < dr_lease_until r))"
proof -
  obtain c where c: "read_delivery_counters db = Inr c" "body_ok db c" by (rule delivery_ok_read [OF assms(1)])
  note t = body_ok_tables [OF c(2)]
  let ?rows = "expired_rows now limit db" and ?why = "''delivery lease expired; retry scheduled''"
  note e = expired_rows_leased [OF t, where now = now and limit = limit]
  have l: "\<forall>row \<in> set ?rows. leased db row" using e(2) by blast
  define db' where "db' = write_delivery_counters ((release_counters ^^ length ?rows) c) (fold (release_one ?why) ?rows db)"
  have eq: "reclaim_expired_inflight now limit db = Inr (map snd ?rows, db')"
    using reclaim_eq [OF assms c(1)] by (simp add: db'_def Let_def)
  have get: "tget (dd_deliveries db') i = (if i \<in> snd ` set ?rows
      then map_option (released_record ?why) (tget (dd_deliveries db) i) else tget (dd_deliveries db) i)" for i
    using release_all [OF c(2) e(1) l, of ?why] by (simp add: db'_def write_delivery_counters_def)
  have old: "\<exists>r. tget (dd_deliveries db) i = Some r \<and> dr_state r = ''inflight'' \<and> dr_lease_until r \<le> now"
    if "(key, i) \<in> set ?rows" for key i
  proof -
    from l that have "leased db (key, i)" by blast
    from leased_row [OF t this] obtain r where "tget (dd_deliveries db) i = Some r" "dr_state r = ''inflight''"
      "key = delivery_index_key (dr_lease_until r) i" by metis
    with e(2) that show ?thesis by force
  qed
  have 1: "(\<exists>r. tget (dd_deliveries db) i = Some r \<and> dr_state r = ''inflight'' \<and> dr_lease_until r \<le> now)
      \<and> claimable 0 db' i" if i: "i \<in> set (map snd ?rows)" for i
  proof -
    from i obtain key where "(key, i) \<in> set ?rows" by auto
    from old [OF this] i show ?thesis by (auto simp: claimable_eq get released_record_def)
  qed
  have 2: "now < dr_lease_until r"
    if len: "length (dd_inflight db) \<le> limit" and r: "tget (dd_deliveries db') i = Some r" "dr_state r = ''inflight''" for i r
  proof (rule ccontr)
    assume "\<not> now < dr_lease_until r"
    have ni: "i \<notin> snd ` set ?rows" using r get [of i] by (auto split: if_splits)
    with r get have d: "tget (dd_deliveries db) i = Some r" by simp
    have ix: "index_ok dr_lease_until ''inflight'' (dd_deliveries db) (dd_inflight db)"
      using t by (simp add: tables_ok_def)
    then have ts: "tsorted (dd_inflight db)" by (simp add: index_ok_def)
    let ?key = "delivery_index_key (dr_lease_until r) i"
    have "tget (dd_inflight db) ?key = Some i" using ix d r(2) unfolding index_ok_def by blast
    then have x: "(?key, i) \<in> set (dd_inflight db)" by (rule map_of_SomeD)
    have "sorted (map (\<lambda>row. the (delivery_index_due (fst row))) (dd_inflight db))"
      by (rule lease_index_sorted [OF t])
    from sorted_takeWhile_le [OF this x, of now] \<open>\<not> now < dr_lease_until r\<close>
    have "(?key, i) \<in> set (takeWhile (\<lambda>row. the (delivery_index_due (fst row)) \<le> now) (dd_inflight db))" by simp
    also have "takeWhile (\<lambda>row. the (delivery_index_due (fst row)) \<le> now) (dd_inflight db) = ?rows"
      unfolding expired_rows_def
    proof (rule takeWhile_cong)
      fix x assume "x \<in> set (dd_inflight db)"
      from lease_index_due [OF t this] obtain due where "delivery_index_due (fst x) = Some due" by blast
      then show "(the (delivery_index_due (fst x)) \<le> now)
          = (case delivery_index_due (fst x) of None \<Rightarrow> False | Some due \<Rightarrow> due \<le> now)" by simp
    qed (use len in simp)
    finally show False using ni by force
  qed
  show ?thesis using eq get 1 2 by (intro exI [of _ "map snd ?rows"] exI [of _ db']) auto
qed

definition one_leased :: "string \<Rightarrow> u64 \<Rightarrow> delivery_db \<Rightarrow> delivery_db" where
  "one_leased stamp now db = (case claim_many now stamp [''a''] 10 db of Inr (out, db') \<Rightarrow> db' | Inl e \<Rightarrow> db)"

lemma one_leased_ok: "delivery_ok (one_leased ''t'' 5 one_pending)"
  using claim_many_ok [OF one_pending_ok, of 5 "''t''" "[''a'']" 10] one_pending_ok
  by (auto simp: one_leased_def split: sum.splits)

theorem expired_lease_returns_witness:
  "\<exists>out db'. reclaim_expired_inflight 100 8 (one_leased ''t'' 5 one_pending) = Inr (out, db') \<and> delivery_ok db'"
  using expired_lease_returns [OF one_leased_ok, of 8 100] reclaim_ok [OF one_leased_ok, of 100 8] by fastforce

definition update_a :: "string \<Rightarrow> nat option \<Rightarrow> delivery_update" where
  "update_a state delay =
     \<lparr>du_capture_id = ''a'', du_state = state, du_error = None, du_next_attempt = delay\<rparr>"


end
