(* ===== verification/DeliveryWorker.thy ===== *)
theory DeliveryWorker
  imports DeliveryTheorems Json
begin

text \<open>
  The delivery workers of the Relay (\<open>relay.rs\<close>): scheduling, claiming a batch, loading the
  bodies, sending them to the Collector in bounded batches, and turning every answer into an
  update of the delivery ledger.  The Collector is a parameter: what a POST of a body to a URL
  answers.  So are the text of an HTTP status and the store's read of a body.  Lengths are
  natural numbers below \<open>usize::MAX\<close>, durations are milliseconds.
\<close>

section \<open>Configuration and answers\<close>

record relay_config =
  rc_store :: store_config
  rc_store_shards :: nat
  rc_collector_url :: string
  rc_delivery_concurrency :: nat
  rc_delivery_queue_items :: nat
  rc_delivery_batch_records :: nat
  rc_delivery_batch_bytes :: nat
  rc_max_delivery_inflight_bytes :: nat
  rc_request_timeout :: nat
  rc_base_retry_delay :: nat
  rc_max_retry_delay :: nat
  rc_max_envelope_bytes :: nat
  rc_max_inflight_body_bytes :: nat
  rc_max_batch_records :: nat
  rc_ingest_bearer_token :: "string option"

text \<open>A failed send, or a status with the body when it is JSON.\<close>

datatype http_result = SendFailed string | Response nat "json option"

text \<open>\<open>StatusCode::from_u16\<close> accepts 100 to 999; the classes are by hundreds.\<close>

definition status_of_u64 :: "u64 \<Rightarrow> nat option" where
  "status_of_u64 n = (if 100 \<le> unat n \<and> unat n < 1000 then Some (unat n) else None)"

definition is_success :: "nat \<Rightarrow> bool" where
  "is_success s \<longleftrightarrow> 200 \<le> s \<and> s < 300"

definition is_retryable :: "nat \<Rightarrow> bool" where
  "is_retryable s \<longleftrightarrow> s \<in> {408, 425, 429} \<or> 500 \<le> s \<and> s < 600"


section \<open>Updates\<close>

definition delivered_update :: "delivery_record \<Rightarrow> delivery_update" where
  "delivered_update r =
     \<lparr>du_capture_id = dr_capture_id r, du_state = ''delivered'', du_error = None, du_next_attempt = None\<rparr>"

definition conflict_update :: "delivery_record \<Rightarrow> string \<Rightarrow> delivery_update" where
  "conflict_update r error =
     \<lparr>du_capture_id = dr_capture_id r, du_state = ''conflict'', du_error = Some error, du_next_attempt = None\<rparr>"

definition failed_update :: "delivery_record \<Rightarrow> string \<Rightarrow> delivery_update" where
  "failed_update r error =
     \<lparr>du_capture_id = dr_capture_id r, du_state = ''failed'', du_error = Some error, du_next_attempt = None\<rparr>"

definition retry_delay :: "relay_config \<Rightarrow> u64 \<Rightarrow> u64" where
  "retry_delay cfg attempts =
     (let exponent = min (unat (saturating_sub attempts 1)) 20;
          base_ms = of_nat (rc_base_retry_delay cfg); max_ms = of_nat (rc_max_retry_delay cfg)
      in min (saturating_mul base_ms (2 ^ exponent)) max_ms)"

definition retry_update :: "relay_config \<Rightarrow> delivery_record \<Rightarrow> string \<Rightarrow> delivery_update" where
  "retry_update cfg r error =
     \<lparr>du_capture_id = dr_capture_id r, du_state = ''pending'', du_error = Some error,
      du_next_attempt = Some (unat (retry_delay cfg (dr_attempts r)))\<rparr>"

definition http_delivery_failure ::
  "relay_config \<Rightarrow> (nat \<Rightarrow> string) \<Rightarrow> delivery_record \<Rightarrow> nat \<Rightarrow> delivery_update" where
  "http_delivery_failure cfg show_status r status =
     (let error = ''remote HTTP '' @ show_status status
      in if status = 409 then conflict_update r error
         else if is_retryable status then retry_update cfg r error
         else failed_update r error)"


section \<open>Receipts\<close>

text \<open>
  \<open>SubmitAck\<close> as \<open>serde_json::from_value\<close> reads it: an object with every field at its type, or
  an array of the eight fields in order.
\<close>

definition ack_fields ::
  "json option \<Rightarrow> json option \<Rightarrow> json option \<Rightarrow> json option \<Rightarrow> json option \<Rightarrow> json option \<Rightarrow> json option
     \<Rightarrow> json option \<Rightarrow> submit_ack option" where
  "ack_fields capture_id state durable duplicate sha segment offset len =
     (case (Option.bind capture_id as_str, Option.bind state as_str, Option.bind durable as_bool,
            Option.bind duplicate as_bool, Option.bind sha as_str, Option.bind segment as_u64,
            Option.bind offset as_u64, Option.bind len as_u64) of
        (Some i, Some st, Some du, Some dup, Some h, Some sg, Some off, Some n) \<Rightarrow>
          Some \<lparr>ack_capture_id = i, ack_state = st, ack_durable = du, ack_duplicate = dup,
                ack_raw_sha256 = h, ack_segment_id = unat sg, ack_offset = unat off, ack_length = unat n\<rparr>
      | _ \<Rightarrow> None)"

fun submit_ack_of_json :: "json \<Rightarrow> submit_ack option" where
  "submit_ack_of_json (Object m) =
     ack_fields (tget m ''capture_id'') (tget m ''state'') (tget m ''durable'') (tget m ''duplicate'')
       (tget m ''raw_sha256'') (tget m ''segment_id'') (tget m ''offset'') (tget m ''length'')"
| "submit_ack_of_json (Array [i, st, du, dup, h, sg, off, n]) =
     ack_fields (Some i) (Some st) (Some du) (Some dup) (Some h) (Some sg) (Some off) (Some n)"
| "submit_ack_of_json _ = None"

definition status_contradicts :: "json \<Rightarrow> bool" where
  "status_contradicts payload =
     (case jget payload ''http_status'' of
        None \<Rightarrow> False
      | Some status \<Rightarrow>
          \<not> (case Option.bind (as_u64 status) status_of_u64 of None \<Rightarrow> False | Some s \<Rightarrow> is_success s))"

text \<open>The source answers \<open>Ok(())\<close>; here the receipt it accepted is returned with it.\<close>

definition verify_collector_receipt :: "delivery_record \<Rightarrow> json \<Rightarrow> string + submit_ack" where
  "verify_collector_receipt r payload =
     (if get_bool payload ''ok'' \<noteq> Some True \<or> get_bool payload ''durable'' \<noteq> Some True
      then Inl ''Collector acknowledgement does not confirm durability''
      else case submit_ack_of_json (json_opt (jget payload ''capture'')) of
        None \<Rightarrow> Inl ''Collector acknowledgement has no valid Capture receipt''
      | Some receipt \<Rightarrow>
          if ack_capture_id receipt \<noteq> dr_capture_id r \<or> ack_raw_sha256 receipt \<noteq> dr_raw_sha256 r
          then Inl ''Collector Capture receipt identity or SHA-256 mismatch''
          else if dr_bytes r = 0 \<or> ack_length receipt \<noteq> unat (dr_bytes r)
          then Inl ''Collector Capture receipt byte length mismatch''
          else if \<not> ack_durable receipt \<or> get_bool payload ''duplicate'' \<noteq> Some (ack_duplicate receipt)
             \<or> (ack_state receipt, ack_duplicate receipt) \<notin> {(''accepted'', False), (''duplicate'', True)}
          then Inl ''Collector Capture receipt state is inconsistent''
          else if ack_segment_id receipt = 0 \<or> 2 ^ 64 \<le> ack_offset receipt + ack_length receipt
          then Inl ''Collector Capture receipt locator is invalid''
          else if status_contradicts payload
          then Inl ''Collector Capture receipt contradicts item HTTP status''
          else Inr receipt)"

definition receipt_update :: "relay_config \<Rightarrow> delivery_record \<Rightarrow> json \<Rightarrow> delivery_update" where
  "receipt_update cfg r payload =
     (case verify_collector_receipt r payload of
        Inr _ \<Rightarrow> delivered_update r
      | Inl error \<Rightarrow> retry_update cfg r error)"


section \<open>Sending\<close>

record delivery_payload =
  dp_record :: delivery_record
  dp_body :: string

text \<open>\<open>trim_end_matches('/')\<close> and the route.\<close>

definition collector_route :: "relay_config \<Rightarrow> string \<Rightarrow> string" where
  "collector_route cfg route =
     rev (dropWhile (\<lambda>c. c = CHR ''/'') (rev (rc_collector_url cfg))) @ route"

definition send_single ::
  "(string \<Rightarrow> string \<Rightarrow> http_result) \<Rightarrow> relay_config \<Rightarrow> (nat \<Rightarrow> string) \<Rightarrow> delivery_record \<Rightarrow> string \<Rightarrow> delivery_update" where
  "send_single post cfg show_status r body =
     (case post (collector_route cfg ''/capture'') body of
        SendFailed error \<Rightarrow> retry_update cfg r error
      | Response status json \<Rightarrow>
          if \<not> is_success status then http_delivery_failure cfg show_status r status
          else case json of
            None \<Rightarrow> retry_update cfg r ''invalid Collector acknowledgement JSON''
          | Some payload \<Rightarrow> receipt_update cfg r payload)"

text \<open>The outcomes by Capture id, and the ids with more than one.\<close>

definition add_outcome ::
  "json \<Rightarrow> (string, json) table \<times> string list \<Rightarrow> (string, json) table \<times> string list" where
  "add_outcome outcome s =
     (case get_str outcome ''capture_id'' of
        None \<Rightarrow> s
      | Some i \<Rightarrow> (tput i outcome (fst s), if tget (fst s) i = None then snd s else i # snd s))"

definition item_update ::
  "relay_config \<Rightarrow> string \<Rightarrow> (string, json) table \<Rightarrow> string list \<Rightarrow> delivery_record \<Rightarrow> delivery_update" where
  "item_update cfg status_text by_id ambiguous r =
     (if dr_capture_id r \<in> set ambiguous
      then retry_update cfg r ''duplicate Collector batch outcomes for Capture''
      else case tget by_id (dr_capture_id r) of
        None \<Rightarrow> retry_update cfg r (''remote HTTP '' @ status_text @ '' omitted batch outcome'')
      | Some outcome \<Rightarrow>
          if get_bool outcome ''ok'' = Some True \<or> get_bool outcome ''durable'' = Some True
          then receipt_update cfg r outcome
          else if get_u64 outcome ''http_status'' = Some 409
             \<or> get_str outcome ''reason'' = Some ''capture_id_conflict''
          then conflict_update r ''remote captureId conflict''
          else let item_status = Option.bind (get_u64 outcome ''http_status'') status_of_u64;
                   error = (case get_str outcome ''detail'' of
                              None \<Rightarrow> ''remote batch item rejected'' | Some d \<Rightarrow> d)
               in if (case item_status of None \<Rightarrow> True | Some s \<Rightarrow> is_retryable s)
                  then retry_update cfg r error else failed_update r error)"

definition send_many ::
  "(string \<Rightarrow> string \<Rightarrow> http_result) \<Rightarrow> relay_config \<Rightarrow> (nat \<Rightarrow> string) \<Rightarrow> delivery_payload list \<Rightarrow> delivery_update list" where
  "send_many post cfg show_status batch =
     (case post (collector_route cfg ''/captures'')
             (concat (map (\<lambda>p. dp_body p @ [CHR 0x0A]) batch)) of
        SendFailed error \<Rightarrow> map (\<lambda>p. retry_update cfg (dp_record p) error) batch
      | Response status json \<Rightarrow>
          if status \<in> {404, 405, 413, 415}
          then map (\<lambda>p. send_single post cfg show_status (dp_record p) (dp_body p)) batch
          else if \<not> is_success status
          then map (\<lambda>p. http_delivery_failure cfg show_status (dp_record p) status) batch
          else case json of
            None \<Rightarrow> map (\<lambda>p. retry_update cfg (dp_record p) ''invalid Collector batch acknowledgement JSON'') batch
          | Some payload \<Rightarrow>
              (let s = fold add_outcome (get_array payload ''results'') ([], [])
               in map (\<lambda>p. item_update cfg (show_status status) (fst s) (snd s) (dp_record p)) batch))"

definition send_delivery_batch ::
  "(string \<Rightarrow> string \<Rightarrow> http_result) \<Rightarrow> relay_config \<Rightarrow> (nat \<Rightarrow> string) \<Rightarrow> delivery_payload list \<Rightarrow> delivery_update list" where
  "send_delivery_batch post cfg show_status batch =
     (case batch of
        [p] \<Rightarrow> [send_single post cfg show_status (dp_record p) (dp_body p)]
      | _ \<Rightarrow> send_many post cfg show_status batch)"


section \<open>Loading and batching\<close>

text \<open>Waiting for a permit of the body budget always ends, so only the refusals are modelled.\<close>

definition load_delivery_payload ::
  "(string \<Rightarrow> string + string) \<Rightarrow> relay_config \<Rightarrow> delivery_record \<Rightarrow> string + delivery_payload" where
  "load_delivery_payload read cfg r =
     (let reservation = (if dr_bytes r = 0 then sat (rc_max_envelope_bytes cfg + 1) else unat (dr_bytes r))
      in if rc_max_delivery_inflight_bytes cfg < reservation
         then Inl (''capture '' @ dr_capture_id r @ '' requires '' @ nat_dec reservation
                   @ '' delivery bytes, above Relay budget '' @ nat_dec (rc_max_delivery_inflight_bytes cfg))
         else if 2 ^ 32 \<le> max reservation 1 then Inl ''capture length exceeds semaphore reservation limit''
         else rbind (read (dr_capture_id r)) (\<lambda>body. Inr \<lparr>dp_record = r, dp_body = body\<rparr>))"

text \<open>
  The loop over the loaded bodies in the order they arrive.  It is independent of what sending
  and retrying produce.
\<close>

definition flush_batch ::
  "(delivery_payload list \<Rightarrow> 'u list) \<Rightarrow> 'u list \<times> delivery_payload list \<times> nat \<Rightarrow> 'u list \<times> delivery_payload list \<times> nat" where
  "flush_batch send s = (case s of (updates, batch, bytes) \<Rightarrow> (updates @ send batch, [], 0))"

definition deliver_item ::
  "(delivery_payload list \<Rightarrow> 'u list) \<Rightarrow> (delivery_record \<Rightarrow> string \<Rightarrow> 'u) \<Rightarrow> nat
     \<Rightarrow> delivery_record \<times> (string + delivery_payload)
     \<Rightarrow> 'u list \<times> delivery_payload list \<times> nat \<Rightarrow> 'u list \<times> delivery_payload list \<times> nat" where
  "deliver_item send retry limit loaded s =
     (case snd loaded of
        Inl error \<Rightarrow> (fst s @ [retry (fst loaded) error], snd s)
      | Inr item \<Rightarrow>
          let item_bytes = sat (length (dp_body item) + 1);
              s = (if fst (snd s) \<noteq> [] \<and> limit < sat (snd (snd s) + item_bytes) then flush_batch send s else s);
              s = (fst s, fst (snd s) @ [item], sat (snd (snd s) + item_bytes))
          in if limit \<le> snd (snd s) then flush_batch send s else s)"

definition deliver_loop ::
  "(delivery_payload list \<Rightarrow> 'u list) \<Rightarrow> (delivery_record \<Rightarrow> string \<Rightarrow> 'u) \<Rightarrow> nat
     \<Rightarrow> (delivery_record \<times> (string + delivery_payload)) list \<Rightarrow> 'u list" where
  "deliver_loop send retry limit loaded =
     (case fold (deliver_item send retry limit) loaded ([], [], 0) of
        (updates, batch, bytes) \<Rightarrow> if batch \<noteq> [] then updates @ send batch else updates)"

definition lease_duration :: "relay_config \<Rightarrow> nat" where
  "lease_duration cfg = max (rc_request_timeout cfg * 2) 30000"

text \<open>
  \<open>order\<close> is the order in which the concurrent reads finish; \<open>claim_at\<close> and \<open>finish_at\<close> are the
  clock readings of the two ledger transactions.
\<close>

definition deliver_many ::
  "(string \<Rightarrow> string \<Rightarrow> http_result) \<Rightarrow> (nat \<Rightarrow> string) \<Rightarrow> (string \<Rightarrow> string + string)
     \<Rightarrow> (delivery_record list \<Rightarrow> delivery_record list) \<Rightarrow> relay_config
     \<Rightarrow> u64 \<times> string \<Rightarrow> u64 \<times> string \<Rightarrow> string list \<Rightarrow> delivery_db \<Rightarrow> delivery_error + delivery_db" where
  "deliver_many post show_status read order cfg claim_at finish_at ids db =
     rbind (claim_many (fst claim_at) (snd claim_at) ids (lease_duration cfg) db) (\<lambda>(records, db).
     if records = [] then Inr db
     else finish_many (fst finish_at) (snd finish_at)
            (deliver_loop (send_delivery_batch post cfg show_status) (retry_update cfg)
               (rc_delivery_batch_bytes cfg)
               (map (\<lambda>r. (r, load_delivery_payload read cfg r)) (order records))) db)"

section \<open>Scheduling\<close>

text \<open>The set of scheduled ids and the bounded queue of the workers.\<close>

record delivery_schedule =
  ds_scheduled :: "string list"
  ds_queue :: "string list"

definition queue_capture :: "relay_config \<Rightarrow> string \<Rightarrow> delivery_schedule \<Rightarrow> bool \<times> delivery_schedule" where
  "queue_capture cfg i s =
     (if i \<in> set (ds_scheduled s) then (True, s)
      else if rc_delivery_queue_items cfg \<le> length (ds_queue s) then (False, s)
      else (True, s\<lparr>ds_scheduled := i # ds_scheduled s, ds_queue := ds_queue s @ [i]\<rparr>))"

fun queue_all :: "relay_config \<Rightarrow> string list \<Rightarrow> delivery_schedule \<Rightarrow> delivery_schedule" where
  "queue_all cfg [] s = s"
| "queue_all cfg (i # ids) s =
     (case queue_capture cfg i s of (ok, s) \<Rightarrow> if ok then queue_all cfg ids s else s)"

definition queue_pending ::
  "relay_config \<Rightarrow> u64 \<Rightarrow> delivery_db \<Rightarrow> delivery_schedule \<Rightarrow> delivery_error + delivery_schedule" where
  "queue_pending cfg now db s =
     rbind (pending_ids now (rc_delivery_queue_items cfg) db) (\<lambda>ids. Inr (queue_all cfg ids s))"

definition min_read_concurrency :: nat where
  "min_read_concurrency = 4"

definition max_read_concurrency :: nat where
  "max_read_concurrency = 16"

definition delivery_read_concurrency :: "relay_config \<Rightarrow> nat" where
  "delivery_read_concurrency cfg = max min_read_concurrency (min max_read_concurrency (rc_delivery_concurrency cfg))"

text \<open>The one-second tick of the reaper: expired leases first, then the due queue.\<close>

definition reaper_tick ::
  "relay_config \<Rightarrow> u64 \<Rightarrow> u64 \<Rightarrow> delivery_db \<times> delivery_schedule \<Rightarrow> delivery_db \<times> delivery_schedule" where
  "reaper_tick cfg now1 now2 s =
     (case s of (db, sched) \<Rightarrow>
       (let available = rc_delivery_queue_items cfg
        in if available = 0 then s
           else let (reclaimed, db) = (case reclaim_expired_inflight now1 available db of
                                         Inl e \<Rightarrow> ([], db) | Inr r \<Rightarrow> r);
                    sched = sched\<lparr>ds_scheduled := filter (\<lambda>i. i \<notin> set reclaimed) (ds_scheduled sched)\<rparr>;
                    sched = queue_all cfg reclaimed sched;
                    ids = (case pending_ids now2 available db of Inl e \<Rightarrow> [] | Inr ids \<Rightarrow> ids)
                in (db, queue_all cfg ids sched)))"

text \<open>A worker that delivered its batch forgets the batch.\<close>

definition forget_batch :: "string list \<Rightarrow> delivery_schedule \<Rightarrow> delivery_schedule" where
  "forget_batch ids s = s\<lparr>ds_scheduled := filter (\<lambda>i. i \<notin> set ids) (ds_scheduled s)\<rparr>"

end
