(* ===== verification/WorkerTheorems.thy ===== *)
theory WorkerTheorems
  imports DeliveryWorker
begin

text \<open>
  What the delivery workers promise: every Capture a worker claims gets exactly one update and
  leaves the leased state, a Capture is marked delivered only on a receipt that matches it, the
  bodies sent together respect the byte limit, and retries back off within their bounds.
\<close>

section \<open>One update per Capture\<close>

lemma send_single_id [simp]: "du_capture_id (send_single post cfg show_status r body) = dr_capture_id r"
  by (auto simp: send_single_def http_delivery_failure_def receipt_update_def retry_update_def
    conflict_update_def failed_update_def delivered_update_def Let_def split: http_result.split option.split sum.split)

lemma receipt_update_id [simp]: "du_capture_id (receipt_update cfg r payload) = dr_capture_id r"
  by (auto simp: receipt_update_def retry_update_def delivered_update_def split: sum.split)

lemma update_ids [simp]:
  "du_capture_id (retry_update cfg r e) = dr_capture_id r"
  "du_capture_id (conflict_update r e) = dr_capture_id r"
  "du_capture_id (failed_update r e) = dr_capture_id r"
  "du_capture_id (http_delivery_failure cfg show_status r status) = dr_capture_id r"
  by (simp_all add: retry_update_def conflict_update_def failed_update_def http_delivery_failure_def Let_def)

lemma item_update_id [simp]: "du_capture_id (item_update cfg txt by_id amb r) = dr_capture_id r"
  by (simp add: item_update_def Let_def split: option.split)

lemma send_many_ids:
  "map du_capture_id (send_many post cfg show_status batch) = map (\<lambda>p. dr_capture_id (dp_record p)) batch"
  by (simp add: send_many_def Let_def comp_def split: http_result.split option.split)

lemma send_batch_ids:
  "map du_capture_id (send_delivery_batch post cfg show_status batch)
     = map (\<lambda>p. dr_capture_id (dp_record p)) batch"
  by (auto simp: send_delivery_batch_def send_many_ids split: list.split)

lemma update_states [simp]:
  "du_state (retry_update cfg r e) \<in> set final_states"
  "du_state (conflict_update r e) \<in> set final_states"
  "du_state (failed_update r e) \<in> set final_states"
  "du_state (delivered_update r) \<in> set final_states"
  by (simp_all add: retry_update_def conflict_update_def failed_update_def delivered_update_def final_states_def)

lemma failure_state [simp]: "du_state (http_delivery_failure cfg show_status r status) \<in> set final_states"
  by (simp add: http_delivery_failure_def Let_def)

lemma receipt_state [simp]: "du_state (receipt_update cfg r payload) \<in> set final_states"
  by (simp add: receipt_update_def split: sum.split)

lemma item_state [simp]: "du_state (item_update cfg txt by_id amb r) \<in> set final_states"
  by (simp add: item_update_def Let_def split: option.split)

lemma single_state [simp]: "du_state (send_single post cfg show_status r body) \<in> set final_states"
  by (simp add: send_single_def split: http_result.split option.split)

lemma send_batch_states:
  "u \<in> set (send_delivery_batch post cfg show_status batch) \<Longrightarrow> du_state u \<in> set final_states"
  by (auto simp: send_delivery_batch_def send_many_def Let_def
    split: list.splits http_result.splits option.splits if_splits)

text \<open>One item of the loop, with the state after the first flush as \<open>t\<close>.\<close>

abbreviation item_size :: "delivery_payload \<Rightarrow> nat" where
  "item_size item \<equiv> sat (length (dp_body item) + 1)"

lemma deliver_item_cases:
  obtains (error) e where "snd x = Inl e"
      "deliver_item send retry limit x s = (fst s @ [retry (fst x) e], snd s)"
  | (item) item t u where "snd x = Inr item"
      "t = (if fst (snd s) \<noteq> [] \<and> limit < sat (snd (snd s) + item_size item) then flush_batch send s else s)"
      "u = (fst t, fst (snd t) @ [item], sat (snd (snd t) + item_size item))"
      "deliver_item send retry limit x s = (if limit \<le> snd (snd u) then flush_batch send u else u)"
proof (cases "snd x")
  case (Inl e)
  then show ?thesis by (intro error) (simp_all add: deliver_item_def)
next
  case (Inr i)
  show ?thesis
    by (rule item [OF Inr refl refl]) (simp only: deliver_item_def Inr sum.case Let_def fst_conv snd_conv)
qed

text \<open>
  The loop: what it has produced and what is still batched are together what was loaded.  \<open>f\<close>
  reads an update and \<open>g\<close> the record it is for.
\<close>

lemma deliver_loop_mset:
  fixes f :: "'u \<Rightarrow> 'i"
  assumes send: "\<And>b. mset (map f (send b)) = mset (map (\<lambda>p. g (dp_record p)) b)"
    and retry: "\<And>r e. f (retry r e) = g r"
    and loaded: "\<forall>x \<in> set loaded. \<forall>item. snd x = Inr item \<longrightarrow> dp_record item = fst x"
  shows "mset (map f (deliver_loop send retry limit loaded)) = mset (map (\<lambda>x. g (fst x)) loaded)"
proof -
  let ?m = "\<lambda>s :: 'u list \<times> delivery_payload list \<times> nat.
    mset (map f (fst s)) + mset (map (\<lambda>p. g (dp_record p)) (fst (snd s)))"
  have flush: "?m (flush_batch send s) = ?m s" for s
    using send by (cases s) (simp add: flush_batch_def)
  have step: "?m (deliver_item send retry limit x s) = ?m s + {#g (fst x)#}"
    if i: "\<forall>item. snd x = Inr item \<longrightarrow> dp_record item = fst x" for x s
  proof (cases rule: deliver_item_cases [of x send retry limit s])
    case (error e)
    then show ?thesis by (simp add: retry)
  next
    case (item item t u)
    have "?m t = ?m s" using item(2) flush by simp
    moreover have "?m u = ?m t + {#g (fst x)#}" using item(1,3) i by simp
    ultimately show ?thesis using item(4) flush [of u] by simp
  qed
  have all: "?m (fold (deliver_item send retry limit) loaded s) = ?m s + mset (map (\<lambda>x. g (fst x)) loaded)" for s
    using loaded
  proof (induction loaded arbitrary: s)
    case (Cons x loaded)
    have "\<forall>item. snd x = Inr item \<longrightarrow> dp_record item = fst x" using Cons.prems by simp
    note one = step [OF this, of s]
    have "\<forall>x \<in> set loaded. \<forall>item. snd x = Inr item \<longrightarrow> dp_record item = fst x" using Cons.prems by simp
    note rest = Cons.IH [OF this, of "deliver_item send retry limit x s"]
    show ?case unfolding fold_simps rest one by simp
  qed simp
  obtain us b n where r: "fold (deliver_item send retry limit) loaded ([], [], 0) = (us, b, n)"
    by (cases "fold (deliver_item send retry limit) loaded ([], [], 0)")
  with all [of "([], [], 0)"] send [of b] show ?thesis by (cases "b = []") (simp_all add: deliver_loop_def r)
qed

lemma deliver_loop_all:
  fixes send :: "delivery_payload list \<Rightarrow> 'u list"
  assumes send: "\<And>b u. \<forall>p \<in> set b. Q p \<Longrightarrow> u \<in> set (send b) \<Longrightarrow> P u" and retry: "\<And>r e. P (retry r e)"
    and loaded: "\<forall>x \<in> set loaded. \<forall>item. snd x = Inr item \<longrightarrow> Q item"
    and u: "u \<in> set (deliver_loop send retry limit loaded)"
  shows "P u"
proof -
  let ?I = "\<lambda>s :: 'u list \<times> delivery_payload list \<times> nat.
    (\<forall>u \<in> set (fst s). P u) \<and> (\<forall>p \<in> set (fst (snd s)). Q p)"
  have flush: "?I (flush_batch send s)" if "?I s" for s
    using send that by (cases s) (auto simp: flush_batch_def)
  have step: "?I (deliver_item send retry limit x s)" if s: "?I s" and x: "\<forall>item. snd x = Inr item \<longrightarrow> Q item" for x s
  proof (cases rule: deliver_item_cases [of x send retry limit s])
    case (error e)
    with s retry show ?thesis by simp
  next
    case (item item t u)
    have "?I t" using item(2) flush [OF s] s by simp
    then have I: "?I u" using item(1,3) x by simp
    show ?thesis unfolding item(4) using I flush [OF I] by (cases "limit \<le> snd (snd u)") (simp_all only: if_True if_False)
  qed
  have I: "?I (fold (deliver_item send retry limit) loaded ([], [], 0))"
  proof (rule fold_invariant_set [where I = ?I])
    fix x s assume "x \<in> set loaded" "?I s"
    with loaded show "?I (deliver_item send retry limit x s)" by (intro step) blast+
  qed simp
  obtain us b n where r: "fold (deliver_item send retry limit) loaded ([], [], 0) = (us, b, n)"
    by (cases "fold (deliver_item send retry limit) loaded ([], [], 0)")
  with u have "u \<in> set us \<or> u \<in> set (send b)" by (simp add: deliver_loop_def r split: if_splits)
  moreover from I r have "\<forall>u \<in> set us. P u" "\<forall>p \<in> set b. Q p" by simp_all
  ultimately show ?thesis using send by blast
qed

text \<open>The batches handed to \<open>send\<close>: never empty, and within the limit unless of one item.\<close>

definition batch_fits :: "nat \<Rightarrow> delivery_payload list \<Rightarrow> bool" where
  "batch_fits limit b \<longleftrightarrow> b \<noteq> [] \<and> (length b = 1 \<or> (\<Sum>p\<leftarrow>b. length (dp_body p) + 1) \<le> limit)"

lemma sat_le: "n < 2 ^ 64 \<Longrightarrow> sat n = n"
  by (simp add: sat_def)

lemma deliver_loop_fits:
  fixes x :: "delivery_payload list"
  assumes "limit < 2 ^ 64 - 1" "b \<in> set (deliver_loop (\<lambda>b. [b]) (\<lambda>r e. x) limit loaded)" "b \<noteq> x"
  shows "batch_fits limit b"
proof -
  let ?size = "\<lambda>b. \<Sum>p\<leftarrow>b. length (dp_body p) + 1"
  let ?J = "\<lambda>s :: delivery_payload list list \<times> delivery_payload list \<times> nat.
    (\<forall>b \<in> set (fst s). b = x \<or> batch_fits limit b)
    \<and> snd (snd s) = sat (?size (fst (snd s)))
    \<and> (fst (snd s) = [] \<or> batch_fits limit (fst (snd s)))"
  have flush: "?J (flush_batch (\<lambda>b. [b]) s)" if "?J s" "fst (snd s) \<noteq> []" for s
    using that by (cases s) (auto simp: flush_batch_def sat_def)
  have "?J (deliver_item (\<lambda>b. [b]) (\<lambda>r e. x) limit y s)" if s: "?J s" for y s
  proof (cases rule: deliver_item_cases [of y "\<lambda>b. [b]" "\<lambda>r e. x" limit s])
    case (error e)
    with s show ?thesis by simp
  next
    case (item item t u)
    have t: "?J t" using item(2) flush [OF s] s by simp
    have fits: "fst (snd t) = [] \<or> sat (snd (snd t) + item_size item) \<le> limit"
      using item(2) by (cases s) (auto simp: flush_batch_def)
    have size: "sat (snd (snd t) + item_size item) = sat (?size (fst (snd t) @ [item]))"
      using t by (simp add: sat_def min_def)
    have "batch_fits limit (fst (snd t) @ [item])"
      using fits size assms(1) by (auto simp: batch_fits_def sat_def min_def split: if_splits)
    then have u: "?J u" "fst (snd u) \<noteq> []" using t size item(3) by simp_all
    then show ?thesis using item(4) flush [OF u] by simp
  qed
  then have J: "?J (fold (deliver_item (\<lambda>b. [b]) (\<lambda>r e. x) limit) loaded ([], [], 0))"
    by (intro fold_invariant_set [where I = ?J]) (simp_all add: sat_def)
  obtain us c n where r: "fold (deliver_item (\<lambda>b. [b]) (\<lambda>r e. x) limit) loaded ([], [], 0) = (us, c, n)"
    by (cases "fold (deliver_item (\<lambda>b. [b]) (\<lambda>r e. x) limit) loaded ([], [], 0)")
  with assms(2) have "b \<in> set us \<or> b = c \<and> c \<noteq> []" by (simp add: deliver_loop_def r split: if_splits) blast
  moreover from J r have "\<forall>b \<in> set us. b = x \<or> batch_fits limit b" "c = [] \<or> batch_fits limit c" by simp_all
  ultimately show ?thesis using assms(3) by blast
qed


section \<open>Receipts\<close>

text \<open>The facts a receipt establishes about a record.\<close>

definition receipt_for :: "delivery_record \<Rightarrow> json \<Rightarrow> bool" where
  "receipt_for r payload \<longleftrightarrow> get_bool payload ''ok'' = Some True \<and> get_bool payload ''durable'' = Some True
     \<and> (\<exists>receipt. submit_ack_of_json (json_opt (jget payload ''capture'')) = Some receipt
          \<and> ack_capture_id receipt = dr_capture_id r \<and> ack_raw_sha256 receipt = dr_raw_sha256 r
          \<and> ack_length receipt = unat (dr_bytes r) \<and> 0 < ack_length receipt \<and> ack_durable receipt
          \<and> get_bool payload ''duplicate'' = Some (ack_duplicate receipt)
          \<and> ack_state receipt = (if ack_duplicate receipt then ''duplicate'' else ''accepted'')
          \<and> 0 < ack_segment_id receipt \<and> ack_offset receipt + ack_length receipt < 2 ^ 64)
     \<and> \<not> status_contradicts payload"

lemma verify_receipt_iff:
  "(\<exists>receipt. verify_collector_receipt r payload = Inr receipt) \<longleftrightarrow> receipt_for r payload"
proof (cases "submit_ack_of_json (json_opt (jget payload ''capture''))")
  case None
  then show ?thesis by (auto simp: verify_collector_receipt_def receipt_for_def)
next
  case (Some receipt)
  have "0 < unat (dr_bytes r) \<longleftrightarrow> dr_bytes r \<noteq> 0"
    by (metis unat_gt_0)
  with Some show ?thesis
    by (cases "ack_duplicate receipt") (auto simp: verify_collector_receipt_def receipt_for_def)
qed

lemma receipt_update_delivered: "du_state (receipt_update cfg r payload) = ''delivered'' \<longleftrightarrow> receipt_for r payload"
proof (cases "verify_collector_receipt r payload")
  case (Inl e)
  then have "\<not> receipt_for r payload" using verify_receipt_iff [of r payload] by simp
  with Inl show ?thesis by (simp add: receipt_update_def retry_update_def)
next
  case (Inr receipt)
  then have "receipt_for r payload" using verify_receipt_iff [of r payload] by blast
  with Inr show ?thesis by (simp add: receipt_update_def delivered_update_def)
qed

lemma failure_not_delivered [simp]: "du_state (http_delivery_failure cfg show_status r status) \<noteq> ''delivered''"
  "du_state (retry_update cfg r e) \<noteq> ''delivered''" "du_state (conflict_update r e) \<noteq> ''delivered''"
  "du_state (failed_update r e) \<noteq> ''delivered''"
  by (simp_all add: http_delivery_failure_def retry_update_def conflict_update_def failed_update_def Let_def)

text \<open>A body that the Collector answered with success, and the part of it that speaks of one Capture.\<close>

definition answered :: "(string \<Rightarrow> string \<Rightarrow> http_result) \<Rightarrow> json \<Rightarrow> bool" where
  "answered post payload \<longleftrightarrow> (\<exists>url body status. post url body = Response status (Some payload) \<and> is_success status)"

lemma send_single_delivered:
  "du_state (send_single post cfg show_status r body) = ''delivered''
     \<Longrightarrow> \<exists>payload. answered post payload \<and> receipt_for r payload"
  by (auto simp: send_single_def answered_def receipt_update_delivered split: http_result.splits option.splits if_splits)

lemma add_outcomes_get:
  "tget (fst (fold add_outcome xs s)) i = Some v \<Longrightarrow> v \<in> set xs \<or> tget (fst s) i = Some v"
proof (induction xs arbitrary: s)
  case (Cons x xs)
  from Cons.IH [OF Cons.prems [simplified]] show ?case
    by (auto simp: add_outcome_def split: option.splits if_splits)
qed simp

lemma item_update_delivered:
  "du_state (item_update cfg txt by_id amb r) = ''delivered''
     \<Longrightarrow> \<exists>outcome. tget by_id (dr_capture_id r) = Some outcome \<and> receipt_for r outcome"
  by (auto simp: item_update_def receipt_update_delivered Let_def split: option.splits if_splits)

lemma send_many_delivered:
  assumes "u \<in> set (send_many post cfg show_status batch)" "du_state u = ''delivered''"
  shows "\<exists>p \<in> set batch. du_capture_id u = dr_capture_id (dp_record p) \<and>
    (\<exists>payload outcome. answered post payload \<and> receipt_for (dp_record p) outcome
       \<and> (outcome = payload \<or> outcome \<in> set (get_array payload ''results'')))"
proof -
  let ?url = "collector_route cfg ''/captures''" and ?body = "concat (map (\<lambda>p. dp_body p @ [CHR 0x0A]) batch)"
  show ?thesis
  proof (cases "post ?url ?body")
    case (SendFailed e)
    with assms show ?thesis by (auto simp: send_many_def)
  next
    case (Response status json)
    show ?thesis
    proof (cases "status \<in> {404, 405, 413, 415}")
      case True
      with Response assms(1) obtain p where "p \<in> set batch"
        "u = send_single post cfg show_status (dp_record p) (dp_body p)"
        by (auto simp: send_many_def)
      with assms(2) send_single_delivered [of post cfg show_status "dp_record p" "dp_body p"]
      show ?thesis by (metis send_single_id)
    next
      case False
      with Response assms obtain payload where pay: "json = Some payload" "is_success status"
        by (auto simp: send_many_def split: if_splits option.splits)
      let ?s = "fold add_outcome (get_array payload ''results'') ([], [])"
      from Response False pay assms(1) obtain p where p: "p \<in> set batch"
        "u = item_update cfg (show_status status) (fst ?s) (snd ?s) (dp_record p)"
        by (auto simp: send_many_def Let_def)
      with assms(2) item_update_delivered obtain outcome where o:
        "tget (fst ?s) (dr_capture_id (dp_record p)) = Some outcome" "receipt_for (dp_record p) outcome"
        by metis
      from add_outcomes_get [OF o(1)] have "outcome \<in> set (get_array payload ''results'')" by simp
      moreover have "answered post payload" using Response pay by (auto simp: answered_def)
      ultimately show ?thesis using p o(2) by auto
    qed
  qed
qed


section \<open>A worker's batch, end to end\<close>

lemma finish_fold:
  assumes "body_ok db c" "distinct (map du_capture_id us)" "\<forall>u \<in> set us. du_state u \<in> set final_states"
    and "\<forall>u \<in> set us. tget (dd_deliveries db) (du_capture_id u) \<noteq> None"
  shows "\<exists>db' c'. try_fold (finish_one now stamp) us (db, c) = Inr (db', c') \<and> body_ok db' c'
    \<and> (\<forall>i. i \<notin> du_capture_id ` set us \<longrightarrow> tget (dd_deliveries db') i = tget (dd_deliveries db) i)
    \<and> (\<forall>u \<in> set us. tget (dd_deliveries db') (du_capture_id u)
         = map_option (finished_record now stamp u) (tget (dd_deliveries db) (du_capture_id u)))"
  using assms
proof (induction us arbitrary: db c)
  case Nil
  then show ?case by simp
next
  case (Cons u us)
  note t = body_ok_tables [OF Cons.prems(1)]
  obtain r where r: "tget (dd_deliveries db) (du_capture_id u) = Some r" using Cons.prems(4) by auto
  have st: "du_state u \<noteq> ''inflight''" "du_state u \<in> set delivery_states"
    using Cons.prems(3) by (auto simp: final_states_def delivery_states_def)
  let ?r = "finished_record now stamp u r"
  obtain c1 where one: "finish_one now stamp u (db, c) = Inr (change_row r ?r db, c1)"
    using r by (simp add: finish_one_eq [OF t st(1)] Let_def)
  have ok: "body_ok (change_row r ?r db) c1" by (rule finish_one_ok [OF Cons.prems(1) st(2,1) one])
  have id: "dr_capture_id r = du_capture_id u" using tables_ok_row [OF t r] by simp
  have get: "tget (dd_deliveries (change_row r ?r db)) i
      = (if i = du_capture_id u then Some ?r else tget (dd_deliveries db) i)" for i
    using id by simp
  have rest: "distinct (map du_capture_id us)" "\<forall>u \<in> set us. du_state u \<in> set final_states"
    "\<forall>v \<in> set us. tget (dd_deliveries (change_row r ?r db)) (du_capture_id v) \<noteq> None"
    using Cons.prems(2-4) get by auto
  have fresh: "du_capture_id u \<notin> du_capture_id ` set us" using Cons.prems(2) by simp
  from Cons.IH [OF ok rest] obtain db' c' where IH:
    "try_fold (finish_one now stamp) us (change_row r ?r db, c1) = Inr (db', c')" "body_ok db' c'"
    "\<forall>i. i \<notin> du_capture_id ` set us
       \<longrightarrow> tget (dd_deliveries db') i = tget (dd_deliveries (change_row r ?r db)) i"
    "\<forall>v \<in> set us. tget (dd_deliveries db') (du_capture_id v)
       = map_option (finished_record now stamp v) (tget (dd_deliveries (change_row r ?r db)) (du_capture_id v))"
    by (elim exE conjE)
  have "tget (dd_deliveries db') i = tget (dd_deliveries db) i" if "i \<notin> du_capture_id ` set (u # us)" for i
    using IH(3) get [of i] that by simp
  moreover have "tget (dd_deliveries db') (du_capture_id v)
      = map_option (finished_record now stamp v) (tget (dd_deliveries db) (du_capture_id v))"
    if "v \<in> set (u # us)" for v
  proof (cases "v = u")
    case True
    with IH(3) fresh get [of "du_capture_id u"] r show ?thesis by simp
  next
    case False
    with that have v: "v \<in> set us" by simp
    with fresh have "du_capture_id v \<noteq> du_capture_id u" by (metis image_eqI)
    with IH(4) v get [of "du_capture_id v"] show ?thesis by simp
  qed
  ultimately show ?case using IH(1,2) one by (intro exI [of _ db'] exI [of _ c']) simp
qed

lemma finish_many_spec:
  assumes "delivery_ok db" "distinct (map du_capture_id us)" "\<forall>u \<in> set us. du_state u \<in> set final_states"
    and "\<forall>u \<in> set us. tget (dd_deliveries db) (du_capture_id u) \<noteq> None"
  shows "\<exists>db'. finish_many now stamp us db = Inr db' \<and> delivery_ok db'
    \<and> (\<forall>i. i \<notin> du_capture_id ` set us \<longrightarrow> tget (dd_deliveries db') i = tget (dd_deliveries db) i)
    \<and> (\<forall>u \<in> set us. tget (dd_deliveries db') (du_capture_id u)
         = map_option (finished_record now stamp u) (tget (dd_deliveries db) (du_capture_id u)))"
proof -
  obtain c where c: "read_delivery_counters db = Inr c" "body_ok db c" by (rule delivery_ok_read [OF assms(1)])
  from finish_fold [OF c(2) assms(2-4), of now stamp] obtain db' c' where f:
    "try_fold (finish_one now stamp) us (db, c) = Inr (db', c')" "body_ok db' c'"
    "\<forall>i. i \<notin> du_capture_id ` set us \<longrightarrow> tget (dd_deliveries db') i = tget (dd_deliveries db) i"
    "\<forall>u \<in> set us. tget (dd_deliveries db') (du_capture_id u)
       = map_option (finished_record now stamp u) (tget (dd_deliveries db) (du_capture_id u))"
    by (elim exE conjE)
  have "finish_many now stamp us db = Inr (write_delivery_counters c' db')"
    using c(1) f(1) by (simp add: finish_many_def)
  moreover have "dd_deliveries (write_delivery_counters c' db') = dd_deliveries db'"
    by (simp add: write_delivery_counters_def)
  ultimately show ?thesis using f(2-4) by (simp add: delivery_ok_write)
qed

text \<open>The updates a worker computes for the records it claimed.\<close>

definition worker_updates ::
  "(string \<Rightarrow> string \<Rightarrow> http_result) \<Rightarrow> (nat \<Rightarrow> string) \<Rightarrow> (string \<Rightarrow> string + string) \<Rightarrow> relay_config
     \<Rightarrow> delivery_record list \<Rightarrow> delivery_update list" where
  "worker_updates post show_status read cfg rs =
     deliver_loop (send_delivery_batch post cfg show_status) (retry_update cfg) (rc_delivery_batch_bytes cfg)
       (map (\<lambda>r. (r, load_delivery_payload read cfg r)) rs)"

lemma loaded_record: "load_delivery_payload read cfg r = Inr p \<Longrightarrow> dp_record p = r"
  by (auto simp: load_delivery_payload_def Let_def res_simps split: if_splits)

lemma worker_updates_ids:
  "mset (map du_capture_id (worker_updates post show_status read cfg rs)) = mset (map dr_capture_id rs)"
proof -
  have "mset (map du_capture_id (worker_updates post show_status read cfg rs))
      = mset (map (\<lambda>x. dr_capture_id (fst x)) (map (\<lambda>r. (r, load_delivery_payload read cfg r)) rs))"
    unfolding worker_updates_def
    by (rule deliver_loop_mset) (simp_all only: send_batch_ids, simp_all add: loaded_record)
  then show ?thesis by (simp add: comp_def)
qed

lemma worker_updates_states: "u \<in> set (worker_updates post show_status read cfg rs) \<Longrightarrow> du_state u \<in> set final_states"
  unfolding worker_updates_def
  by (erule deliver_loop_all [where Q = "\<lambda>p. True", rotated 3]) (simp_all add: send_batch_states)

text \<open>An answer of the Collector that holds a receipt for the record.\<close>

definition confirmed :: "(string \<Rightarrow> string \<Rightarrow> http_result) \<Rightarrow> delivery_record \<Rightarrow> bool" where
  "confirmed post r \<longleftrightarrow> (\<exists>payload outcome. answered post payload \<and> receipt_for r outcome
     \<and> (outcome = payload \<or> outcome \<in> set (get_array payload ''results'')))"

lemma send_batch_delivered:
  assumes "u \<in> set (send_delivery_batch post cfg show_status b)" "du_state u = ''delivered''"
  shows "\<exists>p \<in> set b. du_capture_id u = dr_capture_id (dp_record p) \<and> confirmed post (dp_record p)"
proof (cases "\<exists>p. b = [p]")
  case True
  then obtain p where b: "b = [p]" by blast
  with assms have u: "u = send_single post cfg show_status (dp_record p) (dp_body p)"
    by (simp add: send_delivery_batch_def)
  with assms(2) send_single_delivered have "confirmed post (dp_record p)"
    unfolding confirmed_def by blast
  with b u show ?thesis by simp
next
  case False
  then have "send_delivery_batch post cfg show_status b = send_many post cfg show_status b"
    by (auto simp: send_delivery_batch_def split: list.split)
  with assms send_many_delivered show ?thesis unfolding confirmed_def by metis
qed

lemma worker_updates_delivered:
  assumes "u \<in> set (worker_updates post show_status read cfg rs)" "du_state u = ''delivered''"
  shows "\<exists>r \<in> set rs. du_capture_id u = dr_capture_id r \<and> confirmed post r"
proof -
  have "du_state u = ''delivered'' \<longrightarrow> (\<exists>r \<in> set rs. du_capture_id u = dr_capture_id r \<and> confirmed post r)"
    using assms(1) unfolding worker_updates_def
  proof (rule deliver_loop_all [where Q = "\<lambda>p. dp_record p \<in> set rs", rotated 3])
    fix b v
    assume b: "\<forall>p \<in> set b. dp_record p \<in> set rs" and v: "v \<in> set (send_delivery_batch post cfg show_status b)"
    show "du_state v = ''delivered'' \<longrightarrow> (\<exists>r \<in> set rs. du_capture_id v = dr_capture_id r \<and> confirmed post r)"
      using send_batch_delivered [OF v] b by blast
  qed (auto dest: loaded_record)
  with assms(2) show ?thesis by blast
qed

lemma deliver_many_eq:
  "deliver_many post show_status read order cfg claim_at finish_at ids db =
     rbind (claim_many (fst claim_at) (snd claim_at) ids (lease_duration cfg) db) (\<lambda>(records, db).
     if records = [] then Inr db
     else finish_many (fst finish_at) (snd finish_at) (worker_updates post show_status read cfg (order records)) db)"
  unfolding deliver_many_def worker_updates_def ..

lemma confirmed_claimed [simp]: "confirmed post (claimed_record now stamp lease r) = confirmed post r"
  by (simp add: confirmed_def receipt_for_def claimed_record_def)

lemma claimed_updates:
  assumes "delivery_ok db" "\<And>rs. mset (order rs) = mset rs"
    and cl: "claim_many now token ids lease db = Inr (rs, db1)"
    and us: "us = worker_updates post show_status read cfg (order rs)"
  shows "mset (map du_capture_id us) = mset (map dr_capture_id rs)" "distinct (map du_capture_id us)"
    and "du_capture_id ` set us = {i \<in> set ids. claimable now db i}"
    and "i \<notin> du_capture_id ` set us \<Longrightarrow> tget (dd_deliveries db1) i = tget (dd_deliveries db) i"
    and "u \<in> set us \<Longrightarrow> \<exists>r. tget (dd_deliveries db) (du_capture_id u) = Some r
      \<and> tget (dd_deliveries db1) (du_capture_id u) = Some (claimed_record now token lease r)
      \<and> (du_state u = ''delivered'' \<longrightarrow> confirmed post r)"
proof -
  note sp = claim_many_spec [OF assms(1) cl]
  have took: "dr_capture_id ` set rs = {i \<in> set ids. claimable now db i}" "distinct (map dr_capture_id rs)"
    and held: "\<And>r. r \<in> set rs \<Longrightarrow> tget (dd_deliveries db1) (dr_capture_id r) = Some r"
    using sp by blast+
  have get1: "tget (dd_deliveries db1) i = (if i \<in> dr_capture_id ` set rs
      then map_option (claimed_record now token lease) (tget (dd_deliveries db) i)
      else tget (dd_deliveries db) i)" for i
    unfolding took(1) mem_Collect_eq using sp by (elim conjE) (rule spec)
  show ids: "mset (map du_capture_id us) = mset (map dr_capture_id rs)"
    using worker_updates_ids [of post show_status read cfg "order rs"] assms(2) [of rs] by (simp add: us)
  with took(2) show "distinct (map du_capture_id us)" by (metis mset_eq_imp_distinct_iff)
  have seteq: "du_capture_id ` set us = dr_capture_id ` set rs"
    using arg_cong [OF ids, of set_mset] by simp
  with took(1) show "du_capture_id ` set us = {i \<in> set ids. claimable now db i}" by simp
  show "i \<notin> du_capture_id ` set us \<Longrightarrow> tget (dd_deliveries db1) i = tget (dd_deliveries db) i"
    using get1 [of i] seteq by simp
  assume u: "u \<in> set us"
  with seteq obtain q where q: "q \<in> set rs" "du_capture_id u = dr_capture_id q" by blast
  have "map_option (claimed_record now token lease) (tget (dd_deliveries db) (du_capture_id u)) = Some q"
    using held [OF q(1)] get1 [of "du_capture_id u"] q by simp
  then obtain r where r: "tget (dd_deliveries db) (du_capture_id u) = Some r" "q = claimed_record now token lease r"
    by (cases "tget (dd_deliveries db) (du_capture_id u)") simp_all
  have "confirmed post r" if d: "du_state u = ''delivered''"
  proof -
    from worker_updates_delivered [OF u [unfolded us] d] obtain p where p: "p \<in> set (order rs)"
      "du_capture_id u = dr_capture_id p" "confirmed post p" by blast
    from p(1) assms(2) [of rs] have "p \<in> set rs" by (metis set_mset_mset)
    with held [OF this] held [OF q(1)] p(2) q(2) have "p = q" by simp
    with p(3) r(2) show ?thesis by simp
  qed
  with r held [OF q(1)] q(2) show "\<exists>r. tget (dd_deliveries db) (du_capture_id u) = Some r
      \<and> tget (dd_deliveries db1) (du_capture_id u) = Some (claimed_record now token lease r)
      \<and> (du_state u = ''delivered'' \<longrightarrow> confirmed post r)" by simp
qed

lemma deliver_many_result:
  assumes "delivery_ok db" "\<And>rs. mset (order rs) = mset rs"
  shows "\<exists>db' us. deliver_many post show_status read order cfg claim_at finish_at ids db = Inr db'
    \<and> delivery_ok db' \<and> du_capture_id ` set us = {i \<in> set ids. claimable (fst claim_at) db i}
    \<and> (\<forall>i. i \<notin> du_capture_id ` set us \<longrightarrow> tget (dd_deliveries db') i = tget (dd_deliveries db) i)
    \<and> (\<forall>u \<in> set us. du_state u \<in> set final_states
        \<and> (\<exists>r. tget (dd_deliveries db) (du_capture_id u) = Some r
             \<and> tget (dd_deliveries db') (du_capture_id u) = Some (finished_record (fst finish_at) (snd finish_at) u
                 (claimed_record (fst claim_at) (snd claim_at) (lease_duration cfg) r))
             \<and> (du_state u = ''delivered'' \<longrightarrow> confirmed post r)))"
proof -
  obtain c where c: "read_delivery_counters db = Inr c" "body_ok db c" by (rule delivery_ok_read [OF assms(1)])
  obtain rs db1 where cl: "claim_many (fst claim_at) (snd claim_at) ids (lease_duration cfg) db = Inr (rs, db1)"
    using claim_fold [OF c(2), of "fst claim_at" "snd claim_at" "lease_duration cfg" ids "[]"] c(1)
    by (auto simp: claim_many_def)
  have ok1: "delivery_ok db1" by (rule claim_many_ok [OF assms(1) cl])
  define us where "us = worker_updates post show_status read cfg (order rs)"
  note claimed = claimed_updates [OF assms cl us_def]
  have states: "\<forall>u \<in> set us. du_state u \<in> set final_states"
    unfolding us_def using worker_updates_states by blast
  have "\<forall>u \<in> set us. tget (dd_deliveries db1) (du_capture_id u) \<noteq> None" using claimed(5) by fastforce
  from finish_many_spec [OF ok1 claimed(2) states this, of "fst finish_at" "snd finish_at"]
  obtain db' where db': "finish_many (fst finish_at) (snd finish_at) us db1 = Inr db'" "delivery_ok db'"
    "\<forall>i. i \<notin> du_capture_id ` set us \<longrightarrow> tget (dd_deliveries db') i = tget (dd_deliveries db1) i"
    "\<forall>u \<in> set us. tget (dd_deliveries db') (du_capture_id u)
       = map_option (finished_record (fst finish_at) (snd finish_at) u) (tget (dd_deliveries db1) (du_capture_id u))"
    by (elim exE conjE)
  define dbr where "dbr = (if rs = [] then db1 else db')"
  have res: "deliver_many post show_status read order cfg claim_at finish_at ids db = Inr dbr"
    using db'(1) by (simp add: deliver_many_eq cl us_def dbr_def)
  have okr: "delivery_ok dbr" using ok1 db'(2) by (simp add: dbr_def)
  have other: "tget (dd_deliveries dbr) i = tget (dd_deliveries db) i" if "i \<notin> du_capture_id ` set us" for i
    using db'(3) claimed(4) [OF that] that by (simp add: dbr_def)
  have mine: "du_state u \<in> set final_states
        \<and> (\<exists>r. tget (dd_deliveries db) (du_capture_id u) = Some r
             \<and> tget (dd_deliveries dbr) (du_capture_id u) = Some (finished_record (fst finish_at) (snd finish_at) u
                 (claimed_record (fst claim_at) (snd claim_at) (lease_duration cfg) r))
             \<and> (du_state u = ''delivered'' \<longrightarrow> confirmed post r))" if u: "u \<in> set us" for u
  proof -
    have "rs \<noteq> []" using claimed(1) u by auto
    with bspec [OF db'(4) u] claimed(5) [OF u] bspec [OF states u] show ?thesis by (auto simp: dbr_def)
  qed
  show ?thesis
    by (rule exI [of _ dbr], rule exI [of _ us], intro conjI allI ballI impI)
      (use res okr other mine claimed(3) in \<open>simp_all only:\<close>)
qed


definition example_relay :: relay_config where
  "example_relay =
     \<lparr>rc_store = \<lparr>segment_max_bytes = 8, queue_items = 4, batch_records = 4, batch_bytes = 1024\<rparr>,
       rc_store_shards = 2, rc_collector_url = ''http://c/'', rc_delivery_concurrency = 2, rc_delivery_queue_items = 8,
      rc_delivery_batch_records = 4, rc_delivery_batch_bytes = 1000, rc_max_delivery_inflight_bytes = 5000,
      rc_request_timeout = 10000, rc_base_retry_delay = 250, rc_max_retry_delay = 60000,
      rc_max_envelope_bytes = 4000, rc_max_inflight_body_bytes = 8000, rc_max_batch_records = 100,
      rc_ingest_bearer_token = Some ''secret''\<rparr>"

text \<open>A Collector that acknowledges Capture \<open>a\<close> as durable.\<close>

definition example_receipt :: json where
  "example_receipt = Object
     [(''capture'', Object [(''capture_id'', String ''a''), (''duplicate'', Bool False), (''durable'', Bool True),
         (''length'', Number (PosInt 7)), (''offset'', Number (PosInt 0)), (''raw_sha256'', String ''h''),
         (''segment_id'', Number (PosInt 1)), (''state'', String ''accepted'')]),
      (''duplicate'', Bool False), (''durable'', Bool True), (''ok'', Bool True)]"

definition example_post :: "string \<Rightarrow> string \<Rightarrow> http_result" where
  "example_post url body = Response 200 (Some example_receipt)"

lemma example_claimable: "claimable 5 one_pending ''a''"
  by (simp add: claimable_def one_pending_def new_delivery_def)


text \<open>
  C15: A Capture becomes delivered only on proof: when a worker leaves a Capture delivered, the
  Collector answered a request with success and its answer, or one of the results in it, is a
  durable, self-consistent receipt with exactly the Capture's id, SHA-256 and byte length.
\<close>

theorem delivered_means_receipt:
  assumes "delivery_ok db" "\<And>rs. mset (order rs) = mset rs"
    and "deliver_many post show_status read order cfg claim_at finish_at ids db = Inr db'"
    and "tget (dd_deliveries db) i = Some r" "dr_state r \<noteq> ''delivered''"
    and "tget (dd_deliveries db') i = Some r'" "dr_state r' = ''delivered''"
  shows "\<exists>payload outcome. answered post payload \<and> receipt_for r outcome
    \<and> (outcome = payload \<or> outcome \<in> set (get_array payload ''results''))"
proof -
  obtain db2 us where res: "deliver_many post show_status read order cfg claim_at finish_at ids db = Inr db2"
    and eff: "\<forall>i. i \<notin> du_capture_id ` set us \<longrightarrow> tget (dd_deliveries db2) i = tget (dd_deliveries db) i"
      "\<forall>u \<in> set us. du_state u \<in> set final_states
        \<and> (\<exists>r. tget (dd_deliveries db) (du_capture_id u) = Some r
             \<and> tget (dd_deliveries db2) (du_capture_id u) = Some (finished_record (fst finish_at) (snd finish_at) u
                 (claimed_record (fst claim_at) (snd claim_at) (lease_duration cfg) r))
             \<and> (du_state u = ''delivered'' \<longrightarrow> confirmed post r))"
    using deliver_many_result [OF assms(1,2), of post show_status read cfg claim_at finish_at ids]
    by (elim exE conjE)
  have "db2 = db'" using res assms(3) by simp
  then have "i \<in> du_capture_id ` set us" using eff(1) assms(4-7) by force
  then obtain u where u: "u \<in> set us" "i = du_capture_id u" by blast
  from bspec [OF eff(2) u(1)] obtain q where "tget (dd_deliveries db) i = Some q"
    "tget (dd_deliveries db2) i = Some (finished_record (fst finish_at) (snd finish_at) u
       (claimed_record (fst claim_at) (snd claim_at) (lease_duration cfg) q))"
    "du_state u = ''delivered'' \<longrightarrow> confirmed post q"
    unfolding u(2) [symmetric] by (elim exE conjE)
  with assms(4,6,7) \<open>db2 = db'\<close> have "confirmed post r" by simp
  then show ?thesis by (simp add: confirmed_def)
qed

theorem delivered_means_receipt_witness:
  "\<exists>payload outcome. answered example_post payload \<and> receipt_for (new_delivery (example_locator ''a'')) outcome
     \<and> (outcome = payload \<or> outcome \<in> set (get_array payload ''results''))"
proof -
  have "\<exists>db' r'. deliver_many example_post (\<lambda>_. ''OK'') (\<lambda>_. Inr ''payload'') (\<lambda>rs. rs) example_relay (5, ''t'') (6, ''u'')
      [''a''] one_pending = Inr db' \<and> tget (dd_deliveries db') ''a'' = Some r' \<and> dr_state r' = ''delivered''"
    by (simp add: deliver_many_def claim_many_def claim_one_def one_pending_def empty_ledger_def
      read_delivery_counters_def new_delivery_def example_locator_def claimed_record_def write_delivery_counters_def
      load_delivery_payload_def example_relay_def deliver_loop_def deliver_item_def send_delivery_batch_def
      send_single_def example_post_def is_success_def receipt_update_def verify_collector_receipt_def
      example_receipt_def get_bool_def json_opt_def ack_fields_def status_contradicts_def delivered_update_def
      finish_many_def finish_one_def finished_record_def unindex_def increment_delivery_state_def
      decrement_delivery_state_def retry_at_def flush_batch_def sat_def Let_def)
  then obtain db' r' where d: "deliver_many example_post (\<lambda>_. ''OK'') (\<lambda>_. Inr ''payload'') (\<lambda>rs. rs) example_relay
      (5, ''t'') (6, ''u'') [''a''] one_pending = Inr db'" "tget (dd_deliveries db') ''a'' = Some r'"
    "dr_state r' = ''delivered''"
    by (elim exE conjE)
  have s: "dr_state (new_delivery (example_locator ''a'')) \<noteq> ''delivered''" by (simp add: new_delivery_def)
  show ?thesis
    by (rule delivered_means_receipt [OF one_pending_ok _ d(1) one_pending_row(1) s d(2,3)]) simp
qed

text \<open>
  Bodies sent in one request respect the byte limit: every batch handed to the sender is
  non-empty and, unless it holds a single Capture, the request body built from it is at most the
  configured number of bytes.
\<close>

theorem batch_body_bounded:
  assumes "rc_delivery_batch_bytes cfg < 2 ^ 64 - 1"
    and "batch \<in> set (deliver_loop (\<lambda>b. [b]) (\<lambda>r e. []) (rc_delivery_batch_bytes cfg) loaded)"
    and "batch \<noteq> []"
  shows "length batch = 1
    \<or> length (concat (map (\<lambda>p. dp_body p @ [CHR 0x0A]) batch)) \<le> rc_delivery_batch_bytes cfg"
proof -
  have "length (concat (map (\<lambda>p. dp_body p @ [CHR 0x0A]) batch)) = (\<Sum>p\<leftarrow>batch. length (dp_body p) + 1)"
    by (induction batch) simp_all
  then show ?thesis
    using deliver_loop_fits [OF assms] by (simp add: batch_fits_def)
qed

lemma batch_pair:
  "deliver_loop (\<lambda>b. [b]) (\<lambda>r e. []) (rc_delivery_batch_bytes example_relay)
     [(r, Inr \<lparr>dp_record = r, dp_body = ''x''\<rparr>), (r, Inr \<lparr>dp_record = r, dp_body = ''yz''\<rparr>)]
   = [[\<lparr>dp_record = r, dp_body = ''x''\<rparr>, \<lparr>dp_record = r, dp_body = ''yz''\<rparr>]]"
  by (simp add: deliver_loop_def deliver_item_def example_relay_def sat_def)

theorem batch_body_bounded_witness:
  "(5::nat) \<le> rc_delivery_batch_bytes example_relay"
  using batch_body_bounded [of example_relay
      "[\<lparr>dp_record = new_delivery (example_locator ''a''), dp_body = ''x''\<rparr>,
        \<lparr>dp_record = new_delivery (example_locator ''a''), dp_body = ''yz''\<rparr>]"
      "[(new_delivery (example_locator ''a''), Inr \<lparr>dp_record = new_delivery (example_locator ''a''), dp_body = ''x''\<rparr>),
        (new_delivery (example_locator ''a''), Inr \<lparr>dp_record = new_delivery (example_locator ''a''), dp_body = ''yz''\<rparr>)]"]
  by (simp add: batch_pair) (simp add: example_relay_def)

lemma unat_retry_delay:
  "unat (retry_delay cfg n) =
     min (min (unat (of_nat (rc_base_retry_delay cfg) :: u64) * 2 ^ min (unat n - 1) 20) (2 ^ 64 - 1))
       (unat (of_nat (rc_max_retry_delay cfg) :: u64))"
proof -
  let ?k = "min (unat n - 1) 20"
  have "(2::nat) ^ ?k \<le> 2 ^ 20" by (rule power_increasing) simp_all
  then have "(2::nat) ^ ?k < 2 ^ 64" by (rule le_less_trans) simp
  then have "unat (2 ^ ?k :: u64) = 2 ^ ?k"
    using unat_of_nat_u64 [of "2 ^ ?k"] by simp
  moreover have "unat (min a b) = min (unat a) (unat b)" for a b :: u64
    by (simp add: min_def u64_le_iff)
  ultimately show ?thesis
    by (simp add: retry_delay_def Let_def unat_saturating_mul unat_saturating_sub)
qed

text \<open>
  The retry delay never exceeds its maximum, never shrinks with more attempts, is the base
  delay (up to the maximum) for the first attempt, and doubles from one attempt to the next
  while it stays below the maximum and at most twenty doublings were made.
\<close>

theorem retry_backoff_bounds:
  "retry_delay cfg n \<le> of_nat (rc_max_retry_delay cfg)
   \<and> (m \<le> n \<longrightarrow> retry_delay cfg m \<le> retry_delay cfg n)
   \<and> retry_delay cfg 1 = min (of_nat (rc_base_retry_delay cfg)) (of_nat (rc_max_retry_delay cfg))
   \<and> (0 < unat n \<longrightarrow> unat n \<le> 20 \<longrightarrow> retry_delay cfg (n + 1) < of_nat (rc_max_retry_delay cfg)
        \<longrightarrow> unat (retry_delay cfg (n + 1)) = 2 * unat (retry_delay cfg n))"
proof (intro conjI impI)
  let ?B = "unat (of_nat (rc_base_retry_delay cfg) :: u64)" and ?M = "unat (of_nat (rc_max_retry_delay cfg) :: u64)"
  show "retry_delay cfg n \<le> of_nat (rc_max_retry_delay cfg)"
    by (simp add: u64_le_iff unat_retry_delay)
  show "retry_delay cfg m \<le> retry_delay cfg n" if "m \<le> n"
  proof -
    have "(2::nat) ^ min (unat m - 1) 20 \<le> 2 ^ min (unat n - 1) 20"
      using that by (intro power_increasing) (simp_all add: u64_le_iff min_le_iff_disj diff_le_mono)
    then have "?B * 2 ^ min (unat m - 1) 20 \<le> ?B * 2 ^ min (unat n - 1) 20" by (rule mult_le_mono2)
    then show ?thesis unfolding u64_le_iff unat_retry_delay by linarith
  qed
  have "?B \<le> 2 ^ 64 - 1" using unat_u64_bound [of "of_nat (rc_base_retry_delay cfg)"] by simp
  then show "retry_delay cfg 1 = min (of_nat (rc_base_retry_delay cfg)) (of_nat (rc_max_retry_delay cfg))"
    by (intro u64_eqI) (simp add: unat_retry_delay min_def u64_le_iff)
  show "unat (retry_delay cfg (n + 1)) = 2 * unat (retry_delay cfg n)"
    if n: "0 < unat n" "unat n \<le> 20" and l: "retry_delay cfg (n + 1) < of_nat (rc_max_retry_delay cfg)"
  proof -
    have n1: "unat (n + 1) = unat n + 1" using n by (simp add: unat_u64_add)
    obtain k where k: "unat n = Suc k" using n(1) by (cases "unat n") auto
    have M: "?M \<le> 2 ^ 64 - 1" using unat_u64_bound [of "of_nat (rc_max_retry_delay cfg)"] by simp
    have "min (min (?B * 2 ^ Suc k) (2 ^ 64 - 1)) ?M < ?M"
      using l n(2) unfolding u64_less_iff unat_retry_delay by (simp add: n1 k)
    with M have lt: "?B * 2 ^ Suc k < ?M" by linarith
    then have "?B * 2 ^ k < ?M" by simp
    with lt M show ?thesis
      unfolding unat_retry_delay using n(2) by (simp add: n1 k)
  qed
qed

theorem retry_backoff_bounds_witness:
  "unat (retry_delay example_relay 2) = 500"
proof -
  have "unat (retry_delay example_relay (1 + 1)) = 2 * unat (retry_delay example_relay 1)"
    using retry_backoff_bounds [of example_relay 1 1]
    by (simp add: u64_less_iff unat_retry_delay) (simp add: example_relay_def)
  then show ?thesis by (simp add: unat_retry_delay) (simp add: example_relay_def)
qed

end
