(* ===== verification/IngestCoverage.thy ===== *)
theory IngestCoverage
  imports IngestQuality WalStore Json
begin

text \<open>
  The Relay's in-memory view of its ingest routes (\<open>relay.rs\<close>, \<open>IngestCoverageState\<close>), the
  snapshot of it that \<open>/health\<close> and \<open>/ready\<close> report, and the reasons for which the Relay says it
  is not ready.  \<open>now\<close> is the clock in milliseconds and \<open>at\<close> the same clock as text.
\<close>

section \<open>The reasons of a cloud ingest batch\<close>

record cloud_summary =
  cs_endpoint :: string
  cs_source_records :: u64
  cs_derived_captures :: u64
  cs_unknown_events :: u64
  cs_attributed_quality_errors :: u64
  cs_conversion_errors :: "string list"

abbreviation contains :: "string \<Rightarrow> string \<Rightarrow> bool" where
  "contains s p \<equiv> sublist p s"

definition classify_quality_error :: "string \<Rightarrow> string" where
  "classify_quality_error error =
     (let normalized = to_ascii_lowercase error; has = contains normalized
      in if has ''lifecycle'' \<or> has ''conflicting duplicate outcome'' \<or> has ''conflicting duplicate status''
         then ''invalid_lifecycle''
         else if has ''conflicting'' \<or> has ''identity conflict'' \<or> has ''duplicate context''
         then ''identity_conflict''
         else if has ''missing session'' \<or> has ''requires session'' \<or> has ''missing turn''
           \<or> has ''requires turn'' \<or> has ''conversation.id'' \<or> has ''turn.id'' \<or> has ''session_id''
           \<or> has ''turn_id''
         then ''missing_identity''
         else if has ''unsupported'' \<or> has ''unknown event'' then ''unsupported_event''
         else if has ''attribute'' \<or> has ''metadata'' then ''invalid_attributes''
         else if has ''tool'' then ''invalid_tool''
         else if has ''lifecycle'' \<or> has ''status'' then ''invalid_lifecycle''
         else if has ''timestamp'' \<or> has ''occurred_at'' then ''invalid_timestamp''
         else if has ''structure'' \<or> has ''must be an object'' \<or> has ''must be an array''
           \<or> has ''must contain'' \<or> has ''invalid json''
         then ''invalid_structure''
         else ''conversion_error'')"

text \<open>\<open>entry(reason).or_insert(0)\<close> and a saturating addition.\<close>

definition bump_reason :: "string \<times> u64 \<Rightarrow> (string, u64) table \<Rightarrow> (string, u64) table" where
  "bump_reason r t =
     tput (fst r) (saturating_add (case tget t (fst r) of None \<Rightarrow> 0 | Some n \<Rightarrow> n) (snd r)) t"

definition quality_error_reasons :: "cloud_summary \<Rightarrow> (string, u64) table" where
  "quality_error_reasons s =
     fold (\<lambda>error. bump_reason (classify_quality_error error, 1)) (cs_conversion_errors s)
       (if 0 < cs_unknown_events s then [(''unsupported_event'', cs_unknown_events s)] else [])"

definition conversion_count :: "cloud_summary \<Rightarrow> u64" where
  "conversion_count s = of_nat (length (cs_conversion_errors s))"


section \<open>State\<close>

record route_coverage =
  rt_requests :: u64
  rt_source_records :: u64
  rt_durable_captures :: u64
  rt_duplicates :: u64
  rt_quality_unknown_events :: u64
  rt_quality_conversion_errors :: u64
  rt_quality_reasons :: "(string, u64) table"
  rt_last_at :: "string option"
  rt_first_observed_millis :: "u64 option"
  rt_last_observed_millis :: "u64 option"

record wire_turn_coverage =
  wt_turn_scoped_captures :: u64
  wt_successful_turn_scoped_captures :: u64
  wt_unscoped_captures :: u64
  wt_identity_conflict_captures :: u64
  wt_last_successful_at :: "string option"
  wt_last_successful_observed_millis :: "u64 option"

record coverage_state =
  co_started_at :: string
  co_wire :: route_coverage
  co_wire_turn_coverage :: wire_turn_coverage
  co_otlp_logs :: route_coverage
  co_otlp_traces :: route_coverage
  co_hooks :: route_coverage
  co_lifecycle_events :: u64
  co_tool_executions :: u64
  co_quality_errors :: u64
  co_quality_errors_current_process :: u64
  co_quality_errors_archived_total :: u64
  co_quality_archive :: "quality_archive option"

definition route_default :: route_coverage where
  "route_default =
     \<lparr>rt_requests = 0, rt_source_records = 0, rt_durable_captures = 0, rt_duplicates = 0,
      rt_quality_unknown_events = 0, rt_quality_conversion_errors = 0, rt_quality_reasons = [],
      rt_last_at = None, rt_first_observed_millis = None, rt_last_observed_millis = None\<rparr>"

definition turns_default :: wire_turn_coverage where
  "turns_default =
     \<lparr>wt_turn_scoped_captures = 0, wt_successful_turn_scoped_captures = 0, wt_unscoped_captures = 0,
      wt_identity_conflict_captures = 0, wt_last_successful_at = None,
      wt_last_successful_observed_millis = None\<rparr>"

text \<open>The route of an endpoint, and writing through it.\<close>

fun cloud_route :: "coverage_state \<Rightarrow> cloud_endpoint \<Rightarrow> route_coverage" where
  "cloud_route s OtlpLogs = co_otlp_logs s"
| "cloud_route s OtlpTraces = co_otlp_traces s"
| "cloud_route s CodexHook = co_hooks s"

fun set_cloud_route :: "cloud_endpoint \<Rightarrow> route_coverage \<Rightarrow> coverage_state \<Rightarrow> coverage_state" where
  "set_cloud_route OtlpLogs r s = s\<lparr>co_otlp_logs := r\<rparr>"
| "set_cloud_route OtlpTraces r s = s\<lparr>co_otlp_traces := r\<rparr>"
| "set_cloud_route CodexHook r s = s\<lparr>co_hooks := r\<rparr>"


section \<open>The durable quality view\<close>

definition route_with_quality :: "quality_counters \<Rightarrow> cloud_endpoint \<Rightarrow> route_coverage \<Rightarrow> route_coverage" where
  "route_with_quality c ep r =
     r\<lparr>rt_quality_unknown_events := fst (endpoint_counts c ep),
       rt_quality_conversion_errors := snd (endpoint_counts c ep),
       rt_quality_reasons := reasons_of c ep\<rparr>"

definition apply_quality_snapshot ::
  "quality_counters \<Rightarrow> quality_archive option \<Rightarrow> coverage_state \<Rightarrow> quality_error + coverage_state" where
  "apply_quality_snapshot c archive s =
     rbind (checked_total c) (\<lambda>total.
     let s = s\<lparr>co_quality_errors := total,
               co_quality_errors_archived_total :=
                 (case archive of None \<Rightarrow> 0 | Some a \<Rightarrow> qa_source_quality_errors a),
               co_quality_archive := archive\<rparr>
     in Inr (fold (\<lambda>ep s. set_cloud_route ep (route_with_quality c ep (cloud_route s ep)) s)
               [OtlpLogs, OtlpTraces, CodexHook] s))"

definition coverage_with_quality_snapshot ::
  "string \<Rightarrow> quality_counters \<Rightarrow> quality_archive option \<Rightarrow> quality_error + coverage_state" where
  "coverage_with_quality_snapshot at c archive =
     apply_quality_snapshot c archive
       \<lparr>co_started_at = at, co_wire = route_default, co_wire_turn_coverage = turns_default,
        co_otlp_logs = route_default, co_otlp_traces = route_default, co_hooks = route_default,
        co_lifecycle_events = 0, co_tool_executions = 0, co_quality_errors = 0,
        co_quality_errors_current_process = 0, co_quality_errors_archived_total = 0,
        co_quality_archive = None\<rparr>"


section \<open>Observations\<close>

text \<open>What every observation does to the counts and the times of its route.\<close>

definition observe_route :: "u64 \<Rightarrow> string \<Rightarrow> u64 \<Rightarrow> u64 \<Rightarrow> u64 \<Rightarrow> route_coverage \<Rightarrow> route_coverage" where
  "observe_route now at records durable duplicates r =
     r\<lparr>rt_requests := saturating_add (rt_requests r) 1,
       rt_source_records := saturating_add (rt_source_records r) records,
       rt_durable_captures := saturating_add (rt_durable_captures r) durable,
       rt_duplicates := saturating_add (rt_duplicates r) duplicates,
       rt_first_observed_millis := Some (case rt_first_observed_millis r of None \<Rightarrow> now | Some t \<Rightarrow> t),
       rt_last_observed_millis := Some now,
       rt_last_at := Some at\<rparr>"

definition observe_evidence ::
  "u64 \<Rightarrow> string \<Rightarrow> wire_evidence \<times> bool \<Rightarrow> wire_turn_coverage \<Rightarrow> wire_turn_coverage" where
  "observe_evidence now at e t =
     (let (evidence, duplicate) = e;
          t = (if we_turn_scoped evidence
               then let t = t\<lparr>wt_turn_scoped_captures := saturating_add (wt_turn_scoped_captures t) 1\<rparr>
                    in if we_http_success evidence
                       then let t = t\<lparr>wt_successful_turn_scoped_captures :=
                                        saturating_add (wt_successful_turn_scoped_captures t) 1\<rparr>
                            in if \<not> duplicate
                               then t\<lparr>wt_last_successful_at := Some at,
                                      wt_last_successful_observed_millis := Some now\<rparr>
                               else t
                       else t
               else t\<lparr>wt_unscoped_captures := saturating_add (wt_unscoped_captures t) 1\<rparr>)
      in if we_identity_conflict evidence
         then t\<lparr>wt_identity_conflict_captures := saturating_add (wt_identity_conflict_captures t) 1\<rparr>
         else t)"

definition observe_wire ::
  "u64 \<Rightarrow> string \<Rightarrow> (wire_evidence \<times> bool) list \<Rightarrow> coverage_state \<Rightarrow> coverage_state" where
  "observe_wire now at acknowledged s =
     (if acknowledged = [] then s
      else let durable = of_nat (length acknowledged);
               duplicates = of_nat (length (filter snd acknowledged))
           in s\<lparr>co_wire := observe_route now at durable durable duplicates (co_wire s),
                co_wire_turn_coverage :=
                  fold (observe_evidence now at) acknowledged (co_wire_turn_coverage s)\<rparr>)"

definition observe_quality :: "cloud_summary \<Rightarrow> route_coverage \<Rightarrow> route_coverage" where
  "observe_quality summary r =
     r\<lparr>rt_quality_unknown_events := saturating_add (rt_quality_unknown_events r) (cs_unknown_events summary),
       rt_quality_conversion_errors := saturating_add (rt_quality_conversion_errors r) (conversion_count summary),
       rt_quality_reasons := fold bump_reason (quality_error_reasons summary) (rt_quality_reasons r)\<rparr>"

definition observe_cloud ::
  "u64 \<Rightarrow> string \<Rightarrow> cloud_endpoint \<Rightarrow> cloud_summary \<Rightarrow> u64 \<Rightarrow> u64 \<Rightarrow> u64 \<Rightarrow> u64 \<Rightarrow> coverage_state \<Rightarrow> coverage_state" where
  "observe_cloud now at ep summary durable duplicates lifecycle_events tool_executions s =
     (let quality_errors = saturating_add (cs_unknown_events summary) (conversion_count summary);
          route = observe_route now at (cs_source_records summary) durable duplicates (cloud_route s ep);
          s = set_cloud_route ep (observe_quality summary route) s
      in s\<lparr>co_lifecycle_events := saturating_add (co_lifecycle_events s) lifecycle_events,
           co_tool_executions := saturating_add (co_tool_executions s) tool_executions,
           co_quality_errors := saturating_add (co_quality_errors s) quality_errors,
           co_quality_errors_current_process :=
             saturating_add (co_quality_errors_current_process s) quality_errors\<rparr>)"

text \<open>\<open>parse\<close> is \<open>serde_json::from_slice\<close>.\<close>

definition derived_record_counts :: "(string \<Rightarrow> json option) \<Rightarrow> capture_record list \<Rightarrow> u64 \<times> u64" where
  "derived_record_counts parse records =
     fold (\<lambda>record counts.
         case parse (cr_canonical record) of
           None \<Rightarrow> counts
         | Some value \<Rightarrow>
             if get_str value ''recordType'' = Some ''lifecycle_event''
             then (saturating_add (fst counts) 1, snd counts)
             else if get_str value ''recordType'' = Some ''tool_execution''
             then (fst counts, saturating_add (snd counts) 1)
             else counts)
       records (0, 0)"


section \<open>The snapshot\<close>

definition freshness_window_ms :: u64 where
  "freshness_window_ms = 300000"

definition hook_freshness_window_ms :: u64 where
  "hook_freshness_window_ms = 3600000"

definition age_ms :: "u64 \<Rightarrow> u64 option \<Rightarrow> u64 option" where
  "age_ms now seen = map_option (saturating_sub now) seen"

text \<open>\<open>age.is_some_and(|age| age <= WINDOW)\<close>\<close>

definition is_fresh :: "u64 option \<Rightarrow> bool" where
  "is_fresh age = (case age of None \<Rightarrow> False | Some a \<Rightarrow> a \<le> freshness_window_ms)"

definition source_lag_ms :: "route_coverage \<Rightarrow> route_coverage \<Rightarrow> u64 option" where
  "source_lag_ms wire source =
     (case (rt_last_observed_millis wire, rt_last_observed_millis source) of
        (Some w, Some l) \<Rightarrow> Some (saturating_sub w l)
      | _ \<Rightarrow> None)"

definition required_routes :: "coverage_state \<Rightarrow> (string \<times> route_coverage) list" where
  "required_routes s =
     [(''otlp_logs'', co_otlp_logs s), (''otlp_traces'', co_otlp_traces s), (''hooks'', co_hooks s)]"

definition all_routes :: "coverage_state \<Rightarrow> (string \<times> route_coverage) list" where
  "all_routes s = (''wire'', co_wire s) # required_routes s"

definition sources_observed :: "coverage_state \<Rightarrow> bool" where
  "sources_observed s \<longleftrightarrow>
     0 < rt_requests (co_wire s) \<and> 0 < rt_requests (co_otlp_logs s)
     \<and> 0 < rt_requests (co_otlp_traces s) \<and> 0 < rt_requests (co_hooks s)"

definition any_observed :: "coverage_state \<Rightarrow> bool" where
  "any_observed s \<longleftrightarrow>
     0 < rt_requests (co_wire s) \<or> 0 < rt_requests (co_otlp_logs s)
     \<or> 0 < rt_requests (co_otlp_traces s) \<or> 0 < rt_requests (co_hooks s)"

text \<open>\<open>Iterator::max\<close>\<close>

definition latest :: "u64 list \<Rightarrow> u64 option" where
  "latest ts = (case ts of [] \<Rightarrow> None | t # ts \<Rightarrow> Some (fold max ts t))"

definition latest_runtime_millis :: "coverage_state \<Rightarrow> u64 option" where
  "latest_runtime_millis s =
     latest (List.map_filter (\<lambda>r. rt_last_observed_millis (snd r)) (required_routes s))"

definition wire_active :: "u64 \<Rightarrow> coverage_state \<Rightarrow> bool" where
  "wire_active now s = is_fresh (age_ms now (rt_last_observed_millis (co_wire s)))"

definition runtime_active :: "u64 \<Rightarrow> coverage_state \<Rightarrow> bool" where
  "runtime_active now s = is_fresh (age_ms now (latest_runtime_millis s))"

definition wire_lag_ms :: "coverage_state \<Rightarrow> u64 option" where
  "wire_lag_ms s =
     Option.bind (latest_runtime_millis s) (\<lambda>runtime_last.
       map_option (saturating_sub runtime_last) (rt_last_observed_millis (co_wire s)))"

definition wire_observed_long_enough :: "u64 \<Rightarrow> coverage_state \<Rightarrow> bool" where
  "wire_observed_long_enough now s =
     (case rt_first_observed_millis (co_wire s) of
        None \<Rightarrow> False
      | Some first \<Rightarrow> freshness_window_ms < saturating_sub now first)"

definition missing_sources :: "coverage_state \<Rightarrow> string list" where
  "missing_sources s = map fst (filter (\<lambda>r. rt_requests (snd r) = 0) (all_routes s))"

definition stale_routes :: "coverage_state \<Rightarrow> string list" where
  "stale_routes s =
     (case rt_last_observed_millis (co_wire s) of
        None \<Rightarrow> []
      | Some wire_last \<Rightarrow>
          map fst (filter (\<lambda>(name, route).
              let window = (if name = ''hooks'' then hook_freshness_window_ms else freshness_window_ms)
              in case rt_last_observed_millis route of
                   None \<Rightarrow> False
                 | Some seen \<Rightarrow> window < saturating_sub wire_last seen)
            (required_routes s)))"

definition wire_out_of_sync :: "u64 \<Rightarrow> coverage_state \<Rightarrow> bool" where
  "wire_out_of_sync now s \<longleftrightarrow>
     runtime_active now s
     \<and> (\<not> wire_active now s
        \<or> (case wire_lag_ms s of None \<Rightarrow> False | Some lag \<Rightarrow> freshness_window_ms < lag))"

definition stale_sources :: "u64 \<Rightarrow> coverage_state \<Rightarrow> string list" where
  "stale_sources now s = (if wire_out_of_sync now s then stale_routes s @ [''wire''] else stale_routes s)"

definition required_sources_fresh :: "u64 \<Rightarrow> coverage_state \<Rightarrow> bool" where
  "required_sources_fresh now s \<longleftrightarrow> sources_observed s \<and> stale_sources now s = []"

definition coverage_degraded :: "u64 \<Rightarrow> coverage_state \<Rightarrow> bool" where
  "coverage_degraded now s \<longleftrightarrow>
     wire_out_of_sync now s
     \<or> wire_active now s
       \<and> (stale_sources now s \<noteq> [] \<or> wire_observed_long_enough now s \<and> missing_sources s \<noteq> [])"

definition coverage_status :: "u64 \<Rightarrow> coverage_state \<Rightarrow> string" where
  "coverage_status now s =
     (if coverage_degraded now s then ''degraded''
      else if sources_observed s \<and> required_sources_fresh now s then ''complete''
      else if any_observed s then ''partial''
      else ''warming'')"

definition successful_turn_scoped_age_ms :: "u64 \<Rightarrow> coverage_state \<Rightarrow> u64 option" where
  "successful_turn_scoped_age_ms now s =
     age_ms now (wt_last_successful_observed_millis (co_wire_turn_coverage s))"

definition turn_capture_ready :: "u64 \<Rightarrow> coverage_state \<Rightarrow> bool" where
  "turn_capture_ready now s \<longleftrightarrow>
     coverage_status now s = ''complete''
     \<and> 0 < wt_successful_turn_scoped_captures (co_wire_turn_coverage s)
     \<and> is_fresh (successful_turn_scoped_age_ms now s)"

definition breakdown_step :: "route_coverage \<Rightarrow> u64 \<Rightarrow> unit + u64" where
  "breakdown_step route acc =
     rbind (ok_or () (checked_add (rt_quality_unknown_events route) (rt_quality_conversion_errors route))) (\<lambda>route_total.
     rbind (ok_or () (checked_add acc route_total)) (\<lambda>next_sum.
     let reason_total = checked_sum (map snd (rt_quality_reasons route))
     in if list_ex (\<lambda>r. \<not> is_quality_reason (fst r)) (rt_quality_reasons route) \<or> reason_total \<noteq> Inr route_total
        then Inl () else Inr next_sum))"

definition quality_reason_breakdown_complete :: "u64 \<Rightarrow> route_coverage list \<Rightarrow> bool" where
  "quality_reason_breakdown_complete expected routes \<longleftrightarrow> try_fold breakdown_step routes 0 = Inr expected"

abbreviation jnum :: "u64 \<Rightarrow> json" where
  "jnum n \<equiv> Number (PosInt n)"

definition reasons_json :: "(string, u64) table \<Rightarrow> json" where
  "reasons_json t = Object (map (\<lambda>r. (fst r, jnum (snd r))) t)"

definition quality_json :: "u64 \<Rightarrow> u64 \<Rightarrow> (string, u64) table \<Rightarrow> json" where
  "quality_json unknown_events conversion_errors reasons =
     json_object
       [(''unknown_events'', jnum unknown_events),
        (''conversion_errors'', jnum conversion_errors),
        (''total'', jnum (saturating_add unknown_events conversion_errors)),
        (''reasons'', reasons_json reasons)]"

definition archived_quality_value :: "quality_counters \<Rightarrow> cloud_endpoint \<Rightarrow> json" where
  "archived_quality_value c ep =
     quality_json (fst (endpoint_counts c ep)) (snd (endpoint_counts c ep)) (reasons_of c ep)"

definition route_quality_value :: "route_coverage \<Rightarrow> json" where
  "route_quality_value r =
     quality_json (rt_quality_unknown_events r) (rt_quality_conversion_errors r) (rt_quality_reasons r)"

definition route_coverage_value :: "route_coverage \<Rightarrow> json" where
  "route_coverage_value r =
     json_object
       [(''requests'', jnum (rt_requests r)),
        (''source_records'', jnum (rt_source_records r)),
        (''durable_captures'', jnum (rt_durable_captures r)),
        (''duplicates'', jnum (rt_duplicates r)),
        (''last_at'', json_opt (map_option String (rt_last_at r)))]"

definition wire_turn_value :: "u64 \<Rightarrow> coverage_state \<Rightarrow> json" where
  "wire_turn_value now s =
     (let turns = co_wire_turn_coverage s; age = successful_turn_scoped_age_ms now s
      in json_object
       [(''success_definition'', String ''http_2xx''),
        (''freshness_definition'', String ''new_durable_capture''),
        (''turn_scoped_captures'', jnum (wt_turn_scoped_captures turns)),
        (''successful_turn_scoped_captures'', jnum (wt_successful_turn_scoped_captures turns)),
        (''unscoped_captures'', jnum (wt_unscoped_captures turns)),
        (''identity_conflict_captures'', jnum (wt_identity_conflict_captures turns)),
        (''last_successful_at'', json_opt (map_option String (wt_last_successful_at turns))),
        (''last_successful_age_ms'', json_opt (map_option jnum age)),
        (''successful_turn_scoped_fresh'', Bool (is_fresh age))])"

definition archive_value :: "quality_archive \<Rightarrow> json" where
  "archive_value a =
     json_object
       [(''schema_version'', String (qa_schema_version a)),
        (''archive_id'', String (qa_archive_id a)),
        (''archived_at'', String (qa_archived_at a)),
        (''approved_by'', String (qa_approved_by a)),
        (''approval_note'', String (qa_approval_note a)),
        (''source_quality_errors'', jnum (qa_source_quality_errors a))]"

definition by_endpoint :: "(cloud_endpoint \<Rightarrow> json) \<Rightarrow> json" where
  "by_endpoint f =
     json_object [(''otlp_logs'', f OtlpLogs), (''otlp_traces'', f OtlpTraces), (''hooks'', f CodexHook)]"

definition snapshot_at :: "u64 \<Rightarrow> coverage_state \<Rightarrow> json" where
  "snapshot_at now s =
     json_object
       [(''scope'', String ''current_relay_process''),
        (''quality_errors_scope'', String ''durable_relay_state''),
        (''started_at'', String (co_started_at s)),
        (''status'', String (coverage_status now s)),
        (''required_sources_observed'', Bool (sources_observed s)),
        (''required_sources_fresh'', Bool (required_sources_fresh now s)),
        (''freshness_applicable'', Bool (wire_active now s \<or> runtime_active now s)),
        (''freshness_window_ms'', jnum freshness_window_ms),
        (''hooks_freshness_window_ms'', jnum hook_freshness_window_ms),
        (''wire_age_ms'', json_opt (map_option jnum (age_ms now (rt_last_observed_millis (co_wire s))))),
        (''runtime_age_ms'', json_opt (map_option jnum (age_ms now (latest_runtime_millis s)))),
        (''runtime_active'', Bool (runtime_active now s)),
        (''wire_lag_ms'', json_opt (map_option jnum (wire_lag_ms s))),
        (''missing_sources'', Array (map String (missing_sources s))),
        (''stale_sources'', Array (map String (stale_sources now s))),
        (''source_lag_ms'',
           by_endpoint (\<lambda>ep. json_opt (map_option jnum (source_lag_ms (co_wire s) (cloud_route s ep))))),
        (''buyer_eligibility_claimed'', Bool False),
        (''session_delivery_claimed'', Bool False),
        (''turn_capture_ready'', Bool (turn_capture_ready now s)),
        (''wire'', route_coverage_value (co_wire s)),
        (''wire_turn_coverage'', wire_turn_value now s),
        (''otlp_logs'', route_coverage_value (co_otlp_logs s)),
        (''otlp_traces'', route_coverage_value (co_otlp_traces s)),
        (''hooks'', route_coverage_value (co_hooks s)),
        (''quality_errors_by_endpoint'', by_endpoint (\<lambda>ep. route_quality_value (cloud_route s ep))),
        (''quality_reason_breakdown_complete'',
           Bool (quality_reason_breakdown_complete (co_quality_errors s)
             [co_otlp_logs s, co_otlp_traces s, co_hooks s])),
        (''derived'',
           json_object [(''lifecycle_events'', jnum (co_lifecycle_events s)),
                        (''tool_executions'', jnum (co_tool_executions s))]),
        (''quality_errors'', jnum (co_quality_errors s)),
        (''quality_errors_current_process'', jnum (co_quality_errors_current_process s)),
        (''quality_errors_archived_total'', jnum (co_quality_errors_archived_total s)),
        (''quality_errors_archived_by_endpoint'',
           json_opt (map_option (\<lambda>a. by_endpoint (archived_quality_value (qa_counters a))) (co_quality_archive s))),
        (''quality_archive'', json_opt (map_option archive_value (co_quality_archive s)))]"


section \<open>Readiness\<close>

text \<open>The fields of \<open>RelayHealth\<close> that readiness reads.\<close>

record relay_health =
  rh_ok :: bool
  rh_delivery_records :: u64
  rh_pending :: u64
  rh_inflight :: u64
  rh_delivered :: u64
  rh_conflicts :: u64
  rh_failed :: u64
  rh_delivery_attempts :: u64
  rh_delivery_retries :: u64
  rh_conservation_ok :: bool
  rh_backlog_degraded :: bool

definition blocked_unless :: "bool \<Rightarrow> string \<Rightarrow> string list" where
  "blocked_unless ok reason = (if ok then [] else [reason])"

definition readiness_blocking_reasons :: "relay_health \<Rightarrow> json \<Rightarrow> string list" where
  "readiness_blocking_reasons health coverage =
     blocked_unless (rh_ok health) ''relay_not_healthy''
     @ blocked_unless (rh_pending health = 0) ''relay_pending_records''
     @ blocked_unless (rh_inflight health = 0) ''relay_inflight_records''
     @ blocked_unless (rh_failed health = 0) ''relay_failed_records''
     @ blocked_unless (rh_conservation_ok health) ''relay_delivery_not_conserved''
     @ blocked_unless (get_str coverage ''status'' = Some ''complete'') ''relay_coverage_not_complete''
     @ blocked_unless (get_bool coverage ''required_sources_observed'' = Some True)
         ''relay_required_sources_not_observed''
     @ blocked_unless (get_bool coverage ''required_sources_fresh'' = Some True)
         ''relay_required_sources_not_fresh''
     @ blocked_unless (Option.bind (jget coverage ''missing_sources'') as_array = Some []) ''relay_sources_missing''
     @ blocked_unless (Option.bind (jget coverage ''stale_sources'') as_array = Some []) ''relay_sources_stale''
     @ blocked_unless (get_u64 coverage ''quality_errors'' = Some 0) ''relay_quality_errors_nonzero''
     @ blocked_unless (get_str coverage ''quality_errors_scope'' = Some ''durable_relay_state'')
         ''relay_quality_history_not_durable''
     @ blocked_unless (get_bool coverage ''quality_reason_breakdown_complete'' = Some True)
         ''relay_quality_reason_breakdown_missing''
     @ blocked_unless (get_bool coverage ''turn_capture_ready'' = Some True) ''relay_turn_capture_not_ready''
     @ blocked_unless
         (case Option.bind (pointer coverage [''wire_turn_coverage'', ''successful_turn_scoped_captures'']) as_u64 of
            None \<Rightarrow> False | Some n \<Rightarrow> n \<noteq> 0)
         ''relay_no_successful_turn_scoped_wire''
     @ blocked_unless
         (Option.bind (pointer coverage [''wire_turn_coverage'', ''successful_turn_scoped_fresh'']) as_bool = Some True)
         ''relay_successful_turn_scoped_wire_not_fresh''"

end
