(* ===== verification/CoverageTheorems.thy ===== *)
theory CoverageTheorems
  imports IngestCoverage
begin

text \<open>
  What the coverage state promises: when exactly the Relay is ready, and that the reasons a cloud
  batch reports are reasons the quality ledger accepts.
\<close>

section \<open>The reasons of a batch\<close>

lemma classify_known: "classify_quality_error error \<in> set quality_reason_codes"
  by (simp add: classify_quality_error_def quality_reason_codes_def Let_def)

lemma bump_reason_sum:
  assumes "tsorted t" "sum_values t + unat n < 2 ^ 64"
  shows "sum_values (bump_reason (k, n) t) = sum_values t + unat n"
proof -
  let ?v = "case tget t k of None \<Rightarrow> 0 | Some n \<Rightarrow> n"
  have "unat ?v \<le> sum_values t" by (auto simp: tget_le_sum_values split: option.split)
  with assms(2) have "unat (saturating_add ?v n) = unat ?v + unat n"
    by (simp add: unat_saturating_add)
  with sum_values_tput [OF assms(1), of k "saturating_add ?v n"] show ?thesis
    by (simp add: bump_reason_def split: option.splits)
qed

lemma bump_reason_ok:
  "reasons_ok t \<Longrightarrow> is_quality_reason (fst r) \<Longrightarrow> reasons_ok (bump_reason r t)"
  by (simp add: bump_reason_def reasons_ok_tput)

lemma bump_errors:
  assumes "reasons_ok t" "sum_values t + length errors < 2 ^ 64"
  shows "reasons_ok (fold (\<lambda>error. bump_reason (classify_quality_error error, 1)) errors t)
    \<and> sum_values (fold (\<lambda>error. bump_reason (classify_quality_error error, 1)) errors t)
        = sum_values t + length errors"
  using assms
proof (induction errors arbitrary: t)
  case (Cons e es)
  let ?t = "bump_reason (classify_quality_error e, 1) t"
  have "is_quality_reason (classify_quality_error e)"
    using classify_known by (simp add: is_quality_reason_def)
  with Cons.prems(1) have ok: "reasons_ok ?t" by (simp add: bump_reason_ok)
  have s: "sum_values ?t = sum_values t + 1"
    using bump_reason_sum [of t 1] Cons.prems by (simp add: reasons_ok_def)
  with Cons.IH [OF ok] Cons.prems(2) show ?case by simp
qed simp

lemma quality_error_reasons_ok:
  assumes "unat (cs_unknown_events s) + length (cs_conversion_errors s) < 2 ^ 64"
  shows "reasons_ok (quality_error_reasons s)
    \<and> sum_values (quality_error_reasons s) = unat (cs_unknown_events s) + length (cs_conversion_errors s)"
proof -
  let ?t = "if 0 < cs_unknown_events s then [(''unsupported_event'', cs_unknown_events s)] else []"
  have "reasons_ok ?t"
    by (simp add: reasons_ok_def tsorted_def is_quality_reason_def quality_reason_codes_def)
  moreover have "sum_values ?t = unat (cs_unknown_events s)"
    by (cases "cs_unknown_events s = 0") (simp_all add: word_neq_0_conv)
  ultimately show ?thesis
    using bump_errors [of ?t "cs_conversion_errors s"] assms unfolding quality_error_reasons_def by simp
qed

lemma unat_conversion_count:
  "length (cs_conversion_errors s) < 2 ^ 64 \<Longrightarrow> unat (conversion_count s) = length (cs_conversion_errors s)"
  by (simp add: conversion_count_def u64_simps)

lemma quality_reasons_valid:
  assumes "unat (cs_unknown_events s) + length (cs_conversion_errors s) < 2 ^ 64"
  shows "tsorted (quality_error_reasons s)"
    and "batch_valid (cs_unknown_events s) (conversion_count s) (quality_error_reasons s)"
  using quality_error_reasons_ok [OF assms] assms
  by (simp_all add: batch_valid_def reasons_ok_def unat_conversion_count)

section \<open>Readiness\<close>

lemma jget_json_object:
  "jget (json_object kvs) k = map_of (rev kvs) k"
proof -
  have "tget (fold (\<lambda>kv. tput (fst kv) (snd kv)) kvs t) k = (tget t ++ map_of (rev kvs)) k" for t
  proof (induction kvs arbitrary: t)
    case (Cons kv kvs)
    then show ?case by (cases kv) (simp add: map_add_def split: option.splits)
  qed simp
  then show ?thesis by (simp add: json_object_def)
qed


lemma snapshot_reads:
  "get_str (snapshot_at now s) ''status'' = Some (coverage_status now s)"
  "get_bool (snapshot_at now s) ''required_sources_observed'' = Some (sources_observed s)"
  "get_bool (snapshot_at now s) ''required_sources_fresh'' = Some (required_sources_fresh now s)"
  "jget (snapshot_at now s) ''missing_sources'' = Some (Array (map String (missing_sources s)))"
  "jget (snapshot_at now s) ''stale_sources'' = Some (Array (map String (stale_sources now s)))"
  "get_u64 (snapshot_at now s) ''quality_errors'' = Some (co_quality_errors s)"
  "get_str (snapshot_at now s) ''quality_errors_scope'' = Some ''durable_relay_state''"
  "get_bool (snapshot_at now s) ''quality_reason_breakdown_complete''
     = Some (quality_reason_breakdown_complete (co_quality_errors s) [co_otlp_logs s, co_otlp_traces s, co_hooks s])"
  "get_bool (snapshot_at now s) ''turn_capture_ready'' = Some (turn_capture_ready now s)"
  "jget (snapshot_at now s) ''wire_turn_coverage'' = Some (wire_turn_value now s)"
  unfolding snapshot_at_def get_str_def get_bool_def get_u64_def jget_json_object by simp_all

lemma wire_turn_reads:
  "jget (wire_turn_value now s) ''successful_turn_scoped_captures''
     = Some (jnum (wt_successful_turn_scoped_captures (co_wire_turn_coverage s)))"
  "jget (wire_turn_value now s) ''successful_turn_scoped_fresh''
     = Some (Bool (is_fresh (successful_turn_scoped_age_ms now s)))"
  unfolding wire_turn_value_def Let_def jget_json_object by simp_all

text \<open>Whether \<open>t\<close> is at most \<open>w\<close> milliseconds before \<open>now\<close>.\<close>

definition within :: "nat \<Rightarrow> u64 \<Rightarrow> u64 \<Rightarrow> bool" where
  "within w now t \<longleftrightarrow> unat now \<le> unat t + w"

lemma age_within:
  "saturating_sub now t \<le> freshness_window_ms \<longleftrightarrow> within 300000 now t"
  "freshness_window_ms < saturating_sub now t \<longleftrightarrow> \<not> within 300000 now t"
  "hook_freshness_window_ms < saturating_sub now t \<longleftrightarrow> \<not> within 3600000 now t"
  by (auto simp: within_def freshness_window_ms_def hook_freshness_window_ms_def u64_le_iff u64_less_iff
      unat_saturating_sub)

text \<open>The states a running Relay goes through.\<close>

inductive coverage_reachable :: "coverage_state \<Rightarrow> bool" where
  cov_start: "coverage_with_quality_snapshot at c archive = Inr s \<Longrightarrow> coverage_reachable s"
| cov_wire: "coverage_reachable s \<Longrightarrow> coverage_reachable (observe_wire now at acknowledged s)"
| cov_cloud: "coverage_reachable s \<Longrightarrow>
    coverage_reachable (observe_cloud now at ep summary durable duplicates lifecycle_events tool_executions s)"
| cov_refresh: "coverage_reachable s \<Longrightarrow> apply_quality_snapshot c archive s = Inr s' \<Longrightarrow> coverage_reachable s'"

definition route_seen :: "route_coverage \<Rightarrow> bool" where
  "route_seen r \<longleftrightarrow> (0 < rt_requests r \<longrightarrow> rt_last_observed_millis r \<noteq> None)"

definition routes_seen :: "coverage_state \<Rightarrow> bool" where
  "routes_seen s \<longleftrightarrow> route_seen (co_wire s) \<and> (\<forall>ep. route_seen (cloud_route s ep))"

lemma cloud_route_set [simp]:
  "cloud_route (set_cloud_route ep r s) ep' = (if ep' = ep then r else cloud_route s ep')"
  "co_wire (set_cloud_route ep r s) = co_wire s"
  by (cases ep; cases ep'; simp)+

lemma cloud_route_update [simp]:
  "cloud_route (s\<lparr>co_wire := w\<rparr>) ep = cloud_route s ep"
  "cloud_route (s\<lparr>co_wire_turn_coverage := t\<rparr>) ep = cloud_route s ep"
  "cloud_route (s\<lparr>co_lifecycle_events := a\<rparr>) ep = cloud_route s ep"
  "cloud_route (s\<lparr>co_tool_executions := a\<rparr>) ep = cloud_route s ep"
  "cloud_route (s\<lparr>co_quality_errors := a\<rparr>) ep = cloud_route s ep"
  "cloud_route (s\<lparr>co_quality_errors_current_process := a\<rparr>) ep = cloud_route s ep"
  "cloud_route (s\<lparr>co_quality_errors_archived_total := a\<rparr>) ep = cloud_route s ep"
  "cloud_route (s\<lparr>co_quality_archive := b\<rparr>) ep = cloud_route s ep"
  by (cases ep; simp)+

lemma set_cloud_route_fields [simp]:
  "co_quality_errors (set_cloud_route ep r s) = co_quality_errors s"
  "co_quality_archive (set_cloud_route ep r s) = co_quality_archive s"
  "co_quality_errors_archived_total (set_cloud_route ep r s) = co_quality_errors_archived_total s"
  "co_wire_turn_coverage (set_cloud_route ep r s) = co_wire_turn_coverage s"
  by (cases ep; simp)+

lemma apply_quality_fields:
  assumes "apply_quality_snapshot c archive s = Inr s'"
  shows "checked_total c = Inr (co_quality_errors s')" "co_quality_archive s' = archive"
    "co_quality_errors_archived_total s' = (case archive of None \<Rightarrow> 0 | Some a \<Rightarrow> qa_source_quality_errors a)"
    "co_wire s' = co_wire s" "co_wire_turn_coverage s' = co_wire_turn_coverage s"
    "cloud_route s' ep = route_with_quality c ep (cloud_route s ep)"
proof -
  from assms obtain n where n: "checked_total c = Inr n"
    and s': "s' = fold (\<lambda>ep s. set_cloud_route ep (route_with_quality c ep (cloud_route s ep)) s)
      [OtlpLogs, OtlpTraces, CodexHook]
      (s\<lparr>co_quality_errors := n,
         co_quality_errors_archived_total := (case archive of None \<Rightarrow> 0 | Some a \<Rightarrow> qa_source_quality_errors a),
         co_quality_archive := archive\<rparr>)"
    by (auto simp: apply_quality_snapshot_def Let_def res_simps)
  show "checked_total c = Inr (co_quality_errors s')" "co_quality_archive s' = archive"
    "co_quality_errors_archived_total s' = (case archive of None \<Rightarrow> 0 | Some a \<Rightarrow> qa_source_quality_errors a)"
    "co_wire s' = co_wire s" "co_wire_turn_coverage s' = co_wire_turn_coverage s"
    using n by (simp_all add: s')
  show "cloud_route s' ep = route_with_quality c ep (cloud_route s ep)"
    by (cases ep) (simp_all add: s')
qed

lemma routes_seen_reachable: "coverage_reachable s \<Longrightarrow> routes_seen s"
proof (induction rule: coverage_reachable.induct)
  case (cov_start at c archive s)
  note f = apply_quality_fields [OF cov_start [unfolded coverage_with_quality_snapshot_def]]
  have "route_seen (route_with_quality c ep route_default)" for ep
    by (simp add: route_seen_def route_with_quality_def route_default_def)
  then have "route_seen (cloud_route s ep)" for ep
    using f(6) [of ep] by (cases ep) simp_all
  moreover have "route_seen (co_wire s)" by (simp add: f(4) route_seen_def route_default_def)
  ultimately show ?case by (simp add: routes_seen_def)
next
  case (cov_wire s now at acknowledged)
  then show ?case by (simp add: routes_seen_def observe_wire_def observe_route_def route_seen_def Let_def)
next
  case (cov_cloud s now at ep summary durable duplicates lifecycle_events tool_executions)
  then show ?case
    by (simp add: routes_seen_def observe_cloud_def observe_quality_def observe_route_def route_seen_def Let_def)
next
  case (cov_refresh s c archive s')
  note f = apply_quality_fields [OF cov_refresh.hyps(2)]
  from cov_refresh.IH show ?case
    by (simp add: routes_seen_def f(4,6) route_seen_def route_with_quality_def)
qed


text \<open>Readiness in terms of times and counters.\<close>

definition delivery_settled :: "relay_health \<Rightarrow> bool" where
  "delivery_settled h \<longleftrightarrow> rh_ok h \<and> rh_pending h = 0 \<and> rh_inflight h = 0 \<and> rh_failed h = 0 \<and> rh_conservation_ok h"

definition route_clean :: "route_coverage \<Rightarrow> bool" where
  "route_clean r \<longleftrightarrow> rt_quality_unknown_events r = 0 \<and> rt_quality_conversion_errors r = 0
     \<and> (\<forall>(k, n) \<in> set (rt_quality_reasons r). is_quality_reason k \<and> n = 0)"

text \<open>
  Every route was used; the two OTLP routes are at most five minutes behind the Wire and the
  hooks at most an hour; and when some of them was used in the last five minutes, so was the
  Wire, which is then at most five minutes behind the latest of them.
\<close>

definition sources_in_step :: "u64 \<Rightarrow> coverage_state \<Rightarrow> bool" where
  "sources_in_step now s \<longleftrightarrow>
     (\<forall>(name, r) \<in> set (all_routes s). 0 < rt_requests r)
     \<and> (\<exists>w l t h. rt_last_observed_millis (co_wire s) = Some w
          \<and> rt_last_observed_millis (co_otlp_logs s) = Some l
          \<and> rt_last_observed_millis (co_otlp_traces s) = Some t
          \<and> rt_last_observed_millis (co_hooks s) = Some h
          \<and> within 300000 w l \<and> within 300000 w t \<and> within 3600000 w h
          \<and> (within 300000 now (max l (max t h)) \<longrightarrow>
               within 300000 now w \<and> within 300000 (max l (max t h)) w))"

definition turn_seen :: "u64 \<Rightarrow> coverage_state \<Rightarrow> bool" where
  "turn_seen now s \<longleftrightarrow>
     0 < wt_successful_turn_scoped_captures (co_wire_turn_coverage s)
     \<and> (\<exists>t. wt_last_successful_observed_millis (co_wire_turn_coverage s) = Some t \<and> within 300000 now t)"

lemma blocked_unless_Nil [simp]: "blocked_unless ok r = [] \<longleftrightarrow> ok"
  by (simp add: blocked_unless_def)

lemma breakdown_zero:
  "try_fold breakdown_step routes 0 = Inr 0 \<longleftrightarrow> list_all route_clean routes"
proof -
  have clean: "breakdown_step r a = Inr b \<and> b = 0 \<longleftrightarrow> a = 0 \<and> b = 0 \<and> route_clean r" for r a b
  proof
    assume l: "breakdown_step r a = Inr b \<and> b = 0"
    then obtain n where n: "checked_add (rt_quality_unknown_events r) (rt_quality_conversion_errors r) = Some n"
      "checked_add a n = Some 0" "checked_sum (map snd (rt_quality_reasons r)) = Inr n"
      "list_all (\<lambda>r. is_quality_reason (fst r)) (rt_quality_reasons r)"
      by (auto simp: breakdown_step_def Let_def res_simps list_ex_iff list_all_iff split: if_splits)
    from n(2) have z: "a = 0" "n = 0" by (auto simp: checked_add_eq_Some word_unat_eq_iff)
    with n(1) have "rt_quality_unknown_events r = 0" "rt_quality_conversion_errors r = 0"
      by (auto simp: checked_add_eq_Some word_unat_eq_iff)
    moreover have "sum_values (rt_quality_reasons r) = 0"
      using n(3) z(2) by (auto simp: checked_sum_values word_unat_eq_iff u64_simps split: if_splits)
    then have "n = 0" if "(k, n) \<in> set (rt_quality_reasons r)" for k n
      using that by (force simp: sum_values_def word_unat_eq_iff)
    ultimately show "a = 0 \<and> b = 0 \<and> route_clean r"
      using l z n(4) by (auto simp: route_clean_def list_all_iff)
  next
    assume r: "a = 0 \<and> b = 0 \<and> route_clean r"
    then have "sum_values (rt_quality_reasons r) = 0" by (auto simp: route_clean_def sum_values_def)
    with r show "breakdown_step r a = Inr b \<and> b = 0"
      by (auto simp: breakdown_step_def route_clean_def checked_add_def checked_sum_values list_ex_iff)
  qed
  have "try_fold breakdown_step routes a = Inr 0 \<longleftrightarrow> a = 0 \<and> list_all route_clean routes" for a
  proof (induction routes arbitrary: a)
    case (Cons r routes)
    have "try_fold breakdown_step (r # routes) a = Inr 0
        \<longleftrightarrow> (\<exists>b. breakdown_step r a = Inr b \<and> b = 0 \<and> list_all route_clean routes)"
      by (simp add: res_simps Cons.IH)
    then show ?case using clean [of r a 0] by auto
  qed simp
  then show ?thesis by simp
qed

lemma sources_observed_iff: "sources_observed s \<longleftrightarrow> (\<forall>(name, r) \<in> set (all_routes s). 0 < rt_requests r)"
  by (auto simp: sources_observed_def all_routes_def required_routes_def)

lemma missing_sources_Nil: "missing_sources s = [] \<longleftrightarrow> sources_observed s"
  by (auto simp: missing_sources_def sources_observed_def all_routes_def required_routes_def word_neq_0_conv)

lemma status_complete:
  assumes "sources_observed s" "stale_sources now s = []"
  shows "coverage_status now s = ''complete''"
proof -
  from assms(2) have "\<not> wire_out_of_sync now s" by (simp add: stale_sources_def split: if_splits)
  with assms show ?thesis
    by (simp add: coverage_status_def coverage_degraded_def missing_sources_Nil required_sources_fresh_def)
qed

lemma stale_sources_Nil:
  assumes "rt_last_observed_millis (co_wire s) = Some w" "rt_last_observed_millis (co_otlp_logs s) = Some l"
    "rt_last_observed_millis (co_otlp_traces s) = Some t" "rt_last_observed_millis (co_hooks s) = Some h"
  shows "stale_sources now s = [] \<longleftrightarrow> within 300000 w l \<and> within 300000 w t \<and> within 3600000 w h
     \<and> (within 300000 now (max l (max t h)) \<longrightarrow>
          within 300000 now w \<and> within 300000 (max l (max t h)) w)"
proof -
  have m: "max h (max t l) = max l (max t h)" by (simp add: max.commute max.left_commute)
  have r: "latest_runtime_millis s = Some (max l (max t h))"
    by (simp add: latest_runtime_millis_def required_routes_def latest_def List.map_filter_simps assms m)
  have "wire_out_of_sync now s \<longleftrightarrow> within 300000 now (max l (max t h))
      \<and> (\<not> within 300000 now w \<or> \<not> within 300000 (max l (max t h)) w)"
    by (simp add: wire_out_of_sync_def runtime_active_def wire_active_def wire_lag_ms_def r assms
        is_fresh_def age_ms_def age_within)
  moreover have "stale_routes s = [] \<longleftrightarrow> within 300000 w l \<and> within 300000 w t \<and> within 3600000 w h"
    by (simp add: stale_routes_def required_routes_def assms age_within Let_def)
  ultimately show ?thesis by (auto simp: stale_sources_def)
qed

lemma sources_in_step_iff:
  assumes "routes_seen s"
  shows "sources_observed s \<and> stale_sources now s = [] \<longleftrightarrow> sources_in_step now s"
proof (cases "sources_observed s")
  case False
  then show ?thesis unfolding sources_in_step_def sources_observed_iff by blast
next
  case True
  with assms have "\<exists>w. rt_last_observed_millis (co_wire s) = Some w"
    and c: "\<And>ep. 0 < rt_requests (cloud_route s ep) \<Longrightarrow> \<exists>l. rt_last_observed_millis (cloud_route s ep) = Some l"
    by (auto simp: routes_seen_def route_seen_def sources_observed_def)
  then obtain w where w: "rt_last_observed_millis (co_wire s) = Some w" by blast
  from True c [of OtlpLogs] c [of OtlpTraces] c [of CodexHook] obtain l t h where
    o: "rt_last_observed_millis (co_otlp_logs s) = Some l" "rt_last_observed_millis (co_otlp_traces s) = Some t"
      "rt_last_observed_millis (co_hooks s) = Some h"
    by (auto simp: sources_observed_def)
  from stale_sources_Nil [OF w o] True w o show ?thesis
    by (simp add: sources_in_step_def sources_observed_iff)
qed

lemma readiness_reasons:
  assumes "routes_seen s"
  shows "readiness_blocking_reasons h (snapshot_at now s) = [] \<longleftrightarrow>
    delivery_settled h \<and> co_quality_errors s = 0
    \<and> list_all route_clean [co_otlp_logs s, co_otlp_traces s, co_hooks s]
    \<and> sources_in_step now s \<and> turn_seen now s"
proof -
  have seen: "turn_seen now s \<longleftrightarrow> 0 < wt_successful_turn_scoped_captures (co_wire_turn_coverage s)
      \<and> is_fresh (successful_turn_scoped_age_ms now s)"
    by (auto simp: turn_seen_def is_fresh_def successful_turn_scoped_age_ms_def age_ms_def age_within
        split: option.splits)
  have "readiness_blocking_reasons h (snapshot_at now s) = [] \<longleftrightarrow>
      delivery_settled h \<and> co_quality_errors s = 0
      \<and> quality_reason_breakdown_complete (co_quality_errors s) [co_otlp_logs s, co_otlp_traces s, co_hooks s]
      \<and> coverage_status now s = ''complete'' \<and> sources_observed s \<and> stale_sources now s = []
      \<and> required_sources_fresh now s \<and> missing_sources s = [] \<and> turn_capture_ready now s \<and> turn_seen now s"
    unfolding readiness_blocking_reasons_def delivery_settled_def
    by (simp add: snapshot_reads wire_turn_reads seen word_neq_0_conv conj_ac)
  also have "\<dots> \<longleftrightarrow> delivery_settled h \<and> co_quality_errors s = 0
      \<and> quality_reason_breakdown_complete 0 [co_otlp_logs s, co_otlp_traces s, co_hooks s]
      \<and> (sources_observed s \<and> stale_sources now s = []) \<and> turn_seen now s"
    using status_complete [of s now] seen
    by (auto simp: required_sources_fresh_def missing_sources_Nil turn_capture_ready_def)
  finally show ?thesis
    unfolding sources_in_step_iff [OF assms] quality_reason_breakdown_complete_def breakdown_zero .
qed


section \<open>Turn evidence\<close>

definition new_success :: "wire_evidence \<times> bool \<Rightarrow> bool" where
  "new_success e \<longleftrightarrow> we_turn_scoped (fst e) \<and> we_http_success (fst e) \<and> \<not> snd e"

lemma observe_evidence_last:
  "wt_last_successful_observed_millis (observe_evidence now at e t)
     = (if new_success e then Some now else wt_last_successful_observed_millis t)"
  by (cases e) (simp add: observe_evidence_def new_success_def Let_def)

lemma observe_evidences_last:
  "wt_last_successful_observed_millis (fold (observe_evidence now at) es t)
     = (if list_ex new_success es then Some now else wt_last_successful_observed_millis t)"
  by (induction es arbitrary: t) (simp_all add: observe_evidence_last)

lemma observe_wire_last:
  "wt_last_successful_observed_millis (co_wire_turn_coverage (observe_wire now at es s))
     = (if list_ex new_success es then Some now
        else wt_last_successful_observed_millis (co_wire_turn_coverage s))"
  by (auto simp: observe_wire_def Let_def observe_evidences_last)


section \<open>Properties\<close>

definition example_coverage :: coverage_state where
  "example_coverage =
     \<lparr>co_started_at = ''t0'', co_wire = route_default, co_wire_turn_coverage = turns_default,
      co_otlp_logs = route_default, co_otlp_traces = route_default, co_hooks = route_default,
      co_lifecycle_events = 0, co_tool_executions = 0, co_quality_errors = 0,
      co_quality_errors_current_process = 0, co_quality_errors_archived_total = 0,
      co_quality_archive = None\<rparr>"

lemma example_coverage_start:
  "coverage_with_quality_snapshot ''t0'' quality_default None = Inr example_coverage"
proof -
  have c: "checked_total quality_default = Inr 0" by (simp add: checked_total_eq)
  have r: "route_with_quality quality_default ep route_default = route_default" for ep
    by (cases ep) (simp_all add: route_with_quality_def route_default_def quality_default_def reasons_of.simps)
  show ?thesis
    by (simp add: coverage_with_quality_snapshot_def apply_quality_snapshot_def c r example_coverage_def Let_def)
qed

definition example_summary :: cloud_summary where
  "example_summary =
     \<lparr>cs_endpoint = ''otlp_logs'', cs_source_records = 1, cs_derived_captures = 1, cs_unknown_events = 0,
      cs_attributed_quality_errors = 0, cs_conversion_errors = []\<rparr>"

definition example_turn :: wire_evidence where
  "example_turn = \<lparr>we_turn_scoped = True, we_http_success = True, we_identity_conflict = False\<rparr>"

definition example_ready :: coverage_state where
  "example_ready =
     observe_wire 1000 ''t1'' [(example_turn, False)]
       (fold (\<lambda>ep. observe_cloud 1000 ''t1'' ep example_summary 1 0 0 0)
          [OtlpLogs, OtlpTraces, CodexHook] example_coverage)"

definition example_health :: relay_health where
  "example_health =
     \<lparr>rh_ok = True, rh_delivery_records = 1, rh_pending = 0, rh_inflight = 0, rh_delivered = 1,
      rh_conflicts = 0, rh_failed = 0, rh_delivery_attempts = 1, rh_delivery_retries = 0,
      rh_conservation_ok = True, rh_backlog_degraded = False\<rparr>"

lemma example_ready_reachable: "coverage_reachable example_ready"
  by (simp add: example_ready_def cov_wire cov_cloud cov_start [OF example_coverage_start])

text \<open>
  C16: The Relay reports ready exactly when its deliveries are settled, the durable ledger holds
  no quality error of any endpoint or reason, every route was used and they are in step with each
  other, and a new turn-scoped Capture with a 2xx answer arrived in the last five minutes.
\<close>

theorem readiness_exact:
  assumes "coverage_reachable s"
  shows "readiness_blocking_reasons h (snapshot_at now s) = [] \<longleftrightarrow>
    delivery_settled h \<and> co_quality_errors s = 0
    \<and> list_all route_clean [co_otlp_logs s, co_otlp_traces s, co_hooks s]
    \<and> sources_in_step now s \<and> turn_seen now s"
  by (rule readiness_reasons [OF routes_seen_reachable [OF assms]])

theorem readiness_exact_witness:
  "readiness_blocking_reasons example_health (snapshot_at 2000 example_ready) = []
   \<and> readiness_blocking_reasons example_health (snapshot_at 400000 example_ready) \<noteq> []"
  unfolding readiness_exact [OF example_ready_reachable]
  by (simp add: delivery_settled_def example_health_def route_clean_def sources_in_step_def turn_seen_def
      within_def example_ready_def observe_wire_def observe_cloud_def observe_route_def observe_quality_def
      observe_evidence_def quality_error_reasons_def conversion_count_def example_summary_def example_turn_def
      example_coverage_def route_default_def turns_default_def all_routes_def required_routes_def Let_def
      saturating_add_def)

text \<open>
  Only new evidence keeps a Relay ready: over any sequence of observed Wire batches, the time
  of the last successful turn is that of the last batch that held a Capture which was turn-scoped,
  answered with 2xx and not a duplicate; retrying durable Captures never moves it.
\<close>

theorem turn_evidence_is_new:
  "wt_last_successful_observed_millis
     (co_wire_turn_coverage (fold (\<lambda>(now, at, es). observe_wire now at es) batches s))
   = (case filter (\<lambda>(now, at, es). list_ex new_success es) batches of
        [] \<Rightarrow> wt_last_successful_observed_millis (co_wire_turn_coverage s)
      | fresh \<Rightarrow> Some (fst (last fresh)))"
proof (induction batches arbitrary: s)
  case (Cons b batches)
  then show ?case
    by (cases b) (auto simp: observe_wire_last split: list.splits)
qed simp

end
