(* ===== verification/WalWriter.thy ===== *)
theory WalWriter
  imports WalRecovery WalTheorems
begin

text \<open>
  The writer thread of a Capture store (\<open>store.rs\<close>, \<open>Writer::run\<close>): it receives commands from a
  queue, groups consecutive submissions into one commit, answers every command, and publishes
  its counters as the runtime state that \<open>health\<close> reads.

  The queue is the list of the commands it will receive, each with what only time decides: whether
  it arrives after the wait of a group that is being collected, and the clock of the command that
  opens a group.  The list ends when every sender is gone.
\<close>

section \<open>Runtime state\<close>

record runtime_state =
  rs_ready :: bool
  rs_captures :: nat
  rs_attempts :: nat
  rs_accepted_attempts :: nat
  rs_duplicate_attempts :: nat
  rs_conflict_attempts :: nat
  rs_rejected_attempts :: nat
  rs_active_segment_id :: nat
  rs_active_segment_bytes :: nat
  rs_active_segment_records :: nat
  rs_sealed_segments :: nat
  rs_sealed_bytes :: nat
  rs_recovery_records :: nat
  rs_last_commit_at :: "string option"
  rs_last_error :: "wal_error option"

record writer =
  wr_wal :: wal
  wr_state :: runtime_state

definition runtime_default :: runtime_state where
  "runtime_default =
     \<lparr>rs_ready = False, rs_captures = 0, rs_attempts = 0, rs_accepted_attempts = 0,
      rs_duplicate_attempts = 0, rs_conflict_attempts = 0, rs_rejected_attempts = 0,
      rs_active_segment_id = 0, rs_active_segment_bytes = 0, rs_active_segment_records = 0,
      rs_sealed_segments = 0, rs_sealed_bytes = 0, rs_recovery_records = 0,
      rs_last_commit_at = None, rs_last_error = None\<rparr>"

definition refresh_state :: "nat \<Rightarrow> wal_error option \<Rightarrow> wal \<Rightarrow> wal_error + runtime_state" where
  "refresh_state recovered error w =
     rbind (read_counters w) (\<lambda>c.
     let m = ac_metadata (w_active w)
     in Inr \<lparr>rs_ready = True, rs_captures = lc_captures c, rs_attempts = lc_attempts c,
             rs_accepted_attempts = lc_accepted c, rs_duplicate_attempts = lc_duplicate c,
             rs_conflict_attempts = lc_conflict c, rs_rejected_attempts = lc_rejected c,
             rs_active_segment_id = sm_segment_id m, rs_active_segment_bytes = sm_bytes m,
             rs_active_segment_records = sm_records m, rs_sealed_segments = lc_sealed_segments c,
             rs_sealed_bytes = lc_sealed_bytes c, rs_recovery_records = recovered,
             rs_last_commit_at = lc_last_commit_at c, rs_last_error = error\<rparr>)"

definition apply_runtime_counters :: "wal \<Rightarrow> ledger_counters \<Rightarrow> runtime_state \<Rightarrow> runtime_state" where
  "apply_runtime_counters w c s =
     (let m = ac_metadata (w_active w)
      in s\<lparr>rs_ready := True, rs_captures := lc_captures c, rs_attempts := lc_attempts c,
           rs_accepted_attempts := lc_accepted c, rs_duplicate_attempts := lc_duplicate c,
           rs_conflict_attempts := lc_conflict c, rs_rejected_attempts := lc_rejected c,
           rs_active_segment_id := sm_segment_id m, rs_active_segment_bytes := sm_bytes m,
           rs_active_segment_records := sm_records m, rs_sealed_segments := lc_sealed_segments c,
           rs_sealed_bytes := lc_sealed_bytes c, rs_last_commit_at := lc_last_commit_at c,
           rs_last_error := None\<rparr>)"

definition set_error :: "wal_error \<Rightarrow> runtime_state \<Rightarrow> runtime_state" where
  "set_error e s = s\<lparr>rs_ready := False, rs_last_error := Some e\<rparr>"

definition mark_stopped :: "writer \<Rightarrow> writer" where
  "mark_stopped s = s\<lparr>wr_state := (wr_state s)\<lparr>rs_ready := False\<rparr>\<rparr>"

text \<open>\<open>Writer::open\<close> up to the thread's start.\<close>

definition start_writer ::
  "(string \<Rightarrow> string) \<Rightarrow> (string \<Rightarrow> wal_error + capture_record) \<Rightarrow> string \<Rightarrow> disk \<Rightarrow> wal_error + writer" where
  "start_writer sha validate now d =
     rbind (open_writer sha validate now d) (\<lambda>r.
     rbind (refresh_state (snd r) None (fst r)) (\<lambda>state. Inr \<lparr>wr_wal = fst r, wr_state = state\<rparr>))"


section \<open>Commands and answers\<close>

datatype writer_command =
    Submit capture_record
  | Flush
  | Audit bool
  | ReadCapture string
  | ListCaptures
  | Shutdown

datatype writer_answer =
    SubmitAnswer "submit_error + submit_ack"
  | FlushAnswer "wal_error + segment_metadata"
  | AuditAnswer "wal_error + audit_report"
  | ReadAnswer "wal_error + string"
  | ListAnswer "locator list"
  | ShutdownAnswer "wal_error + unit"

record arrival =
  ar_late :: bool
  ar_now :: string
  ar_aged :: bool
  ar_command :: writer_command

text \<open>
  A failed commit answers every submission of the group with the same error and stops the thread.
\<close>

definition commit_batch ::
  "(string \<Rightarrow> string) \<Rightarrow> store_config \<Rightarrow> string \<Rightarrow> bool \<Rightarrow> capture_record list \<Rightarrow> writer
     \<Rightarrow> bool \<times> writer_answer list \<times> writer" where
  "commit_batch sha cfg now aged batch s =
     (case rbind (commit_batch_inner sha cfg now aged batch (wr_wal s)) (\<lambda>r.
             rbind (read_counters (fst r)) (\<lambda>c. Inr (r, c))) of
        Inr ((w, results), c) \<Rightarrow>
          (True, map SubmitAnswer results,
           s\<lparr>wr_wal := w, wr_state := apply_runtime_counters w c (wr_state s)\<rparr>)
      | Inl e \<Rightarrow>
          (False, map (\<lambda>_. SubmitAnswer (Inl Unavailable)) batch, s\<lparr>wr_state := set_error e (wr_state s)\<rparr>))"

definition flush_writer :: "(string \<Rightarrow> string) \<Rightarrow> string \<Rightarrow> writer \<Rightarrow> (wal_error + segment_metadata) \<times> writer" where
  "flush_writer sha now s =
     (if sm_records (ac_metadata (w_active (wr_wal s))) = 0
      then (Inr (ac_metadata (w_active (wr_wal s))), s)
      else case rbind (seal_and_rotate sha now (wr_wal s)) (\<lambda>r.
             rbind (refresh_state (rs_recovery_records (wr_state s)) None (fst r)) (\<lambda>st. Inr (r, st))) of
        Inl e \<Rightarrow> (Inl e, s)
      | Inr ((w, m), st) \<Rightarrow> (Inr m, s\<lparr>wr_wal := w, wr_state := st\<rparr>))"

definition shutdown_writer :: "(string \<Rightarrow> string) \<Rightarrow> string \<Rightarrow> writer \<Rightarrow> (wal_error + unit) \<times> writer" where
  "shutdown_writer sha now s =
     (case shutdown_active sha now (wr_wal s) of
        Inl e \<Rightarrow> (Inl e, mark_stopped s)
      | Inr w \<Rightarrow> (Inr (), mark_stopped (s\<lparr>wr_wal := w\<rparr>)))"

text \<open>\<open>integrity\<close> is what the database's own check answers.\<close>

definition handle_command ::
  "(string \<Rightarrow> string) \<Rightarrow> bool \<Rightarrow> string \<Rightarrow> writer_command \<Rightarrow> writer \<Rightarrow> writer_answer \<times> writer" where
  "handle_command sha integrity now c s =
     (case c of
        Flush \<Rightarrow> (case flush_writer sha now s of (r, s) \<Rightarrow> (FlushAnswer r, s))
      | Shutdown \<Rightarrow> (case shutdown_writer sha now s of (r, s) \<Rightarrow> (ShutdownAnswer r, s))
      | Audit verify \<Rightarrow> (AuditAnswer (audit_database sha integrity verify (disk_of (wr_wal s))), s)
      | ReadCapture i \<Rightarrow> (ReadAnswer (read_capture sha i (wr_wal s)), s)
      | ListCaptures \<Rightarrow> (ListAnswer (list_captures (wr_wal s)), s)
      | Submit r \<Rightarrow> (SubmitAnswer (Inl Unavailable), s))"


section \<open>The loop\<close>

text \<open>
  Collecting a group: submissions that arrive in time while both limits leave room.  Any other
  command ends the group; the loop commits the group and then handles that command, which is what
  the arms of the inner loop of the source do.
\<close>

fun collect :: "store_config \<Rightarrow> capture_record list \<Rightarrow> nat \<Rightarrow> arrival list \<Rightarrow> capture_record list \<times> arrival list" where
  "collect cfg batch bytes [] = (batch, [])"
| "collect cfg batch bytes (a # as) =
     (if length batch < batch_records cfg \<and> bytes < batch_bytes cfg \<and> \<not> ar_late a
      then case ar_command a of
          Submit r \<Rightarrow> collect cfg (batch @ [r]) (sat (bytes + length (cr_canonical r))) as
        | _ \<Rightarrow> (batch, a # as)
      else (batch, a # as))"

lemma collect_shorter: "length (snd (collect cfg batch bytes as)) \<le> length as"
proof (induction cfg batch bytes as rule: collect.induct)
  case (2 cfg batch bytes a as)
  then show ?case by (cases "ar_command a") (auto simp: le_Suc_eq)
qed simp

text \<open>
  The loop over what the queue holds, and whether the thread still waits for more afterwards.
\<close>

function writer_loop ::
  "(string \<Rightarrow> string) \<Rightarrow> store_config \<Rightarrow> bool \<Rightarrow> arrival list \<Rightarrow> writer \<Rightarrow> writer_answer list \<times> bool \<times> writer" where
  "writer_loop sha cfg integrity [] s = ([], True, s)"
| "writer_loop sha cfg integrity (a # as) s =
     (case ar_command a of
        Submit r \<Rightarrow>
          (case collect cfg [r] (length (cr_canonical r)) as of (batch, rest) \<Rightarrow>
           case commit_batch sha cfg (ar_now a) (ar_aged a) batch s of (ok, answers, s) \<Rightarrow>
             if ok
             then case writer_loop sha cfg integrity rest s of (out, e) \<Rightarrow> (answers @ out, e)
             else (answers, False, mark_stopped s))
      | Shutdown \<Rightarrow>
          (case handle_command sha integrity (ar_now a) Shutdown s of (answer, s) \<Rightarrow> ([answer], False, s))
      | c \<Rightarrow>
          (case handle_command sha integrity (ar_now a) c s of (answer, s) \<Rightarrow>
           case writer_loop sha cfg integrity as s of (out, e) \<Rightarrow> (answer # out, e)))"
  by pat_completeness auto
termination
proof (relation "measure (\<lambda>(sha, cfg, integrity, as, s). length as)")
  fix sha :: "string \<Rightarrow> string" and cfg :: store_config and integrity :: bool
    and a :: arrival and as rest :: "arrival list" and s s' :: writer and r :: capture_record
    and batch :: "capture_record list" and x p answers out ok
  assume "(batch, rest) = collect cfg [r] (length (cr_canonical r)) as"
  then have "length rest \<le> length as"
    using collect_shorter [of cfg "[r]" "length (cr_canonical r)" as] by (metis snd_conv)
  then show "((sha, cfg, integrity, rest, s'), sha, cfg, integrity, a # as, s)
      \<in> measure (\<lambda>(sha, cfg, integrity, as, s). length as)"
    by simp
qed auto

text \<open>The whole run: when every sender is gone the active segment is sealed.\<close>

definition writer_run ::
  "(string \<Rightarrow> string) \<Rightarrow> store_config \<Rightarrow> bool \<Rightarrow> string \<Rightarrow> arrival list \<Rightarrow> writer \<Rightarrow> writer_answer list \<times> writer" where
  "writer_run sha cfg integrity stop_at as s =
     (case writer_loop sha cfg integrity as s of (out, waiting, s) \<Rightarrow>
        (out, if waiting then snd (shutdown_writer sha stop_at s) else s))"

end
