(* ===== verification/WriterTheorems.thy ===== *)
theory WriterTheorems
  imports WalWriter
begin

text \<open>
  What the writer thread promises: however submissions are grouped, its answers are those of
  handling the commands one at a time against the abstract store, and the counters it publishes
  are the durable ones.
\<close>

section \<open>The specification\<close>

text \<open>The abstract store is the map from Capture ids to payload hashes.\<close>

definition spec_next :: "writer_command \<Rightarrow> (string \<rightharpoonup> string) \<Rightarrow> (string \<rightharpoonup> string)" where
  "spec_next c m = (case c of Submit r \<Rightarrow> fst (spec_submit r m) | _ \<Rightarrow> m)"

fun agrees :: "(string \<Rightarrow> string) \<Rightarrow> writer_command \<Rightarrow> (string \<rightharpoonup> string) \<Rightarrow> writer_answer \<Rightarrow> bool" where
  "agrees sha (Submit r) m (SubmitAnswer x) \<longleftrightarrow> x \<noteq> Inl Unavailable \<and> response x = snd (spec_submit r m)"
| "agrees sha Flush m (FlushAnswer x) \<longleftrightarrow> (\<exists>metadata. x = Inr metadata)"
| "agrees sha (Audit verify) m (AuditAnswer x) \<longleftrightarrow> (\<forall>report. x = Inr report \<longrightarrow> ar_captures report = card (dom m))"
| "agrees sha (ReadCapture i) m (ReadAnswer x) \<longleftrightarrow>
     (case m i of None \<Rightarrow> x = Inl (CaptureNotFound i) | Some h \<Rightarrow> \<exists>body. x = Inr body \<and> sha body = h)"
| "agrees sha ListCaptures m (ListAnswer ls) \<longleftrightarrow>
     distinct (map lo_capture_id ls) \<and> map_of (map (\<lambda>l. (lo_capture_id l, lo_raw_sha256 l)) ls) = m"
| "agrees sha Shutdown m (ShutdownAnswer x) \<longleftrightarrow> x = Inr ()"
| "agrees sha _ m _ \<longleftrightarrow> False"

text \<open>One answer per command, in order, up to the shutdown.\<close>

fun served :: "(string \<Rightarrow> string) \<Rightarrow> writer_command list \<Rightarrow> (string \<rightharpoonup> string) \<Rightarrow> writer_answer list \<Rightarrow> bool" where
  "served sha [] m out \<longleftrightarrow> out = []"
| "served sha (c # cs) m [] \<longleftrightarrow> False"
| "served sha (c # cs) m (a # out) \<longleftrightarrow>
     agrees sha c m a \<and> (if c = Shutdown then out = [] else served sha cs (spec_next c m) out)"

fun spec_final :: "writer_command list \<Rightarrow> (string \<rightharpoonup> string) \<Rightarrow> (string \<rightharpoonup> string)" where
  "spec_final [] m = m"
| "spec_final (c # cs) m = (if c = Shutdown then m else spec_final cs (spec_next c m))"

definition submissions :: "writer_command list \<Rightarrow> capture_record list" where
  "submissions cs = List.map_filter (\<lambda>c. case c of Submit r \<Rightarrow> Some r | _ \<Rightarrow> None) cs"

lemma submissions_simps [simp]:
  "submissions [] = []"
  "submissions (c # cs) = (case c of Submit r \<Rightarrow> r # submissions cs | _ \<Rightarrow> submissions cs)"
  "submissions (map Submit rs @ cs) = rs @ submissions cs"
  "submissions (map Submit rs) = rs"
proof -
  show n: "submissions [] = []"
    and c: "submissions (c # cs) = (case c of Submit r \<Rightarrow> r # submissions cs | _ \<Rightarrow> submissions cs)" for c cs
    by (simp_all add: submissions_def List.map_filter_simps split: writer_command.split)
  show s: "submissions (map Submit rs @ cs) = rs @ submissions cs" for cs
    by (induction rs) (simp_all add: c)
  show "submissions (map Submit rs) = rs" using s [of "[]"] by (simp add: n)
qed

lemma hashed_append [simp]: "hashed sha (rs @ ss) \<longleftrightarrow> hashed sha rs \<and> hashed sha ss"
  by (simp add: hashed_def)

lemma no_alias_append: "no_alias (rs @ ss) \<Longrightarrow> no_alias rs \<and> no_alias ss"
  by (auto simp: no_alias_def list_all_iff)

lemma no_alias_tail: "no_alias (r # rs) \<Longrightarrow> no_alias rs"
  using no_alias_append [of "[r]" rs] by simp

lemma served_submits:
  assumes "spec_run batch m = (m', map response rs)" "Inl Unavailable \<notin> set rs"
  shows "served sha (map Submit batch @ cs) m (map SubmitAnswer rs @ out) \<longleftrightarrow> served sha cs m' out"
    and "spec_final (map Submit batch @ cs) m = spec_final cs m'"
  using assms
proof (induction batch arbitrary: m rs)
  case (Cons r batch)
  case 1
  then obtain x xs where "rs = x # xs" by (cases rs) (auto split: prod.splits)
  with 1 Cons.IH(1) show ?case by (auto simp: spec_next_def split: prod.splits)
next
  case (Cons r batch)
  case 2
  then obtain x xs where "rs = x # xs" by (cases rs) (auto split: prod.splits)
  with 2 Cons.IH(2) show ?case by (auto simp: spec_next_def split: prod.splits)
qed simp_all


section \<open>The published counters\<close>

definition published :: "wal \<Rightarrow> runtime_state \<Rightarrow> bool" where
  "published w s \<longleftrightarrow> (\<exists>c. w_counters w = Some c \<and> rs_ready s \<and> rs_last_error s = None
     \<and> rs_captures s = lc_captures c \<and> rs_attempts s = lc_attempts c
     \<and> rs_accepted_attempts s = lc_accepted c \<and> rs_duplicate_attempts s = lc_duplicate c
     \<and> rs_conflict_attempts s = lc_conflict c \<and> rs_rejected_attempts s = lc_rejected c
     \<and> rs_sealed_segments s = lc_sealed_segments c \<and> rs_sealed_bytes s = lc_sealed_bytes c
     \<and> rs_active_segment_id s = sm_segment_id (ac_metadata (w_active w))
     \<and> rs_active_segment_bytes s = sm_bytes (ac_metadata (w_active w))
     \<and> rs_active_segment_records s = sm_records (ac_metadata (w_active w)))"

definition writer_ok :: "(string \<Rightarrow> string) \<Rightarrow> writer \<Rightarrow> bool" where
  "writer_ok sha s \<longleftrightarrow> wal_ok sha (wr_wal s) \<and> published (wr_wal s) (wr_state s)"

lemma wal_ok_counters: "wal_ok sha w \<Longrightarrow> \<exists>c. w_counters w = Some c"
  by (auto simp: wal_ok_def counted_def)

lemma refresh_published:
  "wal_ok sha w \<Longrightarrow> \<exists>st. refresh_state n None w = Inr st \<and> published w st"
  by (auto dest!: wal_ok_counters simp: refresh_state_def read_counters_def Let_def published_def)

lemma apply_published: "w_counters w = Some c \<Longrightarrow> published w (apply_runtime_counters w c s)"
  by (simp add: published_def apply_runtime_counters_def Let_def)


section \<open>Commands\<close>

lemma commit_batch_ok:
  assumes ok: "writer_ok sha s" and h: "hashed sha batch" "batch \<noteq> []" "no_alias batch"
  shows "\<exists>rs s'. commit_batch sha cfg now aged batch s = (True, map SubmitAnswer rs, s') \<and> writer_ok sha s'
    \<and> spec_run batch (abs_store (wr_wal s)) = (abs_store (wr_wal s'), map response rs)
    \<and> Inl Unavailable \<notin> set rs"
proof -
  from ok have w: "wal_ok sha (wr_wal s)" by (simp add: writer_ok_def)
  from batch_runs [OF w h(1,2), of cfg now aged] obtain ps ds w' where
    b: "batch_run sha cfg now aged batch (wr_wal s) ps ds w'" by blast
  let ?rs = "map (batch_result ps ds) [0..<length batch]"
  from b have c: "commit_batch_inner sha cfg now aged batch (wr_wal s) = Inr (w', ?rs)" "wal_ok sha w'"
    by (simp_all add: batch_run_def Let_def)
  obtain k where k: "w_counters w' = Some k" using wal_ok_counters [OF c(2)] by blast
  have "Inl Unavailable \<notin> set ?rs" by (auto simp: batch_result_def split: option.splits)
  moreover let ?s = "s\<lparr>wr_wal := w', wr_state := apply_runtime_counters w' k (wr_state s)\<rparr>"
  have "commit_batch sha cfg now aged batch s = (True, map SubmitAnswer ?rs, ?s)"
    unfolding commit_batch_def c(1) by (simp add: read_counters_def k)
  moreover have "writer_ok sha ?s" using c(2) apply_published [OF k] by (simp add: writer_ok_def)
  moreover have "spec_run batch (abs_store (wr_wal s)) = (abs_store (wr_wal ?s), map response ?rs)"
    using commit_refines [OF w h c(1)] by simp
  ultimately show ?thesis by (intro exI [of _ ?rs] exI [of _ ?s] conjI)
qed

lemma flush_writer_ok:
  assumes "writer_ok sha s"
  shows "\<exists>m s'. flush_writer sha now s = (Inr m, s') \<and> writer_ok sha s' \<and> abs_store (wr_wal s') = abs_store (wr_wal s)"
proof (cases "sm_records (ac_metadata (w_active (wr_wal s))) = 0")
  case True
  with assms show ?thesis by (simp add: flush_writer_def)
next
  case False
  from assms have "wal_ok sha (wr_wal s)" by (simp add: writer_ok_def)
  from seal_and_rotate_ok [OF this, of now] obtain w m where
    r: "seal_and_rotate sha now (wr_wal s) = Inr (w, m)" "wal_ok sha w" "w_captures w = w_captures (wr_wal s)"
    by auto
  from refresh_published [OF r(2), of "rs_recovery_records (wr_state s)"] obtain st where
    "refresh_state (rs_recovery_records (wr_state s)) None w = Inr st" "published w st" by blast
  with r False show ?thesis by (simp add: flush_writer_def writer_ok_def abs_store_def)
qed

lemma shutdown_writer_ok:
  assumes "writer_ok sha s"
  shows "\<exists>s'. shutdown_writer sha now s = (Inr (), s') \<and> abs_store (wr_wal s') = abs_store (wr_wal s)"
proof (cases "sm_records (ac_metadata (w_active (wr_wal s))) = 0")
  case True
  with assms show ?thesis
    by (simp add: shutdown_writer_def shutdown_active_def mark_stopped_def abs_store_def)
next
  case False
  from assms have "wal_ok sha (wr_wal s)" by (simp add: writer_ok_def)
  with False obtain v where "rotate_active sha now (wr_wal s) = Inr v"
    using wal_ok_rotate [of sha "wr_wal s" now] by auto
  then obtain q where q: "seal_active sha now (wr_wal s) = Inr q" by (auto simp: rotate_active_def res_simps)
  then have "w_captures (fst q) = w_captures (wr_wal s)"
    by (auto simp: seal_active_def Let_def res_simps split: if_splits)
  with q False show ?thesis
    by (simp add: shutdown_writer_def shutdown_active_def mark_stopped_def abs_store_def)
qed

lemma audit_counts:
  assumes "audit_database sha integrity verify d = Inr report"
  shows "ar_captures report = length (d_captures d)"
  using assms by (auto simp: audit_database_def Let_def res_simps split: prod.splits)

lemma abs_store_dom: "tsorted (w_captures w) \<Longrightarrow> card (dom (abs_store w)) = length (w_captures w)"
proof -
  assume s: "tsorted (w_captures w)"
  have "dom (abs_store w) = fst ` set (w_captures w)"
    by (auto simp: abs_store_def dom_map_of_conv_image_fst [symmetric])
  with tsorted_distinct [OF s] show ?thesis by (simp add: distinct_card flip: set_map)
qed

lemma list_captures_agrees:
  assumes "wal_ok sha w"
  shows "agrees sha ListCaptures (abs_store w) (ListAnswer (list_captures w))"
proof -
  from assms have s: "tsorted (w_captures w)" and k: "\<forall>k l. tget (w_captures w) k = Some l \<longrightarrow> lo_capture_id l = k"
    by (simp_all add: wal_ok_def ledger_ok_def)
  have "lo_capture_id (snd r) = fst r" if "r \<in> set (w_captures w)" for r
    using k that tsorted_distinct [OF s] by (simp add: map_of_is_SomeI)
  then have e: "map lo_capture_id (list_captures w) = map fst (w_captures w)"
    "map (\<lambda>l. (lo_capture_id l, lo_raw_sha256 l)) (list_captures w)
       = map (\<lambda>r. (fst r, lo_raw_sha256 (snd r))) (w_captures w)"
    by (simp_all add: list_captures_def)
  have "map_of (map (\<lambda>r. (fst r, lo_raw_sha256 (snd r))) t) = (\<lambda>k. map_option lo_raw_sha256 (tget t k))"
    for t :: "(string, locator) table"
    by (induction t) auto
  with e tsorted_distinct [OF s] show ?thesis by (simp add: abs_store_def)
qed

lemma read_capture_agrees:
  assumes "wal_ok sha w"
  shows "agrees sha (ReadCapture i) (abs_store w) (ReadAnswer (read_capture sha i w))"
proof (cases "tget (w_captures w) i")
  case None
  then show ?thesis by (simp add: abs_store_def read_capture_def)
next
  case (Some l)
  from wal_ok_located [OF assms Some] obtain c where
    "wal_slice w l = Some (c @ [CHR 0x0A])" "sha c = lo_raw_sha256 l" by (auto simp: located_def)
  with read_capture_slice [OF Some] Some show ?thesis by (simp add: abs_store_def)
qed

lemma handle_command_ok:
  assumes ok: "writer_ok sha s" and c: "c \<noteq> Shutdown" "\<And>r. c \<noteq> Submit r"
  shows "\<exists>a s'. handle_command sha integrity now c s = (a, s') \<and> writer_ok sha s'
    \<and> agrees sha c (abs_store (wr_wal s)) a \<and> abs_store (wr_wal s') = abs_store (wr_wal s)"
proof -
  from ok have w: "wal_ok sha (wr_wal s)" by (simp add: writer_ok_def)
  then have t: "tsorted (w_captures (wr_wal s))" by (simp add: wal_ok_def ledger_ok_def)
  show ?thesis
  proof (cases c)
    case Flush
    with flush_writer_ok [OF ok, of now] show ?thesis by (auto simp: handle_command_def)
  next
    case (Audit verify)
    then show ?thesis
      using audit_counts [of sha integrity verify "disk_of (wr_wal s)"] abs_store_dom [OF t] ok
      by (auto simp: handle_command_def disk_of_def)
  next
    case (ReadCapture i)
    with read_capture_agrees [OF w, of i] ok show ?thesis by (simp add: handle_command_def)
  next
    case ListCaptures
    with list_captures_agrees [OF w] ok show ?thesis by (simp add: handle_command_def)
  qed (use c in auto)
qed

lemma collect_spec:
  "collect cfg batch bytes as = (b, rest) \<Longrightarrow>
     \<exists>more. b = batch @ more \<and> map ar_command as = map Submit more @ map ar_command rest"
proof (induction cfg batch bytes as arbitrary: b rest rule: collect.induct)
  case (2 cfg batch bytes a as)
  show ?case
  proof (cases "length batch < batch_records cfg \<and> bytes < batch_bytes cfg \<and> \<not> ar_late a \<and> (\<exists>r. ar_command a = Submit r)")
    case True
    then obtain r where r: "ar_command a = Submit r" by blast
    with True 2 obtain more where "b = (batch @ [r]) @ more" "map ar_command as = map Submit more @ map ar_command rest"
      by fastforce
    with r show ?thesis by (intro exI [of _ "r # more"]) simp
  next
    case False
    with "2.prems" have "b = batch" "rest = a # as"
      by (auto split: if_splits writer_command.splits)
    then show ?thesis by simp
  qed
qed simp


section \<open>The loop\<close>

declare writer_loop.simps [simp del]

lemma writer_loop_submit:
  "ar_command a = Submit r \<Longrightarrow> collect cfg [r] (length (cr_canonical r)) as = (batch, rest) \<Longrightarrow>
     commit_batch sha cfg (ar_now a) (ar_aged a) batch s = (True, answers, u) \<Longrightarrow>
     writer_loop sha cfg integrity (a # as) s
       = (answers @ fst (writer_loop sha cfg integrity rest u), snd (writer_loop sha cfg integrity rest u))"
  by (simp add: writer_loop.simps split: prod.split)

lemma writer_loop_other:
  assumes "ar_command a \<noteq> Shutdown" "\<And>r. ar_command a \<noteq> Submit r"
    and "handle_command sha integrity (ar_now a) (ar_command a) s = (answer, u)"
  shows "writer_loop sha cfg integrity (a # as) s
    = (answer # fst (writer_loop sha cfg integrity as u), snd (writer_loop sha cfg integrity as u))"
  using assms by (cases "ar_command a") (simp_all add: writer_loop.simps split: prod.split, blast)

lemma writer_loop_shutdown:
  "ar_command a = Shutdown \<Longrightarrow> shutdown_writer sha (ar_now a) s = (x, u) \<Longrightarrow>
     writer_loop sha cfg integrity (a # as) s = ([ShutdownAnswer x], False, u)"
  by (simp add: writer_loop.simps handle_command_def)

definition loop_ok ::
  "(string \<Rightarrow> string) \<Rightarrow> writer_command list \<Rightarrow> (string \<rightharpoonup> string) \<Rightarrow> writer_answer list \<times> bool \<times> writer \<Rightarrow> bool" where
  "loop_ok sha cs m e \<longleftrightarrow>
     (case e of (out, waiting, s) \<Rightarrow>
        served sha cs m out \<and> abs_store (wr_wal s) = spec_final cs m
        \<and> (waiting \<longleftrightarrow> Shutdown \<notin> set cs) \<and> (waiting \<longrightarrow> writer_ok sha s))"

lemma loop_ok_submits:
  assumes "spec_run batch m = (m', map response rs)" "Inl Unavailable \<notin> set rs" "loop_ok sha cs m' e"
  shows "loop_ok sha (map Submit batch @ cs) m (map SubmitAnswer rs @ fst e, snd e)"
  using assms(3) by (auto simp: loop_ok_def served_submits [OF assms(1,2)] split: prod.splits)

lemma loop_ok_other:
  assumes "c \<noteq> Shutdown" "\<And>r. c \<noteq> Submit r" "agrees sha c m x" "loop_ok sha cs m e"
  shows "loop_ok sha (c # cs) m (x # fst e, snd e)"
proof -
  have "spec_next c m = m" using assms(2) by (cases c) (simp_all add: spec_next_def, blast)
  with assms(1,3,4) show ?thesis by (simp add: loop_ok_def split: prod.splits)
qed

lemma writer_loop_ok:
  assumes "writer_ok sha s" "hashed sha (submissions (map ar_command as))" "no_alias (submissions (map ar_command as))"
  shows "loop_ok sha (map ar_command as) (abs_store (wr_wal s)) (writer_loop sha cfg integrity as s)"
  using assms
proof (induction "length as" arbitrary: as s rule: less_induct)
  case less
  show ?case
  proof (cases as)
    case Nil
    with less.prems show ?thesis by (simp add: loop_ok_def writer_loop.simps)
  next
    case (Cons a bs)
    consider (submit) r where "ar_command a = Submit r" | (shutdown) "ar_command a = Shutdown"
      | (other) "ar_command a \<noteq> Shutdown" "\<And>r. ar_command a \<noteq> Submit r"
      by (cases "ar_command a") auto
    then show ?thesis
    proof cases
      case submit
      obtain batch rest where c: "collect cfg [r] (length (cr_canonical r)) bs = (batch, rest)" by fastforce
      from collect_spec [OF c] obtain more where
        more: "batch = r # more" "map ar_command bs = map Submit more @ map ar_command rest" by auto
      have cs: "map ar_command as = map Submit batch @ map ar_command rest" using Cons submit more by simp
      note p = less.prems(2,3) [unfolded cs submissions_simps(3) hashed_append]
      have "batch \<noteq> []" by (simp add: more(1))
      from commit_batch_ok [OF less.prems(1) p(1) [THEN conjunct1] this no_alias_append [OF p(2), THEN conjunct1],
          of cfg "ar_now a" "ar_aged a"]
      obtain rs u where u: "commit_batch sha cfg (ar_now a) (ar_aged a) batch s = (True, map SubmitAnswer rs, u)"
        "writer_ok sha u" "spec_run batch (abs_store (wr_wal s)) = (abs_store (wr_wal u), map response rs)"
        "Inl Unavailable \<notin> set rs"
        by (elim exE conjE)
      have "length rest < length as"
        using collect_shorter [of cfg "[r]" "length (cr_canonical r)" bs] c Cons by simp
      from less.hyps [OF this u(2) p(1) [THEN conjunct2] no_alias_append [OF p(2), THEN conjunct2]]
      show ?thesis unfolding cs unfolding Cons writer_loop_submit [OF submit c u(1)] by (rule loop_ok_submits [OF u(3,4)])
    next
      case shutdown
      obtain u where u: "shutdown_writer sha (ar_now a) s = (Inr (), u)" "abs_store (wr_wal u) = abs_store (wr_wal s)"
        using shutdown_writer_ok [OF less.prems(1)] by blast
      show ?thesis unfolding Cons writer_loop_shutdown [OF shutdown u(1)] by (simp add: loop_ok_def shutdown u(2))
    next
      case other
      from handle_command_ok [OF less.prems(1) other, of integrity "ar_now a"] obtain x u where
        u: "handle_command sha integrity (ar_now a) (ar_command a) s = (x, u)" "writer_ok sha u"
          "agrees sha (ar_command a) (abs_store (wr_wal s)) x" "abs_store (wr_wal u) = abs_store (wr_wal s)" by blast
      have "submissions (map ar_command as) = submissions (map ar_command bs)"
        using other Cons by (cases "ar_command a") (simp_all, blast)
      with less.prems have "hashed sha (submissions (map ar_command bs))" "no_alias (submissions (map ar_command bs))"
        by simp_all
      from less.hyps [OF _ u(2) this] Cons have "loop_ok sha (map ar_command bs) (abs_store (wr_wal s))
          (writer_loop sha cfg integrity bs u)" by (simp add: u(4))
      then show ?thesis
        unfolding Cons list.map writer_loop_other [OF other u(1)] by (rule loop_ok_other [OF other u(3)])
    qed
  qed
qed

lemma writer_run_serves:
  assumes "writer_ok sha s" "hashed sha (submissions (map ar_command as))" "no_alias (submissions (map ar_command as))"
    and "writer_run sha cfg integrity stop_at as s = (out, s')"
  shows "served sha (map ar_command as) (abs_store (wr_wal s)) out
    \<and> abs_store (wr_wal s') = spec_final (map ar_command as) (abs_store (wr_wal s))"
proof -
  obtain w t where l: "writer_loop sha cfg integrity as s = (out, w, t)"
    and s': "s' = (if w then snd (shutdown_writer sha stop_at t) else t)"
    using assms(4) by (auto simp: writer_run_def split: prod.splits)
  from writer_loop_ok [OF assms(1-3), of cfg integrity] l
  have "served sha (map ar_command as) (abs_store (wr_wal s)) out"
    "abs_store (wr_wal t) = spec_final (map ar_command as) (abs_store (wr_wal s))" "w \<longrightarrow> writer_ok sha t"
    by (simp_all add: loop_ok_def)
  moreover have "abs_store (wr_wal s') = abs_store (wr_wal t)"
    using calculation(3) shutdown_writer_ok [of sha t stop_at] by (auto simp: s')
  ultimately show ?thesis by simp
qed

section \<open>Properties\<close>

definition example_writer :: writer where
  "example_writer =
     \<lparr>wr_wal = empty_wal ''t0'',
      wr_state = apply_runtime_counters (empty_wal ''t0'') zero_counters runtime_default\<rparr>"

lemma example_writer_ok: "writer_ok sha example_writer"
proof -
  have "w_counters (empty_wal ''t0'') = Some zero_counters"
    by (simp add: empty_wal_def blank_wal_def)
  then show ?thesis
    by (simp add: writer_ok_def example_writer_def wal_ok_empty apply_published)
qed

definition example_arrival :: "bool \<Rightarrow> writer_command \<Rightarrow> arrival" where
  "example_arrival late c = \<lparr>ar_late = late, ar_now = ''t1'', ar_aged = False, ar_command = c\<rparr>"

definition example_queue :: "arrival list" where
  "example_queue =
     [example_arrival False (Submit (example_record ''cap-a'' ''one'')),
      example_arrival False (Submit (example_record ''cap-b'' ''two'')),
      example_arrival True (Submit (example_record ''cap-a'' ''other'')),
      example_arrival False (ReadCapture ''cap-b''),
      example_arrival False Flush, example_arrival False Shutdown,
      example_arrival False (ReadCapture ''cap-a'')]"

text \<open>
  C17: The writer serves its queue in order and each command once: however time groups
  submissions, the thread never fails, its answers up to the shutdown are those of handling the
  commands one at a time against the map from Capture ids to payload hashes (a submission is
  accepted, a duplicate or a conflict, a read returns a body with the stored hash or reports the
  id missing, a listing is exactly the map), and the store it leaves is that map.
\<close>

theorem writer_serves_in_order:
  assumes "writer_ok sha s" "hashed sha (submissions (map ar_command as))" "no_alias (submissions (map ar_command as))"
    and "writer_run sha cfg integrity stop_at as s = (out, s')"
  shows "served sha (map ar_command as) (abs_store (wr_wal s)) out
    \<and> abs_store (wr_wal s') = spec_final (map ar_command as) (abs_store (wr_wal s))"
  by (rule writer_run_serves [OF assms])

theorem writer_serves_in_order_witness:
  "\<exists>out s'. writer_run example_sha example_config True ''t2'' example_queue example_writer = (out, s')
     \<and> length out = 6 \<and> out ! 3 = ReadAnswer (Inr ''two'') \<and> abs_store (wr_wal s') ''cap-a'' = Some ''one''"
proof -
  let ?run = "writer_run example_sha example_config True ''t2'' example_queue example_writer"
  have q: "map ar_command example_queue = [Submit (example_record ''cap-a'' ''one''),
      Submit (example_record ''cap-b'' ''two''), Submit (example_record ''cap-a'' ''other''),
      ReadCapture ''cap-b'', Flush, Shutdown, ReadCapture ''cap-a'']"
    by (simp add: example_queue_def example_arrival_def)
  have h: "hashed example_sha (submissions (map ar_command example_queue))"
    "no_alias (submissions (map ar_command example_queue))"
    unfolding q by (simp_all add: example_record_def hashed_def no_alias_def example_sha_def)
  have m: "abs_store (wr_wal example_writer) = Map.empty"
    by (simp add: example_writer_def abs_store_def empty_wal_def blank_wal_def fun_eq_iff)
  obtain out s' where r: "?run = (out, s')" by fastforce
  from writer_serves_in_order [OF example_writer_ok h r]
  have s: "served example_sha (map ar_command example_queue) Map.empty out"
    "abs_store (wr_wal s') = spec_final (map ar_command example_queue) Map.empty"
    by (simp_all add: m)
  have rec: "cr_capture_id (example_record i b) = i" "cr_sha256 (example_record i b) = b" for i b
    by (simp_all add: example_record_def)
  from s(1) obtain a b c d e f where o: "out = [a, b, c, d, e, f]"
      "agrees example_sha (ReadCapture ''cap-b'') [''cap-a'' \<mapsto> ''one'', ''cap-b'' \<mapsto> ''two''] d"
    unfolding q by (cases out) (auto simp: spec_next_def spec_submit_def rec neq_Nil_conv
      elim!: served.elims(2) split: if_splits)
  from o(2) have "d = ReadAnswer (Inr ''two'')"
    by (cases d) (auto simp: example_sha_def)
  moreover have "abs_store (wr_wal s') ''cap-a'' = Some ''one''"
    unfolding s(2) q by (simp add: spec_next_def spec_submit_def rec)
  ultimately show ?thesis using r o(1) by simp
qed

end
