(* ===== verification/Sharded.thy ===== *)
theory Sharded
  imports WriterTheorems
begin

text \<open>
  A Capture store split over several writers by the hash of the Capture id (\<open>sharded.rs\<close>).  A
  store is the list of its writers; what only time decides about the concurrent submissions of a
  batch (which wait ends when, and the clocks) is the parameter \<open>timing\<close>.  \<open>digest\<close> is the raw
  SHA-256 of a string, \<open>show_error\<close> the text of an error.
\<close>

section \<open>Topology and opening\<close>

record shard_topology =
  tp_schema_version :: string
  tp_shards :: nat
  tp_hash :: string

datatype topology_file = NoTopology | UnreadableTopology | Topology shard_topology

datatype sharded_error =
    ShardCountInvalid
  | TopologyUnreadable
  | TopologyMismatch nat nat
  | TopologyMissing
  | StoreConfigInvalid
  | ShardFailed nat wal_error
  | AuditFailed wal_error

definition topology_version :: string where
  "topology_version = ''chiptrace.shards.v1''"

definition ensure_topology :: "nat \<Rightarrow> topology_file \<Rightarrow> sharded_error + topology_file" where
  "ensure_topology shards f =
     (let expected = \<lparr>tp_schema_version = topology_version, tp_shards = shards,
                      tp_hash = ''sha256-little-endian-u64-modulo''\<rparr>
      in case f of
           UnreadableTopology \<Rightarrow> Inl TopologyUnreadable
         | Topology observed \<Rightarrow>
             if observed \<noteq> expected then Inl (TopologyMismatch shards (tp_shards observed)) else Inr f
         | NoTopology \<Rightarrow> Inr (Topology expected))"

text \<open>\<open>CaptureStore::open\<close> on the contents of its two directories.\<close>

definition open_capture_store ::
  "(string \<Rightarrow> string) \<Rightarrow> (string \<Rightarrow> wal_error + capture_record) \<Rightarrow> string \<Rightarrow> store_config \<Rightarrow> nat \<Rightarrow> disk
     \<Rightarrow> sharded_error + writer" where
  "open_capture_store sha validate now cfg shard d =
     (if segment_max_bytes cfg = 0 \<or> queue_items cfg = 0 \<or> batch_records cfg = 0 \<or> batch_bytes cfg = 0
      then Inl StoreConfigInvalid
      else case start_writer sha validate now d of Inl e \<Rightarrow> Inl (ShardFailed shard e) | Inr w \<Rightarrow> Inr w)"

definition open_sharded ::
  "(string \<Rightarrow> string) \<Rightarrow> (string \<Rightarrow> wal_error + capture_record) \<Rightarrow> string \<Rightarrow> store_config \<Rightarrow> nat
     \<Rightarrow> (nat \<Rightarrow> disk) \<Rightarrow> topology_file \<Rightarrow> sharded_error + writer list \<times> topology_file" where
  "open_sharded sha validate now cfg shards disks f =
     (if shards = 0 \<or> 1024 < shards then Inl ShardCountInvalid
      else rbind (ensure_topology shards f) (\<lambda>f.
           rbind (try_fold (\<lambda>shard stores.
               rbind (open_capture_store sha validate now cfg shard (disks shard)) (\<lambda>s. Inr (stores @ [s])))
             [0..<shards] []) (\<lambda>stores. Inr (stores, f))))"


section \<open>Routing\<close>

text \<open>\<open>u64::from_le_bytes(digest[..8])\<close>\<close>

definition le_u64 :: "string \<Rightarrow> u64" where
  "le_u64 bytes = foldr (\<lambda>c n. 256 * n + of_char c) (take 8 bytes) 0"

definition shard_for :: "(string \<Rightarrow> string) \<Rightarrow> nat \<Rightarrow> string \<Rightarrow> nat" where
  "shard_for digest shards capture_id = unat (le_u64 (digest capture_id)) mod shards"

definition shard_records :: "(string \<Rightarrow> string) \<Rightarrow> nat \<Rightarrow> nat \<Rightarrow> capture_record list \<Rightarrow> capture_record list" where
  "shard_records digest shards j records =
     filter (\<lambda>r. shard_for digest shards (cr_capture_id r) = j) records"

text \<open>An answer that never comes is the error of a stopped writer.\<close>

definition submit_answer :: "writer_answer list \<Rightarrow> nat \<Rightarrow> submit_error + submit_ack" where
  "submit_answer out p =
     (if p < length out then (case out ! p of SubmitAnswer x \<Rightarrow> x | _ \<Rightarrow> Inl Unavailable) else Inl Unavailable)"

definition submit_batch ::
  "(string \<Rightarrow> string) \<Rightarrow> (string \<Rightarrow> string) \<Rightarrow> store_config \<Rightarrow> (nat \<Rightarrow> capture_record list \<Rightarrow> arrival list)
     \<Rightarrow> capture_record list \<Rightarrow> writer list \<Rightarrow> (submit_error + submit_ack) list \<times> writer list" where
  "submit_batch digest sha cfg timing records stores =
     (let n = length stores;
          runs = map (\<lambda>j. writer_loop sha cfg True (timing j (shard_records digest n j records)) (stores ! j)) [0..<n];
          result = (\<lambda>i. let j = shard_for digest n (cr_capture_id (records ! i))
                        in submit_answer (fst (runs ! j)) (length (shard_records digest n j (take i records))))
      in (map result [0..<length records], map (\<lambda>run. snd (snd run)) runs))"

text \<open>
  A queue that is full refuses the submission: then \<open>timing\<close> has no arrival for it, and it is answered
  like one to a stopped writer.
\<close>

definition sharded_submit ::
  "(string \<Rightarrow> string) \<Rightarrow> (string \<Rightarrow> string) \<Rightarrow> store_config \<Rightarrow> (nat \<Rightarrow> capture_record list \<Rightarrow> arrival list)
     \<Rightarrow> capture_record \<Rightarrow> writer list \<Rightarrow> (submit_error + submit_ack) \<times> writer list" where
  "sharded_submit digest sha cfg timing record stores =
     (let j = shard_for digest (length stores) (cr_capture_id record);
          run = writer_loop sha cfg True (timing j [record]) (stores ! j)
      in (submit_answer (fst run) 0, stores[j := snd (snd run)]))"

definition sharded_read :: "(string \<Rightarrow> string) \<Rightarrow> (string \<Rightarrow> string) \<Rightarrow> string \<Rightarrow> writer list \<Rightarrow> wal_error + string" where
  "sharded_read digest sha capture_id stores =
     read_capture sha capture_id (wr_wal (stores ! shard_for digest (length stores) capture_id))"

definition sharded_list :: "writer list \<Rightarrow> locator list" where
  "sharded_list stores = sort_key lo_capture_id (concat (map (\<lambda>s. list_captures (wr_wal s)) stores))"

text \<open>Every writer flushes; the first error is returned.\<close>

definition sharded_flush ::
  "(string \<Rightarrow> string) \<Rightarrow> string \<Rightarrow> writer list \<Rightarrow> (wal_error + segment_metadata list) \<times> writer list" where
  "sharded_flush sha now stores =
     (let results = map (flush_writer sha now) stores
      in (try_fold (\<lambda>r out. rbind (fst r) (\<lambda>m. Inr (out @ [m]))) results [], map snd results))"


section \<open>Health\<close>

record store_health =
  st_ok :: bool
  st_ready :: bool
  st_captures :: nat
  st_attempts :: nat
  st_accepted_attempts :: nat
  st_duplicate_attempts :: nat
  st_conflict_attempts :: nat
  st_rejected_attempts :: nat
  st_active_segment_id :: nat
  st_active_segment_bytes :: nat
  st_active_segment_records :: nat
  st_sealed_segments :: nat
  st_sealed_bytes :: nat
  st_queue_depth :: nat
  st_queue_capacity :: nat
  st_recovery_records :: nat
  st_last_commit_at :: "string option"
  st_last_error :: "string option"

definition store_health_of :: "(wal_error \<Rightarrow> string) \<Rightarrow> store_config \<Rightarrow> nat \<Rightarrow> runtime_state \<Rightarrow> store_health" where
  "store_health_of show_error cfg depth s =
     \<lparr>st_ok = (rs_ready s \<and> rs_last_error s = None), st_ready = rs_ready s,
      st_captures = rs_captures s, st_attempts = rs_attempts s,
      st_accepted_attempts = rs_accepted_attempts s, st_duplicate_attempts = rs_duplicate_attempts s,
      st_conflict_attempts = rs_conflict_attempts s, st_rejected_attempts = rs_rejected_attempts s,
      st_active_segment_id = rs_active_segment_id s, st_active_segment_bytes = rs_active_segment_bytes s,
      st_active_segment_records = rs_active_segment_records s, st_sealed_segments = rs_sealed_segments s,
      st_sealed_bytes = rs_sealed_bytes s, st_queue_depth = depth, st_queue_capacity = queue_items cfg,
      st_recovery_records = rs_recovery_records s, st_last_commit_at = rs_last_commit_at s,
      st_last_error = map_option show_error (rs_last_error s)\<rparr>"

record sharded_health =
  sh_ok :: bool
  sh_ready :: bool
  sh_shard_count :: nat
  sh_captures :: nat
  sh_attempts :: nat
  sh_accepted_attempts :: nat
  sh_duplicate_attempts :: nat
  sh_conflict_attempts :: nat
  sh_rejected_attempts :: nat
  sh_active_segment_bytes :: nat
  sh_active_segment_records :: nat
  sh_sealed_segments :: nat
  sh_sealed_bytes :: nat
  sh_queue_depth :: nat
  sh_queue_capacity :: nat
  sh_recovery_records :: nat
  sh_last_commit_at :: "string option"
  sh_last_error :: "string option"
  sh_shards :: "(nat \<times> store_health) list"

definition sat_sum :: "nat list \<Rightarrow> nat" where
  "sat_sum xs = fold (\<lambda>x n. sat (n + x)) xs 0"

fun join :: "string \<Rightarrow> string list \<Rightarrow> string" where
  "join sep [] = []"
| "join sep [s] = s"
| "join sep (s # t # ss) = s @ sep @ join sep (t # ss)"

definition latest_text :: "string list \<Rightarrow> string option" where
  "latest_text ts = (case ts of [] \<Rightarrow> None | t # ts \<Rightarrow> Some (fold max ts t))"

text \<open>\<open>depths\<close> are the lengths of the writers' queues.\<close>

definition sharded_health_of ::
  "(wal_error \<Rightarrow> string) \<Rightarrow> store_config \<Rightarrow> nat list \<Rightarrow> writer list \<Rightarrow> sharded_health" where
  "sharded_health_of show_error cfg depths stores =
     (let hs = map (\<lambda>(d, s). store_health_of show_error cfg d (wr_state s)) (zip depths stores);
          total = (\<lambda>f. sat_sum (map f hs));
          errors = List.map_filter st_last_error hs
      in \<lparr>sh_ok = list_all st_ok hs, sh_ready = list_all st_ready hs, sh_shard_count = length hs,
          sh_captures = total st_captures, sh_attempts = total st_attempts,
          sh_accepted_attempts = total st_accepted_attempts, sh_duplicate_attempts = total st_duplicate_attempts,
          sh_conflict_attempts = total st_conflict_attempts, sh_rejected_attempts = total st_rejected_attempts,
          sh_active_segment_bytes = total st_active_segment_bytes,
          sh_active_segment_records = total st_active_segment_records,
          sh_sealed_segments = total st_sealed_segments, sh_sealed_bytes = total st_sealed_bytes,
          sh_queue_depth = total st_queue_depth, sh_queue_capacity = total st_queue_capacity,
          sh_recovery_records = total st_recovery_records,
          sh_last_commit_at = latest_text (List.map_filter st_last_commit_at hs),
          sh_last_error = (if errors \<noteq> [] then Some (join ''; '' errors) else None),
          sh_shards = enumerate 0 hs\<rparr>)"


section \<open>Audits\<close>

record sharded_audit =
  sa_ok :: bool
  sa_shard_count :: nat
  sa_captures :: nat
  sa_attempts :: nat
  sa_attempt_conservation :: bool
  sa_shards :: "(nat \<times> audit_report) list"

definition merge_audit ::
  "nat \<times> (wal_error + audit_report) \<Rightarrow> sharded_audit \<Rightarrow> wal_error + sharded_audit" where
  "merge_audit r total_audit =
     rbind (snd r) (\<lambda>report.
     Inr (total_audit\<lparr>sa_ok := (sa_ok total_audit \<and> ar_ok report),
                      sa_captures := sat (sa_captures total_audit + ar_captures report),
                      sa_attempts := sat (sa_attempts total_audit + ar_attempts report),
                      sa_shards := sa_shards total_audit @ [(fst r, report)]\<rparr>))"

definition merge_audits :: "(wal_error + audit_report) list \<Rightarrow> wal_error + sharded_audit" where
  "merge_audits results =
     rbind (try_fold merge_audit (enumerate 0 results)
              \<lparr>sa_ok = True, sa_shard_count = length results, sa_captures = 0, sa_attempts = 0,
               sa_attempt_conservation = False, sa_shards = []\<rparr>) (\<lambda>a.
     Inr (a\<lparr>sa_attempt_conservation := (sa_captures a \<le> sa_attempts a)\<rparr>))"

definition sharded_audit_running ::
  "(string \<Rightarrow> string) \<Rightarrow> (nat \<Rightarrow> bool) \<Rightarrow> bool \<Rightarrow> writer list \<Rightarrow> wal_error + sharded_audit" where
  "sharded_audit_running sha integrity verify stores =
     merge_audits (map (\<lambda>(j, s). audit_database sha (integrity j) verify (disk_of (wr_wal s))) (enumerate 0 stores))"

text \<open>The offline audit of the same directories.\<close>

definition audit_sharded_store ::
  "(string \<Rightarrow> string) \<Rightarrow> (nat \<Rightarrow> bool) \<Rightarrow> bool \<Rightarrow> nat \<Rightarrow> (nat \<Rightarrow> disk) \<Rightarrow> topology_file
     \<Rightarrow> sharded_error + sharded_audit" where
  "audit_sharded_store sha integrity verify shards disks f =
     (if shards = 0 \<or> 1024 < shards then Inl ShardCountInvalid
      else rbind (case f of
                    UnreadableTopology \<Rightarrow> Inl TopologyUnreadable
                  | Topology t \<Rightarrow> if tp_shards t \<noteq> shards then Inl (TopologyMismatch shards (tp_shards t)) else Inr ()
                  | NoTopology \<Rightarrow> if 1 < shards then Inl TopologyMissing else Inr ()) (\<lambda>_.
           case merge_audits (map (\<lambda>j. audit_database sha (integrity j) verify (disks j)) [0..<shards]) of
             Inl e \<Rightarrow> Inl (AuditFailed e) | Inr a \<Rightarrow> Inr a))"

record runtime_shard =
  ra_shard :: nat
  ra_captures :: nat
  ra_attempts :: nat
  ra_classified_attempts :: nat
  ra_attempt_conservation :: bool

record runtime_audit =
  ru_ok :: bool
  ru_shard_count :: nat
  ru_captures :: nat
  ru_attempts :: nat
  ru_attempt_conservation :: bool
  ru_failures :: "string list"
  ru_shards :: "runtime_shard list"

definition runtime_shard_of :: "nat \<times> store_health \<Rightarrow> runtime_shard" where
  "runtime_shard_of s =
     (let store = snd s;
          classified = sat (sat (sat (st_accepted_attempts store + st_duplicate_attempts store)
                              + st_conflict_attempts store) + st_rejected_attempts store)
      in \<lparr>ra_shard = fst s, ra_captures = st_captures store, ra_attempts = st_attempts store,
          ra_classified_attempts = classified,
          ra_attempt_conservation = (st_attempts store = classified \<and> st_captures store = st_accepted_attempts store)\<rparr>)"

definition runtime_audit_of :: "sharded_health \<Rightarrow> runtime_audit" where
  "runtime_audit_of h =
     (let shards = map runtime_shard_of (sh_shards h);
          failures = map (\<lambda>s. ''attempt_conservation:shard-'' @ fmt0 5 (ra_shard s))
                       (filter (\<lambda>s. \<not> ra_attempt_conservation s) shards)
      in \<lparr>ru_ok = (sh_ok h \<and> failures = []), ru_shard_count = sh_shard_count h, ru_captures = sh_captures h,
          ru_attempts = sh_attempts h, ru_attempt_conservation = (failures = []), ru_failures = failures,
          ru_shards = shards\<rparr>)"

end
