(* ===== verification/ShardedTheorems.thy ===== *)
theory ShardedTheorems
  imports Sharded
begin

text \<open>
  Sharding is transparent: the writers together are one store, whatever the interleaving, and the
  counters that health adds up over the shards are the durable ones.
\<close>

section \<open>The abstract store, restricted to some ids\<close>

lemma nth_filter_prefix:
  "i < length xs \<Longrightarrow> Q (xs ! i) \<Longrightarrow>
     length (filter Q (take i xs)) < length (filter Q xs) \<and> filter Q xs ! length (filter Q (take i xs)) = xs ! i"
proof (induction xs arbitrary: i)
  case (Cons x xs)
  then show ?case by (cases i) auto
qed simp

lemma spec_run_filter:
  assumes "\<forall>k. P k \<longrightarrow> m' k = m k"
  shows "\<exists>m2. spec_run (filter (\<lambda>r. P (cr_capture_id r)) rs) m'
      = (m2, map snd (filter (\<lambda>q. P (cr_capture_id (fst q))) (zip rs (snd (spec_run rs m)))))
    \<and> (\<forall>k. m2 k = (if P k then fst (spec_run rs m) k else m' k))"
  using assms
proof (induction rs arbitrary: m m')
  case (Cons r rs)
  obtain m1 o1 where r: "spec_submit r m = (m1, o1)" by fastforce
  show ?case
  proof (cases "P (cr_capture_id r)")
    case True
    with Cons.prems r obtain n1 where n: "spec_submit r m' = (n1, o1)"
      "\<forall>k. P k \<longrightarrow> n1 k = m1 k" "\<forall>k. \<not> P k \<longrightarrow> n1 k = m' k"
      by (auto simp: spec_submit_def split: option.splits if_splits)
    from Cons.IH [OF n(2)] n(3) r n(1) True show ?thesis by (auto split: prod.splits)
  next
    case False
    with r have "\<forall>k. P k \<longrightarrow> m1 k = m k" by (auto simp: spec_submit_def split: option.splits if_splits)
    with Cons.prems have "\<forall>k. P k \<longrightarrow> m' k = m1 k" by simp
    from Cons.IH [OF this] r False show ?thesis by (auto split: prod.splits)
  qed
qed simp

lemma length_spec_run [simp]: "length (snd (spec_run rs m)) = length rs"
proof (induction rs arbitrary: m)
  case (Cons r rs)
  obtain m1 o1 m2 os where "spec_submit r m = (m1, o1)" "spec_run rs m1 = (m2, os)" by fastforce
  with Cons.IH [of m1] show ?case by simp
qed simp

text \<open>A record's answer is its answer among the records of any class of ids that contains it.\<close>

lemma spec_run_nth:
  assumes "\<forall>k. P k \<longrightarrow> m' k = m k" "i < length rs" "P (cr_capture_id (rs ! i))"
  shows "snd (spec_run (filter (\<lambda>r. P (cr_capture_id r)) rs) m')
      ! length (filter (\<lambda>r. P (cr_capture_id r)) (take i rs)) = snd (spec_run rs m) ! i"
proof -
  let ?Q = "\<lambda>q. P (cr_capture_id (fst q))" and ?z = "zip rs (snd (spec_run rs m))"
  have z: "length (filter ?Q (take i ?z)) = length (filter (\<lambda>r. P (cr_capture_id r)) (take i rs))"
  proof -
    have f: "length (filter ?Q (zip xs ys)) = length (filter (\<lambda>r. P (cr_capture_id r)) xs)"
      if "length xs = length ys" for xs and ys :: "outcome list"
      using that by (induction xs ys rule: list_induct2) auto
    show ?thesis unfolding take_zip by (rule f) simp
  qed
  have "i < length ?z" "?Q (?z ! i)" using assms(2,3) by simp_all
  note n = nth_filter_prefix [of i ?z ?Q, OF this]
  from spec_run_filter [OF assms(1), of rs] have
    "snd (spec_run (filter (\<lambda>r. P (cr_capture_id r)) rs) m') = map snd (filter ?Q ?z)" by auto
  with n assms(2) show ?thesis by (simp add: z)
qed


section \<open>The invariant\<close>

definition stores_ok :: "(string \<Rightarrow> string) \<Rightarrow> (string \<Rightarrow> string) \<Rightarrow> writer list \<Rightarrow> bool" where
  "stores_ok digest sha stores \<longleftrightarrow> stores \<noteq> [] \<and>
     (\<forall>j < length stores. writer_ok sha (stores ! j)
        \<and> (\<forall>k \<in> dom (abs_store (wr_wal (stores ! j))). shard_for digest (length stores) k = j))"

definition abs_sharded :: "(string \<Rightarrow> string) \<Rightarrow> writer list \<Rightarrow> string \<rightharpoonup> string" where
  "abs_sharded digest stores k = abs_store (wr_wal (stores ! shard_for digest (length stores) k)) k"

text \<open>The timing only decides when submissions arrive, not which.\<close>

definition faithful_timing :: "(nat \<Rightarrow> capture_record list \<Rightarrow> arrival list) \<Rightarrow> bool" where
  "faithful_timing timing \<longleftrightarrow> (\<forall>j rs. map ar_command (timing j rs) = map Submit rs)"

lemma shard_for_less: "0 < n \<Longrightarrow> shard_for digest n k < n"
  by (simp add: shard_for_def)

lemma no_alias_filter: "no_alias rs \<Longrightarrow> no_alias (filter P rs)"
  by (auto simp: no_alias_def list_all_iff)

lemma hashed_filter: "hashed sha rs \<Longrightarrow> hashed sha (filter P rs)"
  by (auto simp: hashed_def list_all_iff)

lemma served_all_submits:
  "served sha (map Submit rs) m out \<Longrightarrow>
     length out = length rs \<and> spec_final (map Submit rs) m = fst (spec_run rs m)
     \<and> (\<forall>p < length rs. submit_answer out p \<noteq> Inl Unavailable \<and> response (submit_answer out p) = snd (spec_run rs m) ! p)"
proof (induction rs arbitrary: m out)
  case (Cons r rs)
  then obtain a out' where out: "out = a # out'" by (cases out) auto
  with Cons.prems obtain x where a: "a = SubmitAnswer x" "x \<noteq> Inl Unavailable" "response x = snd (spec_submit r m)"
    by (cases a) auto
  from Cons.prems out have "served sha (map Submit rs) (fst (spec_submit r m)) out'"
    by (simp add: spec_next_def)
  note ih = Cons.IH [OF this]
  have s: "submit_answer out (Suc p) = submit_answer out' p" for p by (simp add: submit_answer_def out)
  show ?case
    using ih a out s by (auto simp: spec_next_def All_less_Suc2 submit_answer_def split: prod.splits)
qed simp

lemma shard_run_ok:
  assumes "writer_ok sha s" "hashed sha rs" "no_alias rs" "map ar_command as = map Submit rs"
  shows "\<exists>out s'. writer_loop sha cfg True as s = (out, True, s') \<and> writer_ok sha s' \<and> length out = length rs
    \<and> abs_store (wr_wal s') = fst (spec_run rs (abs_store (wr_wal s)))
    \<and> (\<forall>p < length rs. submit_answer out p \<noteq> Inl Unavailable
          \<and> response (submit_answer out p) = snd (spec_run rs (abs_store (wr_wal s))) ! p)"
proof -
  obtain out w s' where l: "writer_loop sha cfg True as s = (out, w, s')" by (metis prod_cases3)
  have "loop_ok sha (map Submit rs) (abs_store (wr_wal s)) (out, w, s')"
    using writer_loop_ok [OF assms(1), of as cfg True] assms(2-4) l by simp
  then have o: "served sha (map Submit rs) (abs_store (wr_wal s)) out"
    "abs_store (wr_wal s') = spec_final (map Submit rs) (abs_store (wr_wal s))" "w" "writer_ok sha s'"
    by (auto simp: loop_ok_def)
  from served_all_submits [OF o(1)] o l show ?thesis by auto
qed


section \<open>Submitting a batch\<close>

lemma submit_batch_shard:
  assumes ok: "stores_ok digest sha stores" and t: "faithful_timing timing" and h: "hashed sha records" "no_alias records"
    and e: "submit_batch digest sha cfg timing records stores = (results, stores')" and j: "j < length stores"
  shows "length stores' = length stores" "length results = length records" "writer_ok sha (stores' ! j)"
    and "abs_store (wr_wal (stores' ! j))
      = fst (spec_run (shard_records digest (length stores) j records) (abs_store (wr_wal (stores ! j))))"
    and "i < length records \<Longrightarrow> shard_for digest (length stores) (cr_capture_id (records ! i)) = j \<Longrightarrow>
      results ! i \<noteq> Inl Unavailable \<and> response (results ! i)
        = snd (spec_run (shard_records digest (length stores) j records) (abs_store (wr_wal (stores ! j))))
            ! length (shard_records digest (length stores) j (take i records))"
proof -
  let ?n = "length stores"
  let ?rs = "shard_records digest ?n j records"
  let ?run = "\<lambda>j. writer_loop sha cfg True (timing j (shard_records digest ?n j records)) (stores ! j)"
  from e have r: "results = map (\<lambda>i. let j = shard_for digest ?n (cr_capture_id (records ! i))
        in submit_answer (fst (map ?run [0..<?n] ! j)) (length (shard_records digest ?n j (take i records)))) [0..<length records]"
    and s': "stores' = map (\<lambda>run. snd (snd run)) (map ?run [0..<?n])"
    by (simp_all add: submit_batch_def Let_def)
  show "length stores' = length stores" "length results = length records" by (simp_all add: r s')
  from ok j have w: "writer_ok sha (stores ! j)" by (simp add: stores_ok_def)
  have hr: "hashed sha ?rs" "no_alias ?rs"
    using h by (simp_all add: shard_records_def hashed_filter no_alias_filter)
  have a: "map ar_command (timing j ?rs) = map Submit ?rs" using t by (simp add: faithful_timing_def)
  from shard_run_ok [OF w hr a, of cfg] obtain out s where run: "?run j = (out, True, s)"
    "writer_ok sha s" "length out = length ?rs" "abs_store (wr_wal s) = fst (spec_run ?rs (abs_store (wr_wal (stores ! j))))"
    and o: "\<forall>p < length ?rs. submit_answer out p \<noteq> Inl Unavailable
          \<and> response (submit_answer out p) = snd (spec_run ?rs (abs_store (wr_wal (stores ! j)))) ! p"
    by blast
  have sj: "stores' ! j = s" using j run(1) by (simp add: s')
  show "writer_ok sha (stores' ! j)" by (simp add: sj run(2))
  show "abs_store (wr_wal (stores' ! j)) = fst (spec_run ?rs (abs_store (wr_wal (stores ! j))))"
    by (simp add: sj run(4))
  assume i: "i < length records" "shard_for digest ?n (cr_capture_id (records ! i)) = j"
  have "results ! i = submit_answer out (length (shard_records digest ?n j (take i records)))"
    using i j run(1) by (simp add: r Let_def)
  moreover have "length (shard_records digest ?n j (take i records)) < length ?rs"
    using nth_filter_prefix [OF i(1), of "\<lambda>r. shard_for digest ?n (cr_capture_id r) = j"] i(2)
    by (simp add: shard_records_def)
  ultimately show "results ! i \<noteq> Inl Unavailable \<and> response (results ! i)
      = snd (spec_run ?rs (abs_store (wr_wal (stores ! j)))) ! length (shard_records digest ?n j (take i records))"
    using o by simp
qed

lemma abs_sharded_at:
  "shard_for digest (length stores) k = j \<Longrightarrow> abs_sharded digest stores k = abs_store (wr_wal (stores ! j)) k"
  by (simp add: abs_sharded_def)

lemma submit_batch_refines:
  assumes ok: "stores_ok digest sha stores" and t: "faithful_timing timing" and h: "hashed sha records" "no_alias records"
    and e: "submit_batch digest sha cfg timing records stores = (results, stores')"
  shows "stores_ok digest sha stores' \<and> Inl Unavailable \<notin> set results
    \<and> spec_run records (abs_sharded digest stores) = (abs_sharded digest stores', map response results)"
proof -
  let ?n = "length stores" and ?m = "abs_sharded digest stores"
  let ?P = "\<lambda>j k. shard_for digest ?n k = j"
  note shard = submit_batch_shard [OF ok t h e]
  have n: "0 < ?n" using ok by (simp add: stores_ok_def)
  note len = shard(1,2) [OF n]
  have fr: "shard_records digest ?n j rs = filter (\<lambda>r. ?P j (cr_capture_id r)) rs" for j rs
    by (simp add: shard_records_def)
  have agree: "\<forall>k. ?P j k \<longrightarrow> abs_store (wr_wal (stores ! j)) k = ?m k" for j by (simp add: abs_sharded_def)
  have final: "abs_store (wr_wal (stores' ! j)) k
      = (if ?P j k then fst (spec_run records ?m) k else abs_store (wr_wal (stores ! j)) k)"
    if "j < ?n" for j k
    using spec_run_filter [OF agree [of j], of records] by (auto simp: shard(4) [OF that] fr)
  have "abs_sharded digest stores' k = fst (spec_run records ?m) k" for k
    using final [OF shard_for_less [OF n], of digest k k] len by (simp add: abs_sharded_def)
  then have m': "abs_sharded digest stores' = fst (spec_run records ?m)" by blast
  have each: "results ! i \<noteq> Inl Unavailable \<and> response (results ! i) = snd (spec_run records ?m) ! i"
    if i: "i < length records" for i
  proof -
    let ?j = "shard_for digest ?n (cr_capture_id (records ! i))"
    from shard(5) [OF shard_for_less [OF n] i refl]
      spec_run_nth [OF agree [of ?j] i refl]
    show ?thesis by (simp add: fr)
  qed
  have "map response results = snd (spec_run records ?m)"
    using each len(2) by (intro nth_equalityI) simp_all
  moreover have "Inl Unavailable \<notin> set results"
    using each len(2) by (auto simp: in_set_conv_nth)
  moreover have "stores_ok digest sha stores'"
    using ok len(1) shard(3) final by (auto simp: stores_ok_def dom_def split: if_splits)
  ultimately show ?thesis by (metis m' prod.collapse)
qed


section \<open>Health\<close>

lemma sat_sum_sat: "sat_sum (map (\<lambda>x. sat (f x)) xs) = sat (\<Sum>x\<leftarrow>xs. f x)"
proof -
  have "fold (\<lambda>x n. sat (n + x)) (map (\<lambda>x. sat (f x)) xs) (sat a) = sat (a + (\<Sum>x\<leftarrow>xs. f x))" for a
  proof (induction xs arbitrary: a)
    case (Cons x xs)
    have "sat (sat a + sat (f x)) = sat (a + f x)" by (simp add: sat_def)
    with Cons [of "a + f x"] show ?case by (simp add: add.assoc)
  qed simp
  from this [of 0] show ?thesis by (simp add: sat_sum_def) (simp add: sat_def)
qed

lemma attempts_partition:
  "length (t :: (nat, attempt) table) = tcount accepted_state t + tcount (\<lambda>a. at_state a = ''duplicate'') t
     + tcount (\<lambda>a. at_state a = ''conflict'') t + tcount rejected_state t"
  by (induction t) (auto simp: tcount_def accepted_state_def rejected_state_def)

lemma writer_counts:
  assumes "writer_ok sha s"
  shows "rs_ready (wr_state s)" "rs_last_error (wr_state s) = None"
    "rs_captures (wr_state s) = sat (card (dom (abs_store (wr_wal s))))"
    "rs_accepted_attempts (wr_state s) = rs_captures (wr_state s)"
    "rs_attempts (wr_state s) = sat (sat (sat (rs_accepted_attempts (wr_state s)
       + rs_duplicate_attempts (wr_state s)) + rs_conflict_attempts (wr_state s)) + rs_rejected_attempts (wr_state s))"
proof -
  let ?w = "wr_wal s"
  from assms have c: "w_counters ?w = Some (sat_counters (rebuilt ?w))" and p: "published ?w (wr_state s)"
    and lo: "tsorted (w_captures ?w)" "tcount accepted_state (w_attempts ?w) = length (w_captures ?w)"
    by (simp_all add: writer_ok_def wal_ok_def counted_def ledger_ok_def)
  let ?as = "w_attempts ?w"
  have f: "rs_captures (wr_state s) = sat (length (w_captures ?w))"
    "rs_attempts (wr_state s) = sat (length ?as)"
    "rs_accepted_attempts (wr_state s) = sat (tcount accepted_state ?as)"
    "rs_duplicate_attempts (wr_state s) = sat (tcount (\<lambda>a. at_state a = ''duplicate'') ?as)"
    "rs_conflict_attempts (wr_state s) = sat (tcount (\<lambda>a. at_state a = ''conflict'') ?as)"
    "rs_rejected_attempts (wr_state s) = sat (tcount rejected_state ?as)"
    "rs_ready (wr_state s)" "rs_last_error (wr_state s) = None"
    using p unfolding published_def c by (simp_all add: sat_counters_def counters_from_tables_eq)
  show "rs_ready (wr_state s)" "rs_last_error (wr_state s) = None" by (rule f)+
  show "rs_captures (wr_state s) = sat (card (dom (abs_store (wr_wal s))))"
    by (simp add: f abs_store_dom [OF lo(1)])
  show "rs_accepted_attempts (wr_state s) = rs_captures (wr_state s)" by (simp add: f lo(2))
  have sums: "sat (sat a + sat b) = sat (a + b)" for a b by (auto simp: sat_def)
  show "rs_attempts (wr_state s) = sat (sat (sat (rs_accepted_attempts (wr_state s)
       + rs_duplicate_attempts (wr_state s)) + rs_conflict_attempts (wr_state s)) + rs_rejected_attempts (wr_state s))"
    unfolding f sums attempts_partition [of ?as] ..
qed

lemma card_shards:
  assumes "stores_ok digest sha stores"
  shows "card (dom (abs_sharded digest stores)) = (\<Sum>s\<leftarrow>stores. card (dom (abs_store (wr_wal s))))"
proof -
  let ?n = "length stores" and ?D = "\<lambda>j. dom (abs_store (wr_wal (stores ! j)))"
  have n: "0 < ?n" and r: "\<And>j k. j < ?n \<Longrightarrow> k \<in> ?D j \<Longrightarrow> shard_for digest ?n k = j"
    using assms by (auto simp: stores_ok_def)
  have "dom (abs_sharded digest stores) = (\<Union>j\<in>{..<?n}. ?D j)"
    using r shard_for_less [OF n] by (fastforce simp: abs_sharded_def dom_def)
  moreover have "finite (?D j)" for j
  proof -
    have "?D j \<subseteq> fst ` set (w_captures (wr_wal (stores ! j)))"
      by (auto simp: abs_store_def dest: map_of_SomeD intro: rev_image_eqI)
    then show ?thesis by (rule finite_subset) simp
  qed
  moreover have "?D i \<inter> ?D j = {}" if "i < ?n" "j < ?n" "i \<noteq> j" for i j
    using r [OF that(1)] r [OF that(2)] that(3) by blast
  ultimately have "card (dom (abs_sharded digest stores)) = (\<Sum>j\<in>{..<?n}. card (?D j))"
    by (simp add: card_UN_disjoint)
  also have "\<dots> = (\<Sum>s\<leftarrow>stores. card (dom (abs_store (wr_wal s))))"
    by (simp add: sum_list_sum_nth atLeast0LessThan)
  finally show ?thesis .
qed


definition store_conserved :: "store_health \<Rightarrow> bool" where
  "store_conserved h \<longleftrightarrow> st_captures h = st_accepted_attempts h
     \<and> st_attempts h = sat (sat (sat (st_accepted_attempts h + st_duplicate_attempts h)
           + st_conflict_attempts h) + st_rejected_attempts h)"

lemma store_health_ok:
  assumes "writer_ok sha s"
  shows "st_ok (store_health_of show_error cfg d (wr_state s))"
    "st_captures (store_health_of show_error cfg d (wr_state s)) = sat (card (dom (abs_store (wr_wal s))))"
    "store_conserved (store_health_of show_error cfg d (wr_state s))"
  using writer_counts [OF assms] by (simp_all add: store_health_of_def store_conserved_def)

lemma shard_healths:
  assumes ok: "stores_ok digest sha stores" and d: "length depths = length stores"
    and hs: "hs = map (\<lambda>(d, s). store_health_of show_error cfg d (wr_state s)) (zip depths stores)"
  shows "list_all st_ok hs" "map st_captures hs = map (\<lambda>s. sat (card (dom (abs_store (wr_wal s))))) stores"
    "list_all store_conserved hs"
proof -
  have "list_all (writer_ok sha) stores" using ok by (simp add: stores_ok_def list_all_length)
  with d have "list_all st_ok hs \<and> map st_captures hs = map (\<lambda>s. sat (card (dom (abs_store (wr_wal s))))) stores
      \<and> list_all store_conserved hs"
    unfolding hs by (induction depths stores rule: list_induct2) (simp_all add: store_health_ok [of sha])
  then show "list_all st_ok hs" "map st_captures hs = map (\<lambda>s. sat (card (dom (abs_store (wr_wal s))))) stores"
    "list_all store_conserved hs" by simp_all
qed

lemma health_captures:
  assumes "stores_ok digest sha stores" "length depths = length stores"
  shows "sh_captures (sharded_health_of show_error cfg depths stores) = sat (card (dom (abs_sharded digest stores)))"
  using shard_healths(2) [OF assms refl, of show_error cfg]
  by (simp add: sharded_health_of_def Let_def sat_sum_sat card_shards [OF assms(1)] del: map_map)

lemma health_ok:
  assumes "stores_ok digest sha stores" "length depths = length stores"
  shows "sh_ok (sharded_health_of show_error cfg depths stores)"
  using shard_healths(1) [OF assms refl, of show_error cfg] by (simp add: sharded_health_of_def Let_def)

lemma enumerate_member: "q \<in> set (enumerate n xs) \<Longrightarrow> snd q \<in> set xs"
  unfolding in_set_enumerate_eq by (metis add.commute le_add_diff_inverse2 nth_mem add_less_cancel_right)

lemma runtime_audit_clean:
  assumes "stores_ok digest sha stores" "length depths = length stores"
  shows "ru_failures (runtime_audit_of (sharded_health_of show_error cfg depths stores)) = []"
proof -
  let ?hs = "map (\<lambda>(d, s). store_health_of show_error cfg d (wr_state s)) (zip depths stores)"
  have "sh_shards (sharded_health_of show_error cfg depths stores) = enumerate 0 ?hs"
    by (simp add: sharded_health_of_def Let_def)
  moreover have "\<forall>q \<in> set (enumerate 0 ?hs). ra_attempt_conservation (runtime_shard_of q)"
  proof
    fix q assume "q \<in> set (enumerate 0 ?hs)"
    then have "snd q \<in> set ?hs" by (rule enumerate_member)
    with shard_healths(3) [OF assms refl, of show_error cfg] show "ra_attempt_conservation (runtime_shard_of q)"
      unfolding list_all_iff by (simp add: runtime_shard_of_def Let_def store_conserved_def del: set_map)
  qed
  ultimately show ?thesis
    by (auto simp: runtime_audit_of_def Let_def filter_empty_conv)
qed


section \<open>Properties\<close>

definition example_digest_bytes :: "string \<Rightarrow> string" where
  "example_digest_bytes s = [last s]"

definition example_timing :: "nat \<Rightarrow> capture_record list \<Rightarrow> arrival list" where
  "example_timing j rs = map (\<lambda>r. example_arrival (j = 1) (Submit r)) rs"

definition example_stores :: "writer list" where
  "example_stores = [example_writer, example_writer]"

lemma example_empty: "abs_store (wr_wal example_writer) = Map.empty"
  by (simp add: example_writer_def abs_store_def empty_wal_def blank_wal_def fun_eq_iff)

lemma example_stores_ok: "stores_ok example_digest_bytes sha example_stores"
  by (simp add: stores_ok_def example_stores_def less_Suc_eq nth_Cons' example_writer_ok example_empty)

lemma example_timing_ok: "faithful_timing example_timing"
  by (simp add: faithful_timing_def example_timing_def example_arrival_def comp_def)

text \<open>
  C18: Sharding is transparent: submitting a batch to the shards, with any timing of the writers,
  answers every record as submitting the records one at a time to a single abstract store would,
  leaves exactly that store, and keeps every Capture on the shard its id hashes to.
\<close>

theorem sharding_transparent:
  assumes "stores_ok digest sha stores" "faithful_timing timing" "hashed sha records" "no_alias records"
    and "submit_batch digest sha cfg timing records stores = (results, stores')"
  shows "stores_ok digest sha stores' \<and> Inl Unavailable \<notin> set results
    \<and> spec_run records (abs_sharded digest stores) = (abs_sharded digest stores', map response results)"
  using assms by (rule submit_batch_refines)

theorem sharding_transparent_witness:
  "\<exists>results stores'. submit_batch example_digest_bytes example_sha example_config example_timing example_batch example_stores
      = (results, stores') \<and> map response results = [Accepted, Accepted, Duplicate, Conflicted]"
proof -
  obtain results stores' where r: "submit_batch example_digest_bytes example_sha example_config example_timing
      example_batch example_stores = (results, stores')" by fastforce
  from sharding_transparent [OF example_stores_ok example_timing_ok example_batch_ok(1,3) r]
  have "map response results = snd (spec_run example_batch (abs_sharded example_digest_bytes example_stores))" by simp
  moreover have "abs_sharded example_digest_bytes example_stores = Map.empty"
    by (auto simp: abs_sharded_def example_stores_def nth_Cons' example_empty shard_for_def)
  ultimately show ?thesis
    using r by (simp add: example_batch_def example_record_def spec_submit_def matches_persisted_sha256_def)
qed

text \<open>
  The health of a running store is exact: it is ok, it counts exactly the Captures stored
  (saturating), and the runtime audit finds every attempt of every shard classified and every
  Capture accepted once.
\<close>

theorem runtime_health_exact:
  assumes "stores_ok digest sha stores" "length depths = length stores"
  shows "sh_ok (sharded_health_of show_error cfg depths stores)
    \<and> sh_captures (sharded_health_of show_error cfg depths stores) = sat (card (dom (abs_sharded digest stores)))
    \<and> ru_ok (runtime_audit_of (sharded_health_of show_error cfg depths stores))
    \<and> ru_failures (runtime_audit_of (sharded_health_of show_error cfg depths stores)) = []"
  using health_ok [OF assms] health_captures [OF assms] runtime_audit_clean [OF assms]
  by (simp add: runtime_audit_of_def Let_def)

theorem runtime_health_exact_witness:
  "ru_ok (runtime_audit_of (sharded_health_of (\<lambda>_. ''error'') example_config [0, 1] example_stores))
   \<and> sh_captures (sharded_health_of (\<lambda>_. ''error'') example_config [0, 1] example_stores) = 0"
proof -
  have "abs_sharded example_digest_bytes example_stores = Map.empty"
    by (auto simp: abs_sharded_def example_stores_def nth_Cons' example_empty shard_for_def)
  with runtime_health_exact [OF example_stores_ok, of "[0, 1]" "\<lambda>_. ''error''" example_config]
  show ?thesis by (simp add: example_stores_def sat_def)
qed

end
