(* ===== verification/Relay.thy ===== *)
theory Relay
  imports ShardedTheorems CoverageTheorems WorkerTheorems
begin

text \<open>
  The durable Relay (\<open>relay.rs\<close>, \<open>DurableRelay\<close>): a sharded Capture store and a delivery ledger,
  opened together and reconciled, and the enqueue path that first makes a Capture durable and
  then schedules its delivery.
\<close>

section \<open>Opening\<close>

record relay =
  rl_stores :: "writer list"
  rl_ledger :: delivery_db
  rl_schedule :: delivery_schedule

datatype relay_error =
    RelayConfigInvalid
  | RelayBudgetTooSmall
  | StoreFailed sharded_error
  | LedgerFailed delivery_error
  | SubmitFailed submit_error

definition lift_error :: "('e \<Rightarrow> 'f) \<Rightarrow> 'e + 'a \<Rightarrow> 'f + 'a" where
  "lift_error f r = (case r of Inl e \<Rightarrow> Inl (f e) | Inr v \<Rightarrow> Inr v)"

definition check_relay_config :: "relay_config \<Rightarrow> relay_error + unit" where
  "check_relay_config cfg =
     (if rc_delivery_concurrency cfg = 0 \<or> rc_delivery_queue_items cfg = 0 \<or> rc_delivery_batch_records cfg = 0
         \<or> rc_delivery_batch_bytes cfg = 0 \<or> rc_max_delivery_inflight_bytes cfg = 0
      then Inl RelayConfigInvalid
      else if rc_max_delivery_inflight_bytes cfg < sat (rc_max_envelope_bytes cfg + 1)
      then Inl RelayBudgetTooSmall
      else Inr ())"

text \<open>\<open>slice::chunks\<close> of a positive size.\<close>

function chunks :: "nat \<Rightarrow> 'a list \<Rightarrow> 'a list list" where
  "chunks n xs = (if xs = [] \<or> n = 0 then [] else take n xs # chunks n (drop n xs))"
  by pat_completeness auto
termination by (relation "measure (\<lambda>(n, xs). length xs)") auto

declare chunks.simps [simp del]

text \<open>
  A count that differs from the store's is repaired by ensuring every stored Capture.  \<open>depths\<close>
  and \<open>show_error\<close> only fill the parts of the health snapshot that are not read here.
\<close>

definition reconcile_ledger ::
  "(wal_error \<Rightarrow> string) \<Rightarrow> store_config \<Rightarrow> writer list \<Rightarrow> delivery_db \<Rightarrow> delivery_error + delivery_db" where
  "reconcile_ledger show_error cfg stores db =
     rbind (ledger_health db) (\<lambda>c.
     let captures = sh_captures (sharded_health_of show_error cfg (map (\<lambda>_. 0) stores) stores)
     in if unat (dc_total c) \<noteq> captures
        then try_fold (\<lambda>batch db. rbind (ensure_many batch db) (\<lambda>r. Inr (snd r))) (chunks 4096 (sharded_list stores)) db
        else Inr db)"

definition relay_open ::
  "(wal_error \<Rightarrow> string) \<Rightarrow> (string \<Rightarrow> string) \<Rightarrow> (string \<Rightarrow> wal_error + capture_record) \<Rightarrow> string \<Rightarrow> u64
     \<Rightarrow> relay_config \<Rightarrow> (nat \<Rightarrow> disk) \<Rightarrow> topology_file \<Rightarrow> seed_file \<Rightarrow> delivery_db \<Rightarrow> relay_error + relay" where
  "relay_open show_error sha validate at now cfg disks topology seed_at db =
     rbind (check_relay_config cfg) (\<lambda>_.
     rbind (lift_error StoreFailed (open_sharded sha validate at (rc_store cfg) (rc_store_shards cfg) disks topology)) (\<lambda>r.
     rbind (lift_error LedgerFailed (open_ledger seed_at db)) (\<lambda>db.
     rbind (lift_error LedgerFailed (reconcile_ledger show_error (rc_store cfg) (fst r) db)) (\<lambda>db.
     rbind (lift_error LedgerFailed (queue_pending cfg now db \<lparr>ds_scheduled = [], ds_queue = []\<rparr>)) (\<lambda>schedule.
     Inr \<lparr>rl_stores = fst r, rl_ledger = db, rl_schedule = schedule\<rparr>)))))"


section \<open>Enqueueing\<close>

definition enqueue_locator :: "capture_record \<Rightarrow> submit_ack \<Rightarrow> locator" where
  "enqueue_locator r a =
     \<lparr>lo_capture_id = cr_capture_id r, lo_raw_sha256 = cr_sha256 r, lo_segment_id = ack_segment_id a,
      lo_offset = ack_offset a, lo_length = ack_length a, lo_received_at = None, lo_model = None\<rparr>"

definition acknowledged_locators ::
  "capture_record list \<Rightarrow> (submit_error + submit_ack) list \<Rightarrow> locator list" where
  "acknowledged_locators records results =
     List.map_filter (\<lambda>(r, result). case result of Inl _ \<Rightarrow> None | Inr a \<Rightarrow> Some (enqueue_locator r a))
       (zip records results)"

text \<open>
  What the enqueue path changes even when it then fails: the store keeps what it made durable.
\<close>

definition enqueue_batch ::
  "(string \<Rightarrow> string) \<Rightarrow> (string \<Rightarrow> string) \<Rightarrow> (nat \<Rightarrow> capture_record list \<Rightarrow> arrival list) \<Rightarrow> relay_config
     \<Rightarrow> capture_record list \<Rightarrow> relay \<Rightarrow> (relay_error + (submit_error + submit_ack) list) \<times> relay" where
  "enqueue_batch digest sha timing cfg records s =
     (case submit_batch digest sha (rc_store cfg) timing records (rl_stores s) of (results, stores) \<Rightarrow>
       (let s = s\<lparr>rl_stores := stores\<rparr>; locators = acknowledged_locators records results
        in case ensure_many locators (rl_ledger s) of
             Inl e \<Rightarrow> (Inl (LedgerFailed e), s)
           | Inr (n, db) \<Rightarrow>
               (Inr results,
                s\<lparr>rl_ledger := db,
                  rl_schedule := fold (\<lambda>l sched. snd (queue_capture cfg (lo_capture_id l) sched)) locators (rl_schedule s)\<rparr>)))"

definition enqueue_record ::
  "(string \<Rightarrow> string) \<Rightarrow> (string \<Rightarrow> string) \<Rightarrow> (nat \<Rightarrow> capture_record list \<Rightarrow> arrival list) \<Rightarrow> relay_config
     \<Rightarrow> capture_record \<Rightarrow> relay \<Rightarrow> (relay_error + submit_ack) \<times> relay" where
  "enqueue_record digest sha timing cfg record s =
     (case sharded_submit digest sha (rc_store cfg) timing record (rl_stores s) of (result, stores) \<Rightarrow>
       (let s = s\<lparr>rl_stores := stores\<rparr>
        in case result of
             Inl e \<Rightarrow> (Inl (SubmitFailed e), s)
           | Inr a \<Rightarrow>
               (case ensure_many [enqueue_locator record a] (rl_ledger s) of
                  Inl e \<Rightarrow> (Inl (LedgerFailed e), s)
                | Inr (n, db) \<Rightarrow>
                    (Inr a, s\<lparr>rl_ledger := db,
                             rl_schedule := snd (queue_capture cfg (cr_capture_id record) (rl_schedule s))\<rparr>))))"


section \<open>Health\<close>

definition relay_health_of :: "(wal_error \<Rightarrow> string) \<Rightarrow> relay_config \<Rightarrow> nat list \<Rightarrow> relay \<Rightarrow> delivery_error + relay_health" where
  "relay_health_of show_error cfg depths s =
     (let local = sharded_health_of show_error (rc_store cfg) depths (rl_stores s)
      in rbind (ledger_health (rl_ledger s)) (\<lambda>c.
         let conservation_ok =
               (dc_total c = dc_pending c + dc_inflight c + dc_delivered c + dc_conflicts c + dc_failed c);
             unsettled = saturating_add (dc_pending c) (dc_inflight c);
             backlog_degraded = (32 \<le> dc_total c \<and> dc_total c < saturating_mul unsettled 10)
         in Inr \<lparr>rh_ok = (sh_ok local \<and> conservation_ok \<and> dc_conflicts c = 0 \<and> dc_failed c = 0 \<and> \<not> backlog_degraded),
                 rh_delivery_records = dc_total c, rh_pending = dc_pending c, rh_inflight = dc_inflight c,
                 rh_delivered = dc_delivered c, rh_conflicts = dc_conflicts c, rh_failed = dc_failed c,
                 rh_delivery_attempts = dc_attempts c,
                 rh_delivery_retries = saturating_sub (dc_attempts c) (dc_total c),
                 rh_conservation_ok = conservation_ok, rh_backlog_degraded = backlog_degraded\<rparr>))"

end
