(* ===== verification/StoreLocators.thy ===== *)
theory StoreLocators
  imports ShardedTheorems
begin

text \<open>
  Acknowledgements name the stored locators: whatever a store answers, an acknowledged submission
  carries the locator the ledger holds for its id, and a locator never changes once stored.
\<close>

definition acknowledges :: "locator \<Rightarrow> submit_ack \<Rightarrow> bool" where
  "acknowledges l a \<longleftrightarrow> a = ack l False ''accepted'' \<or> a = ack l True ''duplicate''"

definition locates :: "wal \<Rightarrow> string \<Rightarrow> submit_ack \<Rightarrow> bool" where
  "locates w k a \<longleftrightarrow> (\<exists>l. tget (w_captures w) k = Some l \<and> acknowledges l a)"

definition extends :: "wal \<Rightarrow> wal \<Rightarrow> bool" where
  "extends w w' \<longleftrightarrow> (\<forall>k l. tget (w_captures w) k = Some l \<longrightarrow> tget (w_captures w') k = Some l)"

lemma extends_refl [simp]: "extends w w"
  by (simp add: extends_def)

lemma extends_trans [trans]: "extends u v \<Longrightarrow> extends v w \<Longrightarrow> extends u w"
  by (simp add: extends_def)

lemma locates_mono: "extends v w \<Longrightarrow> locates v k a \<Longrightarrow> locates w k a"
  by (auto simp: extends_def locates_def)

lemma batch_locates:
  assumes run: "batch_run sha cfg now aged batch w ps ds w'" and inv: "wal_ok sha w"
    and i: "i < length batch" and a: "batch_result ps ds i = Inr a"
  shows "locates w' (cr_capture_id (batch ! i)) a"
proof -
  let ?cl = "classify (w_captures w) batch"
  from run have b: "map fst ps = cl_pending ?cl" "ds = map (resolve_duplicate ps) (cl_duplicates ?cl)"
    by (simp_all add: batch_run_def Let_def)
  note cls = class_ok_classify [of "w_captures w" batch]
  show ?thesis
  proof (cases "map_of ps i")
    case (Some l)
    with a batch_indexed [OF run inv, of i l] show ?thesis
      by (auto simp: batch_result_def locates_def acknowledges_def dest: map_of_SomeD)
  next
    case None
    with a obtain l where l: "map_of ds i = Some l" "a = ack l True ''duplicate''"
      by (auto simp: batch_result_def split: option.splits)
    then obtain s where s: "(i, s) \<in> set (cl_duplicates ?cl)" "l = snd (resolve_duplicate ps (i, s))"
      by (auto simp: b(2) resolve_duplicate_def dest!: map_of_SomeD)
    from cls s(1) have d: "dup_ok (w_captures w) batch (cl_pending ?cl) (i, s)" by (auto simp: class_ok_def)
    have "tget (w_captures w') (cr_capture_id (batch ! i)) = Some l"
    proof (cases s)
      case (Existing l')
      with d s(2) index_captures_extends [OF run inv] show ?thesis by (auto simp: resolve_duplicate_def)
    next
      case (InBatch p)
      with d have p: "p \<in> set (cl_pending ?cl)" "cr_capture_id (batch ! p) = cr_capture_id (batch ! i)" by auto
      from pending_locator [OF b(1) p(1)] obtain lp where lp: "(p, lp) \<in> set ps" by blast
      from class_ok_disjoint [OF cls] b(1) lp have "map_of ps p = Some lp" by simp
      with s(2) InBatch batch_indexed [OF run inv lp] p(2) show ?thesis by (simp add: resolve_duplicate_def)
    qed
    with l(2) show ?thesis by (auto simp: locates_def acknowledges_def)
  qed
qed

lemma commit_batch_locates:
  assumes ok: "writer_ok sha s" and h: "hashed sha batch" "batch \<noteq> []"
    and c: "commit_batch sha cfg now aged batch s = (True, map SubmitAnswer rs, s')"
  shows "extends (wr_wal s) (wr_wal s')"
    and "list_all2 (\<lambda>r x. \<forall>a. x = SubmitAnswer (Inr a) \<longrightarrow> locates (wr_wal s') (cr_capture_id r) a)
      batch (map SubmitAnswer rs)"
proof -
  from ok have w: "wal_ok sha (wr_wal s)" by (simp add: writer_ok_def)
  from c obtain w' k where e: "commit_batch_inner sha cfg now aged batch (wr_wal s) = Inr (w', rs)"
    "s' = s\<lparr>wr_wal := w', wr_state := apply_runtime_counters w' k (wr_state s)\<rparr>"
    by (auto simp: commit_batch_def res_simps inj_map_eq_map inj_def split: sum.splits)
  from commit_batch_run [OF w h e(1)] obtain ps ds where
    b: "batch_run sha cfg now aged batch (wr_wal s) ps ds w'" "rs = map (batch_result ps ds) [0..<length batch]" by blast
  from index_captures_extends [OF b(1) w] show "extends (wr_wal s) (wr_wal s')" by (simp add: extends_def e(2))
  from batch_locates [OF b(1) w] show "list_all2 (\<lambda>r x. \<forall>a. x = SubmitAnswer (Inr a) \<longrightarrow>
      locates (wr_wal s') (cr_capture_id r) a) batch (map SubmitAnswer rs)"
    by (simp add: list_all2_conv_all_nth b(2) e(2))
qed

lemma writer_loop_locates:
  assumes "writer_ok sha s" "hashed sha rs" "no_alias rs" "map ar_command as = map Submit rs"
  shows "extends (wr_wal s) (wr_wal (snd (snd (writer_loop sha cfg integrity as s))))
    \<and> list_all2 (\<lambda>r x. \<forall>a. x = SubmitAnswer (Inr a) \<longrightarrow>
        locates (wr_wal (snd (snd (writer_loop sha cfg integrity as s)))) (cr_capture_id r) a)
      rs (fst (writer_loop sha cfg integrity as s))"
  using assms
proof (induction "length as" arbitrary: as rs s rule: less_induct)
  case less
  let ?run = "writer_loop sha cfg integrity"
  show ?case
  proof (cases as)
    case Nil
    with less.prems show ?thesis by (simp add: writer_loop.simps)
  next
    case (Cons a bs)
    with less.prems(4) obtain r ss where rs: "rs = r # ss" "ar_command a = Submit r" "map ar_command bs = map Submit ss"
      by (cases rs) auto
    obtain batch rest where c: "collect cfg [r] (length (cr_canonical r)) bs = (batch, rest)" by fastforce
    from collect_spec [OF c] obtain more where
      more: "batch = r # more" "map ar_command bs = map Submit more @ map ar_command rest" by auto
    from rs(3) more(2) obtain tt where ss: "ss = more @ tt" "map ar_command rest = map Submit tt"
      by (metis map_eq_append_conv list.inj_map_strong writer_command.inject(1))
    have batch: "rs = batch @ tt" "batch \<noteq> []" by (simp_all add: rs(1) ss(1) more(1))
    have h: "hashed sha batch" "hashed sha tt" "no_alias batch" "no_alias tt"
      using less.prems(2,3) no_alias_append [of batch tt] by (simp_all add: batch(1))
    obtain xs u where u: "commit_batch sha cfg (ar_now a) (ar_aged a) batch s = (True, map SubmitAnswer xs, u)" "writer_ok sha u"
      using commit_batch_ok [OF less.prems(1) h(1) batch(2) h(3), of cfg "ar_now a" "ar_aged a"] by blast
    have "length rest < length as"
      using collect_shorter [of cfg "[r]" "length (cr_canonical r)" bs] c Cons by simp
    note ih = less.hyps [OF this u(2) h(2,4) ss(2)]
    note l = commit_batch_locates [OF less.prems(1) h(1) batch(2) u(1)]
    have run: "?run as s = (map SubmitAnswer xs @ fst (?run rest u), snd (?run rest u))"
      unfolding Cons by (rule writer_loop_submit [OF rs(2) c u(1)])
    let ?w = "wr_wal (snd (snd (?run rest u)))"
    have "list_all2 (\<lambda>r x. \<forall>a. x = SubmitAnswer (Inr a) \<longrightarrow> locates ?w (cr_capture_id r) a) batch (map SubmitAnswer xs)"
      using l(2) by (rule list_all2_mono) (use locates_mono [OF ih [THEN conjunct1]] in blast)
    then have "list_all2 (\<lambda>r x. \<forall>a. x = SubmitAnswer (Inr a) \<longrightarrow> locates ?w (cr_capture_id r) a)
        (batch @ tt) (map SubmitAnswer xs @ fst (?run rest u))"
      using ih [THEN conjunct2] by (rule list_all2_appendI)
    then show ?thesis
      unfolding run fst_conv snd_conv batch(1) using extends_trans [OF l(1) ih [THEN conjunct1]] by blast
  qed
qed

lemma submit_answer_SubmitAnswer:
  "submit_answer out p = Inr a \<Longrightarrow> p < length out \<and> out ! p = SubmitAnswer (Inr a)"
  by (auto simp: submit_answer_def split: if_splits writer_answer.splits)


section \<open>The sharded store\<close>

definition locator_of :: "(string \<Rightarrow> string) \<Rightarrow> writer list \<Rightarrow> string \<rightharpoonup> locator" where
  "locator_of digest stores k = tget (w_captures (wr_wal (stores ! shard_for digest (length stores) k))) k"

lemma abs_sharded_locator: "abs_sharded digest stores k = map_option lo_raw_sha256 (locator_of digest stores k)"
  by (simp add: abs_sharded_def abs_store_def locator_of_def)

lemma submit_batch_locates:
  assumes ok: "stores_ok digest sha stores" and t: "faithful_timing timing" and h: "hashed sha records" "no_alias records"
    and e: "submit_batch digest sha cfg timing records stores = (results, stores')"
  shows "locator_of digest stores k = Some l \<Longrightarrow> locator_of digest stores' k = Some l"
    and "i < length records \<Longrightarrow> results ! i = Inr a \<Longrightarrow>
      \<exists>l. locator_of digest stores' (cr_capture_id (records ! i)) = Some l \<and> acknowledges l a"
proof -
  let ?n = "length stores"
  let ?rs = "\<lambda>j. shard_records digest ?n j records"
  let ?run = "\<lambda>j. writer_loop sha cfg True (timing j (?rs j)) (stores ! j)"
  have n: "0 < ?n" using ok by (simp add: stores_ok_def)
  from e have r: "results = map (\<lambda>i. let j = shard_for digest ?n (cr_capture_id (records ! i))
        in submit_answer (fst (map ?run [0..<?n] ! j)) (length (shard_records digest ?n j (take i records)))) [0..<length records]"
    and s': "stores' = map (\<lambda>run. snd (snd run)) (map ?run [0..<?n])"
    by (simp_all add: submit_batch_def Let_def)
  have sj: "stores' ! j = snd (snd (?run j))" if "j < ?n" for j using that by (simp add: s')
  have len: "length stores' = ?n" by (simp add: s')
  have loc: "extends (wr_wal (stores ! j)) (wr_wal (stores' ! j))"
    "list_all2 (\<lambda>r x. \<forall>a. x = SubmitAnswer (Inr a) \<longrightarrow> locates (wr_wal (stores' ! j)) (cr_capture_id r) a)
       (?rs j) (fst (?run j))" if "j < ?n" for j
  proof -
    have "writer_ok sha (stores ! j)" using ok that by (simp add: stores_ok_def)
    moreover have "hashed sha (?rs j)" "no_alias (?rs j)"
      using h by (simp_all add: shard_records_def hashed_filter no_alias_filter)
    moreover have "map ar_command (timing j (?rs j)) = map Submit (?rs j)" using t by (simp add: faithful_timing_def)
    ultimately show "extends (wr_wal (stores ! j)) (wr_wal (stores' ! j))"
      "list_all2 (\<lambda>r x. \<forall>a. x = SubmitAnswer (Inr a) \<longrightarrow> locates (wr_wal (stores' ! j)) (cr_capture_id r) a)
         (?rs j) (fst (?run j))"
      using writer_loop_locates [of sha "stores ! j" "?rs j" "timing j (?rs j)" cfg True]
      by (simp_all add: sj [OF that])
  qed
  show "locator_of digest stores' k = Some l" if "locator_of digest stores k = Some l"
    using loc(1) [OF shard_for_less [OF n]] that by (simp add: locator_of_def len extends_def)
  show "\<exists>l. locator_of digest stores' (cr_capture_id (records ! i)) = Some l \<and> acknowledges l a"
    if i: "i < length records" "results ! i = Inr a"
  proof -
    let ?j = "shard_for digest ?n (cr_capture_id (records ! i))"
    let ?p = "length (shard_records digest ?n ?j (take i records))"
    note j = shard_for_less [OF n, of digest "cr_capture_id (records ! i)"]
    have "submit_answer (fst (?run ?j)) ?p = Inr a" using i j by (simp add: r Let_def)
    then have p: "?p < length (fst (?run ?j))" "fst (?run ?j) ! ?p = SubmitAnswer (Inr a)"
      by (simp_all add: submit_answer_SubmitAnswer)
    have "?rs ?j ! ?p = records ! i"
      using nth_filter_prefix [OF i(1), of "\<lambda>r. shard_for digest ?n (cr_capture_id r) = ?j"]
      by (simp add: shard_records_def)
    with list_all2_nthD2 [OF loc(2) [OF j] p(1)] p(2)
    have "locates (wr_wal (stores' ! ?j)) (cr_capture_id (records ! i)) a" by simp
    then show ?thesis by (simp add: locates_def locator_of_def len)
  qed
qed

text \<open>An id that is new after a batch was accepted in it.\<close>

lemma spec_run_new:
  assumes "fst (spec_run rs m) k \<noteq> m k"
  shows "\<exists>i < length rs. cr_capture_id (rs ! i) = k \<and> snd (spec_run rs m) ! i = Accepted"
  using assms
proof (induction rs arbitrary: m)
  case (Cons r rs)
  obtain m1 o1 m2 os where s: "spec_submit r m = (m1, o1)" "spec_run rs m1 = (m2, os)" by fastforce
  show ?case
  proof (cases "m1 k = m k")
    case True
    with Cons.prems s Cons.IH [of m1] obtain i where "i < length rs" "cr_capture_id (rs ! i) = k" "os ! i = Accepted"
      by auto
    with s show ?thesis by (intro exI [of _ "Suc i"]) simp
  next
    case False
    with s(1) have "cr_capture_id r = k" "o1 = Accepted"
      by (auto simp: spec_submit_def split: option.splits if_splits)
    with s show ?thesis by (intro exI [of _ 0]) simp
  qed
qed simp

lemma spec_run_keeps: "m k = Some h \<Longrightarrow> fst (spec_run rs m) k = Some h"
proof (induction rs arbitrary: m)
  case (Cons r rs)
  obtain m1 o1 m2 os where s: "spec_submit r m = (m1, o1)" "spec_run rs m1 = (m2, os)" by fastforce
  with Cons.prems have "m1 k = Some h" by (auto simp: spec_submit_def split: option.splits if_splits)
  with Cons.IH [of m1] s show ?case by simp
qed simp

text \<open>A record that did not conflict left its hash, or found one it matches.\<close>

lemma spec_run_hash:
  assumes "i < length rs" "snd (spec_run rs m) ! i \<noteq> Conflicted"
  shows "\<exists>h. fst (spec_run rs m) (cr_capture_id (rs ! i)) = Some h \<and> matches_persisted_sha256 (rs ! i) h"
  using assms
proof (induction rs arbitrary: m i)
  case (Cons r rs)
  obtain m1 o1 m2 os where s: "spec_submit r m = (m1, o1)" "spec_run rs m1 = (m2, os)" by fastforce
  show ?case
  proof (cases i)
    case 0
    with Cons.prems s obtain h where "m1 (cr_capture_id r) = Some h" "matches_persisted_sha256 r h"
      by (auto simp: spec_submit_def matches_persisted_sha256_def split: option.splits if_splits)
    with spec_run_keeps [of m1 "cr_capture_id r" h rs] s 0 show ?thesis by simp
  next
    case (Suc j)
    with Cons.prems Cons.IH [of j m1] s show ?thesis by simp
  qed
qed simp


section \<open>The service its clients see\<close>

text \<open>
  What the Relay and the Collector rely on of a Capture store: the answers are those of the
  abstract store, an acknowledgement carries the stored locator, and locators are stable.
\<close>

locale capture_service =
  fixes inv :: "'s \<Rightarrow> bool" and valid :: "capture_record list \<Rightarrow> bool"
    and stored :: "'s \<Rightarrow> string \<Rightarrow> locator option"
    and submit :: "capture_record list \<Rightarrow> 's \<Rightarrow> (submit_error + submit_ack) list \<times> 's"
  assumes keeps: "inv s \<Longrightarrow> valid rs \<Longrightarrow> submit rs s = (xs, s') \<Longrightarrow> inv s'"
    and stable: "inv s \<Longrightarrow> valid rs \<Longrightarrow> submit rs s = (xs, s') \<Longrightarrow> stored s k = Some l \<Longrightarrow> stored s' k = Some l"
    and located: "inv s \<Longrightarrow> valid rs \<Longrightarrow> submit rs s = (xs, s') \<Longrightarrow> i < length rs \<Longrightarrow> xs ! i = Inr a \<Longrightarrow>
      \<exists>l. stored s' (cr_capture_id (rs ! i)) = Some l \<and> acknowledges l a"
    and keyed: "inv s \<Longrightarrow> stored s k = Some l \<Longrightarrow> lo_capture_id l = k"
    and answered: "inv s \<Longrightarrow> valid rs \<Longrightarrow> submit rs s = (xs, s') \<Longrightarrow> Inl Unavailable \<notin> set xs
      \<and> spec_run rs (\<lambda>k. map_option lo_raw_sha256 (stored s k))
          = (\<lambda>k. map_option lo_raw_sha256 (stored s' k), map response xs)"
begin

lemma answers_all: "inv s \<Longrightarrow> valid rs \<Longrightarrow> submit rs s = (xs, s') \<Longrightarrow> length xs = length rs"
  using answered [of s rs xs s'] length_spec_run [of rs "\<lambda>k. map_option lo_raw_sha256 (stored s k)"] by simp

lemma response_not_conflicted: "x \<noteq> Inl Unavailable \<Longrightarrow> response x \<noteq> Conflicted \<longleftrightarrow> (\<exists>a. x = Inr a)"
  by (cases x) (auto simp: response_def)

text \<open>What is stored afterwards was stored before or is acknowledged.\<close>

lemma new_acknowledged:
  assumes s: "inv s" "valid rs" "submit rs s = (xs, s')" and k: "stored s' k \<noteq> None" "stored s k = None"
  shows "\<exists>i a. i < length rs \<and> cr_capture_id (rs ! i) = k \<and> xs ! i = Inr a"
proof -
  let ?m = "\<lambda>k. map_option lo_raw_sha256 (stored s k)"
  note a = answered [OF s]
  from k have "fst (spec_run rs ?m) k \<noteq> ?m k" using a by auto
  from spec_run_new [OF this] obtain i where i: "i < length rs" "cr_capture_id (rs ! i) = k"
    "map response xs ! i = Accepted" using a by auto
  moreover from i a answers_all [OF s] have "xs ! i \<noteq> Inl Unavailable" by (metis nth_mem)
  ultimately show ?thesis
    using response_not_conflicted [of "xs ! i"] answers_all [OF s] by auto
qed

text \<open>An acknowledged record of the current format has the stored hash.\<close>

lemma acknowledged_hash:
  assumes s: "inv s" "valid rs" "submit rs s = (xs, s')" and i: "i < length rs" "xs ! i = Inr a"
  shows "\<exists>l. stored s' (cr_capture_id (rs ! i)) = Some l \<and> matches_persisted_sha256 (rs ! i) (lo_raw_sha256 l)
    \<and> acknowledges l a \<and> ack_raw_sha256 a = lo_raw_sha256 l \<and> ack_length a = lo_length l \<and> ack_capture_id a = cr_capture_id (rs ! i)
    \<and> ack_segment_id a = lo_segment_id l \<and> ack_offset a = lo_offset l"
proof -
  let ?m = "\<lambda>k. map_option lo_raw_sha256 (stored s k)"
  note a = answered [OF s]
  from located [OF s i] obtain l where l: "stored s' (cr_capture_id (rs ! i)) = Some l" "acknowledges l a" by blast
  have "snd (spec_run rs ?m) ! i \<noteq> Conflicted"
    using a answers_all [OF s] i by (simp add: response_def)
  from spec_run_hash [OF i(1) this] a l(1) have "matches_persisted_sha256 (rs ! i) (lo_raw_sha256 l)" by auto
  with l keyed [OF keeps [OF s] l(1)] show ?thesis by (auto simp: ack_def acknowledges_def)
qed

end

definition submits_valid ::
  "(string \<Rightarrow> string) \<Rightarrow> (nat \<Rightarrow> capture_record list \<Rightarrow> arrival list) \<Rightarrow> capture_record list \<Rightarrow> bool" where
  "submits_valid sha timing records \<longleftrightarrow> faithful_timing timing \<and> hashed sha records \<and> no_alias records"

lemma locator_of_keyed:
  assumes "stores_ok digest sha stores" "locator_of digest stores k = Some l"
  shows "lo_capture_id l = k"
proof -
  have "0 < length stores" using assms(1) by (simp add: stores_ok_def)
  from shard_for_less [OF this] assms(1) have "wal_ok sha (wr_wal (stores ! shard_for digest (length stores) k))"
    by (simp add: stores_ok_def writer_ok_def)
  with assms(2) show ?thesis by (simp add: locator_of_def wal_ok_def ledger_ok_def)
qed

interpretation sharded: capture_service "stores_ok digest sha" "submits_valid sha timing"
    "locator_of digest" "submit_batch digest sha cfg timing"
proof unfold_locales
  fix s rs xs s' k l i a
  assume inv: "stores_ok digest sha s" and v: "submits_valid sha timing rs"
    and e: "submit_batch digest sha cfg timing rs s = (xs, s')"
  from v have p: "faithful_timing timing" "hashed sha rs" "no_alias rs" by (simp_all add: submits_valid_def)
  note r = submit_batch_refines [OF inv p e] and loc = submit_batch_locates [OF inv p e]
  have m: "(\<lambda>k. map_option lo_raw_sha256 (locator_of digest s k)) = abs_sharded digest s" for s
    by (simp add: abs_sharded_locator fun_eq_iff)
  show "stores_ok digest sha s'" using r by simp
  show "locator_of digest s' k = Some l" if "locator_of digest s k = Some l" by (rule loc(1) [OF that])
  show "\<exists>l. locator_of digest s' (cr_capture_id (rs ! i)) = Some l \<and> acknowledges l a"
    if "i < length rs" "xs ! i = Inr a" by (rule loc(2) [OF that])
  show "Inl Unavailable \<notin> set xs \<and> spec_run rs (\<lambda>k. map_option lo_raw_sha256 (locator_of digest s k))
      = (\<lambda>k. map_option lo_raw_sha256 (locator_of digest s' k), map response xs)"
    unfolding m using r by simp
next
  show "stores_ok digest sha s \<Longrightarrow> locator_of digest s k = Some l \<Longrightarrow> lo_capture_id l = k" for s k l
    by (rule locator_of_keyed)
qed

end
