(* ===== verification/RelayTheorems.thy ===== *)
theory RelayTheorems
  imports Relay StoreLocators WalCrash
begin

text \<open>
  The two halves of the Relay agree: every stored Capture has a delivery row that names its hash
  and length.  Enqueueing keeps it so, a restart restores it after a crash between the two
  writes, and it fails for one kind of retry only, a Capture stored under a legacy hash.
\<close>

section \<open>Rows that fit the store\<close>

definition row_fits :: "locator \<Rightarrow> delivery_record \<Rightarrow> bool" where
  "row_fits l r \<longleftrightarrow> dr_raw_sha256 r = lo_raw_sha256 l
     \<and> (dr_bytes r = 0 \<or> dr_bytes r = of_nat (lo_length l))"

definition fits :: "(string \<rightharpoonup> locator) \<Rightarrow> (string, delivery_record) table \<Rightarrow> bool" where
  "fits loc ds \<longleftrightarrow> (\<forall>i r. tget ds i = Some r \<longrightarrow> (\<exists>l. loc i = Some l \<and> row_fits l r))"

definition names_payload :: "(string \<rightharpoonup> locator) \<Rightarrow> locator \<Rightarrow> bool" where
  "names_payload loc l \<longleftrightarrow> (\<exists>s. loc (lo_capture_id l) = Some s
     \<and> lo_raw_sha256 s = lo_raw_sha256 l \<and> lo_length s = lo_length l)"

lemma fits_dom: "fits loc ds \<Longrightarrow> dom (tget ds) \<subseteq> dom loc"
  by (force simp: fits_def)

lemma fits_mono: "fits loc ds \<Longrightarrow> (\<And>k l. loc k = Some l \<Longrightarrow> loc' k = Some l) \<Longrightarrow> fits loc' ds"
  unfolding fits_def by blast

lemma fitsD: "fits loc ds \<Longrightarrow> loc i = Some l \<Longrightarrow> tget ds i = Some r \<Longrightarrow> row_fits l r"
  by (fastforce simp: fits_def)

lemma fits_put:
  assumes "fits loc ds" "loc i = Some l" "row_fits l r"
  shows "fits loc (tput i r ds)"
  using assms by (simp add: fits_def)

lemma table_length: "tsorted t \<Longrightarrow> length t = card (dom (tget t))"
  by (metis dom_map_of_conv_image_fst distinct_card length_map set_map tsorted_distinct)

lemma fits_length:
  assumes "rows_ok ds" "fits loc ds" "finite (dom loc)"
  shows "length ds \<le> card (dom loc)"
  using assms card_mono [OF assms(3) fits_dom [OF assms(2)]] by (simp add: table_length rows_ok_def)

lemma ensure_one_fits:
  assumes "fits loc (dd_deliveries db)" "names_payload loc l"
  shows "\<exists>db' c' n'. ensure_one l (db, c, n) = Inr (db', c', n') \<and> fits loc (dd_deliveries db')
    \<and> dom (tget (dd_deliveries db')) = insert (lo_capture_id l) (dom (tget (dd_deliveries db)))"
proof -
  from assms(2) obtain s where s: "loc (lo_capture_id l) = Some s" "lo_raw_sha256 s = lo_raw_sha256 l"
    "lo_length s = lo_length l" by (auto simp: names_payload_def)
  show ?thesis
  proof (cases "tget (dd_deliveries db) (lo_capture_id l)")
    case None
    have "row_fits s (new_delivery l)" using s by (simp add: row_fits_def new_delivery_def)
    with fits_put [OF assms(1) s(1)] None show ?thesis by (simp add: ensure_one_def)
  next
    case (Some r)
    then have "row_fits s r" by (rule fitsD [OF assms(1) s(1)])
    then have r: "dr_raw_sha256 r = lo_raw_sha256 l" "dr_bytes r = 0 \<or> dr_bytes r = of_nat (lo_length l)"
      using s by (simp_all add: row_fits_def)
    have "row_fits s (r\<lparr>dr_bytes := of_nat (lo_length l)\<rparr>)" using s r by (simp add: row_fits_def)
    with fits_put [OF assms(1) s(1)] Some r assms(1) show ?thesis
      by (cases "dr_bytes r = 0") (auto simp: ensure_one_def insert_absorb dom_def)
  qed
qed

lemma ensure_fold:
  assumes "body_ok db c" "fits loc (dd_deliveries db)" "\<forall>l \<in> set ls. names_payload loc l"
    and "finite (dom loc)" "card (dom loc) + 1 < 2 ^ 64"
  shows "\<exists>db' c' n'. try_fold ensure_one ls (db, c, n) = Inr (db', c', n') \<and> body_ok db' c'
    \<and> fits loc (dd_deliveries db')
    \<and> dom (tget (dd_deliveries db')) = dom (tget (dd_deliveries db)) \<union> lo_capture_id ` set ls"
  using assms(1-3)
proof (induction ls arbitrary: db c n)
  case (Cons l ls)
  from ensure_one_fits [OF Cons.prems(2), of l c n] Cons.prems(3) obtain d e m where
    o: "ensure_one l (db, c, n) = Inr (d, e, m)" "fits loc (dd_deliveries d)"
      "dom (tget (dd_deliveries d)) = insert (lo_capture_id l) (dom (tget (dd_deliveries db)))"
    by auto
  have "rows_ok (dd_deliveries db)" using Cons.prems(1) by (simp add: body_ok_def tables_ok_def)
  from fits_length [OF this Cons.prems(2) assms(4)] assms(5)
  have "length (dd_deliveries db) + 1 < 2 ^ 64" by linarith
  from ensure_one_ok(1) [OF Cons.prems(1) this o(1)] have "body_ok d e" .
  from Cons.IH [OF this o(2), of m] Cons.prems(3) obtain db' c' n' where
    "try_fold ensure_one ls (d, e, m) = Inr (db', c', n')" "body_ok db' c'" "fits loc (dd_deliveries db')"
    "dom (tget (dd_deliveries db')) = dom (tget (dd_deliveries d)) \<union> lo_capture_id ` set ls"
    by auto
  with o show ?case by (intro exI [of _ db'] exI [of _ c'] exI [of _ n']) simp
qed auto

lemma ensure_many_fits:
  assumes "delivery_ok db" "fits loc (dd_deliveries db)" "\<forall>l \<in> set ls. names_payload loc l"
    and "finite (dom loc)" "card (dom loc) + 1 < 2 ^ 64"
  shows "\<exists>n db'. ensure_many ls db = Inr (n, db') \<and> delivery_ok db' \<and> fits loc (dd_deliveries db')
    \<and> dom (tget (dd_deliveries db')) = dom (tget (dd_deliveries db)) \<union> lo_capture_id ` set ls"
proof -
  obtain c where c: "read_delivery_counters db = Inr c" "body_ok db c" by (rule delivery_ok_read [OF assms(1)])
  from ensure_fold [OF c(2) assms(2-5), of 0] obtain d e m where
    "try_fold ensure_one ls (db, c, 0) = Inr (d, e, m)" "body_ok d e" "fits loc (dd_deliveries d)"
    "dom (tget (dd_deliveries d)) = dom (tget (dd_deliveries db)) \<union> lo_capture_id ` set ls"
    by blast
  with c(1) show ?thesis
    by (intro exI [of _ m] exI [of _ "write_delivery_counters e d"])
      (simp add: ensure_many_def delivery_ok_write, simp add: write_delivery_counters_def)
qed

text \<open>A locator that contradicts a row makes the whole transaction fail.\<close>

lemma ensure_one_hash:
  assumes "ensure_one l (db, c, n) = Inr (db', c', n')"
  shows "(\<exists>r. tget (dd_deliveries db') (lo_capture_id l) = Some r \<and> dr_raw_sha256 r = lo_raw_sha256 l)
    \<and> (tget (dd_deliveries db) i = Some q \<longrightarrow>
        (\<exists>r. tget (dd_deliveries db') i = Some r \<and> dr_raw_sha256 r = dr_raw_sha256 q))"
  using assms by (auto simp: ensure_one_def new_delivery_def split: option.splits if_splits)

lemma ensure_fold_hash:
  assumes "try_fold ensure_one ls (db, c, n) = Inr (db', c', n')" "l \<in> set ls"
    "tget (dd_deliveries db) (lo_capture_id l) = Some q"
  shows "dr_raw_sha256 q = lo_raw_sha256 l"
  using assms
proof (induction ls arbitrary: db c n q)
  case (Cons x ls)
  from Cons.prems(1) obtain d e m where o: "ensure_one x (db, c, n) = Inr (d, e, m)"
    "try_fold ensure_one ls (d, e, m) = Inr (db', c', n')" by (auto simp: res_simps)
  note h = ensure_one_hash [OF o(1), of "lo_capture_id l" q]
  show ?case
  proof (cases "l \<in> set ls")
    case True
    from h Cons.prems(3) obtain r where "tget (dd_deliveries d) (lo_capture_id l) = Some r"
      "dr_raw_sha256 r = dr_raw_sha256 q" by blast
    with Cons.IH [OF o(2) True] show ?thesis by simp
  next
    case False
    with Cons.prems(2) h Cons.prems(3) show ?thesis by auto
  qed
qed simp


section \<open>The two halves\<close>

definition relay_fits :: "(string \<Rightarrow> string) \<Rightarrow> (string \<Rightarrow> string) \<Rightarrow> relay \<Rightarrow> bool" where
  "relay_fits digest sha s \<longleftrightarrow> stores_ok digest sha (rl_stores s) \<and> delivery_ok (rl_ledger s)
     \<and> fits (locator_of digest (rl_stores s)) (dd_deliveries (rl_ledger s))"

definition all_scheduled :: "(string \<Rightarrow> string) \<Rightarrow> relay \<Rightarrow> bool" where
  "all_scheduled digest s \<longleftrightarrow>
     dom (locator_of digest (rl_stores s)) = dom (tget (dd_deliveries (rl_ledger s)))"

text \<open>The counters of the ledger are 64 bits wide.\<close>

definition has_room :: "(string \<Rightarrow> string) \<Rightarrow> writer list \<Rightarrow> bool" where
  "has_room digest stores \<longleftrightarrow> card (dom (locator_of digest stores)) + 1 < 2 ^ 64"

lemma locator_of_shard:
  assumes "stores_ok digest sha stores"
  shows "locator_of digest stores k = Some l \<longleftrightarrow> (\<exists>j < length stores. tget (w_captures (wr_wal (stores ! j))) k = Some l)"
proof -
  have n: "0 < length stores" using assms by (simp add: stores_ok_def)
  have "shard_for digest (length stores) k = j" if "j < length stores" "tget (w_captures (wr_wal (stores ! j))) k = Some l" for j
  proof -
    have "k \<in> dom (abs_store (wr_wal (stores ! j)))" using that(2) by (simp add: abs_store_def dom_def)
    with assms that(1) show ?thesis unfolding stores_ok_def by blast
  qed
  then show ?thesis unfolding locator_of_def using shard_for_less [OF n, of digest k] by blast
qed

lemma finite_locators: "stores_ok digest sha stores \<Longrightarrow> finite (dom (locator_of digest stores))"
proof -
  assume ok: "stores_ok digest sha stores"
  have "dom (locator_of digest stores) \<subseteq> (\<Union>s \<in> set stores. dom (tget (w_captures (wr_wal s))))"
  proof
    fix k assume "k \<in> dom (locator_of digest stores)"
    then obtain l where "locator_of digest stores k = Some l" by blast
    then obtain j where "j < length stores" "tget (w_captures (wr_wal (stores ! j))) k = Some l"
      using locator_of_shard [OF ok] by blast
    then show "k \<in> (\<Union>s \<in> set stores. dom (tget (w_captures (wr_wal s))))"
      by (intro UN_I [of "stores ! j"] domI [of _ _ l]) simp_all
  qed
  then show ?thesis by (rule finite_subset) (simp add: finite_dom_map_of)
qed

lemma listed_captures:
  assumes "ledger_ok w"
  shows "l \<in> set (list_captures w) \<longleftrightarrow> tget (w_captures w) (lo_capture_id l) = Some l"
proof -
  have ts: "tsorted (w_captures w)" and key: "\<And>k l. tget (w_captures w) k = Some l \<Longrightarrow> lo_capture_id l = k"
    using assms by (simp_all add: ledger_ok_def)
  have "l \<in> set (list_captures w) \<longleftrightarrow> (\<exists>k. (k, l) \<in> set (w_captures w))" by (force simp: list_captures_def)
  also have "\<dots> \<longleftrightarrow> (\<exists>k. tget (w_captures w) k = Some l)" by (simp only: tbl.get_rows [OF ts])
  also have "\<dots> \<longleftrightarrow> tget (w_captures w) (lo_capture_id l) = Some l" using key by blast
  finally show ?thesis .
qed

lemma listed_locators:
  assumes "stores_ok digest sha stores"
  shows "l \<in> set (sharded_list stores) \<longleftrightarrow> locator_of digest stores (lo_capture_id l) = Some l"
proof -
  have w: "ledger_ok (wr_wal (stores ! j))" if "j < length stores" for j
    using assms that by (simp add: stores_ok_def writer_ok_def wal_ok_def)
  have "l \<in> set (sharded_list stores) \<longleftrightarrow> (\<exists>s \<in> set stores. l \<in> set (list_captures (wr_wal s)))"
    by (simp add: sharded_list_def)
  also have "\<dots> \<longleftrightarrow> (\<exists>j < length stores. l \<in> set (list_captures (wr_wal (stores ! j))))"
    by (metis in_set_conv_nth)
  also have "\<dots> \<longleftrightarrow> (\<exists>j < length stores. tget (w_captures (wr_wal (stores ! j))) (lo_capture_id l) = Some l)"
    using listed_captures [OF w] by blast
  also have "\<dots> \<longleftrightarrow> locator_of digest stores (lo_capture_id l) = Some l"
    by (rule locator_of_shard [OF assms, symmetric])
  finally show ?thesis .
qed

lemma listed_ids:
  assumes "stores_ok digest sha stores"
  shows "lo_capture_id ` set (sharded_list stores) = dom (locator_of digest stores)"
proof
  show "lo_capture_id ` set (sharded_list stores) \<subseteq> dom (locator_of digest stores)"
    using listed_locators [OF assms] by blast
  show "dom (locator_of digest stores) \<subseteq> lo_capture_id ` set (sharded_list stores)"
  proof
    fix k assume "k \<in> dom (locator_of digest stores)"
    then obtain l where l: "locator_of digest stores k = Some l" by blast
    with locator_of_keyed [OF assms l] listed_locators [OF assms, of l] show "k \<in> lo_capture_id ` set (sharded_list stores)"
      by (intro rev_image_eqI [of l]) simp_all
  qed
qed

lemma concat_chunks: "0 < n \<Longrightarrow> concat (chunks n xs) = xs"
proof (induction n xs rule: chunks.induct)
  case (1 n xs)
  then show ?case by (cases "xs = []") (simp_all add: chunks.simps)
qed

text \<open>Ensuring group after group.\<close>

lemma ensure_groups:
  assumes "delivery_ok db" "fits loc (dd_deliveries db)" "\<forall>l \<in> set (concat gs). names_payload loc l"
    and "finite (dom loc)" "card (dom loc) + 1 < 2 ^ 64"
  shows "\<exists>db'. try_fold (\<lambda>g db. rbind (ensure_many g db) (\<lambda>r. Inr (snd r))) gs db = Inr db' \<and> delivery_ok db'
    \<and> fits loc (dd_deliveries db')
    \<and> dom (tget (dd_deliveries db')) = dom (tget (dd_deliveries db)) \<union> lo_capture_id ` set (concat gs)"
  using assms(1-3)
proof (induction gs arbitrary: db)
  case (Cons g gs)
  from ensure_many_fits [OF Cons.prems(1,2) _ assms(4,5), of g] Cons.prems(3) obtain n d where
    d: "ensure_many g db = Inr (n, d)" "delivery_ok d" "fits loc (dd_deliveries d)"
      "dom (tget (dd_deliveries d)) = dom (tget (dd_deliveries db)) \<union> lo_capture_id ` set g" by auto
  from Cons.IH [OF d(2,3)] Cons.prems(3) obtain db' where
    "try_fold (\<lambda>g db. rbind (ensure_many g db) (\<lambda>r. Inr (snd r))) gs d = Inr db'" "delivery_ok db'"
    "fits loc (dd_deliveries db')"
    "dom (tget (dd_deliveries db')) = dom (tget (dd_deliveries d)) \<union> lo_capture_id ` set (concat gs)" by auto
  with d show ?case by (intro exI [of _ db']) auto
qed auto

text \<open>Comparing the two counts is enough: rows that fit are never more than the Captures.\<close>

lemma reconcile_schedules:
  assumes ok: "stores_ok digest sha stores" and db: "delivery_ok db" and f: "fits (locator_of digest stores) (dd_deliveries db)"
    and room: "has_room digest stores"
  shows "\<exists>db'. reconcile_ledger show_error cfg stores db = Inr db' \<and> delivery_ok db'
    \<and> fits (locator_of digest stores) (dd_deliveries db')
    \<and> dom (tget (dd_deliveries db')) = dom (locator_of digest stores)"
proof -
  let ?loc = "locator_of digest stores"
  note fin = finite_locators [OF ok]
  have card: "card (dom ?loc) + 1 < 2 ^ 64" using room by (simp add: has_room_def)
  obtain c where c: "read_delivery_counters db = Inr c" "body_ok db c" by (rule delivery_ok_read [OF db])
  then have rows: "rows_ok (dd_deliveries db)" and tot: "dc_total c = of_nat (length (dd_deliveries db))"
    by (simp_all add: body_ok_def tables_ok_def counters_match_def)
  have len: "length (dd_deliveries db) = card (dom (tget (dd_deliveries db)))"
    using rows by (simp add: rows_ok_def table_length)
  have tot': "unat (dc_total c) = card (dom (tget (dd_deliveries db)))"
    using tot rows len by (simp add: unat_of_nat_u64 rows_ok_def)
  have "dom (abs_sharded digest stores) = dom ?loc" by (auto simp: abs_sharded_locator dom_def)
  then have caps: "sh_captures (sharded_health_of show_error cfg (map (\<lambda>_. 0) stores) stores) = card (dom ?loc)"
    using health_captures [OF ok, of "map (\<lambda>_. 0) stores" show_error cfg] card by (simp add: sat_def)
  show ?thesis
  proof (cases "unat (dc_total c) = card (dom ?loc)")
    case True
    then have "dom (tget (dd_deliveries db)) = dom ?loc"
      using card_subset_eq [OF fin fits_dom [OF f]] tot' by simp
    with True db f c(1) caps show ?thesis by (simp add: reconcile_ledger_def ledger_health_def)
  next
    case False
    let ?gs = "chunks 4096 (sharded_list stores)"
    have cs: "concat ?gs = sharded_list stores" by (rule concat_chunks) simp
    have "\<forall>l \<in> set (concat ?gs). names_payload ?loc l"
      unfolding cs using listed_locators [OF ok] by (auto simp: names_payload_def)
    from ensure_groups [OF db f this fin card] obtain db' where
      d: "try_fold (\<lambda>g db. rbind (ensure_many g db) (\<lambda>r. Inr (snd r))) ?gs db = Inr db'" "delivery_ok db'"
      "fits ?loc (dd_deliveries db')"
      "dom (tget (dd_deliveries db')) = dom (tget (dd_deliveries db)) \<union> lo_capture_id ` set (sharded_list stores)"
      unfolding cs by blast
    from d(4) fits_dom [OF f] have "dom (tget (dd_deliveries db')) = dom ?loc"
      unfolding listed_ids [OF ok] by blast
    with False d c(1) caps show ?thesis by (simp add: reconcile_ledger_def ledger_health_def)
  qed
qed


section \<open>Enqueueing\<close>

lemma map_filter_member: "y \<in> set (List.map_filter f xs) \<longleftrightarrow> (\<exists>x \<in> set xs. f x = Some y)"
  by (induction xs) (auto simp: List.map_filter_simps split: option.splits)

lemma set_acknowledged:
  assumes "length results = length records"
  shows "l \<in> set (acknowledged_locators records results)
    \<longleftrightarrow> (\<exists>i a. i < length records \<and> results ! i = Inr a \<and> l = enqueue_locator (records ! i) a)"
proof -
  have "l \<in> set (acknowledged_locators records results)
      \<longleftrightarrow> (\<exists>p \<in> set (zip records results). \<exists>a. snd p = Inr a \<and> l = enqueue_locator (fst p) a)"
    by (simp add: acknowledged_locators_def map_filter_member case_prod_unfold)
      (intro bex_cong refl, auto split: sum.splits)
  also have "\<dots> \<longleftrightarrow> (\<exists>i < length records. \<exists>a. results ! i = Inr a \<and> l = enqueue_locator (records ! i) a)"
  proof (intro iffI; elim bexE exE conjE)
    fix i a assume i: "i < length records" "results ! i = Inr a" "l = enqueue_locator (records ! i) a"
    then have "(records ! i, results ! i) \<in> set (zip records results)" using assms by (auto simp: in_set_zip)
    then show "\<exists>p \<in> set (zip records results). \<exists>a. snd p = Inr a \<and> l = enqueue_locator (fst p) a"
      using i(2,3) by (intro bexI [of _ "(records ! i, results ! i)"]) simp_all
  qed (auto simp: in_set_zip)
  finally show ?thesis by blast
qed

text \<open>
  A record may also match what is stored by the hash of its bytes before migration.  The enqueue
  path offers the hash of its canonical form, which is the stored one unless the record is a retry
  of a Capture that was stored before the migration.
\<close>

definition no_legacy_retry :: "(string \<Rightarrow> string) \<Rightarrow> writer list \<Rightarrow> capture_record list \<Rightarrow> bool" where
  "no_legacy_retry digest stores records \<longleftrightarrow>
     list_all (\<lambda>r. case abs_sharded digest stores (cr_capture_id r) of
                      None \<Rightarrow> True
                    | Some h \<Rightarrow> cr_legacy_raw_sha256 r = Some h \<longrightarrow> cr_sha256 r = h) records"

lemma spec_run_source:
  "fst (spec_run rs m) k = Some h \<Longrightarrow> m k = Some h \<or> (\<exists>r \<in> set rs. cr_capture_id r = k \<and> cr_sha256 r = h)"
proof (induction rs arbitrary: m)
  case (Cons r rs)
  obtain m1 o1 m2 os where s: "spec_submit r m = (m1, o1)" "spec_run rs m1 = (m2, os)" by fastforce
  with Cons.prems have "fst (spec_run rs m1) k = Some h" by simp
  from Cons.IH [OF this] s(1) show ?case
    by (auto simp: spec_submit_def split: option.splits if_splits)
qed simp

lemma acknowledged_payload:
  assumes s: "stores_ok digest sha stores" "submits_valid sha timing records"
      "submit_batch digest sha cfg timing records stores = (results, stores')"
    and i: "i < length records" "results ! i = Inr a" and fresh: "no_legacy_retry digest stores records"
  shows "names_payload (locator_of digest stores') (enqueue_locator (records ! i) a)"
proof -
  let ?r = "records ! i" and ?m = "\<lambda>k. map_option lo_raw_sha256 (locator_of digest stores k)"
  from sharded.acknowledged_hash [OF s i] obtain l where
    l: "locator_of digest stores' (cr_capture_id ?r) = Some l" "matches_persisted_sha256 ?r (lo_raw_sha256 l)"
      "ack_capture_id a = cr_capture_id ?r" "ack_segment_id a = lo_segment_id l" "ack_offset a = lo_offset l"
      "ack_length a = lo_length l" by blast
  have "cr_sha256 ?r = lo_raw_sha256 l"
  proof (cases "cr_legacy_raw_sha256 ?r = Some (lo_raw_sha256 l)")
    case True
    from sharded.answered [OF s] l(1) have "fst (spec_run records ?m) (cr_capture_id ?r) = Some (lo_raw_sha256 l)"
      by (simp add: fun_eq_iff)
    from spec_run_source [OF this] show ?thesis
    proof
      assume "?m (cr_capture_id ?r) = Some (lo_raw_sha256 l)"
      then have "abs_sharded digest stores (cr_capture_id ?r) = Some (lo_raw_sha256 l)"
        by (simp add: abs_sharded_locator)
      with fresh i(1) True show ?thesis by (auto simp: no_legacy_retry_def list_all_length)
    next
      assume "\<exists>r \<in> set records. cr_capture_id r = cr_capture_id ?r \<and> cr_sha256 r = lo_raw_sha256 l"
      then obtain j where j: "j < length records" "cr_capture_id (records ! j) = cr_capture_id ?r"
        "cr_sha256 (records ! j) = lo_raw_sha256 l" by (auto simp: in_set_conv_nth)
      have "no_alias records" using s(2) by (simp add: submits_valid_def)
      from no_aliasD [OF this j(1) i(1) j(2)] True j(3) show ?thesis by simp
    qed
  qed (use l(2) in \<open>simp add: matches_persisted_sha256_def\<close>)
  with l show ?thesis by (simp add: names_payload_def enqueue_locator_def)
qed

lemma enqueue_schedules:
  assumes r: "relay_fits digest sha s" "submits_valid sha timing records" "no_legacy_retry digest (rl_stores s) records"
    and e: "submit_batch digest sha (rc_store cfg) timing records (rl_stores s) = (results, stores')"
    and room: "has_room digest stores'"
  shows "\<exists>s'. enqueue_batch digest sha timing cfg records s = (Inr results, s') \<and> relay_fits digest sha s'
    \<and> rl_stores s' = stores'
    \<and> dom (tget (dd_deliveries (rl_ledger s')))
        = dom (tget (dd_deliveries (rl_ledger s))) \<union> lo_capture_id ` set (acknowledged_locators records results)"
proof -
  let ?loc = "locator_of digest stores'" and ?ls = "acknowledged_locators records results"
  from r(1) have ok: "stores_ok digest sha (rl_stores s)" and db: "delivery_ok (rl_ledger s)"
    and f: "fits (locator_of digest (rl_stores s)) (dd_deliveries (rl_ledger s))"
    by (simp_all add: relay_fits_def)
  have ok': "stores_ok digest sha stores'" by (rule sharded.keeps [OF ok r(2) e])
  have f': "fits ?loc (dd_deliveries (rl_ledger s))"
    using f by (rule fits_mono) (rule sharded.stable [OF ok r(2) e])
  have len: "length results = length records" by (rule sharded.answers_all [OF ok r(2) e])
  have "names_payload ?loc l" if "l \<in> set ?ls" for l
  proof -
    from that obtain i a where i: "i < length records" "results ! i = Inr a" "l = enqueue_locator (records ! i) a"
      using set_acknowledged [OF len] by blast
    from acknowledged_payload [OF ok r(2) e i(1,2) r(3)] i(3) show ?thesis by simp
  qed
  then have n: "\<forall>l \<in> set ?ls. names_payload ?loc l" by blast
  have card: "card (dom ?loc) + 1 < 2 ^ 64" using room by (simp add: has_room_def)
  from ensure_many_fits [OF db f' n finite_locators [OF ok'] card] obtain k db' where
    d: "ensure_many ?ls (rl_ledger s) = Inr (k, db')" "delivery_ok db'" "fits ?loc (dd_deliveries db')"
      "dom (tget (dd_deliveries db')) = dom (tget (dd_deliveries (rl_ledger s))) \<union> lo_capture_id ` set ?ls"
    by blast
  with ok' show ?thesis by (simp add: enqueue_batch_def Let_def e relay_fits_def)
qed


section \<open>Opening\<close>

definition none_inflight :: "delivery_db \<Rightarrow> bool" where
  "none_inflight db \<longleftrightarrow> (\<forall>i r. tget (dd_deliveries db) i = Some r \<longrightarrow> dr_state r \<noteq> ''inflight'')"

lemma open_ledger_keeps:
  assumes "open_ledger seed_at db = Inr db'" "delivery_ok db"
  shows "delivery_ok db'" "fits loc (dd_deliveries db) \<Longrightarrow> fits loc (dd_deliveries db')"
    and "none_inflight db'"
proof -
  show "delivery_ok db'" by (rule open_ledger_ok [OF assms])
  have "\<exists>f. (\<forall>i. tget (dd_deliveries db') i = map_option f (tget (dd_deliveries db) i))
      \<and> (\<forall>l r. row_fits l r \<longrightarrow> row_fits l (f r)) \<and> (\<forall>r. dr_state (f r) \<noteq> ''inflight'')"
    using assms(1)
  proof (cases rule: open_ledger_cases)
    case (1 d)
    then have "tget (dd_deliveries db') i = map_option recovered_record (tget (dd_deliveries db) i)" for i
      using fast_startup_ok(2) [of d db' i] assms(2) by simp
    then show ?thesis
      by (intro exI [of _ recovered_record]) (simp add: recovered_record_def released_record_def row_fits_def)
  next
    case (2 d)
    have "rows_ok (dd_deliveries d)" using assms(2) 2(1) by (auto simp: delivery_ok_def body_ok_def tables_ok_def)
    from rebuild_ledger_ok(2) [OF this] 2 have
      "tget (dd_deliveries db') i = map_option returned_record (tget (dd_deliveries db) i)" for i by simp
    then show ?thesis
      by (intro exI [of _ returned_record]) (simp add: returned_record_def row_fits_def)
  qed
  then obtain f where f: "\<forall>i. tget (dd_deliveries db') i = map_option f (tget (dd_deliveries db) i)"
    "\<forall>l r. row_fits l r \<longrightarrow> row_fits l (f r)" "\<forall>r. dr_state (f r) \<noteq> ''inflight''" by (elim exE conjE)
  show "fits loc (dd_deliveries db) \<Longrightarrow> fits loc (dd_deliveries db')"
    using f(1,2) by (auto simp: fits_def) blast
  show "none_inflight db'" using f(1,3) by (auto simp: none_inflight_def)
qed

text \<open>A retry that matches what is stored is a duplicate, wherever it stands in its batch.\<close>

lemma spec_run_duplicate:
  assumes "i < length rs" "m (cr_capture_id (rs ! i)) = Some h" "matches_persisted_sha256 (rs ! i) h"
  shows "snd (spec_run rs m) ! i = Duplicate"
  using assms
proof (induction rs arbitrary: m i)
  case (Cons r rs)
  obtain m1 o1 m2 os where s: "spec_submit r m = (m1, o1)" "spec_run rs m1 = (m2, os)" by fastforce
  show ?case
  proof (cases i)
    case 0
    with Cons.prems s show ?thesis by (auto simp: spec_submit_def)
  next
    case (Suc j)
    have "m1 (cr_capture_id (rs ! j)) = Some h"
      using Cons.prems(2) s(1) Suc by (auto simp: spec_submit_def split: option.splits if_splits)
    with Cons.IH [of j m1] Cons.prems s Suc show ?thesis by simp
  qed
qed simp

lemma queue_all_fresh:
  assumes "distinct ids" "set ids \<inter> set (ds_scheduled s) = {}"
    and "length (ds_queue s) + length ids \<le> rc_delivery_queue_items cfg"
  shows "ds_queue (queue_all cfg ids s) = ds_queue s @ ids"
  using assms by (induction ids arbitrary: s) (simp_all add: queue_capture_def)

lemma queue_pending_fresh:
  assumes "delivery_ok db" "rc_delivery_queue_items cfg \<noteq> 0"
  shows "\<exists>sched. queue_pending cfg now db \<lparr>ds_scheduled = [], ds_queue = []\<rparr> = Inr sched
    \<and> distinct (ds_queue sched) \<and> (\<forall>i \<in> set (ds_queue sched). claimable now db i)
    \<and> (length (ds_queue sched) < rc_delivery_queue_items cfg \<longrightarrow>
        (\<forall>i. claimable now db i \<longrightarrow> i \<in> set (ds_queue sched)))"
proof -
  obtain out where o: "pending_ids now (rc_delivery_queue_items cfg) db = Inr out" "distinct out"
    "length out \<le> max 1 (rc_delivery_queue_items cfg)" "\<forall>i \<in> set out. claimable now db i"
    "length out < rc_delivery_queue_items cfg \<longrightarrow> (\<forall>i. claimable now db i \<longrightarrow> i \<in> set out)"
    using pending_ids_spec [OF assms(1), of now "rc_delivery_queue_items cfg"] by (elim exE conjE)
  have "ds_queue (queue_all cfg out \<lparr>ds_scheduled = [], ds_queue = []\<rparr>) = out"
    using queue_all_fresh [of out "\<lparr>ds_scheduled = [], ds_queue = []\<rparr>" cfg] o(2,3) assms(2) by simp
  with o show ?thesis by (simp add: queue_pending_def)
qed

lemma ensure_one_inflight:
  assumes "none_inflight (fst s)" "ensure_one l s = Inr t"
  shows "none_inflight (fst t)"
proof (cases s)
  case (fields db c n)
  show ?thesis
  proof (cases "tget (dd_deliveries db) (lo_capture_id l)")
    case None
    with assms fields show ?thesis by (auto simp: ensure_one_def none_inflight_def new_delivery_def split: if_splits)
  next
    case (Some r)
    from assms(1) fields Some have "dr_state r \<noteq> ''inflight''" by (simp add: none_inflight_def)
    with assms fields Some show ?thesis by (auto simp: ensure_one_def none_inflight_def split: if_splits)
  qed
qed

lemma ensure_many_inflight:
  assumes "none_inflight db" "ensure_many ls db = Inr (n, db')"
  shows "none_inflight db'"
proof -
  from assms(2) obtain c s where c: "try_fold ensure_one ls (db, c, 0) = Inr s"
    "db' = write_delivery_counters (fst (snd s)) (fst s)"
    by (auto simp: ensure_many_def res_simps)
  have "none_inflight (fst s)"
    by (rule try_fold_invariant [OF c(1), of "\<lambda>s. none_inflight (fst s)"])
      (simp add: assms(1), erule (1) ensure_one_inflight)
  then show ?thesis by (simp add: c(2) write_delivery_counters_def none_inflight_def)
qed

lemma reconcile_inflight:
  assumes "none_inflight db" "reconcile_ledger show_error cfg stores db = Inr db'"
  shows "none_inflight db'"
proof -
  let ?f = "\<lambda>g db. rbind (ensure_many g db) (\<lambda>r. Inr (snd r))"
  from assms(2) consider "db' = db" | "try_fold ?f (chunks 4096 (sharded_list stores)) db = Inr db'"
    by (auto simp: reconcile_ledger_def Let_def res_simps split: if_splits)
  then show ?thesis
  proof cases
    case 2
    have "none_inflight t" if "none_inflight d" "?f g d = Inr t" for g d t
    proof -
      from that(2) obtain n where "ensure_many g d = Inr (n, t)" by (auto simp: res_simps)
      with that(1) show ?thesis by (rule ensure_many_inflight)
    qed
    with 2 assms(1) show ?thesis by (rule try_fold_invariant)
  qed (use assms(1) in simp)
qed


text \<open>Every acknowledged record gets its row, and nothing stored is left without one.\<close>

lemma enqueue_keeps_scheduled:
  assumes "relay_fits digest sha s" "all_scheduled digest s" "submits_valid sha timing records" "no_legacy_retry digest (rl_stores s) records"
    and "enqueue_batch digest sha timing cfg records s = (answer, s')" "has_room digest (rl_stores s')"
  shows "\<exists>results. answer = Inr results \<and> length results = length records
    \<and> relay_fits digest sha s' \<and> all_scheduled digest s'
    \<and> (\<forall>i a. i < length records \<and> results ! i = Inr a \<longrightarrow>
        (\<exists>r. tget (dd_deliveries (rl_ledger s')) (cr_capture_id (records ! i)) = Some r
          \<and> dr_raw_sha256 r = cr_sha256 (records ! i)))"
proof -
  obtain results stores' where e: "submit_batch digest sha (rc_store cfg) timing records (rl_stores s) = (results, stores')"
    by fastforce
  have ok: "stores_ok digest sha (rl_stores s)" using assms(1) by (simp add: relay_fits_def)
  have "rl_stores s' = stores'"
    using assms(5) by (auto simp: enqueue_batch_def Let_def e split: sum.splits)
  with assms(6) have room: "has_room digest stores'" by simp
  from enqueue_schedules [OF assms(1,3,4) e room] assms(5) have
    s': "answer = Inr results" "relay_fits digest sha s'" "rl_stores s' = stores'"
      "dom (tget (dd_deliveries (rl_ledger s')))
        = dom (tget (dd_deliveries (rl_ledger s))) \<union> lo_capture_id ` set (acknowledged_locators records results)"
    by auto
  note len = sharded.answers_all [OF ok assms(3) e]
  have fit: "fits (locator_of digest stores') (dd_deliveries (rl_ledger s'))"
    using s'(2,3) by (simp add: relay_fits_def)
  have row: "cr_capture_id (records ! i) \<in> dom (tget (dd_deliveries (rl_ledger s')))"
    if "i < length records" "results ! i = Inr a" for i a
    unfolding s'(4) using that set_acknowledged [OF len, of "enqueue_locator (records ! i) a"]
    by (intro UnI2 rev_image_eqI [of "enqueue_locator (records ! i) a"]) (auto simp: enqueue_locator_def)
  have "dom (locator_of digest stores') \<subseteq> dom (tget (dd_deliveries (rl_ledger s')))"
  proof
    fix k assume k: "k \<in> dom (locator_of digest stores')"
    show "k \<in> dom (tget (dd_deliveries (rl_ledger s')))"
    proof (cases "locator_of digest (rl_stores s) k")
      case None
      with k sharded.new_acknowledged [OF ok assms(3) e, of k] obtain i a where
        "i < length records" "cr_capture_id (records ! i) = k" "results ! i = Inr a" by auto
      with row show ?thesis by blast
    next
      case (Some l)
      with assms(2) show ?thesis unfolding s'(4) all_scheduled_def by blast
    qed
  qed
  with fits_dom [OF fit] s'(3) have "all_scheduled digest s'" by (simp add: all_scheduled_def)
  moreover have "\<exists>r. tget (dd_deliveries (rl_ledger s')) (cr_capture_id (records ! i)) = Some r
      \<and> dr_raw_sha256 r = cr_sha256 (records ! i)"
    if i: "i < length records" "results ! i = Inr a" for i a
  proof -
    from row [OF i] obtain r where r: "tget (dd_deliveries (rl_ledger s')) (cr_capture_id (records ! i)) = Some r" by blast
    from acknowledged_payload [OF ok assms(3) e i assms(4)] obtain l where
      "locator_of digest stores' (cr_capture_id (records ! i)) = Some l" "lo_raw_sha256 l = cr_sha256 (records ! i)"
      by (auto simp: names_payload_def enqueue_locator_def)
    with fitsD [OF fit _ r] r show ?thesis by (simp add: row_fits_def)
  qed
  ultimately show ?thesis using s'(1,2) len by blast
qed


section \<open>Properties\<close>


definition example_idle :: relay where
  "example_idle =
     \<lparr>rl_stores = example_stores, rl_ledger = empty_ledger, rl_schedule = \<lparr>ds_scheduled = [], ds_queue = []\<rparr>\<rparr>"

lemma example_unstored: "abs_sharded example_digest_bytes example_stores = Map.empty"
  by (auto simp: abs_sharded_def example_stores_def nth_Cons' example_empty shard_for_def)

lemma example_idle_ok: "relay_fits example_digest_bytes sha example_idle"
  "all_scheduled example_digest_bytes example_idle"
proof -
  have "locator_of example_digest_bytes example_stores k = None" for k
    using example_unstored abs_sharded_locator [of example_digest_bytes example_stores k] by simp
  then show "all_scheduled example_digest_bytes example_idle"
    by (simp add: all_scheduled_def example_idle_def empty_ledger_def dom_def)
  show "relay_fits example_digest_bytes sha example_idle"
    by (simp add: relay_fits_def example_idle_def example_stores_ok empty_ledger_ok)
      (simp add: fits_def empty_ledger_def)
qed

lemma example_submits: "submits_valid example_sha example_timing example_batch"
  "no_legacy_retry example_digest_bytes (rl_stores example_idle) example_batch"
  using example_batch_ok example_timing_ok
  by (simp_all add: submits_valid_def no_legacy_retry_def example_idle_def example_unstored example_batch_def
      example_record_def)

lemma has_room_spec:
  assumes "stores_ok digest sha stores" "submits_valid sha timing records"
    "submit_batch digest sha cfg timing records stores = (results, stores')"
    and "dom (fst (spec_run records (abs_sharded digest stores))) \<subseteq> set ks" "length ks + 1 < 2 ^ 64"
  shows "has_room digest stores'"
proof -
  have "(\<lambda>k. map_option lo_raw_sha256 (locator_of digest stores k)) = abs_sharded digest stores" for stores
    by (simp add: abs_sharded_locator fun_eq_iff)
  with sharded.answered [OF assms(1-3)] assms(4) have "dom (abs_sharded digest stores') \<subseteq> set ks" by simp
  moreover have "dom (abs_sharded digest stores') = dom (locator_of digest stores')"
    by (auto simp: abs_sharded_locator dom_def)
  ultimately have "card (dom (locator_of digest stores')) \<le> length ks"
    by (metis card_length card_mono finite_set le_trans)
  with assms(5) show ?thesis by (simp add: has_room_def)
qed


text \<open>
  C20: Opening heals an interrupted enqueue: from recovered stores and any consistent ledger whose
  rows fit them, even one that misses Captures the stores made durable, the Relay opens with a
  delivery row for every stored Capture, nothing leased, and its queue filled with claimable
  Captures in due order; every claimable one unless the queue is full.
\<close>

theorem open_schedules_every_capture:
  assumes "check_relay_config cfg = Inr ()"
    and "open_sharded sha validate at (rc_store cfg) (rc_store_shards cfg) disks topology = Inr (stores, topology')"
    and "stores_ok digest sha stores" "has_room digest stores"
    and "open_ledger seed_at db = Inr db1" "delivery_ok db" "fits (locator_of digest stores) (dd_deliveries db)"
  shows "\<exists>s. relay_open show_error sha validate at now cfg disks topology seed_at db = Inr s
    \<and> rl_stores s = stores \<and> relay_fits digest sha s \<and> all_scheduled digest s \<and> none_inflight (rl_ledger s)
    \<and> distinct (ds_queue (rl_schedule s)) \<and> (\<forall>i \<in> set (ds_queue (rl_schedule s)). claimable now (rl_ledger s) i)
    \<and> (length (ds_queue (rl_schedule s)) < rc_delivery_queue_items cfg \<longrightarrow>
        (\<forall>i. claimable now (rl_ledger s) i \<longrightarrow> i \<in> set (ds_queue (rl_schedule s))))"
proof -
  note o = open_ledger_keeps [OF assms(5,6)]
  obtain db2 where d: "reconcile_ledger show_error (rc_store cfg) stores db1 = Inr db2" "delivery_ok db2"
      "fits (locator_of digest stores) (dd_deliveries db2)"
      "dom (tget (dd_deliveries db2)) = dom (locator_of digest stores)"
    using reconcile_schedules [OF assms(3) o(1) o(2) [OF assms(7)] assms(4), of show_error "rc_store cfg"]
    by (elim exE conjE)
  note fl = reconcile_inflight [OF o(3) d(1)]
  have q: "rc_delivery_queue_items cfg \<noteq> 0"
    using assms(1) by (auto simp: check_relay_config_def split: if_splits)
  obtain sched where sched: "queue_pending cfg now db2 \<lparr>ds_scheduled = [], ds_queue = []\<rparr> = Inr sched"
      "distinct (ds_queue sched)" "\<forall>i \<in> set (ds_queue sched). claimable now db2 i"
      "length (ds_queue sched) < rc_delivery_queue_items cfg \<longrightarrow>
        (\<forall>i. claimable now db2 i \<longrightarrow> i \<in> set (ds_queue sched))"
    using queue_pending_fresh [OF d(2) q, of now] by (elim exE conjE)
  have "relay_open show_error sha validate at now cfg disks topology seed_at db
      = Inr \<lparr>rl_stores = stores, rl_ledger = db2, rl_schedule = sched\<rparr>"
    by (simp add: relay_open_def assms(1,2,5) lift_error_def d(1) sched(1))
  moreover have "relay_fits digest sha \<lparr>rl_stores = stores, rl_ledger = db2, rl_schedule = sched\<rparr>"
    by (simp add: relay_fits_def assms(3) d(2,3))
  ultimately show ?thesis
    using sched(2-4) fl d(4) by (intro exI [of _ "\<lparr>rl_stores = stores, rl_ledger = db2, rl_schedule = sched\<rparr>"])
      (simp add: all_scheduled_def)
qed

text \<open>One shard after a crash that left the Capture \<open>cap-a\<close> out of both ledgers.\<close>

definition single_relay :: relay_config where
  "single_relay = example_relay\<lparr>rc_store_shards := 1\<rparr>"

definition torn_disk :: disk where
  "torn_disk = crash_disk (empty_wal ''t0'') example_torn ''tw''"

lemma example_opened:
  "\<exists>stores t l. open_sharded example_sha example_validate ''t2'' (rc_store single_relay) (rc_store_shards single_relay)
      (\<lambda>_. torn_disk) NoTopology = Inr (stores, t)
    \<and> stores_ok example_digest_bytes example_sha stores
    \<and> locator_of example_digest_bytes stores = [''cap-a'' \<mapsto> l] \<and> lo_raw_sha256 l = ''one''"
proof -
  obtain u l where u: "open_writer example_sha example_validate ''t2'' torn_disk = Inr (u, 1)"
      "wal_ok example_sha u" "w_captures u = [(''cap-a'', l)]" "lo_raw_sha256 l = ''one''"
    using example_reopened unfolding torn_disk_def by (elim exE conjE)
  from refresh_published [OF u(2), of 1] obtain st where st: "refresh_state 1 None u = Inr st" "published u st" by blast
  let ?s = "\<lparr>wr_wal = u, wr_state = st\<rparr>"
  have "start_writer example_sha example_validate ''t2'' torn_disk = Inr ?s" using st(1) by (simp add: start_writer_def u(1))
  then have "open_capture_store example_sha example_validate ''t2'' (rc_store single_relay) 0 torn_disk = Inr ?s"
    by (simp add: open_capture_store_def single_relay_def example_relay_def)
  then have "\<exists>t. open_sharded example_sha example_validate ''t2'' (rc_store single_relay) (rc_store_shards single_relay)
      (\<lambda>_. torn_disk) NoTopology = Inr ([?s], t)"
    by (simp add: open_sharded_def ensure_topology_def Let_def single_relay_def)
  moreover have "stores_ok example_digest_bytes example_sha [?s]"
    by (simp add: stores_ok_def writer_ok_def u(2) st(2) shard_for_def)
  moreover have "locator_of example_digest_bytes [?s] = [''cap-a'' \<mapsto> l]"
    by (auto simp: locator_of_def shard_for_def u(3) fun_eq_iff)
  ultimately show ?thesis using u(4) by blast
qed

lemma example_restart:
  "check_relay_config single_relay = Inr ()" "open_ledger NoSeed empty_ledger = Inr empty_ledger"
  by (simp_all add: check_relay_config_def single_relay_def example_relay_def sat_def open_ledger_def open_schema_def
      open_quality_def fast_startup_def empty_ledger_def)

theorem open_schedules_every_capture_witness:
  "\<exists>s. relay_open (\<lambda>_. ''error'') example_sha example_validate ''t2'' 5 single_relay (\<lambda>_. torn_disk) NoTopology NoSeed empty_ledger
      = Inr s
    \<and> relay_fits example_digest_bytes example_sha s
    \<and> (\<exists>r. tget (dd_deliveries (rl_ledger s)) ''cap-a'' = Some r \<and> dr_raw_sha256 r = ''one'')"
proof -
  obtain stores t l where o: "open_sharded example_sha example_validate ''t2'' (rc_store single_relay)
        (rc_store_shards single_relay) (\<lambda>_. torn_disk) NoTopology = Inr (stores, t)"
      "stores_ok example_digest_bytes example_sha stores"
      "locator_of example_digest_bytes stores = [''cap-a'' \<mapsto> l]" "lo_raw_sha256 l = ''one''"
    using example_opened by (elim exE conjE)
  have room: "has_room example_digest_bytes stores" by (simp add: has_room_def o(3))
  have f: "fits (locator_of example_digest_bytes stores) (dd_deliveries empty_ledger)"
    by (simp add: fits_def empty_ledger_def)
  obtain s where s: "relay_open (\<lambda>_. ''error'') example_sha example_validate ''t2'' 5 single_relay (\<lambda>_. torn_disk)
        NoTopology NoSeed empty_ledger = Inr s" "rl_stores s = stores"
      "relay_fits example_digest_bytes example_sha s" "all_scheduled example_digest_bytes s"
    using open_schedules_every_capture [OF example_restart(1) o(1,2) room example_restart(2) empty_ledger_ok f,
        of "\<lambda>_. ''error''" 5] by (elim exE conjE)
  have "dom (tget (dd_deliveries (rl_ledger s))) = dom [''cap-a'' \<mapsto> l]"
    using s(4) unfolding all_scheduled_def s(2) o(3) by (rule sym)
  then have "''cap-a'' \<in> dom (tget (dd_deliveries (rl_ledger s)))" by simp
  then obtain r where r: "tget (dd_deliveries (rl_ledger s)) ''cap-a'' = Some r" by blast
  from s(2,3) have "fits [''cap-a'' \<mapsto> l] (dd_deliveries (rl_ledger s))" by (simp add: relay_fits_def o(3))
  from fitsD [OF this _ r] have "dr_raw_sha256 r = ''one''" by (simp add: row_fits_def o(4))
  with s(1,3) r show ?thesis by blast
qed

text \<open>The relay on that store, with its row.\<close>

definition legacy_record :: capture_record where
  "legacy_record = (example_record ''cap-a'' ''uno'')\<lparr>cr_legacy_raw_sha256 := Some ''one''\<rparr>"

lemma example_legacy:
  "\<exists>s r. relay_fits example_digest_bytes example_sha s \<and> tget (dd_deliveries (rl_ledger s)) ''cap-a'' = Some r
    \<and> dr_raw_sha256 r = ''one'' \<and> locator_of example_digest_bytes (rl_stores s) ''cap-b'' = None"
proof -
  obtain stores t l where o: "stores_ok example_digest_bytes example_sha stores"
      "locator_of example_digest_bytes stores = [''cap-a'' \<mapsto> l]" "lo_raw_sha256 l = ''one''"
    using example_opened by (elim exE conjE)
  have "delivery_ok empty_ledger" "fits (locator_of example_digest_bytes stores) (dd_deliveries empty_ledger)"
    by (simp_all add: empty_ledger_ok fits_def) (simp add: empty_ledger_def)
  moreover have "has_room example_digest_bytes stores" by (simp add: has_room_def o(2))
  ultimately obtain db where db: "delivery_ok db" "fits [''cap-a'' \<mapsto> l] (dd_deliveries db)"
      "dom (tget (dd_deliveries db)) = dom [''cap-a'' \<mapsto> l]"
    using reconcile_schedules [OF o(1), of empty_ledger] unfolding o(2) by blast
  from db(3) have "''cap-a'' \<in> dom (tget (dd_deliveries db))" by simp
  then obtain r where r: "tget (dd_deliveries db) ''cap-a'' = Some r" by blast
  with fitsD [OF db(2) _ r] have "dr_raw_sha256 r = ''one''" by (simp add: row_fits_def o(3))
  with o db r show ?thesis
    by (intro exI [of _ "\<lparr>rl_stores = stores, rl_ledger = db, rl_schedule = \<lparr>ds_scheduled = [], ds_queue = []\<rparr>\<rparr>"]
        exI [of _ r]) (simp add: relay_fits_def)
qed

text \<open>
  C21: A retry of a Capture that was stored under its legacy hash breaks its whole batch: the
  store answers it as a duplicate, but its delivery row holds the stored hash and the enqueue
  path offers the new one, so the batch fails, the ledger stays as it was, and no Capture that
  the stores newly accepted with it is scheduled for delivery.
\<close>

theorem legacy_retry_refused:
  assumes "relay_fits digest sha s" "submits_valid sha timing records" "i < length records"
    and "tget (dd_deliveries (rl_ledger s)) (cr_capture_id (records ! i)) = Some row"
    and "cr_legacy_raw_sha256 (records ! i) = Some (dr_raw_sha256 row)" "cr_sha256 (records ! i) \<noteq> dr_raw_sha256 row"
    and "enqueue_batch digest sha timing cfg records s = (answer, s')"
    and "submit_batch digest sha (rc_store cfg) timing records (rl_stores s) = (results, stores')"
  shows "response (results ! i) = Duplicate \<and> (\<exists>e. answer = Inl (LedgerFailed e))
    \<and> rl_stores s' = stores' \<and> rl_ledger s' = rl_ledger s \<and> rl_schedule s' = rl_schedule s"
proof -
  from assms(1) have ok: "stores_ok digest sha (rl_stores s)" and db: "delivery_ok (rl_ledger s)"
    and f: "fits (locator_of digest (rl_stores s)) (dd_deliveries (rl_ledger s))"
    by (simp_all add: relay_fits_def)
  let ?m = "\<lambda>k. map_option lo_raw_sha256 (locator_of digest (rl_stores s) k)"
  note ans = sharded.answered [OF ok assms(2) assms(8)]
  note len = sharded.answers_all [OF ok assms(2) assms(8)]
  obtain l where l: "locator_of digest (rl_stores s) (cr_capture_id (records ! i)) = Some l" "row_fits l row"
    using f assms(4) by (auto simp: fits_def)
  then have "?m (cr_capture_id (records ! i)) = Some (dr_raw_sha256 row)" by (simp add: row_fits_def)
  moreover have "matches_persisted_sha256 (records ! i) (dr_raw_sha256 row)"
    using assms(5) by (simp add: matches_persisted_sha256_def)
  ultimately have dup: "snd (spec_run records ?m) ! i = Duplicate" by (rule spec_run_duplicate [OF assms(3)])
  then have r: "response (results ! i) = Duplicate" using ans len assms(3) by auto
  then obtain a where a: "results ! i = Inr a" by (auto simp: response_def split: sum.splits submit_error.splits)
  let ?ls = "acknowledged_locators records results" and ?l = "enqueue_locator (records ! i) a"
  have mem: "?l \<in> set ?ls" using set_acknowledged [OF len] assms(3) a by blast
  have "ensure_many ?ls (rl_ledger s) \<noteq> Inr x" for x
  proof
    assume "ensure_many ?ls (rl_ledger s) = Inr x"
    then obtain c t where "try_fold ensure_one ?ls (rl_ledger s, c, 0) = Inr t" by (auto simp: ensure_many_def res_simps)
    then obtain d e n where "try_fold ensure_one ?ls (rl_ledger s, c, 0) = Inr (d, e, n)" by (cases t) auto
    from ensure_fold_hash [OF this mem] assms(4,6) show False by (simp add: enqueue_locator_def)
  qed
  then obtain e where "ensure_many ?ls (rl_ledger s) = Inl e" by (meson sum.exhaust)
  with assms(7,8) r show ?thesis by (auto simp: enqueue_batch_def)
qed

theorem legacy_retry_refused_witness:
  "\<exists>s s' e. relay_fits example_digest_bytes example_sha s
    \<and> enqueue_batch example_digest_bytes example_sha example_timing example_relay
        [example_record ''cap-b'' ''two'', legacy_record] s = (Inl (LedgerFailed e), s')
    \<and> locator_of example_digest_bytes (rl_stores s') ''cap-b'' \<noteq> None
    \<and> tget (dd_deliveries (rl_ledger s')) ''cap-b'' = None"
proof -
  let ?rs = "[example_record ''cap-b'' ''two'', legacy_record]"
  obtain s r where s: "relay_fits example_digest_bytes example_sha s" "tget (dd_deliveries (rl_ledger s)) ''cap-a'' = Some r"
      "dr_raw_sha256 r = ''one''" "locator_of example_digest_bytes (rl_stores s) ''cap-b'' = None"
    using example_legacy by (elim exE conjE)
  obtain answer s' where e: "enqueue_batch example_digest_bytes example_sha example_timing example_relay ?rs s = (answer, s')"
    by fastforce
  obtain results stores' where sb: "submit_batch example_digest_bytes example_sha (rc_store example_relay) example_timing
      ?rs (rl_stores s) = (results, stores')" by fastforce
  have v: "submits_valid example_sha example_timing ?rs"
    using example_timing_ok
    by (simp add: submits_valid_def hashed_def no_alias_def legacy_record_def example_record_def example_sha_def)
  have i: "1 < length ?rs" "tget (dd_deliveries (rl_ledger s)) (cr_capture_id (?rs ! 1)) = Some r"
    "cr_legacy_raw_sha256 (?rs ! 1) = Some (dr_raw_sha256 r)" "cr_sha256 (?rs ! 1) \<noteq> dr_raw_sha256 r"
    using s(2,3) by (simp_all add: legacy_record_def example_record_def)
  from legacy_retry_refused [OF s(1) v i e sb] obtain x where
    x: "answer = Inl (LedgerFailed x)" "rl_stores s' = stores'" "rl_ledger s' = rl_ledger s" by blast
  have ok: "stores_ok example_digest_bytes example_sha (rl_stores s)"
    and f: "fits (locator_of example_digest_bytes (rl_stores s)) (dd_deliveries (rl_ledger s))"
    using s(1) by (simp_all add: relay_fits_def)
  have "fst (spec_run ?rs (\<lambda>k. map_option lo_raw_sha256 (locator_of example_digest_bytes (rl_stores s) k))) ''cap-b'' = Some ''two''"
    using s(4) by (simp add: spec_submit_def example_record_def legacy_record_def split: option.splits)
  with sharded.answered [OF ok v sb] have "map_option lo_raw_sha256 (locator_of example_digest_bytes stores' ''cap-b'') = Some ''two''"
    by simp
  then have "locator_of example_digest_bytes (rl_stores s') ''cap-b'' \<noteq> None" by (auto simp: x(2))
  moreover have "tget (dd_deliveries (rl_ledger s')) ''cap-b'' = None"
    using fits_dom [OF f] s(4) unfolding x(3) by blast
  ultimately show ?thesis using s(1) e x(1) by blast
qed

end
