(* ===== verification/CaptureSchema.thy ===== *)
theory CaptureSchema
  imports IngestQuality ToolSchema
begin

text \<open>
  The structural checks of a Capture envelope (\<open>capture.rs\<close>, the \<open>validate_*\<close> functions).  An
  envelope is a JSON object, a check answers with the message of its first failure; messages keep
  the text of the source up to the formatting of interpolated values.  \<open>sha\<close> is the hexadecimal
  SHA-256 of a string and \<open>parse\<close> the JSON parser.
\<close>

section \<open>Reading objects\<close>

type_synonym jobject = "(string \<times> json) list"

definition demand :: "bool \<Rightarrow> string \<Rightarrow> string + unit" where
  "demand ok message = (if ok then Inr () else Inl message)"

abbreviation for_each :: "('a \<Rightarrow> string + unit) \<Rightarrow> 'a list \<Rightarrow> string + unit" where
  "for_each f xs \<equiv> try_fold (\<lambda>x _. f x) xs ()"

definition ostr :: "jobject \<Rightarrow> string \<Rightarrow> string option" where
  "ostr ob k = Option.bind (tget ob k) as_str"

definition ou64 :: "jobject \<Rightarrow> string \<Rightarrow> u64 option" where
  "ou64 ob k = Option.bind (tget ob k) as_u64"

definition oobj :: "jobject \<Rightarrow> string \<Rightarrow> jobject option" where
  "oobj ob k = Option.bind (tget ob k) as_object"

definition oarr :: "jobject \<Rightarrow> string \<Rightarrow> json list option" where
  "oarr ob k = Option.bind (tget ob k) as_array"

text \<open>\<open>.and_then(Value::as_str).filter(|value| !value.trim().is_empty())\<close>\<close>

definition otext :: "jobject \<Rightarrow> string \<Rightarrow> string option" where
  "otext ob k = non_blank (ostr ob k)"

text \<open>A member that is absent or satisfies the condition.\<close>

definition absent_or :: "(json \<Rightarrow> bool) \<Rightarrow> jobject \<Rightarrow> string \<Rightarrow> bool" where
  "absent_or P ob k = (case tget ob k of None \<Rightarrow> True | Some v \<Rightarrow> P v)"

definition is_str :: "json \<Rightarrow> bool" where
  "is_str v = (as_str v \<noteq> None)"

definition is_bool :: "json \<Rightarrow> bool" where
  "is_bool v = (as_bool v \<noteq> None)"

definition is_obj :: "json \<Rightarrow> bool" where
  "is_obj v = (as_object v \<noteq> None)"

fun is_integer :: "json \<Rightarrow> bool" where
  "is_integer (Number (PosInt n)) = True"
| "is_integer (Number (NegInt n)) = True"
| "is_integer _ = False"

definition is_hexdigit :: "char \<Rightarrow> bool" where
  "is_hexdigit c \<longleftrightarrow> is_digit c \<or> CHR ''a'' \<le> c \<and> c \<le> CHR ''f'' \<or> CHR ''A'' \<le> c \<and> c \<le> CHR ''F''"

definition is_sha256_hex :: "string \<Rightarrow> bool" where
  "is_sha256_hex s \<longleftrightarrow> length s = 64 \<and> list_all is_hexdigit s"

text \<open>\<open>str::split(c)\<close>: the pieces between the separators, at least one.\<close>

fun split_char :: "char \<Rightarrow> string \<Rightarrow> string list" where
  "split_char c [] = [[]]"
| "split_char c (x # xs) =
     (if x = c then [] # split_char c xs
      else case split_char c xs of [] \<Rightarrow> [[x]] | s # ss \<Rightarrow> (x # s) # ss)"

text \<open>\<open>headers.iter().find_map(...)\<close>: the first textual value under a name, in any case.\<close>

definition header_value :: "jobject \<Rightarrow> string \<Rightarrow> string option" where
  "header_value headers name =
     (case filter (\<lambda>h. to_ascii_lowercase (fst h) = to_ascii_lowercase name \<and> is_str (snd h)) headers of
        [] \<Rightarrow> None
      | h # hs \<Rightarrow> as_str (snd h))"


section \<open>Common fields\<close>

definition validate_optional_string :: "jobject \<Rightarrow> string \<Rightarrow> string + unit" where
  "validate_optional_string ob field =
     demand (absent_or (\<lambda>v. v = Null \<or> is_str v) ob field) (field @ '' must be a string or null'')"

definition validate_response_status :: "json option \<Rightarrow> string + unit" where
  "validate_response_status value =
     (case value of
        None \<Rightarrow> Inr ()
      | Some v \<Rightarrow>
          if v = Null then Inr ()
          else rbind (ok_or ''responseStatus must be an integer or null''
                       (or_else (as_u64 v) (Option.bind (as_str v) parse_u64))) (\<lambda>status.
               demand (100 \<le> status \<and> status \<le> 599) ''responseStatus must be between 100 and 599''))"

definition record_types :: "string list" where
  "record_types = [''api_snapshot'', ''lifecycle_event'', ''tool_execution'', ''evaluation'',
     ''rollout_event'', ''telemetry_batch'']"

definition has_object :: "jobject \<Rightarrow> string \<Rightarrow> bool" where
  "has_object ob k \<longleftrightarrow> oobj ob k \<noteq> None"

definition evaluation_items :: "jobject \<Rightarrow> json option" where
  "evaluation_items ob = or_else (tget ob ''evaluationEvidence'') (tget ob ''evaluation_evidence'')"

definition has_session_identity :: "jobject \<Rightarrow> bool" where
  "has_session_identity ob \<longleftrightarrow>
     (case oobj ob ''traceContext'' of
        None \<Rightarrow> False
      | Some trace \<Rightarrow> list_ex (\<lambda>field. otext trace field \<noteq> None) [''task_session_id'', ''session_id'', ''thread_id''])"

definition validate_record_type :: "jobject \<Rightarrow> string + unit" where
  "validate_record_type ob =
     (case tget ob ''recordType'' of
        None \<Rightarrow> Inr ()
      | Some v \<Rightarrow>
          rbind (ok_or ''recordType must be a string'' (as_str v)) (\<lambda>t.
          rbind (demand (t \<in> set record_types) (''unsupported recordType '' @ t)) (\<lambda>_.
          rbind (if t \<in> {''lifecycle_event'', ''tool_execution'', ''evaluation''}
                 then rbind (demand (otext ob ''sourceNamespace'' \<noteq> None)
                               (t @ '' requires a non-empty sourceNamespace'')) (\<lambda>_.
                      demand (has_session_identity ob)
                        (t @ '' requires traceContext.task_session_id, session_id, or thread_id''))
                 else Inr ()) (\<lambda>_.
          if t = ''lifecycle_event'' \<and> \<not> has_object ob ''lifecycleEvent''
          then Inl ''lifecycle_event requires lifecycleEvent''
          else if t = ''tool_execution'' \<and> \<not> has_object ob ''toolExecution''
          then Inl ''tool_execution requires toolExecution''
          else if t = ''evaluation''
             \<and> (case Option.bind (evaluation_items ob) as_array of None \<Rightarrow> True | Some xs \<Rightarrow> xs = [])
          then Inl ''evaluation requires at least one evaluationEvidence item''
          else if t = ''rollout_event'' \<and> \<not> has_object ob ''rolloutEvent''
          then Inl ''rollout_event requires rolloutEvent''
          else if t = ''telemetry_batch'' \<and> \<not> has_object ob ''telemetryBatch''
          then Inl ''telemetry_batch requires telemetryBatch''
          else Inr ()))))"

definition validate_trace_context :: "jobject \<Rightarrow> string + unit" where
  "validate_trace_context ob =
     (case oobj ob ''traceContext'' of
        None \<Rightarrow> Inr ()
      | Some trace \<Rightarrow>
          rbind (for_each (validate_optional_string trace)
            [''task_session_id'', ''session_id'', ''thread_id'', ''conversation_id'', ''trace_id'', ''span_id'',
             ''parent_span_id'', ''task_id'', ''root_session_id'', ''parent_session_id'', ''parent_thread_id'',
             ''goal_id'', ''root_turn_id'', ''turn_id'', ''agent_id'', ''agent_path'', ''branch_id'',
             ''previous_response_id'', ''traceparent'', ''tracestate'', ''trace_flags'']) (\<lambda>_.
          demand (absent_or is_bool trace ''session_final'') ''traceContext.session_final must be a boolean''))"


section \<open>Historical rollout events\<close>

text \<open>The field messages all end the same way.\<close>

definition require_text :: "string \<Rightarrow> jobject \<Rightarrow> string \<Rightarrow> string + unit" where
  "require_text owner ob field = demand (otext ob field \<noteq> None) (owner @ ''.'' @ field @ '' is required'')"

definition validate_bundle_payload :: "(string \<Rightarrow> string) \<Rightarrow> (string \<Rightarrow> json option) \<Rightarrow> json \<Rightarrow> string + unit" where
  "validate_bundle_payload sha parse v =
     rbind (ok_or ''native rolloutEvent.payloads must contain objects'' (as_object v)) (\<lambda>payload.
     rbind (for_each (\<lambda>field.
         demand (if field = ''raw_json'' then ostr payload field \<noteq> None else otext payload field \<noteq> None)
           (''native rolloutEvent.payloads.'' @ field @ '' is required''))
       [''raw_payload_id'', ''path'', ''mirror_path'', ''raw_json'', ''sha256'']) (\<lambda>_.
     rbind (ok_or ''native rolloutEvent.payloads.raw_json is required'' (ostr payload ''raw_json'')) (\<lambda>raw_json.
     rbind (demand (parse raw_json \<noteq> None) ''native rolloutEvent.payloads.raw_json must be JSON'') (\<lambda>_.
     rbind (demand (ostr payload ''sha256'' = Some (sha raw_json))
              ''native rolloutEvent payload SHA-256 does not match raw bytes'') (\<lambda>_.
     demand (ou64 payload ''bytes'' = Some (of_nat (length raw_json)))
       ''native rolloutEvent payload length does not match raw bytes'')))))"

definition validate_native_bundle_evidence ::
  "(string \<Rightarrow> string) \<Rightarrow> (string \<Rightarrow> json option) \<Rightarrow> jobject \<Rightarrow> string \<Rightarrow> string + unit" where
  "validate_native_bundle_evidence sha parse event source_line =
     rbind (ok_or ''native rolloutEvent.raw_event_sha256 is required'' (ostr event ''raw_event_sha256'')) (\<lambda>raw_event_sha256.
     rbind (demand (raw_event_sha256 = sha source_line)
              ''native rolloutEvent.raw_event_sha256 does not match source_line'') (\<lambda>_.
     rbind (ok_or ''native rolloutEvent.bundle_manifest_raw is required'' (ostr event ''bundle_manifest_raw'')) (\<lambda>manifest_raw.
     rbind (ok_or ''native rolloutEvent.bundle_manifest_sha256 is required'' (ostr event ''bundle_manifest_sha256''))
       (\<lambda>manifest_sha256.
     rbind (demand (manifest_sha256 = sha manifest_raw)
              ''native rolloutEvent manifest SHA-256 does not match raw bytes'') (\<lambda>_.
     rbind (demand (parse manifest_raw \<noteq> None) ''native rolloutEvent.bundle_manifest_raw must be JSON'') (\<lambda>_.
     for_each (validate_bundle_payload sha parse)
       (case oarr event ''payloads'' of None \<Rightarrow> [] | Some payloads \<Rightarrow> payloads)))))))"

definition canonical_message :: "json \<Rightarrow> bool" where
  "canonical_message v \<longleftrightarrow>
     is_obj v \<and> get_str v ''role'' \<in> {Some ''system'', Some ''user'', Some ''assistant'', Some ''tool''}
     \<and> jget v ''content'' \<noteq> None"

definition validate_rollout_event ::
  "(string \<Rightarrow> string) \<Rightarrow> (string \<Rightarrow> json option) \<Rightarrow> jobject \<Rightarrow> string + unit" where
  "validate_rollout_event sha parse ob =
     (case tget ob ''rolloutEvent'' of
        None \<Rightarrow> Inr ()
      | Some v \<Rightarrow>
          rbind (ok_or ''rolloutEvent must be an object'' (as_object v)) (\<lambda>event.
          rbind (for_each (require_text ''rolloutEvent'' event)
            [''schema_version'', ''source'', ''source_session_id'', ''source_line'', ''source_line_sha256'',
             ''classification'']) (\<lambda>_.
          rbind (demand (ostr event ''schema_version'' = Some ''chiptrace.codex-rollout.v1'')
                   ''rolloutEvent.schema_version is unsupported'') (\<lambda>_.
          rbind (demand (ostr event ''source'' \<in> {Some ''codex_rollout_jsonl'', Some ''codex_rollout_trace_bundle''})
                   ''rolloutEvent.source is unsupported'') (\<lambda>_.
          rbind (demand (ostr event ''classification'' \<in> {Some ''known'', Some ''unknown''})
                   ''rolloutEvent.classification must be known or unknown'') (\<lambda>_.
          rbind (demand (ou64 event ''source_ordinal'' \<noteq> None) ''rolloutEvent.source_ordinal is required'') (\<lambda>_.
          rbind (ok_or ''rolloutEvent.source_line is required'' (ostr event ''source_line'')) (\<lambda>source_line.
          rbind (ok_or ''rolloutEvent.source_line_sha256 is required'' (ostr event ''source_line_sha256'')) (\<lambda>digest.
          rbind (demand (is_sha256_hex digest) ''rolloutEvent.source_line_sha256 must be a SHA-256 hex digest'') (\<lambda>_.
          rbind (demand (digest = sha source_line)
                   ''rolloutEvent.source_line_sha256 does not match source_line'') (\<lambda>_.
          rbind (if ostr event ''source'' = Some ''codex_rollout_trace_bundle''
                 then validate_native_bundle_evidence sha parse event source_line else Inr ()) (\<lambda>_.
          rbind (demand (absent_or (\<lambda>messages. case as_array messages of
                            None \<Rightarrow> False | Some ms \<Rightarrow> list_all canonical_message ms) ob ''rolloutMessages'')
                   ''rolloutMessages must contain canonical messages'') (\<lambda>_.
          demand (absent_or is_obj ob ''rolloutUsage'') ''rolloutUsage must be an object'')))))))))))))"


section \<open>Telemetry batches\<close>

definition telemetry_batch_version :: string where
  "telemetry_batch_version = ''chiptrace.telemetry-batch.v1''"

definition telemetry_reason :: "string \<times> json \<Rightarrow> u64 \<Rightarrow> string + u64" where
  "telemetry_reason r acc =
     (if fst r \<noteq> legacy_reason \<and> fst r \<notin> set quality_reason_codes
      then Inl ''telemetryBatch.quality_error_reasons contains an unsupported code''
      else rbind (ok_or ''telemetryBatch.quality_error_reasons values must be non-negative integers'' (as_u64 (snd r)))
             (\<lambda>count. Inr (saturating_add acc count)))"

definition validate_telemetry_batch ::
  "(string \<Rightarrow> string) \<Rightarrow> (string \<Rightarrow> json option) \<Rightarrow> jobject \<Rightarrow> string + unit" where
  "validate_telemetry_batch sha parse ob =
     (case tget ob ''telemetryBatch'' of
        None \<Rightarrow> Inr ()
      | Some v \<Rightarrow>
          rbind (ok_or ''telemetryBatch must be an object'' (as_object v)) (\<lambda>batch.
          rbind (demand (ostr batch ''schema_version'' = Some telemetry_batch_version)
                   ''telemetryBatch.schema_version is unsupported'') (\<lambda>_.
          rbind (demand (ostr batch ''endpoint'' \<in> {Some ''otlp_logs'', Some ''otlp_traces'', Some ''codex_hook''})
                   ''telemetryBatch.endpoint is unsupported'') (\<lambda>_.
          rbind (ok_or ''telemetryBatch.raw_json is required'' (ostr batch ''raw_json'')) (\<lambda>raw.
          rbind (demand (parse raw \<noteq> None) ''telemetryBatch.raw_json must be JSON'') (\<lambda>_.
          rbind (demand (ou64 batch ''raw_bytes'' = Some (of_nat (length raw)))
                   ''telemetryBatch.raw_bytes does not match raw_json UTF-8 bytes'') (\<lambda>_.
          rbind (demand (ostr batch ''raw_sha256'' = Some (sha raw))
                   ''telemetryBatch.raw_sha256 does not match raw_json'') (\<lambda>_.
          rbind (for_each (\<lambda>field. demand (ou64 batch field \<noteq> None)
                     (''telemetryBatch.'' @ field @ '' must be a non-negative integer''))
                   [''source_records'', ''derived_captures'', ''unknown_events'']) (\<lambda>_.
          rbind (demand (absent_or (\<lambda>v. as_u64 v \<noteq> None) batch ''attributed_quality_errors'')
                   ''telemetryBatch.attributed_quality_errors must be a non-negative integer'') (\<lambda>_.
          rbind (demand (case oarr batch ''conversion_errors'' of
                           None \<Rightarrow> False
                         | Some errors \<Rightarrow> list_all (\<lambda>e. case as_str e of None \<Rightarrow> False | Some s \<Rightarrow> s \<noteq> []) errors)
                   ''telemetryBatch.conversion_errors must contain strings'') (\<lambda>_.
          case tget batch ''quality_error_reasons'' of
            None \<Rightarrow> Inr ()
          | Some reasons \<Rightarrow>
              rbind (ok_or ''telemetryBatch.quality_error_reasons must be an object'' (as_object reasons)) (\<lambda>reasons.
              rbind (try_fold telemetry_reason reasons 0) (\<lambda>total_reasons.
              let unknown = (case ou64 batch ''unknown_events'' of None \<Rightarrow> 0 | Some n \<Rightarrow> n);
                  conversions = (case oarr batch ''conversion_errors'' of None \<Rightarrow> 0 | Some es \<Rightarrow> of_nat (length es))
              in demand (total_reasons = saturating_add unknown conversions)
                   ''telemetryBatch.quality_error_reasons total does not match quality errors'')))))))))))))"


section \<open>Lifecycle events\<close>

definition terminal_lifecycle :: "string \<Rightarrow> bool" where
  "terminal_lifecycle t \<longleftrightarrow>
     t \<in> {''session_end'', ''session_ended'', ''task_end'', ''task_ended'', ''task_completed'', ''cancel'', ''cancelled'',
        ''canceled'', ''terminated'', ''abort'', ''aborted'', ''abandoned''}
     \<or> prefix ''session_cancel'' t \<or> prefix ''task_cancel'' t \<or> prefix ''session_fail'' t \<or> prefix ''task_fail'' t"

definition terminal_statuses :: "string list" where
  "terminal_statuses =
     [''success'', ''succeeded'', ''completed'', ''failed'', ''error'', ''cancelled'', ''canceled'', ''terminated'',
      ''aborted'', ''abandoned'', ''incomplete'', ''closed'', ''unknown'']"

definition validate_lifecycle_event :: "jobject \<Rightarrow> string + unit" where
  "validate_lifecycle_event ob =
     (case tget ob ''lifecycleEvent'' of
        None \<Rightarrow> Inr ()
      | Some v \<Rightarrow>
          rbind (ok_or ''lifecycleEvent must be an object'' (as_object v)) (\<lambda>event.
          rbind (ok_or ''lifecycleEvent.type is required'' (otext event ''type'')) (\<lambda>event_type.
          rbind (demand (length event_type \<le> 128) ''lifecycleEvent.type must be <= 128 bytes'') (\<lambda>_.
          rbind (for_each (validate_optional_string event) [''event_id'', ''status'', ''reason'', ''occurred_at'']) (\<lambda>_.
          if terminal_lifecycle (replace_chars [CHR ''-'', CHR ''.'', CHR '' '', CHR '':''] CHR ''_''
                                   (to_ascii_lowercase (trim event_type)))
          then rbind (ok_or ''terminal lifecycleEvent requires status''
                        (case ostr event ''status'' of Some s \<Rightarrow> if s \<noteq> [] then Some s else None | None \<Rightarrow> None)) (\<lambda>status.
               demand (to_ascii_lowercase (trim status) \<in> set terminal_statuses)
                 (''unsupported terminal lifecycleEvent.status '' @ status))
          else Inr ())))))"


section \<open>Tool executions\<close>

definition validate_process_outcome :: "jobject \<Rightarrow> string + unit" where
  "validate_process_outcome execution =
     (case tget execution ''process_outcome'' of
        None \<Rightarrow> Inr ()
      | Some v \<Rightarrow>
          if v = Null then Inr ()
          else rbind (ok_or ''toolExecution.process_outcome must be an object or null'' (as_object v)) (\<lambda>outcome.
               rbind (demand (ostr outcome ''kind'' = Some ''process'')
                        ''toolExecution.process_outcome.kind must be process'') (\<lambda>_.
               rbind (demand (otext outcome ''provenance'' \<noteq> None)
                        ''toolExecution.process_outcome.provenance is required'') (\<lambda>_.
               if ostr outcome ''state'' = Some ''exited''
               then rbind (ok_or ''exited toolExecution.process_outcome requires exit_code''
                             (Option.bind (tget outcome ''exit_code'') as_i64)) (\<lambda>exit_code.
                    rbind (ok_or ''exited toolExecution.process_outcome requires success''
                             (Option.bind (tget outcome ''success'') as_bool)) (\<lambda>success.
                    demand (success = (exit_code = 0) \<and> tget outcome ''session_id'' = None)
                      ''exited toolExecution.process_outcome is inconsistent''))
               else if ostr outcome ''state'' = Some ''running''
               then demand (Option.bind (tget outcome ''session_id'') as_i64 \<noteq> None
                            \<and> tget outcome ''success'' = Some Null \<and> tget outcome ''exit_code'' = None)
                      ''running toolExecution.process_outcome is inconsistent''
               else Inl ''unsupported toolExecution.process_outcome.state''))))"

definition described_parameter :: "json \<Rightarrow> bool" where
  "described_parameter v \<longleftrightarrow>
     (case as_object v of
        None \<Rightarrow> False
      | Some d \<Rightarrow>
          (tget d ''type'' \<noteq> None \<or> tget d ''oneOf'' \<noteq> None \<or> tget d ''anyOf'' \<noteq> None \<or> tget d ''$ref'' \<noteq> None)
          \<and> otext d ''description'' \<noteq> None)"

definition validate_tool_parameters :: "json \<Rightarrow> string + unit" where
  "validate_tool_parameters v =
     rbind (ok_or ''toolExecution.schema.parameters must be an object'' (as_object v)) (\<lambda>parameters.
     if ostr parameters ''type'' \<noteq> Some ''object'' then Inl ''toolExecution.schema.parameters must be an object JSON Schema''
     else rbind (ok_or ''toolExecution.schema.parameters must be an object JSON Schema'' (oobj parameters ''properties''))
       (\<lambda>properties.
       rbind (demand (list_all (\<lambda>p. described_parameter (snd p)) properties)
                ''toolExecution.schema parameter properties require type and description'') (\<lambda>_.
       demand (absent_or (\<lambda>required. case as_array required of
                  None \<Rightarrow> False
                | Some names \<Rightarrow> list_all (\<lambda>n. case as_str n of None \<Rightarrow> False | Some s \<Rightarrow> tget properties s \<noteq> None) names)
                parameters ''required'')
         ''toolExecution.schema.parameters.required must reference defined properties'')))"

definition validate_tool_format :: "json \<Rightarrow> string + unit" where
  "validate_tool_format v =
     rbind (ok_or ''toolExecution.schema.format must be an object'' (as_object v)) (\<lambda>fmt.
     for_each (require_text ''toolExecution.schema.format'' fmt) [''type'', ''syntax'', ''definition''])"

definition absent_or_null :: "jobject \<Rightarrow> string \<Rightarrow> bool" where
  "absent_or_null ob k \<longleftrightarrow> absent_or (\<lambda>v. v = Null) ob k"

definition validate_tool_execution_result :: "jobject \<Rightarrow> string \<Rightarrow> string + unit" where
  "validate_tool_execution_result execution status =
     (if status = ''success'' \<and> absent_or_null execution ''result''
      then Inl ''successful toolExecution requires result''
      else if status \<in> {''error'', ''cancelled'', ''timeout''}
         \<and> absent_or_null execution ''result'' \<and> absent_or_null execution ''error''
      then Inl ''failed toolExecution requires result or error''
      else Inr ())"

definition validate_tool_schema :: "jobject \<Rightarrow> jobject \<Rightarrow> string \<Rightarrow> string + unit" where
  "validate_tool_schema execution schema name =
     (let runtime_tool = or_else (ostr execution ''runtime_tool'') (ostr schema ''runtime_tool'');
          runtime_namespace = or_else (ostr execution ''runtime_namespace'') (ostr schema ''runtime_namespace'')
      in rbind (demand (case runtime_tool of
                          None \<Rightarrow> True | Some tool \<Rightarrow> canonical_runtime_tool_name runtime_namespace tool = name)
                  ''toolExecution runtime identity does not match toolExecution.name'') (\<lambda>_.
         rbind (demand (ostr schema ''name'' = Some name) ''toolExecution.schema.name must equal toolExecution.name'') (\<lambda>_.
         rbind (demand (otext schema ''description'' \<noteq> None) ''toolExecution.schema.description is required'') (\<lambda>_.
         case (tget schema ''parameters'', tget schema ''format'') of
           (None, None) \<Rightarrow> Inl ''toolExecution.schema requires parameters or a native format''
         | (Some parameters, _) \<Rightarrow> validate_tool_parameters parameters
         | (None, Some fmt) \<Rightarrow> validate_tool_format fmt))))"

definition incomplete_provenance :: "jobject \<Rightarrow> bool" where
  "incomplete_provenance execution \<longleftrightarrow>
     (case oobj execution ''schema_provenance'' of
        None \<Rightarrow> False
      | Some p \<Rightarrow> Option.bind (tget p ''source_complete'') as_bool = Some False \<and> otext p ''source'' \<noteq> None)"

definition validate_tool_execution :: "jobject \<Rightarrow> string + unit" where
  "validate_tool_execution ob =
     (case tget ob ''toolExecution'' of
        None \<Rightarrow> Inr ()
      | Some v \<Rightarrow>
          rbind (ok_or ''toolExecution must be an object'' (as_object v)) (\<lambda>execution.
          rbind (for_each (require_text ''toolExecution'' execution) [''call_id'', ''name'', ''status'', ''initiator'']) (\<lambda>_.
          rbind (ok_or ''toolExecution.status is required'' (ostr execution ''status'')) (\<lambda>status.
          rbind (demand (status \<in> {''started'', ''success'', ''error'', ''cancelled'', ''timeout'', ''unknown''})
                   (''unsupported toolExecution.status '' @ status)) (\<lambda>_.
          rbind (demand (ostr execution ''status_scope'' \<in> {None, Some ''tool_dispatch''})
                   ''toolExecution.status_scope must be tool_dispatch'') (\<lambda>_.
          rbind (validate_optional_string execution ''status_provenance'') (\<lambda>_.
          rbind (validate_process_outcome execution) (\<lambda>_.
          rbind (for_each (validate_optional_string execution)
                   [''parent_call_id'', ''started_at'', ''finished_at'', ''initiator'']) (\<lambda>_.
          rbind (for_each (validate_optional_string execution) [''runtime_tool'', ''runtime_namespace'']) (\<lambda>_.
          rbind (demand (tget execution ''arguments'' \<noteq> None) ''toolExecution.arguments is required'') (\<lambda>_.
          rbind (demand (ostr execution ''initiator'' \<in> {Some ''assistant'', Some ''runtime'', Some ''user''})
                   ''toolExecution.initiator must be assistant, runtime, or user'') (\<lambda>_.
          rbind (case oobj execution ''schema'' of
                   None \<Rightarrow> demand (incomplete_provenance execution)
                     ''toolExecution without a captured schema requires explicit incomplete schema_provenance''
                 | Some schema \<Rightarrow>
                     rbind (ok_or ''toolExecution.name is required'' (ostr execution ''name'')) (\<lambda>name.
                     validate_tool_schema execution schema name)) (\<lambda>_.
          validate_tool_execution_result execution status)))))))))))))"


section \<open>Evidence\<close>

text \<open>
  \<open>(0.0..=1.0).contains(&value)\<close> on the number read as \<open>f64\<close>: the order of non-negative floats
  is the order of their bits, up to those of one; negative zero is in the range.
\<close>

fun unit_interval :: "number \<Rightarrow> bool" where
  "unit_interval (PosInt n) = (n \<le> 1)"
| "unit_interval (NegInt n) = False"
| "unit_interval (Float bits) = (bits \<le> 0x3FF0000000000000 \<or> bits = 0x8000000000000000)"

definition evidence_number :: "string \<Rightarrow> json \<Rightarrow> string + unit" where
  "evidence_number field v =
     (case v of
        Number n \<Rightarrow> demand (unit_interval n) (''evaluationEvidence.'' @ field @ '' must be between 0 and 1'')
      | _ \<Rightarrow> Inl (''evaluationEvidence.'' @ field @ '' must be a number''))"

definition validate_evaluation_item :: "json \<Rightarrow> string + unit" where
  "validate_evaluation_item v =
     rbind (ok_or ''evaluationEvidence must contain objects'' (as_object v)) (\<lambda>item.
     rbind (ok_or ''evaluationEvidence.kind is required'' (ostr item ''kind'')) (\<lambda>kind.
     rbind (demand (kind \<in> {''test'', ''build'', ''search'', ''user_correction'', ''final_acceptance'', ''evaluator''})
              (''unsupported evaluationEvidence.kind '' @ kind)) (\<lambda>_.
     rbind (demand (otext item ''source'' \<noteq> None) ''evaluationEvidence.source is required'') (\<lambda>_.
     rbind (validate_optional_string item ''status'') (\<lambda>_.
     rbind (validate_optional_string item ''observed_at'') (\<lambda>_.
     rbind (demand (absent_or is_bool item ''passed'') ''evaluationEvidence.passed must be a boolean'') (\<lambda>_.
     rbind (for_each (\<lambda>field. case tget item field of None \<Rightarrow> Inr () | Some n \<Rightarrow> evidence_number field n)
              [''reward'', ''score'']) (\<lambda>_.
     demand (list_ex (\<lambda>field. tget item field \<noteq> None) [''status'', ''passed'', ''reward'', ''score''])
       ''evaluationEvidence requires status, passed, reward, or score''))))))))"

definition validate_evaluation_evidence :: "jobject \<Rightarrow> string + unit" where
  "validate_evaluation_evidence ob =
     (case evaluation_items ob of
        None \<Rightarrow> Inr ()
      | Some v \<Rightarrow>
          rbind (ok_or ''evaluationEvidence must be an array'' (as_array v)) (for_each validate_evaluation_item))"

definition validate_evidence_item :: "string \<Rightarrow> json \<Rightarrow> string + unit" where
  "validate_evidence_item field v =
     rbind (ok_or (field @ '' must contain objects'') (as_object v)) (\<lambda>item.
     rbind (demand (otext item ''field'' \<noteq> None) (field @ ''.field is required'')) (\<lambda>_.
     if field = ''fieldEvidence''
     then rbind (for_each (\<lambda>required. demand (tget item required \<noteq> None) (field @ ''.'' @ required @ '' is required''))
                   [''value'', ''source'', ''producer'', ''authority'']) (\<lambda>_.
          rbind (for_each (\<lambda>required. demand (otext item required \<noteq> None) (field @ ''.'' @ required @ '' must be non-empty''))
                   [''source'', ''producer'', ''authority'']) (\<lambda>_.
          demand (absent_or is_bool item ''selected'') (field @ ''.selected must be a boolean'')))
     else demand (case oarr item ''evidence'' of None \<Rightarrow> False | Some evidence \<Rightarrow> 2 \<le> length evidence)
            (field @ ''.evidence must contain conflicting candidates'')))"

definition validate_field_evidence :: "jobject \<Rightarrow> string + unit" where
  "validate_field_evidence ob =
     for_each (\<lambda>field.
         case tget ob field of
           None \<Rightarrow> Inr ()
         | Some v \<Rightarrow> rbind (ok_or (field @ '' must be an array'') (as_array v)) (for_each (validate_evidence_item field)))
       [''fieldEvidence'', ''fieldEvidenceConflicts'']"


section \<open>Gateway evidence\<close>

text \<open>\<open>ser\<close> is the JSON serialiser.\<close>

definition gateway_keys :: "string list" where
  "gateway_keys =
     [''source'', ''request_id'', ''requested_model'', ''upstream_model'', ''response_model'', ''provider'',
      ''provider_source'', ''model_mapping_chain'', ''user_id'', ''api_key_id'', ''account_id'', ''group_id'',
      ''channel_id'', ''input_tokens'', ''api_input_tokens'', ''input_tokens_semantics'', ''output_tokens'',
      ''cache_creation_tokens'', ''cache_read_tokens'', ''observed_at'', ''usage_log_id'']"

definition gateway_evidence_fingerprint ::
  "(string \<Rightarrow> string) \<Rightarrow> (json \<Rightarrow> string) \<Rightarrow> jobject \<Rightarrow> string" where
  "gateway_evidence_fingerprint sha ser evidence =
     sha (ser (Object (fold (\<lambda>key selected. case tget evidence key of None \<Rightarrow> selected | Some v \<Rightarrow> tput key v selected)
       gateway_keys [])))"

definition transformed_request_id :: "string \<Rightarrow> string \<Rightarrow> string + string" where
  "transformed_request_id transform captured =
     (if transform = ''exact'' \<or> transform = ''comma_separated_member'' then Inr captured
      else if transform = ''sub2api_client_prefix'' then Inr (''client:'' @ captured)
      else Inl (''unsupported gatewayEvidenceJoin.transform '' @ transform))"

definition joined_field :: "jobject \<Rightarrow> string \<Rightarrow> string + string option" where
  "joined_field capture field =
     (let header = (\<lambda>headers name. Option.bind (oobj capture headers) (\<lambda>h. header_value h name))
      in if field = ''upstreamRequestId'' \<or> field = ''requestId'' then Inr (ostr capture field)
         else if field = ''requestHeaders.x-client-request-id'' then Inr (header ''requestHeaders'' ''x-client-request-id'')
         else if field = ''responseHeaders.x-client-request-id'' then Inr (header ''responseHeaders'' ''x-client-request-id'')
         else if field = ''responseHeaders.x-request-id'' then Inr (header ''responseHeaders'' ''x-request-id'')
         else Inl (''unsupported gatewayEvidenceJoin.capture_field '' @ field))"

definition validate_gateway_evidence_join ::
  "(string \<Rightarrow> string) \<Rightarrow> (json \<Rightarrow> string) \<Rightarrow> jobject \<Rightarrow> jobject \<Rightarrow> json \<Rightarrow> string + unit" where
  "validate_gateway_evidence_join sha ser capture evidence v =
     rbind (ok_or ''gatewayEvidenceJoin must be an object'' (as_object v)) (\<lambda>j.
     rbind (demand (ostr j ''schema_version'' = Some ''chiptrace.gateway-enrichment.v1'')
              ''gatewayEvidenceJoin.schema_version is unsupported'') (\<lambda>_.
     rbind (demand (ostr j ''mode'' = Some ''exact_request_id'') ''gatewayEvidenceJoin.mode must be exact_request_id'') (\<lambda>_.
     rbind (for_each (require_text ''gatewayEvidenceJoin'' j)
              [''request_id'', ''capture_request_id'', ''capture_field'', ''transform'', ''usage_fact_sha256'']) (\<lambda>_.
     rbind (ok_or ''gatewayEvidenceJoin.request_id is required'' (ostr j ''request_id'')) (\<lambda>request_id.
     rbind (ok_or ''gatewayEvidenceJoin.capture_request_id is required'' (ostr j ''capture_request_id'')) (\<lambda>captured.
     rbind (ok_or ''gatewayEvidenceJoin.capture_field is required'' (ostr j ''capture_field'')) (\<lambda>capture_field.
     rbind (ok_or ''gatewayEvidenceJoin.transform is required'' (ostr j ''transform'')) (\<lambda>transform.
     rbind (ok_or ''gatewayEvidenceJoin.usage_fact_sha256 is required'' (ostr j ''usage_fact_sha256'')) (\<lambda>digest.
     rbind (demand (ostr evidence ''request_id'' = Some request_id)
              ''gatewayEvidenceJoin.request_id must equal gatewayEvidence.request_id'') (\<lambda>_.
     rbind (transformed_request_id transform captured) (\<lambda>transformed.
     rbind (demand (transformed = request_id)
              ''gatewayEvidenceJoin request-id transformation does not match usage evidence'') (\<lambda>_.
     rbind (joined_field capture capture_field) (\<lambda>observed.
     rbind (demand (if transform = ''comma_separated_member''
                    then (case observed of
                            None \<Rightarrow> False | Some s \<Rightarrow> list_ex (\<lambda>m. trim m = captured) (split_char CHR '','' s))
                    else observed = Some captured)
              ''gatewayEvidenceJoin.capture_request_id does not match the captured field'') (\<lambda>_.
     rbind (demand (is_sha256_hex digest) ''gatewayEvidenceJoin.usage_fact_sha256 must be a SHA-256 hex digest'') (\<lambda>_.
     demand (digest = gateway_evidence_fingerprint sha ser evidence)
       ''gatewayEvidenceJoin.usage_fact_sha256 does not match gatewayEvidence'')))))))))))))))"

definition token_totals_consistent :: "jobject \<Rightarrow> bool" where
  "token_totals_consistent evidence \<longleftrightarrow>
     (case (ou64 evidence ''input_tokens'', ou64 evidence ''cache_read_tokens'', ou64 evidence ''api_input_tokens'') of
        (Some input, Some cached, Some api_input) \<Rightarrow> api_input = saturating_add input cached
      | _ \<Rightarrow> True)"

definition validate_gateway_evidence ::
  "(string \<Rightarrow> string) \<Rightarrow> (json \<Rightarrow> string) \<Rightarrow> jobject \<Rightarrow> string + unit" where
  "validate_gateway_evidence sha ser ob =
     rbind (for_each (validate_optional_string ob) [''requestId'', ''upstreamRequestId'', ''captureStage'']) (\<lambda>_.
     rbind (demand (case ostr ob ''captureStage'' of
                      None \<Rightarrow> True
                    | Some stage \<Rightarrow> stage \<in> {''ingress'', ''upstream_request'', ''upstream_response'', ''egress'',
                        ''combined'', ''event''})
              ''unsupported captureStage'') (\<lambda>_.
     case tget ob ''gatewayEvidence'' of
       None \<Rightarrow> demand (tget ob ''gatewayEvidenceJoin'' = None) ''gatewayEvidenceJoin requires gatewayEvidence''
     | Some v \<Rightarrow>
         rbind (ok_or ''gatewayEvidence must be an object'' (as_object v)) (\<lambda>evidence.
         rbind (for_each (require_text ''gatewayEvidence'' evidence)
                  [''source'', ''request_id'', ''requested_model'', ''provider'']) (\<lambda>_.
         rbind (demand (ostr evidence ''source'' \<in> {Some ''sub2api_usage_log'', Some ''sub2api.usage_logs''})
                  ''gatewayEvidence.source must identify sub2api usage logs'') (\<lambda>_.
         rbind (for_each (validate_optional_string evidence)
                  [''upstream_model'', ''response_model'', ''model_mapping_chain'', ''provider_source'', ''observed_at'']) (\<lambda>_.
         rbind (for_each (\<lambda>field. demand (absent_or (\<lambda>v. v = Null \<or> is_str v \<or> is_integer v) evidence field)
                    (''gatewayEvidence.'' @ field @ '' must be a string, integer, or null''))
                  [''user_id'', ''api_key_id'', ''account_id'', ''group_id'', ''channel_id'', ''usage_log_id'']) (\<lambda>_.
         rbind (for_each (\<lambda>field. demand (absent_or (\<lambda>v. as_u64 v \<noteq> None) evidence field)
                    (''gatewayEvidence.'' @ field @ '' must be a non-negative integer''))
                  [''input_tokens'', ''api_input_tokens'', ''output_tokens'', ''cache_creation_tokens'',
                   ''cache_read_tokens'']) (\<lambda>_.
         rbind (demand (ostr evidence ''input_tokens_semantics'' \<in> {None, Some ''sub2api_non_cached_input''})
                  ''gatewayEvidence.input_tokens_semantics is unsupported'') (\<lambda>_.
         rbind (demand (token_totals_consistent evidence) ''gatewayEvidence.api_input_tokens is inconsistent'') (\<lambda>_.
         case tget ob ''gatewayEvidenceJoin'' of
           None \<Rightarrow> Inr ()
         | Some j \<Rightarrow> validate_gateway_evidence_join sha ser ob evidence j))))))))))"

end
