(* ===== verification/CaptureNormalize.thy ===== *)
theory CaptureNormalize
  imports CaptureSchema WalRecovery
begin

text \<open>
  The normalisation of a Capture envelope (\<open>capture.rs\<close>, \<open>normalize_capture_with_policy\<close>): bodies
  are unfolded, protocol identifiers are promoted to the trace context with their evidence,
  sensitive headers are dropped, defaults are added, and the result is serialised and hashed.
  \<open>sha\<close> is the hexadecimal SHA-256, \<open>parse\<close> and \<open>ser\<close> the JSON parser and serialiser.
\<close>

section \<open>Bodies\<close>

text \<open>\<open>entry(k).or_insert(v)\<close>\<close>

definition or_insert :: "string \<Rightarrow> json \<Rightarrow> jobject \<Rightarrow> jobject" where
  "or_insert k v ob = (if tget ob k = None then tput k v ob else ob)"

record body_fields =
  bf_text :: string
  bf_body :: string
  bf_bytes :: string
  bf_sha :: string

definition body_field_names :: "body_fields list" where
  "body_field_names =
     [\<lparr>bf_text = ''requestBodyText'', bf_body = ''requestBody'', bf_bytes = ''requestBytesCaptured'',
       bf_sha = ''requestBodySha256''\<rparr>,
      \<lparr>bf_text = ''responseBodyText'', bf_body = ''responseBody'', bf_bytes = ''responseBytesCaptured'',
       bf_sha = ''responseBodySha256''\<rparr>]"

definition unfold_body_text ::
  "(string \<Rightarrow> string) \<Rightarrow> (string \<Rightarrow> json option) \<Rightarrow> body_fields \<Rightarrow> jobject \<Rightarrow> string + jobject" where
  "unfold_body_text sha parse f ob =
     (case tget ob (bf_text f) of
        None \<Rightarrow> Inr ob
      | Some v \<Rightarrow>
          rbind (case v of Null \<Rightarrow> Inr [] | String s \<Rightarrow> Inr s | _ \<Rightarrow> Inl (bf_text f @ '' must be a string or null'')) (\<lambda>body_text.
          let body = (case parse body_text of
                        Some value \<Rightarrow> json_object [(''kind'', String ''json''), (''value'', value), (''raw'', String body_text)]
                      | None \<Rightarrow> json_object [(''kind'', String ''text''), (''value'', String body_text)]);
              ob = tput (bf_body f) body (tdel (bf_text f) ob);
              ob = or_insert (bf_bytes f) (Number (PosInt (of_nat (length body_text)))) ob
          in Inr (tput (bf_sha f) (String (sha body_text)) ob)))"

text \<open>\<open>PartialEq\<close> of JSON values: floats compare as numbers, so both zeros are equal.\<close>

fun number_eq :: "number \<Rightarrow> number \<Rightarrow> bool" where
  "number_eq (Float a) (Float b) = (a = b \<or> a \<in> {0, 0x8000000000000000} \<and> b \<in> {0, 0x8000000000000000})"
| "number_eq m n = (m = n)"

fun json_eq :: "json \<Rightarrow> json \<Rightarrow> bool" where
  "json_eq (Number m) (Number n) = number_eq m n"
| "json_eq (Array xs) (Array ys) = list_all2 json_eq xs ys"
| "json_eq (Object xs) (Object ys) = list_all2 (\<lambda>p q. fst p = fst q \<and> json_eq (snd p) (snd q)) xs ys"
| "json_eq v w = (v = w)"

definition validate_embedded_raw_body ::
  "(string \<Rightarrow> string) \<Rightarrow> (string \<Rightarrow> json option) \<Rightarrow> body_fields \<Rightarrow> jobject \<Rightarrow> string + jobject" where
  "validate_embedded_raw_body sha parse f ob =
     (case Option.bind (oobj ob (bf_body f)) (\<lambda>body. map_option (\<lambda>raw. (body, raw)) (ostr body ''raw'')) of
        None \<Rightarrow> Inr ob
      | Some (body, raw) \<Rightarrow>
          rbind (if ostr body ''kind'' = Some ''json''
                 then rbind (ok_or (bf_body f @ ''.raw must contain valid JSON'') (parse raw)) (\<lambda>parsed.
                      demand (case tget body ''value'' of None \<Rightarrow> False | Some v \<Rightarrow> json_eq v parsed)
                        (bf_body f @ ''.raw does not match parsed value''))
                 else Inr ()) (\<lambda>_.
          rbind (demand (ou64 ob (bf_bytes f) \<in> {None, Some (of_nat (length raw))})
                   (bf_bytes f @ '' does not match '' @ bf_body f @ ''.raw'')) (\<lambda>_.
          rbind (demand (ostr ob (bf_sha f) \<in> {None, Some (sha raw)})
                   (bf_sha f @ '' does not match '' @ bf_body f @ ''.raw'')) (\<lambda>_.
          Inr (or_insert (bf_sha f) (String (sha raw))
                (or_insert (bf_bytes f) (Number (PosInt (of_nat (length raw)))) ob))))))"

definition normalize_body_fields ::
  "(string \<Rightarrow> string) \<Rightarrow> (string \<Rightarrow> json option) \<Rightarrow> jobject \<Rightarrow> string + jobject" where
  "normalize_body_fields sha parse ob =
     rbind (try_fold (unfold_body_text sha parse) body_field_names ob)
       (try_fold (validate_embedded_raw_body sha parse) body_field_names)"

definition validate_response_delivery_evidence :: "jobject \<Rightarrow> string + unit" where
  "validate_response_delivery_evidence ob =
     rbind (for_each (\<lambda>field. demand (absent_or (\<lambda>v. v = Null \<or> as_u64 v \<noteq> None) ob field)
                (field @ '' must be a non-negative integer or null''))
              [''responseBytesForwarded'', ''responseBytesForwardedAtClientClose'',
               ''responseProtocolTerminalByteOffset'', ''responseFramingDoneByteOffset'']) (\<lambda>_.
     rbind (for_each (\<lambda>field. demand (absent_or (\<lambda>v. v = Null \<or> is_bool v) ob field)
                (field @ '' must be a boolean or null''))
              [''clientRequestAborted'', ''clientResponseClosedBeforeFinish'', ''clientResponseFinished'',
               ''responseProtocolTerminalObservedAtClientClose'', ''responseFramingDoneObservedAtClientClose'']) (\<lambda>_.
     case (ou64 ob ''responseBytesForwarded'', ou64 ob ''responseBytesForwardedAtClientClose'') of
       (Some forwarded, Some at_close) \<Rightarrow>
         demand (at_close \<le> forwarded) ''responseBytesForwardedAtClientClose exceeds responseBytesForwarded''
     | _ \<Rightarrow> Inr ()))"


section \<open>Candidates for the trace context\<close>

record field_candidate =
  fc_value :: json
  fc_source :: string
  fc_producer :: string
  fc_authority :: string

type_synonym candidates = "(string, field_candidate list) table"

definition trace_aliases :: "(string \<times> string list) list" where
  "trace_aliases =
     [(''task_session_id'', [''task_session_id'', ''taskSessionId'']),
      (''session_id'', [''session_id'', ''sessionId'']),
      (''thread_id'', [''thread_id'', ''threadId'']),
      (''conversation_id'', [''conversation_id'', ''conversationId'']),
      (''trace_id'', [''trace_id'', ''traceId'']),
      (''span_id'', [''span_id'', ''spanId'']),
      (''parent_span_id'', [''parent_span_id'', ''parentSpanId'']),
      (''task_id'', [''task_id'', ''taskId'']),
      (''root_session_id'', [''root_session_id'', ''rootSessionId'']),
      (''parent_session_id'', [''parent_session_id'', ''parentSessionId'']),
      (''goal_id'', [''goal_id'', ''goalId'']),
      (''root_turn_id'', [''root_turn_id'', ''rootTurnId'']),
      (''turn_id'', [''turn_id'', ''turnId'']),
      (''agent_id'', [''agent_id'', ''agentId'']),
      (''agent_path'', [''agent_path'', ''agentPath'', ''agent_name'']),
      (''branch_id'', [''branch_id'', ''branchId'']),
      (''previous_response_id'', [''previous_response_id'', ''previousResponseId'']),
      (''session_final'', [''session_final'', ''sessionFinal'']),
      (''traceparent'', [''traceparent'']),
      (''trace_flags'', [''trace_flags'', ''traceFlags'']),
      (''tracestate'', [''tracestate''])]"

definition chiptrace_header :: "string \<Rightarrow> string option" where
  "chiptrace_header field = map_of
     [(''task_session_id'', ''x-chiptrace-task-session-id''), (''session_id'', ''x-chiptrace-session-id''),
      (''thread_id'', ''x-chiptrace-thread-id''), (''root_session_id'', ''x-chiptrace-root-session-id''),
      (''parent_session_id'', ''x-chiptrace-parent-session-id''), (''goal_id'', ''x-chiptrace-goal-id''),
      (''root_turn_id'', ''x-chiptrace-root-turn-id''), (''turn_id'', ''x-chiptrace-turn-id''),
      (''agent_id'', ''x-chiptrace-agent-id''), (''branch_id'', ''x-chiptrace-branch-id''),
      (''previous_response_id'', ''x-chiptrace-previous-response-id'')] field"

definition protocol_value_present :: "json \<Rightarrow> bool" where
  "protocol_value_present v \<longleftrightarrow> non_blank (as_str v) \<noteq> None \<or> is_bool v"

definition append_candidate :: "string \<Rightarrow> field_candidate \<Rightarrow> candidates \<Rightarrow> candidates" where
  "append_candidate field c out = tput field ((case tget out field of None \<Rightarrow> [] | Some cs \<Rightarrow> cs) @ [c]) out"

definition append_object_candidates ::
  "string \<Rightarrow> jobject \<Rightarrow> string list \<Rightarrow> string \<Rightarrow> string \<Rightarrow> string \<Rightarrow> candidates \<Rightarrow> candidates" where
  "append_object_candidates field ob aliases source_prefix producer authority out =
     fold (\<lambda>a out.
         case tget ob a of
           None \<Rightarrow> out
         | Some v \<Rightarrow>
             if protocol_value_present v
             then append_candidate field
                    \<lparr>fc_value = v, fc_source = source_prefix @ ''.'' @ a, fc_producer = producer, fc_authority = authority\<rparr> out
             else out) aliases out"

text \<open>
  The W3C \<open>traceparent\<close> header: the pattern's groups have fixed lengths, so it has at most one
  match; further fields may follow a hyphen.
\<close>

definition traceparent_groups :: "string \<Rightarrow> (string \<times> string \<times> string \<times> string) option" where
  "traceparent_groups s =
     (let version = take 2 s; trace = take 32 (drop 3 s); parent = take 16 (drop 36 s); flags = take 2 (drop 53 s);
          rest = drop 55 s
      in if 55 \<le> length s \<and> list_all is_hexdigit version \<and> s ! 2 = CHR ''-'' \<and> list_all is_hexdigit trace
            \<and> s ! 35 = CHR ''-'' \<and> list_all is_hexdigit parent \<and> s ! 52 = CHR ''-'' \<and> list_all is_hexdigit flags
            \<and> (rest = [] \<or> hd rest = CHR ''-'' \<and> tl rest \<noteq> [] \<and> CHR 0x0A \<notin> set (tl rest))
         then Some (version, trace, parent, flags) else None)"

definition all_zeros :: "string \<Rightarrow> bool" where
  "all_zeros s \<longleftrightarrow> list_all (\<lambda>c. c = CHR ''0'') s"

definition w3c_candidate :: "string \<Rightarrow> string \<Rightarrow> field_candidate" where
  "w3c_candidate value source =
     \<lparr>fc_value = String value, fc_source = source, fc_producer = ''w3c_trace_context'', fc_authority = ''protocol_observed''\<rparr>"

definition append_w3c_trace_context :: "jobject \<Rightarrow> candidates \<Rightarrow> candidates" where
  "append_w3c_trace_context headers out =
     (case header_value headers ''traceparent'' of
        None \<Rightarrow> out
      | Some raw \<Rightarrow>
          (case traceparent_groups (trim raw) of
             None \<Rightarrow> out
           | Some (version, trace, parent, flags) \<Rightarrow>
               if version = ''ff'' \<or> all_zeros trace \<or> all_zeros parent then out
               else let out = fold (\<lambda>(field, value). append_candidate field
                                  (w3c_candidate (to_ascii_lowercase value) ''requestHeaders.traceparent''))
                                [(''traceparent'', raw), (''trace_id'', trace), (''parent_span_id'', parent),
                                 (''trace_flags'', flags)] out
                    in case header_value headers ''tracestate'' of
                         None \<Rightarrow> out
                       | Some value \<Rightarrow>
                           append_candidate ''tracestate'' (w3c_candidate value ''requestHeaders.tracestate'') out))"

definition field_candidate_json :: "field_candidate \<Rightarrow> json" where
  "field_candidate_json c =
     json_object [(''value'', fc_value c), (''source'', String (fc_source c)),
       (''producer'', String (fc_producer c)), (''authority'', String (fc_authority c))]"

text \<open>The fields that already carry evidence.\<close>

definition evidence_fields :: "jobject \<Rightarrow> string list" where
  "evidence_fields ob =
     List.map_filter (\<lambda>item. get_str item ''field'')
       (case oarr ob ''fieldEvidence'' of None \<Rightarrow> [] | Some items \<Rightarrow> items)"

text \<open>The objects in which the identifiers are looked up.\<close>

record identity_sources =
  is_existing :: "string list"
  is_captured :: jobject
  is_headers :: jobject
  is_top_level :: jobject
  is_metadata :: jobject
  is_turn_metadata :: jobject
  is_request :: jobject

definition object_or_empty :: "json option \<Rightarrow> jobject" where
  "object_or_empty v = (case Option.bind v as_object of None \<Rightarrow> [] | Some ob \<Rightarrow> ob)"

definition identity_sources_of :: "(string \<Rightarrow> json option) \<Rightarrow> jobject \<Rightarrow> identity_sources" where
  "identity_sources_of parse ob =
     (let request = object_or_empty (extract_body (tget ob ''requestBody''));
          metadata = object_or_empty (or_else (tget request ''client_metadata'') (tget request ''metadata''));
          turn_metadata = object_or_empty (Option.bind (ostr metadata ''x-codex-turn-metadata'') parse)
      in \<lparr>is_existing = evidence_fields ob, is_captured = object_or_empty (tget ob ''traceContext''),
          is_headers = object_or_empty (tget ob ''requestHeaders''), is_top_level = ob,
          is_metadata = metadata, is_turn_metadata = turn_metadata, is_request = request\<rparr>)"

definition field_candidates :: "identity_sources \<Rightarrow> string \<times> string list \<Rightarrow> candidates \<Rightarrow> candidates" where
  "field_candidates src fa out =
     (let (field, aliases) = fa;
          out = (if ''traceContext.'' @ field \<notin> set (is_existing src)
                 then append_object_candidates field (is_captured src) aliases ''capture.traceContext''
                        ''capture_producer'' ''producer_asserted'' out
                 else out);
          out = (case Option.bind (chiptrace_header field)
                        (\<lambda>header. map_option (\<lambda>v. (header, v)) (header_value (is_headers src) header)) of
                   None \<Rightarrow> out
                 | Some (header, v) \<Rightarrow>
                     append_candidate field
                       \<lparr>fc_value = String v, fc_source = ''requestHeaders.'' @ header, fc_producer = ''agent_harness'',
                        fc_authority = ''client_asserted''\<rparr> out);
          out = append_object_candidates field (is_top_level src) aliases ''capture'' ''capture_producer''
                  ''producer_asserted'' out;
          out = append_object_candidates field (is_metadata src) aliases ''requestBody.client_metadata'' ''codex_client''
                  ''client_asserted'' out;
          out = append_object_candidates field (is_turn_metadata src) aliases
                  ''requestBody.client_metadata.x-codex-turn-metadata'' ''codex_client'' ''client_asserted'' out
      in append_object_candidates field (is_request src) aliases ''requestBody'' ''codex_client'' ''client_asserted'' out)"

definition all_candidates :: "identity_sources \<Rightarrow> candidates" where
  "all_candidates src = append_w3c_trace_context (is_headers src) (fold (field_candidates src) trace_aliases [])"


section \<open>Promotion\<close>

text \<open>The trace context, the evidence and the conflicts after some fields were resolved.\<close>

record promotion =
  pm_trace :: jobject
  pm_evidence :: "json list"
  pm_conflicts :: "json list"

definition selected_value :: "jobject \<Rightarrow> string \<Rightarrow> field_candidate list \<Rightarrow> json option" where
  "selected_value trace field cs =
     or_else (Option.bind (tget trace field) (\<lambda>v. if protocol_value_present v then Some v else None))
       (case cs of [] \<Rightarrow> None | c # _ \<Rightarrow> Some (fc_value c))"

definition candidate_evidence :: "string \<Rightarrow> json option \<Rightarrow> field_candidate \<Rightarrow> json" where
  "candidate_evidence field selected c =
     set_member ''selected'' (Bool (selected = Some (fc_value c)))
       (set_member ''field'' (String (''traceContext.'' @ field)) (field_candidate_json c))"

definition conflict_json :: "string \<Rightarrow> field_candidate list \<Rightarrow> json" where
  "conflict_json field cs =
     json_object [(''field'', String (''traceContext.'' @ field)), (''evidence'', Array (map field_candidate_json cs))]"

definition conflicting :: "(json \<Rightarrow> string) \<Rightarrow> field_candidate list \<Rightarrow> bool" where
  "conflicting ser cs \<longleftrightarrow> 1 < length (remdups (map (\<lambda>c. ser (fc_value c)) cs))"

definition resolve_field :: "(json \<Rightarrow> string) \<Rightarrow> string \<times> field_candidate list \<Rightarrow> promotion \<Rightarrow> promotion" where
  "resolve_field ser fc p =
     (let (field, cs) = fc;
          selected = selected_value (pm_trace p) field cs
      in p\<lparr>pm_trace := (case selected of None \<Rightarrow> pm_trace p | Some v \<Rightarrow> or_insert field v (pm_trace p)),
           pm_conflicts := pm_conflicts p @ (if conflicting ser cs then [conflict_json field cs] else []),
           pm_evidence := pm_evidence p @ map (candidate_evidence field selected) cs\<rparr>)"

definition request_id_evidence :: "string \<Rightarrow> string \<Rightarrow> string option \<Rightarrow> string option \<times> string \<times> string \<Rightarrow> json list" where
  "request_id_evidence field producer selected e =
     (case e of (value, source, authority) \<Rightarrow>
       (case value of
          None \<Rightarrow> []
        | Some v \<Rightarrow>
            [json_object [(''field'', String field), (''value'', String v), (''source'', String source),
               (''producer'', String producer), (''authority'', String authority),
               (''selected'', Bool (selected = Some v))]]))"

definition promote_request_id ::
  "string \<Rightarrow> string \<Rightarrow> string \<Rightarrow> string list \<Rightarrow> jobject \<times> json list \<Rightarrow> jobject \<times> json list" where
  "promote_request_id field header producer existing_fields s =
     (case s of (ob, evidence) \<Rightarrow>
       (let existing = otext ob field;
            request_observed = Option.bind (oobj ob ''requestHeaders'') (\<lambda>h. header_value h header);
            response_observed = Option.bind (oobj ob ''responseHeaders'') (\<lambda>h. header_value h header);
            observed = or_else response_observed request_observed;
            selected = or_else existing observed;
            ob = (case (existing, observed) of (None, Some v) \<Rightarrow> tput field (String v) ob | _ \<Rightarrow> ob);
            assertion = (if field \<notin> set existing_fields then existing else None)
        in (ob, evidence @ concat (map (request_id_evidence field producer selected)
              [(assertion, ''capture.'' @ field, ''producer_asserted''),
               (request_observed, ''requestHeaders.'' @ header, ''protocol_observed''),
               (response_observed, ''responseHeaders.'' @ header, ''protocol_observed'')]))))"

text \<open>The first of each group of values with the same serialisation.\<close>

fun dedup_by :: "(json \<Rightarrow> string) \<Rightarrow> string list \<Rightarrow> json list \<Rightarrow> json list" where
  "dedup_by ser seen [] = []"
| "dedup_by ser seen (v # vs) =
     (if ser v \<in> set seen then dedup_by ser seen vs else v # dedup_by ser (ser v # seen) vs)"

definition merge_array_field :: "(json \<Rightarrow> string) \<Rightarrow> string \<Rightarrow> json list \<Rightarrow> jobject \<Rightarrow> jobject" where
  "merge_array_field ser field additions ob =
     tput field (Array (dedup_by ser [] ((case oarr ob field of None \<Rightarrow> [] | Some vs \<Rightarrow> vs) @ additions))) ob"

definition present_body :: "jobject \<Rightarrow> string \<Rightarrow> bool" where
  "present_body ob k \<longleftrightarrow> tget ob k \<noteq> None \<and> tget ob k \<noteq> Some Null"

definition capture_stage :: "jobject \<Rightarrow> string" where
  "capture_stage ob =
     (case (present_body ob ''requestBody'', present_body ob ''responseBody'') of
        (True, True) \<Rightarrow> ''combined''
      | (True, False) \<Rightarrow> ''ingress''
      | (False, True) \<Rightarrow> ''egress''
      | (False, False) \<Rightarrow> ''event'')"

definition promote_protocol_fields ::
  "(string \<Rightarrow> json option) \<Rightarrow> (json \<Rightarrow> string) \<Rightarrow> jobject \<Rightarrow> jobject" where
  "promote_protocol_fields parse ser ob =
     (let src = identity_sources_of parse ob;
          p = fold (resolve_field ser) (all_candidates src)
                \<lparr>pm_trace = is_captured src, pm_evidence = [], pm_conflicts = []\<rparr>;
          ob = tput ''traceContext'' (Object (pm_trace p)) ob;
          (ob, evidence) =
            promote_request_id ''upstreamRequestId'' ''x-request-id'' ''upstream_provider'' (is_existing src)
              (promote_request_id ''requestId'' ''x-client-request-id'' ''sub2api'' (is_existing src)
                (ob, pm_evidence p));
          ob = merge_array_field ser ''fieldEvidence'' evidence ob;
          ob = merge_array_field ser ''fieldEvidenceConflicts'' (pm_conflicts p) ob
      in or_insert ''captureStage'' (String (capture_stage ob)) ob)"


section \<open>Headers\<close>

definition sensitive_headers :: "string list" where
  "sensitive_headers =
     [''api-key'', ''authorization'', ''cookie'', ''proxy-authorization'', ''set-cookie'', ''x-api-key'', ''x-auth-token'']"

definition sensitive :: "string \<Rightarrow> bool" where
  "sensitive name \<longleftrightarrow> to_ascii_lowercase name \<in> set sensitive_headers"

definition sanitize_side :: "string \<Rightarrow> jobject \<times> string list \<Rightarrow> jobject \<times> string list" where
  "sanitize_side field s =
     (case s of (ob, redacted) \<Rightarrow>
       (case oobj ob field of
          None \<Rightarrow> (tput field (Object []) ob, redacted)
        | Some headers \<Rightarrow>
            (tput field (Object (filter (\<lambda>h. \<not> sensitive (fst h)) headers)) ob,
             redacted @ map to_ascii_lowercase (filter sensitive (map fst headers)))))"

text \<open>The set of redacted names is held in its order, each name once.\<close>

definition sanitize_headers :: "jobject \<Rightarrow> jobject \<times> string list" where
  "sanitize_headers ob =
     (case fold sanitize_side [''requestHeaders'', ''responseHeaders''] (ob, []) of
        (ob, redacted) \<Rightarrow>
          (ob, sort (remdups (redacted @
                 List.map_filter as_str (case oarr ob ''redactedHeaders'' of None \<Rightarrow> [] | Some vs \<Rightarrow> vs)))))"


section \<open>The envelope\<close>

definition capture_schema_version :: string where
  "capture_schema_version = ''chiptrace.capture.v2''"

definition capture_id_char :: "char \<Rightarrow> bool" where
  "capture_id_char c \<longleftrightarrow>
     CHR ''A'' \<le> c \<and> c \<le> CHR ''Z'' \<or> CHR ''a'' \<le> c \<and> c \<le> CHR ''z'' \<or> is_digit c \<or> c \<in> set ''._:-''"

definition capture_id_ok :: "string \<Rightarrow> bool" where
  "capture_id_ok s \<longleftrightarrow>
     length s \<le> 256 \<and> prefix ''cap-'' s \<and> drop 4 s \<noteq> [] \<and> list_all capture_id_char (drop 4 s)"

text \<open>What the ingest coverage reads from an envelope (\<open>WireCaptureEvidence::from_capture\<close>).\<close>

definition wire_evidence_of :: "json \<Rightarrow> wire_evidence" where
  "wire_evidence_of v =
     (if get_str v ''recordType'' \<noteq> Some ''api_snapshot''
      then \<lparr>we_turn_scoped = False, we_http_success = False, we_identity_conflict = False\<rparr>
      else let present = (\<lambda>k. non_blank (ptr_str v [''traceContext'', k]) \<noteq> None);
               conflict = list_ex (\<lambda>item. case get_str item ''field'' of
                              None \<Rightarrow> False | Some field \<Rightarrow> prefix ''traceContext.'' field)
                            (get_array v ''fieldEvidenceConflicts'')
           in \<lparr>we_turn_scoped = ((present ''source_session_id'' \<or> present ''session_id'') \<and>
                                  (present ''turn_id'' \<or> present ''root_turn_id'') \<and> \<not> conflict),
               we_http_success = (case get_u64 v ''responseStatus'' of
                                    None \<Rightarrow> False | Some status \<Rightarrow> 200 \<le> status \<and> status < 300),
               we_identity_conflict = conflict\<rparr>)"

text \<open>The checks before anything is changed.\<close>

definition null_or :: "(json \<Rightarrow> bool) \<Rightarrow> json \<Rightarrow> bool" where
  "null_or P v \<longleftrightarrow> v = Null \<or> P v"

definition array_of :: "(json \<Rightarrow> bool) \<Rightarrow> json \<Rightarrow> bool" where
  "array_of P v = (case as_array v of None \<Rightarrow> False | Some vs \<Rightarrow> list_all P vs)"

definition historical_record :: "jobject \<Rightarrow> bool" where
  "historical_record ob \<longleftrightarrow> tget ob ''rolloutEvent'' \<noteq> None \<or> ostr ob ''recordType'' = Some ''rollout_event''"

definition validate_envelope ::
  "(string \<Rightarrow> string) \<Rightarrow> (string \<Rightarrow> json option) \<Rightarrow> bool \<Rightarrow> jobject \<Rightarrow> string + unit" where
  "validate_envelope sha parse enforce ob =
     rbind (demand (\<not> (enforce \<and> tget ob ''producerEvent'' \<noteq> None))
       ''producerEvent is historical read-only data; use Wire, OTLP, or Codex Hook ingest'') (\<lambda>_.
     rbind (demand (\<not> (enforce \<and> historical_record ob))
       ''rolloutEvent is historical read-only data; use Wire, OTLP, or Codex Hook ingest'') (\<lambda>_.
     rbind (for_each (validate_optional_string ob) [''sourceNamespace'', ''receivedAt'', ''startedAt'', ''finishedAt'']) (\<lambda>_.
     rbind (for_each (\<lambda>field. demand (absent_or (null_or is_obj) ob field) (field @ '' must be an object or null''))
              [''requestHeaders'', ''responseHeaders'']) (\<lambda>_.
     rbind (validate_response_status (tget ob ''responseStatus'')) (\<lambda>_.
     rbind (demand (absent_or (null_or is_obj) ob ''traceContext'') ''traceContext must be an object or null'') (\<lambda>_.
     rbind (demand (absent_or (null_or (array_of (\<lambda>v. as_str v \<notin> {None, Some []}))) ob ''observedLifecycleEvents'')
       ''observedLifecycleEvents must contain non-empty strings'') (\<lambda>_.
     rbind (demand (case evaluation_items ob of None \<Rightarrow> True | Some v \<Rightarrow> null_or (array_of is_obj) v)
       ''evaluationEvidence must contain JSON objects'') (\<lambda>_.
     rbind (validate_lifecycle_event ob) (\<lambda>_.
     rbind (validate_tool_execution ob) (\<lambda>_.
     rbind (validate_evaluation_evidence ob) (\<lambda>_.
     rbind (validate_rollout_event sha parse ob) (\<lambda>_.
     validate_telemetry_batch sha parse ob))))))))))))"

text \<open>The checks of the promoted envelope.\<close>

definition validate_promoted ::
  "(string \<Rightarrow> string) \<Rightarrow> (json \<Rightarrow> string) \<Rightarrow> jobject \<Rightarrow> string + unit" where
  "validate_promoted sha ser ob =
     rbind (validate_record_type ob) (\<lambda>_.
     rbind (validate_trace_context ob) (\<lambda>_.
     rbind (validate_field_evidence ob) (\<lambda>_.
     validate_gateway_evidence sha ser ob)))"

definition fill_defaults :: "jobject \<Rightarrow> jobject" where
  "fill_defaults ob =
     fold (\<lambda>(k, v). or_insert k v)
       [(''traceContext'', Object []), (''observedLifecycleEvents'', Array []), (''requestTruncated'', Bool False),
        (''responseTruncated'', Bool False), (''stream'', Bool False), (''captureError'', Null)] ob"

definition fill_received_at :: "jobject \<Rightarrow> jobject" where
  "fill_received_at ob =
     (if tget ob ''receivedAt'' \<in> {None, Some Null}
      then tput ''receivedAt'' (json_opt (map_option String (first_timestamp (Object ob)))) ob
      else ob)"

definition seal_envelope :: "jobject \<Rightarrow> jobject" where
  "seal_envelope ob =
     (case sanitize_headers ob of (ob, redacted) \<Rightarrow>
        fill_defaults (tput ''redactedHeaders'' (Array (map String redacted))
          (tput ''version'' (String capture_schema_version) ob)))"

text \<open>The object a Capture envelope is stored as.\<close>

definition normalize_object ::
  "(string \<Rightarrow> string) \<Rightarrow> (string \<Rightarrow> json option) \<Rightarrow> (json \<Rightarrow> string) \<Rightarrow> bool \<Rightarrow> jobject \<Rightarrow> string + jobject" where
  "normalize_object sha parse ser enforce ob =
     (let ob = or_insert ''recordType'' (String ''api_snapshot'') ob in
     rbind (validate_envelope sha parse enforce ob) (\<lambda>_.
     rbind (normalize_body_fields sha parse ob) (\<lambda>ob.
     rbind (validate_response_delivery_evidence ob) (\<lambda>_.
     let ob = promote_protocol_fields parse ser ob in
     rbind (validate_promoted sha ser ob) (\<lambda>_.
     Inr (seal_envelope ob))))))"

definition normalize_capture_with_policy ::
  "(string \<Rightarrow> string) \<Rightarrow> (string \<Rightarrow> json option) \<Rightarrow> (json \<Rightarrow> string) \<Rightarrow> string \<Rightarrow> nat \<Rightarrow> bool
     \<Rightarrow> string + capture_record" where
  "normalize_capture_with_policy sha parse ser raw max_bytes enforce =
     rbind (demand (length raw \<le> max_bytes) (''capture envelope exceeds '' @ nat_dec max_bytes @ '' bytes'')) (\<lambda>_.
     rbind (ok_or ''invalid JSON'' (parse raw)) (\<lambda>value.
     rbind (ok_or ''capture envelope must be a JSON object'' (as_object value)) (\<lambda>ob.
     let legacy_raw_sha256 = (if ostr ob ''version'' \<noteq> Some capture_schema_version then Some (sha raw) else None) in
     rbind (ok_or ''captureId is required'' (ostr ob ''captureId'')) (\<lambda>capture_id.
     rbind (demand (capture_id_ok capture_id) ''captureId must match cap-[A-Za-z0-9._:-]+ and be <= 256 bytes'') (\<lambda>_.
     rbind (normalize_object sha parse ser enforce ob) (\<lambda>ob.
     let received_at = first_timestamp (Object ob);
         value = Object (fill_received_at ob);
         canonical = ser value in
     rbind (demand (length canonical \<le> max_bytes)
       (''normalized capture envelope exceeds '' @ nat_dec max_bytes @ '' bytes'')) (\<lambda>_.
     Inr \<lparr>cr_capture_id = capture_id, cr_canonical = canonical, cr_sha256 = sha canonical,
          cr_legacy_raw_sha256 = legacy_raw_sha256, cr_received_at = received_at,
          cr_model = body_model value, cr_wire_evidence = wire_evidence_of value\<rparr>)))))))"

definition normalize_capture ::
  "(string \<Rightarrow> string) \<Rightarrow> (string \<Rightarrow> json option) \<Rightarrow> (json \<Rightarrow> string) \<Rightarrow> string \<Rightarrow> nat \<Rightarrow> string + capture_record" where
  "normalize_capture sha parse ser raw max_bytes = normalize_capture_with_policy sha parse ser raw max_bytes True"

definition forbidden_wire_fields :: "string list" where
  "forbidden_wire_fields =
     [''evaluationEvidence'', ''evaluation_evidence'', ''lifecycleEvent'', ''producerEvent'', ''producerModel'',
      ''rolloutEvent'', ''rolloutMessages'', ''rolloutUsage'', ''runtimeToolObservation'', ''telemetryBatch'',
      ''toolExecution'', ''toolRegistry'', ''toolRegistrySha256'']"

definition normalize_wire_capture ::
  "(string \<Rightarrow> string) \<Rightarrow> (string \<Rightarrow> json option) \<Rightarrow> (json \<Rightarrow> string) \<Rightarrow> string \<Rightarrow> nat \<Rightarrow> string + capture_record" where
  "normalize_wire_capture sha parse ser raw max_bytes =
     rbind (ok_or ''invalid JSON'' (parse raw)) (\<lambda>value.
     rbind (ok_or ''Wire Capture envelope must be a JSON object'' (as_object value)) (\<lambda>ob.
     rbind (demand (absent_or (\<lambda>v. as_str v = Some capture_schema_version) ob ''version'')
       (''explicit Wire Capture version must be '' @ capture_schema_version)) (\<lambda>_.
     rbind (demand (ostr ob ''recordType'' = Some ''api_snapshot'') ''Wire Capture recordType must be api_snapshot'') (\<lambda>_.
     rbind (demand (otext ob ''sourceNamespace'' \<noteq> None) ''Wire Capture sourceNamespace is required'') (\<lambda>_.
     rbind (for_each (\<lambda>field. demand (tget ob field = None) (''Wire Capture must not contain '' @ field))
              forbidden_wire_fields) (\<lambda>_.
     normalize_capture sha parse ser raw max_bytes))))))"

text \<open>An NDJSON batch: a line may end in a carriage return, a blank line is skipped.\<close>

definition is_ascii_whitespace :: "char \<Rightarrow> bool" where
  "is_ascii_whitespace c \<longleftrightarrow> c \<in> {CHR 0x09, CHR 0x0A, CHR 0x0C, CHR 0x0D, CHR 0x20}"

definition strip_cr :: "string \<Rightarrow> string" where
  "strip_cr line = (if line \<noteq> [] \<and> last line = CHR 0x0D then butlast line else line)"

definition normalize_line ::
  "(string \<Rightarrow> nat \<Rightarrow> string + capture_record) \<Rightarrow> nat \<Rightarrow> nat \<Rightarrow> nat \<times> string \<Rightarrow> capture_record list
     \<Rightarrow> string + capture_record list" where
  "normalize_line norm max_envelope_bytes max_records il records =
     (let line = strip_cr (snd il) in
      if list_all is_ascii_whitespace line then Inr records
      else if max_records \<le> length records then Inl (''batch contains more than '' @ nat_dec max_records @ '' records'')
      else case norm line max_envelope_bytes of
             Inl e \<Rightarrow> Inl (''invalid capture at NDJSON line '' @ nat_dec (fst il + 1) @ '': '' @ e)
           | Inr record \<Rightarrow> Inr (records @ [record]))"

definition normalize_capture_lines ::
  "string \<Rightarrow> nat \<Rightarrow> nat \<Rightarrow> (string \<Rightarrow> nat \<Rightarrow> string + capture_record) \<Rightarrow> string + capture_record list" where
  "normalize_capture_lines raw max_envelope_bytes max_records norm =
     rbind (demand (max_records \<noteq> 0) ''batch record limit must be positive'') (\<lambda>_.
     rbind (try_fold (normalize_line norm max_envelope_bytes max_records)
              (enumerate 0 (split_char CHR 0x0A raw)) []) (\<lambda>records.
     rbind (demand (records \<noteq> []) ''capture batch is empty'') (\<lambda>_. Inr records)))"

definition normalize_capture_batch ::
  "(string \<Rightarrow> string) \<Rightarrow> (string \<Rightarrow> json option) \<Rightarrow> (json \<Rightarrow> string) \<Rightarrow> string \<Rightarrow> nat \<Rightarrow> nat
     \<Rightarrow> string + capture_record list" where
  "normalize_capture_batch sha parse ser raw max_envelope_bytes max_records =
     normalize_capture_lines raw max_envelope_bytes max_records (normalize_capture sha parse ser)"

definition normalize_wire_capture_batch ::
  "(string \<Rightarrow> string) \<Rightarrow> (string \<Rightarrow> json option) \<Rightarrow> (json \<Rightarrow> string) \<Rightarrow> string \<Rightarrow> nat \<Rightarrow> nat
     \<Rightarrow> string + capture_record list" where
  "normalize_wire_capture_batch sha parse ser raw max_envelope_bytes max_records =
     normalize_capture_lines raw max_envelope_bytes max_records (normalize_wire_capture sha parse ser)"

text \<open>The structural check of a stored line: the normalisation without the producer contract.\<close>

definition stored_structure ::
  "(string \<Rightarrow> string) \<Rightarrow> (string \<Rightarrow> json option) \<Rightarrow> (json \<Rightarrow> string) \<Rightarrow> string \<Rightarrow> nat \<Rightarrow> wire_evidence option" where
  "stored_structure sha parse ser raw max_bytes =
     (case normalize_capture_with_policy sha parse ser raw max_bytes False of
        Inl _ \<Rightarrow> None
      | Inr record \<Rightarrow> Some (cr_wire_evidence record))"

definition validate_stored ::
  "(string \<Rightarrow> string) \<Rightarrow> (string \<Rightarrow> json option) \<Rightarrow> (json \<Rightarrow> string) \<Rightarrow> string \<Rightarrow> wal_error + capture_record" where
  "validate_stored sha parse ser = validate_stored_capture sha parse (stored_structure sha parse ser)"

end
