(* ===== verification/CaptureFrame.thy ===== *)
theory CaptureFrame
  imports CaptureNormalize
begin

text \<open>
  What each step of the normalisation of a Capture envelope leaves alone: the members it does not
  name, the order of the keys, and, for a step that was done before, the whole envelope.  The
  checks read single members, so they cannot tell two envelopes apart that agree on those.
\<close>

named_theorems frame_simps \<open>members and key order after a step of the normalisation\<close>

section \<open>Members\<close>

lemma as_object_eq_Some: "as_object v = Some m \<longleftrightarrow> v = Object m"
  by (cases v) auto

lemma as_array_eq_Some: "as_array v = Some vs \<longleftrightarrow> v = Array vs"
  by (cases v) auto

lemma as_str_eq_Some: "as_str v = Some s \<longleftrightarrow> v = String s"
  by (cases v) auto

lemma tget_or_insert [frame_simps]:
  "tget (or_insert k v ob) = (if tget ob k = None then (tget ob)(k \<mapsto> v) else tget ob)"
  by (simp add: or_insert_def)

lemma or_insert_id: "tget ob k \<noteq> None \<Longrightarrow> or_insert k v ob = ob"
  by (auto simp: or_insert_def)

lemma tsorted_or_insert [simp, frame_simps]: "tsorted ob \<Longrightarrow> tsorted (or_insert k v ob)"
  by (simp add: or_insert_def)

lemma tput_id: "tsorted t \<Longrightarrow> tget t k = Some v \<Longrightarrow> tput k v t = t"
  by (rule tsorted_unique) (auto simp: fun_upd_idem)

lemma tget_tdel_other: "k \<noteq> k' \<Longrightarrow> tget (tdel k t) k' = tget t k'"
  by (induction t) auto

lemma ostr_cong: "tget ob k = tget ob' k \<Longrightarrow> ostr ob k = ostr ob' k"
  by (simp add: ostr_def)

lemmas member_defs = ostr_def ou64_def oobj_def oarr_def otext_def absent_or_def

subsection \<open>Well-formed envelopes\<close>

abbreviation wf_object :: "jobject \<Rightarrow> bool" where
  "wf_object ob \<equiv> wf_json (Object ob)"

lemma wf_object_get: "wf_object ob \<Longrightarrow> tget ob k = Some v \<Longrightarrow> wf_json v"
  by (force simp: list_all_iff dest!: map_of_SomeD)

lemma set_tput_subset: "set (tput k v t) \<subseteq> insert (k, v) (set t)"
  by (induction t) auto

lemma wf_object_tput [simp]: "wf_object ob \<Longrightarrow> wf_json v \<Longrightarrow> wf_object (tput k v ob)"
  using set_tput_subset [of k v ob] by (auto simp: list_all_iff)

lemma wf_object_tdel [simp]: "wf_object ob \<Longrightarrow> wf_object (tdel k ob)"
  using set_tdel_subset [of k ob] by (auto simp: list_all_iff)

lemma wf_object_or_insert [simp]: "wf_object ob \<Longrightarrow> wf_json v \<Longrightarrow> wf_object (or_insert k v ob)"
  unfolding or_insert_def by (simp del: wf_json.simps)

lemma wf_object_sorted: "wf_object ob \<Longrightarrow> tsorted ob"
  by simp

lemma wf_object_oobj: "wf_object ob \<Longrightarrow> oobj ob k = Some m \<Longrightarrow> wf_object m"
  by (auto simp: oobj_def bind_eq_Some_conv as_object_eq_Some simp del: wf_json.simps dest: wf_object_get)

lemma wf_object_oarr: "wf_object ob \<Longrightarrow> oarr ob k = Some vs \<Longrightarrow> v \<in> set vs \<Longrightarrow> wf_json v"
  by (auto simp: oarr_def bind_eq_Some_conv as_array_eq_Some list_all_iff dest!: wf_object_get
      simp del: wf_json.simps(1))

lemma wf_set_member: "wf_json w \<Longrightarrow> wf_json v \<Longrightarrow> wf_json (set_member k v w)"
  by (cases w) (simp_all add: set_member_def del: wf_json.simps(1))


section \<open>Headers\<close>

lemma oobj_sanitize_side [frame_simps]:
  "sanitize_side field (ob, redacted) = (ob', redacted') \<Longrightarrow>
     tget ob' k = (if k = field then Some (Object (filter (\<lambda>h. \<not> sensitive (fst h))
       (case oobj ob field of None \<Rightarrow> [] | Some h \<Rightarrow> h))) else tget ob k)"
  by (auto simp: sanitize_side_def split: option.splits)

text \<open>The headers that are kept, and the names that are listed.\<close>

definition kept_headers :: "jobject \<Rightarrow> string \<Rightarrow> jobject" where
  "kept_headers ob side =
     filter (\<lambda>h. \<not> sensitive (fst h)) (case oobj ob side of None \<Rightarrow> [] | Some h \<Rightarrow> h)"

definition dropped_names :: "jobject \<Rightarrow> string \<Rightarrow> string list" where
  "dropped_names ob side =
     map to_ascii_lowercase (filter sensitive (map fst (case oobj ob side of None \<Rightarrow> [] | Some h \<Rightarrow> h)))"

lemma sanitize_headers_eq:
  "sanitize_headers ob =
     (tput ''responseHeaders'' (Object (kept_headers ob ''responseHeaders''))
        (tput ''requestHeaders'' (Object (kept_headers ob ''requestHeaders'')) ob),
      sort (remdups (dropped_names ob ''requestHeaders'' @ dropped_names ob ''responseHeaders'' @
        List.map_filter as_str (case oarr ob ''redactedHeaders'' of None \<Rightarrow> [] | Some vs \<Rightarrow> vs))))"
  by (auto simp: sanitize_headers_def sanitize_side_def kept_headers_def dropped_names_def oobj_def oarr_def
      split: option.splits)

lemma header_value_kept:
  "\<not> sensitive name \<Longrightarrow> header_value (filter (\<lambda>h. \<not> sensitive (fst h)) h) name = header_value h name"
  unfolding header_value_def by (simp add: conj_ac sensitive_def cong: conj_cong)



section \<open>What the checks read\<close>

lemma try_fold_fun: "try_fold f [] = Inr" "try_fold f (x # xs) = (\<lambda>s. rbind (f x s) (try_fold f xs))"
  by (simp_all add: fun_eq_iff)

text \<open>Two envelopes that agree on these members pass the same checks, with the same message.\<close>

definition agree :: "string list \<Rightarrow> jobject \<Rightarrow> jobject \<Rightarrow> bool" where
  "agree ks ob ob' \<longleftrightarrow> list_all (\<lambda>k. tget ob' k = tget ob k) ks"

definition untouched_members :: "string list" where
  "untouched_members =
     [''recordType'', ''sourceNamespace'', ''startedAt'', ''finishedAt'', ''responseStatus'', ''producerEvent'',
      ''rolloutEvent'', ''rolloutMessages'', ''rolloutUsage'', ''lifecycleEvent'', ''toolExecution'', ''telemetryBatch'',
      ''evaluationEvidence'', ''evaluation_evidence'', ''gatewayEvidence'', ''gatewayEvidenceJoin'',
      ''responseBytesForwarded'', ''responseBytesForwardedAtClientClose'', ''responseProtocolTerminalByteOffset'',
      ''responseFramingDoneByteOffset'', ''clientRequestAborted'', ''clientResponseClosedBeforeFinish'',
      ''clientResponseFinished'', ''responseProtocolTerminalObservedAtClientClose'',
      ''responseFramingDoneObservedAtClientClose'', ''captureId'']"

lemma agree_untouched:
  assumes "agree untouched_members ob ob'" "k \<in> set untouched_members"
  shows "tget ob' k = tget ob k"
  using assms by (auto simp: agree_def list_all_iff)

lemma validate_payload_checks_cong:
  assumes "agree untouched_members ob ob'"
  shows "validate_lifecycle_event ob' = validate_lifecycle_event ob"
    and "validate_tool_execution ob' = validate_tool_execution ob"
    and "validate_evaluation_evidence ob' = validate_evaluation_evidence ob"
    and "validate_telemetry_batch sha parse ob' = validate_telemetry_batch sha parse ob"
    and "historical_record ob' = historical_record ob"
    and "evaluation_items ob' = evaluation_items ob"
  using assms
  by (simp_all add: agree_def untouched_members_def validate_lifecycle_event_def validate_tool_execution_def
      validate_evaluation_evidence_def evaluation_items_def validate_telemetry_batch_def
      historical_record_def member_defs)

lemma validate_rollout_event_cong:
  assumes "agree untouched_members ob ob'"
  shows "validate_rollout_event sha parse ob' = validate_rollout_event sha parse ob"
proof -
  have eqs: "tget ob' ''rolloutEvent'' = tget ob ''rolloutEvent''" "tget ob' ''rolloutMessages'' = tget ob ''rolloutMessages''"
    "tget ob' ''rolloutUsage'' = tget ob ''rolloutUsage''"
    by (rule agree_untouched [OF assms], simp add: untouched_members_def)+
  show ?thesis unfolding validate_rollout_event_def absent_or_def eqs ..
qed

lemma validate_response_delivery_evidence_cong:
  assumes "agree untouched_members ob ob'"
  shows "validate_response_delivery_evidence ob' = validate_response_delivery_evidence ob"
  using assms by (simp add: agree_def untouched_members_def validate_response_delivery_evidence_def member_defs
      try_fold_fun)

lemma validate_record_type_cong:
  assumes "agree untouched_members ob ob'" "tget ob' ''traceContext'' = tget ob ''traceContext''"
  shows "validate_record_type ob' = validate_record_type ob"
proof -
  from assms have eqs: "has_session_identity ob' = has_session_identity ob" "evaluation_items ob' = evaluation_items ob"
    "otext ob' ''sourceNamespace'' = otext ob ''sourceNamespace''" "tget ob' ''recordType'' = tget ob ''recordType''"
    "has_object ob' ''lifecycleEvent'' = has_object ob ''lifecycleEvent''"
    "has_object ob' ''toolExecution'' = has_object ob ''toolExecution''"
    "has_object ob' ''rolloutEvent'' = has_object ob ''rolloutEvent''"
    "has_object ob' ''telemetryBatch'' = has_object ob ''telemetryBatch''"
    by (simp_all add: agree_def untouched_members_def has_session_identity_def has_object_def evaluation_items_def
        member_defs)
  show ?thesis unfolding validate_record_type_def eqs ..
qed

lemma validate_trace_context_cong:
  "tget ob' ''traceContext'' = tget ob ''traceContext'' \<Longrightarrow> validate_trace_context ob' = validate_trace_context ob"
  by (simp add: validate_trace_context_def oobj_def)

lemma validate_field_evidence_cong:
  "agree [''fieldEvidence'', ''fieldEvidenceConflicts''] ob ob' \<Longrightarrow>
     validate_field_evidence ob' = validate_field_evidence ob"
  by (simp add: agree_def validate_field_evidence_def try_fold_fun)

text \<open>The headers are read only under names that are not sensitive.\<close>

definition same_header :: "jobject \<Rightarrow> jobject \<Rightarrow> string \<Rightarrow> string \<Rightarrow> bool" where
  "same_header ob ob' side name \<longleftrightarrow>
     Option.bind (oobj ob' side) (\<lambda>h. header_value h name) = Option.bind (oobj ob side) (\<lambda>h. header_value h name)"

lemma validate_gateway_evidence_cong:
  assumes "agree untouched_members ob ob'"
    and "agree [''requestId'', ''upstreamRequestId'', ''captureStage''] ob ob'"
    and "same_header ob ob' ''requestHeaders'' ''x-client-request-id''"
    and "same_header ob ob' ''responseHeaders'' ''x-client-request-id''"
    and "same_header ob ob' ''responseHeaders'' ''x-request-id''"
  shows "validate_gateway_evidence sha ser ob' = validate_gateway_evidence sha ser ob"
proof -
  from assms have "joined_field ob' = joined_field ob"
    by (intro ext) (simp add: joined_field_def same_header_def agree_def ostr_def)
  then have "validate_gateway_evidence_join sha ser ob' = validate_gateway_evidence_join sha ser ob"
    by (intro ext) (simp add: validate_gateway_evidence_join_def)
  moreover from assms(2) have "ostr ob' ''captureStage'' = ostr ob ''captureStage''"
    "for_each (validate_optional_string ob') [''requestId'', ''upstreamRequestId'', ''captureStage''] =
       for_each (validate_optional_string ob) [''requestId'', ''upstreamRequestId'', ''captureStage'']"
    by (simp_all add: agree_def member_defs validate_optional_string_def try_fold_fun)
  moreover have "tget ob' ''gatewayEvidence'' = tget ob ''gatewayEvidence''"
    "tget ob' ''gatewayEvidenceJoin'' = tget ob ''gatewayEvidenceJoin''"
    by (rule agree_untouched [OF assms(1)], simp add: untouched_members_def)+
  ultimately show ?thesis by (simp only: validate_gateway_evidence_def cong: option.case_cong)
qed

lemma same_header_kept:
  assumes "\<not> sensitive name" "tget ob' side = Some (Object (kept_headers ob side))"
  shows "same_header ob ob' side name"
proof -
  from assms(2) have "oobj ob' side = Some (kept_headers ob side)" by (simp add: oobj_def)
  with assms(1) show ?thesis
    by (cases "oobj ob side") (simp_all add: same_header_def kept_headers_def header_value_kept,
      simp add: header_value_def)
qed



section \<open>Bodies\<close>

definition body_members :: "string list" where
  "body_members =
     [''requestBodyText'', ''requestBody'', ''requestBytesCaptured'', ''requestBodySha256'',
      ''responseBodyText'', ''responseBody'', ''responseBytesCaptured'', ''responseBodySha256'']"

lemma unfold_body_text_frame:
  assumes "unfold_body_text sha parse f ob = Inr ob'"
    and "k \<notin> {bf_text f, bf_body f, bf_bytes f, bf_sha f}"
  shows "tget ob' k = tget ob k"
  using assms
  by (auto simp: unfold_body_text_def Let_def res_simps tget_tdel_other frame_simps split: option.splits if_splits)

lemma validate_embedded_raw_body_frame:
  assumes "validate_embedded_raw_body sha parse f ob = Inr ob'" and "k \<notin> {bf_bytes f, bf_sha f}"
  shows "tget ob' k = tget ob k"
  using assms by (auto simp: validate_embedded_raw_body_def res_simps frame_simps split: option.splits)

lemma normalize_body_fields_frame:
  assumes "normalize_body_fields sha parse ob = Inr ob'" "k \<notin> set body_members"
  shows "tget ob' k = tget ob k"
proof -
  from assms(1) obtain ob1 where ob1: "try_fold (unfold_body_text sha parse) body_field_names ob = Inr ob1"
      "try_fold (validate_embedded_raw_body sha parse) body_field_names ob1 = Inr ob'"
    by (auto simp: normalize_body_fields_def res_simps)
  have k: "k \<notin> {bf_text f, bf_body f, bf_bytes f, bf_sha f}" if "f \<in> set body_field_names" for f
    using assms(2) that by (auto simp: body_field_names_def body_members_def)
  from ob1(1) have "tget ob1 k = tget ob k"
    by (rule try_fold_invariant [where I = "\<lambda>s. tget s k = tget ob k"])
      (use k unfold_body_text_frame in \<open>metis+\<close>)
  moreover from ob1(2) have "tget ob' k = tget ob1 k"
    by (rule try_fold_invariant [where I = "\<lambda>s. tget s k = tget ob1 k"])
      (use k validate_embedded_raw_body_frame in \<open>(metis insertCI)+\<close>)
  ultimately show ?thesis by simp
qed

text \<open>The serialised forms of the parser's values are read back, and its values are ordered.\<close>

definition json_codec :: "(string \<Rightarrow> json option) \<Rightarrow> (json \<Rightarrow> string) \<Rightarrow> bool" where
  "json_codec parse ser \<longleftrightarrow>
     (\<forall>s v. parse s = Some v \<longrightarrow> wf_json v) \<and> (\<forall>v. wf_json v \<longrightarrow> parse (ser v) = Some v)"

lemma unfold_body_text_wf:
  assumes "unfold_body_text sha parse f ob = Inr ob'" "wf_object ob" "json_codec parse ser"
  shows "wf_object ob'"
proof (cases "tget ob (bf_text f)")
  case (Some v)
  have body: "wf_json (case parse t of
      Some value \<Rightarrow> json_object [(''kind'', String ''json''), (''value'', value), (''raw'', String t)]
    | None \<Rightarrow> json_object [(''kind'', String ''text''), (''value'', String t)])" for t
    using assms(3) by (auto simp: json_codec_def intro!: wf_json_object split: option.splits)
  from assms(1) Some obtain t where "ob' = tput (bf_sha f) (String (sha t))
      (or_insert (bf_bytes f) (Number (PosInt (of_nat (length t))))
        (tput (bf_body f) (case parse t of
            Some value \<Rightarrow> json_object [(''kind'', String ''json''), (''value'', value), (''raw'', String t)]
          | None \<Rightarrow> json_object [(''kind'', String ''text''), (''value'', String t)]) (tdel (bf_text f) ob)))"
    by (auto simp: unfold_body_text_def Let_def res_simps)
  with assms(2) body [of t] show ?thesis by (simp del: wf_json.simps(1))
qed (use assms in \<open>simp add: unfold_body_text_def\<close>)


text \<open>A body whose raw text was checked before passes again, and is left alone.\<close>

definition raw_body :: "body_fields \<Rightarrow> jobject \<Rightarrow> (jobject \<times> string) option" where
  "raw_body f ob = Option.bind (oobj ob (bf_body f)) (\<lambda>body. map_option (\<lambda>raw. (body, raw)) (ostr body ''raw''))"

definition body_checked ::
  "(string \<Rightarrow> string) \<Rightarrow> (string \<Rightarrow> json option) \<Rightarrow> body_fields \<Rightarrow> jobject \<Rightarrow> bool" where
  "body_checked sha parse f ob \<longleftrightarrow>
     (\<forall>body raw. raw_body f ob = Some (body, raw) \<longrightarrow>
        (ostr body ''kind'' = Some ''json'' \<longrightarrow>
           (\<exists>v p. parse raw = Some p \<and> tget body ''value'' = Some v \<and> json_eq v p)) \<and>
        ou64 ob (bf_bytes f) \<in> {None, Some (of_nat (length raw))} \<and>
        ostr ob (bf_sha f) \<in> {None, Some (sha raw)} \<and>
        tget ob (bf_bytes f) \<noteq> None \<and> tget ob (bf_sha f) \<noteq> None)"

lemma demand_eq_Inr [res_simps]: "demand P m = Inr u \<longleftrightarrow> P"
  by (simp add: demand_def)

lemma body_checked_cong:
  assumes "tget ob' (bf_body f) = tget ob (bf_body f)" "tget ob' (bf_bytes f) = tget ob (bf_bytes f)"
    "tget ob' (bf_sha f) = tget ob (bf_sha f)"
  shows "body_checked sha parse f ob' = body_checked sha parse f ob"
  using assms by (simp add: body_checked_def raw_body_def member_defs)

lemma body_checked_id:
  assumes "body_checked sha parse f ob"
  shows "validate_embedded_raw_body sha parse f ob = Inr ob"
  using assms
  by (auto simp: validate_embedded_raw_body_def body_checked_def raw_body_def [symmetric] or_insert_id
      demand_def split: option.splits)

lemma body_checked_result:
  assumes "validate_embedded_raw_body sha parse f ob = Inr ob'" "bf_bytes f \<noteq> bf_sha f"
    "bf_body f \<notin> {bf_bytes f, bf_sha f}"
  shows "body_checked sha parse f ob'"
proof -
  have same: "raw_body f ob' = raw_body f ob"
    using validate_embedded_raw_body_frame [OF assms(1,3)] by (simp add: raw_body_def oobj_def)
  show ?thesis
  proof (cases "raw_body f ob")
    case None
    with same show ?thesis by (simp add: body_checked_def)
  next
    case (Some br)
    with assms(1) obtain body raw where br: "br = (body, raw)"
      and json: "ostr body ''kind'' = Some ''json'' \<longrightarrow>
        (\<exists>v p. parse raw = Some p \<and> tget body ''value'' = Some v \<and> json_eq v p)"
      and len: "ou64 ob (bf_bytes f) \<in> {None, Some (of_nat (length raw))}"
      and digest: "ostr ob (bf_sha f) \<in> {None, Some (sha raw)}"
      and ob': "ob' = or_insert (bf_sha f) (String (sha raw))
        (or_insert (bf_bytes f) (Number (PosInt (of_nat (length raw)))) ob)"
      unfolding validate_embedded_raw_body_def raw_body_def [symmetric]
      by (cases br) (auto simp: res_simps split: if_splits option.splits)
    from len digest assms(2) have "ou64 ob' (bf_bytes f) \<in> {None, Some (of_nat (length raw))}"
      "ostr ob' (bf_sha f) \<in> {None, Some (sha raw)}" "tget ob' (bf_bytes f) \<noteq> None" "tget ob' (bf_sha f) \<noteq> None"
      unfolding ob' by (auto simp: member_defs frame_simps)
    with json same Some br show ?thesis by (simp add: body_checked_def)
  qed
qed

lemma unfold_body_text_idle: "tget ob (bf_text f) = None \<Longrightarrow> unfold_body_text sha parse f ob = Inr ob"
  by (simp add: unfold_body_text_def)

lemma tget_unfold_body_text:
  assumes "unfold_body_text sha parse f ob = Inr ob'" "tsorted ob" "bf_text f \<notin> {bf_body f, bf_bytes f, bf_sha f}"
  shows "tget ob' (bf_text f) = None"
  using assms
  by (auto simp: unfold_body_text_def Let_def res_simps frame_simps split: option.splits if_splits)

lemma tsorted_unfold_body_text:
  "unfold_body_text sha parse f ob = Inr ob' \<Longrightarrow> tsorted ob \<Longrightarrow> tsorted ob'"
  by (auto simp: unfold_body_text_def Let_def res_simps split: option.splits)

lemma normalize_body_fields_idem:
  assumes "normalize_body_fields sha parse ob = Inr ob'" "tsorted ob"
    and "agree body_members ob' ob''"
  shows "normalize_body_fields sha parse ob'' = Inr ob''"
proof -
  let ?q = "\<lparr>bf_text = ''requestBodyText'', bf_body = ''requestBody'', bf_bytes = ''requestBytesCaptured'',
       bf_sha = ''requestBodySha256''\<rparr>"
  let ?r = "\<lparr>bf_text = ''responseBodyText'', bf_body = ''responseBody'', bf_bytes = ''responseBytesCaptured'',
       bf_sha = ''responseBodySha256''\<rparr>"
  from assms(1) obtain a b c where steps: "unfold_body_text sha parse ?q ob = Inr a"
    "unfold_body_text sha parse ?r a = Inr b" "validate_embedded_raw_body sha parse ?q b = Inr c"
    "validate_embedded_raw_body sha parse ?r c = Inr ob'"
    by (auto simp: normalize_body_fields_def body_field_names_def res_simps)
  have "tsorted a" using steps(1) assms(2) by (rule tsorted_unfold_body_text)
  from steps(1) assms(2) have "tget a ''requestBodyText'' = None"
    using tget_unfold_body_text [of sha parse ?q] by auto
  moreover from steps(2) \<open>tsorted a\<close> have "tget b ''responseBodyText'' = None"
    using tget_unfold_body_text [of sha parse ?r] by auto
  moreover have "tget b k = tget a k" if "k \<in> {''requestBodyText'', ''requestBody'', ''requestBytesCaptured'',
      ''requestBodySha256''}" for k
    using unfold_body_text_frame [OF steps(2), of k] that by auto
  moreover have "tget c k = tget b k" if "k \<notin> {''requestBytesCaptured'', ''requestBodySha256''}" for k
    using validate_embedded_raw_body_frame [OF steps(3), of k] that by auto
  moreover have r: "tget ob' k = tget c k" if "k \<notin> {''responseBytesCaptured'', ''responseBodySha256''}" for k
    using validate_embedded_raw_body_frame [OF steps(4), of k] that by auto
  ultimately have "tget ob' ''requestBodyText'' = None" "tget ob' ''responseBodyText'' = None" by simp_all
  moreover have "body_checked sha parse ?q c" using steps(3) by (rule body_checked_result) simp_all
  then have "body_checked sha parse ?q ob'" using r by (subst body_checked_cong [of _ _ c]) simp_all
  moreover have "body_checked sha parse ?r ob'" using steps(4) by (rule body_checked_result) simp_all
  ultimately have "tget ob'' ''requestBodyText'' = None" "tget ob'' ''responseBodyText'' = None"
    "body_checked sha parse ?q ob''" "body_checked sha parse ?r ob''"
    using assms(3) body_checked_cong [of ob'' ?q ob'] body_checked_cong [of ob'' ?r ob']
    by (simp_all add: agree_def body_members_def)
  then show ?thesis
    by (simp add: normalize_body_fields_def body_field_names_def unfold_body_text_idle body_checked_id)
qed

end
