(* ===== verification/CapturePromotion.thy ===== *)
theory CapturePromotion
  imports CaptureFrame
begin

text \<open>
  The promotion of protocol identifiers (\<open>capture.rs\<close>, \<open>promote_protocol_fields\<close>) in closed
  form: the candidates of a field in the order of their sources, the trace context, the evidence
  and the conflicts they produce, and the fields a second promotion reads differently.
\<close>

section \<open>The candidates of a field\<close>

definition cget :: "candidates \<Rightarrow> string \<Rightarrow> field_candidate list" where
  "cget out field = (case tget out field of None \<Rightarrow> [] | Some cs \<Rightarrow> cs)"

definition proper :: "candidates \<Rightarrow> bool" where
  "proper out \<longleftrightarrow> tsorted out \<and> (\<forall>r \<in> set out. snd r \<noteq> [])"

lemma proper_append: "proper out \<Longrightarrow> proper (append_candidate field c out)"
  using set_tput_subset [of field "cget out field @ [c]" out]
  by (force simp: proper_def append_candidate_def cget_def)

lemma cget_append: "cget (append_candidate field c out) k = cget out k @ (if k = field then [c] else [])"
  by (simp add: cget_def append_candidate_def)

definition object_cands :: "jobject \<Rightarrow> string list \<Rightarrow> string \<Rightarrow> string \<Rightarrow> string \<Rightarrow> field_candidate list" where
  "object_cands ob aliases source_prefix producer authority =
     List.map_filter (\<lambda>a. case tget ob a of
         None \<Rightarrow> None
       | Some v \<Rightarrow>
           if protocol_value_present v
           then Some \<lparr>fc_value = v, fc_source = source_prefix @ ''.'' @ a, fc_producer = producer, fc_authority = authority\<rparr>
           else None) aliases"

lemma object_cands_simps:
  "object_cands ob [] p q r = []"
  "object_cands ob (a # as) p q r =
     (case tget ob a of
        None \<Rightarrow> []
      | Some v \<Rightarrow> if protocol_value_present v
                  then [\<lparr>fc_value = v, fc_source = p @ ''.'' @ a, fc_producer = q, fc_authority = r\<rparr>] else [])
     @ object_cands ob as p q r"
  by (auto simp: object_cands_def List.map_filter_simps split: option.splits)

lemma append_object_candidates:
  "cget (append_object_candidates field ob aliases p q r out) k
     = cget out k @ (if k = field then object_cands ob aliases p q r else [])"
  "proper out \<Longrightarrow> proper (append_object_candidates field ob aliases p q r out)"
proof (induction aliases arbitrary: out)
  case (Cons a as)
  have step: "append_object_candidates field ob (a # as) p q r out = append_object_candidates field ob as p q r
      (case tget ob a of
         None \<Rightarrow> out
       | Some v \<Rightarrow> if protocol_value_present v
                   then append_candidate field
                     \<lparr>fc_value = v, fc_source = p @ ''.'' @ a, fc_producer = q, fc_authority = r\<rparr> out else out)" for out
    by (simp add: append_object_candidates_def)
  {
    case 1
    show ?case unfolding step Cons.IH(1)
      by (simp add: object_cands_simps cget_append split: option.split)
  next
    case 2
    then show ?case unfolding step
      by (intro Cons.IH(2)) (simp add: proper_append split: option.split)
  }
qed (simp_all add: append_object_candidates_def object_cands_simps)

definition captured_cands :: "identity_sources \<Rightarrow> string \<Rightarrow> string list \<Rightarrow> field_candidate list" where
  "captured_cands src field aliases =
     (if ''traceContext.'' @ field \<notin> set (is_existing src)
      then object_cands (is_captured src) aliases ''capture.traceContext'' ''capture_producer'' ''producer_asserted''
      else [])"

definition header_cands :: "jobject \<Rightarrow> string \<Rightarrow> field_candidate list" where
  "header_cands headers field =
     (case Option.bind (chiptrace_header field) (\<lambda>header. map_option (\<lambda>v. (header, v)) (header_value headers header)) of
        None \<Rightarrow> []
      | Some (header, v) \<Rightarrow>
          [\<lparr>fc_value = String v, fc_source = ''requestHeaders.'' @ header, fc_producer = ''agent_harness'',
            fc_authority = ''client_asserted''\<rparr>])"

definition observed_cands :: "identity_sources \<Rightarrow> string \<Rightarrow> string list \<Rightarrow> field_candidate list" where
  "observed_cands src field aliases =
     header_cands (is_headers src) field
     @ object_cands (is_top_level src) aliases ''capture'' ''capture_producer'' ''producer_asserted''
     @ object_cands (is_metadata src) aliases ''requestBody.client_metadata'' ''codex_client'' ''client_asserted''
     @ object_cands (is_turn_metadata src) aliases ''requestBody.client_metadata.x-codex-turn-metadata''
         ''codex_client'' ''client_asserted''
     @ object_cands (is_request src) aliases ''requestBody'' ''codex_client'' ''client_asserted''"

lemma field_candidates:
  "cget (field_candidates src (field, aliases) out) k
     = cget out k @ (if k = field then captured_cands src field aliases @ observed_cands src field aliases else [])"
  "proper out \<Longrightarrow> proper (field_candidates src (field, aliases) out)"
  by (auto simp: field_candidates_def Let_def captured_cands_def observed_cands_def header_cands_def
      append_object_candidates cget_append proper_append split: option.splits)

lemma fold_field_candidates:
  "cget (fold (field_candidates src) fas out) k
     = cget out k @ concat (map (\<lambda>fa. if k = fst fa
         then captured_cands src (fst fa) (snd fa) @ observed_cands src (fst fa) (snd fa) else []) fas)"
  "proper out \<Longrightarrow> proper (fold (field_candidates src) fas out)"
proof (induction fas arbitrary: out)
  case (Cons fa fas)
  {
    case 1
    show ?case by (cases fa) (simp add: Cons.IH(1) field_candidates)
  next
    case 2
    then show ?case by (cases fa) (simp add: Cons.IH(2) field_candidates)
  }
qed simp_all

lemma concat_by_key:
  "distinct (map fst fas) \<Longrightarrow>
     concat (map (\<lambda>fa. if k = fst fa then h (fst fa) (snd fa) else []) fas)
       = (case map_of fas k of None \<Rightarrow> [] | Some al \<Rightarrow> h k al)"
proof (induction fas)
  case (Cons fa fas)
  have none: "concat (map (\<lambda>fa. if k = fst fa then h (fst fa) (snd fa) else []) fas) = []" if "k = fst fa"
    using Cons.prems that by (force simp: image_iff)
  from Cons show ?case by (cases fa) (auto simp: none)
qed simp

definition w3c_cands :: "jobject \<Rightarrow> string \<Rightarrow> field_candidate list" where
  "w3c_cands headers field = cget (append_w3c_trace_context headers []) field"

lemma append_w3c_trace_context:
  "cget (append_w3c_trace_context headers out) k = cget out k @ w3c_cands headers k"
  "proper out \<Longrightarrow> proper (append_w3c_trace_context headers out)"
proof -
  have nil: "cget [] k = []" for k by (simp add: cget_def)
  show "cget (append_w3c_trace_context headers out) k = cget out k @ w3c_cands headers k"
    unfolding w3c_cands_def append_w3c_trace_context_def Let_def
    by (simp add: cget_append nil split: option.split prod.split)
  show "proper out \<Longrightarrow> proper (append_w3c_trace_context headers out)"
    unfolding append_w3c_trace_context_def Let_def
    by (simp add: proper_append split: option.split prod.split)
qed

definition cands :: "identity_sources \<Rightarrow> string \<Rightarrow> field_candidate list" where
  "cands src field =
     (case map_of trace_aliases field of
        None \<Rightarrow> []
      | Some aliases \<Rightarrow> captured_cands src field aliases @ observed_cands src field aliases)
     @ w3c_cands (is_headers src) field"

lemma distinct_trace_fields: "distinct (map fst trace_aliases)"
  by code_simp

lemma all_candidates:
  "cget (all_candidates src) field = cands src field"
  "proper (all_candidates src)"
proof -
  have nil: "cget [] field = []" "proper []" by (simp_all add: cget_def proper_def)
  show "cget (all_candidates src) field = cands src field"
    using concat_by_key [OF distinct_trace_fields,
        of field "\<lambda>f al. captured_cands src f al @ observed_cands src f al"]
    by (simp add: all_candidates_def append_w3c_trace_context fold_field_candidates cands_def nil)
  show "proper (all_candidates src)"
    unfolding all_candidates_def by (intro append_w3c_trace_context fold_field_candidates nil)
qed



section \<open>What the promotion writes\<close>

definition row_evidence :: "jobject \<Rightarrow> string \<times> field_candidate list \<Rightarrow> json list" where
  "row_evidence T r = map (candidate_evidence (fst r) (selected_value T (fst r) (snd r))) (snd r)"

definition row_conflicts :: "(json \<Rightarrow> string) \<Rightarrow> string \<times> field_candidate list \<Rightarrow> json list" where
  "row_conflicts ser r = (if conflicting ser (snd r) then [conflict_json (fst r) (snd r)] else [])"

lemma selected_value_cong: "tget T' field = tget T field \<Longrightarrow> selected_value T' field cs = selected_value T field cs"
  by (simp add: selected_value_def)

lemma resolve_field_parts:
  "pm_evidence (resolve_field ser r p) = pm_evidence p @ row_evidence (pm_trace p) r"
  "pm_conflicts (resolve_field ser r p) = pm_conflicts p @ row_conflicts ser r"
  "tget (pm_trace (resolve_field ser r p)) k =
     (if k = fst r \<and> tget (pm_trace p) k = None then selected_value (pm_trace p) k (snd r) else tget (pm_trace p) k)"
  by (auto simp: resolve_field_def Let_def row_evidence_def row_conflicts_def frame_simps
      split: prod.split option.split)

lemma resolve_rows:
  "distinct (map fst rows) \<Longrightarrow>
     pm_evidence (fold (resolve_field ser) rows p) = pm_evidence p @ concat (map (row_evidence (pm_trace p)) rows) \<and>
     pm_conflicts (fold (resolve_field ser) rows p) = pm_conflicts p @ concat (map (row_conflicts ser) rows) \<and>
     (\<forall>k. tget (pm_trace (fold (resolve_field ser) rows p)) k =
       (case map_of rows k of
          Some cs \<Rightarrow> if tget (pm_trace p) k = None then selected_value (pm_trace p) k cs else tget (pm_trace p) k
        | None \<Rightarrow> tget (pm_trace p) k))"
proof (induction rows arbitrary: p)
  case (Cons r rows)
  let ?p = "resolve_field ser r p"
  from Cons.prems have fresh: "fst r' \<noteq> fst r" if "r' \<in> set rows" for r'
    using that by (force simp: image_iff)
  have same: "row_evidence (pm_trace ?p) r' = row_evidence (pm_trace p) r'" if "r' \<in> set rows" for r'
    unfolding row_evidence_def
    by (subst selected_value_cong [of _ _ "pm_trace p"]) (simp_all add: resolve_field_parts fresh [OF that])
  have evidence: "concat (map (row_evidence (pm_trace ?p)) rows) = concat (map (row_evidence (pm_trace p)) rows)"
    by (intro arg_cong [where f = concat] map_cong refl same)
  have none: "map_of rows (fst r) = None" using fresh by (force simp: map_of_eq_None_iff)
  from Cons.prems have "distinct (map fst rows)" by simp
  note IH = Cons.IH [OF this, of ?p]
  show ?case
  proof (intro conjI allI)
    fix k
    show "tget (pm_trace (fold (resolve_field ser) (r # rows) p)) k =
      (case map_of (r # rows) k of
         Some cs \<Rightarrow> if tget (pm_trace p) k = None then selected_value (pm_trace p) k cs else tget (pm_trace p) k
       | None \<Rightarrow> tget (pm_trace p) k)"
      using IH none by (cases r) (auto simp: resolve_field_parts selected_value_def split: option.split)
  qed (use IH in \<open>simp_all add: resolve_field_parts evidence\<close>)
qed (simp split: option.split)

lemma tsorted_pm_trace:
  "tsorted (pm_trace p) \<Longrightarrow> tsorted (pm_trace (fold (resolve_field ser) rows p))"
  by (induction rows arbitrary: p) (auto simp: resolve_field_def Let_def split: prod.split option.split)

text \<open>The trace context, the evidence and the conflicts of one promotion.\<close>

definition promoted :: "(json \<Rightarrow> string) \<Rightarrow> identity_sources \<Rightarrow> promotion" where
  "promoted ser src =
     fold (resolve_field ser) (all_candidates src) \<lparr>pm_trace = is_captured src, pm_evidence = [], pm_conflicts = []\<rparr>"

lemma tget_all_candidates: "tget (all_candidates src) k = (if cands src k = [] then None else Some (cands src k))"
proof (cases "tget (all_candidates src) k")
  case None
  then show ?thesis using all_candidates(1) [of src k] by (simp add: cget_def)
next
  case (Some cs)
  with all_candidates(2) [of src] have "cs \<noteq> []" by (force simp: proper_def dest: map_of_SomeD)
  with Some all_candidates(1) [of src k] show ?thesis by (simp add: cget_def)
qed

lemma distinct_rows: "distinct (map fst (all_candidates src))"
  using all_candidates(2) [of src] by (simp add: proper_def tsorted_distinct)

lemma rows_iff: "r \<in> set (all_candidates src) \<longleftrightarrow> snd r = cands src (fst r) \<and> snd r \<noteq> []"
proof -
  have "r \<in> set (all_candidates src) \<longleftrightarrow> tget (all_candidates src) (fst r) = Some (snd r)"
    using distinct_rows by simp
  then show ?thesis by (auto simp: tget_all_candidates)
qed

lemma rows_ex:
  "(\<exists>r \<in> set (all_candidates src). P (fst r) (snd r)) \<longleftrightarrow> (\<exists>k. cands src k \<noteq> [] \<and> P k (cands src k))"
proof
  assume "\<exists>k. cands src k \<noteq> [] \<and> P k (cands src k)"
  then obtain k where "cands src k \<noteq> []" "P k (cands src k)" by blast
  then have "(k, cands src k) \<in> set (all_candidates src)" "P (fst (k, cands src k)) (snd (k, cands src k))"
    by (simp_all add: rows_iff)
  then show "\<exists>r \<in> set (all_candidates src). P (fst r) (snd r)" by blast
qed (auto simp: rows_iff)

lemma promoted_rows:
  "pm_evidence (promoted ser src) = concat (map (row_evidence (is_captured src)) (all_candidates src))"
  "pm_conflicts (promoted ser src) = concat (map (row_conflicts ser) (all_candidates src))"
  "tget (pm_trace (promoted ser src)) k =
     (case tget (all_candidates src) k of
        Some cs \<Rightarrow> if tget (is_captured src) k = None then selected_value (is_captured src) k cs
                   else tget (is_captured src) k
      | None \<Rightarrow> tget (is_captured src) k)"
proof -
  let ?p = "\<lparr>pm_trace = is_captured src, pm_evidence = [], pm_conflicts = []\<rparr>"
  have T: "pm_trace ?p = is_captured src" "pm_evidence ?p = []" "pm_conflicts ?p = []" by simp_all
  note rows = resolve_rows [OF distinct_rows, of ser src ?p, unfolded T]
  from rows show "pm_evidence (promoted ser src) = concat (map (row_evidence (is_captured src)) (all_candidates src))"
    and "pm_conflicts (promoted ser src) = concat (map (row_conflicts ser) (all_candidates src))"
    by (simp_all add: promoted_def)
  from rows show "tget (pm_trace (promoted ser src)) k =
     (case tget (all_candidates src) k of
        Some cs \<Rightarrow> if tget (is_captured src) k = None then selected_value (is_captured src) k cs
                   else tget (is_captured src) k
      | None \<Rightarrow> tget (is_captured src) k)"
    unfolding promoted_def by blast
qed

lemma promoted_trace:
  "tget (pm_trace (promoted ser src)) k =
     (if tget (is_captured src) k = None \<and> cands src k \<noteq> []
      then Some (fc_value (hd (cands src k))) else tget (is_captured src) k)"
  by (auto simp: promoted_rows(3) tget_all_candidates selected_value_def split: list.split)

lemma promoted_evidence:
  "e \<in> set (pm_evidence (promoted ser src)) \<longleftrightarrow>
     (\<exists>k c. c \<in> set (cands src k) \<and> e = candidate_evidence k (selected_value (is_captured src) k (cands src k)) c)"
proof -
  let ?e = "\<lambda>k cs. e \<in> set (map (candidate_evidence k (selected_value (is_captured src) k cs)) cs)"
  have "e \<in> set (pm_evidence (promoted ser src)) \<longleftrightarrow> (\<exists>r \<in> set (all_candidates src). ?e (fst r) (snd r))"
    by (simp add: promoted_rows(1) row_evidence_def)
  also have "\<dots> \<longleftrightarrow> (\<exists>k. cands src k \<noteq> [] \<and> ?e k (cands src k))" by (rule rows_ex)
  also have "\<dots> \<longleftrightarrow> (\<exists>k. ?e k (cands src k))"
    by (metis empty_iff list.set(1) list.simps(8))
  finally show ?thesis by auto
qed

lemma promoted_conflicts:
  "pm_conflicts (promoted ser src) = [] \<longleftrightarrow> (\<forall>k. \<not> conflicting ser (cands src k))"
proof -
  have "pm_conflicts (promoted ser src) = [] \<longleftrightarrow> (\<forall>r \<in> set (all_candidates src). \<not> conflicting ser (snd r))"
    by (auto simp: promoted_rows(2) row_conflicts_def)
  also have "\<dots> \<longleftrightarrow> (\<forall>k. cands src k \<noteq> [] \<longrightarrow> \<not> conflicting ser (cands src k))"
    using rows_ex [of src "\<lambda>_. conflicting ser"] by blast
  also have "\<dots> \<longleftrightarrow> (\<forall>k. \<not> conflicting ser (cands src k))"
    by (metis conflicting_def less_nat_zero_code list.map(1) list.size(3) remdups.simps(1))
  finally show ?thesis .
qed



section \<open>A second promotion\<close>

lemma w3c_cands_other:
  "k \<notin> {''traceparent'', ''trace_id'', ''parent_span_id'', ''trace_flags'', ''tracestate''} \<Longrightarrow> w3c_cands headers k = []"
proof -
  assume k: "k \<notin> {''traceparent'', ''trace_id'', ''parent_span_id'', ''trace_flags'', ''tracestate''}"
  have nil: "cget [] k = []" by (simp add: cget_def)
  from k show ?thesis
    by (auto simp: w3c_cands_def append_w3c_trace_context_def Let_def cget_append nil split: option.split prod.split)
qed

text \<open>An alias other than the field's own name is not the name of a field.\<close>

lemma alias_names:
  "list_all (\<lambda>fa. list_all (\<lambda>a. a = fst fa \<or> map_of trace_aliases a = None \<and>
      a \<notin> set [''traceparent'', ''trace_id'', ''parent_span_id'', ''trace_flags'', ''tracestate'']) (snd fa)) trace_aliases"
  by code_simp

lemma alias_no_cands:
  assumes "(f, al) \<in> set trace_aliases" "a \<in> set al" "a \<noteq> f"
  shows "cands src a = []"
proof -
  from assms alias_names have "map_of trace_aliases a = None"
    "a \<notin> {''traceparent'', ''trace_id'', ''parent_span_id'', ''trace_flags'', ''tracestate''}"
    by (fastforce simp: list_all_iff)+
  then show ?thesis by (simp add: cands_def w3c_cands_other)
qed

lemma object_cands_cong:
  "(\<And>a. a \<in> set al \<Longrightarrow> tget ob' a = tget ob a) \<Longrightarrow> object_cands ob' al p q r = object_cands ob al p q r"
  by (induction al) (simp_all add: object_cands_simps)

text \<open>
  The sources of a second promotion: the trace context is the promoted one, every field with
  candidates has its evidence, and what was observed elsewhere is still there.
\<close>

definition second_sources :: "(json \<Rightarrow> string) \<Rightarrow> identity_sources \<Rightarrow> identity_sources \<Rightarrow> bool" where
  "second_sources ser src src' \<longleftrightarrow>
     is_captured src' = pm_trace (promoted ser src) \<and>
     (\<forall>(f, al) \<in> set trace_aliases. observed_cands src' f al = observed_cands src f al) \<and>
     w3c_cands (is_headers src') = w3c_cands (is_headers src) \<and>
     set (is_existing src) \<subseteq> set (is_existing src') \<and>
     (\<forall>f. cands src f \<noteq> [] \<longrightarrow> ''traceContext.'' @ f \<in> set (is_existing src'))"

lemma second_cands:
  assumes "second_sources ser src src'"
  shows "cands src' f = [] \<or> suffix (cands src' f) (cands src f) \<and> cands src f \<noteq> []"
proof (cases "map_of trace_aliases f")
  case None
  with assms show ?thesis by (auto simp: second_sources_def cands_def)
next
  case (Some al)
  then have al: "(f, al) \<in> set trace_aliases" by (rule map_of_SomeD)
  with assms have rest: "observed_cands src' f al = observed_cands src f al"
    "w3c_cands (is_headers src') f = w3c_cands (is_headers src) f"
    by (auto simp: second_sources_def)
  show ?thesis
  proof (cases "cands src f = []")
    case False
    with assms Some rest have "cands src' f = observed_cands src f al @ w3c_cands (is_headers src) f"
      by (simp add: second_sources_def cands_def captured_cands_def)
    moreover from Some have "cands src f = captured_cands src f al @ observed_cands src f al @ w3c_cands (is_headers src) f"
      by (simp add: cands_def)
    ultimately show ?thesis using False by (simp add: suffix_def)
  next
    case True
    then have empty: "captured_cands src f al = []" "observed_cands src f al = []" "w3c_cands (is_headers src) f = []"
      using Some by (simp_all add: cands_def)
    from True alias_no_cands [OF al] have "cands src a = []" if "a \<in> set al" for a
      using that by (cases "a = f") auto
    then have "tget (is_captured src') a = tget (is_captured src) a" if "a \<in> set al" for a
      using assms that by (simp add: second_sources_def promoted_trace)
    then have "object_cands (is_captured src') al p q r = object_cands (is_captured src) al p q r" for p q r
      by (rule object_cands_cong)
    with empty(1) assms have "captured_cands src' f al = []"
      by (auto simp: captured_cands_def second_sources_def split: if_splits)
    with empty rest Some show ?thesis by (simp add: cands_def)
  qed
qed

lemma second_subset: "second_sources ser src src' \<Longrightarrow> set (cands src' f) \<subseteq> set (cands src f)"
  using second_cands [of ser src src' f] by (auto dest: set_mono_suffix)

lemma conflicting_card: "conflicting ser cs \<longleftrightarrow> 1 < card ((\<lambda>c. ser (fc_value c)) ` set cs)"
  by (simp add: conflicting_def length_remdups_card_conv)

lemma not_conflicting_subset: "\<not> conflicting ser cs \<Longrightarrow> set cs' \<subseteq> set cs \<Longrightarrow> \<not> conflicting ser cs'"
  unfolding conflicting_card by (meson card_mono finite_imageI image_mono le_less_trans List.finite_set not_less)

lemma not_conflicting_same:
  assumes "\<not> conflicting ser cs" "c \<in> set cs" "d \<in> set cs"
  shows "ser (fc_value c) = ser (fc_value d)"
proof -
  let ?S = "(\<lambda>c. ser (fc_value c)) ` set cs"
  from assms(1) have "card ?S \<le> Suc 0" by (simp add: conflicting_card not_less)
  then have "\<forall>x\<in>?S. \<forall>y\<in>?S. x = y" by (simp only: card_le_Suc0_iff_eq finite_imageI List.finite_set)
  with assms(2,3) show ?thesis by blast
qed

lemma second_promotion:
  assumes second: "second_sources ser src src'" and quiet: "pm_conflicts (promoted ser src) = []"
    and sorted: "tsorted (is_captured src)"
    and inj: "\<And>f c d. c \<in> set (cands src f) \<Longrightarrow> d \<in> set (cands src f) \<Longrightarrow>
      ser (fc_value c) = ser (fc_value d) \<Longrightarrow> fc_value c = fc_value d"
  shows "pm_trace (promoted ser src') = is_captured src'"
    and "set (pm_evidence (promoted ser src')) \<subseteq> set (pm_evidence (promoted ser src))"
    and "pm_conflicts (promoted ser src') = []"
proof -
  let ?T = "is_captured src" and ?T' = "is_captured src'"
  from second have T': "?T' = pm_trace (promoted ser src)" by (simp add: second_sources_def)
  have present: "tget ?T' f \<noteq> None" if "cands src f \<noteq> []" for f
    using that by (simp add: T' promoted_trace)
  have sorted': "tsorted ?T'" unfolding T' promoted_def by (rule tsorted_pm_trace) (simp add: sorted)
  show "pm_trace (promoted ser src') = ?T'"
  proof (rule tsorted_unique)
    show "tsorted (pm_trace (promoted ser src'))"
      unfolding promoted_def by (rule tsorted_pm_trace) (simp add: sorted')
    show "tget (pm_trace (promoted ser src')) = tget ?T'"
      using present second_cands [OF second] by (intro ext) (auto simp: promoted_trace)
  qed (fact sorted')
  from quiet have quiet: "\<not> conflicting ser (cands src f)" for f by (simp add: promoted_conflicts)
  then show "pm_conflicts (promoted ser src') = []"
    using not_conflicting_subset second_subset [OF second] by (metis promoted_conflicts)
  have same: "fc_value c = fc_value d" if "c \<in> set (cands src f)" "d \<in> set (cands src f)" for f c d
    using inj not_conflicting_same quiet that by blast
  have "selected_value ?T' f (cands src' f) = selected_value ?T f (cands src f)" if c: "c \<in> set (cands src' f)" for f c
  proof -
    from c second_subset [OF second] have c': "c \<in> set (cands src f)" by blast
    from c obtain d ds where d: "cands src' f = d # ds" by (cases "cands src' f") auto
    from c' obtain e es where e: "cands src f = e # es" by (cases "cands src f") auto
    from d e second_subset [OF second, of f] have "fc_value d = fc_value e" by (intro same [of _ f]) auto
    with d e show ?thesis by (auto simp: selected_value_def T' promoted_trace)
  qed
  then show "set (pm_evidence (promoted ser src')) \<subseteq> set (pm_evidence (promoted ser src))"
    using second_subset [OF second] unfolding subset_iff promoted_evidence by metis
qed

end
