(* ===== verification/CaptureFixpoint.thy ===== *)
theory CaptureFixpoint
  imports CapturePromotion
begin

text \<open>
  When the normalisation of a Capture envelope is stable (\<open>capture.rs\<close>): an envelope without
  identity conflicts is its own normal form, so the Relay and the Collector agree on its bytes.
\<close>

section \<open>Duplicates in arrays\<close>

lemma set_dedup_by: "set (dedup_by ser seen xs) \<subseteq> set xs"
  by (induction ser seen xs rule: dedup_by.induct) auto

lemma dedup_by_ser: "x \<in> set xs \<Longrightarrow> ser x \<in> set seen \<or> (\<exists>y \<in> set (dedup_by ser seen xs). ser y = ser x)"
  by (induction ser seen xs rule: dedup_by.induct) auto

lemma dedup_by_Nil: "dedup_by ser [] xs = [] \<longleftrightarrow> xs = []"
  by (cases xs) auto

lemma dedup_by_inj:
  "(\<And>v w. v \<in> set xs \<Longrightarrow> w \<in> set xs \<Longrightarrow> ser v = ser w \<Longrightarrow> v = w) \<Longrightarrow> set (dedup_by ser [] xs) = set xs"
  using dedup_by_ser [of _ xs ser "[]"] set_dedup_by [of ser "[]" xs] by (auto simp: subset_iff) metis

lemma dedup_by_seen: "(\<And>x. x \<in> set xs \<Longrightarrow> ser x \<in> set seen) \<Longrightarrow> dedup_by ser seen xs = []"
  by (induction xs) auto

lemma dedup_by_again:
  "ser ` set ys \<subseteq> set seen \<union> ser ` set xs \<Longrightarrow> dedup_by ser seen (dedup_by ser seen xs @ ys) = dedup_by ser seen xs"
proof (induction ser seen xs rule: dedup_by.induct)
  case (1 ser seen)
  then show ?case by (simp add: dedup_by_seen image_subset_iff)
next
  case (2 ser seen v vs)
  show ?case
  proof (cases "ser v \<in> set seen")
    case True
    with 2 show ?thesis by (simp add: insert_absorb)
  next
    case False
    moreover from 2(3) have "ser ` set ys \<subseteq> set (ser v # seen) \<union> ser ` set vs" by auto
    ultimately show ?thesis using 2(2) by simp
  qed
qed


section \<open>Request identifiers\<close>

definition side_header :: "jobject \<Rightarrow> string \<Rightarrow> string \<Rightarrow> string option" where
  "side_header ob side name = Option.bind (oobj ob side) (\<lambda>h. header_value h name)"

definition rid_observed :: "string \<Rightarrow> jobject \<Rightarrow> string option" where
  "rid_observed header ob = or_else (side_header ob ''responseHeaders'' header) (side_header ob ''requestHeaders'' header)"

definition rid_object :: "string \<Rightarrow> string \<Rightarrow> jobject \<Rightarrow> jobject" where
  "rid_object field header ob =
     (case (otext ob field, rid_observed header ob) of (None, Some v) \<Rightarrow> tput field (String v) ob | _ \<Rightarrow> ob)"

definition rid_evidence :: "string \<Rightarrow> string \<Rightarrow> string \<Rightarrow> string list \<Rightarrow> jobject \<Rightarrow> json list" where
  "rid_evidence field header producer existing ob =
     concat (map (request_id_evidence field producer (or_else (otext ob field) (rid_observed header ob)))
       [(if field \<notin> set existing then otext ob field else None, ''capture.'' @ field, ''producer_asserted''),
        (side_header ob ''requestHeaders'' header, ''requestHeaders.'' @ header, ''protocol_observed''),
        (side_header ob ''responseHeaders'' header, ''responseHeaders.'' @ header, ''protocol_observed'')])"

lemma promote_request_id_eq:
  "promote_request_id field header producer existing (ob, evidence)
     = (rid_object field header ob, evidence @ rid_evidence field header producer existing ob)"
  by (simp add: promote_request_id_def Let_def rid_object_def rid_evidence_def rid_observed_def side_header_def)

lemma rid_object_frame: "k \<noteq> field \<Longrightarrow> tget (rid_object field header ob) k = tget ob k"
  by (simp add: rid_object_def split: option.split)

lemma tsorted_rid_object: "tsorted ob \<Longrightarrow> tsorted (rid_object field header ob)"
  by (simp add: rid_object_def split: option.split)

lemma request_id_evidence_field:
  "e \<in> set (request_id_evidence field producer selected (v, s, a)) \<Longrightarrow> wf_json e \<and> get_str e ''field'' = Some field"
  by (auto simp: request_id_evidence_def get_str_def json_object_def tsorted_Cons split: option.splits)

lemma rid_evidence_field:
  "e \<in> set (rid_evidence field header producer existing ob) \<Longrightarrow> wf_json e \<and> get_str e ''field'' = Some field"
  unfolding rid_evidence_def by (auto dest: request_id_evidence_field)

text \<open>Once its evidence exists, promoting the identifier again adds nothing.\<close>

lemma rid_again:
  assumes field: "tget ob' field = tget (rid_object field header ob) field"
    and headers: "side_header ob' ''requestHeaders'' header = side_header ob ''requestHeaders'' header"
      "side_header ob' ''responseHeaders'' header = side_header ob ''responseHeaders'' header"
    and existing: "set existing \<subseteq> set existing'"
      "rid_evidence field header producer existing ob \<noteq> [] \<Longrightarrow> field \<in> set existing'"
    and sorted: "tsorted ob'"
  shows "rid_object field header ob' = ob'"
    and "set (rid_evidence field header producer existing' ob') \<subseteq> set (rid_evidence field header producer existing ob)"
proof -
  from headers have obs: "rid_observed header ob' = rid_observed header ob" by (simp add: rid_observed_def)
  show "rid_object field header ob' = ob'"
  proof (cases "otext ob' field = None \<and> rid_observed header ob \<noteq> None")
    case True
    then obtain w where w: "rid_observed header ob = Some w" by auto
    have "otext ob field = None"
    proof (rule ccontr)
      assume "otext ob field \<noteq> None"
      with field have "otext ob' field = otext ob field" by (auto simp: rid_object_def otext_def ostr_def)
      with True \<open>otext ob field \<noteq> None\<close> show False by simp
    qed
    with field w have "tget ob' field = Some (String w)" by (simp add: rid_object_def)
    with w obs sorted show ?thesis by (simp add: rid_object_def tput_id split: option.split)
  qed (use obs in \<open>auto simp: rid_object_def split: option.split\<close>)
  have sel: "or_else (otext ob' field) (rid_observed header ob) = or_else (otext ob field) (rid_observed header ob)"
    using field by (auto simp: rid_object_def otext_def ostr_def non_blank_def split: option.splits)
  have "(if field \<notin> set existing' then otext ob' field else None) = None"
  proof (rule ccontr)
    assume "\<not> ?thesis"
    then have a: "field \<notin> set existing'" "otext ob' field \<noteq> None" by (auto split: if_splits)
    with existing have b: "field \<notin> set existing" "rid_evidence field header producer existing ob = []" by auto
    then have "otext ob field = None" "rid_observed header ob = None"
      by (auto simp: rid_evidence_def request_id_evidence_def rid_observed_def split: option.splits)
    with field a(2) show False by (simp add: rid_object_def otext_def ostr_def)
  qed
  then show "set (rid_evidence field header producer existing' ob') \<subseteq> set (rid_evidence field header producer existing ob)"
    unfolding rid_evidence_def obs sel headers by (auto simp: request_id_evidence_def)
qed



section \<open>The promotion of an envelope\<close>

definition array_field :: "jobject \<Rightarrow> string \<Rightarrow> json list" where
  "array_field ob k = (case oarr ob k of None \<Rightarrow> [] | Some vs \<Rightarrow> vs)"

definition traced :: "(string \<Rightarrow> json option) \<Rightarrow> (json \<Rightarrow> string) \<Rightarrow> jobject \<Rightarrow> jobject" where
  "traced parse ser ob = tput ''traceContext'' (Object (pm_trace (promoted ser (identity_sources_of parse ob)))) ob"

definition request_object :: "(string \<Rightarrow> json option) \<Rightarrow> (json \<Rightarrow> string) \<Rightarrow> jobject \<Rightarrow> jobject" where
  "request_object parse ser ob = rid_object ''requestId'' ''x-client-request-id'' (traced parse ser ob)"

definition promoted_object :: "(string \<Rightarrow> json option) \<Rightarrow> (json \<Rightarrow> string) \<Rightarrow> jobject \<Rightarrow> jobject" where
  "promoted_object parse ser ob = rid_object ''upstreamRequestId'' ''x-request-id'' (request_object parse ser ob)"

definition new_evidence :: "(string \<Rightarrow> json option) \<Rightarrow> (json \<Rightarrow> string) \<Rightarrow> jobject \<Rightarrow> json list" where
  "new_evidence parse ser ob =
     pm_evidence (promoted ser (identity_sources_of parse ob))
     @ rid_evidence ''requestId'' ''x-client-request-id'' ''sub2api'' (evidence_fields ob) (traced parse ser ob)
     @ rid_evidence ''upstreamRequestId'' ''x-request-id'' ''upstream_provider'' (evidence_fields ob)
         (request_object parse ser ob)"

lemma promote_eq:
  "promote_protocol_fields parse ser ob =
     (let p = promoted_object parse ser ob;
          p = tput ''fieldEvidence'' (Array (dedup_by ser [] (array_field p ''fieldEvidence'' @ new_evidence parse ser ob))) p;
          p = tput ''fieldEvidenceConflicts'' (Array (dedup_by ser [] (array_field p ''fieldEvidenceConflicts''
                @ pm_conflicts (promoted ser (identity_sources_of parse ob))))) p
      in or_insert ''captureStage'' (String (capture_stage p)) p)"
proof -
  have "is_existing (identity_sources_of parse ob) = evidence_fields ob"
    by (simp add: identity_sources_of_def Let_def)
  then show ?thesis
    by (simp add: promote_protocol_fields_def promoted_def [symmetric] promote_request_id_eq promoted_object_def
        request_object_def traced_def new_evidence_def merge_array_field_def array_field_def Let_def)
qed

lemma promoted_object_frame:
  "k \<notin> {''traceContext'', ''requestId'', ''upstreamRequestId''} \<Longrightarrow> tget (promoted_object parse ser ob) k = tget ob k"
  by (simp add: promoted_object_def request_object_def traced_def rid_object_frame)

lemma promote_frame:
  "k \<notin> {''traceContext'', ''requestId'', ''upstreamRequestId'', ''fieldEvidence'', ''fieldEvidenceConflicts'', ''captureStage''}
     \<Longrightarrow> tget (promote_protocol_fields parse ser ob) k = tget ob k"
  by (simp add: promote_eq Let_def frame_simps promoted_object_frame)

lemma promote_members:
  "tget (promote_protocol_fields parse ser ob) ''traceContext''
     = Some (Object (pm_trace (promoted ser (identity_sources_of parse ob))))"
  "tget (promote_protocol_fields parse ser ob) ''requestId'' = tget (request_object parse ser ob) ''requestId''"
  "tget (promote_protocol_fields parse ser ob) ''upstreamRequestId''
     = tget (promoted_object parse ser ob) ''upstreamRequestId''"
  "tget (promote_protocol_fields parse ser ob) ''fieldEvidence''
     = Some (Array (dedup_by ser [] (array_field ob ''fieldEvidence'' @ new_evidence parse ser ob)))"
  "tget (promote_protocol_fields parse ser ob) ''fieldEvidenceConflicts''
     = Some (Array (dedup_by ser [] (array_field ob ''fieldEvidenceConflicts''
         @ pm_conflicts (promoted ser (identity_sources_of parse ob)))))"
  "tget (promote_protocol_fields parse ser ob) ''captureStage'' \<noteq> None"
  by (simp_all add: promote_eq Let_def frame_simps promoted_object_frame array_field_def oarr_def)
    (simp_all add: promoted_object_def rid_object_frame request_object_def traced_def)

lemma tsorted_promote: "tsorted ob \<Longrightarrow> tsorted (promote_protocol_fields parse ser ob)"
  by (simp add: promote_eq Let_def promoted_object_def request_object_def traced_def tsorted_rid_object)

text \<open>An envelope whose evidence, conflicts and identifiers are already there is left alone.\<close>

lemma promote_id:
  assumes "tsorted ob"
    and "tget ob ''traceContext'' = Some (Object (pm_trace (promoted ser (identity_sources_of parse ob))))"
    and "rid_object ''requestId'' ''x-client-request-id'' ob = ob"
    and "rid_object ''upstreamRequestId'' ''x-request-id'' ob = ob"
    and "tget ob ''fieldEvidence''
      = Some (Array (dedup_by ser [] (array_field ob ''fieldEvidence'' @ new_evidence parse ser ob)))"
    and "tget ob ''fieldEvidenceConflicts''
      = Some (Array (dedup_by ser [] (array_field ob ''fieldEvidenceConflicts''
          @ pm_conflicts (promoted ser (identity_sources_of parse ob)))))"
    and "tget ob ''captureStage'' \<noteq> None"
  shows "promote_protocol_fields parse ser ob = ob"
proof -
  from assms(1,2) have "traced parse ser ob = ob" by (simp add: traced_def tput_id)
  with assms(3,4) have "promoted_object parse ser ob = ob" by (simp add: promoted_object_def request_object_def)
  with assms show ?thesis by (simp add: promote_eq Let_def tput_id or_insert_id)
qed



section \<open>Candidates and evidence are well-formed\<close>

lemma wf_object_Nil: "wf_object []"
  by simp

lemma wf_object_or_empty: "(\<And>w. v = Some w \<Longrightarrow> wf_json w) \<Longrightarrow> wf_object (object_or_empty v)"
  by (cases v) (auto simp: object_or_empty_def as_object_eq_Some wf_object_Nil simp del: wf_json.simps(1)
      split: option.splits)

lemma wf_extract_body: "extract_body v = Some w \<Longrightarrow> (\<And>u. v = Some u \<Longrightarrow> wf_json u) \<Longrightarrow> wf_json w"
proof (cases v)
  case (Some u)
  assume a: "extract_body v = Some w" "\<And>u. v = Some u \<Longrightarrow> wf_json u"
  from a(2) Some have "wf_json u" by simp
  with a(1) Some show ?thesis
    by (cases u) (auto simp: extract_body_def simp del: wf_json.simps(1) split: if_splits dest: wf_object_get)
qed (simp add: extract_body_def)

lemma wf_sources:
  assumes "wf_object ob" "json_codec parse ser"
  shows "wf_object (is_captured (identity_sources_of parse ob))"
    and "wf_object (is_top_level (identity_sources_of parse ob))"
    and "wf_object (is_metadata (identity_sources_of parse ob))"
    and "wf_object (is_turn_metadata (identity_sources_of parse ob))"
    and "wf_object (is_request (identity_sources_of parse ob))"
proof -
  from assms(1) have get: "wf_json v" if "tget ob k = Some v" for k v using that by (rule wf_object_get)
  let ?request = "object_or_empty (extract_body (tget ob ''requestBody''))"
  have request: "wf_object ?request"
    by (rule wf_object_or_empty, rule wf_extract_body) (auto intro: get)
  let ?metadata = "object_or_empty (or_else (tget ?request ''client_metadata'') (tget ?request ''metadata''))"
  have metadata: "wf_object ?metadata"
    using wf_object_get [OF request] by (intro wf_object_or_empty) (auto simp: or_else_def split: option.splits)
  have "wf_object (object_or_empty (Option.bind (ostr ?metadata ''x-codex-turn-metadata'') parse))"
    using assms(2) by (intro wf_object_or_empty) (auto simp: json_codec_def bind_eq_Some_conv)
  with request metadata assms(1) show "wf_object (is_captured (identity_sources_of parse ob))"
    "wf_object (is_top_level (identity_sources_of parse ob))" "wf_object (is_metadata (identity_sources_of parse ob))"
    "wf_object (is_turn_metadata (identity_sources_of parse ob))" "wf_object (is_request (identity_sources_of parse ob))"
    by (simp_all add: identity_sources_of_def Let_def wf_object_or_empty get del: wf_json.simps(1))
qed

lemma object_cands_wf: "c \<in> set (object_cands ob al p q r) \<Longrightarrow> wf_object ob \<Longrightarrow> wf_json (fc_value c)"
  by (induction al)
    (auto simp: object_cands_simps simp del: wf_json.simps(1) split: option.splits if_splits dest: wf_object_get [OF _ sym])

lemma header_cands_wf: "c \<in> set (header_cands headers f) \<Longrightarrow> wf_json (fc_value c)"
  by (auto simp: header_cands_def split: option.splits)

lemma w3c_cands_value: "c \<in> set (w3c_cands headers f) \<Longrightarrow> wf_json (fc_value c)"
  by (auto simp: w3c_cands_def append_w3c_trace_context_def Let_def cget_append w3c_candidate_def
      split: option.splits prod.splits if_splits) (auto simp: cget_def)

lemma cands_wf:
  assumes "wf_object ob" "json_codec parse ser" "c \<in> set (cands (identity_sources_of parse ob) f)"
  shows "wf_json (fc_value c)"
proof -
  note wf = wf_sources [OF assms(1,2)]
  show ?thesis
  proof (cases "map_of trace_aliases f")
    case None
    with assms(3) show ?thesis by (simp add: cands_def w3c_cands_value)
  next
    case (Some al)
    with assms(3) show ?thesis
      by (simp add: cands_def captured_cands_def observed_cands_def del: wf_json.simps(1) split: if_splits)
        (metis wf object_cands_wf header_cands_wf w3c_cands_value)+
  qed
qed

lemma field_candidate_json_wf: "wf_json (fc_value c) \<Longrightarrow> wf_json (field_candidate_json c)"
  by (auto simp: field_candidate_json_def intro!: wf_json_object)

lemma candidate_evidence_wf: "wf_json (fc_value c) \<Longrightarrow> wf_json (candidate_evidence k selected c)"
  unfolding candidate_evidence_def by (intro wf_set_member field_candidate_json_wf) simp_all

lemma candidate_evidence_field: "get_str (candidate_evidence k selected c) ''field'' = Some (''traceContext.'' @ k)"
  by (simp add: candidate_evidence_def field_candidate_json_def json_object_def set_member_def get_str_def)

lemma new_evidence_wf:
  assumes "wf_object ob" "json_codec parse ser" "e \<in> set (new_evidence parse ser ob)"
  shows "wf_json e"
  using assms(3) cands_wf [OF assms(1,2)]
  by (auto simp: new_evidence_def promoted_evidence candidate_evidence_wf dest: rid_evidence_field)

lemma array_field_wf: "wf_object ob \<Longrightarrow> v \<in> set (array_field ob k) \<Longrightarrow> wf_json v"
  by (cases "oarr ob k") (simp_all add: array_field_def wf_object_oarr del: wf_json.simps(1))

lemma codec_inj: "json_codec parse ser \<Longrightarrow> wf_json v \<Longrightarrow> wf_json w \<Longrightarrow> ser v = ser w \<Longrightarrow> v = w"
  unfolding json_codec_def by (metis option.inject)



section \<open>Promoting a promoted envelope\<close>

lemma object_or_empty_header: "header_value (object_or_empty (tget ob side)) name = side_header ob side name"
proof -
  have "object_or_empty (tget ob side) = (case oobj ob side of None \<Rightarrow> [] | Some h \<Rightarrow> h)"
    by (simp add: object_or_empty_def oobj_def)
  then show ?thesis by (cases "oobj ob side") (simp_all add: side_header_def, simp add: header_value_def)
qed

lemma chiptrace_header_kept: "chiptrace_header f = Some h \<Longrightarrow> \<not> sensitive h"
proof -
  have all: "list_all (\<lambda>r. \<not> sensitive (snd r))
     [(''task_session_id'', ''x-chiptrace-task-session-id''), (''session_id'', ''x-chiptrace-session-id''),
      (''thread_id'', ''x-chiptrace-thread-id''), (''root_session_id'', ''x-chiptrace-root-session-id''),
      (''parent_session_id'', ''x-chiptrace-parent-session-id''), (''goal_id'', ''x-chiptrace-goal-id''),
      (''root_turn_id'', ''x-chiptrace-root-turn-id''), (''turn_id'', ''x-chiptrace-turn-id''),
      (''agent_id'', ''x-chiptrace-agent-id''), (''branch_id'', ''x-chiptrace-branch-id''),
      (''previous_response_id'', ''x-chiptrace-previous-response-id'')]"
    by code_simp
  assume "chiptrace_header f = Some h"
  from map_of_SomeD [OF this [unfolded chiptrace_header_def]] all show ?thesis
    unfolding list_all_iff by fastforce
qed

lemma read_headers_kept:
  "\<not> sensitive ''traceparent''" "\<not> sensitive ''tracestate''" "\<not> sensitive ''x-client-request-id''"
  "\<not> sensitive ''x-request-id''"
  by code_simp+

definition alias_list :: "string list" where
  "alias_list = concat (map snd trace_aliases)"

definition promoted_members :: "string list" where
  "promoted_members =
     [''traceContext'', ''requestId'', ''upstreamRequestId'', ''fieldEvidence'', ''fieldEvidenceConflicts'',
      ''captureStage'']"

lemma alias_not_promoted: "list_all (\<lambda>a. a \<notin> set promoted_members) alias_list"
  by code_simp

text \<open>An envelope that reads like a promoted one: the promoted members, the request and the aliases.\<close>

definition rereads :: "jobject \<Rightarrow> jobject \<Rightarrow> bool" where
  "rereads ob ob' \<longleftrightarrow>
     (\<forall>k \<in> set (''requestBody'' # promoted_members @ alias_list). tget ob' k = tget ob k) \<and>
     (\<forall>side \<in> {''requestHeaders'', ''responseHeaders''}. \<forall>name. \<not> sensitive name \<longrightarrow>
        side_header ob' side name = side_header ob side name)"

lemma side_header_promote:
  "side \<in> {''requestHeaders'', ''responseHeaders''} \<Longrightarrow>
     side_header (promote_protocol_fields parse ser ob) side name = side_header ob side name"
  by (auto simp: side_header_def oobj_def promote_frame)

lemma identity_sources_simps:
  "is_existing (identity_sources_of parse ob) = evidence_fields ob"
  "is_captured (identity_sources_of parse ob) = object_or_empty (tget ob ''traceContext'')"
  "is_headers (identity_sources_of parse ob) = object_or_empty (tget ob ''requestHeaders'')"
  "is_top_level (identity_sources_of parse ob) = ob"
  by (simp_all add: identity_sources_of_def Let_def)

lemma rereads_request:
  "tget ob' ''requestBody'' = tget ob ''requestBody'' \<Longrightarrow>
     is_metadata (identity_sources_of parse ob') = is_metadata (identity_sources_of parse ob) \<and>
     is_turn_metadata (identity_sources_of parse ob') = is_turn_metadata (identity_sources_of parse ob) \<and>
     is_request (identity_sources_of parse ob') = is_request (identity_sources_of parse ob)"
  by (simp add: identity_sources_of_def Let_def)


lemma w3c_cands_cong:
  assumes "header_value h' ''traceparent'' = header_value h ''traceparent''"
    "header_value h' ''tracestate'' = header_value h ''tracestate''"
  shows "w3c_cands h' = w3c_cands h"
  by (intro ext) (simp only: w3c_cands_def append_w3c_trace_context_def assms)

lemma rereads_second:
  assumes wf: "wf_object ob" "json_codec parse ser"
    and re: "rereads (promote_protocol_fields parse ser ob) ob'"
  shows "second_sources ser (identity_sources_of parse ob) (identity_sources_of parse ob')"
    and "set (evidence_fields ob) \<subseteq> set (evidence_fields ob')"
    and "\<And>e f. e \<in> set (new_evidence parse ser ob) \<Longrightarrow> get_str e ''field'' = Some f \<Longrightarrow> f \<in> set (evidence_fields ob')"
    and "array_field ob' ''fieldEvidence'' = dedup_by ser [] (array_field ob ''fieldEvidence'' @ new_evidence parse ser ob)"
proof -
  let ?ob2 = "promote_protocol_fields parse ser ob"
  let ?src = "identity_sources_of parse ob" and ?src' = "identity_sources_of parse ob'"
  from re have same: "tget ob' k = tget ?ob2 k" if "k \<in> set (''requestBody'' # promoted_members @ alias_list)" for k
    using that by (auto simp: rereads_def)
  from re have header: "side_header ob' side name = side_header ob side name"
    if "side \<in> {''requestHeaders'', ''responseHeaders''}" "\<not> sensitive name" for side name
    using that by (auto simp: rereads_def side_header_promote)
  have evidence: "tget ob' ''fieldEvidence''
      = Some (Array (dedup_by ser [] (array_field ob ''fieldEvidence'' @ new_evidence parse ser ob)))"
    using same [of "''fieldEvidence''"] by (simp add: promoted_members_def promote_members)
  then show arr: "array_field ob' ''fieldEvidence'' = dedup_by ser [] (array_field ob ''fieldEvidence'' @ new_evidence parse ser ob)"
    by (simp add: array_field_def oarr_def)
  have "set (array_field ob' ''fieldEvidence'') = set (array_field ob ''fieldEvidence'' @ new_evidence parse ser ob)"
    unfolding arr
    by (rule dedup_by_inj) (use codec_inj [OF wf(2)] array_field_wf [OF wf(1)] new_evidence_wf [OF wf] in auto)
  moreover have fields: "f \<in> set (evidence_fields x) \<longleftrightarrow> (\<exists>e \<in> set (array_field x ''fieldEvidence''). get_str e ''field'' = Some f)"
    for f x by (force simp: evidence_fields_def array_field_def List.map_filter_def image_iff split: option.splits)
  ultimately show mono: "set (evidence_fields ob) \<subseteq> set (evidence_fields ob')"
    and new: "\<And>e f. e \<in> set (new_evidence parse ser ob) \<Longrightarrow> get_str e ''field'' = Some f \<Longrightarrow> f \<in> set (evidence_fields ob')"
    by auto
  have traced: "''traceContext.'' @ f \<in> set (evidence_fields ob')" if "cands ?src f \<noteq> []" for f
  proof -
    from that obtain c where "c \<in> set (cands ?src f)" by (cases "cands ?src f") auto
    then have "candidate_evidence f (selected_value (is_captured ?src) f (cands ?src f)) c \<in> set (new_evidence parse ser ob)"
      by (auto simp: new_evidence_def promoted_evidence)
    then show ?thesis by (rule new) (rule candidate_evidence_field)
  qed
  have captured: "is_captured ?src' = pm_trace (promoted ser ?src)"
    using same [of "''traceContext''"]
    by (simp add: promoted_members_def promote_members identity_sources_simps object_or_empty_def)
  have req: "tget ob' ''requestBody'' = tget ob ''requestBody''"
    using same [of "''requestBody''"] by (simp add: promote_frame)
  have observed: "observed_cands ?src' f al = observed_cands ?src f al" if al: "(f, al) \<in> set trace_aliases" for f al
  proof -
    have "tget ob' a = tget ob a" if a: "a \<in> set al" for a
    proof -
      from al a have "a \<in> set alias_list" unfolding alias_list_def by force
      moreover from this alias_not_promoted have "a \<notin> set promoted_members" unfolding list_all_iff by blast
      ultimately show ?thesis using same [of a] by (simp add: promoted_members_def promote_frame)
    qed
    then have top: "object_cands ob' al p q r = object_cands ob al p q r" for p q r by (rule object_cands_cong)
    have head: "header_cands (is_headers ?src') f = header_cands (is_headers ?src) f"
      using chiptrace_header_kept [of f] header [of "''requestHeaders''"]
      by (cases "chiptrace_header f") (simp_all add: header_cands_def identity_sources_simps object_or_empty_header)
    show ?thesis unfolding observed_cands_def
      using rereads_request [OF req, of parse] by (simp add: top head identity_sources_simps(4))
  qed
  have "w3c_cands (is_headers ?src') = w3c_cands (is_headers ?src)"
    by (rule w3c_cands_cong) (simp_all add: identity_sources_simps object_or_empty_header header read_headers_kept)
  with captured observed mono traced show "second_sources ser ?src ?src'"
    by (auto simp: second_sources_def identity_sources_simps)
qed

theorem promote_again:
  assumes wf: "wf_object ob" "json_codec parse ser" and sorted: "tsorted ob'"
    and re: "rereads (promote_protocol_fields parse ser ob) ob'"
    and quiet: "tget (promote_protocol_fields parse ser ob) ''fieldEvidenceConflicts'' = Some (Array [])"
  shows "promote_protocol_fields parse ser ob' = ob'"
proof -
  let ?src = "identity_sources_of parse ob" and ?src' = "identity_sources_of parse ob'"
  note second = rereads_second [OF wf re]
  from quiet have none: "array_field ob ''fieldEvidenceConflicts'' = []" "pm_conflicts (promoted ser ?src) = []"
    by (simp_all add: promote_members dedup_by_Nil)
  have inj: "fc_value c = fc_value d"
    if "c \<in> set (cands ?src f)" "d \<in> set (cands ?src f)" "ser (fc_value c) = ser (fc_value d)" for f c d
    using that by (blast intro: codec_inj [OF wf(2)] cands_wf [OF wf])
  have captured: "tsorted (is_captured ?src)" using wf_sources(1) [OF wf] by simp
  have promo: "pm_trace (promoted ser ?src') = is_captured ?src'"
    "set (pm_evidence (promoted ser ?src')) \<subseteq> set (pm_evidence (promoted ser ?src))"
    "pm_conflicts (promoted ser ?src') = []"
    by (rule second_promotion [OF second(1) none(2) captured]; rule inj; assumption)+
  from re have same: "tget ob' k = tget (promote_protocol_fields parse ser ob) k" if "k \<in> set promoted_members" for k
    using that by (simp add: rereads_def)
  from re have header: "side_header ob' side name = side_header ob side name"
    if "side \<in> {''requestHeaders'', ''responseHeaders''}" "\<not> sensitive name" for side name
    using that by (auto simp: rereads_def side_header_promote)
  have rid: "rid_object F H ob' = ob' \<and>
      set (rid_evidence F H P (evidence_fields ob') ob') \<subseteq> set (rid_evidence F H P (evidence_fields ob) base)"
    if "tget ob' F = tget (rid_object F H base) F" "\<not> sensitive H"
      "\<forall>s \<in> {''requestHeaders'', ''responseHeaders''}. side_header base s = side_header ob s"
      "set (rid_evidence F H P (evidence_fields ob) base) \<subseteq> set (new_evidence parse ser ob)" for F H P base
  proof -
    have ev: "F \<in> set (evidence_fields ob')" if ne: "rid_evidence F H P (evidence_fields ob) base \<noteq> []"
    proof -
      from ne obtain e where e: "e \<in> set (rid_evidence F H P (evidence_fields ob) base)"
        by (cases "rid_evidence F H P (evidence_fields ob) base") auto
      then have "get_str e ''field'' = Some F" using rid_evidence_field by blast
      moreover from e \<open>set _ \<subseteq> set (new_evidence parse ser ob)\<close> have "e \<in> set (new_evidence parse ser ob)" by blast
      ultimately show ?thesis using second(3) by blast
    qed
    from that show ?thesis
      using rid_again [of ob' F H base "evidence_fields ob" "evidence_fields ob'" P, OF _ _ _ second(2) ev sorted]
      by (simp add: header)
  qed
  have side: "\<forall>s \<in> {''requestHeaders'', ''responseHeaders''}. side_header (traced parse ser ob) s = side_header ob s"
    "\<forall>s \<in> {''requestHeaders'', ''responseHeaders''}. side_header (request_object parse ser ob) s = side_header ob s"
    by (simp_all add: fun_eq_iff side_header_def oobj_def request_object_def traced_def rid_object_frame)
  have rid1: "rid_object ''requestId'' ''x-client-request-id'' ob' = ob'"
    "set (rid_evidence ''requestId'' ''x-client-request-id'' ''sub2api'' (evidence_fields ob') ob')
       \<subseteq> set (rid_evidence ''requestId'' ''x-client-request-id'' ''sub2api'' (evidence_fields ob) (traced parse ser ob))"
    using rid [of "''requestId''" "''x-client-request-id''" "traced parse ser ob" "''sub2api''"]
      same [of "''requestId''"] side(1)
    by (auto simp: promoted_members_def promote_members request_object_def read_headers_kept new_evidence_def)
  have rid2: "rid_object ''upstreamRequestId'' ''x-request-id'' ob' = ob'"
    "set (rid_evidence ''upstreamRequestId'' ''x-request-id'' ''upstream_provider'' (evidence_fields ob') ob')
       \<subseteq> set (rid_evidence ''upstreamRequestId'' ''x-request-id'' ''upstream_provider'' (evidence_fields ob)
            (request_object parse ser ob))"
    using rid [of "''upstreamRequestId''" "''x-request-id''" "request_object parse ser ob" "''upstream_provider''"]
      same [of "''upstreamRequestId''"] side(2)
    by (auto simp: promoted_members_def promote_members promoted_object_def read_headers_kept new_evidence_def)
  have trace: "tget ob' ''traceContext'' = Some (Object (pm_trace (promoted ser ?src')))"
    using same [of "''traceContext''"] second(1) promo(1)
    by (simp add: promoted_members_def promote_members second_sources_def)
  from trace sorted have "traced parse ser ob' = ob'" by (simp add: traced_def tput_id)
  with rid1(1) have objects: "traced parse ser ob' = ob'" "request_object parse ser ob' = ob'"
    by (simp_all add: request_object_def)
  have "set (new_evidence parse ser ob') \<subseteq> set (new_evidence parse ser ob)"
    using promo(2) rid1(2) rid2(2) unfolding new_evidence_def objects by auto
  then have "dedup_by ser [] (array_field ob' ''fieldEvidence'' @ new_evidence parse ser ob')
      = dedup_by ser [] (array_field ob ''fieldEvidence'' @ new_evidence parse ser ob)"
    unfolding second(4) by (intro dedup_by_again) auto
  moreover have "array_field ob' ''fieldEvidenceConflicts'' = []"
    using same [of "''fieldEvidenceConflicts''"] quiet by (simp add: promoted_members_def array_field_def oarr_def)
  ultimately show ?thesis
    using same trace rid1(1) rid2(1) quiet promo(3)
    by (intro promote_id [OF sorted]) (simp_all add: promoted_members_def promote_members)
qed

end
