(* ===== verification/CaptureSeal.thy ===== *)
theory CaptureSeal
  imports CaptureFixpoint
begin

text \<open>
  The whole normalisation of a Capture envelope: what it is stored as is well-formed, holds no
  sensitive header, and, when no identifier conflicts, is its own normal form.
\<close>

section \<open>Sealing\<close>

lemma tget_fold_or_insert:
  "tget (fold (\<lambda>(k, v). or_insert k v) kvs ob) k = (case tget ob k of None \<Rightarrow> map_of kvs k | Some v \<Rightarrow> Some v)"
proof (induction kvs arbitrary: ob)
  case (Cons kv kvs)
  then show ?case by (cases kv) (auto simp: frame_simps split: option.split)
qed (simp split: option.split)

lemma fold_or_insert_id: "(\<And>kv. kv \<in> set kvs \<Longrightarrow> tget ob (fst kv) \<noteq> None) \<Longrightarrow> fold (\<lambda>(k, v). or_insert k v) kvs ob = ob"
proof (induction kvs)
  case (Cons kv kvs)
  have "(case kv of (k, v) \<Rightarrow> or_insert k v) ob = ob"
    using Cons.prems [of kv] by (cases kv) (simp add: or_insert_id)
  with Cons show ?case by simp
qed simp

definition default_members :: "(string \<times> json) list" where
  "default_members =
     [(''traceContext'', Object []), (''observedLifecycleEvents'', Array []), (''requestTruncated'', Bool False),
      (''responseTruncated'', Bool False), (''stream'', Bool False), (''captureError'', Null)]"

lemma fill_defaults_eq: "fill_defaults ob = fold (\<lambda>(k, v). or_insert k v) default_members ob"
  by (simp add: fill_defaults_def default_members_def)

definition redacted_names :: "jobject \<Rightarrow> string list" where
  "redacted_names ob = snd (sanitize_headers ob)"

definition sealed_members :: "string list" where
  "sealed_members = [''requestHeaders'', ''responseHeaders'', ''version'', ''redactedHeaders'']"

lemma tget_seal:
  "tget (seal_envelope ob) k =
     (if k = ''redactedHeaders'' then Some (Array (map String (redacted_names ob)))
      else if k = ''version'' then Some (String capture_schema_version)
      else if k \<in> {''requestHeaders'', ''responseHeaders''} then Some (Object (kept_headers ob k))
      else case tget ob k of None \<Rightarrow> map_of default_members k | Some v \<Rightarrow> Some v)"
  by (simp add: seal_envelope_def fill_defaults_eq tget_fold_or_insert sanitize_headers_eq redacted_names_def)

lemma tsorted_fold_or_insert: "tsorted ob \<Longrightarrow> tsorted (fold (\<lambda>(k, v). or_insert k v) kvs ob)"
  by (induction kvs arbitrary: ob) auto

lemma tsorted_seal: "tsorted ob \<Longrightarrow> tsorted (seal_envelope ob)"
  by (simp add: seal_envelope_def fill_defaults_eq tsorted_fold_or_insert sanitize_headers_eq)

lemma tget_fill_received_at:
  "tget (fill_received_at ob) k =
     (if k = ''receivedAt'' \<and> tget ob ''receivedAt'' \<in> {None, Some Null}
      then Some (json_opt (map_option String (first_timestamp (Object ob)))) else tget ob k)"
  by (simp add: fill_received_at_def)

lemma tsorted_fill_received_at: "tsorted ob \<Longrightarrow> tsorted (fill_received_at ob)"
  by (simp add: fill_received_at_def)

definition stored_object :: "jobject \<Rightarrow> jobject" where
  "stored_object ob = fill_received_at (seal_envelope ob)"

lemma stored_frame:
  "k \<notin> set (''receivedAt'' # sealed_members @ map fst default_members) \<Longrightarrow> tget (stored_object ob) k = tget ob k"
  by (auto simp: stored_object_def tget_fill_received_at tget_seal sealed_members_def split: option.split)
    (auto simp: map_of_eq_None_iff dest!: map_of_SomeD intro!: image_eqI)

lemma stored_present: "tget ob k = Some v \<Longrightarrow> k \<notin> set (''receivedAt'' # sealed_members) \<Longrightarrow> tget (stored_object ob) k = Some v"
  by (auto simp: stored_object_def tget_fill_received_at tget_seal sealed_members_def)

lemma stored_headers:
  "side \<in> {''requestHeaders'', ''responseHeaders''} \<Longrightarrow> tget (stored_object ob) side = Some (Object (kept_headers ob side))"
  by (auto simp: stored_object_def tget_fill_received_at tget_seal)

lemma tsorted_stored: "tsorted ob \<Longrightarrow> tsorted (stored_object ob)"
  by (simp add: stored_object_def tsorted_seal tsorted_fill_received_at)

text \<open>A stored object is sealed already.\<close>

lemma sort_remdups_again: "sort (remdups (sort (remdups xs))) = sort (remdups (xs :: string list))"
  by (simp add: distinct_remdups_id sorted_sort_id)

lemma map_filter_String: "List.map_filter as_str (map String xs) = xs"
  by (induction xs) (simp_all add: List.map_filter_simps)

lemma kept_again:
  "tget ob' side = Some (Object (kept_headers ob side)) \<Longrightarrow> kept_headers ob' side = kept_headers ob side \<and> dropped_names ob' side = []"
  by (auto simp: kept_headers_def dropped_names_def oobj_def filter_empty_conv split: option.splits)

lemma first_timestamp_fill: "first_timestamp (Object (fill_received_at ob)) = first_timestamp (Object ob)"
proof (cases "tget ob ''receivedAt'' \<in> {None, Some Null}")
  case True
  show ?thesis
  proof (cases "first_timestamp (Object ob)")
    case None
    with True show ?thesis
      by (auto simp: first_timestamp_def get_str_def tget_fill_received_at json_opt_def or_else_def non_blank_def
          split: option.splits if_splits)
  next
    case (Some t)
    then have "\<not> blank t" by (auto simp: first_timestamp_def or_else_def non_blank_eq_Some split: option.splits)
    with Some True show ?thesis
      by (simp add: first_timestamp_def get_str_def tget_fill_received_at json_opt_def non_blank_def)
  qed
qed (auto simp: fill_received_at_def)

lemma fill_received_again: "tsorted ob \<Longrightarrow> fill_received_at (fill_received_at ob) = fill_received_at ob"
proof -
  assume sorted: "tsorted ob"
  let ?ob = "fill_received_at ob"
  show ?thesis
  proof (cases "tget ?ob ''receivedAt'' \<in> {None, Some Null}")
    case True
    then have "first_timestamp (Object ob) = None \<and> tget ?ob ''receivedAt'' = Some Null"
      by (auto simp: tget_fill_received_at json_opt_def split: option.splits if_splits)
    with sorted show ?thesis
      by (simp add: fill_received_at_def [of ?ob] first_timestamp_fill json_opt_def tput_id tsorted_fill_received_at)
  qed (auto simp: fill_received_at_def [of ?ob])
qed

lemma seal_again:
  assumes "tsorted ob"
  shows "seal_envelope (stored_object ob) = stored_object ob" "fill_received_at (stored_object ob) = stored_object ob"
proof -
  let ?s = "stored_object ob"
  have sorted: "tsorted ?s" using assms by (rule tsorted_stored)
  have kept: "kept_headers ?s side = kept_headers ob side \<and> dropped_names ?s side = []"
    if "side \<in> {''requestHeaders'', ''responseHeaders''}" for side
    using that by (intro kept_again stored_headers)
  have red: "tget ?s ''redactedHeaders'' = Some (Array (map String (redacted_names ob)))"
    and ver: "tget ?s ''version'' = Some (String capture_schema_version)"
    by (simp_all add: stored_object_def tget_fill_received_at tget_seal)
  have "redacted_names ?s = redacted_names ob"
    using kept red
    by (simp add: redacted_names_def sanitize_headers_eq oarr_def map_filter_String sort_remdups_again)
  moreover have "fst (sanitize_headers ?s) = ?s"
    using kept sorted stored_headers [of _ ob] by (simp add: sanitize_headers_eq tput_id)
  moreover have "fill_defaults ?s = ?s"
    unfolding fill_defaults_eq
    by (rule fold_or_insert_id)
      (auto simp: default_members_def stored_object_def tget_fill_received_at tget_seal split: option.splits)
  ultimately show "seal_envelope ?s = ?s"
    using red ver sorted
    by (cases "sanitize_headers ?s") (simp add: seal_envelope_def redacted_names_def tput_id)
  show "fill_received_at ?s = ?s"
    unfolding stored_object_def by (rule fill_received_again) (simp add: tsorted_seal assms)
qed

end
