(* ===== verification/CaptureTheorems.thy ===== *)
theory CaptureTheorems
  imports CaptureSeal
begin

text \<open>
  The properties of the normalisation of Capture envelopes, and the concrete envelopes that
  witness them.
\<close>

section \<open>The steps of a successful normalisation\<close>

lemma normalize_object_steps:
  assumes "normalize_object sha parse ser enforce ob = Inr ob'"
  obtains body where
    "validate_envelope sha parse enforce (or_insert ''recordType'' (String ''api_snapshot'') ob) = Inr ()"
    "normalize_body_fields sha parse (or_insert ''recordType'' (String ''api_snapshot'') ob) = Inr body"
    "validate_response_delivery_evidence body = Inr ()"
    "validate_promoted sha ser (promote_protocol_fields parse ser body) = Inr ()"
    "ob' = seal_envelope (promote_protocol_fields parse ser body)"
  using assms by (auto simp: normalize_object_def Let_def res_simps)

lemma normalize_capture_steps:
  assumes "normalize_capture_with_policy sha parse ser raw max_bytes enforce = Inr r"
  obtains ob sealed where "parse raw = Some (Object ob)" "length raw \<le> max_bytes"
    "ostr ob ''captureId'' = Some (cr_capture_id r)" "capture_id_ok (cr_capture_id r)"
    "normalize_object sha parse ser enforce ob = Inr sealed"
    "length (cr_canonical r) \<le> max_bytes" "cr_canonical r = ser (Object (fill_received_at sealed))"
    "r = \<lparr>cr_capture_id = cr_capture_id r, cr_canonical = cr_canonical r, cr_sha256 = sha (cr_canonical r),
          cr_legacy_raw_sha256 = (if ostr ob ''version'' \<noteq> Some capture_schema_version then Some (sha raw) else None),
          cr_received_at = first_timestamp (Object sealed), cr_model = body_model (Object (fill_received_at sealed)),
          cr_wire_evidence = wire_evidence_of (Object (fill_received_at sealed))\<rparr>"
proof -
  from assms obtain ob capture_id sealed where ob: "parse raw = Some (Object ob)" "length raw \<le> max_bytes"
      "ostr ob ''captureId'' = Some capture_id" "capture_id_ok capture_id"
      "normalize_object sha parse ser enforce ob = Inr sealed"
      "length (ser (Object (fill_received_at sealed))) \<le> max_bytes"
    and r: "r = \<lparr>cr_capture_id = capture_id, cr_canonical = ser (Object (fill_received_at sealed)),
          cr_sha256 = sha (ser (Object (fill_received_at sealed))),
          cr_legacy_raw_sha256 = (if ostr ob ''version'' \<noteq> Some capture_schema_version then Some (sha raw) else None),
          cr_received_at = first_timestamp (Object sealed), cr_model = body_model (Object (fill_received_at sealed)),
          cr_wire_evidence = wire_evidence_of (Object (fill_received_at sealed))\<rparr>"
    by (auto simp: normalize_capture_with_policy_def Let_def res_simps as_object_eq_Some)
  show thesis by (rule that [of ob sealed]) (use ob r in simp_all)
qed

lemma body_frame:
  assumes "normalize_body_fields sha parse (or_insert ''recordType'' (String ''api_snapshot'') ob) = Inr body"
    "k \<notin> set (''recordType'' # body_members)"
  shows "tget body k = tget ob k"
  using normalize_body_fields_frame [OF assms(1), of k] assms(2) by (auto simp: frame_simps)

section \<open>Well-formedness\<close>

lemma wf_objectI: "tsorted ob \<Longrightarrow> (\<And>k v. tget ob k = Some v \<Longrightarrow> wf_json v) \<Longrightarrow> wf_object ob"
  using tsorted_distinct [of ob] by (force simp: list_all_iff)

lemma wf_pm_trace:
  assumes "wf_object ob" "json_codec parse ser"
  shows "wf_object (pm_trace (promoted ser (identity_sources_of parse ob)))"
proof (rule wf_objectI)
  let ?src = "identity_sources_of parse ob"
  have captured: "wf_object (is_captured ?src)" by (rule wf_sources [OF assms])
  then show "tsorted (pm_trace (promoted ser ?src))"
    unfolding promoted_def by (intro tsorted_pm_trace) simp
  show "wf_json v" if "tget (pm_trace (promoted ser ?src)) k = Some v" for k v
    using that wf_object_get [OF captured] cands_wf [OF assms, of "hd (cands ?src k)" k]
    by (auto simp: promoted_trace split: if_splits)
qed

lemma wf_rid_object: "wf_object ob \<Longrightarrow> wf_object (rid_object field header ob)"
  by (simp add: rid_object_def del: wf_json.simps(1) split: option.split)

lemma wf_dedup: "(\<And>v. v \<in> set vs \<Longrightarrow> wf_json v) \<Longrightarrow> wf_json (Array (dedup_by ser [] vs))"
  using set_dedup_by [of ser "[]" vs] by (auto simp: list_all_iff)

lemma wf_conflicts:
  assumes "wf_object ob" "json_codec parse ser" "v \<in> set (pm_conflicts (promoted ser (identity_sources_of parse ob)))"
  shows "wf_json v"
proof -
  let ?src = "identity_sources_of parse ob"
  from assms(3) obtain r where "r \<in> set (all_candidates ?src)" "v = conflict_json (fst r) (snd r)"
    by (auto simp: promoted_rows(2) row_conflicts_def split: if_splits)
  then show ?thesis using cands_wf [OF assms(1,2)]
    by (auto simp: conflict_json_def rows_iff list_all_iff intro!: wf_json_object field_candidate_json_wf)
qed

lemma wf_promote:
  assumes "wf_object ob" "json_codec parse ser"
  shows "wf_object (promote_protocol_fields parse ser ob)"
proof -
  have p: "wf_object (promoted_object parse ser ob)"
    unfolding promoted_object_def request_object_def traced_def
    by (intro wf_rid_object wf_object_tput assms(1)) (rule wf_pm_trace [OF assms])
  have merged: "wf_json (Array (dedup_by ser [] (array_field q k @ vs)))"
    if "wf_object q" "\<And>v. v \<in> set vs \<Longrightarrow> wf_json v" for q k vs
    using that(2) array_field_wf [OF that(1)] by (intro wf_dedup) auto
  show ?thesis unfolding promote_eq Let_def
    by (intro wf_object_or_insert wf_object_tput merged p)
      (use new_evidence_wf [OF assms] wf_conflicts [OF assms] in \<open>simp_all del: wf_json.simps(1)\<close>)
qed

lemma wf_kept_headers: "wf_object ob \<Longrightarrow> wf_object (kept_headers ob side)"
proof -
  assume wf: "wf_object ob"
  have "wf_object (filter P h)" if "wf_object h" for P h
    using that by (auto simp: tsorted_def sorted_wrt_map list_all_iff intro: sorted_wrt_filter)
  with wf show ?thesis
    by (auto simp: kept_headers_def wf_object_Nil simp del: wf_json.simps(1) dest: wf_object_oobj split: option.split)
qed

lemma wf_fold_or_insert:
  "wf_object ob \<Longrightarrow> (\<And>kv. kv \<in> set kvs \<Longrightarrow> wf_json (snd kv)) \<Longrightarrow>
     wf_object (fold (\<lambda>(k, v). or_insert k v) kvs ob)"
proof (induction kvs arbitrary: ob)
  case (Cons kv kvs)
  have "wf_object ((case kv of (k, v) \<Rightarrow> or_insert k v) ob)"
    using Cons.prems(1) Cons.prems(2) [of kv] by (cases kv) (simp del: wf_json.simps(1))
  with Cons show ?case by simp
qed simp

lemma wf_stored:
  assumes "wf_object ob"
  shows "wf_object (stored_object ob)"
proof -
  from assms have "wf_object (fst (sanitize_headers ob))"
    unfolding sanitize_headers_eq fst_conv by (intro wf_object_tput wf_kept_headers)
  then have "wf_object (tput ''redactedHeaders'' (Array (map String (snd (sanitize_headers ob))))
      (tput ''version'' (String capture_schema_version) (fst (sanitize_headers ob))))"
    by (intro wf_object_tput) (simp_all add: list_all_iff)
  then have "wf_object (seal_envelope ob)"
    unfolding seal_envelope_def fill_defaults_eq
    by (cases "sanitize_headers ob") (auto simp: default_members_def wf_object_Nil simp del: wf_json.simps(1))
  then show ?thesis
    unfolding stored_object_def fill_received_at_def
    by (simp add: json_opt_def del: wf_json.simps(1) split: option.split)
qed

lemma wf_validate_embedded_raw_body:
  assumes "validate_embedded_raw_body sha parse f ob = Inr ob'" "wf_object ob"
  shows "wf_object ob'"
proof -
  from assms(1) consider "ob' = ob" | a b where "ob' = or_insert (bf_sha f) (String a) (or_insert (bf_bytes f) (Number b) ob)"
    by (auto simp: validate_embedded_raw_body_def res_simps split: option.splits)
  then show ?thesis using assms(2) by cases (simp_all del: wf_json.simps(1))
qed

lemma wf_normalize_body_fields:
  assumes "normalize_body_fields sha parse ob = Inr ob'" "wf_object ob" "json_codec parse ser"
  shows "wf_object ob'"
proof -
  from assms(1) obtain ob1 where ob1: "try_fold (unfold_body_text sha parse) body_field_names ob = Inr ob1"
      "try_fold (validate_embedded_raw_body sha parse) body_field_names ob1 = Inr ob'"
    by (auto simp: normalize_body_fields_def res_simps)
  from ob1(1) assms(2) have "wf_object ob1"
    by (rule try_fold_invariant) (rule unfold_body_text_wf [OF _ _ assms(3)])
  with ob1(2) show ?thesis
    by (rule try_fold_invariant) (rule wf_validate_embedded_raw_body)
qed



section \<open>Normalising a stored envelope again\<close>

lemma untouched_not_written:
  "list_all (\<lambda>k. k \<notin> set (body_members @ promoted_members @ ''receivedAt'' # sealed_members @ map fst default_members))
     untouched_members"
  by code_simp

lemma reread_not_written:
  "list_all (\<lambda>k. k \<notin> set (''receivedAt'' # sealed_members @ map fst default_members)) (''requestBody'' # alias_list)"
  "list_all (\<lambda>k. k \<notin> set (''receivedAt'' # sealed_members)) promoted_members"
  "list_all (\<lambda>k. k \<notin> set (promoted_members @ ''receivedAt'' # sealed_members @ map fst default_members)) body_members"
  by code_simp+

text \<open>The members that are left as the producer sent them.\<close>

lemma untouched_steps:
  assumes "normalize_body_fields sha parse ob = Inr body"
  shows "agree untouched_members ob (stored_object (promote_protocol_fields parse ser body))"
    and "agree untouched_members body (stored_object (promote_protocol_fields parse ser body))"
    and "agree untouched_members (promote_protocol_fields parse ser body)
           (stored_object (promote_protocol_fields parse ser body))"
proof -
  let ?p = "promote_protocol_fields parse ser body"
  have *: "k \<notin> set body_members" "k \<notin> set promoted_members" "k \<notin> set (''receivedAt'' # sealed_members @ map fst default_members)"
    if "k \<in> set untouched_members" for k
    using untouched_not_written that unfolding list_all_iff by auto
  have "tget body k = tget ob k \<and> tget ?p k = tget body k \<and> tget (stored_object ?p) k = tget ?p k"
    if "k \<in> set untouched_members" for k
    using * [OF that] normalize_body_fields_frame [OF assms, of k]
    by (simp add: stored_frame promote_frame promoted_members_def)
  then show "agree untouched_members ob (stored_object ?p)" "agree untouched_members body (stored_object ?p)"
    "agree untouched_members ?p (stored_object ?p)"
    by (simp_all add: agree_def list_all_iff)
qed

lemma stored_promoted_members:
  assumes "k \<in> set promoted_members" "tget ob k = Some v"
  shows "tget (stored_object ob) k = Some v"
  using reread_not_written(2) assms(1) unfolding list_all_iff by (intro stored_present [OF assms(2)]) auto

lemma stored_requestId:
  "k \<in> {''requestId'', ''upstreamRequestId'', ''captureStage'', ''fieldEvidence'', ''fieldEvidenceConflicts''} \<Longrightarrow>
     tget (stored_object ob) k = tget ob k"
  by (rule stored_frame) (auto simp: sealed_members_def default_members_def)

lemma side_header_stored:
  assumes "side \<in> {''requestHeaders'', ''responseHeaders''}" "\<not> sensitive name"
  shows "side_header (stored_object ob) side name = side_header ob side name"
  using same_header_kept [OF assms(2) stored_headers [OF assms(1)]] by (simp add: side_header_def same_header_def)

lemma promoted_cases:
  "list_all (\<lambda>k. k = ''traceContext'' \<or>
     k \<in> set [''requestId'', ''upstreamRequestId'', ''captureStage'', ''fieldEvidence'', ''fieldEvidenceConflicts''])
     promoted_members"
  by code_simp

lemma rereads_stored:
  assumes "tget ob ''traceContext'' \<noteq> None"
  shows "rereads ob (stored_object ob)"
  unfolding rereads_def
proof (intro conjI ballI allI impI)
  fix k assume k: "k \<in> set (''requestBody'' # promoted_members @ alias_list)"
  show "tget (stored_object ob) k = tget ob k"
  proof (cases "k \<in> set promoted_members")
    case True
    then have "k = ''traceContext'' \<or>
        k \<in> {''requestId'', ''upstreamRequestId'', ''captureStage'', ''fieldEvidence'', ''fieldEvidenceConflicts''}"
      using promoted_cases unfolding list_all_iff by (metis list.set)
    then show ?thesis
    proof
      assume "k = ''traceContext''"
      with assms obtain v where "tget ob k = Some v" by blast
      with True show ?thesis by (simp add: stored_promoted_members)
    qed (rule stored_requestId)
  next
    case False
    with k reread_not_written(1) show ?thesis unfolding list_all_iff by (intro stored_frame) auto
  qed
qed (rule side_header_stored; simp)

lemma rbind_unit: "rbind r f = Inr b \<longleftrightarrow> r = Inr () \<and> f () = Inr b"
  by (cases r) auto

lemma for_each_demand: "for_each (\<lambda>x. demand (P x) (m x)) xs = Inr () \<longleftrightarrow> list_all P xs"
  by (induction xs) (simp_all add: rbind_unit demand_eq_Inr)

lemma validate_optional_strings: "for_each (validate_optional_string ob) ks = Inr () \<longleftrightarrow> list_all (absent_or (null_or is_str) ob) ks"
proof -
  have "validate_optional_string ob = (\<lambda>k. demand (absent_or (null_or is_str) ob k) (k @ '' must be a string or null''))"
    by (simp add: fun_eq_iff validate_optional_string_def null_or_def absent_or_def split: option.split)
  then show ?thesis by (simp add: for_each_demand)
qed

lemma validate_envelope_ok:
  "validate_envelope sha parse enforce ob = Inr () \<longleftrightarrow>
     \<not> (enforce \<and> tget ob ''producerEvent'' \<noteq> None) \<and> \<not> (enforce \<and> historical_record ob) \<and>
     list_all (absent_or (null_or is_str) ob) [''sourceNamespace'', ''receivedAt'', ''startedAt'', ''finishedAt''] \<and>
     list_all (absent_or (null_or is_obj) ob) [''requestHeaders'', ''responseHeaders''] \<and>
     validate_response_status (tget ob ''responseStatus'') = Inr () \<and>
     absent_or (null_or is_obj) ob ''traceContext'' \<and>
     absent_or (null_or (array_of (\<lambda>v. as_str v \<notin> {None, Some []}))) ob ''observedLifecycleEvents'' \<and>
     (case evaluation_items ob of None \<Rightarrow> True | Some v \<Rightarrow> null_or (array_of is_obj) v) \<and>
     validate_lifecycle_event ob = Inr () \<and> validate_tool_execution ob = Inr () \<and>
     validate_evaluation_evidence ob = Inr () \<and> validate_rollout_event sha parse ob = Inr () \<and>
     validate_telemetry_batch sha parse ob = Inr ()"
  unfolding validate_envelope_def
  by (simp only: rbind_unit demand_eq_Inr validate_optional_strings for_each_demand)

lemma validate_envelope_again:
  assumes "validate_envelope sha parse enforce ob = Inr ()" "agree untouched_members ob ob'"
    and "absent_or (null_or is_str) ob' ''receivedAt''"
    and "\<And>k. k \<in> {''requestHeaders'', ''responseHeaders'', ''traceContext''} \<Longrightarrow> oobj ob' k \<noteq> None"
    and "absent_or (null_or (array_of (\<lambda>v. as_str v \<notin> {None, Some []}))) ob' ''observedLifecycleEvents''"
  shows "validate_envelope sha parse enforce ob' = Inr ()"
proof -
  note cong = validate_payload_checks_cong [OF assms(2)] validate_rollout_event_cong [OF assms(2)]
  have same: "tget ob' k = tget ob k" if "k \<in> {''producerEvent'', ''sourceNamespace'', ''startedAt'', ''finishedAt'', ''responseStatus''}" for k
    using that by (intro agree_untouched [OF assms(2)]) (auto simp: untouched_members_def)
  have obj: "absent_or (null_or is_obj) ob' k" if "k \<in> {''requestHeaders'', ''responseHeaders'', ''traceContext''}" for k
    using assms(4) [OF that] by (auto simp: absent_or_def null_or_def is_obj_def oobj_def split: option.splits)
  have str: "absent_or P ob' k = absent_or P ob k" if "k \<in> {''sourceNamespace'', ''startedAt'', ''finishedAt''}" for k P
  proof -
    from that have "tget ob' k = tget ob k" by (intro same) auto
    then show ?thesis by (simp add: absent_or_def)
  qed
  from assms(1) show ?thesis
    unfolding validate_envelope_ok cong using assms(3,5) obj same str by simp
qed


lemma validate_promoted_again:
  assumes "validate_promoted sha ser ob = Inr ()" "agree untouched_members ob (stored_object ob)"
    and "tget ob ''traceContext'' \<noteq> None"
  shows "validate_promoted sha ser (stored_object ob) = Inr ()"
proof -
  let ?s = "stored_object ob"
  from assms(3) obtain t where t: "tget ob ''traceContext'' = Some t" by blast
  then have trace: "tget ?s ''traceContext'' = tget ob ''traceContext''"
    using stored_promoted_members [OF _ t] by (simp add: promoted_members_def)
  have same: "agree [''requestId'', ''upstreamRequestId'', ''captureStage''] ob ?s"
    "agree [''fieldEvidence'', ''fieldEvidenceConflicts''] ob ?s"
    by (simp_all add: agree_def stored_requestId)
  have header: "same_header ob ?s side name"
    if "side \<in> {''requestHeaders'', ''responseHeaders''}" "\<not> sensitive name" for side name
    using same_header_kept [OF that(2) stored_headers [OF that(1)]] .
  have "validate_gateway_evidence sha ser ?s = validate_gateway_evidence sha ser ob"
    by (rule validate_gateway_evidence_cong [OF assms(2) same(1)]) (simp_all add: header read_headers_kept)
  with assms(1) show ?thesis
    unfolding validate_promoted_def validate_record_type_cong [OF assms(2) trace] validate_trace_context_cong [OF trace]
      validate_field_evidence_cong [OF same(2)] by simp
qed

lemma stored_lifecycle_events:
  assumes "absent_or (null_or P) ob ''observedLifecycleEvents''" "P (Array [])"
  shows "absent_or (null_or P) (stored_object ob) ''observedLifecycleEvents''"
  using assms
  by (auto simp: absent_or_def null_or_def stored_object_def tget_fill_received_at tget_seal default_members_def
      split: option.splits)

lemma stored_received_at:
  assumes "absent_or (null_or is_str) ob ''receivedAt''"
  shows "absent_or (null_or is_str) (stored_object ob) ''receivedAt''"
proof -
  have "tget (seal_envelope ob) ''receivedAt'' = tget ob ''receivedAt''"
    by (simp add: tget_seal default_members_def split: option.split)
  with assms show ?thesis
    by (auto simp: absent_or_def null_or_def is_str_def stored_object_def tget_fill_received_at json_opt_def
        split: option.splits)
qed

theorem normalize_object_again:
  assumes norm: "normalize_object sha parse ser enforce ob = Inr sealed"
    and wf: "wf_object ob" and codec: "json_codec parse ser"
    and quiet: "tget sealed ''fieldEvidenceConflicts'' = Some (Array [])"
  shows "normalize_object sha parse ser enforce (fill_received_at sealed) = Inr (fill_received_at sealed)"
proof -
  let ?a = "or_insert ''recordType'' (String ''api_snapshot'') ob"
  from norm obtain body where a: "validate_envelope sha parse enforce ?a = Inr ()"
    and body: "normalize_body_fields sha parse ?a = Inr body"
    and delivery: "validate_response_delivery_evidence body = Inr ()"
    and promoted: "validate_promoted sha ser (promote_protocol_fields parse ser body) = Inr ()"
    and sealed: "sealed = seal_envelope (promote_protocol_fields parse ser body)"
    by (rule normalize_object_steps)
  let ?p = "promote_protocol_fields parse ser body"
  let ?s = "stored_object ?p"
  have s: "fill_received_at sealed = ?s" by (simp add: sealed stored_object_def)
  have wf_body: "wf_object body"
    by (rule wf_normalize_body_fields [OF body _ codec]) (use wf in \<open>simp del: wf_json.simps(1)\<close>)
  have sorted: "tsorted ?p" "tsorted ?s"
    using wf_body by (simp_all add: tsorted_promote tsorted_stored)
  note untouched = untouched_steps [OF body, of ser]
  have trace: "tget ?p ''traceContext'' \<noteq> None" by (simp add: promote_members)
  have present: "tget ?s ''recordType'' \<noteq> None"
    using agree_untouched [OF untouched(1), of "''recordType''"]
    by (simp add: untouched_members_def frame_simps)
  have envelope: "validate_envelope sha parse enforce ?s = Inr ()"
  proof (rule validate_envelope_again [OF a untouched(1)])
    have same: "tget ?p k = tget ?a k" if "k \<in> {''receivedAt'', ''observedLifecycleEvents''}" for k
      using that normalize_body_fields_frame [OF body, of k] by (auto simp: promote_frame body_members_def)
    from a have "absent_or (null_or is_str) ?a ''receivedAt''"
      "absent_or (null_or (array_of (\<lambda>v. as_str v \<notin> {None, Some []}))) ?a ''observedLifecycleEvents''"
      by (simp_all add: validate_envelope_ok)
    then have "absent_or (null_or is_str) ?p ''receivedAt''"
      "absent_or (null_or (array_of (\<lambda>v. as_str v \<notin> {None, Some []}))) ?p ''observedLifecycleEvents''"
      by (simp_all add: absent_or_def same)
    then show "absent_or (null_or is_str) ?s ''receivedAt''"
      "absent_or (null_or (array_of (\<lambda>v. as_str v \<notin> {None, Some []}))) ?s ''observedLifecycleEvents''"
      by (auto intro!: stored_received_at stored_lifecycle_events simp: array_of_def)
    show "oobj ?s k \<noteq> None" if "k \<in> {''requestHeaders'', ''responseHeaders'', ''traceContext''}" for k
      using that stored_headers [of k ?p] stored_promoted_members [of "''traceContext''" ?p]
      by (auto simp: oobj_def promote_members promoted_members_def)
  qed
  have bodies: "normalize_body_fields sha parse ?s = Inr ?s"
  proof (rule normalize_body_fields_idem [OF body])
    show "tsorted ?a" using wf by simp
    have "tget ?s k = tget body k" if "k \<in> set body_members" for k
      using reread_not_written(3) that unfolding list_all_iff
      by (simp add: stored_frame promote_frame promoted_members_def)
    then show "agree body_members body ?s" by (simp add: agree_def list_all_iff)
  qed
  have "tget ?p ''fieldEvidenceConflicts'' = Some (Array [])"
    using quiet unfolding sealed by (simp add: tget_seal promote_members)
  then have again: "promote_protocol_fields parse ser ?s = ?s"
    by (rule promote_again [OF wf_body codec sorted(2) rereads_stored [OF trace]])
  from delivery have "validate_response_delivery_evidence ?s = Inr ()"
    by (simp add: validate_response_delivery_evidence_cong [OF untouched(2)])
  moreover from promoted have "validate_promoted sha ser ?s = Inr ()"
    by (rule validate_promoted_again [OF _ untouched(3) trace])
  moreover from sorted(1) have "seal_envelope ?s = ?s" by (rule seal_again)
  ultimately show ?thesis
    unfolding s normalize_object_def Let_def by (simp add: or_insert_id [OF present] envelope bodies again)
qed



text \<open>The object a successful normalisation stores.\<close>

lemma normalize_object_stored:
  assumes "normalize_object sha parse ser enforce ob = Inr sealed" "wf_object ob" "json_codec parse ser"
  shows "\<exists>body. fill_received_at sealed = stored_object (promote_protocol_fields parse ser body) \<and>
     (\<forall>k. k \<notin> set (''recordType'' # body_members) \<longrightarrow> tget body k = tget ob k) \<and>
     agree [''captureId''] ob (fill_received_at sealed) \<and> wf_object (fill_received_at sealed) \<and>
     fill_received_at (fill_received_at sealed) = fill_received_at sealed"
proof -
  let ?a = "or_insert ''recordType'' (String ''api_snapshot'') ob"
  from assms(1) obtain body where body: "normalize_body_fields sha parse ?a = Inr body"
      and sealed: "sealed = seal_envelope (promote_protocol_fields parse ser body)"
    by (rule normalize_object_steps)
  have wf: "wf_object body"
    by (rule wf_normalize_body_fields [OF body _ assms(3)]) (use assms(2) in \<open>simp del: wf_json.simps(1)\<close>)
  then have "wf_object (fill_received_at sealed)"
    unfolding sealed stored_object_def [symmetric] by (intro wf_stored wf_promote assms(3))
  moreover have "fill_received_at (fill_received_at sealed) = fill_received_at sealed"
    unfolding sealed stored_object_def [symmetric]
    by (rule seal_again) (use wf_object_sorted [OF wf] in \<open>rule tsorted_promote\<close>)
  moreover have "tget (fill_received_at sealed) ''captureId'' = tget ?a ''captureId''"
    unfolding sealed stored_object_def [symmetric]
    by (rule agree_untouched [OF untouched_steps(1) [OF body]]) (simp add: untouched_members_def)
  ultimately show ?thesis
    using body_frame [OF body] by (intro exI [of _ body])
      (simp add: sealed stored_object_def agree_def frame_simps del: wf_json.simps(1))
qed


section \<open>Three sources that disagree\<close>

text \<open>
  A Wire Capture whose trace context, correlation header and request metadata each name another
  Session, the envelope it is stored as, and the envelope that one is stored as in turn.
\<close>

definition candidate_fields :: "string \<Rightarrow> string \<Rightarrow> string \<Rightarrow> string \<Rightarrow> jobject" where
  "candidate_fields value source producer authority =
     [(''authority'', String authority), (''producer'', String producer), (''source'', String source),
      (''value'', String value)]"

definition from_context :: jobject where
  "from_context = candidate_fields ''a'' ''capture.traceContext.session_id'' ''capture_producer'' ''producer_asserted''"

definition from_header :: jobject where
  "from_header = candidate_fields ''b'' ''requestHeaders.x-chiptrace-session-id'' ''agent_harness'' ''client_asserted''"

definition from_metadata :: jobject where
  "from_metadata = candidate_fields ''c'' ''requestBody.client_metadata.session_id'' ''codex_client'' ''client_asserted''"

definition session_evidence :: "bool \<Rightarrow> jobject \<Rightarrow> json" where
  "session_evidence selected c =
     Object (tput ''selected'' (Bool selected) (tput ''field'' (String ''traceContext.session_id'') c))"

definition session_conflict :: "jobject list \<Rightarrow> json" where
  "session_conflict cs =
     Object [(''evidence'', Array (map Object cs)), (''field'', String ''traceContext.session_id'')]"

definition disputed_request :: jobject where
  "disputed_request = [(''client_metadata'', Object [(''session_id'', String ''c'')])]"

definition disputed_capture :: jobject where
  "disputed_capture =
     [(''captureId'', String ''cap-1''), (''recordType'', String ''api_snapshot''),
      (''requestBody'', Object disputed_request),
      (''requestHeaders'', Object [(''x-chiptrace-session-id'', String ''b'')]),
      (''sourceNamespace'', String ''app''), (''traceContext'', Object [(''session_id'', String ''a'')])]"

definition disputed_stored :: "json list \<Rightarrow> jobject" where
  "disputed_stored conflicts =
     [(''captureError'', Null), (''captureId'', String ''cap-1''), (''captureStage'', String ''ingress''),
      (''fieldEvidence'', Array [session_evidence True from_context, session_evidence False from_header,
         session_evidence False from_metadata]),
      (''fieldEvidenceConflicts'', Array conflicts), (''observedLifecycleEvents'', Array []), (''receivedAt'', Null),
      (''recordType'', String ''api_snapshot''), (''redactedHeaders'', Array []),
      (''requestBody'', Object disputed_request),
      (''requestHeaders'', Object [(''x-chiptrace-session-id'', String ''b'')]), (''requestTruncated'', Bool False),
      (''responseHeaders'', Object []), (''responseTruncated'', Bool False), (''sourceNamespace'', String ''app''),
      (''stream'', Bool False), (''traceContext'', Object [(''session_id'', String ''a'')]),
      (''version'', String ''chiptrace.capture.v2'')]"

definition disputed_once :: jobject where
  "disputed_once = disputed_stored [session_conflict [from_context, from_header, from_metadata]]"

definition disputed_twice :: jobject where
  "disputed_twice = disputed_stored
     [session_conflict [from_context, from_header, from_metadata], session_conflict [from_header, from_metadata]]"

lemma disputed_wf: "wf_object disputed_capture" "wf_object disputed_once" "wf_object disputed_twice"
  by code_simp+

lemma disputed_differ: "disputed_once \<noteq> disputed_twice"
  by code_simp

lemma dedup_by_distinct:
  "distinct (map ser xs) \<Longrightarrow> set seen \<inter> ser ` set xs = {} \<Longrightarrow> dedup_by ser seen xs = xs"
proof (induction xs arbitrary: seen)
  case (Cons x xs)
  then have "set (ser x # seen) \<inter> ser ` set xs = {}" by auto
  with Cons show ?case by auto
qed simp

lemma distinct_codec:
  "json_codec parse ser \<Longrightarrow> list_all wf_json vs \<Longrightarrow> distinct vs \<Longrightarrow> distinct (map ser vs)"
  by (auto simp: distinct_map list_all_iff intro!: inj_onI codec_inj)

lemma first_promotion_candidates:
  "all_candidates (identity_sources_of parse disputed_capture) =
     [(''session_id'',
       [\<lparr>fc_value = String ''a'', fc_source = ''capture.traceContext.session_id'', fc_producer = ''capture_producer'',
         fc_authority = ''producer_asserted''\<rparr>,
        \<lparr>fc_value = String ''b'', fc_source = ''requestHeaders.x-chiptrace-session-id'', fc_producer = ''agent_harness'',
         fc_authority = ''client_asserted''\<rparr>,
        \<lparr>fc_value = String ''c'', fc_source = ''requestBody.client_metadata.session_id'', fc_producer = ''codex_client'',
         fc_authority = ''client_asserted''\<rparr>])]"
  by code_simp

lemma second_promotion_candidates:
  "all_candidates (identity_sources_of parse disputed_once) =
     [(''session_id'',
       [\<lparr>fc_value = String ''b'', fc_source = ''requestHeaders.x-chiptrace-session-id'', fc_producer = ''agent_harness'',
         fc_authority = ''client_asserted''\<rparr>,
        \<lparr>fc_value = String ''c'', fc_source = ''requestBody.client_metadata.session_id'', fc_producer = ''codex_client'',
         fc_authority = ''client_asserted''\<rparr>])]"
  by code_simp


lemma distinct_ser:
  assumes "json_codec parse ser" "list_all wf_json vs" "distinct vs"
  shows "dedup_by ser [] vs = vs"
  using distinct_codec [OF assms] by (simp add: dedup_by_distinct)

lemma session_names_differ:
  assumes "json_codec parse ser"
  shows "ser (String ''a'') \<noteq> ser (String ''b'')" "ser (String ''a'') \<noteq> ser (String ''c'')"
    "ser (String ''b'') \<noteq> ser (String ''c'')"
  using codec_inj [OF assms, of "String ''a''" "String ''b''"] codec_inj [OF assms, of "String ''a''" "String ''c''"]
    codec_inj [OF assms, of "String ''b''" "String ''c''"] by auto

lemma disputed_first:
  assumes "json_codec parse ser"
  shows "promoted ser (identity_sources_of parse disputed_capture) =
     \<lparr>pm_trace = [(''session_id'', String ''a'')],
      pm_evidence = [session_evidence True from_context, session_evidence False from_header,
        session_evidence False from_metadata],
      pm_conflicts = [session_conflict [from_context, from_header, from_metadata]]\<rparr>"
proof -
  have trace: "is_captured (identity_sources_of parse disputed_capture) = [(''session_id'', String ''a'')]" by code_simp
  have "protocol_value_present (String ''a'')" by code_simp
  with session_names_differ [OF assms] show ?thesis
    unfolding promoted_def first_promotion_candidates trace
    by (simp add: resolve_field_def selected_value_def or_insert_def conflicting_def candidate_evidence_def
        set_member_def field_candidate_json_def json_object_def conflict_json_def session_evidence_def
        session_conflict_def from_context_def from_header_def from_metadata_def candidate_fields_def)
qed

lemma disputed_second:
  assumes "json_codec parse ser"
  shows "promoted ser (identity_sources_of parse disputed_once) =
     \<lparr>pm_trace = [(''session_id'', String ''a'')],
      pm_evidence = [session_evidence False from_header, session_evidence False from_metadata],
      pm_conflicts = [session_conflict [from_header, from_metadata]]\<rparr>"
proof -
  have trace: "is_captured (identity_sources_of parse disputed_once) = [(''session_id'', String ''a'')]" by code_simp
  have "protocol_value_present (String ''a'')" by code_simp
  with session_names_differ [OF assms] show ?thesis
    unfolding promoted_def second_promotion_candidates trace
    by (simp add: resolve_field_def selected_value_def or_insert_def conflicting_def candidate_evidence_def
        set_member_def field_candidate_json_def json_object_def conflict_json_def session_evidence_def
        session_conflict_def from_context_def from_header_def from_metadata_def candidate_fields_def)
qed


text \<open>One normalisation, given what its promotion writes.\<close>

lemma promote_step:
  assumes p: "promoted ser (identity_sources_of parse ob) = \<lparr>pm_trace = T, pm_evidence = E, pm_conflicts = C\<rparr>"
    and "tput ''traceContext'' (Object T) ob = ob'"
    and "otext ob' ''requestId'' = None" "rid_observed ''x-client-request-id'' ob' = None"
    and "otext ob' ''upstreamRequestId'' = None" "rid_observed ''x-request-id'' ob' = None"
    and "dedup_by ser [] (array_field ob' ''fieldEvidence'' @ E) = E'"
    and "dedup_by ser [] (array_field ob' ''fieldEvidenceConflicts'' @ C) = C'"
  shows "promote_protocol_fields parse ser ob =
     (let p = tput ''fieldEvidenceConflicts'' (Array C') (tput ''fieldEvidence'' (Array E') ob')
      in or_insert ''captureStage'' (String (capture_stage p)) p)"
proof -
  have rid: "rid_object F H ob' = ob'" "rid_evidence F H P ex ob' = []"
    if "otext ob' F = None" "rid_observed H ob' = None" for F H P ex
  proof -
    from that(2) have "side_header ob' ''requestHeaders'' H = None" "side_header ob' ''responseHeaders'' H = None"
      by (auto simp: rid_observed_def or_else_def split: option.splits)
    with that show "rid_object F H ob' = ob'" "rid_evidence F H P ex ob' = []"
      by (simp_all add: rid_object_def rid_evidence_def request_id_evidence_def)
  qed
  have "traced parse ser ob = ob'" by (simp add: traced_def p assms(2))
  then have objects: "traced parse ser ob = ob'" "request_object parse ser ob = ob'" "promoted_object parse ser ob = ob'"
    by (simp_all add: request_object_def promoted_object_def rid assms(3-6))
  then have "new_evidence parse ser ob = E" by (simp add: new_evidence_def p rid assms(3-6))
  then show ?thesis
    using assms(7,8) by (simp add: promote_eq objects p Let_def array_field_def oarr_def)
qed

lemma disputed_normal_forms:
  assumes codec: "json_codec parse ser"
  shows "normalize_object sha parse ser True disputed_capture = Inr (tdel ''receivedAt'' disputed_once)"
    and "normalize_object sha parse ser True disputed_once = Inr disputed_twice"
proof -
  let ?e = "[session_evidence True from_context, session_evidence False from_header, session_evidence False from_metadata]"
  let ?c1 = "session_conflict [from_context, from_header, from_metadata]"
  let ?c2 = "session_conflict [from_header, from_metadata]"
  have e: "dedup_by ser [] ?e = ?e" by (rule distinct_ser [OF codec]; code_simp)
  have "dedup_by ser [] (dedup_by ser [] ?e @ [session_evidence False from_header, session_evidence False from_metadata])
      = dedup_by ser [] ?e" by (rule dedup_by_again) simp
  then have e2: "dedup_by ser [] (?e @ [session_evidence False from_header, session_evidence False from_metadata]) = ?e"
    unfolding e .
  have c2: "dedup_by ser [] [?c1, ?c2] = [?c1, ?c2]" by (rule distinct_ser [OF codec]; code_simp)
  have once: "promote_protocol_fields parse ser disputed_capture =
     (let p = tput ''fieldEvidenceConflicts'' (Array [?c1]) (tput ''fieldEvidence'' (Array ?e) disputed_capture)
      in or_insert ''captureStage'' (String (capture_stage p)) p)"
  proof (rule promote_step [OF disputed_first [OF codec]])
    show "tput ''traceContext'' (Object [(''session_id'', String ''a'')]) disputed_capture = disputed_capture" by code_simp
    show "dedup_by ser [] (array_field disputed_capture ''fieldEvidence'' @ ?e) = ?e"
      using e by (simp add: array_field_def oarr_def disputed_capture_def)
    show "dedup_by ser [] (array_field disputed_capture ''fieldEvidenceConflicts'' @ [?c1]) = [?c1]"
      by (simp add: array_field_def oarr_def disputed_capture_def)
  qed code_simp+
  have twice: "promote_protocol_fields parse ser disputed_once =
     (let p = tput ''fieldEvidenceConflicts'' (Array [?c1, ?c2]) (tput ''fieldEvidence'' (Array ?e) disputed_once)
      in or_insert ''captureStage'' (String (capture_stage p)) p)"
  proof (rule promote_step [OF disputed_second [OF codec]])
    show "tput ''traceContext'' (Object [(''session_id'', String ''a'')]) disputed_once = disputed_once" by code_simp
    have "array_field disputed_once ''fieldEvidence'' = ?e" "array_field disputed_once ''fieldEvidenceConflicts'' = [?c1]"
      by code_simp+
    then show "dedup_by ser [] (array_field disputed_once ''fieldEvidence''
        @ [session_evidence False from_header, session_evidence False from_metadata]) = ?e"
      "dedup_by ser [] (array_field disputed_once ''fieldEvidenceConflicts'' @ [?c2]) = [?c1, ?c2]"
      using e2 c2 by simp_all
  qed code_simp+
  have fixed: "or_insert ''recordType'' (String ''api_snapshot'') disputed_capture = disputed_capture"
    "or_insert ''recordType'' (String ''api_snapshot'') disputed_once = disputed_once"
    by code_simp+
  have "validate_envelope sha parse True disputed_capture = Inr ()"
    "normalize_body_fields sha parse disputed_capture = Inr disputed_capture"
    "validate_response_delivery_evidence disputed_capture = Inr ()"
    "validate_promoted sha ser (promote_protocol_fields parse ser disputed_capture) = Inr ()"
    "seal_envelope (promote_protocol_fields parse ser disputed_capture) = tdel ''receivedAt'' disputed_once"
    unfolding once by code_simp+
  then show "normalize_object sha parse ser True disputed_capture = Inr (tdel ''receivedAt'' disputed_once)"
    by (simp add: normalize_object_def fixed Let_def)
  have "validate_envelope sha parse True disputed_once = Inr ()"
    "normalize_body_fields sha parse disputed_once = Inr disputed_once"
    "validate_response_delivery_evidence disputed_once = Inr ()"
    "validate_promoted sha ser (promote_protocol_fields parse ser disputed_once) = Inr ()"
    "seal_envelope (promote_protocol_fields parse ser disputed_once) = disputed_twice"
    unfolding twice by code_simp+
  then show "normalize_object sha parse ser True disputed_once = Inr disputed_twice"
    by (simp add: normalize_object_def fixed Let_def)
qed

end
