(* ===== verification/CaptureProperties.thy ===== *)
theory CaptureProperties
  imports CaptureTheorems "HOL-Library.Countable"
begin

text \<open>
  The properties of the normalisation of Capture envelopes (\<open>capture.rs\<close>), with a codec and
  envelopes on which they apply.
\<close>

section \<open>A codec\<close>

text \<open>
  JSON values are countable, so numbering them in unary is an injective serialisation; reading
  accepts the numbers of well-formed values.
\<close>

instance number :: countable
  by countable_datatype

instance json :: countable
  by countable_datatype

definition unary_ser :: "json \<Rightarrow> string" where
  "unary_ser v = replicate (to_nat v) (CHR ''1'')"

definition unary_parse :: "string \<Rightarrow> json option" where
  "unary_parse s = (if wf_json (from_nat (length s)) then Some (from_nat (length s)) else None)"

lemma unary_codec: "json_codec unary_parse unary_ser"
  by (auto simp: json_codec_def unary_parse_def unary_ser_def split: if_splits)

text \<open>A Capture without identifiers, and the envelope it is stored as.\<close>

definition plain_capture :: jobject where
  "plain_capture =
     [(''captureId'', String ''cap-1''),
      (''requestHeaders'', Object [(''Authorization'', String ''secret''), (''accept'', String ''text'')])]"

definition plain_stored :: jobject where
  "plain_stored =
     [(''captureError'', Null), (''captureId'', String ''cap-1''), (''captureStage'', String ''event''),
      (''fieldEvidence'', Array []), (''fieldEvidenceConflicts'', Array []), (''observedLifecycleEvents'', Array []),
      (''receivedAt'', Null), (''recordType'', String ''api_snapshot''),
      (''redactedHeaders'', Array [String ''authorization'']),
      (''requestHeaders'', Object [(''accept'', String ''text'')]), (''requestTruncated'', Bool False),
      (''responseHeaders'', Object []), (''responseTruncated'', Bool False), (''stream'', Bool False),
      (''traceContext'', Object []), (''version'', String ''chiptrace.capture.v2'')]"

lemma plain_wf: "wf_object plain_capture" "wf_object plain_stored"
  by code_simp+

definition plain_received :: jobject where
  "plain_received = tput ''recordType'' (String ''api_snapshot'') plain_capture"

lemma plain_normal_form: "normalize_object sha parse ser True plain_capture = Inr (tdel ''receivedAt'' plain_stored)"
proof -
  have "all_candidates (identity_sources_of parse plain_received) = []"
    "is_captured (identity_sources_of parse plain_received) = []"
    by code_simp+
  then have promoted: "promoted ser (identity_sources_of parse plain_received)
      = \<lparr>pm_trace = [], pm_evidence = [], pm_conflicts = []\<rparr>"
    by (simp add: promoted_def)
  have promote: "promote_protocol_fields parse ser plain_received =
     (let p = tput ''fieldEvidenceConflicts'' (Array []) (tput ''fieldEvidence'' (Array [])
                (tput ''traceContext'' (Object []) plain_received))
      in or_insert ''captureStage'' (String (capture_stage p)) p)"
    by (rule promote_step [OF promoted refl]) code_simp+
  have "or_insert ''recordType'' (String ''api_snapshot'') plain_capture = plain_received" by code_simp
  moreover have "validate_envelope sha parse True plain_received = Inr ()"
    "normalize_body_fields sha parse plain_received = Inr plain_received"
    "validate_response_delivery_evidence plain_received = Inr ()"
    "validate_promoted sha ser (promote_protocol_fields parse ser plain_received) = Inr ()"
    "seal_envelope (promote_protocol_fields parse ser plain_received) = tdel ''receivedAt'' plain_stored"
    unfolding promote by code_simp+
  ultimately show ?thesis by (simp add: normalize_object_def Let_def)
qed

lemma codec_wf: "json_codec parse ser \<Longrightarrow> parse s = Some v \<Longrightarrow> wf_json v"
  by (simp add: json_codec_def)

lemma codec_parse: "json_codec parse ser \<Longrightarrow> wf_json v \<Longrightarrow> parse (ser v) = Some v"
  by (simp add: json_codec_def)

text \<open>Normalising an envelope that is the serialisation of an object.\<close>

lemma normalize_serialised:
  assumes codec: "json_codec parse ser" and wf: "wf_object ob"
    and id: "ostr ob ''captureId'' = Some cid" "capture_id_ok cid"
    and norm: "normalize_object sha parse ser enforce ob = Inr sealed"
    and len: "length (ser (Object ob)) \<le> max_bytes" "length (ser (Object (fill_received_at sealed))) \<le> max_bytes"
  shows "\<exists>r. normalize_capture_with_policy sha parse ser (ser (Object ob)) max_bytes enforce = Inr r \<and>
     cr_capture_id r = cid \<and> cr_canonical r = ser (Object (fill_received_at sealed)) \<and>
     cr_sha256 r = sha (cr_canonical r) \<and>
     cr_legacy_raw_sha256 r =
       (if ostr ob ''version'' \<noteq> Some capture_schema_version then Some (sha (ser (Object ob))) else None)"
  using id norm len
  by (simp add: normalize_capture_with_policy_def codec_parse [OF codec wf] demand_def Let_def del: wf_json.simps(1))

lemma plain_id: "ostr plain_capture ''captureId'' = Some ''cap-1''" "capture_id_ok ''cap-1''"
  "fill_received_at (tdel ''receivedAt'' plain_stored) = plain_stored"
  by code_simp+

definition plain_size :: nat where
  "plain_size = length (unary_ser (Object plain_capture)) + length (unary_ser (Object plain_stored))"

lemma plain_capture_accepted:
  "\<exists>r. normalize_capture_with_policy sha unary_parse unary_ser (unary_ser (Object plain_capture)) plain_size True = Inr r \<and>
     cr_canonical r = unary_ser (Object plain_stored)"
  using normalize_serialised [OF unary_codec plain_wf(1) plain_id(1,2) plain_normal_form, where max_bytes = plain_size and sha = sha]
  by (auto simp: plain_id(3) plain_size_def)

section \<open>Properties\<close>




text \<open>
  C23: Normalisation redacts credentials: the stored headers of a Capture are exactly those it was
  sent with that are not sensitive, and the name of every header it drops is listed.
\<close>

theorem sensitive_headers_redacted:
  assumes "normalize_capture_with_policy sha parse ser raw max_bytes enforce = Inr r" "json_codec parse ser"
    and "parse raw = Some (Object sent)" "side \<in> {''requestHeaders'', ''responseHeaders''}"
  shows "\<exists>ob. parse (cr_canonical r) = Some (Object ob) \<and>
     oobj ob side = Some (filter (\<lambda>h. \<not> sensitive (fst h)) (case oobj sent side of None \<Rightarrow> [] | Some hs \<Rightarrow> hs)) \<and>
     (\<forall>hs name v. oobj sent side = Some hs \<longrightarrow> (name, v) \<in> set hs \<longrightarrow> sensitive name \<longrightarrow>
        String (to_ascii_lowercase name) \<in> set (get_array (Object ob) ''redactedHeaders''))"
proof -
  from assms(1,3) obtain sealed where c: "normalize_object sha parse ser enforce sent = Inr sealed"
      "cr_canonical r = ser (Object (fill_received_at sealed))"
    by (elim normalize_capture_steps) simp
  from codec_wf [OF assms(2,3)] have wf: "wf_object sent" .
  from normalize_object_stored [OF c(1) wf assms(2)] obtain body where
      body: "fill_received_at sealed = stored_object (promote_protocol_fields parse ser body)"
        "\<forall>k. k \<notin> set (''recordType'' # body_members) \<longrightarrow> tget body k = tget sent k" "wf_object (fill_received_at sealed)"
    by blast
  let ?p = "promote_protocol_fields parse ser body"
  have hs: "oobj ?p s = oobj sent s" if "s \<in> {''requestHeaders'', ''responseHeaders''}" for s
  proof -
    from that have "s \<notin> set (''recordType'' # body_members)" by (auto simp: body_members_def)
    with body(2) have "tget body s = tget sent s" by blast
    with that show ?thesis by (auto simp: oobj_def promote_frame)
  qed
  have "oobj (stored_object ?p) side = Some (filter (\<lambda>h. \<not> sensitive (fst h)) (case oobj sent side of None \<Rightarrow> [] | Some hs \<Rightarrow> hs))"
    using stored_headers [OF assms(4), of ?p] hs [OF assms(4)] by (simp add: oobj_def [of "stored_object ?p"] kept_headers_def)
  moreover have "String (to_ascii_lowercase name) \<in> set (get_array (Object (stored_object ?p)) ''redactedHeaders'')"
    if "oobj sent side = Some h" "(name, v) \<in> set h" "sensitive name" for h name v
  proof -
    from that hs [OF assms(4)] have "to_ascii_lowercase name \<in> set (dropped_names ?p side)"
      by (force simp: dropped_names_def)
    with assms(4) have "to_ascii_lowercase name \<in> set (redacted_names ?p)"
      by (auto simp: redacted_names_def sanitize_headers_eq)
    then show ?thesis by (simp add: get_array_def stored_object_def tget_fill_received_at tget_seal)
  qed
  ultimately show ?thesis
    using body(1,3) c(2) codec_parse [OF assms(2)] by (intro exI [of _ "stored_object ?p"]) (simp del: wf_json.simps(1))
qed

lemma sensitive_headers_redacted_witness:
  "\<exists>r ob. normalize_capture_with_policy (\<lambda>s. s) unary_parse unary_ser (unary_ser (Object plain_capture)) plain_size True = Inr r \<and>
     unary_parse (cr_canonical r) = Some (Object ob) \<and> oobj ob ''requestHeaders'' = Some [(''accept'', String ''text'')]"
proof -
  obtain r where r: "normalize_capture_with_policy (\<lambda>s. s) unary_parse unary_ser (unary_ser (Object plain_capture)) plain_size True = Inr r"
    using plain_capture_accepted [of "\<lambda>s. s"] by blast
  have "filter (\<lambda>h. \<not> sensitive (fst h)) (case oobj plain_capture ''requestHeaders'' of None \<Rightarrow> [] | Some hs \<Rightarrow> hs)
      = [(''accept'', String ''text'')]" by code_simp
  with sensitive_headers_redacted [OF r unary_codec codec_parse [OF unary_codec plain_wf(1)], of "''requestHeaders''"] r
  show ?thesis by auto
qed

lemma stored_renormalizes:
  assumes "normalize_capture_with_policy sha parse ser raw max_bytes enforce = Inr r" "json_codec parse ser"
    and "parse (cr_canonical r) = Some v" "jget v ''fieldEvidenceConflicts'' = Some (Array [])"
  shows "normalize_capture_with_policy sha parse ser (cr_canonical r) max_bytes enforce
     = Inr (r\<lparr>cr_legacy_raw_sha256 := None\<rparr>)"
proof -
  from assms(1) obtain sent sealed where c: "parse raw = Some (Object sent)" "ostr sent ''captureId'' = Some (cr_capture_id r)"
      "capture_id_ok (cr_capture_id r)" "normalize_object sha parse ser enforce sent = Inr sealed"
      "length (cr_canonical r) \<le> max_bytes" "cr_canonical r = ser (Object (fill_received_at sealed))"
    and r: "r = \<lparr>cr_capture_id = cr_capture_id r, cr_canonical = cr_canonical r, cr_sha256 = sha (cr_canonical r),
          cr_legacy_raw_sha256 = (if ostr sent ''version'' \<noteq> Some capture_schema_version then Some (sha raw) else None),
          cr_received_at = first_timestamp (Object sealed), cr_model = body_model (Object (fill_received_at sealed)),
          cr_wire_evidence = wire_evidence_of (Object (fill_received_at sealed))\<rparr>"
    by (rule normalize_capture_steps)
  let ?s = "fill_received_at sealed"
  from codec_wf [OF assms(2) c(1)] have wf: "wf_object sent" .
  from normalize_object_stored [OF c(4) wf assms(2)] obtain body where
      body: "?s = stored_object (promote_protocol_fields parse ser body)"
        "agree [''captureId''] sent ?s" "wf_object ?s" and filled: "fill_received_at ?s = ?s"
    by blast
  have parsed: "parse (cr_canonical r) = Some (Object ?s)"
    unfolding c(6) by (rule codec_parse [OF assms(2) body(3)])
  with assms(3) have "v = Object ?s" by simp
  with assms(4) have "tget sealed ''fieldEvidenceConflicts'' = Some (Array [])"
    by (simp add: tget_fill_received_at)
  from normalize_object_again [OF c(4) wf assms(2) this] have again: "normalize_object sha parse ser enforce ?s = Inr ?s" .
  have "ostr ?s ''captureId'' = Some (cr_capture_id r)" "ostr ?s ''version'' = Some capture_schema_version"
    using body(2) c(2) by (simp_all add: agree_def ostr_def body(1) [symmetric])
      (simp add: body(1) stored_object_def tget_fill_received_at tget_seal)
  then show ?thesis
    using parsed c again filled first_timestamp_fill [of sealed]
    by (subst (2) r) (simp add: normalize_capture_with_policy_def demand_def Let_def)
qed



lemma disputed_normalizes:
  assumes "json_codec parse ser"
    and "\<forall>ob \<in> {disputed_capture, disputed_once, disputed_twice}. length (ser (Object ob)) \<le> max_bytes"
  obtains r r' where "normalize_capture sha parse ser (ser (Object disputed_capture)) max_bytes = Inr r"
    "cr_capture_id r = ''cap-1''" "cr_canonical r = ser (Object disputed_once)" "cr_sha256 r = sha (ser (Object disputed_once))"
    "normalize_capture sha parse ser (ser (Object disputed_once)) max_bytes = Inr r'"
    "cr_capture_id r' = ''cap-1''" "cr_canonical r' = ser (Object disputed_twice)"
    "cr_sha256 r' = sha (ser (Object disputed_twice))" "cr_legacy_raw_sha256 r' = None"
proof -
  note codec = assms(1)
  have facts: "ostr disputed_capture ''captureId'' = Some ''cap-1''" "capture_id_ok ''cap-1''"
    "fill_received_at (tdel ''receivedAt'' disputed_once) = disputed_once"
    "ostr disputed_once ''captureId'' = Some ''cap-1''" "fill_received_at disputed_twice = disputed_twice"
    "ostr disputed_once ''version'' = Some capture_schema_version"
    by code_simp+
  from normalize_serialised [OF codec disputed_wf(1) facts(1,2) disputed_normal_forms(1) [OF codec], where max_bytes = max_bytes and sha = sha]
  obtain r where r: "normalize_capture sha parse ser (ser (Object disputed_capture)) max_bytes = Inr r"
      "cr_capture_id r = ''cap-1''" "cr_canonical r = ser (Object disputed_once)" "cr_sha256 r = sha (ser (Object disputed_once))"
    using assms(2) by (auto simp: normalize_capture_def facts(3))
  from normalize_serialised [OF codec disputed_wf(2) facts(4,2) disputed_normal_forms(2) [OF codec], where max_bytes = max_bytes and sha = sha]
  obtain r' where r': "normalize_capture sha parse ser (ser (Object disputed_once)) max_bytes = Inr r'"
      "cr_capture_id r' = ''cap-1''" "cr_canonical r' = ser (Object disputed_twice)"
      "cr_sha256 r' = sha (ser (Object disputed_twice))" "cr_legacy_raw_sha256 r' = None"
    using assms(2) by (auto simp: normalize_capture_def facts(5,6))
  from that [OF r r'] show thesis .
qed

text \<open>
  With an identity conflict normalisation is not idempotent: a Capture whose trace context,
  correlation header and request metadata name three Sessions is accepted and stored, but when its
  stored bytes are normalised again, by the Collector that receives them from the Relay, another
  conflict is recorded and neither the bytes nor (unless SHA-256 collides) the hash are those of
  the Relay, not even under the legacy hash.
\<close>

theorem renormalization_unstable:
  assumes "json_codec parse ser" "sha (ser (Object disputed_once)) \<noteq> sha (ser (Object disputed_twice))"
    and "\<forall>ob \<in> {disputed_capture, disputed_once, disputed_twice}. length (ser (Object ob)) \<le> max_bytes"
  shows "\<exists>r r'. normalize_capture sha parse ser (ser (Object disputed_capture)) max_bytes = Inr r \<and>
     normalize_capture sha parse ser (cr_canonical r) max_bytes = Inr r' \<and>
     cr_capture_id r' = cr_capture_id r \<and> cr_canonical r' \<noteq> cr_canonical r \<and>
     \<not> matches_persisted_sha256 r' (cr_sha256 r)"
proof -
  obtain r r' where r: "normalize_capture sha parse ser (ser (Object disputed_capture)) max_bytes = Inr r"
      "cr_capture_id r = ''cap-1''" "cr_canonical r = ser (Object disputed_once)" "cr_sha256 r = sha (ser (Object disputed_once))"
    and r': "normalize_capture sha parse ser (ser (Object disputed_once)) max_bytes = Inr r'"
      "cr_capture_id r' = ''cap-1''" "cr_canonical r' = ser (Object disputed_twice)"
      "cr_sha256 r' = sha (ser (Object disputed_twice))" "cr_legacy_raw_sha256 r' = None"
    by (rule disputed_normalizes [OF assms(1,3)])
  have "ser (Object disputed_once) \<noteq> ser (Object disputed_twice)" using assms(2) by auto
  with assms(2) r r' show ?thesis by (intro exI [of _ r] exI [of _ r']) (auto simp: matches_persisted_sha256_def)
qed

lemma renormalization_unstable_witness:
  "\<exists>max_bytes r r'. normalize_capture (\<lambda>s. s) unary_parse unary_ser (unary_ser (Object disputed_capture)) max_bytes = Inr r \<and>
     normalize_capture (\<lambda>s. s) unary_parse unary_ser (cr_canonical r) max_bytes = Inr r' \<and>
     \<not> matches_persisted_sha256 r' (cr_sha256 r)"
proof -
  let ?max = "length (unary_ser (Object disputed_capture)) + length (unary_ser (Object disputed_once))
     + length (unary_ser (Object disputed_twice))"
  have "unary_ser (Object disputed_once) \<noteq> unary_ser (Object disputed_twice)"
    using codec_inj [OF unary_codec disputed_wf(2,3)] disputed_differ by auto
  then show ?thesis using renormalization_unstable [OF unary_codec, of "\<lambda>s. s" ?max] by auto
qed

end
