(* ===== verification/IngestBudget.thy ===== *)
theory IngestBudget
  imports Prelude
begin

text \<open>
  The budget of request bodies in memory (\<open>ingest.rs\<close>).  The Collector and the Relay read every body
  through an \<open>InflightBodyBudget\<close>: a body is read only while the permits of one shared semaphore cover
  it, and the permits go back when the body is dropped.  The semaphore is tokio's and a parameter
  \<open>api\<close>; \<open>semaphore_laws\<close> is its documented behaviour.  The header values of a request are given as
  \<open>HeaderValue::to_str\<close> reads them.
\<close>

section \<open>The semaphore\<close>

record 'sem semaphore_api =
  sem_new :: "nat \<Rightarrow> 'sem option"
  sem_acquire :: "nat \<Rightarrow> 'sem \<Rightarrow> 'sem option"
  sem_release :: "nat \<Rightarrow> 'sem \<Rightarrow> 'sem"
  sem_permits :: "'sem \<Rightarrow> nat"

definition max_permits :: nat where
  "max_permits = 2 ^ 61 - 1"

text \<open>
  \<open>Semaphore::new\<close> panics above \<open>MAX_PERMITS\<close>, \<open>try_acquire_many\<close> fails without waiting when there
  are fewer permits, and a dropped permit is given back.
\<close>

definition semaphore_laws :: "'sem semaphore_api \<Rightarrow> bool" where
  "semaphore_laws api \<longleftrightarrow>
     (\<forall>n. sem_new api n = None \<longleftrightarrow> max_permits < n) \<and>
     (\<forall>n s. sem_new api n = Some s \<longrightarrow> sem_permits api s = n) \<and>
     (\<forall>n s. sem_acquire api n s = None \<longleftrightarrow> sem_permits api s < n) \<and>
     (\<forall>n s t. sem_acquire api n s = Some t \<longrightarrow> sem_permits api t = sem_permits api s - n) \<and>
     (\<forall>n s. sem_permits api s + n \<le> max_permits \<longrightarrow>
        sem_permits api (sem_release api n s) = sem_permits api s + n)"


section \<open>The budget\<close>

record 'sem body_budget =
  bb_semaphore :: 'sem
  bb_capacity :: nat
  bb_max_body_bytes :: nat

datatype budget_error = BudgetInvalid | SemaphorePanic

definition budget_new :: "'sem semaphore_api \<Rightarrow> nat \<Rightarrow> nat \<Rightarrow> budget_error + 'sem body_budget" where
  "budget_new api capacity max_body_bytes =
     (if max_body_bytes = 0 \<or> 2 ^ 32 - 1 < max_body_bytes \<or> capacity < max_body_bytes
      then Inl BudgetInvalid
      else case sem_new api capacity of
        None \<Rightarrow> Inl SemaphorePanic
      | Some s \<Rightarrow> Inr \<lparr>bb_semaphore = s, bb_capacity = capacity, bb_max_body_bytes = max_body_bytes\<rparr>)"

definition budget_available :: "'sem semaphore_api \<Rightarrow> 'sem body_budget \<Rightarrow> nat" where
  "budget_available api b = sem_permits api (bb_semaphore b)"


section \<open>Reading a body\<close>

datatype body_read_error =
    UnsupportedMediaType
  | InvalidContentLength
  | TooLarge
  | BudgetExhausted
  | ReadFailed string

datatype body_frame = DataFrame string | OtherFrame | BrokenFrame string

text \<open>A header is absent, present but not readable as text, or a text.\<close>

record body_request =
  rq_content_type :: "string option option"
  rq_content_length :: "string option option"
  rq_frames :: "body_frame list"

record body_read =
  br_permits :: "nat list"
  br_accounted :: nat
  br_buffer :: string

record buffered_body =
  bj_bytes :: string
  bj_permits :: "nat list"

definition media_type :: "body_request \<Rightarrow> string option" where
  "media_type rq =
     map_option (\<lambda>v. trim (takeWhile (\<lambda>c. c \<noteq> CHR '';'') v)) (Option.bind (rq_content_type rq) id)"

definition declared_length :: "body_request \<Rightarrow> body_read_error + nat option" where
  "declared_length rq =
     (case rq_content_length rq of
        None \<Rightarrow> Inr None
      | Some v \<Rightarrow> rbind (ok_or InvalidContentLength (Option.bind v parse_u64)) (\<lambda>n. Inr (Some (unat n))))"

definition as_u32 :: "nat \<Rightarrow> nat" where
  "as_u32 n = n mod 2 ^ 32"

definition take_permits :: "'sem semaphore_api \<Rightarrow> nat \<Rightarrow> 'sem body_budget \<Rightarrow> 'sem body_budget option" where
  "take_permits api n b =
     map_option (\<lambda>s. b\<lparr>bb_semaphore := s\<rparr>) (sem_acquire api (as_u32 n) (bb_semaphore b))"

text \<open>Dropping the permits of a body, or of a reading that ends early.\<close>

definition drop_permits :: "'sem semaphore_api \<Rightarrow> nat list \<Rightarrow> 'sem body_budget \<Rightarrow> 'sem body_budget" where
  "drop_permits api permits b = b\<lparr>bb_semaphore := fold (sem_release api) permits (bb_semaphore b)\<rparr>"

text \<open>\<open>read\<close> up to its loop: the headers, and the permits for the declared length.\<close>

definition begin_read ::
  "'sem semaphore_api \<Rightarrow> string list \<Rightarrow> body_request \<Rightarrow> 'sem body_budget
     \<Rightarrow> (body_read_error + body_read) \<times> 'sem body_budget" where
  "begin_read api accepted rq b =
     (if (case media_type rq of None \<Rightarrow> True | Some t \<Rightarrow> t \<notin> set accepted)
      then (Inl UnsupportedMediaType, b)
      else case declared_length rq of
        Inl e \<Rightarrow> (Inl e, b)
      | Inr declared \<Rightarrow>
          if (case declared of None \<Rightarrow> False | Some n \<Rightarrow> bb_max_body_bytes b < n)
          then (Inl TooLarge, b)
          else let accounted = (case declared of None \<Rightarrow> 0 | Some n \<Rightarrow> n)
               in if accounted = 0 then (Inr \<lparr>br_permits = [], br_accounted = 0, br_buffer = []\<rparr>, b)
                  else case take_permits api accounted b of
                    None \<Rightarrow> (Inl BudgetExhausted, b)
                  | Some b \<Rightarrow>
                      (Inr \<lparr>br_permits = [as_u32 accounted], br_accounted = accounted, br_buffer = []\<rparr>, b))"

definition abandon_read ::
  "'sem semaphore_api \<Rightarrow> body_read_error \<Rightarrow> body_read \<Rightarrow> 'sem body_budget
     \<Rightarrow> (body_read_error + body_read) \<times> 'sem body_budget" where
  "abandon_read api e rd b = (Inl e, drop_permits api (br_permits rd) b)"

text \<open>One turn of the loop.\<close>

definition read_frame ::
  "'sem semaphore_api \<Rightarrow> body_frame \<Rightarrow> body_read \<Rightarrow> 'sem body_budget
     \<Rightarrow> (body_read_error + body_read) \<times> 'sem body_budget" where
  "read_frame api frame rd b =
     (case frame of
        BrokenFrame e \<Rightarrow> abandon_read api (ReadFailed e) rd b
      | OtherFrame \<Rightarrow> (Inr rd, b)
      | DataFrame data \<Rightarrow>
          let new_length = length (br_buffer rd) + length data
          in if 2 ^ 64 \<le> new_length then abandon_read api TooLarge rd b
             else if bb_max_body_bytes b < new_length then abandon_read api TooLarge rd b
             else if br_accounted rd < new_length
             then let extra = new_length - br_accounted rd
                  in case take_permits api extra b of
                       None \<Rightarrow> abandon_read api BudgetExhausted rd b
                     | Some b \<Rightarrow>
                         (Inr \<lparr>br_permits = br_permits rd @ [as_u32 extra], br_accounted = new_length,
                               br_buffer = br_buffer rd @ data\<rparr>, b)
             else (Inr (rd\<lparr>br_buffer := br_buffer rd @ data\<rparr>), b))"

fun read_frames ::
  "'sem semaphore_api \<Rightarrow> body_frame list \<Rightarrow> body_read \<Rightarrow> 'sem body_budget
     \<Rightarrow> (body_read_error + body_read) \<times> 'sem body_budget" where
  "read_frames api [] rd b = (Inr rd, b)"
| "read_frames api (f # fs) rd b =
     (case read_frame api f rd b of
        (Inl e, b) \<Rightarrow> (Inl e, b)
      | (Inr rd, b) \<Rightarrow> read_frames api fs rd b)"

definition finish_read :: "body_read \<Rightarrow> buffered_body" where
  "finish_read rd = \<lparr>bj_bytes = br_buffer rd, bj_permits = br_permits rd\<rparr>"

definition read_body ::
  "'sem semaphore_api \<Rightarrow> string list \<Rightarrow> body_request \<Rightarrow> 'sem body_budget
     \<Rightarrow> (body_read_error + buffered_body) \<times> 'sem body_budget" where
  "read_body api accepted rq b =
     (case begin_read api accepted rq b of
        (Inl e, b) \<Rightarrow> (Inl e, b)
      | (Inr rd, b) \<Rightarrow>
          (case read_frames api (rq_frames rq) rd b of
             (Inl e, b) \<Rightarrow> (Inl e, b)
           | (Inr rd, b) \<Rightarrow> (Inr (finish_read rd), b)))"

definition json_types :: "string list" where
  "json_types = [''application/json'']"

definition ndjson_types :: "string list" where
  "ndjson_types = [''application/x-ndjson'', ''application/ndjson'', ''application/jsonl'']"

definition read_json where
  "read_json api rq b = read_body api json_types rq b"

definition read_ndjson where
  "read_ndjson api rq b = read_body api ndjson_types rq b"


section \<open>Requests in flight\<close>

text \<open>
  Requests are read concurrently: every frame of every request is a step of its own.  A reading can
  be cancelled (its connection closes, or the request times out), and a body that was read is
  dropped when its handler ends.
\<close>

datatype connection = Reading "body_frame list" body_read | Buffered buffered_body | Closed

record 'sem ingest =
  in_budget :: "'sem body_budget"
  in_connections :: "connection list"

inductive ingest_step :: "'sem semaphore_api \<Rightarrow> 'sem ingest \<Rightarrow> 'sem ingest \<Rightarrow> bool" for api where
  arrive: "begin_read api accepted rq (in_budget s) = (Inr rd, b) \<Longrightarrow>
     ingest_step api s (s\<lparr>in_budget := b, in_connections := in_connections s @ [Reading (rq_frames rq) rd]\<rparr>)"
| refuse: "begin_read api accepted rq (in_budget s) = (Inl e, b) \<Longrightarrow>
     ingest_step api s (s\<lparr>in_budget := b\<rparr>)"
| receive: "i < length (in_connections s) \<Longrightarrow> in_connections s ! i = Reading (f # fs) rd \<Longrightarrow>
     read_frame api f rd (in_budget s) = (Inr rd', b) \<Longrightarrow>
     ingest_step api s (s\<lparr>in_budget := b, in_connections := (in_connections s)[i := Reading fs rd']\<rparr>)"
| reject: "i < length (in_connections s) \<Longrightarrow> in_connections s ! i = Reading (f # fs) rd \<Longrightarrow>
     read_frame api f rd (in_budget s) = (Inl e, b) \<Longrightarrow>
     ingest_step api s (s\<lparr>in_budget := b, in_connections := (in_connections s)[i := Closed]\<rparr>)"
| complete: "i < length (in_connections s) \<Longrightarrow> in_connections s ! i = Reading [] rd \<Longrightarrow>
     ingest_step api s (s\<lparr>in_connections := (in_connections s)[i := Buffered (finish_read rd)]\<rparr>)"
| cancel: "i < length (in_connections s) \<Longrightarrow> in_connections s ! i = Reading fs rd \<Longrightarrow>
     ingest_step api s (s\<lparr>in_budget := drop_permits api (br_permits rd) (in_budget s),
                          in_connections := (in_connections s)[i := Closed]\<rparr>)"
| discard: "i < length (in_connections s) \<Longrightarrow> in_connections s ! i = Buffered body \<Longrightarrow>
     ingest_step api s (s\<lparr>in_budget := drop_permits api (bj_permits body) (in_budget s),
                          in_connections := (in_connections s)[i := Closed]\<rparr>)"

inductive ingest_run :: "'sem semaphore_api \<Rightarrow> nat \<Rightarrow> nat \<Rightarrow> 'sem ingest \<Rightarrow> bool" for api capacity max_body where
  opened: "budget_new api capacity max_body = Inr b \<Longrightarrow>
     ingest_run api capacity max_body \<lparr>in_budget = b, in_connections = []\<rparr>"
| stepped: "ingest_run api capacity max_body s \<Longrightarrow> ingest_step api s t \<Longrightarrow> ingest_run api capacity max_body t"

end
