(* ===== verification/Collector.thy ===== *)
theory Collector
  imports Sharded CaptureNormalize IngestBudget
begin

text \<open>
  The Collector service (\<open>collector.rs\<close>): it reads a Capture, or a batch of them, within the body
  budget, normalises it, submits it to the sharded store and answers with a status and a JSON
  document.  An answer is the pair of both.  The axum router with its limits and timeouts, the
  build's version strings and the texts of errors are parameters or left out.
\<close>

section \<open>State and answers\<close>

record collector_config =
  cc_store :: store_config
  cc_store_shards :: nat
  cc_max_envelope_bytes :: nat
  cc_max_inflight_body_bytes :: nat
  cc_max_batch_records :: nat

text \<open>
  \<open>AppState\<close>, with what surrounds the service: the digests, the JSON parser and serialiser, and the
  texts of errors.
\<close>

record collector_env =
  ce_digest :: "string \<Rightarrow> string"
  ce_sha :: "string \<Rightarrow> string"
  ce_parse :: "string \<Rightarrow> json option"
  ce_ser :: "json \<Rightarrow> string"
  ce_message :: "submit_error \<Rightarrow> string"
  ce_show_error :: "wal_error \<Rightarrow> string"
  ce_version :: string
  ce_revision :: string

record 'sem collector =
  co_stores :: "writer list"
  co_max_envelope_bytes :: nat
  co_max_batch_records :: nat
  co_body_budget :: "'sem body_budget"

type_synonym http_answer = "nat \<times> json"

datatype collector_error = CollectorStore sharded_error | CollectorBudget budget_error

text \<open>\<open>serve\<close> up to the listener.\<close>

definition collector_open ::
  "'sem semaphore_api \<Rightarrow> (string \<Rightarrow> string) \<Rightarrow> (string \<Rightarrow> wal_error + capture_record) \<Rightarrow> string \<Rightarrow> collector_config
     \<Rightarrow> (nat \<Rightarrow> disk) \<Rightarrow> topology_file \<Rightarrow> collector_error + 'sem collector" where
  "collector_open api sha validate now cfg disks topology =
     (case open_sharded sha validate now (cc_store cfg) (cc_store_shards cfg) disks topology of
        Inl e \<Rightarrow> Inl (CollectorStore e)
      | Inr (stores, _) \<Rightarrow>
          (case budget_new api (cc_max_inflight_body_bytes cfg) (cc_max_envelope_bytes cfg) of
             Inl e \<Rightarrow> Inl (CollectorBudget e)
           | Inr budget \<Rightarrow>
               Inr \<lparr>co_stores = stores, co_max_envelope_bytes = cc_max_envelope_bytes cfg,
                    co_max_batch_records = cc_max_batch_records cfg, co_body_budget = budget\<rparr>))"

definition jnat :: "nat \<Rightarrow> json" where
  "jnat n = Number (PosInt (of_nat n))"

definition jopt :: "string option \<Rightarrow> json" where
  "jopt x = json_opt (map_option String x)"

definition refusal :: "string \<Rightarrow> (string \<times> json) list \<Rightarrow> json" where
  "refusal reason members = json_object ([(''ok'', Bool False), (''reason'', String reason)] @ members)"

definition submit_ack_json :: "submit_ack \<Rightarrow> json" where
  "submit_ack_json a =
     json_object
       [(''capture_id'', String (ack_capture_id a)), (''state'', String (ack_state a)),
        (''durable'', Bool (ack_durable a)), (''duplicate'', Bool (ack_duplicate a)),
        (''raw_sha256'', String (ack_raw_sha256 a)), (''segment_id'', jnat (ack_segment_id a)),
        (''offset'', jnat (ack_offset a)), (''length'', jnat (ack_length a))]"

definition body_error_response :: "body_read_error \<Rightarrow> http_answer" where
  "body_error_response e =
     (case e of
        UnsupportedMediaType \<Rightarrow> (415, refusal ''content_type'' [])
      | InvalidContentLength \<Rightarrow> (400, refusal ''content_length'' [])
      | TooLarge \<Rightarrow> (413, refusal ''body_limit'' [])
      | BudgetExhausted \<Rightarrow> (503, refusal ''body_budget'' [])
      | ReadFailed detail \<Rightarrow> (400, refusal ''body_read'' [(''detail'', String detail)]))"


section \<open>One Capture\<close>

definition accept_capture ::
  "collector_env \<Rightarrow> store_config \<Rightarrow> (nat \<Rightarrow> capture_record list \<Rightarrow> arrival list) \<Rightarrow> nat \<Rightarrow> string
     \<Rightarrow> writer list \<Rightarrow> http_answer \<times> writer list" where
  "accept_capture env cfg timing max_envelope_bytes body stores =
     (case normalize_capture (ce_sha env) (ce_parse env) (ce_ser env) body max_envelope_bytes of
        Inl error \<Rightarrow> ((400, refusal ''invalid_capture'' [(''detail'', String error)]), stores)
      | Inr record \<Rightarrow>
          (case sharded_submit (ce_digest env) (ce_sha env) cfg timing record stores of
             (Inr a, stores) \<Rightarrow>
               ((if ack_duplicate a then 200 else 202,
                 json_object [(''ok'', Bool True), (''durable'', Bool True),
                              (''duplicate'', Bool (ack_duplicate a)), (''capture'', submit_ack_json a)]), stores)
           | (Inl Conflict, stores) \<Rightarrow>
               ((409, refusal ''capture_id_conflict'' [(''detail'', String (ce_message env Conflict))]), stores)
           | (Inl Unavailable, stores) \<Rightarrow>
               ((503, refusal ''collector_unavailable'' [(''detail'', String (ce_message env Unavailable))]), stores)))"

text \<open>The body, and the permits it holds, live to the end of the handler.\<close>

definition with_body ::
  "'sem semaphore_api \<Rightarrow> (body_read_error + buffered_body) \<times> 'sem body_budget
     \<Rightarrow> (string \<Rightarrow> writer list \<Rightarrow> http_answer \<times> writer list) \<Rightarrow> 'sem collector \<Rightarrow> http_answer \<times> 'sem collector" where
  "with_body api read handler s =
     (case read of
        (Inl e, budget) \<Rightarrow> (body_error_response e, s\<lparr>co_body_budget := budget\<rparr>)
      | (Inr body, budget) \<Rightarrow>
          (case handler (bj_bytes body) (co_stores s) of
             (answer, stores) \<Rightarrow>
               (answer, s\<lparr>co_stores := stores, co_body_budget := drop_permits api (bj_permits body) budget\<rparr>)))"

definition capture_handler ::
  "'sem semaphore_api \<Rightarrow> collector_env \<Rightarrow> store_config \<Rightarrow> (nat \<Rightarrow> capture_record list \<Rightarrow> arrival list)
     \<Rightarrow> body_request \<Rightarrow> 'sem collector \<Rightarrow> http_answer \<times> 'sem collector" where
  "capture_handler api env cfg timing rq s =
     with_body api (read_json api rq (co_body_budget s))
       (accept_capture env cfg timing (co_max_envelope_bytes s)) s"


section \<open>A batch\<close>

definition batch_error :: "string \<Rightarrow> string \<Rightarrow> string \<Rightarrow> nat \<Rightarrow> json" where
  "batch_error capture_id message reason status =
     json_object
       [(''capture_id'', String capture_id), (''ok'', Bool False), (''durable'', Bool False),
        (''reason'', String reason), (''http_status'', jnat status), (''detail'', String message)]"

definition batch_line ::
  "collector_env \<Rightarrow> nat \<Rightarrow> nat \<Rightarrow> nat \<times> string \<Rightarrow> capture_record list \<Rightarrow> http_answer + capture_record list" where
  "batch_line env max_envelope_bytes max_batch_records il records =
     (let raw = strip_cr (snd il)
      in if list_all is_ascii_whitespace raw then Inr records
         else if max_batch_records \<le> length records
         then Inl (413, refusal ''batch_record_limit'' [(''maximum'', jnat max_batch_records)])
         else case normalize_capture (ce_sha env) (ce_parse env) (ce_ser env) raw max_envelope_bytes of
                Inr record \<Rightarrow> Inr (records @ [record])
              | Inl error \<Rightarrow>
                  Inl (400, refusal ''invalid_capture''
                              [(''line'', jnat (fst il + 1)), (''detail'', String error)]))"

definition batch_records_of ::
  "collector_env \<Rightarrow> nat \<Rightarrow> nat \<Rightarrow> string \<Rightarrow> http_answer + capture_record list" where
  "batch_records_of env max_envelope_bytes max_batch_records body =
     rbind (try_fold (batch_line env max_envelope_bytes max_batch_records)
              (enumerate 0 (split_char CHR 0x0A body)) []) (\<lambda>records.
     if records = [] then Inl (400, refusal ''empty_batch'' []) else Inr records)"

record batch_counts =
  bc_durable :: nat
  bc_duplicates :: nat
  bc_conflicts :: nat
  bc_unavailable :: nat

definition batch_outcome ::
  "collector_env \<Rightarrow> string \<times> (submit_error + submit_ack) \<Rightarrow> batch_counts \<times> json list \<Rightarrow> batch_counts \<times> json list" where
  "batch_outcome env r s =
     (case (r, s) of ((capture_id, result), (counts, outcomes)) \<Rightarrow>
        (case result of
           Inr a \<Rightarrow>
             (counts\<lparr>bc_durable := bc_durable counts + 1,
                     bc_duplicates := bc_duplicates counts + (if ack_duplicate a then 1 else 0)\<rparr>,
              outcomes @
                [json_object [(''capture_id'', String capture_id), (''ok'', Bool True), (''durable'', Bool True),
                              (''duplicate'', Bool (ack_duplicate a)), (''capture'', submit_ack_json a)]])
         | Inl Conflict \<Rightarrow>
             (counts\<lparr>bc_conflicts := bc_conflicts counts + 1\<rparr>,
              outcomes @ [batch_error capture_id (ce_message env Conflict) ''capture_id_conflict'' 409])
         | Inl Unavailable \<Rightarrow>
             (counts\<lparr>bc_unavailable := bc_unavailable counts + 1\<rparr>,
              outcomes @ [batch_error capture_id (ce_message env Unavailable) ''collector_unavailable'' 503])))"

definition batch_answer ::
  "collector_env \<Rightarrow> string list \<Rightarrow> (submit_error + submit_ack) list \<Rightarrow> http_answer" where
  "batch_answer env capture_ids results =
     (let (counts, outcomes) = fold (batch_outcome env) (zip capture_ids results)
            (\<lparr>bc_durable = 0, bc_duplicates = 0, bc_conflicts = 0, bc_unavailable = 0\<rparr>, []);
          total = length outcomes
      in (if bc_durable counts = total
          then if bc_duplicates counts = total then 200 else 202
          else 207,
          json_object
            [(''ok'', Bool (bc_durable counts = total)), (''durable'', Bool (bc_durable counts = total)),
             (''counts'', json_object
                [(''total'', jnat total), (''durable'', jnat (bc_durable counts)),
                 (''duplicates'', jnat (bc_duplicates counts)), (''conflicts'', jnat (bc_conflicts counts)),
                 (''unavailable'', jnat (bc_unavailable counts))]),
             (''results'', Array outcomes)]))"

definition accept_captures ::
  "collector_env \<Rightarrow> store_config \<Rightarrow> (nat \<Rightarrow> capture_record list \<Rightarrow> arrival list) \<Rightarrow> nat \<Rightarrow> nat \<Rightarrow> string
     \<Rightarrow> writer list \<Rightarrow> http_answer \<times> writer list" where
  "accept_captures env cfg timing max_envelope_bytes max_batch_records body stores =
     (case batch_records_of env max_envelope_bytes max_batch_records body of
        Inl answer \<Rightarrow> (answer, stores)
      | Inr records \<Rightarrow>
          (case submit_batch (ce_digest env) (ce_sha env) cfg timing records stores of
             (results, stores) \<Rightarrow> (batch_answer env (map cr_capture_id records) results, stores)))"

definition captures_handler ::
  "'sem semaphore_api \<Rightarrow> collector_env \<Rightarrow> store_config \<Rightarrow> (nat \<Rightarrow> capture_record list \<Rightarrow> arrival list)
     \<Rightarrow> body_request \<Rightarrow> 'sem collector \<Rightarrow> http_answer \<times> 'sem collector" where
  "captures_handler api env cfg timing rq s =
     with_body api (read_ndjson api rq (co_body_budget s))
       (accept_captures env cfg timing (co_max_envelope_bytes s) (co_max_batch_records s)) s"


section \<open>Health, audit and flush\<close>

definition store_health_json :: "store_health \<Rightarrow> json" where
  "store_health_json h =
     json_object
       [(''ok'', Bool (st_ok h)), (''ready'', Bool (st_ready h)), (''captures'', jnat (st_captures h)),
        (''attempts'', jnat (st_attempts h)), (''accepted_attempts'', jnat (st_accepted_attempts h)),
        (''duplicate_attempts'', jnat (st_duplicate_attempts h)), (''conflict_attempts'', jnat (st_conflict_attempts h)),
        (''rejected_attempts'', jnat (st_rejected_attempts h)), (''active_segment_id'', jnat (st_active_segment_id h)),
        (''active_segment_bytes'', jnat (st_active_segment_bytes h)),
        (''active_segment_records'', jnat (st_active_segment_records h)),
        (''sealed_segments'', jnat (st_sealed_segments h)), (''sealed_bytes'', jnat (st_sealed_bytes h)),
        (''queue_depth'', jnat (st_queue_depth h)), (''queue_capacity'', jnat (st_queue_capacity h)),
        (''recovery_records'', jnat (st_recovery_records h)), (''last_commit_at'', jopt (st_last_commit_at h)),
        (''last_error'', jopt (st_last_error h)), (''ledger_schema_version'', String ledger_schema_version)]"

definition shard_health_json :: "nat \<times> store_health \<Rightarrow> json" where
  "shard_health_json s = json_object [(''shard'', jnat (fst s)), (''store'', store_health_json (snd s))]"

definition sharded_health_json :: "sharded_health \<Rightarrow> json" where
  "sharded_health_json h =
     json_object
       [(''ok'', Bool (sh_ok h)), (''ready'', Bool (sh_ready h)), (''shard_count'', jnat (sh_shard_count h)),
        (''captures'', jnat (sh_captures h)), (''attempts'', jnat (sh_attempts h)),
        (''accepted_attempts'', jnat (sh_accepted_attempts h)), (''duplicate_attempts'', jnat (sh_duplicate_attempts h)),
        (''conflict_attempts'', jnat (sh_conflict_attempts h)), (''rejected_attempts'', jnat (sh_rejected_attempts h)),
        (''active_segment_bytes'', jnat (sh_active_segment_bytes h)),
        (''active_segment_records'', jnat (sh_active_segment_records h)),
        (''sealed_segments'', jnat (sh_sealed_segments h)), (''sealed_bytes'', jnat (sh_sealed_bytes h)),
        (''queue_depth'', jnat (sh_queue_depth h)), (''queue_capacity'', jnat (sh_queue_capacity h)),
        (''recovery_records'', jnat (sh_recovery_records h)), (''last_commit_at'', jopt (sh_last_commit_at h)),
        (''last_error'', jopt (sh_last_error h)), (''shards'', Array (map shard_health_json (sh_shards h)))]"

definition health_handler ::
  "'sem semaphore_api \<Rightarrow> collector_env \<Rightarrow> store_config \<Rightarrow> nat list \<Rightarrow> 'sem collector \<Rightarrow> http_answer" where
  "health_handler api env cfg depths s =
     (let health = sharded_health_of (ce_show_error env) cfg depths (co_stores s)
      in (if sh_ok health then 200 else 503,
          json_object
            [(''ok'', Bool (sh_ok health)),
             (''build'', json_object [(''version'', String (ce_version env)), (''revision'', String (ce_revision env))]),
             (''collector'', sharded_health_json health),
             (''http'', json_object
                [(''body_budget_capacity'', jnat (bb_capacity (co_body_budget s))),
                 (''body_budget_available'', jnat (budget_available api (co_body_budget s)))])]))"

definition runtime_shard_json :: "runtime_shard \<Rightarrow> json" where
  "runtime_shard_json s =
     json_object
       [(''shard'', jnat (ra_shard s)), (''captures'', jnat (ra_captures s)), (''attempts'', jnat (ra_attempts s)),
        (''classified_attempts'', jnat (ra_classified_attempts s)),
        (''attempt_conservation'', Bool (ra_attempt_conservation s))]"

definition runtime_audit_json :: "runtime_audit \<Rightarrow> json" where
  "runtime_audit_json a =
     json_object
       [(''ok'', Bool (ru_ok a)), (''mode'', String ''runtime_counters''), (''shard_count'', jnat (ru_shard_count a)),
        (''captures'', jnat (ru_captures a)), (''attempts'', jnat (ru_attempts a)),
        (''attempt_conservation'', Bool (ru_attempt_conservation a)),
        (''failures'', Array (map String (ru_failures a))), (''shards'', Array (map runtime_shard_json (ru_shards a)))]"

definition audit_handler :: "collector_env \<Rightarrow> store_config \<Rightarrow> nat list \<Rightarrow> 'sem collector \<Rightarrow> http_answer" where
  "audit_handler env cfg depths s =
     (let result = runtime_audit_json (runtime_audit_of (sharded_health_of (ce_show_error env) cfg depths (co_stores s)))
      in (if get_bool result ''ok'' = Some True then 200 else 500, result))"

definition segment_json :: "segment_metadata \<Rightarrow> json" where
  "segment_json m =
     json_object
       [(''segment_id'', jnat (sm_segment_id m)), (''path'', String (sm_path m)), (''state'', String (sm_state m)),
        (''bytes'', jnat (sm_bytes m)), (''records'', jnat (sm_records m)), (''created_at'', String (sm_created_at m)),
        (''sealed_at'', jopt (sm_sealed_at m)), (''sha256'', jopt (sm_sha256 m))]"

definition flush_handler :: "collector_env \<Rightarrow> string \<Rightarrow> 'sem collector \<Rightarrow> http_answer \<times> 'sem collector" where
  "flush_handler env now s =
     (case sharded_flush (ce_sha env) now (co_stores s) of
        (Inr segments, stores) \<Rightarrow>
          ((200, json_object
             [(''ok'', Bool True),
              (''sealed'', Bool (list_all (\<lambda>m. sm_state m = ''sealed'' \<or> sm_records m = 0) segments)),
              (''segments'', Array (map segment_json segments))]), s\<lparr>co_stores := stores\<rparr>)
      | (Inl e, stores) \<Rightarrow>
          ((503, refusal ''flush_failed'' [(''detail'', String (ce_show_error env e))]), s\<lparr>co_stores := stores\<rparr>))"

definition not_found :: http_answer where
  "not_found = (404, refusal ''not_found'' [])"

end
