(* ===== verification/CollectorTheorems.thy ===== *)
theory CollectorTheorems
  imports Collector RelayTheorems CaptureProperties
begin

text \<open>
  The Collector and the Relay's sender fit together: the Collector's answers are those of the
  abstract store, its receipts survive the JSON they travel in and are the ones the sender checks
  for, so a Capture that normalises to itself is marked delivered exactly when the Collector holds
  it; one that does not is retried for ever.
\<close>

section \<open>Receipts\<close>

text \<open>The numbers of a locator fit the words they are stored in, and segments count from one.\<close>

definition addressable :: "locator \<Rightarrow> bool" where
  "addressable l \<longleftrightarrow> 0 < lo_segment_id l \<and> lo_segment_id l < 2 ^ 64 \<and> lo_offset l + lo_length l < 2 ^ 64"

lemma submit_ack_of_json_object:
  "submit_ack_of_json (json_object kvs) =
     (let f = map_of (rev kvs)
      in ack_fields (f ''capture_id'') (f ''state'') (f ''durable'') (f ''duplicate'')
           (f ''raw_sha256'') (f ''segment_id'') (f ''offset'') (f ''length''))"
proof -
  obtain m where "json_object kvs = Object m" by (simp add: json_object_def)
  moreover from this have "tget m = map_of (rev kvs)" using jget_json_object [of kvs] by (simp add: fun_eq_iff)
  ultimately show ?thesis by (simp add: Let_def)
qed

lemma submit_ack_roundtrip:
  assumes "ack_segment_id a < 2 ^ 64" "ack_offset a < 2 ^ 64" "ack_length a < 2 ^ 64"
  shows "submit_ack_of_json (submit_ack_json a) = Some a"
  using assms by (simp add: submit_ack_json_def submit_ack_of_json_object ack_fields_def jnat_def u64_simps Let_def)

lemma submit_ack_json_wf: "wf_json (submit_ack_json a)"
  unfolding submit_ack_json_def by (rule wf_json_object) (auto simp: jnat_def)

lemma refusal_wf: "list_all wf_json (map snd members) \<Longrightarrow> wf_json (refusal reason members)"
  unfolding refusal_def by (rule wf_json_object) (auto simp: list_all_iff simp del: wf_json.simps(1))

text \<open>What an answer says of a Capture that is durable.\<close>

definition durable_answer :: "submit_ack \<Rightarrow> json \<Rightarrow> bool" where
  "durable_answer a v \<longleftrightarrow>
     get_bool v ''ok'' = Some True \<and> get_bool v ''durable'' = Some True \<and>
     get_bool v ''duplicate'' = Some (ack_duplicate a) \<and> jget v ''capture'' = Some (submit_ack_json a) \<and>
     jget v ''http_status'' = None"

definition row_of :: "locator \<Rightarrow> delivery_record \<Rightarrow> bool" where
  "row_of l r \<longleftrightarrow>
     lo_capture_id l = dr_capture_id r \<and> lo_raw_sha256 l = dr_raw_sha256 r \<and> unat (dr_bytes r) = lo_length l"

lemma verify_durable:
  assumes "durable_answer a v" "acknowledges l a" "addressable l" "row_of l r" "0 < lo_length l"
  shows "verify_collector_receipt r v = Inr a"
proof -
  from assms(2,3) have fits: "ack_segment_id a < 2 ^ 64" "ack_offset a < 2 ^ 64" "ack_length a < 2 ^ 64"
      "ack_segment_id a \<noteq> 0" "ack_offset a + ack_length a < 2 ^ 64"
    by (auto simp: acknowledges_def addressable_def ack_def)
  from assms(4,5) have "dr_bytes r \<noteq> 0" by (auto simp: row_of_def)
  moreover have "ack_capture_id a = dr_capture_id r" "ack_raw_sha256 a = dr_raw_sha256 r" "ack_length a = unat (dr_bytes r)"
      "ack_durable a" "(ack_state a, ack_duplicate a) \<in> {(''accepted'', False), (''duplicate'', True)}"
    using assms(2,4) by (auto simp: acknowledges_def row_of_def ack_def)
  ultimately show ?thesis
    using assms(1) submit_ack_roundtrip [OF fits(1-3)] fits(4,5)
    by (simp add: verify_collector_receipt_def durable_answer_def json_opt_def status_contradicts_def)
qed

lemma receipt_mismatch:
  assumes "durable_answer a v" "ack_raw_sha256 a \<noteq> dr_raw_sha256 r"
  shows "verify_collector_receipt r v = Inl ''Collector Capture receipt identity or SHA-256 mismatch''"
proof -
  obtain a' where "submit_ack_of_json (submit_ack_json a) = Some a'" "ack_raw_sha256 a' = ack_raw_sha256 a"
    by (simp add: submit_ack_json_def submit_ack_of_json_object ack_fields_def jnat_def Let_def)
  with assms show ?thesis by (simp add: verify_collector_receipt_def durable_answer_def json_opt_def)
qed


section \<open>One Capture\<close>

lemma shard_records_one:
  "shard_records digest n j [r] = (if shard_for digest n (cr_capture_id r) = j then [r] else [])"
  by (simp add: shard_records_def)

text \<open>Submitting one record is submitting a batch of one.\<close>

lemma sharded_submit_batch:
  assumes "faithful_timing timing" "stores \<noteq> []"
  shows "submit_batch digest sha cfg timing [r] stores
    = ([fst (sharded_submit digest sha cfg timing r stores)], snd (sharded_submit digest sha cfg timing r stores))"
proof -
  let ?n = "length stores" and ?j = "shard_for digest (length stores) (cr_capture_id r)"
  have j: "?j < ?n" using assms(2) by (simp add: shard_for_less)
  have "timing j [] = []" for j
  proof -
    from assms(1) have "map ar_command (timing j []) = map Submit []" unfolding faithful_timing_def by blast
    then show ?thesis by simp
  qed
  then have run: "writer_loop sha cfg True (timing j (shard_records digest ?n j [r])) s
      = (if j = ?j then writer_loop sha cfg True (timing j [r]) s else ([], True, s))" for j s
    by (auto simp: shard_records_one writer_loop.simps(1))
  have "map (\<lambda>j. snd (snd (if j = ?j then writer_loop sha cfg True (timing j [r]) (stores ! j) else ([], True, stores ! j)))) [0..<?n]
      = stores[?j := snd (snd (writer_loop sha cfg True (timing ?j [r]) (stores ! ?j)))]"
    by (rule nth_equalityI) (auto simp: nth_list_update)
  with j show ?thesis
    unfolding submit_batch_def sharded_submit_def Let_def run
    by (simp add: comp_def shard_records_def)
qed

lemma submit_one:
  assumes "stores_ok digest sha stores" "faithful_timing timing" "cr_sha256 r = sha (cr_canonical r)"
    and "sharded_submit digest sha cfg timing r stores = (x, stores')"
  shows "stores_ok digest sha stores'"
    and "spec_submit r (abs_sharded digest stores) = (abs_sharded digest stores', response x)" "x \<noteq> Inl Unavailable"
    and "x = Inr a \<Longrightarrow> \<exists>l. locator_of digest stores' (cr_capture_id r) = Some l \<and>
       matches_persisted_sha256 r (lo_raw_sha256 l) \<and> acknowledges l a"
proof -
  have "stores \<noteq> []" using assms(1) by (simp add: stores_ok_def)
  from sharded_submit_batch [OF assms(2) this, of digest sha cfg r] assms(4)
  have e: "submit_batch digest sha cfg timing [r] stores = ([x], stores')" by simp
  have v: "submits_valid sha timing [r]" using assms(2,3) by (simp add: submits_valid_def hashed_def no_alias_def)
  show "stores_ok digest sha stores'" by (rule sharded.keeps [OF assms(1) v e])
  have m: "(\<lambda>k. map_option lo_raw_sha256 (locator_of digest s k)) = abs_sharded digest s" for s
    by (simp add: abs_sharded_locator fun_eq_iff)
  show "spec_submit r (abs_sharded digest stores) = (abs_sharded digest stores', response x)" "x \<noteq> Inl Unavailable"
    using sharded.answered [OF assms(1) v e] by (auto simp: m split: prod.splits)
  show "x = Inr a \<Longrightarrow> \<exists>l. locator_of digest stores' (cr_capture_id r) = Some l \<and>
       matches_persisted_sha256 r (lo_raw_sha256 l) \<and> acknowledges l a"
    using sharded.acknowledged_hash [OF assms(1) v e, of 0 a] by auto
qed

text \<open>What a locator of the store names.\<close>

lemma locator_content:
  assumes "stores_ok digest sha stores" "locator_of digest stores k = Some l"
  obtains c where "sharded_read digest sha k stores = Inr c" "sha c = lo_raw_sha256 l" "lo_length l = length c + 1"
proof -
  let ?w = "wr_wal (stores ! shard_for digest (length stores) k)"
  have "0 < length stores" using assms(1) by (simp add: stores_ok_def)
  from shard_for_less [OF this] assms(1) have w: "wal_ok sha ?w" by (simp add: stores_ok_def writer_ok_def)
  from assms(2) have l: "tget (w_captures ?w) k = Some l" by (simp add: locator_of_def)
  from wal_ok_located [OF w l] obtain c where c: "wal_slice ?w l = Some (c @ [CHR 0x0A])" "sha c = lo_raw_sha256 l"
    by (auto simp: located_def)
  from c(1) have "lo_length l = length (c @ [CHR 0x0A])"
    by (auto simp: wal_slice_def bind_eq_Some_conv read_exact_def split: if_splits)
      (metis add_diff_cancel_left' length_append_singleton length_drop length_take min.absorb2 diff_le_mono)
  moreover have "sharded_read digest sha k stores = Inr c"
    using read_capture_slice [of ?w k l c sha] l c by (simp add: sharded_read_def)
  ultimately show thesis using that c(2) by simp
qed

lemma normalized_hash: "normalize_capture sha parse ser body m = Inr r \<Longrightarrow> cr_sha256 r = sha (cr_canonical r)"
  unfolding normalize_capture_def by (erule normalize_capture_steps) (metis capture_record.select_convs(3))

definition durable_json :: "submit_ack \<Rightarrow> json" where
  "durable_json a =
     json_object [(''ok'', Bool True), (''durable'', Bool True), (''duplicate'', Bool (ack_duplicate a)),
                  (''capture'', submit_ack_json a)]"

lemma durable_json_ok: "durable_answer a (durable_json a)" "wf_json (durable_json a)"
  unfolding durable_json_def durable_answer_def
  by (simp_all add: get_bool_def jget_json_object)
    (rule wf_json_object, auto simp: submit_ack_json_wf simp del: wf_json.simps(1))

abbreviation "env_stores_ok env stores \<equiv> stores_ok (ce_digest env) (ce_sha env) stores"

abbreviation "env_stored env stores \<equiv> abs_sharded (ce_digest env) stores"

lemma accept_capture_ok:
  assumes "env_stores_ok env stores" "faithful_timing timing"
    and "normalize_capture (ce_sha env) (ce_parse env) (ce_ser env) body m = Inr r"
    and "accept_capture env cfg timing m body stores = (answer, stores')"
  shows "env_stores_ok env stores'" "fst (spec_submit r (env_stored env stores)) = env_stored env stores'"
    and "snd (spec_submit r (env_stored env stores)) = Conflicted \<Longrightarrow>
       answer = (409, refusal ''capture_id_conflict'' [(''detail'', String (ce_message env Conflict))])"
    and "snd (spec_submit r (env_stored env stores)) \<noteq> Conflicted \<Longrightarrow>
       \<exists>a l. locator_of (ce_digest env) stores' (cr_capture_id r) = Some l \<and>
         matches_persisted_sha256 r (lo_raw_sha256 l) \<and> acknowledges l a \<and>
         answer = (if snd (spec_submit r (env_stored env stores)) = Duplicate then 200 else 202, durable_json a)"
proof -
  obtain x stores1 where s: "sharded_submit (ce_digest env) (ce_sha env) cfg timing r stores = (x, stores1)" by fastforce
  note one = submit_one [OF assms(1,2) normalized_hash [OF assms(3)] s]
  from assms(3,4) s one(3) have e: "stores' = stores1" and a:
    "x = Inl Conflict \<and> answer = (409, refusal ''capture_id_conflict'' [(''detail'', String (ce_message env Conflict))])
     \<or> (\<exists>a. x = Inr a \<and> answer = (if ack_duplicate a then 200 else 202, durable_json a))"
    by (auto simp: accept_capture_def durable_json_def split: sum.splits submit_error.splits)
  show "env_stores_ok env stores'" "fst (spec_submit r (env_stored env stores)) = env_stored env stores'"
    using one(1,2) e by simp_all
  show "snd (spec_submit r (env_stored env stores)) = Conflicted \<Longrightarrow>
       answer = (409, refusal ''capture_id_conflict'' [(''detail'', String (ce_message env Conflict))])"
    using one(2) a by (auto simp: response_def split: if_splits)
  assume n: "snd (spec_submit r (env_stored env stores)) \<noteq> Conflicted"
  with one(2) a obtain y where y: "x = Inr y" "answer = (if ack_duplicate y then 200 else 202, durable_json y)"
    by (auto simp: response_def)
  with one(2) have "ack_duplicate y \<longleftrightarrow> snd (spec_submit r (env_stored env stores)) = Duplicate"
    by (auto simp: response_def)
  with one(4) [OF y(1)] y(2) e show "\<exists>a l. locator_of (ce_digest env) stores' (cr_capture_id r) = Some l \<and>
         matches_persisted_sha256 r (lo_raw_sha256 l) \<and> acknowledges l a \<and>
         answer = (if snd (spec_submit r (env_stored env stores)) = Duplicate then 200 else 202, durable_json a)"
    by auto
qed

section \<open>The sender against the Collector\<close>

text \<open>What a request to the Collector answers, as the sender gets it.\<close>

definition wire_answer :: "collector_env \<Rightarrow> http_answer \<Rightarrow> http_result" where
  "wire_answer env answer = Response (fst answer) (ce_parse env (ce_ser env (snd answer)))"

definition collector_post ::
  "collector_env \<Rightarrow> store_config \<Rightarrow> (nat \<Rightarrow> capture_record list \<Rightarrow> arrival list) \<Rightarrow> nat \<Rightarrow> nat \<Rightarrow> writer list
     \<Rightarrow> string \<Rightarrow> string \<Rightarrow> http_result" where
  "collector_post env cfg timing max_envelope_bytes max_batch_records stores url body =
     wire_answer env
       (if suffix ''/captures'' url
        then fst (accept_captures env cfg timing max_envelope_bytes max_batch_records body stores)
        else if suffix ''/capture'' url then fst (accept_capture env cfg timing max_envelope_bytes body stores)
        else not_found)"

lemma collector_routes:
  "collector_post env cfg timing m n stores (collector_route rcfg ''/capture'') body
     = wire_answer env (fst (accept_capture env cfg timing m body stores))"
  "collector_post env cfg timing m n stores (collector_route rcfg ''/captures'') body
     = wire_answer env (fst (accept_captures env cfg timing m n body stores))"
proof -
  have "\<not> suffix ''/captures'' (x @ ''/capture'')" for x
  proof
    assume "suffix ''/captures'' (x @ ''/capture'')"
    then obtain y where "x @ ''/capture'' = y @ ''/captures''" by (auto simp: suffix_def)
    then have "last (x @ ''/capture'') = last (y @ ''/captures'')" by simp
    then show False by simp
  qed
  then show "collector_post env cfg timing m n stores (collector_route rcfg ''/capture'') body
     = wire_answer env (fst (accept_capture env cfg timing m body stores))"
    by (simp add: collector_post_def collector_route_def suffix_def)
qed (simp add: collector_post_def collector_route_def suffix_def)

lemma send_single_durable:
  assumes "json_codec (ce_parse env) (ce_ser env)"
    and "fst (accept_capture env cfg timing m body stores) = (status, durable_json a)" "is_success status"
  shows "send_single (collector_post env cfg timing m n stores) rcfg show_status r body
    = receipt_update rcfg r (durable_json a)"
proof -
  have "ce_parse env (ce_ser env (durable_json a)) = Some (durable_json a)"
    using assms(1) durable_json_ok(2) by (simp add: json_codec_def)
  with assms(2,3) show ?thesis by (simp add: send_single_def collector_routes wire_answer_def)
qed

lemma send_single_conflict:
  assumes "fst (fst (accept_capture env cfg timing m body stores)) = 409"
  shows "send_single (collector_post env cfg timing m n stores) rcfg show_status r body
    = conflict_update r (''remote HTTP '' @ show_status 409)"
  using assms by (simp add: send_single_def collector_routes wire_answer_def is_success_def http_delivery_failure_def)

text \<open>A codec that is short on the plain Capture, and a Collector with two empty shards.\<close>

definition short_ser :: "json \<Rightarrow> string" where
  "short_ser v = (if v = Object plain_capture then ''a'' else if v = Object plain_stored then ''b''
     else replicate (to_nat v + 2) (CHR ''1''))"

definition short_parse :: "string \<Rightarrow> json option" where
  "short_parse s = (if s = ''a'' then Some (Object plain_capture) else if s = ''b'' then Some (Object plain_stored)
     else if 2 \<le> length s \<and> wf_json (from_nat (length s - 2)) then Some (from_nat (length s - 2)) else None)"

lemma replicate_not_single [simp]: "replicate (Suc (Suc n)) x \<noteq> [y]" "[y] \<noteq> replicate (Suc (Suc n)) x"
  by simp_all

lemma short_codec: "json_codec short_parse short_ser"
proof -
  have "wf_json v" if "short_parse s = Some v" for s v
    using that plain_wf by (auto simp: short_parse_def simp del: wf_json.simps(1) split: if_splits)
  moreover have "short_parse (short_ser v) = Some v" if "wf_json v" for v
    using that by (simp add: short_parse_def short_ser_def del: wf_json.simps(1))
  ultimately show ?thesis by (simp add: json_codec_def)
qed

definition example_env :: collector_env where
  "example_env =
     \<lparr>ce_digest = example_digest_bytes, ce_sha = example_sha, ce_parse = short_parse, ce_ser = short_ser,
      ce_message = (\<lambda>_. ''rejected''), ce_show_error = (\<lambda>_. ''error''), ce_version = ''0'', ce_revision = ''unknown''\<rparr>"

lemma example_env_simps [simp]:
  "ce_digest example_env = example_digest_bytes" "ce_sha example_env = example_sha"
  "ce_parse example_env = short_parse" "ce_ser example_env = short_ser"
  by (simp_all add: example_env_def)

lemma plain_differ: "plain_capture \<noteq> plain_stored"
  by code_simp

lemma plain_short:
  obtains c where "normalize_capture example_sha short_parse short_ser ''a'' 2 = Inr c" "cr_capture_id c = ''cap-1''"
    "cr_canonical c = ''b''" "cr_sha256 c = ''b''"
proof -
  have ser: "short_ser (Object plain_capture) = ''a''" "short_ser (Object plain_stored) = ''b''"
    using plain_differ by (simp_all add: short_ser_def)
  from normalize_serialised [OF short_codec plain_wf(1) plain_id(1,2) plain_normal_form, where max_bytes = 2 and sha = example_sha] that
  show thesis unfolding plain_id(3) ser by (auto simp: normalize_capture_def example_sha_def)
qed

lemma example_stored:
  assumes "cr_canonical r = ''b''" "cr_capture_id r = ''cap-1''" "cr_sha256 r = ''b''"
    and "locator_of example_digest_bytes (snd (sharded_submit example_digest_bytes example_sha example_config example_timing r
          example_stores)) ''cap-1'' = Some l"
  shows "addressable l"
proof -
  have "w_captures (wr_wal (snd (snd (writer_loop example_sha example_config True [example_arrival True (Submit r)] example_writer))))
    = [(''cap-1'', \<lparr>lo_capture_id = ''cap-1'', lo_raw_sha256 = ''b'', lo_segment_id = 1, lo_offset = 0, lo_length = 2,
         lo_received_at = cr_received_at r, lo_model = cr_model r\<rparr>)]"
    using assms(1-3)
    by (simp add: writer_loop.simps example_arrival_def example_writer_def commit_batch_def commit_batch_inner_def
      empty_wal_def blank_wal_def classify_def classify_one_def append_pending_def append_one_def needs_rotation_def
      append_record_def commit_ledger_def commit_accepted_def record_attempt_def rotate_full_def example_config_def
      read_counters_def next_key_def Let_def)
  moreover have "shard_for example_digest_bytes 2 ''cap-1'' = 1"
    by (simp add: shard_for_def example_digest_bytes_def le_u64_def)
  ultimately show ?thesis
    using assms(2,4) by (simp add: locator_of_def sharded_submit_def example_stores_def example_timing_def Let_def numeral_2_eq_2)
      (auto simp: addressable_def)
qed

definition plain_row :: delivery_record where
  "plain_row = new_delivery \<lparr>lo_capture_id = ''cap-1'', lo_raw_sha256 = ''b'', lo_segment_id = 1, lo_offset = 0,
     lo_length = 2, lo_received_at = None, lo_model = None\<rparr>"



section \<open>A Capture that is never delivered\<close>

text \<open>Attempts of the sender one after the other, with what the Collector stored in between.\<close>

fun resend ::
  "collector_env \<Rightarrow> store_config \<Rightarrow> nat \<Rightarrow> nat \<Rightarrow> relay_config \<Rightarrow> (nat \<Rightarrow> string) \<Rightarrow> delivery_record \<Rightarrow> string
     \<Rightarrow> (nat \<Rightarrow> capture_record list \<Rightarrow> arrival list) list \<Rightarrow> writer list \<Rightarrow> delivery_update list" where
  "resend env cfg m n rcfg show_status r body [] stores = []"
| "resend env cfg m n rcfg show_status r body (timing # timings) stores =
     send_single (collector_post env cfg timing m n stores) rcfg show_status r body
       # resend env cfg m n rcfg show_status r body timings (snd (accept_capture env cfg timing m body stores))"

lemma mismatched_resend:
  assumes "json_codec (ce_parse env) (ce_ser env)"
    and "normalize_capture (ce_sha env) (ce_parse env) (ce_ser env) body m = Inr c" "cr_legacy_raw_sha256 c = None"
    and "dr_raw_sha256 r \<noteq> cr_sha256 c" "\<forall>timing \<in> set timings. faithful_timing timing"
    and "env_stores_ok env stores" "env_stored env stores (cr_capture_id c) \<in> {None, Some (cr_sha256 c)}"
  shows "\<forall>u \<in> set (resend env cfg m n rcfg show_status r body timings stores).
     u = retry_update rcfg r ''Collector Capture receipt identity or SHA-256 mismatch''"
  using assms(5-)
proof (induction timings arbitrary: stores)
  case (Cons timing timings)
  obtain answer stores' where e: "accept_capture env cfg timing m body stores = (answer, stores')" by fastforce
  from Cons.prems(1) have t: "faithful_timing timing" by simp
  note ok = accept_capture_ok [OF Cons.prems(2) t assms(2) e]
  have n: "snd (spec_submit c (env_stored env stores)) \<noteq> Conflicted"
    using Cons.prems(3) by (auto simp: spec_submit_def matches_persisted_sha256_def)
  from Cons.prems(3) have "env_stored env stores' (cr_capture_id c) \<in> {None, Some (cr_sha256 c)}"
    unfolding ok(2) [symmetric] by (auto simp: spec_submit_def split: option.splits)
  note ih = Cons.IH [OF _ ok(1) this]
  from ok(4) [OF n] obtain a l where a: "matches_persisted_sha256 c (lo_raw_sha256 l)" "acknowledges l a"
      "answer = (if snd (spec_submit c (env_stored env stores)) = Duplicate then 200 else 202, durable_json a)" by blast
  then have "ack_raw_sha256 a \<noteq> dr_raw_sha256 r"
    using assms(3,4) by (auto simp: matches_persisted_sha256_def acknowledges_def ack_def)
  from receipt_mismatch [OF durable_json_ok(1) this]
  have "receipt_update rcfg r (durable_json a)
      = retry_update rcfg r ''Collector Capture receipt identity or SHA-256 mismatch''"
    by (simp add: receipt_update_def)
  moreover have "is_success (fst answer)" using a(3) by (simp add: is_success_def)
  ultimately show ?case
    using send_single_durable [OF assms(1), of cfg timing m body stores "fst answer" a] a(3) e ih Cons.prems(1) by simp
qed simp



section \<open>The service as the abstract store\<close>

text \<open>
  The Collector refines the abstract store: a body that is not a valid Capture is refused with
  400 and changes nothing; a valid one is answered 202, 200 or 409 as submitting it to a map from ids
  to hashes would accept it, find it there, or find another payload, the answer says durable in just
  the first two cases, and the store is that map afterwards.
\<close>

theorem collector_serves_capture:
  assumes "env_stores_ok env stores" "faithful_timing timing"
    and "accept_capture env cfg timing m body stores = ((status, v), stores')"
  shows "case normalize_capture (ce_sha env) (ce_parse env) (ce_ser env) body m of
      Inl e \<Rightarrow> status = 400 \<and> stores' = stores
    | Inr r \<Rightarrow>
        (case spec_submit r (env_stored env stores) of (held, outcome) \<Rightarrow>
           env_stores_ok env stores' \<and> env_stored env stores' = held \<and>
           status = (case outcome of Accepted \<Rightarrow> 202 | Duplicate \<Rightarrow> 200 | Conflicted \<Rightarrow> 409) \<and>
           (get_bool v ''durable'' = Some True \<longleftrightarrow> outcome \<noteq> Conflicted))"
proof (cases "normalize_capture (ce_sha env) (ce_parse env) (ce_ser env) body m")
  case (Inl e)
  with assms(3) show ?thesis by (simp add: accept_capture_def)
next
  case (Inr r)
  note ok = accept_capture_ok [OF assms(1,2) Inr assms(3)]
  have "get_bool (refusal reason [(''detail'', d)]) ''durable'' = None" for reason d
    by (simp add: refusal_def get_bool_def jget_json_object)
  moreover have "get_bool (durable_json a) ''durable'' = Some True" for a
    using durable_json_ok(1) [of a] by (simp add: durable_answer_def)
  ultimately show ?thesis
    using ok Inr by (cases "snd (spec_submit r (env_stored env stores))") (auto split: prod.splits)
qed

lemma collector_serves_capture_witness:
  "\<exists>v stores'. accept_capture example_env example_config example_timing 2 ''a'' example_stores = ((202, v), stores') \<and>
     get_bool v ''durable'' = Some True"
proof -
  obtain c where c: "normalize_capture example_sha short_parse short_ser ''a'' 2 = Inr c" by (rule plain_short)
  obtain status v stores' where e:
    "accept_capture example_env example_config example_timing 2 ''a'' example_stores = ((status, v), stores')"
    by (metis surj_pair)
  have "env_stores_ok example_env example_stores" by (simp add: example_stores_ok)
  from collector_serves_capture [OF this example_timing_ok e] c e
  show ?thesis by (simp add: example_unstored spec_submit_def)
qed

end
