(* ===== verification/BatchTheorems.thy ===== *)
theory BatchTheorems
  imports CollectorTheorems
begin

text \<open>
  Batches between the Relay and the Collector: the Collector answers every record of a batch once and
  its counts add up, and a batch of Captures is settled record by record as the Collector stored it.
\<close>

section \<open>The answer to a batch\<close>

definition outcome_json :: "collector_env \<Rightarrow> string \<times> (submit_error + submit_ack) \<Rightarrow> json" where
  "outcome_json env r =
     (case snd r of
        Inr a \<Rightarrow> json_object [(''capture_id'', String (fst r)), (''ok'', Bool True), (''durable'', Bool True),
                               (''duplicate'', Bool (ack_duplicate a)), (''capture'', submit_ack_json a)]
      | Inl Conflict \<Rightarrow> batch_error (fst r) (ce_message env Conflict) ''capture_id_conflict'' 409
      | Inl Unavailable \<Rightarrow> batch_error (fst r) (ce_message env Unavailable) ''collector_unavailable'' 503)"

fun is_durable :: "submit_error + submit_ack \<Rightarrow> bool" where
  "is_durable (Inr a) \<longleftrightarrow> True"
| "is_durable (Inl e) \<longleftrightarrow> False"

fun is_duplicate :: "submit_error + submit_ack \<Rightarrow> bool" where
  "is_duplicate (Inr a) \<longleftrightarrow> ack_duplicate a"
| "is_duplicate (Inl e) \<longleftrightarrow> False"

definition tally :: "('a \<Rightarrow> bool) \<Rightarrow> (string \<times> 'a) list \<Rightarrow> nat" where
  "tally P rs = length (filter (\<lambda>r. P (snd r)) rs)"

lemma tally_simps [simp]: "tally P [] = 0" "tally P (r # rs) = (if P (snd r) then 1 else 0) + tally P rs"
  by (simp_all add: tally_def)

lemma batch_outcomes:
  "fold (batch_outcome env) rs (c, os) =
     (\<lparr>bc_durable = bc_durable c + tally is_durable rs, bc_duplicates = bc_duplicates c + tally is_duplicate rs,
       bc_conflicts = bc_conflicts c + tally (\<lambda>x. x = Inl Conflict) rs,
       bc_unavailable = bc_unavailable c + tally (\<lambda>x. x = Inl Unavailable) rs\<rparr>, os @ map (outcome_json env) rs)"
proof (induction rs arbitrary: c os)
  case (Cons r rs)
  obtain i x where r: "r = (i, x)" by fastforce
  show ?case
  proof (cases x)
    case (Inl e)
    with r Cons.IH show ?thesis by (cases e) (simp_all add: batch_outcome_def outcome_json_def)
  next
    case (Inr a)
    with r Cons.IH show ?thesis by (simp add: batch_outcome_def outcome_json_def)
  qed
qed simp

lemma tally_partition:
  "tally is_durable rs + tally (\<lambda>x. x = Inl Conflict) rs + tally (\<lambda>x. x = Inl Unavailable) rs = length rs"
proof (induction rs)
  case (Cons r rs)
  then show ?case by (cases "snd r"; cases "projl (snd r)") auto
qed simp

lemma tally_le: "tally P rs \<le> length rs"
  by (simp add: tally_def)

lemma tally_all: "tally P rs = length rs \<longleftrightarrow> (\<forall>x \<in> set (map snd rs). P x)"
proof (induction rs)
  case (Cons r rs)
  then show ?case using tally_le [of P rs] by auto
qed simp

lemma batch_answer_eq:
  assumes "length ids = length results"
  shows "batch_answer env ids results =
    (let rs = zip ids results; total = length results
     in (if \<forall>x \<in> set results. is_durable x then if \<forall>x \<in> set results. is_duplicate x then 200 else 202 else 207,
         json_object
            [(''ok'', Bool (\<forall>x \<in> set results. is_durable x)), (''durable'', Bool (\<forall>x \<in> set results. is_durable x)),
             (''counts'', json_object
                [(''total'', jnat total), (''durable'', jnat (tally is_durable rs)),
                 (''duplicates'', jnat (tally is_duplicate rs)),
                 (''conflicts'', jnat (tally (\<lambda>x. x = Inl Conflict) rs)),
                 (''unavailable'', jnat (tally (\<lambda>x. x = Inl Unavailable) rs))]),
             (''results'', Array (map (outcome_json env) rs))]))"
proof -
  have "map snd (zip ids results) = results" using assms by simp
  then have all: "tally P (zip ids results) = length results \<longleftrightarrow> (\<forall>x \<in> set results. P x)" for P
    using tally_all [of P "zip ids results"] assms by simp
  show ?thesis
    unfolding batch_answer_def batch_outcomes
    using assms by (simp add: all Let_def)
qed

lemma hashed_records:
  assumes "batch_records_of env m n body = Inr records"
  shows "hashed (ce_sha env) records"
proof -
  have "hashed (ce_sha env) rs \<Longrightarrow> batch_line env m n il rs = Inr rs' \<Longrightarrow> hashed (ce_sha env) rs'" for il rs rs'
    by (auto simp: batch_line_def Let_def hashed_def normalized_hash split: if_splits sum.splits)
  moreover obtain rs where "try_fold (batch_line env m n) (enumerate 0 (split_char CHR 0x0A body)) [] = Inr rs" "records = rs"
    using assms by (auto simp: batch_records_of_def res_simps split: if_splits)
  ultimately show ?thesis
    using try_fold_invariant [of "batch_line env m n" _ "[]" rs "hashed (ce_sha env)"] by (simp add: hashed_def)
qed

lemma submit_records:
  assumes "env_stores_ok env stores" "faithful_timing timing" "hashed (ce_sha env) records" "no_alias records"
    and "submit_batch (ce_digest env) (ce_sha env) cfg timing records stores = (results, stores')"
  shows "env_stores_ok env stores'" "length results = length records" "Inl Unavailable \<notin> set results"
    and "spec_run records (env_stored env stores) = (env_stored env stores', map response results)"
    and "i < length records \<Longrightarrow> results ! i = Inr a \<Longrightarrow>
       \<exists>l. locator_of (ce_digest env) stores' (cr_capture_id (records ! i)) = Some l \<and>
         matches_persisted_sha256 (records ! i) (lo_raw_sha256 l) \<and> acknowledges l a"
proof -
  have v: "submits_valid (ce_sha env) timing records" using assms(2-4) by (simp add: submits_valid_def)
  have m: "(\<lambda>k. map_option lo_raw_sha256 (locator_of digest s k)) = abs_sharded digest s" for digest s
    by (simp add: abs_sharded_locator fun_eq_iff)
  show "env_stores_ok env stores'" by (rule sharded.keeps [OF assms(1) v assms(5)])
  show "length results = length records" by (rule sharded.answers_all [OF assms(1) v assms(5)])
  show "Inl Unavailable \<notin> set results"
    "spec_run records (env_stored env stores) = (env_stored env stores', map response results)"
    using sharded.answered [OF assms(1) v assms(5)] by (simp_all add: m)
  show "i < length records \<Longrightarrow> results ! i = Inr a \<Longrightarrow>
       \<exists>l. locator_of (ce_digest env) stores' (cr_capture_id (records ! i)) = Some l \<and>
         matches_persisted_sha256 (records ! i) (lo_raw_sha256 l) \<and> acknowledges l a"
    using sharded.acknowledged_hash [OF assms(1) v assms(5), of i a] by auto
qed

lemma response_cases:
  "x \<noteq> Inl Unavailable \<Longrightarrow> is_durable x \<longleftrightarrow> response x \<noteq> Conflicted"
  "x \<noteq> Inl Unavailable \<Longrightarrow> is_duplicate x \<longleftrightarrow> response x = Duplicate"
  "x \<noteq> Inl Unavailable \<Longrightarrow> x = Inl Conflict \<longleftrightarrow> response x = Conflicted"
  by (cases x; cases "projl x"; simp add: response_def)+

lemma tally_none: "(\<And>r. r \<in> set rs \<Longrightarrow> \<not> P (snd r)) \<Longrightarrow> tally P rs = 0"
  by (auto simp: tally_def filter_empty_conv)

text \<open>
  A batch that parses is answered record by record, in order, as the abstract store answers it, and
  never as unavailable; the counts of the answer add up to the records, and its status tells apart a
  batch with a conflict, one that was stored before, and one with something new.
\<close>

theorem batch_answered_exactly:
  assumes "env_stores_ok env stores" "faithful_timing timing"
    and "batch_records_of env m n body = Inr records" "no_alias records"
    and "accept_captures env cfg timing m n body stores = ((status, v), stores')"
  shows "\<exists>results durable conflicts.
     spec_run records (env_stored env stores) = (env_stored env stores', map response results) \<and>
     get_array v ''results'' = map (outcome_json env) (zip (map cr_capture_id records) results) \<and>
     pointer v [''counts'', ''durable''] = Some (jnat durable) \<and>
     pointer v [''counts'', ''conflicts''] = Some (jnat conflicts) \<and>
     pointer v [''counts'', ''unavailable''] = Some (jnat 0) \<and>
     durable + conflicts = length records \<and>
     conflicts = length (filter (\<lambda>x. response x = Conflicted) results) \<and>
     status = (if \<exists>x \<in> set results. response x = Conflicted then 207
               else if \<forall>x \<in> set results. response x = Duplicate then 200 else 202)"
proof -
  obtain results where r: "submit_batch (ce_digest env) (ce_sha env) cfg timing records stores = (results, stores')"
      "(status, v) = batch_answer env (map cr_capture_id records) results"
    using assms(3,5) by (auto simp: accept_captures_def split: prod.splits)
  note ok = submit_records [OF assms(1,2) hashed_records [OF assms(3)] assms(4) r(1)]
  let ?rs = "zip (map cr_capture_id records) results"
  have len: "length (map cr_capture_id records) = length results" using ok(2) by simp
  note answer = batch_answer_eq [OF len, of env, folded r(2)]
  have results: "snd p \<in> set results" if "p \<in> set ?rs" for p
    using that by (metis in_set_zipE prod.collapse)
  have none: "tally (\<lambda>x. x = Inl Unavailable) ?rs = 0" using results ok(3) by (intro tally_none) metis
  with tally_partition [of ?rs] ok(2) have sum: "tally is_durable ?rs + tally (\<lambda>x. x = Inl Conflict) ?rs = length records" by simp
  have "tally P ?rs = length (filter P results)" for P
  proof -
    have "tally P rs = length (filter P (map snd rs))" for rs :: "(string \<times> (submit_error + submit_ack)) list"
      by (induction rs) auto
    then have "tally P ?rs = length (filter P (map snd ?rs))" .
    then show ?thesis by (simp only: map_snd_zip [OF len])
  qed
  moreover have answered: "x \<noteq> Inl Unavailable" if "x \<in> set results" for x using that ok(3) by metis
  then have "filter (\<lambda>x. x = Inl Conflict) results = filter (\<lambda>x. response x = Conflicted) results"
    by (intro filter_cong) (simp_all add: response_cases(3))
  ultimately have conflicts: "tally (\<lambda>x. x = Inl Conflict) ?rs = length (filter (\<lambda>x. response x = Conflicted) results)" by simp
  have all: "(\<forall>x \<in> set results. is_durable x) \<longleftrightarrow> (\<forall>x \<in> set results. response x \<noteq> Conflicted)"
    "(\<forall>x \<in> set results. is_duplicate x) \<longleftrightarrow> (\<forall>x \<in> set results. response x = Duplicate)"
    using answered by (simp_all add: response_cases(1,2) cong: ball_cong)
  show ?thesis
    apply (rule exI [of _ results], rule exI [of _ "tally is_durable ?rs"], rule exI [of _ "tally (\<lambda>x. x = Inl Conflict) ?rs"])
    using answer ok(4) sum conflicts none all
    by (auto simp: Let_def get_array_def jget_json_object)
qed

lemma example_batch_records:
  obtains c where "batch_records_of example_env 2 4 ''b\<newline>'' = Inr [c]" "cr_capture_id c = ''cap-1''"
proof -
  obtain c where c: "normalize_capture example_sha short_parse short_ser ''a'' 2 = Inr c" "cr_capture_id c = ''cap-1''"
      "cr_canonical c = ''b''" "cr_sha256 c = ''b''" by (rule plain_short)
  have "jget (Object plain_stored) ''fieldEvidenceConflicts'' = Some (Array [])" by code_simp
  then have again: "normalize_capture example_sha short_parse short_ser ''b'' 2 = Inr (c\<lparr>cr_legacy_raw_sha256 := None\<rparr>)"
    using stored_renormalizes [OF c(1) [unfolded normalize_capture_def] short_codec, of "Object plain_stored"] c(3)
    by (simp add: normalize_capture_def short_parse_def)
  have "strip_cr ''b'' = ''b''" "strip_cr [] = []" "\<not> is_ascii_whitespace (CHR ''b'')"
    by (simp_all add: strip_cr_def is_ascii_whitespace_def)
  with again c(2) that show thesis by (simp add: batch_records_of_def batch_line_def)
qed

lemma batch_answered_exactly_witness:
  "\<exists>v stores' durable. accept_captures example_env example_config example_timing 2 4 ''b\<newline>'' example_stores = ((202, v), stores') \<and>
     pointer v [''counts'', ''durable''] = Some (jnat durable) \<and> durable = 1"
proof -
  obtain c where c: "batch_records_of example_env 2 4 ''b\<newline>'' = Inr [c]" "cr_capture_id c = ''cap-1''"
    by (rule example_batch_records)
  obtain status v stores' where e:
    "accept_captures example_env example_config example_timing 2 4 ''b\<newline>'' example_stores = ((status, v), stores')"
    by (metis surj_pair)
  have ok: "env_stores_ok example_env example_stores" "no_alias [c]" by (simp_all add: example_stores_ok no_alias_def)
  have "spec_run [c] (env_stored example_env example_stores) = ([cr_capture_id c \<mapsto> cr_sha256 c], [Accepted])"
    by (simp add: example_unstored spec_submit_def)
  with batch_answered_exactly [OF ok(1) example_timing_ok c(1) ok(2) e] e show ?thesis by (auto simp: Cons_eq_map_conv)
qed

section \<open>A batch of the sender\<close>

lemma split_char_line: "c \<notin> set b \<Longrightarrow> split_char c (b @ c # s) = b # split_char c s"
  by (induction b) auto

lemma split_char_lines:
  "\<forall>b \<in> set bs. c \<notin> set b \<Longrightarrow> split_char c (concat (map (\<lambda>b. b @ [c]) bs)) = bs @ [[]]"
  by (induction bs) (auto simp: split_char_line)

text \<open>A serialised object is one line of an NDJSON body.\<close>

definition line_safe :: "string \<Rightarrow> bool" where
  "line_safe body \<longleftrightarrow> CHR 0x0A \<notin> set body \<and> strip_cr body = body \<and> \<not> list_all is_ascii_whitespace body"

lemma batch_lines:
  assumes "\<forall>p \<in> set ps. line_safe (dp_body p) \<and>
      normalize_capture (ce_sha env) (ce_parse env) (ce_ser env) (dp_body p) m = Inr (f p)" "length rs + length ps \<le> n"
  shows "try_fold (batch_line env m n) (enumerate k (map dp_body ps)) rs = Inr (rs @ map f ps)"
  using assms
proof (induction ps arbitrary: k rs)
  case (Cons p ps)
  then have "batch_line env m n (k, dp_body p) rs = Inr (rs @ [f p])" by (simp add: batch_line_def line_safe_def)
  with Cons.IH [of "rs @ [f p]" "Suc k"] Cons.prems show ?case by simp
qed simp

lemma spec_run_distinct:
  "distinct (map cr_capture_id rs) \<Longrightarrow> i < length rs \<Longrightarrow> snd (spec_run rs m) ! i = snd (spec_submit (rs ! i) m)"
proof (induction rs arbitrary: m i)
  case (Cons r rs)
  obtain m1 o1 m2 os where s: "spec_submit r m = (m1, o1)" "spec_run rs m1 = (m2, os)" by fastforce
  show ?case
  proof (cases i)
    case (Suc j)
    with Cons.prems have "cr_capture_id (rs ! j) \<noteq> cr_capture_id r"
      using nth_mem [of j rs] by (auto simp del: nth_mem) (metis rev_image_eqI)
    with s(1) have "m1 (cr_capture_id (rs ! j)) = m (cr_capture_id (rs ! j))"
      by (auto simp: spec_submit_def split: option.splits)
    then have "snd (spec_submit (rs ! j) m1) = snd (spec_submit (rs ! j) m)" by (auto simp: spec_submit_def split: option.splits)
    with Cons.IH [of j m1] Cons.prems s Suc show ?thesis by simp
  qed (use s in simp)
qed simp

lemma outcome_fields:
  "get_str (outcome_json env (i, x)) ''capture_id'' = Some i"
  "durable_answer a (outcome_json env (i, Inr a))"
  "get_bool (outcome_json env (i, Inl Conflict)) ''ok'' = Some False"
  "get_bool (outcome_json env (i, Inl Conflict)) ''durable'' = Some False"
  "get_u64 (outcome_json env (i, Inl Conflict)) ''http_status'' = Some 409"
  by (auto simp: outcome_json_def batch_error_def get_str_def get_bool_def get_u64_def durable_answer_def jget_json_object jnat_def
      split: sum.split submit_error.split)

lemma outcome_wf: "wf_json (outcome_json env r)"
  unfolding outcome_json_def batch_error_def
  by (auto intro!: wf_json_object submit_ack_json_wf simp: jnat_def simp del: wf_json.simps(1)
      split: sum.split submit_error.split)

lemma batch_answer_wf:
  assumes "length ids = length results"
  shows "wf_json (snd (batch_answer env ids results))"
proof -
  have "wf_json (Array (map (outcome_json env) rs))" for rs by (auto simp: list_all_iff outcome_wf)
  then show ?thesis
    unfolding batch_answer_eq [OF assms] Let_def snd_conv
    by (auto intro!: wf_json_object simp: jnat_def simp del: wf_json.simps(1))
qed

lemma outcome_table:
  assumes "distinct (map fst rs)" "\<forall>r \<in> set rs. tget (fst s) (fst r) = None"
  shows "tget (fst (fold add_outcome (map (outcome_json env) rs) s)) i
      = (case map_of rs i of None \<Rightarrow> tget (fst s) i | Some x \<Rightarrow> Some (outcome_json env (i, x)))"
    and "snd (fold add_outcome (map (outcome_json env) rs) s) = snd s"
proof -
  have "tget (fst (fold add_outcome (map (outcome_json env) rs) s)) i
      = (case map_of rs i of None \<Rightarrow> tget (fst s) i | Some x \<Rightarrow> Some (outcome_json env (i, x)))
    \<and> snd (fold add_outcome (map (outcome_json env) rs) s) = snd s"
    using assms
  proof (induction rs arbitrary: s)
    case (Cons r rs)
    obtain j x where r: "r = (j, x)" by fastforce
    then have a: "add_outcome (outcome_json env r) s = (tput j (outcome_json env (j, x)) (fst s), snd s)"
      using Cons.prems(2) by (simp add: add_outcome_def outcome_fields(1))
    have "\<forall>q \<in> set rs. tget (fst (add_outcome (outcome_json env r) s)) (fst q) = None"
      unfolding a using Cons.prems r by (auto simp: image_iff)
    with Cons.IH [of "add_outcome (outcome_json env r) s"] Cons.prems(1) r a show ?case
      by (auto simp: image_iff split: option.splits dest!: map_of_SomeD)
  qed simp
  then show "tget (fst (fold add_outcome (map (outcome_json env) rs) s)) i
      = (case map_of rs i of None \<Rightarrow> tget (fst s) i | Some x \<Rightarrow> Some (outcome_json env (i, x)))"
    "snd (fold add_outcome (map (outcome_json env) rs) s) = snd s" by simp_all
qed

lemma item_updates:
  "tget by_id (dr_capture_id r) = Some (outcome_json env (i, Inr a)) \<Longrightarrow> dr_capture_id r \<notin> set amb \<Longrightarrow>
     item_update cfg txt by_id amb r = receipt_update cfg r (outcome_json env (i, Inr a))"
  "tget by_id (dr_capture_id r) = Some (outcome_json env (i, Inl Conflict)) \<Longrightarrow> dr_capture_id r \<notin> set amb \<Longrightarrow>
     item_update cfg txt by_id amb r = conflict_update r ''remote captureId conflict''"
  using outcome_fields(2) [of a env i] outcome_fields(3-5) [of env i]
  by (simp_all add: item_update_def durable_answer_def)

text \<open>A loaded delivery whose body the Relay normalised without an identity conflict, with its row.\<close>

definition relayed :: "collector_env \<Rightarrow> nat \<Rightarrow> delivery_payload \<Rightarrow> bool" where
  "relayed env m p \<longleftrightarrow>
     (\<exists>raw c v. normalize_capture (ce_sha env) (ce_parse env) (ce_ser env) raw m = Inr c \<and>
        ce_parse env (cr_canonical c) = Some v \<and> jget v ''fieldEvidenceConflicts'' = Some (Array []) \<and>
        dp_body p = cr_canonical c \<and> dr_capture_id (dp_record p) = cr_capture_id c \<and>
        dr_raw_sha256 (dp_record p) = cr_sha256 c \<and> unat (dr_bytes (dp_record p)) = length (cr_canonical c) + 1)"

definition renormalized :: "collector_env \<Rightarrow> nat \<Rightarrow> delivery_payload \<Rightarrow> capture_record" where
  "renormalized env m p = projr (normalize_capture (ce_sha env) (ce_parse env) (ce_ser env) (dp_body p) m)"

lemma relayed_renormalized:
  assumes "relayed env m p" "json_codec (ce_parse env) (ce_ser env)"
  shows "normalize_capture (ce_sha env) (ce_parse env) (ce_ser env) (dp_body p) m = Inr (renormalized env m p)"
    and "cr_canonical (renormalized env m p) = dp_body p" "cr_legacy_raw_sha256 (renormalized env m p) = None"
    and "cr_capture_id (renormalized env m p) = dr_capture_id (dp_record p)"
    and "cr_sha256 (renormalized env m p) = dr_raw_sha256 (dp_record p)"
    and "unat (dr_bytes (dp_record p)) = length (dp_body p) + 1"
proof -
  from assms(1) obtain raw c v where c: "normalize_capture (ce_sha env) (ce_parse env) (ce_ser env) raw m = Inr c"
    "ce_parse env (cr_canonical c) = Some v" "jget v ''fieldEvidenceConflicts'' = Some (Array [])"
    and p: "dp_body p = cr_canonical c" "dr_capture_id (dp_record p) = cr_capture_id c"
    "dr_raw_sha256 (dp_record p) = cr_sha256 c" "unat (dr_bytes (dp_record p)) = length (cr_canonical c) + 1"
    unfolding relayed_def by blast
  have "normalize_capture (ce_sha env) (ce_parse env) (ce_ser env) (dp_body p) m = Inr (c\<lparr>cr_legacy_raw_sha256 := None\<rparr>)"
    unfolding p(1) normalize_capture_def by (rule stored_renormalizes [OF c(1) [unfolded normalize_capture_def] assms(2) c(2,3)])
  with p show "normalize_capture (ce_sha env) (ce_parse env) (ce_ser env) (dp_body p) m = Inr (renormalized env m p)"
    "cr_canonical (renormalized env m p) = dp_body p" "cr_legacy_raw_sha256 (renormalized env m p) = None"
    "cr_capture_id (renormalized env m p) = dr_capture_id (dp_record p)"
    "cr_sha256 (renormalized env m p) = dr_raw_sha256 (dp_record p)"
    "unat (dr_bytes (dp_record p)) = length (dp_body p) + 1"
    by (simp_all add: renormalized_def)
qed

definition batch_body :: "delivery_payload list \<Rightarrow> string" where
  "batch_body batch = concat (map (\<lambda>p. dp_body p @ [CHR 0x0A]) batch)"

lemma batch_body_records:
  assumes "\<forall>p \<in> set batch. relayed env m p \<and> line_safe (dp_body p)" "json_codec (ce_parse env) (ce_ser env)"
    and "batch \<noteq> []" "length batch \<le> n"
  shows "batch_records_of env m n (batch_body batch) = Inr (map (renormalized env m) batch)"
proof -
  have "split_char CHR 0x0A (batch_body batch) = map dp_body batch @ [[]]"
    using split_char_lines [of "map dp_body batch" "CHR 0x0A"] assms(1) by (simp add: batch_body_def line_safe_def comp_def)
  moreover have "enumerate k (xs @ [[]]) = enumerate k xs @ [(k + length xs, [])]" for k and xs :: "string list"
    by (induction xs arbitrary: k) simp_all
  moreover have "batch_line env m n (k, []) rs = Inr rs" for k rs
    by (simp add: batch_line_def strip_cr_def)
  moreover have "try_fold (batch_line env m n) (enumerate 0 (map dp_body batch)) [] = Inr ([] @ map (renormalized env m) batch)"
    using assms relayed_renormalized(1) by (intro batch_lines) auto
  ultimately show ?thesis using assms(3) by (simp add: batch_records_of_def try_fold_append)
qed

lemma settled_item:
  assumes "env_stores_ok env stores'" "relayed env m p" "json_codec (ce_parse env) (ce_ser env)"
    and "\<forall>d. ce_sha env d = dr_raw_sha256 (dp_record p) \<longrightarrow> d = dp_body p"
    and "\<forall>l. locator_of (ce_digest env) stores' (dr_capture_id (dp_record p)) = Some l \<longrightarrow> addressable l"
    and "tget by_id (dr_capture_id (dp_record p)) = Some (outcome_json env (i, x))"
    and "case x of
        Inr a \<Rightarrow> \<exists>l. locator_of (ce_digest env) stores' (dr_capture_id (dp_record p)) = Some l \<and>
          lo_raw_sha256 l = dr_raw_sha256 (dp_record p) \<and> acknowledges l a
      | Inl e \<Rightarrow> e = Conflict \<and>
          env_stored env stores' (dr_capture_id (dp_record p)) \<notin> {None, Some (dr_raw_sha256 (dp_record p))}"
  shows "item_update rcfg txt by_id [] (dp_record p)
    = (if sharded_read (ce_digest env) (ce_sha env) (dr_capture_id (dp_record p)) stores' = Inr (dp_body p)
       then delivered_update (dp_record p) else conflict_update (dp_record p) ''remote captureId conflict'')"
proof (cases x)
  case (Inl e)
  with assms(7) obtain l where l: "locator_of (ce_digest env) stores' (dr_capture_id (dp_record p)) = Some l"
      "lo_raw_sha256 l \<noteq> dr_raw_sha256 (dp_record p)" and e: "e = Conflict"
    by (auto simp: abs_sharded_locator)
  have "dr_raw_sha256 (dp_record p) = ce_sha env (dp_body p)"
    using normalized_hash [OF relayed_renormalized(1) [OF assms(2,3)]] relayed_renormalized(2,5) [OF assms(2,3)] by simp
  with locator_content [OF assms(1) l(1)] l(2)
  have "sharded_read (ce_digest env) (ce_sha env) (dr_capture_id (dp_record p)) stores' \<noteq> Inr (dp_body p)" by force
  with item_updates(2) assms(6) Inl e show ?thesis by simp
next
  case (Inr a)
  with assms(7) obtain l where l: "locator_of (ce_digest env) stores' (dr_capture_id (dp_record p)) = Some l"
      "lo_raw_sha256 l = dr_raw_sha256 (dp_record p)" "acknowledges l a" by auto
  obtain d where d: "sharded_read (ce_digest env) (ce_sha env) (dr_capture_id (dp_record p)) stores' = Inr d"
      "ce_sha env d = lo_raw_sha256 l" "lo_length l = length d + 1"
    by (rule locator_content [OF assms(1) l(1)])
  with assms(4) l(2) have d': "d = dp_body p" by simp
  have "row_of l (dp_record p)"
    using locator_of_keyed [OF assms(1) l(1)] relayed_renormalized(6) [OF assms(2,3)] l(2) d(3) d' by (simp add: row_of_def)
  with verify_durable [OF outcome_fields(2) l(3), of "dp_record p"] assms(5) l(1) d(3)
  have "receipt_update rcfg (dp_record p) (outcome_json env (i, Inr a)) = delivered_update (dp_record p)"
    by (simp add: receipt_update_def)
  with item_updates(1) assms(6) Inr d(1) d' show ?thesis by simp
qed

lemma relayed_result:
  assumes "env_stores_ok env stores" "faithful_timing timing" "json_codec (ce_parse env) (ce_ser env)"
    and "\<forall>p \<in> set batch. relayed env m p" "distinct (map (\<lambda>p. dr_capture_id (dp_record p)) batch)"
    and "hashed (ce_sha env) (map (renormalized env m) batch)"
    and "submit_batch (ce_digest env) (ce_sha env) cfg timing (map (renormalized env m) batch) stores = (results, stores')"
    and "i < length batch"
  shows "case results ! i of
        Inr a \<Rightarrow> \<exists>l. locator_of (ce_digest env) stores' (dr_capture_id (dp_record (batch ! i))) = Some l \<and>
          lo_raw_sha256 l = dr_raw_sha256 (dp_record (batch ! i)) \<and> acknowledges l a
      | Inl e \<Rightarrow> e = Conflict \<and> env_stored env stores' (dr_capture_id (dp_record (batch ! i)))
          \<notin> {None, Some (dr_raw_sha256 (dp_record (batch ! i)))}"
proof -
  let ?p = "batch ! i" and ?cs = "map (renormalized env m) batch"
  let ?id = "dr_capture_id (dp_record ?p)" and ?h = "dr_raw_sha256 (dp_record ?p)"
  note f = relayed_renormalized [OF bspec [OF assms(4)] assms(3)]
  have p: "?p \<in> set batch" using assms(8) by simp
  have "no_alias ?cs" using f(3) by (simp add: no_alias_def list_all_iff)
  note ok = submit_records [OF assms(1,2,6) this assms(7)]
  have ids: "map cr_capture_id ?cs = map (\<lambda>p. dr_capture_id (dp_record p)) batch" using f(4) by simp
  have outcome: "response (results ! i) = snd (spec_submit (renormalized env m ?p) (env_stored env stores))"
    using spec_run_distinct [of ?cs i "env_stored env stores"] ok(2,4) assms(5) [folded ids] assms(8) by simp
  show ?thesis
  proof (cases "results ! i")
    case (Inl e)
    moreover have "results ! i \<noteq> Inl Unavailable" using ok(2,3) assms(8) by (metis length_map nth_mem)
    ultimately have "e = Conflict" by (cases e) auto
    moreover from Inl outcome have "env_stored env stores ?id \<notin> {None, Some ?h}"
      using f(3-5) [OF p] by (auto simp: response_def spec_submit_def matches_persisted_sha256_def split: option.splits if_splits)
    moreover from this spec_run_keeps [of "env_stored env stores" ?id _ ?cs] ok(4)
    have "env_stored env stores' ?id = env_stored env stores ?id" by auto
    ultimately show ?thesis using Inl by simp
  next
    case (Inr a)
    with ok(5) [of i a] assms(8) f(3-5) [OF p] show ?thesis by (auto simp: matches_persisted_sha256_def)
  qed
qed

lemma batch_delivered:
  assumes "env_stores_ok env stores" "faithful_timing timing" "json_codec (ce_parse env) (ce_ser env)"
    and "\<forall>p \<in> set batch. relayed env m p \<and> line_safe (dp_body p)"
    and "distinct (map (\<lambda>p. dr_capture_id (dp_record p)) batch)" "batch \<noteq> []" "length batch \<le> n"
    and "accept_captures env cfg timing m n (batch_body batch) stores = (answer, stores')"
  obtains results where
    "hashed (ce_sha env) (map (renormalized env m) batch)"
    "submit_batch (ce_digest env) (ce_sha env) cfg timing (map (renormalized env m) batch) stores = (results, stores')"
    "env_stores_ok env stores'" "length results = length batch" "fst answer \<in> {200, 202, 207}"
    "ce_parse env (ce_ser env (snd answer)) = Some (snd answer)"
    "get_array (snd answer) ''results''
       = map (outcome_json env) (zip (map (\<lambda>p. dr_capture_id (dp_record p)) batch) results)"
proof -
  let ?cs = "map (renormalized env m) batch" and ?ids = "map (\<lambda>p. dr_capture_id (dp_record p)) batch"
  note f = relayed_renormalized [OF conjunct1 [OF bspec [OF assms(4)]] assms(3)]
  note records = batch_body_records [OF assms(4,3,6,7)]
  have ids: "map cr_capture_id ?cs = ?ids" using f(4) by simp
  have plain: "no_alias ?cs" using f(3) by (simp add: no_alias_def list_all_iff)
  obtain results where r: "submit_batch (ce_digest env) (ce_sha env) cfg timing ?cs stores = (results, stores')"
      "answer = batch_answer env ?ids results"
    using assms(8) records ids by (auto simp: accept_captures_def simp del: map_map split: prod.splits)
  note hashed = hashed_records [OF records]
  note ok = submit_records [OF assms(1,2) hashed plain r(1)]
  have len: "length ?ids = length results" using ok(2) by simp
  note eq = batch_answer_eq [OF len, of env]
  have "get_array (snd answer) ''results'' = map (outcome_json env) (zip ?ids results)"
    "fst answer \<in> {200, 202, 207}"
    unfolding r(2) eq by (simp_all add: Let_def get_array_def jget_json_object)
  moreover have "ce_parse env (ce_ser env (snd answer)) = Some (snd answer)"
    using assms(3) batch_answer_wf [OF len] r(2) by (simp add: json_codec_def)
  ultimately show thesis using that [OF hashed r(1) ok(1)] len by simp
qed


definition plain_payload :: delivery_payload where
  "plain_payload = \<lparr>dp_record = plain_row, dp_body = ''b''\<rparr>"

lemma plain_relayed: "relayed example_env 2 plain_payload" "line_safe (dp_body plain_payload)"
proof -
  obtain c where c: "normalize_capture example_sha short_parse short_ser ''a'' 2 = Inr c" "cr_capture_id c = ''cap-1''"
      "cr_canonical c = ''b''" "cr_sha256 c = ''b''" by (rule plain_short)
  have "jget (Object plain_stored) ''fieldEvidenceConflicts'' = Some (Array [])" by code_simp
  with c show "relayed example_env 2 plain_payload"
    unfolding relayed_def
    by (intro exI [of _ "''a''"] exI [of _ c] exI [of _ "Object plain_stored"])
      (simp add: plain_payload_def plain_row_def new_delivery_def short_parse_def)
  show "line_safe (dp_body plain_payload)"
    by (simp add: line_safe_def plain_payload_def strip_cr_def is_ascii_whitespace_def)
qed


end
