(* ===== verification/RelayService.thy ===== *)
theory RelayService
  imports Relay Collector
begin

text \<open>
  The HTTP service of the Relay (\<open>relay.rs\<close>): ingest of Captures and of converted cloud batches, the
  operator routes, health and readiness.  Every handler is authorised first, then reads its body
  within the budget.  The conversion of a cloud payload is an argument (\<open>CloudIngest\<close> models it and
  \<open>CloudDurable\<close> puts the two together), as are the clock readings, the texts of errors and the digest of a quality archive.
\<close>

unbundle bit_operations_syntax

section \<open>State\<close>

record relay_env = collector_env +
  re_parse_error :: "string \<Rightarrow> string"
  re_show_relay :: "relay_error \<Rightarrow> string"
  re_show_delivery :: "delivery_error \<Rightarrow> string"
  re_show_quality :: "quality_error \<Rightarrow> string"
  re_quality_digest :: "quality_archive \<Rightarrow> string"

text \<open>\<open>RelayAppState\<close>.\<close>

record 'sem relay_service =
  rv_relay :: relay
  rv_coverage :: coverage_state
  rv_body_budget :: "'sem body_budget"

text \<open>The quality rows are in the delivery ledger's database.\<close>

definition relay_quality :: "'sem relay_service \<Rightarrow> quality_ledger" where
  "relay_quality s = dd_quality (rl_ledger (rv_relay s))"

definition put_quality :: "quality_ledger \<Rightarrow> 'sem relay_service \<Rightarrow> 'sem relay_service" where
  "put_quality l s = s\<lparr>rv_relay := (rv_relay s)\<lparr>rl_ledger := (rl_ledger (rv_relay s))\<lparr>dd_quality := l\<rparr>\<rparr>\<rparr>"

record relay_request = body_request +
  rq_authorization :: "string option option"

definition relay_service_open ::
  "'sem semaphore_api \<Rightarrow> relay_env \<Rightarrow> relay_config \<Rightarrow> string \<Rightarrow> relay
     \<Rightarrow> string + 'sem relay_service" where
  "relay_service_open api env rcfg at relay =
     (case rbind (quality_snapshot (re_quality_digest env) (dd_quality (rl_ledger relay)))
                 (\<lambda>(counters, archive). coverage_with_quality_snapshot at counters archive) of
        Inl e \<Rightarrow> Inl (re_show_quality env e)
      | Inr coverage \<Rightarrow>
          (case budget_new api (rc_max_inflight_body_bytes rcfg) (rc_max_envelope_bytes rcfg) of
             Inl e \<Rightarrow> Inl ''body budget must be >= max body bytes, and max body bytes must fit in u32''
           | Inr budget \<Rightarrow>
               Inr \<lparr>rv_relay = relay, rv_coverage = coverage, rv_body_budget = budget\<rparr>))"


section \<open>Authorisation\<close>

definition byte_at :: "string \<Rightarrow> nat \<Rightarrow> 8 word" where
  "byte_at s i = (if i < length s then of_char (s ! i) else 0)"

definition constant_time_equal :: "string \<Rightarrow> string \<Rightarrow> bool" where
  "constant_time_equal expected observed =
     (fold (\<lambda>i difference. difference OR ucast (byte_at expected i XOR byte_at observed i))
        [0..<max (length expected) (length observed)]
        (of_nat (length expected) XOR of_nat (length observed) :: u64) = 0)"

definition strip_prefix :: "string \<Rightarrow> string \<Rightarrow> string option" where
  "strip_prefix p s = (if prefix p s then Some (drop (length p) s) else None)"

definition ingest_authorized :: "relay_config \<Rightarrow> relay_request \<Rightarrow> bool" where
  "ingest_authorized rcfg rq =
     (case rc_ingest_bearer_token rcfg of
        None \<Rightarrow> True
      | Some expected \<Rightarrow>
          (case Option.bind (Option.bind (rq_authorization rq) id) (strip_prefix ''Bearer '') of
             None \<Rightarrow> False
           | Some observed \<Rightarrow> constant_time_equal expected observed))"

definition authorized ::
  "relay_config \<Rightarrow> relay_request \<Rightarrow> ('s \<Rightarrow> http_answer \<times> 's) \<Rightarrow> 's \<Rightarrow> http_answer \<times> 's" where
  "authorized rcfg rq handler s =
     (if \<not> ingest_authorized rcfg rq then ((401, refusal ''ingest_auth_required'' []), s) else handler s)"

definition relay_body_error_response :: "body_read_error \<Rightarrow> http_answer" where
  "relay_body_error_response e =
     (case e of
        UnsupportedMediaType \<Rightarrow> (415, refusal ''content_type'' [])
      | InvalidContentLength \<Rightarrow> (400, refusal ''content_length'' [])
      | TooLarge \<Rightarrow> (413, refusal ''body_limit'' [])
      | BudgetExhausted \<Rightarrow> (503, refusal ''body_budget'' [])
      | ReadFailed detail \<Rightarrow> (400, refusal ''body_read'' [(''detail'', String detail)]))"

definition relay_with_body ::
  "'sem semaphore_api \<Rightarrow> string list \<Rightarrow> relay_request
     \<Rightarrow> (string \<Rightarrow> 'sem relay_service \<Rightarrow> http_answer \<times> 'sem relay_service)
     \<Rightarrow> 'sem relay_service \<Rightarrow> http_answer \<times> 'sem relay_service" where
  "relay_with_body api accepted rq handler s =
     (case read_body api accepted (body_request.truncate rq) (rv_body_budget s) of
        (Inl e, budget) \<Rightarrow> (relay_body_error_response e, s\<lparr>rv_body_budget := budget\<rparr>)
      | (Inr body, budget) \<Rightarrow>
          (case handler (bj_bytes body) (s\<lparr>rv_body_budget := budget\<rparr>) of
             (answer, s) \<Rightarrow>
               (answer, s\<lparr>rv_body_budget := drop_permits api (bj_permits body) (rv_body_budget s)\<rparr>)))"

text \<open>A JSON body of an operator route.\<close>

definition with_json ::
  "relay_env \<Rightarrow> (json \<Rightarrow> 's \<Rightarrow> http_answer \<times> 's) \<Rightarrow> string \<Rightarrow> 's \<Rightarrow> http_answer \<times> 's" where
  "with_json env handler body s =
     (case ce_parse env body of
        None \<Rightarrow> ((400, refusal ''invalid_body'' [(''detail'', String (re_parse_error env body))]), s)
      | Some value \<Rightarrow> handler value s)"


section \<open>Captures\<close>

definition relay_accept_capture ::
  "relay_env \<Rightarrow> relay_config \<Rightarrow> (nat \<Rightarrow> capture_record list \<Rightarrow> arrival list) \<Rightarrow> u64 \<Rightarrow> string \<Rightarrow> string
     \<Rightarrow> 'sem relay_service \<Rightarrow> http_answer \<times> 'sem relay_service" where
  "relay_accept_capture env rcfg timing now at body s =
     (case normalize_wire_capture (ce_sha env) (ce_parse env) (ce_ser env) body (rc_max_envelope_bytes rcfg) of
        Inl error \<Rightarrow> ((400, refusal ''invalid_capture'' [(''detail'', String error)]), s)
      | Inr record \<Rightarrow>
          (case enqueue_record (ce_digest env) (ce_sha env) timing rcfg record (rv_relay s) of
             (Inr a, relay) \<Rightarrow>
               ((if ack_duplicate a then 200 else 202,
                 json_object
                   [(''ok'', Bool True), (''durable'', Bool True), (''local_durable'', Bool True),
                    (''duplicate'', Bool (ack_duplicate a)),
                    (''input_receipt'', json_object
                       [(''schema_version'', String ''chiptrace.capture-input-receipt.v1''),
                        (''bytes'', jnat (length body)), (''sha256'', String (ce_sha env body))]),
                    (''capture'', submit_ack_json a)]),
                s\<lparr>rv_relay := relay,
                  rv_coverage := observe_wire now at [(cr_wire_evidence record, ack_duplicate a)] (rv_coverage s)\<rparr>)
           | (Inl e, relay) \<Rightarrow>
               (if e = SubmitFailed Conflict then (409, refusal ''capture_id_conflict'' [])
                else (503, refusal ''relay_unavailable'' [(''detail'', String (re_show_relay env e))]),
                s\<lparr>rv_relay := relay\<rparr>)))"

definition relay_capture ::
  "'sem semaphore_api \<Rightarrow> relay_env \<Rightarrow> relay_config \<Rightarrow> (nat \<Rightarrow> capture_record list \<Rightarrow> arrival list) \<Rightarrow> u64 \<Rightarrow> string
     \<Rightarrow> relay_request \<Rightarrow> 'sem relay_service \<Rightarrow> http_answer \<times> 'sem relay_service" where
  "relay_capture api env rcfg timing now at rq =
     authorized rcfg rq (relay_with_body api json_types rq (relay_accept_capture env rcfg timing now at))"

text \<open>The acknowledged records with their evidence, beside the counts and outcomes.\<close>

definition relay_batch_outcome ::
  "relay_env \<Rightarrow> (string \<times> wire_evidence) \<times> (submit_error + submit_ack)
     \<Rightarrow> batch_counts \<times> (wire_evidence \<times> bool) list \<times> json list
     \<Rightarrow> batch_counts \<times> (wire_evidence \<times> bool) list \<times> json list" where
  "relay_batch_outcome env r s =
     (case (r, s) of (((capture_id, evidence), result), (counts, acknowledged, outcomes)) \<Rightarrow>
        (case result of
           Inr a \<Rightarrow>
             (counts\<lparr>bc_durable := bc_durable counts + 1,
                     bc_duplicates := bc_duplicates counts + (if ack_duplicate a then 1 else 0)\<rparr>,
              acknowledged @ [(evidence, ack_duplicate a)],
              outcomes @
                [json_object [(''capture_id'', String capture_id), (''ok'', Bool True), (''durable'', Bool True),
                              (''local_durable'', Bool True), (''duplicate'', Bool (ack_duplicate a)),
                              (''capture'', submit_ack_json a)]])
         | Inl Conflict \<Rightarrow>
             (counts\<lparr>bc_conflicts := bc_conflicts counts + 1\<rparr>, acknowledged,
              outcomes @ [batch_error capture_id (ce_message env Conflict) ''capture_id_conflict'' 409])
         | Inl Unavailable \<Rightarrow>
             (counts\<lparr>bc_unavailable := bc_unavailable counts + 1\<rparr>, acknowledged,
              outcomes @ [batch_error capture_id (ce_message env Unavailable) ''relay_unavailable'' 503])))"

definition relay_enqueue_batch ::
  "relay_env \<Rightarrow> relay_config \<Rightarrow> (nat \<Rightarrow> capture_record list \<Rightarrow> arrival list) \<Rightarrow> u64 \<Rightarrow> string
     \<Rightarrow> capture_record list \<Rightarrow> 'sem relay_service \<Rightarrow> http_answer \<times> 'sem relay_service" where
  "relay_enqueue_batch env rcfg timing now at records s =
     (case enqueue_batch (ce_digest env) (ce_sha env) timing rcfg records (rv_relay s) of
        (Inl e, relay) \<Rightarrow>
          ((503, refusal ''relay_unavailable'' [(''detail'', String (re_show_relay env e))]), s\<lparr>rv_relay := relay\<rparr>)
      | (Inr results, relay) \<Rightarrow>
          (case fold (relay_batch_outcome env)
                  (zip (map (\<lambda>r. (cr_capture_id r, cr_wire_evidence r)) records) results)
                  (\<lparr>bc_durable = 0, bc_duplicates = 0, bc_conflicts = 0, bc_unavailable = 0\<rparr>, [], []) of
             (counts, acknowledged, outcomes) \<Rightarrow>
               (let total = length outcomes
                in ((if bc_durable counts = total
                     then if bc_duplicates counts = total then 200 else 202
                     else 207,
                     json_object
                       [(''ok'', Bool (bc_durable counts = total)), (''durable'', Bool (bc_durable counts = total)),
                        (''local_durable'', Bool (bc_durable counts = total)),
                        (''counts'', json_object
                           [(''total'', jnat total), (''durable'', jnat (bc_durable counts)),
                            (''duplicates'', jnat (bc_duplicates counts)), (''conflicts'', jnat (bc_conflicts counts)),
                            (''unavailable'', jnat (bc_unavailable counts))]),
                        (''results'', Array outcomes)]),
                    s\<lparr>rv_relay := relay, rv_coverage := observe_wire now at acknowledged (rv_coverage s)\<rparr>))))"

definition relay_captures ::
  "'sem semaphore_api \<Rightarrow> relay_env \<Rightarrow> relay_config \<Rightarrow> (nat \<Rightarrow> capture_record list \<Rightarrow> arrival list) \<Rightarrow> u64 \<Rightarrow> string
     \<Rightarrow> relay_request \<Rightarrow> 'sem relay_service \<Rightarrow> http_answer \<times> 'sem relay_service" where
  "relay_captures api env rcfg timing now at rq =
     authorized rcfg rq (relay_with_body api ndjson_types rq (\<lambda>body s.
       case normalize_wire_capture_batch (ce_sha env) (ce_parse env) (ce_ser env) body
              (rc_max_envelope_bytes rcfg) (rc_max_batch_records rcfg) of
         Inl error \<Rightarrow> ((400, refusal ''invalid_capture_batch'' [(''detail'', String error)]), s)
       | Inr records \<Rightarrow> relay_enqueue_batch env rcfg timing now at records s))"


section \<open>Cloud batches\<close>

fun endpoint_name :: "cloud_endpoint \<Rightarrow> string" where
  "endpoint_name OtlpLogs = ''otlp_logs''"
| "endpoint_name OtlpTraces = ''otlp_traces''"
| "endpoint_name CodexHook = ''codex_hook''"

definition cloud_summary_json :: "cloud_summary \<Rightarrow> json" where
  "cloud_summary_json summary =
     json_object
       [(''endpoint'', String (cs_endpoint summary)), (''source_records'', jnum (cs_source_records summary)),
        (''derived_captures'', jnum (cs_derived_captures summary)),
        (''unknown_events'', jnum (cs_unknown_events summary)),
        (''attributed_quality_errors'', jnum (cs_attributed_quality_errors summary)),
        (''conversion_errors'', Array (map String (cs_conversion_errors summary)))]"

text \<open>The loop over the answers: the duplicates, the last conflict and the last unavailable record.\<close>

definition cloud_result ::
  "relay_env \<Rightarrow> string \<times> (submit_error + submit_ack) \<Rightarrow> u64 \<times> string option \<times> string option
     \<Rightarrow> u64 \<times> string option \<times> string option" where
  "cloud_result env r s =
     (case (r, s) of ((capture_id, result), (duplicates, conflict, unavailable)) \<Rightarrow>
        (case result of
           Inr a \<Rightarrow> (saturating_add duplicates (if ack_duplicate a then 1 else 0), conflict, unavailable)
         | Inl Conflict \<Rightarrow> (duplicates, Some capture_id, unavailable)
         | Inl Unavailable \<Rightarrow> (duplicates, conflict, Some (ce_message env Unavailable))))"

definition quality_rejections :: "cloud_summary \<Rightarrow> u64" where
  "quality_rejections summary = saturating_add (cs_unknown_events summary) (conversion_count summary)"

definition unattributed_quality_errors :: "cloud_summary \<Rightarrow> u64" where
  "unattributed_quality_errors summary =
     saturating_sub (quality_rejections summary) (cs_attributed_quality_errors summary)"

definition keep_cloud_quality ::
  "cloud_endpoint \<Rightarrow> cloud_summary \<Rightarrow> quality_ledger \<Rightarrow> quality_error + quality_ledger" where
  "keep_cloud_quality ep summary l =
     (if 0 < quality_rejections summary
      then rbind (record_quality ep (cs_unknown_events summary) (conversion_count summary)
                   (quality_error_reasons summary) l) (\<lambda>r. Inr (snd r))
      else Inr l)"

text \<open>What a batch that is durable and accounted for is answered.\<close>

definition cloud_answer :: "cloud_endpoint \<Rightarrow> cloud_summary \<Rightarrow> nat \<Rightarrow> u64 \<Rightarrow> http_answer" where
  "cloud_answer ep summary captures duplicates =
     (let rejections = quality_rejections summary;
          unattributed = unattributed_quality_errors summary;
          errors = join ''; '' (cs_conversion_errors summary);
          unknown = nat_dec (unat (cs_unknown_events summary))
      in if 0 < rejections \<and> (ep = CodexHook \<or> 0 < unattributed)
         then (400, json_object
           [(''ok'', Bool False), (''durable'', Bool True), (''local_durable'', Bool True),
            (''reason'', String ''cloud_ingest_quality_error''),
            (''detail'', String (if cs_conversion_errors summary = []
                                 then unknown @ '' unknown cloud event(s)'' else errors)),
            (''summary'', cloud_summary_json summary), (''unattributed_quality_errors'', jnum unattributed),
            (''captures'', jnat captures), (''duplicates'', jnum duplicates)])
         else (200, json_object
           [(''partialSuccess'', json_object
               [(''rejectedLogRecords'', jnum (if ep = OtlpLogs then rejections else 0)),
                (''rejectedSpans'', jnum (if ep = OtlpTraces then rejections else 0)),
                (''errorMessage'',
                   if 0 < rejections
                   then String (if cs_conversion_errors summary = []
                                then unknown @ '' unknown event(s) retained as Raw'' else errors)
                   else Null)]),
            (''chiptrace'', json_object
               [(''ok'', Bool True), (''durable'', Bool True), (''captures'', jnat captures),
                (''duplicates'', jnum duplicates), (''summary'', cloud_summary_json summary)])]))"

definition relay_accept_cloud ::
  "relay_env \<Rightarrow> relay_config \<Rightarrow> (nat \<Rightarrow> capture_record list \<Rightarrow> arrival list) \<Rightarrow> u64 \<Rightarrow> string \<Rightarrow> cloud_endpoint
     \<Rightarrow> string + capture_record list \<times> cloud_summary \<Rightarrow> 'sem relay_service
     \<Rightarrow> http_answer \<times> 'sem relay_service" where
  "relay_accept_cloud env rcfg timing now at ep prepared s =
     (case prepared of
        Inl error \<Rightarrow> ((400, refusal ''invalid_cloud_ingest'' [(''detail'', String error)]), s)
      | Inr (records, summary) \<Rightarrow>
          (case enqueue_batch (ce_digest env) (ce_sha env) timing rcfg records (rv_relay s) of
             (Inl e, relay) \<Rightarrow>
               ((503, refusal ''relay_unavailable'' [(''detail'', String (re_show_relay env e))]),
                s\<lparr>rv_relay := relay\<rparr>)
           | (Inr results, relay) \<Rightarrow>
               (let s = s\<lparr>rv_relay := relay\<rparr>
                in case fold (cloud_result env) (zip (map cr_capture_id records) results) (0, None, None) of
                  (duplicates, Some capture_id, unavailable) \<Rightarrow>
                    ((409, refusal ''capture_id_conflict'' [(''capture_id'', String capture_id)]), s)
                | (duplicates, None, Some detail) \<Rightarrow>
                    ((503, refusal ''relay_unavailable'' [(''detail'', String detail)]), s)
                | (duplicates, None, None) \<Rightarrow>
                    (case keep_cloud_quality ep summary (relay_quality s) of
                       Inl e \<Rightarrow> ((503, refusal ''quality_ledger_unavailable'' []), s)
                     | Inr quality \<Rightarrow>
                         (let (lifecycle_events, tool_executions) = derived_record_counts (ce_parse env) records
                          in (cloud_answer ep summary (length records) duplicates,
                              (put_quality quality s)
                                \<lparr>rv_coverage := observe_cloud now at ep summary (of_nat (length records)) duplicates
                                   lifecycle_events tool_executions (rv_coverage s)\<rparr>))))))"

definition relay_cloud_ingest ::
  "'sem semaphore_api \<Rightarrow> relay_env \<Rightarrow> relay_config \<Rightarrow> (nat \<Rightarrow> capture_record list \<Rightarrow> arrival list) \<Rightarrow> u64 \<Rightarrow> string
     \<Rightarrow> cloud_endpoint \<Rightarrow> (cloud_endpoint \<Rightarrow> string \<Rightarrow> nat \<Rightarrow> string + capture_record list \<times> cloud_summary)
     \<Rightarrow> relay_request \<Rightarrow> 'sem relay_service \<Rightarrow> http_answer \<times> 'sem relay_service" where
  "relay_cloud_ingest api env rcfg timing now at ep prepare rq =
     authorized rcfg rq (relay_with_body api json_types rq (\<lambda>body.
       relay_accept_cloud env rcfg timing now at ep (prepare ep body (rc_max_envelope_bytes rcfg))))"


section \<open>Operator routes\<close>

definition requested_ids :: "json \<Rightarrow> delivery_db \<Rightarrow> string list" where
  "requested_ids value db =
     (case Option.bind (jget value ''capture_ids'') as_array of
        Some items \<Rightarrow> List.map_filter as_str items
      | None \<Rightarrow>
          (let limit = (case get_u64 value ''limit'' of None \<Rightarrow> 100 | Some n \<Rightarrow> unat n)
           in failed_ids (min limit 10000) db))"

definition requeue_handler ::
  "relay_env \<Rightarrow> u64 \<Rightarrow> json \<Rightarrow> 'sem relay_service \<Rightarrow> http_answer \<times> 'sem relay_service" where
  "requeue_handler env now value s =
     (let requested = requested_ids value (rl_ledger (rv_relay s))
      in case requeue_failed now requested ''operator_requeue_failed'' (rl_ledger (rv_relay s)) of
           Inl e \<Rightarrow> ((500, refusal ''requeue_failed'' [(''detail'', String (re_show_delivery env e))]), s)
         | Inr (requeued, db) \<Rightarrow>
             ((200, json_object
                [(''ok'', Bool True), (''requested'', jnat (length requested)), (''requeued'', jnat (length requeued)),
                 (''capture_ids'', Array (map String requeued))]),
              s\<lparr>rv_relay := (rv_relay s)\<lparr>rl_ledger := db\<rparr>\<rparr>))"

definition relay_requeue_failed ::
  "'sem semaphore_api \<Rightarrow> relay_env \<Rightarrow> relay_config \<Rightarrow> u64 \<Rightarrow> relay_request
     \<Rightarrow> 'sem relay_service \<Rightarrow> http_answer \<times> 'sem relay_service" where
  "relay_requeue_failed api env rcfg now rq =
     authorized rcfg rq (relay_with_body api json_types rq (with_json env (requeue_handler env now)))"

text \<open>The live total, the archived total and the archive's id, and the view rebuilt from the ledger.\<close>

definition refresh_ingest_quality ::
  "relay_env \<Rightarrow> 'sem relay_service \<Rightarrow> quality_error + (u64 \<times> u64 \<times> string option) \<times> 'sem relay_service" where
  "refresh_ingest_quality env s =
     rbind (quality_snapshot (re_quality_digest env) (relay_quality s)) (\<lambda>(counters, archive).
     rbind (checked_total counters) (\<lambda>live.
     rbind (apply_quality_snapshot counters archive (rv_coverage s)) (\<lambda>coverage.
     Inr ((live, (case archive of None \<Rightarrow> 0 | Some a \<Rightarrow> qa_source_quality_errors a), map_option qa_archive_id archive),
          s\<lparr>rv_coverage := coverage\<rparr>))))"

definition quality_counters_json :: "quality_counters \<Rightarrow> json" where
  "quality_counters_json c =
     json_object
       [(''otlp_logs_unknown_events'', jnum (otlp_logs_unknown_events c)),
        (''otlp_logs_conversion_errors'', jnum (otlp_logs_conversion_errors c)),
        (''otlp_traces_unknown_events'', jnum (otlp_traces_unknown_events c)),
        (''otlp_traces_conversion_errors'', jnum (otlp_traces_conversion_errors c)),
        (''codex_hook_unknown_events'', jnum (codex_hook_unknown_events c)),
        (''codex_hook_conversion_errors'', jnum (codex_hook_conversion_errors c)),
        (''otlp_logs_quality_reasons'', reasons_json (otlp_logs_quality_reasons c)),
        (''otlp_traces_quality_reasons'', reasons_json (otlp_traces_quality_reasons c)),
        (''codex_hook_quality_reasons'', reasons_json (codex_hook_quality_reasons c))]"

definition quality_archive_json :: "quality_archive \<Rightarrow> json" where
  "quality_archive_json a =
     json_object
       [(''schema_version'', String (qa_schema_version a)), (''archive_id'', String (qa_archive_id a)),
        (''archived_at'', String (qa_archived_at a)), (''approved_by'', String (qa_approved_by a)),
        (''approval_note'', String (qa_approval_note a)),
        (''source_quality_errors'', jnum (qa_source_quality_errors a)),
        (''counters'', quality_counters_json (qa_counters a))]"

definition refreshed_members :: "u64 \<times> u64 \<times> string option \<Rightarrow> (string \<times> json) list" where
  "refreshed_members r =
     (case r of (live, archived, archive_id) \<Rightarrow>
        [(''quality_errors'', jnum live), (''quality_errors_archived_total'', jnum archived),
         (''quality_archive_id'', jopt archive_id)])"

definition quality_dry_run :: "relay_env \<Rightarrow> quality_ledger \<Rightarrow> http_answer" where
  "quality_dry_run env l =
     (case rbind (quality_snapshot (re_quality_digest env) l) (\<lambda>(counters, archive).
             rbind (checked_total counters) (\<lambda>errors. Inr (counters, archive, errors))) of
        Inl e \<Rightarrow> (500, refusal ''ledger_unavailable'' [(''detail'', String (re_show_quality env e))])
      | Inr (counters, archive, errors) \<Rightarrow>
          (200, json_object
             [(''ok'', Bool True), (''dry_run'', Bool True), (''source_quality_errors'', jnum errors),
              (''counters'', quality_counters_json counters), (''archive_exists'', Bool (archive \<noteq> None)),
              (''quality_archive'', json_opt (map_option (\<lambda>a. json_object
                 [(''archive_id'', String (qa_archive_id a)), (''archived_at'', String (qa_archived_at a)),
                  (''source_quality_errors'', jnum (qa_source_quality_errors a))]) archive))]))"

definition quality_archive_handler ::
  "relay_env \<Rightarrow> string \<Rightarrow> json \<Rightarrow> 'sem relay_service \<Rightarrow> http_answer \<times> 'sem relay_service" where
  "quality_archive_handler env at value s =
     (if get_bool value ''dry_run'' = Some True then (quality_dry_run env (relay_quality s), s)
      else case get_u64 value ''expected_total'' of
        None \<Rightarrow> ((400, refusal ''missing_expected_total'' []), s)
      | Some expected_total \<Rightarrow>
      (case get_str value ''approved_by'' of
        None \<Rightarrow> ((400, refusal ''missing_approved_by'' []), s)
      | Some approved_by \<Rightarrow>
      (case get_str value ''approval_note'' of
        None \<Rightarrow> ((400, refusal ''missing_approval_note'' []), s)
      | Some approval_note \<Rightarrow>
      (case archive_quality (re_quality_digest env) at expected_total approved_by approval_note (relay_quality s) of
        Inl e \<Rightarrow> ((409, refusal ''quality_archive_refused'' [(''detail'', String (re_show_quality env e))]), s)
      | Inr (archived, quality) \<Rightarrow>
          (let s = put_quality quality s
           in case refresh_ingest_quality env s of
                Inl e \<Rightarrow>
                  ((500, refusal ''quality_archive_refresh_failed'' [(''detail'', String (re_show_quality env e))]), s)
              | Inr (r, s) \<Rightarrow>
                  ((200, json_object ([(''ok'', Bool True)] @ refreshed_members r
                                      @ [(''archive'', quality_archive_json archived)])), s))))))"

definition relay_quality_archive ::
  "'sem semaphore_api \<Rightarrow> relay_env \<Rightarrow> relay_config \<Rightarrow> string \<Rightarrow> relay_request
     \<Rightarrow> 'sem relay_service \<Rightarrow> http_answer \<times> 'sem relay_service" where
  "relay_quality_archive api env rcfg at rq =
     authorized rcfg rq (relay_with_body api json_types rq (with_json env (quality_archive_handler env at)))"

definition quality_restore_handler ::
  "relay_env \<Rightarrow> json \<Rightarrow> 'sem relay_service \<Rightarrow> http_answer \<times> 'sem relay_service" where
  "quality_restore_handler env value s =
     (case get_str value ''archive_id'' of
        None \<Rightarrow> ((400, refusal ''missing_archive_id'' []), s)
      | Some archive_id \<Rightarrow>
      (case restore_quality (re_quality_digest env) archive_id (relay_quality s) of
        Inl e \<Rightarrow> ((409, refusal ''quality_restore_refused'' [(''detail'', String (re_show_quality env e))]), s)
      | Inr quality \<Rightarrow>
          (let s = put_quality quality s
           in case refresh_ingest_quality env s of
                Inl e \<Rightarrow>
                  ((500, refusal ''quality_restore_refresh_failed'' [(''detail'', String (re_show_quality env e))]), s)
              | Inr (r, s) \<Rightarrow>
                  ((200, json_object ([(''ok'', Bool True), (''restored'', Bool True)] @ refreshed_members r)), s))))"

definition relay_quality_archive_restore ::
  "'sem semaphore_api \<Rightarrow> relay_env \<Rightarrow> relay_config \<Rightarrow> relay_request
     \<Rightarrow> 'sem relay_service \<Rightarrow> http_answer \<times> 'sem relay_service" where
  "relay_quality_archive_restore api env rcfg rq =
     authorized rcfg rq (relay_with_body api json_types rq (with_json env (quality_restore_handler env)))"

definition relay_flush ::
  "relay_env \<Rightarrow> relay_config \<Rightarrow> string \<Rightarrow> relay_request \<Rightarrow> 'sem relay_service \<Rightarrow> http_answer \<times> 'sem relay_service" where
  "relay_flush env rcfg at rq =
     authorized rcfg rq (\<lambda>s.
       case sharded_flush (ce_sha env) at (rl_stores (rv_relay s)) of
         (result, stores) \<Rightarrow>
           ((case result of
               Inr segments \<Rightarrow>
                 (200, json_object
                    [(''ok'', Bool True),
                     (''sealed'', Bool (list_all (\<lambda>m. sm_state m = ''sealed'' \<or> sm_records m = 0) segments)),
                     (''segments'', Array (map segment_json segments))])
             | Inl e \<Rightarrow> (503, refusal ''flush_failed'' [(''detail'', String (ce_show_error env e))])),
            s\<lparr>rv_relay := (rv_relay s)\<lparr>rl_stores := stores\<rparr>\<rparr>))"


section \<open>Health and readiness\<close>

text \<open>\<open>depths\<close> are the queue lengths of the writers, \<open>free\<close> the permits left of the delivery budget.\<close>

definition relay_health_members ::
  "relay_env \<Rightarrow> relay_config \<Rightarrow> nat list \<Rightarrow> nat \<Rightarrow> relay \<Rightarrow> relay_health \<Rightarrow> (string \<times> json) list" where
  "relay_health_members env rcfg depths free s h =
     [(''ok'', Bool (rh_ok h)), (''status'', String (if rh_ok h then ''healthy'' else ''degraded'')),
      (''collector_url'', String (rc_collector_url rcfg)),
      (''local'', sharded_health_json (sharded_health_of (ce_show_error env) (rc_store rcfg) depths (rl_stores s))),
      (''delivery_records'', jnum (rh_delivery_records h)), (''pending'', jnum (rh_pending h)),
      (''inflight'', jnum (rh_inflight h)), (''delivered'', jnum (rh_delivered h)),
      (''conflicts'', jnum (rh_conflicts h)), (''failed'', jnum (rh_failed h)),
      (''delivery_attempts'', jnum (rh_delivery_attempts h)), (''delivery_retries'', jnum (rh_delivery_retries h)),
      (''queue_depth'', jnat (length (ds_queue (rl_schedule s)))),
      (''queue_capacity'', jnat (rc_delivery_queue_items rcfg)),
      (''delivery_body_budget_available'', jnat free),
      (''delivery_body_budget_capacity'', jnat (rc_max_delivery_inflight_bytes rcfg)),
      (''conservation_ok'', Bool (rh_conservation_ok h)), (''backlog_degraded'', Bool (rh_backlog_degraded h)),
      (''ingest_auth_required'', Bool (rc_ingest_bearer_token rcfg \<noteq> None))]"

definition build_member :: "relay_env \<Rightarrow> string \<times> json" where
  "build_member env =
     (''build'', json_object [(''version'', String (ce_version env)), (''revision'', String (ce_revision env))])"

definition relay_health_handler ::
  "'sem semaphore_api \<Rightarrow> relay_env \<Rightarrow> relay_config \<Rightarrow> nat list \<Rightarrow> nat \<Rightarrow> u64 \<Rightarrow> 'sem relay_service \<Rightarrow> http_answer" where
  "relay_health_handler api env rcfg depths free now s =
     (case relay_health_of (ce_show_error env) rcfg depths (rv_relay s) of
        Inl e \<Rightarrow> (500, refusal ''health_failed'' [(''detail'', String (re_show_delivery env e))])
      | Inr health \<Rightarrow>
          (if rh_ok health then 200 else 503,
           json_object
             (relay_health_members env rcfg depths free (rv_relay s) health
              @ [build_member env, (''body_budget_capacity'', jnat (bb_capacity (rv_body_budget s))),
                 (''body_budget_available'', jnat (budget_available api (rv_body_budget s))),
                 (''ingest_coverage'', snapshot_at now (rv_coverage s))])))"

definition relay_ready ::
  "relay_env \<Rightarrow> relay_config \<Rightarrow> nat list \<Rightarrow> nat \<Rightarrow> u64 \<Rightarrow> 'sem relay_service \<Rightarrow> http_answer" where
  "relay_ready env rcfg depths free now s =
     (case relay_health_of (ce_show_error env) rcfg depths (rv_relay s) of
        Inl e \<Rightarrow>
          (500, json_object
             [(''ok'', Bool False), (''ready'', Bool False), (''status'', String ''error''),
              (''blocking_reasons'', Array [String ''relay_health_failed'']),
              (''detail'', String (re_show_delivery env e))])
      | Inr health \<Rightarrow>
          (let coverage = snapshot_at now (rv_coverage s);
               blocking_reasons = readiness_blocking_reasons health coverage;
               is_ready = (blocking_reasons = [])
           in (if is_ready then 200 else 503,
               json_object
                 [(''ok'', Bool is_ready), (''ready'', Bool is_ready),
                  (''status'', String (if is_ready then ''ready'' else ''not_ready'')),
                  (''blocking_reasons'', Array (map String blocking_reasons)), build_member env,
                  (''relay'', json_object (relay_health_members env rcfg depths free (rv_relay s) health)),
                  (''ingest_coverage'', coverage)])))"

definition relay_not_found :: http_answer where
  "relay_not_found = (404, refusal ''not_found'' [])"

end
