(* ===== verification/BudgetTheorems.thy ===== *)
theory BudgetTheorems
  imports IngestBudget
begin

text \<open>
  Correctness of the body budget: however the frames of concurrent requests interleave, the permits
  in the semaphore and those held by the requests add up to the capacity, and no request buffers
  more than it holds permits for; a body is read exactly when the budget allows it; and a body
  whose length was declared cannot be refused half way.
\<close>

named_theorems budget_simps

section \<open>Permits\<close>

lemma semaphore_new: "semaphore_laws api \<Longrightarrow> sem_new api n = Some s \<Longrightarrow> sem_permits api s = n \<and> n \<le> max_permits"
  by (metis linorder_not_le option.distinct(1) semaphore_laws_def)

lemma semaphore_acquire:
  "semaphore_laws api \<Longrightarrow> sem_acquire api n s = Some t \<Longrightarrow> n \<le> sem_permits api s \<and> sem_permits api t = sem_permits api s - n"
  by (metis linorder_not_le option.distinct(1) semaphore_laws_def)

lemma semaphore_refuse: "semaphore_laws api \<Longrightarrow> sem_acquire api n s = None \<longleftrightarrow> sem_permits api s < n"
  by (simp add: semaphore_laws_def)

lemma semaphore_release:
  "semaphore_laws api \<Longrightarrow> sem_permits api s + n \<le> max_permits \<Longrightarrow> sem_permits api (sem_release api n s) = sem_permits api s + n"
  by (simp add: semaphore_laws_def)

lemma semaphore_release_all:
  "semaphore_laws api \<Longrightarrow> sem_permits api s + sum_list ps \<le> max_permits \<Longrightarrow>
     sem_permits api (fold (sem_release api) ps s) = sem_permits api s + sum_list ps"
  by (induction ps arbitrary: s) (auto simp: semaphore_release)

lemma as_u32_exact [budget_simps]: "n < 2 ^ 32 \<Longrightarrow> as_u32 n = n"
  by (simp add: as_u32_def)

text \<open>The permits of the semaphore and \<open>held\<close> permits outside make up the capacity.\<close>

definition budget_ok :: "'sem semaphore_api \<Rightarrow> nat \<Rightarrow> 'sem body_budget \<Rightarrow> bool" where
  "budget_ok api held b \<longleftrightarrow>
     budget_available api b + held = bb_capacity b \<and> bb_capacity b \<le> max_permits \<and>
     bb_max_body_bytes b \<le> bb_capacity b \<and> bb_max_body_bytes b < 2 ^ 32"

definition same_limits :: "'sem body_budget \<Rightarrow> 'sem body_budget \<Rightarrow> bool" where
  "same_limits b b' \<longleftrightarrow> bb_capacity b' = bb_capacity b \<and> bb_max_body_bytes b' = bb_max_body_bytes b"

lemma same_limits_refl [simp]: "same_limits b b"
  by (simp add: same_limits_def)

lemma drop_permits_limits [simp]: "same_limits b (drop_permits api ps b)"
  by (simp add: same_limits_def drop_permits_def)

lemma budget_new_ok:
  "semaphore_laws api \<Longrightarrow> budget_new api capacity max_body = Inr b \<Longrightarrow>
     budget_ok api 0 b \<and> bb_capacity b = capacity \<and> bb_max_body_bytes b = max_body"
  by (auto simp: budget_new_def budget_ok_def budget_available_def dest!: semaphore_new split: if_splits option.splits)

lemma drop_permits_ok:
  assumes "semaphore_laws api" "budget_ok api (held + sum_list ps) b"
  shows "budget_ok api held (drop_permits api ps b)"
  using assms semaphore_release_all [OF assms(1), of "bb_semaphore b" ps]
  by (simp add: budget_ok_def budget_available_def drop_permits_def)

lemma take_permits_ok:
  assumes "semaphore_laws api" "budget_ok api held b" "take_permits api n b = Some b'" "n < 2 ^ 32"
  shows "budget_ok api (held + n) b' \<and> same_limits b b'"
  using assms by (auto simp: budget_ok_def budget_available_def take_permits_def same_limits_def as_u32_exact dest!: semaphore_acquire)

lemma take_permits_None:
  "semaphore_laws api \<Longrightarrow> n < 2 ^ 32 \<Longrightarrow> take_permits api n b = None \<longleftrightarrow> budget_available api b < n"
  by (simp add: take_permits_def as_u32_exact semaphore_refuse budget_available_def)

section \<open>One request\<close>

text \<open>A reading holds permits for what it accounts for, which covers its buffer.\<close>

definition reading_ok :: "nat \<Rightarrow> body_read \<Rightarrow> bool" where
  "reading_ok max_body rd \<longleftrightarrow>
     sum_list (br_permits rd) = br_accounted rd \<and> length (br_buffer rd) \<le> br_accounted rd \<and> br_accounted rd \<le> max_body"

lemma declared_length_cases:
  obtains (none) "rq_content_length rq = None" "declared_length rq = Inr None"
  | (bad) "declared_length rq = Inl InvalidContentLength"
  | (length) n where "declared_length rq = Inr (Some n)"
  by (cases "rq_content_length rq"; cases "Option.bind (the (rq_content_length rq)) parse_u64")
    (auto simp: declared_length_def)

lemma begin_read_ok:
  assumes "semaphore_laws api" "budget_ok api held b" "begin_read api accepted rq b = (r, b')"
  shows "same_limits b b' \<and> (case r of Inl e \<Rightarrow> b' = b
    | Inr rd \<Rightarrow> reading_ok (bb_max_body_bytes b) rd \<and> budget_ok api (held + br_accounted rd) b')"
proof (cases "\<exists>n. declared_length rq = Inr (Some n) \<and> n \<noteq> 0 \<and> n \<le> bb_max_body_bytes b \<and> take_permits api n b \<noteq> None
    \<and> (\<exists>t \<in> set accepted. media_type rq = Some t)")
  case True
  then obtain n b'' where n: "declared_length rq = Inr (Some n)" "n \<noteq> 0" "n \<le> bb_max_body_bytes b"
      "take_permits api n b = Some b''" "\<exists>t \<in> set accepted. media_type rq = Some t" by blast
  with assms(2) have "n < 2 ^ 32" by (simp add: budget_ok_def)
  with assms n take_permits_ok [OF assms(1,2) n(4)] show ?thesis
    by (auto simp: begin_read_def reading_ok_def as_u32_exact)
next
  case False
  with assms(2,3) show ?thesis
    by (cases rule: declared_length_cases [of rq])
      (auto simp: begin_read_def reading_ok_def Let_def split: option.splits if_splits)
qed

lemma abandon_read_ok:
  assumes "semaphore_laws api" "budget_ok api (held + br_accounted rd) b" "reading_ok m rd"
    and "abandon_read api e rd b = (r, b')"
  shows "r = Inl e \<and> budget_ok api held b' \<and> same_limits b b'"
  using assms drop_permits_ok [OF assms(1), of held "br_permits rd" b]
  by (auto simp: abandon_read_def reading_ok_def)

lemma read_frame_ok:
  assumes "semaphore_laws api" "budget_ok api (held + br_accounted rd) b" "reading_ok (bb_max_body_bytes b) rd"
    and "read_frame api f rd b = (r, b')"
  shows "same_limits b b' \<and> (case r of Inl e \<Rightarrow> budget_ok api held b'
    | Inr rd' \<Rightarrow> reading_ok (bb_max_body_bytes b) rd' \<and> budget_ok api (held + br_accounted rd') b')"
proof (cases "\<exists>e. read_frame api f rd b = abandon_read api e rd b")
  case True
  with assms(4) show ?thesis using abandon_read_ok [OF assms(1-3)] by (metis (no_types, lifting) sum.case(1))
next
  case False
  show ?thesis
  proof (cases f)
    case (DataFrame data)
    let ?n = "length (br_buffer rd) + length data"
    show ?thesis
    proof (cases "br_accounted rd < ?n")
      case True
      with False DataFrame obtain b'' where t: "?n \<le> bb_max_body_bytes b" "take_permits api (?n - br_accounted rd) b = Some b''"
        by (auto simp: read_frame_def Let_def split: option.splits if_splits)
      with assms(2) have "?n - br_accounted rd < 2 ^ 32" unfolding budget_ok_def by linarith
      moreover from t(1) assms(2) have "\<not> 2 ^ 64 \<le> ?n" by (simp add: budget_ok_def)
      ultimately show ?thesis
        using t True DataFrame assms(3,4) take_permits_ok [OF assms(1,2) t(2)]
        by (auto simp: read_frame_def reading_ok_def as_u32_exact Let_def)
    next
      case other: False
      from False DataFrame have n: "?n \<le> bb_max_body_bytes b" "\<not> 2 ^ 64 \<le> ?n"
        by (auto simp: read_frame_def Let_def not_less split: if_splits)
      with other DataFrame assms(2-4) show ?thesis
        by (auto simp: read_frame_def reading_ok_def Let_def)
    qed
  next
    case OtherFrame
    with assms show ?thesis by (auto simp: read_frame_def)
  next
    case (BrokenFrame e)
    then have "read_frame api f rd b = abandon_read api (ReadFailed e) rd b" by (simp add: read_frame_def)
    with False show ?thesis by blast
  qed
qed

section \<open>Requests in flight\<close>

fun permits_held :: "connection \<Rightarrow> nat" where
  "permits_held (Reading fs rd) = sum_list (br_permits rd)"
| "permits_held (Buffered body) = sum_list (bj_permits body)"
| "permits_held Closed = 0"

fun buffered :: "connection \<Rightarrow> nat" where
  "buffered (Reading fs rd) = length (br_buffer rd)"
| "buffered (Buffered body) = length (bj_bytes body)"
| "buffered Closed = 0"

fun connection_ok :: "nat \<Rightarrow> connection \<Rightarrow> bool" where
  "connection_ok m (Reading fs rd) \<longleftrightarrow> reading_ok m rd"
| "connection_ok m (Buffered body) \<longleftrightarrow>
     length (bj_bytes body) \<le> sum_list (bj_permits body) \<and> sum_list (bj_permits body) \<le> m"
| "connection_ok m Closed \<longleftrightarrow> True"

definition ingest_ok :: "'sem semaphore_api \<Rightarrow> 'sem ingest \<Rightarrow> bool" where
  "ingest_ok api s \<longleftrightarrow>
     budget_ok api (sum_list (map permits_held (in_connections s))) (in_budget s) \<and>
     list_all (connection_ok (bb_max_body_bytes (in_budget s))) (in_connections s)"

lemma closed_hold_nothing: "list_all (\<lambda>c. c = Closed) cs \<Longrightarrow> sum_list (map permits_held cs) = 0"
  by (induction cs) auto

lemma connection_ok_bounds: "connection_ok m c \<Longrightarrow> buffered c \<le> permits_held c \<and> permits_held c \<le> m"
  by (cases c) (auto simp: reading_ok_def)

lemma sum_list_swap: "i < length xs \<Longrightarrow> \<exists>rest. sum_list (map f xs) = rest + f (xs ! i) \<and>
    (\<forall>c. sum_list (map f (xs[i := c])) = rest + (f c :: nat))"
  using elem_le_sum_list [of i "map f xs"]
  by (intro exI [of _ "sum_list (map f xs) - f (xs ! i)"]) (simp add: map_update sum_list_update)

text \<open>A step on one connection, seen from all the others.\<close>

lemma ingest_ok_update:
  assumes "ingest_ok api s" "i < length (in_connections s)"
    and "\<And>rest. budget_ok api (rest + permits_held (in_connections s ! i)) (in_budget s) \<Longrightarrow>
       budget_ok api (rest + permits_held c) b \<and> same_limits (in_budget s) b \<and> connection_ok (bb_max_body_bytes (in_budget s)) c"
  shows "ingest_ok api (s\<lparr>in_budget := b, in_connections := (in_connections s)[i := c]\<rparr>) \<and> same_limits (in_budget s) b"
proof -
  obtain rest where rest: "sum_list (map permits_held (in_connections s)) = rest + permits_held (in_connections s ! i)"
      "sum_list (map permits_held ((in_connections s)[i := c])) = rest + permits_held c"
    using sum_list_swap [OF assms(2), of permits_held] by blast
  with assms(1) assms(3) [of rest] have step: "budget_ok api (rest + permits_held c) b" "same_limits (in_budget s) b"
      "connection_ok (bb_max_body_bytes (in_budget s)) c"
    by (simp_all add: ingest_ok_def)
  with assms(1) have "list_all (connection_ok (bb_max_body_bytes (in_budget s))) ((in_connections s)[i := c])"
    by (auto simp: ingest_ok_def list_all_iff dest!: set_update_subset_insert [THEN subsetD])
  then show ?thesis using rest(2) step(1,2) by (simp add: ingest_ok_def same_limits_def)
qed

lemma ingest_ok_at:
  "ingest_ok api s \<Longrightarrow> i < length (in_connections s) \<Longrightarrow>
     connection_ok (bb_max_body_bytes (in_budget s)) (in_connections s ! i)"
  by (simp add: ingest_ok_def list_all_length)

lemma ingest_step_ok:
  assumes "ingest_step api s t" "semaphore_laws api" "ingest_ok api s"
  shows "ingest_ok api t \<and> same_limits (in_budget s) (in_budget t)"
  using assms
proof cases
  case (arrive accepted rq rd b)
  with assms(3) begin_read_ok [OF assms(2) _ arrive(2)] show ?thesis
    by (fastforce simp: ingest_ok_def same_limits_def reading_ok_def)
next
  case (refuse accepted rq e b)
  with assms(3) begin_read_ok [OF assms(2) _ refuse(2)] show ?thesis
    by (fastforce simp: ingest_ok_def)
next
  case (receive i f fs rd rd' b)
  from ingest_ok_at [OF assms(3) receive(2)] receive(3) have ok: "reading_ok (bb_max_body_bytes (in_budget s)) rd" by simp
  from ingest_ok_update [OF assms(3) receive(2), where b = b and c = "Reading fs rd'"]
    read_frame_ok [OF assms(2) _ ok receive(4)] ok receive(3)
  show ?thesis unfolding receive(1) by (simp add: reading_ok_def)
next
  case (reject i f fs rd e b)
  from ingest_ok_at [OF assms(3) reject(2)] reject(3) have ok: "reading_ok (bb_max_body_bytes (in_budget s)) rd" by simp
  from ingest_ok_update [OF assms(3) reject(2), where b = b and c = Closed]
    read_frame_ok [OF assms(2) _ ok reject(4)] ok reject(3)
  show ?thesis unfolding reject(1) by (simp add: reading_ok_def)
next
  case (complete i rd)
  from ingest_ok_at [OF assms(3) complete(2)] complete(3) have "reading_ok (bb_max_body_bytes (in_budget s)) rd" by simp
  with ingest_ok_update [OF assms(3) complete(2), where b = "in_budget s" and c = "Buffered (finish_read rd)"] complete(3)
  show ?thesis unfolding complete(1) by (simp add: reading_ok_def finish_read_def)
next
  case (cancel i fs rd)
  from ingest_ok_update [OF assms(3) cancel(2), where b = "drop_permits api (br_permits rd) (in_budget s)" and c = Closed]
    drop_permits_ok [OF assms(2), of _ "br_permits rd"] cancel(3)
  show ?thesis unfolding cancel(1) by simp
next
  case (discard i body)
  from ingest_ok_update [OF assms(3) discard(2), where b = "drop_permits api (bj_permits body) (in_budget s)" and c = Closed]
    drop_permits_ok [OF assms(2), of _ "bj_permits body"] discard(3)
  show ?thesis unfolding discard(1) by simp
qed

lemma ingest_run_ok:
  assumes "ingest_run api capacity max_body s" "semaphore_laws api"
  shows "ingest_ok api s \<and> bb_capacity (in_budget s) = capacity \<and> bb_max_body_bytes (in_budget s) = max_body"
  using assms(1)
proof induction
  case (opened b)
  with budget_new_ok [OF assms(2) opened] show ?case by (simp add: ingest_ok_def)
next
  case (stepped s t)
  with ingest_step_ok [OF stepped(2) assms(2)] show ?case by (simp add: same_limits_def)
qed

section \<open>When a body is read\<close>

fun frame_data :: "body_frame \<Rightarrow> string" where
  "frame_data (DataFrame data) = data"
| "frame_data _ = []"

fun frame_broken :: "body_frame \<Rightarrow> bool" where
  "frame_broken (BrokenFrame e) \<longleftrightarrow> True"
| "frame_broken _ \<longleftrightarrow> False"

definition body_data :: "body_frame list \<Rightarrow> string" where
  "body_data fs = concat (map frame_data fs)"

text \<open>What a reading may still buffer: what it accounts for and what the semaphore has left.\<close>

definition room :: "'sem semaphore_api \<Rightarrow> body_read \<Rightarrow> 'sem body_budget \<Rightarrow> nat" where
  "room api rd b = min (bb_max_body_bytes b) (budget_available api b + br_accounted rd)"

lemma room_stable:
  "budget_ok api (held + br_accounted rd) b \<Longrightarrow> budget_ok api (held + br_accounted rd') b' \<Longrightarrow> same_limits b b' \<Longrightarrow>
     room api rd' b' = room api rd b"
  by (simp add: budget_ok_def room_def same_limits_def) linarith

lemma read_frame_exact:
  fixes f :: body_frame
  assumes "semaphore_laws api" "budget_ok api (held + br_accounted rd) b" "reading_ok (bb_max_body_bytes b) rd"
  defines "n \<equiv> length (br_buffer rd) + length (frame_data f)"
  shows "if frame_broken f \<or> room api rd b < n then \<exists>e. read_frame api f rd b = abandon_read api e rd b
    else \<exists>rd' b'. read_frame api f rd b = (Inr rd', b') \<and> br_buffer rd' = br_buffer rd @ frame_data f \<and>
       br_accounted rd' = max (br_accounted rd) n"
proof (cases f)
  case (DataFrame data)
  from assms(2,3) have small: "bb_max_body_bytes b < 2 ^ 32" "br_accounted rd \<le> bb_max_body_bytes b"
    by (simp_all add: budget_ok_def reading_ok_def)
  show ?thesis
  proof (cases "n \<le> bb_max_body_bytes b")
    case True
    with small have "n - br_accounted rd < 2 ^ 32" "\<not> 2 ^ 64 \<le> n" by simp_all
    with True small DataFrame take_permits_None [OF assms(1) this(1), of b] show ?thesis
      by (cases "take_permits api (n - br_accounted rd) b") (auto simp: read_frame_def room_def n_def Let_def)
  next
    case False
    with DataFrame show ?thesis by (auto simp: read_frame_def room_def n_def Let_def)
  qed
qed (use assms(3) in \<open>auto simp: read_frame_def room_def reading_ok_def n_def\<close>)

lemma read_frames_exact:
  assumes "semaphore_laws api" "budget_ok api (held + br_accounted rd) b" "reading_ok (bb_max_body_bytes b) rd"
  shows "if list_ex frame_broken fs \<or> room api rd b < length (br_buffer rd) + length (body_data fs)
    then \<exists>e b'. read_frames api fs rd b = (Inl e, b') \<and> budget_ok api held b' \<and> same_limits b b'
    else \<exists>rd' b'. read_frames api fs rd b = (Inr rd', b') \<and> br_buffer rd' = br_buffer rd @ body_data fs \<and>
       br_accounted rd' = max (br_accounted rd) (length (br_buffer rd) + length (body_data fs)) \<and>
       reading_ok (bb_max_body_bytes b) rd' \<and> budget_ok api (held + br_accounted rd') b' \<and> same_limits b b'"
  using assms(2,3)
proof (induction fs arbitrary: rd b)
  case Nil
  then show ?case by (auto simp: body_data_def room_def reading_ok_def)
next
  case (Cons f fs)
  note exact = read_frame_exact [OF assms(1) Cons.prems, of f]
  show ?case
  proof (cases "frame_broken f \<or> room api rd b < length (br_buffer rd) + length (frame_data f)")
    case True
    with exact obtain e where "read_frame api f rd b = abandon_read api e rd b" by auto
    with True abandon_read_ok [OF assms(1) Cons.prems, of e] show ?thesis
      by (auto simp: body_data_def abandon_read_def)
  next
    case False
    with exact obtain rd' b' where rd': "read_frame api f rd b = (Inr rd', b')" "br_buffer rd' = br_buffer rd @ frame_data f"
        "br_accounted rd' = max (br_accounted rd) (length (br_buffer rd) + length (frame_data f))" by auto
    from read_frame_ok [OF assms(1) Cons.prems rd'(1)] have ok: "same_limits b b'" "reading_ok (bb_max_body_bytes b) rd'"
        "budget_ok api (held + br_accounted rd') b'" by auto
    then have "reading_ok (bb_max_body_bytes b') rd'" by (simp add: same_limits_def)
    from Cons.IH [OF ok(3) this] room_stable [OF Cons.prems(1) ok(3,1)] False ok(1) rd' show ?thesis
      by (auto simp: body_data_def same_limits_def max_def split: if_splits)
  qed
qed

lemma begin_read_media: "begin_read api accepted rq b = (Inr rd, b') \<Longrightarrow> \<exists>t \<in> set accepted. media_type rq = Some t"
  by (auto simp: begin_read_def split: option.splits if_splits)

lemma begin_read_declared:
  assumes "begin_read api accepted rq b = (Inr rd, b')"
  obtains d where "declared_length rq = Inr d" "br_accounted rd = (case d of None \<Rightarrow> 0 | Some n \<Rightarrow> n)"
    "br_accounted rd \<le> bb_max_body_bytes b" "br_buffer rd = []"
  using assms by (auto simp: begin_read_def Let_def split: option.splits if_splits sum.splits)

text \<open>The requests whose body is read, as the declared length and the data decide.\<close>

definition body_admitted :: "'sem semaphore_api \<Rightarrow> string list \<Rightarrow> body_request \<Rightarrow> 'sem body_budget \<Rightarrow> nat \<Rightarrow> bool" where
  "body_admitted api accepted rq b amount \<longleftrightarrow>
     (\<exists>t \<in> set accepted. media_type rq = Some t) \<and>
     (\<exists>d. declared_length rq = Inr d \<and>
        amount = max (case d of None \<Rightarrow> 0 | Some n \<Rightarrow> n) (length (body_data (rq_frames rq)))) \<and>
     amount \<le> bb_max_body_bytes b \<and> amount \<le> budget_available api b \<and> \<not> list_ex frame_broken (rq_frames rq)"

lemma begin_read_exact:
  assumes "semaphore_laws api" "budget_ok api held b" "media_type rq = Some t" "t \<in> set accepted"
    and "declared_length rq = Inr d"
  shows "(\<exists>rd b'. begin_read api accepted rq b = (Inr rd, b')) \<longleftrightarrow>
    (case d of None \<Rightarrow> 0 | Some n \<Rightarrow> n) \<le> min (bb_max_body_bytes b) (budget_available api b)"
proof (cases d)
  case None
  with assms(3-5) show ?thesis by (simp add: begin_read_def)
next
  case (Some n)
  from assms(2) have "n \<le> bb_max_body_bytes b \<Longrightarrow> n < 2 ^ 32" by (simp add: budget_ok_def)
  with Some assms(3-5) take_permits_None [OF assms(1), of n b] show ?thesis
    by (cases "take_permits api n b") (auto simp: begin_read_def)
qed

lemma begin_read_room:
  assumes "semaphore_laws api" "budget_ok api held b" "begin_read api accepted rq b = (Inr rd, b1)"
  shows "body_admitted api accepted rq b amount \<longleftrightarrow> \<not> list_ex frame_broken (rq_frames rq) \<and>
      length (body_data (rq_frames rq)) \<le> room api rd b1 \<and>
      amount = max (br_accounted rd) (length (body_data (rq_frames rq)))"
    and "br_buffer rd = []" "reading_ok (bb_max_body_bytes b1) rd" "budget_ok api (held + br_accounted rd) b1"
    and "same_limits b b1"
proof -
  from begin_read_media assms(3) have media: "\<exists>t \<in> set accepted. media_type rq = Some t" by blast
  from assms(3) obtain d where d: "declared_length rq = Inr d" "br_accounted rd = (case d of None \<Rightarrow> 0 | Some n \<Rightarrow> n)"
      "br_accounted rd \<le> bb_max_body_bytes b" "br_buffer rd = []"
    by (auto elim: begin_read_declared)
  from begin_read_ok [OF assms] have ok: "same_limits b b1" "reading_ok (bb_max_body_bytes b) rd"
      "budget_ok api (held + br_accounted rd) b1" by auto
  from ok(1,3) assms(2) have "room api rd b1 = min (bb_max_body_bytes b) (budget_available api b)"
      "br_accounted rd \<le> budget_available api b"
    by (simp_all add: room_def budget_ok_def same_limits_def) linarith+
  with media d show "body_admitted api accepted rq b amount \<longleftrightarrow> \<not> list_ex frame_broken (rq_frames rq) \<and>
      length (body_data (rq_frames rq)) \<le> room api rd b1 \<and>
      amount = max (br_accounted rd) (length (body_data (rq_frames rq)))"
    by (auto simp: body_admitted_def)
  from ok d(4) show "br_buffer rd = []" "reading_ok (bb_max_body_bytes b1) rd" "same_limits b b1"
    "budget_ok api (held + br_accounted rd) b1" by (simp_all add: same_limits_def)
qed

text \<open>
  C40: A body is read exactly when its type is accepted, its declared length is a number, no frame
  fails, and both the declared and the real length fit the limit and the permits left; the handler
  then gets exactly the bytes sent and holds permits for the longer of the two lengths, and a
  refusal gives back every permit.
\<close>

theorem body_read_exact:
  assumes "semaphore_laws api" "budget_ok api held b"
  shows "if \<exists>amount. body_admitted api accepted rq b amount
    then \<exists>body b'. read_body api accepted rq b = (Inr body, b') \<and> bj_bytes body = body_data (rq_frames rq) \<and>
       body_admitted api accepted rq b (sum_list (bj_permits body)) \<and>
       budget_available api b' = budget_available api b - sum_list (bj_permits body)
    else \<exists>e b'. read_body api accepted rq b = (Inl e, b') \<and> budget_available api b' = budget_available api b"
proof (cases "begin_read api accepted rq b")
  case (Pair r b1)
  show ?thesis
  proof (cases r)
    case (Inl e)
    with Pair begin_read_ok [OF assms Pair] have r: "read_body api accepted rq b = (Inl e, b)" by (simp add: read_body_def)
    have "\<not> body_admitted api accepted rq b amount" for amount
      using Inl Pair begin_read_exact [OF assms] by (fastforce simp: body_admitted_def)
    with r show ?thesis by simp
  next
    case (Inr rd)
    note start = begin_read_room [OF assms Pair [unfolded Inr]]
    note amount = start(1) and frames = read_frames_exact [OF assms(1) start(4,3), of "rq_frames rq"]
    let ?n = "length (body_data (rq_frames rq))"
    show ?thesis
    proof (cases "list_ex frame_broken (rq_frames rq) \<or> room api rd b1 < ?n")
      case True
      with frames start(2) obtain e b' where
          "read_frames api (rq_frames rq) rd b1 = (Inl e, b')" "budget_ok api held b'" "same_limits b1 b'" by auto
      with True amount Pair Inr start(5) assms(2) show ?thesis
        by (auto simp: read_body_def budget_ok_def same_limits_def)
    next
      case False
      with frames start(2) obtain rd' b' where rd':
          "read_frames api (rq_frames rq) rd b1 = (Inr rd', b')" "br_buffer rd' = body_data (rq_frames rq)"
          "br_accounted rd' = max (br_accounted rd) ?n" "reading_ok (bb_max_body_bytes b1) rd'"
          "budget_ok api (held + br_accounted rd') b'" "same_limits b1 b'" by auto
      from rd'(3,4) have permits: "sum_list (br_permits rd') = max (br_accounted rd) ?n" by (simp add: reading_ok_def)
      from rd'(3,5,6) start(5) assms(2) have "budget_available api b' = budget_available api b - max (br_accounted rd) ?n"
        by (auto simp: budget_ok_def same_limits_def)
      moreover from False amount have "body_admitted api accepted rq b (max (br_accounted rd) ?n)" by auto
      moreover have "read_body api accepted rq b = (Inr (finish_read rd'), b')"
        using Pair Inr rd'(1) by (simp add: read_body_def)
      ultimately show ?thesis using rd'(2) permits by (auto simp: finish_read_def)
    qed
  qed
qed

text \<open>A semaphore that is its count.\<close>

definition counting :: "nat semaphore_api" where
  "counting = \<lparr>sem_new = (\<lambda>n. if max_permits < n then None else Some n),
     sem_acquire = (\<lambda>n s. if s < n then None else Some (s - n)), sem_release = (\<lambda>n s. s + n), sem_permits = (\<lambda>s. s)\<rparr>"

lemma counting_laws: "semaphore_laws counting"
  by (auto simp: semaphore_laws_def counting_def)

definition small_budget :: "nat body_budget" where
  "small_budget = \<lparr>bb_semaphore = 16, bb_capacity = 16, bb_max_body_bytes = 16\<rparr>"

definition small_request :: body_request where
  "small_request = \<lparr>rq_content_type = Some (Some ''application/json; charset=utf-8''),
     rq_content_length = Some (Some ''4''), rq_frames = [DataFrame ''{}'', OtherFrame]\<rparr>"

lemma small_budget_ok: "budget_ok counting 0 small_budget" "budget_new counting 16 16 = Inr small_budget"
  by (simp_all add: budget_ok_def small_budget_def budget_available_def counting_def max_permits_def budget_new_def)

lemma small_request_read:
  "begin_read counting json_types small_request small_budget
     = (Inr \<lparr>br_permits = [4], br_accounted = 4, br_buffer = []\<rparr>, small_budget\<lparr>bb_semaphore := 12\<rparr>)"
  "declared_length small_request = Inr (Some 4)"
proof -
  have "media_type small_request = Some ''application/json''" by code_simp
  moreover show len: "declared_length small_request = Inr (Some 4)"
    by (simp add: declared_length_def small_request_def parse_u64_def is_digit_def digits_val_def digit_val_def less_eq_char_def)
  ultimately show "begin_read counting json_types small_request small_budget
     = (Inr \<lparr>br_permits = [4], br_accounted = 4, br_buffer = []\<rparr>, small_budget\<lparr>bb_semaphore := 12\<rparr>)"
    by (simp add: begin_read_def json_types_def take_permits_def as_u32_def counting_def small_budget_def)
qed

lemma body_read_exact_witness:
  "\<exists>body b'. read_body counting json_types small_request small_budget = (Inr body, b') \<and> bj_bytes body = ''{}''"
proof -
  have "media_type small_request = Some ''application/json''" by code_simp
  then have "body_admitted counting json_types small_request small_budget 4"
    by (simp add: body_admitted_def small_request_read(2))
      (simp add: json_types_def small_request_def small_budget_def body_data_def budget_available_def counting_def)
  moreover have "body_data (rq_frames small_request) = ''{}''" by code_simp
  ultimately show ?thesis
    using body_read_exact [OF counting_laws small_budget_ok(1), of json_types small_request] by (auto split: if_splits)
qed

text \<open>
  C39: However the frames of concurrent requests, their failures, cancellations and the ends of their
  handlers interleave, the free permits and those held by the requests are exactly the capacity, the
  bytes buffered never exceed it nor any body its limit, and once no request is left the whole
  budget is free again.
\<close>

theorem body_budget_conserved:
  assumes "ingest_run api capacity max_body s" "semaphore_laws api"
  shows "budget_available api (in_budget s) + sum_list (map permits_held (in_connections s)) = capacity \<and>
     sum_list (map buffered (in_connections s)) + budget_available api (in_budget s) \<le> capacity \<and>
     (\<forall>c \<in> set (in_connections s). buffered c \<le> max_body) \<and>
     (list_all (\<lambda>c. c = Closed) (in_connections s) \<longrightarrow> budget_available api (in_budget s) = capacity)"
proof -
  note ok = ingest_run_ok [OF assms]
  then have sound: "\<forall>c \<in> set (in_connections s). buffered c \<le> permits_held c \<and> permits_held c \<le> max_body"
    using connection_ok_bounds by (fastforce simp: ingest_ok_def list_all_iff)
  then have "sum_list (map buffered (in_connections s)) \<le> sum_list (map permits_held (in_connections s))"
    by (intro sum_list_mono) auto
  moreover from ok have total: "budget_available api (in_budget s) + sum_list (map permits_held (in_connections s)) = capacity"
    by (simp add: ingest_ok_def budget_ok_def)
  moreover have "\<forall>c \<in> set (in_connections s). buffered c \<le> max_body" using sound le_trans by blast
  moreover from total closed_hold_nothing have "list_all (\<lambda>c. c = Closed) (in_connections s) \<longrightarrow>
      budget_available api (in_budget s) = capacity" by fastforce
  ultimately show ?thesis by linarith
qed

lemma body_budget_conserved_witness:
  "\<exists>s. ingest_run counting 16 16 s \<and> in_connections s \<noteq> [] \<and>
     budget_available counting (in_budget s) + sum_list (map permits_held (in_connections s)) = 16"
proof -
  let ?s = "\<lparr>in_budget = small_budget, in_connections = []\<rparr>"
  have "begin_read counting json_types small_request (in_budget ?s)
      = (Inr \<lparr>br_permits = [4], br_accounted = 4, br_buffer = []\<rparr>, small_budget\<lparr>bb_semaphore := 12\<rparr>)"
    by (simp add: small_request_read)
  from ingest_run.stepped [OF ingest_run.opened [OF small_budget_ok(2)] ingest_step.arrive [OF this]]
  obtain s where "ingest_run counting 16 16 s" "in_connections s \<noteq> []" by force
  with body_budget_conserved [OF _ counting_laws] show ?thesis by blast
qed

text \<open>
  A body that is not longer than its declared length is never refused once it was admitted, whatever
  the other requests do to the budget between its frames: it takes no further permit.
\<close>

theorem declared_body_never_refused:
  assumes "begin_read api accepted rq b = (Inr rd, b')" "declared_length rq = Inr (Some n)"
    and "length (body_data (rq_frames rq)) \<le> n" "\<not> list_ex frame_broken (rq_frames rq)"
    and "length budgets = length (rq_frames rq)" "\<forall>later \<in> set budgets. bb_max_body_bytes later = bb_max_body_bytes b"
  shows "\<exists>rd'. try_fold (\<lambda>(f, later) rd. fst (read_frame api f rd later)) (zip (rq_frames rq) budgets) rd = Inr rd' \<and>
     br_buffer rd' = body_data (rq_frames rq) \<and> br_permits rd' = br_permits rd"
proof -
  from assms(2) have "n < 2 ^ 64"
    using unat_u64_bound by (auto simp: declared_length_def res_simps split: option.splits)
  with assms(1,2) have start: "br_accounted rd = n" "n \<le> bb_max_body_bytes b" "br_buffer rd = []" "n < 2 ^ 64"
    by (auto elim!: begin_read_declared)
  have "\<exists>rd'. try_fold (\<lambda>(f, later) rd. fst (read_frame api f rd later)) (zip fs budgets) rd = Inr rd' \<and>
     br_buffer rd' = br_buffer rd @ body_data fs \<and> br_permits rd' = br_permits rd"
    if "length budgets = length fs" "\<forall>later \<in> set budgets. bb_max_body_bytes later = bb_max_body_bytes b"
      "\<not> list_ex frame_broken fs" "length (br_buffer rd) + length (body_data fs) \<le> br_accounted rd"
      "br_accounted rd \<le> bb_max_body_bytes b" "br_accounted rd < 2 ^ 64" for fs budgets rd
    using that
  proof (induction fs budgets arbitrary: rd rule: list_induct2')
    case (4 f fs later budgets)
    let ?rd = "rd\<lparr>br_buffer := br_buffer rd @ frame_data f\<rparr>"
    from 4(2-) have "fst (read_frame api f rd later) = Inr ?rd"
      by (cases f) (auto simp: read_frame_def body_data_def Let_def)
    with 4(1) [of ?rd] 4(2-) show ?case by (simp add: body_data_def)
  qed (auto simp: body_data_def)
  from this [of budgets "rq_frames rq" rd] assms(3-) start show ?thesis by simp
qed

lemma declared_body_never_refused_witness:
  "\<exists>rd'. try_fold (\<lambda>(f, later) rd. fst (read_frame counting f rd later))
       (zip (rq_frames small_request) (replicate 2 (small_budget\<lparr>bb_semaphore := 0\<rparr>)))
       \<lparr>br_permits = [4], br_accounted = 4, br_buffer = []\<rparr> = Inr rd' \<and> br_buffer rd' = ''{}''"
proof -
  have body: "body_data (rq_frames small_request) = ''{}''" "list_ex frame_broken (rq_frames small_request) = False"
    "length (rq_frames small_request) = 2" by code_simp+
  from declared_body_never_refused [OF small_request_read, of "replicate 2 (small_budget\<lparr>bb_semaphore := 0\<rparr>)"] body
  show ?thesis by (auto simp: small_budget_def)
qed

end
