(* ===== verification/ServiceTheorems.thy ===== *)
theory ServiceTheorems
  imports RelayService RelayTheorems BudgetTheorems CoverageTheorems
begin

text \<open>
  The Relay's HTTP service: the token check is equality, no request without the token has an effect,
  and a cloud batch is answered with success only once it is durable, scheduled and accounted for.
\<close>

section \<open>The token\<close>

lemma or_fold_zero:
  "fold (\<lambda>i d. d OR f i) is (d :: u64) = 0 \<longleftrightarrow> d = 0 \<and> (\<forall>i \<in> set is. f i = 0)"
proof (induction "is" arbitrary: d)
  case (Cons i "is")
  have "d OR f i = 0 \<longleftrightarrow> d = 0 \<and> f i = 0"
    by (auto simp: bit_eq_iff bit_simps)
  with Cons show ?case by auto
qed simp

lemma xor_zero: "a XOR b = 0 \<longleftrightarrow> a = (b :: 'a::len word)"
  by (auto simp: bit_eq_iff bit_simps)

lemma of_char_word_inject: "(of_char c :: 8 word) = of_char d \<longleftrightarrow> c = d"
proof
  have u: "unat (of_char e :: 8 word) = of_char e" for e :: char
  proof -
    have "unat (of_nat (of_char e) :: 8 word) = of_char e" by (simp add: unat_of_nat)
    then show ?thesis by (simp only: of_nat_of_char)
  qed
  assume "(of_char c :: 8 word) = of_char d"
  then have "(of_char c :: nat) = of_char d" using u [of c] u [of d] by (simp only:)
  then show "c = d" by (rule of_char_eqI)
qed simp

lemma widen_zero: "(ucast (w :: 8 word) :: u64) = 0 \<longleftrightarrow> w = 0"
proof -
  have "uint (ucast w :: u64) = uint w"
    using unsigned_less [of w, where ?'a = int]
    by (simp add: unsigned_ucast_eq take_bit_int_eq_self)
  then show ?thesis by (metis unsigned_eq_0_iff)
qed

lemma constant_time_equal_iff:
  assumes "length expected < 2 ^ 64" "length observed < 2 ^ 64"
  shows "constant_time_equal expected observed \<longleftrightarrow> expected = observed"
proof -
  have lengths: "(of_nat (length expected) :: u64) = of_nat (length observed) \<longleftrightarrow> length expected = length observed"
    using assms by (metis unat_of_nat_u64)
  have bytes: "byte_at expected i = byte_at observed i \<longleftrightarrow> expected ! i = observed ! i"
    if "i < length expected" "length expected = length observed" for i
    using that by (simp add: byte_at_def of_char_word_inject)
  show ?thesis
    unfolding constant_time_equal_def or_fold_zero xor_zero lengths widen_zero
    unfolding list_eq_iff_nth_eq using bytes by (intro conj_cong refl) (simp add: Ball_def)
qed


text \<open>The header a request must carry.\<close>

definition presents :: "string \<Rightarrow> relay_request \<Rightarrow> bool" where
  "presents token rq \<longleftrightarrow> rq_authorization rq = Some (Some (''Bearer '' @ token))"

definition header_fits :: "relay_request \<Rightarrow> bool" where
  "header_fits rq \<longleftrightarrow> (\<forall>h. rq_authorization rq = Some (Some h) \<longrightarrow> length h < 2 ^ 64)"

lemma strip_prefix_eq: "strip_prefix p s = Some t \<longleftrightarrow> s = p @ t"
  by (auto simp: strip_prefix_def prefix_def)

lemma authorized_token:
  assumes "rc_ingest_bearer_token rcfg = Some token" "length token < 2 ^ 64" "header_fits rq"
  shows "ingest_authorized rcfg rq \<longleftrightarrow> presents token rq"
proof (cases "Option.bind (Option.bind (rq_authorization rq) id) (strip_prefix ''Bearer '')")
  case None
  have "strip_prefix ''Bearer '' (''Bearer '' @ token) = Some token" by (simp add: strip_prefix_eq)
  with None show ?thesis by (auto simp: ingest_authorized_def assms(1) presents_def)
next
  case (Some t)
  then have h: "rq_authorization rq = Some (Some (''Bearer '' @ t))"
    by (auto simp: strip_prefix_eq bind_eq_Some_conv)
  with assms(3) have "length t < 2 ^ 64" by (simp add: header_fits_def)
  note eq = constant_time_equal_iff [OF assms(2) this]
  have "ingest_authorized rcfg rq \<longleftrightarrow> constant_time_equal token t"
    by (simp only: ingest_authorized_def assms(1) Some option.case)
  then show ?thesis unfolding eq presents_def h by auto
qed

lemma authorized_refuses:
  "\<not> ingest_authorized rcfg rq \<Longrightarrow> authorized rcfg rq handler s = ((401, refusal ''ingest_auth_required'' []), s)"
  by (simp add: authorized_def)


section \<open>Requeueing\<close>

definition failed_row :: "delivery_db \<Rightarrow> string \<Rightarrow> bool" where
  "failed_row db i \<longleftrightarrow> (\<exists>r. tget (dd_deliveries db) i = Some r \<and> dr_state r = ''failed'')"

definition requeued_rows ::
  "u64 \<Rightarrow> string \<Rightarrow> string set \<Rightarrow> delivery_db \<Rightarrow> string \<Rightarrow> delivery_record option" where
  "requeued_rows now reason ids db i =
     (if i \<in> ids then map_option (requeued_record now reason) (tget (dd_deliveries db) i)
      else tget (dd_deliveries db) i)"

lemma requeue_fold:
  assumes "body_ok db c" "fold (requeue_one now reason) ids (db, c, out) = (db', c', out')"
  shows "\<exists>more_ids. out' = out @ more_ids \<and> distinct more_ids \<and> set more_ids = {i \<in> set ids. failed_row db i}
    \<and> tget (dd_deliveries db') = requeued_rows now reason (set more_ids) db"
  using assms
proof (induction ids arbitrary: db c out)
  case Nil
  then show ?case by (auto simp: requeued_rows_def)
next
  case (Cons i ids)
  obtain db1 c1 out1 where o: "requeue_one now reason i (db, c, out) = (db1, c1, out1)"
    by (metis surj_pair)
  have ok1: "body_ok db1 c1" by (rule requeue_one_ok [OF Cons.prems(1) o])
  from Cons.prems(2) o have "fold (requeue_one now reason) ids (db1, c1, out1) = (db', c', out')" by simp
  from Cons.IH [OF ok1 this] obtain ms where ms: "out' = out1 @ ms" "distinct ms"
    "set ms = {i \<in> set ids. failed_row db1 i}" "tget (dd_deliveries db') = requeued_rows now reason (set ms) db1"
    by blast
  note t = body_ok_tables [OF Cons.prems(1)]
  show ?case
  proof (cases "failed_row db i")
    case True
    then obtain r where r: "tget (dd_deliveries db) i = Some r" "dr_state r = ''failed''" by (auto simp: failed_row_def)
    have d1: "tget (dd_deliveries db1) = (tget (dd_deliveries db))(i \<mapsto> requeued_record now reason r)" "out1 = out @ [i]"
      using o r tables_ok_row [OF t r(1)] by (auto simp: requeue_one_eq [OF t] Let_def)
    have f: "failed_row db1 j \<longleftrightarrow> j \<noteq> i \<and> failed_row db j" for j
      by (auto simp: failed_row_def d1)
    have "tget (dd_deliveries db') = requeued_rows now reason (set (i # ms)) db"
      unfolding ms(4) using ms(3) f by (auto simp: requeued_rows_def d1(1) r(1) fun_eq_iff)
    with ms(1-3) d1(2) f True show ?thesis by (intro exI [of _ "i # ms"]) auto
  next
    case False
    then have "db1 = db" "out1 = out"
      using o by (auto simp: requeue_one_eq [OF t] failed_row_def split: option.splits)
    with ms False show ?thesis by (intro exI [of _ ms]) auto
  qed
qed

lemma requeue_failed_exact:
  assumes "delivery_ok db"
  shows "\<exists>out db'. requeue_failed now ids reason db = Inr (out, db') \<and> delivery_ok db'
    \<and> distinct out \<and> set out = {i \<in> set ids. failed_row db i}
    \<and> tget (dd_deliveries db') = requeued_rows now reason (set out) db"
proof (cases "ids = []")
  case True
  with assms show ?thesis by (auto simp: requeue_failed_def requeued_rows_def fun_eq_iff)
next
  case False
  obtain c where c: "read_delivery_counters db = Inr c" "body_ok db c" by (rule delivery_ok_read [OF assms])
  obtain db1 c1 out where f: "fold (requeue_one now reason) ids (db, c, []) = (db1, c1, out)" by (metis surj_pair)
  from requeue_fold [OF c(2) f] have r: "distinct out" "set out = {i \<in> set ids. failed_row db i}"
    "tget (dd_deliveries db1) = requeued_rows now reason (set out) db" by auto
  have e: "requeue_failed now ids reason db = Inr (out, write_delivery_counters c1 db1)"
    using False by (simp add: requeue_failed_def c(1) f)
  from requeue_failed_ok [OF assms e] r e show ?thesis
    by (intro exI [of _ out] exI [of _ "write_delivery_counters c1 db1"])
      (simp add: write_delivery_counters_def)
qed

text \<open>The scan for failed rows is cut at the limit, but only after a row was taken.\<close>

lemma failed_scan_spec:
  assumes "\<forall>row \<in> set rows. dr_capture_id (snd row) = fst row" "distinct (map fst rows)"
  shows "\<exists>found. failed_scan limit out rows = out @ found \<and> distinct found
    \<and> set found \<subseteq> {fst row |row. row \<in> set rows \<and> dr_state (snd row) = ''failed''}
    \<and> (length out < max 1 limit \<longrightarrow> length (out @ found) \<le> max 1 limit)
    \<and> (length (out @ found) < max 1 limit \<longrightarrow>
         set found = {fst row |row. row \<in> set rows \<and> dr_state (snd row) = ''failed''})"
  using assms
proof (induction rows arbitrary: out)
  case (Cons row rows)
  let ?F = "\<lambda>rows. {fst row |row. row \<in> set rows \<and> dr_state (snd row) = ''failed''}"
  have out: "fst row \<notin> ?F rows" using Cons.prems(2) by (auto simp: rev_image_eqI)
  show ?case
  proof (cases "dr_state (snd row) = ''failed''")
    case True
    then have F: "?F (row # rows) = insert (fst row) (?F rows)" by (cases row) auto
    have id: "dr_capture_id (snd row) = fst row" using Cons.prems(1) by simp
    show ?thesis
    proof (cases "limit \<le> length (out @ [fst row])")
      case stop: True
      then show ?thesis unfolding F using True id by (intro exI [of _ "[fst row]"]) auto
    next
      case False
      from Cons.IH [of "out @ [fst row]"] Cons.prems obtain found where f:
        "failed_scan limit (out @ [fst row]) rows = (out @ [fst row]) @ found" "distinct found" "set found \<subseteq> ?F rows"
        "length (out @ [fst row]) < max 1 limit \<longrightarrow> length ((out @ [fst row]) @ found) \<le> max 1 limit"
        "length ((out @ [fst row]) @ found) < max 1 limit \<longrightarrow> set found = ?F rows" by auto
      have "fst row \<notin> set found" using f(3) out by blast
      then show ?thesis unfolding F using f True id False
        by (intro exI [of _ "fst row # found"]) auto
    qed
  next
    case False
    then have F: "?F (row # rows) = ?F rows" by auto
    have "failed_scan limit out (row # rows) = failed_scan limit out rows" using False by simp
    moreover from Cons.IH [of out] Cons.prems have "\<exists>found. failed_scan limit out rows = out @ found \<and> distinct found
      \<and> set found \<subseteq> ?F rows \<and> (length out < max 1 limit \<longrightarrow> length (out @ found) \<le> max 1 limit)
      \<and> (length (out @ found) < max 1 limit \<longrightarrow> set found = ?F rows)" by simp
    ultimately show ?thesis unfolding F by simp
  qed
qed auto

lemma failed_ids_spec:
  assumes "delivery_ok db"
  shows "set (failed_ids limit db) \<subseteq> Collect (failed_row db)" "length (failed_ids limit db) \<le> max 1 limit"
    and "length (failed_ids limit db) < max 1 limit \<Longrightarrow> set (failed_ids limit db) = Collect (failed_row db)"
    and "distinct (failed_ids limit db)"
proof -
  have t: "tables_ok db" using assms by (auto simp: delivery_ok_def body_ok_def)
  then have rows: "tsorted (dd_deliveries db)" by (simp add: tables_ok_def rows_ok_def)
  have get: "(k, r) \<in> set (dd_deliveries db) \<longleftrightarrow> tget (dd_deliveries db) k = Some r" for k r
    by (simp only: tbl.get_rows [OF rows])
  have keys: "\<forall>row \<in> set (dd_deliveries db). dr_capture_id (snd row) = fst row"
    using get tables_ok_row [OF t] by (metis prod.collapse)
  have F: "{fst row |row. row \<in> set (dd_deliveries db) \<and> dr_state (snd row) = ''failed''} = Collect (failed_row db)"
    by (force simp: failed_row_def get)
  have "distinct (map fst (dd_deliveries db))" using rows by (rule tsorted_distinct)
  from failed_scan_spec [OF keys this, of limit "[]"] show
    "set (failed_ids limit db) \<subseteq> Collect (failed_row db)" "length (failed_ids limit db) \<le> max 1 limit"
    "length (failed_ids limit db) < max 1 limit \<Longrightarrow> set (failed_ids limit db) = Collect (failed_row db)"
    "distinct (failed_ids limit db)"
    unfolding F failed_ids_def by auto
qed


section \<open>Cloud batches\<close>

lemma cloud_fold:
  "fold (cloud_result env) rs (d, c, u) = (d', None, None) \<Longrightarrow> \<forall>r \<in> set rs. \<exists>a. snd r = Inr a"
proof -
  have step: "fold (cloud_result env) rs (d, c, u) = (d', c', u') \<Longrightarrow>
      (c' = None \<longrightarrow> c = None) \<and> (u' = None \<longrightarrow> u = None) \<and> (c' = None \<and> u' = None \<longrightarrow> (\<forall>r \<in> set rs. \<exists>a. snd r = Inr a))"
    for d c u c' u'
  proof (induction rs arbitrary: d c u)
    case (Cons r rs)
    obtain k x where r: "r = (k, x)" by (rule surj_pair [THEN exE, of r]) blast
    show ?case
    proof (cases x)
      case (Inl e)
      from Cons.IH Cons.prems r Inl show ?thesis
        by (cases e) (force simp: cloud_result_def)+
    next
      case (Inr a)
      with Cons.IH [of "saturating_add d (if ack_duplicate a then 1 else 0)" c u] Cons.prems r show ?thesis
        by (simp add: cloud_result_def)
    qed
  qed auto
  show "fold (cloud_result env) rs (d, c, u) = (d', None, None) \<Longrightarrow> \<forall>r \<in> set rs. \<exists>a. snd r = Inr a"
    using step by blast
qed

text \<open>A batch counts as taken when it is answered 200, or with an error that says it is durable.\<close>

definition taken :: "http_answer \<Rightarrow> bool" where
  "taken answer \<longleftrightarrow> fst answer = 200 \<or> jget (snd answer) ''durable'' = Some (Bool True)"

lemma taken_refusal: "status \<noteq> 200 \<Longrightarrow> fst (hd (ms @ [(''x'', Null)])) \<noteq> ''durable'' \<Longrightarrow> length ms \<le> 1 \<Longrightarrow>
    \<not> taken (status, refusal reason ms)"
  by (cases ms) (auto simp: taken_def refusal_def json_object_def)

lemma enqueue_keeps_quality:
  assumes "enqueue_batch digest sha timing cfg records r = (Inr results, r')"
  shows "dd_quality (rl_ledger r') = dd_quality (rl_ledger r)"
proof -
  from assms obtain ls n db where db: "ensure_many ls (rl_ledger r) = Inr (n, db)" "rl_ledger r' = db"
    by (auto simp: enqueue_batch_def Let_def split: prod.splits sum.splits)
  from db(1) obtain c t where t: "try_fold ensure_one ls (rl_ledger r, c, 0) = Inr t" "db = write_delivery_counters (fst (snd t)) (fst t)"
    by (auto simp: ensure_many_def res_simps)
  have "dd_quality (fst t) = dd_quality (rl_ledger r)"
    by (rule try_fold_invariant [OF t(1), of "\<lambda>t. dd_quality (fst t) = dd_quality (rl_ledger r)"])
      (auto simp: ensure_one_def split: option.splits if_splits)
  then show ?thesis by (simp add: db(2) t(2) write_delivery_counters_def)
qed

text \<open>A Relay but for the quality rows of its ledger.\<close>

definition requalified :: "relay \<Rightarrow> relay \<Rightarrow> bool" where
  "requalified r r' \<longleftrightarrow> (\<exists>q. r' = r\<lparr>rl_ledger := (rl_ledger r)\<lparr>dd_quality := q\<rparr>\<rparr>)"

lemma requalified_same: "requalified r r"
  unfolding requalified_def by (intro exI [of _ "dd_quality (rl_ledger r)"]) simp

lemma requalified_keeps:
  assumes "requalified r r'"
  shows "relay_fits digest sha r' = relay_fits digest sha r" "all_scheduled digest r' = all_scheduled digest r"
    and "rl_stores r' = rl_stores r" "dd_deliveries (rl_ledger r') = dd_deliveries (rl_ledger r)"
proof -
  from assms obtain q where q: "r' = r\<lparr>rl_ledger := (rl_ledger r)\<lparr>dd_quality := q\<rparr>\<rparr>" unfolding requalified_def ..
  show "relay_fits digest sha r' = relay_fits digest sha r" "all_scheduled digest r' = all_scheduled digest r"
    "rl_stores r' = rl_stores r" "dd_deliveries (rl_ledger r') = dd_deliveries (rl_ledger r)"
    by (simp_all add: q relay_fits_def all_scheduled_def delivery_ok_def body_ok_def tables_ok_def)
qed

lemma accept_cloud_cases:
  assumes "relay_accept_cloud env rcfg timing now at ep (Inr (records, summary)) s = (answer, s')"
    and "enqueue_batch (ce_digest env) (ce_sha env) timing rcfg records (rv_relay s) = (Inr results, relay)"
    and "length results = length records"
  shows "requalified relay (rv_relay s')"
    and "taken answer \<Longrightarrow> (\<forall>r \<in> set results. \<exists>a. r = Inr a) \<and> keep_cloud_quality ep summary (relay_quality s) = Inr (relay_quality s')"
    and "fst answer = 200 \<Longrightarrow> 0 < quality_rejections summary \<Longrightarrow> ep \<noteq> CodexHook \<and> unattributed_quality_errors summary = 0"
proof -
  obtain d c u where f: "fold (cloud_result env) (zip (map cr_capture_id records) results) (0, None, None) = (d, c, u)"
    by (metis surj_pair)
  have ql: "relay_quality (s\<lparr>rv_relay := relay\<rparr>) = relay_quality s"
    using enqueue_keeps_quality [OF assms(2)] by (simp add: relay_quality_def)
  note def = relay_accept_cloud_def assms(2) f Let_def ql
  consider (refused) "rv_relay s' = relay" "\<not> taken answer" "fst answer \<noteq> 200"
    | (ok) q where "c = None" "u = None" "keep_cloud_quality ep summary (relay_quality s) = Inr q"
        "rv_relay s' = relay\<lparr>rl_ledger := (rl_ledger relay)\<lparr>dd_quality := q\<rparr>\<rparr>"
        "answer = cloud_answer ep summary (length records) d"
  proof (cases "c = None \<and> u = None \<and> (\<exists>q. keep_cloud_quality ep summary (relay_quality s) = Inr q)")
    case True
    then obtain q where q: "c = None" "u = None" "keep_cloud_quality ep summary (relay_quality s) = Inr q" by blast
    have "rv_relay s' = relay\<lparr>rl_ledger := (rl_ledger relay)\<lparr>dd_quality := q\<rparr>\<rparr>
        \<and> answer = cloud_answer ep summary (length records) d"
      using assms(1) by (auto simp: def q put_quality_def split: prod.splits)
    with q that(2) show thesis by blast
  next
    case False
    have "(fst answer \<noteq> 200 \<and> \<not> taken answer) \<and> rv_relay s' = relay"
      using assms(1) False
      by (cases c; cases u; cases "keep_cloud_quality ep summary (relay_quality s)") (auto simp: def taken_refusal)
    with that(1) show thesis by blast
  qed
  then have *: "requalified relay (rv_relay s') \<and>
    (taken answer \<longrightarrow> (\<forall>r \<in> set results. \<exists>a. r = Inr a) \<and> keep_cloud_quality ep summary (relay_quality s) = Inr (relay_quality s')) \<and>
    (fst answer = 200 \<longrightarrow> 0 < quality_rejections summary \<longrightarrow> ep \<noteq> CodexHook \<and> unattributed_quality_errors summary = 0)"
  proof cases
    case ok
    have "map snd (zip (map cr_capture_id records) results) = results" using assms(3) by simp
    then have "set results = snd ` set (zip (map cr_capture_id records) results)" by (metis set_map)
    with cloud_fold [OF f [unfolded ok(1,2)]] have "\<forall>r \<in> set results. \<exists>a. r = Inr a" by (simp only: ball_simps)
    moreover have "keep_cloud_quality ep summary (relay_quality s) = Inr (relay_quality s')"
      using ok(3,4) by (simp add: relay_quality_def)
    moreover have "fst answer = 200 \<longrightarrow> 0 < quality_rejections summary \<longrightarrow>
        ep \<noteq> CodexHook \<and> unattributed_quality_errors summary = 0"
      using word_neq_0_conv [of "unattributed_quality_errors summary"]
      by (auto simp: ok(5) cloud_answer_def Let_def split: if_splits)
    moreover have "requalified relay (rv_relay s')" unfolding ok(4) requalified_def by blast
    ultimately show ?thesis by blast
  qed (simp add: requalified_same)
  then show "requalified relay (rv_relay s')"
    "taken answer \<Longrightarrow> (\<forall>r \<in> set results. \<exists>a. r = Inr a) \<and> keep_cloud_quality ep summary (relay_quality s) = Inr (relay_quality s')"
    "fst answer = 200 \<Longrightarrow> 0 < quality_rejections summary \<Longrightarrow> ep \<noteq> CodexHook \<and> unattributed_quality_errors summary = 0"
    by blast+
qed


section \<open>Properties\<close>

definition bare_request :: relay_request where
  "bare_request =
     \<lparr>rq_content_type = Some (Some ''application/json''), rq_content_length = None, rq_frames = [],
      rq_authorization = Some (Some ''Bearer secrets'')\<rparr>"

definition example_relay_env :: relay_env where
  "example_relay_env =
     \<lparr>ce_digest = example_digest_bytes, ce_sha = example_sha, ce_parse = (\<lambda>_. None), ce_ser = (\<lambda>_. ''null''),
      ce_message = (\<lambda>_. ''rejected''), ce_show_error = (\<lambda>_. ''error''), ce_version = ''0'', ce_revision = ''unknown'',
      re_parse_error = (\<lambda>_. ''EOF''), re_show_relay = (\<lambda>_. ''error''), re_show_delivery = (\<lambda>_. ''error''),
      re_show_quality = (\<lambda>_. ''error''), re_quality_digest = (\<lambda>_. ''digest'')\<rparr>"

definition example_service :: "nat relay_service" where
  "example_service =
     \<lparr>rv_relay = example_idle\<lparr>rl_ledger := empty_ledger\<lparr>dd_quality := example_quality\<rparr>\<rparr>, rv_coverage = example_coverage,
      rv_body_budget = \<lparr>bb_semaphore = 8000, bb_capacity = 8000, bb_max_body_bytes = 4000\<rparr>\<rparr>"

text \<open>
  With a token configured, the loop over bytes that decides whether a request may pass decides
  exactly whether its header is the word Bearer, a blank and that token; without one every request
  passes.
\<close>

theorem ingest_authorized_exact:
  assumes "\<forall>token. rc_ingest_bearer_token rcfg = Some token \<longrightarrow> length token < 2 ^ 64"
    and "header_fits rq"
  shows "ingest_authorized rcfg rq \<longleftrightarrow>
    (case rc_ingest_bearer_token rcfg of
       None \<Rightarrow> True
     | Some token \<Rightarrow> rq_authorization rq = Some (Some (''Bearer '' @ token)))"
proof (cases "rc_ingest_bearer_token rcfg")
  case (Some token)
  with assms(1) have "length token < 2 ^ 64" by simp
  from authorized_token [OF Some this assms(2)] show ?thesis unfolding Some option.case presents_def .
qed (simp add: ingest_authorized_def)

theorem ingest_authorized_exact_witness:
  "ingest_authorized example_relay (bare_request\<lparr>rq_authorization := Some (Some ''Bearer secret'')\<rparr>)
    \<and> \<not> ingest_authorized example_relay bare_request"
  using ingest_authorized_exact [of example_relay "bare_request\<lparr>rq_authorization := Some (Some ''Bearer secret'')\<rparr>"]
    ingest_authorized_exact [of example_relay bare_request]
  by (simp add: example_relay_def bare_request_def header_fits_def)

text \<open>
  C33: A request without the token is answered 401 on every route that reads or changes Captures,
  and has no effect at all: no permit is taken, nothing is stored, scheduled, requeued, archived,
  restored or sealed, and no evidence is counted.
\<close>

theorem only_token_holders_act:
  assumes "rc_ingest_bearer_token rcfg = Some token" "length token < 2 ^ 64" "header_fits rq"
    and "rq_authorization rq \<noteq> Some (Some (''Bearer '' @ token))"
  shows "\<forall>handler \<in> {relay_capture api env rcfg timing now at rq, relay_captures api env rcfg timing now at rq,
      relay_cloud_ingest api env rcfg timing now at ep prepare rq, relay_requeue_failed api env rcfg now rq,
      relay_quality_archive api env rcfg at rq, relay_quality_archive_restore api env rcfg rq,
      relay_flush env rcfg at rq}.
    handler s = ((401, refusal ''ingest_auth_required'' []), s)"
proof -
  have "\<not> ingest_authorized rcfg rq"
    using assms(4) authorized_token [OF assms(1-3)] by (simp add: presents_def)
  note refused = authorized_refuses [OF this]
  show ?thesis
    by (simp add: relay_capture_def relay_captures_def relay_cloud_ingest_def relay_requeue_failed_def
        relay_quality_archive_def relay_quality_archive_restore_def relay_flush_def refused)
qed

theorem only_token_holders_act_witness:
  "relay_requeue_failed counting example_relay_env example_relay 5 bare_request example_service
    = ((401, refusal ''ingest_auth_required'' []), example_service)"
  using only_token_holders_act [of example_relay "''secret''" bare_request counting example_relay_env example_timing
      5 "''t''" OtlpLogs "\<lambda>_ _ _. Inl ''refused''" example_service]
  by (simp add: example_relay_def bare_request_def header_fits_def)

text \<open>
  C34: A requeue of failed deliveries on a consistent ledger always answers 200, names each requested
  Capture whose delivery had failed exactly once, returns those rows to pending with no attempts,
  due now, and touches no other row.  When the request names no Captures, at most its limit, or
  10,000, are requeued, but at least one; and if fewer were, no delivery is left failed.
\<close>

theorem operator_requeue_exact:
  assumes "delivery_ok (rl_ledger (rv_relay s))" "requeue_handler env now value s = (answer, s')"
  shows "\<exists>requeued db. s' = s\<lparr>rv_relay := (rv_relay s)\<lparr>rl_ledger := db\<rparr>\<rparr> \<and> delivery_ok db
    \<and> answer = (200, json_object
         [(''ok'', Bool True), (''requested'', jnat (length (requested_ids value (rl_ledger (rv_relay s))))),
          (''requeued'', jnat (length requeued)), (''capture_ids'', Array (map String requeued))])
    \<and> distinct requeued
    \<and> set requeued = {i \<in> set (requested_ids value (rl_ledger (rv_relay s))). failed_row (rl_ledger (rv_relay s)) i}
    \<and> tget (dd_deliveries db) = requeued_rows now ''operator_requeue_failed'' (set requeued) (rl_ledger (rv_relay s))
    \<and> (Option.bind (jget value ''capture_ids'') as_array = None \<longrightarrow>
         (let bound = max 1 (min (case get_u64 value ''limit'' of None \<Rightarrow> 100 | Some n \<Rightarrow> unat n) 10000)
          in length requeued \<le> bound \<and> (length requeued < bound \<longrightarrow> (\<forall>i. \<not> failed_row db i))))"
proof -
  let ?db = "rl_ledger (rv_relay s)"
  obtain out db where r: "requeue_failed now (requested_ids value ?db) ''operator_requeue_failed'' ?db = Inr (out, db)"
    "delivery_ok db" "distinct out" "set out = {i \<in> set (requested_ids value ?db). failed_row ?db i}"
    "tget (dd_deliveries db) = requeued_rows now ''operator_requeue_failed'' (set out) ?db"
    using requeue_failed_exact [OF assms(1)] by blast
  have bound: "length out \<le> max 1 (min limit 10000)
      \<and> (length out < max 1 (min limit 10000) \<longrightarrow> (\<forall>i. \<not> failed_row db i))"
    if "requested_ids value ?db = failed_ids (min limit 10000) ?db" for limit
  proof -
    note f = failed_ids_spec [OF assms(1), of "min limit 10000"]
    have o: "set out = set (failed_ids (min limit 10000) ?db)" using r(4) f(1) that by auto
    with r(3) f(4) have "length out = length (failed_ids (min limit 10000) ?db)" by (metis distinct_card)
    moreover have "\<not> failed_row db i" if "set out = Collect (failed_row ?db)" for i
      using r(5) that by (auto simp: failed_row_def requeued_rows_def requeued_record_def split: if_splits)
    ultimately show ?thesis using f(2,3) o by simp
  qed
  have unnamed: "Option.bind (jget value ''capture_ids'') as_array = None \<Longrightarrow>
      requested_ids value ?db
        = failed_ids (min (case get_u64 value ''limit'' of None \<Rightarrow> 100 | Some n \<Rightarrow> unat n) 10000) ?db"
    by (simp add: requested_ids_def Let_def)
  have "answer = (200, json_object
         [(''ok'', Bool True), (''requested'', jnat (length (requested_ids value ?db))),
          (''requeued'', jnat (length out)), (''capture_ids'', Array (map String out))])"
    "s' = s\<lparr>rv_relay := (rv_relay s)\<lparr>rl_ledger := db\<rparr>\<rparr>"
    using assms(2) by (simp_all add: requeue_handler_def Let_def r(1))
  with r(2-5) bound [OF unnamed] show ?thesis
    by (intro exI [of _ out] exI [of _ db]) (simp add: Let_def)
qed

text \<open>One delivery that failed for good.\<close>

definition one_failed :: delivery_db where
  "one_failed =
     empty_ledger\<lparr>dd_deliveries := [(''a'', (new_delivery (example_locator ''a''))\<lparr>dr_state := ''failed'', dr_attempts := 9\<rparr>)],
       dd_counters := Some \<lparr>dc_total = 1, dc_pending = 0, dc_inflight = 0, dc_delivered = 0,
         dc_conflicts = 0, dc_failed = 1, dc_attempts = 9\<rparr>\<rparr>"

lemma one_failed_row: "failed_row one_failed i \<longleftrightarrow> i = ''a''"
  by (simp add: failed_row_def one_failed_def)

lemma one_failed_ok: "delivery_ok one_failed"
  by (simp add: delivery_ok_def one_failed_def empty_ledger_def body_ok_def tables_ok_def rows_ok_def index_ok_def
    counters_match_def new_delivery_def delivery_states_def has_state_def row_count_def tcount_def tsorted_def
    example_locator_def)

theorem operator_requeue_exact_witness:
  "\<exists>s'. requeue_handler example_relay_env 5 (Object [(''limit'', Number (PosInt 0))])
      (example_service\<lparr>rv_relay := example_idle\<lparr>rl_ledger := one_failed\<rparr>\<rparr>) = ((200, json_object
         [(''ok'', Bool True), (''requested'', jnat 1), (''requeued'', jnat 1), (''capture_ids'', Array [String ''a''])]), s')
    \<and> claimable 5 (rl_ledger (rv_relay s')) ''a''"
proof -
  let ?s = "example_service\<lparr>rv_relay := example_idle\<lparr>rl_ledger := one_failed\<rparr>\<rparr>"
    and ?v = "Object [(''limit'', Number (PosInt 0))]"
  obtain answer s' where h: "requeue_handler example_relay_env 5 ?v ?s = (answer, s')" by (metis surj_pair)
  have ids: "requested_ids ?v one_failed = [''a'']"
    by (simp add: requested_ids_def get_u64_def failed_ids_def one_failed_def example_locator_def new_delivery_def)
  obtain out db where r: "s' = ?s\<lparr>rv_relay := (rv_relay ?s)\<lparr>rl_ledger := db\<rparr>\<rparr>" "answer = (200, json_object
         [(''ok'', Bool True), (''requested'', jnat (length [''a''])), (''requeued'', jnat (length out)),
          (''capture_ids'', Array (map String out))])" "distinct out" "set out = {''a''}"
      "tget (dd_deliveries db) = requeued_rows 5 ''operator_requeue_failed'' (set out) one_failed"
    using operator_requeue_exact [OF _ h] by (auto simp: one_failed_ok ids one_failed_row)
  from r(3,4) have "out = [''a'']" by (cases out; cases "tl out") auto
  with h r show ?thesis
    by (intro exI [of _ s']) (simp add: claimable_def requeued_rows_def requeued_record_def one_failed_def)
qed

lemma cloud_answer_keeps:
  assumes "relay_fits (ce_digest env) (ce_sha env) (rv_relay s)" "all_scheduled (ce_digest env) (rv_relay s)"
    and "submits_valid (ce_sha env) timing records" "no_legacy_retry (ce_digest env) (rl_stores (rv_relay s)) records"
    and "relay_accept_cloud env rcfg timing now at ep (Inr (records, summary)) s = (answer, s')"
    and "has_room (ce_digest env) (rl_stores (rv_relay s'))"
  shows "relay_fits (ce_digest env) (ce_sha env) (rv_relay s') \<and> all_scheduled (ce_digest env) (rv_relay s')
    \<and> (taken answer \<longrightarrow>
         (\<forall>r \<in> set records.
            abs_sharded (ce_digest env) (rl_stores (rv_relay s')) (cr_capture_id r) = Some (cr_sha256 r)
            \<and> (\<exists>row. tget (dd_deliveries (rl_ledger (rv_relay s'))) (cr_capture_id r) = Some row
                 \<and> dr_raw_sha256 row = cr_sha256 r))
         \<and> keep_cloud_quality ep summary (relay_quality s) = Inr (relay_quality s'))
    \<and> (fst answer = 200 \<longrightarrow> 0 < quality_rejections summary \<longrightarrow>
         ep \<noteq> CodexHook \<and> unattributed_quality_errors summary = 0)"
proof -
  obtain result relay where e: "enqueue_batch (ce_digest env) (ce_sha env) timing rcfg records (rv_relay s) = (result, relay)"
    by fastforce
  have "requalified relay (rv_relay s')"
    using assms(5) requalified_same [of relay]
    by (auto simp: relay_accept_cloud_def e Let_def put_quality_def split: sum.splits option.splits prod.splits)
      (auto simp: requalified_def)
  note same = requalified_keeps [OF this]
  with assms(6) have room: "has_room (ce_digest env) (rl_stores relay)" by simp
  from enqueue_keeps_scheduled [OF assms(1-4) e room] obtain results where
    r: "result = Inr results" "length results = length records" "relay_fits (ce_digest env) (ce_sha env) relay"
      "all_scheduled (ce_digest env) relay"
    and rows: "\<And>i a. i < length records \<Longrightarrow> results ! i = Inr a \<Longrightarrow>
        \<exists>row. tget (dd_deliveries (rl_ledger relay)) (cr_capture_id (records ! i)) = Some row
          \<and> dr_raw_sha256 row = cr_sha256 (records ! i)" by blast
  note cases = accept_cloud_cases [OF assms(5) e [unfolded r(1)] r(2)]
  have fit: "fits (locator_of (ce_digest env) (rl_stores relay)) (dd_deliveries (rl_ledger relay))"
    using r(3) by (simp add: relay_fits_def)
  have kept: "abs_sharded (ce_digest env) (rl_stores relay) (cr_capture_id c) = Some (cr_sha256 c)
      \<and> (\<exists>row. tget (dd_deliveries (rl_ledger relay)) (cr_capture_id c) = Some row \<and> dr_raw_sha256 row = cr_sha256 c)"
    if "taken answer" "c \<in> set records" for c
  proof -
    from that(2) obtain i where i: "i < length records" "c = records ! i" by (auto simp: in_set_conv_nth)
    with cases(2) [OF that(1)] r(2) obtain a where "results ! i = Inr a" by (metis nth_mem)
    from rows [OF i(1) this] obtain row where
      row: "tget (dd_deliveries (rl_ledger relay)) (cr_capture_id c) = Some row" "dr_raw_sha256 row = cr_sha256 c"
      using i(2) by blast
    from fits_dom [OF fit] row(1) obtain l where l: "locator_of (ce_digest env) (rl_stores relay) (cr_capture_id c) = Some l"
      by blast
    from fitsD [OF fit l row(1)] row l show ?thesis by (simp add: abs_sharded_locator row_fits_def)
  qed
  show ?thesis
    unfolding same using r(3,4) kept cases(2,3) by blast
qed

text \<open>
  A converted cloud batch that is answered with success, or with an error that calls it durable,
  is: each of its records is stored under its own hash and has a delivery row with that hash, and
  the quality errors it came with are in the durable counters.  A plain success hides no error of
  a hook, and none that is not attributed to a record.  Whatever the answer, every stored Capture
  stays scheduled.
\<close>

theorem cloud_success_durable:
  assumes "relay_fits (ce_digest env) (ce_sha env) (rv_relay s)" "all_scheduled (ce_digest env) (rv_relay s)"
    and "submits_valid (ce_sha env) timing records" "no_legacy_retry (ce_digest env) (rl_stores (rv_relay s)) records"
    and "relay_accept_cloud env rcfg timing now at ep (Inr (records, summary)) s = (answer, s')"
    and "has_room (ce_digest env) (rl_stores (rv_relay s'))"
  shows "relay_fits (ce_digest env) (ce_sha env) (rv_relay s') \<and> all_scheduled (ce_digest env) (rv_relay s')
    \<and> (taken answer \<longrightarrow>
         (\<forall>r \<in> set records.
            abs_sharded (ce_digest env) (rl_stores (rv_relay s')) (cr_capture_id r) = Some (cr_sha256 r)
            \<and> (\<exists>row. tget (dd_deliveries (rl_ledger (rv_relay s'))) (cr_capture_id r) = Some row
                 \<and> dr_raw_sha256 row = cr_sha256 r))
         \<and> keep_cloud_quality ep summary (relay_quality s) = Inr (relay_quality s'))
    \<and> (fst answer = 200 \<longrightarrow> 0 < quality_rejections summary \<longrightarrow>
         ep \<noteq> CodexHook \<and> unattributed_quality_errors summary = 0)"
  by (rule cloud_answer_keeps [OF assms])

text \<open>A batch with one unknown event that is attributed to its record.\<close>

definition attributed_summary :: cloud_summary where
  "attributed_summary =
     \<lparr>cs_endpoint = ''otlp_logs'', cs_source_records = 1, cs_derived_captures = 1, cs_unknown_events = 1,
      cs_attributed_quality_errors = 1, cs_conversion_errors = []\<rparr>"

lemma attributed_kept:
  "quality_rejections attributed_summary = 1" "unattributed_quality_errors attributed_summary = 0"
  "\<exists>q. keep_cloud_quality OtlpLogs attributed_summary example_quality = Inr q"
proof -
  show r: "quality_rejections attributed_summary = 1"
    by (simp add: quality_rejections_def attributed_summary_def conversion_count_def saturating_add_def)
  show "unattributed_quality_errors attributed_summary = 0"
    unfolding unattributed_quality_errors_def r by (simp add: attributed_summary_def saturating_sub_def)
  have "quality_error_reasons attributed_summary = [(''unsupported_event'', 1)]"
    by (simp add: quality_error_reasons_def attributed_summary_def)
  moreover have "\<exists>c l'. record_quality OtlpLogs 1 0 [(''unsupported_event'', 1)] example_quality = Inr (c, l')"
    using record_quality_succeeds [OF example_quality_wf, of "[(''unsupported_event'', 1)]" 1 0 OtlpLogs]
    by (simp add: example_quality_total tsorted_def batch_valid_def is_quality_reason_def quality_reason_codes_def)
  ultimately have "\<exists>x. record_quality OtlpLogs (cs_unknown_events attributed_summary) (conversion_count attributed_summary)
      (quality_error_reasons attributed_summary) example_quality = Inr x"
    by (auto simp: attributed_summary_def conversion_count_def)
  then show "\<exists>q. keep_cloud_quality OtlpLogs attributed_summary example_quality = Inr q"
    by (auto simp: keep_cloud_quality_def r)
qed

lemma example_service_idle: "requalified example_idle (rv_relay example_service)"
  unfolding requalified_def by (intro exI [of _ example_quality]) (simp add: example_service_def example_idle_def)

lemma spec_run_accepts:
  "distinct (map cr_capture_id rs) \<Longrightarrow> dom m \<inter> cr_capture_id ` set rs = {} \<Longrightarrow>
    snd (spec_run rs m) = replicate (length rs) Accepted \<and> dom (fst (spec_run rs m)) = dom m \<union> cr_capture_id ` set rs"
proof (induction rs arbitrary: m)
  case (Cons r rs)
  then have r: "spec_submit r m = (m(cr_capture_id r \<mapsto> cr_sha256 r), Accepted)"
    by (auto simp: spec_submit_def split: option.splits)
  have "distinct (map cr_capture_id rs)" "dom (m(cr_capture_id r \<mapsto> cr_sha256 r)) \<inter> cr_capture_id ` set rs = {}"
    using Cons.prems by auto
  note IH = Cons.IH [OF this]
  obtain m' os where e: "spec_run rs (m(cr_capture_id r \<mapsto> cr_sha256 r)) = (m', os)" by fastforce
  from IH show ?case unfolding spec_run.simps r prod.case e by (simp del: fun_upd_apply add: dom_fun_upd)
qed simp

lemma fold_accepted:
  assumes "map response results = replicate n Accepted"
  shows "fold (cloud_result env) (zip ids results) (0, None, None) = (0, None, None)"
  using assms
proof (induction results arbitrary: ids n)
  case (Cons x results)
  then obtain m where n: "response x = Accepted" "map response results = replicate m Accepted" by (cases n) auto
  then obtain a where "x = Inr a" "\<not> ack_duplicate a"
    by (cases x) (auto simp: response_def split: if_splits submit_error.splits)
  then show ?case
    using Cons.IH [OF n(2)] by (cases ids) (simp_all add: cloud_result_def saturating_add_def checked_add_def)
qed simp

text \<open>An upload of new Captures, with the quality errors of the example, is answered 200.\<close>

lemma example_upload:
  assumes env: "ce_digest env = example_digest_bytes"
    and rs: "hashed (ce_sha env) rs" "no_alias rs" "distinct (map cr_capture_id rs)" "length rs + 1 < 2 ^ 64"
  obtains body s' where "relay_accept_cloud env rcfg example_timing 5 ''t'' OtlpLogs (Inr (rs, attributed_summary))
      example_service = ((200, body), s')"
    "has_room example_digest_bytes (rl_stores (rv_relay s'))"
    "relay_fits example_digest_bytes (ce_sha env) (rv_relay example_service)"
    "all_scheduled example_digest_bytes (rv_relay example_service)"
    "submits_valid (ce_sha env) example_timing rs"
    "no_legacy_retry example_digest_bytes (rl_stores (rv_relay example_service)) rs"
proof -
  have idle: "relay_fits example_digest_bytes (ce_sha env) (rv_relay example_service)"
    "all_scheduled example_digest_bytes (rv_relay example_service)" "rl_stores (rv_relay example_service) = example_stores"
    using requalified_keeps [OF example_service_idle] example_idle_ok by (simp_all add: example_idle_def)
  have v: "submits_valid (ce_sha env) example_timing rs" "no_legacy_retry example_digest_bytes example_stores rs"
    using example_timing_ok rs by (simp_all add: submits_valid_def no_legacy_retry_def example_unstored list_all_iff)
  obtain results stores' where sb: "submit_batch example_digest_bytes (ce_sha env) (rc_store rcfg) example_timing rs example_stores
      = (results, stores')" by fastforce
  from spec_run_accepts [OF rs(3), of Map.empty]
  have run: "snd (spec_run rs Map.empty) = replicate (length rs) Accepted"
    "dom (fst (spec_run rs Map.empty)) = set (map cr_capture_id rs)" by simp_all
  have room: "has_room example_digest_bytes stores'"
    by (rule has_room_spec [OF example_stores_ok v(1) sb, of "map cr_capture_id rs"]) (use rs(4) run in \<open>simp_all add: example_unstored\<close>)
  have "map response results = replicate (length rs) Accepted"
    using sharded.answered [OF example_stores_ok v(1) sb] run(1)
    by (metis (no_types, lifting) example_unstored abs_sharded_locator ext snd_conv)
  note accepted = fold_accepted [OF this]
  obtain relay where e: "enqueue_batch example_digest_bytes (ce_sha env) example_timing rcfg rs (rv_relay example_service)
      = (Inr results, relay)" "rl_stores relay = stores'"
    using enqueue_schedules [OF idle(1) v(1) v(2) [folded idle(3)] sb [folded idle(3)] room] by blast
  obtain q where q: "keep_cloud_quality OtlpLogs attributed_summary example_quality = Inr q"
    using attributed_kept(3) by blast
  have "relay_quality (example_service\<lparr>rv_relay := relay\<rparr>) = example_quality"
    using enqueue_keeps_quality [OF e(1)] by (simp add: relay_quality_def example_service_def)
  then obtain body s' where "relay_accept_cloud env rcfg example_timing 5 ''t'' OtlpLogs (Inr (rs, attributed_summary))
      example_service = ((200, body), s')" "rl_stores (rv_relay s') = stores'"
    using e q by (cases "derived_record_counts (ce_parse env) rs")
      (auto simp: relay_accept_cloud_def env accepted cloud_answer_def attributed_kept(1,2)
        Let_def put_quality_def)
  with that room idle(1,2) v(1) v(2) [folded idle(3)] show thesis by simp
qed

theorem cloud_success_durable_witness:
  "\<exists>body s'. relay_accept_cloud example_relay_env example_relay example_timing 5 ''t'' OtlpLogs
      (Inr ([example_record ''cap-a'' ''one''], attributed_summary)) example_service = ((200, body), s')
    \<and> abs_sharded example_digest_bytes (rl_stores (rv_relay s')) ''cap-a'' = Some ''one''
    \<and> keep_cloud_quality OtlpLogs attributed_summary example_quality = Inr (relay_quality s')"
proof -
  let ?r = "example_record ''cap-a'' ''one''"
  have r: "hashed (ce_sha example_relay_env) [?r]" "no_alias [?r]" "distinct (map cr_capture_id [?r])" "length [?r] + 1 < 2 ^ 64"
    "cr_capture_id ?r = ''cap-a''" "cr_sha256 ?r = ''one''"
    by (simp_all add: hashed_def no_alias_def example_record_def example_relay_env_def example_sha_def)
  have env: "ce_digest example_relay_env = example_digest_bytes" "ce_sha example_relay_env = example_sha"
    by (simp_all add: example_relay_env_def)
  obtain body s' where u: "relay_accept_cloud example_relay_env example_relay example_timing 5 ''t'' OtlpLogs
      (Inr ([?r], attributed_summary)) example_service = ((200, body), s')"
    "has_room example_digest_bytes (rl_stores (rv_relay s'))" "relay_fits example_digest_bytes example_sha (rv_relay example_service)"
    "all_scheduled example_digest_bytes (rv_relay example_service)" "submits_valid example_sha example_timing [?r]"
    "no_legacy_retry example_digest_bytes (rl_stores (rv_relay example_service)) [?r]"
    by (rule example_upload [OF env(1) r(1-4), unfolded env(2)])
  have "relay_quality example_service = example_quality" by (simp add: relay_quality_def example_service_def)
  with cloud_success_durable [where env = example_relay_env and s = example_service, unfolded env, OF u(3-6,1,2)] u(1) r(5,6)
  show ?thesis by (auto simp: taken_def)
qed

end
