(* ===== verification/Otlp.thy ===== *)
theory Otlp
  imports CaptureNormalize Sharded
begin

text \<open>
  The reading of OTLP envelopes (\<open>turn_identity.rs\<close>): the shape of the containers, the attribute
  lists and their duplicates, the native identity attributes, and the visitor that hands each record
  to a caller with the attributes of its resource, scope and record merged.  A visitor that fails
  ends the walk; its callers drop the state with the error.
\<close>

section \<open>Containers\<close>

definition otlp_fields :: "string \<Rightarrow> (string \<times> string \<times> string \<times> string) option" where
  "otlp_fields endpoint =
     (if endpoint = ''otlp_logs'' then Some (''otlp_logs'', ''resourceLogs'', ''scopeLogs'', ''logRecords'')
      else if endpoint = ''otlp_traces'' then Some (''otlp_traces'', ''resourceSpans'', ''scopeSpans'', ''spans'')
      else None)"

text \<open>\<open>{n}\<close> between brackets.\<close>

definition indexed :: "string \<Rightarrow> nat \<Rightarrow> string" where
  "indexed path n = path @ ''['' @ nat_dec n @ '']''"

definition optional_otlp_array :: "json option \<Rightarrow> string \<Rightarrow> string + json list" where
  "optional_otlp_array value path =
     (case value of
        None \<Rightarrow> Inr []
      | Some Null \<Rightarrow> Inr []
      | Some (Array items) \<Rightarrow> Inr items
      | Some _ \<Rightarrow> Inl (''OTLP '' @ path @ '' must be an array''))"

definition require_object :: "string \<Rightarrow> json \<Rightarrow> string + unit" where
  "require_object path v = demand (is_obj v) (''OTLP '' @ path @ '' must be an object'')"

definition validate_scope :: "string \<Rightarrow> string \<Rightarrow> nat \<times> json \<Rightarrow> string + unit" where
  "validate_scope scope_path records item =
     rbind (require_object (indexed scope_path (fst item)) (snd item)) (\<lambda>_.
     let record_path = indexed scope_path (fst item) @ ''.'' @ records in
     rbind (optional_otlp_array (jget (snd item) records) record_path) (\<lambda>items.
     for_each (\<lambda>r. require_object (indexed record_path (fst r)) (snd r)) (enumerate 0 items)))"

definition validate_resource :: "string \<Rightarrow> string \<Rightarrow> string \<Rightarrow> nat \<times> json \<Rightarrow> string + unit" where
  "validate_resource resources scopes records item =
     rbind (require_object (indexed resources (fst item)) (snd item)) (\<lambda>_.
     let scope_path = indexed resources (fst item) @ ''.'' @ scopes in
     rbind (optional_otlp_array (jget (snd item) scopes) scope_path) (\<lambda>items.
     for_each (validate_scope scope_path records) (enumerate 0 items)))"

definition validate_otlp_structure :: "string \<Rightarrow> json \<Rightarrow> string + unit" where
  "validate_otlp_structure endpoint raw =
     (case otlp_fields endpoint of
        None \<Rightarrow> Inr ()
      | Some (_, resources, scopes, records) \<Rightarrow>
          rbind (ok_or (''OTLP body requires '' @ resources @ '' array'') (Option.bind (jget raw resources) as_array))
            (\<lambda>items. for_each (validate_resource resources scopes records) (enumerate 0 items)))"


section \<open>Attributes\<close>

definition session_attributes :: "string list" where
  "session_attributes = [''conversation.id'', ''session.id'', ''session_id'', ''conversation_id'', ''codex.session_id'']"

definition turn_attributes :: "string list" where
  "turn_attributes = [''turn.id'', ''turn_id'', ''codex.turn_id'']"

definition root_turn_attributes :: "string list" where
  "root_turn_attributes = [''root_turn.id'', ''root_turn_id'', ''codex.root_turn_id'']"

definition is_identity_attribute :: "string \<Rightarrow> bool" where
  "is_identity_attribute key \<longleftrightarrow>
     key \<in> set session_attributes \<or> key \<in> set turn_attributes \<or> key \<in> set root_turn_attributes \<or> key = ''thread_id''"

definition is_lifecycle_attribute :: "string \<Rightarrow> bool" where
  "is_lifecycle_attribute key \<longleftrightarrow> key \<in> set [''outcome'', ''status'', ''tool_status'', ''toolStatus'']"

text \<open>\<open>{s:?}\<close> of a string of plain letters.\<close>

definition quoted :: "string \<Rightarrow> string" where
  "quoted s = [CHR 0x22] @ s @ [CHR 0x22]"

definition quoted_list :: "string list \<Rightarrow> string" where
  "quoted_list xs = ''['' @ join '', '' (map quoted xs) @ '']''"

definition otlp_message_attributes :: "json option \<Rightarrow> string \<Rightarrow> string + json option" where
  "otlp_message_attributes message field =
     (case message of
        None \<Rightarrow> Inr None
      | Some Null \<Rightarrow> Inr None
      | Some (Object members) \<Rightarrow> Inr (tget members ''attributes'')
      | Some _ \<Rightarrow> Inl (''OTLP '' @ field @ '' must be an object''))"

text \<open>OS thread numbers and Session UUIDs share the key \<open>thread.id\<close>; neither is interpreted.\<close>

definition otlp_attribute_key :: "json \<Rightarrow> string option" where
  "otlp_attribute_key attribute =
     (case get_str attribute ''key'' of None \<Rightarrow> None | Some key \<Rightarrow> if key = ''thread.id'' then None else Some key)"

definition known_code_mode_outcome_update :: "json option \<Rightarrow> json option \<Rightarrow> bool" where
  "known_code_mode_outcome_update previous current \<longleftrightarrow>
     Option.bind previous (\<lambda>v. get_str v ''stringValue'') = Some ''interrupted''
     \<and> Option.bind current (\<lambda>v. get_str v ''stringValue'') \<in> {Some ''completed'', Some ''failed''}"

text \<open>Two \<open>Option<&Value>\<close> are equal.\<close>

definition same_value :: "json option \<Rightarrow> json option \<Rightarrow> bool" where
  "same_value x y = (case (x, y) of (None, None) \<Rightarrow> True | (Some v, Some w) \<Rightarrow> json_eq v w | _ \<Rightarrow> False)"

definition validate_attribute ::
  "bool \<Rightarrow> bool \<Rightarrow> nat \<times> json \<Rightarrow> (string, nat \<times> json option) table \<Rightarrow> string + (string, nat \<times> json option) table" where
  "validate_attribute allow_code allow_lifecycle item seen =
     rbind (require_object (indexed ''attributes'' (fst item)) (snd item)) (\<lambda>_.
     case otlp_attribute_key (snd item) of
       None \<Rightarrow> Inr seen
     | Some key \<Rightarrow>
         (let value = jget (snd item) ''value''; seen' = tput key (fst item, value) seen
          in case tget seen key of
               None \<Rightarrow> Inr seen'
             | Some (previous_index, previous) \<Rightarrow>
                 if same_value previous value then Inr seen'
                 else if allow_code \<and> prefix ''code.'' key then Inr seen'
                 else if allow_lifecycle \<and> key = ''outcome'' \<and> known_code_mode_outcome_update previous value then Inr seen'
                 else if is_lifecycle_attribute key
                 then Inl (''OTLP has conflicting duplicate lifecycle attribute '' @ quoted key)
                 else if is_identity_attribute key \<or> key = ''codex.context_scope'' \<or> key = ''event.name''
                 then Inl (''OTLP has conflicting duplicate context attribute '' @ quoted key)
                 else Inl (''conflicting duplicate OTLP attribute at '' @ indexed ''attributes'' previous_index
                           @ '' and '' @ indexed ''attributes'' (fst item))))"

definition validate_otlp_attributes_mode :: "json option \<Rightarrow> bool \<Rightarrow> bool \<Rightarrow> string + unit" where
  "validate_otlp_attributes_mode value allow_code allow_lifecycle =
     rbind (optional_otlp_array value ''attributes'') (\<lambda>items.
     rbind (try_fold (validate_attribute allow_code allow_lifecycle) (enumerate 0 items) []) (\<lambda>_. Inr ()))"

definition validate_otlp_attributes :: "json option \<Rightarrow> string + unit" where
  "validate_otlp_attributes value = validate_otlp_attributes_mode value False False"

text \<open>\<open>value.and_then(Value::as_array).into_iter().flatten()\<close>\<close>

definition items_of :: "json option \<Rightarrow> json list" where
  "items_of value = (case Option.bind value as_array of None \<Rightarrow> [] | Some xs \<Rightarrow> xs)"

definition int_dec :: "int \<Rightarrow> string" where
  "int_dec i = (if i < 0 then CHR ''-'' # nat_dec (nat (- i)) else nat_dec (nat i))"

definition attribute_text :: "json \<Rightarrow> string option" where
  "attribute_text value =
     Option.bind (or_else (jget value ''stringValue'') (jget value ''intValue'')) (\<lambda>parsed.
       or_else (as_str parsed) (map_option int_dec (as_i64 parsed)))"

text \<open>\<open>.collect()\<close> into a \<open>BTreeMap\<close>, and \<open>extend\<close>.\<close>

definition put_all :: "('k::linorder \<times> 'v) list \<Rightarrow> ('k, 'v) table \<Rightarrow> ('k, 'v) table" where
  "put_all kvs t = fold (\<lambda>kv. tput (fst kv) (snd kv)) kvs t"

definition text_attribute :: "json \<Rightarrow> (string \<times> string) option" where
  "text_attribute attribute =
     Option.bind (otlp_attribute_key attribute) (\<lambda>key.
     map_option (Pair key) (Option.bind (jget attribute ''value'') attribute_text))"

definition attributes_for_endpoint :: "string \<Rightarrow> json option \<Rightarrow> string option \<Rightarrow> string + (string, string) table" where
  "attributes_for_endpoint endpoint value record_name =
     rbind (validate_otlp_attributes_mode value (endpoint = ''otlp_traces'')
              (endpoint = ''otlp_traces'' \<and> record_name = Some ''code_mode.handler.execute'')) (\<lambda>_.
     Inr (put_all (List.map_filter text_attribute (items_of value)) []))"


section \<open>Native identity\<close>

text \<open>The distinct non-blank values under the keys; more than one is an error.\<close>

definition unique_attribute :: "(string, string) table \<Rightarrow> string list \<Rightarrow> string + string option" where
  "unique_attribute attributes keys =
     (case remdups (filter (\<lambda>v. \<not> blank v) (List.map_filter (tget attributes) keys)) of
        [] \<Rightarrow> Inr None
      | [v] \<Rightarrow> Inr (Some v)
      | _ \<Rightarrow> Inl (''OTLP has conflicting explicit identity aliases: '' @ quoted_list keys))"

definition is_uuid :: "string \<Rightarrow> bool" where
  "is_uuid s \<longleftrightarrow> length s = 36
     \<and> list_all (\<lambda>(i, b). if i \<in> {8, 13, 18, 23} then b = CHR ''-'' else is_hexdigit b) (enumerate 0 s)"

definition session_attribute :: "(string, string) table \<Rightarrow> string + string option" where
  "session_attribute attributes =
     rbind (unique_attribute attributes session_attributes) (\<lambda>explicit.
     let native_thread = (case tget attributes ''thread_id'' of
                            None \<Rightarrow> None | Some s \<Rightarrow> if is_uuid s then Some s else None)
     in if explicit \<noteq> None \<and> native_thread \<noteq> None \<and> explicit \<noteq> native_thread
        then Inl ''OTLP native thread_id conflicts with its explicit Session''
        else Inr (or_else explicit native_thread))"

definition turn_attribute :: "(string, string) table \<Rightarrow> string + string option" where
  "turn_attribute attributes =
     rbind (unique_attribute attributes turn_attributes) (\<lambda>native.
     rbind (unique_attribute attributes root_turn_attributes) (\<lambda>root.
     Inr (or_else native root)))"

text \<open>The identity rules on the three layers of a log record, before it is given an owner.\<close>

definition identity_scalar :: "json \<Rightarrow> (string \<times> string) option" where
  "identity_scalar attribute =
     Option.bind (get_str attribute ''key'') (\<lambda>key.
       if is_identity_attribute key
       then map_option (Pair key) (Option.bind (jget attribute ''value'') attribute_text) else None)"

definition merge_identity_layer :: "json option \<Rightarrow> (string, string) table \<Rightarrow> string + (string, string) table" where
  "merge_identity_layer layer merged =
     rbind (validate_otlp_attributes layer) (\<lambda>_.
     Inr (put_all (List.map_filter identity_scalar (items_of layer)) merged))"

definition validate_otlp_identity_layers :: "json option list \<Rightarrow> string + unit" where
  "validate_otlp_identity_layers layers =
     rbind (try_fold merge_identity_layer layers []) (\<lambda>merged.
     rbind (session_attribute merged) (\<lambda>_.
     rbind (turn_attribute merged) (\<lambda>_. Inr ())))"


section \<open>The visitor\<close>

type_synonym 's otlp_visit = "string \<Rightarrow> json \<Rightarrow> (string, string) table \<Rightarrow> 's \<Rightarrow> string + 's"

definition visit_record :: "string \<Rightarrow> string \<Rightarrow> (string, string) table \<Rightarrow> 's otlp_visit \<Rightarrow> json \<Rightarrow> 's \<Rightarrow> string + 's" where
  "visit_record endpoint source scoped visit record s =
     rbind (attributes_for_endpoint endpoint (jget record ''attributes'') (get_str record ''name'')) (\<lambda>own.
     visit source record (put_all own scoped) s)"

definition visit_scope ::
  "string \<Rightarrow> string \<Rightarrow> string \<Rightarrow> (string, string) table \<Rightarrow> 's otlp_visit \<Rightarrow> json \<Rightarrow> 's \<Rightarrow> string + 's" where
  "visit_scope endpoint source records resource_attributes visit scope s =
     rbind (otlp_message_attributes (jget scope ''scope'') ''scope'') (\<lambda>value.
     rbind (attributes_for_endpoint endpoint value None) (\<lambda>own.
     try_fold (visit_record endpoint source (put_all own resource_attributes) visit) (items_of (jget scope records)) s))"

definition visit_resource ::
  "string \<Rightarrow> string \<Rightarrow> string \<Rightarrow> string \<Rightarrow> 's otlp_visit \<Rightarrow> json \<Rightarrow> 's \<Rightarrow> string + 's" where
  "visit_resource endpoint source scopes records visit resource s =
     rbind (otlp_message_attributes (jget resource ''resource'') ''resource'') (\<lambda>value.
     rbind (attributes_for_endpoint endpoint value None) (\<lambda>own.
     try_fold (visit_scope endpoint source records own visit) (items_of (jget resource scopes)) s))"

definition visit_otlp_envelope :: "string \<Rightarrow> json \<Rightarrow> 's otlp_visit \<Rightarrow> 's \<Rightarrow> string + 's" where
  "visit_otlp_envelope endpoint raw visit s =
     (case otlp_fields endpoint of
        None \<Rightarrow> Inr s
      | Some (source, resources, scopes, records) \<Rightarrow>
          rbind (validate_otlp_structure endpoint raw) (\<lambda>_.
          try_fold (visit_resource endpoint source scopes records visit) (items_of (jget raw resources)) s))"

text \<open>The raw envelope of a stored telemetry batch.\<close>

definition raw_batch :: "(string \<Rightarrow> json option) \<Rightarrow> json \<Rightarrow> string + json" where
  "raw_batch parse capture =
     ok_or ''invalid JSON''
       (parse (case ptr_str capture [''telemetryBatch'', ''raw_json''] of None \<Rightarrow> ''{}'' | Some raw \<Rightarrow> raw))"

definition visit_otlp :: "(string \<Rightarrow> json option) \<Rightarrow> json \<Rightarrow> 's otlp_visit \<Rightarrow> 's \<Rightarrow> string + 's" where
  "visit_otlp parse capture visit s =
     (case ptr_str capture [''telemetryBatch'', ''endpoint''] of
        Some endpoint \<Rightarrow>
          (if endpoint = ''otlp_logs'' \<or> endpoint = ''otlp_traces''
           then rbind (raw_batch parse capture) (\<lambda>raw. visit_otlp_envelope endpoint raw visit s)
           else Inr s)
      | None \<Rightarrow> Inr s)"

end
