(* ===== verification/TurnIdentity.thy ===== *)
theory TurnIdentity
  imports Otlp "HOL-Library.Product_Lexorder"
begin

text \<open>
  The exact attribution of OTLP records to native Turns (\<open>turn_identity.rs\<close>, \<open>ExactTurnIndex\<close>): what
  the index observes, the two walks up the chain of parent spans, the source-declared scope of a
  record and the Turn it is resolved to.  A \<open>BTreeSet\<close> is a set, a \<open>BTreeMap\<close> a table.
\<close>

section \<open>Scopes\<close>

datatype scope_kind = ProcessKind | SessionKind | TurnKind

instantiation scope_kind :: linorder
begin

fun scope_rank :: "scope_kind \<Rightarrow> nat" where
  "scope_rank ProcessKind = 0"
| "scope_rank SessionKind = 1"
| "scope_rank TurnKind = 2"

definition less_eq_scope_kind :: "scope_kind \<Rightarrow> scope_kind \<Rightarrow> bool" where
  "j \<le> k \<longleftrightarrow> scope_rank j \<le> scope_rank k"

definition less_scope_kind :: "scope_kind \<Rightarrow> scope_kind \<Rightarrow> bool" where
  "j < k \<longleftrightarrow> scope_rank j < scope_rank k"

instance
proof
  have inj: "scope_rank j = scope_rank k \<Longrightarrow> j = k" for j k by (cases j; cases k) simp_all
  show "j \<le> k \<Longrightarrow> k \<le> j \<Longrightarrow> j = k" for j k :: scope_kind by (auto simp: less_eq_scope_kind_def intro: inj)
qed (auto simp: less_eq_scope_kind_def less_scope_kind_def)

end

datatype source_scope = ProcessScope | SessionScope "string option" | TurnScope

type_synonym native_turn = "string \<times> string"
type_synonym span_key = "string \<times> string"

record trace_scope =
  ts_sessions :: "string set"
  ts_turns :: "string set"
  ts_process :: bool

record span_scope =
  ss_sessions :: "string set"
  ss_turns :: "string set"
  ss_parents :: "span_key set"
  ss_kinds :: "scope_kind set"

record turn_index =
  ti_native :: "(string, native_turn set) table"
  ti_traces :: "(string, trace_scope) table"
  ti_spans :: "(span_key, span_scope) table"
  ti_track_parents :: bool

definition empty_index :: "bool \<Rightarrow> turn_index" where
  "empty_index track_parents =
     \<lparr>ti_native = [], ti_traces = [], ti_spans = [], ti_track_parents = track_parents\<rparr>"

definition for_turns :: turn_index where
  "for_turns = empty_index True"

definition include_global_scopes :: "turn_index \<Rightarrow> turn_index \<Rightarrow> turn_index" where
  "include_global_scopes global idx =
     idx\<lparr>ti_native := ti_native global, ti_traces := ti_traces global, ti_spans := ti_spans global\<rparr>"

text \<open>\<open>BTreeSet::first\<close>.\<close>

definition first_of :: "'a::linorder set \<Rightarrow> 'a option" where
  "first_of S = (if S = {} then None else Some (Min S))"


section \<open>Reading identifiers\<close>

definition text_of :: "json option \<Rightarrow> string option" where
  "text_of value = non_blank (Option.bind value as_str)"

definition hex_id :: "json option \<Rightarrow> nat \<Rightarrow> string option" where
  "hex_id value n =
     (case text_of value of
        None \<Rightarrow> None
      | Some v \<Rightarrow> if length v = n \<and> list_all is_hexdigit v \<and> list_ex (\<lambda>b. b \<noteq> CHR ''0'') v
                  then Some (to_ascii_lowercase v) else None)"

definition capture_session :: "json \<Rightarrow> string option" where
  "capture_session capture =
     or_else (text_of (pointer capture [''traceContext'', ''source_session_id'']))
       (or_else (text_of (pointer capture [''lifecycleEvent'', ''source_event'', ''session_id'']))
          (text_of (pointer capture [''traceContext'', ''session_id''])))"

definition source_scope_attribute :: "(string, string) table \<Rightarrow> string + scope_kind option" where
  "source_scope_attribute attributes =
     (case tget attributes ''codex.context_scope'' of
        None \<Rightarrow> Inr None
      | Some s \<Rightarrow>
          (if s = [] then Inr None
           else if s = ''process'' then Inr (Some ProcessKind)
           else if s = ''session'' then Inr (Some SessionKind)
           else if s = ''turn'' then Inr (Some TurnKind)
           else Inl ''OTLP has an unsupported explicit source scope''))"


section \<open>Observing\<close>

record observation =
  ob_session :: "string option"
  ob_turn :: "string option"
  ob_trace :: "string option"
  ob_span :: "string option"
  ob_parent :: "string option"
  ob_kind :: "scope_kind option"

text \<open>\<open>entry(k).or_default()\<close>, changed in place.\<close>

definition update_entry :: "'v \<Rightarrow> ('v \<Rightarrow> 'v) \<Rightarrow> 'k::linorder \<Rightarrow> ('k, 'v) table \<Rightarrow> ('k, 'v) table" where
  "update_entry d f k t = tput k (f (case tget t k of None \<Rightarrow> d | Some v \<Rightarrow> v)) t"

definition empty_trace :: trace_scope where
  "empty_trace = \<lparr>ts_sessions = {}, ts_turns = {}, ts_process = False\<rparr>"

definition empty_span :: span_scope where
  "empty_span = \<lparr>ss_sessions = {}, ss_turns = {}, ss_parents = {}, ss_kinds = {}\<rparr>"

definition observe_native :: "observation \<Rightarrow> turn_index \<Rightarrow> turn_index" where
  "observe_native ob idx =
     (case (ob_session ob, ob_turn ob) of
        (Some s, Some t) \<Rightarrow> idx\<lparr>ti_native := update_entry {} (insert (s, t)) t (ti_native idx)\<rparr>
      | _ \<Rightarrow> idx)"

definition observe_trace :: "observation \<Rightarrow> trace_scope \<Rightarrow> trace_scope" where
  "observe_trace ob scope =
     scope\<lparr>ts_sessions := ts_sessions scope \<union> set_option (ob_session ob),
           ts_turns := ts_turns scope \<union> set_option (ob_turn ob),
           ts_process := (ts_process scope \<or> ob_kind ob = Some ProcessKind)\<rparr>"

definition observe_span :: "string \<Rightarrow> observation \<Rightarrow> span_scope \<Rightarrow> span_scope" where
  "observe_span trace ob scope =
     scope\<lparr>ss_sessions := ss_sessions scope \<union> set_option (ob_session ob),
           ss_turns := ss_turns scope \<union> set_option (ob_turn ob),
           ss_parents := ss_parents scope \<union> Pair trace ` set_option (ob_parent ob),
           ss_kinds := ss_kinds scope \<union> set_option (ob_kind ob)\<rparr>"

text \<open>The span an observation is filed under.\<close>

definition filed_span :: "bool \<Rightarrow> observation \<Rightarrow> string option" where
  "filed_span track_parents ob =
     (if track_parents \<or> ob_turn ob \<noteq> None \<or> ob_kind ob \<noteq> None then ob_span ob else None)"

definition observe :: "observation \<Rightarrow> turn_index \<Rightarrow> turn_index" where
  "observe ob idx =
     (let idx = observe_native ob idx
      in case ob_trace ob of
           None \<Rightarrow> idx
         | Some trace \<Rightarrow>
             (let idx = idx\<lparr>ti_traces := update_entry empty_trace (observe_trace ob) trace (ti_traces idx)\<rparr>
              in case filed_span (ti_track_parents idx) ob of
                   None \<Rightarrow> idx
                 | Some span \<Rightarrow>
                     idx\<lparr>ti_spans := update_entry empty_span (observe_span trace ob) (trace, span) (ti_spans idx)\<rparr>))"

definition capture_observation :: "json \<Rightarrow> observation" where
  "capture_observation capture =
     \<lparr>ob_session = capture_session capture,
      ob_turn = or_else (text_of (pointer capture [''traceContext'', ''turn_id'']))
                  (or_else (text_of (pointer capture [''lifecycleEvent'', ''source_event'', ''turn_id'']))
                     (text_of (pointer capture [''traceContext'', ''root_turn_id'']))),
      ob_trace = hex_id (pointer capture [''traceContext'', ''trace_id'']) 32,
      ob_span = hex_id (pointer capture [''traceContext'', ''parent_span_id'']) 16,
      ob_parent = None, ob_kind = None\<rparr>"

definition hook_observation :: "json \<Rightarrow> observation" where
  "hook_observation raw =
     \<lparr>ob_session = text_of (jget raw ''session_id''), ob_turn = text_of (jget raw ''turn_id''),
      ob_trace = None, ob_span = None, ob_parent = None, ob_kind = None\<rparr>"

definition record_observation :: "json \<Rightarrow> (string, string) table \<Rightarrow> string + observation" where
  "record_observation record attributes =
     rbind (session_attribute attributes) (\<lambda>session.
     rbind (turn_attribute attributes) (\<lambda>turn.
     rbind (source_scope_attribute attributes) (\<lambda>kind.
     Inr \<lparr>ob_session = session, ob_turn = turn, ob_trace = hex_id (jget record ''traceId'') 32,
          ob_span = hex_id (jget record ''spanId'') 16, ob_parent = hex_id (jget record ''parentSpanId'') 16,
          ob_kind = kind\<rparr>)))"

definition observe_capture :: "(string \<Rightarrow> json option) \<Rightarrow> json \<Rightarrow> turn_index \<Rightarrow> string + turn_index" where
  "observe_capture parse capture idx =
     (let idx = observe (capture_observation capture) idx in
      rbind (if ptr_str capture [''telemetryBatch'', ''endpoint''] = Some ''codex_hook''
             then rbind (raw_batch parse capture) (\<lambda>raw. Inr (observe (hook_observation raw) idx))
             else Inr idx)
        (visit_otlp parse capture (\<lambda>_ record attributes idx.
           rbind (record_observation record attributes) (\<lambda>ob. Inr (observe ob idx)))))"


section \<open>The walks up the spans\<close>

definition candidates :: "turn_index \<Rightarrow> string set \<Rightarrow> string set \<Rightarrow> native_turn set" where
  "candidates idx sessions turns =
     Set.filter (\<lambda>p. sessions = {} \<or> fst p \<in> sessions)
       (\<Union>t \<in> turns. case tget (ti_native idx) t of None \<Rightarrow> {} | Some ps \<Rightarrow> ps)"

definition validate_span_scope :: "span_scope \<Rightarrow> string + unit" where
  "validate_span_scope scope =
     rbind (demand (card (ss_parents scope) \<le> 1) ''one OTLP span has conflicting explicit parents'') (\<lambda>_.
     rbind (demand (card (ss_sessions scope) \<le> 1 \<and> card (ss_turns scope) \<le> 1)
       ''one OTLP span has conflicting explicit native identities'') (\<lambda>_.
     rbind (demand (card (ss_kinds scope) \<le> 1) ''one OTLP span has conflicting explicit source scopes'') (\<lambda>_.
     rbind (demand (\<not> (ProcessKind \<in> ss_kinds scope \<and> (ss_sessions scope \<noteq> {} \<or> ss_turns scope \<noteq> {})))
       ''OTLP Process scope conflicts with native Session or Turn context'') (\<lambda>_.
     demand (\<not> (SessionKind \<in> ss_kinds scope \<and> ss_turns scope \<noteq> {}))
       ''OTLP Session scope conflicts with native Turn context''))))"

definition span_keys :: "turn_index \<Rightarrow> span_key set" where
  "span_keys idx = fst ` set (ti_spans idx)"

lemma unvisited_decreases:
  assumes "tget (ti_spans idx) k = Some scope" "k \<notin> visiting"
  shows "card (span_keys idx - insert k visiting) < card (span_keys idx - visiting)"
proof -
  have "k \<in> span_keys idx" using assms(1) by (force simp: span_keys_def dest: map_of_SomeD)
  with assms(2) show ?thesis by (intro psubset_card_mono) (auto simp: span_keys_def)
qed

lemma rbind_cong [fundef_cong]: "r = r' \<Longrightarrow> (\<And>v. r' = Inr v \<Longrightarrow> f v = g v) \<Longrightarrow> rbind r f = rbind r' g"
  by (cases r') auto

lemma try_fold_cong [fundef_cong]:
  "xs = ys \<Longrightarrow> s = t \<Longrightarrow> (\<And>x u. x \<in> set ys \<Longrightarrow> f x u = g x u) \<Longrightarrow> try_fold f xs s = try_fold g ys t"
  by (induction ys arbitrary: xs s t) (auto simp: rbind_def split: sum.splits)

text \<open>The recursion of \<open>span_candidates\<close>: the set of keys being visited bounds its depth.\<close>

function span_candidates :: "turn_index \<Rightarrow> span_key \<Rightarrow> span_key set \<Rightarrow> string + native_turn set" where
  "span_candidates idx key visiting =
     (case tget (ti_spans idx) key of
        None \<Rightarrow> Inr {}
      | Some scope \<Rightarrow>
          if key \<in> visiting then Inl ''OTLP span ancestry contains a cycle''
          else rbind (validate_span_scope scope) (\<lambda>_.
            let found = candidates idx (ss_sessions scope) (ss_turns scope)
            in if found = {} \<and> ss_turns scope = {} \<and> ss_kinds scope = {}
               then try_fold (\<lambda>parent found.
                      rbind (span_candidates idx parent (insert key visiting)) (\<lambda>inherited.
                      Inr (found \<union> Set.filter (\<lambda>p. ss_sessions scope = {} \<or> fst p \<in> ss_sessions scope) inherited)))
                    (sorted_list_of_set (ss_parents scope)) found
               else Inr found))"
  by pat_completeness auto
termination
  by (relation "measure (\<lambda>(idx, key, visiting). card (span_keys idx - visiting))")
    (auto intro: unvisited_decreases)

declare span_candidates.simps [simp del]

text \<open>The loop of \<open>span_source_scope\<close>: the nearest boundary and the Session it names.\<close>

function span_walk ::
  "turn_index \<Rightarrow> span_key option \<Rightarrow> span_key set \<Rightarrow> scope_kind option \<Rightarrow> string option
     \<Rightarrow> string + scope_kind option \<times> string option" where
  "span_walk idx None visiting boundary session = Inr (boundary, session)"
| "span_walk idx (Some current) visiting boundary session =
     (if current \<in> visiting then Inl ''OTLP span ancestry contains a cycle''
      else case tget (ti_spans idx) current of
             None \<Rightarrow> Inr (boundary, session)
           | Some scope \<Rightarrow>
               rbind (validate_span_scope scope) (\<lambda>_.
               let boundary' = (if boundary = None
                                then or_else (first_of (ss_kinds scope))
                                       (if ss_turns scope \<noteq> {} then Some TurnKind else None)
                                else boundary);
                   session' = (if boundary = None
                               then if boundary' = Some SessionKind then first_of (ss_sessions scope) else session
                               else if boundary = Some SessionKind \<and> session = None
                                 \<and> first_of (ss_kinds scope) = Some SessionKind
                               then first_of (ss_sessions scope) else session)
               in span_walk idx (first_of (ss_parents scope)) (insert current visiting) boundary' session'))"
  by pat_completeness auto
termination
proof (relation "measure (\<lambda>(idx, key, visiting, boundary, session).
    case key of None \<Rightarrow> 0 | Some _ \<Rightarrow> Suc (card (span_keys idx - visiting)))", goal_cases)
  case (2 idx current visiting boundary session scope)
  from unvisited_decreases [OF 2(2,1)] show ?case by (auto split: option.splits)
qed simp

declare span_walk.simps [simp del]

definition span_source_scope :: "turn_index \<Rightarrow> span_key \<Rightarrow> string + source_scope option" where
  "span_source_scope idx key =
     rbind (span_walk idx (Some key) {} None None) (\<lambda>(boundary, session).
     Inr (case boundary of
            None \<Rightarrow> None
          | Some ProcessKind \<Rightarrow> Some ProcessScope
          | Some SessionKind \<Rightarrow> Some (SessionScope session)
          | Some TurnKind \<Rightarrow> Some TurnScope))"


section \<open>Resolving\<close>

definition record_span :: "json \<Rightarrow> span_key option" where
  "record_span record =
     (case (hex_id (jget record ''traceId'') 32, hex_id (jget record ''spanId'') 16) of
        (Some trace, Some span) \<Rightarrow> Some (trace, span)
      | _ \<Rightarrow> None)"

text \<open>An explicit Session contradicts the one a boundary above names.\<close>

definition foreign_session :: "source_scope option \<Rightarrow> string option \<Rightarrow> bool" where
  "foreign_session inherited session =
     (case inherited of
        Some (SessionScope (Some parent)) \<Rightarrow> session \<noteq> None \<and> session \<noteq> Some parent
      | _ \<Rightarrow> False)"

definition source_scope_of ::
  "turn_index \<Rightarrow> json \<Rightarrow> (string, string) table \<Rightarrow> string + source_scope option" where
  "source_scope_of idx record attributes =
     rbind (case record_span record of None \<Rightarrow> Inr None | Some key \<Rightarrow> span_source_scope idx key) (\<lambda>inherited.
     rbind (session_attribute attributes) (\<lambda>session.
     rbind (turn_attribute attributes) (\<lambda>turn.
     rbind (source_scope_attribute attributes) (\<lambda>kind.
     let in_session = (\<exists>s \<in> set_option inherited. case s of SessionScope _ \<Rightarrow> True | _ \<Rightarrow> False) in
     case kind of
       Some ProcessKind \<Rightarrow>
         rbind (demand (\<not> (session \<noteq> None \<or> turn \<noteq> None \<or> in_session \<or> inherited = Some TurnScope))
           ''OTLP Process scope conflicts with native Session or Turn context'') (\<lambda>_.
         Inr (Some ProcessScope))
     | Some SessionKind \<Rightarrow>
         rbind (demand (\<not> (turn \<noteq> None \<or> inherited = Some ProcessScope \<or> inherited = Some TurnScope))
           ''OTLP Session scope conflicts with native Turn context'') (\<lambda>_.
         rbind (demand (\<not> foreign_session inherited session)
           ''OTLP explicit Session conflicts with inherited source scope'') (\<lambda>_.
         Inr (Some (SessionScope session))))
     | Some TurnKind \<Rightarrow>
         rbind (demand (\<not> (inherited = Some ProcessScope \<or> in_session))
           ''OTLP Turn scope conflicts with inherited Process or Session context'') (\<lambda>_.
         Inr (Some TurnScope))
     | None \<Rightarrow>
         (if turn \<noteq> None
          then rbind (demand (inherited \<noteq> Some ProcessScope)
                 ''OTLP native Turn identity conflicts with inherited Process context'') (\<lambda>_.
               Inr (Some TurnScope))
          else rbind (demand (\<not> (inherited = Some ProcessScope \<and> session \<noteq> None))
                 ''OTLP native identity conflicts with inherited Process context'') (\<lambda>_.
               rbind (demand (\<not> foreign_session inherited session)
                 ''OTLP explicit Session conflicts with inherited source scope'') (\<lambda>_.
               Inr inherited)))))))"

definition identity_agrees :: "string option \<Rightarrow> string option \<Rightarrow> native_turn \<Rightarrow> bool" where
  "identity_agrees session turn p \<longleftrightarrow> session \<in> {None, Some (fst p)} \<and> turn \<in> {None, Some (snd p)}"

definition single :: "'a::linorder set \<Rightarrow> 'a option" where
  "single S = (if card S = 1 then first_of S else None)"

text \<open>The Turns a record may belong to when its span names no single one.\<close>

definition shared_candidates ::
  "turn_index \<Rightarrow> native_turn set \<Rightarrow> string option \<Rightarrow> string option \<Rightarrow> native_turn set" where
  "shared_candidates idx span_matches trace turn =
     (if span_matches \<noteq> {} then span_matches
      else case Option.bind trace (tget (ti_traces idx)) of
             Some scope \<Rightarrow> candidates idx (ts_sessions scope) (ts_turns scope)
           | None \<Rightarrow>
               (case turn of
                  None \<Rightarrow> {}
                | Some t \<Rightarrow> (case tget (ti_native idx) t of None \<Rightarrow> {} | Some ps \<Rightarrow> ps)))"

definition resolve ::
  "turn_index \<Rightarrow> json \<Rightarrow> (string, string) table \<Rightarrow> string + native_turn option" where
  "resolve idx record attributes =
     rbind (session_attribute attributes) (\<lambda>session.
     rbind (turn_attribute attributes) (\<lambda>turn.
     rbind (source_scope_of idx record attributes) (\<lambda>scope.
     rbind (case record_span record of None \<Rightarrow> Inr {} | Some key \<Rightarrow> span_candidates idx key {}) (\<lambda>span_matches.
     case single span_matches of
       Some matched \<Rightarrow>
         rbind (demand (identity_agrees session turn matched)
           ''OTLP explicit identity conflicts with its exact Span context'') (\<lambda>_.
         Inr (Some matched))
     | None \<Rightarrow>
         (case (session, turn) of
            (Some s, Some t) \<Rightarrow> Inr (Some (s, t))
          | _ \<Rightarrow>
              if scope \<noteq> None \<and> span_matches = {} \<and> turn = None then Inr None
              else Inr (single (Set.filter (identity_agrees session turn)
                     (shared_candidates idx span_matches (hex_id (jget record ''traceId'') 32) turn))))))))"

definition unresolved_reason :: "turn_index \<Rightarrow> json \<Rightarrow> (string, string) table \<Rightarrow> string + string" where
  "unresolved_reason idx record attributes =
     rbind (turn_attribute attributes) (\<lambda>turn.
     if turn \<noteq> None \<and> Option.bind turn (tget (ti_native idx)) = None then Inr ''unknown_turn_owner''
     else case hex_id (jget record ''traceId'') 32 of
       None \<Rightarrow> Inr ''missing_trace_context''
     | Some trace \<Rightarrow>
         (case tget (ti_traces idx) trace of
            None \<Rightarrow> Inr ''unobserved_trace_context''
          | Some scope \<Rightarrow>
              (if ts_turns scope = {} then Inr ''trace_without_native_turn''
               else if 1 < card (candidates idx (ts_sessions scope) (ts_turns scope)) then Inr ''ambiguous_turn_context''
               else Inr ''unresolved_turn_context'')))"

definition record_sessions :: "turn_index \<Rightarrow> json \<Rightarrow> (string, string) table \<Rightarrow> string + string set" where
  "record_sessions idx record attributes =
     rbind (session_attribute attributes) (\<lambda>session.
     rbind (source_scope_of idx record attributes) (\<lambda>scope.
     case scope of
       Some ProcessScope \<Rightarrow> Inr {}
     | Some (SessionScope s) \<Rightarrow> Inr (set_option session \<union> set_option s)
     | _ \<Rightarrow>
         rbind (turn_attribute attributes) (\<lambda>turn.
         Inr (set_option session
           \<union> (case Option.bind turn (tget (ti_native idx)) of None \<Rightarrow> {} | Some ps \<Rightarrow> fst ` ps)
           \<union> (case Option.bind (hex_id (jget record ''traceId'') 32) (tget (ti_traces idx)) of
                None \<Rightarrow> {}
              | Some trace \<Rightarrow> ts_sessions trace \<union> fst ` candidates idx {} (ts_turns trace))))))"

definition capture_sessions :: "(string \<Rightarrow> json option) \<Rightarrow> turn_index \<Rightarrow> json \<Rightarrow> string + string set" where
  "capture_sessions parse idx capture =
     visit_otlp parse capture (\<lambda>_ record attributes sessions.
       rbind (record_sessions idx record attributes) (\<lambda>own. Inr (sessions \<union> own)))
       (set_option (capture_session capture))"

definition capture_has_process_scope :: "(string \<Rightarrow> json option) \<Rightarrow> turn_index \<Rightarrow> json \<Rightarrow> string + bool" where
  "capture_has_process_scope parse idx capture =
     visit_otlp parse capture (\<lambda>_ record attributes process.
       rbind (source_scope_of idx record attributes) (\<lambda>scope.
       Inr (process \<or> scope = Some ProcessScope
            \<or> (case Option.bind (hex_id (jget record ''traceId'') 32) (tget (ti_traces idx)) of
                 None \<Rightarrow> False | Some trace \<Rightarrow> ts_process trace))))
       False"

definition capture_has_unknown_session :: "(string \<Rightarrow> json option) \<Rightarrow> turn_index \<Rightarrow> json \<Rightarrow> string + bool" where
  "capture_has_unknown_session parse idx capture =
     visit_otlp parse capture (\<lambda>_ record attributes unknown.
       rbind (record_sessions idx record attributes) (\<lambda>sessions.
       if sessions \<noteq> {} then Inr unknown
       else rbind (source_scope_of idx record attributes) (\<lambda>scope.
            Inr (unknown \<or> scope \<noteq> Some ProcessScope))))
       False"

end
