(* ===== verification/TurnTheorems.thy ===== *)
theory TurnTheorems
  imports TurnIdentity
begin

text \<open>
  The attribution of OTLP records: an index does not depend on the order in which it observes, the
  walk up the spans ends, a record inside a Process or Session boundary gets no Turn, and a Turn that
  is given was named by the record or observed natively.
\<close>

section \<open>The order of observations\<close>

lemma tput_commute: "k \<noteq> l \<Longrightarrow> tput k v (tput l w t) = tput l w (tput k v t)"
  by (induction t) auto

lemma tput_present: "tput k v (tput k w t) = tput k v t"
  by (induction t) auto

lemma update_entry_commute:
  assumes "k = l \<Longrightarrow> f \<circ> g = g \<circ> f"
  shows "update_entry d f k (update_entry d g l t) = update_entry d g l (update_entry d f k t)"
proof (cases "k = l")
  case True
  then have "f (g v) = g (f v)" for v using assms by (metis comp_apply)
  with True show ?thesis by (simp add: update_entry_def tput_present)
next
  case False
  then show ?thesis by (simp add: update_entry_def tput_commute)
qed

text \<open>What an observation does to each part of the index.\<close>

definition native_update :: "observation \<Rightarrow> (string, native_turn set) table \<Rightarrow> (string, native_turn set) table" where
  "native_update ob t =
     (case (ob_session ob, ob_turn ob) of
        (Some s, Some u) \<Rightarrow> update_entry {} (insert (s, u)) u t | _ \<Rightarrow> t)"

definition trace_update :: "observation \<Rightarrow> (string, trace_scope) table \<Rightarrow> (string, trace_scope) table" where
  "trace_update ob t = (case ob_trace ob of None \<Rightarrow> t | Some k \<Rightarrow> update_entry empty_trace (observe_trace ob) k t)"

definition span_update ::
  "bool \<Rightarrow> observation \<Rightarrow> (span_key, span_scope) table \<Rightarrow> (span_key, span_scope) table" where
  "span_update track ob t =
     (case (ob_trace ob, filed_span track ob) of
        (Some k, Some span) \<Rightarrow> update_entry empty_span (observe_span k ob) (k, span) t | _ \<Rightarrow> t)"

lemma observe_parts:
  "observe ob idx =
     \<lparr>ti_native = native_update ob (ti_native idx), ti_traces = trace_update ob (ti_traces idx),
      ti_spans = span_update (ti_track_parents idx) ob (ti_spans idx), ti_track_parents = ti_track_parents idx\<rparr>"
  by (cases idx)
    (simp add: observe_def observe_native_def native_update_def trace_update_def span_update_def Let_def
      split: option.split)

lemma native_update_commute: "native_update a (native_update b t) = native_update b (native_update a t)"
  by (auto simp: native_update_def insert_commute intro!: update_entry_commute ext split: option.split)

lemma observe_trace_commute: "observe_trace a \<circ> observe_trace b = observe_trace b \<circ> observe_trace a"
proof
  show "(observe_trace a \<circ> observe_trace b) x = (observe_trace b \<circ> observe_trace a) x" for x
    by (cases x) (simp add: observe_trace_def Un_ac disj_ac)
qed

lemma observe_span_commute: "observe_span k a \<circ> observe_span k b = observe_span k b \<circ> observe_span k a"
proof
  show "(observe_span k a \<circ> observe_span k b) x = (observe_span k b \<circ> observe_span k a) x" for x
    by (cases x) (simp add: observe_span_def Un_ac)
qed

lemma trace_update_commute: "trace_update a (trace_update b t) = trace_update b (trace_update a t)"
  by (auto simp: trace_update_def intro!: update_entry_commute observe_trace_commute split: option.split)

lemma span_update_commute: "span_update track a (span_update track b t) = span_update track b (span_update track a t)"
  by (auto simp: span_update_def intro!: update_entry_commute observe_span_commute split: option.split)

lemma observe_commute: "observe a (observe b idx) = observe b (observe a idx)"
  by (simp add: observe_parts native_update_commute trace_update_commute span_update_commute)

lemma observe_all_commute: "mset xs = mset ys \<Longrightarrow> fold observe xs idx = fold observe ys idx"
proof -
  assume "mset xs = mset ys"
  then have "fold observe xs = fold observe ys"
    by (intro fold_multiset_equiv) (simp_all add: fun_eq_iff observe_commute)
  then show ?thesis by simp
qed


section \<open>What a Capture adds\<close>

text \<open>A visitor that only maps the state of another one.\<close>

definition mapped :: "('a \<Rightarrow> 'b) \<Rightarrow> string + 'a \<Rightarrow> string + 'b" where
  "mapped h r = rbind r (\<lambda>x. Inr (h x))"

lemma mapped_simps [simp]: "mapped h (Inl e) = Inl e" "mapped h (Inr x) = Inr (h x)"
  by (simp_all add: mapped_def)

lemma mapped_rbind: "rbind r (\<lambda>x. mapped h (f x)) = mapped h (rbind r f)"
  by (cases r) simp_all

lemma try_fold_mapped:
  assumes "\<And>x a. f x (h a) = mapped h (g x a)"
  shows "try_fold f xs (h a) = mapped h (try_fold g xs a)"
proof (induction xs arbitrary: a)
  case (Cons x xs)
  show ?case using Cons by (cases "g x a") (simp_all add: assms)
qed simp

lemma visit_otlp_mapped:
  assumes "\<And>source record attributes a. v source record attributes (h a) = mapped h (w source record attributes a)"
  shows "visit_otlp parse capture v (h a) = mapped h (visit_otlp parse capture w a)"
proof -
  have one: "visit_record ep source scoped v r (h b) = mapped h (visit_record ep source scoped w r b)"
    for ep source scoped r b by (simp add: visit_record_def assms mapped_rbind)
  have records: "try_fold (visit_record ep source scoped v) rs (h b) = mapped h (try_fold (visit_record ep source scoped w) rs b)"
    for ep source scoped rs b by (rule try_fold_mapped) (rule one)
  have scope: "visit_scope ep source fld own v sc (h b) = mapped h (visit_scope ep source fld own w sc b)"
    for ep source fld own sc b by (simp add: visit_scope_def records mapped_rbind)
  have scopes: "try_fold (visit_scope ep source fld own v) rs (h b) = mapped h (try_fold (visit_scope ep source fld own w) rs b)"
    for ep source fld own rs b by (rule try_fold_mapped) (rule scope)
  have resource: "visit_resource ep source f g v re (h b) = mapped h (visit_resource ep source f g w re b)"
    for ep source f g re b by (simp add: visit_resource_def scopes mapped_rbind)
  have resources: "try_fold (visit_resource ep source f g v) rs (h b) = mapped h (try_fold (visit_resource ep source f g w) rs b)"
    for ep source f g rs b by (rule try_fold_mapped) (rule resource)
  have "visit_otlp_envelope ep raw v (h b) = mapped h (visit_otlp_envelope ep raw w b)" for ep raw b
    by (auto simp: visit_otlp_envelope_def resources mapped_rbind split: option.split)
  then show ?thesis by (simp add: visit_otlp_def mapped_rbind split: option.split)
qed

definition capture_observations :: "(string \<Rightarrow> json option) \<Rightarrow> json \<Rightarrow> string + observation list" where
  "capture_observations parse capture =
     rbind (if ptr_str capture [''telemetryBatch'', ''endpoint''] = Some ''codex_hook''
            then mapped (\<lambda>raw. [capture_observation capture, hook_observation raw]) (raw_batch parse capture)
            else Inr [capture_observation capture])
       (visit_otlp parse capture (\<lambda>_ record attributes obs.
          mapped (\<lambda>ob. obs @ [ob]) (record_observation record attributes)))"

lemma observe_capture_eq:
  "observe_capture parse capture idx = mapped (\<lambda>obs. fold observe obs idx) (capture_observations parse capture)"
proof -
  have v: "rbind (record_observation r attributes) (\<lambda>ob. Inr (observe ob (fold observe obs idx)))
      = mapped (\<lambda>obs. fold observe obs idx) (mapped (\<lambda>ob. obs @ [ob]) (record_observation r attributes))"
    for r attributes obs by (cases "record_observation r attributes") simp_all
  let ?v = "\<lambda>_ record attributes idx. rbind (record_observation record attributes) (\<lambda>ob. Inr (observe ob idx))"
  have visit: "visit_otlp parse capture ?v (fold observe obs idx) = mapped (\<lambda>obs. fold observe obs idx)
      (visit_otlp parse capture (\<lambda>_ record attributes obs. mapped (\<lambda>ob. obs @ [ob]) (record_observation record attributes)) obs)"
    for obs by (rule visit_otlp_mapped) (rule v)
  show ?thesis
    using visit [of "[capture_observation capture]"] visit [of "[capture_observation capture, hook_observation raw]" for raw]
    by (cases "raw_batch parse capture") (simp_all add: observe_capture_def capture_observations_def Let_def)
qed

lemma observe_captures_eq:
  "try_fold (observe_capture parse) captures idx =
     mapped (\<lambda>obs. fold observe obs idx) (try_fold (\<lambda>c obs. mapped ((@) obs) (capture_observations parse c)) captures [])"
proof -
  have "try_fold (observe_capture parse) captures (fold observe obs idx) = mapped (\<lambda>obs. fold observe obs idx)
      (try_fold (\<lambda>c obs. mapped ((@) obs) (capture_observations parse c)) captures obs)" for obs
    by (rule try_fold_mapped)
      (simp add: observe_capture_eq, case_tac "capture_observations parse x", simp_all)
  from this [of "[]"] show ?thesis by simp
qed

lemma collect_eq_Inr:
  "try_fold (\<lambda>c obs. mapped ((@) obs) (g c)) cs acc = Inr out \<longleftrightarrow>
     (\<forall>c \<in> set cs. \<exists>obs. g c = Inr obs) \<and> out = acc @ concat (map (projr \<circ> g) cs)"
proof (induction cs arbitrary: acc)
  case (Cons c cs)
  then show ?case by (cases "g c") auto
qed auto

lemma mset_concat_map: "mset xs = mset ys \<Longrightarrow> mset (concat (map f xs)) = mset (concat (map f ys))"
proof -
  have "mset (concat (map f xs)) = (\<Sum>x \<in># mset xs. mset (f x))" for xs
    by (induction xs) simp_all
  then show "mset xs = mset ys \<Longrightarrow> mset (concat (map f xs)) = mset (concat (map f ys))" by simp
qed


section \<open>What is observed natively\<close>

definition native_pairs :: "turn_index \<Rightarrow> native_turn set" where
  "native_pairs idx = {p. \<exists>ps. tget (ti_native idx) (snd p) = Some ps \<and> p \<in> ps}"

definition native_keyed :: "turn_index \<Rightarrow> bool" where
  "native_keyed idx \<longleftrightarrow> (\<forall>t ps. tget (ti_native idx) t = Some ps \<longrightarrow> (\<forall>p \<in> ps. snd p = t))"

definition observed_pairs :: "observation list \<Rightarrow> native_turn set" where
  "observed_pairs obs = {(s, t). \<exists>ob \<in> set obs. ob_session ob = Some s \<and> ob_turn ob = Some t}"

lemma tget_update_entry:
  "tget (update_entry d f k t) = (tget t)(k \<mapsto> f (case tget t k of None \<Rightarrow> d | Some v \<Rightarrow> v))"
  by (simp add: update_entry_def)

lemma observe_native_keyed:
  assumes "native_keyed idx"
  shows "native_keyed (observe ob idx)" "native_pairs (observe ob idx) = native_pairs idx \<union> observed_pairs [ob]"
proof -
  have n: "ti_native (observe ob idx) = native_update ob (ti_native idx)" by (simp add: observe_parts)
  have "native_keyed (observe ob idx) \<and> native_pairs (observe ob idx) = native_pairs idx \<union> observed_pairs [ob]"
  proof (cases "\<exists>s t. ob_session ob = Some s \<and> ob_turn ob = Some t")
    case True
    then obtain s t where st: "ob_session ob = Some s" "ob_turn ob = Some t" by blast
    have g: "tget (ti_native (observe ob idx))
        = (tget (ti_native idx))(t \<mapsto> insert (s, t) (case tget (ti_native idx) t of None \<Rightarrow> {} | Some v \<Rightarrow> v))"
      by (simp add: n native_update_def st tget_update_entry)
    have "native_keyed (observe ob idx)"
      using assms by (auto simp: native_keyed_def g split: option.splits)
    moreover have "native_pairs (observe ob idx) = native_pairs idx \<union> {(s, t)}"
      by (auto simp: native_pairs_def g split: option.splits)
    ultimately show ?thesis by (simp add: observed_pairs_def st)
  next
    case False
    then have "native_update ob (ti_native idx) = ti_native idx"
      by (auto simp: native_update_def split: option.splits)
    moreover have "observed_pairs [ob] = {}" using False by (auto simp: observed_pairs_def)
    ultimately show ?thesis using assms by (simp add: native_keyed_def native_pairs_def n)
  qed
  then show "native_keyed (observe ob idx)" "native_pairs (observe ob idx) = native_pairs idx \<union> observed_pairs [ob]"
    by blast+
qed

lemma observe_all_native:
  "native_keyed idx \<Longrightarrow> native_keyed (fold observe obs idx)
     \<and> native_pairs (fold observe obs idx) = native_pairs idx \<union> observed_pairs obs"
proof (induction obs arbitrary: idx)
  case (Cons ob obs)
  from Cons.IH [OF observe_native_keyed(1) [OF Cons.prems]] observe_native_keyed(2) [OF Cons.prems]
  show ?case by (auto simp: observed_pairs_def)
qed (simp add: observed_pairs_def)

lemma observed_index:
  "native_keyed (fold observe obs (empty_index track))"
  "native_pairs (fold observe obs (empty_index track)) = observed_pairs obs"
proof -
  have "native_keyed (empty_index track)" "native_pairs (empty_index track) = {}"
    by (simp_all add: native_keyed_def native_pairs_def empty_index_def)
  with observe_all_native [of "empty_index track" obs] show
    "native_keyed (fold observe obs (empty_index track))"
    "native_pairs (fold observe obs (empty_index track)) = observed_pairs obs" by simp_all
qed

lemma candidates_native: "native_keyed idx \<Longrightarrow> candidates idx sessions turns \<subseteq> native_pairs idx"
  by (fastforce simp: candidates_def native_pairs_def native_keyed_def split: option.splits)

lemma span_candidates_native:
  "native_keyed idx \<Longrightarrow> span_candidates idx key visiting = Inr c \<Longrightarrow> c \<subseteq> native_pairs idx"
proof (induction idx key visiting arbitrary: c rule: span_candidates.induct)
  case (1 idx key visiting)
  show ?case
  proof (cases "tget (ti_spans idx) key")
    case None
    with "1.prems" show ?thesis by (simp add: span_candidates.simps [of idx key])
  next
    case (Some scope)
    let ?found = "candidates idx (ss_sessions scope) (ss_turns scope)"
    let ?up = "\<lambda>parent found. rbind (span_candidates idx parent (insert key visiting)) (\<lambda>inherited.
        Inr (found \<union> Set.filter (\<lambda>p. ss_sessions scope = {} \<or> fst p \<in> ss_sessions scope) inherited))"
    from "1.prems"(2) Some have k: "key \<notin> visiting" "validate_span_scope scope = Inr ()"
      and r: "(if ?found = {} \<and> ss_turns scope = {} \<and> ss_kinds scope = {}
        then try_fold ?up (sorted_list_of_set (ss_parents scope)) ?found else Inr ?found) = Inr c"
      by (auto simp: span_candidates.simps [of idx key] res_simps Let_def split: if_splits)
    note f = candidates_native [OF "1.prems"(1), of "ss_sessions scope" "ss_turns scope"]
    show ?thesis
    proof (cases "?found = {} \<and> ss_turns scope = {} \<and> ss_kinds scope = {}")
      case True
      from r [unfolded if_P [OF True]] show ?thesis
      proof (rule try_fold_invariant [where I = "\<lambda>found. found \<subseteq> native_pairs idx", OF _ f])
        fix parent found found'
        assume p: "parent \<in> set (sorted_list_of_set (ss_parents scope))" "found \<subseteq> native_pairs idx" "?up parent found = Inr found'"
        then obtain c' where c': "span_candidates idx parent (insert key visiting) = Inr c'"
          "found' = found \<union> Set.filter (\<lambda>p. ss_sessions scope = {} \<or> fst p \<in> ss_sessions scope) c'"
          by (auto simp: res_simps)
        from "1.IH" [OF Some k(1) k(2) refl True p(1) "1.prems"(1) c'(1)] c'(2) p(2)
        show "found' \<subseteq> native_pairs idx" by auto
      qed
    next
      case False
      with r f show ?thesis by auto
    qed
  qed
qed

lemma rbind_InrE: "rbind r f = Inr b \<Longrightarrow> (\<And>a. r = Inr a \<Longrightarrow> f a = Inr b \<Longrightarrow> thesis) \<Longrightarrow> thesis"
  by (auto simp: res_simps)

lemma single_Some: "single S = Some x \<Longrightarrow> S = {x}"
  by (auto simp: single_def first_of_def card_1_singleton_iff split: if_splits)

lemma shared_candidates_native:
  assumes "native_keyed idx" "matches \<subseteq> native_pairs idx"
  shows "shared_candidates idx matches trace turn \<subseteq> native_pairs idx"
proof -
  have "ps \<subseteq> native_pairs idx" if "tget (ti_native idx) t = Some ps" for t ps
    using assms(1) that by (fastforce simp: native_pairs_def native_keyed_def)
  then show ?thesis
    using assms candidates_native [OF assms(1)]
    by (simp add: shared_candidates_def split: option.split)
qed


section \<open>The walk up the spans\<close>

lemma walk_keeps_boundary:
  "span_walk idx key visiting (Some b) session = Inr (b', session') \<Longrightarrow> b' = Some b"
proof (induction idx key visiting "Some b" session rule: span_walk.induct)
  case (1 idx visiting session)
  then show ?case by (simp add: span_walk.simps)
next
  case (2 idx current visiting session)
  show ?case
  proof (cases "tget (ti_spans idx) current")
    case None
    with "2.prems" show ?thesis by (simp add: span_walk.simps(2) split: if_splits)
  next
    case (Some scope)
    from "2.prems" Some have w: "current \<notin> visiting" "validate_span_scope scope = Inr ()"
      by (auto simp: span_walk.simps(2) [of idx current] Let_def res_simps split: if_splits)
    from "2.hyps" [OF w(1) Some w(2)] "2.prems" Some w show ?thesis
      by (simp add: span_walk.simps(2) [of idx current] Let_def)
  qed
qed

lemma valid_scope:
  "validate_span_scope scope = Inr () \<longleftrightarrow>
     card (ss_parents scope) \<le> 1 \<and> card (ss_sessions scope) \<le> 1 \<and> card (ss_turns scope) \<le> 1 \<and> card (ss_kinds scope) \<le> 1
     \<and> \<not> (ProcessKind \<in> ss_kinds scope \<and> (ss_sessions scope \<noteq> {} \<or> ss_turns scope \<noteq> {}))
     \<and> \<not> (SessionKind \<in> ss_kinds scope \<and> ss_turns scope \<noteq> {})"
  by (auto simp: validate_span_scope_def demand_def res_simps)

text \<open>The spans of an index are finite.\<close>

definition finite_spans :: "turn_index \<Rightarrow> bool" where
  "finite_spans idx \<longleftrightarrow> (\<forall>k scope. tget (ti_spans idx) k = Some scope \<longrightarrow>
     finite (ss_parents scope) \<and> finite (ss_sessions scope) \<and> finite (ss_turns scope) \<and> finite (ss_kinds scope))"

lemma finite_spansD:
  "finite_spans idx \<Longrightarrow> tget (ti_spans idx) k = Some scope \<Longrightarrow> finite (ss_parents scope) \<and> finite (ss_kinds scope)"
  unfolding finite_spans_def by blast

lemma observe_finite: "finite_spans idx \<Longrightarrow> finite_spans (observe ob idx)"
  by (auto simp: finite_spans_def observe_parts span_update_def tget_update_entry observe_span_def empty_span_def
      split: option.splits)

lemma observed_finite: "finite_spans (fold observe obs (empty_index track))"
  by (rule fold_invariant_set) (simp_all add: observe_finite, simp add: finite_spans_def empty_index_def)

lemma one_parent:
  assumes "finite S" "card S \<le> 1"
  shows "sorted_list_of_set S = (case first_of S of None \<Rightarrow> [] | Some p \<Rightarrow> [p])"
proof (cases "S = {}")
  case False
  with assms have "card S = 1" by (simp add: le_Suc_eq)
  then obtain p where "S = {p}" by (auto simp: card_1_singleton_iff)
  then show ?thesis by (simp add: first_of_def)
qed (simp add: first_of_def)

lemma boundary_candidates:
  assumes "finite_spans idx" "span_walk idx (Some key) visiting None None = Inr (b, s)" "b \<noteq> Some TurnKind"
  shows "span_candidates idx key visiting = Inr {}"
  using assms
proof (induction idx key visiting arbitrary: b s rule: span_candidates.induct)
  case (1 idx key visiting)
  show ?case
  proof (cases "tget (ti_spans idx) key")
    case None
    then show ?thesis by (simp add: span_candidates.simps [of idx key])
  next
    case (Some scope)
    let ?b = "or_else (first_of (ss_kinds scope)) (if ss_turns scope \<noteq> {} then Some TurnKind else None)"
    let ?s = "if ?b = Some SessionKind then first_of (ss_sessions scope) else None"
    from "1.prems"(2) Some have w: "key \<notin> visiting" "validate_span_scope scope = Inr ()"
      "span_walk idx (first_of (ss_parents scope)) (insert key visiting) ?b ?s = Inr (b, s)"
      by (auto simp: span_walk.simps(2) [of idx key] Let_def res_simps split: if_splits)
    have fin: "finite (ss_parents scope)" "card (ss_parents scope) \<le> 1"
      using finite_spansD [OF "1.prems"(1) Some] w(2) by (simp_all add: valid_scope)
    have up: "span_candidates idx key visiting =
      (if candidates idx (ss_sessions scope) (ss_turns scope) = {} \<and> ss_turns scope = {} \<and> ss_kinds scope = {}
       then try_fold (\<lambda>parent found. rbind (span_candidates idx parent (insert key visiting)) (\<lambda>inherited.
              Inr (found \<union> Set.filter (\<lambda>p. ss_sessions scope = {} \<or> fst p \<in> ss_sessions scope) inherited)))
              (sorted_list_of_set (ss_parents scope)) (candidates idx (ss_sessions scope) (ss_turns scope))
       else Inr (candidates idx (ss_sessions scope) (ss_turns scope)))"
      by (simp only: span_candidates.simps [of idx key] Some option.case w(1,2) rbind_simps Let_def if_False)
    have none: "candidates idx (ss_sessions scope) {} = {}" by (simp add: candidates_def)
    show ?thesis
    proof (cases ?b)
      case None
      then have empty: "ss_kinds scope = {}" "ss_turns scope = {}"
        by (auto simp: or_else_def first_of_def split: if_splits)
      show ?thesis
      proof (cases "first_of (ss_parents scope)")
        case None
        then show ?thesis using up one_parent [OF fin] by (simp add: empty none)
      next
        case parent: (Some p)
        have list: "sorted_list_of_set (ss_parents scope) = [p]" using one_parent [OF fin] parent by simp
        from w(3) None parent have "span_walk idx (Some p) (insert key visiting) None None = Inr (b, s)" by simp
        from "1.IH" [OF Some w(1,2) refl _ _ "1.prems"(1) this "1.prems"(3)] list
        have "span_candidates idx p (insert key visiting) = Inr {}" by (simp add: empty none)
        then show ?thesis using up by (simp add: empty none list)
      qed
    next
      case b: (Some k)
      from walk_keeps_boundary w(3) b have "b = Some k" by metis
      with "1.prems"(3) b have k: "k \<noteq> TurnKind" "first_of (ss_kinds scope) = Some k"
        by (auto simp: or_else_def split: option.splits if_splits)
      then have "ss_kinds scope \<noteq> {}" "k = Min (ss_kinds scope)" by (auto simp: first_of_def split: if_splits)
      then have kinds: "ss_kinds scope \<noteq> {}" "k \<in> ss_kinds scope"
        using finite_spansD [OF "1.prems"(1) Some] by simp_all
      with w(2) k(1) have "ss_turns scope = {}" by (cases k) (auto simp: valid_scope)
      then show ?thesis using up kinds none by simp
    qed
  qed
qed


section \<open>Where the walk ends\<close>

text \<open>Climbing at most \<open>n\<close> parents leaves the observed spans, and every scope on the way is valid.\<close>

fun chain_ends :: "turn_index \<Rightarrow> nat \<Rightarrow> span_key option \<Rightarrow> bool" where
  "chain_ends idx n None = True"
| "chain_ends idx 0 (Some k) = (tget (ti_spans idx) k = None)"
| "chain_ends idx (Suc n) (Some k) =
     (case tget (ti_spans idx) k of
        None \<Rightarrow> True
      | Some scope \<Rightarrow> validate_span_scope scope = Inr () \<and> chain_ends idx n (first_of (ss_parents scope)))"

lemma chain_ends_Suc: "chain_ends idx n k \<Longrightarrow> chain_ends idx (Suc n) k"
  by (induction idx n k rule: chain_ends.induct) (auto split: option.splits)

lemma chain_ends_mono: "n \<le> m \<Longrightarrow> chain_ends idx n k \<Longrightarrow> chain_ends idx m k"
  by (induction m rule: dec_induct) (auto dest: chain_ends_Suc)

lemma walk_chain:
  "span_walk idx key visiting b s = Inr r \<Longrightarrow>
     chain_ends idx (case key of None \<Rightarrow> 0 | Some _ \<Rightarrow> card (span_keys idx - visiting)) key"
proof (induction idx key visiting b s rule: span_walk.induct)
  case (2 idx current visiting b s)
  show ?case
  proof (cases "tget (ti_spans idx) current")
    case None
    then show ?thesis by (cases "card (span_keys idx - visiting)") simp_all
  next
    case (Some scope)
    from "2.prems" Some obtain b' s' where w: "current \<notin> visiting" "validate_span_scope scope = Inr ()"
      "span_walk idx (first_of (ss_parents scope)) (insert current visiting) b' s' = Inr r"
      by (auto simp: span_walk.simps(2) [of idx current] Let_def res_simps split: if_splits)
    have IH: "chain_ends idx (card (span_keys idx - insert current visiting)) (first_of (ss_parents scope))"
    proof (cases "first_of (ss_parents scope)")
      case parent: (Some p)
      from "2.IH" [OF w(1) Some w(2) refl refl] "2.prems" Some w(1,2)
      show ?thesis by (simp add: span_walk.simps(2) [of idx current] Let_def parent)
    qed simp
    have "card (span_keys idx - insert current visiting) < card (span_keys idx - visiting)"
      by (rule unvisited_decreases [OF Some w(1)])
    then obtain n where "card (span_keys idx - visiting) = Suc n" "card (span_keys idx - insert current visiting) \<le> n"
      by (cases "card (span_keys idx - visiting)") auto
    with chain_ends_mono [OF _ IH] Some w(2) show ?thesis by simp
  qed
qed (simp add: span_walk.simps)

lemma chain_walk:
  assumes "chain_ends idx n key" "\<forall>v \<in> visiting. \<not> chain_ends idx n (Some v)"
  shows "\<exists>r. span_walk idx key visiting b s = Inr r"
  using assms
proof (induction n arbitrary: key visiting b s)
  case 0
  then show ?case by (cases key) (auto simp: span_walk.simps)
next
  case (Suc n)
  have visiting: "\<forall>v \<in> visiting. \<not> chain_ends idx n (Some v)" using Suc.prems(2) chain_ends_Suc by blast
  show ?case
  proof (cases "chain_ends idx n key")
    case True
    from Suc.IH [OF this visiting] show ?thesis .
  next
    case False
    then obtain k where k: "key = Some k" by (cases key) auto
    with Suc.prems have kv: "k \<notin> visiting" by blast
    from False k have "tget (ti_spans idx) k \<noteq> None" by (cases n) (auto split: option.splits)
    then obtain scope where scope: "tget (ti_spans idx) k = Some scope" by blast
    with Suc.prems(1) k have v: "validate_span_scope scope = Inr ()" "chain_ends idx n (first_of (ss_parents scope))" by simp_all
    have "\<forall>v \<in> insert k visiting. \<not> chain_ends idx n (Some v)" using visiting False k by simp
    from Suc.IH [OF v(2) this] scope v(1) kv k show ?thesis
      by (simp add: span_walk.simps(2) [of idx k] Let_def)
  qed
qed


section \<open>Properties\<close>

text \<open>The index of a list of Captures.\<close>

definition index_of :: "(string \<Rightarrow> json option) \<Rightarrow> bool \<Rightarrow> json list \<Rightarrow> string + turn_index" where
  "index_of parse track captures = try_fold (observe_capture parse) captures (empty_index track)"

lemma index_of_Inr:
  assumes "index_of parse track captures = Inr idx"
  shows "\<exists>obs. idx = fold observe obs (empty_index track)
    \<and> (\<forall>c \<in> set captures. \<exists>own. capture_observations parse c = Inr own)
    \<and> obs = concat (map (projr \<circ> capture_observations parse) captures)"
proof (cases "try_fold (\<lambda>c obs. mapped ((@) obs) (capture_observations parse c)) captures []")
  case (Inr obs)
  with assms have "idx = fold observe obs (empty_index track)" by (simp add: index_of_def observe_captures_eq)
  with Inr show ?thesis unfolding collect_eq_Inr by auto
qed (use assms in \<open>simp add: index_of_def observe_captures_eq\<close>)

text \<open>A Capture with a Session, a Turn and a trace, and a record on that trace.\<close>

definition wire_capture :: "string \<Rightarrow> string \<Rightarrow> json" where
  "wire_capture session turn =
     Object [(''traceContext'', Object
       [(''session_id'', String session), (''trace_id'', String (replicate 32 (CHR ''a''))), (''turn_id'', String turn)])]"

definition traced_record :: json where
  "traced_record = Object [(''traceId'', String (replicate 32 (CHR ''a'')))]"

lemma wire_observations:
  assumes "(session, turn) \<in> {(''s'', ''t''), (''s'', ''u'')}"
  shows "capture_observations parse (wire_capture session turn) = Inr
    [\<lparr>ob_session = Some session, ob_turn = Some turn, ob_trace = Some (replicate 32 (CHR ''a'')),
      ob_span = None, ob_parent = None, ob_kind = None\<rparr>]"
proof -
  have "capture_observation (wire_capture ''s'' ''t'') =
      \<lparr>ob_session = Some ''s'', ob_turn = Some ''t'', ob_trace = Some (replicate 32 (CHR ''a'')),
       ob_span = None, ob_parent = None, ob_kind = None\<rparr>"
    "capture_observation (wire_capture ''s'' ''u'') =
      \<lparr>ob_session = Some ''s'', ob_turn = Some ''u'', ob_trace = Some (replicate 32 (CHR ''a'')),
       ob_span = None, ob_parent = None, ob_kind = None\<rparr>" by code_simp+
  with assms have "capture_observation (wire_capture session turn) =
      \<lparr>ob_session = Some session, ob_turn = Some turn, ob_trace = Some (replicate 32 (CHR ''a'')),
       ob_span = None, ob_parent = None, ob_kind = None\<rparr>" by auto
  moreover have "ptr_str (wire_capture session turn) [''telemetryBatch'', ''endpoint''] = None"
    by (simp add: ptr_str_def wire_capture_def)
  ultimately show ?thesis by (simp add: capture_observations_def visit_otlp_def)
qed

text \<open>
  C35: The index of a set of Captures does not depend on their order: no position and no time decides
  which Turn a record belongs to.
\<close>

theorem turn_index_order:
  assumes "mset captures = mset captures'" "index_of parse track captures = Inr idx"
  shows "index_of parse track captures' = Inr idx"
proof -
  let ?f = "projr \<circ> capture_observations parse"
  from index_of_Inr [OF assms(2)] have idx: "idx = fold observe (concat (map ?f captures)) (empty_index track)"
    and all: "\<forall>c \<in> set captures. \<exists>own. capture_observations parse c = Inr own" by blast+
  have "set captures = set captures'" using assms(1) by (metis set_mset_mset)
  with all have "try_fold (\<lambda>c obs. mapped ((@) obs) (capture_observations parse c)) captures' []
      = Inr (concat (map ?f captures'))" by (simp add: collect_eq_Inr)
  moreover have "fold observe (concat (map ?f captures')) (empty_index track) = idx"
    unfolding idx by (rule observe_all_commute) (rule mset_concat_map [OF assms(1) [symmetric]])
  ultimately show ?thesis by (simp add: index_of_def observe_captures_eq)
qed

theorem turn_index_order_witness:
  "\<exists>idx. index_of (\<lambda>_. None) True [wire_capture ''s'' ''t'', wire_capture ''s'' ''u''] = Inr idx
    \<and> index_of (\<lambda>_. None) True [wire_capture ''s'' ''u'', wire_capture ''s'' ''t''] = Inr idx"
proof -
  obtain idx where i: "index_of (\<lambda>_. None) True [wire_capture ''s'' ''t'', wire_capture ''s'' ''u''] = Inr idx"
    by (simp add: index_of_def observe_capture_eq wire_observations)
  from turn_index_order [OF _ i, of "[wire_capture ''s'' ''u'', wire_capture ''s'' ''t'']"] i show ?thesis by simp
qed

lemma index_native_source:
  assumes "index_of parse track captures = Inr idx"
  shows "native_keyed idx"
    and "p \<in> native_pairs idx \<Longrightarrow>
      \<exists>c \<in> set captures. \<exists>obs. capture_observations parse c = Inr obs \<and> p \<in> observed_pairs obs"
proof -
  from index_of_Inr [OF assms] have idx: "idx = fold observe (concat (map (projr \<circ> capture_observations parse) captures)) (empty_index track)"
    and all: "\<forall>c \<in> set captures. \<exists>own. capture_observations parse c = Inr own" by blast+
  note n = observed_index [of "concat (map (projr \<circ> capture_observations parse) captures)" track, folded idx]
  show "native_keyed idx" by (rule n(1))
  assume "p \<in> native_pairs idx"
  then obtain c where c: "c \<in> set captures" "p \<in> observed_pairs (projr (capture_observations parse c))"
    unfolding n(2) by (auto simp: observed_pairs_def)
  moreover obtain own where "capture_observations parse c = Inr own" using all c(1) by blast
  ultimately show "\<exists>c \<in> set captures. \<exists>obs. capture_observations parse c = Inr obs \<and> p \<in> observed_pairs obs" by auto
qed

text \<open>
  C36: A Turn that a record is resolved to agrees with every identity the record names itself, and the
  pair of Session and Turn is either named by the record or was observed together in one Capture or
  one record of it; it is never put together from two sources.
\<close>

theorem resolved_turn_is_native:
  assumes "index_of parse track captures = Inr idx" "resolve idx record attributes = Inr (Some (s, t))"
  shows "\<exists>session turn. session_attribute attributes = Inr session \<and> turn_attribute attributes = Inr turn
    \<and> identity_agrees session turn (s, t)
    \<and> (session = Some s \<and> turn = Some t
       \<or> (\<exists>c \<in> set captures. \<exists>obs. capture_observations parse c = Inr obs \<and> (s, t) \<in> observed_pairs obs))"
proof -
  note n = index_native_source [OF assms(1)]
  from assms(2) [unfolded resolve_def] show ?thesis
  proof (elim rbind_InrE, goal_cases)
    case a: (1 session turn scope matches)
    note decision = a(5)
    have matches: "matches \<subseteq> native_pairs idx"
      using a(4) span_candidates_native [OF n(1)] by (auto split: option.splits)
    have shared: "identity_agrees session turn (s, t) \<and> (s, t) \<in> native_pairs idx"
      if "single (Set.filter (identity_agrees session turn) (shared_candidates idx matches (hex_id (jget record ''traceId'') 32) turn)) = Some (s, t)"
    proof -
      let ?S = "shared_candidates idx matches (hex_id (jget record ''traceId'') 32) turn"
      have "(s, t) \<in> Set.filter (identity_agrees session turn) ?S" unfolding single_Some [OF that] by simp
      then have "identity_agrees session turn (s, t)" "(s, t) \<in> ?S" by simp_all
      then show ?thesis using subsetD [OF shared_candidates_native [OF n(1) matches]] by blast
    qed
    have "identity_agrees session turn (s, t) \<and> (session = Some s \<and> turn = Some t \<or> (s, t) \<in> native_pairs idx)"
    proof (cases "single matches")
      case (Some m)
      with decision have "m = (s, t)" "identity_agrees session turn m" by (auto simp: demand_def split: if_splits)
      with single_Some [OF Some] matches show ?thesis by auto
    next
      case None
      show ?thesis
      proof (cases "session \<noteq> None \<and> turn \<noteq> None")
        case True
        with decision None show ?thesis by (auto simp: identity_agrees_def)
      next
        case False
        with decision None shared show ?thesis by (auto split: option.splits if_splits)
      qed
    qed
    with a(1,2) n(2) show ?thesis by blast
  qed
qed

theorem resolved_turn_is_native_witness:
  "\<exists>idx. index_of (\<lambda>_. None) True [wire_capture ''s'' ''t''] = Inr idx
    \<and> resolve idx traced_record [] = Inr (Some (''s'', ''t''))
    \<and> (''s'', ''t'') \<in> observed_pairs (projr (capture_observations (\<lambda>_. None) (wire_capture ''s'' ''t'')))"
proof -
  let ?ob = "\<lparr>ob_session = Some ''s'', ob_turn = Some ''t'', ob_trace = Some (replicate 32 (CHR ''a'')),
      ob_span = None, ob_parent = None, ob_kind = None\<rparr>"
  have i: "index_of (\<lambda>_. None) True [wire_capture ''s'' ''t''] = Inr (observe ?ob (empty_index True))"
    by (simp add: index_of_def observe_capture_eq wire_observations)
  have r: "resolve (observe ?ob (empty_index True)) traced_record [] = Inr (Some (''s'', ''t''))" by code_simp
  have none: "session_attribute [] = Inr None" "turn_attribute [] = Inr None" by code_simp+
  from resolved_turn_is_native [OF i r] i r show ?thesis
    by (auto simp: none wire_observations)
qed



text \<open>
  C38: The walk from a span through its parents ends, whatever was observed: it finds a scope, or that
  there is none, exactly when the parents leave the observed spans within as many steps as there are
  spans and every scope on the way is consistent; otherwise, on a cycle or a conflict, it is an error.
\<close>

theorem span_walk_ends:
  "(\<exists>scope. span_source_scope idx key = Inr scope) \<longleftrightarrow> chain_ends idx (card (span_keys idx)) (Some key)"
proof
  assume "\<exists>scope. span_source_scope idx key = Inr scope"
  then obtain r where "span_walk idx (Some key) {} None None = Inr r" by (auto simp: span_source_scope_def res_simps)
  from walk_chain [OF this] show "chain_ends idx (card (span_keys idx)) (Some key)" by simp
next
  assume "chain_ends idx (card (span_keys idx)) (Some key)"
  from chain_walk [OF this, of "{}" None None] obtain r where "span_walk idx (Some key) {} None None = Inr r" by auto
  then show "\<exists>scope. span_source_scope idx key = Inr scope" by (cases r) (simp add: span_source_scope_def)
qed

end
