(* ===== verification/CloudValues.thy ===== *)
theory CloudValues
  imports Otlp RelayService
begin

text \<open>
  What the conversion of cloud payloads (\<open>cloud_ingest.rs\<close>) reads and writes: digests of
  components, numbers in text, the attributes of a log record as JSON values, its times and its
  trace context.  The SHA-256, the JSON parser and serialiser, \<open>{:?}\<close> of arbitrary text and the
  arithmetic of the \<open>time\<close> crate are parameters.
\<close>

record cloud_env =
  ci_sha :: "string \<Rightarrow> string"
  ci_parse :: "string \<Rightarrow> json option"
  ci_ser :: "json \<Rightarrow> string"
  ci_debug :: "string \<Rightarrow> string"
  ci_rfc3339 :: "int \<Rightarrow> string option"
  ci_minus_millis :: "string \<Rightarrow> nat \<Rightarrow> string option"

text \<open>
  \<open>ci_rfc3339\<close> formats nanoseconds since the epoch, \<open>ci_minus_millis\<close> reads an RFC 3339 time,
  subtracts milliseconds and formats the result; each fails where the crate does.
\<close>


section \<open>Bytes\<close>

text \<open>\<open>str::from_utf8\<close> succeeds.\<close>

definition in_range :: "nat \<Rightarrow> nat \<Rightarrow> char \<Rightarrow> bool" where
  "in_range lo hi c \<longleftrightarrow> lo \<le> of_char c \<and> of_char c \<le> hi"

fun utf8_valid :: "string \<Rightarrow> bool" where
  "utf8_valid [] = True"
| "utf8_valid (a # s) =
     (if in_range 0 0x7F a then utf8_valid s
      else case s of
        [] \<Rightarrow> False
      | b # s \<Rightarrow>
          if in_range 0xC2 0xDF a then utf8_cont b \<and> utf8_valid s
          else case s of
            [] \<Rightarrow> False
          | c # s \<Rightarrow>
              if in_range 0xE0 0xEF a
              then in_range (if a = CHR 0xE0 then 0xA0 else 0x80) (if a = CHR 0xED then 0x9F else 0xBF) b
                   \<and> utf8_cont c \<and> utf8_valid s
              else case s of
                [] \<Rightarrow> False
              | d # s \<Rightarrow>
                  in_range 0xF0 0xF4 a
                  \<and> in_range (if a = CHR 0xF0 then 0x90 else 0x80) (if a = CHR 0xF4 then 0x8F else 0xBF) b
                  \<and> utf8_cont c \<and> utf8_cont d \<and> utf8_valid s)"

definition be64 :: "nat \<Rightarrow> string" where
  "be64 n = map (\<lambda>i. char_of (n div 256 ^ i)) (rev [0..<8])"

definition digest_input :: "string list \<Rightarrow> string" where
  "digest_input components = concat (map (\<lambda>c. be64 (length c) @ c) components)"

definition stable_digest :: "cloud_env \<Rightarrow> string list \<Rightarrow> string" where
  "stable_digest env components = ci_sha env (digest_input components)"

definition cloud_capture_id :: "cloud_env \<Rightarrow> string \<Rightarrow> string list \<Rightarrow> string" where
  "cloud_capture_id env kind components = ''cap-cloud-'' @ stable_digest env (kind # components)"

text \<open>\<open>str::parse\<close> to a signed integer of some bits, and the JSON number of an \<open>i64\<close>.\<close>

definition parse_int :: "nat \<Rightarrow> string \<Rightarrow> int option" where
  "parse_int bits s =
     (let (negative, ds) = (case s of [] \<Rightarrow> (False, []) | c # r \<Rightarrow>
              if c = CHR ''+'' then (False, r) else if c = CHR ''-'' then (True, r) else (False, s));
          v = (if negative then - int (digits_val ds) else int (digits_val ds))
      in if ds \<noteq> [] \<and> list_all is_digit ds \<and> - (2 ^ (bits - 1)) \<le> v \<and> v < 2 ^ (bits - 1) then Some v else None)"

definition jint :: "int \<Rightarrow> json" where
  "jint i = Number (if 0 \<le> i then PosInt (word_of_int i) else NegInt (word_of_int i))"

primrec find_map :: "('a \<Rightarrow> 'b option) \<Rightarrow> 'a list \<Rightarrow> 'b option" where
  "find_map f [] = None"
| "find_map f (x # xs) = (case f x of None \<Rightarrow> find_map f xs | Some y \<Rightarrow> Some y)"


section \<open>Attributes as values\<close>

definition any_int :: "json \<Rightarrow> json" where
  "any_int v =
     (case or_else (as_i64 v) (Option.bind (as_str v) (parse_int 64)) of Some i \<Rightarrow> jint i | None \<Rightarrow> v)"

definition any_values :: "jobject \<Rightarrow> string \<Rightarrow> json list option" where
  "any_values m kind = Option.bind (Option.bind (tget m kind) (\<lambda>v. jget v ''values'')) as_array"

definition key_value :: "json \<Rightarrow> (string \<times> json) option" where
  "key_value item = Option.bind (get_str item ''key'') (\<lambda>k. map_option (Pair k) (jget item ''value''))"

lemma any_values_size:
  assumes "any_values m kind = Some vs" "w \<in> set vs"
  shows "size w < size (Object m)"
proof -
  from assms(1) obtain v where v: "tget m kind = Some v" "jget v ''values'' = Some (Array vs)"
    by (auto simp: any_values_def bind_eq_Some_conv elim!: as_array.elims)
  have "size w < size (Array vs)" using assms(2) by (auto dest: size_list_estimation' [OF _ order_refl, of _ _ size] simp: less_Suc_eq_le)
  also have "\<dots> < size v" using v(2) by (rule jget_size)
  also have "\<dots> < size (Object m)" using jget_size [of "Object m" kind v] v(1) by simp
  finally show ?thesis .
qed

lemma key_value_size: "key_value item = Some (k, w) \<Longrightarrow> size w < size item"
  by (auto simp: key_value_def bind_eq_Some_conv dest: jget_size)

function otlp_any_value :: "json \<Rightarrow> json" where
  "otlp_any_value v =
     (case v of
        Object m \<Rightarrow>
          (case find_map (tget m) [''stringValue'', ''boolValue''] of
             Some w \<Rightarrow> w
           | None \<Rightarrow>
          (case tget m ''intValue'' of
             Some w \<Rightarrow> any_int w
           | None \<Rightarrow>
          (case find_map (tget m) [''doubleValue'', ''bytesValue''] of
             Some w \<Rightarrow> w
           | None \<Rightarrow>
          (case any_values m ''arrayValue'' of
             Some vs \<Rightarrow> Array (map otlp_any_value vs)
           | None \<Rightarrow>
          (case any_values m ''kvlistValue'' of
             Some vs \<Rightarrow>
               Object (put_all (map (\<lambda>kw. (fst kw, otlp_any_value (snd kw))) (List.map_filter key_value vs)) [])
           | None \<Rightarrow> v)))))
      | _ \<Rightarrow> v)"
  by pat_completeness auto
termination
proof (relation "measure size")
  show "wf (measure size)" by simp
next
  fix v m vs w
  assume "v = Object m" "any_values m ''arrayValue'' = Some vs" "w \<in> set vs"
  then show "(w, v) \<in> measure size" by (simp add: any_values_size del: json.size)
next
  fix v m vs kw
  assume v: "v = Object m" "any_values m ''kvlistValue'' = Some vs" and "kw \<in> set (List.map_filter key_value vs)"
  then obtain item where "item \<in> set vs" "key_value item = Some kw"
    by (auto simp: List.map_filter_def)
  then have "size (snd kw) < size item" using key_value_size [of item "fst kw" "snd kw"] by simp
  also have "\<dots> < size v" using v \<open>item \<in> set vs\<close> any_values_size by simp
  finally show "(snd kw, v) \<in> measure size" by simp
qed

declare otlp_any_value.simps [simp del]

definition any_attribute :: "json \<Rightarrow> (string \<times> json) option" where
  "any_attribute attribute =
     Option.bind (otlp_attribute_key attribute) (\<lambda>key.
     map_option (\<lambda>v. (key, otlp_any_value v)) (jget attribute ''value''))"

definition attributes_map :: "json option \<Rightarrow> string + jobject" where
  "attributes_map value =
     rbind (validate_otlp_attributes value) (\<lambda>_.
     Inr (put_all (List.map_filter any_attribute (items_of value)) []))"

definition attribute_string :: "jobject \<Rightarrow> string \<Rightarrow> string option" where
  "attribute_string attributes key = non_blank (Option.bind (tget attributes key) as_str)"

definition first_attribute_string :: "jobject \<Rightarrow> string list \<Rightarrow> string option" where
  "first_attribute_string attributes keys = find_map (attribute_string attributes) keys"

definition required_attribute :: "jobject \<Rightarrow> string \<Rightarrow> string + string" where
  "required_attribute attributes key = ok_or (key @ '' is required'') (attribute_string attributes key)"

definition text_bool :: "json \<Rightarrow> bool option" where
  "text_bool v =
     or_else (as_bool v) (Option.bind (as_str v) (\<lambda>s.
       if s = ''true'' then Some True else if s = ''false'' then Some False else None))"

definition attribute_bool :: "jobject \<Rightarrow> string \<Rightarrow> bool option" where
  "attribute_bool attributes key = Option.bind (tget attributes key) text_bool"

definition value_u64 :: "json \<Rightarrow> u64 option" where
  "value_u64 v = or_else (as_u64 v) (Option.bind (as_str v) parse_u64)"

definition optional_nonempty_string :: "json \<Rightarrow> string \<Rightarrow> string option" where
  "optional_nonempty_string v key = non_blank (get_str v key)"

definition parse_json_string_or_clone :: "cloud_env \<Rightarrow> json \<Rightarrow> json" where
  "parse_json_string_or_clone env v =
     (case Option.bind (as_str v) (ci_parse env) of Some w \<Rightarrow> w | None \<Rightarrow> v)"

definition without_nulls :: "json \<Rightarrow> json" where
  "without_nulls v = (case v of Object m \<Rightarrow> Object (filter (\<lambda>kw. snd kw \<noteq> Null) m) | _ \<Rightarrow> v)"


section \<open>Times and trace context\<close>

definition record_timestamp :: "cloud_env \<Rightarrow> json \<Rightarrow> jobject \<Rightarrow> string option" where
  "record_timestamp env log_record attributes =
     or_else (attribute_string attributes ''event.timestamp'')
       (Option.bind (or_else (optional_nonempty_string log_record ''timeUnixNano'')
                             (optional_nonempty_string log_record ''observedTimeUnixNano'')) (\<lambda>v.
        Option.bind (parse_int 128 v) (ci_rfc3339 env)))"

definition started_at :: "cloud_env \<Rightarrow> jobject \<Rightarrow> string option \<Rightarrow> string option" where
  "started_at env attributes finished_at =
     Option.bind (Option.bind (tget attributes ''duration_ms'') value_u64) (\<lambda>ms.
     Option.bind finished_at (\<lambda>finished.
     if unat ms < 2 ^ 63 then ci_minus_millis env finished (unat ms) else None))"

definition trace_context :: "json \<Rightarrow> jobject \<Rightarrow> string \<Rightarrow> json" where
  "trace_context log_record attributes session_id =
     without_nulls (json_object
       [(''session_id'', String session_id), (''thread_id'', String session_id),
        (''conversation_id'', String session_id),
        (''trace_id'', jopt (optional_nonempty_string log_record ''traceId'')),
        (''span_id'', jopt (optional_nonempty_string log_record ''spanId'')),
        (''parent_span_id'', jopt (or_else (attribute_string attributes ''parent.span_id'')
                                           (attribute_string attributes ''parent_span_id''))),
        (''turn_id'', jopt (first_attribute_string attributes [''turn.id'', ''turn_id'', ''codex.turn_id''])),
        (''root_turn_id'',
           jopt (first_attribute_string attributes [''root_turn.id'', ''root_turn_id'', ''codex.root_turn_id''])),
        (''agent_id'', jopt (first_attribute_string attributes [''agent.id'', ''agent_id'', ''codex.agent_id''])),
        (''branch_id'', jopt (first_attribute_string attributes [''branch.id'', ''branch_id'']))])"

definition cloud_source_namespace :: string where
  "cloud_source_namespace = ''stock-codex-cloud''"

definition normalize_value :: "cloud_env \<Rightarrow> json \<Rightarrow> nat \<Rightarrow> string + capture_record" where
  "normalize_value env v max_bytes = normalize_capture (ci_sha env) (ci_parse env) (ci_ser env) (ci_ser env v) max_bytes"

end
