(* ===== verification/CloudLogs.thy ===== *)
theory CloudLogs
  imports CloudValues
begin

text \<open>
  The conversion of OTLP logs to Captures (\<open>cloud_ingest.rs\<close>): a conversation start becomes a
  lifecycle event, a tool result a tool execution, an event without a meaning an attributed
  \<open>telemetry_incomplete\<close>; what cannot be read is an error, and the walk goes on.  OTLP traces are
  only validated.
\<close>

section \<open>One log record\<close>

definition derive_telemetry_incomplete ::
  "cloud_env \<Rightarrow> json \<Rightarrow> jobject \<Rightarrow> string \<Rightarrow> u64 \<Rightarrow> string \<Rightarrow> nat \<Rightarrow> string + capture_record option" where
  "derive_telemetry_incomplete env log_record attributes raw_sha256 ordinal reason max_bytes =
     (case attribute_string attributes ''conversation.id'' of
        None \<Rightarrow> Inr None
      | Some session_id \<Rightarrow>
          (let occurred_at = record_timestamp env log_record attributes;
               event_id = stable_digest env [raw_sha256, nat_dec (unat ordinal), ''telemetry_incomplete'']
           in rbind (normalize_value env (json_object
                [(''recordType'', String ''lifecycle_event''),
                 (''captureId'', String (''cap-cloud-'' @ event_id)),
                 (''captureStage'', String ''event''),
                 (''sourceNamespace'', String cloud_source_namespace),
                 (''receivedAt'', jopt occurred_at),
                 (''traceContext'', trace_context log_record attributes session_id),
                 (''observedLifecycleEvents'', Array [String ''telemetry_incomplete'']),
                 (''lifecycleEvent'', json_object
                    [(''event_id'', String (''otel-'' @ event_id)),
                     (''type'', String ''telemetry_incomplete''),
                     (''status'', String ''incomplete''),
                     (''reason'', String reason),
                     (''occurred_at'', jopt occurred_at),
                     (''source_event_name'', jopt (attribute_string attributes ''event.name''))])]) max_bytes)
              (\<lambda>r. Inr (Some r))))"

definition derive_conversation_start ::
  "cloud_env \<Rightarrow> json \<Rightarrow> jobject \<Rightarrow> string \<Rightarrow> u64 \<Rightarrow> nat \<Rightarrow> string + capture_record option" where
  "derive_conversation_start env log_record attributes raw_sha256 ordinal max_bytes =
     rbind (required_attribute attributes ''conversation.id'') (\<lambda>session_id.
     let occurred_at = record_timestamp env log_record attributes;
         event_id = stable_digest env [raw_sha256, nat_dec (unat ordinal), ''session_start'']
     in rbind (normalize_value env (json_object
          [(''recordType'', String ''lifecycle_event''),
           (''captureId'', String (''cap-cloud-'' @ event_id)),
           (''captureStage'', String ''event''),
           (''sourceNamespace'', String cloud_source_namespace),
           (''requestedModelAlias'', jopt (attribute_string attributes ''model'')),
           (''receivedAt'', jopt occurred_at),
           (''traceContext'', trace_context log_record attributes session_id),
           (''observedLifecycleEvents'', Array [String ''session_start'']),
           (''lifecycleEvent'', json_object
              [(''event_id'', String (''otel-'' @ event_id)),
               (''type'', String ''session_start''),
               (''status'', String ''started''),
               (''occurred_at'', jopt occurred_at),
               (''source_event_name'', String ''codex.conversation_starts'')])]) max_bytes)
        (\<lambda>r. Inr (Some r)))"

text \<open>
  \<open>str::lines\<close>: a carriage return before a line feed belongs to the line end, and the text after the
  last line feed is a line unless it is empty.
\<close>

definition text_lines :: "string \<Rightarrow> string list" where
  "text_lines s =
     (let parts = split_char CHR 0x0A s
      in map strip_cr (butlast parts) @ (if last parts = [] then [] else [last parts]))"

definition process_header :: "string" where
  "process_header = ''stock_codex.unified_exec.log_output.header''"

definition exited_line :: "string \<Rightarrow> json option" where
  "exited_line line =
     map_option (\<lambda>exit_code. json_object
         [(''kind'', String ''process''), (''state'', String ''exited''), (''exit_code'', jint exit_code),
          (''success'', Bool (exit_code = 0)), (''provenance'', String process_header)])
       (Option.bind (strip_prefix ''Process exited with code '' line) (parse_int 32))"

definition running_line :: "string \<Rightarrow> json option" where
  "running_line line =
     map_option (\<lambda>session_id. json_object
         [(''kind'', String ''process''), (''state'', String ''running''), (''session_id'', jint session_id),
          (''success'', Null), (''provenance'', String process_header)])
       (Option.bind (strip_prefix ''Process running with session ID '' line) (parse_int 64))"

text \<open>The lines before the output: one outcome, after or before a wall time; a second one voids it.\<close>

fun scan_output :: "string list \<Rightarrow> bool \<Rightarrow> json option \<Rightarrow> json option" where
  "scan_output [] saw_wall_time outcome = None"
| "scan_output (line # lines) saw_wall_time outcome =
     (if line = ''Output:'' then (if saw_wall_time then outcome else None)
      else if prefix ''Wall time: '' line \<and> suffix '' seconds'' line then scan_output lines True outcome
      else case or_else (exited_line line) (running_line line) of
             None \<Rightarrow> scan_output lines saw_wall_time outcome
           | Some found \<Rightarrow> if outcome \<noteq> None then None else scan_output lines saw_wall_time (Some found))"

definition process_outcome :: "string option \<Rightarrow> string \<Rightarrow> json \<Rightarrow> json option" where
  "process_outcome runtime_namespace runtime_tool output =
     (if \<not> is_stock_unified_exec_tool runtime_namespace runtime_tool then None
      else case as_str output of None \<Rightarrow> None | Some s \<Rightarrow> scan_output (text_lines s) False None)"

definition tool_execution_member ::
  "cloud_env \<Rightarrow> json \<Rightarrow> jobject \<Rightarrow> string \<Rightarrow> string \<Rightarrow> json \<Rightarrow> json \<Rightarrow> bool \<Rightarrow> json" where
  "tool_execution_member env log_record attributes call_id runtime_tool arguments output success =
     (let runtime_namespace = attribute_string attributes ''tool_namespace'';
          output_truncated = attribute_bool attributes ''output_truncated'';
          finished_at = record_timestamp env log_record attributes
      in json_object
          [(''call_id'', String call_id),
           (''parent_call_id'', jopt (attribute_string attributes ''parent_call_id'')),
           (''name'', String (canonical_runtime_tool_name runtime_namespace runtime_tool)),
           (''runtime_tool'', String runtime_tool),
           (''runtime_namespace'', jopt runtime_namespace),
           (''status'', String (if success then ''success'' else ''error'')),
           (''status_scope'', String ''tool_dispatch''),
           (''status_provenance'', String ''codex.tool_result.success''),
           (''initiator'', String ''assistant''),
           (''arguments'', parse_json_string_or_clone env arguments),
           (''result'', output),
           (''error'', if success then Null else output),
           (''process_outcome'', json_opt (process_outcome runtime_namespace runtime_tool output)),
           (''schema_provenance'', json_object
              [(''source'', String ''openai_wire_tool_definition''), (''source_complete'', Bool False),
               (''reason'', String (''OTLP tool results do not contain Tool Schema; ''
                  @ ''Assembly must join the observed Wire definition''))]),
           (''started_at'', jopt (started_at env attributes finished_at)),
           (''finished_at'', jopt finished_at),
           (''model_call_matched'', Bool False),
           (''result_content_captured'', Bool (output_truncated = Some False)),
           (''output_truncated'', json_opt (map_option Bool output_truncated)),
           (''duration_ms'', json_opt (tget attributes ''duration_ms'')),
           (''tool_result_seq'', json_opt (tget attributes ''tool_result_seq'')),
           (''source_event_name'', String ''codex.tool_result'')])"

definition derive_tool_result ::
  "cloud_env \<Rightarrow> json \<Rightarrow> jobject \<Rightarrow> string \<Rightarrow> u64 \<Rightarrow> nat \<Rightarrow> string + capture_record option" where
  "derive_tool_result env log_record attributes raw_sha256 ordinal max_bytes =
     rbind (required_attribute attributes ''conversation.id'') (\<lambda>session_id.
     rbind (required_attribute attributes ''call_id'') (\<lambda>call_id.
     rbind (required_attribute attributes ''tool_name'') (\<lambda>runtime_tool.
     rbind (ok_or ''arguments is required'' (tget attributes ''arguments'')) (\<lambda>arguments.
     rbind (ok_or ''output is required'' (tget attributes ''output'')) (\<lambda>output.
     rbind (ok_or ''success is required'' (attribute_bool attributes ''success'')) (\<lambda>success.
     let finished_at = record_timestamp env log_record attributes;
         digest = stable_digest env [raw_sha256, nat_dec (unat ordinal), ''tool_result'']
     in rbind (normalize_value env (json_object
          [(''recordType'', String ''tool_execution''),
           (''captureId'', String (''cap-cloud-'' @ digest)),
           (''captureStage'', String ''event''),
           (''sourceNamespace'', String cloud_source_namespace),
           (''requestedModelAlias'', jopt (attribute_string attributes ''model'')),
           (''receivedAt'', jopt finished_at),
           (''startedAt'', jopt (started_at env attributes finished_at)),
           (''finishedAt'', jopt finished_at),
           (''traceContext'', trace_context log_record attributes session_id),
           (''toolExecution'',
              tool_execution_member env log_record attributes call_id runtime_tool arguments output success)]) max_bytes)
        (\<lambda>r. Inr (Some r))))))))"

text \<open>Events that carry no lifecycle boundary and no tool result.\<close>

definition supplementary_events :: "string list" where
  "supplementary_events =
     [''codex.user_prompt'', ''codex.api_request'', ''codex.sse_event'', ''codex.tool_decision'',
      ''codex.sandbox_outcome'', ''codex.startup_phase'', ''codex.turn_ttft'', ''codex.turn_cost'',
      ''codex.plugin_install_elicitation_sent'', ''codex.plugin_install_suggestion'', ''codex.websocket_connect'',
      ''codex.websocket_request'', ''codex.auth_recovery'', ''codex.agent_communication'']"

definition log_event_name :: "jobject \<Rightarrow> string" where
  "log_event_name attributes = (case attribute_string attributes ''event.name'' of None \<Rightarrow> [] | Some n \<Rightarrow> n)"

definition known_log_event :: "string \<Rightarrow> bool" where
  "known_log_event event_name \<longleftrightarrow>
     event_name \<in> set ([''codex.conversation_starts'', ''codex.tool_result''] @ supplementary_events)"

definition derive_log_event ::
  "cloud_env \<Rightarrow> json \<Rightarrow> jobject \<Rightarrow> string \<Rightarrow> u64 \<Rightarrow> nat \<Rightarrow> string + capture_record option" where
  "derive_log_event env log_record attributes raw_sha256 ordinal max_bytes =
     (let event_name = log_event_name attributes in
      if event_name = ''codex.conversation_starts''
      then derive_conversation_start env log_record attributes raw_sha256 ordinal max_bytes
      else if event_name = ''codex.tool_result''
      then derive_tool_result env log_record attributes raw_sha256 ordinal max_bytes
      else if event_name \<in> set supplementary_events then Inr None
      else derive_telemetry_incomplete env log_record attributes raw_sha256 ordinal
             (''unsupported OTLP log event '' @ ci_debug env event_name) max_bytes)"


section \<open>The walk through the envelope\<close>

record log_batch =
  lb_records :: "capture_record list"
  lb_source_records :: u64
  lb_unknown_events :: u64
  lb_errors :: "string list"

definition log_error :: "string \<Rightarrow> string \<Rightarrow> log_batch \<Rightarrow> log_batch" where
  "log_error path e b = b\<lparr>lb_errors := lb_errors b @ [path @ '': '' @ e]\<rparr>"

definition convert_log_record ::
  "cloud_env \<Rightarrow> string \<Rightarrow> nat \<Rightarrow> json \<Rightarrow> jobject \<Rightarrow> u64 \<Rightarrow> log_batch \<Rightarrow> log_batch" where
  "convert_log_record env raw_sha256 max_bytes log_record attributes ordinal b =
     (let event_name = log_event_name attributes;
          b = (if known_log_event event_name then b
               else b\<lparr>lb_unknown_events := saturating_add (lb_unknown_events b) 1\<rparr>)
      in case derive_log_event env log_record attributes raw_sha256 ordinal max_bytes of
           Inr (Some r) \<Rightarrow> b\<lparr>lb_records := lb_records b @ [r]\<rparr>
         | Inr None \<Rightarrow> b
         | Inl e \<Rightarrow>
             (let error = indexed ''logRecords'' (unat ordinal) @ '' '' @ event_name @ '': '' @ e;
                  incomplete = (case derive_telemetry_incomplete env log_record attributes raw_sha256 ordinal
                                       error max_bytes of Inr (Some r) \<Rightarrow> [r] | _ \<Rightarrow> [])
              in b\<lparr>lb_records := lb_records b @ incomplete, lb_errors := lb_errors b @ [error]\<rparr>))"

text \<open>The record's own attributes, once the identities of its three layers agree.\<close>

definition record_attributes :: "json \<Rightarrow> json \<Rightarrow> json \<Rightarrow> string + jobject" where
  "record_attributes resource_log scope_log log_record =
     rbind (attributes_map (jget log_record ''attributes'')) (\<lambda>own.
     rbind (validate_otlp_identity_layers
        [pointer resource_log [''resource'', ''attributes''],
         pointer scope_log [''scope'', ''attributes''], jget log_record ''attributes'']) (\<lambda>_.
     Inr own))"

text \<open>The attributes of the resource and of the scope are missing when they could not be read.\<close>

definition visit_log_record ::
  "cloud_env \<Rightarrow> string \<Rightarrow> nat \<Rightarrow> json \<Rightarrow> json \<Rightarrow> jobject option \<Rightarrow> jobject option \<Rightarrow> json \<Rightarrow> log_batch \<Rightarrow> log_batch" where
  "visit_log_record env raw_sha256 max_bytes resource_log scope_log resource_attributes scope_attributes log_record b =
     (let ordinal = lb_source_records b;
          b = b\<lparr>lb_source_records := saturating_add ordinal 1\<rparr>
      in case (resource_attributes, scope_attributes) of
           (Some resource_attributes, Some scope_attributes) \<Rightarrow>
             (case record_attributes resource_log scope_log log_record of
                Inl e \<Rightarrow> log_error (indexed ''logRecords'' (unat ordinal)) e b
              | Inr own \<Rightarrow>
                  convert_log_record env raw_sha256 max_bytes log_record
                    (put_all own (put_all scope_attributes resource_attributes)) ordinal b)
         | _ \<Rightarrow> b)"

text \<open>The attributes of a message, or an error and none.\<close>

definition layer_attributes :: "string \<Rightarrow> json option \<Rightarrow> string \<Rightarrow> log_batch \<Rightarrow> jobject option \<times> log_batch" where
  "layer_attributes path message field b =
     (case rbind (otlp_message_attributes message field) attributes_map of
        Inr attributes \<Rightarrow> (Some attributes, b)
      | Inl e \<Rightarrow> (None, log_error path e b))"

definition visit_scope_log ::
  "cloud_env \<Rightarrow> string \<Rightarrow> nat \<Rightarrow> string \<Rightarrow> json \<Rightarrow> jobject option \<Rightarrow> nat \<times> json \<Rightarrow> log_batch \<Rightarrow> log_batch" where
  "visit_scope_log env raw_sha256 max_bytes path resource_log resource_attributes item b =
     (case layer_attributes (path @ ''.'' @ indexed ''scopeLogs'' (fst item)) (jget (snd item) ''scope'') ''scope'' b of
        (scope_attributes, b) \<Rightarrow>
          fold (visit_log_record env raw_sha256 max_bytes resource_log (snd item) resource_attributes scope_attributes)
            (items_of (jget (snd item) ''logRecords'')) b)"

definition visit_resource_log :: "cloud_env \<Rightarrow> string \<Rightarrow> nat \<Rightarrow> nat \<times> json \<Rightarrow> log_batch \<Rightarrow> log_batch" where
  "visit_resource_log env raw_sha256 max_bytes item b =
     (let path = indexed ''resourceLogs'' (fst item) in
      case layer_attributes path (jget (snd item) ''resource'') ''resource'' b of
        (resource_attributes, b) \<Rightarrow>
          fold (visit_scope_log env raw_sha256 max_bytes path (snd item) resource_attributes)
            (enumerate 0 (items_of (jget (snd item) ''scopeLogs''))) b)"

definition derive_otlp_logs :: "cloud_env \<Rightarrow> json \<Rightarrow> string \<Rightarrow> nat \<Rightarrow> log_batch" where
  "derive_otlp_logs env envelope raw_sha256 max_bytes =
     fold (visit_resource_log env raw_sha256 max_bytes) (enumerate 0 (items_of (jget envelope ''resourceLogs'')))
       \<lparr>lb_records = [], lb_source_records = 0, lb_unknown_events = 0,
        lb_errors = (case validate_otlp_structure ''otlp_logs'' envelope of Inl e \<Rightarrow> [e] | Inr _ \<Rightarrow> [])\<rparr>"


section \<open>Traces\<close>

definition count_nested_records :: "json \<Rightarrow> string \<Rightarrow> string \<Rightarrow> string \<Rightarrow> u64" where
  "count_nested_records v outer middle inner =
     sum_list (map (\<lambda>m. of_nat (length (items_of (jget m inner))))
       (concat (map (\<lambda>u. items_of (jget u middle)) (items_of (jget v outer)))))"

definition validate_otlp_traces :: "json \<Rightarrow> u64 \<times> string list" where
  "validate_otlp_traces envelope =
     (count_nested_records envelope ''resourceSpans'' ''scopeSpans'' ''spans'',
      case visit_otlp_envelope ''otlp_traces'' envelope (\<lambda>_ _ attributes s.
             rbind (session_attribute attributes) (\<lambda>_.
             rbind (turn_attribute attributes) (\<lambda>_. Inr s))) () of
        Inl e \<Rightarrow> [e]
      | Inr _ \<Rightarrow> [])"

end
