(* ===== verification/CloudHook.thy ===== *)
theory CloudHook
  imports CloudValues
begin

text \<open>
  The conversion of Codex hooks to Captures (\<open>cloud_ingest.rs\<close>): the known events with what each
  requires, lifecycle boundaries, and tool events.
\<close>

section \<open>Aliases\<close>

definition optional_alias_string :: "json \<Rightarrow> string list \<Rightarrow> string option" where
  "optional_alias_string v keys = find_map (\<lambda>key. non_blank (get_str v key)) keys"

definition optional_alias_bool :: "json \<Rightarrow> string list \<Rightarrow> bool option" where
  "optional_alias_bool v keys = find_map (\<lambda>key. Option.bind (jget v key) text_bool) keys"

definition value_alias :: "json \<Rightarrow> string list \<Rightarrow> json option" where
  "value_alias v keys = find_map (jget v) keys"


section \<open>The known events\<close>

record hook_event_kind =
  hk_lifecycle_type :: string
  hk_default_status :: "string option"
  hk_terminal :: bool
  hk_requires_turn :: bool
  hk_requires_agent :: bool
  hk_tool_event :: bool

definition hook_kind :: "string \<Rightarrow> string \<Rightarrow> bool \<Rightarrow> bool \<Rightarrow> bool \<Rightarrow> bool \<Rightarrow> hook_event_kind" where
  "hook_kind lifecycle_type status terminal requires_turn requires_agent tool_event =
     \<lparr>hk_lifecycle_type = lifecycle_type, hk_default_status = Some status, hk_terminal = terminal,
      hk_requires_turn = requires_turn, hk_requires_agent = requires_agent, hk_tool_event = tool_event\<rparr>"

definition known_hook_events :: "(string \<times> hook_event_kind) list" where
  "known_hook_events =
     [(''SessionStart'', hook_kind ''session_start'' ''started'' False False False False),
      (''SessionEnd'', hook_kind ''session_end'' ''closed'' True False False False),
      (''Stop'', hook_kind ''turn_end'' ''closed'' False True False False),
      (''Interrupt'', hook_kind ''turn_interrupt'' ''cancelled'' False True False False),
      (''SubagentStart'', hook_kind ''subagent_spawn'' ''started'' False True True False),
      (''SubagentStop'', hook_kind ''subagent_join'' ''closed'' False True True False),
      (''PreCompact'', hook_kind ''compaction_start'' ''started'' False True False False),
      (''PostCompact'', hook_kind ''compaction_end'' ''completed'' False True False False),
      (''UserPromptSubmit'', hook_kind ''user_prompt_submit'' ''completed'' False True False False),
      (''PermissionRequest'', hook_kind ''permission_request'' ''unknown'' False True False False),
      (''PreToolUse'', hook_kind ''tool_start'' ''started'' False True False True),
      (''PostToolUse'', hook_kind ''tool_end'' ''unknown'' False True False True)]"

definition known_hook_event :: "string \<Rightarrow> hook_event_kind option" where
  "known_hook_event event_name = map_of known_hook_events event_name"

definition require_string :: "json \<Rightarrow> string \<Rightarrow> string \<Rightarrow> string + unit" where
  "require_string envelope event_name field =
     demand (non_blank (get_str envelope field) \<noteq> None) (event_name @ '' requires '' @ field)"

definition required_hook_fields :: "string \<Rightarrow> string list" where
  "required_hook_fields event_name =
     (if event_name = ''SessionStart'' then [''model'', ''permission_mode'', ''source'']
      else if event_name = ''SessionEnd'' then [''reason'']
      else if event_name = ''UserPromptSubmit'' then [''prompt'']
      else if event_name \<in> {''PreCompact'', ''PostCompact''} then [''trigger'']
      else if event_name \<in> {''SubagentStart'', ''SubagentStop''} then [''agent_type'']
      else if event_name = ''PermissionRequest'' then [''tool_name'']
      else [])"

definition validate_hook_fields :: "json \<Rightarrow> string \<Rightarrow> string + unit" where
  "validate_hook_fields envelope event_name =
     rbind (for_each (require_string envelope event_name) (required_hook_fields event_name)) (\<lambda>_.
     demand (event_name \<noteq> ''PermissionRequest'' \<or> jget envelope ''tool_input'' \<noteq> None)
       ''PermissionRequest requires tool_input'')"


section \<open>Captures of hooks\<close>

definition hook_trace_context :: "json \<Rightarrow> string \<Rightarrow> string option \<Rightarrow> string option \<Rightarrow> json" where
  "hook_trace_context envelope session_id turn_id agent_id =
     without_nulls (json_object
       [(''session_id'', String session_id), (''thread_id'', String session_id),
        (''conversation_id'', String session_id),
        (''task_session_id'', jopt (optional_alias_string envelope [''task_session_id'', ''taskSessionId''])),
        (''root_session_id'', jopt (optional_alias_string envelope [''root_session_id'', ''rootSessionId''])),
        (''parent_session_id'', jopt (optional_alias_string envelope [''parent_session_id'', ''parentSessionId''])),
        (''goal_id'', jopt (optional_alias_string envelope [''goal_id'', ''goalId''])),
        (''turn_id'', jopt turn_id),
        (''root_turn_id'', jopt (or_else (optional_alias_string envelope [''root_turn_id'', ''rootTurnId'']) turn_id)),
        (''agent_id'', jopt agent_id),
        (''branch_id'', jopt (optional_alias_string envelope [''branch_id'', ''branchId''])),
        (''previous_response_id'',
           jopt (optional_alias_string envelope [''previous_response_id'', ''previousResponseId'']))])"

definition hook_status_of :: "string \<Rightarrow> string option" where
  "hook_status_of status =
     (let s = to_ascii_lowercase (trim status) in
      if s \<in> {''started'', ''running''} then Some ''started''
      else if s \<in> {''success'', ''succeeded'', ''completed'', ''complete''} then Some ''success''
      else if s \<in> {''error'', ''failed'', ''failure''} then Some ''error''
      else if s \<in> {''cancelled'', ''canceled''} then Some ''cancelled''
      else if s \<in> {''timeout'', ''timed_out''} then Some ''timeout''
      else if s = ''unknown'' then Some ''unknown''
      else None)"

definition explicit_hook_status :: "json \<Rightarrow> string option" where
  "explicit_hook_status envelope =
     (case optional_alias_string envelope [''status'', ''tool_status'', ''toolStatus''] of
        Some status \<Rightarrow> hook_status_of status
      | None \<Rightarrow>
          if optional_alias_bool envelope [''is_error'', ''isError''] = Some True then Some ''error''
          else if optional_alias_bool envelope [''success''] = Some True then Some ''success''
          else if optional_alias_bool envelope [''success''] = Some False then Some ''error''
          else None)"

type_synonym derived_batch = "capture_record list \<times> u64 \<times> u64 \<times> string list"

definition hook_tool_status :: "json \<Rightarrow> string \<Rightarrow> string" where
  "hook_tool_status envelope event_name =
     (if event_name = ''PostToolUse''
      then case explicit_hook_status envelope of None \<Rightarrow> ''unknown'' | Some s \<Rightarrow> s
      else ''started'')"

definition derive_hook_tool_event ::
  "cloud_env \<Rightarrow> json \<Rightarrow> string \<Rightarrow> string \<Rightarrow> json \<Rightarrow> nat \<Rightarrow> string + derived_batch" where
  "derive_hook_tool_event env envelope event_name event_id trace max_bytes =
     rbind (ok_or ''tool event requires tool_name''
              (optional_alias_string envelope [''tool_name'', ''toolName'', ''name''])) (\<lambda>tool_name.
     rbind (ok_or ''tool event requires tool_use_id''
              (optional_alias_string envelope
                 [''tool_use_id'', ''toolUseId'', ''tool_call_id'', ''toolCallId'', ''call_id''])) (\<lambda>call_id.
     rbind (ok_or ''tool event requires tool_input''
              (value_alias envelope [''tool_input'', ''toolInput'', ''arguments'', ''input''])) (\<lambda>arguments.
     let is_post = (event_name = ''PostToolUse'');
         result = value_alias envelope [''tool_response'', ''toolResponse'', ''tool_output'', ''output''];
         status = hook_tool_status envelope event_name;
         runtime_namespace = optional_alias_string envelope [''tool_namespace'', ''toolNamespace'', ''namespace'']
     in rbind (demand (\<not> (is_post \<and> result = None)) ''PostToolUse requires tool_response'') (\<lambda>_.
        rbind (demand (status \<in> {''started'', ''success'', ''error'', ''cancelled'', ''timeout'', ''unknown''})
                 (''unsupported tool event status '' @ ci_debug env status)) (\<lambda>_.
        rbind (normalize_value env (json_object
          [(''recordType'', String ''tool_execution''),
           (''captureId'', String (''cap-cloud-'' @ event_id)),
           (''captureStage'', String ''event''),
           (''sourceNamespace'', String cloud_source_namespace),
           (''requestedModelAlias'', jopt (optional_alias_string envelope [''model'', ''model_name'', ''modelName''])),
           (''traceContext'', trace),
           (''toolExecution'', json_object
              [(''call_id'', String call_id),
               (''parent_call_id'', jopt (optional_alias_string envelope [''parent_call_id'', ''parentCallId''])),
               (''name'', String (canonical_runtime_tool_name runtime_namespace tool_name)),
               (''runtime_tool'', String tool_name),
               (''runtime_namespace'', jopt runtime_namespace),
               (''status'', String status),
               (''initiator'', String ''runtime''),
               (''arguments'', arguments),
               (''result'', json_opt result),
               (''error'', if status \<in> {''error'', ''cancelled'', ''timeout''} then json_opt result else Null),
               (''schema_provenance'', json_object
                  [(''source'', String ''hook_tool_event''), (''source_complete'', Bool False),
                   (''reason'', String (''Hook payload has no authoritative JSON Tool Schema; ''
                      @ ''Assembly must join the observed Wire definition''))]),
               (''started_at'', jopt (optional_alias_string envelope [''started_at'', ''startedAt''])),
               (''finished_at'', jopt (optional_alias_string envelope [''finished_at'', ''finishedAt'', ''timestamp''])),
               (''model_call_matched'', Bool False),
               (''result_content_captured'', Bool is_post),
               (''output_truncated'',
                  json_opt (map_option Bool (optional_alias_bool envelope [''output_truncated'', ''outputTruncated'']))),
               (''source_event_name'', String event_name),
               (''source_event'', envelope)])]) max_bytes) (\<lambda>r.
        Inr ([r], 1, 0, [])))))))"

text \<open>A session that starts from a compaction resumes one.\<close>

definition compact_resume :: "json \<Rightarrow> string \<Rightarrow> bool" where
  "compact_resume envelope event_name \<longleftrightarrow>
     event_name = ''SessionStart''
     \<and> (case get_str envelope ''source'' of None \<Rightarrow> False | Some s \<Rightarrow> to_ascii_lowercase s = ''compact'')"

definition hook_lifecycle_type :: "json \<Rightarrow> string \<Rightarrow> hook_event_kind \<Rightarrow> string" where
  "hook_lifecycle_type envelope event_name kind =
     (if compact_resume envelope event_name then ''compaction_resume'' else hk_lifecycle_type kind)"

definition hook_lifecycle_status :: "json \<Rightarrow> string \<Rightarrow> hook_event_kind \<Rightarrow> string" where
  "hook_lifecycle_status envelope event_name kind =
     (if compact_resume envelope event_name then ''completed''
      else case hk_default_status kind of None \<Rightarrow> ''unknown'' | Some s \<Rightarrow> s)"

definition hook_lifecycle_capture :: "json \<Rightarrow> string \<Rightarrow> string \<Rightarrow> hook_event_kind \<Rightarrow> json \<Rightarrow> json" where
  "hook_lifecycle_capture envelope event_name event_id kind trace =
     (let lifecycle_type = hook_lifecycle_type envelope event_name kind
      in json_object
          [(''recordType'', String ''lifecycle_event''),
           (''captureId'', String (''cap-cloud-'' @ event_id)),
           (''captureStage'', String ''event''),
           (''sourceNamespace'', String cloud_source_namespace),
           (''requestedModelAlias'', jopt (optional_alias_string envelope [''model'', ''model_name'', ''modelName''])),
           (''isFinalSnapshot'', Bool (hk_terminal kind)),
           (''traceContext'', trace),
           (''observedLifecycleEvents'', Array [String lifecycle_type]),
           (''lifecycleEvent'', json_object
              [(''event_id'', String (''hook-'' @ event_id)),
               (''type'', String lifecycle_type),
               (''status'', String (hook_lifecycle_status envelope event_name kind)),
               (''reason'', json_opt (value_alias envelope [''reason''])),
               (''occurred_at'', jopt (optional_alias_string envelope [''occurred_at'', ''occurredAt'', ''timestamp''])),
               (''source_event'', envelope),
               (''source_event_name'', String event_name)])])"

definition derive_codex_hook :: "cloud_env \<Rightarrow> json \<Rightarrow> string \<Rightarrow> nat \<Rightarrow> string + derived_batch" where
  "derive_codex_hook env envelope raw_sha256 max_bytes =
     rbind (ok_or ''Codex hook requires hook_event_name'' (non_blank (get_str envelope ''hook_event_name''))) (\<lambda>event_name.
     rbind (ok_or ''Codex hook requires session_id'' (non_blank (get_str envelope ''session_id''))) (\<lambda>session_id.
     case known_hook_event event_name of
       None \<Rightarrow> Inr ([], 1, 1, [])
     | Some kind \<Rightarrow>
         rbind (validate_hook_fields envelope event_name) (\<lambda>_.
         let turn_id = optional_alias_string envelope [''turn_id'', ''turnId''];
             agent_id = optional_alias_string envelope [''agent_id'', ''agentId'']
         in rbind (demand (\<not> (hk_requires_turn kind \<and> turn_id = None)) (event_name @ '' requires turn_id'')) (\<lambda>_.
            rbind (demand (\<not> (hk_requires_agent kind \<and> agent_id = None)) (event_name @ '' requires agent_id'')) (\<lambda>_.
            let event_id = (case optional_alias_string envelope [''event_id'', ''eventId'', ''hook_event_id''] of
                              Some e \<Rightarrow> e | None \<Rightarrow> stable_digest env [raw_sha256, event_name]);
                trace = hook_trace_context envelope session_id turn_id agent_id
            in if hk_tool_event kind then derive_hook_tool_event env envelope event_name event_id trace max_bytes
               else rbind (normalize_value env (hook_lifecycle_capture envelope event_name event_id kind trace) max_bytes)
                      (\<lambda>r. Inr ([r], 1, 0, [])))))))"

end
