(* ===== verification/CloudIngest.thy ===== *)
theory CloudIngest
  imports CloudLogs CloudHook
begin

text \<open>
  The preparation of a cloud payload (\<open>prepare_cloud_ingest\<close>): the body is stored as a telemetry
  batch, followed by the Captures derived from it, whatever could not be converted being counted;
  and the later check of a stored batch against its own raw text.
\<close>

text \<open>What the conversion of an endpoint yields; an error that ends it is its only result.\<close>

definition derive_batch :: "cloud_env \<Rightarrow> cloud_endpoint \<Rightarrow> json \<Rightarrow> string \<Rightarrow> nat \<Rightarrow> derived_batch" where
  "derive_batch env ep envelope raw_sha256 max_bytes =
     (case ep of
        OtlpLogs \<Rightarrow>
          (let b = derive_otlp_logs env envelope raw_sha256 max_bytes
           in (lb_records b, lb_source_records b, lb_unknown_events b, lb_errors b))
      | OtlpTraces \<Rightarrow> (case validate_otlp_traces envelope of (source_records, errors) \<Rightarrow> ([], source_records, 0, errors))
      | CodexHook \<Rightarrow>
          (case derive_codex_hook env envelope raw_sha256 max_bytes of
             Inr batch \<Rightarrow> batch
           | Inl e \<Rightarrow> ([], 1, 0, [e])))"

definition is_incomplete_record :: "cloud_env \<Rightarrow> capture_record \<Rightarrow> bool" where
  "is_incomplete_record env r \<longleftrightarrow>
     Option.bind (ci_parse env (cr_canonical r)) (\<lambda>v. ptr_str v [''lifecycleEvent'', ''type'']) = Some ''telemetry_incomplete''"

definition batch_summary :: "cloud_env \<Rightarrow> cloud_endpoint \<Rightarrow> derived_batch \<Rightarrow> cloud_summary" where
  "batch_summary env ep batch =
     (case batch of (derived, source_records, unknown_events, conversion_errors) \<Rightarrow>
        (let quality_error_count = saturating_add unknown_events (of_nat (length conversion_errors));
             attributed = of_nat (length (filter (is_incomplete_record env) derived))
         in \<lparr>cs_endpoint = endpoint_name ep, cs_source_records = source_records,
             cs_derived_captures = of_nat (length derived), cs_unknown_events = unknown_events,
             cs_attributed_quality_errors = min attributed quality_error_count,
             cs_conversion_errors = conversion_errors\<rparr>))"

definition batch_capture :: "cloud_env \<Rightarrow> cloud_endpoint \<Rightarrow> string \<Rightarrow> cloud_summary \<Rightarrow> json" where
  "batch_capture env ep raw summary =
     json_object
       [(''recordType'', String ''telemetry_batch''),
        (''captureId'', String (cloud_capture_id env ''batch'' [endpoint_name ep, ci_sha env raw])),
        (''captureStage'', String ''event''),
        (''sourceNamespace'', String cloud_source_namespace),
        (''telemetryBatch'', json_object
           [(''schema_version'', String telemetry_batch_version),
            (''endpoint'', String (endpoint_name ep)),
            (''raw_json'', String raw),
            (''raw_bytes'', jnat (length raw)),
            (''raw_sha256'', String (ci_sha env raw)),
            (''source_records'', jnum (cs_source_records summary)),
            (''derived_captures'', jnum (cs_derived_captures summary)),
            (''unknown_events'', jnum (cs_unknown_events summary)),
            (''attributed_quality_errors'', jnum (cs_attributed_quality_errors summary)),
            (''conversion_errors'', Array (map String (cs_conversion_errors summary))),
            (''quality_error_reasons'',
               Object (map (\<lambda>kn. (fst kn, jnum (snd kn))) (quality_error_reasons summary)))])]"

definition prepare_cloud_ingest ::
  "cloud_env \<Rightarrow> cloud_endpoint \<Rightarrow> string \<Rightarrow> nat \<Rightarrow> string + capture_record list \<times> cloud_summary" where
  "prepare_cloud_ingest env ep raw max_bytes =
     rbind (demand (raw \<noteq> []) ''cloud ingest body must not be empty'') (\<lambda>_.
     rbind (demand (length raw \<le> max_bytes) (''cloud ingest body exceeds '' @ nat_dec max_bytes @ '' bytes'')) (\<lambda>_.
     rbind (demand (utf8_valid raw) ''cloud ingest body must be UTF-8 JSON'') (\<lambda>_.
     rbind (ok_or ''parse cloud ingest JSON'' (ci_parse env raw)) (\<lambda>envelope.
     rbind (demand (is_obj envelope) ''cloud ingest body must be a JSON object'') (\<lambda>_.
     let batch = derive_batch env ep envelope (ci_sha env raw) max_bytes;
         summary = batch_summary env ep batch
     in rbind (normalize_value env (batch_capture env ep raw summary) max_bytes) (\<lambda>r.
        Inr (r # fst batch, summary)))))))"


section \<open>Revalidation\<close>

definition parse_endpoint :: "cloud_env \<Rightarrow> string \<Rightarrow> string + cloud_endpoint" where
  "parse_endpoint env s =
     (if s = ''otlp_logs'' then Inr OtlpLogs
      else if s = ''otlp_traces'' then Inr OtlpTraces
      else if s = ''codex_hook'' then Inr CodexHook
      else Inl (''unsupported cloud ingest endpoint '' @ ci_debug env s))"

text \<open>A map from reasons to counts, read from a JSON object.\<close>

definition reason_counts :: "json \<Rightarrow> (string, u64) table option" where
  "reason_counts v =
     (case as_object v of
        None \<Rightarrow> None
      | Some m \<Rightarrow>
          if list_all (\<lambda>kw. as_u64 (snd kw) \<noteq> None) m
          then Some (map (\<lambda>kw. (fst kw, the (as_u64 (snd kw)))) m) else None)"

definition usize_max :: nat where
  "usize_max = 2 ^ 64 - 1"

definition revalidate_telemetry_batch :: "cloud_env \<Rightarrow> json \<Rightarrow> string + cloud_summary" where
  "revalidate_telemetry_batch env capture =
     rbind (ok_or ''telemetry_batch requires telemetryBatch'' (Option.bind (jget capture ''telemetryBatch'') as_object)) (\<lambda>batch.
     rbind (ok_or ''telemetryBatch.endpoint is required'' (ostr batch ''endpoint'')) (\<lambda>endpoint.
     rbind (ok_or ''telemetryBatch.raw_json is required'' (ostr batch ''raw_json'')) (\<lambda>raw.
     rbind (parse_endpoint env endpoint) (\<lambda>ep.
     rbind (prepare_cloud_ingest env ep raw usize_max) (\<lambda>prepared.
     let summary = snd prepared in
     case tget batch ''quality_error_reasons'' of
       None \<Rightarrow> Inr summary
     | Some v \<Rightarrow>
         rbind (ok_or ''telemetryBatch.quality_error_reasons must be a reason-count object'' (reason_counts v)) (\<lambda>observed.
         rbind (demand (observed = quality_error_reasons summary)
                  ''telemetryBatch.quality_error_reasons does not match the raw telemetry'') (\<lambda>_.
         Inr summary)))))))"

end
