(* ===== verification/CloudConversion.thy ===== *)
theory CloudConversion
  imports CloudIngest CaptureProperties
begin

text \<open>
  Lemmas on the conversion of cloud payloads: what the normalisation keeps of a converted Capture,
  that a larger size limit changes nothing that was accepted, the digest inputs, and the invariants
  of the walk through a log envelope.
\<close>

section \<open>Normalising a converted Capture\<close>

definition rewritten_members :: "string list" where
  "rewritten_members =
     ''recordType'' # body_members
       @ [''traceContext'', ''requestId'', ''upstreamRequestId'', ''fieldEvidence'', ''fieldEvidenceConflicts'', ''captureStage'']
       @ ''receivedAt'' # sealed_members @ map fst default_members"

lemma kept_members: "k \<in> {''telemetryBatch'', ''lifecycleEvent'', ''toolExecution'', ''isFinalSnapshot''} \<Longrightarrow> k \<notin> set rewritten_members"
proof -
  have "list_all (\<lambda>k. k \<notin> set rewritten_members) [''telemetryBatch'', ''lifecycleEvent'', ''toolExecution'', ''isFinalSnapshot'']"
    by code_simp
  then show "k \<in> {''telemetryBatch'', ''lifecycleEvent'', ''toolExecution'', ''isFinalSnapshot''} \<Longrightarrow> k \<notin> set rewritten_members"
    by auto
qed

lemma normalize_value_keeps:
  assumes "normalize_value env v max_bytes = Inr r" "json_codec (ci_parse env) (ci_ser env)" "wf_json v"
  obtains ob where "ci_parse env (cr_canonical r) = Some (Object ob)" "get_str v ''captureId'' = Some (cr_capture_id r)"
    "cr_sha256 r = ci_sha env (cr_canonical r)" "length (cr_canonical r) \<le> max_bytes"
    "\<And>k. k \<notin> set rewritten_members \<Longrightarrow> tget ob k = jget v k"
proof -
  from assms(1) obtain sent sealed where c: "ci_parse env (ci_ser env v) = Some (Object sent)"
      "ostr sent ''captureId'' = Some (cr_capture_id r)"
      "normalize_object (ci_sha env) (ci_parse env) (ci_ser env) True sent = Inr sealed"
      "length (cr_canonical r) \<le> max_bytes" "cr_canonical r = ci_ser env (Object (fill_received_at sealed))"
      "cr_sha256 r = ci_sha env (cr_canonical r)"
    unfolding normalize_value_def normalize_capture_def
    by (rule normalize_capture_steps) (metis capture_record.select_convs(3))
  from c(1) codec_parse [OF assms(2,3)] have v: "v = Object sent" by simp
  with assms(3) have wf: "wf_object sent" by simp
  from normalize_object_stored [OF c(3) wf assms(2)] obtain body where
      body: "fill_received_at sealed = stored_object (promote_protocol_fields (ci_parse env) (ci_ser env) body)"
        "\<forall>k. k \<notin> set (''recordType'' # body_members) \<longrightarrow> tget body k = tget sent k" "wf_object (fill_received_at sealed)"
    by blast
  show thesis
  proof (rule that [of "fill_received_at sealed"])
    show "ci_parse env (cr_canonical r) = Some (Object (fill_received_at sealed))"
      unfolding c(5) by (rule codec_parse [OF assms(2) body(3)])
    show "get_str v ''captureId'' = Some (cr_capture_id r)" using c(2) by (simp add: v get_str_def ostr_def)
    fix k assume "k \<notin> set rewritten_members"
    then have k: "k \<notin> set (''recordType'' # body_members)"
      "k \<notin> {''traceContext'', ''requestId'', ''upstreamRequestId'', ''fieldEvidence'', ''fieldEvidenceConflicts'', ''captureStage''}"
      "k \<notin> set (''receivedAt'' # sealed_members @ map fst default_members)"
      unfolding rewritten_members_def by auto
    with body(2) show "tget (fill_received_at sealed) k = jget v k"
      unfolding body(1) by (simp add: stored_frame promote_frame v)
  qed (use c in simp_all)
qed

lemma normalize_limit:
  assumes "normalize_value env v m = Inr r" "m \<le> m'"
  shows "normalize_value env v m' = Inr r"
proof -
  from assms(1) obtain ob sealed where c: "ci_parse env (ci_ser env v) = Some (Object ob)" "length (ci_ser env v) \<le> m"
      "ostr ob ''captureId'' = Some (cr_capture_id r)" "capture_id_ok (cr_capture_id r)"
      "normalize_object (ci_sha env) (ci_parse env) (ci_ser env) True ob = Inr sealed"
      "length (cr_canonical r) \<le> m" "cr_canonical r = ci_ser env (Object (fill_received_at sealed))"
    and r: "r = \<lparr>cr_capture_id = cr_capture_id r, cr_canonical = cr_canonical r, cr_sha256 = ci_sha env (cr_canonical r),
          cr_legacy_raw_sha256 = (if ostr ob ''version'' \<noteq> Some capture_schema_version
                                  then Some (ci_sha env (ci_ser env v)) else None),
          cr_received_at = first_timestamp (Object sealed), cr_model = body_model (Object (fill_received_at sealed)),
          cr_wire_evidence = wire_evidence_of (Object (fill_received_at sealed))\<rparr>"
    unfolding normalize_value_def normalize_capture_def by (rule normalize_capture_steps)
  from c assms(2) show ?thesis
    unfolding normalize_value_def normalize_capture_def
    by (subst r) (simp add: normalize_capture_with_policy_def demand_def Let_def)
qed

lemma capture_identifier:
  assumes "normalize_value env v m = Inr r" "json_codec (ci_parse env) (ci_ser env)" "wf_json v"
  shows "get_str v ''captureId'' = Some (cr_capture_id r)"
  by (rule normalize_value_keeps [OF assms])

section \<open>Digest inputs\<close>

lemma length_be64 [simp]: "length (be64 n) = 8"
  by (simp add: be64_def)

lemma be64_inject:
  assumes "m < 2 ^ 64" "n < 2 ^ 64"
  shows "be64 m = be64 n \<longleftrightarrow> m = n"
proof
  assume eq: "be64 m = be64 n"
  have "m div 256 ^ i mod 256 = n div 256 ^ i mod 256" if "i < 8" for i
  proof -
    have "char_of (m div 256 ^ i) = (char_of (n div 256 ^ i) :: char)"
      using eq that by (auto simp: be64_def)
    then have "of_char (char_of (m div 256 ^ i)) = (of_char (char_of (n div 256 ^ i)) :: nat)" by simp
    then show ?thesis by simp
  qed
  note d = this
  have split: "k div 256 ^ i = k div 256 ^ Suc i * 256 + k div 256 ^ i mod 256" for k i :: nat
    by (simp add: div_mult2_eq mult.commute [of 256] )
  have "m div 256 ^ (8 - j) = n div 256 ^ (8 - j)" if "j \<le> 8" for j
    using that
  proof (induction j)
    case 0
    then show ?case using assms by simp
  next
    case (Suc j)
    then have "8 - j = Suc (8 - Suc j)" by simp
    with Suc d [of "8 - Suc j"] show ?case
      using split [of m "8 - Suc j"] split [of n "8 - Suc j"] by simp
  qed
  from this [of 8] show "m = n" by simp
qed simp

lemma digest_input_inject:
  assumes "\<forall>c \<in> set xs. length c < 2 ^ 64" "\<forall>c \<in> set ys. length c < 2 ^ 64" "digest_input xs = digest_input ys"
  shows "xs = ys"
  using assms
proof (induction xs arbitrary: ys)
  case Nil
  then show ?case by (cases ys) (auto simp: digest_input_def dest: arg_cong [where f = length])
next
  case (Cons x xs)
  then obtain y zs where ys: "ys = y # zs"
    by (cases ys) (auto simp: digest_input_def dest: arg_cong [where f = length])
  have eq: "be64 (length x) @ x @ digest_input xs = be64 (length y) @ y @ digest_input zs"
    using Cons.prems(3) by (simp add: ys digest_input_def)
  then have "be64 (length x) = be64 (length y)" by (metis append_eq_append_conv length_be64)
  with Cons.prems ys have len: "length x = length y" by (simp add: be64_inject)
  with eq have "x = y" "digest_input xs = digest_input zs" by simp_all
  with Cons ys show ?case by simp
qed

section \<open>A larger size limit\<close>

lemma normalize_bind_limit:
  assumes "rbind (normalize_value env v m) f = Inr x" "m \<le> m'"
  shows "rbind (normalize_value env v m') f = Inr x"
proof -
  from assms(1) obtain r where "normalize_value env v m = Inr r" "f r = Inr x" by (auto simp: rbind_eq_Inr)
  with normalize_limit [OF this(1) assms(2)] show ?thesis by simp
qed

lemma rbind_Inr_mono: "rbind x f = Inr y \<Longrightarrow> (\<And>a. f a = Inr y \<Longrightarrow> g a = Inr y) \<Longrightarrow> rbind x g = Inr y"
  by (cases x) auto

lemma option_Inr_mono:
  "(case x of None \<Rightarrow> n | Some a \<Rightarrow> f a) = Inr y \<Longrightarrow> (\<And>a. f a = Inr y \<Longrightarrow> g a = Inr y) \<Longrightarrow>
     (case x of None \<Rightarrow> n | Some a \<Rightarrow> g a) = Inr y"
  by (cases x) auto

lemma if_Inr_mono:
  "(if c then p else q) = Inr y \<Longrightarrow> (p = Inr y \<Longrightarrow> p' = Inr y) \<Longrightarrow> (q = Inr y \<Longrightarrow> q' = Inr y) \<Longrightarrow>
     (if c then p' else q') = Inr y"
  by (cases c) auto

lemma telemetry_incomplete_limit:
  "derive_telemetry_incomplete env lr ats h n reason m = Inr x \<Longrightarrow> m \<le> m' \<Longrightarrow>
     derive_telemetry_incomplete env lr ats h n reason m' = Inr x"
  unfolding derive_telemetry_incomplete_def Let_def by (cases "attribute_string ats ''conversation.id''") (auto elim: normalize_bind_limit)

lemma log_event_limit:
  assumes "derive_log_event env lr ats h n m = Inr x" "m \<le> m'"
  shows "derive_log_event env lr ats h n m' = Inr x"
proof -
  have "derive_conversation_start env lr ats h n m = Inr x \<Longrightarrow> derive_conversation_start env lr ats h n m' = Inr x"
    unfolding derive_conversation_start_def Let_def
    by (elim rbind_Inr_mono) (rule normalize_bind_limit [OF _ assms(2)])
  moreover have "derive_tool_result env lr ats h n m = Inr x \<Longrightarrow> derive_tool_result env lr ats h n m' = Inr x"
    unfolding derive_tool_result_def Let_def
    by (elim rbind_Inr_mono) (rule normalize_bind_limit [OF _ assms(2)])
  ultimately show ?thesis
    using assms(1) unfolding derive_log_event_def Let_def
    by (elim if_Inr_mono) (assumption | erule (1) mp | blast | erule telemetry_incomplete_limit [OF _ assms(2)])+
qed

lemma codex_hook_limit:
  assumes "derive_codex_hook env v h m = Inr x" "m \<le> m'"
  shows "derive_codex_hook env v h m' = Inr x"
proof -
  have tool: "derive_hook_tool_event env v e i tr m = Inr x \<Longrightarrow> derive_hook_tool_event env v e i tr m' = Inr x" for e i tr
    unfolding derive_hook_tool_event_def Let_def by (elim rbind_Inr_mono) (rule normalize_bind_limit [OF _ assms(2)])
  show ?thesis
    using assms(1) unfolding derive_codex_hook_def Let_def
    by (elim rbind_Inr_mono option_Inr_mono if_Inr_mono) (erule tool, rule normalize_bind_limit [OF _ assms(2)])
qed

text \<open>A walk that ends without an error met none on its way.\<close>

lemma fold_agree:
  assumes "\<And>x b. x \<in> set xs \<Longrightarrow> P (f x b) \<Longrightarrow> P b \<and> g x b = f x b" "P (fold f xs b)"
  shows "P b \<and> fold g xs b = fold f xs b"
  using assms
proof (induction xs arbitrary: b)
  case (Cons x xs)
  have "P (f x b) \<and> fold g xs (f x b) = fold f xs (f x b)"
    by (rule Cons.IH) (use Cons.prems in auto)
  with Cons.prems(1) [of x b] show ?case by simp
qed simp

lemma log_record_limit:
  assumes "lb_errors (visit_log_record env h m rl sl ra sa lr b) = []" "m \<le> m'"
  shows "lb_errors b = [] \<and> visit_log_record env h m' rl sl ra sa lr b = visit_log_record env h m rl sl ra sa lr b"
proof -
  have "lb_errors b = [] \<and> convert_log_record env h m' lr ats n b = convert_log_record env h m lr ats n b"
    if "lb_errors (convert_log_record env h m lr ats n b) = []" for ats n b
    using that log_event_limit [OF _ assms(2), of env lr ats h n]
    by (cases "derive_log_event env lr ats h n m") (auto simp: convert_log_record_def Let_def split: option.splits if_splits)
  note step = this
  show ?thesis
  proof (cases ra; cases sa)
    fix own1 own2 assume o: "ra = Some own1" "sa = Some own2"
    show ?thesis
    proof (cases "record_attributes rl sl lr")
      case (Inl e)
      with assms(1) show ?thesis by (simp add: visit_log_record_def Let_def o log_error_def)
    next
      case (Inr own)
      from assms(1) have "lb_errors (convert_log_record env h m lr (put_all own (put_all own2 own1)) (lb_source_records b)
          (b\<lparr>lb_source_records := saturating_add (lb_source_records b) 1\<rparr>)) = []"
        by (simp add: visit_log_record_def Let_def o Inr)
      from step [OF this] show ?thesis by (simp add: visit_log_record_def Let_def o Inr)
    qed
  qed (use assms(1) in \<open>simp_all add: visit_log_record_def Let_def\<close>)
qed

lemma scope_log_limit:
  assumes "lb_errors (visit_scope_log env h m path rl ra item b) = []" "m \<le> m'"
  shows "lb_errors b = [] \<and> visit_scope_log env h m' path rl ra item b = visit_scope_log env h m path rl ra item b"
proof -
  obtain sa b1 where a: "layer_attributes (path @ ''.'' @ indexed ''scopeLogs'' (fst item)) (jget (snd item) ''scope'') ''scope'' b
      = (sa, b1)" by fastforce
  then have "lb_errors b1 = [] \<Longrightarrow> lb_errors b = []" by (auto simp: layer_attributes_def log_error_def split: sum.splits)
  with assms(1) fold_agree [of _ "\<lambda>b. lb_errors b = []" "visit_log_record env h m rl (snd item) ra sa"
      "visit_log_record env h m' rl (snd item) ra sa" b1, OF log_record_limit [OF _ assms(2)]]
  show ?thesis unfolding visit_scope_log_def a prod.case by blast
qed

lemma resource_log_limit:
  assumes "lb_errors (visit_resource_log env h m item b) = []" "m \<le> m'"
  shows "lb_errors b = [] \<and> visit_resource_log env h m' item b = visit_resource_log env h m item b"
proof -
  obtain ra b1 where a: "layer_attributes (indexed ''resourceLogs'' (fst item)) (jget (snd item) ''resource'') ''resource'' b
      = (ra, b1)" by fastforce
  then have "lb_errors b1 = [] \<Longrightarrow> lb_errors b = []" by (auto simp: layer_attributes_def log_error_def split: sum.splits)
  with assms(1) fold_agree [of _ "\<lambda>b. lb_errors b = []" "visit_scope_log env h m (indexed ''resourceLogs'' (fst item)) (snd item) ra"
      "visit_scope_log env h m' (indexed ''resourceLogs'' (fst item)) (snd item) ra" b1, OF scope_log_limit [OF _ assms(2)]]
  show ?thesis by (simp add: visit_resource_log_def Let_def a)
qed

lemma otlp_logs_limit:
  assumes "lb_errors (derive_otlp_logs env v h m) = []" "m \<le> m'"
  shows "derive_otlp_logs env v h m' = derive_otlp_logs env v h m"
  unfolding derive_otlp_logs_def
  by (rule conjunct2, rule fold_agree [of _ "\<lambda>b. lb_errors b = []", OF resource_log_limit [OF _ assms(2)]])
    (use assms(1) in \<open>simp_all add: derive_otlp_logs_def\<close>)

lemma derive_batch_limit:
  assumes "derive_batch env ep v h m = (derived, source_records, unknown, errors)" "ep = OtlpTraces \<or> errors = []" "m \<le> m'"
  shows "derive_batch env ep v h m' = derive_batch env ep v h m"
proof (cases ep)
  case OtlpLogs
  with assms show ?thesis using otlp_logs_limit [OF _ assms(3), of env v h] by (simp add: derive_batch_def Let_def)
next
  case CodexHook
  with assms(1,2) have "\<exists>x. derive_codex_hook env v h m = Inr x"
    by (auto simp: derive_batch_def split: sum.splits)
  with codex_hook_limit [OF _ assms(3)] CodexHook show ?thesis by (auto simp: derive_batch_def)
qed (simp add: derive_batch_def)

section \<open>Well-formed values\<close>

lemma wf_jget: "wf_json v \<Longrightarrow> jget v k = Some w \<Longrightarrow> wf_json w"
  by (cases v) (auto intro: wf_object_get simp del: wf_json.simps(1))

lemma wf_items_of: "w \<in> set (items_of value) \<Longrightarrow> (\<And>v. value = Some v \<Longrightarrow> wf_json v) \<Longrightarrow> wf_json w"
  by (cases "Option.bind value as_array") (auto simp: items_of_def bind_eq_Some_conv as_array_eq_Some list_all_iff)

lemma wf_put_all: "wf_object t \<Longrightarrow> (\<And>kv. kv \<in> set kvs \<Longrightarrow> wf_json (snd kv)) \<Longrightarrow> wf_object (put_all kvs t)"
  unfolding put_all_def by (induction kvs arbitrary: t) (simp_all del: wf_json.simps(1))

lemma wf_jopt [simp]: "wf_json (jopt x)"
  by (simp add: jopt_def json_opt_def split: option.split)

lemma wf_json_opt: "(\<And>v. x = Some v \<Longrightarrow> wf_json v) \<Longrightarrow> wf_json (json_opt x)"
  by (simp add: json_opt_def split: option.split)

lemma find_map_Some: "find_map f xs = Some y \<Longrightarrow> \<exists>x \<in> set xs. f x = Some y"
  by (induction xs) (auto split: option.splits)

lemma wf_otlp_any_value: "wf_json v \<Longrightarrow> wf_json (otlp_any_value v)"
proof (induction v rule: otlp_any_value.induct)
  case (1 v)
  show ?case
  proof (cases v)
    case (Object m)
    with "1.prems" have m: "wf_object m" by simp
    note member = wf_object_get [OF m]
    have found: "wf_json w" if "find_map (tget m) ks = Some w" for ks w
      using that find_map_Some [of "tget m" ks w] member by blast
    have int: "wf_json (any_int w)" if "tget m k = Some w" for k w
      using member [OF that] by (simp add: any_int_def jint_def split: option.split)
    have listed: "wf_json w" if "any_values m kind = Some vs" "w \<in> set vs" for kind vs w
    proof -
      from that(1) obtain u where "tget m kind = Some u" "jget u ''values'' = Some (Array vs)"
        by (auto simp: any_values_def bind_eq_Some_conv as_array_eq_Some)
      with wf_jget member [of kind u] have "wf_json (Array vs)" by blast
      with that(2) show ?thesis by (simp add: list_all_iff)
    qed
    have pairs: "wf_json (snd kw)" if "any_values m kind = Some vs" "kw \<in> set (List.map_filter key_value vs)" for kind vs kw
      using that listed wf_jget by (fastforce simp: List.map_filter_def key_value_def bind_eq_Some_conv)
    have "wf_json (Object (put_all (map (\<lambda>kw. (fst kw, otlp_any_value (snd kw))) (List.map_filter key_value vs)) []))"
      if "find_map (tget m) [''stringValue'', ''boolValue''] = None" "tget m ''intValue'' = None"
        "find_map (tget m) [''doubleValue'', ''bytesValue''] = None" "any_values m ''arrayValue'' = None"
        "any_values m ''kvlistValue'' = Some vs" for vs
    proof (rule wf_put_all)
      show "wf_json (snd kv)" if "kv \<in> set (map (\<lambda>kw. (fst kw, otlp_any_value (snd kw))) (List.map_filter key_value vs))" for kv
        using that "1.IH"(1) [OF Object \<open>find_map (tget m) [''stringValue'', ''boolValue''] = None\<close>
            \<open>tget m ''intValue'' = None\<close> \<open>find_map (tget m) [''doubleValue'', ''bytesValue''] = None\<close>
            \<open>any_values m ''arrayValue'' = None\<close> \<open>any_values m ''kvlistValue'' = Some vs\<close>] pairs
          \<open>any_values m ''kvlistValue'' = Some vs\<close> by auto
    qed (simp add: wf_object_Nil del: wf_json.simps(1))
    then show ?thesis
      using "1.prems" "1.IH"(2) [OF Object] listed
      by (subst otlp_any_value.simps)
        (auto simp: Object list_all_iff simp del: wf_json.simps(1) find_map.simps intro: found int split: option.split)
  qed (use "1.prems" in \<open>subst otlp_any_value.simps, simp\<close>)+
qed

lemma wf_attributes_map:
  assumes "attributes_map value = Inr m" "\<And>v. value = Some v \<Longrightarrow> wf_json v"
  shows "wf_object m"
proof -
  from assms(1) have m: "m = put_all (List.map_filter any_attribute (items_of value)) []"
    by (auto simp: attributes_map_def rbind_eq_Inr)
  have "wf_json (snd kv)" if kv: "kv \<in> set (List.map_filter any_attribute (items_of value))" for kv
  proof -
    from kv obtain item where item: "item \<in> set (items_of value)" "any_attribute item = Some kv"
      by (auto simp: List.map_filter_def)
    then obtain v where "jget item ''value'' = Some v" "snd kv = otlp_any_value v"
      by (auto simp: any_attribute_def bind_eq_Some_conv)
    with wf_items_of [OF item(1) assms(2)] show ?thesis by (auto intro: wf_otlp_any_value wf_jget)
  qed
  then show ?thesis unfolding m by (intro wf_put_all) (simp_all add: wf_object_Nil del: wf_json.simps(1))
qed

lemma wf_without_nulls:
  assumes "wf_json v"
  shows "wf_json (without_nulls v)"
proof (cases v)
  case (Object m)
  from assms have "tsorted m" "\<forall>kv \<in> set m. wf_json (snd kv)" by (auto simp: Object list_all_iff)
  moreover from this(1) have "tsorted (filter (\<lambda>kv. snd kv \<noteq> Null) m)"
    by (simp add: tsorted_def sorted_wrt_map sorted_wrt_filter)
  ultimately show ?thesis by (simp add: without_nulls_def Object list_all_iff)
qed (use assms in \<open>simp_all add: without_nulls_def\<close>)

lemma wf_trace_context: "wf_json (trace_context lr ats sid)"
  unfolding trace_context_def by (intro wf_without_nulls wf_json_object) auto

section \<open>The Captures of a log record\<close>

lemma incomplete_iff:
  assumes "normalize_value env v m = Inr r" "json_codec (ci_parse env) (ci_ser env)" "wf_json v"
  shows "is_incomplete_record env r \<longleftrightarrow>
    Option.bind (jget v ''lifecycleEvent'') (\<lambda>e. get_str e ''type'') = Some ''telemetry_incomplete''"
proof -
  from normalize_value_keeps [OF assms] obtain ob where
    ob: "ci_parse env (cr_canonical r) = Some (Object ob)" "\<And>k. k \<notin> set rewritten_members \<Longrightarrow> tget ob k = jget v k" by metis
  have "ptr_str (Object ob) [''lifecycleEvent'', ''type''] = Option.bind (tget ob ''lifecycleEvent'') (\<lambda>e. get_str e ''type'')"
    by (simp add: ptr_str_def get_str_def split: option.split)
  with ob kept_members [of "''lifecycleEvent''"] show ?thesis by (simp add: is_incomplete_record_def)
qed

lemma incomplete_record:
  assumes "derive_telemetry_incomplete env lr ats h n reason m = Inr (Some r)" "json_codec (ci_parse env) (ci_ser env)"
  shows "cr_capture_id r = ''cap-cloud-'' @ stable_digest env [h, nat_dec (unat n), ''telemetry_incomplete'']
    \<and> is_incomplete_record env r"
proof -
  from assms(1) obtain v where v: "normalize_value env v m = Inr r" "wf_json v"
      "get_str v ''captureId'' = Some (''cap-cloud-'' @ stable_digest env [h, nat_dec (unat n), ''telemetry_incomplete''])"
      "Option.bind (jget v ''lifecycleEvent'') (\<lambda>e. get_str e ''type'') = Some ''telemetry_incomplete''"
    by (auto simp: derive_telemetry_incomplete_def Let_def rbind_eq_Inr get_str_def jget_json_object
        intro!: that wf_json_object wf_trace_context split: option.splits)
  with incomplete_iff [OF v(1) assms(2) v(2)] capture_identifier [OF v(1) assms(2) v(2)] show ?thesis by simp
qed

lemma conversation_record:
  assumes "derive_conversation_start env lr ats h n m = Inr (Some r)" "json_codec (ci_parse env) (ci_ser env)"
  shows "cr_capture_id r = ''cap-cloud-'' @ stable_digest env [h, nat_dec (unat n), ''session_start'']
    \<and> \<not> is_incomplete_record env r"
proof -
  from assms(1) obtain v where v: "normalize_value env v m = Inr r" "wf_json v"
      "get_str v ''captureId'' = Some (''cap-cloud-'' @ stable_digest env [h, nat_dec (unat n), ''session_start''])"
      "Option.bind (jget v ''lifecycleEvent'') (\<lambda>e. get_str e ''type'') = Some ''session_start''"
    by (auto simp: derive_conversation_start_def Let_def rbind_eq_Inr get_str_def jget_json_object
        intro!: that wf_json_object wf_trace_context)
  with incomplete_iff [OF v(1) assms(2) v(2)] capture_identifier [OF v(1) assms(2) v(2)] show ?thesis by simp
qed

lemma wf_parsed_argument:
  "json_codec (ci_parse env) (ci_ser env) \<Longrightarrow> wf_json v \<Longrightarrow> wf_json (parse_json_string_or_clone env v)"
  by (auto simp: parse_json_string_or_clone_def bind_eq_Some_conv dest: codec_wf split: option.split)

lemma wf_scan_output: "scan_output ls w x = Some v \<Longrightarrow> (\<And>u. x = Some u \<Longrightarrow> wf_json u) \<Longrightarrow> wf_json v"
proof (induction ls w x rule: scan_output.induct)
  case (2 l ls w x)
  have "wf_json u" if "or_else (exited_line l) (running_line l) = Some u" for u
    using that by (auto simp: or_else_def exited_line_def running_line_def jint_def intro!: wf_json_object split: option.splits)
  with 2 show ?case by (auto split: if_splits option.splits)
qed simp

lemma tool_record:
  assumes "derive_tool_result env lr ats h n m = Inr (Some r)" "json_codec (ci_parse env) (ci_ser env)" "wf_object ats"
  shows "cr_capture_id r = ''cap-cloud-'' @ stable_digest env [h, nat_dec (unat n), ''tool_result'']
    \<and> \<not> is_incomplete_record env r"
proof -
  have outcome: "wf_json (json_opt (process_outcome ns t v))" for ns t v
    by (intro wf_json_opt) (auto simp: process_outcome_def dest: wf_scan_output split: if_splits option.splits)
  have get: "wf_json (json_opt (tget ats k))" for k using wf_object_get [OF assms(3)] by (rule wf_json_opt)
  have parsed: "tget ats k = Some y \<Longrightarrow> wf_json (parse_json_string_or_clone env y)" for k y
    by (rule wf_parsed_argument [OF assms(2) wf_object_get [OF assms(3)]])
  have member: "wf_json (tool_execution_member env lr ats c t v w b)"
    if "tget ats ''arguments'' = Some v" "tget ats ''output'' = Some w" for c t v w b
    unfolding tool_execution_member_def Let_def
    by (rule wf_json_object)
      (use that in \<open>auto simp: json_opt_def [of "map_option _ _"] split: option.split
        intro: outcome get parsed wf_object_get [OF assms(3)] intro!: wf_json_object\<close>)
  from assms(1) obtain v where v: "normalize_value env v m = Inr r" "wf_json v"
      "get_str v ''captureId'' = Some (''cap-cloud-'' @ stable_digest env [h, nat_dec (unat n), ''tool_result''])"
      "jget v ''lifecycleEvent'' = None"
    by (auto simp: derive_tool_result_def Let_def rbind_eq_Inr ok_or_eq_Inr get_str_def jget_json_object simp del: wf_json.simps(1)
        intro!: that wf_json_object member wf_trace_context)
  with incomplete_iff [OF v(1) assms(2) v(2)] capture_identifier [OF v(1) assms(2) v(2)] show ?thesis by simp
qed

end
