(* ===== verification/CloudWalk.thy ===== *)
theory CloudWalk
  imports CloudConversion
begin

text \<open>
  The walk through a log envelope as an induction over its records, and what it accounts for: every
  record is counted, and every Capture has the identifier of its record and of its kind.
\<close>

section \<open>Induction over the log records\<close>

definition scope_records :: "json \<Rightarrow> json list" where
  "scope_records scope_log = items_of (jget scope_log ''logRecords'')"

definition resource_records :: "json \<Rightarrow> json list" where
  "resource_records resource_log = concat (map scope_records (items_of (jget resource_log ''scopeLogs'')))"

definition log_records :: "json \<Rightarrow> json list" where
  "log_records envelope = concat (map resource_records (items_of (jget envelope ''resourceLogs'')))"

lemma fold_count:
  assumes "\<And>x b n. x \<in> set xs \<Longrightarrow> I n b \<Longrightarrow> I (n + c x) (f x b)" "I n b"
  shows "I (n + sum_list (map c xs)) (fold f xs b)"
  using assms
proof (induction xs arbitrary: n b)
  case (Cons x xs)
  have "I (n + c x + sum_list (map c xs)) (fold f xs (f x b))"
    by (rule Cons.IH) (use Cons.prems in auto)
  then show ?case by (simp add: add.assoc)
qed simp

lemma fold_count_enumerate:
  assumes "\<And>i x b n. x \<in> set xs \<Longrightarrow> I n b \<Longrightarrow> I (n + c x) (f (i, x) b)" "I n b"
  shows "I (n + sum_list (map c xs)) (fold f (enumerate 0 xs) b)"
proof -
  have "map (\<lambda>ix. c (snd ix)) (enumerate 0 xs) = map c xs"
    by (subst (2) map_snd_enumerate [of 0 xs, symmetric]) (simp add: comp_def del: map_snd_enumerate)
  moreover have "I (n + sum_list (map (\<lambda>ix. c (snd ix)) (enumerate 0 xs))) (fold f (enumerate 0 xs) b)"
  proof (rule fold_count [where I = I, OF _ assms(2)])
    fix ix b n assume ix: "ix \<in> set (enumerate 0 xs)" "I n b"
    then have "snd ix \<in> set xs" by (metis in_set_enumerate_eq nth_mem diff_zero add.right_neutral)
    with assms(1) [OF _ ix(2), of "snd ix" "fst ix"] show "I (n + c (snd ix)) (f ix b)" by simp
  qed
  ultimately show ?thesis by simp
qed

lemma derive_logs_induct:
  assumes wf: "wf_json v"
    and start: "\<And>es. I 0 \<lparr>lb_records = [], lb_source_records = 0, lb_unknown_events = 0, lb_errors = es\<rparr>"
    and error: "\<And>n b path e. I n b \<Longrightarrow> I n (log_error path e b)"
    and step: "\<And>n b rl sl ra sa lr. I n b \<Longrightarrow> (\<And>a. ra = Some a \<Longrightarrow> wf_object a) \<Longrightarrow> (\<And>a. sa = Some a \<Longrightarrow> wf_object a) \<Longrightarrow>
        wf_json lr \<Longrightarrow> I (Suc n) (visit_log_record env h m rl sl ra sa lr b)"
  shows "I (length (log_records v)) (derive_otlp_logs env v h m)"
proof -
  have layer: "I n b' \<and> (\<forall>a. o' = Some a \<longrightarrow> wf_object a)"
    if "layer_attributes path message field b = (o', b')" "I n b" "\<And>w. message = Some w \<Longrightarrow> wf_json w"
    for path message field b o' b' n
  proof (cases "rbind (otlp_message_attributes message field) attributes_map")
    case (Inl e)
    with that(1,2) show ?thesis by (auto simp: layer_attributes_def intro: error)
  next
    case (Inr a)
    then obtain w where w: "otlp_message_attributes message field = Inr w" "attributes_map w = Inr a"
      by (auto simp: rbind_eq_Inr)
    have "wf_json u" if "w = Some u" for u
      using w(1) that \<open>\<And>w. message = Some w \<Longrightarrow> wf_json w\<close>
      by (auto simp: otlp_message_attributes_def simp del: wf_json.simps(1) split: option.splits json.splits intro: wf_object_get)
    from wf_attributes_map [OF w(2) this] that(1,2) Inr show ?thesis
      by (auto simp: layer_attributes_def simp del: wf_json.simps(1))
  qed
  have scope: "I (n + length (scope_records sl)) (visit_scope_log env h m path rl ra (i, sl) b)"
    if "wf_json sl" "I n b" "\<And>a. ra = Some a \<Longrightarrow> wf_object a" for path rl ra i sl n b
  proof -
    obtain sa b' where a: "layer_attributes (path @ ''.'' @ indexed ''scopeLogs'' i) (jget sl ''scope'') ''scope'' b = (sa, b')"
      by fastforce
    from layer [OF this that(2)] wf_jget [OF that(1)] have b': "I n b'" "\<And>a. sa = Some a \<Longrightarrow> wf_object a" by blast+
    have "I (n + sum_list (map (\<lambda>_. 1) (scope_records sl))) (fold (visit_log_record env h m rl sl ra sa) (scope_records sl) b')"
    proof (rule fold_count [where I = I, OF _ b'(1)])
      fix lr b n assume lr: "lr \<in> set (scope_records sl)" and "I n b"
      have "wf_json lr" using lr unfolding scope_records_def by (rule wf_items_of) (rule wf_jget [OF that(1)])
      with \<open>I n b\<close> that(3) b'(2) show "I (n + 1) (visit_log_record env h m rl sl ra sa lr b)" by (simp add: step)
    qed
    then show ?thesis
      unfolding visit_scope_log_def fst_conv snd_conv a prod.case scope_records_def [symmetric] by (simp add: sum_list_triv)
  qed
  have resource: "I (n + length (resource_records rl)) (visit_resource_log env h m (i, rl) b)"
    if "wf_json rl" "I n b" for i rl n b
  proof -
    obtain ra b' where a: "layer_attributes (indexed ''resourceLogs'' i) (jget rl ''resource'') ''resource'' b = (ra, b')"
      by fastforce
    from layer [OF this that(2)] wf_jget [OF that(1)] have b': "I n b'" "\<And>a. ra = Some a \<Longrightarrow> wf_object a" by blast+
    have "I (n + sum_list (map (\<lambda>sl. length (scope_records sl)) (items_of (jget rl ''scopeLogs''))))
        (fold (visit_scope_log env h m (indexed ''resourceLogs'' i) rl ra) (enumerate 0 (items_of (jget rl ''scopeLogs''))) b')"
      by (rule fold_count_enumerate [where I = I, OF _ b'(1)])
        (use b'(2) in \<open>blast intro: scope wf_items_of wf_jget [OF that(1)]\<close>)
    then show ?thesis
      unfolding visit_resource_log_def Let_def fst_conv snd_conv a prod.case
      by (simp add: resource_records_def length_concat comp_def)
  qed
  have "I (0 + sum_list (map (\<lambda>rl. length (resource_records rl)) (items_of (jget v ''resourceLogs'')))) (derive_otlp_logs env v h m)"
    unfolding derive_otlp_logs_def
    by (rule fold_count_enumerate [where I = I, OF _ start]) (blast intro: resource wf_items_of wf_jget [OF wf])
  then show ?thesis by (simp add: log_records_def length_concat comp_def)
qed

section \<open>One record\<close>

definition event_kinds :: "string list" where
  "event_kinds = [''telemetry_incomplete'', ''session_start'', ''tool_result'']"

definition event_capture_id :: "cloud_env \<Rightarrow> string \<Rightarrow> nat \<times> string \<Rightarrow> string" where
  "event_capture_id env h e = ''cap-cloud-'' @ stable_digest env [h, nat_dec (fst e), snd e]"

text \<open>
  What one record adds to the batch: at most one Capture, with the record's identifier, and an
  incomplete one only beside an unknown event or an error.
\<close>

definition record_added :: "cloud_env \<Rightarrow> string \<Rightarrow> u64 \<Rightarrow> log_batch \<Rightarrow> log_batch \<Rightarrow> bool" where
  "record_added env h ordinal b b' \<longleftrightarrow>
     (\<exists>rs unknown es. b' = b\<lparr>lb_records := lb_records b @ rs, lb_source_records := saturating_add ordinal 1,
          lb_unknown_events := (if unknown then saturating_add (lb_unknown_events b) 1 else lb_unknown_events b),
          lb_errors := lb_errors b @ es\<rparr> \<and>
        (rs = [] \<or> (\<exists>r k. rs = [r] \<and> k \<in> set event_kinds \<and> cr_capture_id r = event_capture_id env h (unat ordinal, k)
           \<and> (is_incomplete_record env r \<longrightarrow> unknown \<or> es \<noteq> []))))"

lemma record_addedI:
  assumes "b' = b\<lparr>lb_records := lb_records b @ rs, lb_source_records := saturating_add ordinal 1,
      lb_unknown_events := (if unknown then saturating_add (lb_unknown_events b) 1 else lb_unknown_events b),
      lb_errors := lb_errors b @ es\<rparr>"
    and "\<And>r. r \<in> set rs \<Longrightarrow> rs = [r] \<and> (\<exists>k \<in> set event_kinds. cr_capture_id r = event_capture_id env h (unat ordinal, k))
      \<and> (is_incomplete_record env r \<longrightarrow> unknown \<or> es \<noteq> [])"
  shows "record_added env h ordinal b b'"
  unfolding record_added_def
proof (intro exI conjI)
  show "rs = [] \<or> (\<exists>r k. rs = [r] \<and> k \<in> set event_kinds \<and> cr_capture_id r = event_capture_id env h (unat ordinal, k)
      \<and> (is_incomplete_record env r \<longrightarrow> unknown \<or> es \<noteq> []))"
  proof (cases rs)
    case (Cons r rest)
    with assms(2) [of r] show ?thesis by auto
  qed simp
qed (rule assms(1))

lemma log_event_record:
  assumes "derive_log_event env lr ats h n m = Inr (Some r)" "json_codec (ci_parse env) (ci_ser env)" "wf_object ats"
  shows "\<exists>k \<in> set event_kinds. cr_capture_id r = event_capture_id env h (unat n, k)"
    and "is_incomplete_record env r \<Longrightarrow> \<not> known_log_event (log_event_name ats)"
proof -
  from assms(1) consider
    "derive_conversation_start env lr ats h n m = Inr (Some r)"
  | "derive_tool_result env lr ats h n m = Inr (Some r)"
  | reason where "derive_telemetry_incomplete env lr ats h n reason m = Inr (Some r)" "\<not> known_log_event (log_event_name ats)"
    by (auto simp: derive_log_event_def known_log_event_def Let_def split: if_splits)
  note cases = this
  show "\<exists>k \<in> set event_kinds. cr_capture_id r = event_capture_id env h (unat n, k)"
    by (rule cases)
      (use conversation_record [OF _ assms(2)] tool_record [OF _ assms(2,3)] incomplete_record [OF _ assms(2)]
       in \<open>auto simp: event_kinds_def event_capture_id_def\<close>)
  show "\<not> known_log_event (log_event_name ats)" if "is_incomplete_record env r"
    by (rule cases) (use that conversation_record [OF _ assms(2)] tool_record [OF _ assms(2,3)] in auto)
qed

lemma visit_adds_record:
  assumes codec: "json_codec (ci_parse env) (ci_ser env)"
    and wf: "\<And>a. ra = Some a \<Longrightarrow> wf_object a" "\<And>a. sa = Some a \<Longrightarrow> wf_object a" "wf_json lr"
  shows "record_added env h (lb_source_records b) b (visit_log_record env h m rl sl ra sa lr b)"
proof -
  let ?n = "lb_source_records b"
  let ?b = "b\<lparr>lb_source_records := saturating_add ?n 1\<rparr>"
  have plain: "record_added env h ?n b ?b"
    by (rule record_addedI [where rs = "[]" and unknown = False and es = "[]"]) simp_all
  have error: "record_added env h ?n b (log_error path e ?b)" for path e
    by (rule record_addedI [where rs = "[]" and unknown = False and es = "[path @ '': '' @ e]"]) (simp_all add: log_error_def)
  have convert: "record_added env h ?n b (convert_log_record env h m lr ats ?n ?b)" if ats: "wf_object ats" for ats
  proof (cases "derive_log_event env lr ats h ?n m")
    case (Inl e)
    let ?error = "indexed ''logRecords'' (unat ?n) @ '' '' @ log_event_name ats @ '': '' @ e"
    let ?rs = "case derive_telemetry_incomplete env lr ats h ?n ?error m of Inr (Some r) \<Rightarrow> [r] | _ \<Rightarrow> []"
    show ?thesis
    proof (rule record_addedI [where rs = ?rs and unknown = "\<not> known_log_event (log_event_name ats)" and es = "[?error]"])
      show "convert_log_record env h m lr ats ?n ?b = b\<lparr>lb_records := lb_records b @ ?rs, lb_source_records := saturating_add ?n 1,
          lb_unknown_events := (if \<not> known_log_event (log_event_name ats) then saturating_add (lb_unknown_events b) 1
             else lb_unknown_events b), lb_errors := lb_errors b @ [?error]\<rparr>"
        unfolding convert_log_record_def Let_def Inl by simp
      fix r assume "r \<in> set ?rs"
      then have "?rs = [r]" "derive_telemetry_incomplete env lr ats h ?n ?error m = Inr (Some r)"
        by (auto split: sum.splits option.splits)
      with incomplete_record [OF this(2) codec]
      show "?rs = [r] \<and> (\<exists>k \<in> set event_kinds. cr_capture_id r = event_capture_id env h (unat ?n, k))
          \<and> (is_incomplete_record env r \<longrightarrow> \<not> known_log_event (log_event_name ats) \<or> [?error] \<noteq> [])"
        by (auto simp: event_kinds_def event_capture_id_def)
    qed
  next
    case (Inr x)
    show ?thesis
    proof (rule record_addedI [where rs = "case x of None \<Rightarrow> [] | Some r \<Rightarrow> [r]"
          and unknown = "\<not> known_log_event (log_event_name ats)" and es = "[]"])
      fix r assume "r \<in> set (case x of None \<Rightarrow> [] | Some r \<Rightarrow> [r])"
      then have "x = Some r" by (auto split: option.splits)
      with log_event_record [OF _ codec ats, of lr h ?n m r] Inr
      show "(case x of None \<Rightarrow> [] | Some r \<Rightarrow> [r]) = [r]
          \<and> (\<exists>k \<in> set event_kinds. cr_capture_id r = event_capture_id env h (unat ?n, k))
          \<and> (is_incomplete_record env r \<longrightarrow> \<not> known_log_event (log_event_name ats) \<or> [] \<noteq> [])"
        by auto
    qed (simp add: convert_log_record_def Let_def Inr split: option.split)
  qed
  show ?thesis
  proof (cases "ra = None \<or> sa = None")
    case True
    with plain show ?thesis by (auto simp: visit_log_record_def Let_def split: option.splits)
  next
    case False
    then obtain a1 a2 where o: "ra = Some a1" "sa = Some a2" by auto
    show ?thesis
    proof (cases "record_attributes rl sl lr")
      case (Inl e)
      with error show ?thesis by (simp add: visit_log_record_def Let_def o)
    next
      case (Inr own)
      then have "attributes_map (jget lr ''attributes'') = Inr own" by (auto simp: record_attributes_def rbind_eq_Inr)
      from wf_attributes_map [OF this wf_jget [OF wf(3)]] have "wf_object (put_all own (put_all a2 a1))"
        using wf(1) [OF o(1)] wf(2) [OF o(2)] by (intro wf_put_all) (auto simp: list_all_iff)
      from convert [OF this] Inr show ?thesis by (simp add: visit_log_record_def Let_def o)
    qed
  qed
qed

section \<open>What the walk accounts for\<close>

text \<open>
  As long as the counter of a \<open>u64\<close> suffices: records, unknown events, and Captures that stand for
  a quality error.
\<close>

definition walk_counts :: "cloud_env \<Rightarrow> nat \<Rightarrow> log_batch \<Rightarrow> bool" where
  "walk_counts env n b \<longleftrightarrow> (n < 2 ^ 64 \<longrightarrow>
     unat (lb_source_records b) = n \<and> length (lb_records b) \<le> n \<and> unat (lb_unknown_events b) \<le> n
     \<and> length (filter (is_incomplete_record env) (lb_records b)) \<le> unat (lb_unknown_events b) + length (lb_errors b))"

definition walk_ids :: "cloud_env \<Rightarrow> string \<Rightarrow> nat \<Rightarrow> log_batch \<Rightarrow> bool" where
  "walk_ids env h n b \<longleftrightarrow> (n < 2 ^ 64 \<longrightarrow>
     unat (lb_source_records b) = n \<and>
     (\<exists>events. map cr_capture_id (lb_records b) = map (event_capture_id env h) events \<and> distinct events
        \<and> (\<forall>e \<in> set events. fst e < n \<and> snd e \<in> set event_kinds)))"

lemma unat_saturating_Suc: "n < 2 ^ 64 - 1 \<Longrightarrow> unat w \<le> n \<Longrightarrow> unat (saturating_add w (1 :: u64)) = Suc (unat w)"
  by (simp add: u64_simps)

lemma counts_step:
  assumes "record_added env h (lb_source_records b) b b'" "walk_counts env n b"
  shows "walk_counts env (Suc n) b'"
  unfolding walk_counts_def
proof
  assume n: "Suc n < 2 ^ 64"
  with assms(2) have b: "unat (lb_source_records b) = n" "length (lb_records b) \<le> n" "unat (lb_unknown_events b) \<le> n"
    "length (filter (is_incomplete_record env) (lb_records b)) \<le> unat (lb_unknown_events b) + length (lb_errors b)"
    by (auto simp: walk_counts_def)
  from n have n': "n < 2 ^ 64 - 1" by simp
  from assms(1) obtain rs unknown es where
    b': "b' = b\<lparr>lb_records := lb_records b @ rs, lb_source_records := saturating_add (lb_source_records b) 1,
          lb_unknown_events := (if unknown then saturating_add (lb_unknown_events b) 1 else lb_unknown_events b),
          lb_errors := lb_errors b @ es\<rparr>"
    and rs: "rs = [] \<or> (\<exists>r. rs = [r] \<and> (is_incomplete_record env r \<longrightarrow> unknown \<or> es \<noteq> []))"
    unfolding record_added_def by blast
  have more: "length (filter (is_incomplete_record env) rs) \<le> (if unknown then 1 else 0) + length es" "length rs \<le> 1"
    using rs by (auto simp: Suc_le_eq)
  have unknown: "unat (lb_unknown_events b') = unat (lb_unknown_events b) + (if unknown then 1 else 0)"
    using unat_saturating_Suc [OF n' b(3)] by (simp add: b')
  have source: "unat (lb_source_records b') = Suc n"
    using unat_saturating_Suc [OF n', of "lb_source_records b"] b(1) by (simp add: b')
  show "unat (lb_source_records b') = Suc n \<and> length (lb_records b') \<le> Suc n \<and> unat (lb_unknown_events b') \<le> Suc n
     \<and> length (filter (is_incomplete_record env) (lb_records b')) \<le> unat (lb_unknown_events b') + length (lb_errors b')"
    unfolding source unknown using b more by (auto simp: b')
qed

lemma ids_step:
  assumes "record_added env h (lb_source_records b) b b'" "walk_ids env h n b"
  shows "walk_ids env h (Suc n) b'"
  unfolding walk_ids_def
proof
  assume n: "Suc n < 2 ^ 64"
  with assms(2) obtain events where b: "unat (lb_source_records b) = n"
      "map cr_capture_id (lb_records b) = map (event_capture_id env h) events" "distinct events"
      "\<forall>e \<in> set events. fst e < n \<and> snd e \<in> set event_kinds"
    by (auto simp: walk_ids_def)
  from n have n': "n < 2 ^ 64 - 1" by simp
  from assms(1) obtain rs unknown es where
    b': "b' = b\<lparr>lb_records := lb_records b @ rs, lb_source_records := saturating_add (lb_source_records b) 1,
          lb_unknown_events := (if unknown then saturating_add (lb_unknown_events b) 1 else lb_unknown_events b),
          lb_errors := lb_errors b @ es\<rparr>"
    and added: "rs = [] \<or> (\<exists>r k. rs = [r] \<and> k \<in> set event_kinds \<and> cr_capture_id r = event_capture_id env h (n, k))"
    unfolding record_added_def b(1) by blast
  then have rs: "lb_records b' = lb_records b @ rs" "lb_source_records b' = saturating_add (lb_source_records b) 1"
    by simp_all
  have source: "unat (lb_source_records b') = Suc n"
    using unat_saturating_Suc [OF n', of "lb_source_records b"] b(1) by (simp add: rs(2))
  from added obtain es where es: "map cr_capture_id rs = map (event_capture_id env h) es" "distinct es"
      "\<forall>e \<in> set es. fst e = n \<and> snd e \<in> set event_kinds"
  proof
    assume "\<exists>r k. rs = [r] \<and> k \<in> set event_kinds \<and> cr_capture_id r = event_capture_id env h (n, k)"
    then obtain r k where "rs = [r]" "k \<in> set event_kinds" "cr_capture_id r = event_capture_id env h (n, k)" by blast
    then show thesis by (intro that [of "[(n, k)]"]) simp_all
  qed (rule that [of "[]"], simp_all)
  have "\<forall>e \<in> set events. e \<notin> set es" using b(4) es(3) by fastforce
  then show "unat (lb_source_records b') = Suc n \<and>
      (\<exists>events. map cr_capture_id (lb_records b') = map (event_capture_id env h) events \<and> distinct events
         \<and> (\<forall>e \<in> set events. fst e < Suc n \<and> snd e \<in> set event_kinds))"
    using source b es by (intro conjI exI [of _ "events @ es"]) (auto simp: rs(1) less_Suc_eq)
qed

lemma log_walk:
  assumes "json_codec (ci_parse env) (ci_ser env)" "wf_json v"
  shows "walk_counts env (length (log_records v)) (derive_otlp_logs env v h m)"
    and "walk_ids env h (length (log_records v)) (derive_otlp_logs env v h m)"
proof -
  show "walk_counts env (length (log_records v)) (derive_otlp_logs env v h m)"
  proof (rule derive_logs_induct [OF assms(2)])
    fix n b rl sl ra sa lr
    assume "walk_counts env n b" "\<And>a. ra = Some a \<Longrightarrow> wf_object a" "\<And>a. sa = Some a \<Longrightarrow> wf_object a" "wf_json lr"
    from counts_step [OF visit_adds_record [OF assms(1) this(2-4)] this(1)]
    show "walk_counts env (Suc n) (visit_log_record env h m rl sl ra sa lr b)" .
  qed (auto simp: walk_counts_def log_error_def)
  show "walk_ids env h (length (log_records v)) (derive_otlp_logs env v h m)"
  proof (rule derive_logs_induct [OF assms(2)])
    fix n b rl sl ra sa lr
    assume "walk_ids env h n b" "\<And>a. ra = Some a \<Longrightarrow> wf_object a" "\<And>a. sa = Some a \<Longrightarrow> wf_object a" "wf_json lr"
    from ids_step [OF visit_adds_record [OF assms(1) this(2-4)] this(1)]
    show "walk_ids env h (Suc n) (visit_log_record env h m rl sl ra sa lr b)" .
  qed (auto simp: walk_ids_def log_error_def)
qed

end
