(* ===== verification/CloudMessages.thy ===== *)
theory CloudMessages
  imports CloudWalk
begin

text \<open>
  No failure of the conversion is silent: every error has a text.  A telemetry batch is only stored
  when each of its conversion errors has one.
\<close>

definition speaks :: "string + 'a \<Rightarrow> bool" where
  "speaks r \<longleftrightarrow> r \<noteq> Inl []"

named_theorems spoken \<open>results whose errors have a text\<close>

lemma speaks_Inr [spoken]: "speaks (Inr x)"
  by (simp add: speaks_def)

lemma speaks_Inl [spoken]: "e \<noteq> [] \<Longrightarrow> speaks (Inl e)"
  by (simp add: speaks_def)

lemma speaks_rbind [spoken]: "speaks x \<Longrightarrow> (\<And>a. speaks (f a)) \<Longrightarrow> speaks (rbind x f)"
  by (cases x) (simp_all add: speaks_def)

lemma speaks_demand [spoken]: "m \<noteq> [] \<Longrightarrow> speaks (demand P m)"
  by (simp add: speaks_def demand_def)

lemma speaks_ok_or [spoken]: "m \<noteq> [] \<Longrightarrow> speaks (ok_or m x)"
  by (cases x) (simp_all add: speaks_def)

lemma speaks_try_fold [spoken]: "(\<And>x s. speaks (f x s)) \<Longrightarrow> speaks (try_fold f xs s)"
  by (induction xs arbitrary: s) (simp_all add: speaks_rbind speaks_Inr)

lemma speaks_if [spoken]: "(c \<Longrightarrow> speaks x) \<Longrightarrow> (\<not> c \<Longrightarrow> speaks y) \<Longrightarrow> speaks (if c then x else y)"
  by simp

lemma speaks_option [spoken]: "speaks n \<Longrightarrow> (\<And>a. speaks (f a)) \<Longrightarrow> speaks (case x of None \<Rightarrow> n | Some a \<Rightarrow> f a)"
  by (cases x) simp_all

lemma speaks_prod [spoken]: "(\<And>a b. speaks (f a b)) \<Longrightarrow> speaks (case p of (a, b) \<Rightarrow> f a b)"
  by (cases p) simp

lemma speaks_json [spoken]:
  "speaks a \<Longrightarrow> (\<And>x. speaks (b x)) \<Longrightarrow> (\<And>x. speaks (c x)) \<Longrightarrow> (\<And>x. speaks (d x)) \<Longrightarrow> (\<And>x. speaks (e x)) \<Longrightarrow> (\<And>x. speaks (f x)) \<Longrightarrow>
     speaks (case v of Null \<Rightarrow> a | Bool x \<Rightarrow> b x | Number x \<Rightarrow> c x | String x \<Rightarrow> d x | Array x \<Rightarrow> e x | Object x \<Rightarrow> f x)"
  by (cases v) simp_all

section \<open>The checks of a Capture\<close>

lemma speaks_fields [spoken]:
  "speaks (validate_optional_string ob k)" "speaks (validate_response_status x)" "speaks (validate_trace_context ob)"
  "speaks (validate_lifecycle_event ob)" "speaks (require_text k ob f)" "speaks (telemetry_reason r n)"
  unfolding validate_response_status_def validate_trace_context_def validate_lifecycle_event_def telemetry_reason_def
    validate_optional_string_def require_text_def
  by (intro spoken; simp)+

lemma speaks_record_type [spoken]: "speaks (validate_record_type ob)"
  unfolding validate_record_type_def by (intro spoken; simp)

lemma speaks_tools [spoken]:
  "speaks (validate_process_outcome x)" "speaks (validate_tool_parameters v)" "speaks (validate_tool_format v)"
  "speaks (validate_tool_execution_result x s)"
  unfolding validate_process_outcome_def validate_tool_parameters_def validate_tool_format_def validate_tool_execution_result_def
  by (intro spoken; simp)+

lemma speaks_tool_schema [spoken]: "speaks (validate_tool_schema x s n)"
  unfolding validate_tool_schema_def Let_def by (intro spoken; simp)

lemma speaks_tool_execution [spoken]: "speaks (validate_tool_execution ob)"
  unfolding validate_tool_execution_def by (intro spoken; simp)

lemma speaks_rollout [spoken]:
  "speaks (validate_rollout_event h p ob)"
proof -
  have [spoken]: "speaks (validate_bundle_payload h p v)" for v
    unfolding validate_bundle_payload_def by (intro spoken; simp)
  have [spoken]: "speaks (validate_native_bundle_evidence h p e l)" for e l
    unfolding validate_native_bundle_evidence_def by (intro spoken; simp)
  show ?thesis unfolding validate_rollout_event_def by (intro spoken; simp)
qed

lemma speaks_telemetry [spoken]: "speaks (validate_telemetry_batch h p ob)"
  unfolding validate_telemetry_batch_def Let_def by (intro spoken; simp)

lemma speaks_evidence [spoken]: "speaks (validate_evaluation_evidence ob)" "speaks (validate_field_evidence ob)"
proof -
  have [spoken]: "speaks (evidence_number k v)" for k v
    unfolding evidence_number_def by (intro spoken; simp)
  have [spoken]: "speaks (validate_evaluation_item v)" for v
    unfolding validate_evaluation_item_def by (intro spoken; simp)
  have [spoken]: "speaks (validate_evidence_item k v)" for k v
    unfolding validate_evidence_item_def by (intro spoken; simp)
  show "speaks (validate_evaluation_evidence ob)" "speaks (validate_field_evidence ob)"
    unfolding validate_evaluation_evidence_def validate_field_evidence_def by (intro spoken; simp)+
qed

lemma speaks_gateway [spoken]: "speaks (validate_gateway_evidence h s ob)"
proof -
  have [spoken]: "speaks (transformed_request_id t c)" "speaks (joined_field ob f)" for t c f
    unfolding transformed_request_id_def joined_field_def Let_def by (intro spoken; simp)+
  have [spoken]: "speaks (validate_gateway_evidence_join h s ob e v)" for e v
    unfolding validate_gateway_evidence_join_def by (intro spoken; simp)
  show ?thesis unfolding validate_gateway_evidence_def by (intro spoken; simp)
qed

lemma speaks_bodies [spoken]: "speaks (normalize_body_fields h p ob)" "speaks (validate_response_delivery_evidence ob)"
proof -
  have [spoken]: "speaks (unfold_body_text h p f ob)" "speaks (validate_embedded_raw_body h p f ob)" for f ob
    unfolding unfold_body_text_def validate_embedded_raw_body_def Let_def by (intro spoken; simp)+
  show "speaks (normalize_body_fields h p ob)"
    unfolding normalize_body_fields_def by (intro spoken)
  show "speaks (validate_response_delivery_evidence ob)"
    unfolding validate_response_delivery_evidence_def by (intro spoken; simp)
qed

lemma speaks_normalize [spoken]: "speaks (normalize_value env v m)"
proof -
  have [spoken]: "speaks (validate_envelope h p en ob)" for h p en ob
    unfolding validate_envelope_def by (intro spoken; simp)
  have [spoken]: "speaks (validate_promoted h s ob)" for h s ob
    unfolding validate_promoted_def by (intro spoken; simp)
  have [spoken]: "speaks (normalize_object h p s en ob)" for h p s en ob
    unfolding normalize_object_def Let_def by (intro spoken; simp)
  show ?thesis
    unfolding normalize_value_def normalize_capture_def normalize_capture_with_policy_def Let_def by (intro spoken; simp)
qed

section \<open>The conversion\<close>

lemma speaks_hook [spoken]: "speaks (derive_codex_hook env v h m)"
proof -
  have [spoken]: "speaks (validate_hook_fields v e)" for e
    unfolding validate_hook_fields_def require_string_def by (intro spoken; simp)
  have [spoken]: "speaks (derive_hook_tool_event env v e i t m)" for e i t
    unfolding derive_hook_tool_event_def Let_def by (intro spoken; simp)
  show ?thesis unfolding derive_codex_hook_def Let_def by (intro spoken; simp)
qed

lemma speaks_otlp [spoken]:
  "speaks (optional_otlp_array x p)" "speaks (require_object p v)" "speaks (validate_otlp_structure ep v)"
  "speaks (otlp_message_attributes x f)" "speaks (validate_attribute a b i s)" "speaks (unique_attribute t ks)"
proof -
  show arr [spoken]: "speaks (optional_otlp_array x p)" for x p
    unfolding optional_otlp_array_def by (intro spoken; simp)
  show obj [spoken]: "speaks (require_object p v)" for p v
    unfolding require_object_def by (intro spoken; simp)
  have [spoken]: "speaks (validate_scope p r i)" "speaks (validate_resource a b r i)" for p r i a b
    unfolding validate_resource_def validate_scope_def Let_def by (intro spoken arr obj; simp)+
  show "speaks (validate_otlp_structure ep v)"
    unfolding validate_otlp_structure_def by (intro spoken; simp)
  show "speaks (otlp_message_attributes x f)"
    unfolding otlp_message_attributes_def by (intro spoken; simp)
  show "speaks (validate_attribute a b i s)"
    unfolding validate_attribute_def Let_def by (intro spoken; simp)
  show "speaks (unique_attribute t ks)"
    unfolding unique_attribute_def by (auto split: list.split intro: spoken)
qed

lemma speaks_identity [spoken]: "speaks (session_attribute t)" "speaks (turn_attribute t)"
  unfolding session_attribute_def turn_attribute_def Let_def by (intro spoken; simp)+

lemma speaks_visit:
  assumes "\<And>a b c s. speaks (f a b c s)"
  shows "speaks (visit_otlp_envelope ep v f s)"
proof -
  have [spoken]: "speaks (attributes_for_endpoint e x n)" for e x n
    unfolding attributes_for_endpoint_def validate_otlp_attributes_mode_def by (intro spoken; simp)
  show ?thesis
    unfolding visit_otlp_envelope_def visit_resource_def [abs_def] visit_scope_def [abs_def] visit_record_def [abs_def]
    by (intro spoken assms; simp)
qed

lemma trace_errors_spoken: "[] \<notin> set (snd (validate_otlp_traces v))"
proof -
  have "speaks (visit_otlp_envelope ''otlp_traces'' v (\<lambda>_ _ attributes s.
      rbind (session_attribute attributes) (\<lambda>_. rbind (turn_attribute attributes) (\<lambda>_. Inr s))) ())"
    by (rule speaks_visit) (intro spoken)
  then show ?thesis by (auto simp: validate_otlp_traces_def speaks_def split: sum.split)
qed

text \<open>The errors of a log walk carry the path of what they are about.\<close>

lemma visit_log_errors: "[] \<notin> set (lb_errors b) \<Longrightarrow> [] \<notin> set (lb_errors (visit_log_record env h m rl sl ra sa lr b))"
  by (auto simp: visit_log_record_def convert_log_record_def log_error_def Let_def split: option.splits sum.splits)

lemma layer_errors:
  "layer_attributes path message field b = (a, b') \<Longrightarrow> [] \<notin> set (lb_errors b) \<Longrightarrow> [] \<notin> set (lb_errors b')"
  by (auto simp: layer_attributes_def log_error_def split: sum.splits)

lemma scope_errors: "[] \<notin> set (lb_errors b) \<Longrightarrow> [] \<notin> set (lb_errors (visit_scope_log env h m path rl ra item b))"
proof -
  assume b: "[] \<notin> set (lb_errors b)"
  obtain sa b' where l: "layer_attributes (path @ ''.'' @ indexed ''scopeLogs'' (fst item)) (jget (snd item) ''scope'') ''scope'' b
      = (sa, b')" by fastforce
  show ?thesis
    unfolding visit_scope_log_def l prod.case
    by (rule fold_invariant [where Q = "\<lambda>_. True" and P = "\<lambda>b. [] \<notin> set (lb_errors b)"])
      (use layer_errors [OF l b] visit_log_errors in simp_all)
qed

lemma resource_errors: "[] \<notin> set (lb_errors b) \<Longrightarrow> [] \<notin> set (lb_errors (visit_resource_log env h m item b))"
proof -
  assume b: "[] \<notin> set (lb_errors b)"
  obtain ra b' where l: "layer_attributes (indexed ''resourceLogs'' (fst item)) (jget (snd item) ''resource'') ''resource'' b
      = (ra, b')" by fastforce
  show ?thesis
    unfolding visit_resource_log_def Let_def l prod.case
    by (rule fold_invariant [where Q = "\<lambda>_. True" and P = "\<lambda>b. [] \<notin> set (lb_errors b)"])
      (use layer_errors [OF l b] scope_errors in simp_all)
qed

lemma log_errors_spoken: "[] \<notin> set (lb_errors (derive_otlp_logs env v h m))"
  unfolding derive_otlp_logs_def
  by (rule fold_invariant [where Q = "\<lambda>_. True" and P = "\<lambda>b. [] \<notin> set (lb_errors b)"])
    (use resource_errors speaks_otlp(3) [of "''otlp_logs''" v] in \<open>auto simp: speaks_def split: sum.split\<close>)

text \<open>A hook either fails or is converted without errors.\<close>

definition error_free :: "string + derived_batch \<Rightarrow> bool" where
  "error_free r \<longleftrightarrow> (\<forall>d n u es. r = Inr (d, n, u, es) \<longrightarrow> es = [])"

lemma error_free_rbind: "(\<And>a. error_free (f a)) \<Longrightarrow> error_free (rbind x f)"
  by (cases x) (simp_all add: error_free_def)

lemma error_free_option: "error_free n \<Longrightarrow> (\<And>a. error_free (f a)) \<Longrightarrow> error_free (case x of None \<Rightarrow> n | Some a \<Rightarrow> f a)"
  by (cases x) simp_all

lemma error_free_if: "error_free x \<Longrightarrow> error_free y \<Longrightarrow> error_free (if c then x else y)"
  by simp

lemma error_free_Inr: "error_free (Inr (d, n, u, []))"
  by (simp add: error_free_def)

lemma hook_error_free: "error_free (derive_codex_hook env v h m)"
  unfolding derive_codex_hook_def derive_hook_tool_event_def Let_def
  by (intro error_free_rbind error_free_option error_free_if error_free_Inr)

lemma batch_errors_spoken:
  assumes "derive_batch env ep v h m = (derived, n, u, errors)" "json_codec (ci_parse env) (ci_ser env)"
  shows "[] \<notin> set errors"
proof (cases ep)
  case OtlpLogs
  with assms log_errors_spoken [of env v h m] show ?thesis by (auto simp: derive_batch_def Let_def)
next
  case OtlpTraces
  with assms trace_errors_spoken [of v] show ?thesis by (auto simp: derive_batch_def split: prod.splits)
next
  case CodexHook
  have "errors = []" if "derive_codex_hook env v h m = Inr (derived, n, u, errors)"
    using that hook_error_free [of env v h m] by (simp add: error_free_def)
  with CodexHook assms speaks_hook [of env v h m] show ?thesis
    by (auto simp: derive_batch_def speaks_def split: sum.splits)
qed

end
