(* ===== verification/CloudBatch.thy ===== *)
theory CloudBatch
  imports CloudMessages CoverageTheorems
begin

text \<open>
  The telemetry batch: its object, the form it is stored in, and that the checks of a Capture
  envelope accept every batch the conversion builds.
\<close>

section \<open>The object and its stored form\<close>

definition batch_object :: "string \<Rightarrow> jobject \<Rightarrow> jobject" where
  "batch_object cid m =
     [(''captureId'', String cid), (''captureStage'', String ''event''), (''recordType'', String ''telemetry_batch''),
      (''sourceNamespace'', String ''stock-codex-cloud''), (''telemetryBatch'', Object m)]"

definition batch_stored :: "string \<Rightarrow> jobject \<Rightarrow> jobject" where
  "batch_stored cid m =
     [(''captureError'', Null), (''captureId'', String cid), (''captureStage'', String ''event''),
      (''fieldEvidence'', Array []), (''fieldEvidenceConflicts'', Array []), (''observedLifecycleEvents'', Array []),
      (''receivedAt'', Null), (''recordType'', String ''telemetry_batch''), (''redactedHeaders'', Array []),
      (''requestHeaders'', Object []), (''requestTruncated'', Bool False), (''responseHeaders'', Object []),
      (''responseTruncated'', Bool False), (''sourceNamespace'', String ''stock-codex-cloud''), (''stream'', Bool False),
      (''telemetryBatch'', Object m), (''traceContext'', Object []), (''version'', String ''chiptrace.capture.v2'')]"

lemma batch_normal_form:
  assumes "validate_telemetry_batch sha parse (batch_object cid m) = Inr ()"
  shows "normalize_object sha parse ser True (batch_object cid m) = Inr (tdel ''receivedAt'' (batch_stored cid m))"
proof -
  let ?b = "batch_object cid m"
  have "all_candidates (identity_sources_of parse ?b) = []" "is_captured (identity_sources_of parse ?b) = []"
    unfolding batch_object_def by code_simp+
  then have promoted: "promoted ser (identity_sources_of parse ?b) = \<lparr>pm_trace = [], pm_evidence = [], pm_conflicts = []\<rparr>"
    by (simp add: promoted_def)
  have promote: "promote_protocol_fields parse ser ?b =
     (let p = tput ''fieldEvidenceConflicts'' (Array []) (tput ''fieldEvidence'' (Array [])
                (tput ''traceContext'' (Object []) ?b))
      in or_insert ''captureStage'' (String (capture_stage p)) p)"
    by (rule promote_step [OF promoted refl]) (unfold batch_object_def, code_simp+)
  have fixed: "or_insert ''recordType'' (String ''api_snapshot'') ?b = ?b"
    unfolding batch_object_def by code_simp
  have "validate_envelope sha parse True ?b = Inr ()"
  proof -
    have "demand (\<not> (True \<and> tget ?b ''producerEvent'' \<noteq> None)) x = Inr ()"
      "demand (\<not> (True \<and> historical_record ?b)) x = Inr ()"
      "for_each (validate_optional_string ?b) [''sourceNamespace'', ''receivedAt'', ''startedAt'', ''finishedAt''] = Inr ()"
      "for_each (\<lambda>field. demand (absent_or (null_or is_obj) ?b field) (field @ '' must be an object or null''))
              [''requestHeaders'', ''responseHeaders''] = Inr ()"
      "validate_response_status (tget ?b ''responseStatus'') = Inr ()"
      "demand (absent_or (null_or is_obj) ?b ''traceContext'') x = Inr ()"
      "demand (absent_or (null_or (array_of (\<lambda>v. as_str v \<notin> {None, Some []}))) ?b ''observedLifecycleEvents'') x = Inr ()"
      "demand (case evaluation_items ?b of None \<Rightarrow> True | Some v \<Rightarrow> null_or (array_of is_obj) v) x = Inr ()"
      "validate_lifecycle_event ?b = Inr ()" "validate_tool_execution ?b = Inr ()" "validate_evaluation_evidence ?b = Inr ()"
      "validate_rollout_event sha parse ?b = Inr ()" for x
      unfolding batch_object_def by code_simp+
    with assms show ?thesis unfolding validate_envelope_def by (simp only: rbind_simps)
  qed
  moreover have "normalize_body_fields sha parse ?b = Inr ?b" "validate_response_delivery_evidence ?b = Inr ()"
    "validate_promoted sha ser (promote_protocol_fields parse ser ?b) = Inr ()"
    "seal_envelope (promote_protocol_fields parse ser ?b) = tdel ''receivedAt'' (batch_stored cid m)"
    unfolding promote batch_object_def batch_stored_def by code_simp+
  ultimately show ?thesis by (simp add: normalize_object_def fixed Let_def)
qed

lemma batch_stored_filled: "fill_received_at (tdel ''receivedAt'' (batch_stored cid m)) = batch_stored cid m"
  unfolding batch_stored_def by code_simp

lemma batch_object_members: "ostr (batch_object cid m) ''captureId'' = Some cid"
  "ostr (batch_object cid m) ''version'' = None" "tget (batch_object cid m) ''telemetryBatch'' = Some (Object m)"
  "tget (batch_stored cid m) ''telemetryBatch'' = Some (Object m)"
  unfolding batch_object_def batch_stored_def by (simp_all add: ostr_def)

lemma wf_batch: "wf_object m \<Longrightarrow> wf_object (batch_object cid m)" "wf_object m \<Longrightarrow> wf_object (batch_stored cid m)"
proof -
  have "tsorted (batch_object cid m)" "tsorted (batch_stored cid m)"
    unfolding batch_object_def batch_stored_def by code_simp+
  then show "wf_object m \<Longrightarrow> wf_object (batch_object cid m)" "wf_object m \<Longrightarrow> wf_object (batch_stored cid m)"
    by (simp_all add: batch_object_def batch_stored_def)
qed


section \<open>The batch the conversion builds\<close>

definition batch_members :: "cloud_env \<Rightarrow> cloud_endpoint \<Rightarrow> string \<Rightarrow> cloud_summary \<Rightarrow> (string \<times> json) list" where
  "batch_members env ep raw summary =
     [(''schema_version'', String telemetry_batch_version),
      (''endpoint'', String (endpoint_name ep)),
      (''raw_json'', String raw),
      (''raw_bytes'', jnat (length raw)),
      (''raw_sha256'', String (ci_sha env raw)),
      (''source_records'', jnum (cs_source_records summary)),
      (''derived_captures'', jnum (cs_derived_captures summary)),
      (''unknown_events'', jnum (cs_unknown_events summary)),
      (''attributed_quality_errors'', jnum (cs_attributed_quality_errors summary)),
      (''conversion_errors'', Array (map String (cs_conversion_errors summary))),
      (''quality_error_reasons'', Object (map (\<lambda>kn. (fst kn, jnum (snd kn))) (quality_error_reasons summary)))]"

definition batch_member :: "cloud_env \<Rightarrow> cloud_endpoint \<Rightarrow> string \<Rightarrow> cloud_summary \<Rightarrow> jobject" where
  "batch_member env ep raw summary = the (as_object (json_object (batch_members env ep raw summary)))"

definition batch_id :: "cloud_env \<Rightarrow> cloud_endpoint \<Rightarrow> string \<Rightarrow> string" where
  "batch_id env ep raw = cloud_capture_id env ''batch'' [endpoint_name ep, ci_sha env raw]"

lemma batch_capture_object:
  "batch_capture env ep raw summary = Object (batch_object (batch_id env ep raw) (batch_member env ep raw summary))"
proof -
  have "json_object (batch_members env ep raw summary) = Object (batch_member env ep raw summary)"
    by (simp add: batch_member_def json_object_def)
  then show ?thesis
    unfolding batch_capture_def batch_members_def [symmetric] batch_id_def [symmetric]
    by (simp add: json_object_def [of "(''recordType'', _) # _"] batch_object_def cloud_source_namespace_def)
qed

lemma tget_batch_member: "tget (batch_member env ep raw summary) k = map_of (rev (batch_members env ep raw summary)) k"
  using jget_json_object [of "batch_members env ep raw summary" k] by (simp add: batch_member_def json_object_def)

lemma batch_member_values:
  "tget (batch_member env ep raw s) ''schema_version'' = Some (String telemetry_batch_version)"
  "tget (batch_member env ep raw s) ''endpoint'' = Some (String (endpoint_name ep))"
  "tget (batch_member env ep raw s) ''raw_json'' = Some (String raw)"
  "tget (batch_member env ep raw s) ''raw_bytes'' = Some (jnat (length raw))"
  "tget (batch_member env ep raw s) ''raw_sha256'' = Some (String (ci_sha env raw))"
  "tget (batch_member env ep raw s) ''source_records'' = Some (jnum (cs_source_records s))"
  "tget (batch_member env ep raw s) ''derived_captures'' = Some (jnum (cs_derived_captures s))"
  "tget (batch_member env ep raw s) ''unknown_events'' = Some (jnum (cs_unknown_events s))"
  "tget (batch_member env ep raw s) ''attributed_quality_errors'' = Some (jnum (cs_attributed_quality_errors s))"
  "tget (batch_member env ep raw s) ''conversion_errors'' = Some (Array (map String (cs_conversion_errors s)))"
  "tget (batch_member env ep raw s) ''quality_error_reasons''
     = Some (Object (map (\<lambda>kn. (fst kn, jnum (snd kn))) (quality_error_reasons s)))"
  by (simp_all add: tget_batch_member batch_members_def)

lemma wf_reasons: "tsorted t \<Longrightarrow> wf_object (map (\<lambda>kn. (fst kn, jnum (snd kn))) t)"
  by (simp add: tsorted_def sorted_wrt_map list_all_iff comp_def)

lemma reasons_sorted: "tsorted (quality_error_reasons s)"
proof -
  have "tsorted (fold (\<lambda>error. bump_reason (classify_quality_error error, 1)) es t)" if "tsorted t" for es t
    using that by (induction es arbitrary: t) (simp_all add: bump_reason_def)
  then show ?thesis by (simp add: quality_error_reasons_def tsorted_def)
qed

lemma wf_batch_member: "wf_object (batch_member env ep raw s)"
proof -
  have "wf_json (json_object (batch_members env ep raw s))"
    by (rule wf_json_object)
      (use wf_reasons [OF reasons_sorted] in \<open>auto simp: batch_members_def jnat_def list_all_iff simp del: wf_json.simps(1)\<close>)
  then show ?thesis by (simp add: batch_member_def json_object_def)
qed

lemma telemetry_reasons_sum:
  assumes "list_all (\<lambda>r. is_quality_reason (fst r)) t" "unat acc + sum_values t < 2 ^ 64"
  shows "try_fold telemetry_reason (map (\<lambda>kn. (fst kn, jnum (snd kn))) t) acc = Inr (acc + of_nat (sum_values t))"
  using assms
proof (induction t arbitrary: acc)
  case (Cons r t)
  have sat: "saturating_add acc (snd r) = acc + snd r" "unat (acc + snd r) = unat acc + unat (snd r)"
    using Cons.prems(2) by (simp_all add: saturating_add_def checked_add_def unat_u64_add)
  have "telemetry_reason (fst r, jnum (snd r)) acc = Inr (acc + snd r)"
    using Cons.prems(1) by (auto simp: telemetry_reason_def is_quality_reason_def sat(1))
  with Cons.IH [of "acc + snd r"] Cons.prems sat(2) show ?case by (simp add: add.assoc)
qed simp

lemma built_batch_valid:
  assumes "ci_parse env raw \<noteq> None" "[] \<notin> set (cs_conversion_errors s)"
    and "unat (cs_unknown_events s) + length (cs_conversion_errors s) < 2 ^ 64"
  shows "validate_telemetry_batch (ci_sha env) (ci_parse env) (batch_object cid (batch_member env ep raw s)) = Inr ()"
proof -
  note reasons = quality_error_reasons_ok [OF assms(3)]
  have total: "of_nat (sum_values (quality_error_reasons s))
      = saturating_add (cs_unknown_events s) (of_nat (length (cs_conversion_errors s)))"
  proof (rule u64_eqI)
    have n: "unat (of_nat (length (cs_conversion_errors s)) :: u64) = length (cs_conversion_errors s)"
      using assms(3) by (simp add: u64_simps)
    with assms(3) have sat: "unat (saturating_add (cs_unknown_events s) (of_nat (length (cs_conversion_errors s))))
        = unat (cs_unknown_events s) + length (cs_conversion_errors s)"
      by (simp only: unat_saturating_add)
    show "unat (of_nat (sum_values (quality_error_reasons s)) :: u64)
        = unat (saturating_add (cs_unknown_events s) (of_nat (length (cs_conversion_errors s))))"
      unfolding sat using reasons assms(3) by (metis unat_of_nat_u64)
  qed
  have endpoint: "endpoint_name ep \<in> {''otlp_logs'', ''otlp_traces'', ''codex_hook''}" by (cases ep) simp_all
  have errors: "list_all (\<lambda>e. case as_str e of None \<Rightarrow> False | Some s \<Rightarrow> s \<noteq> []) (map String (cs_conversion_errors s))"
    using assms(2) by (auto simp: list_all_iff)
  have sum: "try_fold telemetry_reason (map (\<lambda>kn. (fst kn, jnum (snd kn))) (quality_error_reasons s)) 0
      = Inr (of_nat (sum_values (quality_error_reasons s)))"
    using reasons assms(3) by (subst telemetry_reasons_sum) (auto simp: reasons_ok_def)
  show ?thesis
    unfolding validate_telemetry_batch_def batch_object_members Let_def
    using endpoint errors assms(1)
    by (simp add: ostr_def ou64_def oarr_def absent_or_def batch_member_values demand_def jnat_def sum total)
qed

end
