(* ===== verification/CloudExample.thy ===== *)
theory CloudExample
  imports CloudBatch ServiceTheorems
begin

text \<open>
  A log payload on which the properties of the conversion apply: one record of one scope of one
  resource, whose event the conversion does not know and which names its conversation, so that it
  becomes a \<open>telemetry_incomplete\<close> Capture.  Hashes are hexadecimal and tell the identifiers of the
  payload apart; the codec numbers the JSON values.
\<close>

section \<open>The parameters\<close>

definition example_cloud_sha :: "string \<Rightarrow> string" where
  "example_cloud_sha s = replicate 63 (CHR ''0'') @
     (if suffix ''telemetry_incomplete'' s then ''1'' else if suffix ''session_start'' s then ''2''
      else if suffix ''tool_result'' s then ''3'' else ''0'')"

lemma example_cloud_hex: "is_sha256_hex (example_cloud_sha s)"
proof -
  have "\<forall>c \<in> set ''0123''. is_hexdigit c" by code_simp
  then show ?thesis by (simp add: is_sha256_hex_def example_cloud_sha_def list_all_iff)
qed

definition hash_env :: cloud_env where
  "hash_env =
     \<lparr>ci_sha = example_cloud_sha, ci_parse = unary_parse, ci_ser = unary_ser, ci_debug = (\<lambda>s. s),
      ci_rfc3339 = (\<lambda>_. None), ci_minus_millis = (\<lambda>_ _. None)\<rparr>"

text \<open>A codec that writes the values of a list in few bytes, and numbers the others.\<close>

fun position :: "'a \<Rightarrow> 'a list \<Rightarrow> nat" where
  "position y [] = 0"
| "position y (x # xs) = (if x = y then 0 else Suc (position y xs))"

lemma position_nth: "v \<in> set vs \<Longrightarrow> position v vs < length vs \<and> vs ! position v vs = v"
  by (induction vs) auto

definition listed_ser :: "json list \<Rightarrow> json \<Rightarrow> string" where
  "listed_ser vs v = (if v \<in> set vs then CHR ''1'' # replicate (position v vs) (CHR ''1'') else CHR ''2'' # unary_ser v)"

definition listed_parse :: "json list \<Rightarrow> string \<Rightarrow> json option" where
  "listed_parse vs s =
     (case s of
        [] \<Rightarrow> None
      | c # r \<Rightarrow> if c = CHR ''1'' then if length r < length vs then Some (vs ! length r) else None else unary_parse r)"

lemma listed_codec: "list_all wf_json vs \<Longrightarrow> json_codec (listed_parse vs) (listed_ser vs)"
  using unary_codec position_nth [of _ vs]
  by (auto simp: json_codec_def listed_parse_def listed_ser_def list_all_iff split: list.splits if_splits)

lemma listed_length: "v \<in> set vs \<Longrightarrow> length (listed_ser vs v) \<le> length vs"
  using position_nth [of v vs] by (auto simp: listed_ser_def)


section \<open>The payload\<close>

definition example_attribute :: "string \<Rightarrow> string \<Rightarrow> json" where
  "example_attribute key value_text =
     Object [(''key'', String key), (''value'', Object [(''stringValue'', String value_text)])]"

definition example_log_record :: json where
  "example_log_record =
     Object [(''attributes'', Array [example_attribute ''conversation.id'' ''s'', example_attribute ''event.name'' ''x''])]"

definition example_scope_log :: json where
  "example_scope_log = Object [(''logRecords'', Array [example_log_record])]"

definition example_resource_log :: json where
  "example_resource_log = Object [(''scopeLogs'', Array [example_scope_log])]"

definition example_logs :: jobject where
  "example_logs = [(''resourceLogs'', Array [example_resource_log])]"

definition example_log_attributes :: jobject where
  "example_log_attributes = [(''conversation.id'', String ''s''), (''event.name'', String ''x'')]"

definition example_raw :: string where
  "example_raw = ''1''"

lemma example_logs_wf: "wf_object example_logs"
  by code_simp

lemma example_log_records: "log_records (Object example_logs) = [example_log_record]"
  by code_simp


section \<open>Its conversion\<close>

lemma example_walk:
  "derive_otlp_logs env (Object example_logs) h m = convert_log_record env h m example_log_record example_log_attributes 0
     \<lparr>lb_records = [], lb_source_records = 1, lb_unknown_events = 0, lb_errors = []\<rparr>"
proof -
  have walked: "validate_otlp_structure ''otlp_logs'' (Object example_logs) = Inr ()"
    "items_of (jget (Object example_logs) ''resourceLogs'') = [example_resource_log]"
    "items_of (jget example_resource_log ''scopeLogs'') = [example_scope_log]"
    "items_of (jget example_scope_log ''logRecords'') = [example_log_record]"
    "rbind (otlp_message_attributes (jget example_resource_log ''resource'') ''resource'') attributes_map = Inr []"
    "rbind (otlp_message_attributes (jget example_scope_log ''scope'') ''scope'') attributes_map = Inr []"
    "record_attributes example_resource_log example_scope_log example_log_record = Inr example_log_attributes"
    "put_all example_log_attributes (put_all [] []) = example_log_attributes"
    by code_simp+
  moreover have "saturating_add 0 1 = (1 :: u64)" by (simp add: saturating_add_def checked_add_def)
  ultimately show ?thesis
    by (simp add: derive_otlp_logs_def visit_resource_log_def visit_scope_log_def visit_log_record_def
        layer_attributes_def Let_def)
qed

definition example_event_digest :: string where
  "example_event_digest = replicate 63 (CHR ''0'') @ ''1''"

definition example_incomplete :: jobject where
  "example_incomplete =
     [(''captureId'', String (''cap-cloud-'' @ example_event_digest)), (''captureStage'', String ''event''),
      (''lifecycleEvent'', Object
         [(''event_id'', String (''otel-'' @ example_event_digest)), (''occurred_at'', Null),
          (''reason'', String ''unsupported OTLP log event x''), (''source_event_name'', String ''x''),
          (''status'', String ''incomplete''), (''type'', String ''telemetry_incomplete'')]),
      (''observedLifecycleEvents'', Array [String ''telemetry_incomplete'']), (''receivedAt'', Null),
      (''recordType'', String ''lifecycle_event''), (''sourceNamespace'', String ''stock-codex-cloud''),
      (''traceContext'', Object
         [(''conversation_id'', String ''s''), (''session_id'', String ''s''), (''thread_id'', String ''s'')])]"

definition example_evidence :: "string \<Rightarrow> json" where
  "example_evidence field =
     Object [(''authority'', String ''producer_asserted''), (''field'', String (''traceContext.'' @ field)),
       (''producer'', String ''capture_producer''), (''selected'', Bool True),
       (''source'', String (''capture.traceContext.'' @ field)), (''value'', String ''s'')]"

definition example_promoted :: jobject where
  "example_promoted =
     tput ''fieldEvidenceConflicts'' (Array [])
       (tput ''fieldEvidence'' (Array [example_evidence ''conversation_id'', example_evidence ''session_id'',
          example_evidence ''thread_id'']) example_incomplete)"

definition example_sealed :: jobject where
  "example_sealed = seal_envelope (or_insert ''captureStage'' (String (capture_stage example_promoted)) example_promoted)"

lemma example_incomplete_normal:
  assumes "json_codec parse ser"
  shows "normalize_object sha parse ser True example_incomplete = Inr example_sealed"
proof -
  let ?o = example_incomplete
  let ?e = "[example_evidence ''conversation_id'', example_evidence ''session_id'', example_evidence ''thread_id'']"
  have p: "promoted ser (identity_sources_of parse ?o) =
      \<lparr>pm_trace = [(''conversation_id'', String ''s''), (''session_id'', String ''s''), (''thread_id'', String ''s'')],
       pm_evidence = ?e, pm_conflicts = []\<rparr>"
    by code_simp
  have e: "dedup_by ser [] ?e = ?e" by (rule distinct_ser [OF assms]; code_simp)
  have promote: "promote_protocol_fields parse ser ?o =
     or_insert ''captureStage'' (String (capture_stage example_promoted)) example_promoted"
    unfolding example_promoted_def
  proof (rule promote_step [OF p, unfolded Let_def])
    show "tput ''traceContext'' (Object [(''conversation_id'', String ''s''), (''session_id'', String ''s''),
        (''thread_id'', String ''s'')]) ?o = ?o" by code_simp
    show "dedup_by ser [] (array_field ?o ''fieldEvidence'' @ ?e) = ?e"
      using e by (simp add: array_field_def oarr_def example_incomplete_def)
  qed code_simp+
  have "or_insert ''recordType'' (String ''api_snapshot'') ?o = ?o" "validate_envelope sha parse True ?o = Inr ()"
    "normalize_body_fields sha parse ?o = Inr ?o" "validate_response_delivery_evidence ?o = Inr ()"
    by code_simp+
  moreover have "validate_promoted sha ser (promote_protocol_fields parse ser ?o) = Inr ()"
    unfolding promote by code_simp
  ultimately show ?thesis by (simp add: normalize_object_def Let_def promote example_sealed_def)
qed


section \<open>The values and their codec\<close>

definition example_member :: jobject where
  "example_member = batch_member hash_env OtlpLogs example_raw attributed_summary"

definition example_batch_id :: string where
  "example_batch_id = batch_id hash_env OtlpLogs example_raw"

definition example_values :: "json list" where
  "example_values =
     [Object example_logs, Object example_incomplete, Object (fill_received_at example_sealed),
      Object (batch_object example_batch_id example_member), Object (batch_stored example_batch_id example_member)]"

definition example_cloud_env :: cloud_env where
  "example_cloud_env = hash_env\<lparr>ci_parse := listed_parse example_values, ci_ser := listed_ser example_values\<rparr>"

lemma example_cloud_env_simps [simp]:
  "ci_sha example_cloud_env = example_cloud_sha" "ci_parse example_cloud_env = listed_parse example_values"
  "ci_ser example_cloud_env = listed_ser example_values" "ci_debug example_cloud_env s = s"
  by (simp_all add: example_cloud_env_def hash_env_def)

lemma example_cloud_codec: "json_codec (ci_parse example_cloud_env) (ci_ser example_cloud_env)"
proof -
  have "wf_object example_incomplete" "wf_object (fill_received_at example_sealed)" by code_simp+
  then show ?thesis
    using wf_batch [OF wf_batch_member] example_logs_wf
    by (simp add: listed_codec example_values_def example_member_def del: wf_json.simps(1))
qed

lemma example_short: "v \<in> set example_values \<Longrightarrow> length (ci_ser example_cloud_env v) \<le> 5"
  using listed_length [of v example_values] by (simp add: example_values_def)

lemma example_raw_ok: "ci_parse example_cloud_env example_raw = Some (Object example_logs)" "example_raw \<noteq> []"
    "utf8_valid example_raw" "length example_raw = 1" "ci_ser example_cloud_env (Object example_logs) = example_raw"
proof -
  show "utf8_valid example_raw" by code_simp
qed (simp_all add: example_raw_def listed_parse_def listed_ser_def example_values_def)

lemma example_batch_env:
  "batch_member example_cloud_env OtlpLogs example_raw attributed_summary = example_member"
  "batch_id example_cloud_env OtlpLogs example_raw = example_batch_id"
proof -
  have "ci_sha example_cloud_env = ci_sha hash_env" by (simp add: hash_env_def)
  then show "batch_member example_cloud_env OtlpLogs example_raw attributed_summary = example_member"
    "batch_id example_cloud_env OtlpLogs example_raw = example_batch_id"
    by (simp_all only: example_member_def example_batch_id_def batch_member_def batch_members_def batch_id_def
        cloud_capture_id_def stable_digest_def)
qed

lemma example_batch_short:
  "length (ci_ser example_cloud_env (batch_capture example_cloud_env OtlpLogs example_raw attributed_summary)) \<le> 5"
  "length (ci_ser example_cloud_env (Object (batch_stored example_batch_id example_member))) \<le> 5"
  unfolding batch_capture_object example_batch_env by (rule example_short, simp add: example_values_def)+


section \<open>The Captures\<close>

lemma example_event_derived:
  "derive_log_event example_cloud_env example_log_record example_log_attributes h 0 m
     = rbind (normalize_value example_cloud_env (Object example_incomplete) m) (\<lambda>r. Inr (Some r))"
proof -
  have "suffix k (digest_input [a, b, k])" for a b k
    by (simp add: digest_input_def suffix_def)
  then have digest: "stable_digest example_cloud_env [h, nat_dec (unat (0 :: u64)), ''telemetry_incomplete''] = example_event_digest"
    by (simp add: stable_digest_def example_cloud_sha_def example_event_digest_def)
  have read: "log_event_name example_log_attributes = ''x''" "\<not> known_log_event ''x''"
    "attribute_string example_log_attributes ''conversation.id'' = Some ''s''"
    "attribute_string example_log_attributes ''event.name'' = Some ''x''"
    "trace_context example_log_record example_log_attributes ''s'' = Object
       [(''conversation_id'', String ''s''), (''session_id'', String ''s''), (''thread_id'', String ''s'')]"
    by code_simp+
  have "record_timestamp env example_log_record example_log_attributes = None" for env
    by code_simp
  with digest read show ?thesis
    by (simp add: derive_log_event_def derive_telemetry_incomplete_def known_log_event_def Let_def jopt_def
        json_opt_def json_object_def example_incomplete_def cloud_source_namespace_def)
qed

lemma example_incomplete_taken:
  obtains d where "normalize_value example_cloud_env (Object example_incomplete) 5 = Inr d"
    "cr_capture_id d = ''cap-cloud-'' @ example_event_digest" "is_incomplete_record example_cloud_env d"
    "cr_sha256 d = example_cloud_sha (cr_canonical d)"
proof -
  have wf: "wf_object example_incomplete" by code_simp
  have id: "ostr example_incomplete ''captureId'' = Some (''cap-cloud-'' @ example_event_digest)"
    "capture_id_ok (''cap-cloud-'' @ example_event_digest)" by code_simp+
  have short: "length (ci_ser example_cloud_env (Object example_incomplete)) \<le> 5"
    "length (ci_ser example_cloud_env (Object (fill_received_at example_sealed))) \<le> 5"
    by (rule example_short, simp add: example_values_def)+
  from normalize_serialised [OF example_cloud_codec wf id example_incomplete_normal [OF example_cloud_codec] short] obtain d where
    d: "normalize_value example_cloud_env (Object example_incomplete) 5 = Inr d" "cr_capture_id d = ''cap-cloud-'' @ example_event_digest"
      "cr_sha256 d = example_cloud_sha (cr_canonical d)"
    by (auto simp: normalize_value_def normalize_capture_def)
  have "Option.bind (jget (Object example_incomplete) ''lifecycleEvent'') (\<lambda>e. get_str e ''type'') = Some ''telemetry_incomplete''"
    by code_simp
  with incomplete_iff [OF d(1) example_cloud_codec wf] have "is_incomplete_record example_cloud_env d" by simp
  from that [OF d(1,2) this d(3)] show thesis .
qed

lemma example_derived:
  obtains d where "derive_batch example_cloud_env OtlpLogs (Object example_logs) h 5 = ([d], 1, 1, [])"
    "cr_capture_id d = ''cap-cloud-'' @ example_event_digest" "cr_sha256 d = example_cloud_sha (cr_canonical d)"
    "batch_summary example_cloud_env OtlpLogs ([d], 1, 1, []) = attributed_summary"
proof -
  obtain d where d: "normalize_value example_cloud_env (Object example_incomplete) 5 = Inr d"
    "cr_capture_id d = ''cap-cloud-'' @ example_event_digest" "is_incomplete_record example_cloud_env d"
    "cr_sha256 d = example_cloud_sha (cr_canonical d)"
    by (rule example_incomplete_taken)
  have "log_event_name example_log_attributes = ''x''" "\<not> known_log_event ''x''" by code_simp+
  moreover have "saturating_add 0 1 = (1 :: u64)" by (simp add: saturating_add_def checked_add_def)
  ultimately have "derive_batch example_cloud_env OtlpLogs (Object example_logs) h 5 = ([d], 1, 1, [])"
    by (simp add: derive_batch_def example_walk convert_log_record_def example_event_derived d(1) Let_def)
  moreover have "batch_summary example_cloud_env OtlpLogs ([d], 1, 1, []) = attributed_summary"
    using d(3) by (simp add: batch_summary_def attributed_summary_def Let_def saturating_add_def checked_add_def)
  ultimately show thesis using that d(2,4) by blast
qed

end
