(* ===== verification/CloudTheorems.thy ===== *)
theory CloudTheorems
  imports CloudExample
begin

text \<open>
  The properties of the conversion of cloud payloads (\<open>cloud_ingest.rs\<close>) and of the Relay that
  stores what it yields, each with a payload on which it applies.
\<close>

section \<open>The prepared batch\<close>

lemma prepare_steps:
  assumes "prepare_cloud_ingest env ep raw m = Inr (records, summary)"
  obtains v r where "ci_parse env raw = Some (Object v)" "raw \<noteq> []" "utf8_valid raw" "length raw \<le> m"
    "summary = batch_summary env ep (derive_batch env ep (Object v) (ci_sha env raw) m)"
    "normalize_value env (batch_capture env ep raw summary) m = Inr r"
    "records = r # fst (derive_batch env ep (Object v) (ci_sha env raw) m)"
  using assms by (auto simp: prepare_cloud_ingest_def Let_def res_simps is_obj_def as_object_eq_Some)

lemma prepare_eq:
  assumes "ci_parse env raw = Some (Object v)" "raw \<noteq> []" "utf8_valid raw" "length raw \<le> m"
    "summary = batch_summary env ep (derive_batch env ep (Object v) (ci_sha env raw) m)"
    "normalize_value env (batch_capture env ep raw summary) m = Inr r"
  shows "prepare_cloud_ingest env ep raw m = Inr (r # fst (derive_batch env ep (Object v) (ci_sha env raw) m), summary)"
  using assms by (simp add: prepare_cloud_ingest_def Let_def demand_def is_obj_def)

lemma batch_kept:
  assumes "normalize_value env (batch_capture env ep raw summary) m = Inr r" "json_codec (ci_parse env) (ci_ser env)"
  shows "ci_parse env (cr_canonical r) = Some (Object (batch_stored (batch_id env ep raw) (batch_member env ep raw summary)))"
    and "cr_capture_id r = batch_id env ep raw" "cr_sha256 r = ci_sha env (cr_canonical r)"
proof -
  let ?b = "batch_object (batch_id env ep raw) (batch_member env ep raw summary)"
  note wf = wf_batch(1) [OF wf_batch_member] wf_batch(2) [OF wf_batch_member]
  from assms(1) obtain sent sealed where c: "ci_parse env (ci_ser env (Object ?b)) = Some (Object sent)"
      "ostr sent ''captureId'' = Some (cr_capture_id r)"
      "normalize_object (ci_sha env) (ci_parse env) (ci_ser env) True sent = Inr sealed"
      "cr_canonical r = ci_ser env (Object (fill_received_at sealed))" "cr_sha256 r = ci_sha env (cr_canonical r)"
    unfolding normalize_value_def normalize_capture_def batch_capture_object
    by (rule normalize_capture_steps) (metis capture_record.select_convs(3))
  from c(1) codec_parse [OF assms(2) wf(1)] have sent: "sent = ?b" by simp
  have "or_insert ''recordType'' (String ''api_snapshot'') ?b = ?b"
    by (rule or_insert_id) (simp add: batch_object_def)
  with c(3) have "validate_envelope (ci_sha env) (ci_parse env) True ?b = Inr ()"
    unfolding sent by (metis normalize_object_steps)
  then have "validate_telemetry_batch (ci_sha env) (ci_parse env) ?b = Inr ()"
    by (auto simp: validate_envelope_def rbind_eq_Inr)
  from batch_normal_form [OF this, of "ci_ser env"] c(3)
  have sealed: "sealed = tdel ''receivedAt'' (batch_stored (batch_id env ep raw) (batch_member env ep raw summary))"
    unfolding sent by (simp only: sum.inject)
  have "fill_received_at sealed = batch_stored (batch_id env ep raw) (batch_member env ep raw summary)"
    unfolding sealed by (rule batch_stored_filled)
  with c(4) codec_parse [OF assms(2) wf(2)]
  show "ci_parse env (cr_canonical r) = Some (Object (batch_stored (batch_id env ep raw) (batch_member env ep raw summary)))"
    by simp
  show "cr_capture_id r = batch_id env ep raw" using c(2) by (simp add: sent batch_object_members)
  show "cr_sha256 r = ci_sha env (cr_canonical r)" by (rule c(5))
qed

lemma stored_raw:
  "ptr_str (Object (batch_stored cid (batch_member env ep raw s))) [''telemetryBatch'', ''raw_json''] = Some raw"
  by (simp add: ptr_str_def batch_object_members batch_member_values)

lemma hex_capture_id: "is_sha256_hex h \<Longrightarrow> capture_id_ok (''cap-cloud-'' @ h)"
proof -
  assume h: "is_sha256_hex h"
  have "CHR ''f'' \<le> CHR ''z''" "CHR ''F'' \<le> CHR ''Z''" by code_simp+
  then have "capture_id_char c" if "is_hexdigit c" for c
    using that order_trans [of c "CHR ''f''" "CHR ''z''"] order_trans [of c "CHR ''F''" "CHR ''Z''"]
    by (auto simp: is_hexdigit_def capture_id_char_def)
  with h have "list_all capture_id_char h" by (auto simp: is_sha256_hex_def list_all_iff)
  moreover have "list_all capture_id_char ''cloud-''" by code_simp
  ultimately show ?thesis using h by (simp add: capture_id_ok_def is_sha256_hex_def)
qed

lemma readable_kept:
  assumes "json_codec (ci_parse env) (ci_ser env)" "\<forall>s. is_sha256_hex (ci_sha env s)"
    and "ci_parse env raw = Some (Object v)" "raw \<noteq> []" "utf8_valid raw" "length raw \<le> m"
    and "derive_batch env ep (Object v) (ci_sha env raw) m = (derived, n, u, es)"
    and "unat u + length es < 2 ^ 64"
    and "summary = batch_summary env ep (derived, n, u, es)"
    and "length (ci_ser env (batch_capture env ep raw summary)) \<le> m"
      "length (ci_ser env (Object (batch_stored (batch_id env ep raw) (batch_member env ep raw summary)))) \<le> m"
  shows "\<exists>r stored_value. prepare_cloud_ingest env ep raw m = Inr (r # derived, summary)
    \<and> ci_parse env (cr_canonical r) = Some stored_value \<and> ptr_str stored_value [''telemetryBatch'', ''raw_json''] = Some raw
    \<and> cr_sha256 r = ci_sha env (cr_canonical r)"
proof -
  let ?b = "batch_object (batch_id env ep raw) (batch_member env ep raw summary)"
  have s: "cs_conversion_errors summary = es" "cs_unknown_events summary = u"
    by (simp_all add: assms(9) batch_summary_def Let_def)
  have "validate_telemetry_batch (ci_sha env) (ci_parse env) ?b = Inr ()"
    by (rule built_batch_valid) (use assms(3,8) batch_errors_spoken [OF assms(7,1)] s in simp_all)
  note normal = batch_normal_form [OF this, of "ci_ser env"]
  have id: "capture_id_ok (batch_id env ep raw)"
    unfolding batch_id_def cloud_capture_id_def stable_digest_def by (rule hex_capture_id) (use assms(2) in blast)
  from normalize_serialised [OF assms(1) wf_batch(1) [OF wf_batch_member] batch_object_members(1) id normal, where max_bytes = m] assms(10,11)
  obtain r where r: "normalize_value env (batch_capture env ep raw summary) m = Inr r"
    by (auto simp: normalize_value_def normalize_capture_def batch_capture_object batch_stored_filled)
  from prepare_eq [OF assms(3-6) _ r] assms(7,9) batch_kept [OF r assms(1)] stored_raw show ?thesis by auto
qed


text \<open>The batch of the example: its Capture, and the one derived from its record.\<close>

lemma example_prepared:
  obtains r d where
    "prepare_cloud_ingest example_cloud_env OtlpLogs example_raw 5 = Inr ([r, d], attributed_summary)"
    "derive_batch example_cloud_env OtlpLogs (Object example_logs) (ci_sha example_cloud_env example_raw) 5 = ([d], 1, 1, [])"
    "attributed_summary = batch_summary example_cloud_env OtlpLogs ([d], 1, 1, [])"
    "cr_capture_id r = example_batch_id" "cr_capture_id d = ''cap-cloud-'' @ example_event_digest"
    "hashed example_cloud_sha [r, d]"
proof -
  obtain d where d: "derive_batch example_cloud_env OtlpLogs (Object example_logs) (ci_sha example_cloud_env example_raw) 5
      = ([d], 1, 1, [])" "cr_capture_id d = ''cap-cloud-'' @ example_event_digest" "cr_sha256 d = example_cloud_sha (cr_canonical d)"
      "batch_summary example_cloud_env OtlpLogs ([d], 1, 1, []) = attributed_summary"
    by (rule example_derived)
  from readable_kept [OF example_cloud_codec _ example_raw_ok(1-3) _ d(1) _ d(4) [symmetric]] example_batch_short example_raw_ok(4)
  obtain r where r: "prepare_cloud_ingest example_cloud_env OtlpLogs example_raw 5 = Inr ([r, d], attributed_summary)"
    by (auto simp: example_cloud_hex example_batch_env)
  from r have "normalize_value example_cloud_env (batch_capture example_cloud_env OtlpLogs example_raw attributed_summary) 5 = Inr r"
    by (rule prepare_steps) simp
  note kept = batch_kept(2,3) [OF this example_cloud_codec, unfolded example_batch_env]
  have "hashed example_cloud_sha [r, d]" using kept(2) d(3) by (simp add: hashed_def)
  from that [OF r d(1) d(4) [symmetric] kept(1) d(2) this] show thesis .
qed



text \<open>
  C32: Revalidating a stored batch converts its raw text again without the limit it was taken in
  with, and accepts the outcome exactly when the reasons are the recorded ones.  A batch that was
  converted without errors, and every batch of spans, is accepted with the summary it was stored
  with; one whose Captures were too large for the limit is refused.
\<close>

lemma parse_endpoint_name: "parse_endpoint env (endpoint_name ep) = Inr ep"
  by (cases ep) (simp_all add: parse_endpoint_def)

lemma reason_counts_stored: "reason_counts (Object (map (\<lambda>kn. (fst kn, jnum (snd kn))) t)) = Some t"
  by (simp add: reason_counts_def list_all_iff comp_def)

lemma prepare_limit:
  assumes "prepare_cloud_ingest env ep raw m = Inr (records, summary)" "m \<le> m'"
    and "ep = OtlpTraces \<or> cs_conversion_errors summary = []"
  shows "prepare_cloud_ingest env ep raw m' = Inr (records, summary)"
proof -
  from assms(1) obtain v r where p: "ci_parse env raw = Some (Object v)" "raw \<noteq> []" "utf8_valid raw" "length raw \<le> m"
    "summary = batch_summary env ep (derive_batch env ep (Object v) (ci_sha env raw) m)"
    "normalize_value env (batch_capture env ep raw summary) m = Inr r"
    "records = r # fst (derive_batch env ep (Object v) (ci_sha env raw) m)"
    by (rule prepare_steps)
  obtain d n u es where b: "derive_batch env ep (Object v) (ci_sha env raw) m = (d, n, u, es)" by (metis prod_cases4)
  have "ep = OtlpTraces \<or> es = []" using assms(3) by (simp add: p(5) b batch_summary_def Let_def)
  from derive_batch_limit [OF b this assms(2)] b
  have same: "derive_batch env ep (Object v) (ci_sha env raw) m' = derive_batch env ep (Object v) (ci_sha env raw) m" by simp
  from prepare_eq [OF p(1-3) _ _ normalize_limit [OF p(6) assms(2)]] p(4,5,7) assms(2) show ?thesis
    by (simp add: same)
qed

lemma revalidate_stored:
  assumes "prepare_cloud_ingest env ep raw m = Inr (r # derived, summary)" "json_codec (ci_parse env) (ci_ser env)"
    and "ci_parse env (cr_canonical r) = Some stored_value"
  shows "revalidate_telemetry_batch env stored_value =
    rbind (prepare_cloud_ingest env ep raw usize_max) (\<lambda>p.
    rbind (demand (quality_error_reasons summary = quality_error_reasons (snd p))
      ''telemetryBatch.quality_error_reasons does not match the raw telemetry'') (\<lambda>_. Inr (snd p)))"
proof -
  from assms(1) have r: "normalize_value env (batch_capture env ep raw summary) m = Inr r"
    by (rule prepare_steps) simp
  from batch_kept(1) [OF r assms(2)] assms(3)
  have stored_value: "stored_value = Object (batch_stored (batch_id env ep raw) (batch_member env ep raw summary))" by simp
  show ?thesis
    unfolding revalidate_telemetry_batch_def stored_value Let_def
    by (simp add: batch_object_members batch_member_values ostr_def parse_endpoint_name reason_counts_stored)
qed

theorem revalidation_exact:
  assumes "prepare_cloud_ingest env ep raw m = Inr (r # derived, summary)" "json_codec (ci_parse env) (ci_ser env)"
    and "ci_parse env (cr_canonical r) = Some stored_value" "m \<le> usize_max"
  shows "revalidate_telemetry_batch env stored_value =
      rbind (prepare_cloud_ingest env ep raw usize_max) (\<lambda>p.
      rbind (demand (quality_error_reasons summary = quality_error_reasons (snd p))
        ''telemetryBatch.quality_error_reasons does not match the raw telemetry'') (\<lambda>_. Inr (snd p)))
    \<and> (ep = OtlpTraces \<or> cs_conversion_errors summary = [] \<longrightarrow> revalidate_telemetry_batch env stored_value = Inr summary)"
  using revalidate_stored [OF assms(1-3)] prepare_limit [OF assms(1,4)] by (simp add: demand_def)

theorem revalidation_exact_witness:
  "\<exists>r d stored_value. prepare_cloud_ingest example_cloud_env OtlpLogs example_raw 5 = Inr ([r, d], attributed_summary)
    \<and> ci_parse example_cloud_env (cr_canonical r) = Some stored_value
    \<and> revalidate_telemetry_batch example_cloud_env stored_value = Inr attributed_summary"
proof -
  obtain r d where p: "prepare_cloud_ingest example_cloud_env OtlpLogs example_raw 5 = Inr ([r, d], attributed_summary)"
    by (rule example_prepared)
  then have "normalize_value example_cloud_env (batch_capture example_cloud_env OtlpLogs example_raw attributed_summary) 5 = Inr r"
    by (rule prepare_steps) simp
  note stored_value = batch_kept(1) [OF this example_cloud_codec]
  from revalidation_exact [OF p example_cloud_codec stored_value] p stored_value show ?thesis
    by (auto simp: usize_max_def attributed_summary_def)
qed

text \<open>
  C30: No two Captures of a log payload share an identifier, unless SHA-256 collides on the texts
  they are computed from: the components are told apart by their lengths, each record has its own
  ordinal, and the batch none.
\<close>

definition id_components :: "cloud_env \<Rightarrow> string \<Rightarrow> nat \<Rightarrow> string list set" where
  "id_components env raw n =
     insert [''batch'', ''otlp_logs'', ci_sha env raw]
       ((\<lambda>(i, k). [ci_sha env raw, nat_dec i, k]) ` ({..<n} \<times> set event_kinds))"

lemma length_nat_dec: "length (nat_dec n) \<le> max 1 n"
proof (induction n rule: nat_dec.induct)
  case (1 n)
  show ?case
  proof (cases "n < 10")
    case False
    then have "length (nat_dec n) = length (nat_dec (n div 10)) + 1" by (simp add: nat_dec.simps [of n])
    moreover have "max 1 (n div 10) + 1 \<le> n" using False by auto
    ultimately show ?thesis using 1 False by simp
  qed (simp add: nat_dec.simps [of n])
qed

lemma nat_dec_inject: "nat_dec m = nat_dec n \<longleftrightarrow> m = n"
  using digits_val_nat_dec [of m] digits_val_nat_dec [of n] by metis

lemma components_short:
  assumes "length (ci_sha env raw) < 2 ^ 64" "n < 2 ^ 64" "xs \<in> id_components env raw n" "c \<in> set xs"
  shows "length c < 2 ^ 64"
proof -
  have "length (nat_dec i) < 2 ^ 64" if "i < n" for i
    using length_nat_dec [of i] that assms(2) by (auto simp: max_def split: if_splits)
  with assms(1,3,4) show ?thesis by (auto simp: id_components_def event_kinds_def)
qed

lemma stable_digest_inj:
  assumes "inj_on (ci_sha env) (digest_input ` id_components env raw n)" "length (ci_sha env raw) < 2 ^ 64" "n < 2 ^ 64"
    and "xs \<in> id_components env raw n" "ys \<in> id_components env raw n" "stable_digest env xs = stable_digest env ys"
  shows "xs = ys"
proof (rule digest_input_inject)
  show "\<forall>c \<in> set xs. length c < 2 ^ 64" "\<forall>c \<in> set ys. length c < 2 ^ 64"
    using components_short [OF assms(2,3)] assms(4,5) by blast+
  show "digest_input xs = digest_input ys"
    by (rule inj_onD [OF assms(1)]) (use assms(4-6) in \<open>simp_all add: stable_digest_def\<close>)
qed

theorem converted_ids_distinct:
  assumes "prepare_cloud_ingest env OtlpLogs raw m = Inr (records, summary)" "json_codec (ci_parse env) (ci_ser env)"
    and "ci_parse env raw = Some v" "length (log_records v) < 2 ^ 64" "length (ci_sha env raw) < 2 ^ 64"
    and "inj_on (ci_sha env) (digest_input ` id_components env raw (length (log_records v)))"
  shows "distinct (map cr_capture_id records)"
proof -
  let ?n = "length (log_records v)" and ?h = "ci_sha env raw"
  from assms(1) obtain r where p: "normalize_value env (batch_capture env OtlpLogs raw summary) m = Inr r"
    "records = r # fst (derive_batch env OtlpLogs v ?h m)"
    using assms(3) by (rule_tac prepare_steps) auto
  have wf: "wf_json v" by (rule codec_wf [OF assms(2,3)])
  from log_walk(2) [OF assms(2) wf, of ?h m] assms(4) obtain events where
    events: "map cr_capture_id (lb_records (derive_otlp_logs env v ?h m)) = map (event_capture_id env ?h) events"
      "distinct events" "\<forall>e \<in> set events. fst e < ?n \<and> snd e \<in> set event_kinds"
    by (auto simp: walk_ids_def)
  note digest = stable_digest_inj [OF assms(6,5,4)]
  have comp: "[?h, nat_dec i, k] \<in> id_components env raw ?n" if "i < ?n" "k \<in> set event_kinds" for i k
    using that by (auto simp: id_components_def)
  have batch: "[''batch'', ''otlp_logs'', ?h] \<in> id_components env raw ?n" by (simp add: id_components_def)
  have inj: "inj_on (event_capture_id env ?h) (set events)"
  proof (rule inj_onI)
    fix a b assume ab: "a \<in> set events" "b \<in> set events" "event_capture_id env ?h a = event_capture_id env ?h b"
    with events(3) digest [OF comp [of "fst a" "snd a"] comp [of "fst b" "snd b"]] show "a = b"
      by (simp add: event_capture_id_def nat_dec_inject prod_eq_iff)
  qed
  have fresh: "batch_id env OtlpLogs raw \<noteq> event_capture_id env ?h e" if "e \<in> set events" for e
  proof
    assume "batch_id env OtlpLogs raw = event_capture_id env ?h e"
    with events(3) that digest [OF batch comp [of "fst e" "snd e"]] have "nat_dec (fst e) = ''otlp_logs''"
      by (simp add: batch_id_def cloud_capture_id_def event_capture_id_def)
    with list_all_nat_dec [of "fst e"] show False by (simp add: is_digit_def)
  qed
  have "map cr_capture_id records = batch_id env OtlpLogs raw # map (event_capture_id env ?h) events"
    using batch_kept(2) [OF p(1) assms(2)] events(1) by (simp add: p(2) derive_batch_def Let_def)
  with events(2) inj fresh show ?thesis by (auto simp: distinct_map)
qed

lemma example_hashes:
  fixes a b :: string
  defines "h \<equiv> example_cloud_sha example_raw"
  shows "example_cloud_sha (digest_input [''batch'', ''otlp_logs'', h]) = replicate 63 (CHR ''0'') @ ''0''"
    "example_cloud_sha (digest_input [a, b, ''telemetry_incomplete'']) = replicate 63 (CHR ''0'') @ ''1''"
    "example_cloud_sha (digest_input [a, b, ''session_start'']) = replicate 63 (CHR ''0'') @ ''2''"
    "example_cloud_sha (digest_input [a, b, ''tool_result'']) = replicate 63 (CHR ''0'') @ ''3''"
proof -
  have ends: "suffix k (digest_input [a, b, k])" for a b k
    by (simp add: digest_input_def suffix_def)
  have other: "\<not> suffix l (digest_input [a, b, k])" if "\<not> suffix l k" "\<not> suffix k l" for a b k l
    using suffix_same_cases [OF ends [of k a b]] that by blast
  let ?apart = "[(h, ''telemetry_incomplete''), (h, ''session_start''), (h, ''tool_result''),
    (''telemetry_incomplete'', h), (''session_start'', h), (''tool_result'', h),
    (''session_start'', ''telemetry_incomplete''), (''telemetry_incomplete'', ''session_start''),
    (''tool_result'', ''telemetry_incomplete''), (''telemetry_incomplete'', ''tool_result''),
    (''tool_result'', ''session_start''), (''session_start'', ''tool_result'')]"
  have "list_all (\<lambda>(k, l). \<not> suffix l k) ?apart" unfolding h_def by code_simp
  then have kinds: "(k, l) \<in> set ?apart \<Longrightarrow> \<not> suffix l k" for k l unfolding list_all_iff by blast
  show "example_cloud_sha (digest_input [''batch'', ''otlp_logs'', h]) = replicate 63 (CHR ''0'') @ ''0''"
    "example_cloud_sha (digest_input [a, b, ''telemetry_incomplete'']) = replicate 63 (CHR ''0'') @ ''1''"
    "example_cloud_sha (digest_input [a, b, ''session_start'']) = replicate 63 (CHR ''0'') @ ''2''"
    "example_cloud_sha (digest_input [a, b, ''tool_result'']) = replicate 63 (CHR ''0'') @ ''3''"
    by (simp_all only: example_cloud_sha_def [of "digest_input _"] ends other kinds list.set insert_iff simp_thms if_True if_False)
qed

lemma example_batch_apart: "example_batch_id \<noteq> ''cap-cloud-'' @ example_event_digest"
proof -
  have "ci_sha hash_env = example_cloud_sha" by (simp add: hash_env_def)
  then have "example_batch_id = ''cap-cloud-'' @ replicate 63 (CHR ''0'') @ ''0''"
    by (simp only: example_batch_id_def batch_id_def cloud_capture_id_def stable_digest_def endpoint_name.simps example_hashes)
  note id = this
  show ?thesis unfolding id example_event_digest_def by simp
qed

lemma example_ids_apart:
  "inj_on (ci_sha example_cloud_env)
     (digest_input ` id_components example_cloud_env example_raw (length (log_records (Object example_logs))))"
proof -
  let ?h = "example_cloud_sha example_raw"
  have one: "digest_input ` id_components example_cloud_env example_raw (length (log_records (Object example_logs)))
     = {digest_input [''batch'', ''otlp_logs'', ?h], digest_input [?h, nat_dec 0, ''telemetry_incomplete''],
        digest_input [?h, nat_dec 0, ''session_start''], digest_input [?h, nat_dec 0, ''tool_result'']}"
    unfolding id_components_def example_log_records by (auto simp: event_kinds_def)
  show ?thesis unfolding one by (simp add: inj_on_def example_hashes)
qed

theorem converted_ids_distinct_witness:
  "\<exists>r d. prepare_cloud_ingest example_cloud_env OtlpLogs example_raw 5 = Inr ([r, d], attributed_summary)
    \<and> cr_capture_id r \<noteq> cr_capture_id d"
proof -
  obtain r d where p: "prepare_cloud_ingest example_cloud_env OtlpLogs example_raw 5 = Inr ([r, d], attributed_summary)"
    by (rule example_prepared)
  have "length (ci_sha example_cloud_env example_raw) < 2 ^ 64" "length (log_records (Object example_logs)) < 2 ^ 64"
    unfolding example_log_records by (simp_all add: example_cloud_sha_def)
  from converted_ids_distinct [OF p example_cloud_codec example_raw_ok(1) this(2,1) example_ids_apart] p
  show ?thesis by auto
qed

lemma log_attribution:
  assumes "prepare_cloud_ingest env OtlpLogs raw m = Inr (r # derived, summary)" "json_codec (ci_parse env) (ci_ser env)"
    and "ci_parse env raw = Some v" "length (log_records v) < 2 ^ 64" "length (cs_conversion_errors summary) < 2 ^ 64"
  shows "unat (cs_source_records summary) = length (log_records v) \<and> length derived \<le> length (log_records v)
    \<and> unat (cs_derived_captures summary) = length derived
    \<and> unat (cs_attributed_quality_errors summary) = length (filter (is_incomplete_record env) derived)
    \<and> unat (cs_attributed_quality_errors summary)
        \<le> unat (cs_unknown_events summary) + length (cs_conversion_errors summary)"
proof -
  let ?b = "derive_otlp_logs env v (ci_sha env raw) m"
  from assms(1) have p: "summary = batch_summary env OtlpLogs (derive_batch env OtlpLogs v (ci_sha env raw) m)"
    "derived = lb_records ?b"
    by (rule prepare_steps, use assms(3) in \<open>simp add: derive_batch_def Let_def\<close>)+
  have s: "cs_source_records summary = lb_source_records ?b" "cs_unknown_events summary = lb_unknown_events ?b"
    "cs_conversion_errors summary = lb_errors ?b" "cs_derived_captures summary = of_nat (length derived)"
    "cs_attributed_quality_errors summary = min (of_nat (length (filter (is_incomplete_record env) derived)))
       (saturating_add (lb_unknown_events ?b) (of_nat (length (lb_errors ?b))))"
    by (simp_all add: p batch_summary_def derive_batch_def Let_def)
  from log_walk(1) [OF assms(2) codec_wf [OF assms(2,3)], of "ci_sha env raw" m] assms(4)
  have w: "unat (lb_source_records ?b) = length (log_records v)" "length derived \<le> length (log_records v)"
    "length (filter (is_incomplete_record env) derived) \<le> unat (lb_unknown_events ?b) + length (lb_errors ?b)"
    by (auto simp: walk_counts_def p(2))
  have n: "length (filter (is_incomplete_record env) derived) < 2 ^ 64"
    using w(2) assms(4) length_filter_le [of "is_incomplete_record env" derived] by linarith
  have e: "unat (of_nat (length (lb_errors ?b)) :: u64) = length (lb_errors ?b)" using assms(5) s(3) by (simp add: u64_simps)
  have "unat (cs_attributed_quality_errors summary) = length (filter (is_incomplete_record env) derived)"
    unfolding s(5) using w(3) n e by (simp add: min_def u64_simps u64_le_iff)
  with w assms(4) s show ?thesis by (simp add: u64_simps)
qed

text \<open>
  C31: The summary of a log payload is exact: it counts the log records, no record yields more than
  one Capture, the attributed errors are exactly the stored \<open>telemetry_incomplete\<close> Captures, and
  each of them stands for an unknown event or an error.
\<close>

theorem attribution_exact:
  assumes "prepare_cloud_ingest env OtlpLogs raw m = Inr (r # derived, summary)" "json_codec (ci_parse env) (ci_ser env)"
    and "ci_parse env raw = Some v" "length (log_records v) < 2 ^ 64" "length (cs_conversion_errors summary) < 2 ^ 64"
  shows "unat (cs_source_records summary) = length (log_records v) \<and> length derived \<le> length (log_records v)
    \<and> unat (cs_derived_captures summary) = length derived
    \<and> unat (cs_attributed_quality_errors summary) = length (filter (is_incomplete_record env) derived)
    \<and> unat (cs_attributed_quality_errors summary)
        \<le> unat (cs_unknown_events summary) + length (cs_conversion_errors summary)"
  by (rule log_attribution [OF assms])

theorem attribution_exact_witness:
  "\<exists>r d. prepare_cloud_ingest example_cloud_env OtlpLogs example_raw 5 = Inr ([r, d], attributed_summary)
    \<and> unat (cs_attributed_quality_errors attributed_summary) = length (filter (is_incomplete_record example_cloud_env) [d])"
proof -
  obtain r d where p: "prepare_cloud_ingest example_cloud_env OtlpLogs example_raw 5 = Inr ([r, d], attributed_summary)"
    by (rule example_prepared)
  have "length (cs_conversion_errors attributed_summary) < 2 ^ 64" "length (log_records (Object example_logs)) < 2 ^ 64"
    unfolding example_log_records by (simp_all add: attributed_summary_def)
  from attribution_exact [OF p example_cloud_codec example_raw_ok(1) this(2,1)] p show ?thesis by blast
qed

lemma all_attributed:
  assumes "prepare_cloud_ingest env OtlpLogs raw m = Inr (r # derived, summary)" "json_codec (ci_parse env) (ci_ser env)"
    and "ci_parse env raw = Some v" "length (log_records v) < 2 ^ 64"
    and "unat (cs_unknown_events summary) + length (cs_conversion_errors summary) < 2 ^ 64"
    and "unattributed_quality_errors summary = 0"
  shows "length (filter (is_incomplete_record env) derived)
    = unat (cs_unknown_events summary) + length (cs_conversion_errors summary)"
proof -
  have e: "length (cs_conversion_errors summary) < 2 ^ 64" using assms(5) by simp
  note a = log_attribution [OF assms(1-4) e]
  have "unat (quality_rejections summary) = unat (cs_unknown_events summary) + length (cs_conversion_errors summary)"
    using assms(5) unat_conversion_count [OF e] by (simp add: quality_rejections_def unat_saturating_add)
  moreover have "unat (quality_rejections summary) \<le> unat (cs_attributed_quality_errors summary)"
    using arg_cong [OF assms(6), of unat] by (simp add: unattributed_quality_errors_def unat_saturating_sub)
  ultimately show ?thesis using a by simp
qed

end
