(* ===== verification/CloudDurable.thy ===== *)
theory CloudDurable
  imports CloudTheorems
begin

text \<open>
  The Relay and the conversion together: what a positive answer to a cloud payload promises.  Then
  payloads on which the properties of the conversion apply.
\<close>

text \<open>
  C28: A positive answer means the telemetry is safe: the Capture that holds the payload's text, and
  every Capture derived from it, is stored under its hash and has a delivery row; its quality errors
  are in the durable counters; and a log upload
  answered 200 has one stored \<open>telemetry_incomplete\<close> Capture for each of its quality errors.
\<close>

theorem telemetry_durable:
  assumes "relay_fits (ce_digest env) (ce_sha env) (rv_relay s)" "all_scheduled (ce_digest env) (rv_relay s)"
    and "json_codec (ci_parse cenv) (ci_ser cenv)" "ce_sha env = ci_sha cenv"
    and "prepare_cloud_ingest cenv ep raw (rc_max_envelope_bytes rcfg) = Inr (r # derived, summary)"
    and "submits_valid (ce_sha env) timing (r # derived)" "no_legacy_retry (ce_digest env) (rl_stores (rv_relay s)) (r # derived)"
    and "relay_accept_cloud env rcfg timing now at ep
           (prepare_cloud_ingest cenv ep raw (rc_max_envelope_bytes rcfg)) s = (answer, s')"
    and "taken answer" "has_room (ce_digest env) (rl_stores (rv_relay s'))"
    and "ci_parse cenv raw = Some v" "length (log_records v) < 2 ^ 64"
      "unat (cs_unknown_events summary) + length (cs_conversion_errors summary) < 2 ^ 64"
  shows "(\<exists>kept. ci_parse cenv (cr_canonical r) = Some kept \<and> ptr_str kept [''telemetryBatch'', ''raw_json''] = Some raw)
    \<and> cr_sha256 r = ce_sha env (cr_canonical r)
    \<and> (\<forall>c \<in> set (r # derived). abs_sharded (ce_digest env) (rl_stores (rv_relay s')) (cr_capture_id c) = Some (cr_sha256 c)
         \<and> (\<exists>row. tget (dd_deliveries (rl_ledger (rv_relay s'))) (cr_capture_id c) = Some row \<and> dr_raw_sha256 row = cr_sha256 c))
    \<and> keep_cloud_quality ep summary (relay_quality s) = Inr (relay_quality s')
    \<and> (ep = OtlpLogs \<longrightarrow> fst answer = 200 \<longrightarrow> length (filter (is_incomplete_record cenv) derived)
         = unat (cs_unknown_events summary) + length (cs_conversion_errors summary))"
proof -
  from assms(5) have r: "normalize_value cenv (batch_capture cenv ep raw summary) (rc_max_envelope_bytes rcfg) = Inr r"
    by (rule prepare_steps) simp
  from cloud_answer_keeps [OF assms(1,2,6,7) assms(8) [unfolded assms(5)] assms(10)] assms(9)
  have kept: "\<forall>c \<in> set (r # derived). abs_sharded (ce_digest env) (rl_stores (rv_relay s')) (cr_capture_id c) = Some (cr_sha256 c)
      \<and> (\<exists>row. tget (dd_deliveries (rl_ledger (rv_relay s'))) (cr_capture_id c) = Some row \<and> dr_raw_sha256 row = cr_sha256 c)"
    and counted: "keep_cloud_quality ep summary (relay_quality s) = Inr (relay_quality s')"
    and ok: "fst answer = 200 \<Longrightarrow> 0 < quality_rejections summary \<Longrightarrow> unattributed_quality_errors summary = 0"
    by blast+
  have "unattributed_quality_errors summary = 0" if "fst answer = 200"
  proof (cases "quality_rejections summary = 0")
    case True
    then show ?thesis by (intro u64_eqI) (simp add: unattributed_quality_errors_def unat_saturating_sub)
  next
    case False
    with ok [OF that] show ?thesis by (simp add: word_gt_0)
  qed
  with all_attributed [OF _ assms(3,11-13)] assms(5) have "ep = OtlpLogs \<longrightarrow> fst answer = 200 \<longrightarrow>
      length (filter (is_incomplete_record cenv) derived) = unat (cs_unknown_events summary) + length (cs_conversion_errors summary)"
    by blast
  with kept counted batch_kept [OF r assms(3)] stored_raw assms(4) show ?thesis by metis
qed

text \<open>The Relay of the example takes the example's payload: one Capture with its text, one for its record.\<close>

theorem telemetry_durable_witness:
  "\<exists>r d body s'. relay_accept_cloud (example_relay_env\<lparr>ce_sha := example_cloud_sha\<rparr>) (example_relay\<lparr>rc_max_envelope_bytes := 5\<rparr>)
      example_timing 5 ''t'' OtlpLogs (prepare_cloud_ingest example_cloud_env OtlpLogs example_raw 5) example_service
        = ((200, body), s')
    \<and> (\<forall>c \<in> {r, d}. abs_sharded example_digest_bytes (rl_stores (rv_relay s')) (cr_capture_id c) = Some (cr_sha256 c))
    \<and> length (filter (is_incomplete_record example_cloud_env) [d]) = 1"
proof -
  let ?env = "example_relay_env\<lparr>ce_sha := example_cloud_sha\<rparr>" and ?rcfg = "example_relay\<lparr>rc_max_envelope_bytes := 5\<rparr>"
  have env: "ce_digest ?env = example_digest_bytes" "ce_sha ?env = example_cloud_sha" "rc_max_envelope_bytes ?rcfg = 5"
    by (simp_all add: example_relay_env_def)
  obtain r d where p: "prepare_cloud_ingest example_cloud_env OtlpLogs example_raw 5 = Inr ([r, d], attributed_summary)"
    "cr_capture_id r = example_batch_id" "cr_capture_id d = ''cap-cloud-'' @ example_event_digest" "hashed example_cloud_sha [r, d]"
    by (rule example_prepared)
  have rs: "no_alias [r, d]" "distinct (map cr_capture_id [r, d])" "length [r, d] + 1 < 2 ^ 64"
    using example_batch_apart p(2,3) by (simp_all add: no_alias_def)
  obtain body s' where u: "relay_accept_cloud ?env ?rcfg example_timing 5 ''t'' OtlpLogs (Inr ([r, d], attributed_summary))
      example_service = ((200, body), s')"
    "has_room example_digest_bytes (rl_stores (rv_relay s'))" "relay_fits example_digest_bytes example_cloud_sha (rv_relay example_service)"
    "all_scheduled example_digest_bytes (rv_relay example_service)" "submits_valid example_cloud_sha example_timing [r, d]"
    "no_legacy_retry example_digest_bytes (rl_stores (rv_relay example_service)) [r, d]"
    by (rule example_upload [of ?env, unfolded env(1,2), OF refl p(4) rs])
  note a = u(1) [folded p(1)]
  have n: "length (log_records (Object example_logs)) < 2 ^ 64" "taken (200, body)"
    "unat (cs_unknown_events attributed_summary) + length (cs_conversion_errors attributed_summary) = 1"
    unfolding example_log_records by (simp_all add: taken_def attributed_summary_def)
  from telemetry_durable [where env = ?env and rcfg = ?rcfg and cenv = example_cloud_env and s = example_service, unfolded env,
      OF u(3,4) example_cloud_codec _ p(1) u(5,6) a n(2) u(2) example_raw_ok(1) n(1)] n(3)
  have "\<forall>c \<in> {r, d}. abs_sharded example_digest_bytes (rl_stores (rv_relay s')) (cr_capture_id c) = Some (cr_sha256 c)"
    "length (filter (is_incomplete_record example_cloud_env) [d]) = 1"
    by simp_all
  with a show ?thesis by blast
qed

end
