(* ===== verification/DeliveryPool.thy ===== *)
theory DeliveryPool
  imports DeliveryWorker
begin

text \<open>
  The delivery tasks of the Relay (\<open>relay.rs\<close>, \<open>spawn_workers\<close>): several workers and a reaper run
  concurrently with the handlers that enqueue and requeue Captures.  What they share is behind two
  locks (the ledger and the set of scheduled ids) and in the queue, so the tasks interleave between
  those accesses and a step of the pool is one of them.  The clock readings, the answers of the
  Collector, the reads, their order and the end of a batch's wait are open in every step.
\<close>

section \<open>The state\<close>

text \<open>A worker between two accesses to the shared state, with the ids of its batch.\<close>

datatype worker =
    Idle
  | Collecting "string list"
  | Sending "string list" "delivery_record list"
  | Reporting "string list" "delivery_update list"
  | Forgetting "string list"
  | WorkerStopped

datatype reaper =
    Waiting
  | Unscheduling "string list"
  | Requeueing "string list"
  | Queueing "string list"
  | ReaperStopped

record delivery_pool =
  pl_ledger :: delivery_db
  pl_schedule :: delivery_schedule
  pl_workers :: "worker list"
  pl_reaper :: reaper
  pl_shutdown :: bool

definition spawn_workers :: "relay_config \<Rightarrow> delivery_db \<Rightarrow> delivery_schedule \<Rightarrow> delivery_pool" where
  "spawn_workers cfg db s =
     \<lparr>pl_ledger = db, pl_schedule = s, pl_workers = replicate (rc_delivery_concurrency cfg) Idle,
      pl_reaper = Waiting, pl_shutdown = False\<rparr>"

text \<open>The ids of a worker's batch, and the Captures it has claimed and not yet reported.\<close>

fun in_hand :: "worker \<Rightarrow> string list" where
  "in_hand (Collecting b) = b"
| "in_hand (Sending b rs) = b"
| "in_hand (Reporting b us) = b"
| "in_hand (Forgetting b) = b"
| "in_hand _ = []"

fun working :: "worker \<Rightarrow> string set" where
  "working (Sending b rs) = dr_capture_id ` set rs"
| "working (Reporting b us) = du_capture_id ` set us"
| "working _ = {}"


section \<open>The accesses\<close>

definition set_worker :: "nat \<Rightarrow> worker \<Rightarrow> delivery_pool \<Rightarrow> delivery_pool" where
  "set_worker i w p = p\<lparr>pl_workers := (pl_workers p)[i := w]\<rparr>"

definition is_worker :: "delivery_pool \<Rightarrow> nat \<Rightarrow> worker \<Rightarrow> bool" where
  "is_worker p i w \<longleftrightarrow> i < length (pl_workers p) \<and> pl_workers p ! i = w"

text \<open>Receiving the first id of the queue.\<close>

definition take_queued :: "delivery_pool \<Rightarrow> (string \<times> delivery_pool) option" where
  "take_queued p =
     (case ds_queue (pl_schedule p) of
        [] \<Rightarrow> None
      | c # q \<Rightarrow> Some (c, p\<lparr>pl_schedule := (pl_schedule p)\<lparr>ds_queue := q\<rparr>\<rparr>))"

text \<open>The first transaction of \<open>deliver_many\<close>; when it fails or claims nothing the batch is over.\<close>

definition claim_batch :: "relay_config \<Rightarrow> u64 \<Rightarrow> string \<Rightarrow> string list \<Rightarrow> delivery_db \<Rightarrow> worker \<times> delivery_db" where
  "claim_batch cfg now stamp b db =
     (case claim_many now stamp b (lease_duration cfg) db of
        Inl e \<Rightarrow> (Forgetting b, db)
      | Inr (rs, db) \<Rightarrow> (if rs = [] then Forgetting b else Sending b rs, db))"

text \<open>Its body between the transactions: the updates of the claimed records, in the order they load.\<close>

definition batch_updates ::
  "(string \<Rightarrow> string \<Rightarrow> http_result) \<Rightarrow> (nat \<Rightarrow> string) \<Rightarrow> (string \<Rightarrow> string + string) \<Rightarrow> relay_config
     \<Rightarrow> delivery_record list \<Rightarrow> delivery_update list" where
  "batch_updates post show_status read cfg rs =
     deliver_loop (send_delivery_batch post cfg show_status) (retry_update cfg) (rc_delivery_batch_bytes cfg)
       (map (\<lambda>r. (r, load_delivery_payload read cfg r)) rs)"

text \<open>The second transaction; a worker only logs its failure.\<close>

definition report_batch :: "u64 \<Rightarrow> string \<Rightarrow> delivery_update list \<Rightarrow> delivery_db \<Rightarrow> delivery_db" where
  "report_batch now stamp us db = (case finish_many now stamp us db of Inl e \<Rightarrow> db | Inr db \<Rightarrow> db)"

text \<open>The transactions of the reaper, which takes an error for an empty list.\<close>

definition reclaim_leases :: "relay_config \<Rightarrow> u64 \<Rightarrow> delivery_db \<Rightarrow> string list \<times> delivery_db" where
  "reclaim_leases cfg now db =
     (case reclaim_expired_inflight now (rc_delivery_queue_items cfg) db of Inl e \<Rightarrow> ([], db) | Inr r \<Rightarrow> r)"

definition due_captures :: "relay_config \<Rightarrow> u64 \<Rightarrow> delivery_db \<Rightarrow> string list" where
  "due_captures cfg now db =
     (case pending_ids now (rc_delivery_queue_items cfg) db of Inl e \<Rightarrow> [] | Inr ids \<Rightarrow> ids)"

text \<open>Offering an id to the queue, which is closed once every worker, and with it every receiver, is gone.\<close>

definition offer :: "relay_config \<Rightarrow> string \<Rightarrow> delivery_pool \<Rightarrow> bool \<times> delivery_schedule" where
  "offer cfg c p =
     (if list_all ((=) WorkerStopped) (pl_workers p) then (c \<in> set (ds_scheduled (pl_schedule p)), pl_schedule p)
      else queue_capture cfg c (pl_schedule p))"

text \<open>One id of a list that is offered until the queue refuses: what is left of the list.\<close>

definition push_one :: "relay_config \<Rightarrow> string \<Rightarrow> string list \<Rightarrow> delivery_pool \<Rightarrow> string list \<times> delivery_schedule" where
  "push_one cfg c ids p = (case offer cfg c p of (ok, s) \<Rightarrow> (if ok then ids else [], s))"


section \<open>Steps and runs\<close>

text \<open>
  \<open>pool_step cfg p expired p'\<close>: one access leads from \<open>p\<close> to \<open>p'\<close> and takes the leases of
  \<open>expired\<close> away.  The first rules are the workers', then the reaper's, then the handlers'.  The
  ledger never comes near \<open>2^64\<close> rows.
\<close>

inductive pool_step :: "relay_config \<Rightarrow> delivery_pool \<Rightarrow> string list \<Rightarrow> delivery_pool \<Rightarrow> bool" for cfg where
  receive: "is_worker p i Idle \<Longrightarrow> take_queued p = Some (c, p') \<Longrightarrow>
    pool_step cfg p [] (set_worker i (Collecting [c]) p')"
| collect_more: "is_worker p i (Collecting b) \<Longrightarrow> length b < rc_delivery_batch_records cfg \<Longrightarrow> take_queued p = Some (c, p') \<Longrightarrow>
    pool_step cfg p [] (set_worker i (Collecting (b @ [c])) p')"
| claim: "is_worker p i (Collecting b) \<Longrightarrow> claim_batch cfg now stamp b (pl_ledger p) = (w, db) \<Longrightarrow>
    pool_step cfg p [] (set_worker i w (p\<lparr>pl_ledger := db\<rparr>))"
| send: "is_worker p i (Sending b rs) \<Longrightarrow> mset loaded = mset rs \<Longrightarrow>
    pool_step cfg p [] (set_worker i (Reporting b (batch_updates post show_status read cfg loaded)) p)"
| report: "is_worker p i (Reporting b us) \<Longrightarrow>
    pool_step cfg p [] (set_worker i (Forgetting b) (p\<lparr>pl_ledger := report_batch now stamp us (pl_ledger p)\<rparr>))"
| forget: "is_worker p i (Forgetting b) \<Longrightarrow>
    pool_step cfg p [] (set_worker i Idle (p\<lparr>pl_schedule := forget_batch b (pl_schedule p)\<rparr>))"
| stop: "is_worker p i Idle \<Longrightarrow> pl_shutdown p \<Longrightarrow> pool_step cfg p [] (set_worker i WorkerStopped p)"
| reclaim: "pl_reaper p = Waiting \<Longrightarrow> rc_delivery_queue_items cfg \<noteq> 0 \<Longrightarrow>
    reclaim_leases cfg now (pl_ledger p) = (ids, db) \<Longrightarrow>
    pool_step cfg p ids (p\<lparr>pl_ledger := db, pl_reaper := Unscheduling ids\<rparr>)"
| unschedule: "pl_reaper p = Unscheduling ids \<Longrightarrow>
    pool_step cfg p [] (p\<lparr>pl_schedule := forget_batch ids (pl_schedule p), pl_reaper := Requeueing ids\<rparr>)"
| requeue_one: "pl_reaper p = Requeueing (c # ids) \<Longrightarrow> push_one cfg c ids p = (rest, s) \<Longrightarrow>
    pool_step cfg p [] (p\<lparr>pl_schedule := s, pl_reaper := Requeueing rest\<rparr>)"
| scan: "pl_reaper p = Requeueing [] \<Longrightarrow>
    pool_step cfg p [] (p\<lparr>pl_reaper := Queueing (due_captures cfg now (pl_ledger p))\<rparr>)"
| queue_one: "pl_reaper p = Queueing (c # ids) \<Longrightarrow> push_one cfg c ids p = (rest, s) \<Longrightarrow>
    pool_step cfg p [] (p\<lparr>pl_schedule := s, pl_reaper := Queueing rest\<rparr>)"
| rest: "pl_reaper p = Queueing [] \<Longrightarrow> pool_step cfg p [] (p\<lparr>pl_reaper := Waiting\<rparr>)"
| stop_reaper: "pl_reaper p = Waiting \<Longrightarrow> pl_shutdown p \<Longrightarrow> pool_step cfg p [] (p\<lparr>pl_reaper := ReaperStopped\<rparr>)"
| ensure: "ensure_many ls (pl_ledger p) = Inr (n, db) \<Longrightarrow> length (dd_deliveries (pl_ledger p)) + length ls < 2 ^ 64 \<Longrightarrow>
    pool_step cfg p [] (p\<lparr>pl_ledger := db\<rparr>)"
| requeue: "requeue_failed now ids reason (pl_ledger p) = Inr (out, db) \<Longrightarrow> pool_step cfg p [] (p\<lparr>pl_ledger := db\<rparr>)"
| account: "pool_step cfg p [] (p\<lparr>pl_ledger := (pl_ledger p)\<lparr>dd_quality := q\<rparr>\<rparr>)"
| queue: "pool_step cfg p [] (p\<lparr>pl_schedule := snd (offer cfg c p)\<rparr>)"
| close: "pool_step cfg p [] (p\<lparr>pl_shutdown := True\<rparr>)"

text \<open>The pools reachable from a pool, with the Captures whose lease was taken away on the way.\<close>

inductive pool_run :: "relay_config \<Rightarrow> delivery_pool \<Rightarrow> string set \<Rightarrow> delivery_pool \<Rightarrow> bool" for cfg start where
  run_start: "pool_run cfg start {} start"
| run_step: "pool_run cfg start expired p \<Longrightarrow> pool_step cfg p ids p' \<Longrightarrow> pool_run cfg start (expired \<union> set ids) p'"

end
