(* ===== verification/PoolTheorems.thy ===== *)
theory PoolTheorems
  imports DeliveryPool ServiceTheorems
begin

text \<open>
  The delivery tasks together: however workers, reaper and handlers interleave, no two workers send
  the same Capture and a delivered one stays delivered, unless its lease ran out; and no id stays
  scheduled that nobody will deliver.
\<close>

section \<open>What a transaction does to the states of the rows\<close>

definition row_state :: "delivery_db \<Rightarrow> string \<Rightarrow> string option" where
  "row_state db c = map_option dr_state (tget (dd_deliveries db) c)"

text \<open>No row goes, and a leased or a delivered one keeps its state.\<close>

definition quiet :: "delivery_db \<Rightarrow> delivery_db \<Rightarrow> bool" where
  "quiet db db' \<longleftrightarrow>
     (\<forall>c. row_state db c \<noteq> None \<longrightarrow> row_state db' c \<noteq> None
        \<and> (row_state db c \<in> {Some ''inflight'', Some ''delivered''} \<longrightarrow> row_state db' c = row_state db c))"

lemma quiet_refl: "quiet db db"
  by (simp add: quiet_def)

lemma quiet_trans: "quiet db db' \<Longrightarrow> quiet db' db'' \<Longrightarrow> quiet db db''"
  by (auto simp: quiet_def)

lemma ensure_quiet:
  assumes "ensure_many ls db = Inr (n, db')"
  shows "quiet db db'"
proof -
  have one: "quiet (fst s) (fst t)" if "ensure_one l s = Inr t" for l s t
    using that by (cases s; cases t) (auto simp: ensure_one_def quiet_def row_state_def split: option.splits if_splits)
  from assms obtain c d e m where f: "try_fold ensure_one ls (db, c, 0) = Inr (d, e, m)" "db' = write_delivery_counters e d"
    by (auto simp: ensure_many_def res_simps)
  have "quiet db (fst (d, e, m))"
    by (rule try_fold_invariant [where I = "\<lambda>s. quiet db (fst s)", OF f(1)]) (auto simp: quiet_refl dest: one intro: quiet_trans)
  then show ?thesis by (simp add: f(2) quiet_def row_state_def write_delivery_counters_def)
qed

lemma requeue_quiet:
  assumes "delivery_ok db" "requeue_failed now ids reason db = Inr (out, db')"
  shows "quiet db db'"
proof -
  from requeue_failed_exact [OF assms(1), of now ids reason] assms(2)
  have "set out \<subseteq> {i. failed_row db i}" "tget (dd_deliveries db') = requeued_rows now reason (set out) db" by auto
  then show ?thesis
    by (auto simp: quiet_def row_state_def requeued_rows_def failed_row_def split: option.splits)
qed

lemma claim_states:
  assumes "delivery_ok db" "claim_many now stamp ids lease db = Inr (rs, db')"
  shows "delivery_ok db'" "quiet db db'" "distinct (map dr_capture_id rs)"
    and "\<And>c. c \<in> dr_capture_id ` set rs \<Longrightarrow> row_state db c = Some ''pending'' \<and> row_state db' c = Some ''inflight''"
proof -
  note sp = claim_many_spec [OF assms]
  then have took: "dr_capture_id ` set rs = {i \<in> set ids. claimable now db i}" "distinct (map dr_capture_id rs)" by blast+
  from sp have get: "tget (dd_deliveries db') i = (if i \<in> set ids \<and> claimable now db i
      then map_option (claimed_record now stamp lease) (tget (dd_deliveries db) i) else tget (dd_deliveries db) i)" for i
    by (elim conjE) (rule spec)
  show "delivery_ok db'" by (rule claim_many_ok [OF assms])
  show "quiet db db'" by (auto simp: quiet_def row_state_def get claimable_eq)
  show "distinct (map dr_capture_id rs)" by (rule took(2))
  show "row_state db c = Some ''pending'' \<and> row_state db' c = Some ''inflight''" if "c \<in> dr_capture_id ` set rs" for c
    using that unfolding took(1) by (auto simp: row_state_def get claimable_eq)
qed

lemma finish_states:
  assumes "delivery_ok db" "distinct (map du_capture_id us)" "\<forall>u \<in> set us. du_state u \<in> set final_states"
    and "\<forall>c \<in> du_capture_id ` set us. row_state db c \<noteq> None"
  obtains db' where "finish_many now stamp us db = Inr db'" "delivery_ok db'"
    "\<And>c. row_state db' c = None \<longleftrightarrow> row_state db c = None"
    "\<And>c. c \<notin> du_capture_id ` set us \<Longrightarrow> row_state db' c = row_state db c"
proof -
  have rows: "\<forall>u \<in> set us. tget (dd_deliveries db) (du_capture_id u) \<noteq> None" using assms(4) by (auto simp: row_state_def)
  from finish_many_spec [OF assms(1-3) rows, of now stamp] obtain db' where
    f: "finish_many now stamp us db = Inr db'" "delivery_ok db'"
    "\<forall>i. i \<notin> du_capture_id ` set us \<longrightarrow> tget (dd_deliveries db') i = tget (dd_deliveries db) i"
    "\<forall>u \<in> set us. tget (dd_deliveries db') (du_capture_id u)
       = map_option (finished_record now stamp u) (tget (dd_deliveries db) (du_capture_id u))"
    by (elim exE conjE)
  from f(3) have other: "row_state db' c = row_state db c" if "c \<notin> du_capture_id ` set us" for c
    using that by (simp add: row_state_def)
  have "row_state db' c = None \<longleftrightarrow> row_state db c = None" for c
    using other [of c] f(4) by (cases "c \<in> du_capture_id ` set us") (auto simp: row_state_def)
  with that f(1,2) other show thesis by blast
qed

lemma reclaim_states:
  assumes "delivery_ok db" "reclaim_leases cfg now db = (ids, db')"
  shows "delivery_ok db'" "\<And>c. row_state db' c = None \<longleftrightarrow> row_state db c = None"
    and "\<And>c. c \<notin> set ids \<Longrightarrow> row_state db' c = row_state db c"
    and "\<And>c. c \<in> set ids \<Longrightarrow> row_state db c = Some ''inflight''"
proof -
  let ?limit = "rc_delivery_queue_items cfg" and ?why = "''delivery lease expired; retry scheduled''"
  let ?rows = "expired_rows now ?limit db"
  obtain c where c: "read_delivery_counters db = Inr c" "body_ok db c" by (rule delivery_ok_read [OF assms(1)])
  note e = expired_rows_leased [OF body_ok_tables [OF c(2)], where now = now and limit = ?limit]
  have l: "\<forall>row \<in> set ?rows. leased db row" using e(2) by blast
  note released = release_all [OF c(2) e(1) l, where why = ?why]
  have none: "?limit = 0 \<Longrightarrow> ?rows = []" by (simp add: expired_rows_def)
  have d: "ids = map snd ?rows" "dd_deliveries db' = dd_deliveries (fold (release_one ?why) ?rows db)"
    using assms(2) none by (cases "?limit = 0"; auto simp: reclaim_leases_def reclaim_expired_inflight_def [of now 0]
        reclaim_eq [OF assms(1) _ c(1)] Let_def write_delivery_counters_def)+
  show "delivery_ok db'"
  proof (cases "reclaim_expired_inflight now ?limit db")
    case (Inl x)
    with assms show ?thesis by (simp add: reclaim_leases_def)
  next
    case (Inr x)
    with assms reclaim_ok [OF assms(1), of now ?limit "fst x" "snd x"] show ?thesis by (simp add: reclaim_leases_def)
  qed
  have get: "row_state db' i = (if i \<in> set ids then map_option (\<lambda>_. ''pending'') (row_state db i) else row_state db i)" for i
    using released unfolding row_state_def d by (auto simp: option.map_comp comp_def)
  show "row_state db' i = None \<longleftrightarrow> row_state db i = None" for i by (simp add: get)
  show "row_state db' i = row_state db i" if "i \<notin> set ids" for i using that by (simp add: get)
  show "row_state db i = Some ''inflight''" if i: "i \<in> set ids" for i
  proof -
    from i obtain key where "(key, i) \<in> set ?rows" unfolding d by auto
    with l have "leased db (key, i)" by blast
    then show ?thesis by (rule leased_row [OF body_ok_tables [OF c(2)]]) (simp add: row_state_def)
  qed
qed


section \<open>Who works on which Capture\<close>

text \<open>What a worker that claimed records can rely on, as long as their leases are not taken away.\<close>

fun batch_sound :: "worker \<Rightarrow> bool" where
  "batch_sound (Sending b rs) = distinct (map dr_capture_id rs)"
| "batch_sound (Reporting b us) = (distinct (map du_capture_id us) \<and> (\<forall>u \<in> set us. du_state u \<in> set final_states))"
| "batch_sound _ = True"

definition holds_leases :: "delivery_db \<Rightarrow> string set \<Rightarrow> worker \<Rightarrow> bool" where
  "holds_leases db expired w \<longleftrightarrow>
     (\<forall>c \<in> working w. row_state db c \<noteq> None \<and> (c \<notin> expired \<longrightarrow> row_state db c = Some ''inflight''))"

definition workers_apart :: "string set \<Rightarrow> worker list \<Rightarrow> bool" where
  "workers_apart expired ws \<longleftrightarrow>
     (\<forall>i < length ws. \<forall>j < length ws. i \<noteq> j \<longrightarrow> working (ws ! i) \<inter> working (ws ! j) \<subseteq> expired)"

definition pool_ok :: "string set \<Rightarrow> delivery_pool \<Rightarrow> bool" where
  "pool_ok expired p \<longleftrightarrow> delivery_ok (pl_ledger p) \<and> workers_apart expired (pl_workers p)
     \<and> (\<forall>w \<in> set (pl_workers p). batch_sound w \<and> holds_leases (pl_ledger p) expired w)"

lemma set_worker_simps [simp]:
  "pl_workers (set_worker i w p) = (pl_workers p)[i := w]" "pl_ledger (set_worker i w p) = pl_ledger p"
  "pl_schedule (set_worker i w p) = pl_schedule p" "pl_reaper (set_worker i w p) = pl_reaper p"
  "pl_shutdown (set_worker i w p) = pl_shutdown p"
  by (simp_all add: set_worker_def)

lemma is_worker_set: "is_worker p i w \<Longrightarrow> w \<in> set (pl_workers p)"
  by (auto simp: is_worker_def)

lemma take_queued_simps:
  assumes "take_queued p = Some (c, p')"
  shows "pl_workers p' = pl_workers p" "pl_ledger p' = pl_ledger p" "pl_reaper p' = pl_reaper p" "pl_shutdown p' = pl_shutdown p"
    and "ds_queue (pl_schedule p) = c # ds_queue (pl_schedule p')"
    "ds_scheduled (pl_schedule p') = ds_scheduled (pl_schedule p)"
  using assms by (auto simp: take_queued_def split: list.splits)

lemma holds_leases_quiet: "quiet db db' \<Longrightarrow> holds_leases db expired w \<Longrightarrow> holds_leases db' expired w"
  by (auto simp: holds_leases_def quiet_def)

lemma holds_leases_move:
  assumes "holds_leases db expired w" "\<And>c. row_state db' c = None \<longleftrightarrow> row_state db c = None"
    and "\<And>c. c \<in> working w \<Longrightarrow> c \<notin> expired' \<Longrightarrow> row_state db' c = row_state db c" "expired \<subseteq> expired'"
  shows "holds_leases db' expired' w"
  unfolding holds_leases_def
proof (intro ballI conjI impI)
  fix c assume c: "c \<in> working w"
  with assms(1) have r: "row_state db c \<noteq> None" "c \<notin> expired \<longrightarrow> row_state db c = Some ''inflight''"
    unfolding holds_leases_def by blast+
  from r(1) assms(2) show "row_state db' c \<noteq> None" by simp
  assume "c \<notin> expired'"
  with r(2) assms(3) [OF c] assms(4) show "row_state db' c = Some ''inflight''" by auto
qed

lemma workers_apartD:
  assumes "workers_apart expired (pl_workers p)" "is_worker p i w" "j < length (pl_workers p)" "j \<noteq> i"
  shows "working w \<inter> working (pl_workers p ! j) \<subseteq> expired"
  using assms by (auto simp: workers_apart_def is_worker_def)

lemma workers_apart_grow: "workers_apart expired ws \<Longrightarrow> workers_apart (expired \<union> new) ws"
  unfolding workers_apart_def by (meson Un_upper1 subset_trans)

lemma workers_apart_update:
  assumes "workers_apart expired ws" "i < length ws"
    and "\<And>j. j < length ws \<Longrightarrow> j \<noteq> i \<Longrightarrow> working w \<inter> working (ws ! j) \<subseteq> expired"
  shows "workers_apart expired (ws[i := w])"
  using assms unfolding workers_apart_def by (simp add: nth_list_update Int_commute)

lemma workers_apart_less:
  assumes "workers_apart expired (pl_workers p)" "is_worker p i v" "working w \<subseteq> working v"
  shows "workers_apart expired ((pl_workers p)[i := w])"
proof (rule workers_apart_update [OF assms(1)])
  show "i < length (pl_workers p)" using assms(2) by (simp add: is_worker_def)
  fix j assume "j < length (pl_workers p)" "j \<noteq> i"
  from workers_apartD [OF assms(1,2) this] assms(3) show "working w \<inter> working (pl_workers p ! j) \<subseteq> expired" by blast
qed

lemma updated_worker: "x \<in> set (ws[i := w]) \<Longrightarrow> x \<in> set ws \<or> x = w"
  using set_update_subset_insert [of ws i w] by blast

text \<open>A worker gives up its claims, or keeps them, while the ledger changes quietly.\<close>

lemma pool_ok_worker:
  assumes "pool_ok expired p" "is_worker p i v" "working w \<subseteq> working v" "batch_sound w"
    and "delivery_ok db'" "quiet (pl_ledger p) db'" "pl_ledger q = db'" "pl_workers q = (pl_workers p)[i := w]"
  shows "pool_ok expired q"
proof -
  note ok = assms(1) [unfolded pool_ok_def]
  have "holds_leases (pl_ledger p) expired w"
    using ok is_worker_set [OF assms(2)] assms(3) by (auto simp: holds_leases_def)
  then have "batch_sound x \<and> holds_leases db' expired x" if "x \<in> set ((pl_workers p)[i := w])" for x
    using updated_worker [OF that] ok assms(4) holds_leases_quiet [OF assms(6)] by blast
  moreover have "workers_apart expired ((pl_workers p)[i := w])"
    using ok workers_apart_less [OF _ assms(2,3)] by blast
  ultimately show ?thesis using assms(5,7,8) by (simp add: pool_ok_def)
qed

lemma pool_ok_same:
  assumes "pool_ok expired p" "is_worker p i v" "working w \<subseteq> working v" "batch_sound w"
    and "pl_ledger q = pl_ledger p" "pl_workers q = (pl_workers p)[i := w]"
  shows "pool_ok expired q"
  by (rule pool_ok_worker [OF assms(1-4) _ quiet_refl assms(5,6)]) (use assms(1) in \<open>simp add: pool_ok_def\<close>)

lemma pool_ok_quiet:
  assumes "pool_ok expired p" "delivery_ok (pl_ledger q)" "quiet (pl_ledger p) (pl_ledger q)" "pl_workers q = pl_workers p"
  shows "pool_ok expired q"
  using assms holds_leases_quiet [OF assms(3)] by (auto simp: pool_ok_def)

lemma pool_ok_claim:
  assumes "pool_ok expired p" "is_worker p i (Collecting b)" "claim_batch cfg now stamp b (pl_ledger p) = (w, db')"
  shows "pool_ok expired (set_worker i w (p\<lparr>pl_ledger := db'\<rparr>))"
proof (cases "claim_many now stamp b (lease_duration cfg) (pl_ledger p)")
  case (Inl e)
  with assms(3) have "w = Forgetting b" "db' = pl_ledger p" by (simp_all add: claim_batch_def)
  then show ?thesis
    by (intro pool_ok_same [OF assms(1,2)]) simp_all
next
  case (Inr x)
  obtain rs where x: "x = (rs, db')" and w: "w = (if rs = [] then Forgetting b else Sending b rs)"
    using assms(3) Inr by (cases x) (auto simp: claim_batch_def)
  note ok = assms(1) [unfolded pool_ok_def]
  note cl = claim_states [OF conjunct1 [OF ok] Inr [unfolded x]]
  have mine: "working w = dr_capture_id ` set rs" by (simp add: w)
  have i: "i < length (pl_workers p)" using assms(2) by (simp add: is_worker_def)
  have apart: "workers_apart expired ((pl_workers p)[i := w])"
  proof (rule workers_apart_update [OF _ i])
    show "workers_apart expired (pl_workers p)" using ok by blast
    fix j assume "j < length (pl_workers p)" "j \<noteq> i"
    then have "holds_leases (pl_ledger p) expired (pl_workers p ! j)" using ok by simp
    then show "working w \<inter> working (pl_workers p ! j) \<subseteq> expired"
      using cl(4) unfolding mine holds_leases_def by fastforce
  qed
  have new: "batch_sound w \<and> holds_leases db' expired w"
    using cl(3,4) mine by (auto simp: w holds_leases_def)
  then have "batch_sound x \<and> holds_leases db' expired x" if "x \<in> set ((pl_workers p)[i := w])" for x
    using updated_worker [OF that] ok holds_leases_quiet [OF cl(2)] by blast
  with cl(1) apart show ?thesis by (simp add: pool_ok_def)
qed

text \<open>A report is always accepted, and touches the rows of its own Captures only.\<close>

lemma report_accepted:
  assumes "pool_ok expired p" "is_worker p i (Reporting b us)"
  obtains db' where "finish_many now stamp us (pl_ledger p) = Inr db'" "delivery_ok db'"
    "\<And>c. row_state db' c = None \<longleftrightarrow> row_state (pl_ledger p) c = None"
    "\<And>c. c \<notin> du_capture_id ` set us \<Longrightarrow> row_state db' c = row_state (pl_ledger p) c"
proof -
  have "batch_sound (Reporting b us)" "holds_leases (pl_ledger p) expired (Reporting b us)" "delivery_ok (pl_ledger p)"
    using assms(1) is_worker_set [OF assms(2)] unfolding pool_ok_def by blast+
  then show thesis
    using finish_states [of "pl_ledger p" us now stamp thesis] that by (auto simp: holds_leases_def)
qed

lemma pool_ok_report:
  assumes "pool_ok expired p" "is_worker p i (Reporting b us)"
  shows "pool_ok expired (set_worker i (Forgetting b) (p\<lparr>pl_ledger := report_batch now stamp us (pl_ledger p)\<rparr>))"
proof -
  obtain db' where f: "finish_many now stamp us (pl_ledger p) = Inr db'" "delivery_ok db'"
    "\<And>c. row_state db' c = None \<longleftrightarrow> row_state (pl_ledger p) c = None"
    "\<And>c. c \<notin> du_capture_id ` set us \<Longrightarrow> row_state db' c = row_state (pl_ledger p) c"
    by (rule report_accepted [OF assms, where now = now and stamp = stamp], blast)
  note ok = assms(1) [unfolded pool_ok_def]
  have other: "holds_leases db' expired (pl_workers p ! j)" if j: "j < length (pl_workers p)" "j \<noteq> i" for j
  proof -
    have "working (Reporting b us) \<inter> working (pl_workers p ! j) \<subseteq> expired"
      by (rule workers_apartD [OF _ assms(2) j]) (use ok in blast)
    then have free: "c \<notin> du_capture_id ` set us" if "c \<in> working (pl_workers p ! j)" "c \<notin> expired" for c
      using that by auto
    have "holds_leases (pl_ledger p) expired (pl_workers p ! j)" using ok j by simp
    then show ?thesis
      by (rule holds_leases_move) (use f(3,4) free in simp_all)
  qed
  have "batch_sound w \<and> holds_leases db' expired w" if w: "w \<in> set ((pl_workers p)[i := Forgetting b])" for w
  proof -
    from w obtain j where j: "j < length (pl_workers p)" "w = (pl_workers p)[i := Forgetting b] ! j"
      by (auto simp: in_set_conv_nth)
    then show ?thesis
      using other [of j] ok by (cases "j = i") (simp_all add: holds_leases_def)
  qed
  moreover have "workers_apart expired ((pl_workers p)[i := Forgetting b])"
    by (rule workers_apart_less [OF _ assms(2)]) (use ok in simp_all)
  ultimately show ?thesis using f(1,2) by (simp add: pool_ok_def report_batch_def)
qed

lemma pool_ok_reclaim:
  assumes "pool_ok expired p" "reclaim_leases cfg now (pl_ledger p) = (ids, db')"
  shows "pool_ok (expired \<union> set ids) (p\<lparr>pl_ledger := db', pl_reaper := r\<rparr>)"
proof -
  note ok = assms(1) [unfolded pool_ok_def]
  note rc = reclaim_states [OF conjunct1 [OF ok] assms(2)]
  have "holds_leases db' (expired \<union> set ids) w" if "w \<in> set (pl_workers p)" for w
    by (rule holds_leases_move [of "pl_ledger p" expired]) (use ok that rc(2,3) in auto)
  moreover have "workers_apart (expired \<union> set ids) (pl_workers p)"
    by (rule workers_apart_grow) (use ok in blast)
  ultimately show ?thesis using ok rc(1) by (simp add: pool_ok_def)
qed

lemma send_sound:
  assumes "mset loaded = mset rs" "batch_sound (Sending b rs)"
  shows "batch_sound (Reporting b (batch_updates post show_status read cfg loaded))"
    and "working (Reporting b (batch_updates post show_status read cfg loaded)) = working (Sending b rs)"
proof -
  let ?us = "batch_updates post show_status read cfg loaded"
  have us: "?us = worker_updates post show_status read cfg loaded" by (simp add: batch_updates_def worker_updates_def)
  have ids: "mset (map du_capture_id ?us) = mset (map dr_capture_id rs)"
    using worker_updates_ids [of post show_status read cfg loaded] assms(1) by (simp add: us)
  with assms(2) have "distinct (map du_capture_id ?us)" by (metis batch_sound.simps(1) mset_eq_imp_distinct_iff)
  moreover have "du_state u \<in> set final_states" if "u \<in> set ?us" for u
    using that worker_updates_states unfolding us by blast
  ultimately show "batch_sound (Reporting b ?us)" by simp
  show "working (Reporting b ?us) = working (Sending b rs)" using arg_cong [OF ids, of set_mset] by simp
qed

lemma pool_step_ok:
  assumes "pool_step cfg p ids q" "pool_ok expired p"
  shows "pool_ok (expired \<union> set ids) q"
  using assms(1)
proof cases
  case (receive i c p')
  show ?thesis by (rule pool_ok_same [OF _ receive(3), of _ "Collecting [c]"]) (use receive assms(2) in \<open>simp_all add: take_queued_simps\<close>)
next
  case (collect_more i b c p')
  show ?thesis
    by (rule pool_ok_same [OF _ collect_more(3), of _ "Collecting (b @ [c])"]) (use collect_more assms(2) in \<open>simp_all add: take_queued_simps\<close>)
next
  case (claim i b now stamp w db)
  with pool_ok_claim [OF assms(2)] show ?thesis by simp
next
  case (send i b rs loaded post show_status read)
  then have "batch_sound (Sending b rs)" using assms(2) is_worker_set unfolding pool_ok_def by blast
  note sent = send_sound [OF send(4) this, of post show_status read cfg]
  show ?thesis
    by (rule pool_ok_same [OF _ send(3) _ sent(1)]) (use send(1,2) assms(2) sent(2) in \<open>simp_all del: working.simps\<close>)
next
  case (report i b us now stamp)
  with pool_ok_report [OF assms(2)] show ?thesis by simp
next
  case (forget i b)
  show ?thesis by (rule pool_ok_same [OF _ forget(3), of _ Idle]) (use forget assms(2) in simp_all)
next
  case (stop i)
  show ?thesis by (rule pool_ok_same [OF _ stop(3), of _ WorkerStopped]) (use stop assms(2) in simp_all)
next
  case (reclaim now db)
  with pool_ok_reclaim [OF assms(2)] show ?thesis by simp
next
  case (ensure ls n db)
  with assms(2) have "delivery_ok db" "quiet (pl_ledger p) db"
    using ensure_many_ok ensure_quiet by (auto simp: pool_ok_def)
  with ensure show ?thesis using pool_ok_quiet [OF assms(2), of q] by simp
next
  case (requeue now names reason out db)
  with assms(2) have "delivery_ok db" "quiet (pl_ledger p) db"
    using requeue_failed_ok requeue_quiet by (auto simp: pool_ok_def)
  with requeue show ?thesis using pool_ok_quiet [OF assms(2), of q] by simp
next
  case (account q')
  with assms(2) have "delivery_ok (pl_ledger q)" "quiet (pl_ledger p) (pl_ledger q)"
    by (auto simp: pool_ok_def delivery_ok_def body_ok_def tables_ok_def quiet_def row_state_def)
  with account show ?thesis using pool_ok_quiet [OF assms(2), of q] by simp
qed (use assms(2) in \<open>simp_all add: pool_ok_def\<close>)

text \<open>A delivered row keeps its state, unless its lease was taken away while a worker held it.\<close>

lemma pool_step_delivered:
  assumes "pool_step cfg p ids q" "pool_ok expired p" "c \<notin> expired" "row_state (pl_ledger p) c = Some ''delivered''"
  shows "row_state (pl_ledger q) c = Some ''delivered''"
proof -
  have still: "row_state db c = Some ''delivered''" if "quiet (pl_ledger p) db" for db
    using that assms(4) by (auto simp: quiet_def)
  have ok: "delivery_ok (pl_ledger p)" using assms(2) by (simp add: pool_ok_def)
  from assms(1) show ?thesis
  proof cases
    case (claim i b now stamp w db)
    then have "quiet (pl_ledger p) db"
      using claim_states(2) [OF ok, of now stamp b "lease_duration cfg"]
      by (auto simp: claim_batch_def quiet_refl split: sum.splits prod.splits)
    with still claim show ?thesis by simp
  next
    case (report i b us now stamp)
    obtain db' where f: "finish_many now stamp us (pl_ledger p) = Inr db'"
      "\<And>c. c \<notin> du_capture_id ` set us \<Longrightarrow> row_state db' c = row_state (pl_ledger p) c"
      by (rule report_accepted [OF assms(2) report(3), where now = now and stamp = stamp], blast)
    have "holds_leases (pl_ledger p) expired (Reporting b us)"
      using assms(2) is_worker_set [OF report(3)] by (auto simp: pool_ok_def)
    with assms(3,4) have "c \<notin> du_capture_id ` set us" by (auto simp: holds_leases_def)
    with f report assms(4) show ?thesis by (simp add: report_batch_def)
  next
    case (reclaim now db)
    with reclaim_states(3,4) [OF ok, of cfg now ids db] assms(4) show ?thesis by (cases "c \<in> set ids") auto
  next
    case (ensure ls n db)
    with still ensure_quiet show ?thesis by simp
  next
    case (requeue now names reason out db)
    with still requeue_quiet [OF ok] show ?thesis by simp
  qed (use assms(4) in \<open>simp_all add: take_queued_simps row_state_def\<close>)
qed


section \<open>Who will deliver what is scheduled\<close>

text \<open>
  Every scheduled id is in the queue or in a worker's batch, and queue and batches keep their
  bounds.
\<close>

definition schedule_ok :: "relay_config \<Rightarrow> delivery_pool \<Rightarrow> bool" where
  "schedule_ok cfg p \<longleftrightarrow>
     set (ds_scheduled (pl_schedule p)) \<subseteq> set (ds_queue (pl_schedule p)) \<union> (\<Union>w \<in> set (pl_workers p). set (in_hand w))
     \<and> length (ds_queue (pl_schedule p)) \<le> rc_delivery_queue_items cfg
     \<and> (\<forall>w \<in> set (pl_workers p). length (in_hand w) \<le> max 1 (rc_delivery_batch_records cfg))"

definition batches :: "worker list \<Rightarrow> string set" where
  "batches ws = (\<Union>w \<in> set ws. set (in_hand w))"

lemma batches_update:
  assumes "is_worker p i v"
  shows "batches (pl_workers p) \<subseteq> set (in_hand v) \<union> batches ((pl_workers p)[i := w])"
    and "set (in_hand w) \<subseteq> batches ((pl_workers p)[i := w])"
proof -
  have i: "i < length (pl_workers p)" "pl_workers p ! i = v" using assms by (simp_all add: is_worker_def)
  show "batches (pl_workers p) \<subseteq> set (in_hand v) \<union> batches ((pl_workers p)[i := w])"
  proof
    fix c assume "c \<in> batches (pl_workers p)"
    then obtain j where j: "j < length (pl_workers p)" "c \<in> set (in_hand (pl_workers p ! j))"
      unfolding batches_def by (metis UN_E in_set_conv_nth)
    show "c \<in> set (in_hand v) \<union> batches ((pl_workers p)[i := w])"
    proof (cases "j = i")
      case False
      then have "pl_workers p ! j \<in> set ((pl_workers p)[i := w])" using j(1) by (metis length_list_update nth_list_update_neq nth_mem)
      with j(2) show ?thesis by (auto simp: batches_def)
    qed (use i j in simp)
  qed
  show "set (in_hand w) \<subseteq> batches ((pl_workers p)[i := w])"
    using set_update_memI [OF i(1), of w] by (auto simp: batches_def)
qed

lemma queue_capture_ok:
  assumes "queue_capture cfg c s = (ok, s')" "set (ds_scheduled s) \<subseteq> set (ds_queue s) \<union> B"
    "length (ds_queue s) \<le> rc_delivery_queue_items cfg"
  shows "set (ds_scheduled s') \<subseteq> set (ds_queue s') \<union> B \<and> length (ds_queue s') \<le> rc_delivery_queue_items cfg"
  using assms by (auto simp: queue_capture_def split: if_splits)

lemma schedule_ok_eq:
  "schedule_ok cfg p \<longleftrightarrow>
     set (ds_scheduled (pl_schedule p)) \<subseteq> set (ds_queue (pl_schedule p)) \<union> batches (pl_workers p)
     \<and> length (ds_queue (pl_schedule p)) \<le> rc_delivery_queue_items cfg
     \<and> (\<forall>w \<in> set (pl_workers p). length (in_hand w) \<le> max 1 (rc_delivery_batch_records cfg))"
  by (simp add: schedule_ok_def batches_def)

text \<open>A worker changes its batch: what leaves the batch leaves the schedule, what joins it left the queue.\<close>

lemma schedule_ok_worker:
  assumes "schedule_ok cfg p" "is_worker p i v" "pl_workers q = (pl_workers p)[i := w]"
    and "set (ds_scheduled (pl_schedule q)) \<subseteq> set (ds_scheduled (pl_schedule p)) - (set (in_hand v) - set (in_hand w))"
    and "set (ds_queue (pl_schedule p)) \<subseteq> set (ds_queue (pl_schedule q)) \<union> set (in_hand w)"
    and "length (ds_queue (pl_schedule q)) \<le> length (ds_queue (pl_schedule p))"
    and "length (in_hand w) \<le> max 1 (rc_delivery_batch_records cfg)"
  shows "schedule_ok cfg q"
  unfolding schedule_ok_eq assms(3)
proof (intro conjI ballI)
  note ok = assms(1) [unfolded schedule_ok_eq]
  show "set (ds_scheduled (pl_schedule q)) \<subseteq> set (ds_queue (pl_schedule q)) \<union> batches ((pl_workers p)[i := w])"
    using ok assms(4,5) batches_update [OF assms(2), of w] by blast
  show "length (ds_queue (pl_schedule q)) \<le> rc_delivery_queue_items cfg" using ok assms(6) by linarith
  fix x assume "x \<in> set ((pl_workers p)[i := w])"
  with ok assms(7) updated_worker [OF this] show "length (in_hand x) \<le> max 1 (rc_delivery_batch_records cfg)" by blast
qed

lemma schedule_ok_push:
  assumes "schedule_ok cfg p" "offer cfg c p = (ok, s)" "pl_schedule q = s" "pl_workers q = pl_workers p"
  shows "schedule_ok cfg q"
proof (cases "list_all ((=) WorkerStopped) (pl_workers p)")
  case True
  with assms show ?thesis by (simp add: offer_def schedule_ok_eq)
next
  case False
  with assms(2) have "queue_capture cfg c (pl_schedule p) = (ok, s)" by (simp add: offer_def)
  from queue_capture_ok [OF this, of "batches (pl_workers p)"] assms(1,3,4) show ?thesis by (simp add: schedule_ok_eq)
qed

lemma in_hand_bound:
  "schedule_ok cfg p \<Longrightarrow> is_worker p i w \<Longrightarrow> length (in_hand w) \<le> max 1 (rc_delivery_batch_records cfg)"
  by (auto simp: schedule_ok_def dest: is_worker_set)

lemma pool_step_schedule:
  assumes "pool_step cfg p ids q" "schedule_ok cfg p"
  shows "schedule_ok cfg q"
  using assms(1)
proof cases
  case (receive i c p')
  show ?thesis
    by (rule schedule_ok_worker [OF assms(2) receive(3), of _ "Collecting [c]"])
      (use take_queued_simps [OF receive(4)] in \<open>auto simp: receive(2)\<close>)
next
  case (collect_more i b c p')
  show ?thesis
    by (rule schedule_ok_worker [OF assms(2) collect_more(3), of _ "Collecting (b @ [c])"])
      (use take_queued_simps [OF collect_more(5)] collect_more(4) in \<open>auto simp: collect_more(2)\<close>)
next
  case (claim i b now stamp w db)
  have w: "in_hand w = b" using claim(4) by (auto simp: claim_batch_def split: sum.splits prod.splits)
  show ?thesis
    by (rule schedule_ok_worker [OF assms(2) claim(3), of _ w])
      (use w in_hand_bound [OF assms(2) claim(3)] in \<open>auto simp: claim(2)\<close>)
next
  case (send i b rs loaded post show_status read)
  show ?thesis
    by (rule schedule_ok_worker [OF assms(2) send(3), where w = "Reporting b (batch_updates post show_status read cfg loaded)"])
      (use in_hand_bound [OF assms(2) send(3)] in \<open>auto simp: send(2)\<close>)
next
  case (report i b us now stamp)
  show ?thesis
    by (rule schedule_ok_worker [OF assms(2) report(3), of _ "Forgetting b"])
      (use in_hand_bound [OF assms(2) report(3)] in \<open>auto simp: report(2)\<close>)
next
  case (forget i b)
  show ?thesis
    by (rule schedule_ok_worker [OF assms(2) forget(3), of _ Idle]) (auto simp: forget(2) forget_batch_def)
next
  case (stop i)
  show ?thesis by (rule schedule_ok_worker [OF assms(2) stop(3), of _ WorkerStopped]) (auto simp: stop(2))
next
  case (unschedule names)
  with assms(2) show ?thesis by (auto simp: schedule_ok_def forget_batch_def)
next
  case (requeue_one c names rest s)
  then obtain ok where "offer cfg c p = (ok, s)" by (auto simp: push_one_def split: prod.splits)
  from schedule_ok_push [OF assms(2) this] requeue_one show ?thesis by simp
next
  case (queue_one c names rest s)
  then obtain ok where "offer cfg c p = (ok, s)" by (auto simp: push_one_def split: prod.splits)
  from schedule_ok_push [OF assms(2) this] queue_one show ?thesis by simp
next
  case (queue c)
  obtain ok s where "offer cfg c p = (ok, s)" by fastforce
  from schedule_ok_push [OF assms(2) this] queue this show ?thesis by simp
qed (use assms(2) in \<open>simp_all add: schedule_ok_def\<close>)


section \<open>Runs\<close>

lemma spawned_ok: "delivery_ok db \<Longrightarrow> pool_ok {} (spawn_workers cfg db s)"
  by (auto simp: pool_ok_def spawn_workers_def workers_apart_def holds_leases_def in_set_replicate)

lemma queue_all_ok:
  assumes "set (ds_scheduled s) \<subseteq> set (ds_queue s)" "length (ds_queue s) \<le> rc_delivery_queue_items cfg"
  shows "set (ds_scheduled (queue_all cfg ids s)) \<subseteq> set (ds_queue (queue_all cfg ids s))
    \<and> length (ds_queue (queue_all cfg ids s)) \<le> rc_delivery_queue_items cfg"
  using assms
proof (induction ids arbitrary: s)
  case (Cons c ids)
  obtain ok s' where q: "queue_capture cfg c s = (ok, s')" by fastforce
  from queue_capture_ok [OF q, of "{}"] Cons.prems Cons.IH [of s'] show ?case by (simp add: q)
qed simp

lemma spawned_schedule:
  assumes "queue_pending cfg now db \<lparr>ds_scheduled = [], ds_queue = []\<rparr> = Inr s"
  shows "schedule_ok cfg (spawn_workers cfg db' s)"
proof -
  from assms obtain ids where "s = queue_all cfg ids \<lparr>ds_scheduled = [], ds_queue = []\<rparr>"
    by (auto simp: queue_pending_def res_simps)
  with queue_all_ok [of "\<lparr>ds_scheduled = [], ds_queue = []\<rparr>" cfg ids] show ?thesis
    by (auto simp: schedule_ok_def spawn_workers_def in_set_replicate)
qed

lemma pool_run_ok: "pool_run cfg start expired p \<Longrightarrow> pool_ok {} start \<Longrightarrow> pool_ok expired p"
  by (induction rule: pool_run.induct) (auto intro: pool_step_ok)

lemma pool_run_schedule: "pool_run cfg start expired p \<Longrightarrow> schedule_ok cfg start \<Longrightarrow> schedule_ok cfg p"
  by (induction rule: pool_run.induct) (auto intro: pool_step_schedule)

lemma pool_run_delivered:
  assumes "pool_run cfg p expired' q" "pool_ok expired p" "row_state (pl_ledger p) c = Some ''delivered''" "c \<notin> expired"
  shows "pool_ok (expired \<union> expired') q \<and> (c \<notin> expired' \<longrightarrow> row_state (pl_ledger q) c = Some ''delivered'')"
  using assms(1)
proof (induction rule: pool_run.induct)
  case run_start
  with assms(2,3) show ?case by simp
next
  case (run_step new r ids q)
  then have "pool_ok (expired \<union> new) r" by blast
  from pool_step_ok [OF run_step(2) this] pool_step_delivered [OF run_step(2) this, of c] run_step.IH assms(4)
  show ?case by (auto simp: Un_assoc)
qed

text \<open>A pool that starts on one pending Capture, and the run in which a worker claims it.\<close>

definition example_pool :: delivery_pool where
  "example_pool = spawn_workers example_relay one_pending \<lparr>ds_scheduled = [''a''], ds_queue = [''a'']\<rparr>"

lemma example_pool_received:
  "pool_run example_relay example_pool {}
     (set_worker 0 (Collecting [''a'']) (example_pool\<lparr>pl_schedule := \<lparr>ds_scheduled = [''a''], ds_queue = []\<rparr>\<rparr>))"
proof -
  have "is_worker example_pool 0 Idle" by (simp add: is_worker_def example_pool_def spawn_workers_def example_relay_def)
  moreover have "take_queued example_pool = Some (''a'', example_pool\<lparr>pl_schedule := \<lparr>ds_scheduled = [''a''], ds_queue = []\<rparr>\<rparr>)"
    by (simp add: take_queued_def example_pool_def spawn_workers_def)
  ultimately show ?thesis using run_step [OF run_start pool_step.receive] by fastforce
qed

lemma example_pool_claimed:
  obtains p rs where "pool_run example_relay example_pool {} p" "is_worker p 0 (Sending [''a''] rs)"
    "''a'' \<in> working (Sending [''a''] rs)"
proof -
  let ?p = "set_worker 0 (Collecting [''a'']) (example_pool\<lparr>pl_schedule := \<lparr>ds_scheduled = [''a''], ds_queue = []\<rparr>\<rparr>)"
  obtain c where "read_delivery_counters one_pending = Inr c" by (rule delivery_ok_read [OF one_pending_ok])
  then obtain rs db where cl: "claim_many 5 ''t'' [''a''] (lease_duration example_relay) one_pending = Inr (rs, db)"
    by (cases "fold (claim_one 5 ''t'' (lease_duration example_relay)) [''a''] (one_pending, c, [])") (simp add: claim_many_def)
  from claim_many_spec [OF one_pending_ok cl]
  have "dr_capture_id ` set rs = {i \<in> set [''a'']. claimable 5 one_pending i}" by (rule conjunct1)
  moreover have "{i \<in> set [''a'']. claimable 5 one_pending i} = {''a''}" using example_claimable by auto
  ultimately have ids: "dr_capture_id ` set rs = {''a''}" by simp
  then have "rs \<noteq> []" by (metis image_empty insert_not_empty list.set(1))
  then have "claim_batch example_relay 5 ''t'' [''a''] (pl_ledger ?p) = (Sending [''a''] rs, db)"
    using cl by (simp add: claim_batch_def example_pool_def spawn_workers_def)
  moreover have w: "is_worker ?p 0 (Collecting [''a''])"
    by (simp add: is_worker_def example_pool_def spawn_workers_def example_relay_def)
  ultimately have "pool_run example_relay example_pool ({} \<union> set [])
      (set_worker 0 (Sending [''a''] rs) (?p\<lparr>pl_ledger := db\<rparr>))"
    by (intro run_step [OF example_pool_received pool_step.claim])
  moreover have "is_worker (set_worker 0 (Sending [''a''] rs) (?p\<lparr>pl_ledger := db\<rparr>)) 0 (Sending [''a''] rs)"
    using w by (simp add: is_worker_def)
  ultimately show thesis using that ids by simp
qed

text \<open>
  C9: However the tasks interleave, no two workers are sending the same Capture, and the ledger says
  of what a worker is sending that it is leased, as long as no lease of that Capture ran out.
\<close>

theorem pool_sends_once:
  assumes "delivery_ok db" "pool_run cfg (spawn_workers cfg db s) expired p"
  shows "delivery_ok (pl_ledger p)
    \<and> (\<forall>i j v w c. is_worker p i v \<longrightarrow> is_worker p j w \<longrightarrow> i \<noteq> j \<longrightarrow> c \<in> working v \<longrightarrow> c \<in> working w \<longrightarrow> c \<in> expired)
    \<and> (\<forall>i w c. is_worker p i w \<longrightarrow> c \<in> working w \<longrightarrow> c \<notin> expired \<longrightarrow> row_state (pl_ledger p) c = Some ''inflight'')"
proof -
  note ok = pool_run_ok [OF assms(2) spawned_ok [OF assms(1)]]
  have "c \<in> expired" if "is_worker p i v" "is_worker p j w" "i \<noteq> j" "c \<in> working v" "c \<in> working w" for i j v w c
  proof -
    have "j < length (pl_workers p)" "j \<noteq> i" "pl_workers p ! j = w" using that(2,3) by (simp_all add: is_worker_def)
    with workers_apartD [OF _ that(1), of expired j] ok that(4,5) show ?thesis by (auto simp: pool_ok_def)
  qed
  moreover have "row_state (pl_ledger p) c = Some ''inflight''" if "is_worker p i w" "c \<in> working w" "c \<notin> expired" for i w c
    using ok is_worker_set [OF that(1)] that(2,3) unfolding pool_ok_def holds_leases_def by blast
  ultimately show ?thesis using ok unfolding pool_ok_def by blast
qed

theorem pool_sends_once_witness:
  "\<exists>p rs. pool_run example_relay example_pool {} p \<and> is_worker p 0 (Sending [''a''] rs)
    \<and> row_state (pl_ledger p) ''a'' = Some ''inflight''"
proof -
  obtain p rs where p: "pool_run example_relay example_pool {} p" "is_worker p 0 (Sending [''a''] rs)"
    "''a'' \<in> working (Sending [''a''] rs)" by (rule example_pool_claimed)
  with pool_sends_once [OF one_pending_ok p(1) [unfolded example_pool_def]] show ?thesis by blast
qed

text \<open>
  C10: Delivered is final: once a Capture is marked delivered, no interleaving of workers, reaper,
  operators and producers changes that, unless one of its leases ran out before it was reported.
\<close>

theorem delivered_is_final:
  assumes "delivery_ok db" "pool_run cfg (spawn_workers cfg db s) expired p"
    and "row_state (pl_ledger p) c = Some ''delivered''" "pool_run cfg p expired' q" "c \<notin> expired \<union> expired'"
  shows "row_state (pl_ledger q) c = Some ''delivered''"
  using pool_run_delivered [OF assms(4) pool_run_ok [OF assms(2) spawned_ok [OF assms(1)]] assms(3)] assms(5) by blast

theorem delivered_is_final_witness:
  "\<exists>db p q. pool_run example_relay (spawn_workers example_relay db \<lparr>ds_scheduled = [''a''], ds_queue = [''a'']\<rparr>) {} p
    \<and> pool_run example_relay p {} q \<and> pl_shutdown q \<and> row_state (pl_ledger q) ''a'' = Some ''delivered''"
proof -
  let ?u = "\<lparr>du_capture_id = ''a'', du_state = ''delivered'', du_error = None, du_next_attempt = None\<rparr>"
  have u: "distinct (map du_capture_id [?u])" "\<forall>u \<in> set [?u]. du_state u \<in> set final_states"
    "\<forall>u \<in> set [?u]. tget (dd_deliveries one_pending) (du_capture_id u) \<noteq> None"
    using one_pending_row(1) by (simp_all add: final_states_def)
  from finish_many_spec [OF one_pending_ok u, of 6 "''u''"] obtain db where
    db: "delivery_ok db" "row_state db ''a'' = Some ''delivered''"
    using one_pending_row(1) by (auto simp: row_state_def)
  let ?p = "spawn_workers example_relay db \<lparr>ds_scheduled = [''a''], ds_queue = [''a'']\<rparr>"
  have run: "pool_run example_relay ?p ({} \<union> set []) (?p\<lparr>pl_shutdown := True\<rparr>)"
    by (rule run_step [OF run_start pool_step.close])
  have "row_state (pl_ledger (?p\<lparr>pl_shutdown := True\<rparr>)) ''a'' = Some ''delivered''"
    by (rule delivered_is_final [OF db(1) run_start _ run]) (simp_all add: db(2) spawn_workers_def)
  moreover have "pl_shutdown (?p\<lparr>pl_shutdown := True\<rparr>)" by simp
  ultimately show ?thesis using run_start [of example_relay ?p] run by (metis Un_empty_left empty_set)
qed

text \<open>
  C11: The schedule never forgets a Capture: in every reachable pool an id is in the queue, in the
  batch of a worker, or taken by the queue when it is offered, there is room and a worker is left;
  the queue keeps its bound; and the report of a worker is always accepted.
\<close>

theorem schedule_never_stuck:
  assumes "delivery_ok db" "queue_pending cfg now db \<lparr>ds_scheduled = [], ds_queue = []\<rparr> = Inr s"
    and "pool_run cfg (spawn_workers cfg db s) expired p"
  shows "(\<forall>c. c \<in> set (ds_queue (pl_schedule p)) \<or> (\<exists>i w. is_worker p i w \<and> c \<in> set (in_hand w))
      \<or> (length (ds_queue (pl_schedule p)) < rc_delivery_queue_items cfg \<longrightarrow> (\<exists>w \<in> set (pl_workers p). w \<noteq> WorkerStopped) \<longrightarrow>
           c \<in> set (ds_queue (snd (offer cfg c p)))))
    \<and> length (ds_queue (pl_schedule p)) \<le> rc_delivery_queue_items cfg
    \<and> (\<forall>i b us at stamp. is_worker p i (Reporting b us) \<longrightarrow> (\<exists>db'. finish_many at stamp us (pl_ledger p) = Inr db'))"
proof -
  note ok = pool_run_ok [OF assms(3) spawned_ok [OF assms(1)]]
  note sched = pool_run_schedule [OF assms(3) spawned_schedule [OF assms(2)], unfolded schedule_ok_def]
  have held: "\<exists>i w. is_worker p i w \<and> c \<in> set (in_hand w)"
    if "c \<in> set (ds_scheduled (pl_schedule p))" "c \<notin> set (ds_queue (pl_schedule p))" for c
  proof -
    from that sched obtain w where "w \<in> set (pl_workers p)" "c \<in> set (in_hand w)" by blast
    then show ?thesis by (metis in_set_conv_nth is_worker_def)
  qed
  have pushed: "c \<in> set (ds_queue (snd (offer cfg c p)))"
    if "c \<notin> set (ds_scheduled (pl_schedule p))" "length (ds_queue (pl_schedule p)) < rc_delivery_queue_items cfg"
      "w \<in> set (pl_workers p)" "w \<noteq> WorkerStopped" for c w
    using that by (auto simp: offer_def queue_capture_def list_all_iff)
  have "\<exists>db'. finish_many at stamp us (pl_ledger p) = Inr db'" if "is_worker p i (Reporting b us)" for i b us at stamp
    by (rule report_accepted [OF ok that, where now = at and stamp = stamp]) blast
  with held pushed sched show ?thesis by blast
qed

theorem schedule_never_stuck_witness:
  "\<exists>s p. queue_pending example_relay 5 one_pending \<lparr>ds_scheduled = [], ds_queue = []\<rparr> = Inr s
    \<and> pool_run example_relay (spawn_workers example_relay one_pending s) {} p
    \<and> length (ds_queue (pl_schedule p)) \<le> 8"
proof -
  from pending_ids_spec [OF one_pending_ok, of 5 8] obtain ids where
    "pending_ids 5 8 one_pending = Inr ids" by blast
  then obtain s where s: "queue_pending example_relay 5 one_pending \<lparr>ds_scheduled = [], ds_queue = []\<rparr> = Inr s"
    by (simp add: queue_pending_def example_relay_def)
  note run = run_step [OF run_start pool_step.close, of example_relay "spawn_workers example_relay one_pending s"]
  from schedule_never_stuck [OF one_pending_ok s run] s run show ?thesis by (auto simp: example_relay_def)
qed

end
